(* ===== verification/Prelude.thy ===== *)
theory Prelude
  imports Complex_Main "HOL-Library.List_Lexorder" "HOL-Library.Char_ord"
begin

text \<open>
  Shared vocabulary of the development: the exceptions the modelled code raises, the result and
  state-exception types that carry them, Python text predicates, SHA-256 digest syntax, and
  dictionaries keyed by text as strictly sorted association lists.  A Python \<open>dict\<close> compares by
  content, not by insertion order, and every consumer modelled here either looks a key up or
  iterates in sorted key order; a strictly sorted association list is therefore a canonical
  representative, and HOL equality of two well-formed dictionaries is Python's \<open>==\<close>.
\<close>

named_theorems res_simps \<open>inversion of computations that may raise\<close>
named_theorems dict_simps \<open>lookup and well-formedness of dictionaries\<close>


section \<open>Exceptions and results\<close>

text \<open>
  One constructor per exception class of the modelled modules; messages are not modelled.
  \<open>ProcessStopped\<close> is no exception: it marks a call that a crash cut short.
\<close>

datatype py_error =
    ValueError | TypeError | KeyError | IndexError | RuntimeError | AssertionError
  | CanonicalEncodingError | DigestValidationError
  | MachineConflict | MachineIntegrityError
  | MachineExecutionError | MachineNotOpen
  | MachineAuthorityError | MachineLeaseBusy | MachineLeaseLost | MachineLeaseClockConflict
  | EffectIntentConflict | EffectRecoveryRequired | PendingEffectRecoveryRequired
  | EffectJournalIntegrityError
  | ExecutionBudgetExceeded
  | ZeroDivisionError | ChildMachinePending | WorkerAdmissionError | WorkerAuthenticationError
  | OverflowError | LookupError | FileNotFoundError | ProcessStopped

type_synonym 'a res = "py_error + 'a"

definition res_bind :: "'a res \<Rightarrow> ('a \<Rightarrow> 'b res) \<Rightarrow> 'b res" where
  "res_bind m f = (case m of Inl e \<Rightarrow> Inl e | Inr x \<Rightarrow> f x)"

text \<open>\<open>require b e\<close> is \<^verbatim>\<open>if not b: raise e\<close>.\<close>

definition require :: "bool \<Rightarrow> py_error \<Rightarrow> unit res" where
  "require b e = (if b then Inr () else Inl e)"

fun res_map :: "('a \<Rightarrow> 'b res) \<Rightarrow> 'a list \<Rightarrow> 'b list res" where
  "res_map f [] = Inr []"
| "res_map f (x # xs) = res_bind (f x) (\<lambda>y. res_bind (res_map f xs) (\<lambda>ys. Inr (y # ys)))"

text \<open>A loop over a sequence that threads a value and stops at the first exception.\<close>

fun res_fold :: "('s \<Rightarrow> 'a \<Rightarrow> 's res) \<Rightarrow> 's \<Rightarrow> 'a list \<Rightarrow> 's res" where
  "res_fold f s [] = Inr s"
| "res_fold f s (x # xs) = res_bind (f s x) (\<lambda>s'. res_fold f s' xs)"

fun is_ok :: "'a res \<Rightarrow> bool" where
  "is_ok (Inl _) = False"
| "is_ok (Inr _) = True"

lemma res_bind_Inl [simp]: "res_bind (Inl e) f = Inl e"
  and res_bind_Inr [simp]: "res_bind (Inr x) f = f x"
  by (simp_all add: res_bind_def)

lemma res_bind_eq_Inr [res_simps]:
  "res_bind m f = Inr y \<longleftrightarrow> (\<exists>x. m = Inr x \<and> f x = Inr y)"
  by (cases m) simp_all

lemma res_bind_eq_Inl [res_simps]:
  "res_bind m f = Inl e \<longleftrightarrow> m = Inl e \<or> (\<exists>x. m = Inr x \<and> f x = Inl e)"
  by (cases m) simp_all

lemma require_eq_Inr [res_simps]: "require b e = Inr u \<longleftrightarrow> b"
  by (simp add: require_def)

lemma require_eq_Inl [res_simps]: "require b e = Inl e' \<longleftrightarrow> \<not> b \<and> e' = e"
  by (auto simp: require_def)

lemma require_True [simp]: "require True e = Inr ()"
  and require_False [simp]: "require False e = Inl e"
  by (simp_all add: require_def)

lemma res_map_cong [fundef_cong]:
  "xs = ys \<Longrightarrow> (\<And>x. x \<in> set ys \<Longrightarrow> f x = g x) \<Longrightarrow> res_map f xs = res_map g ys"
  by (induction xs arbitrary: ys) auto

lemma res_bind_cong [fundef_cong]:
  "m = m' \<Longrightarrow> (\<And>x. m' = Inr x \<Longrightarrow> f x = g x) \<Longrightarrow> res_bind m f = res_bind m' g"
  by (cases m') auto

lemma res_fold_cong [fundef_cong]:
  "s = t \<Longrightarrow> xs = ys \<Longrightarrow> (\<And>s x. x \<in> set ys \<Longrightarrow> f s x = g s x) \<Longrightarrow> res_fold f s xs = res_fold g t ys"
proof (induction xs arbitrary: s t ys)
  case (Cons x xs)
  then have "f s x = g s x" by auto
  moreover have "res_fold f s' xs = res_fold g s' xs" for s'
    using Cons.IH [of s' s' xs] Cons.prems by auto
  ultimately show ?case using Cons.prems by (auto simp: res_bind_def split: sum.splits)
qed auto

lemma is_ok_iff: "is_ok r \<longleftrightarrow> (\<exists>x. r = Inr x)"
  by (cases r) simp_all

lemma res_map_length: "res_map f xs = Inr ys \<Longrightarrow> length ys = length xs"
  by (induction xs arbitrary: ys) (auto simp: res_simps)

lemma res_map_nth:
  "res_map f xs = Inr ys \<Longrightarrow> i < length xs \<Longrightarrow> f (xs ! i) = Inr (ys ! i)"
proof (induction xs arbitrary: ys i)
  case Nil
  then show ?case by simp
next
  case (Cons x xs)
  then show ?case by (cases i) (auto simp: res_simps)
qed

lemma res_map_all_Inr:
  "(\<And>x. x \<in> set xs \<Longrightarrow> f x = Inr (g x)) \<Longrightarrow> res_map f xs = Inr (map g xs)"
  by (induction xs) simp_all

lemma res_map_if:
  "res_map (\<lambda>x. if P x then Inr (g x) else Inl e) xs =
     (if \<forall>x \<in> set xs. P x then Inr (map g xs) else Inl e)"
  by (induction xs) auto

lemma res_map_mem:
  "res_map f xs = Inr ys \<Longrightarrow> x \<in> set xs \<Longrightarrow> \<exists>y \<in> set ys. f x = Inr y"
  by (induction xs arbitrary: ys) (auto simp: res_simps)

lemma res_map_ex:
  "(\<And>x. x \<in> set xs \<Longrightarrow> \<exists>y. f x = Inr y \<and> P x y) \<Longrightarrow> \<exists>ys. res_map f xs = Inr ys \<and> list_all2 P xs ys"
proof (induction xs)
  case (Cons x xs)
  obtain y where "f x = Inr y" "P x y" using Cons.prems [of x] by auto
  moreover obtain ys where "res_map f xs = Inr ys" "list_all2 P xs ys" using Cons by auto
  ultimately show ?case by simp
qed simp

lemma res_map_id: "(\<And>x. x \<in> set xs \<Longrightarrow> f (g x) = Inr x) \<Longrightarrow> res_map f (map g xs) = Inr xs"
  by (induction xs) simp_all


lemma res_fold_append: "res_fold f s (xs @ ys) = res_bind (res_fold f s xs) (\<lambda>t. res_fold f t ys)"
  by (induction xs arbitrary: s) (simp_all add: res_bind_def split: sum.split)

lemma list_all2_ex1: "list_all2 P xs ys \<Longrightarrow> x \<in> set xs \<Longrightarrow> \<exists>y. P x y"
  by (induction rule: list_all2_induct) auto

section \<open>Operations on mutable objects\<close>

text \<open>
  A method of a mutable object takes the object's state and returns what the call returns or
  raises, together with the state it leaves behind: an exception does not undo the assignments
  made before it.
\<close>

type_synonym ('s, 'a) action = "'s \<Rightarrow> 'a res \<times> 's"

definition act_bind :: "('s, 'a) action \<Rightarrow> ('a \<Rightarrow> ('s, 'b) action) \<Rightarrow> ('s, 'b) action" where
  "act_bind m f s = (case m s of (Inl e, s') \<Rightarrow> (Inl e, s') | (Inr x, s') \<Rightarrow> f x s')"

definition act_lift :: "'a res \<Rightarrow> ('s, 'a) action" where
  "act_lift r s = (r, s)"

lemma act_bind_eq_Inr [res_simps]:
  "act_bind m f s = (Inr y, t) \<longleftrightarrow> (\<exists>x s'. m s = (Inr x, s') \<and> f x s' = (Inr y, t))"
  by (auto simp: act_bind_def split: prod.splits sum.splits)

lemma act_lift_eq [res_simps]: "act_lift r s = (r', t) \<longleftrightarrow> r' = r \<and> t = s"
  by (auto simp: act_lift_def)


section \<open>Python text\<close>

text \<open>
  \<open>str.isspace\<close> on the Latin-1 range, which is what \<open>char\<close> covers; \<open>str.strip()\<close> removes such
  characters from both ends, and \<^verbatim>\<open>not value.strip()\<close> is the emptiness test the
  constructors use.
\<close>

definition py_isspace :: "char \<Rightarrow> bool" where
  "py_isspace c = (let n = (of_char c :: nat) in
     (9 \<le> n \<and> n \<le> 13) \<or> (28 \<le> n \<and> n \<le> 32) \<or> n = 133 \<or> n = 160)"

definition py_strip :: "string \<Rightarrow> string" where
  "py_strip s = rev (dropWhile py_isspace (rev (dropWhile py_isspace s)))"

definition nonblank :: "string \<Rightarrow> bool" where
  "nonblank s = (py_strip s \<noteq> [])"

lemma nonblank_iff: "nonblank s \<longleftrightarrow> (\<exists>c \<in> set s. \<not> py_isspace c)"
proof
  assume nb: "nonblank s"
  show "\<exists>c \<in> set s. \<not> py_isspace c"
  proof (rule ccontr)
    assume "\<not> (\<exists>c \<in> set s. \<not> py_isspace c)"
    then have "dropWhile py_isspace s = []"
      by (simp add: dropWhile_eq_Nil_conv)
    with nb show False
      by (simp add: nonblank_def py_strip_def)
  qed
next
  assume "\<exists>c \<in> set s. \<not> py_isspace c"
  then obtain y ys where d: "dropWhile py_isspace s = y # ys"
    by (metis dropWhile_eq_Nil_conv list.exhaust)
  then have "\<not> py_isspace y"
    by (metis hd_dropWhile list.discI list.sel(1))
  then have "dropWhile py_isspace (rev (y # ys)) \<noteq> []"
    by (auto simp: dropWhile_eq_Nil_conv)
  then show "nonblank s"
    by (simp add: nonblank_def py_strip_def d)
qed

definition opt_nonblank :: "string option \<Rightarrow> bool" where
  "opt_nonblank x = (case x of None \<Rightarrow> True | Some s \<Rightarrow> nonblank s)"

text \<open>\<open>require_sha256\<close> of \<open>kernel/canonical.py\<close>: 64 lowercase hexadecimal digits.\<close>

definition is_sha256 :: "string \<Rightarrow> bool" where
  "is_sha256 s = (length s = 64 \<and> list_all (\<lambda>c. c \<in> set ''0123456789abcdef'') s)"

definition require_sha256 :: "string \<Rightarrow> string res" where
  "require_sha256 s = (if is_sha256 s then Inr s else Inl DigestValidationError)"

lemma require_sha256_eq_Inr [res_simps]: "require_sha256 s = Inr t \<longleftrightarrow> is_sha256 s \<and> t = s"
  by (auto simp: require_sha256_def)

lemma is_sha256_nonblank: "is_sha256 s \<Longrightarrow> nonblank s"
proof -
  assume s: "is_sha256 s"
  then obtain c cs where "s = c # cs" by (cases s) (auto simp: is_sha256_def)
  with s have c: "c \<in> set ''0123456789abcdef''" and "c \<in> set s"
    by (auto simp: is_sha256_def)
  from c have "\<not> py_isspace c" by (auto simp: py_isspace_def Let_def)
  with \<open>c \<in> set s\<close> show ?thesis by (auto simp: nonblank_iff)
qed


section \<open>Dictionaries\<close>

type_synonym ('k, 'v) dict = "('k \<times> 'v) list"

definition dict_wf :: "('k::linorder, 'v) dict \<Rightarrow> bool" where
  "dict_wf d = sorted_wrt (<) (map fst d)"

fun dict_set :: "'k::linorder \<Rightarrow> 'v \<Rightarrow> ('k, 'v) dict \<Rightarrow> ('k, 'v) dict" where
  "dict_set k v [] = [(k, v)]"
| "dict_set k v ((k', v') # d) =
     (if k < k' then (k, v) # (k', v') # d
      else if k = k' then (k, v) # d
      else (k', v') # dict_set k v d)"

definition dict_del :: "'k \<Rightarrow> ('k, 'v) dict \<Rightarrow> ('k, 'v) dict" where
  "dict_del k d = filter (\<lambda>kv. fst kv \<noteq> k) d"

definition dict_of :: "('k::linorder \<times> 'v) list \<Rightarrow> ('k, 'v) dict" where
  "dict_of kvs = foldl (\<lambda>d kv. dict_set (fst kv) (snd kv) d) [] kvs"

lemma map_of_dict_set [dict_simps, simp]: "map_of (dict_set k v d) = (map_of d)(k \<mapsto> v)"
  by (induction d) (auto simp: fun_eq_iff)

lemma map_of_dict_del [dict_simps, simp]: "map_of (dict_del k d) = (map_of d)(k := None)"
  by (induction d) (auto simp: dict_del_def fun_eq_iff)

lemma set_keys_dict_set [dict_simps]: "fst ` set (dict_set k v d) = insert k (fst ` set d)"
  by (induction k v d rule: dict_set.induct) (simp_all add: insert_commute)

lemma set_keys_dict_del [dict_simps]: "fst ` set (dict_del k d) = fst ` set d - {k}"
  by (auto simp: dict_del_def)

lemma dict_wf_Nil [dict_simps, simp]: "dict_wf []"
  by (simp add: dict_wf_def)

lemma dict_wf_Cons [dict_simps]:
  "dict_wf (kv # d) \<longleftrightarrow> (\<forall>k' \<in> fst ` set d. fst kv < k') \<and> dict_wf d"
  by (auto simp: dict_wf_def)

lemma dict_wf_set [dict_simps]: "dict_wf d \<Longrightarrow> dict_wf (dict_set k v d)"
proof (induction k v d rule: dict_set.induct)
  case (1 k v)
  then show ?case by (simp add: dict_simps)
next
  case (2 k v k' v' d)
  then show ?case
    by (cases k k' rule: linorder_cases) (auto simp: dict_simps intro: less_trans)
qed

lemma dict_wf_del [dict_simps]: "dict_wf d \<Longrightarrow> dict_wf (dict_del k d)"
  by (induction d) (auto simp: dict_simps dict_del_def)

lemma dict_wf_distinct: "dict_wf d \<Longrightarrow> distinct (map fst d)"
  by (simp add: dict_wf_def strict_sorted_iff)

lemma dict_wf_of [dict_simps]: "dict_wf (dict_of kvs)"
proof -
  have "dict_wf d \<Longrightarrow> dict_wf (foldl (\<lambda>d kv. dict_set (fst kv) (snd kv) d) d kvs)" for d
    by (induction kvs arbitrary: d) (auto simp: dict_simps)
  then show ?thesis by (simp add: dict_of_def)
qed

lemma map_of_mem: "dict_wf d \<Longrightarrow> (k, v) \<in> set d \<Longrightarrow> map_of d k = Some v"
  by (simp add: dict_wf_distinct)

text \<open>Two well-formed dictionaries with the same entries are the same list.\<close>

lemma dict_eqI:
  "dict_wf xs \<Longrightarrow> dict_wf ys \<Longrightarrow> map_of xs = map_of ys \<Longrightarrow> xs = ys"
proof (induction xs arbitrary: ys)
  case Nil
  then have "map_of ys = Map.empty" by simp
  then have "dom (map_of ys) = {}" by simp
  then show ?case by (simp add: dom_map_of_conv_image_fst)
next
  case (Cons kv xs)
  obtain k v where kv: "kv = (k, v)" by (cases kv)
  from Cons.prems(3) have "map_of ys k = Some v" by (simp add: kv fun_eq_iff) metis
  then obtain kw ws where ys: "ys = kw # ws" by (cases ys) auto
  obtain l w where kw: "kw = (l, w)" by (cases kw)
  have dom_eq: "insert k (fst ` set xs) = insert l (fst ` set ws)"
    using arg_cong [OF Cons.prems(3), of dom]
    by (simp only: dom_map_of_conv_image_fst kv ys kw list.set image_insert fst_conv)
  have below: "\<forall>m \<in> fst ` set xs. k < m" "\<forall>m \<in> fst ` set ws. l < m"
    using Cons.prems(1,2) by (simp_all add: dict_simps kv ys kw)
  have "k = l"
    using dom_eq below by (metis insertE insertI1 less_asym)
  moreover have "v = w"
    using \<open>map_of ys k = Some v\<close> \<open>k = l\<close> by (simp add: ys kw)
  moreover have "map_of xs = map_of ws"
  proof
    fix m
    show "map_of xs m = map_of ws m"
    proof (cases "m = k")
      case True
      then have "m \<notin> fst ` set xs" "m \<notin> fst ` set ws"
        using below \<open>k = l\<close> by auto
      then show ?thesis by (metis dom_map_of_conv_image_fst domIff)
    next
      case False
      with fun_cong [OF Cons.prems(3), of m] show ?thesis
        by (simp add: kv ys kw \<open>k = l\<close>)
    qed
  qed
  ultimately show ?case
    using Cons.IH [of ws] Cons.prems(1,2) by (simp add: dict_simps kv ys kw)
qed

text \<open>Assigning or deleting one key.\<close>

definition dict_put :: "'k::linorder \<Rightarrow> 'v option \<Rightarrow> ('k, 'v) dict \<Rightarrow> ('k, 'v) dict" where
  "dict_put k x d = (case x of None \<Rightarrow> dict_del k d | Some v \<Rightarrow> dict_set k v d)"

lemma map_of_dict_put [simp]: "map_of (dict_put k x d) = (map_of d)(k := x)"
  by (simp add: dict_put_def split: option.split)

lemma dict_wf_put [dict_simps]: "dict_wf d \<Longrightarrow> dict_wf (dict_put k x d)"
  by (simp add: dict_put_def dict_simps split: option.split)

lemma res_fold_set:
  assumes "distinct (map fst kxs)" "\<And>k x. (k, x) \<in> set kxs \<Longrightarrow> f k x = Inr (g k)"
  shows "\<exists>r. res_fold (\<lambda>r kx. res_bind (f (fst kx) (snd kx)) (\<lambda>v. Inr (dict_set (fst kx) v r))) d kxs = Inr r \<and>
    map_of r = (\<lambda>k. if k \<in> fst ` set kxs then Some (g k) else map_of d k) \<and> (dict_wf d \<longrightarrow> dict_wf r)"
  using assms
proof (induction kxs arbitrary: d)
  case (Cons kx kxs)
  obtain k x where kx: "kx = (k, x)" by (cases kx)
  have "f k x = Inr (g k)" using Cons.prems(2) by (simp add: kx)
  with Cons.IH [of "dict_set k (g k) d"] Cons.prems show ?case
    by (fastforce simp: kx fun_eq_iff dict_simps)
qed simp

text \<open>
  A loop that assigns distinct keys, each from what the base holds there, is a simultaneous update.
\<close>

lemma res_fold_put:
  assumes "distinct (map fst kxs)"
    and "\<And>r k x. (k, x) \<in> set kxs \<Longrightarrow> step r (k, x) = res_bind (upd (map_of r k) k x) (\<lambda>v. Inr (dict_put k v r))"
  shows "res_fold step base kxs = Inr r \<Longrightarrow>
    (\<forall>(k, x) \<in> set kxs. upd (map_of base k) k x = Inr (map_of r k)) \<and>
    (\<forall>k. k \<notin> fst ` set kxs \<longrightarrow> map_of r k = map_of base k) \<and> (dict_wf base \<longrightarrow> dict_wf r)"
  using assms
proof (induction kxs arbitrary: base)
  case (Cons kx kxs)
  obtain k x where kx: "kx = (k, x)" by (cases kx)
  from Cons.prems(1) obtain v where v: "upd (map_of base k) k x = Inr v"
    and rest: "res_fold step (dict_put k v base) kxs = Inr r"
    by (auto simp: kx Cons.prems(3) res_simps)
  from Cons.IH [OF rest] Cons.prems(2,3)
  have 1: "\<forall>(j, y) \<in> set kxs. upd (map_of (dict_put k v base) j) j y = Inr (map_of r j)"
    and 2: "\<forall>j. j \<notin> fst ` set kxs \<longrightarrow> map_of r j = map_of (dict_put k v base) j"
    and 3: "dict_wf (dict_put k v base) \<longrightarrow> dict_wf r"
    by simp_all
  have k: "k \<notin> fst ` set kxs" using Cons.prems(2) by (simp add: kx)
  then have "map_of r k = v" using 2 by simp
  moreover have "upd (map_of base j) j y = Inr (map_of r j)" if "(j, y) \<in> set kxs" for j y
  proof -
    have "j \<noteq> k" using k that by force
    with 1 that show ?thesis by fastforce
  qed
  moreover have "map_of r j = map_of base j" if "j \<notin> insert k (fst ` set kxs)" for j
    using 2 that by simp
  ultimately show ?case using v 3 by (auto simp: kx dict_simps)
qed simp

lemma res_fold_put_ok:
  assumes "distinct (map fst kxs)"
    and "\<And>r k x. (k, x) \<in> set kxs \<Longrightarrow> step r (k, x) = res_bind (upd (map_of r k) k x) (\<lambda>v. Inr (dict_put k v r))"
    and "\<forall>(k, x) \<in> set kxs. \<exists>v. upd (map_of base k) k x = Inr v"
  shows "\<exists>r. res_fold step base kxs = Inr r"
  using assms
proof (induction kxs arbitrary: base)
  case (Cons kx kxs)
  obtain k x where kx: "kx = (k, x)" by (cases kx)
  from Cons.prems(3) obtain v where v: "upd (map_of base k) k x = Inr v"
    by (auto simp: kx)
  have k: "k \<notin> fst ` set kxs" using Cons.prems(1) by (simp add: kx)
  have "\<exists>r. res_fold step (dict_put k v base) kxs = Inr r"
  proof (rule Cons.IH)
    show "\<forall>(j, y) \<in> set kxs. \<exists>w. upd (map_of (dict_put k v base) j) j y = Inr w"
    proof clarify
      fix j y assume jy: "(j, y) \<in> set kxs"
      then have "j \<noteq> k" using k by force
      with Cons.prems(3) jy show "\<exists>w. upd (map_of (dict_put k v base) j) j y = Inr w" by auto
    qed
  qed (use Cons.prems in simp_all)
  then show ?case using v by (simp add: kx Cons.prems(2))
qed simp

lemma dict_set_get_same: "dict_wf d \<Longrightarrow> map_of d k = Some v \<Longrightarrow> dict_set k v d = d"
  by (rule dict_eqI) (auto simp: dict_simps fun_eq_iff)

end
