(* ===== verification/Canonical.thy ===== *)
theory Canonical
  imports Prelude
begin

text \<open>
  The canonical JSON kernel, \<open>foundation/kernel/kernel/canonical.py\<close>: frozen JSON values, their
  depth discipline, the canonical byte encoding that every content digest is taken over, and the
  Merkle content digest with its copy-on-write child cache.  The host library enters as the record
  \<open>hostlib\<close>: \<open>hashlib.sha256\<close> over bytes and \<open>float.__repr__\<close>, both outside the repository.
  Floats are exact rationals; non-finite floats do not exist in frozen JSON.
\<close>

section \<open>JSON values\<close>

datatype json =
    JNull
  | JBool bool
  | JInt int
  | JFloat rat
  | JStr string
  | JArr "json list"
  | JObj "(string, json) dict"

text \<open>Every object of a frozen value is a dictionary: strictly sorted keys, at every level.\<close>

fun json_wf :: "json \<Rightarrow> bool" where
  "json_wf (JArr xs) = (\<forall>x \<in> set xs. json_wf x)"
| "json_wf (JObj kvs) = (dict_wf kvs \<and> (\<forall>kv \<in> set kvs. json_wf (snd kv)))"
| "json_wf _ = True"

fun max_list :: "nat list \<Rightarrow> nat" where
  "max_list [] = 0"
| "max_list (n # ns) = max n (max_list ns)"

definition jobj :: "(string \<times> json) list \<Rightarrow> json" where
  "jobj kvs = JObj (dict_of kvs)"

fun jopt_str :: "string option \<Rightarrow> json" where
  "jopt_str None = JNull"
| "jopt_str (Some s) = JStr s"

definition jstrs :: "string list \<Rightarrow> json" where
  "jstrs xs = JArr (map JStr xs)"

fun jopt_int :: "int option \<Rightarrow> json" where
  "jopt_int None = JNull"
| "jopt_int (Some n) = JInt n"

fun jopt_float :: "rat option \<Rightarrow> json" where
  "jopt_float None = JNull"
| "jopt_float (Some q) = JFloat q"

section \<open>Freezing and the nesting limit\<close>

definition default_max_depth :: nat where
  "default_max_depth = 128"

fun frozen_json_required_depth :: "json \<Rightarrow> nat" where
  "frozen_json_required_depth (JObj kvs) =
     (if kvs = [] then 0
      else 1 + max_list (map (\<lambda>kv. frozen_json_required_depth (snd kv)) kvs))"
| "frozen_json_required_depth (JArr xs) =
     (if xs = [] then 0 else 1 + max_list (map frozen_json_required_depth xs))"
| "frozen_json_required_depth _ = 0"

text \<open>
  \<open>_freeze_json\<close>: every value is checked against the limit at its own depth, children one level
  deeper.  The already-frozen shortcut of the source replaces this traversal by the depth the
  value requires; \<open>freeze_at_required_depth\<close> below shows the two agree.
\<close>

fun freeze_at :: "nat \<Rightarrow> nat \<Rightarrow> json \<Rightarrow> json res" where
  "freeze_at max_depth depth (JObj kvs) =
     (if depth > max_depth then Inl CanonicalEncodingError
      else res_bind
        (res_map (\<lambda>kv. if depth + 1 > max_depth then Inl CanonicalEncodingError
                       else res_bind (freeze_at max_depth (depth + 1) (snd kv))
                              (\<lambda>v. Inr (fst kv, v))) kvs)
        (\<lambda>kvs'. Inr (JObj kvs')))"
| "freeze_at max_depth depth (JArr xs) =
     (if depth > max_depth then Inl CanonicalEncodingError
      else if xs \<noteq> [] \<and> depth + 1 > max_depth then Inl CanonicalEncodingError
      else res_bind (res_map (freeze_at max_depth (depth + 1)) xs) (\<lambda>xs'. Inr (JArr xs')))"
| "freeze_at max_depth depth v = (if depth > max_depth then Inl CanonicalEncodingError else Inr v)"

definition freeze_json :: "json \<Rightarrow> json res" where
  "freeze_json v = freeze_at default_max_depth 0 v"

section \<open>The canonical encoding\<close>

record hostlib =
  sha256_hex :: "string \<Rightarrow> string"
  float_repr :: "rat \<Rightarrow> string"

definition hex_digit :: "nat \<Rightarrow> char" where
  "hex_digit n = ''0123456789abcdef'' ! n"

text \<open>
  One character of \<open>json.encoder.encode_basestring\<close>: the two-character escapes, \<open>\u00XX\<close> for the
  remaining control characters, and the character itself otherwise.
\<close>

definition escape_char :: "char \<Rightarrow> string" where
  "escape_char c = (let n = (of_char c :: nat) in
     if c = CHR 0x22 then [CHR 0x5C, CHR 0x22]
     else if c = CHR 0x5C then [CHR 0x5C, CHR 0x5C]
     else if n = 10 then [CHR 0x5C, CHR ''n'']
     else if n = 13 then [CHR 0x5C, CHR ''r'']
     else if n = 9 then [CHR 0x5C, CHR ''t'']
     else if n = 12 then [CHR 0x5C, CHR ''f'']
     else if n = 8 then [CHR 0x5C, CHR ''b'']
     else if n < 32 then [CHR 0x5C, CHR ''u'', CHR ''0'', CHR ''0'',
                          hex_digit (n div 16), hex_digit (n mod 16)]
     else [c])"

definition encode_basestring :: "string \<Rightarrow> string" where
  "encode_basestring s = CHR 0x22 # concat (map escape_char s) @ [CHR 0x22]"

fun dec_nat :: "nat \<Rightarrow> string" where
  "dec_nat n = (if n < 10 then [hex_digit n] else dec_nat (n div 10) @ [hex_digit (n mod 10)])"

declare dec_nat.simps [simp del]

definition dec_int :: "int \<Rightarrow> string" where
  "dec_int n = (if n < 0 then CHR ''-'' # dec_nat (nat (- n)) else dec_nat (nat n))"

fun comma_join :: "string list \<Rightarrow> string" where
  "comma_join [] = []"
| "comma_join [x] = x"
| "comma_join (x # y # xs) = x @ CHR '','' # comma_join (y # xs)"

text \<open>\<open>_canonical_digest_update\<close> streams exactly these characters into the hash.\<close>

fun canonical_text :: "hostlib \<Rightarrow> json \<Rightarrow> string" where
  "canonical_text L JNull = ''null''"
| "canonical_text L (JBool b) = (if b then ''true'' else ''false'')"
| "canonical_text L (JInt n) = dec_int n"
| "canonical_text L (JStr s) = encode_basestring s"
| "canonical_text L (JFloat q) = float_repr L q"
| "canonical_text L (JObj kvs) =
     CHR ''{'' # comma_join (map (\<lambda>kv. encode_basestring (fst kv) @ CHR '':'' #
       canonical_text L (snd kv)) kvs) @ ''}''"
| "canonical_text L (JArr xs) = CHR ''['' # comma_join (map (canonical_text L) xs) @ '']''"

text \<open>UTF-8 on the Latin-1 range: one byte below 128, two bytes above.\<close>

definition utf8_char :: "char \<Rightarrow> string" where
  "utf8_char c = (let n = (of_char c :: nat) in
     if n < 128 then [c] else [char_of (192 + n div 64), char_of (128 + n mod 64)])"

definition utf8 :: "string \<Rightarrow> string" where
  "utf8 s = concat (map utf8_char s)"

definition canonical_bytes :: "hostlib \<Rightarrow> json \<Rightarrow> string" where
  "canonical_bytes L v = utf8 (canonical_text L v)"

definition canonical_digest :: "hostlib \<Rightarrow> json \<Rightarrow> string" where
  "canonical_digest L v = sha256_hex L (canonical_bytes L v)"

section \<open>The Merkle content digest\<close>

text \<open>\<open>len(x).to_bytes(8, "big")\<close> and \<open>bytes.fromhex\<close>.\<close>

definition be8 :: "nat \<Rightarrow> string" where
  "be8 n = map (\<lambda>i. char_of (n div 256 ^ i)) (rev [0..<8])"

definition hex_value :: "char \<Rightarrow> nat" where
  "hex_value c = (let n = (of_char c :: nat) in if n < 58 then n - 48 else n - 87)"

fun fromhex :: "string \<Rightarrow> string" where
  "fromhex (a # b # cs) = char_of (16 * hex_value a + hex_value b) # fromhex cs"
| "fromhex _ = []"

definition merkle_tag :: "string \<Rightarrow> string" where
  "merkle_tag kind = ''noetrium-json-merkle-v1'' @ [CHR 0x00] @ kind @ [CHR 0x00]"

definition object_preimage :: "(string \<times> string) list \<Rightarrow> string" where
  "object_preimage entries = merkle_tag ''object'' @ be8 (length entries) @
     concat (map (\<lambda>kd. be8 (length (utf8 (fst kd))) @ utf8 (fst kd) @ fromhex (snd kd)) entries)"

definition array_preimage :: "string list \<Rightarrow> string" where
  "array_preimage digests = merkle_tag ''array'' @ be8 (length digests) @ concat (map fromhex digests)"

definition scalar_preimage :: "string \<Rightarrow> string" where
  "scalar_preimage payload = merkle_tag ''scalar'' @ be8 (length payload) @ payload"

fun json_content_digest :: "hostlib \<Rightarrow> json \<Rightarrow> string" where
  "json_content_digest L (JObj kvs) = sha256_hex L (object_preimage
     (map (\<lambda>kv. (fst kv, json_content_digest L (snd kv))) kvs))"
| "json_content_digest L (JArr xs) =
     sha256_hex L (array_preimage (map (json_content_digest L) xs))"
| "json_content_digest L v = sha256_hex L (scalar_preimage (canonical_bytes L v))"

text \<open>
  The object branch with a child cache (\<open>_content_entry_digests\<close>): a cached child digest is used
  as it is, a missing one is computed and entered.  The digest and the extended cache are returned.
\<close>

definition child_digest :: "hostlib \<Rightarrow> (string \<rightharpoonup> string) \<Rightarrow> string \<Rightarrow> json \<Rightarrow> string" where
  "child_digest L cache k v =
     (case cache k of Some d \<Rightarrow> d | None \<Rightarrow> json_content_digest L v)"

definition content_digest_cached ::
    "hostlib \<Rightarrow> (string \<rightharpoonup> string) \<Rightarrow> (string, json) dict \<Rightarrow> string \<times> (string \<rightharpoonup> string)" where
  "content_digest_cached L cache kvs =
     (sha256_hex L (object_preimage (map (\<lambda>kv. (fst kv, child_digest L cache (fst kv) (snd kv))) kvs)),
      cache ++ map_of (map (\<lambda>kv. (fst kv, child_digest L cache (fst kv) (snd kv))) kvs))"

text \<open>The cache \<open>freeze_json_object_reusing\<close> hands to the copy.\<close>

definition reused_entry_digests ::
    "(string \<rightharpoonup> string) \<Rightarrow> (string, json) dict \<Rightarrow> string set \<Rightarrow> (string \<rightharpoonup> string)" where
  "reused_entry_digests cache frozen changed_keys =
     (\<lambda>k. if map_of frozen k \<noteq> None \<and> k \<notin> changed_keys then cache k else None)"

definition freeze_json_object_reusing ::
    "(string \<rightharpoonup> string) \<Rightarrow> (string, json) dict \<Rightarrow> string set
      \<Rightarrow> ((string, json) dict \<times> (string \<rightharpoonup> string)) res" where
  "freeze_json_object_reusing cache data changed_keys =
     res_bind (freeze_json (JObj data)) (\<lambda>v. case v of
       JObj frozen \<Rightarrow> Inr (frozen, reused_entry_digests cache frozen changed_keys)
     | _ \<Rightarrow> Inl CanonicalEncodingError)"

text \<open>A child cache is sound for an object when every entry is the digest of that child.\<close>

definition cache_sound :: "hostlib \<Rightarrow> (string \<rightharpoonup> string) \<Rightarrow> (string, json) dict \<Rightarrow> bool" where
  "cache_sound L cache kvs =
     (\<forall>k d. cache k = Some d \<longrightarrow> (\<exists>v. map_of kvs k = Some v \<and> d = json_content_digest L v))"


section \<open>Object literals\<close>

lemma map_of_dict_of: "map_of (dict_of kvs) = map_of (rev kvs)"
proof -
  have "map_of (foldl (\<lambda>d kv. dict_set (fst kv) (snd kv) d) d kvs) = map_of d ++ map_of (rev kvs)" for d
    by (induction kvs arbitrary: d) (auto simp: fun_eq_iff map_add_def split: option.split)
  then show ?thesis by (simp add: dict_of_def)
qed

lemma map_of_rev: "distinct (map fst kvs) \<Longrightarrow> map_of (rev kvs) = map_of kvs"
proof (rule map_of_inject_set [THEN iffD2])
qed (simp_all add: rev_map [symmetric])

lemma map_of_jobj: "distinct (map fst kvs) \<Longrightarrow> map_of (dict_of kvs) = map_of kvs"
  by (simp add: map_of_dict_of map_of_rev)

lemma keys_dict_of: "fst ` set (dict_of kvs) = fst ` set kvs"
  by (metis dom_map_of_conv_image_fst map_of_dict_of set_rev)

lemma alist_eq_by_keys:
  "distinct (map fst xs) \<Longrightarrow> map fst xs = map fst ys \<Longrightarrow> map_of xs = map_of ys \<Longrightarrow> xs = ys"
proof (induction xs arbitrary: ys)
  case (Cons x xs)
  then obtain y ys' where ys: "ys = y # ys'" by (cases ys) auto
  have k: "fst x = fst y" "map fst xs = map fst ys'" using Cons.prems(2) ys by auto
  have "snd x = snd y" using fun_cong [OF Cons.prems(3), of "fst x"] k
    by (cases x, cases y) (simp add: ys)
  moreover have "map_of xs = map_of ys'"
  proof
    fix j show "map_of xs j = map_of ys' j"
    proof (cases "j = fst x")
      case True
      then have "j \<notin> set (map fst xs)" using Cons.prems(1) by simp
      moreover then have "j \<notin> set (map fst ys')" using k(2) by simp
      ultimately show ?thesis by (metis map_of_eq_None_iff set_map)
    next
      case False
      with fun_cong [OF Cons.prems(3), of j] k(1) show ?thesis by (cases x, cases y) (simp add: ys)
    qed
  qed
  ultimately show ?case using Cons.IH [of ys'] Cons.prems(1) k by (simp add: ys prod_eq_iff)
qed simp

text \<open>Two object literals with the same distinct fields are equal exactly when the values agree.\<close>

lemma jobj_eq_iff:
  assumes "distinct (map fst xs)" "map fst ys = map fst xs"
  shows "jobj xs = jobj ys \<longleftrightarrow> xs = ys"
proof
  assume "jobj xs = jobj ys"
  then have "dict_of xs = dict_of ys" by (simp add: jobj_def)
  then have "map_of xs = map_of ys" using assms by (metis map_of_jobj)
  then show "xs = ys" using alist_eq_by_keys assms by metis
qed simp

lemma jopt_str_inj [simp]: "jopt_str x = jopt_str y \<longleftrightarrow> x = y"
  by (cases x; cases y) simp_all

lemma jopt_int_inj [simp]: "jopt_int x = jopt_int y \<longleftrightarrow> x = y"
  by (cases x; cases y) simp_all

lemma jstrs_inj [simp]: "jstrs xs = jstrs ys \<longleftrightarrow> xs = ys"
  by (simp add: jstrs_def inj_map_eq_map inj_on_def)

text \<open>
  A digest collision between two documents; equal digests of documents that do not collide mean
  equal documents.
\<close>

definition digest_collision :: "hostlib \<Rightarrow> json \<Rightarrow> json \<Rightarrow> bool" where
  "digest_collision L v w =
     (canonical_bytes L v \<noteq> canonical_bytes L w \<and> canonical_digest L v = canonical_digest L w)"

section \<open>Freezing\<close>

lemma max_list_le: "max_list ns \<le> m \<longleftrightarrow> (\<forall>n \<in> set ns. n \<le> m)"
  by (induction ns) auto

lemma freeze_at_required_depth:
  "freeze_at M d v =
     (if d + frozen_json_required_depth v \<le> M then Inr v else Inl CanonicalEncodingError)"
proof (induction M d v rule: freeze_at.induct)
  case (1 M d kvs)
  show ?case
  proof (cases "d + 1 \<le> M \<and> kvs \<noteq> []")
    case True
    have "res_map (\<lambda>kv. if d + 1 > M then Inl CanonicalEncodingError
             else res_bind (freeze_at M (d + 1) (snd kv)) (\<lambda>v. Inr (fst kv, v))) kvs =
          res_map (\<lambda>kv. if d + 1 + frozen_json_required_depth (snd kv) \<le> M then Inr kv
             else Inl CanonicalEncodingError) kvs"
      using True 1 by (intro res_map_cong refl) simp
    also have "\<dots> = (if \<forall>kv \<in> set kvs. d + 1 + frozen_json_required_depth (snd kv) \<le> M
             then Inr kvs else Inl CanonicalEncodingError)"
      by (subst res_map_if) simp
    also have "(\<forall>kv \<in> set kvs. d + 1 + frozen_json_required_depth (snd kv) \<le> M) \<longleftrightarrow>
             d + frozen_json_required_depth (JObj kvs) \<le> M"
      using True max_list_le [of "map (\<lambda>kv. frozen_json_required_depth (snd kv)) kvs" "M - (d + 1)"]
      by (auto simp: le_diff_conv2 add_ac)
    finally show ?thesis using True by simp
  next
    case False
    then show ?thesis by (cases kvs) auto
  qed
next
  case (2 M d xs)
  show ?case
  proof (cases "d + 1 \<le> M \<and> xs \<noteq> []")
    case True
    have "res_map (freeze_at M (d + 1)) xs =
          res_map (\<lambda>x. if d + 1 + frozen_json_required_depth x \<le> M then Inr x
             else Inl CanonicalEncodingError) xs"
      using True 2 by (intro res_map_cong refl) simp
    also have "\<dots> = (if \<forall>x \<in> set xs. d + 1 + frozen_json_required_depth x \<le> M
             then Inr xs else Inl CanonicalEncodingError)"
      by (subst res_map_if) simp
    also have "(\<forall>x \<in> set xs. d + 1 + frozen_json_required_depth x \<le> M) \<longleftrightarrow>
             d + frozen_json_required_depth (JArr xs) \<le> M"
      using True max_list_le [of "map frozen_json_required_depth xs" "M - (d + 1)"]
      by (auto simp: le_diff_conv2 add_ac)
    finally show ?thesis using True by simp
  next
    case False
    then show ?thesis by (cases xs) auto
  qed
qed auto

lemma freeze_json_eq:
  "freeze_json v = (if frozen_json_required_depth v \<le> default_max_depth then Inr v
     else Inl CanonicalEncodingError)"
  by (simp add: freeze_json_def freeze_at_required_depth)

lemma freeze_json_eq_Inr [res_simps]:
  "freeze_json v = Inr w \<longleftrightarrow> w = v \<and> frozen_json_required_depth v \<le> default_max_depth"
  by (auto simp: freeze_json_eq)

section \<open>The encoding is unambiguous\<close>

lemma hex_value_digit [simp]: "m < 16 \<Longrightarrow> hex_value (hex_digit m) = m"
proof -
  assume "m < 16"
  moreover have "list_all (\<lambda>m. hex_value (hex_digit m) = m) [0..<16]" by code_simp
  ultimately show ?thesis by (auto simp: list_all_iff)
qed

definition unescape_char :: "string \<Rightarrow> (char \<times> string) option" where
  "unescape_char s = (case s of [] \<Rightarrow> None | a # r \<Rightarrow>
     if a \<noteq> CHR 0x5C then Some (a, r)
     else (case r of [] \<Rightarrow> None | b # r' \<Rightarrow>
       if b = CHR ''n'' then Some (CHR 0x0A, r')
       else if b = CHR ''r'' then Some (CHR 0x0D, r')
       else if b = CHR ''t'' then Some (CHR 0x09, r')
       else if b = CHR ''f'' then Some (CHR 0x0C, r')
       else if b = CHR ''b'' then Some (CHR 0x08, r')
       else if b = CHR ''u'' then
         (case r' of _ # _ # h # l # r'' \<Rightarrow> Some (char_of (16 * hex_value h + hex_value l), r'')
          | _ \<Rightarrow> None)
       else Some (b, r')))"

lemma of_char_is:
  "(of_char c :: nat) = 8 \<longleftrightarrow> c = CHR 0x08" "(of_char c :: nat) = 9 \<longleftrightarrow> c = CHR 0x09"
  "(of_char c :: nat) = 10 \<longleftrightarrow> c = CHR 0x0A" "(of_char c :: nat) = 12 \<longleftrightarrow> c = CHR 0x0C"
  "(of_char c :: nat) = 13 \<longleftrightarrow> c = CHR 0x0D"
  using of_char_eq_iff [where 'a = nat, of c "CHR 0x08"] of_char_eq_iff [where 'a = nat, of c "CHR 0x09"]
    of_char_eq_iff [where 'a = nat, of c "CHR 0x0A"] of_char_eq_iff [where 'a = nat, of c "CHR 0x0C"]
    of_char_eq_iff [where 'a = nat, of c "CHR 0x0D"]
  by simp_all

lemma unescape_escape_char: "unescape_char (escape_char c @ x) = Some (c, x)"
proof -
  let ?n = "of_char c :: nat"
  consider (ctl) "?n < 32" "?n \<notin> {8, 9, 10, 12, 13}" | (short) "?n \<in> {8, 9, 10, 12, 13}"
    | (plain) "?n \<ge> 32"
    by fastforce
  then show ?thesis
  proof cases
    case ctl
    then have "c \<noteq> CHR 0x22" "c \<noteq> CHR 0x5C" by auto
    moreover have "char_of (16 * (?n div 16) + ?n mod 16) = c" by simp
    ultimately show ?thesis
      using ctl by (simp add: escape_char_def unescape_char_def Let_def del: mult_div_mod_eq)
  next
    case short
    then have "c \<in> {CHR 0x08, CHR 0x09, CHR 0x0A, CHR 0x0C, CHR 0x0D}"
      by (simp add: of_char_is)
    then show ?thesis
      by (auto simp: escape_char_def unescape_char_def Let_def)
  next
    case plain
    then show ?thesis
      by (auto simp: escape_char_def unescape_char_def Let_def)
  qed
qed

lemma escape_char_prefix: "escape_char c @ x = escape_char d @ y \<Longrightarrow> c = d \<and> x = y"
  by (metis unescape_escape_char option.inject prod.inject)

lemma escape_char_hd: "\<exists>a r. escape_char c = a # r \<and> a \<noteq> CHR 0x22"
  by (auto simp: escape_char_def Let_def)

lemma escape_chars_prefix:
  "concat (map escape_char s) @ CHR 0x22 # x = concat (map escape_char t) @ CHR 0x22 # y
     \<Longrightarrow> s = t \<and> x = y"
proof (induction s arbitrary: t)
  case Nil
  then show ?case using escape_char_hd by (cases t) (auto, metis append_Cons list.inject)
next
  case (Cons c s)
  show ?case
  proof (cases t)
    case Nil
    with Cons.prems escape_char_hd [of c] show ?thesis by auto
  next
    case (Cons d t')
    with Cons.prems have "escape_char c @ (concat (map escape_char s) @ CHR 0x22 # x) =
        escape_char d @ (concat (map escape_char t') @ CHR 0x22 # y)" by simp
    then have "c = d" "concat (map escape_char s) @ CHR 0x22 # x =
        concat (map escape_char t') @ CHR 0x22 # y"
      by (auto dest: escape_char_prefix)
    with Cons.IH Cons show ?thesis by simp
  qed
qed

lemma encode_basestring_prefix:
  "encode_basestring s @ x = encode_basestring t @ y \<Longrightarrow> s = t \<and> x = y"
  by (rule escape_chars_prefix) (simp add: encode_basestring_def)


text \<open>Decimal integers: the text is a word over digits and a leading minus, and determines the number.\<close>

definition dec_value :: "string \<Rightarrow> nat" where
  "dec_value s = foldl (\<lambda>a c. 10 * a + hex_value c) 0 s"

lemma dec_value_dec_nat: "dec_value (dec_nat n) = n"
proof (induction n rule: dec_nat.induct)
  case (1 n)
  then show ?case by (subst dec_nat.simps) (simp add: dec_value_def)
qed

definition digit_char :: "char \<Rightarrow> bool" where
  "digit_char c = (48 \<le> (of_char c :: nat) \<and> (of_char c :: nat) \<le> 57)"

definition number_char :: "char \<Rightarrow> bool" where
  "number_char c = (digit_char c \<or> c = CHR ''-'' \<or> c = CHR ''+'' \<or> c = CHR ''.'' \<or> c = CHR ''e'')"

lemma digit_char_hex_digit: "m < 10 \<Longrightarrow> digit_char (hex_digit m)"
proof -
  assume "m < 10"
  moreover have "list_all (\<lambda>m. digit_char (hex_digit m)) [0..<10]" by code_simp
  ultimately show ?thesis by (auto simp: list_all_iff)
qed

lemma dec_nat_digits: "c \<in> set (dec_nat n) \<Longrightarrow> digit_char c"
proof (induction n rule: dec_nat.induct)
  case (1 n)
  then show ?case
    by (subst (asm) dec_nat.simps) (auto simp: digit_char_hex_digit split: if_splits)
qed

lemma dec_nat_nonempty: "dec_nat n \<noteq> []"
  by (subst dec_nat.simps) simp

lemma dec_nat_no_minus: "dec_nat n \<noteq> CHR ''-'' # r"
proof
  assume "dec_nat n = CHR ''-'' # r"
  then have "digit_char (CHR ''-'')" using dec_nat_digits [of "CHR ''-''" n] by simp
  then show False by (simp add: digit_char_def)
qed

lemma dec_nat_inj: "dec_nat j = dec_nat k \<Longrightarrow> j = k"
  by (metis dec_value_dec_nat)

lemma dec_int_nonempty: "dec_int n \<noteq> []"
  by (simp add: dec_int_def dec_nat_nonempty)

lemma dec_int_chars: "c \<in> set (dec_int n) \<Longrightarrow> digit_char c \<or> c = CHR ''-''"
  by (auto simp: dec_int_def dest: dec_nat_digits split: if_splits)

lemma dec_int_inj: "dec_int m = dec_int n \<Longrightarrow> m = n"
  by (auto simp: dec_int_def dec_nat_no_minus dec_nat_no_minus [symmetric] nat_eq_iff
      dest: dec_nat_inj split: if_splits)

text \<open>
  What the encoder needs of \<open>float.__repr__\<close>: distinct floats print differently, and the text is a
  number token with a fraction point or an exponent.
\<close>

definition float_repr_ok :: "hostlib \<Rightarrow> bool" where
  "float_repr_ok L = (inj (float_repr L) \<and>
     (\<forall>q. (\<forall>c \<in> set (float_repr L q). number_char c) \<and>
          (\<exists>c \<in> set (float_repr L q). c = CHR ''.'' \<or> c = CHR ''e'')))"

definition closers :: "char set" where
  "closers = set '',]}''"

definition delimited :: "string \<Rightarrow> bool" where
  "delimited s = (s = [] \<or> hd s \<in> closers)"

text \<open>The first character of an encoding tells the shape of the value.\<close>

fun shape :: "json \<Rightarrow> nat" where
  "shape JNull = 0"
| "shape (JBool b) = (if b then 1 else 2)"
| "shape (JInt _) = 3"
| "shape (JFloat _) = 3"
| "shape (JStr _) = 4"
| "shape (JArr _) = 5"
| "shape (JObj _) = 6"

definition shape_of_char :: "char \<Rightarrow> nat" where
  "shape_of_char c = (if c = CHR ''n'' then 0 else if c = CHR ''t'' then 1 else if c = CHR ''f'' then 2
     else if number_char c then 3 else if c = CHR 0x22 then 4
     else if c = CHR ''['' then 5 else if c = CHR ''{'' then 6 else 7)"

lemma shape_of_char_simps [simp]:
  "shape_of_char (CHR ''n'') = 0" "shape_of_char (CHR ''t'') = 1" "shape_of_char (CHR ''f'') = 2"
  "shape_of_char (CHR 0x22) = 4" "shape_of_char (CHR ''['') = 5" "shape_of_char (CHR ''{'') = 6"
  "shape_of_char (CHR '','') = 7" "shape_of_char (CHR '']'') = 7" "shape_of_char (CHR ''}'') = 7"
  by (simp_all add: shape_of_char_def number_char_def digit_char_def)

lemma shape_of_number_char: "number_char c \<Longrightarrow> shape_of_char c = 3"
  by (auto simp: shape_of_char_def number_char_def digit_char_def)

lemma canonical_text_shape:
  assumes "float_repr_ok L"
  shows "canonical_text L v \<noteq> [] \<and> shape_of_char (hd (canonical_text L v)) = shape v"
proof (cases v)
  case (JInt n)
  then show ?thesis
    using dec_int_nonempty [of n] dec_int_chars [of "hd (dec_int n)" n]
    by (auto intro!: shape_of_number_char simp: number_char_def)
next
  case (JFloat q)
  have ne: "float_repr L q \<noteq> []"
    using assms by (auto simp: float_repr_ok_def) (metis empty_iff list.set(1))
  then have "number_char (hd (float_repr L q))"
    using assms hd_in_set unfolding float_repr_ok_def by blast
  with ne JFloat show ?thesis by (simp add: shape_of_number_char)
qed (auto simp: encode_basestring_def)

lemma closers_shape: "c \<in> closers \<Longrightarrow> shape_of_char c = 7"
  by (auto simp: closers_def)

lemma shape_bound: "shape v \<noteq> 7"
  by (cases v) auto

text \<open>A number token ends at the first character that is not a number character.\<close>

lemma number_prefix:
  assumes "\<forall>c \<in> set a. number_char c" "\<forall>c \<in> set b. number_char c"
    and "a @ s = b @ t" "delimited s" "delimited t"
  shows "a = b \<and> s = t"
proof -
  have stop: "takeWhile number_char r = []" if "delimited r" for r
  proof (cases r)
    case (Cons c r')
    with that have "shape_of_char c = 7" by (simp add: delimited_def closers_shape)
    then have "\<not> number_char c" using shape_of_number_char [of c] by auto
    with Cons show ?thesis by simp
  qed simp
  have "takeWhile number_char (a @ s) = a" "takeWhile number_char (b @ t) = b"
    using assms(1,2) stop [OF assms(4)] stop [OF assms(5)]
    by (simp_all add: takeWhile_append2)
  with assms(3) show ?thesis by (metis same_append_eq)
qed

lemma comma_join_prefix:
  assumes unamb: "\<And>x y s t. x \<in> set xs \<Longrightarrow> f x @ s = f y @ t \<Longrightarrow> delimited s \<Longrightarrow> delimited t
      \<Longrightarrow> x = y \<and> s = t"
    and start: "\<And>x. f x \<noteq> [] \<and> hd (f x) \<notin> closers"
    and c: "c \<in> closers" "c \<noteq> CHR '',''"
  shows "comma_join (map f xs) @ c # s = comma_join (map f ys) @ c # t \<Longrightarrow> xs = ys \<and> s = t"
  using unamb
proof (induction xs arbitrary: ys)
  case Nil
  have False if "ys = y # ys'" for y ys'
    using Nil.prems(1) that start [of y] c by (cases ys'; cases "f y") auto
  with Nil show ?case by (cases ys) auto
next
  case (Cons x xs)
  have comma: "CHR '','' \<in> closers" by (simp add: closers_def)
  define rest where "rest us r = (if us = [] then c # r else CHR '','' # comma_join (map f us) @ c # r)"
    for us r
  have unfold: "comma_join (map f (u # us)) @ c # r = f u @ rest us r" for u us r
    by (cases us) (auto simp: rest_def)
  have delim: "delimited (rest us r)" for us r
    using c comma by (simp add: rest_def delimited_def)
  from Cons.prems(1) start [of x] c obtain y ys' where ys: "ys = y # ys'"
    by (cases ys; cases xs; cases "f x") auto
  from Cons.prems(1) have "f x @ rest xs s = f y @ rest ys' t"
    unfolding ys unfold .
  with Cons.prems(2) [of x "rest xs s" y "rest ys' t"] delim
  have xy: "x = y" and r: "rest xs s = rest ys' t" by auto
  from r c have "(xs = [] \<longleftrightarrow> ys' = []) \<and>
      (xs = [] \<and> s = t \<or> comma_join (map f xs) @ c # s = comma_join (map f ys') @ c # t)"
    by (auto simp: rest_def split: if_splits)
  then show ?case
    using Cons.IH [of ys'] Cons.prems(2) xy ys by auto
qed


lemma canonical_text_hd_not_closer:
  "float_repr_ok L \<Longrightarrow> canonical_text L v \<noteq> [] \<and> hd (canonical_text L v) \<notin> closers"
  using canonical_text_shape [of L v] closers_shape shape_bound [of v] by metis

lemma int_float_tokens_differ:
  assumes "float_repr_ok L"
  shows "dec_int n \<noteq> float_repr L q"
proof
  assume eq: "dec_int n = float_repr L q"
  obtain c where "c \<in> set (float_repr L q)" "c = CHR ''.'' \<or> c = CHR ''e''"
    using assms by (auto simp: float_repr_ok_def)
  with dec_int_chars [of c n] show False
    by (auto simp: eq digit_char_def)
qed

lemma number_text_chars:
  "float_repr_ok L \<Longrightarrow> shape v = 3 \<Longrightarrow> \<forall>c \<in> set (canonical_text L v). number_char c"
  using dec_int_chars by (cases v) (auto simp: float_repr_ok_def number_char_def split: if_splits)

lemma number_text_inj:
  "float_repr_ok L \<Longrightarrow> shape v = 3 \<Longrightarrow> shape w = 3 \<Longrightarrow> canonical_text L v = canonical_text L w
     \<Longrightarrow> v = w"
  using int_float_tokens_differ [of L] int_float_tokens_differ [of L, symmetric]
  by (cases v; cases w) (auto simp: float_repr_ok_def dest: dec_int_inj injD split: if_splits)

lemma number_text_prefix:
  assumes "float_repr_ok L" "shape v = 3" "canonical_text L v @ s = canonical_text L w @ t"
    and "delimited s" "delimited t"
  shows "v = w \<and> s = t"
proof -
  have "shape w = 3"
    using assms(1-3) canonical_text_shape [OF assms(1), of v] canonical_text_shape [OF assms(1), of w]
    by (metis hd_append2)
  then show ?thesis
    using assms number_prefix [of "canonical_text L v" "canonical_text L w" s t]
      number_text_chars number_text_inj by blast
qed

text \<open>Before a delimiter, the text of a value determines the value and where it ends.\<close>

lemma canonical_text_prefix:
  assumes fl: "float_repr_ok L"
  shows "canonical_text L v @ s = canonical_text L w @ t \<Longrightarrow> delimited s \<Longrightarrow> delimited t
     \<Longrightarrow> v = w \<and> s = t"
proof (induction v arbitrary: w s t)
  case JNull
  then have "shape w = 0"
    using canonical_text_shape [OF fl, of JNull] canonical_text_shape [OF fl, of w]
    by (metis hd_append2 shape.simps(1))
  with JNull show ?case by (cases w) (auto split: if_splits)
next
  case (JBool b)
  then have "shape w = shape (JBool b)"
    using canonical_text_shape [OF fl, of "JBool b"] canonical_text_shape [OF fl, of w]
    by (metis hd_append2)
  with JBool show ?case by (cases w; cases b) (auto split: if_splits)
next
  case (JInt n)
  then show ?case by (intro number_text_prefix [OF fl]) auto
next
  case (JFloat q)
  then show ?case by (intro number_text_prefix [OF fl]) auto
next
  case (JStr a)
  then have "shape w = 4"
    using canonical_text_shape [OF fl, of "JStr a"] canonical_text_shape [OF fl, of w]
    by (metis hd_append2 shape.simps(5))
  with JStr show ?case by (cases w) (auto dest: encode_basestring_prefix split: if_splits)
next
  case (JArr xs)
  then have "shape w = 5"
    using canonical_text_shape [OF fl, of "JArr xs"] canonical_text_shape [OF fl, of w]
    by (metis hd_append2 shape.simps(6))
  then obtain ys where w: "w = JArr ys" by (cases w) (auto split: if_splits)
  have "xs = ys \<and> s = t"
  proof (rule comma_join_prefix [where f = "canonical_text L" and c = "CHR '']''"])
    show "comma_join (map (canonical_text L) xs) @ CHR '']'' # s =
        comma_join (map (canonical_text L) ys) @ CHR '']'' # t"
      using JArr.prems(1) by (simp add: w)
  qed (use JArr.IH canonical_text_hd_not_closer [OF fl] in \<open>auto simp: closers_def\<close>)
  with w show ?case by simp
next
  case (JObj kvs)
  then have "shape w = 6"
    using canonical_text_shape [OF fl, of "JObj kvs"] canonical_text_shape [OF fl, of w]
    by (metis hd_append2 shape.simps(7))
  then obtain kws where w: "w = JObj kws" by (cases w) (auto split: if_splits)
  let ?f = "\<lambda>kv. encode_basestring (fst kv) @ CHR '':'' # canonical_text L (snd kv)"
  have "kvs = kws \<and> s = t"
  proof (rule comma_join_prefix [where f = ?f and c = "CHR ''}''"])
    show "comma_join (map ?f kvs) @ CHR ''}'' # s = comma_join (map ?f kws) @ CHR ''}'' # t"
      using JObj.prems(1) by (simp add: w)
  next
    fix x y a b
    assume x: "x \<in> set kvs" and eq: "?f x @ a = ?f y @ b" and d: "delimited a" "delimited b"
    from eq have "encode_basestring (fst x) @ (CHR '':'' # canonical_text L (snd x) @ a) =
        encode_basestring (fst y) @ (CHR '':'' # canonical_text L (snd y) @ b)" by simp
    then have k: "fst x = fst y" and v: "canonical_text L (snd x) @ a = canonical_text L (snd y) @ b"
      by (auto dest!: encode_basestring_prefix)
    from JObj.IH [of x "snd x", OF x _ v d] have "snd x = snd y \<and> a = b"
      by (cases x) auto
    with k show "x = y \<and> a = b" by (simp add: prod_eq_iff)
  qed (auto simp: encode_basestring_def closers_def)
  with w show ?case by simp
qed

text \<open>UTF-8 is a prefix code, so it loses nothing either.\<close>

lemma utf8_char_prefix: "utf8_char c @ x = utf8_char d @ y \<Longrightarrow> c = d \<and> x = y"
proof -
  assume eq: "utf8_char c @ x = utf8_char d @ y"
  let ?m = "of_char c :: nat" and ?n = "of_char d :: nat"
  have lt: "?m < 256" "?n < 256" by simp_all
  have two: "(of_char (char_of (192 + k div 64) :: char) :: nat) = 192 + k div 64"
    "(of_char (char_of (128 + k mod 64) :: char) :: nat) = 128 + k mod 64" if "k < 256" for k :: nat
    using that by (simp_all add: of_char_of)
  have False if "?m < 128" "\<not> ?n < 128"
  proof -
    from eq that have "c = char_of (192 + ?n div 64)" by (simp add: utf8_char_def Let_def)
    with two(1) [OF lt(2)] that show False by simp
  qed
  moreover have False if "\<not> ?m < 128" "?n < 128"
  proof -
    from eq that have "d = char_of (192 + ?m div 64)" by (simp add: utf8_char_def Let_def)
    with two(1) [OF lt(1)] that show False by simp
  qed
  moreover have "c = d \<and> x = y" if "\<not> ?m < 128" "\<not> ?n < 128"
  proof -
    from eq that have h: "(char_of (192 + ?m div 64) :: char) = char_of (192 + ?n div 64)"
      "(char_of (128 + ?m mod 64) :: char) = char_of (128 + ?n mod 64)" "x = y"
      by (simp_all add: utf8_char_def Let_def)
    have "?m div 64 = ?n div 64" "?m mod 64 = ?n mod 64"
      using arg_cong [OF h(1), of "of_char :: char \<Rightarrow> nat"] arg_cong [OF h(2), of "of_char :: char \<Rightarrow> nat"]
        two [OF lt(1)] two [OF lt(2)] by simp_all
    then have "?m = ?n" by (metis mult_div_mod_eq)
    with h(3) show ?thesis by simp
  qed
  moreover have "c = d \<and> x = y" if "?m < 128" "?n < 128"
    using eq that by (simp add: utf8_char_def Let_def)
  ultimately show ?thesis by blast
qed

lemma utf8_inj: "utf8 s = utf8 t \<Longrightarrow> s = t"
proof (induction s arbitrary: t)
  case Nil
  then show ?case by (cases t) (auto simp: utf8_def utf8_char_def Let_def split: if_splits)
next
  case (Cons c s)
  show ?case
  proof (cases t)
    case Nil
    with Cons.prems show ?thesis by (auto simp: utf8_def utf8_char_def Let_def split: if_splits)
  next
    case (Cons d t')
    with Cons.prems have "utf8_char c @ utf8 s = utf8_char d @ utf8 t'" by (simp add: utf8_def)
    then have "c = d" "utf8 s = utf8 t'" by (auto dest: utf8_char_prefix)
    with Cons.IH Cons show ?thesis by simp
  qed
qed

lemma canonical_bytes_inj:
  "float_repr_ok L \<Longrightarrow> canonical_bytes L v = canonical_bytes L w \<Longrightarrow> v = w"
  using canonical_text_prefix [of L v "[]" w "[]"]
  by (auto simp: canonical_bytes_def delimited_def dest!: utf8_inj)


lemma canonical_digest_inj:
  "float_repr_ok L \<Longrightarrow> \<not> digest_collision L v w \<Longrightarrow> canonical_digest L v = canonical_digest L w \<Longrightarrow> v = w"
  by (auto simp: digest_collision_def intro: canonical_bytes_inj)

end
