(* ===== verification/Merkle.thy ===== *)
theory Merkle
  imports Canonical
begin

text \<open>
  The Merkle content digest of \<^verbatim>\<open>kernel/canonical.py\<close>
  (\<^verbatim>\<open>json_content_digest\<close> and the per-entry digests that a
  journal append reuses): it binds the whole content up to a SHA-256 collision, and the cached
  computation agrees with the full one.
\<close>

section \<open>The Merkle digest binds the content\<close>

definition content_preimage :: "hostlib \<Rightarrow> json \<Rightarrow> string" where
  "content_preimage L v = (case v of
     JObj kvs \<Rightarrow> object_preimage (map (\<lambda>kv. (fst kv, json_content_digest L (snd kv))) kvs)
   | JArr xs \<Rightarrow> array_preimage (map (json_content_digest L) xs)
   | _ \<Rightarrow> scalar_preimage (canonical_bytes L v))"

lemma json_content_digest_preimage:
  "json_content_digest L v = sha256_hex L (content_preimage L v)"
  by (cases v) (simp_all add: content_preimage_def)

fun json_subvalues :: "json \<Rightarrow> json list" where
  "json_subvalues (JObj kvs) = JObj kvs # concat (map (\<lambda>kv. json_subvalues (snd kv)) kvs)"
| "json_subvalues (JArr xs) = JArr xs # concat (map json_subvalues xs)"
| "json_subvalues v = [v]"

lemma json_subvalues_self: "v \<in> set (json_subvalues v)"
  by (cases v) simp_all

text \<open>Every length the digest frames fits in eight bytes (the source raises beyond that).\<close>

fun json_sized :: "hostlib \<Rightarrow> json \<Rightarrow> bool" where
  "json_sized L (JObj kvs) = (length kvs < 2 ^ 64 \<and>
     (\<forall>kv \<in> set kvs. length (utf8 (fst kv)) < 2 ^ 64 \<and> json_sized L (snd kv)))"
| "json_sized L (JArr xs) = (length xs < 2 ^ 64 \<and> (\<forall>x \<in> set xs. json_sized L x))"
| "json_sized L v = (length (canonical_bytes L v) < 2 ^ 64)"

definition sha256_collision :: "hostlib \<Rightarrow> json \<Rightarrow> json \<Rightarrow> bool" where
  "sha256_collision L v w = (\<exists>x \<in> set (json_subvalues v). \<exists>y \<in> set (json_subvalues w).
     content_preimage L x \<noteq> content_preimage L y \<and>
     sha256_hex L (content_preimage L x) = sha256_hex L (content_preimage L y))"

lemma be8_length [simp]: "length (be8 n) = 8"
  by (simp add: be8_def)

lemma base256_digits:
  "(\<forall>i < k. m div 256 ^ i mod 256 = n div 256 ^ i mod (256 :: nat)) \<Longrightarrow> m mod 256 ^ k = n mod 256 ^ k"
proof (induction k)
  case (Suc k)
  have step: "j mod 256 ^ Suc k = 256 ^ k * (j div 256 ^ k mod 256) + j mod 256 ^ k" for j :: nat
    using mod_mult2_eq [of j "256 ^ k" 256] by (simp add: mult.commute)
  show ?case unfolding step using Suc by simp
qed simp

lemma be8_inj:
  assumes "be8 m = be8 n" "m < 2 ^ 64" "n < 2 ^ 64"
  shows "m = n"
proof -
  have "m div 256 ^ i mod 256 = n div 256 ^ i mod (256 :: nat)" if "i < 8" for i
  proof -
    have "be8 k ! (7 - i) = char_of (k div 256 ^ i)" for k
    proof -
      have "rev [0..<8] ! (7 - i) = [0..<8] ! (8 - Suc (7 - i))"
        using that by (subst rev_nth) simp_all
      also have "\<dots> = i" using that by simp
      finally show ?thesis using that unfolding be8_def by (subst nth_map) simp_all
    qed
    with assms(1) have "(char_of (m div 256 ^ i) :: char) = char_of (n div 256 ^ i)"
      by metis
    then show ?thesis by (metis of_char_of)
  qed
  then have "m mod 256 ^ 8 = n mod 256 ^ 8" by (intro base256_digits) simp
  with assms(2,3) show ?thesis by simp
qed

lemma is_sha256_length: "is_sha256 d \<Longrightarrow> length d = 64"
  by (simp add: is_sha256_def)

lemma length_fromhex: "length (fromhex d) = length d div 2"
  by (induction d rule: fromhex.induct) simp_all

definition hex_char :: "char \<Rightarrow> bool" where
  "hex_char c = (c \<in> set ''0123456789abcdef'')"

lemma is_sha256_hex_char: "is_sha256 d \<Longrightarrow> list_all hex_char d"
  by (simp add: is_sha256_def hex_char_def list_all_iff del: list.set)

lemma hex_value_bound: "hex_char c \<Longrightarrow> hex_value c < 16 \<and> hex_digit (hex_value c) = c"
  unfolding hex_char_def list.set insert_iff empty_iff
  by (elim disjE) (simp_all add: hex_value_def hex_digit_def)

lemma nibbles_inj: "16 * a + b = 16 * a' + (b' :: nat) \<Longrightarrow> b < 16 \<Longrightarrow> b' < 16 \<Longrightarrow> a = a' \<and> b = b'"
proof -
  assume eq: "16 * a + b = 16 * a' + b'" and lt: "b < 16" "b' < 16"
  have "(16 * a + b) div 16 = (16 * a' + b') div 16" "(16 * a + b) mod 16 = (16 * a' + b') mod 16"
    by (simp_all only: eq)
  with lt show ?thesis by simp
qed

lemma hex_pair_inj:
  assumes hx: "hex_char a" "hex_char b" "hex_char a'" "hex_char b'"
    and eq: "(char_of (16 * hex_value a + hex_value b) :: char) = char_of (16 * hex_value a' + hex_value b')"
  shows "a = a' \<and> b = b'"
proof -
  note h = hx [THEN hex_value_bound]
  have "(of_char (char_of (16 * hex_value a + hex_value b) :: char) :: nat) =
        of_char (char_of (16 * hex_value a' + hex_value b') :: char)"
    by (simp only: eq)
  moreover have "16 * hex_value a + hex_value b < 256" "16 * hex_value a' + hex_value b' < 256"
    using h by simp_all
  ultimately have "16 * hex_value a + hex_value b = 16 * hex_value a' + hex_value b'"
    by (simp only: of_char_of mod_less)
  then have "hex_value a = hex_value a' \<and> hex_value b = hex_value b'"
    by (rule nibbles_inj) (use h in simp_all)
  then show ?thesis using h by metis
qed

lemma fromhex_inj:
  assumes "list_all hex_char d" "list_all hex_char e"
    and "length d = length e" "even (length d)" "fromhex d = fromhex e"
  shows "d = e"
  using assms
proof (induction d arbitrary: e rule: fromhex.induct)
  case (1 a b cs)
  then obtain a' b' cs' where e: "e = a' # b' # cs'"
    by (metis length_Suc_conv length_Cons)
  have "a = a' \<and> b = b'"
    by (rule hex_pair_inj) (use 1 in \<open>simp_all add: e\<close>)
  moreover have "cs = cs'"
    using 1 by (simp add: e)
  ultimately show ?case by (simp add: e)
qed auto

lemma fromhex_sha256_inj: "is_sha256 d \<Longrightarrow> is_sha256 e \<Longrightarrow> fromhex d = fromhex e \<Longrightarrow> d = e"
  using fromhex_inj is_sha256_hex_char is_sha256_length by fastforce

lemma merkle_entry_prefix:
  assumes "be8 (length a) @ a @ fromhex d @ x = be8 (length b) @ b @ fromhex e @ y"
    and "length a < 2 ^ 64" "length b < 2 ^ 64" "is_sha256 d" "is_sha256 e"
  shows "a = b \<and> d = e \<and> x = y"
proof -
  have "be8 (length a) = be8 (length b)" and r1: "a @ fromhex d @ x = b @ fromhex e @ y"
    using assms(1) by (auto simp: append_eq_append_conv)
  then have len: "length a = length b" using assms(2,3) be8_inj by blast
  then have ab: "a = b" and r2: "fromhex d @ x = fromhex e @ y"
    using r1 by (auto simp: append_eq_append_conv)
  have "length (fromhex d) = length (fromhex e)"
    using assms(4,5) by (simp add: length_fromhex is_sha256_length)
  then have "fromhex d = fromhex e" "x = y" using r2 by (auto simp: append_eq_append_conv)
  with ab assms(4,5) fromhex_sha256_inj show ?thesis by blast
qed

lemma object_entries_inj:
  fixes es fs :: "(string \<times> string) list"
  defines "ent \<equiv> \<lambda>kd. be8 (length (utf8 (fst kd))) @ utf8 (fst kd) @ fromhex (snd kd)"
  assumes "concat (map ent es) = concat (map ent fs)" "length es = length fs"
    and "\<forall>kd \<in> set es. length (utf8 (fst kd)) < 2 ^ 64 \<and> is_sha256 (snd kd)"
    and "\<forall>kd \<in> set fs. length (utf8 (fst kd)) < 2 ^ 64 \<and> is_sha256 (snd kd)"
  shows "es = fs"
  using assms(3,2,4,5)
proof (induction es fs rule: list_induct2)
  case Nil
  then show ?case by simp
next
  case (Cons a es b fs)
  from Cons.prems(1) have "be8 (length (utf8 (fst a))) @ utf8 (fst a) @ fromhex (snd a) @ concat (map ent es) =
      be8 (length (utf8 (fst b))) @ utf8 (fst b) @ fromhex (snd b) @ concat (map ent fs)"
    by (simp add: ent_def)
  then have "utf8 (fst a) = utf8 (fst b) \<and> snd a = snd b \<and> concat (map ent es) = concat (map ent fs)"
    using Cons.prems(2,3) by (intro merkle_entry_prefix) simp_all
  moreover from this have "fst a = fst b" by (blast intro: utf8_inj)
  ultimately show ?case using Cons.IH Cons.prems(2,3) by (simp add: prod_eq_iff)
qed

lemma array_entries_inj:
  assumes "concat (map fromhex ds) = concat (map fromhex es)" "length ds = length es"
    and "\<forall>d \<in> set ds. is_sha256 d" "\<forall>e \<in> set es. is_sha256 e"
  shows "ds = es"
  using assms(2,1,3,4)
proof (induction ds es rule: list_induct2)
  case (Cons d ds e es)
  have "length (fromhex d) = length (fromhex e)"
    using Cons.prems by (simp add: length_fromhex is_sha256_length)
  then have "fromhex d = fromhex e" "concat (map fromhex ds) = concat (map fromhex es)"
    using Cons.prems(1) by (auto simp: append_eq_append_conv)
  moreover have "d = e"
    using \<open>fromhex d = fromhex e\<close> Cons.prems(2,3) by - (rule fromhex_sha256_inj, simp_all)
  ultimately show ?case using Cons.IH Cons.prems by simp
qed simp

lemma preimage_kinds_differ [simp]:
  "object_preimage a \<noteq> array_preimage b" "array_preimage b \<noteq> object_preimage a"
  "object_preimage a \<noteq> scalar_preimage c" "scalar_preimage c \<noteq> object_preimage a"
  "array_preimage b \<noteq> scalar_preimage c" "scalar_preimage c \<noteq> array_preimage b"
  by (simp_all add: merkle_tag_def object_preimage_def array_preimage_def scalar_preimage_def)

fun json_scalar :: "json \<Rightarrow> bool" where
  "json_scalar (JObj _) = False"
| "json_scalar (JArr _) = False"
| "json_scalar _ = True"

lemma scalar_content_preimage:
  "json_scalar v \<Longrightarrow> content_preimage L v = scalar_preimage (canonical_bytes L v)"
  by (cases v) (simp_all add: content_preimage_def)

lemma scalar_sized: "json_scalar v \<Longrightarrow> json_sized L v \<longleftrightarrow> length (canonical_bytes L v) < 2 ^ 64"
  by (cases v) simp_all

lemma sha256_collision_subvalues:
  "sha256_collision L x y \<Longrightarrow> set (json_subvalues x) \<subseteq> set (json_subvalues v)
    \<Longrightarrow> set (json_subvalues y) \<subseteq> set (json_subvalues w) \<Longrightarrow> sha256_collision L v w"
  unfolding sha256_collision_def by blast

lemma content_preimage_eqI:
  "json_content_digest L v = json_content_digest L w \<Longrightarrow> \<not> sha256_collision L v w
     \<Longrightarrow> content_preimage L v = content_preimage L w"
  using json_subvalues_self unfolding sha256_collision_def json_content_digest_preimage by blast


lemma object_preimage_inj:
  assumes "object_preimage es = object_preimage fs" "length es < 2 ^ 64" "length fs < 2 ^ 64"
    and "\<forall>kd \<in> set es. length (utf8 (fst kd)) < 2 ^ 64 \<and> is_sha256 (snd kd)"
    and "\<forall>kd \<in> set fs. length (utf8 (fst kd)) < 2 ^ 64 \<and> is_sha256 (snd kd)"
  shows "es = fs"
proof -
  have "be8 (length es) = be8 (length fs)"
    using assms(1) by (simp add: object_preimage_def append_eq_append_conv)
  then have "length es = length fs" using assms(2,3) be8_inj by blast
  with assms(1,4,5) show ?thesis
    by (intro object_entries_inj) (simp_all add: object_preimage_def append_eq_append_conv)
qed

lemma array_preimage_inj:
  assumes "array_preimage ds = array_preimage es" "length ds < 2 ^ 64" "length es < 2 ^ 64"
    and "\<forall>d \<in> set ds. is_sha256 d" "\<forall>e \<in> set es. is_sha256 e"
  shows "ds = es"
proof -
  have "be8 (length ds) = be8 (length es)"
    using assms(1) by (simp add: array_preimage_def append_eq_append_conv)
  then have "length ds = length es" using assms(2,3) be8_inj by blast
  with assms(1,4,5) show ?thesis
    by (intro array_entries_inj) (simp_all add: array_preimage_def append_eq_append_conv)
qed

lemma scalar_preimage_inj: "scalar_preimage a = scalar_preimage b \<Longrightarrow> a = b"
  by (simp add: scalar_preimage_def append_eq_append_conv)

lemma scalar_binding:
  assumes "float_repr_ok L" "json_scalar v" "json_content_digest L v = json_content_digest L w"
    and "\<not> sha256_collision L v w"
  shows "v = w"
proof -
  have pre: "scalar_preimage (canonical_bytes L v) = content_preimage L w"
    using content_preimage_eqI [OF assms(3,4)] scalar_content_preimage [OF assms(2)] by simp
  have "json_scalar w"
  proof (rule ccontr)
    assume "\<not> json_scalar w"
    then show False using pre by (cases w) (simp_all add: content_preimage_def)
  qed
  then have "canonical_bytes L v = canonical_bytes L w"
    using pre scalar_content_preimage scalar_preimage_inj by metis
  with assms(1) show ?thesis by (rule canonical_bytes_inj)
qed

text \<open>
  Two contents with the same Merkle digest are equal, unless two of the byte strings hashed for
  them are a SHA-256 collision.
\<close>

lemma json_content_digest_binding:
  assumes fl: "float_repr_ok L" and sha: "\<And>x. is_sha256 (sha256_hex L x)"
  shows "json_sized L v \<Longrightarrow> json_sized L w \<Longrightarrow> json_content_digest L v = json_content_digest L w
    \<Longrightarrow> \<not> sha256_collision L v w \<Longrightarrow> v = w"
proof (induction v arbitrary: w)
  case (JArr xs)
  note pre = content_preimage_eqI [OF JArr.prems(3,4)]
  from pre obtain ys where w: "w = JArr ys"
    by (cases w) (simp_all add: content_preimage_def)
  have "map (json_content_digest L) xs = map (json_content_digest L) ys"
    using pre JArr.prems(1,2) sha
    by (intro array_preimage_inj) (auto simp: content_preimage_def w json_content_digest_preimage)
  then have len: "length xs = length ys"
    and dig: "\<And>i. i < length xs \<Longrightarrow> json_content_digest L (xs ! i) = json_content_digest L (ys ! i)"
    by (auto simp: list_eq_iff_nth_eq)
  have "xs ! i = ys ! i" if i: "i < length xs" for i
  proof (rule JArr.IH)
    show "xs ! i \<in> set xs" using i by simp
    show "json_sized L (xs ! i)" "json_sized L (ys ! i)"
      using JArr.prems(1,2) i len by (auto simp: w)
    show "\<not> sha256_collision L (xs ! i) (ys ! i)"
      using JArr.prems(4) sha256_collision_subvalues [of L "xs ! i" "ys ! i" "JArr xs" "JArr ys"] i len
      by (fastforce simp: w)
  qed (rule dig [OF i])
  with len w show ?case by (simp add: list_eq_iff_nth_eq)
next
  case (JObj kvs)
  note pre = content_preimage_eqI [OF JObj.prems(3,4)]
  from pre obtain kws where w: "w = JObj kws"
    by (cases w) (simp_all add: content_preimage_def)
  let ?ent = "\<lambda>kv. (fst kv, json_content_digest L (snd kv))"
  have "map ?ent kvs = map ?ent kws"
    using pre JObj.prems(1,2) sha
    by (intro object_preimage_inj) (auto simp: content_preimage_def w json_content_digest_preimage)
  then have len: "length kvs = length kws"
    and ent: "\<And>i. i < length kvs \<Longrightarrow> ?ent (kvs ! i) = ?ent (kws ! i)"
    by (auto simp: list_eq_iff_nth_eq)
  have "snd (kvs ! i) = snd (kws ! i)" if i: "i < length kvs" for i
  proof (rule JObj.IH)
    show "kvs ! i \<in> set kvs" using i by simp
    show "snd (kvs ! i) \<in> Basic_BNFs.snds (kvs ! i)" by (simp add: snds.simps)
    show "json_sized L (snd (kvs ! i))" "json_sized L (snd (kws ! i))"
      using JObj.prems(1,2) i len by (auto simp: w)
    show "\<not> sha256_collision L (snd (kvs ! i)) (snd (kws ! i))"
      using JObj.prems(4) i len
        sha256_collision_subvalues [of L "snd (kvs ! i)" "snd (kws ! i)" "JObj kvs" "JObj kws"]
      by (fastforce simp: w)
    show "json_content_digest L (snd (kvs ! i)) = json_content_digest L (snd (kws ! i))"
      using ent [OF i] by simp
  qed
  with len ent w show ?case by (simp add: list_eq_iff_nth_eq prod_eq_iff)
qed (rule scalar_binding [OF fl]; simp)+

section \<open>Reusing child digests\<close>

lemma cache_soundD: "cache_sound L cache kvs \<Longrightarrow> cache k = Some d \<Longrightarrow> map_of kvs k = Some v \<Longrightarrow> d = json_content_digest L v"
  by (fastforce simp: cache_sound_def)

lemma child_digest_sound:
  "cache_sound L cache kvs \<Longrightarrow> map_of kvs k = Some v \<Longrightarrow> child_digest L cache k v = json_content_digest L v"
  by (auto simp: child_digest_def cache_soundD split: option.split)

lemma child_digests_sound:
  assumes "cache_sound L cache kvs" "dict_wf kvs"
  shows "map (\<lambda>kv. (fst kv, child_digest L cache (fst kv) (snd kv))) kvs =
    map (\<lambda>kv. (fst kv, json_content_digest L (snd kv))) kvs"
proof (rule map_cong)
  fix kv assume "kv \<in> set kvs"
  then have "map_of kvs (fst kv) = Some (snd kv)"
    using assms(2) by (simp add: dict_wf_distinct)
  then show "(fst kv, child_digest L cache (fst kv) (snd kv)) = (fst kv, json_content_digest L (snd kv))"
    using assms(1) by (simp add: child_digest_sound)
qed simp

lemma content_digest_cached_sound:
  assumes "cache_sound L cache kvs" "dict_wf kvs"
  shows "fst (content_digest_cached L cache kvs) = json_content_digest L (JObj kvs)"
    and "cache_sound L (snd (content_digest_cached L cache kvs)) kvs"
proof -
  have m: "map_of (map (\<lambda>kv. (fst kv, json_content_digest L (snd kv))) kvs) k =
      map_option (json_content_digest L) (map_of kvs k)" for k
    by (induction kvs) auto
  show "fst (content_digest_cached L cache kvs) = json_content_digest L (JObj kvs)"
    by (simp add: content_digest_cached_def child_digests_sound [OF assms])
  show "cache_sound L (snd (content_digest_cached L cache kvs)) kvs"
    using assms(1) unfolding content_digest_cached_def child_digests_sound [OF assms]
    by (auto simp: cache_sound_def m map_add_Some_iff)
qed

lemma reused_entry_digests_sound:
  assumes "cache_sound L cache base"
    and "\<And>k. k \<notin> changed \<Longrightarrow> map_of frozen k \<noteq> None \<Longrightarrow> map_of frozen k = map_of base k"
  shows "cache_sound L (reused_entry_digests cache frozen changed) frozen"
  using assms by (fastforce simp: cache_sound_def reused_entry_digests_def split: if_splits)

end
