(* ===== verification/StateDelta.thy ===== *)
theory StateDelta
  imports Merkle "HOL-Library.Sublist"
begin

text \<open>
  Copy-on-write state deltas of \<^verbatim>\<open>kernel/machine.py\<close>: one mutation, the
  validation that orders a set of mutations and refuses overlapping paths, the delta with its
  digest, and the grouped application of a delta to a state object.
\<close>

section \<open>Mutations\<close>

record state_mutation =
  mut_path :: "string list"
  mut_value :: json
  mut_delete :: bool

definition mutation_post_init :: "state_mutation \<Rightarrow> state_mutation res" where
  "mutation_post_init self =
     (if mut_path self = [] \<or> (\<exists>segment \<in> set (mut_path self). segment = []) then Inl ValueError
      else if mut_delete self then
        (if mut_value self \<noteq> JNull then Inl ValueError else Inr self)
      else res_bind (freeze_json (mut_value self)) (\<lambda>v. Inr (self\<lparr>mut_value := v\<rparr>)))"

definition mutation_set :: "string list \<Rightarrow> json \<Rightarrow> state_mutation res" where
  "mutation_set path v = mutation_post_init \<lparr>mut_path = path, mut_value = v, mut_delete = False\<rparr>"

definition mutation_delete_path :: "string list \<Rightarrow> state_mutation res" where
  "mutation_delete_path path = mutation_post_init \<lparr>mut_path = path, mut_value = JNull, mut_delete = True\<rparr>"

text \<open>
  \<^verbatim>\<open>sorted(mutations, key=path)\<close> is stable, as \<open>sort_key\<close> is; tuples of text compare
  lexicographically.  Each path is compared with its predecessor only.
\<close>

fun overlapping_neighbours :: "string list list \<Rightarrow> bool" where
  "overlapping_neighbours (p # q # ps) = (take (length p) q = p \<or> overlapping_neighbours (q # ps))"
| "overlapping_neighbours _ = False"

definition validate_state_mutations :: "state_mutation list \<Rightarrow> state_mutation list res" where
  "validate_state_mutations mutations =
     (let ordered = sort_key mut_path mutations in
      if overlapping_neighbours (map mut_path ordered) then Inl ValueError else Inr ordered)"

record state_delta =
  delta_mutations :: "state_mutation list"
  delta_digest :: string

definition mutation_json :: "state_mutation \<Rightarrow> json" where
  "mutation_json m = JArr [jstrs (mut_path m), JBool (mut_delete m), mut_value m]"

definition mk_state_delta :: "hostlib \<Rightarrow> state_mutation list \<Rightarrow> state_delta res" where
  "mk_state_delta L mutations =
     res_bind (validate_state_mutations mutations) (\<lambda>ordered.
     Inr \<lparr>delta_mutations = ordered, delta_digest = canonical_digest L (JArr (map mutation_json ordered))\<rparr>)"

section \<open>Grouped application\<close>

text \<open>
  The inner scan of \<^verbatim>\<open>_apply_mutation_group\<close>: maximal runs of consecutive mutations
  with the same segment at \<open>depth\<close>.  A path that ends above \<open>depth\<close> is an index error of the
  source; it cannot occur in a constructed delta, whose paths neither repeat nor extend another.
\<close>

definition has_segment :: "nat \<Rightarrow> string \<Rightarrow> state_mutation \<Rightarrow> bool" where
  "has_segment depth segment m = (mut_path m ! depth = segment)"

function segment_runs :: "nat \<Rightarrow> state_mutation list \<Rightarrow> (string \<times> state_mutation list) list" where
  "segment_runs depth [] = []"
| "segment_runs depth (m # ms) =
     (let segment = mut_path m ! depth in
      (segment, m # takeWhile (has_segment depth segment) ms) #
        segment_runs depth (dropWhile (has_segment depth segment) ms))"
  by pat_completeness auto
termination
  by (relation "measure (\<lambda>(d, ms). length ms)") (auto simp: le_imp_less_Suc length_dropWhile_le)

definition mutation_runs :: "nat \<Rightarrow> state_mutation list \<Rightarrow> (string \<times> state_mutation list) list res" where
  "mutation_runs depth ms =
     (if \<exists>m \<in> set ms. length (mut_path m) \<le> depth then Inl IndexError else Inr (segment_runs depth ms))"

lemma segment_runs_mem:
  "(s, g) \<in> set (segment_runs depth ms) \<Longrightarrow> g \<noteq> [] \<and> set g \<subseteq> set ms"
proof (induction depth ms rule: segment_runs.induct)
  case (2 depth m ms)
  then show ?case by (auto simp: Let_def dest: set_takeWhileD set_dropWhileD)
qed simp

lemma max_list_upper: "n \<in> set ns \<Longrightarrow> n \<le> max_list ns"
  by (induction ns) auto

lemma max_list_lt: "max_list ns < m \<longleftrightarrow> 0 < m \<and> (\<forall>n \<in> set ns. n < (m :: nat))"
  by (induction ns) auto

definition path_bound :: "state_mutation list \<Rightarrow> nat" where
  "path_bound ms = max_list (map (\<lambda>m. length (mut_path m)) ms)"

lemma path_bound_run:
  assumes "mutation_runs depth ms = Inr runs" "(s, g) \<in> set runs" "length (mut_path (hd g)) \<noteq> Suc depth"
  shows "path_bound g - Suc depth < path_bound ms - depth"
proof -
  from assms(1) have short: "\<And>m. m \<in> set ms \<Longrightarrow> depth < length (mut_path m)"
    and runs: "runs = segment_runs depth ms"
    by (auto simp: mutation_runs_def not_le split: if_splits)
  have g: "g \<noteq> []" "set g \<subseteq> set ms" using segment_runs_mem assms(2) runs by blast+
  then have "depth < length (mut_path (hd g))" by (intro short) (auto simp: list.set_sel)
  with assms(3) have "Suc depth < length (mut_path (hd g))" by simp
  moreover have "length (mut_path (hd g)) \<le> path_bound g"
    unfolding path_bound_def using g by (intro max_list_upper) simp
  moreover have "path_bound g \<le> path_bound ms"
    unfolding path_bound_def max_list_le using g(2) by (auto intro!: max_list_upper)
  ultimately show ?thesis by simp
qed

text \<open>
  \<^verbatim>\<open>_apply_mutation_group\<close>: what each run assigns to its segment (\<open>None\<close> deletes it), and
  the frozen copy.  The digest cache that the frozen copy inherits is \<open>reused_entry_digests\<close>, with
  the segments of the runs as the changed keys.
\<close>

function apply_mutation_group ::
    "(string, json) dict \<Rightarrow> state_mutation list \<Rightarrow> nat \<Rightarrow> (string, json) dict res" where
  "apply_mutation_group base mutations depth =
     res_bind (mutation_runs depth mutations) (\<lambda>runs.
     res_bind
       (res_fold (\<lambda>result run.
          res_bind
            (if length (mut_path (hd (snd run))) = Suc depth then
               if length (snd run) \<noteq> 1 then Inl MachineIntegrityError
               else if mut_delete (hd (snd run)) then
                 if map_of result (fst run) = None then Inl MachineIntegrityError else Inr None
               else Inr (Some (mut_value (hd (snd run))))
             else case map_of result (fst run) of
                 Some (JObj current) \<Rightarrow>
                   res_bind (apply_mutation_group current (snd run) (Suc depth)) (\<lambda>v. Inr (Some (JObj v)))
               | _ \<Rightarrow> Inl MachineIntegrityError)
            (\<lambda>new. Inr (dict_put (fst run) new result))) base runs)
     (\<lambda>result. res_bind (freeze_json_object_reusing Map.empty result (fst ` set runs))
       (\<lambda>frozen. Inr (fst frozen))))"
  by pat_completeness auto
termination
  by (relation "measure (\<lambda>(base, ms, depth). path_bound ms - depth)") (auto simp: path_bound_run)

declare apply_mutation_group.simps [simp del]

definition apply_machine_state_delta :: "json \<Rightarrow> state_delta \<Rightarrow> json res" where
  "apply_machine_state_delta state delta =
     (case state of
        JObj base \<Rightarrow>
          if delta_mutations delta = [] then Inr state
          else res_bind (apply_mutation_group base (delta_mutations delta) 0) (\<lambda>frozen. Inr (JObj frozen))
      | _ \<Rightarrow> Inl TypeError)"

section \<open>Validated mutations never overlap\<close>

text \<open>
  In lexicographic order the extensions of a path are adjacent to it, so comparing neighbours
  rules out every overlapping pair.
\<close>

lemma prefix_between:
  fixes p q r :: "'a::linorder list"
  shows "p \<le> q \<Longrightarrow> q \<le> r \<Longrightarrow> prefix p r \<Longrightarrow> prefix p q"
proof (induction p arbitrary: q r)
  case (Cons a p)
  then obtain r' where r: "r = a # r'" "prefix p r'" by (cases r) auto
  from Cons.prems(1) obtain b q' where q: "q = b # q'" by (cases q) auto
  with Cons.prems(1,2) r have "a = b" "p \<le> q'" "q' \<le> r'" by (auto split: if_splits)
  with Cons.IH [of q' r'] r(2) q show ?case by simp
qed simp

lemma sorted_neighbours_no_prefix:
  fixes ps :: "string list list"
  shows "sorted ps \<Longrightarrow> \<not> overlapping_neighbours ps \<Longrightarrow> sorted_wrt (\<lambda>p q. \<not> prefix p q) ps"
proof (induction ps rule: overlapping_neighbours.induct)
  case (1 p q ps)
  then have IH: "sorted_wrt (\<lambda>p q. \<not> prefix p q) (q # ps)" by simp
  have pq: "\<not> prefix p q" using "1.prems"(2) by (auto simp: prefix_def)
  have "\<not> prefix p r" if "r \<in> set ps" for r
  proof
    assume "prefix p r"
    moreover have "p \<le> q" "q \<le> r" using "1.prems"(1) that by auto
    ultimately show False using pq prefix_between by blast
  qed
  with IH pq show ?case by simp
qed simp_all

definition valid_group :: "nat \<Rightarrow> state_mutation list \<Rightarrow> bool" where
  "valid_group depth ms =
     ((\<forall>m \<in> set ms. depth < length (mut_path m)) \<and>
      sorted_wrt (\<lambda>m n. drop depth (mut_path m) \<le> drop depth (mut_path n) \<and>
        \<not> prefix (drop depth (mut_path m)) (drop depth (mut_path n))) ms)"

lemma validate_state_mutations_valid:
  assumes "validate_state_mutations ms = Inr ordered" "\<forall>m \<in> set ms. mut_path m \<noteq> []"
  shows "valid_group 0 ordered" and "set ordered = set ms"
proof -
  from assms(1) have o: "ordered = sort_key mut_path ms"
    and no: "\<not> overlapping_neighbours (map mut_path ordered)"
    by (auto simp: validate_state_mutations_def Let_def split: if_splits)
  show "set ordered = set ms" by (simp add: o)
  have "sorted (map mut_path ordered)" by (simp add: o)
  with no have "sorted_wrt (\<lambda>p q. p \<le> q \<and> \<not> prefix p q) (map mut_path ordered)"
    using sorted_neighbours_no_prefix [of "map mut_path ordered"]
    by (auto simp: sorted_wrt_iff_nth_less)
  with assms(2) show "valid_group 0 ordered"
    by (auto simp: valid_group_def sorted_wrt_map o)
qed

lemma sorted_wrt_span:
  "sorted_wrt P (m # ms) \<Longrightarrow> sorted_wrt P (m # takeWhile Q ms) \<and> sorted_wrt P (dropWhile Q ms)"
proof -
  assume s: "sorted_wrt P (m # ms)"
  then have "sorted_wrt P (takeWhile Q ms @ dropWhile Q ms)" by simp
  then show ?thesis using s unfolding sorted_wrt_append by (auto dest: set_takeWhileD)
qed

lemma valid_group_span:
  "valid_group depth (m # ms) \<Longrightarrow> valid_group depth (m # takeWhile Q ms) \<and> valid_group depth (dropWhile Q ms)"
  unfolding valid_group_def using sorted_wrt_span [of _ m ms Q]
  by (auto dest: set_takeWhileD set_dropWhileD)

lemma valid_group_heads:
  assumes "valid_group depth (m # ms)" "n \<in> set ms"
  shows "mut_path m ! depth \<le> mut_path n ! depth"
proof -
  have "depth < length (mut_path m)" "depth < length (mut_path n)"
    "drop depth (mut_path m) \<le> drop depth (mut_path n)"
    using assms by (auto simp: valid_group_def)
  then show ?thesis
    using Cons_nth_drop_Suc [of depth "mut_path m", symmetric] Cons_nth_drop_Suc [of depth "mut_path n", symmetric]
    by (auto split: if_splits)
qed

lemma dropWhile_segment_above:
  assumes "valid_group depth (m # ms)" "n \<in> set (dropWhile (has_segment depth (mut_path m ! depth)) ms)"
  shows "mut_path m ! depth < mut_path n ! depth"
  using assms
proof (induction ms)
  case (Cons a ms)
  have sub: "valid_group depth (m # ms)" "valid_group depth (a # ms)"
    using Cons.prems(1) by (auto simp: valid_group_def)
  show ?case
  proof (cases "has_segment depth (mut_path m ! depth) a")
    case True
    with Cons sub show ?thesis by simp
  next
    case False
    then have "mut_path m ! depth < mut_path a ! depth"
      using valid_group_heads [OF Cons.prems(1), of a] by (auto simp: has_segment_def)
    moreover have "n = a \<or> mut_path a ! depth \<le> mut_path n ! depth"
      using Cons.prems(2) False valid_group_heads [OF sub(2)] by auto
    ultimately show ?thesis by auto
  qed
qed simp

text \<open>A run is either one mutation ending at this depth or a validated group one level deeper.\<close>

definition run_shape :: "nat \<Rightarrow> string \<Rightarrow> state_mutation list \<Rightarrow> bool" where
  "run_shape depth s g =
     (g \<noteq> [] \<and> (\<forall>m \<in> set g. mut_path m ! depth = s) \<and>
      (if length (mut_path (hd g)) = Suc depth then tl g = [] else valid_group (Suc depth) g))"

lemma run_shape_valid:
  assumes v: "valid_group depth (m # g)" and seg: "\<forall>n \<in> set (m # g). mut_path n ! depth = s"
  shows "run_shape depth s (m # g)"
proof -
  have dr: "drop depth (mut_path n) = s # drop (Suc depth) (mut_path n)" if "n \<in> set (m # g)" for n
    using v seg that by (metis valid_group_def Cons_nth_drop_Suc)
  have step: "sorted_wrt (\<lambda>m n. drop (Suc depth) (mut_path m) \<le> drop (Suc depth) (mut_path n) \<and>
      \<not> prefix (drop (Suc depth) (mut_path m)) (drop (Suc depth) (mut_path n))) (m # g)"
  proof (rule sorted_wrt_mono_rel)
    show "sorted_wrt (\<lambda>m n. drop depth (mut_path m) \<le> drop depth (mut_path n) \<and>
      \<not> prefix (drop depth (mut_path m)) (drop depth (mut_path n))) (m # g)"
      using v by (simp only: valid_group_def)
  qed (simp add: dr)
  show ?thesis
  proof (cases "length (mut_path m) = Suc depth")
    case True
    then have "drop (Suc depth) (mut_path m) = []" by simp
    with step have "g = []" by (cases g) auto
    with True seg show ?thesis by (simp add: run_shape_def)
  next
    case False
    have "Suc depth < length (mut_path n)" if "n \<in> set (m # g)" for n
    proof -
      have m: "drop (Suc depth) (mut_path m) \<noteq> []" using False v by (auto simp: valid_group_def)
      have "drop (Suc depth) (mut_path n) \<noteq> []"
        using step that m by (cases "n = m") auto
      then show ?thesis by simp
    qed
    with step False seg show ?thesis by (auto simp: run_shape_def valid_group_def)
  qed
qed

lemma segment_runs_shape:
  assumes "valid_group depth ms"
  shows "sorted_wrt (<) (map fst (segment_runs depth ms)) \<and>
    (\<forall>run \<in> set (segment_runs depth ms). run_shape depth (fst run) (snd run)) \<and>
    (\<forall>s \<in> fst ` set (segment_runs depth ms). \<exists>m \<in> set ms. mut_path m ! depth = s) \<and>
    concat (map snd (segment_runs depth ms)) = ms"
  using assms
proof (induction depth ms rule: segment_runs.induct)
  case (2 depth m ms)
  let ?Q = "has_segment depth (mut_path m ! depth)"
  have v: "valid_group depth (m # takeWhile ?Q ms)" "valid_group depth (dropWhile ?Q ms)"
    using valid_group_span [OF "2.prems"] by simp_all
  note IH = "2.IH" [OF refl v(2)]
  have "\<forall>n \<in> set (m # takeWhile ?Q ms). mut_path n ! depth = mut_path m ! depth"
    by (auto simp: has_segment_def dest: set_takeWhileD)
  note shape = run_shape_valid [OF v(1) this]
  have above: "\<forall>s \<in> fst ` set (segment_runs depth (dropWhile ?Q ms)). mut_path m ! depth < s"
  proof
    fix s assume "s \<in> fst ` set (segment_runs depth (dropWhile ?Q ms))"
    with IH obtain n where "n \<in> set (dropWhile ?Q ms)" "mut_path n ! depth = s" by fast
    with dropWhile_segment_above [OF "2.prems"] show "mut_path m ! depth < s" by fast
  qed
  have wit: "\<forall>s \<in> fst ` set (segment_runs depth (dropWhile ?Q ms)). \<exists>m \<in> set ms. mut_path m ! depth = s"
    using IH by (fast dest: set_dropWhileD)
  show ?case using IH shape above wit by (simp add: Let_def)
qed simp

section \<open>What a delta does to a state\<close>

lemma freeze_json_object_reusing_eq:
  "freeze_json_object_reusing cache d changed =
     (if frozen_json_required_depth (JObj d) \<le> default_max_depth
      then Inr (d, reused_entry_digests cache d changed) else Inl CanonicalEncodingError)"
  by (simp add: freeze_json_object_reusing_def freeze_json_eq)

lemma freeze_json_object_reusing_value:
  "res_bind (freeze_json_object_reusing cache d changed) (\<lambda>frozen. Inr (fst frozen)) =
     (if frozen_json_required_depth (JObj d) \<le> default_max_depth then Inr d else Inl CanonicalEncodingError)"
  unfolding freeze_json_object_reusing_eq by (simp only: if_split) simp

definition run_update :: "nat \<Rightarrow> json option \<Rightarrow> state_mutation list \<Rightarrow> json option res" where
  "run_update depth old g =
     (if length (mut_path (hd g)) = Suc depth then
        if length g \<noteq> 1 then Inl MachineIntegrityError
        else if mut_delete (hd g) then if old = None then Inl MachineIntegrityError else Inr None
        else Inr (Some (mut_value (hd g)))
      else case old of
          Some (JObj current) \<Rightarrow> res_bind (apply_mutation_group current g (Suc depth)) (\<lambda>v. Inr (Some (JObj v)))
        | _ \<Rightarrow> Inl MachineIntegrityError)"

lemma valid_mutation_runs: "valid_group depth ms \<Longrightarrow> mutation_runs depth ms = Inr (segment_runs depth ms)"
  by (auto simp: mutation_runs_def valid_group_def not_le)

lemma apply_mutation_group_runs:
  assumes "valid_group depth ms"
  shows "apply_mutation_group base ms depth =
    res_bind (res_fold (\<lambda>r run. res_bind (run_update depth (map_of r (fst run)) (snd run))
        (\<lambda>new. Inr (dict_put (fst run) new r))) base (segment_runs depth ms))
      (\<lambda>r. if frozen_json_required_depth (JObj r) \<le> default_max_depth then Inr r
           else Inl CanonicalEncodingError)"
  unfolding apply_mutation_group.simps [of base ms depth] valid_mutation_runs [OF assms]
    run_update_def freeze_json_object_reusing_value
  by (simp only: res_bind_Inr)

lemma segment_runs_distinct: "valid_group depth ms \<Longrightarrow> distinct (map fst (segment_runs depth ms))"
  using segment_runs_shape strict_sorted_iff by blast

lemma apply_mutation_group_entries:
  assumes "valid_group depth ms" "apply_mutation_group base ms depth = Inr r"
  shows "run \<in> set (segment_runs depth ms) \<Longrightarrow> run_update depth (map_of base (fst run)) (snd run) = Inr (map_of r (fst run))"
    and "k \<notin> fst ` set (segment_runs depth ms) \<Longrightarrow> map_of r k = map_of base k"
    and "dict_wf base \<Longrightarrow> dict_wf r"
    and "frozen_json_required_depth (JObj r) \<le> default_max_depth"
proof -
  let ?step = "\<lambda>r run. res_bind (run_update depth (map_of r (fst run)) (snd run))
    (\<lambda>new. Inr (dict_put (fst run) new r))"
  from assms have fold: "res_fold ?step base (segment_runs depth ms) = Inr r"
    and d: "frozen_json_required_depth (JObj r) \<le> default_max_depth"
    by (auto simp: apply_mutation_group_runs res_simps split: if_splits)
  from d show "frozen_json_required_depth (JObj r) \<le> default_max_depth" .
  have "(\<forall>(k, x) \<in> set (segment_runs depth ms). run_update depth (map_of base k) x = Inr (map_of r k)) \<and>
    (\<forall>k. k \<notin> fst ` set (segment_runs depth ms) \<longrightarrow> map_of r k = map_of base k) \<and>
    (dict_wf base \<longrightarrow> dict_wf r)"
    by (rule res_fold_put [OF segment_runs_distinct [OF assms(1)] _ fold,
          where upd = "\<lambda>old k g. run_update depth old g"]) simp
  then show "run \<in> set (segment_runs depth ms) \<Longrightarrow> run_update depth (map_of base (fst run)) (snd run) = Inr (map_of r (fst run))"
    "k \<notin> fst ` set (segment_runs depth ms) \<Longrightarrow> map_of r k = map_of base k"
    "dict_wf base \<Longrightarrow> dict_wf r"
    by auto
qed

text \<open>Reading a state along a path.\<close>

fun json_get :: "json \<Rightarrow> string list \<Rightarrow> json option" where
  "json_get v [] = Some v"
| "json_get (JObj d) (k # ks) = (case map_of d k of None \<Rightarrow> None | Some v \<Rightarrow> json_get v ks)"
| "json_get _ (_ # _) = None"

lemma run_of_mutation:
  assumes "valid_group depth ms" "m \<in> set ms"
  obtains g where "(mut_path m ! depth, g) \<in> set (segment_runs depth ms)" "m \<in> set g"
    "drop depth (mut_path m) = mut_path m ! depth # drop (Suc depth) (mut_path m)"
proof -
  from segment_runs_shape [OF assms(1)] have c: "concat (map snd (segment_runs depth ms)) = ms"
    and sh: "\<forall>run \<in> set (segment_runs depth ms). run_shape depth (fst run) (snd run)" by blast+
  have "m \<in> set (concat (map snd (segment_runs depth ms)))" using c assms(2) by simp
  then obtain run where run: "run \<in> set (segment_runs depth ms)" "m \<in> set (snd run)" by auto
  then have "mut_path m ! depth = fst run" using sh by (auto simp: run_shape_def)
  moreover have "depth < length (mut_path m)" using assms by (simp add: valid_group_def)
  ultimately show ?thesis using run that [of "snd run"] Cons_nth_drop_Suc [of depth "mut_path m"] by simp
qed

lemma run_update_leaf:
  assumes "run_shape depth s g" "length (mut_path (hd g)) = Suc depth" "run_update depth old g = Inr new"
  obtains m where "g = [m]" "drop (Suc depth) (mut_path m) = []" "new = (if mut_delete m then None else Some (mut_value m))"
    "mut_delete m \<longrightarrow> old \<noteq> None"
  using assms by (cases g) (auto simp: run_update_def run_shape_def split: if_splits)

lemma run_update_nested:
  assumes "length (mut_path (hd g)) \<noteq> Suc depth" "run_update depth old g = Inr new"
  obtains current c where "old = Some (JObj current)" "apply_mutation_group current g (Suc depth) = Inr c"
    "new = Some (JObj c)"
  using assms by (auto simp: run_update_def res_simps split: option.splits json.splits)

definition unrelated :: "string list \<Rightarrow> string list \<Rightarrow> bool" where
  "unrelated p q = (\<not> prefix p q \<and> \<not> prefix q p)"

lemma apply_mutation_group_get:
  assumes "valid_group depth ms" "apply_mutation_group base ms depth = Inr r" "ms \<noteq> []"
  shows "(\<forall>m \<in> set ms. json_get (JObj r) (drop depth (mut_path m)) =
      (if mut_delete m then None else Some (mut_value m))) \<and>
    (\<forall>p. (\<forall>m \<in> set ms. unrelated p (drop depth (mut_path m))) \<longrightarrow> json_get (JObj r) p = json_get (JObj base) p)"
  using assms
proof (induction base ms depth arbitrary: r rule: apply_mutation_group.induct)
  case (1 base ms depth)
  note entries = apply_mutation_group_entries [OF "1.prems"(1,2)]
  have shape: "run_shape depth (fst run) (snd run)" if "run \<in> set (segment_runs depth ms)" for run
    using segment_runs_shape [OF "1.prems"(1)] that by blast
  have nested: "(\<forall>m \<in> set g. json_get (JObj c) (drop (Suc depth) (mut_path m)) =
        (if mut_delete m then None else Some (mut_value m))) \<and>
      (\<forall>p. (\<forall>m \<in> set g. unrelated p (drop (Suc depth) (mut_path m))) \<longrightarrow>
        json_get (JObj c) p = json_get (JObj current) p)"
    if run: "(s, g) \<in> set (segment_runs depth ms)" and inner: "length (mut_path (hd g)) \<noteq> Suc depth"
      and old: "map_of base s = Some (JObj current)" and c: "apply_mutation_group current g (Suc depth) = Inr c"
    for s g current c
  proof (rule "1.IH" [OF valid_mutation_runs [OF "1.prems"(1)], of "(s, g)" base "JObj current" current, simplified])
    show "valid_group (Suc depth) g" "g \<noteq> []"
      using shape [OF run] inner by (auto simp: run_shape_def split: if_splits)
  qed (use that in auto)
  show ?case
  proof (intro conjI ballI allI impI)
    fix m assume m: "m \<in> set ms"
    obtain g where run: "(mut_path m ! depth, g) \<in> set (segment_runs depth ms)" "m \<in> set g"
      and dr: "drop depth (mut_path m) = mut_path m ! depth # drop (Suc depth) (mut_path m)"
      by (rule run_of_mutation [OF "1.prems"(1) m])
    note upd = entries(1) [OF run(1), simplified]
    show "json_get (JObj r) (drop depth (mut_path m)) = (if mut_delete m then None else Some (mut_value m))"
    proof (cases "length (mut_path (hd g)) = Suc depth")
      case True
      obtain n where "g = [n]" "drop (Suc depth) (mut_path n) = []"
        "map_of r (mut_path m ! depth) = (if mut_delete n then None else Some (mut_value n))"
        by (rule run_update_leaf [OF shape [OF run(1), simplified] True upd])
      with run(2) show ?thesis unfolding dr by auto
    next
      case False
      then obtain current c where "map_of base (mut_path m ! depth) = Some (JObj current)"
        and c: "apply_mutation_group current g (Suc depth) = Inr c" "map_of r (mut_path m ! depth) = Some (JObj c)"
        by (rule run_update_nested [OF _ upd])
      with nested [OF run(1) False] run(2) show ?thesis by (simp add: dr)
    qed
  next
    fix p assume p: "\<forall>m \<in> set ms. unrelated p (drop depth (mut_path m))"
    from "1.prems"(3) p have "p \<noteq> []" by (cases ms) (auto simp: unrelated_def)
    then obtain k q where pk: "p = k # q" by (cases p) auto
    show "json_get (JObj r) p = json_get (JObj base) p"
    proof (cases "k \<in> fst ` set (segment_runs depth ms)")
      case False
      then show ?thesis by (simp add: pk entries(2))
    next
      case True
      then obtain g where run: "(k, g) \<in> set (segment_runs depth ms)" by force
      note upd = entries(1) [OF run, simplified]
      have g: "set g \<subseteq> set ms" "g \<noteq> []" using segment_runs_mem [OF run] by simp_all
      have dr: "drop depth (mut_path m) = k # drop (Suc depth) (mut_path m)" if "m \<in> set g" for m
        using that g shape [OF run] "1.prems"(1) Cons_nth_drop_Suc [of depth "mut_path m"]
        by (auto simp: run_shape_def valid_group_def)
      show ?thesis
      proof (cases "length (mut_path (hd g)) = Suc depth")
        case True
        then have "drop depth (mut_path (hd g)) = [k]" using dr [of "hd g"] g by simp
        moreover have "hd g \<in> set ms" using g by (cases g) auto
        ultimately show ?thesis using p by (fastforce simp: unrelated_def pk)
      next
        case False
        then obtain current c where old: "map_of base k = Some (JObj current)"
          and c: "apply_mutation_group current g (Suc depth) = Inr c" "map_of r k = Some (JObj c)"
          by (rule run_update_nested [OF _ upd])
        have "\<forall>m \<in> set g. unrelated q (drop (Suc depth) (mut_path m))"
          using p g dr by (fastforce simp: unrelated_def pk)
        with nested [OF run False old c(1)] show ?thesis by (simp add: pk old c(2))
      qed
    qed
  qed
qed


text \<open>The digest cache a nested copy inherits is sound, because every other entry is unchanged.\<close>

lemma apply_mutation_group_cache:
  assumes "valid_group depth ms" "apply_mutation_group base ms depth = Inr r" "cache_sound L cache base"
  shows "cache_sound L (reused_entry_digests cache r (fst ` set (segment_runs depth ms))) r"
  using assms(3)
  by (rule reused_entry_digests_sound) (rule apply_mutation_group_entries(2) [OF assms(1,2)])

lemma apply_mutation_group_digest:
  assumes "valid_group depth ms" "apply_mutation_group base ms depth = Inr r" "cache_sound L cache base" "dict_wf base"
  shows "fst (content_digest_cached L (reused_entry_digests cache r (fst ` set (segment_runs depth ms))) r) =
    json_content_digest L (JObj r)"
  by (rule content_digest_cached_sound(1))
    (rule apply_mutation_group_cache [OF assms(1-3)], rule apply_mutation_group_entries(3) [OF assms(1,2,4)])

text \<open>A delta as \<^verbatim>\<open>MachineStateDelta\<close> constructs it from constructed mutations.\<close>

definition delta_ok :: "hostlib \<Rightarrow> state_delta \<Rightarrow> bool" where
  "delta_ok L delta =
     (\<exists>ms. (\<forall>m \<in> set ms. mutation_post_init m = Inr m) \<and> mk_state_delta L ms = Inr delta)"

lemma mutation_post_init_ok:
  "mutation_post_init m = Inr n \<longleftrightarrow>
     n = m \<and> mut_path m \<noteq> [] \<and> [] \<notin> set (mut_path m) \<and>
     (if mut_delete m then mut_value m = JNull else frozen_json_required_depth (mut_value m) \<le> default_max_depth)"
  by (auto simp: mutation_post_init_def res_simps split: if_splits)

lemma delta_ok_valid:
  assumes "delta_ok L delta"
  shows "valid_group 0 (delta_mutations delta)"
    and "\<forall>m \<in> set (delta_mutations delta). mutation_post_init m = Inr m"
    and "delta_digest delta = canonical_digest L (JArr (map mutation_json (delta_mutations delta)))"
proof -
  from assms obtain ms where ms: "\<forall>m \<in> set ms. mutation_post_init m = Inr m"
    and d: "validate_state_mutations ms = Inr (delta_mutations delta)"
    and dd: "delta_digest delta = canonical_digest L (JArr (map mutation_json (delta_mutations delta)))"
    by (auto simp: delta_ok_def mk_state_delta_def res_simps)
  have "\<forall>m \<in> set ms. mut_path m \<noteq> []" using ms by (simp add: mutation_post_init_ok)
  from validate_state_mutations_valid [OF d this] ms dd
  show "valid_group 0 (delta_mutations delta)"
    "\<forall>m \<in> set (delta_mutations delta). mutation_post_init m = Inr m"
    "delta_digest delta = canonical_digest L (JArr (map mutation_json (delta_mutations delta)))"
    by simp_all
qed

lemma apply_machine_state_delta_get:
  assumes "delta_ok L delta" "apply_machine_state_delta state delta = Inr state'"
  shows "(\<forall>m \<in> set (delta_mutations delta). json_get state' (mut_path m) =
      (if mut_delete m then None else Some (mut_value m))) \<and>
    (\<forall>p. (\<forall>m \<in> set (delta_mutations delta). unrelated p (mut_path m)) \<longrightarrow> json_get state' p = json_get state p)"
proof (cases "delta_mutations delta = []")
  case True
  with assms(2) show ?thesis by (auto simp: apply_machine_state_delta_def split: json.splits)
next
  case False
  with assms(2) obtain base r where "state = JObj base" "state' = JObj r"
    "apply_mutation_group base (delta_mutations delta) 0 = Inr r"
    by (auto simp: apply_machine_state_delta_def res_simps split: json.splits)
  with apply_mutation_group_get [OF delta_ok_valid(1) [OF assms(1)] _ False] show ?thesis by simp
qed

lemma prefix_le: "prefix p q \<Longrightarrow> p \<le> q" for p q :: "'a::linorder list"
proof (induction p arbitrary: q)
  case (Cons a p)
  then show ?case by (cases q) auto
qed simp

lemma delta_ok_disjoint:
  assumes "delta_ok L delta" "i < length (delta_mutations delta)" "j < length (delta_mutations delta)" "i \<noteq> j"
  shows "\<not> prefix (mut_path (delta_mutations delta ! i)) (mut_path (delta_mutations delta ! j))"
proof (cases "i < j")
  case True
  with delta_ok_valid(1) [OF assms(1)] assms(3) show ?thesis by (simp add: valid_group_def sorted_wrt_iff_nth_less)
next
  case False
  with assms(4) have "j < i" by simp
  with delta_ok_valid(1) [OF assms(1)] assms(2)
  have le: "mut_path (delta_mutations delta ! j) \<le> mut_path (delta_mutations delta ! i)"
    and no: "\<not> prefix (mut_path (delta_mutations delta ! j)) (mut_path (delta_mutations delta ! i))"
    by (simp_all add: valid_group_def sorted_wrt_iff_nth_less)
  show ?thesis
  proof
    assume "prefix (mut_path (delta_mutations delta ! i)) (mut_path (delta_mutations delta ! j))"
    then have "mut_path (delta_mutations delta ! i) = mut_path (delta_mutations delta ! j)" using prefix_le le by (auto intro: antisym)
    with no show False by simp
  qed
qed

end
