(* ===== verification/Machine.thy ===== *)
theory Machine
  imports StateDelta
begin

text \<open>
  The Machine ABI of \<^verbatim>\<open>kernel/machine.py\<close> and \<^verbatim>\<open>kernel/contracts.py\<close>:
  identities, executable references, commands, child links, transition proposals, commits, cuts
  and snapshots.  Each frozen dataclass is a record; its \<^verbatim>\<open>__post_init__\<close> is a
  function from the freshly assigned object to the object with its derived fields set, or to the
  exception it raises.  Derived fields (\<^verbatim>\<open>init=False\<close>) of the argument are overwritten.
  Python annotations are not enforced at run time: a field that no check constrains keeps an
  arbitrary JSON value.
\<close>

section \<open>Status and executable identity\<close>

datatype machine_status = READY | RUNNABLE | WAITING | INTERRUPTED | COMPLETED | FAILED | UNKNOWN

fun status_value :: "machine_status \<Rightarrow> string" where
  "status_value READY = ''ready''"
| "status_value RUNNABLE = ''runnable''"
| "status_value WAITING = ''waiting''"
| "status_value INTERRUPTED = ''interrupted''"
| "status_value COMPLETED = ''completed''"
| "status_value FAILED = ''failed''"
| "status_value UNKNOWN = ''unknown''"

definition all_statuses :: "machine_status list" where
  "all_statuses = [READY, RUNNABLE, WAITING, INTERRUPTED, COMPLETED, FAILED, UNKNOWN]"

text \<open>The enum constructor \<^verbatim>\<open>MachineStatus(text)\<close>.\<close>

definition status_of_value :: "string \<Rightarrow> machine_status res" where
  "status_of_value s =
     (case find (\<lambda>st. status_value st = s) all_statuses of Some st \<Rightarrow> Inr st | None \<Rightarrow> Inl ValueError)"

record machine_identity =
  ident_machine_id :: string
  ident_implementation_version :: string
  ident_generation_id :: string

definition identity_post_init :: "machine_identity \<Rightarrow> machine_identity res" where
  "identity_post_init self =
     (if nonblank (ident_machine_id self) \<and> nonblank (ident_implementation_version self) \<and>
         nonblank (ident_generation_id self)
      then Inr self else Inl ValueError)"

record execution_lock =
  lock_code_digest :: string
  lock_dependency_digest :: string
  lock_schema_digest :: string
  lock_unit_machine_digest :: string
  lock_data_digest :: string
  lock_config_digest :: string
  lock_digest :: string

definition lock_payload :: "execution_lock \<Rightarrow> (string \<times> json) list" where
  "lock_payload l =
     [(''code_digest'', JStr (lock_code_digest l)),
      (''dependency_digest'', JStr (lock_dependency_digest l)),
      (''schema_digest'', JStr (lock_schema_digest l)),
      (''unit_machine_digest'', JStr (lock_unit_machine_digest l)),
      (''data_digest'', JStr (lock_data_digest l)),
      (''config_digest'', JStr (lock_config_digest l))]"

definition execution_lock_post_init :: "hostlib \<Rightarrow> execution_lock \<Rightarrow> execution_lock res" where
  "execution_lock_post_init L self =
     res_bind (res_map require_sha256
       [lock_code_digest self, lock_dependency_digest self, lock_schema_digest self,
        lock_unit_machine_digest self, lock_data_digest self, lock_config_digest self]) (\<lambda>_.
     Inr (self\<lparr>lock_digest := canonical_digest L (jobj (lock_payload self))\<rparr>))"

record unit_ref =
  unit_digest :: string
  unit_state_schema :: string
  unit_domain :: string
  unit_version :: string
  unit_execution_lock :: execution_lock

definition unit_ref_post_init :: "unit_ref \<Rightarrow> unit_ref res" where
  "unit_ref_post_init self =
     res_bind (require_sha256 (unit_digest self)) (\<lambda>_.
     res_bind (require (nonblank (unit_state_schema self) \<and> nonblank (unit_domain self) \<and>
                        nonblank (unit_version self)) ValueError) (\<lambda>_.
     Inr self))"

text \<open>The canonical encoding of a dataclass is the object of its fields, derived ones included.\<close>

definition lock_json :: "execution_lock \<Rightarrow> json" where
  "lock_json l = jobj (lock_payload l @ [(''lock_digest'', JStr (lock_digest l))])"

definition unit_ref_json :: "unit_ref \<Rightarrow> json" where
  "unit_ref_json u = jobj
     [(''unit_digest'', JStr (unit_digest u)),
      (''state_schema'', JStr (unit_state_schema u)),
      (''domain'', JStr (unit_domain u)),
      (''version'', JStr (unit_version u)),
      (''execution_lock'', lock_json (unit_execution_lock u))]"

section \<open>Commands and child links\<close>

record machine_command =
  cmd_command_id :: string
  cmd_machine_id :: string
  cmd_expected_revision :: int
  cmd_kind :: string
  cmd_payload :: json
  cmd_scope :: "string list"
  cmd_deadline_at :: json
  cmd_parent_command_id :: json
  cmd_idempotency_key :: json
  cmd_payload_digest :: string

definition command_payload :: "machine_command \<Rightarrow> (string \<times> json) list" where
  "command_payload c =
     [(''command_id'', JStr (cmd_command_id c)),
      (''machine_id'', JStr (cmd_machine_id c)),
      (''expected_revision'', JInt (cmd_expected_revision c)),
      (''kind'', JStr (cmd_kind c)),
      (''payload'', cmd_payload c),
      (''scope'', jstrs (cmd_scope c)),
      (''deadline_at'', cmd_deadline_at c),
      (''parent_command_id'', cmd_parent_command_id c),
      (''idempotency_key'', cmd_idempotency_key c)]"

definition command_post_init :: "hostlib \<Rightarrow> machine_command \<Rightarrow> machine_command res" where
  "command_post_init L self =
     res_bind (require (nonblank (cmd_command_id self) \<and> nonblank (cmd_machine_id self) \<and>
                        nonblank (cmd_kind self)) ValueError) (\<lambda>_.
     res_bind (require (0 \<le> cmd_expected_revision self) ValueError) (\<lambda>_.
     res_bind (require (\<forall>s \<in> set (cmd_scope self). nonblank s) TypeError) (\<lambda>_.
     res_bind (freeze_json (cmd_payload self)) (\<lambda>p.
     Inr (self\<lparr>cmd_payload := p,
       cmd_payload_digest := canonical_digest L (jobj (command_payload (self\<lparr>cmd_payload := p\<rparr>)))\<rparr>)))))"

definition command_json :: "machine_command \<Rightarrow> json" where
  "command_json c = jobj (command_payload c @ [(''payload_digest'', JStr (cmd_payload_digest c))])"

record child_link =
  link_parent_machine_id :: string
  link_child_machine_id :: string
  link_child_unit_digest :: string
  link_child_execution_lock_digest :: string
  link_child_snapshot_ref :: string
  link_child_transition_start :: int
  link_child_transition_end :: int
  link_child_result_ref :: "string option"
  link_failure_policy :: string
  link_digest :: string

definition child_link_payload :: "child_link \<Rightarrow> (string \<times> json) list" where
  "child_link_payload l =
     [(''parent_machine_id'', JStr (link_parent_machine_id l)),
      (''child_machine_id'', JStr (link_child_machine_id l)),
      (''child_unit_digest'', JStr (link_child_unit_digest l)),
      (''child_execution_lock_digest'', JStr (link_child_execution_lock_digest l)),
      (''child_snapshot_ref'', JStr (link_child_snapshot_ref l)),
      (''child_transition_start'', JInt (link_child_transition_start l)),
      (''child_transition_end'', JInt (link_child_transition_end l)),
      (''child_result_ref'', jopt_str (link_child_result_ref l)),
      (''failure_policy'', JStr (link_failure_policy l))]"

definition child_link_post_init :: "hostlib \<Rightarrow> child_link \<Rightarrow> child_link res" where
  "child_link_post_init L self =
     res_bind (require (nonblank (link_parent_machine_id self) \<and> nonblank (link_child_machine_id self) \<and>
                        nonblank (link_child_snapshot_ref self) \<and> nonblank (link_failure_policy self)) ValueError) (\<lambda>_.
     res_bind (require_sha256 (link_child_unit_digest self)) (\<lambda>_.
     res_bind (require_sha256 (link_child_execution_lock_digest self)) (\<lambda>_.
     res_bind (require (0 \<le> link_child_transition_start self) ValueError) (\<lambda>_.
     res_bind (require (link_child_transition_start self \<le> link_child_transition_end self) ValueError) (\<lambda>_.
     res_bind (require (opt_nonblank (link_child_result_ref self)) ValueError) (\<lambda>_.
     Inr (self\<lparr>link_digest := canonical_digest L (jobj (child_link_payload self))\<rparr>)))))))"

definition child_link_as_dict :: "child_link \<Rightarrow> json" where
  "child_link_as_dict l = jobj (child_link_payload l @ [(''link_digest'', JStr (link_digest l))])"

section \<open>Transition proposals\<close>

record transition_proposal =
  prop_machine_id :: string
  prop_command_id :: string
  prop_base_revision :: int
  prop_state_delta :: state_delta
  prop_emitted_commands :: "machine_command list"
  prop_output_refs :: "string list"
  prop_event_payloads :: "json list"
  prop_effect_intent_refs :: "string list"
  prop_wait_reason :: "string option"
  prop_accepted_status :: "machine_status option"
  prop_input_refs :: "string list"
  prop_evidence_refs :: "string list"
  prop_artifact_refs :: "string list"
  prop_child_links :: "child_link list"
  prop_state_delta_digest :: string
  prop_proposal_digest :: string

definition proposal_payload :: "transition_proposal \<Rightarrow> (string \<times> json) list" where
  "proposal_payload p =
     [(''machine_id'', JStr (prop_machine_id p)),
      (''command_id'', JStr (prop_command_id p)),
      (''base_revision'', JInt (prop_base_revision p)),
      (''state_delta_digest'', JStr (prop_state_delta_digest p)),
      (''emitted_commands'', JArr (map command_json (prop_emitted_commands p))),
      (''output_refs'', jstrs (prop_output_refs p)),
      (''event_payloads'', JArr (prop_event_payloads p)),
      (''effect_intent_refs'', jstrs (prop_effect_intent_refs p)),
      (''wait_reason'', jopt_str (prop_wait_reason p)),
      (''accepted_status'', jopt_str (map_option status_value (prop_accepted_status p))),
      (''input_refs'', jstrs (prop_input_refs p)),
      (''evidence_refs'', jstrs (prop_evidence_refs p)),
      (''artifact_refs'', jstrs (prop_artifact_refs p)),
      (''child_links'', JArr (map child_link_as_dict (prop_child_links p)))]"

definition all_nonblank :: "string list \<Rightarrow> bool" where
  "all_nonblank xs = (\<forall>x \<in> set xs. nonblank x)"

definition proposal_post_init :: "hostlib \<Rightarrow> transition_proposal \<Rightarrow> transition_proposal res" where
  "proposal_post_init L self =
     res_bind (require (nonblank (prop_machine_id self) \<and> nonblank (prop_command_id self)) ValueError) (\<lambda>_.
     res_bind (require (0 \<le> prop_base_revision self) ValueError) (\<lambda>_.
     res_bind (require (\<forall>l \<in> set (prop_child_links self). link_parent_machine_id l = prop_machine_id self) TypeError) (\<lambda>_.
     res_bind (require (all_nonblank (prop_output_refs self) \<and> all_nonblank (prop_input_refs self) \<and>
                        all_nonblank (prop_evidence_refs self) \<and> all_nonblank (prop_artifact_refs self)) TypeError) (\<lambda>_.
     res_bind (require (opt_nonblank (prop_wait_reason self)) ValueError) (\<lambda>_.
     res_bind (res_map freeze_json (prop_event_payloads self)) (\<lambda>events.
     let self' = self\<lparr>prop_event_payloads := events,
                      prop_state_delta_digest := delta_digest (prop_state_delta self)\<rparr> in
     Inr (self'\<lparr>prop_proposal_digest := canonical_digest L (jobj (proposal_payload self'))\<rparr>)))))))"

section \<open>Commits\<close>

definition content_anchor_interval :: int where
  "content_anchor_interval = 256"

record machine_commit =
  com_machine_id :: string
  com_command_id :: string
  com_base_revision :: int
  com_revision :: int
  com_proposal_digest :: string
  com_command_digest :: string
  com_unit_digest :: string
  com_execution_lock_digest :: string
  com_state :: json
  com_output_refs :: "string list"
  com_event_payloads :: "json list"
  com_effect_intent_refs :: "string list"
  com_emitted_commands :: "machine_command list"
  com_previous_commit_id :: "string option"
  com_before_state_digest :: "string option"
  com_input_digest :: "string option"
  com_machine_version :: "string option"
  com_input_refs :: "string list"
  com_state_delta_ref :: "string option"
  com_evidence_refs :: "string list"
  com_artifact_refs :: "string list"
  com_parent_transition_id :: "string option"
  com_attempt_id :: "string option"
  com_authority_epoch :: "int option"
  com_child_links :: "child_link list"
  com_accepted_status :: machine_status
  com_state_delta :: "state_delta option"
  com_state_content_digest :: "string option"
  com_state_digest :: string
  com_commit_id :: string

text \<open>
  \<^verbatim>\<open>==\<close> of two commits: every field except \<^verbatim>\<open>state_delta\<close>, which is declared
  \<^verbatim>\<open>compare=False\<close>.
\<close>

definition commit_eq :: "machine_commit \<Rightarrow> machine_commit \<Rightarrow> bool" where
  "commit_eq a b = (a\<lparr>com_state_delta := None\<rparr> = b\<lparr>com_state_delta := None\<rparr>)"

definition is_content_anchor :: "int \<Rightarrow> bool" where
  "is_content_anchor revision = (revision = 1 \<or> revision mod content_anchor_interval = 0)"

definition state_identity :: "hostlib \<Rightarrow> string option \<Rightarrow> string option \<Rightarrow> string option \<Rightarrow> string" where
  "state_identity L before delta_ref content = canonical_digest L (jobj
     [(''schema'', JStr ''machine.state-identity.v2''),
      (''before_state_digest'', jopt_str before),
      (''state_delta_ref'', jopt_str delta_ref),
      (''state_content_digest'', jopt_str content)])"

definition commit_payload :: "machine_commit \<Rightarrow> (string \<times> json) list" where
  "commit_payload c =
     [(''machine_id'', JStr (com_machine_id c)),
      (''command_id'', JStr (com_command_id c)),
      (''base_revision'', JInt (com_base_revision c)),
      (''revision'', JInt (com_revision c)),
      (''proposal_digest'', JStr (com_proposal_digest c)),
      (''command_digest'', JStr (com_command_digest c)),
      (''state_digest'', JStr (com_state_digest c)),
      (''state_content_digest'', jopt_str (com_state_content_digest c)),
      (''output_refs'', jstrs (com_output_refs c)),
      (''event_payloads'', JArr (com_event_payloads c)),
      (''effect_intent_refs'', jstrs (com_effect_intent_refs c)),
      (''emitted_commands'', JArr (map command_json (com_emitted_commands c))),
      (''previous_commit_id'', jopt_str (com_previous_commit_id c)),
      (''before_state_digest'', jopt_str (com_before_state_digest c)),
      (''input_digest'', jopt_str (com_input_digest c)),
      (''unit_digest'', JStr (com_unit_digest c)),
      (''execution_lock_digest'', JStr (com_execution_lock_digest c)),
      (''machine_version'', jopt_str (com_machine_version c)),
      (''input_refs'', jstrs (com_input_refs c)),
      (''state_delta_ref'', jopt_str (com_state_delta_ref c)),
      (''evidence_refs'', jstrs (com_evidence_refs c)),
      (''artifact_refs'', jstrs (com_artifact_refs c)),
      (''parent_transition_id'', jopt_str (com_parent_transition_id c)),
      (''attempt_id'', jopt_str (com_attempt_id c)),
      (''authority_epoch'', jopt_int (com_authority_epoch c)),
      (''child_links'', JArr (map child_link_as_dict (com_child_links c))),
      (''accepted_status'', JStr (status_value (com_accepted_status c)))]"

text \<open>The checks of \<^verbatim>\<open>MachineCommit.__post_init__\<close>, in source order.\<close>

definition opt_sha256 :: "string option \<Rightarrow> bool" where
  "opt_sha256 x = (case x of None \<Rightarrow> True | Some d \<Rightarrow> is_sha256 d)"

definition commit_checks :: "machine_commit \<Rightarrow> unit res" where
  "commit_checks self =
     res_bind (require (nonblank (com_machine_id self) \<and> nonblank (com_command_id self) \<and>
                        nonblank (com_proposal_digest self)) ValueError) (\<lambda>_.
     res_bind (res_map require_sha256 [com_proposal_digest self, com_command_digest self,
                 com_unit_digest self, com_execution_lock_digest self]) (\<lambda>_.
     res_bind (require (0 \<le> com_base_revision self) ValueError) (\<lambda>_.
     res_bind (require (com_revision self = com_base_revision self + 1) ValueError) (\<lambda>_.
     res_bind (require (opt_nonblank (com_previous_commit_id self)) ValueError) (\<lambda>_.
     res_bind (require (\<forall>l \<in> set (com_child_links self). link_parent_machine_id l = com_machine_id self) TypeError) (\<lambda>_.
     res_bind (require (all_nonblank (com_output_refs self) \<and> all_nonblank (com_input_refs self) \<and>
                        all_nonblank (com_evidence_refs self) \<and> all_nonblank (com_artifact_refs self)) TypeError) (\<lambda>_.
     res_bind (require (opt_sha256 (com_before_state_digest self) \<and> opt_sha256 (com_input_digest self)) DigestValidationError) (\<lambda>_.
     res_bind (require (opt_nonblank (com_machine_version self) \<and> opt_nonblank (com_state_delta_ref self) \<and>
                        opt_nonblank (com_parent_transition_id self) \<and> opt_nonblank (com_attempt_id self)) ValueError) (\<lambda>_.
     res_bind (require (case com_authority_epoch self of None \<Rightarrow> True | Some e \<Rightarrow> 0 \<le> e) ValueError) (\<lambda>_.
     res_bind (require (com_before_state_digest self \<noteq> None) ValueError) (\<lambda>_.
     res_bind (require (com_state_delta_ref self \<noteq> None) ValueError) (\<lambda>_.
     res_bind (require (opt_sha256 (com_state_delta_ref self)) DigestValidationError) (\<lambda>_.
     require (case com_state_delta self of None \<Rightarrow> True
              | Some d \<Rightarrow> com_state_delta_ref self = Some (delta_digest d)) ValueError)))))))))))))"

definition commit_content_anchor :: "hostlib \<Rightarrow> machine_commit \<Rightarrow> string option res" where
  "commit_content_anchor L self =
     (if is_content_anchor (com_revision self) then
        (let actual = json_content_digest L (com_state self) in
         if com_state_content_digest self \<noteq> None \<and> com_state_content_digest self \<noteq> Some actual
         then Inl ValueError else Inr (Some actual))
      else if com_state_content_digest self \<noteq> None then Inl ValueError else Inr None)"

definition commit_post_init :: "hostlib \<Rightarrow> machine_commit \<Rightarrow> machine_commit res" where
  "commit_post_init L self =
     res_bind (commit_checks self) (\<lambda>_.
     res_bind (freeze_json (com_state self)) (\<lambda>state.
     res_bind (res_map freeze_json (com_event_payloads self)) (\<lambda>events.
     let self1 = self\<lparr>com_state := state, com_event_payloads := events\<rparr> in
     res_bind (commit_content_anchor L self1) (\<lambda>content.
     let self2 = self1\<lparr>com_state_content_digest := content\<rparr>;
         self3 = self2\<lparr>com_state_digest := state_identity L (com_before_state_digest self2)
                          (com_state_delta_ref self2) (com_state_content_digest self2)\<rparr> in
     Inr (self3\<lparr>com_commit_id := canonical_digest L (jobj (commit_payload self3))\<rparr>)))))"

text \<open>A constructed commit is a fixed point of its own construction.\<close>

definition commit_ok :: "hostlib \<Rightarrow> machine_commit \<Rightarrow> bool" where
  "commit_ok L c = (commit_post_init L c = Inr c)"

section \<open>Cuts, snapshots and inspections\<close>

record machine_cut =
  cut_machine_id :: string
  cut_revision :: int
  cut_commit_id :: string
  cut_state_digest :: string
  cut_unit_digest :: string
  cut_execution_lock_digest :: string

definition cut_post_init :: "machine_cut \<Rightarrow> machine_cut res" where
  "cut_post_init self =
     res_bind (require (nonblank (cut_machine_id self)) ValueError) (\<lambda>_.
     res_bind (require (0 < cut_revision self) ValueError) (\<lambda>_.
     res_bind (res_map require_sha256 [cut_commit_id self, cut_state_digest self,
                 cut_unit_digest self, cut_execution_lock_digest self]) (\<lambda>_. Inr self)))"

definition cut_from_commit :: "machine_commit \<Rightarrow> machine_cut res" where
  "cut_from_commit commit = cut_post_init
     \<lparr>cut_machine_id = com_machine_id commit, cut_revision = com_revision commit,
      cut_commit_id = com_commit_id commit, cut_state_digest = com_state_digest commit,
      cut_unit_digest = com_unit_digest commit,
      cut_execution_lock_digest = com_execution_lock_digest commit\<rparr>"

definition cut_digest :: "hostlib \<Rightarrow> machine_cut \<Rightarrow> string" where
  "cut_digest L c = canonical_digest L (jobj
     [(''machine_id'', JStr (cut_machine_id c)),
      (''revision'', JInt (cut_revision c)),
      (''commit_id'', JStr (cut_commit_id c)),
      (''state_digest'', JStr (cut_state_digest c)),
      (''unit_digest'', JStr (cut_unit_digest c)),
      (''execution_lock_digest'', JStr (cut_execution_lock_digest c))])"

record machine_snapshot =
  snap_machine_id :: string
  snap_revision :: int
  snap_unit :: unit_ref
  snap_state :: json
  snap_parent_commit_id :: "string option"
  snap_state_digest :: string

text \<open>
  The constructor's \<^verbatim>\<open>_state_digest_hint\<close> takes the digest of a committed state as
  given; without it the digest is recomputed from the content.
\<close>

definition snapshot_post_init :: "hostlib \<Rightarrow> string option \<Rightarrow> machine_snapshot \<Rightarrow> machine_snapshot res" where
  "snapshot_post_init L hint self =
     res_bind (require (nonblank (snap_machine_id self)) ValueError) (\<lambda>_.
     res_bind (require (0 \<le> snap_revision self) ValueError) (\<lambda>_.
     res_bind (require (opt_nonblank (snap_parent_commit_id self)) ValueError) (\<lambda>_.
     res_bind (freeze_json (snap_state self)) (\<lambda>state.
     res_bind (case hint of
         None \<Rightarrow> Inr (json_content_digest L state)
       | Some d \<Rightarrow> if snap_parent_commit_id self = None then Inl ValueError else require_sha256 d) (\<lambda>digest.
     Inr (self\<lparr>snap_state := state, snap_state_digest := digest\<rparr>))))))"

definition snapshot_id :: "hostlib \<Rightarrow> machine_snapshot \<Rightarrow> string" where
  "snapshot_id L s = canonical_digest L (jobj
     [(''machine_id'', JStr (snap_machine_id s)),
      (''revision'', JInt (snap_revision s)),
      (''unit'', unit_ref_json (snap_unit s)),
      (''state_digest'', JStr (snap_state_digest s)),
      (''parent_commit_id'', jopt_str (snap_parent_commit_id s))])"

record machine_inspection =
  insp_identity :: machine_identity
  insp_unit :: unit_ref
  insp_status :: machine_status
  insp_revision :: int
  insp_state_digest :: string
  insp_pending_command_ids :: "string list"
  insp_last_commit_id :: "string option"

definition inspection_post_init :: "machine_inspection \<Rightarrow> machine_inspection res" where
  "inspection_post_init self =
     res_bind (require (0 \<le> insp_revision self) ValueError) (\<lambda>_.
     res_bind (require_sha256 (insp_state_digest self)) (\<lambda>_. Inr self))"

section \<open>Construction\<close>

lemma res_map_require_sha256 [res_simps]:
  "res_map require_sha256 xs = Inr ys \<longleftrightarrow> ys = xs \<and> (\<forall>x \<in> set xs. is_sha256 x)"
  by (induction xs arbitrary: ys) (auto simp: res_simps)

lemma res_map_freeze_json [res_simps]:
  "res_map freeze_json xs = Inr ys \<longleftrightarrow>
     ys = xs \<and> (\<forall>x \<in> set xs. frozen_json_required_depth x \<le> default_max_depth)"
  by (induction xs arbitrary: ys) (auto simp: res_simps)

lemma commit_content_anchor_ok:
  "commit_content_anchor L c = Inr d \<longleftrightarrow>
     (if is_content_anchor (com_revision c)
      then d = Some (json_content_digest L (com_state c)) \<and>
        (com_state_content_digest c = None \<or> com_state_content_digest c = d)
      else d = None \<and> com_state_content_digest c = None)"
  by (auto simp: commit_content_anchor_def Let_def)

text \<open>What a constructed commit satisfies.\<close>

lemma commit_ok_checks: "commit_ok L c \<Longrightarrow> commit_checks c = Inr ()"
  by (auto simp: commit_ok_def commit_post_init_def res_simps Let_def)

lemma commit_ok_facts:
  assumes "commit_ok L c"
  shows "com_revision c = com_base_revision c + 1" "0 \<le> com_base_revision c"
    and "\<exists>b. com_before_state_digest c = Some b \<and> is_sha256 b"
    and "\<exists>r. com_state_delta_ref c = Some r \<and> is_sha256 r"
    and "com_state_delta c = Some d \<Longrightarrow> com_state_delta_ref c = Some (delta_digest d)"
    and "nonblank (com_machine_id c)" "nonblank (com_command_id c)"
    and "is_sha256 (com_unit_digest c)" "is_sha256 (com_execution_lock_digest c)"
  using commit_ok_checks [OF assms]
  by (auto simp: commit_checks_def res_simps opt_sha256_def split: option.splits)

lemma commit_payload_id [simp]: "commit_payload (c\<lparr>com_commit_id := i\<rparr>) = commit_payload c"
  by (simp add: commit_payload_def)

lemma commit_checks_derived [simp]:
  "commit_checks (c\<lparr>com_state_content_digest := x\<rparr>) = commit_checks c"
  "commit_checks (c\<lparr>com_state_digest := y\<rparr>) = commit_checks c"
  "commit_checks (c\<lparr>com_commit_id := y\<rparr>) = commit_checks c"
  by (simp_all add: commit_checks_def cong: option.case_cong)

lemma commit_post_init_Inr:
  assumes "commit_post_init L s = Inr c"
  obtains content where "commit_checks s = Inr ()" "commit_content_anchor L s = Inr content"
    "frozen_json_required_depth (com_state s) \<le> default_max_depth"
    "\<forall>v \<in> set (com_event_payloads s). frozen_json_required_depth v \<le> default_max_depth"
    "c = (let self = s\<lparr>com_state_content_digest := content, com_state_digest :=
            state_identity L (com_before_state_digest s) (com_state_delta_ref s) content\<rparr>
          in self\<lparr>com_commit_id := canonical_digest L (jobj (commit_payload self))\<rparr>)"
  using assms by (auto simp: commit_post_init_def res_simps Let_def)

lemma commit_post_init_derived:
  assumes "commit_post_init L s = Inr c"
  shows "com_state_content_digest c =
      (if is_content_anchor (com_revision c) then Some (json_content_digest L (com_state c)) else None)"
    and "com_state_digest c = state_identity L (com_before_state_digest c) (com_state_delta_ref c)
      (com_state_content_digest c)"
    and "com_commit_id c = canonical_digest L (jobj (commit_payload c))"
    and "frozen_json_required_depth (com_state c) \<le> default_max_depth"
proof -
  from assms obtain content where content: "commit_content_anchor L s = Inr content"
    and depth: "frozen_json_required_depth (com_state s) \<le> default_max_depth"
    and c: "c = (let self = s\<lparr>com_state_content_digest := content, com_state_digest :=
            state_identity L (com_before_state_digest s) (com_state_delta_ref s) content\<rparr>
          in self\<lparr>com_commit_id := canonical_digest L (jobj (commit_payload self))\<rparr>)"
    by (rule commit_post_init_Inr)
  show "com_state_content_digest c =
      (if is_content_anchor (com_revision c) then Some (json_content_digest L (com_state c)) else None)"
    using content by (simp add: c Let_def commit_content_anchor_ok split: if_splits)
  show "com_state_digest c = state_identity L (com_before_state_digest c) (com_state_delta_ref c)
      (com_state_content_digest c)"
    and "com_commit_id c = canonical_digest L (jobj (commit_payload c))"
    and "frozen_json_required_depth (com_state c) \<le> default_max_depth"
    using depth by (simp_all add: c Let_def)
qed

lemmas commit_ok_derived = commit_post_init_derived [OF commit_ok_def [THEN iffD1]]

lemma commit_ok_post_init:
  assumes "commit_post_init L s = Inr c"
  shows "commit_ok L c"
proof -
  from assms obtain content where *: "commit_checks s = Inr ()" "commit_content_anchor L s = Inr content"
    "frozen_json_required_depth (com_state s) \<le> default_max_depth"
    "\<forall>v \<in> set (com_event_payloads s). frozen_json_required_depth v \<le> default_max_depth"
    and c: "c = (let self = s\<lparr>com_state_content_digest := content, com_state_digest :=
            state_identity L (com_before_state_digest s) (com_state_delta_ref s) content\<rparr>
          in self\<lparr>com_commit_id := canonical_digest L (jobj (commit_payload self))\<rparr>)"
    by (rule commit_post_init_Inr)
  have "commit_checks c = Inr ()" using *(1) by (simp add: c Let_def)
  moreover have "commit_content_anchor L c = Inr content"
    using *(2) by (simp add: c Let_def commit_content_anchor_ok split: if_splits)
  moreover have "freeze_json (com_state c) = Inr (com_state c)"
    "res_map freeze_json (com_event_payloads c) = Inr (com_event_payloads c)"
    using *(3,4) by (simp_all add: c Let_def res_simps)
  moreover have "content = com_state_content_digest c" by (simp add: c Let_def)
  moreover note derived = commit_post_init_derived(2,3) [OF assms, symmetric]
  ultimately show ?thesis
    by (simp add: commit_ok_def commit_post_init_def derived)
qed

section \<open>Commit identity\<close>

lemma status_value_inj [simp]: "status_value a = status_value b \<longleftrightarrow> a = b"
  by (cases a; cases b) simp_all

lemma status_of_value_value [simp]: "status_of_value (status_value s) = Inr s"
  by (cases s) (simp_all add: status_of_value_def all_statuses_def)

lemma command_json_inj [simp]: "command_json a = command_json b \<longleftrightarrow> a = b"
proof
  assume "command_json a = command_json b"
  then have "command_payload a @ [(''payload_digest'', JStr (cmd_payload_digest a))] =
      command_payload b @ [(''payload_digest'', JStr (cmd_payload_digest b))]"
    unfolding command_json_def by (subst (asm) jobj_eq_iff) (simp_all add: command_payload_def)
  then show "a = b" by (simp add: command_payload_def machine_command.equality)
qed simp

lemma child_link_as_dict_inj [simp]: "child_link_as_dict a = child_link_as_dict b \<longleftrightarrow> a = b"
proof
  assume "child_link_as_dict a = child_link_as_dict b"
  then have "child_link_payload a @ [(''link_digest'', JStr (link_digest a))] =
      child_link_payload b @ [(''link_digest'', JStr (link_digest b))]"
    unfolding child_link_as_dict_def by (subst (asm) jobj_eq_iff) (simp_all add: child_link_payload_def)
  then show "a = b" by (simp add: child_link_payload_def child_link.equality)
qed simp

lemma commit_payload_keys_distinct: "distinct (map fst (commit_payload c))"
  by (simp add: commit_payload_def)

lemma commit_payload_inj:
  assumes "commit_payload a = commit_payload b" "com_commit_id a = com_commit_id b"
  shows "a\<lparr>com_state := JNull, com_state_delta := None\<rparr> = b\<lparr>com_state := JNull, com_state_delta := None\<rparr>"
  using assms
  by (intro machine_commit.equality)
    (simp_all add: commit_payload_def inj_map_eq_map inj_on_def)

lemma commit_id_payload:
  assumes "float_repr_ok L" "commit_ok L a" "commit_ok L b" "com_commit_id a = com_commit_id b"
    and "\<not> digest_collision L (jobj (commit_payload a)) (jobj (commit_payload b))"
  shows "a\<lparr>com_state := JNull, com_state_delta := None\<rparr> = b\<lparr>com_state := JNull, com_state_delta := None\<rparr>"
proof -
  have "jobj (commit_payload a) = jobj (commit_payload b)"
    using assms(4) commit_ok_derived(3) [OF assms(2)] commit_ok_derived(3) [OF assms(3)]
    by (intro canonical_digest_inj [OF assms(1,5)]) simp
  moreover have "map fst (commit_payload b) = map fst (commit_payload a)" by (simp add: commit_payload_def)
  ultimately have "commit_payload a = commit_payload b"
    by (simp add: jobj_eq_iff [OF commit_payload_keys_distinct])
  then show ?thesis using assms(4) by (rule commit_payload_inj)
qed

text \<open>
  At a content anchor the commit identity binds the whole state, so the two commits compare equal.
\<close>

lemma commit_id_binds_anchor:
  assumes "float_repr_ok L" "\<And>x. is_sha256 (sha256_hex L x)" "commit_ok L a" "commit_ok L b"
    and "com_commit_id a = com_commit_id b" "is_content_anchor (com_revision a)"
    and "\<not> digest_collision L (jobj (commit_payload a)) (jobj (commit_payload b))"
    and "json_sized L (com_state a)" "json_sized L (com_state b)" "\<not> sha256_collision L (com_state a) (com_state b)"
  shows "commit_eq a b"
proof -
  note eq = commit_id_payload [OF assms(1,3,4,5,7)]
  have "com_revision a = com_revision b" "com_state_content_digest a = com_state_content_digest b"
    using arg_cong [OF eq, of com_revision] arg_cong [OF eq, of com_state_content_digest] by simp_all
  then have "json_content_digest L (com_state a) = json_content_digest L (com_state b)"
    using commit_ok_derived(1) [OF assms(3)] commit_ok_derived(1) [OF assms(4)] assms(6) by simp
  then have st: "com_state a = com_state b"
    by (rule json_content_digest_binding [OF assms(1,2,8,9) _ assms(10)])
  show ?thesis
    unfolding commit_eq_def using arg_cong [OF eq, of "\<lambda>c. c\<lparr>com_state := com_state a\<rparr>"]
    by (simp add: st [symmetric])
qed

end
