(* ===== verification/StatePatch.thy ===== *)
theory StatePatch
  imports Machine
begin

text \<open>
  Journal state patches of \<^verbatim>\<open>kernel/journal.py\<close>: the document an accepted delta is
  stored as (\<^verbatim>\<open>_state_delta_patch\<close>) and its application on replay
  (\<^verbatim>\<open>_apply_state_patch\<close>).
\<close>

section \<open>Document access\<close>

definition require_object :: "json \<Rightarrow> (string, json) dict res" where
  "require_object v = (case v of JObj row \<Rightarrow> Inr row | _ \<Rightarrow> Inl MachineIntegrityError)"

definition require_exact :: "(string, json) dict \<Rightarrow> string list \<Rightarrow> unit res" where
  "require_exact row names = require (set (map fst row) = set names) MachineIntegrityError"

definition require_text :: "json \<Rightarrow> string res" where
  "require_text v = (case v of JStr s \<Rightarrow> if nonblank s then Inr s else Inl MachineIntegrityError
     | _ \<Rightarrow> Inl MachineIntegrityError)"

definition require_int :: "json \<Rightarrow> int res" where
  "require_int v = (case v of JInt n \<Rightarrow> if n < 0 then Inl MachineIntegrityError else Inr n
     | _ \<Rightarrow> Inl MachineIntegrityError)"

definition require_list :: "json \<Rightarrow> json list res" where
  "require_list v = (case v of JArr xs \<Rightarrow> Inr xs | _ \<Rightarrow> Inl MachineIntegrityError)"

text \<open>\<^verbatim>\<open>row[key]\<close> and \<^verbatim>\<open>row.get(key)\<close>.\<close>

definition field_of :: "(string, json) dict \<Rightarrow> string \<Rightarrow> json res" where
  "field_of row key = (case map_of row key of Some v \<Rightarrow> Inr v | None \<Rightarrow> Inl KeyError)"

definition get_or_null :: "(string, json) dict \<Rightarrow> string \<Rightarrow> json" where
  "get_or_null row key = (case map_of row key of Some v \<Rightarrow> v | None \<Rightarrow> JNull)"

section \<open>Applying a patch\<close>

fun string_of_json :: "json \<Rightarrow> string res" where
  "string_of_json (JStr s) = Inr s"
| "string_of_json _ = Inl MachineIntegrityError"

definition delete_keys :: "(string, json) dict \<Rightarrow> string list \<Rightarrow> (string, json) dict res" where
  "delete_keys result deleted =
     res_fold (\<lambda>r key. if map_of r key = None then Inl MachineIntegrityError else Inr (dict_del key r)) result deleted"

text \<open>An insertion under a key the base does not have must be a replacement patch.\<close>

definition insertion_value :: "json \<Rightarrow> json res" where
  "insertion_value child_patch =
     res_bind (require_object child_patch) (\<lambda>child.
     if set (map fst child) \<noteq> {''op'', ''value''} \<or> map_of child ''op'' \<noteq> Some (JStr ''replace'')
     then Inl MachineIntegrityError else field_of child ''value'')"

definition array_entry :: "json \<Rightarrow> (int \<times> json) res" where
  "array_entry entry =
     (case entry of JArr [JInt index, p] \<Rightarrow> Inr (index, p) | _ \<Rightarrow> Inl MachineIntegrityError)"

text \<open>The recursion follows the patch document, which every recursive call makes smaller.\<close>

lemma size_entry: "kv \<in> set kvs \<Longrightarrow> size (snd kv) < size (JObj kvs)"
  by (induction kvs) auto

lemma size_item: "x \<in> set xs \<Longrightarrow> size x < size (JArr xs)"
  by (induction xs) auto

lemma require_object_eq_Inr [res_simps]: "require_object v = Inr row \<longleftrightarrow> v = JObj row"
  by (cases v) (auto simp: require_object_def)

lemma require_list_eq_Inr [res_simps]: "require_list v = Inr xs \<longleftrightarrow> v = JArr xs"
  by (cases v) (auto simp: require_list_def)

lemma field_of_eq_Inr [res_simps]: "field_of row k = Inr v \<longleftrightarrow> map_of row k = Some v"
  by (auto simp: field_of_def split: option.splits)

lemma size_field: "map_of row k = Some v \<Longrightarrow> size v < size (JObj row)"
  using size_entry [of "(k, v)" row] by (auto dest: map_of_SomeD)

lemma size_array_entry: "array_entry e = Inr (i, q) \<Longrightarrow> size q < size e"
  by (auto simp: array_entry_def split: json.splits list.splits)

lemma size_set_entry:
  assumes "require_object patch = Inr row" "field_of row k = Inr sv" "require_object sv = Inr changed" "kv \<in> set changed"
  shows "size (snd kv) < size patch"
proof -
  have "size (snd kv) < size sv" using assms(3,4) size_entry by (simp only: require_object_eq_Inr)
  also have "size sv < size patch" using assms(1,2) size_field by (simp only: require_object_eq_Inr field_of_eq_Inr)
  finally show ?thesis .
qed

lemma size_array_change:
  assumes "require_object patch = Inr row" "field_of row k = Inr sv" "require_list sv = Inr changes"
    and "entry \<in> set changes" "array_entry entry = Inr ip"
  shows "size (snd ip) < size patch"
proof -
  have "size (snd ip) < size entry" using assms(5) size_array_entry by (metis prod.collapse)
  also have "size entry < size sv" using assms(3,4) size_item by (simp only: require_list_eq_Inr)
  also have "size sv < size patch" using assms(1,2) size_field by (simp only: require_object_eq_Inr field_of_eq_Inr)
  finally show ?thesis .
qed

function apply_state_patch :: "json \<Rightarrow> json \<Rightarrow> json res" where
  "apply_state_patch previous patch =
     res_bind (require_object patch) (\<lambda>row.
     res_bind (require_text (get_or_null row ''op'')) (\<lambda>operation.
     if operation = ''replace'' then
       res_bind (require_exact row [''op'', ''value'']) (\<lambda>_. field_of row ''value'')
     else if operation = ''object'' then
       res_bind (require_exact row [''op'', ''set'', ''delete'']) (\<lambda>_.
       case previous of
         JObj prev \<Rightarrow>
           res_bind (field_of row ''set'') (\<lambda>sv.
           res_bind (require_object sv) (\<lambda>changed.
           res_bind (field_of row ''delete'') (\<lambda>dv.
           res_bind (require_list dv) (\<lambda>ds.
           res_bind (res_map string_of_json ds) (\<lambda>deleted.
           res_bind (require (deleted = sort (remdups deleted)) MachineIntegrityError) (\<lambda>_.
           res_bind (delete_keys prev deleted) (\<lambda>result.
           res_bind (res_fold (\<lambda>r kv.
               res_bind (case map_of prev (fst kv) of
                   Some old \<Rightarrow> apply_state_patch old (snd kv)
                 | None \<Rightarrow> insertion_value (snd kv)) (\<lambda>v. Inr (dict_set (fst kv) v r))) result changed) (\<lambda>r.
           Inr (JObj r)))))))))
       | _ \<Rightarrow> Inl MachineIntegrityError)
     else if operation = ''append'' then
       res_bind (require_exact row [''op'', ''items'']) (\<lambda>_.
       case previous of
         JArr prev \<Rightarrow>
           res_bind (field_of row ''items'') (\<lambda>iv.
           res_bind (require_list iv) (\<lambda>items. Inr (JArr (prev @ items))))
       | _ \<Rightarrow> Inl MachineIntegrityError)
     else if operation = ''array'' then
       res_bind (require_exact row [''op'', ''set'']) (\<lambda>_.
       case previous of
         JArr prev \<Rightarrow>
           res_bind (field_of row ''set'') (\<lambda>sv.
           res_bind (require_list sv) (\<lambda>changes.
           res_bind (res_fold (\<lambda>st entry.
               res_bind (array_entry entry) (\<lambda>ip.
               if fst ip < 0 \<or> int (length (snd st)) \<le> fst ip \<or> fst ip \<le> fst st then Inl MachineIntegrityError
               else res_bind (apply_state_patch (prev ! nat (fst ip)) (snd ip)) (\<lambda>v.
                 Inr (fst ip, (snd st)[nat (fst ip) := v])))) (-1, prev) changes) (\<lambda>st.
           Inr (JArr (snd st)))))
       | _ \<Rightarrow> Inl MachineIntegrityError)
     else if operation = ''same'' then
       res_bind (require_exact row [''op'']) (\<lambda>_. Inr previous)
     else Inl MachineIntegrityError))"
  by pat_completeness auto
termination
  by (relation "measure (\<lambda>(previous, patch). size patch)")
    (simp_all only: wf_measure in_measure case_prod_conv size_set_entry size_array_change)

declare apply_state_patch.simps [simp del]

section \<open>The patch of a delta\<close>

definition replace_patch :: "json \<Rightarrow> json" where
  "replace_patch v = jobj [(''op'', JStr ''replace''), (''value'', v)]"

definition patch_sets :: "(string \<times> json option) list \<Rightarrow> (string \<times> json) list" where
  "patch_sets entries = List.map_filter (\<lambda>e. map_option (Pair (fst e)) (snd e)) entries"

definition patch_deletes :: "(string \<times> json option) list \<Rightarrow> string list" where
  "patch_deletes entries = map fst (filter (\<lambda>e. snd e = None) entries)"

definition object_patch :: "(string \<times> json option) list \<Rightarrow> json" where
  "object_patch entries = jobj
     [(''op'', JStr ''object''),
      (''set'', JObj (dict_of (patch_sets entries))),
      (''delete'', jstrs (patch_deletes entries))]"

function build_patch :: "state_mutation list \<Rightarrow> nat \<Rightarrow> json res" where
  "build_patch mutations depth =
     res_bind (mutation_runs depth mutations) (\<lambda>runs.
     res_bind
       (res_map (\<lambda>run.
          if length (mut_path (hd (snd run))) = Suc depth then
            if length (snd run) \<noteq> 1 then Inl MachineIntegrityError
            else if mut_delete (hd (snd run)) then Inr (fst run, None)
            else Inr (fst run, Some (replace_patch (mut_value (hd (snd run)))))
          else res_bind (build_patch (snd run) (Suc depth)) (\<lambda>p. Inr (fst run, Some p))) runs)
     (\<lambda>entries. Inr (object_patch entries)))"
  by pat_completeness auto
termination
  by (relation "measure (\<lambda>(ms, depth). path_bound ms - depth)") (auto simp: path_bound_run)

declare build_patch.simps [simp del]

definition state_delta_patch :: "state_delta \<Rightarrow> json res" where
  "state_delta_patch delta =
     (if delta_mutations delta = [] then Inr (jobj [(''op'', JStr ''same'')])
      else build_patch (delta_mutations delta) 0)"

section \<open>Replay of a patch is application of the delta\<close>

lemma require_text_JStr [simp]: "require_text (JStr s) = (if nonblank s then Inr s else Inl MachineIntegrityError)"
  by (simp add: require_text_def)

lemma op_names_nonblank [simp]:
  "nonblank ''replace''" "nonblank ''object''" "nonblank ''append''" "nonblank ''array''" "nonblank ''same''"
  by (simp_all add: nonblank_iff py_isspace_def)

lemma apply_replace_patch: "apply_state_patch previous (replace_patch v) = Inr v"
  by (simp add: apply_state_patch.simps [of previous] replace_patch_def jobj_def require_object_def get_or_null_def
      require_exact_def field_of_def map_of_jobj keys_dict_of)

lemma insertion_replace_patch: "insertion_value (replace_patch v) = Inr v"
  by (simp add: insertion_value_def replace_patch_def jobj_def require_object_def field_of_def map_of_jobj
      keys_dict_of)

lemma apply_same_patch: "apply_state_patch previous (jobj [(''op'', JStr ''same'')]) = Inr previous"
  by (simp add: apply_state_patch.simps [of previous] jobj_def require_object_def get_or_null_def
      require_exact_def field_of_def map_of_jobj keys_dict_of)

lemma res_map_string_of_json: "res_map string_of_json (map JStr ds) = Inr ds"
  by (rule res_map_id) simp

lemma apply_object_patch:
  "apply_state_patch (JObj prev) (jobj [(''op'', JStr ''object''), (''set'', JObj changed), (''delete'', jstrs deleted)]) =
     res_bind (require (deleted = sort (remdups deleted)) MachineIntegrityError) (\<lambda>_.
     res_bind (delete_keys prev deleted) (\<lambda>result.
     res_bind (res_fold (\<lambda>r kv.
         res_bind (case map_of prev (fst kv) of
             Some old \<Rightarrow> apply_state_patch old (snd kv)
           | None \<Rightarrow> insertion_value (snd kv)) (\<lambda>v. Inr (dict_set (fst kv) v r))) result changed) (\<lambda>r.
     Inr (JObj r))))"
  by (simp add: apply_state_patch.simps [of "JObj prev"] jobj_def require_object_def get_or_null_def
      require_exact_def field_of_def map_of_jobj keys_dict_of jstrs_def require_list_def res_map_string_of_json
      insert_commute)

lemma delete_keys_ok:
  assumes "distinct ds" "\<And>k. k \<in> set ds \<Longrightarrow> map_of d k \<noteq> None"
  shows "\<exists>r. delete_keys d ds = Inr r \<and> map_of r = (\<lambda>k. if k \<in> set ds then None else map_of d k) \<and>
    (dict_wf d \<longrightarrow> dict_wf r)"
  using assms unfolding delete_keys_def
proof (induction ds arbitrary: d)
  case (Cons k ds)
  have "map_of d k \<noteq> None" using Cons.prems(2) by simp
  with Cons.IH [of "dict_del k d"] Cons.prems show ?case
    by (fastforce simp: fun_eq_iff dict_simps)
qed simp

text \<open>What one entry of the patch contributes when the grouped application gives \<open>r\<close>.\<close>

definition entry_applies :: "(string, json) dict \<Rightarrow> (string, json) dict \<Rightarrow> string \<Rightarrow> json option \<Rightarrow> bool" where
  "entry_applies base r k x = (case x of
      None \<Rightarrow> map_of base k \<noteq> None \<and> map_of r k = None
    | Some p \<Rightarrow> \<exists>v. map_of r k = Some v \<and>
        (case map_of base k of Some old \<Rightarrow> apply_state_patch old p | None \<Rightarrow> insertion_value p) = Inr v)"

lemma patch_sets_iff: "(k, p) \<in> set (patch_sets entries) \<longleftrightarrow> (k, Some p) \<in> set entries"
  by (induction entries) (auto simp: patch_sets_def List.map_filter_def)

lemma patch_deletes_iff: "k \<in> set (patch_deletes entries) \<longleftrightarrow> (k, None) \<in> set entries"
  by (force simp: patch_deletes_def)

lemma patch_keys: "fst ` set entries = set (patch_deletes entries) \<union> fst ` set (patch_sets entries)"
proof (rule set_eqI)
  fix k
  have "k \<in> fst ` set entries \<longleftrightarrow> (\<exists>x. (k, x) \<in> set entries)" by force
  also have "\<dots> \<longleftrightarrow> (k, None) \<in> set entries \<or> (\<exists>p. (k, Some p) \<in> set entries)"
    by (metis option.exhaust)
  also have "\<dots> \<longleftrightarrow> k \<in> set (patch_deletes entries) \<union> fst ` set (patch_sets entries)"
    by (fastforce simp: patch_sets_iff [symmetric] patch_deletes_iff [symmetric] image_iff)
  finally show "k \<in> fst ` set entries \<longleftrightarrow> k \<in> set (patch_deletes entries) \<union> fst ` set (patch_sets entries)" .
qed

lemma patch_parts_canonical:
  assumes "sorted_wrt (<) (map fst entries)"
  shows "distinct (patch_deletes entries)" "patch_deletes entries = sort (remdups (patch_deletes entries))"
    and "set (dict_of (patch_sets entries)) = set (patch_sets entries)"
proof -
  have "sorted_wrt (<) (patch_deletes entries)"
    using assms by (induction entries) (auto simp: patch_deletes_def)
  then show "distinct (patch_deletes entries)" "patch_deletes entries = sort (remdups (patch_deletes entries))"
    by (simp_all add: strict_sorted_iff distinct_remdups_id sorted_sort_id)
  have keys: "map fst (patch_sets entries) = map fst (filter (\<lambda>e. snd e \<noteq> None) entries)"
    by (induction entries) (auto simp: patch_sets_def List.map_filter_def)
  have "distinct (map fst entries)" using assms strict_sorted_iff by blast
  then have dist: "distinct (map fst (patch_sets entries))"
    unfolding keys by (induction entries) auto
  show "set (dict_of (patch_sets entries)) = set (patch_sets entries)"
    using map_of_inject_set [OF dict_wf_distinct [OF dict_wf_of] dist] map_of_jobj [OF dist] by blast
qed

lemma apply_object_patch_entries:
  assumes wf: "dict_wf base" "dict_wf r"
    and sorted: "sorted_wrt (<) (map fst entries)"
    and app: "\<And>k x. (k, x) \<in> set entries \<Longrightarrow> entry_applies base r k x"
    and rest: "\<And>k. k \<notin> fst ` set entries \<Longrightarrow> map_of r k = map_of base k"
  shows "apply_state_patch (JObj base) (object_patch entries) = Inr (JObj r)"
proof -
  note parts = patch_parts_canonical [OF sorted]
  have gone: "map_of base k \<noteq> None \<and> map_of r k = None" if "k \<in> set (patch_deletes entries)" for k
    using app [of k None] that by (simp add: patch_deletes_iff entry_applies_def)
  then obtain result where result: "delete_keys base (patch_deletes entries) = Inr result" "dict_wf result"
    "map_of result = (\<lambda>k. if k \<in> set (patch_deletes entries) then None else map_of base k)"
    using delete_keys_ok [OF parts(1), of base] wf(1) by blast
  let ?f = "\<lambda>k p. case map_of base k of Some old \<Rightarrow> apply_state_patch old p | None \<Rightarrow> insertion_value p"
  have f: "?f k p = Inr (the (map_of r k)) \<and> map_of r k \<noteq> None" if "(k, p) \<in> set (patch_sets entries)" for k p
    using app [of k "Some p"] that by (auto simp: patch_sets_iff entry_applies_def)
  have "\<exists>r'. res_fold (\<lambda>r kv. res_bind (?f (fst kv) (snd kv)) (\<lambda>v. Inr (dict_set (fst kv) v r))) result
      (dict_of (patch_sets entries)) = Inr r' \<and>
    map_of r' = (\<lambda>k. if k \<in> fst ` set (dict_of (patch_sets entries)) then Some (the (map_of r k)) else map_of result k) \<and>
    (dict_wf result \<longrightarrow> dict_wf r')"
    by (rule res_fold_set) (use f in \<open>simp_all add: dict_wf_distinct dict_wf_of parts(3)\<close>)
  then obtain r' where r': "res_fold (\<lambda>r kv. res_bind (?f (fst kv) (snd kv)) (\<lambda>v. Inr (dict_set (fst kv) v r))) result
      (dict_of (patch_sets entries)) = Inr r'" "dict_wf r'"
    "map_of r' = (\<lambda>k. if k \<in> fst ` set (patch_sets entries) then Some (the (map_of r k)) else map_of result k)"
    using result(2) parts(3) by auto
  have "map_of r' k = map_of r k" for k
  proof (cases "k \<in> fst ` set (patch_sets entries)")
    case True
    then obtain p where "(k, p) \<in> set (patch_sets entries)" by auto
    from f [OF this] True show ?thesis by (auto simp: r'(3))
  next
    case False
    then show ?thesis using gone rest [of k] patch_keys [of entries] by (auto simp: r'(3) result(3))
  qed
  then have "r' = r" using r'(2) wf(2) by (intro dict_eqI) auto
  then show ?thesis
    unfolding object_patch_def apply_object_patch using parts(2) result(1) r'(1) by simp
qed

lemma json_wf_entry: "json_wf (JObj d) \<Longrightarrow> map_of d k = Some v \<Longrightarrow> json_wf v"
  by (force dest: map_of_SomeD)

text \<open>One run of the grouped application and the entry the patch builder makes of it.\<close>

lemma build_patch_replays:
  assumes "valid_group depth ms" "apply_mutation_group base ms depth = Inr r" "json_wf (JObj base)"
  shows "\<exists>patch. build_patch ms depth = Inr patch \<and> apply_state_patch (JObj base) patch = Inr (JObj r)"
  using assms
proof (induction base ms depth arbitrary: r rule: apply_mutation_group.induct)
  case (1 base ms depth)
  note entries = apply_mutation_group_entries [OF "1.prems"(1,2)]
  let ?mk = "\<lambda>run. if length (mut_path (hd (snd run))) = Suc depth then
            if length (snd run) \<noteq> 1 then Inl MachineIntegrityError
            else if mut_delete (hd (snd run)) then Inr (fst run, None)
            else Inr (fst run, Some (replace_patch (mut_value (hd (snd run)))))
          else res_bind (build_patch (snd run) (Suc depth)) (\<lambda>p. Inr (fst run, Some p))"
  have mk: "\<exists>e. ?mk run = Inr e \<and> (fst e = fst run \<and> entry_applies base r (fst e) (snd e))"
    if run: "run \<in> set (segment_runs depth ms)" for run
  proof -
    have shape: "run_shape depth (fst run) (snd run)"
      using segment_runs_shape [OF "1.prems"(1)] run by blast
    note upd = entries(1) [OF run]
    show ?thesis
    proof (cases "length (mut_path (hd (snd run))) = Suc depth")
      case True
      obtain m where "snd run = [m]" "map_of r (fst run) = (if mut_delete m then None else Some (mut_value m))"
        "mut_delete m \<longrightarrow> map_of base (fst run) \<noteq> None"
        by (rule run_update_leaf [OF shape True upd])
      with True show ?thesis
        by (auto simp: entry_applies_def apply_replace_patch insertion_replace_patch split: option.split)
    next
      case False
      obtain current c where c: "map_of base (fst run) = Some (JObj current)"
        "apply_mutation_group current (snd run) (Suc depth) = Inr c" "map_of r (fst run) = Some (JObj c)"
        by (rule run_update_nested [OF False upd])
      have "\<exists>patch. build_patch (snd run) (Suc depth) = Inr patch \<and> apply_state_patch (JObj current) patch = Inr (JObj c)"
      proof (rule "1.IH" [OF valid_mutation_runs [OF "1.prems"(1)] run False c(1)])
        show "valid_group (Suc depth) (snd run)" using shape False by (simp add: run_shape_def)
        show "json_wf (JObj current)" by (rule json_wf_entry [OF "1.prems"(3) c(1)])
      qed (use c in auto)
      with False c show ?thesis by (auto simp: entry_applies_def)
    qed
  qed
  have "\<exists>es. res_map ?mk (segment_runs depth ms) = Inr es \<and>
    list_all2 (\<lambda>run e. fst e = fst run \<and> entry_applies base r (fst e) (snd e)) (segment_runs depth ms) es"
    by (rule res_map_ex) (rule mk)
  then obtain es where es: "res_map ?mk (segment_runs depth ms) = Inr es"
    "list_all2 (\<lambda>run e. fst e = fst run \<and> entry_applies base r (fst e) (snd e)) (segment_runs depth ms) es"
    by (elim exE conjE)
  have keys: "map fst es = map fst (segment_runs depth ms)"
    using es(2) by (auto simp: list_all2_conv_all_nth list_eq_iff_nth_eq)
  have "apply_state_patch (JObj base) (object_patch es) = Inr (JObj r)"
  proof (rule apply_object_patch_entries)
    show "dict_wf base" "dict_wf r" using "1.prems"(3) entries(3) by auto
    show "sorted_wrt (<) (map fst es)" using segment_runs_shape [OF "1.prems"(1)] by (simp add: keys)
    show "entry_applies base r k x" if "(k, x) \<in> set es" for k x
      using es(2) that by (force simp: list_all2_conv_all_nth in_set_conv_nth)
    show "map_of r k = map_of base k" if "k \<notin> fst ` set es" for k
      using that entries(2) [of k] keys by (metis list.set_map)
  qed
  moreover have "build_patch ms depth = Inr (object_patch es)"
    unfolding build_patch.simps [of ms depth] valid_mutation_runs [OF "1.prems"(1)] by (simp only: res_bind_Inr es(1))
  ultimately show ?case by blast
qed

text \<open>
  The stored patch of an accepted delta reproduces, on replay, exactly the state the executor
  accepted.
\<close>

lemma state_delta_patch_replays:
  assumes "delta_ok L delta" "apply_machine_state_delta state delta = Inr state'" "json_wf state"
  shows "\<exists>patch. state_delta_patch delta = Inr patch \<and> apply_state_patch state patch = Inr state'"
proof (cases "delta_mutations delta = []")
  case True
  with assms(2) show ?thesis
    by (auto simp: apply_machine_state_delta_def state_delta_patch_def apply_same_patch split: json.splits)
next
  case False
  with assms(2) obtain base r where "state = JObj base" "state' = JObj r"
    "apply_mutation_group base (delta_mutations delta) 0 = Inr r"
    by (auto simp: apply_machine_state_delta_def res_simps split: json.splits)
  with build_patch_replays [OF delta_ok_valid(1) [OF assms(1)]] assms(3) False show ?thesis
    by (auto simp: state_delta_patch_def)
qed

text \<open>Well-formedness of the state: object keys stay sorted and distinct at every level.\<close>

lemma apply_mutation_group_json_wf:
  assumes "valid_group depth ms" "apply_mutation_group base ms depth = Inr r" "json_wf (JObj base)"
    and "\<forall>m \<in> set ms. json_wf (mut_value m)"
  shows "json_wf (JObj r)"
  using assms
proof (induction base ms depth arbitrary: r rule: apply_mutation_group.induct)
  case (1 base ms depth)
  note entries = apply_mutation_group_entries [OF "1.prems"(1,2)]
  have wf: "dict_wf r" using "1.prems"(3) entries(3) by simp
  have "json_wf v" if kv: "map_of r k = Some v" for k v
  proof (cases "k \<in> fst ` set (segment_runs depth ms)")
    case False
    with entries(2) kv json_wf_entry [OF "1.prems"(3), of k v] show ?thesis by simp
  next
    case True
    then obtain run where run: "run \<in> set (segment_runs depth ms)" "fst run = k" by blast
    have shape: "run_shape depth (fst run) (snd run)" using segment_runs_shape [OF "1.prems"(1)] run(1) by blast
    have sub: "set (snd run) \<subseteq> set ms" using segment_runs_mem [of "fst run" "snd run" depth ms] run(1) by simp
    show ?thesis
    proof (cases "length (mut_path (hd (snd run))) = Suc depth")
      case True
      obtain m where "snd run = [m]" "map_of r (fst run) = (if mut_delete m then None else Some (mut_value m))"
        by (rule run_update_leaf [OF shape True entries(1) [OF run(1)]])
      with kv run(2) sub "1.prems"(4) show ?thesis by (auto split: if_splits)
    next
      case False
      obtain current c where c: "map_of base (fst run) = Some (JObj current)"
        "apply_mutation_group current (snd run) (Suc depth) = Inr c" "map_of r (fst run) = Some (JObj c)"
        by (rule run_update_nested [OF False entries(1) [OF run(1)]])
      have "json_wf (JObj c)"
      proof (rule "1.IH" [OF valid_mutation_runs [OF "1.prems"(1)] run(1) False c(1)])
        show "valid_group (Suc depth) (snd run)" using shape False by (simp add: run_shape_def)
        show "json_wf (JObj current)" by (rule json_wf_entry [OF "1.prems"(3) c(1)])
        show "\<forall>m \<in> set (snd run). json_wf (mut_value m)" using "1.prems"(4) sub by blast
      qed (use c in auto)
      with kv run(2) c(3) show ?thesis by simp
    qed
  qed
  then show ?case using map_of_mem [OF wf] by (fastforce simp: wf)
qed

lemma apply_machine_state_delta_wf:
  assumes "delta_ok L delta" "apply_machine_state_delta state delta = Inr state'" "json_wf state"
    and "\<forall>m \<in> set (delta_mutations delta). json_wf (mut_value m)"
  shows "json_wf state'" "\<exists>d. state' = JObj d"
proof -
  have "json_wf state' \<and> (\<exists>d. state' = JObj d)"
  proof (cases "delta_mutations delta = []")
    case True
    with assms(2,3) show ?thesis by (auto simp: apply_machine_state_delta_def split: json.splits)
  next
    case False
    with assms(2) obtain base r where "state = JObj base" "state' = JObj r"
      "apply_mutation_group base (delta_mutations delta) 0 = Inr r"
      by (auto simp: apply_machine_state_delta_def res_simps split: json.splits)
    with apply_mutation_group_json_wf [OF delta_ok_valid(1) [OF assms(1)]] assms(3,4) show ?thesis by blast
  qed
  then show "json_wf state'" "\<exists>d. state' = JObj d" by auto
qed

end
