(* ===== verification/JournalCodec.thy ===== *)
theory JournalCodec
  imports StatePatch
begin

text \<open>
  The journal record of \<^verbatim>\<open>kernel/journal.py\<close>: \<^verbatim>\<open>_commit_document\<close> and
  \<^verbatim>\<open>_decode_commit\<close> with the command and child-link codecs they use.  A record stores the
  state as a snapshot or as a patch against the previous state, and every digest is recomputed on
  decoding.  A field of the wrong JSON type that the source passes on to a dataclass is refused
  here with the exception that dataclass raises for it.
\<close>

section \<open>Encoding\<close>

definition command_document :: "machine_command \<Rightarrow> json" where
  "command_document command = jobj
     [(''command_id'', JStr (cmd_command_id command)),
      (''machine_id'', JStr (cmd_machine_id command)),
      (''expected_revision'', JInt (cmd_expected_revision command)),
      (''kind'', JStr (cmd_kind command)),
      (''payload'', cmd_payload command),
      (''scope'', jstrs (cmd_scope command)),
      (''deadline_at'', cmd_deadline_at command),
      (''parent_command_id'', cmd_parent_command_id command),
      (''idempotency_key'', cmd_idempotency_key command),
      (''payload_digest'', JStr (cmd_payload_digest command))]"

definition state_record :: "machine_commit \<Rightarrow> json option \<Rightarrow> bool \<Rightarrow> (string \<times> json) res" where
  "state_record commit previous_state force_snapshot =
     (if previous_state = None \<or> force_snapshot then Inr (''snapshot'', com_state commit)
      else case com_state_delta commit of
          None \<Rightarrow> Inl MachineIntegrityError
        | Some delta \<Rightarrow> res_bind (state_delta_patch delta) (\<lambda>patch. Inr (''patch'', patch)))"

definition commit_document_fields :: "machine_commit \<Rightarrow> string \<times> json \<Rightarrow> (string \<times> json) list" where
  "commit_document_fields commit record =
     [(''record_schema'', JStr ''machine.commit.v4''),
      (''commit_id'', JStr (com_commit_id commit)),
      (''machine_id'', JStr (com_machine_id commit)),
      (''command_id'', JStr (com_command_id commit)),
      (''base_revision'', JInt (com_base_revision commit)),
      (''revision'', JInt (com_revision commit)),
      (''proposal_digest'', JStr (com_proposal_digest commit)),
      (''command_digest'', JStr (com_command_digest commit)),
      (''state_encoding'', JStr (fst record)),
      (''state_payload'', snd record),
      (''resulting_state_digest'', JStr (com_state_digest commit)),
      (''output_refs'', jstrs (com_output_refs commit)),
      (''event_payloads'', JArr (com_event_payloads commit)),
      (''effect_intent_refs'', jstrs (com_effect_intent_refs commit)),
      (''emitted_commands'', JArr (map command_document (com_emitted_commands commit))),
      (''previous_commit_id'', jopt_str (com_previous_commit_id commit)),
      (''before_state_digest'', jopt_str (com_before_state_digest commit)),
      (''input_digest'', jopt_str (com_input_digest commit)),
      (''unit_digest'', JStr (com_unit_digest commit)),
      (''execution_lock_digest'', JStr (com_execution_lock_digest commit)),
      (''machine_version'', jopt_str (com_machine_version commit)),
      (''input_refs'', jstrs (com_input_refs commit)),
      (''state_delta_ref'', jopt_str (com_state_delta_ref commit)),
      (''evidence_refs'', jstrs (com_evidence_refs commit)),
      (''artifact_refs'', jstrs (com_artifact_refs commit)),
      (''parent_transition_id'', jopt_str (com_parent_transition_id commit)),
      (''attempt_id'', jopt_str (com_attempt_id commit)),
      (''authority_epoch'', jopt_int (com_authority_epoch commit)),
      (''child_links'', JArr (map child_link_as_dict (com_child_links commit))),
      (''accepted_status'', JStr (status_value (com_accepted_status commit)))]"

definition commit_document :: "machine_commit \<Rightarrow> json option \<Rightarrow> bool \<Rightarrow> json res" where
  "commit_document commit previous_state force_snapshot =
     res_bind (state_record commit previous_state force_snapshot) (\<lambda>record.
     Inr (jobj (commit_document_fields commit record)))"

section \<open>Decoding\<close>

definition decode_opt_text :: "py_error \<Rightarrow> json \<Rightarrow> string option res" where
  "decode_opt_text e v = (case v of JNull \<Rightarrow> Inr None | JStr s \<Rightarrow> Inr (Some s) | _ \<Rightarrow> Inl e)"

definition decode_opt_int :: "py_error \<Rightarrow> json \<Rightarrow> int option res" where
  "decode_opt_int e v = (case v of JNull \<Rightarrow> Inr None | JInt n \<Rightarrow> Inr (Some n) | _ \<Rightarrow> Inl e)"

definition text_items :: "json \<Rightarrow> string list res" where
  "text_items v = res_bind (require_list v) (res_map require_text)"

definition decode_command :: "hostlib \<Rightarrow> json \<Rightarrow> machine_command res" where
  "decode_command L value =
     res_bind (require_object value) (\<lambda>row.
     res_bind (require_exact row [''command_id'', ''machine_id'', ''expected_revision'', ''kind'', ''payload'',
       ''scope'', ''deadline_at'', ''parent_command_id'', ''idempotency_key'', ''payload_digest'']) (\<lambda>_.
     res_bind (res_bind (field_of row ''scope'') require_list) (\<lambda>scope.
     res_bind (res_bind (field_of row ''command_id'') require_text) (\<lambda>command_id.
     res_bind (res_bind (field_of row ''machine_id'') require_text) (\<lambda>machine_id.
     res_bind (res_bind (field_of row ''expected_revision'') require_int) (\<lambda>expected_revision.
     res_bind (res_bind (field_of row ''kind'') require_text) (\<lambda>kind.
     res_bind (field_of row ''payload'') (\<lambda>payload.
     res_bind (res_map require_text scope) (\<lambda>scope_items.
     res_bind (field_of row ''deadline_at'') (\<lambda>deadline_at.
     res_bind (field_of row ''parent_command_id'') (\<lambda>parent_command_id.
     res_bind (field_of row ''idempotency_key'') (\<lambda>idempotency_key.
     res_bind (command_post_init L
       \<lparr>cmd_command_id = command_id, cmd_machine_id = machine_id, cmd_expected_revision = expected_revision,
        cmd_kind = kind, cmd_payload = payload, cmd_scope = scope_items, cmd_deadline_at = deadline_at,
        cmd_parent_command_id = parent_command_id, cmd_idempotency_key = idempotency_key,
        cmd_payload_digest = []\<rparr>) (\<lambda>command.
     res_bind (res_bind (field_of row ''payload_digest'') require_text) (\<lambda>stored.
     if cmd_payload_digest command \<noteq> stored then Inl MachineIntegrityError else Inr command))))))))))))))"

definition decode_child_link :: "hostlib \<Rightarrow> json \<Rightarrow> child_link res" where
  "decode_child_link L value =
     res_bind (require_object value) (\<lambda>row.
     res_bind (require_exact row [''parent_machine_id'', ''child_machine_id'', ''child_unit_digest'',
       ''child_execution_lock_digest'', ''child_snapshot_ref'', ''child_transition_start'',
       ''child_transition_end'', ''child_result_ref'', ''failure_policy'', ''link_digest'']) (\<lambda>_.
     res_bind (res_bind (field_of row ''parent_machine_id'') require_text) (\<lambda>parent_machine_id.
     res_bind (res_bind (field_of row ''child_machine_id'') require_text) (\<lambda>child_machine_id.
     res_bind (res_bind (field_of row ''child_unit_digest'') require_text) (\<lambda>child_unit_digest.
     res_bind (res_bind (field_of row ''child_execution_lock_digest'') require_text) (\<lambda>child_lock_digest.
     res_bind (res_bind (field_of row ''child_snapshot_ref'') require_text) (\<lambda>child_snapshot_ref.
     res_bind (res_bind (field_of row ''child_transition_start'') require_int) (\<lambda>start.
     res_bind (res_bind (field_of row ''child_transition_end'') require_int) (\<lambda>end.
     res_bind (res_bind (field_of row ''child_result_ref'') (decode_opt_text ValueError)) (\<lambda>result_ref.
     res_bind (res_bind (field_of row ''failure_policy'') require_text) (\<lambda>failure_policy.
     res_bind (child_link_post_init L
       \<lparr>link_parent_machine_id = parent_machine_id, link_child_machine_id = child_machine_id,
        link_child_unit_digest = child_unit_digest, link_child_execution_lock_digest = child_lock_digest,
        link_child_snapshot_ref = child_snapshot_ref, link_child_transition_start = start,
        link_child_transition_end = end, link_child_result_ref = result_ref,
        link_failure_policy = failure_policy, link_digest = []\<rparr>) (\<lambda>link.
     res_bind (res_bind (field_of row ''link_digest'') require_text) (\<lambda>stored.
     if link_digest link \<noteq> stored then Inl MachineIntegrityError else Inr link)))))))))))))"

text \<open>The state of a record: the snapshot, or the patch applied to the previous state.\<close>

definition decode_state :: "(string, json) dict \<Rightarrow> json option \<Rightarrow> json res" where
  "decode_state row previous_state =
     res_bind (res_bind (field_of row ''state_encoding'') require_text) (\<lambda>encoding.
     res_bind (field_of row ''state_payload'') (\<lambda>payload.
     if encoding = ''snapshot'' then res_bind (require_object payload) (\<lambda>d. Inr (JObj d))
     else if encoding = ''patch'' then
       (case previous_state of None \<Rightarrow> Inl MachineIntegrityError | Some prev \<Rightarrow> apply_state_patch prev payload)
     else Inl MachineIntegrityError))"

definition check_previous_identity :: "json option \<Rightarrow> string option \<Rightarrow> string \<Rightarrow> unit res" where
  "check_previous_identity previous_state previous_state_digest before_state_digest =
     (case previous_state of
        Some _ \<Rightarrow>
          (case previous_state_digest of
             None \<Rightarrow> Inl MachineIntegrityError
           | Some d \<Rightarrow> res_bind (require_sha256 d) (\<lambda>_. require (before_state_digest = d) MachineIntegrityError))
      | None \<Rightarrow> require (previous_state_digest = None) MachineIntegrityError)"

definition commit_fields :: "string list" where
  "commit_fields = [''record_schema'', ''commit_id'', ''machine_id'', ''command_id'', ''base_revision'', ''revision'',
     ''proposal_digest'', ''command_digest'', ''state_encoding'', ''state_payload'', ''resulting_state_digest'',
     ''output_refs'', ''event_payloads'', ''effect_intent_refs'', ''emitted_commands'', ''previous_commit_id'',
     ''before_state_digest'', ''input_digest'', ''unit_digest'', ''execution_lock_digest'', ''machine_version'',
     ''input_refs'', ''state_delta_ref'', ''evidence_refs'', ''artifact_refs'', ''parent_transition_id'', ''attempt_id'',
     ''authority_epoch'', ''child_links'', ''accepted_status'']"

definition decode_digest :: "(string, json) dict \<Rightarrow> string \<Rightarrow> string res" where
  "decode_digest row key = res_bind (res_bind (field_of row key) require_text) require_sha256"

text \<open>The constructor call of \<^verbatim>\<open>_decode_commit\<close>, argument by argument.\<close>

definition decode_commit_object ::
    "hostlib \<Rightarrow> (string, json) dict \<Rightarrow> json \<Rightarrow> int \<Rightarrow> string \<Rightarrow> string \<Rightarrow> string option \<Rightarrow> machine_commit res" where
  "decode_commit_object L row state revision before_state_digest state_delta_ref content =
     res_bind (res_bind (field_of row ''machine_id'') require_text) (\<lambda>machine_id.
     res_bind (res_bind (field_of row ''command_id'') require_text) (\<lambda>command_id.
     res_bind (res_bind (field_of row ''base_revision'') require_int) (\<lambda>base_revision.
     res_bind (res_bind (field_of row ''proposal_digest'') require_text) (\<lambda>proposal_digest.
     res_bind (res_bind (field_of row ''command_digest'') require_text) (\<lambda>command_digest.
     res_bind (res_bind (field_of row ''output_refs'') text_items) (\<lambda>output_refs.
     res_bind (res_bind (field_of row ''event_payloads'') require_list) (\<lambda>events.
     res_bind (res_bind (field_of row ''effect_intent_refs'') text_items) (\<lambda>effect_refs.
     res_bind (res_bind (res_bind (field_of row ''emitted_commands'') require_list) (res_map (decode_command L))) (\<lambda>commands.
     res_bind (res_bind (field_of row ''previous_commit_id'') (decode_opt_text ValueError)) (\<lambda>previous_commit_id.
     res_bind (res_bind (field_of row ''input_digest'') (decode_opt_text DigestValidationError)) (\<lambda>input_digest.
     res_bind (res_bind (field_of row ''unit_digest'') require_text) (\<lambda>unit_dg.
     res_bind (res_bind (field_of row ''execution_lock_digest'') require_text) (\<lambda>lock_dg.
     res_bind (res_bind (field_of row ''machine_version'') (decode_opt_text ValueError)) (\<lambda>machine_version.
     res_bind (res_bind (field_of row ''input_refs'') text_items) (\<lambda>input_refs.
     res_bind (res_bind (field_of row ''evidence_refs'') text_items) (\<lambda>evidence_refs.
     res_bind (res_bind (field_of row ''artifact_refs'') text_items) (\<lambda>artifact_refs.
     res_bind (res_bind (field_of row ''parent_transition_id'') (decode_opt_text ValueError)) (\<lambda>parent_transition_id.
     res_bind (res_bind (field_of row ''attempt_id'') (decode_opt_text ValueError)) (\<lambda>attempt_id.
     res_bind (res_bind (field_of row ''authority_epoch'') (decode_opt_int ValueError)) (\<lambda>authority_epoch.
     res_bind (res_bind (res_bind (field_of row ''child_links'') require_list) (res_map (decode_child_link L))) (\<lambda>child_links.
     res_bind (res_bind (res_bind (field_of row ''accepted_status'') require_text) status_of_value) (\<lambda>status.
     commit_post_init L
       \<lparr>com_machine_id = machine_id, com_command_id = command_id, com_base_revision = base_revision,
        com_revision = revision, com_proposal_digest = proposal_digest, com_command_digest = command_digest,
        com_unit_digest = unit_dg, com_execution_lock_digest = lock_dg, com_state = state,
        com_output_refs = output_refs, com_event_payloads = events, com_effect_intent_refs = effect_refs,
        com_emitted_commands = commands, com_previous_commit_id = previous_commit_id,
        com_before_state_digest = Some before_state_digest, com_input_digest = input_digest,
        com_machine_version = machine_version, com_input_refs = input_refs,
        com_state_delta_ref = Some state_delta_ref, com_evidence_refs = evidence_refs,
        com_artifact_refs = artifact_refs, com_parent_transition_id = parent_transition_id,
        com_attempt_id = attempt_id, com_authority_epoch = authority_epoch, com_child_links = child_links,
        com_accepted_status = status, com_state_delta = None, com_state_content_digest = content,
        com_state_digest = [], com_commit_id = []\<rparr>))))))))))))))))))))))"

definition decode_commit :: "hostlib \<Rightarrow> json \<Rightarrow> json option \<Rightarrow> string option \<Rightarrow> machine_commit res" where
  "decode_commit L value previous_state previous_state_digest =
     res_bind (require_object value) (\<lambda>row.
     res_bind (require_exact row commit_fields) (\<lambda>_.
     res_bind (require (map_of row ''record_schema'' = Some (JStr ''machine.commit.v4'')) MachineIntegrityError) (\<lambda>_.
     res_bind (decode_state row previous_state) (\<lambda>state.
     res_bind (decode_digest row ''resulting_state_digest'') (\<lambda>resulting_state_digest.
     res_bind (res_bind (field_of row ''revision'') require_int) (\<lambda>revision.
     res_bind (decode_digest row ''before_state_digest'') (\<lambda>before_state_digest.
     res_bind (decode_digest row ''state_delta_ref'') (\<lambda>state_delta_ref.
     res_bind (check_previous_identity previous_state previous_state_digest before_state_digest) (\<lambda>_.
     let content = (if is_content_anchor revision then Some (json_content_digest L state) else None) in
     res_bind (require (state_identity L (Some before_state_digest) (Some state_delta_ref) content =
                        resulting_state_digest) MachineIntegrityError) (\<lambda>_.
     res_bind (decode_commit_object L row state revision before_state_digest state_delta_ref content) (\<lambda>commit.
     res_bind (require (com_state_digest commit = resulting_state_digest) MachineIntegrityError) (\<lambda>_.
     res_bind (decode_digest row ''commit_id'') (\<lambda>stored_commit_id.
     res_bind (require (com_commit_id commit = stored_commit_id) MachineIntegrityError) (\<lambda>_.
     Inr commit))))))))))))))"

section \<open>Round trips\<close>

lemma require_text_ok: "nonblank s \<Longrightarrow> require_text (JStr s) = Inr s"
  by simp

lemma require_int_JInt [simp]: "0 \<le> n \<Longrightarrow> require_int (JInt n) = Inr n"
  by (simp add: require_int_def)

lemma require_list_JArr [simp]: "require_list (JArr xs) = Inr xs"
  by (simp add: require_list_def)

lemma decode_opt_text_jopt_str [simp]: "decode_opt_text e (jopt_str x) = Inr x"
  by (cases x) (simp_all add: decode_opt_text_def)

lemma decode_opt_int_jopt_int [simp]: "decode_opt_int e (jopt_int x) = Inr x"
  by (cases x) (simp_all add: decode_opt_int_def)

lemma res_map_require_text: "all_nonblank xs \<Longrightarrow> res_map require_text (map JStr xs) = Inr xs"
  by (rule res_map_id) (simp add: all_nonblank_def)

lemma text_items_jstrs [simp]: "all_nonblank xs \<Longrightarrow> text_items (jstrs xs) = Inr xs"
  by (simp add: text_items_def jstrs_def res_map_require_text)

text \<open>Reading a field of an object literal.\<close>

lemma field_of_jobj: "distinct (map fst kvs) \<Longrightarrow> field_of (dict_of kvs) k = field_of kvs k"
  by (simp add: field_of_def map_of_jobj)

lemma field_of_Cons [simp]: "field_of ((k', v) # kvs) k = (if k' = k then Inr v else field_of kvs k)"
  by (simp add: field_of_def)

lemma require_object_jobj [simp]: "require_object (jobj kvs) = Inr (dict_of kvs)"
  by (simp add: require_object_def jobj_def)

lemma require_exact_jobj: "map fst kvs = names \<Longrightarrow> require_exact (dict_of kvs) names = Inr ()"
proof -
  assume "map fst kvs = names"
  then have "fst ` set (dict_of kvs) = set names" unfolding keys_dict_of by force
  then show ?thesis by (simp add: require_exact_def)
qed

definition command_ok :: "hostlib \<Rightarrow> machine_command \<Rightarrow> bool" where
  "command_ok L c = (command_post_init L c = Inr c)"

definition child_link_ok :: "hostlib \<Rightarrow> child_link \<Rightarrow> bool" where
  "child_link_ok L l = (child_link_post_init L l = Inr l)"

lemma decode_command_document:
  assumes sha: "\<And>x. is_sha256 (sha256_hex L x)" and ok: "command_ok L c"
  shows "decode_command L (command_document c) = Inr c"
proof -
  have d: "distinct [''command_id'', ''machine_id'', ''expected_revision'', ''kind'', ''payload'',
       ''scope'', ''deadline_at'', ''parent_command_id'', ''idempotency_key'', ''payload_digest'']"
    by simp
  from ok have checks: "nonblank (cmd_command_id c)" "nonblank (cmd_machine_id c)" "nonblank (cmd_kind c)"
    "0 \<le> cmd_expected_revision c" "all_nonblank (cmd_scope c)"
    "frozen_json_required_depth (cmd_payload c) \<le> default_max_depth"
    and dig: "cmd_payload_digest c = canonical_digest L (jobj (command_payload c))"
    by (auto simp: command_ok_def command_post_init_def res_simps all_nonblank_def
        dest: arg_cong [of _ _ cmd_payload_digest])
  have init: "command_post_init L (c\<lparr>cmd_payload_digest := []\<rparr>) = Inr c"
    using checks dig by (simp add: command_post_init_def all_nonblank_def freeze_json_eq command_payload_def)
  have nb: "nonblank (cmd_payload_digest c)"
    using sha is_sha256_nonblank by (simp add: dig canonical_digest_def)
  have raw: "c\<lparr>cmd_payload_digest := []\<rparr> = \<lparr>cmd_command_id = cmd_command_id c, cmd_machine_id = cmd_machine_id c,
      cmd_expected_revision = cmd_expected_revision c, cmd_kind = cmd_kind c, cmd_payload = cmd_payload c,
      cmd_scope = cmd_scope c, cmd_deadline_at = cmd_deadline_at c,
      cmd_parent_command_id = cmd_parent_command_id c, cmd_idempotency_key = cmd_idempotency_key c,
      cmd_payload_digest = []\<rparr>"
    by simp
  show ?thesis
    unfolding decode_command_def command_document_def
    using checks nb init
    by (simp add: field_of_jobj require_exact_jobj jstrs_def res_map_require_text raw)
qed

lemma decode_child_link_as_dict:
  assumes sha: "\<And>x. is_sha256 (sha256_hex L x)" and ok: "child_link_ok L l"
  shows "decode_child_link L (child_link_as_dict l) = Inr l"
proof -
  from ok have checks: "nonblank (link_parent_machine_id l)" "nonblank (link_child_machine_id l)"
    "nonblank (link_child_snapshot_ref l)" "nonblank (link_failure_policy l)"
    "is_sha256 (link_child_unit_digest l)" "is_sha256 (link_child_execution_lock_digest l)"
    "0 \<le> link_child_transition_start l" "link_child_transition_start l \<le> link_child_transition_end l"
    "opt_nonblank (link_child_result_ref l)"
    and dig: "link_digest l = canonical_digest L (jobj (child_link_payload l))"
    by (auto simp: child_link_ok_def child_link_post_init_def res_simps dest: arg_cong [of _ _ link_digest])
  have init: "child_link_post_init L (l\<lparr>link_digest := []\<rparr>) = Inr l"
    using checks dig by (simp add: child_link_post_init_def require_sha256_def child_link_payload_def)
  have nb: "nonblank (link_digest l)" "nonblank (link_child_unit_digest l)" "nonblank (link_child_execution_lock_digest l)"
    using sha checks is_sha256_nonblank by (simp_all add: dig canonical_digest_def)
  have raw: "l\<lparr>link_digest := []\<rparr> = \<lparr>link_parent_machine_id = link_parent_machine_id l,
      link_child_machine_id = link_child_machine_id l, link_child_unit_digest = link_child_unit_digest l,
      link_child_execution_lock_digest = link_child_execution_lock_digest l,
      link_child_snapshot_ref = link_child_snapshot_ref l, link_child_transition_start = link_child_transition_start l,
      link_child_transition_end = link_child_transition_end l, link_child_result_ref = link_child_result_ref l,
      link_failure_policy = link_failure_policy l, link_digest = []\<rparr>"
    by simp
  show ?thesis
    unfolding decode_child_link_def child_link_as_dict_def child_link_payload_def
    using checks nb init
    by (simp add: field_of_jobj require_exact_jobj raw)
qed

text \<open>
  A commit whose record can be read back: constructed from constructed parts, with an object state
  and non-blank effect references.  The constructor checks all of it except the last two.
\<close>

definition commit_recordable :: "hostlib \<Rightarrow> machine_commit \<Rightarrow> bool" where
  "commit_recordable L c =
     (commit_ok L c \<and> (\<forall>x \<in> set (com_emitted_commands c). command_ok L x) \<and>
      (\<forall>l \<in> set (com_child_links c). child_link_ok L l) \<and>
      all_nonblank (com_effect_intent_refs c) \<and> (\<exists>d. com_state c = JObj d))"

lemma commit_document_names: "map fst (commit_document_fields c record) = commit_fields"
  by (simp add: commit_document_fields_def commit_fields_def)

lemma commit_fields_distinct: "distinct commit_fields"
  by (simp add: commit_fields_def)

lemma field_of_commit_document:
  "field_of (dict_of (commit_document_fields c record)) k = field_of (commit_document_fields c record) k"
  by (rule field_of_jobj) (simp only: commit_document_names commit_fields_distinct)

lemma commit_ok_text:
  assumes "commit_ok L c"
  shows "nonblank (com_machine_id c)" "nonblank (com_command_id c)"
    "nonblank (com_proposal_digest c)" "nonblank (com_command_digest c)"
    "nonblank (com_unit_digest c)" "nonblank (com_execution_lock_digest c)"
    "all_nonblank (com_output_refs c)" "all_nonblank (com_input_refs c)"
    "all_nonblank (com_evidence_refs c)" "all_nonblank (com_artifact_refs c)"
  using commit_ok_checks [OF assms] is_sha256_nonblank
  by (auto simp: commit_checks_def res_simps)

lemma status_value_nonblank [simp]: "nonblank (status_value s)"
  by (cases s) (simp_all add: nonblank_iff py_isspace_def)

definition commit_raw :: "machine_commit \<Rightarrow> machine_commit" where
  "commit_raw c = c\<lparr>com_state_delta := None, com_state_digest := [], com_commit_id := []\<rparr>"

lemma decode_commit_object_document:
  assumes sha: "\<And>x. is_sha256 (sha256_hex L x)" and ok: "commit_recordable L c"
    and b: "com_before_state_digest c = Some b" and r: "com_state_delta_ref c = Some dr"
  shows "decode_commit_object L (dict_of (commit_document_fields c record)) (com_state c) (com_revision c) b dr
     (com_state_content_digest c) = commit_post_init L (commit_raw c)"
proof -
  have c: "commit_ok L c" using ok by (simp add: commit_recordable_def)
  have cmds: "res_map (decode_command L) (map command_document (com_emitted_commands c)) = Inr (com_emitted_commands c)"
    using ok by (intro res_map_id) (auto simp: commit_recordable_def intro: decode_command_document [OF sha])
  have links: "res_map (decode_child_link L) (map child_link_as_dict (com_child_links c)) = Inr (com_child_links c)"
    using ok by (intro res_map_id) (auto simp: commit_recordable_def intro: decode_child_link_as_dict [OF sha])
  have eff: "all_nonblank (com_effect_intent_refs c)" using ok by (simp add: commit_recordable_def)
  show ?thesis
    unfolding decode_commit_object_def field_of_commit_document
    unfolding commit_document_fields_def
    using commit_ok_text [OF c] commit_ok_facts(2) [OF c] eff
    by (simp add: cmds links b [symmetric] r [symmetric])
      (rule arg_cong [where f = "commit_post_init L"], rule machine_commit.equality; simp add: commit_raw_def)
qed

lemma commit_raw_post_init:
  assumes "commit_ok L c"
  shows "commit_post_init L (commit_raw c) = Inr (c\<lparr>com_state_delta := None\<rparr>)"
proof -
  have checks: "commit_checks (commit_raw c) = Inr ()"
    using commit_ok_checks [OF assms] unfolding commit_raw_def
    by (simp add: commit_checks_def res_simps)
  from assms have froz: "freeze_json (com_state c) = Inr (com_state c)"
    "res_map freeze_json (com_event_payloads c) = Inr (com_event_payloads c)"
    unfolding commit_ok_def by (auto elim!: commit_post_init_Inr simp: res_simps)
  have anchor: "commit_content_anchor L (commit_raw c) = Inr (com_state_content_digest c)"
    using commit_ok_derived(1) [OF assms] by (simp add: commit_content_anchor_ok commit_raw_def)
  have pay: "commit_payload (c\<lparr>com_state_delta := None\<rparr>) = commit_payload c"
    by (simp add: commit_payload_def)
  note derived = commit_ok_derived(2,3) [OF assms, symmetric]
  show ?thesis
    unfolding commit_post_init_def using checks froz anchor
    by (simp add: commit_raw_def derived pay)
qed

lemma decode_digest_document:
  "is_sha256 d \<Longrightarrow> field_of row k = Inr (JStr d) \<Longrightarrow> decode_digest row k = Inr d"
  using is_sha256_nonblank by (simp add: decode_digest_def require_sha256_def)

lemma decode_commit_document:
  assumes sha: "\<And>x. is_sha256 (sha256_hex L x)" and ok: "commit_recordable L c"
    and st: "decode_state (dict_of (commit_document_fields c record)) prev = Inr (com_state c)"
    and id: "\<And>b. com_before_state_digest c = Some b \<Longrightarrow> check_previous_identity prev prev_digest b = Inr ()"
  shows "decode_commit L (jobj (commit_document_fields c record)) prev prev_digest = Inr (c\<lparr>com_state_delta := None\<rparr>)"
proof -
  have c: "commit_ok L c" using ok by (simp add: commit_recordable_def)
  obtain b dr where b: "com_before_state_digest c = Some b" "is_sha256 b"
    and r: "com_state_delta_ref c = Some dr" "is_sha256 dr"
    using commit_ok_facts(3,4) [OF c] by blast
  have ids: "is_sha256 (com_state_digest c)" "is_sha256 (com_commit_id c)"
    using sha by (simp_all add: commit_ok_derived(2,3) [OF c] state_identity_def canonical_digest_def)
  have rev: "0 \<le> com_revision c" using commit_ok_facts(1,2) [OF c] by simp
  have fields: "field_of (dict_of (commit_document_fields c record)) ''resulting_state_digest'' = Inr (JStr (com_state_digest c))"
    "field_of (dict_of (commit_document_fields c record)) ''revision'' = Inr (JInt (com_revision c))"
    "field_of (dict_of (commit_document_fields c record)) ''before_state_digest'' = Inr (JStr b)"
    "field_of (dict_of (commit_document_fields c record)) ''state_delta_ref'' = Inr (JStr dr)"
    "field_of (dict_of (commit_document_fields c record)) ''commit_id'' = Inr (JStr (com_commit_id c))"
    "field_of (dict_of (commit_document_fields c record)) ''record_schema'' = Inr (JStr ''machine.commit.v4'')"
    unfolding field_of_commit_document by (simp_all add: commit_document_fields_def b r)
  note content = commit_ok_derived(1) [OF c]
  show ?thesis
    unfolding decode_commit_def
    using field_of_eq_Inr [THEN iffD1, OF fields(6)] commit_raw_post_init [OF c]
    by (simp add: require_exact_jobj commit_document_names st decode_digest_document [OF ids(1) fields(1)]
        decode_digest_document [OF b(2) fields(3)] decode_digest_document [OF r(2) fields(4)]
        decode_digest_document [OF ids(2) fields(5)] fields(2) rev id [OF b(1)]
        commit_ok_derived(2) [OF c, symmetric, unfolded b(1) r(1)] content [symmetric]
        decode_commit_object_document [OF sha ok b(1) r(1)])
qed

text \<open>The commit continues the state and state identity that precede it.\<close>

definition continues_state :: "hostlib \<Rightarrow> json option \<Rightarrow> string option \<Rightarrow> machine_commit \<Rightarrow> bool" where
  "continues_state L prev prev_digest c = (case prev of
      None \<Rightarrow> prev_digest = None
    | Some s \<Rightarrow> prev_digest = com_before_state_digest c \<and> json_wf s \<and>
        (\<exists>delta. com_state_delta c = Some delta \<and> delta_ok L delta \<and>
          apply_machine_state_delta s delta = Inr (com_state c)))"

lemma state_record_decodes:
  assumes "commit_recordable L c" "continues_state L prev prev_digest c"
  shows "\<exists>record. state_record c prev force = Inr record \<and>
    decode_state (dict_of (commit_document_fields c record)) prev = Inr (com_state c)"
proof -
  have dec: "decode_state (dict_of (commit_document_fields c (e, p))) prev =
      (if e = ''snapshot'' then res_bind (require_object p) (\<lambda>d. Inr (JObj d))
       else case prev of None \<Rightarrow> Inl MachineIntegrityError | Some s \<Rightarrow> apply_state_patch s p)"
    if "e = ''snapshot'' \<or> e = ''patch''" for e p prev
    using that unfolding decode_state_def field_of_commit_document
    by (auto simp: commit_document_fields_def nonblank_iff py_isspace_def)
  obtain d where d: "com_state c = JObj d" using assms(1) by (auto simp: commit_recordable_def)
  show ?thesis
  proof (cases "prev = None \<or> force")
    case True
    then show ?thesis by (simp add: state_record_def dec d require_object_def)
  next
    case False
    then obtain s where s: "prev = Some s" by auto
    with assms(2) obtain delta where delta: "com_state_delta c = Some delta" "delta_ok L delta" "json_wf s"
      "apply_machine_state_delta s delta = Inr (com_state c)"
      by (auto simp: continues_state_def)
    from state_delta_patch_replays [OF delta(2,4,3)] obtain patch where
      "state_delta_patch delta = Inr patch" "apply_state_patch s patch = Inr (com_state c)" by blast
    with False s delta(1) show ?thesis by (simp add: state_record_def dec)
  qed
qed

lemma commit_document_replays:
  assumes sha: "\<And>x. is_sha256 (sha256_hex L x)"
    and rec: "commit_recordable L c" and cont: "continues_state L prev prev_digest c"
  shows "\<exists>doc. commit_document c prev force = Inr doc \<and>
    decode_commit L doc prev prev_digest = Inr (c\<lparr>com_state_delta := None\<rparr>)"
proof -
  obtain entry where r: "state_record c prev force = Inr entry"
    "decode_state (dict_of (commit_document_fields c entry)) prev = Inr (com_state c)"
    using state_record_decodes [OF rec cont] by blast
  have c: "commit_ok L c" using rec by (simp add: commit_recordable_def)
  have "check_previous_identity prev prev_digest b = Inr ()" if "com_before_state_digest c = Some b" for b
    using cont commit_ok_facts(3) [OF c] that
    by (auto simp: check_previous_identity_def continues_state_def require_sha256_def split: option.splits)
  with decode_commit_document [OF sha rec r(2)] r(1) show ?thesis
    by (simp add: commit_document_def)
qed

text \<open>What is used of \<^verbatim>\<open>str(...)\<close>, a parameter of the decoders that call it: text is returned unchanged.\<close>

definition str_of_text :: "(json \<Rightarrow> string) \<Rightarrow> bool" where
  "str_of_text pystr = (\<forall>s. pystr (JStr s) = s)"

end
