(* ===== verification/Journal.thy ===== *)
theory Journal
  imports JournalCodec
begin

text \<open>
  The journal authority of \<^verbatim>\<open>kernel/journal.py\<close>: the validated history of one machine
  (\<^verbatim>\<open>_JournalHistory\<close>) and the in-memory journal over all machines.  The interface the
  executor relies on is the locale \<open>machine_journal\<close>.
\<close>

section \<open>One machine's history\<close>

record history =
  hist_commits :: "machine_commit list"
  hist_by_command :: "string \<rightharpoonup> machine_commit"
  hist_by_commit :: "string \<rightharpoonup> machine_commit"
  hist_has_emitted :: bool

definition empty_history :: history where
  "empty_history = \<lparr>hist_commits = [], hist_by_command = Map.empty, hist_by_commit = Map.empty,
     hist_has_emitted = False\<rparr>"

definition latest_of :: "machine_commit list \<Rightarrow> machine_commit option" where
  "latest_of cs = (if cs = [] then None else Some (last cs))"

definition validate_next :: "history \<Rightarrow> machine_commit \<Rightarrow> machine_commit option res" where
  "validate_next h commit =
     (case hist_by_command h (com_command_id commit) of
        Some existing \<Rightarrow> if commit_eq existing commit then Inr (Some existing) else Inl MachineConflict
      | None \<Rightarrow>
          (case hist_by_commit h (com_commit_id commit) of
             Some existing \<Rightarrow> Inr (Some existing)
           | None \<Rightarrow>
               (let latest = latest_of (hist_commits h) in
                if com_base_revision commit \<noteq> (case latest of None \<Rightarrow> 0 | Some l \<Rightarrow> com_revision l)
                then Inl MachineConflict
                else if com_previous_commit_id commit \<noteq> map_option com_commit_id latest
                then Inl MachineConflict
                else if (case latest of None \<Rightarrow> False | Some l \<Rightarrow>
                    com_unit_digest commit \<noteq> com_unit_digest l \<or>
                    com_execution_lock_digest commit \<noteq> com_execution_lock_digest l)
                then Inl MachineConflict
                else Inr None)))"

definition history_accept :: "history \<Rightarrow> machine_commit \<Rightarrow> (machine_commit \<times> history) res" where
  "history_accept h commit =
     res_bind (validate_next h commit) (\<lambda>existing.
     case existing of
       Some e \<Rightarrow> Inr (e, h)
     | None \<Rightarrow> Inr (commit, h\<lparr>hist_commits := hist_commits h @ [commit],
         hist_by_command := (hist_by_command h)(com_command_id commit \<mapsto> commit),
         hist_by_commit := (hist_by_commit h)(com_commit_id commit \<mapsto> commit),
         hist_has_emitted := (hist_has_emitted h \<or> com_emitted_commands commit \<noteq> [])\<rparr>))"

section \<open>The in-memory journal\<close>

record mem_journal =
  mem_histories :: "string \<rightharpoonup> history"
  mem_by_id :: "string \<rightharpoonup> machine_commit"

definition empty_mem_journal :: mem_journal where
  "empty_mem_journal = \<lparr>mem_histories = Map.empty, mem_by_id = Map.empty\<rparr>"

definition mem_history :: "mem_journal \<Rightarrow> string \<Rightarrow> history" where
  "mem_history j machine_id = (case mem_histories j machine_id of Some h \<Rightarrow> h | None \<Rightarrow> empty_history)"

text \<open>\<^verbatim>\<open>_history_for\<close> creates the empty history even when the commit is then refused.\<close>

definition mem_append :: "machine_commit \<Rightarrow> (mem_journal, machine_commit) action" where
  "mem_append commit j =
     (let h = mem_history j (com_machine_id commit);
          j1 = j\<lparr>mem_histories := (mem_histories j)(com_machine_id commit \<mapsto> h)\<rparr> in
      case history_accept h commit of
        Inl e \<Rightarrow> (Inl e, j1)
      | Inr (accepted, h') \<Rightarrow>
          (Inr accepted, j1\<lparr>mem_histories := (mem_histories j1)(com_machine_id commit \<mapsto> h'),
             mem_by_id := (mem_by_id j1)(com_commit_id accepted \<mapsto> accepted)\<rparr>))"

definition mem_head :: "mem_journal \<Rightarrow> string \<Rightarrow> (machine_commit option \<times> bool) res" where
  "mem_head j machine_id =
     (if \<not> nonblank machine_id then Inl ValueError
      else case mem_histories j machine_id of
          None \<Rightarrow> Inr (None, False)
        | Some h \<Rightarrow> Inr (latest_of (hist_commits h), hist_has_emitted h))"

definition mem_latest :: "mem_journal \<Rightarrow> string \<Rightarrow> machine_commit option res" where
  "mem_latest j machine_id = res_bind (mem_head j machine_id) (\<lambda>h. Inr (fst h))"

definition mem_get :: "mem_journal \<Rightarrow> string \<Rightarrow> machine_commit option" where
  "mem_get j commit_id = mem_by_id j commit_id"

definition mem_command_commit :: "mem_journal \<Rightarrow> string \<Rightarrow> string \<Rightarrow> machine_commit option res" where
  "mem_command_commit j machine_id command_id =
     (if \<not> nonblank machine_id then Inl ValueError
      else if \<not> nonblank command_id then Inl ValueError
      else case mem_histories j machine_id of
          None \<Rightarrow> Inr None
        | Some h \<Rightarrow> Inr (hist_by_command h command_id))"

definition mem_has_emitted_commands :: "mem_journal \<Rightarrow> string \<Rightarrow> bool res" where
  "mem_has_emitted_commands j machine_id =
     (if \<not> nonblank machine_id then Inl ValueError
      else case mem_histories j machine_id of None \<Rightarrow> Inr False | Some h \<Rightarrow> Inr (hist_has_emitted h))"

definition mem_commits :: "mem_journal \<Rightarrow> string \<Rightarrow> machine_commit list" where
  "mem_commits j machine_id =
     (case mem_histories j machine_id of None \<Rightarrow> [] | Some h \<Rightarrow> hist_commits h)"

section \<open>Chains\<close>

text \<open>The revision chain of an accepted history: consecutive revisions from zero, linked by commit id.\<close>

fun chain_from :: "machine_commit option \<Rightarrow> machine_commit list \<Rightarrow> bool" where
  "chain_from prev [] = True"
| "chain_from prev (c # cs) =
     (com_base_revision c = (case prev of None \<Rightarrow> 0 | Some p \<Rightarrow> com_revision p) \<and>
      com_revision c = com_base_revision c + 1 \<and>
      com_previous_commit_id c = map_option com_commit_id prev \<and>
      (case prev of None \<Rightarrow> True | Some p \<Rightarrow>
         com_unit_digest c = com_unit_digest p \<and> com_execution_lock_digest c = com_execution_lock_digest p) \<and>
      chain_from (Some c) cs)"

abbreviation chain :: "machine_commit list \<Rightarrow> bool" where
  "chain \<equiv> chain_from None"

definition history_wf :: "history \<Rightarrow> bool" where
  "history_wf h =
     (chain (hist_commits h) \<and>
      distinct (map com_command_id (hist_commits h)) \<and> distinct (map com_commit_id (hist_commits h)) \<and>
      hist_by_command h = map_of (map (\<lambda>c. (com_command_id c, c)) (hist_commits h)) \<and>
      hist_by_commit h = map_of (map (\<lambda>c. (com_commit_id c, c)) (hist_commits h)) \<and>
      hist_has_emitted h = (\<exists>c \<in> set (hist_commits h). com_emitted_commands c \<noteq> []))"

lemma chain_from_append:
  "chain_from p (cs @ [c]) \<longleftrightarrow> chain_from p cs \<and>
     chain_from (if cs = [] then p else Some (last cs)) [c]"
  by (induction cs arbitrary: p) (auto simp: last_ConsR)

lemma chain_revision:
  "chain_from p cs \<Longrightarrow> i < length cs \<Longrightarrow>
     com_revision (cs ! i) = (case p of None \<Rightarrow> 0 | Some q \<Rightarrow> com_revision q) + int i + 1"
proof (induction p cs arbitrary: i rule: chain_from.induct)
  case (2 prev c cs)
  then show ?case by (cases i) auto
qed simp

lemma latest_of_snoc [simp]: "latest_of (cs @ [c]) = Some c" and latest_of_Nil [simp]: "latest_of [] = None"
  by (simp_all add: latest_of_def)

lemma chain_head_revision:
  "chain cs \<Longrightarrow> (case latest_of cs of None \<Rightarrow> 0 | Some l \<Rightarrow> com_revision l) = int (length cs)"
  using chain_revision [of None cs "length cs - 1"]
  by (cases cs rule: rev_cases) (auto simp: nth_append)

lemma map_of_snoc: "k \<notin> fst ` set kvs \<Longrightarrow> [k \<mapsto> v] ++ map_of kvs = (map_of kvs)(k \<mapsto> v)"
  by (induction kvs) (auto simp: fun_eq_iff map_add_def)

lemma history_wf_empty: "history_wf empty_history"
  by (simp add: history_wf_def empty_history_def)

text \<open>What acceptance does: an already accepted commit is returned, a fresh one extends the chain.\<close>

lemma history_accept_cases:
  assumes "history_wf h" "history_accept h c = Inr (a, h')" "com_revision c = com_base_revision c + 1"
  obtains (existing) "h' = h" "a \<in> set (hist_commits h)" "commit_eq a c \<or> com_commit_id a = com_commit_id c"
  | (fresh) "a = c" "hist_commits h' = hist_commits h @ [c]" "history_wf h'"
      "com_base_revision c = int (length (hist_commits h))"
proof -
  from assms(2) obtain ex where v: "validate_next h c = Inr ex"
    and a: "(case ex of Some e \<Rightarrow> Inr (e, h)
      | None \<Rightarrow> Inr (c, h\<lparr>hist_commits := hist_commits h @ [c],
         hist_by_command := (hist_by_command h)(com_command_id c \<mapsto> c),
         hist_by_commit := (hist_by_commit h)(com_commit_id c \<mapsto> c),
         hist_has_emitted := (hist_has_emitted h \<or> com_emitted_commands c \<noteq> [])\<rparr>)) = (Inr (a, h') :: _ res)"
    by (auto simp: history_accept_def res_simps)
  note wf = assms(1) [unfolded history_wf_def]
  show thesis
  proof (cases ex)
    case (Some e)
    with a have "a = e" "h' = h" by simp_all
    moreover from v Some have "hist_by_command h (com_command_id c) = Some e \<and> commit_eq e c \<or>
        hist_by_commit h (com_commit_id c) = Some e"
      by (auto simp: validate_next_def Let_def split: option.splits if_splits)
    then have "e \<in> set (hist_commits h)" "commit_eq e c \<or> com_commit_id e = com_commit_id c"
      using wf by (auto dest!: map_of_SomeD)
    ultimately show thesis using existing by simp
  next
    case None
    with v have fr: "hist_by_command h (com_command_id c) = None" "hist_by_commit h (com_commit_id c) = None"
      and base: "com_base_revision c = (case latest_of (hist_commits h) of None \<Rightarrow> 0 | Some l \<Rightarrow> com_revision l)"
      and link: "com_previous_commit_id c = map_option com_commit_id (latest_of (hist_commits h))"
        "case latest_of (hist_commits h) of None \<Rightarrow> True | Some l \<Rightarrow>
          com_unit_digest c = com_unit_digest l \<and> com_execution_lock_digest c = com_execution_lock_digest l"
      by (auto simp: validate_next_def Let_def split: option.splits if_splits)
    from fr wf have ids: "com_command_id c \<notin> com_command_id ` set (hist_commits h)"
      "com_commit_id c \<notin> com_commit_id ` set (hist_commits h)"
      by (auto simp: map_of_eq_None_iff image_image)
    have ch: "chain (hist_commits h @ [c])"
      using wf base link assms(3) by (auto simp: chain_from_append latest_of_def split: option.splits)
    from a None have h': "h' = h\<lparr>hist_commits := hist_commits h @ [c],
         hist_by_command := (hist_by_command h)(com_command_id c \<mapsto> c),
         hist_by_commit := (hist_by_commit h)(com_commit_id c \<mapsto> c),
         hist_has_emitted := (hist_has_emitted h \<or> com_emitted_commands c \<noteq> [])\<rparr>" and ac: "a = c"
      by auto
    have "history_wf h'"
      using wf ch ids by (auto simp: history_wf_def h' map_of_snoc image_image)
    with h' ac base wf show thesis
      using fresh chain_head_revision by auto
  qed
qed

lemma validate_next_existing:
  assumes "history_wf h" "c \<in> set (hist_commits h)" "commit_eq c d"
  shows "validate_next h d = Inr (Some c)"
proof -
  have "com_command_id d = com_command_id c"
    using arg_cong [OF assms(3) [unfolded commit_eq_def], of com_command_id] by simp
  moreover have "hist_by_command h (com_command_id c) = Some c"
    using assms(1,2) by (auto simp: history_wf_def comp_def intro!: map_of_is_SomeI)
  ultimately show ?thesis using assms(3) by (simp add: validate_next_def)
qed

lemma validate_next_stale:
  assumes "history_wf h" "com_base_revision c \<noteq> int (length (hist_commits h))"
    and "com_command_id c \<notin> com_command_id ` set (hist_commits h)"
    and "com_commit_id c \<notin> com_commit_id ` set (hist_commits h)"
  shows "validate_next h c = Inl MachineConflict"
proof -
  have "hist_by_command h (com_command_id c) = None" "hist_by_commit h (com_commit_id c) = None"
    using assms(1,3,4) by (auto simp: history_wf_def map_of_eq_None_iff image_image)
  then show ?thesis
    using assms(1,2) chain_head_revision [of "hist_commits h"]
    by (simp add: validate_next_def Let_def history_wf_def)
qed

section \<open>The journal interface\<close>

locale machine_journal =
  fixes jinv :: "'j \<Rightarrow> bool"
    and jappend :: "machine_commit \<Rightarrow> 'j \<Rightarrow> machine_commit res \<times> 'j"
    and jcommits :: "'j \<Rightarrow> string \<Rightarrow> machine_commit list"
  assumes append_inv: "jinv j \<Longrightarrow> com_revision c = com_base_revision c + 1 \<Longrightarrow> jinv (snd (jappend c j))"
    and append_refused: "jappend c j = (Inl e, j') \<Longrightarrow> jcommits j' m = jcommits j m"
    and append_accepted: "jinv j \<Longrightarrow> com_revision c = com_base_revision c + 1 \<Longrightarrow> jappend c j = (Inr a, j') \<Longrightarrow>
      a \<in> set (jcommits j' (com_machine_id c)) \<and>
      (jcommits j' = jcommits j \<or>
       a = c \<and> jcommits j' = (jcommits j)(com_machine_id c := jcommits j (com_machine_id c) @ [c]))"
    and append_stale: "jinv j \<Longrightarrow> com_base_revision c \<noteq> int (length (jcommits j (com_machine_id c))) \<Longrightarrow>
      com_command_id c \<notin> com_command_id ` set (jcommits j (com_machine_id c)) \<Longrightarrow>
      com_commit_id c \<notin> com_commit_id ` set (jcommits j (com_machine_id c)) \<Longrightarrow>
      fst (jappend c j) = Inl MachineConflict"
    and append_again: "jinv j \<Longrightarrow> c \<in> set (jcommits j (com_machine_id c)) \<Longrightarrow> commit_eq c d \<Longrightarrow>
      fst (jappend d j) = Inr c"
    and commits_chain: "jinv j \<Longrightarrow> chain (jcommits j m)"
begin

text \<open>A sequence of appends, from any number of writers, each accepted or refused.\<close>

fun jrun :: "machine_commit list \<Rightarrow> 'j \<Rightarrow> 'j" where
  "jrun [] j = j"
| "jrun (c # cs) j = jrun cs (snd (jappend c j))"

lemma append_prefix:
  assumes "jinv j" "com_revision c = com_base_revision c + 1"
  shows "prefix (jcommits j m) (jcommits (snd (jappend c j)) m)"
proof (cases "jappend c j")
  case (Pair r j')
  then show ?thesis
    using append_refused [of c j _ j' m] append_accepted [OF assms, of _ j']
    by (cases r) (auto simp: fun_upd_def)
qed

lemma jrun_append_only:
  assumes "jinv j" "\<forall>c \<in> set cs. com_revision c = com_base_revision c + 1"
  shows "jinv (jrun cs j) \<and> prefix (jcommits j m) (jcommits (jrun cs j) m)"
  using assms
proof (induction cs arbitrary: j)
  case (Cons c cs)
  then have "jinv (snd (jappend c j))" "prefix (jcommits j m) (jcommits (snd (jappend c j)) m)"
    using append_inv append_prefix by auto
  with Cons show ?case by (auto intro: prefix_order.trans)
qed simp

lemma jrun_revisions:
  assumes "jinv j" "\<forall>c \<in> set cs. com_revision c = com_base_revision c + 1" "i < length (jcommits (jrun cs j) m)"
  shows "com_revision (jcommits (jrun cs j) m ! i) = int i + 1"
  using chain_revision [OF commits_chain, of "jrun cs j" i m] jrun_append_only [OF assms(1,2)] assms(3) by simp

lemma one_winner:
  assumes "jinv j" "com_revision c = com_base_revision c + 1" "jappend c j = (Inr c, j')"
    and "c \<notin> set (jcommits j (com_machine_id c))"
    and "com_machine_id d = com_machine_id c" "com_base_revision d = com_base_revision c"
    and "com_command_id d \<notin> com_command_id ` set (jcommits j' (com_machine_id c))"
    and "com_commit_id d \<notin> com_commit_id ` set (jcommits j' (com_machine_id c))"
  shows "fst (jappend d j') = Inl MachineConflict"
proof -
  have inv': "jinv j'" using append_inv [OF assms(1,2)] assms(3) by simp
  have acc: "c \<in> set (jcommits j' (com_machine_id c))" and
    ext: "jcommits j' (com_machine_id c) = jcommits j (com_machine_id c) @ [c]"
    using append_accepted [OF assms(1-3)] assms(4) by auto
  have "com_revision c = int (length (jcommits j (com_machine_id c))) + 1"
    using chain_revision [OF commits_chain [OF inv'], of "length (jcommits j (com_machine_id c))" "com_machine_id c"]
    by (simp add: ext)
  then have "com_base_revision d \<noteq> int (length (jcommits j' (com_machine_id d)))"
    using assms(2,5,6) by (simp add: ext)
  with append_stale [OF inv'] assms(5,7,8) show ?thesis by simp
qed

end

section \<open>The in-memory journal provides the interface\<close>

definition mem_wf :: "mem_journal \<Rightarrow> bool" where
  "mem_wf j =
     ((\<forall>m h. mem_histories j m = Some h \<longrightarrow> history_wf h \<and> (\<forall>c \<in> set (hist_commits h). com_machine_id c = m)) \<and>
      (\<forall>i c. mem_by_id j i = Some c \<longrightarrow> com_commit_id c = i \<and> c \<in> set (mem_commits j (com_machine_id c))))"

lemma mem_commits_history: "mem_commits j m = hist_commits (mem_history j m)"
  by (simp add: mem_commits_def mem_history_def empty_history_def split: option.split)

lemma mem_wf_history:
  "mem_wf j \<Longrightarrow> history_wf (mem_history j m) \<and> (\<forall>c \<in> set (hist_commits (mem_history j m)). com_machine_id c = m)"
  by (auto simp: mem_wf_def mem_history_def history_wf_empty split: option.split) (simp add: empty_history_def)

lemma mem_append_refused_state:
  "mem_append c j = (Inl e, j') \<Longrightarrow>
     mem_histories j' = (mem_histories j)(com_machine_id c \<mapsto> mem_history j (com_machine_id c)) \<and>
     mem_by_id j' = mem_by_id j"
  by (auto simp: mem_append_def Let_def split: sum.splits prod.splits)

lemma mem_append_refused:
  assumes "mem_append c j = (Inl e, j')"
  shows "mem_commits j' m = mem_commits j m"
proof (cases "m = com_machine_id c")
  case True
  then show ?thesis
    using mem_append_refused_state [OF assms] mem_commits_history [of j m] by (simp add: mem_commits_def)
next
  case False
  then show ?thesis using mem_append_refused_state [OF assms] by (simp add: mem_commits_def)
qed

lemma mem_append_accepted:
  assumes "mem_wf j" "com_revision c = com_base_revision c + 1" "mem_append c j = (Inr a, j')"
  shows "mem_by_id j' = (mem_by_id j)(com_commit_id a \<mapsto> a)"
    and "\<exists>h'. mem_histories j' = (mem_histories j)(com_machine_id c \<mapsto> h') \<and> history_wf h' \<and> a \<in> set (hist_commits h') \<and>
      (hist_commits h' = mem_commits j (com_machine_id c) \<or>
       a = c \<and> hist_commits h' = mem_commits j (com_machine_id c) @ [c])"
proof -
  let ?h = "mem_history j (com_machine_id c)"
  note wf = mem_wf_history [OF assms(1), of "com_machine_id c", THEN conjunct1]
  from assms(3) obtain h' where h': "history_accept ?h c = Inr (a, h')"
    and j': "mem_histories j' = (mem_histories j)(com_machine_id c \<mapsto> h')"
      "mem_by_id j' = (mem_by_id j)(com_commit_id a \<mapsto> a)"
    by (auto simp: mem_append_def Let_def split: sum.splits prod.splits)
  show "mem_by_id j' = (mem_by_id j)(com_commit_id a \<mapsto> a)" by (rule j'(2))
  have "history_wf h' \<and> a \<in> set (hist_commits h') \<and>
      (hist_commits h' = mem_commits j (com_machine_id c) \<or>
       a = c \<and> hist_commits h' = mem_commits j (com_machine_id c) @ [c])"
    by (rule history_accept_cases [OF wf h' assms(2)]) (use wf in \<open>simp_all add: mem_commits_history\<close>)
  with j'(1) show "\<exists>h'. mem_histories j' = (mem_histories j)(com_machine_id c \<mapsto> h') \<and> history_wf h' \<and>
      a \<in> set (hist_commits h') \<and> (hist_commits h' = mem_commits j (com_machine_id c) \<or>
       a = c \<and> hist_commits h' = mem_commits j (com_machine_id c) @ [c])"
    by blast
qed

lemma mem_append_commits:
  assumes "mem_wf j" "com_revision c = com_base_revision c + 1" "mem_append c j = (Inr a, j')"
  shows "a \<in> set (mem_commits j' (com_machine_id c)) \<and>
      (mem_commits j' = mem_commits j \<or>
       a = c \<and> mem_commits j' = (mem_commits j)(com_machine_id c := mem_commits j (com_machine_id c) @ [c]))"
proof -
  obtain h' where h': "mem_histories j' = (mem_histories j)(com_machine_id c \<mapsto> h')" "a \<in> set (hist_commits h')"
    "hist_commits h' = mem_commits j (com_machine_id c) \<or>
       a = c \<and> hist_commits h' = mem_commits j (com_machine_id c) @ [c]"
    using mem_append_accepted(2) [OF assms] by blast
  have "mem_commits j' = (mem_commits j)(com_machine_id c := hist_commits h')"
    by (rule ext) (simp add: mem_commits_def h'(1))
  with h'(2,3) show ?thesis by auto
qed

lemma mem_append_wf:
  assumes "mem_wf j" "com_revision c = com_base_revision c + 1"
  shows "mem_wf (snd (mem_append c j))"
proof (cases "mem_append c j")
  case (Pair r j')
  show ?thesis
  proof (cases r)
    case (Inl e)
    note ref = Pair [unfolded Inl]
    show ?thesis
      using mem_append_refused_state [OF ref] mem_append_refused [OF ref]
        mem_wf_history [OF assms(1), of "com_machine_id c"] assms(1) ref
      by (simp add: mem_wf_def)
  next
    case (Inr a)
    obtain h' where h': "mem_histories j' = (mem_histories j)(com_machine_id c \<mapsto> h')" "history_wf h'"
      "a \<in> set (hist_commits h')"
      "hist_commits h' = mem_commits j (com_machine_id c) \<or> a = c \<and> hist_commits h' = mem_commits j (com_machine_id c) @ [c]"
      using mem_append_accepted(2) [OF assms Pair [unfolded Inr]] by blast
    have own: "\<forall>d \<in> set (hist_commits h'). com_machine_id d = com_machine_id c"
      using h'(4) mem_wf_history [OF assms(1), of "com_machine_id c"] by (auto simp: mem_commits_history)
    have cm: "mem_commits j' = (mem_commits j)(com_machine_id c := hist_commits h')"
      by (rule ext) (simp add: mem_commits_def h'(1))
    have keep: "set (mem_commits j m) \<subseteq> set (mem_commits j' m)" for m
      using h'(4) by (auto simp: cm)
    have "com_commit_id d = i \<and> d \<in> set (mem_commits j' (com_machine_id d))" if "mem_by_id j' i = Some d" for i d
    proof (cases "i = com_commit_id a")
      case True
      then have "d = a" using that mem_append_accepted(1) [OF assms Pair [unfolded Inr]] by simp
      with True h'(3) own show ?thesis by (simp add: cm)
    next
      case False
      then have "mem_by_id j i = Some d" using that mem_append_accepted(1) [OF assms Pair [unfolded Inr]] by simp
      with assms(1) have "com_commit_id d = i" "d \<in> set (mem_commits j (com_machine_id d))"
        unfolding mem_wf_def by blast+
      with keep show ?thesis by blast
    qed
    with h' own assms(1) Pair show ?thesis by (auto simp: mem_wf_def)
  qed
qed

interpretation mem: machine_journal mem_wf mem_append mem_commits
proof
  fix j :: mem_journal and c d :: machine_commit and m
  show "mem_wf j \<Longrightarrow> chain (mem_commits j m)"
    using mem_wf_history by (simp add: mem_commits_history history_wf_def)
  show "mem_wf j \<Longrightarrow> com_base_revision c \<noteq> int (length (mem_commits j (com_machine_id c))) \<Longrightarrow>
      com_command_id c \<notin> com_command_id ` set (mem_commits j (com_machine_id c)) \<Longrightarrow>
      com_commit_id c \<notin> com_commit_id ` set (mem_commits j (com_machine_id c)) \<Longrightarrow>
      fst (mem_append c j) = Inl MachineConflict"
    using mem_wf_history [of j "com_machine_id c"] validate_next_stale [of "mem_history j (com_machine_id c)" c]
    by (simp add: mem_append_def Let_def history_accept_def mem_commits_history)
  show "mem_wf j \<Longrightarrow> c \<in> set (mem_commits j (com_machine_id c)) \<Longrightarrow> commit_eq c d \<Longrightarrow> fst (mem_append d j) = Inr c"
  proof -
    assume a: "mem_wf j" "c \<in> set (mem_commits j (com_machine_id c))" "commit_eq c d"
    have "com_machine_id d = com_machine_id c"
      using arg_cong [OF a(3) [unfolded commit_eq_def], of com_machine_id] by simp
    then show ?thesis
      using validate_next_existing [of "mem_history j (com_machine_id c)" c d]
        mem_wf_history [OF a(1), of "com_machine_id c", THEN conjunct1] a(2,3)
      by (simp add: mem_append_def Let_def history_accept_def mem_commits_history)
  qed
qed (simp_all add: mem_append_refused mem_append_wf mem_append_commits)

lemma mem_append_again:
  assumes "mem_wf j" "c \<in> set (mem_commits j (com_machine_id c))" "commit_eq c d" "com_revision d = com_base_revision d + 1"
  shows "\<exists>j'. mem_append d j = (Inr c, j') \<and> mem_commits j' = mem_commits j"
proof -
  obtain j' where j': "mem_append d j = (Inr c, j')"
    using mem.append_again [OF assms(1-3)] by (metis prod.collapse)
  have m: "com_machine_id d = com_machine_id c"
    using arg_cong [OF assms(3) [unfolded commit_eq_def], of com_machine_id] by simp
  have "mem_commits j' \<noteq> (mem_commits j)(com_machine_id d := mem_commits j (com_machine_id d) @ [d])" if "c = d"
  proof
    assume e: "mem_commits j' = (mem_commits j)(com_machine_id d := mem_commits j (com_machine_id d) @ [d])"
    have "mem_wf j'" using mem_append_wf [OF assms(1,4)] j' by simp
    then have "distinct (map com_commit_id (mem_commits j' (com_machine_id d)))"
      using mem_wf_history by (auto simp: mem_commits_history history_wf_def)
    with assms(2) that show False by (auto simp: e)
  qed
  with mem_append_commits [OF assms(1,4) j'] j' show ?thesis by blast
qed

end
