(* ===== verification/DirJournal.thy ===== *)
theory DirJournal
  imports Journal
begin

text \<open>
  The crash-durable journal \<^verbatim>\<open>DirectoryMachineJournal\<close> of \<^verbatim>\<open>kernel/journal.py\<close>.
  A journal file is the list of the documents whose canonical lines it holds (a line that is not the
  canonical encoding of a document is refused by the source, and the encoding is injective); sizes,
  digests and the recovery-anchor tests are taken on the bytes of those lines.  The file identity the
  source compares (size, times, inode) is represented by the content it was recorded for.  File
  handles, interprocess locks and retirement of a journal are outside the model: an append either
  happens completely or the call does not return.
\<close>

section \<open>Lines and the recovery anchor\<close>

definition log_line :: "hostlib \<Rightarrow> json \<Rightarrow> string" where
  "log_line L doc = canonical_bytes L doc @ [CHR 0x0A]"

definition log_bytes :: "hostlib \<Rightarrow> json list \<Rightarrow> string" where
  "log_bytes L docs = concat (map (log_line L) docs)"

text \<open>\<^verbatim>\<open>_decode_line\<close>: type and value errors surface as integrity errors.\<close>

definition line_error :: "py_error \<Rightarrow> py_error" where
  "line_error e = (if e \<in> {TypeError, ValueError, CanonicalEncodingError, DigestValidationError}
     then MachineIntegrityError else e)"

definition decode_line ::
    "hostlib \<Rightarrow> string \<Rightarrow> json option \<Rightarrow> string option \<Rightarrow> json \<Rightarrow> machine_commit res" where
  "decode_line L machine_id previous_state previous_state_digest doc =
     (case decode_commit L doc previous_state previous_state_digest of
        Inl e \<Rightarrow> Inl (line_error e)
      | Inr commit \<Rightarrow> if com_machine_id commit \<noteq> machine_id then Inl MachineIntegrityError else Inr commit)"

text \<open>One line of a replay loop, which threads the history and the previous state and its identity.\<close>

type_synonym scan_state = "history \<times> json option \<times> string option"

definition scan_step :: "hostlib \<Rightarrow> string \<Rightarrow> scan_state \<Rightarrow> json \<Rightarrow> scan_state res" where
  "scan_step L machine_id state doc =
     (case state of (h, previous_state, previous_state_digest) \<Rightarrow>
        res_bind (decode_line L machine_id previous_state previous_state_digest doc) (\<lambda>commit.
        res_bind (history_accept h commit) (\<lambda>accepted.
        Inr (snd accepted, Some (com_state commit), Some (com_state_digest commit)))))"

definition scan_lines :: "hostlib \<Rightarrow> string \<Rightarrow> scan_state \<Rightarrow> json list \<Rightarrow> history res" where
  "scan_lines L machine_id state docs =
     res_bind (res_fold (scan_step L machine_id) state docs) (\<lambda>final. Inr (fst final))"

text \<open>Full replay: a conflict within the file means the file's chain is invalid.\<close>

definition read_full :: "hostlib \<Rightarrow> string \<Rightarrow> json list \<Rightarrow> history res" where
  "read_full L machine_id docs =
     (case scan_lines L machine_id (empty_history, None, None) docs of
        Inl e \<Rightarrow> Inl (if e = MachineConflict then MachineIntegrityError else e)
      | Inr h \<Rightarrow> Inr h)"

text \<open>
  The pattern \<^verbatim>\<open>_JOURNAL_ID_TOKEN\<close>, as the raw bytes literal spells it: after the key, a
  quote, then units that are either two backslashes with one further character (not a newline) or a
  character other than quote and backslash, then a quote.
\<close>

fun match_token :: "string \<Rightarrow> (string \<times> string) option" where
  "match_token [] = None"
| "match_token (c # xs) =
     (if c = CHR 0x22 then Some ([c], xs)
      else if c = CHR 0x5C then
        (case xs of
           c2 # c3 # ys \<Rightarrow>
             if c2 = CHR 0x5C \<and> c3 \<noteq> CHR 0x0A
             then map_option (\<lambda>(t, rest). (c # c2 # c3 # t, rest)) (match_token ys) else None
         | _ \<Rightarrow> None)
      else map_option (\<lambda>(t, rest). (c # t, rest)) (match_token xs))"

definition command_key :: string where
  "command_key = [CHR 0x22] @ ''command_id'' @ [CHR 0x22, CHR '':'', CHR 0x22]"

definition commit_key :: string where
  "commit_key = [CHR 0x22] @ ''commit_id'' @ [CHR 0x22, CHR '':'', CHR 0x22]"

definition match_id :: "string \<Rightarrow> (bool \<times> string \<times> string) option" where
  "match_id text =
     (if take (length command_key) text = command_key
      then map_option (\<lambda>(t, rest). (True, CHR 0x22 # t, rest)) (match_token (drop (length command_key) text))
      else if take (length commit_key) text = commit_key
      then map_option (\<lambda>(t, rest). (False, CHR 0x22 # t, rest)) (match_token (drop (length commit_key) text))
      else None)"

lemma match_token_shorter: "match_token xs = Some (t, rest) \<Longrightarrow> length rest < length xs"
proof (induction xs arbitrary: t rest rule: match_token.induct)
  case (2 c xs)
  then show ?case by (fastforce split: if_splits list.splits)
qed simp

lemma match_id_shorter: "match_id text = Some (k, t, rest) \<Longrightarrow> length rest < length text"
  by (auto simp: match_id_def split: if_splits dest!: match_token_shorter)

text \<open>\<^verbatim>\<open>finditer\<close>: the non-overlapping matches from left to right; \<open>True\<close> marks a command id.\<close>

function id_tokens :: "string \<Rightarrow> (bool \<times> string) list" where
  "id_tokens text =
     (case text of
        [] \<Rightarrow> []
      | c # xs \<Rightarrow>
          (case match_id text of
             Some (k, t, rest) \<Rightarrow> (k, t) # id_tokens rest
           | None \<Rightarrow> id_tokens xs))"
  by pat_completeness auto
termination
  by (relation "measure length") (auto dest: match_id_shorter)

declare id_tokens.simps [simp del]

definition prefix_tokens :: "bool \<Rightarrow> string \<Rightarrow> string list" where
  "prefix_tokens k text = map snd (filter (\<lambda>kt. fst kt = k) (id_tokens text))"

section \<open>Caches\<close>

record journal_cache =
  jc_history :: history
  jc_seen :: "json list option"
  jc_complete :: bool
  jc_command_tokens :: "string list"
  jc_commit_tokens :: "string list"

definition full_cache :: "history \<Rightarrow> json list option \<Rightarrow> journal_cache" where
  "full_cache h seen = \<lparr>jc_history = h, jc_seen = seen, jc_complete = True, jc_command_tokens = [],
     jc_commit_tokens = []\<rparr>"

definition seed_history :: "machine_commit \<Rightarrow> bool \<Rightarrow> history" where
  "seed_history anchor has_emitted =
     \<lparr>hist_commits = [anchor], hist_by_command = [com_command_id anchor \<mapsto> anchor],
      hist_by_commit = [com_commit_id anchor \<mapsto> anchor],
      hist_has_emitted = (has_emitted \<or> com_emitted_commands anchor \<noteq> [])\<rparr>"

text \<open>The lines before and after a byte offset, when the offset falls between two lines.\<close>

fun split_lines :: "hostlib \<Rightarrow> nat \<Rightarrow> json list \<Rightarrow> (json list \<times> json list) option" where
  "split_lines L n docs =
     (if n = 0 then Some ([], docs)
      else case docs of
          [] \<Rightarrow> None
        | doc # rest \<Rightarrow>
            if n < length (log_line L doc) then None
            else map_option (\<lambda>(before, after). (doc # before, after))
              (split_lines L (n - length (log_line L doc)) rest))"

declare split_lines.simps [simp del]

definition anchor_fields :: "string list" where
  "anchor_fields = [''machine_id'', ''prefix_size'', ''prefix_sha256'', ''anchor_commit'', ''has_emitted'']"

definition as_size :: "json \<Rightarrow> nat res" where
  "as_size v = (case v of JInt n \<Rightarrow> if n \<le> 0 then Inl ValueError else Inr (nat n) | _ \<Rightarrow> Inl TypeError)"

definition as_text :: "json \<Rightarrow> string res" where
  "as_text v = (case v of JStr s \<Rightarrow> Inr s | _ \<Rightarrow> Inl TypeError)"

definition as_bool :: "json \<Rightarrow> bool res" where
  "as_bool v = (case v of JBool b \<Rightarrow> Inr b | _ \<Rightarrow> Inl TypeError)"

text \<open>
  \<^verbatim>\<open>_load_recovery_anchor\<close>; every refusal and every caught exception is the answer
  \<open>None\<close>, here an error of the computation below.  An anchor line ends a line of the file, so an
  offset inside a line is refused with it.
\<close>

definition read_anchor ::
    "hostlib \<Rightarrow> int \<Rightarrow> string \<Rightarrow> json list \<Rightarrow> json \<Rightarrow> (machine_commit \<times> bool \<times> nat \<times> json list) res" where
  "read_anchor L interval machine_id docs payload =
     res_bind (require_object payload) (\<lambda>row.
     res_bind (require_exact row anchor_fields) (\<lambda>_.
     res_bind (require (map_of row ''machine_id'' = Some (JStr machine_id)) ValueError) (\<lambda>_.
     res_bind (res_bind (field_of row ''prefix_size'') as_size) (\<lambda>prefix_size.
     res_bind (require (prefix_size \<le> length (log_bytes L docs)) ValueError) (\<lambda>_.
     res_bind (res_bind (field_of row ''prefix_sha256'') as_text) (\<lambda>prefix_sha256.
     res_bind (res_bind (field_of row ''has_emitted'') as_bool) (\<lambda>has_emitted.
     res_bind (res_bind (field_of row ''anchor_commit'') require_object) (\<lambda>anchor_row.
     res_bind (require_sha256 prefix_sha256) (\<lambda>_.
     res_bind (require (sha256_hex L (take prefix_size (log_bytes L docs)) = prefix_sha256) ValueError) (\<lambda>_.
     res_bind (require (map_of anchor_row ''state_encoding'' = Some (JStr ''snapshot'')) ValueError) (\<lambda>_.
     let anchor_line = log_line L (JObj anchor_row) in
     res_bind (require (length anchor_line \<le> prefix_size \<and>
       drop (prefix_size - length anchor_line) (take prefix_size (log_bytes L docs)) = anchor_line) ValueError) (\<lambda>_.
     res_bind (decode_commit L (JObj anchor_row) None None) (\<lambda>anchor.
     res_bind (require (com_machine_id anchor = machine_id \<and> 0 < com_revision anchor \<and>
       com_revision anchor mod interval = 0) ValueError) (\<lambda>_.
     case split_lines L prefix_size docs of
       None \<Rightarrow> Inl ValueError
     | Some (before, tail) \<Rightarrow> Inr (anchor, has_emitted, prefix_size - length anchor_line, tail)))))))))))))))"

definition load_recovery_anchor ::
    "hostlib \<Rightarrow> int \<Rightarrow> string \<Rightarrow> json list \<Rightarrow> json option \<Rightarrow> journal_cache option" where
  "load_recovery_anchor L interval machine_id docs anchor_file =
     (case anchor_file of
        None \<Rightarrow> None
      | Some payload \<Rightarrow>
          (case read_anchor L interval machine_id docs payload of
             Inl _ \<Rightarrow> None
           | Inr (anchor, has_emitted, before_size, tail) \<Rightarrow>
               (case scan_lines L machine_id (seed_history anchor has_emitted, Some (com_state anchor),
                       Some (com_state_digest anchor)) tail of
                  Inl _ \<Rightarrow> None
                | Inr h \<Rightarrow> Some \<lparr>jc_history = h, jc_seen = Some docs, jc_complete = False,
                    jc_command_tokens = prefix_tokens True (take before_size (log_bytes L docs)),
                    jc_commit_tokens = prefix_tokens False (take before_size (log_bytes L docs))\<rparr>)))"

section \<open>The journal of one directory\<close>

record dir_journal =
  dj_interval :: int
  dj_logs :: "string \<rightharpoonup> json list"
  dj_anchors :: "string \<rightharpoonup> json"
  dj_retired :: "string \<Rightarrow> bool"
  dj_cache :: "string \<rightharpoonup> journal_cache"
  dj_index :: "string \<rightharpoonup> string"

definition dir_journal_init :: "int \<Rightarrow> dir_journal res" where
  "dir_journal_init interval =
     (if interval < 1 then Inl ValueError
      else Inr \<lparr>dj_interval = interval, dj_logs = Map.empty, dj_anchors = Map.empty, dj_retired = (\<lambda>_. False),
             dj_cache = Map.empty, dj_index = Map.empty\<rparr>)"

text \<open>A new process over the same directory starts without cache and index.\<close>

definition reopen :: "dir_journal \<Rightarrow> dir_journal" where
  "reopen j = j\<lparr>dj_cache := Map.empty, dj_index := Map.empty\<rparr>"

definition read_authoritative :: "hostlib \<Rightarrow> dir_journal \<Rightarrow> string \<Rightarrow> bool \<Rightarrow> journal_cache res" where
  "read_authoritative L j machine_id force_full =
     (case dj_logs j machine_id of
        None \<Rightarrow> Inr (full_cache empty_history None)
      | Some docs \<Rightarrow>
          (case if force_full then None
                else load_recovery_anchor L (dj_interval j) machine_id docs (dj_anchors j machine_id) of
             Some accelerated \<Rightarrow> Inr accelerated
           | None \<Rightarrow> res_bind (read_full L machine_id docs) (\<lambda>h. Inr (full_cache h (Some docs)))))"

definition index_commit :: "string \<Rightarrow> machine_commit \<Rightarrow> (string \<rightharpoonup> string) \<Rightarrow> (string \<rightharpoonup> string) res" where
  "index_commit machine_id commit index =
     (if index (com_commit_id commit) \<noteq> None \<and> index (com_commit_id commit) \<noteq> Some machine_id
      then Inl MachineIntegrityError else Inr (index(com_commit_id commit \<mapsto> machine_id)))"

text \<open>The entries made before a conflicting one stay in the index.\<close>

fun index_commits :: "string \<Rightarrow> machine_commit list \<Rightarrow> (dir_journal, unit) action" where
  "index_commits machine_id [] j = (Inr (), j)"
| "index_commits machine_id (c # cs) j =
     (case index_commit machine_id c (dj_index j) of
        Inl e \<Rightarrow> (Inl e, j)
      | Inr index \<Rightarrow> index_commits machine_id cs (j\<lparr>dj_index := index\<rparr>))"

definition cache_valid :: "dir_journal \<Rightarrow> string \<Rightarrow> bool \<Rightarrow> journal_cache \<Rightarrow> bool" where
  "cache_valid j machine_id require_full c =
     (jc_seen c = dj_logs j machine_id \<and> (require_full \<longrightarrow> jc_complete c))"

text \<open>A file seen before may only have grown.\<close>

definition check_growth :: "hostlib \<Rightarrow> dir_journal \<Rightarrow> string \<Rightarrow> journal_cache option \<Rightarrow> unit res" where
  "check_growth L j machine_id cached =
     (case cached of
        None \<Rightarrow> Inr ()
      | Some c \<Rightarrow>
          (case jc_seen c of
             None \<Rightarrow> Inr ()
           | Some seen \<Rightarrow>
               (case dj_logs j machine_id of
                  None \<Rightarrow> Inl MachineIntegrityError
                | Some docs \<Rightarrow>
                    require (length (log_bytes L seen) \<le> length (log_bytes L docs)) MachineIntegrityError)))"

definition authoritative_cache :: "hostlib \<Rightarrow> string \<Rightarrow> bool \<Rightarrow> (dir_journal, journal_cache) action" where
  "authoritative_cache L machine_id require_full j =
     (case dj_cache j machine_id of
        Some c \<Rightarrow> if cache_valid j machine_id require_full c then (Inr c, j)
          else (case res_bind (check_growth L j machine_id (Some c))
                       (\<lambda>_. read_authoritative L j machine_id require_full) of
                  Inl e \<Rightarrow> (Inl e, j)
                | Inr rebuilt \<Rightarrow> act_bind (index_commits machine_id (hist_commits (jc_history rebuilt)))
                    (\<lambda>_. act_lift (Inr rebuilt)) (j\<lparr>dj_cache := (dj_cache j)(machine_id \<mapsto> rebuilt)\<rparr>))
      | None \<Rightarrow>
          (case read_authoritative L j machine_id require_full of
             Inl e \<Rightarrow> (Inl e, j)
           | Inr rebuilt \<Rightarrow> act_bind (index_commits machine_id (hist_commits (jc_history rebuilt)))
               (\<lambda>_. act_lift (Inr rebuilt)) (j\<lparr>dj_cache := (dj_cache j)(machine_id \<mapsto> rebuilt)\<rparr>)))"

section \<open>Append\<close>

definition anchor_payload :: "hostlib \<Rightarrow> string \<Rightarrow> json list \<Rightarrow> json \<Rightarrow> bool \<Rightarrow> json" where
  "anchor_payload L machine_id docs anchor_document has_emitted = jobj
     [(''machine_id'', JStr machine_id),
      (''prefix_size'', JInt (int (length (log_bytes L docs)))),
      (''prefix_sha256'', JStr (sha256_hex L (log_bytes L docs))),
      (''anchor_commit'', anchor_document),
      (''has_emitted'', JBool has_emitted)]"

text \<open>\<^verbatim>\<open>_publish_recovery_anchor\<close>; the journal record is already durable when it runs.\<close>

definition publish_anchor ::
    "hostlib \<Rightarrow> machine_commit \<Rightarrow> json \<Rightarrow> json list \<Rightarrow> bool \<Rightarrow> (dir_journal, unit) action" where
  "publish_anchor L commit committed docs has_emitted j =
     (if com_revision commit mod dj_interval j \<noteq> 0 then (Inr (), j)
      else case commit_document commit None True of
          Inl e \<Rightarrow> (Inl e, j)
        | Inr anchor_document \<Rightarrow>
            if log_line L committed \<noteq> log_line L anchor_document then (Inl MachineIntegrityError, j)
            else if \<not> is_sha256 (sha256_hex L (log_bytes L docs)) then (Inl DigestValidationError, j)
            else (Inr (), j\<lparr>dj_anchors := (dj_anchors j)(com_machine_id commit \<mapsto>
              anchor_payload L (com_machine_id commit) docs anchor_document has_emitted)\<rparr>))"

text \<open>The cache an append decides on: a possible duplicate of the accelerated prefix forces a full replay.\<close>

definition append_cache :: "hostlib \<Rightarrow> machine_commit \<Rightarrow> (dir_journal, journal_cache) action" where
  "append_cache L commit =
     act_bind (authoritative_cache L (com_machine_id commit) False) (\<lambda>cached.
     if \<not> jc_complete cached \<and>
        (canonical_bytes L (JStr (com_command_id commit)) \<in> set (jc_command_tokens cached) \<or>
         canonical_bytes L (JStr (com_commit_id commit)) \<in> set (jc_commit_tokens cached))
     then authoritative_cache L (com_machine_id commit) True else act_lift (Inr cached))"

text \<open>The durable part: the record is appended, then the cache, the index and the anchor follow.\<close>

definition append_record ::
    "hostlib \<Rightarrow> machine_commit \<Rightarrow> journal_cache \<Rightarrow> json \<Rightarrow> (dir_journal, machine_commit) action" where
  "append_record L commit cached doc j =
     (let m = com_machine_id commit;
          docs = (case dj_logs j m of None \<Rightarrow> [] | Some ds \<Rightarrow> ds) @ [doc];
          j1 = j\<lparr>dj_logs := (dj_logs j)(m \<mapsto> docs)\<rparr> in
      case history_accept (jc_history cached) commit of
        Inl e \<Rightarrow> (Inl e, j1)
      | Inr (_, h) \<Rightarrow>
          (let cached' = cached\<lparr>jc_history := h, jc_seen := Some docs\<rparr>;
               j2 = j1\<lparr>dj_cache := (dj_cache j1)(m \<mapsto> cached')\<rparr> in
           act_bind (index_commits m [commit]) (\<lambda>_.
           act_bind (publish_anchor L commit doc docs (hist_has_emitted h)) (\<lambda>_. act_lift (Inr commit))) j2))"

definition dir_append :: "hostlib \<Rightarrow> machine_commit \<Rightarrow> (dir_journal, machine_commit) action" where
  "dir_append L commit j =
     (if dj_retired j (com_machine_id commit) then (Inl MachineConflict, j)
      else act_bind (append_cache L commit) (\<lambda>cached j1.
        case validate_next (jc_history cached) commit of
          Inl e \<Rightarrow> (Inl e, j1)
        | Inr (Some existing) \<Rightarrow> (Inr existing, j1)
        | Inr None \<Rightarrow>
            (let previous_state = map_option com_state (latest_of (hist_commits (jc_history cached)));
                 force_snapshot = (previous_state = None \<or> com_revision commit mod dj_interval j1 = 0) in
             case commit_document commit previous_state force_snapshot of
               Inl e \<Rightarrow> (Inl e, j1)
             | Inr doc \<Rightarrow> append_record L commit cached doc j1)) j)"

section \<open>Queries\<close>

definition project_history ::
    "hostlib \<Rightarrow> string \<Rightarrow> (history \<Rightarrow> 'a) \<Rightarrow> bool \<Rightarrow> (dir_journal, 'a) action" where
  "project_history L machine_id projector require_full j =
     (if \<not> nonblank machine_id then (Inl ValueError, j)
      else if dj_retired j machine_id then (Inl MachineIntegrityError, j)
      else act_bind (authoritative_cache L machine_id require_full)
        (\<lambda>c. act_lift (Inr (projector (jc_history c)))) j)"

definition dir_commits :: "hostlib \<Rightarrow> string \<Rightarrow> (dir_journal, machine_commit list) action" where
  "dir_commits L machine_id = project_history L machine_id hist_commits True"

definition dir_head :: "hostlib \<Rightarrow> string \<Rightarrow> (dir_journal, machine_commit option \<times> bool) action" where
  "dir_head L machine_id =
     project_history L machine_id (\<lambda>h. (latest_of (hist_commits h), hist_has_emitted h)) False"

definition dir_latest :: "hostlib \<Rightarrow> string \<Rightarrow> (dir_journal, machine_commit option) action" where
  "dir_latest L machine_id = act_bind (dir_head L machine_id) (\<lambda>h. act_lift (Inr (fst h)))"

definition dir_has_emitted_commands :: "hostlib \<Rightarrow> string \<Rightarrow> (dir_journal, bool) action" where
  "dir_has_emitted_commands L machine_id = project_history L machine_id hist_has_emitted False"

definition dir_command_commit :: "hostlib \<Rightarrow> string \<Rightarrow> string \<Rightarrow> (dir_journal, machine_commit option) action" where
  "dir_command_commit L machine_id command_id j =
     (if \<not> nonblank machine_id then (Inl ValueError, j)
      else if \<not> nonblank command_id then (Inl ValueError, j)
      else if dj_retired j machine_id then (Inl MachineIntegrityError, j)
      else act_bind (authoritative_cache L machine_id False) (\<lambda>cached.
        case hist_by_command (jc_history cached) command_id of
          Some c \<Rightarrow> act_lift (Inr (Some c))
        | None \<Rightarrow>
            if jc_complete cached \<or> canonical_bytes L (JStr command_id) \<notin> set (jc_command_tokens cached)
            then act_lift (Inr None)
            else act_bind (authoritative_cache L machine_id True)
              (\<lambda>full. act_lift (Inr (hist_by_command (jc_history full) command_id)))) j)"

text \<open>\<^verbatim>\<open>_get_commit_from_machine\<close>.\<close>

definition dir_get_from :: "hostlib \<Rightarrow> string \<Rightarrow> string \<Rightarrow> (dir_journal, machine_commit option) action" where
  "dir_get_from L machine_id commit_id j =
     (if dj_retired j machine_id then (Inr None, j)
      else act_bind (authoritative_cache L machine_id False) (\<lambda>cached.
        case hist_by_commit (jc_history cached) commit_id of
          Some c \<Rightarrow> act_bind (index_commits machine_id [c]) (\<lambda>_. act_lift (Inr (Some c)))
        | None \<Rightarrow>
            if jc_complete cached \<or> canonical_bytes L (JStr commit_id) \<notin> set (jc_commit_tokens cached)
            then act_lift (Inr None)
            else act_bind (authoritative_cache L machine_id True) (\<lambda>full.
              case hist_by_commit (jc_history full) commit_id of
                None \<Rightarrow> act_lift (Inr None)
              | Some c \<Rightarrow> act_bind (index_commits machine_id [c]) (\<lambda>_. act_lift (Inr (Some c))))) j)"

end
