(* ===== verification/Delivery.thy ===== *)
theory Delivery
  imports Machine "HOL-Library.AList"
begin

text \<open>
  Cross-machine delivery of \<^verbatim>\<open>kernel/delivery.py\<close>: envelopes, receipts and their monotone
  transition rule, the in-memory outbox and the receiver's inbox.  The outbox dictionary of
  envelopes keeps insertion order (an assignment to a present key keeps its place), which is the
  order \<^verbatim>\<open>pending\<close> reports.
\<close>

section \<open>Envelopes and receipts\<close>

record envelope =
  env_source_machine_id :: string
  env_source_commit_id :: string
  env_command :: machine_command
  env_id :: string
  env_digest :: string

definition envelope_post_init :: "hostlib \<Rightarrow> envelope \<Rightarrow> envelope res" where
  "envelope_post_init L self =
     res_bind (require (nonblank (env_source_machine_id self)) ValueError) (\<lambda>_.
     res_bind (require (nonblank (env_source_commit_id self)) ValueError) (\<lambda>_.
     let self1 = self\<lparr>env_id := canonical_digest L (jobj
           [(''source_machine_id'', JStr (env_source_machine_id self)),
            (''source_commit_id'', JStr (env_source_commit_id self)),
            (''command_id'', JStr (cmd_command_id (env_command self))),
            (''command_digest'', JStr (cmd_payload_digest (env_command self)))])\<rparr> in
     Inr (self1\<lparr>env_digest := canonical_digest L (jobj
           [(''envelope_id'', JStr (env_id self1)),
            (''source_machine_id'', JStr (env_source_machine_id self1)),
            (''source_commit_id'', JStr (env_source_commit_id self1)),
            (''command'', command_json (env_command self1))])\<rparr>)))"

definition mk_envelope :: "hostlib \<Rightarrow> machine_commit \<Rightarrow> machine_command \<Rightarrow> envelope res" where
  "mk_envelope L commit command = envelope_post_init L
     \<lparr>env_source_machine_id = com_machine_id commit, env_source_commit_id = com_commit_id commit,
      env_command = command, env_id = [], env_digest = []\<rparr>"

datatype delivery_status = DS_PENDING | DS_DELIVERED | DS_FAILED | DS_UNKNOWN

fun delivery_status_value :: "delivery_status \<Rightarrow> string" where
  "delivery_status_value DS_PENDING = ''pending''"
| "delivery_status_value DS_DELIVERED = ''delivered''"
| "delivery_status_value DS_FAILED = ''failed''"
| "delivery_status_value DS_UNKNOWN = ''unknown''"

record receipt =
  rcp_envelope_id :: string
  rcp_envelope_digest :: string
  rcp_status :: delivery_status
  rcp_attempt :: int
  rcp_detail :: "string option"
  rcp_digest :: string

definition receipt_post_init :: "hostlib \<Rightarrow> receipt \<Rightarrow> receipt res" where
  "receipt_post_init L self =
     res_bind (require (nonblank (rcp_envelope_id self)) ValueError) (\<lambda>_.
     res_bind (require (nonblank (rcp_envelope_digest self)) ValueError) (\<lambda>_.
     res_bind (require (0 \<le> rcp_attempt self) ValueError) (\<lambda>_.
     Inr (self\<lparr>rcp_digest := canonical_digest L (jobj
       [(''envelope_id'', JStr (rcp_envelope_id self)),
        (''envelope_digest'', JStr (rcp_envelope_digest self)),
        (''status'', JStr (delivery_status_value (rcp_status self))),
        (''attempt'', JInt (rcp_attempt self)),
        (''detail'', jopt_str (rcp_detail self))])\<rparr>))))"

definition require_delivery_receipt_transition :: "receipt \<Rightarrow> receipt \<Rightarrow> receipt res" where
  "require_delivery_receipt_transition current candidate =
     (if rcp_envelope_id candidate \<noteq> rcp_envelope_id current \<or>
         rcp_envelope_digest candidate \<noteq> rcp_envelope_digest current then Inl MachineConflict
      else if candidate = current then Inr current
      else if rcp_status current = DS_DELIVERED then Inl MachineConflict
      else if rcp_attempt candidate < rcp_attempt current then Inl MachineConflict
      else if rcp_attempt candidate = rcp_attempt current then
        (if rcp_status current = DS_UNKNOWN \<and> rcp_status candidate \<in> {DS_DELIVERED, DS_FAILED}
         then Inr candidate else Inl MachineConflict)
      else Inr candidate)"

section \<open>The outbox\<close>

record outbox =
  out_envelopes :: "(string \<times> envelope) list"
  out_receipts :: "string \<rightharpoonup> receipt"

definition empty_outbox :: outbox where
  "empty_outbox = \<lparr>out_envelopes = [], out_receipts = Map.empty\<rparr>"

definition pending_receipt :: "hostlib \<Rightarrow> envelope \<Rightarrow> receipt res" where
  "pending_receipt L envelope = receipt_post_init L
     \<lparr>rcp_envelope_id = env_id envelope, rcp_envelope_digest = env_digest envelope,
      rcp_status = DS_PENDING, rcp_attempt = 0, rcp_detail = None, rcp_digest = []\<rparr>"

definition prior_differs :: "outbox \<Rightarrow> envelope \<Rightarrow> bool" where
  "prior_differs ob envelope = (case map_of (out_envelopes ob) (env_id envelope) of
      None \<Rightarrow> False | Some prior \<Rightarrow> env_digest prior \<noteq> env_digest envelope)"

text \<open>One iteration of the loop of \<^verbatim>\<open>enqueue\<close>; the receipt is entered with \<^verbatim>\<open>setdefault\<close>.\<close>

definition enqueue_one :: "hostlib \<Rightarrow> machine_commit \<Rightarrow> machine_command \<Rightarrow> (outbox, envelope) action" where
  "enqueue_one L commit command ob =
     (case mk_envelope L commit command of
        Inl e \<Rightarrow> (Inl e, ob)
      | Inr envelope \<Rightarrow>
          if prior_differs ob envelope then (Inl MachineConflict, ob)
          else (let ob1 = ob\<lparr>out_envelopes := AList.update (env_id envelope) envelope (out_envelopes ob)\<rparr> in
            case pending_receipt L envelope of
              Inl e \<Rightarrow> (Inl e, ob1)
            | Inr pending \<Rightarrow> (Inr envelope,
                if out_receipts ob1 (env_id envelope) = None
                then ob1\<lparr>out_receipts := (out_receipts ob1)(env_id envelope \<mapsto> pending)\<rparr> else ob1)))"

fun act_map :: "('a \<Rightarrow> ('s, 'b) action) \<Rightarrow> 'a list \<Rightarrow> ('s, 'b list) action" where
  "act_map f [] s = (Inr [], s)"
| "act_map f (x # xs) s = act_bind (f x) (\<lambda>y. act_bind (act_map f xs) (\<lambda>ys. act_lift (Inr (y # ys)))) s"

definition outbox_enqueue :: "hostlib \<Rightarrow> machine_commit \<Rightarrow> (outbox, envelope list) action" where
  "outbox_enqueue L commit = act_map (enqueue_one L commit) (com_emitted_commands commit)"

definition outbox_pending :: "outbox \<Rightarrow> envelope list res" where
  "outbox_pending ob =
     res_bind (res_map (\<lambda>envelope. case out_receipts ob (env_id envelope) of
         None \<Rightarrow> Inl KeyError
       | Some r \<Rightarrow> Inr (envelope, rcp_status r)) (map snd (out_envelopes ob))) (\<lambda>rows.
     Inr (map fst (filter (\<lambda>row. snd row \<in> {DS_PENDING, DS_UNKNOWN, DS_FAILED}) rows)))"

definition outbox_mark :: "receipt \<Rightarrow> (outbox, receipt) action" where
  "outbox_mark receipt ob =
     (case map_of (out_envelopes ob) (rcp_envelope_id receipt) of
        None \<Rightarrow> (Inl KeyError, ob)
      | Some envelope \<Rightarrow>
          if env_digest envelope \<noteq> rcp_envelope_digest receipt then (Inl MachineConflict, ob)
          else case out_receipts ob (rcp_envelope_id receipt) of
              None \<Rightarrow> (Inl KeyError, ob)
            | Some current \<Rightarrow>
                (case require_delivery_receipt_transition current receipt of
                   Inl e \<Rightarrow> (Inl e, ob)
                 | Inr accepted \<Rightarrow>
                     (Inr accepted, ob\<lparr>out_receipts := (out_receipts ob)(rcp_envelope_id receipt \<mapsto> accepted)\<rparr>)))"

definition outbox_reconcile :: "hostlib \<Rightarrow> machine_commit list \<Rightarrow> (outbox, envelope list) action" where
  "outbox_reconcile L commits ob =
     (case act_map (outbox_enqueue L) commits ob of (r, ob') \<Rightarrow> (res_bind r (\<lambda>ess. Inr (concat ess)), ob'))"

section \<open>The inbox\<close>

type_synonym inbox = "string \<rightharpoonup> envelope"

definition inbox_accept :: "envelope \<Rightarrow> (inbox, bool) action" where
  "inbox_accept envelope ib =
     (case ib (env_id envelope) of
        Some prior \<Rightarrow> if env_digest prior \<noteq> env_digest envelope then (Inl MachineConflict, ib) else (Inr False, ib)
      | None \<Rightarrow> (Inr True, ib(env_id envelope \<mapsto> envelope)))"

definition inbox_contains :: "inbox \<Rightarrow> string \<Rightarrow> bool res" where
  "inbox_contains ib envelope_id = (if nonblank envelope_id then Inr (ib envelope_id \<noteq> None) else Inl ValueError)"

section \<open>Receipts only gain knowledge\<close>

definition receipt_le :: "receipt \<Rightarrow> receipt \<Rightarrow> bool" where
  "receipt_le a b =
     (a = b \<or> rcp_envelope_id a = rcp_envelope_id b \<and> rcp_envelope_digest a = rcp_envelope_digest b \<and>
        rcp_status a \<noteq> DS_DELIVERED \<and>
        (rcp_attempt a < rcp_attempt b \<or>
         rcp_attempt a = rcp_attempt b \<and> rcp_status a = DS_UNKNOWN \<and> rcp_status b \<in> {DS_DELIVERED, DS_FAILED}))"

lemma receipt_transition_le:
  "require_delivery_receipt_transition current candidate = Inr r \<Longrightarrow> receipt_le current r \<and> r = candidate"
  by (auto simp: require_delivery_receipt_transition_def receipt_le_def split: if_splits)

lemma receipt_le_refl: "receipt_le a a"
  by (simp add: receipt_le_def)

lemma receipt_le_trans: "receipt_le a b \<Longrightarrow> receipt_le b c \<Longrightarrow> receipt_le a c"
  by (auto simp: receipt_le_def)

lemma receipt_le_antisym: "receipt_le a b \<Longrightarrow> receipt_le b a \<Longrightarrow> a = b"
  by (auto simp: receipt_le_def)

section \<open>The outbox invariant\<close>

definition outbox_wf :: "outbox \<Rightarrow> bool" where
  "outbox_wf ob =
     (distinct (map fst (out_envelopes ob)) \<and>
      (\<forall>(k, e) \<in> set (out_envelopes ob). env_id e = k) \<and>
      (\<forall>k e. map_of (out_envelopes ob) k = Some e \<longrightarrow>
         (\<exists>r. out_receipts ob k = Some r \<and> rcp_envelope_id r = k \<and> rcp_envelope_digest r = env_digest e)) \<and>
      (\<forall>k. out_receipts ob k \<noteq> None \<longrightarrow> map_of (out_envelopes ob) k \<noteq> None))"

text \<open>\<open>outbox_le\<close>: no envelope is lost and every receipt only moves forward.\<close>

definition outbox_le :: "outbox \<Rightarrow> outbox \<Rightarrow> bool" where
  "outbox_le a b =
     ((\<forall>k e. map_of (out_envelopes a) k = Some e \<longrightarrow>
         (\<exists>e'. map_of (out_envelopes b) k = Some e' \<and> env_digest e' = env_digest e)) \<and>
      (\<forall>k r. out_receipts a k = Some r \<longrightarrow> (\<exists>r'. out_receipts b k = Some r' \<and> receipt_le r r')))"

lemma outbox_le_refl: "outbox_le a a"
  by (simp add: outbox_le_def receipt_le_refl)

lemma outbox_le_trans:
  assumes "outbox_le a b" "outbox_le b c"
  shows "outbox_le a c"
proof -
  have "\<exists>e''. map_of (out_envelopes c) k = Some e'' \<and> env_digest e'' = env_digest e"
    if "map_of (out_envelopes a) k = Some e" for k e
    using assms that unfolding outbox_le_def by (elim conjE) fastforce
  moreover have "\<exists>r''. out_receipts c k = Some r'' \<and> receipt_le r r''" if "out_receipts a k = Some r" for k r
    using assms that unfolding outbox_le_def by (elim conjE) (blast intro: receipt_le_trans)
  ultimately show ?thesis unfolding outbox_le_def by blast
qed

lemma outbox_wf_empty: "outbox_wf empty_outbox"
  by (simp add: outbox_wf_def empty_outbox_def)

lemma mk_envelope_Inr:
  "mk_envelope L commit command = Inr e \<Longrightarrow>
     env_source_machine_id e = com_machine_id commit \<and> env_source_commit_id e = com_commit_id commit \<and> env_command e = command"
  by (auto simp: mk_envelope_def envelope_post_init_def res_simps Let_def)

lemma pending_receipt_Inr:
  "pending_receipt L e = Inr r \<Longrightarrow>
     rcp_envelope_id r = env_id e \<and> rcp_envelope_digest r = env_digest e \<and> rcp_status r = DS_PENDING \<and> rcp_attempt r = 0"
  by (auto simp: pending_receipt_def receipt_post_init_def res_simps)

text \<open>The digest the host library returns is a SHA-256 text.\<close>

abbreviation sha_ok :: "hostlib \<Rightarrow> bool" where
  "sha_ok L \<equiv> \<forall>x. is_sha256 (sha256_hex L x)"

lemma canonical_digest_sha256: "sha_ok L \<Longrightarrow> is_sha256 (canonical_digest L v)"
  by (simp add: canonical_digest_def)

lemma mk_envelope_digests:
  "sha_ok L \<Longrightarrow> mk_envelope L commit command = Inr e \<Longrightarrow> is_sha256 (env_id e) \<and> is_sha256 (env_digest e)"
  by (auto simp: mk_envelope_def envelope_post_init_def res_simps Let_def canonical_digest_sha256)

lemma pending_receipt_ok: "is_sha256 (env_id e) \<Longrightarrow> is_sha256 (env_digest e) \<Longrightarrow> \<exists>r. pending_receipt L e = Inr r"
  by (simp add: pending_receipt_def receipt_post_init_def is_sha256_nonblank)

lemma enqueue_one_effect:
  assumes "sha_ok L" "outbox_wf ob" "enqueue_one L commit command ob = (r, ob')"
  shows "(\<exists>e. r = Inl e \<and> ob' = ob) \<or>
    (\<exists>e p. r = Inr e \<and> mk_envelope L commit command = Inr e \<and> pending_receipt L e = Inr p \<and> \<not> prior_differs ob e \<and>
      out_envelopes ob' = AList.update (env_id e) e (out_envelopes ob) \<and>
      out_receipts ob' = (if out_receipts ob (env_id e) = None then (out_receipts ob)(env_id e \<mapsto> p) else out_receipts ob))"
proof (cases "mk_envelope L commit command")
  case (Inl e)
  with assms(3) have "r = Inl e" "ob' = ob" by (simp_all add: enqueue_one_def)
  then show ?thesis by blast
next
  case (Inr e)
  obtain p where "pending_receipt L e = Inr p"
    using pending_receipt_ok mk_envelope_digests [OF assms(1) Inr] by blast
  with assms(3) Inr show ?thesis by (auto simp: enqueue_one_def Let_def split: if_splits)
qed

lemma map_of_alist_update: "map_of (AList.update k v al) = (map_of al)(k \<mapsto> v)"
  by (rule AList.update_conv')

lemma alist_update_keyed:
  "(\<forall>(k, e) \<in> set al. f e = k) \<Longrightarrow> \<forall>(k, e) \<in> set (AList.update (f x) x al). f e = k"
  by (induction al) auto

lemma enqueue_one_wf_le:
  assumes "sha_ok L" "outbox_wf ob" "enqueue_one L commit command ob = (r, ob')"
  shows "outbox_wf ob' \<and> outbox_le ob ob'"
  using enqueue_one_effect [OF assms]
proof (elim disjE exE conjE)
  fix e p assume e: "pending_receipt L e = Inr p" "\<not> prior_differs ob e"
    and ob': "out_envelopes ob' = AList.update (env_id e) e (out_envelopes ob)"
      "out_receipts ob' = (if out_receipts ob (env_id e) = None then (out_receipts ob)(env_id e \<mapsto> p) else out_receipts ob)"
  note wf = assms(2) [unfolded outbox_wf_def]
  have same: "env_digest e' = env_digest e" if "map_of (out_envelopes ob) (env_id e) = Some e'" for e'
    using e(2) that by (simp add: prior_differs_def)
  have rec: "\<exists>r. out_receipts ob' k = Some r \<and> rcp_envelope_id r = k \<and> rcp_envelope_digest r = env_digest x"
    if "map_of (out_envelopes ob') k = Some x" for k x
  proof (cases "k = env_id e")
    case True
    then have "x = e" using that by (simp add: ob' map_of_alist_update)
    show ?thesis
    proof (cases "out_receipts ob (env_id e)")
      case None
      then show ?thesis using pending_receipt_Inr [OF e(1)] True \<open>x = e\<close> by (simp add: ob')
    next
      case (Some q)
      then obtain e' where "map_of (out_envelopes ob) (env_id e) = Some e'" using wf by blast
      with wf same have "\<exists>r. out_receipts ob (env_id e) = Some r \<and> rcp_envelope_id r = env_id e \<and> rcp_envelope_digest r = env_digest e"
        by metis
      then show ?thesis using True \<open>x = e\<close> by (auto simp: ob')
    qed
  next
    case False
    then have "map_of (out_envelopes ob) k = Some x" using that by (simp add: ob' map_of_alist_update)
    with wf False show ?thesis by (simp add: ob')
  qed
  have "outbox_wf ob'"
    unfolding outbox_wf_def
  proof (intro conjI allI impI)
    show "distinct (map fst (out_envelopes ob'))" using wf by (simp add: ob' AList.distinct_update)
    show "\<forall>(k, e) \<in> set (out_envelopes ob'). env_id e = k"
      unfolding ob' using wf by (intro alist_update_keyed) blast
    show "map_of (out_envelopes ob') k \<noteq> None" if "out_receipts ob' k \<noteq> None" for k
      using that wf by (auto simp: ob' map_of_alist_update split: if_splits)
  qed (rule rec)
  moreover have "outbox_le ob ob'"
    unfolding outbox_le_def using same by (auto simp: ob' map_of_alist_update receipt_le_refl)
  ultimately show ?thesis ..
qed (use assms(2) in \<open>simp_all add: outbox_le_refl\<close>)

section \<open>Loops over the outbox\<close>

lemma act_map_invariant:
  assumes step: "\<And>x s r s'. I s \<Longrightarrow> f x s = (r, s') \<Longrightarrow> I s' \<and> R s s'"
    and refl: "\<And>s. R s s" and trans: "\<And>a b c. R a b \<Longrightarrow> R b c \<Longrightarrow> R a c"
  shows "I s \<Longrightarrow> act_map f xs s = (r, s') \<Longrightarrow> I s' \<and> R s s'"
proof (induction xs arbitrary: s r s')
  case Nil
  then show ?case by (auto simp: refl)
next
  case (Cons x xs)
  obtain r1 s1 where x: "f x s = (r1, s1)" by force
  have s1: "I s1" "R s s1" using step [OF Cons.prems(1) x] by auto
  show ?case
  proof (cases r1)
    case (Inl e)
    with Cons.prems(2) x s1 show ?thesis by (simp add: act_bind_def)
  next
    case (Inr y)
    obtain r2 s2 where rest: "act_map f xs s1 = (r2, s2)" by force
    have "I s2 \<and> R s1 s2" by (rule Cons.IH [OF s1(1) rest])
    moreover have "s' = s2"
      using Cons.prems(2) x Inr rest by (auto simp: act_bind_def act_lift_def split: sum.splits)
    ultimately show ?thesis using s1(2) trans by blast
  qed
qed

text \<open>What each iteration establishes and no later one undoes holds of every element at the end.\<close>

lemma act_map_results:
  assumes step: "\<And>x s y s'. I s \<Longrightarrow> f x s = (Inr y, s') \<Longrightarrow> I s' \<and> P x y s'"
    and stable: "\<And>x y s z t w. P x y s \<Longrightarrow> I s \<Longrightarrow> f w s = (Inr z, t) \<Longrightarrow> P x y t"
  shows "I s \<Longrightarrow> act_map f xs s = (Inr ys, s') \<Longrightarrow>
    list_all2 (\<lambda>x y. P x y s') xs ys \<and> (\<forall>x y. P x y s \<longrightarrow> P x y s')"
proof (induction xs arbitrary: s ys)
  case (Cons x xs)
  from Cons.prems(2) obtain y s1 zs where x: "f x s = (Inr y, s1)" and rest: "act_map f xs s1 = (Inr zs, s')"
    and ys: "ys = y # zs"
    by (auto simp: act_bind_eq_Inr act_lift_def)
  have s1: "I s1" "P x y s1" using step [OF Cons.prems(1) x] by auto
  have "list_all2 (\<lambda>x y. P x y s') xs zs \<and> (\<forall>x y. P x y s1 \<longrightarrow> P x y s')"
    by (rule Cons.IH [OF s1(1) rest])
  moreover have "\<forall>u v. P u v s \<longrightarrow> P u v s1" using stable [OF _ Cons.prems(1) x] by blast
  ultimately show ?case using s1 by (simp add: ys)
qed auto

lemma outbox_enqueue_wf_le:
  assumes "sha_ok L" "outbox_wf ob" "outbox_enqueue L commit ob = (r, ob')"
  shows "outbox_wf ob' \<and> outbox_le ob ob'"
  using act_map_invariant [of outbox_wf "enqueue_one L commit" outbox_le, OF _ _ _ assms(2)
      assms(3) [unfolded outbox_enqueue_def]] enqueue_one_wf_le [OF assms(1)] outbox_le_refl outbox_le_trans
  by blast

lemma outbox_reconcile_wf_le:
  assumes "sha_ok L" "outbox_wf ob" "outbox_reconcile L commits ob = (r, ob')"
  shows "outbox_wf ob' \<and> outbox_le ob ob'"
proof -
  obtain r' where "act_map (outbox_enqueue L) commits ob = (r', ob')"
    using assms(3) by (auto simp: outbox_reconcile_def split: prod.splits)
  from act_map_invariant [of outbox_wf "outbox_enqueue L" outbox_le, OF _ _ _ assms(2) this]
  show ?thesis using outbox_enqueue_wf_le [OF assms(1)] outbox_le_refl outbox_le_trans by blast
qed

lemma outbox_mark_wf_le:
  assumes "outbox_wf ob" "outbox_mark receipt ob = (r, ob')"
  shows "outbox_wf ob' \<and> outbox_le ob ob'"
proof (cases "ob' = ob")
  case True
  then show ?thesis using assms(1) by (simp add: outbox_le_refl)
next
  case False
  with assms(2) obtain e current acc where e: "map_of (out_envelopes ob) (rcp_envelope_id receipt) = Some e"
    "env_digest e = rcp_envelope_digest receipt" "out_receipts ob (rcp_envelope_id receipt) = Some current"
    "require_delivery_receipt_transition current receipt = Inr acc"
    and ob': "ob' = ob\<lparr>out_receipts := (out_receipts ob)(rcp_envelope_id receipt \<mapsto> acc)\<rparr>"
    by (auto simp: outbox_mark_def split: option.splits if_splits sum.splits) metis
  have "receipt_le current receipt" "acc = receipt" using receipt_transition_le [OF e(4)] by auto
  note acc = this
  have "outbox_wf ob'"
    using assms(1) e(1,2) unfolding outbox_wf_def ob' acc(2)
    by (simp del: map_of_eq_Some_iff)
  moreover have "outbox_le ob ob'"
    using e(3) acc(1) by (simp add: outbox_le_def ob' acc(2) receipt_le_refl)
  ultimately show ?thesis ..
qed

section \<open>No emitted command is lost\<close>

text \<open>The envelope of a command is in the outbox, and pending unless it was delivered.\<close>

definition enqueued :: "outbox \<Rightarrow> envelope \<Rightarrow> bool" where
  "enqueued ob e = (\<exists>e'. map_of (out_envelopes ob) (env_id e) = Some e' \<and> env_digest e' = env_digest e)"

lemma enqueued_mono: "outbox_le a b \<Longrightarrow> enqueued a e \<Longrightarrow> enqueued b e"
  unfolding enqueued_def outbox_le_def by fastforce

lemma enqueue_one_enqueued:
  assumes "sha_ok L" "outbox_wf ob" "enqueue_one L commit command ob = (Inr e, ob')"
  shows "mk_envelope L commit command = Inr e \<and> enqueued ob' e"
  using enqueue_one_effect [OF assms] by (auto simp: enqueued_def map_of_alist_update)

lemma outbox_enqueue_enqueued:
  assumes "sha_ok L" "outbox_wf ob" "outbox_enqueue L commit ob = (Inr es, ob')"
  shows "list_all2 (\<lambda>command e. mk_envelope L commit command = Inr e \<and> enqueued ob' e) (com_emitted_commands commit) es"
  using act_map_results [of outbox_wf "enqueue_one L commit"
      "\<lambda>command e ob. mk_envelope L commit command = Inr e \<and> enqueued ob e", OF _ _ assms(2)
      assms(3) [unfolded outbox_enqueue_def]]
    enqueue_one_enqueued [OF assms(1)] enqueue_one_wf_le [OF assms(1)] enqueued_mono
  by blast

lemma outbox_pending_ok:
  assumes "outbox_wf ob"
  shows "\<exists>es. outbox_pending ob = Inr es \<and>
    (\<forall>e. e \<in> set es \<longleftrightarrow> map_of (out_envelopes ob) (env_id e) = Some e \<and>
      (\<exists>r. out_receipts ob (env_id e) = Some r \<and> rcp_status r \<noteq> DS_DELIVERED))"
proof -
  note wf = assms [unfolded outbox_wf_def]
  have rows: "res_map (\<lambda>envelope. case out_receipts ob (env_id envelope) of
         None \<Rightarrow> Inl KeyError | Some r \<Rightarrow> Inr (envelope, rcp_status r)) (map snd (out_envelopes ob)) =
      Inr (map (\<lambda>envelope. (envelope, rcp_status (the (out_receipts ob (env_id envelope))))) (map snd (out_envelopes ob)))"
  proof (rule res_map_all_Inr)
    fix e assume "e \<in> set (map snd (out_envelopes ob))"
    then obtain k where "(k, e) \<in> set (out_envelopes ob)" by auto
    with wf have "map_of (out_envelopes ob) (env_id e) = Some e" by auto
    with wf obtain r where "out_receipts ob (env_id e) = Some r" by blast
    then show "(case out_receipts ob (env_id e) of None \<Rightarrow> Inl KeyError | Some r \<Rightarrow> Inr (e, rcp_status r)) =
        Inr (e, rcp_status (the (out_receipts ob (env_id e))))" by simp
  qed
  have mem: "e \<in> snd ` set (out_envelopes ob) \<longleftrightarrow> map_of (out_envelopes ob) (env_id e) = Some e" for e
    using wf by (force dest: map_of_SomeD)
  have st: "(s = DS_PENDING \<or> s = DS_UNKNOWN \<or> s = DS_FAILED) \<longleftrightarrow> s \<noteq> DS_DELIVERED" for s
    by (cases s) simp_all
  have some: "\<exists>r. out_receipts ob (env_id e) = Some r" if "map_of (out_envelopes ob) (env_id e) = Some e" for e
    using wf that by blast
  have "(e \<in> snd ` set (out_envelopes ob) \<and> rcp_status (the (out_receipts ob (env_id e))) \<noteq> DS_DELIVERED) \<longleftrightarrow>
      map_of (out_envelopes ob) (env_id e) = Some e \<and>
      (\<exists>r. out_receipts ob (env_id e) = Some r \<and> rcp_status r \<noteq> DS_DELIVERED)" for e
    unfolding mem using some by fastforce
  then show ?thesis
    unfolding outbox_pending_def rows by (simp add: st filter_map comp_def) (simp add: image_iff Bex_def)
qed

section \<open>The outbox interface\<close>

text \<open>What the executor and the repair of commit/enqueue gaps rely on.\<close>

locale command_outbox =
  fixes oinv :: "'o \<Rightarrow> bool"
    and ole :: "'o \<Rightarrow> 'o \<Rightarrow> bool"
    and oenqueue :: "machine_commit \<Rightarrow> 'o \<Rightarrow> envelope list res \<times> 'o"
    and ohas :: "'o \<Rightarrow> envelope \<Rightarrow> bool"
    and omake :: "machine_commit \<Rightarrow> machine_command \<Rightarrow> envelope res"
  assumes ole_refl: "ole s s"
    and ole_trans: "ole s t \<Longrightarrow> ole t u \<Longrightarrow> ole s u"
    and ohas_mono: "ole s t \<Longrightarrow> ohas s e \<Longrightarrow> ohas t e"
    and enqueue_step: "oinv s \<Longrightarrow> oenqueue c s = (r, s') \<Longrightarrow> oinv s' \<and> ole s s'"
    and enqueue_has: "oinv s \<Longrightarrow> oenqueue c s = (Inr es, s') \<Longrightarrow>
      list_all2 (\<lambda>command e. omake c command = Inr e \<and> ohas s' e) (com_emitted_commands c) es"
begin

lemma reconcile_step: "oinv s \<Longrightarrow> act_map oenqueue cs s = (r, s') \<Longrightarrow> oinv s' \<and> ole s s'"
  by (rule act_map_invariant [of oinv oenqueue ole]) (auto intro: ole_refl ole_trans dest: enqueue_step)

lemma reconcile_has:
  assumes "oinv s" "act_map oenqueue cs s = (Inr ess, s')"
  shows "list_all2 (\<lambda>c es. list_all2 (\<lambda>command e. omake c command = Inr e \<and> ohas s' e) (com_emitted_commands c) es) cs ess"
proof -
  have "list_all2 (\<lambda>c es. list_all2 (\<lambda>command e. omake c command = Inr e \<and> ohas s' e) (com_emitted_commands c) es) cs ess \<and>
    (\<forall>c es. list_all2 (\<lambda>command e. omake c command = Inr e \<and> ohas s e) (com_emitted_commands c) es \<longrightarrow>
      list_all2 (\<lambda>command e. omake c command = Inr e \<and> ohas s' e) (com_emitted_commands c) es)"
  proof (rule act_map_results [of oinv oenqueue
        "\<lambda>c es s. list_all2 (\<lambda>command e. omake c command = Inr e \<and> ohas s e) (com_emitted_commands c) es", OF _ _ assms])
    fix c s es s' assume "oinv s" "oenqueue c s = (Inr es, s')"
    then show "oinv s' \<and> list_all2 (\<lambda>command e. omake c command = Inr e \<and> ohas s' e) (com_emitted_commands c) es"
      using enqueue_step enqueue_has by blast
  next
    fix c es s z t w
    assume "list_all2 (\<lambda>command e. omake c command = Inr e \<and> ohas s e) (com_emitted_commands c) es"
      "oinv s" "oenqueue w s = (Inr z, t)"
    then show "list_all2 (\<lambda>command e. omake c command = Inr e \<and> ohas t e) (com_emitted_commands c) es"
      using enqueue_step [of s w "Inr z" t] ohas_mono [of s t] by (auto elim!: list_all2_mono)
  qed
  then show ?thesis by simp
qed

end

interpretation ob: command_outbox "\<lambda>s. sha_ok L \<and> outbox_wf s" outbox_le "outbox_enqueue L" enqueued "mk_envelope L"
  for L :: hostlib
proof
  show "sha_ok L \<and> outbox_wf s \<Longrightarrow> outbox_enqueue L c s = (r, s') \<Longrightarrow> (sha_ok L \<and> outbox_wf s') \<and> outbox_le s s'" for c s r s'
    using outbox_enqueue_wf_le by blast
  show "sha_ok L \<and> outbox_wf s \<Longrightarrow> outbox_enqueue L c s = (Inr es, s') \<Longrightarrow>
      list_all2 (\<lambda>command e. mk_envelope L c command = Inr e \<and> enqueued s' e) (com_emitted_commands c) es" for c s es s'
    using outbox_enqueue_enqueued by blast
qed (fact outbox_le_refl, fact outbox_le_trans, fact enqueued_mono)

section \<open>Any interleaving of senders and acknowledgements\<close>

inductive outbox_step :: "hostlib \<Rightarrow> outbox \<Rightarrow> outbox \<Rightarrow> bool" for L where
  enqueue: "outbox_enqueue L commit ob = (r, ob') \<Longrightarrow> outbox_step L ob ob'"
| mark: "outbox_mark receipt ob = (r, ob') \<Longrightarrow> outbox_step L ob ob'"
| reconcile: "outbox_reconcile L commits ob = (r, ob') \<Longrightarrow> outbox_step L ob ob'"

lemma outbox_steps_wf_le:
  assumes "sha_ok L" "(outbox_step L)\<^sup>*\<^sup>* ob ob'" "outbox_wf ob"
  shows "outbox_wf ob' \<and> outbox_le ob ob'"
  using assms(2,3)
proof (induction rule: rtranclp_induct)
  case base
  then show ?case by (simp add: outbox_le_refl)
next
  case (step y z)
  then have y: "outbox_wf y" "outbox_le ob y" by auto
  from step.hyps(2) have "outbox_wf z \<and> outbox_le y z"
    by cases (use y(1) outbox_enqueue_wf_le [OF assms(1)] outbox_mark_wf_le outbox_reconcile_wf_le [OF assms(1)] in blast)+
  then show ?case using y(2) outbox_le_trans by blast
qed

lemma delivered_is_terminal:
  assumes "sha_ok L" "(outbox_step L)\<^sup>*\<^sup>* ob ob'" "outbox_wf ob"
    and "out_receipts ob k = Some r" "rcp_status r = DS_DELIVERED"
  shows "out_receipts ob' k = Some r"
proof -
  obtain r' where "out_receipts ob' k = Some r'" "receipt_le r r'"
    using outbox_steps_wf_le [OF assms(1-3)] assms(4) unfolding outbox_le_def by blast
  with assms(5) show ?thesis by (simp add: receipt_le_def)
qed

section \<open>The inbox accepts an envelope once\<close>

fun inbox_run :: "envelope list \<Rightarrow> inbox \<Rightarrow> (envelope \<times> bool res) list" where
  "inbox_run [] ib = []"
| "inbox_run (e # es) ib = (e, fst (inbox_accept e ib)) # inbox_run es (snd (inbox_accept e ib))"

lemma inbox_accept_keeps: "ib k = Some e \<Longrightarrow> snd (inbox_accept e' ib) k = Some e"
  by (auto simp: inbox_accept_def split: option.splits)

lemma inbox_run_seen:
  "ib k = Some e0 \<Longrightarrow> (e, Inr True) \<in> set (inbox_run es ib) \<Longrightarrow> env_id e \<noteq> k"
proof (induction es ib rule: inbox_run.induct)
  case (2 e' es ib)
  then show ?case using inbox_accept_keeps [of ib k e0 e']
    by (auto simp: inbox_accept_def split: option.splits if_splits)
qed simp

lemma inbox_at_most_once:
  "length (filter (\<lambda>er. snd er = Inr True \<and> env_id (fst er) = k) (inbox_run es ib)) \<le> 1"
proof (induction es ib rule: inbox_run.induct)
  case (2 e es ib)
  show ?case
  proof (cases "fst (inbox_accept e ib) = Inr True \<and> env_id e = k")
    case True
    then have "snd (inbox_accept e ib) k = Some e"
      by (auto simp: inbox_accept_def split: option.splits if_splits)
    then have "filter (\<lambda>er. snd er = Inr True \<and> env_id (fst er) = k) (inbox_run es (snd (inbox_accept e ib))) = []"
      using inbox_run_seen [of "snd (inbox_accept e ib)" k e _ es] by (fastforce simp: filter_empty_conv)
    with True show ?thesis by simp
  next
    case False
    with 2 show ?thesis by auto
  qed
qed simp

end
