(* ===== verification/Authority.thy ===== *)
theory Authority
  imports Canonical
begin

text \<open>
  Machine authority leases of \<^verbatim>\<open>kernel/authority.py\<close> over the boot-aware clock contract of
  \<^verbatim>\<open>kernel/lease_clock.py\<close>.  Every operation takes the clock reading it obtains from the
  clock port as an argument.  Times are exact rationals, so the rounding of float addition is not
  modelled; every other step of the source is.
\<close>

section \<open>Clock readings\<close>

record clock_reading =
  rd_host :: string
  rd_boot :: string
  rd_elapsed :: rat
  rd_wall :: rat

definition reading_post_init :: "clock_reading \<Rightarrow> clock_reading res" where
  "reading_post_init self =
     res_bind (require (is_sha256 (rd_host self) \<and> is_sha256 (rd_boot self)) ValueError) (\<lambda>_.
     res_bind (require (0 \<le> rd_elapsed self) ValueError) (\<lambda>_. Inr self))"

record manual_clock =
  mc_host_seed :: string
  mc_boot_seed :: string
  mc_elapsed :: rat
  mc_wall :: rat

text \<open>\<^verbatim>\<open>_digest\<close> joins its parts with NUL characters.\<close>

definition clock_digest :: "hostlib \<Rightarrow> string \<Rightarrow> string \<Rightarrow> string" where
  "clock_digest L kind part = sha256_hex L (utf8 (kind @ [CHR 0x00] @ part))"

definition manual_read :: "hostlib \<Rightarrow> manual_clock \<Rightarrow> clock_reading res" where
  "manual_read L c = reading_post_init
     \<lparr>rd_host = clock_digest L ''manual-lease-host-v1'' (mc_host_seed c),
      rd_boot = clock_digest L ''manual-lease-boot-v1'' (mc_boot_seed c),
      rd_elapsed = mc_elapsed c, rd_wall = mc_wall c\<rparr>"

definition manual_advance :: "rat \<Rightarrow> rat option \<Rightarrow> (manual_clock, unit) action" where
  "manual_advance seconds wall_seconds c =
     (if seconds < 0 then (Inl ValueError, c)
      else (Inr (), c\<lparr>mc_elapsed := mc_elapsed c + seconds,
        mc_wall := mc_wall c + (case wall_seconds of None \<Rightarrow> seconds | Some w \<Rightarrow> w)\<rparr>))"

definition manual_jump_wall :: "rat \<Rightarrow> manual_clock \<Rightarrow> manual_clock" where
  "manual_jump_wall seconds c = c\<lparr>mc_wall := mc_wall c + seconds\<rparr>"

definition manual_reboot :: "string \<Rightarrow> rat \<Rightarrow> (manual_clock, unit) action" where
  "manual_reboot boot_seed elapsed c =
     (if \<not> nonblank boot_seed \<or> boot_seed = mc_boot_seed c then (Inl ValueError, c)
      else (Inr (), c\<lparr>mc_boot_seed := boot_seed, mc_elapsed := elapsed\<rparr>))"

definition manual_move_host :: "string \<Rightarrow> (manual_clock, unit) action" where
  "manual_move_host host_seed c =
     (if \<not> nonblank host_seed \<or> host_seed = mc_host_seed c then (Inl ValueError, c)
      else (Inr (), c\<lparr>mc_host_seed := host_seed\<rparr>))"

section \<open>Leases\<close>

record lease =
  lease_machine_id :: string
  lease_owner_id :: string
  lease_epoch :: int
  lease_acquired_at :: rat
  lease_expires_at :: rat
  lease_host :: string
  lease_boot :: string
  lease_released :: bool
  lease_digest :: string

definition lease_post_init :: "hostlib \<Rightarrow> lease \<Rightarrow> lease res" where
  "lease_post_init L self =
     res_bind (require (nonblank (lease_machine_id self) \<and> nonblank (lease_owner_id self)) ValueError) (\<lambda>_.
     res_bind (require (1 \<le> lease_epoch self) ValueError) (\<lambda>_.
     res_bind (require (lease_acquired_at self < lease_expires_at self) ValueError) (\<lambda>_.
     res_bind (require (is_sha256 (lease_host self) \<and> is_sha256 (lease_boot self)) ValueError) (\<lambda>_.
     Inr (self\<lparr>lease_digest := canonical_digest L (jobj
       [(''machine_id'', JStr (lease_machine_id self)),
        (''owner_id'', JStr (lease_owner_id self)),
        (''epoch'', JInt (lease_epoch self)),
        (''acquired_at'', JFloat (lease_acquired_at self)),
        (''expires_at'', JFloat (lease_expires_at self)),
        (''host_identity_digest'', JStr (lease_host self)),
        (''boot_identity_digest'', JStr (lease_boot self)),
        (''released'', JBool (lease_released self))])\<rparr>)))))"

definition belongs_to :: "lease \<Rightarrow> clock_reading \<Rightarrow> bool" where
  "belongs_to l reading = (lease_host l = rd_host reading \<and> lease_boot l = rd_boot reading)"

definition is_live :: "lease \<Rightarrow> rat \<Rightarrow> clock_reading \<Rightarrow> bool" where
  "is_live l now reading = (\<not> lease_released l \<and> belongs_to l reading \<and> now < lease_expires_at l)"

section \<open>The authority\<close>

record clock_anchor =
  anc_host :: string
  anc_boot :: string
  anc_elapsed :: rat
  anc_logical :: rat

definition anchor_from_reading :: "clock_reading \<Rightarrow> clock_anchor res" where
  "anchor_from_reading reading =
     res_bind (require (is_sha256 (rd_host reading) \<and> is_sha256 (rd_boot reading)) ValueError) (\<lambda>_.
     res_bind (require (0 \<le> rd_elapsed reading \<and> 0 < rd_wall reading) ValueError) (\<lambda>_.
     Inr \<lparr>anc_host = rd_host reading, anc_boot = rd_boot reading, anc_elapsed = rd_elapsed reading,
          anc_logical = rd_wall reading\<rparr>))"

definition ttl_value :: "rat \<Rightarrow> rat res" where
  "ttl_value ttl_seconds = (if ttl_seconds \<le> 0 then Inl ValueError else Inr ttl_seconds)"

record authority =
  auth_leases :: "string \<rightharpoonup> lease"
  auth_anchor :: "clock_anchor option"

definition empty_authority :: authority where
  "empty_authority = \<lparr>auth_leases = Map.empty, auth_anchor = None\<rparr>"

definition authority_now :: "clock_reading \<Rightarrow> (authority, rat) action" where
  "authority_now reading a =
     (case auth_anchor a of
        None \<Rightarrow>
          (case anchor_from_reading reading of
             Inl e \<Rightarrow> (Inl e, a)
           | Inr anchor \<Rightarrow> (Inr (rd_wall reading), a\<lparr>auth_anchor := Some anchor\<rparr>))
      | Some anchor \<Rightarrow>
          if anc_host anchor \<noteq> rd_host reading then (Inl MachineLeaseClockConflict, a)
          else if anc_boot anchor \<noteq> rd_boot reading then
            (case anchor_from_reading reading of
               Inl e \<Rightarrow> (Inl e, a)
             | Inr anchor' \<Rightarrow> (Inr (rd_wall reading), a\<lparr>auth_anchor := Some anchor'\<rparr>))
          else if rd_elapsed reading < anc_elapsed anchor then (Inl MachineLeaseClockConflict, a)
          else (Inr (anc_logical anchor + (rd_elapsed reading - anc_elapsed anchor)), a))"

text \<open>Storing a freshly constructed lease under its machine.\<close>

definition store_lease :: "hostlib \<Rightarrow> lease \<Rightarrow> (authority, lease) action" where
  "store_lease L raw a =
     (case lease_post_init L raw of
        Inl e \<Rightarrow> (Inl e, a)
      | Inr l \<Rightarrow> (Inr l, a\<lparr>auth_leases := (auth_leases a)(lease_machine_id l \<mapsto> l)\<rparr>))"

definition auth_acquire :: "hostlib \<Rightarrow> clock_reading \<Rightarrow> string \<Rightarrow> string \<Rightarrow> rat \<Rightarrow> (authority, lease) action" where
  "auth_acquire L reading machine_id owner_id ttl_seconds a =
     (if \<not> nonblank machine_id \<or> \<not> nonblank owner_id then (Inl ValueError, a)
      else case ttl_value ttl_seconds of
          Inl e \<Rightarrow> (Inl e, a)
        | Inr ttl \<Rightarrow> act_bind (authority_now reading) (\<lambda>now a1.
            let current = auth_leases a1 machine_id in
            if (case current of None \<Rightarrow> False | Some c \<Rightarrow> is_live c now reading) then
              (if lease_owner_id (the current) \<noteq> owner_id then (Inl MachineLeaseBusy, a1)
               else (Inr (the current), a1))
            else store_lease L \<lparr>lease_machine_id = machine_id, lease_owner_id = owner_id,
                lease_epoch = (case current of None \<Rightarrow> 1 | Some c \<Rightarrow> lease_epoch c + 1),
                lease_acquired_at = now, lease_expires_at = now + ttl,
                lease_host = rd_host reading, lease_boot = rd_boot reading,
                lease_released = False, lease_digest = []\<rparr> a1) a)"

definition held_current :: "authority \<Rightarrow> lease \<Rightarrow> rat \<Rightarrow> clock_reading \<Rightarrow> bool" where
  "held_current a l now reading = (auth_leases a (lease_machine_id l) = Some l \<and> is_live l now reading)"

definition auth_renew :: "hostlib \<Rightarrow> clock_reading \<Rightarrow> lease \<Rightarrow> rat \<Rightarrow> (authority, lease) action" where
  "auth_renew L reading l ttl_seconds a =
     (case ttl_value ttl_seconds of
        Inl e \<Rightarrow> (Inl e, a)
      | Inr ttl \<Rightarrow> act_bind (authority_now reading) (\<lambda>now a1.
          if \<not> held_current a1 l now reading then (Inl MachineLeaseLost, a1)
          else store_lease L (l\<lparr>lease_expires_at := now + ttl, lease_host := rd_host reading,
            lease_boot := rd_boot reading, lease_released := False, lease_digest := []\<rparr>) a1) a)"

definition auth_assert_held :: "clock_reading \<Rightarrow> lease \<Rightarrow> (authority, lease) action" where
  "auth_assert_held reading l =
     act_bind (authority_now reading) (\<lambda>now a1.
       if \<not> held_current a1 l now reading then (Inl MachineLeaseLost, a1) else (Inr l, a1))"

definition auth_release :: "hostlib \<Rightarrow> clock_reading \<Rightarrow> lease \<Rightarrow> (authority, unit) action" where
  "auth_release L reading l =
     act_bind (authority_now reading) (\<lambda>now a1.
       if \<not> held_current a1 l now reading then (Inl MachineLeaseLost, a1)
       else act_bind (store_lease L (l\<lparr>lease_released := True, lease_digest := []\<rparr>))
              (\<lambda>_. act_lift (Inr ())) a1)"

section \<open>Epochs only grow\<close>

definition lease_le :: "lease \<Rightarrow> lease \<Rightarrow> bool" where
  "lease_le l l' = (lease_machine_id l = lease_machine_id l' \<and>
     (lease_epoch l < lease_epoch l' \<or> lease_epoch l = lease_epoch l' \<and> lease_owner_id l = lease_owner_id l'))"

definition authority_le :: "authority \<Rightarrow> authority \<Rightarrow> bool" where
  "authority_le a b = (\<forall>m l. auth_leases a m = Some l \<longrightarrow> (\<exists>l'. auth_leases b m = Some l' \<and> lease_le l l'))"

definition authority_wf :: "authority \<Rightarrow> bool" where
  "authority_wf a = (\<forall>m l. auth_leases a m = Some l \<longrightarrow> lease_machine_id l = m \<and> 1 \<le> lease_epoch l)"

lemma authority_le_refl: "authority_le a a"
  by (simp add: authority_le_def lease_le_def)

lemma lease_le_trans: "lease_le a b \<Longrightarrow> lease_le b c \<Longrightarrow> lease_le a c"
  by (auto simp: lease_le_def)

lemma authority_le_trans: "authority_le a b \<Longrightarrow> authority_le b c \<Longrightarrow> authority_le a c"
  unfolding authority_le_def by (blast intro: lease_le_trans)

lemma authority_now_leases: "authority_now reading a = (r, a') \<Longrightarrow> auth_leases a' = auth_leases a"
  by (auto simp: authority_now_def split: option.splits sum.splits if_splits)

lemma lease_post_init_Inr:
  assumes "lease_post_init L raw = Inr l"
  shows "lease_machine_id l = lease_machine_id raw" "lease_owner_id l = lease_owner_id raw"
    "lease_epoch l = lease_epoch raw" "1 \<le> lease_epoch l" "lease_expires_at l = lease_expires_at raw"
    "lease_host l = lease_host raw" "lease_boot l = lease_boot raw" "lease_released l = lease_released raw"
    "lease_acquired_at l = lease_acquired_at raw"
  using assms by (auto simp: lease_post_init_def res_simps)

lemma store_lease_step:
  assumes "authority_wf a" "store_lease L raw a = (r, a')"
    and "\<And>c. auth_leases a (lease_machine_id raw) = Some c \<Longrightarrow>
      lease_epoch c < lease_epoch raw \<or> lease_epoch c = lease_epoch raw \<and> lease_owner_id c = lease_owner_id raw"
  shows "authority_wf a' \<and> authority_le a a'"
proof (cases "lease_post_init L raw")
  case (Inl e)
  with assms(1,2) show ?thesis by (auto simp: store_lease_def authority_le_refl)
next
  case (Inr l)
  note l = lease_post_init_Inr [OF Inr]
  from assms(2) Inr have a': "auth_leases a' = (auth_leases a)(lease_machine_id l \<mapsto> l)"
    by (auto simp: store_lease_def)
  have "authority_wf a'" using assms(1) l(4) by (auto simp: authority_wf_def a')
  moreover have "authority_le a a'"
    using assms(1,3) l by (auto simp: authority_le_def a' lease_le_def authority_wf_def)
  ultimately show ?thesis ..
qed

lemma leases_same:
  assumes "auth_leases a' = auth_leases a" "authority_wf a"
  shows "authority_wf a' \<and> authority_le a a'"
  using assms authority_le_refl [of a] unfolding authority_wf_def authority_le_def assms(1) by blast

text \<open>Every operation starts by establishing the authority's time, which leaves the leases alone.\<close>

lemma act_bind_authority_now:
  assumes "act_bind (authority_now reading) f a = (r, a')"
  obtains e where "r = Inl e" "auth_leases a' = auth_leases a"
  | now a1 where "authority_now reading a = (Inr now, a1)" "auth_leases a1 = auth_leases a" "f now a1 = (r, a')"
proof (cases "authority_now reading a")
  case (Pair q a1)
  note leases = authority_now_leases [OF Pair]
  show thesis
  proof (cases q)
    case (Inl e)
    with assms Pair leases that(1) show thesis by (auto simp: act_bind_def)
  next
    case (Inr now)
    with assms Pair leases that(2) show thesis by (auto simp: act_bind_def)
  qed
qed

lemma auth_acquire_step:
  assumes "authority_wf a" "auth_acquire L reading m owner ttl a = (r, a')"
  shows "authority_wf a' \<and> authority_le a a'"
proof (cases "nonblank m \<and> nonblank owner \<and> 0 < ttl")
  case False
  with assms show ?thesis
    by (auto simp: auth_acquire_def ttl_value_def authority_le_refl not_less split: if_splits)
next
  case True
  let ?f = "\<lambda>now a1. let current = auth_leases a1 m in
            if (case current of None \<Rightarrow> False | Some c \<Rightarrow> is_live c now reading) then
              (if lease_owner_id (the current) \<noteq> owner then (Inl MachineLeaseBusy, a1)
               else (Inr (the current), a1))
            else store_lease L \<lparr>lease_machine_id = m, lease_owner_id = owner,
                lease_epoch = (case current of None \<Rightarrow> 1 | Some c \<Rightarrow> lease_epoch c + 1),
                lease_acquired_at = now, lease_expires_at = now + ttl,
                lease_host = rd_host reading, lease_boot = rd_boot reading,
                lease_released = False, lease_digest = []\<rparr> a1"
  from True assms(2) have "act_bind (authority_now reading) ?f a = (r, a')"
    by (simp add: auth_acquire_def ttl_value_def not_le [symmetric])
  then show ?thesis
  proof (cases rule: act_bind_authority_now)
    case (1 e)
    from leases_same [OF this(2) assms(1)] show ?thesis .
  next
    case (2 now a1)
    have a1: "authority_wf a1" "authority_le a a1" using leases_same [OF 2(2) assms(1)] by simp_all
    have "authority_wf a' \<and> authority_le a1 a'"
    proof (cases "case auth_leases a1 m of None \<Rightarrow> False | Some c \<Rightarrow> is_live c now reading")
      case True
      with 2(3) a1 show ?thesis by (auto simp: Let_def authority_le_refl split: if_splits)
    next
      case False
      show ?thesis
        by (rule store_lease_step [OF a1(1)]) (use 2(3) False in \<open>auto simp: Let_def\<close>)
    qed
    with a1(2) authority_le_trans show ?thesis by blast
  qed
qed

lemma held_step:
  assumes "authority_wf a" "act_bind (authority_now reading) f a = (r, a')"
    and "\<And>now a1 r a'. authority_wf a1 \<Longrightarrow> f now a1 = (r, a') \<Longrightarrow> authority_wf a' \<and> authority_le a1 a'"
  shows "authority_wf a' \<and> authority_le a a'"
  using assms(2)
proof (cases rule: act_bind_authority_now)
  case (1 e)
  from leases_same [OF this(2) assms(1)] show ?thesis .
next
  case (2 now a1)
  have a1: "authority_wf a1" "authority_le a a1" using leases_same [OF 2(2) assms(1)] by simp_all
  from assms(3) [OF a1(1) 2(3)] a1(2) authority_le_trans show ?thesis by blast
qed

lemma auth_renew_step:
  assumes "authority_wf a" "auth_renew L reading l ttl a = (r, a')"
  shows "authority_wf a' \<and> authority_le a a'"
proof (cases "ttl_value ttl")
  case (Inl e)
  with assms show ?thesis by (auto simp: auth_renew_def authority_le_refl)
next
  case (Inr t)
  with assms(2) have "act_bind (authority_now reading) (\<lambda>now a1.
          if \<not> held_current a1 l now reading then (Inl MachineLeaseLost, a1)
          else store_lease L (l\<lparr>lease_expires_at := now + t, lease_host := rd_host reading,
            lease_boot := rd_boot reading, lease_released := False, lease_digest := []\<rparr>) a1) a = (r, a')"
    by (simp add: auth_renew_def)
  then show ?thesis
    by (rule held_step [OF assms(1)])
      (auto simp: authority_le_refl held_current_def split: if_splits elim!: store_lease_step)
qed

lemma auth_assert_held_step:
  "authority_wf a \<Longrightarrow> auth_assert_held reading l a = (r, a') \<Longrightarrow> authority_wf a' \<and> authority_le a a'"
  unfolding auth_assert_held_def by (rule held_step) (auto simp: authority_le_refl split: if_splits)

lemma auth_release_step:
  assumes "authority_wf a" "auth_release L reading l a = (r, a')"
  shows "authority_wf a' \<and> authority_le a a'"
  using assms(2) unfolding auth_release_def
proof (rule held_step [OF assms(1)])
  fix now a1 q a2
  assume wf: "authority_wf a1" and f: "(if \<not> held_current a1 l now reading then (Inl MachineLeaseLost, a1)
       else act_bind (store_lease L (l\<lparr>lease_released := True, lease_digest := []\<rparr>)) (\<lambda>_. act_lift (Inr ())) a1) = (q, a2)"
  obtain q' where "\<not> held_current a1 l now reading \<Longrightarrow> a2 = a1"
    "held_current a1 l now reading \<Longrightarrow> store_lease L (l\<lparr>lease_released := True, lease_digest := []\<rparr>) a1 = (q', a2)"
    using f by (auto simp: act_bind_def act_lift_def split: if_splits prod.splits sum.splits)
  with wf show "authority_wf a2 \<and> authority_le a1 a2"
    by (cases "held_current a1 l now reading")
      (auto simp: authority_le_refl held_current_def elim!: store_lease_step)
qed

section \<open>The authority interface\<close>

text \<open>What a lease holder relies on: holding means being the stored lease, and epochs never go back.\<close>

locale machine_authority =
  fixes ainv :: "'a \<Rightarrow> bool"
    and acurrent :: "'a \<Rightarrow> string \<Rightarrow> lease option"
    and aheld :: "clock_reading \<Rightarrow> lease \<Rightarrow> 'a \<Rightarrow> lease res \<times> 'a"
    and aacquire :: "clock_reading \<Rightarrow> string \<Rightarrow> string \<Rightarrow> rat \<Rightarrow> 'a \<Rightarrow> lease res \<times> 'a"
    and astep :: "'a \<Rightarrow> 'a \<Rightarrow> bool"
  assumes step_inv: "ainv a \<Longrightarrow> astep a b \<Longrightarrow> ainv b"
    and step_mono: "ainv a \<Longrightarrow> astep a b \<Longrightarrow> acurrent a m = Some l \<Longrightarrow>
      \<exists>l'. acurrent b m = Some l' \<and> lease_le l l'"
    and acquire_step: "aacquire rd m owner ttl a = (r, b) \<Longrightarrow> astep a b"
    and held_is_current: "aheld rd l a = (Inr l', b) \<Longrightarrow> l' = l \<and> acurrent a (lease_machine_id l) = Some l"
    and acquire_is_current: "ainv a \<Longrightarrow> aacquire rd m owner ttl a = (Inr l, b) \<Longrightarrow>
      acurrent b m = Some l \<and> lease_owner_id l = owner \<and> lease_machine_id l = m"
    and acquire_other_owner: "ainv a \<Longrightarrow> aacquire rd m owner ttl a = (Inr l, b) \<Longrightarrow> acurrent a m = Some c \<Longrightarrow>
      lease_owner_id c \<noteq> owner \<Longrightarrow> lease_epoch l = lease_epoch c + 1"
begin

lemma steps_mono:
  assumes "astep\<^sup>*\<^sup>* a b" "ainv a" "acurrent a m = Some l"
  shows "ainv b \<and> (\<exists>l'. acurrent b m = Some l' \<and> lease_le l l')"
  using assms
proof (induction rule: rtranclp_induct)
  case base
  then show ?case by (auto simp: lease_le_def)
next
  case (step y z)
  then obtain l1 where "ainv y" "acurrent y m = Some l1" "lease_le l l1" by blast
  with step.hyps(2) step_inv step_mono show ?case by (meson lease_le_trans)
qed

text \<open>Once another owner was granted the machine, the earlier lease is refused forever.\<close>

lemma fenced_forever:
  assumes "ainv a" "acurrent a m = Some old" "lease_machine_id old = m"
    and "aacquire rd m owner ttl a = (Inr l, b)" "lease_owner_id old \<noteq> owner" "astep\<^sup>*\<^sup>* b c"
  shows "\<not> is_ok (fst (aheld rd' old c))"
proof
  assume "is_ok (fst (aheld rd' old c))"
  then have cur: "acurrent c m = Some old"
    using held_is_current [of rd' old c] assms(3) by (cases "aheld rd' old c") (auto simp: is_ok_iff)
  have b: "ainv b" using step_inv [OF assms(1) acquire_step [OF assms(4)]] .
  have l: "acurrent b m = Some l" using acquire_is_current [OF assms(1,4)] by simp
  have "lease_epoch l = lease_epoch old + 1" using acquire_other_owner [OF assms(1,4,2,5)] .
  moreover obtain l' where "acurrent c m = Some l'" "lease_le l l'" using steps_mono [OF assms(6) b l] by blast
  ultimately show False using cur by (auto simp: lease_le_def)
qed

text \<open>The same after any detour: a lease that another owner replaced is never current again.\<close>

lemma superseded_forever:
  assumes "ainv a" "acurrent a m = Some old" "astep\<^sup>*\<^sup>* a b" "acurrent b m = Some l"
    and "lease_owner_id l \<noteq> lease_owner_id old" "astep\<^sup>*\<^sup>* b c"
  shows "acurrent c m \<noteq> Some old"
proof -
  from steps_mono [OF assms(3,1,2)] assms(4,5) have "ainv b" "lease_epoch old < lease_epoch l"
    by (auto simp: lease_le_def le_less)
  with steps_mono [OF assms(6) _ assms(4)] show ?thesis by (auto simp: lease_le_def)
qed

text \<open>An epoch of a machine belongs to one owner, across the whole later history.\<close>

lemma epoch_owner:
  assumes "ainv a" "acurrent a m = Some l" "astep\<^sup>*\<^sup>* a b" "acurrent b m = Some l'" "lease_epoch l' = lease_epoch l"
  shows "lease_owner_id l' = lease_owner_id l"
  using steps_mono [OF assms(3,1,2)] assms(4,5) by (auto simp: lease_le_def)

end

section \<open>The in-memory authority provides it\<close>

inductive auth_step :: "hostlib \<Rightarrow> authority \<Rightarrow> authority \<Rightarrow> bool" for L where
  acquire: "auth_acquire L reading m owner ttl a = (r, a') \<Longrightarrow> auth_step L a a'"
| renew: "auth_renew L reading l ttl a = (r, a') \<Longrightarrow> auth_step L a a'"
| assert_held: "auth_assert_held reading l a = (r, a') \<Longrightarrow> auth_step L a a'"
| release: "auth_release L reading l a = (r', a') \<Longrightarrow> auth_step L a a'"

lemma auth_step_wf_le:
  assumes "auth_step L a b" "authority_wf a"
  shows "authority_wf b \<and> authority_le a b"
  using assms(1)
proof cases
  case (acquire reading m owner ttl r)
  then show ?thesis using auth_acquire_step [OF assms(2)] by blast
next
  case (renew reading l ttl r)
  then show ?thesis using auth_renew_step [OF assms(2)] by blast
next
  case (assert_held reading l r)
  then show ?thesis using auth_assert_held_step [OF assms(2)] by blast
next
  case (release reading l r)
  then show ?thesis using auth_release_step [OF assms(2)] by blast
qed

lemma auth_acquire_body:
  assumes "auth_acquire L reading m owner ttl a = (Inr l, b)"
  obtains now a1 where "authority_now reading a = (Inr now, a1)" "auth_leases a1 = auth_leases a"
    "auth_leases a m = Some l \<and> is_live l now reading \<and> lease_owner_id l = owner \<and> b = a1 \<or>
     (\<forall>c. auth_leases a m = Some c \<longrightarrow> \<not> is_live c now reading) \<and>
     store_lease L \<lparr>lease_machine_id = m, lease_owner_id = owner,
                lease_epoch = (case auth_leases a m of None \<Rightarrow> 1 | Some c \<Rightarrow> lease_epoch c + 1),
                lease_acquired_at = now, lease_expires_at = now + ttl,
                lease_host = rd_host reading, lease_boot = rd_boot reading,
                lease_released = False, lease_digest = []\<rparr> a1 = (Inr l, b)"
proof -
  from assms obtain now a1 where now: "authority_now reading a = (Inr now, a1)" "0 < ttl"
    and rest: "(let current = auth_leases a1 m in
            if (case current of None \<Rightarrow> False | Some c \<Rightarrow> is_live c now reading) then
              (if lease_owner_id (the current) \<noteq> owner then (Inl MachineLeaseBusy, a1)
               else (Inr (the current), a1))
            else store_lease L \<lparr>lease_machine_id = m, lease_owner_id = owner,
                lease_epoch = (case current of None \<Rightarrow> 1 | Some c \<Rightarrow> lease_epoch c + 1),
                lease_acquired_at = now, lease_expires_at = now + ttl,
                lease_host = rd_host reading, lease_boot = rd_boot reading,
                lease_released = False, lease_digest = []\<rparr> a1) = (Inr l, b)"
    by (auto simp: auth_acquire_def ttl_value_def act_bind_eq_Inr not_le split: if_splits)
  note leases = authority_now_leases [OF now(1)]
  show thesis
    by (rule that [OF now(1) leases])
      (use rest in \<open>cases "auth_leases a m"; auto simp: Let_def leases split: if_splits\<close>)
qed

lemma store_lease_Inr:
  assumes "store_lease L raw a = (Inr l, b)"
  shows "lease_post_init L raw = Inr l" "auth_leases b = (auth_leases a)(lease_machine_id raw \<mapsto> l)"
  using assms lease_post_init_Inr(1) [of L raw l] by (auto simp: store_lease_def split: sum.splits)

lemma auth_acquire_current:
  assumes "authority_wf a" "auth_acquire L reading m owner ttl a = (Inr l, b)"
  shows "auth_leases b m = Some l \<and> lease_owner_id l = owner \<and> lease_machine_id l = m"
    and "auth_leases a m = Some c \<Longrightarrow> lease_owner_id c \<noteq> owner \<Longrightarrow> lease_epoch l = lease_epoch c + 1"
proof -
  obtain now a1 where a1: "auth_leases a1 = auth_leases a"
    and alt: "auth_leases a m = Some l \<and> is_live l now reading \<and> lease_owner_id l = owner \<and> b = a1 \<or>
     (\<forall>c. auth_leases a m = Some c \<longrightarrow> \<not> is_live c now reading) \<and>
     store_lease L \<lparr>lease_machine_id = m, lease_owner_id = owner,
                lease_epoch = (case auth_leases a m of None \<Rightarrow> 1 | Some c \<Rightarrow> lease_epoch c + 1),
                lease_acquired_at = now, lease_expires_at = now + ttl,
                lease_host = rd_host reading, lease_boot = rd_boot reading,
                lease_released = False, lease_digest = []\<rparr> a1 = (Inr l, b)"
    using assms(2) by (rule auth_acquire_body) blast
  from alt show "auth_leases b m = Some l \<and> lease_owner_id l = owner \<and> lease_machine_id l = m"
  proof (elim disjE conjE)
    assume "store_lease L \<lparr>lease_machine_id = m, lease_owner_id = owner,
                lease_epoch = (case auth_leases a m of None \<Rightarrow> 1 | Some c \<Rightarrow> lease_epoch c + 1),
                lease_acquired_at = now, lease_expires_at = now + ttl,
                lease_host = rd_host reading, lease_boot = rd_boot reading,
                lease_released = False, lease_digest = []\<rparr> a1 = (Inr l, b)"
    note st = store_lease_Inr [OF this]
    show ?thesis using st(2) lease_post_init_Inr(1,2) [OF st(1)] by simp
  qed (use assms(1) in \<open>simp add: a1 authority_wf_def\<close>)
  from alt show "auth_leases a m = Some c \<Longrightarrow> lease_owner_id c \<noteq> owner \<Longrightarrow> lease_epoch l = lease_epoch c + 1"
    by (auto dest!: store_lease_Inr(1) dest: lease_post_init_Inr(3))
qed

lemma auth_assert_held_current:
  "auth_assert_held reading l a = (Inr l', b) \<Longrightarrow> l' = l \<and> auth_leases a (lease_machine_id l) = Some l"
  using authority_now_leases
  by (fastforce simp: auth_assert_held_def act_bind_eq_Inr held_current_def split: if_splits)

interpretation auth: machine_authority authority_wf auth_leases auth_assert_held "auth_acquire L" "auth_step L"
  for L :: hostlib
proof
  show "authority_wf a \<Longrightarrow> auth_step L a b \<Longrightarrow> auth_leases a m = Some l \<Longrightarrow>
      \<exists>l'. auth_leases b m = Some l' \<and> lease_le l l'" for a b m l
    using auth_step_wf_le unfolding authority_le_def by blast
  show "authority_wf b" if "authority_wf a" "auth_step L a b" for a b
    using auth_step_wf_le [OF that(2,1)] by simp
  show "auth_step L a b" if "auth_acquire L rd m owner ttl a = (r, b)" for rd m owner ttl a r b
    using that by (rule auth_step.acquire)
qed (fact auth_assert_held_current, fact auth_acquire_current(1), fact auth_acquire_current(2))

section \<open>Exclusion, wall time and reboots\<close>

lemma auth_acquire_busy:
  assumes "nonblank m" "nonblank owner" "0 < ttl" "authority_now reading a = (Inr now, a1)"
    and "auth_leases a m = Some c" "is_live c now reading" "lease_owner_id c \<noteq> owner"
  shows "auth_acquire L reading m owner ttl a = (Inl MachineLeaseBusy, a1)"
  using assms authority_now_leases [OF assms(4)]
  by (simp add: auth_acquire_def ttl_value_def act_bind_def)

text \<open>
  With an anchor of the same boot in place, the authority's time and so every decision is a function
  of the elapsed clock alone; the wall clock of the reading is never consulted.
\<close>

lemma authority_now_ignores_wall:
  assumes "auth_anchor a = Some anchor" "anc_boot anchor = rd_boot reading"
  shows "authority_now (reading\<lparr>rd_wall := w\<rparr>) a = authority_now reading a"
  using assms by (simp add: authority_now_def)

lemma is_live_ignores_wall [simp]: "is_live l now (reading\<lparr>rd_wall := w\<rparr>) = is_live l now reading"
  by (simp add: is_live_def belongs_to_def)

lemma held_ignores_wall:
  assumes "auth_anchor a = Some anchor" "anc_boot anchor = rd_boot reading"
  shows "auth_assert_held (reading\<lparr>rd_wall := w\<rparr>) l a = auth_assert_held reading l a"
    and "auth_acquire L (reading\<lparr>rd_wall := w\<rparr>) m owner ttl a = auth_acquire L reading m owner ttl a"
    and "auth_renew L (reading\<lparr>rd_wall := w\<rparr>) l ttl a = auth_renew L reading l ttl a"
    and "auth_release L (reading\<lparr>rd_wall := w\<rparr>) l a = auth_release L reading l a"
  by (simp_all add: auth_assert_held_def auth_acquire_def auth_renew_def auth_release_def act_bind_def
      authority_now_ignores_wall [OF assms] held_current_def Let_def cong: if_cong option.case_cong sum.case_cong)

lemma lease_lost_after_reboot:
  assumes "lease_boot l \<noteq> rd_boot reading"
  shows "\<not> is_ok (fst (auth_assert_held reading l a))"
  using assms
  by (auto simp: auth_assert_held_def act_bind_def held_current_def is_live_def belongs_to_def split: prod.split sum.split)

end
