(* ===== verification/SnapshotStore.thy ===== *)
theory SnapshotStore
  imports JournalCodec
begin

text \<open>
  Snapshot persistence of \<^verbatim>\<open>kernel/snapshot.py\<close>: the stored document and its decoder, the
  in-memory store and the directory store.  The directory store keeps one document per machine; its
  file content is the canonical encoding of that document, so the store is modelled as a map from
  machine to document.  The process-local cache of the directory store is written but never read.
\<close>

section \<open>Documents\<close>

definition lock_document :: "execution_lock \<Rightarrow> json" where
  "lock_document l = jobj
     [(''code_digest'', JStr (lock_code_digest l)),
      (''dependency_digest'', JStr (lock_dependency_digest l)),
      (''schema_digest'', JStr (lock_schema_digest l)),
      (''unit_machine_digest'', JStr (lock_unit_machine_digest l)),
      (''data_digest'', JStr (lock_data_digest l)),
      (''config_digest'', JStr (lock_config_digest l)),
      (''lock_digest'', JStr (lock_digest l))]"

definition unit_document :: "unit_ref \<Rightarrow> json" where
  "unit_document u = jobj
     [(''unit_digest'', JStr (unit_digest u)),
      (''state_schema'', JStr (unit_state_schema u)),
      (''domain'', JStr (unit_domain u)),
      (''version'', JStr (unit_version u)),
      (''execution_lock'', lock_document (unit_execution_lock u))]"

definition snapshot_document :: "hostlib \<Rightarrow> machine_snapshot \<Rightarrow> json" where
  "snapshot_document L s = jobj
     [(''machine_id'', JStr (snap_machine_id s)),
      (''revision'', JInt (snap_revision s)),
      (''unit'', unit_document (snap_unit s)),
      (''state'', snap_state s),
      (''parent_commit_id'', jopt_str (snap_parent_commit_id s)),
      (''snapshot_id'', JStr (snapshot_id L s))]"

text \<open>\<^verbatim>\<open>_object\<close>, \<^verbatim>\<open>_text\<close> and \<^verbatim>\<open>_revision\<close> raise as their journal counterparts do.\<close>

definition decode_lock :: "hostlib \<Rightarrow> json \<Rightarrow> execution_lock res" where
  "decode_lock L value =
     res_bind (require_object value) (\<lambda>lock.
     res_bind (require_exact lock [''code_digest'', ''dependency_digest'', ''schema_digest'',
        ''unit_machine_digest'', ''data_digest'', ''config_digest'', ''lock_digest'']) (\<lambda>_.
     res_bind (res_bind (field_of lock ''code_digest'') require_text) (\<lambda>code.
     res_bind (res_bind (field_of lock ''dependency_digest'') require_text) (\<lambda>dependency.
     res_bind (res_bind (field_of lock ''schema_digest'') require_text) (\<lambda>schema.
     res_bind (res_bind (field_of lock ''unit_machine_digest'') require_text) (\<lambda>unit_machine.
     res_bind (res_bind (field_of lock ''data_digest'') require_text) (\<lambda>data.
     res_bind (res_bind (field_of lock ''config_digest'') require_text) (\<lambda>config.
     res_bind (execution_lock_post_init L
       \<lparr>lock_code_digest = code, lock_dependency_digest = dependency, lock_schema_digest = schema,
        lock_unit_machine_digest = unit_machine, lock_data_digest = data, lock_config_digest = config,
        lock_digest = []\<rparr>) (\<lambda>execution_lock.
     res_bind (res_bind (field_of lock ''lock_digest'') require_text) (\<lambda>stored.
     if lock_digest execution_lock \<noteq> stored then Inl MachineIntegrityError else Inr execution_lock))))))))))"

definition decode_snapshot :: "hostlib \<Rightarrow> json \<Rightarrow> machine_snapshot res" where
  "decode_snapshot L value =
     res_bind (require_object value) (\<lambda>row.
     res_bind (require_exact row [''machine_id'', ''revision'', ''unit'', ''state'', ''parent_commit_id'', ''snapshot_id'']) (\<lambda>_.
     res_bind (res_bind (field_of row ''unit'') require_object) (\<lambda>u.
     res_bind (require_exact u [''unit_digest'', ''state_schema'', ''domain'', ''version'', ''execution_lock'']) (\<lambda>_.
     res_bind (res_bind (field_of u ''execution_lock'') (decode_lock L)) (\<lambda>execution_lock.
     res_bind (res_bind (field_of row ''machine_id'') require_text) (\<lambda>machine_id.
     res_bind (res_bind (field_of row ''revision'') require_int) (\<lambda>revision.
     res_bind (res_bind (field_of u ''unit_digest'') require_text) (\<lambda>udigest.
     res_bind (res_bind (field_of u ''state_schema'') require_text) (\<lambda>state_schema.
     res_bind (res_bind (field_of u ''domain'') require_text) (\<lambda>domain.
     res_bind (res_bind (field_of u ''version'') require_text) (\<lambda>version.
     res_bind (unit_ref_post_init
       \<lparr>unit_digest = udigest, unit_state_schema = state_schema, unit_domain = domain,
        unit_version = version, unit_execution_lock = execution_lock\<rparr>) (\<lambda>unit_value.
     res_bind (field_of row ''state'') (\<lambda>state.
     res_bind (res_bind (field_of row ''parent_commit_id'') (decode_opt_text ValueError)) (\<lambda>parent.
     res_bind (snapshot_post_init L None
       \<lparr>snap_machine_id = machine_id, snap_revision = revision, snap_unit = unit_value, snap_state = state,
        snap_parent_commit_id = parent, snap_state_digest = []\<rparr>) (\<lambda>snapshot.
     res_bind (res_bind (field_of row ''snapshot_id'') require_text) (\<lambda>stored.
     if snapshot_id L snapshot \<noteq> stored then Inl MachineIntegrityError else Inr snapshot))))))))))))))))"

section \<open>The in-memory store\<close>

type_synonym mem_snapshots = "string \<rightharpoonup> machine_snapshot"

definition mem_snapshot_save :: "hostlib \<Rightarrow> machine_snapshot \<Rightarrow> (mem_snapshots, machine_snapshot) action" where
  "mem_snapshot_save L snapshot st =
     (case st (snap_machine_id snapshot) of
        Some current \<Rightarrow>
          if snap_revision snapshot < snap_revision current then (Inl MachineConflict, st)
          else if snap_revision snapshot = snap_revision current then
            (if snapshot_id L current \<noteq> snapshot_id L snapshot then (Inl MachineConflict, st) else (Inr current, st))
          else (Inr snapshot, st(snap_machine_id snapshot \<mapsto> snapshot))
      | None \<Rightarrow> (Inr snapshot, st(snap_machine_id snapshot \<mapsto> snapshot)))"

definition mem_snapshot_load :: "mem_snapshots \<Rightarrow> string \<Rightarrow> machine_snapshot option res" where
  "mem_snapshot_load st machine_id = (if nonblank machine_id then Inr (st machine_id) else Inl ValueError)"

section \<open>The directory store\<close>

type_synonym dir_snapshots = "string \<rightharpoonup> json"

text \<open>\<^verbatim>\<open>_read\<close>: every decoding failure surfaces as an integrity error.\<close>

definition dir_snapshot_read :: "hostlib \<Rightarrow> dir_snapshots \<Rightarrow> string \<Rightarrow> machine_snapshot option res" where
  "dir_snapshot_read L st machine_id =
     (case st machine_id of
        None \<Rightarrow> Inr None
      | Some value \<Rightarrow>
          (case decode_snapshot L value of
             Inl _ \<Rightarrow> Inl MachineIntegrityError
           | Inr snapshot \<Rightarrow>
               if snap_machine_id snapshot \<noteq> machine_id then Inl MachineIntegrityError else Inr (Some snapshot)))"

definition dir_snapshot_save :: "hostlib \<Rightarrow> machine_snapshot \<Rightarrow> (dir_snapshots, machine_snapshot) action" where
  "dir_snapshot_save L snapshot st =
     (case dir_snapshot_read L st (snap_machine_id snapshot) of
        Inl e \<Rightarrow> (Inl e, st)
      | Inr current \<Rightarrow>
          if (case current of None \<Rightarrow> False | Some c \<Rightarrow> snap_revision snapshot < snap_revision c) then (Inl MachineConflict, st)
          else if (case current of None \<Rightarrow> False | Some c \<Rightarrow> snap_revision snapshot = snap_revision c) then
            (if snapshot_id L (the current) \<noteq> snapshot_id L snapshot then (Inl MachineConflict, st)
             else (Inr (the current), st))
          else (Inr snapshot, st(snap_machine_id snapshot \<mapsto> snapshot_document L snapshot)))"

definition dir_snapshot_load :: "hostlib \<Rightarrow> dir_snapshots \<Rightarrow> string \<Rightarrow> machine_snapshot option res" where
  "dir_snapshot_load L st machine_id =
     (if nonblank machine_id then dir_snapshot_read L st machine_id else Inl ValueError)"

section \<open>Round trip\<close>

definition lock_ok :: "hostlib \<Rightarrow> execution_lock \<Rightarrow> bool" where
  "lock_ok L l = (execution_lock_post_init L l = Inr l)"

definition unit_ok :: "hostlib \<Rightarrow> unit_ref \<Rightarrow> bool" where
  "unit_ok L u = (unit_ref_post_init u = Inr u \<and> lock_ok L (unit_execution_lock u))"

text \<open>A constructed snapshot, with or without a digest hint.\<close>

definition snapshot_ok :: "hostlib \<Rightarrow> string option \<Rightarrow> machine_snapshot \<Rightarrow> bool" where
  "snapshot_ok L hint s = (snapshot_post_init L hint s = Inr s \<and> unit_ok L (snap_unit s))"

lemma decode_lock_document:
  assumes "lock_ok L l" "is_sha256 (lock_digest l)"
  shows "decode_lock L (lock_document l) = Inr l"
proof -
  from assms(1) have checks: "is_sha256 (lock_code_digest l)" "is_sha256 (lock_dependency_digest l)"
    "is_sha256 (lock_schema_digest l)" "is_sha256 (lock_unit_machine_digest l)" "is_sha256 (lock_data_digest l)"
    "is_sha256 (lock_config_digest l)" and dig: "lock_digest l = canonical_digest L (jobj (lock_payload l))"
    by (auto simp: lock_ok_def execution_lock_post_init_def res_simps simp del: res_map.simps
        dest: arg_cong [of _ _ lock_digest])
  have init: "execution_lock_post_init L (l\<lparr>lock_digest := []\<rparr>) = Inr l"
    using checks dig by (simp add: execution_lock_post_init_def require_sha256_def lock_payload_def)
  have raw: "l\<lparr>lock_digest := []\<rparr> = \<lparr>lock_code_digest = lock_code_digest l,
      lock_dependency_digest = lock_dependency_digest l, lock_schema_digest = lock_schema_digest l,
      lock_unit_machine_digest = lock_unit_machine_digest l, lock_data_digest = lock_data_digest l,
      lock_config_digest = lock_config_digest l, lock_digest = []\<rparr>"
    by simp
  show ?thesis
    unfolding decode_lock_def lock_document_def
    using checks assms(2) init is_sha256_nonblank
    by (simp add: field_of_jobj require_exact_jobj raw)
qed

lemma snapshot_ok_parts:
  assumes "snapshot_ok L hint s"
  shows "nonblank (snap_machine_id s)" "0 \<le> snap_revision s" "opt_nonblank (snap_parent_commit_id s)"
    "frozen_json_required_depth (snap_state s) \<le> default_max_depth"
    "is_sha256 (unit_digest (snap_unit s))" "nonblank (unit_state_schema (snap_unit s))"
    "nonblank (unit_domain (snap_unit s))" "nonblank (unit_version (snap_unit s))"
    "lock_ok L (unit_execution_lock (snap_unit s))"
    "snap_state_digest s = (case hint of None \<Rightarrow> json_content_digest L (snap_state s) | Some d \<Rightarrow> d)"
  using assms
  by (auto simp: snapshot_ok_def snapshot_post_init_def unit_ok_def unit_ref_post_init_def res_simps
      split: option.splits if_splits dest: arg_cong [of _ _ snap_state_digest])

lemma lock_ok_digest:
  assumes "\<forall>x. is_sha256 (sha256_hex L x)" "lock_ok L l"
  shows "is_sha256 (lock_digest l)"
proof -
  have "lock_digest l = canonical_digest L (jobj (lock_payload l))"
    using assms(2) by (auto simp: lock_ok_def execution_lock_post_init_def res_simps simp del: res_map.simps
        dest: arg_cong [of _ _ lock_digest])
  with assms(1) show ?thesis by (simp add: canonical_digest_def)
qed

text \<open>
  What reading a stored snapshot does: the document carries no state digest, so the decoder takes
  the content digest of the state and then compares the snapshot identity with the stored one.
\<close>

lemma decode_snapshot_document:
  assumes sha: "\<forall>x. is_sha256 (sha256_hex L x)" and ok: "snapshot_ok L hint s"
  shows "decode_snapshot L (snapshot_document L s) =
    (let s' = s\<lparr>snap_state_digest := json_content_digest L (snap_state s)\<rparr> in
     if snapshot_id L s' \<noteq> snapshot_id L s then Inl MachineIntegrityError else Inr s')"
proof -
  note parts = snapshot_ok_parts [OF ok]
  have lock: "decode_lock L (lock_document (unit_execution_lock (snap_unit s))) = Inr (unit_execution_lock (snap_unit s))"
    by (rule decode_lock_document [OF parts(9) lock_ok_digest [OF sha parts(9)]])
  have unit: "unit_ref_post_init \<lparr>unit_digest = unit_digest (snap_unit s), unit_state_schema = unit_state_schema (snap_unit s),
      unit_domain = unit_domain (snap_unit s), unit_version = unit_version (snap_unit s),
      unit_execution_lock = unit_execution_lock (snap_unit s)\<rparr> = Inr (snap_unit s)"
    using parts(5-8) by (simp add: unit_ref_post_init_def require_sha256_def)
  have snap: "snapshot_post_init L None \<lparr>snap_machine_id = snap_machine_id s, snap_revision = snap_revision s,
      snap_unit = snap_unit s, snap_state = snap_state s, snap_parent_commit_id = snap_parent_commit_id s,
      snap_state_digest = []\<rparr> = Inr (s\<lparr>snap_state_digest := json_content_digest L (snap_state s)\<rparr>)"
    using parts(1-4) by (simp add: snapshot_post_init_def freeze_json_eq)
  have nb: "nonblank (snapshot_id L s)" "nonblank (unit_digest (snap_unit s))"
    using sha parts(5) is_sha256_nonblank by (simp_all add: snapshot_id_def canonical_digest_def)
  show ?thesis
    unfolding decode_snapshot_def snapshot_document_def unit_document_def
    using parts(1,2,6-8) nb
    by (simp add: field_of_jobj require_exact_jobj lock unit snap Let_def)
qed

lemma snapshot_round_trip:
  assumes "\<forall>x. is_sha256 (sha256_hex L x)" "snapshot_ok L None s"
  shows "decode_snapshot L (snapshot_document L s) = Inr s"
proof -
  have "s\<lparr>snap_state_digest := json_content_digest L (snap_state s)\<rparr> = s"
    using snapshot_ok_parts(10) [OF assms(2)] by simp
  then show ?thesis by (simp add: decode_snapshot_document [OF assms] Let_def)
qed

definition snapshot_id_doc :: "machine_snapshot \<Rightarrow> json" where
  "snapshot_id_doc s = jobj
     [(''machine_id'', JStr (snap_machine_id s)),
      (''revision'', JInt (snap_revision s)),
      (''unit'', unit_ref_json (snap_unit s)),
      (''state_digest'', JStr (snap_state_digest s)),
      (''parent_commit_id'', jopt_str (snap_parent_commit_id s))]"

lemma snapshot_id_state_digest:
  assumes "float_repr_ok L" "\<not> digest_collision L (snapshot_id_doc a) (snapshot_id_doc b)"
    "snapshot_id L a = snapshot_id L b"
  shows "snap_state_digest a = snap_state_digest b"
proof -
  have "snapshot_id_doc a = snapshot_id_doc b"
    using assms by (intro canonical_digest_inj) (simp_all add: snapshot_id_def snapshot_id_doc_def)
  then show ?thesis unfolding snapshot_id_doc_def by (subst (asm) jobj_eq_iff) simp_all
qed

text \<open>
  A snapshot of a committed revision carries the state identity of its commit as digest.  Stored in
  the directory store it can no longer be read, unless that identity happens to be the content
  digest or two identity documents collide.
\<close>

lemma hinted_snapshot_unreadable:
  assumes "\<forall>x. is_sha256 (sha256_hex L x)" "float_repr_ok L" "snapshot_ok L (Some d) s"
    and "d \<noteq> json_content_digest L (snap_state s)"
    and "\<not> digest_collision L (snapshot_id_doc (s\<lparr>snap_state_digest := json_content_digest L (snap_state s)\<rparr>)) (snapshot_id_doc s)"
  shows "decode_snapshot L (snapshot_document L s) = Inl MachineIntegrityError"
proof -
  have "snap_state_digest s = d" using snapshot_ok_parts(10) [OF assms(3)] by simp
  then have "snapshot_id L (s\<lparr>snap_state_digest := json_content_digest L (snap_state s)\<rparr>) \<noteq> snapshot_id L s"
    using snapshot_id_state_digest [OF assms(2,5)] assms(4) by auto
  then show ?thesis by (simp add: decode_snapshot_document [OF assms(1,3)] Let_def)
qed

section \<open>Snapshots move forward\<close>

definition snapshots_le :: "mem_snapshots \<Rightarrow> mem_snapshots \<Rightarrow> bool" where
  "snapshots_le a b = (\<forall>m s. a m = Some s \<longrightarrow> (\<exists>s'. b m = Some s' \<and> (s' = s \<or> snap_revision s < snap_revision s')))"

lemma mem_snapshot_save_le: "mem_snapshot_save L snapshot st = (r, st') \<Longrightarrow> snapshots_le st st'"
  by (auto simp: mem_snapshot_save_def snapshots_le_def split: option.splits if_splits)

lemma mem_snapshot_save_load:
  "mem_snapshot_save L snapshot st = (Inr s, st') \<Longrightarrow> nonblank (snap_machine_id snapshot) \<Longrightarrow>
     mem_snapshot_load st' (snap_machine_id snapshot) = Inr (Some s) \<and> snapshot_id L s = snapshot_id L snapshot"
  by (auto simp: mem_snapshot_save_def mem_snapshot_load_def split: option.splits if_splits)

text \<open>The directory store refines the in-memory store on snapshots that carry their content digest.\<close>

definition dir_snapshots_represent :: "hostlib \<Rightarrow> mem_snapshots \<Rightarrow> dir_snapshots \<Rightarrow> bool" where
  "dir_snapshots_represent L st d =
     (\<forall>m. case st m of None \<Rightarrow> d m = None
       | Some s \<Rightarrow> d m = Some (snapshot_document L s) \<and> snap_machine_id s = m \<and> snapshot_ok L None s)"

lemma dir_snapshot_read_represents:
  assumes "\<forall>x. is_sha256 (sha256_hex L x)" "dir_snapshots_represent L st d"
  shows "dir_snapshot_read L d m = Inr (st m)"
  using assms(2) [unfolded dir_snapshots_represent_def, THEN spec, of m] snapshot_round_trip [OF assms(1)]
  by (auto simp: dir_snapshot_read_def split: option.splits)

lemma dir_snapshot_save_refines:
  assumes "\<forall>x. is_sha256 (sha256_hex L x)" "dir_snapshots_represent L st d" "snapshot_ok L None s"
  shows "fst (dir_snapshot_save L s d) = fst (mem_snapshot_save L s st) \<and>
    dir_snapshots_represent L (snd (mem_snapshot_save L s st)) (snd (dir_snapshot_save L s d))"
proof (cases "st (snap_machine_id s)")
  case None
  with assms show ?thesis
    by (auto simp: dir_snapshot_save_def dir_snapshot_read_represents mem_snapshot_save_def dir_snapshots_represent_def
        cong: option.case_cong)
next
  case (Some c)
  with assms show ?thesis
    by (auto simp: dir_snapshot_save_def dir_snapshot_read_represents mem_snapshot_save_def dir_snapshots_represent_def
        cong: option.case_cong)
qed

end
