(* ===== verification/Contracts.thy ===== *)
theory Contracts
  imports Machine
begin

text \<open>
  The typed execution contracts of \<^verbatim>\<open>kernel/contracts.py\<close> (capabilities, attempts, run
  bindings) and the machine family registry of \<^verbatim>\<open>kernel/family.py\<close>.
\<close>

section \<open>Contracts\<close>

text \<open>\<^verbatim>\<open>_tuple_text\<close>: non-blank items, then uniqueness.\<close>

definition tuple_text :: "string list \<Rightarrow> unit res" where
  "tuple_text values =
     res_bind (require (all_nonblank values) TypeError) (\<lambda>_. require (distinct values) ValueError)"

record capability =
  cap_capability_id :: string
  cap_provider_version :: string
  cap_input_schema :: string
  cap_output_schema :: string
  cap_effect_class :: string
  cap_permission_scope :: "string list"
  cap_resource_budget :: "(string, json) dict"
  cap_idempotency_policy :: string
  cap_evidence_policy :: string
  cap_descriptor_digest :: string

definition capability_post_init :: "hostlib \<Rightarrow> capability \<Rightarrow> capability res" where
  "capability_post_init L self =
     res_bind (require (\<forall>x \<in> set [cap_capability_id self, cap_provider_version self, cap_input_schema self,
        cap_output_schema self, cap_effect_class self, cap_idempotency_policy self, cap_evidence_policy self].
        nonblank x) ValueError) (\<lambda>_.
     res_bind (tuple_text (cap_permission_scope self)) (\<lambda>_.
     Inr (self\<lparr>cap_descriptor_digest := canonical_digest L (jobj
       [(''capability_id'', JStr (cap_capability_id self)),
        (''provider_version'', JStr (cap_provider_version self)),
        (''input_schema'', JStr (cap_input_schema self)),
        (''output_schema'', JStr (cap_output_schema self)),
        (''effect_class'', JStr (cap_effect_class self)),
        (''permission_scope'', jstrs (cap_permission_scope self)),
        (''resource_budget'', JObj (cap_resource_budget self)),
        (''idempotency_policy'', JStr (cap_idempotency_policy self)),
        (''evidence_policy'', JStr (cap_evidence_policy self))])\<rparr>)))"

record machine_attempt =
  att_attempt_id :: string
  att_command_id :: string
  att_worker_id :: string
  att_authority_epoch :: "int option"
  att_digest :: string

definition attempt_post_init :: "hostlib \<Rightarrow> machine_attempt \<Rightarrow> machine_attempt res" where
  "attempt_post_init L self =
     res_bind (require (nonblank (att_attempt_id self) \<and> nonblank (att_command_id self) \<and>
                        nonblank (att_worker_id self)) ValueError) (\<lambda>_.
     res_bind (require (case att_authority_epoch self of None \<Rightarrow> True | Some e \<Rightarrow> 0 \<le> e) ValueError) (\<lambda>_.
     Inr (self\<lparr>att_digest := canonical_digest L (jobj
       [(''attempt_id'', JStr (att_attempt_id self)),
        (''command_id'', JStr (att_command_id self)),
        (''worker_id'', JStr (att_worker_id self)),
        (''authority_epoch'', jopt_int (att_authority_epoch self))])\<rparr>)))"

record run_binding =
  rb_kernel_abi_version :: string
  rb_machine_implementation_digest :: string
  rb_unit_digest :: string
  rb_execution_lock_digest :: string
  rb_capability_provider_versions :: "(string \<times> string) list"
  rb_schema_versions :: "string list"
  rb_environment_version :: string
  rb_policy_version :: string
  rb_binding_digest :: string

definition run_binding_post_init :: "hostlib \<Rightarrow> run_binding \<Rightarrow> run_binding res" where
  "run_binding_post_init L self =
     res_bind (require (nonblank (rb_kernel_abi_version self) \<and> nonblank (rb_environment_version self) \<and>
                        nonblank (rb_policy_version self)) ValueError) (\<lambda>_.
     res_bind (res_map require_sha256 [rb_machine_implementation_digest self, rb_unit_digest self,
                 rb_execution_lock_digest self]) (\<lambda>_.
     res_bind (require (\<forall>p \<in> set (rb_capability_provider_versions self). nonblank (fst p) \<and> nonblank (snd p)) ValueError) (\<lambda>_.
     res_bind (tuple_text (rb_schema_versions self)) (\<lambda>_.
     Inr (self\<lparr>rb_binding_digest := canonical_digest L (jobj
       [(''kernel_abi_version'', JStr (rb_kernel_abi_version self)),
        (''machine_implementation_digest'', JStr (rb_machine_implementation_digest self)),
        (''unit_digest'', JStr (rb_unit_digest self)),
        (''execution_lock_digest'', JStr (rb_execution_lock_digest self)),
        (''capability_provider_versions'', JArr (map (\<lambda>p. jstrs [fst p, snd p]) (rb_capability_provider_versions self))),
        (''schema_versions'', jstrs (rb_schema_versions self)),
        (''environment_version'', JStr (rb_environment_version self)),
        (''policy_version'', JStr (rb_policy_version self))])\<rparr>)))))"

section \<open>Machine families\<close>

record family =
  fam_family_id :: string
  fam_implementation_version :: string
  fam_state_schema :: string
  fam_replay_level :: string
  fam_command_kinds :: "string list"
  fam_required_capabilities :: "string list"
  fam_provided_capabilities :: "string list"
  fam_digest :: string

definition family_post_init :: "hostlib \<Rightarrow> family \<Rightarrow> family res" where
  "family_post_init L self =
     res_bind (require (nonblank (fam_family_id self) \<and> nonblank (fam_implementation_version self) \<and>
                        nonblank (fam_state_schema self) \<and> nonblank (fam_replay_level self)) ValueError) (\<lambda>_.
     res_bind (res_map tuple_text [fam_command_kinds self, fam_required_capabilities self,
                 fam_provided_capabilities self]) (\<lambda>_.
     Inr (self\<lparr>fam_digest := canonical_digest L (jobj
       [(''family_id'', JStr (fam_family_id self)),
        (''implementation_version'', JStr (fam_implementation_version self)),
        (''state_schema'', JStr (fam_state_schema self)),
        (''replay_level'', JStr (fam_replay_level self)),
        (''command_kinds'', jstrs (fam_command_kinds self)),
        (''required_capabilities'', jstrs (fam_required_capabilities self)),
        (''provided_capabilities'', jstrs (fam_provided_capabilities self))])\<rparr>)))"

type_synonym family_registry = "(string, family) dict"

definition registry_register :: "family \<Rightarrow> (family_registry, unit) action" where
  "registry_register descriptor items =
     (case map_of items (fam_family_id descriptor) of
        Some current \<Rightarrow> if current \<noteq> descriptor then (Inl ValueError, items)
                        else (Inr (), dict_set (fam_family_id descriptor) descriptor items)
      | None \<Rightarrow> (Inr (), dict_set (fam_family_id descriptor) descriptor items))"

definition registry_get :: "family_registry \<Rightarrow> string \<Rightarrow> family res" where
  "registry_get items family_id =
     (if \<not> nonblank family_id then Inl ValueError
      else case map_of items family_id of Some f \<Rightarrow> Inr f | None \<Rightarrow> Inl KeyError)"

definition registry_list :: "family_registry \<Rightarrow> family list" where
  "registry_list items = map snd items"

text \<open>A registered identity keeps its descriptor, whatever is registered afterwards.\<close>

lemma registry_register_keeps:
  "registry_register d items = (r, items') \<Longrightarrow> map_of items k = Some f \<Longrightarrow> map_of items' k = Some f"
  by (auto simp: registry_register_def split: option.splits if_splits)

lemma registry_register_get:
  "registry_register d items = (Inr u, items') \<Longrightarrow> nonblank (fam_family_id d) \<Longrightarrow>
     registry_get items' (fam_family_id d) = Inr d"
  by (auto simp: registry_register_def registry_get_def split: option.splits if_splits)

lemma registry_register_wf: "dict_wf items \<Longrightarrow> registry_register d items = (r, items') \<Longrightarrow> dict_wf items'"
  by (auto simp: registry_register_def dict_simps split: option.splits if_splits)

end
