(* ===== verification/Executor.thy ===== *)
theory Executor
  imports Journal Delivery Authority SnapshotStore Contracts
begin

text \<open>
  The authoritative machine executor of \<^verbatim>\<open>kernel/executor.py\<close>, over the in-memory journal,
  outbox, snapshot store and lease authority.  The Unit transition proposer is code outside the
  kernel: it is a parameter \<open>propose\<close> that returns a proposal or raises, together with the object
  identity the executor pins.  Each check of the lease reads the clock, so a step takes the two
  readings it obtains.
\<close>

section \<open>State\<close>

record exec_config =
  cfg_identity :: machine_identity
  cfg_unit :: unit_ref
  cfg_family :: "family option"
  cfg_capabilities :: "capability list"
  cfg_lease :: "lease option"

record exec =
  ex_snapshot :: "machine_snapshot option"
  ex_status :: machine_status
  ex_proposer :: "nat option"
  ex_journal :: mem_journal
  ex_store :: "mem_snapshots option"
  ex_outbox :: "outbox option"
  ex_authority :: "authority option"

abbreviation cfg_machine_id :: "exec_config \<Rightarrow> string" where
  "cfg_machine_id cfg \<equiv> ident_machine_id (cfg_identity cfg)"

definition executor_init ::
    "exec_config \<Rightarrow> mem_journal \<Rightarrow> mem_snapshots option \<Rightarrow> outbox option \<Rightarrow> authority option \<Rightarrow> exec res" where
  "executor_init cfg journal store outbox authority =
     res_bind (require (case cfg_family cfg of None \<Rightarrow> True
        | Some f \<Rightarrow> fam_implementation_version f = ident_implementation_version (cfg_identity cfg)) ValueError) (\<lambda>_.
     res_bind (require (distinct (map cap_capability_id (cfg_capabilities cfg))) ValueError) (\<lambda>_.
     res_bind (require (case cfg_family cfg of None \<Rightarrow> True
        | Some f \<Rightarrow> set (fam_required_capabilities f) \<subseteq> set (map cap_capability_id (cfg_capabilities cfg))) ValueError) (\<lambda>_.
     res_bind (require ((authority = None) = (cfg_lease cfg = None)) ValueError) (\<lambda>_.
     res_bind (require (case cfg_lease cfg of None \<Rightarrow> True
        | Some l \<Rightarrow> lease_machine_id l = cfg_machine_id cfg) ValueError) (\<lambda>_.
     Inr \<lparr>ex_snapshot = None, ex_status = READY, ex_proposer = None, ex_journal = journal,
          ex_store = store, ex_outbox = outbox, ex_authority = authority\<rparr>)))))"

section \<open>Helpers\<close>

definition assert_commit_unit_identity :: "exec_config \<Rightarrow> machine_commit \<Rightarrow> unit res" where
  "assert_commit_unit_identity cfg commit =
     res_bind (require (com_unit_digest commit = unit_digest (cfg_unit cfg)) MachineIntegrityError) (\<lambda>_.
     require (com_execution_lock_digest commit = lock_digest (unit_execution_lock (cfg_unit cfg))) MachineIntegrityError)"

definition snapshot_of_commit :: "hostlib \<Rightarrow> exec_config \<Rightarrow> machine_commit \<Rightarrow> machine_snapshot res" where
  "snapshot_of_commit L cfg commit = snapshot_post_init L (Some (com_state_digest commit))
     \<lparr>snap_machine_id = cfg_machine_id cfg, snap_revision = com_revision commit, snap_unit = cfg_unit cfg,
      snap_state = com_state commit, snap_parent_commit_id = Some (com_commit_id commit), snap_state_digest = []\<rparr>"

definition exec_require_open :: "exec \<Rightarrow> machine_snapshot res" where
  "exec_require_open ex = (case ex_snapshot ex of None \<Rightarrow> Inl MachineNotOpen | Some s \<Rightarrow> Inr s)"

definition assert_authority :: "exec_config \<Rightarrow> clock_reading \<Rightarrow> (exec, unit) action" where
  "assert_authority cfg reading ex =
     (case (ex_authority ex, cfg_lease cfg) of
        (Some a, Some l) \<Rightarrow>
          (case auth_assert_held reading l a of
             (r, a') \<Rightarrow> (res_bind r (\<lambda>_. Inr ()), ex\<lparr>ex_authority := Some a'\<rparr>))
      | _ \<Rightarrow> (Inr (), ex))"

definition outbox_send :: "hostlib \<Rightarrow> machine_commit \<Rightarrow> (exec, unit) action" where
  "outbox_send L commit ex =
     (case ex_outbox ex of
        None \<Rightarrow> (Inr (), ex)
      | Some ob \<Rightarrow> (case outbox_enqueue L commit ob of
          (r, ob') \<Rightarrow> (res_bind r (\<lambda>_. Inr ()), ex\<lparr>ex_outbox := Some ob'\<rparr>)))"

definition exec_reconcile_outbox :: "hostlib \<Rightarrow> exec_config \<Rightarrow> (exec, envelope list) action" where
  "exec_reconcile_outbox L cfg ex =
     (case ex_outbox ex of
        None \<Rightarrow> (Inr [], ex)
      | Some ob \<Rightarrow> (case outbox_reconcile L (mem_commits (ex_journal ex) (cfg_machine_id cfg)) ob of
          (r, ob') \<Rightarrow> (r, ex\<lparr>ex_outbox := Some ob'\<rparr>)))"

section \<open>Open, checkpoint, restore\<close>

definition open_head :: "hostlib \<Rightarrow> exec_config \<Rightarrow> machine_commit \<Rightarrow> bool \<Rightarrow> (exec, machine_snapshot) action" where
  "open_head L cfg latest has_emitted ex =
     (case res_bind (assert_commit_unit_identity cfg latest) (\<lambda>_.
           res_bind (require (ex_outbox ex \<noteq> None \<or> \<not> has_emitted) MachineIntegrityError) (\<lambda>_.
           snapshot_of_commit L cfg latest)) of
        Inl e \<Rightarrow> (Inl e, ex)
      | Inr s \<Rightarrow>
          (let ex1 = ex\<lparr>ex_snapshot := Some s, ex_status := com_accepted_status latest\<rparr> in
           if ex_outbox ex1 = None then (Inr s, ex1)
           else act_bind (exec_reconcile_outbox L cfg) (\<lambda>_. act_lift (Inr s)) ex1))"

definition exec_open :: "hostlib \<Rightarrow> exec_config \<Rightarrow> json option \<Rightarrow> (exec, machine_snapshot) action" where
  "exec_open L cfg initial_state ex =
     (case mem_head (ex_journal ex) (cfg_machine_id cfg) of
        Inl e \<Rightarrow> (Inl e, ex)
      | Inr (Some latest, has_emitted) \<Rightarrow> open_head L cfg latest has_emitted ex
      | Inr (None, _) \<Rightarrow>
          (case ex_snapshot ex of
             Some s \<Rightarrow> (Inr s, ex)
           | None \<Rightarrow>
               (case (case ex_store ex of None \<Rightarrow> Inr None | Some st \<Rightarrow> mem_snapshot_load st (cfg_machine_id cfg)) of
                  Inl e \<Rightarrow> (Inl e, ex)
                | Inr (Some stored) \<Rightarrow>
                    if snap_unit stored \<noteq> cfg_unit cfg \<or> snap_revision stored \<noteq> 0 then (Inl MachineIntegrityError, ex)
                    else (Inr stored, ex\<lparr>ex_snapshot := Some stored\<rparr>)
                | Inr None \<Rightarrow>
                    (case snapshot_post_init L None
                       \<lparr>snap_machine_id = cfg_machine_id cfg, snap_revision = 0, snap_unit = cfg_unit cfg,
                        snap_state = (case initial_state of None \<Rightarrow> JObj [] | Some v \<Rightarrow> v),
                        snap_parent_commit_id = None, snap_state_digest = []\<rparr> of
                       Inl e \<Rightarrow> (Inl e, ex)
                     | Inr s \<Rightarrow> (Inr s, ex\<lparr>ex_snapshot := Some s\<rparr>)))))"

definition store_save :: "hostlib \<Rightarrow> machine_snapshot \<Rightarrow> (exec, unit) action" where
  "store_save L s ex =
     (case ex_store ex of
        None \<Rightarrow> (Inr (), ex)
      | Some st \<Rightarrow> (case mem_snapshot_save L s st of
          (r, st') \<Rightarrow> (res_bind r (\<lambda>_. Inr ()), ex\<lparr>ex_store := Some st'\<rparr>)))"

definition exec_checkpoint :: "hostlib \<Rightarrow> (exec, machine_snapshot) action" where
  "exec_checkpoint L ex =
     (case ex_snapshot ex of
        None \<Rightarrow> (Inl MachineNotOpen, ex)
      | Some s \<Rightarrow> act_bind (store_save L s) (\<lambda>_. act_lift (Inr s)) ex)"

definition exec_restore :: "hostlib \<Rightarrow> exec_config \<Rightarrow> machine_snapshot \<Rightarrow> (exec, machine_snapshot) action" where
  "exec_restore L cfg snapshot ex =
     (if snap_machine_id snapshot \<noteq> cfg_machine_id cfg \<or> snap_unit snapshot \<noteq> cfg_unit cfg then (Inl MachineConflict, ex)
      else case mem_latest (ex_journal ex) (cfg_machine_id cfg) of
          Inl e \<Rightarrow> (Inl e, ex)
        | Inr latest \<Rightarrow>
            if snap_revision snapshot \<noteq> (case latest of None \<Rightarrow> 0 | Some c \<Rightarrow> com_revision c) then (Inl MachineConflict, ex)
            else if snap_parent_commit_id snapshot \<noteq> map_option com_commit_id latest then (Inl MachineConflict, ex)
            else act_bind (store_save L snapshot) (\<lambda>_ ex2.
              (Inr snapshot, ex2\<lparr>ex_status := (case latest of None \<Rightarrow> READY | Some c \<Rightarrow> com_accepted_status c)\<rparr>))
              (ex\<lparr>ex_snapshot := Some snapshot\<rparr>))"

section \<open>Step\<close>

text \<open>Admission checks made before the executor lock is taken.\<close>

definition step_admission :: "exec_config \<Rightarrow> machine_command \<Rightarrow> unit res" where
  "step_admission cfg command =
     res_bind (require (cmd_machine_id command = cfg_machine_id cfg) MachineConflict) (\<lambda>_.
     res_bind (require (case cfg_family cfg of None \<Rightarrow> True
        | Some f \<Rightarrow> fam_command_kinds f = [] \<or> cmd_kind command \<in> set (fam_command_kinds f)) MachineConflict) (\<lambda>_.
     require (cfg_capabilities cfg = [] \<or>
        set (cmd_scope command) \<subseteq> (\<Union>c \<in> set (cfg_capabilities cfg). set (cap_permission_scope c))) MachineConflict))"

text \<open>\<^verbatim>\<open>dataclasses.replace\<close> runs the constructor again.\<close>

definition existing_command :: "hostlib \<Rightarrow> exec_config \<Rightarrow> machine_command \<Rightarrow> exec \<Rightarrow> machine_commit option res" where
  "existing_command L cfg command ex =
     res_bind (mem_command_commit (ex_journal ex) (cfg_machine_id cfg) (cmd_command_id command)) (\<lambda>found.
     case found of
       None \<Rightarrow> Inr None
     | Some commit \<Rightarrow>
         res_bind (assert_commit_unit_identity cfg commit) (\<lambda>_.
         res_bind (command_post_init L (command\<lparr>cmd_expected_revision := com_base_revision commit\<rparr>)) (\<lambda>replayed.
         res_bind (require (com_command_digest commit = cmd_payload_digest replayed) MachineConflict) (\<lambda>_.
         Inr (Some commit)))))"

definition validate_proposal :: "machine_command \<Rightarrow> machine_snapshot \<Rightarrow> transition_proposal \<Rightarrow> unit res" where
  "validate_proposal command state proposal =
     res_bind (require (prop_machine_id proposal = cmd_machine_id command) MachineExecutionError) (\<lambda>_.
     res_bind (require (prop_command_id proposal = cmd_command_id command) MachineExecutionError) (\<lambda>_.
     res_bind (require (prop_base_revision proposal = snap_revision state) MachineConflict) (\<lambda>_.
     require (\<forall>e \<in> set (prop_emitted_commands proposal). cmd_command_id e \<noteq> cmd_command_id command) MachineExecutionError)))"

definition step_commit ::
    "hostlib \<Rightarrow> exec_config \<Rightarrow> machine_command \<Rightarrow> machine_snapshot \<Rightarrow> transition_proposal \<Rightarrow> json \<Rightarrow> machine_commit res" where
  "step_commit L cfg command state proposal merged = commit_post_init L
     \<lparr>com_machine_id = cfg_machine_id cfg, com_command_id = cmd_command_id command,
      com_base_revision = snap_revision state, com_revision = snap_revision state + 1,
      com_proposal_digest = prop_proposal_digest proposal, com_command_digest = cmd_payload_digest command,
      com_unit_digest = unit_digest (cfg_unit cfg),
      com_execution_lock_digest = lock_digest (unit_execution_lock (cfg_unit cfg)), com_state = merged,
      com_output_refs = prop_output_refs proposal, com_event_payloads = prop_event_payloads proposal,
      com_effect_intent_refs = prop_effect_intent_refs proposal,
      com_emitted_commands = prop_emitted_commands proposal,
      com_previous_commit_id = snap_parent_commit_id state,
      com_before_state_digest = Some (snap_state_digest state),
      com_input_digest = Some (cmd_payload_digest command),
      com_machine_version = Some (ident_implementation_version (cfg_identity cfg)),
      com_input_refs = prop_input_refs proposal, com_state_delta_ref = Some (prop_state_delta_digest proposal),
      com_evidence_refs = prop_evidence_refs proposal, com_artifact_refs = prop_artifact_refs proposal,
      com_parent_transition_id = snap_parent_commit_id state,
      com_attempt_id = Some (cmd_payload_digest command),
      com_authority_epoch = map_option lease_epoch (cfg_lease cfg),
      com_child_links = prop_child_links proposal,
      com_accepted_status = (case prop_accepted_status proposal of Some s \<Rightarrow> s
        | None \<Rightarrow> if prop_wait_reason proposal \<noteq> None then WAITING else RUNNABLE),
      com_state_delta = Some (prop_state_delta proposal), com_state_content_digest = None,
      com_state_digest = [], com_commit_id = []\<rparr>"

text \<open>After the journal has accepted: publish the snapshot, then the outbox, then the status.\<close>

definition publish_commit :: "hostlib \<Rightarrow> exec_config \<Rightarrow> machine_commit \<Rightarrow> (exec, machine_commit) action" where
  "publish_commit L cfg commit ex =
     (case snapshot_of_commit L cfg commit of
        Inl e \<Rightarrow> (Inl e, ex)
      | Inr s \<Rightarrow> act_bind (outbox_send L commit) (\<lambda>_ ex2.
          (Inr commit, ex2\<lparr>ex_status := com_accepted_status commit\<rparr>)) (ex\<lparr>ex_snapshot := Some s\<rparr>))"

definition append_commit :: "hostlib \<Rightarrow> exec_config \<Rightarrow> machine_commit \<Rightarrow> (exec, machine_commit) action" where
  "append_commit L cfg commit ex =
     (case mem_append commit (ex_journal ex) of
        (Inl e, j) \<Rightarrow> (Inl e, ex\<lparr>ex_journal := j\<rparr>)
      | (Inr accepted, j) \<Rightarrow> publish_commit L cfg accepted (ex\<lparr>ex_journal := j\<rparr>))"

text \<open>What a step computes from the opened snapshot, before the second lease check.\<close>

definition step_proposal ::
    "(machine_command \<Rightarrow> machine_snapshot \<Rightarrow> transition_proposal res) \<Rightarrow> machine_command \<Rightarrow> exec
      \<Rightarrow> (machine_snapshot \<times> transition_proposal \<times> json) res" where
  "step_proposal propose command ex =
     res_bind (exec_require_open ex) (\<lambda>state.
     res_bind (require (cmd_expected_revision command = snap_revision state) MachineConflict) (\<lambda>_.
     res_bind (propose command state) (\<lambda>proposal.
     res_bind (validate_proposal command state proposal) (\<lambda>_.
     res_bind (require (prop_emitted_commands proposal = [] \<or> ex_outbox ex \<noteq> None) MachineExecutionError) (\<lambda>_.
     res_bind (apply_machine_state_delta (snap_state state) (prop_state_delta proposal)) (\<lambda>merged.
     Inr (state, proposal, merged)))))))"

definition step_fresh ::
    "hostlib \<Rightarrow> exec_config \<Rightarrow> clock_reading \<Rightarrow> clock_reading
      \<Rightarrow> (machine_command \<Rightarrow> machine_snapshot \<Rightarrow> transition_proposal res) \<Rightarrow> machine_command \<Rightarrow> (exec, machine_commit) action" where
  "step_fresh L cfg reading1 reading2 propose command =
     act_bind (assert_authority cfg reading1) (\<lambda>_ ex1.
     case step_proposal propose command ex1 of
       Inl e \<Rightarrow> (Inl e, ex1)
     | Inr (state, proposal, merged) \<Rightarrow>
         act_bind (assert_authority cfg reading2) (\<lambda>_ ex2.
         case step_commit L cfg command state proposal merged of
           Inl e \<Rightarrow> (Inl e, ex2)
         | Inr commit \<Rightarrow> append_commit L cfg commit ex2) ex1)"

definition exec_step ::
    "hostlib \<Rightarrow> exec_config \<Rightarrow> clock_reading \<Rightarrow> clock_reading \<Rightarrow> nat
      \<Rightarrow> (machine_command \<Rightarrow> machine_snapshot \<Rightarrow> transition_proposal res) \<Rightarrow> machine_command \<Rightarrow> (exec, machine_commit) action" where
  "exec_step L cfg reading1 reading2 proposer propose command ex =
     (case step_admission cfg command of
        Inl e \<Rightarrow> (Inl e, ex)
      | Inr _ \<Rightarrow>
          if ex_proposer ex \<noteq> None \<and> ex_proposer ex \<noteq> Some proposer then (Inl MachineConflict, ex)
          else (let ex1 = ex\<lparr>ex_proposer := Some proposer\<rparr> in
            case existing_command L cfg command ex1 of
              Inl e \<Rightarrow> (Inl e, ex1)
            | Inr (Some existing) \<Rightarrow>
                if com_emitted_commands existing \<noteq> [] \<and> ex_outbox ex1 = None then (Inl MachineIntegrityError, ex1)
                else publish_commit L cfg existing ex1
            | Inr None \<Rightarrow> step_fresh L cfg reading1 reading2 propose command ex1))"

section \<open>Replay and inspection\<close>

fun replay_scan ::
    "exec_config \<Rightarrow> int option \<Rightarrow> string option \<Rightarrow> string option \<Rightarrow> machine_commit option \<Rightarrow> machine_commit list
      \<Rightarrow> machine_commit option res" where
  "replay_scan cfg revision previous previous_digest selected [] = Inr selected"
| "replay_scan cfg revision previous previous_digest selected (commit # rest) =
     res_bind (require (com_machine_id commit = cfg_machine_id cfg) MachineIntegrityError) (\<lambda>_.
     res_bind (assert_commit_unit_identity cfg commit) (\<lambda>_.
     res_bind (require (com_previous_commit_id commit = previous) MachineIntegrityError) (\<lambda>_.
     res_bind (require (com_before_state_digest commit = None \<or> previous = None \<or>
        com_before_state_digest commit = previous_digest) MachineIntegrityError) (\<lambda>_.
     replay_scan cfg revision (Some (com_commit_id commit)) (Some (com_state_digest commit))
       (if (case revision of None \<Rightarrow> True | Some r \<Rightarrow> com_revision commit \<le> r) then Some commit else selected) rest))))"

definition exec_replay :: "hostlib \<Rightarrow> exec_config \<Rightarrow> int option \<Rightarrow> (exec, machine_snapshot) action" where
  "exec_replay L cfg revision ex =
     (let history = mem_commits (ex_journal ex) (cfg_machine_id cfg) in
      if history = [] then exec_open L cfg None ex
      else case res_bind (replay_scan cfg revision None None None history) (\<lambda>selected.
             case selected of None \<Rightarrow> Inl MachineConflict
             | Some c \<Rightarrow> res_bind (snapshot_of_commit L cfg c) (\<lambda>s. Inr (c, s))) of
          Inl e \<Rightarrow> (Inl e, ex)
        | Inr (c, s) \<Rightarrow> (Inr s, ex\<lparr>ex_snapshot := Some s, ex_status := com_accepted_status c\<rparr>))"

definition exec_inspect :: "exec_config \<Rightarrow> exec \<Rightarrow> machine_inspection res" where
  "exec_inspect cfg ex =
     res_bind (exec_require_open ex) (\<lambda>s. inspection_post_init
       \<lparr>insp_identity = cfg_identity cfg, insp_unit = cfg_unit cfg, insp_status = ex_status ex,
        insp_revision = snap_revision s, insp_state_digest = snap_state_digest s,
        insp_pending_command_ids = [], insp_last_commit_id = snap_parent_commit_id s\<rparr>)"

end
