(* ===== verification/ExecutorProofs.thy ===== *)
theory ExecutorProofs
  imports Executor
begin

text \<open>
  What the machine executor guarantees: which commits a step can add, what a successful step leaves
  behind, that resubmitting a committed command is answered from the journal, that a lost lease
  commits nothing, and that every history built by executor operations passes replay.
\<close>

section \<open>Frames of the parts of a step\<close>

lemma assert_authority_frame:
  "assert_authority cfg reading ex = (r, ex') \<Longrightarrow> \<exists>a. ex' = ex\<lparr>ex_authority := a\<rparr>"
  by (auto simp: assert_authority_def split: option.splits prod.splits intro: exI [of _ "ex_authority ex"])

lemma outbox_send_frame: "outbox_send L c ex = (r, ex') \<Longrightarrow> \<exists>ob. ex' = ex\<lparr>ex_outbox := ob\<rparr>"
  by (auto simp: outbox_send_def split: option.splits prod.splits intro: exI [of _ "ex_outbox ex"])

lemma publish_commit_frame:
  assumes "publish_commit L cfg c ex = (r, ex')"
  shows "ex_journal ex' = ex_journal ex \<and> ex_store ex' = ex_store ex \<and> ex_proposer ex' = ex_proposer ex \<and>
    (ex_snapshot ex' = ex_snapshot ex \<or>
     (\<exists>s. snapshot_of_commit L cfg c = Inr s \<and> ex_snapshot ex' = Some s))"
proof (cases "snapshot_of_commit L cfg c")
  case (Inr s)
  obtain q ex1 where send: "outbox_send L c (ex\<lparr>ex_snapshot := Some s\<rparr>) = (q, ex1)" by force
  with outbox_send_frame [OF send] assms Inr show ?thesis
    by (auto simp: publish_commit_def act_bind_def split: sum.splits)
qed (use assms in \<open>auto simp: publish_commit_def\<close>)

lemma publish_commit_Inr:
  assumes "publish_commit L cfg c ex = (Inr c', ex')"
  shows "c' = c" "ex_status ex' = com_accepted_status c" "ex_authority ex' = ex_authority ex"
    and "\<exists>s. snapshot_of_commit L cfg c = Inr s \<and> ex_snapshot ex' = Some s"
    and "ex_outbox ex' = None \<longleftrightarrow> ex_outbox ex = None"
    and "ex_outbox ex = Some ob \<Longrightarrow> \<exists>es ob'. outbox_enqueue L c ob = (Inr es, ob') \<and> ex_outbox ex' = Some ob'"
  using assms
  by (auto simp: publish_commit_def outbox_send_def res_simps split: sum.splits option.splits prod.splits)

section \<open>What a fresh step does\<close>

lemma step_proposal_authority [simp]:
  "step_proposal propose command (ex\<lparr>ex_authority := a\<rparr>) = step_proposal propose command ex"
  by (simp add: step_proposal_def exec_require_open_def)

lemma step_fresh_cases:
  assumes "step_fresh L cfg reading1 reading2 propose command ex = (r, ex')"
  obtains (refused) e a where "r = Inl e" "ex' = ex\<lparr>ex_authority := a\<rparr>"
  | (appended) state proposal merged commit ex1 ex2 a where
      "assert_authority cfg reading1 ex = (Inr (), ex1)"
      "step_proposal propose command ex = Inr (state, proposal, merged)"
      "assert_authority cfg reading2 ex1 = (Inr (), ex2)" "ex2 = ex\<lparr>ex_authority := a\<rparr>"
      "step_commit L cfg command state proposal merged = Inr commit"
      "append_commit L cfg commit ex2 = (r, ex')"
proof -
  obtain r1 ex1 where a1: "assert_authority cfg reading1 ex = (r1, ex1)" by force
  obtain b1 where ex1: "ex1 = ex\<lparr>ex_authority := b1\<rparr>" using assert_authority_frame [OF a1] by blast
  obtain r2 ex2 where a2: "assert_authority cfg reading2 ex1 = (r2, ex2)" by force
  obtain b2 where ex2: "ex2 = ex\<lparr>ex_authority := b2\<rparr>" using assert_authority_frame [OF a2] ex1 by auto
  show thesis
  proof (cases "(\<exists>e. r1 = Inl e) \<or> (\<exists>e. step_proposal propose command ex = Inl e)")
    case True
    then show thesis
      using assms a1 ex1 refused [of _ b1] by (auto simp: step_fresh_def act_bind_def split: sum.splits)
  next
    case False
    then obtain st p m where p: "r1 = Inr ()" "step_proposal propose command ex = Inr (st, p, m)"
      by (cases r1; cases "step_proposal propose command ex") auto
    from ex1 p(2) have p1: "step_proposal propose command ex1 = Inr (st, p, m)" by simp
    have eq: "step_fresh L cfg reading1 reading2 propose command ex =
        (case r2 of Inl e \<Rightarrow> (Inl e, ex2) | Inr _ \<Rightarrow>
          (case step_commit L cfg command st p m of Inl e \<Rightarrow> (Inl e, ex2) | Inr c \<Rightarrow> append_commit L cfg c ex2))"
      by (simp add: step_fresh_def act_bind_def a1 p(1) p1 a2 split: sum.split)
    show thesis
    proof (cases "\<exists>c. r2 = Inr () \<and> step_commit L cfg command st p m = Inr c")
      case True
      then obtain c where c: "r2 = Inr ()" "step_commit L cfg command st p m = Inr c" by blast
      show thesis
        by (rule appended [OF a1 [unfolded p(1)] p(2) a2 [unfolded c(1)] ex2 c(2)])
          (use assms eq c in simp)
    next
      case False
      then have "\<exists>e. step_fresh L cfg reading1 reading2 propose command ex = (Inl e, ex2)"
        unfolding eq by (auto split: sum.split)
      with assms ex2 refused [of _ b2] show thesis by auto
    qed
  qed
qed

text \<open>The commit a step builds from the opened snapshot.\<close>

lemma step_commit_fields:
  assumes "step_commit L cfg command state proposal merged = Inr c"
  shows "commit_ok L c" "com_machine_id c = cfg_machine_id cfg" "com_command_id c = cmd_command_id command"
    "com_base_revision c = snap_revision state" "com_revision c = com_base_revision c + 1" "com_state c = merged"
    "com_command_digest c = cmd_payload_digest command" "com_state_delta c = Some (prop_state_delta proposal)"
    "com_previous_commit_id c = snap_parent_commit_id state"
    "com_before_state_digest c = Some (snap_state_digest state)"
    "com_unit_digest c = unit_digest (cfg_unit cfg)"
    "com_execution_lock_digest c = lock_digest (unit_execution_lock (cfg_unit cfg))"
    "com_emitted_commands c = prop_emitted_commands proposal"
    "com_child_links c = prop_child_links proposal"
    "com_effect_intent_refs c = prop_effect_intent_refs proposal"
    "com_authority_epoch c = map_option lease_epoch (cfg_lease cfg)"
proof -
  note s = assms [unfolded step_commit_def]
  show ok: "commit_ok L c" by (rule commit_ok_post_init [OF s])
  show "com_revision c = com_base_revision c + 1" by (rule commit_ok_facts(1) [OF ok])
qed (use assms in \<open>(unfold step_commit_def, elim commit_post_init_Inr, simp add: Let_def)+\<close>)

text \<open>
  A fresh commit of a step: the proposer was asked with the command and the opened snapshot, its
  delta was applied to that snapshot's state, and the commit was constructed from the result.
\<close>

definition fresh_commit ::
    "hostlib \<Rightarrow> exec_config \<Rightarrow> (machine_command \<Rightarrow> machine_snapshot \<Rightarrow> transition_proposal res) \<Rightarrow> machine_command
      \<Rightarrow> exec \<Rightarrow> machine_commit \<Rightarrow> bool" where
  "fresh_commit L cfg propose command ex c =
     (\<exists>state proposal merged. ex_snapshot ex = Some state \<and> cmd_expected_revision command = snap_revision state \<and>
       propose command state = Inr proposal \<and> validate_proposal command state proposal = Inr () \<and>
       (prop_emitted_commands proposal = [] \<or> ex_outbox ex \<noteq> None) \<and>
       apply_machine_state_delta (snap_state state) (prop_state_delta proposal) = Inr merged \<and>
       step_commit L cfg command state proposal merged = Inr c)"

lemma step_proposal_fresh:
  "step_proposal propose command ex = Inr (state, proposal, merged) \<Longrightarrow>
   step_commit L cfg command state proposal merged = Inr c \<Longrightarrow> fresh_commit L cfg propose command ex c"
  by (auto simp: step_proposal_def exec_require_open_def fresh_commit_def res_simps split: option.splits)

text \<open>Both lease checks of a step passed: with an authority bound, the lease was the stored one at each.\<close>

lemma assert_authority_held:
  assumes "assert_authority cfg reading ex = (Inr (), ex')" "ex_authority ex = Some a" "cfg_lease cfg = Some l"
  shows "auth_leases a (lease_machine_id l) = Some l"
  using assms by (auto simp: assert_authority_def res_simps split: prod.splits dest!: auth_assert_held_current)

section \<open>What a step can do to the journal\<close>

lemma append_commit_journal:
  assumes "mem_wf (ex_journal ex)" "com_revision c = com_base_revision c + 1"
    and "append_commit L cfg c ex = (r, ex')"
  shows "mem_wf (ex_journal ex')"
    and "mem_commits (ex_journal ex') = mem_commits (ex_journal ex) \<or>
      mem_commits (ex_journal ex') =
        (mem_commits (ex_journal ex))(com_machine_id c := mem_commits (ex_journal ex) (com_machine_id c) @ [c])"
    and "r = Inr c' \<Longrightarrow> c' \<in> set (mem_commits (ex_journal ex') (com_machine_id c)) \<and>
      (c' = c \<or> mem_commits (ex_journal ex') = mem_commits (ex_journal ex))"
proof -
  obtain q j where app: "mem_append c (ex_journal ex) = (q, j)" by force
  have j: "ex_journal ex' = j"
    using assms(3) app publish_commit_frame [of L cfg _ "ex\<lparr>ex_journal := j\<rparr>" r ex']
    by (auto simp: append_commit_def split: sum.splits)
  show "mem_wf (ex_journal ex')" using mem_append_wf [OF assms(1,2)] app by (simp add: j)
  show "mem_commits (ex_journal ex') = mem_commits (ex_journal ex) \<or>
      mem_commits (ex_journal ex') =
        (mem_commits (ex_journal ex))(com_machine_id c := mem_commits (ex_journal ex) (com_machine_id c) @ [c])"
  proof (cases q)
    case (Inl e)
    with app mem_append_refused [of c "ex_journal ex" e j] show ?thesis by (auto simp: j)
  next
    case (Inr a)
    with app mem_append_commits [OF assms(1,2), of a j] show ?thesis by (auto simp: j)
  qed
  show "c' \<in> set (mem_commits (ex_journal ex') (com_machine_id c)) \<and>
      (c' = c \<or> mem_commits (ex_journal ex') = mem_commits (ex_journal ex))" if "r = Inr c'"
  proof -
    from that assms(3) app obtain a where q: "q = Inr a"
      and pub: "publish_commit L cfg a (ex\<lparr>ex_journal := j\<rparr>) = (Inr c', ex')"
      by (auto simp: append_commit_def split: sum.splits)
    show ?thesis
      using mem_append_commits [OF assms(1,2) app [unfolded q]] publish_commit_Inr(1) [OF pub] by (auto simp: j)
  qed
qed

text \<open>A resubmitted command is looked up, never appended.\<close>

lemma existing_command_Some:
  assumes "existing_command L cfg command ex = Inr (Some c)" "mem_wf (ex_journal ex)"
  shows "c \<in> set (mem_commits (ex_journal ex) (cfg_machine_id cfg))" "com_command_id c = cmd_command_id command"
    and "assert_commit_unit_identity cfg c = Inr ()"
proof -
  from assms(1) obtain h where h: "mem_histories (ex_journal ex) (cfg_machine_id cfg) = Some h"
    and c: "hist_by_command h (cmd_command_id command) = Some c" and u: "assert_commit_unit_identity cfg c = Inr ()"
    by (auto simp: existing_command_def mem_command_commit_def res_simps split: option.splits if_splits)
  from h assms(2) have "history_wf h" by (auto simp: mem_wf_def)
  with c have "c \<in> set (hist_commits h) \<and> com_command_id c = cmd_command_id command"
    by (auto simp: history_wf_def dest!: map_of_SomeD)
  with h show "c \<in> set (mem_commits (ex_journal ex) (cfg_machine_id cfg))" "com_command_id c = cmd_command_id command"
    by (auto simp: mem_commits_def)
  show "assert_commit_unit_identity cfg c = Inr ()" by (rule u)
qed

lemma exec_step_cases:
  assumes "exec_step L cfg reading1 reading2 proposer propose command ex = (r, ex')"
  obtains (refused) e p where "r = Inl e" "ex' = ex\<lparr>ex_proposer := p\<rparr>"
  | (replayed) c where "existing_command L cfg command ex = Inr (Some c)"
      "publish_commit L cfg c (ex\<lparr>ex_proposer := Some proposer\<rparr>) = (r, ex')"
  | (fresh) "existing_command L cfg command ex = Inr None"
      "step_fresh L cfg reading1 reading2 propose command (ex\<lparr>ex_proposer := Some proposer\<rparr>) = (r, ex')"
proof -
  let ?ex1 = "ex\<lparr>ex_proposer := Some proposer\<rparr>"
  have look: "existing_command L cfg command ?ex1 = existing_command L cfg command ex"
    by (simp add: existing_command_def)
  have same: "ex = ex\<lparr>ex_proposer := ex_proposer ex\<rparr>" by simp
  consider (early) e where "(r, ex') = (Inl e, ex)" | (late) e where "(r, ex') = (Inl e, ?ex1)"
    | (old) c where "existing_command L cfg command ex = Inr (Some c)" "publish_commit L cfg c ?ex1 = (r, ex')"
    | (new) "existing_command L cfg command ex = Inr None"
        "step_fresh L cfg reading1 reading2 propose command ?ex1 = (r, ex')"
    using assms unfolding exec_step_def Let_def look
    by (auto split: sum.splits option.splits if_splits)
  then show thesis
  proof cases
    case early
    with refused [of _ "ex_proposer ex"] show thesis by simp
  next
    case late
    with refused [of _ "Some proposer"] show thesis by simp
  qed (use replayed fresh in blast)+
qed

text \<open>
  A step adds at most one commit to its machine's history, and only one built from the opened
  snapshot by the proposer's delta, whatever the step then returns.
\<close>

lemma fresh_commit_proposer [simp]:
  "fresh_commit L cfg propose command (ex\<lparr>ex_proposer := p\<rparr>) c = fresh_commit L cfg propose command ex c"
  by (simp add: fresh_commit_def)

lemma exec_step_journal:
  assumes "mem_wf (ex_journal ex)" "exec_step L cfg reading1 reading2 proposer propose command ex = (r, ex')"
  shows "mem_wf (ex_journal ex') \<and>
    (mem_commits (ex_journal ex') = mem_commits (ex_journal ex) \<or>
     (\<exists>c. fresh_commit L cfg propose command ex c \<and> com_machine_id c = cfg_machine_id cfg \<and>
       mem_commits (ex_journal ex') = (mem_commits (ex_journal ex))
         (cfg_machine_id cfg := mem_commits (ex_journal ex) (cfg_machine_id cfg) @ [c])))"
  using assms(2)
proof (cases rule: exec_step_cases)
  case (refused e p)
  then show ?thesis using assms(1) by simp
next
  case (replayed c)
  then show ?thesis using assms(1) publish_commit_frame [OF replayed(2)] by simp
next
  case fresh
  from fresh(2) show ?thesis
  proof (cases rule: step_fresh_cases)
    case (refused e a)
    then show ?thesis using assms(1) by simp
  next
    case (appended state proposal merged commit ex1 ex2 a)
    note f = step_commit_fields [OF appended(5)]
    have wf: "mem_wf (ex_journal ex2)" using assms(1) appended(4) by simp
    have "fresh_commit L cfg propose command ex commit"
      using step_proposal_fresh [OF appended(2,5)] by simp
    then show ?thesis
      using append_commit_journal(1,2) [OF wf f(5) appended(6)] f(2) appended(4) by auto
  qed
qed

section \<open>What a successful step leaves behind\<close>

lemma append_commit_Inr:
  assumes "append_commit L cfg c ex = (Inr c', ex')"
  obtains j where "mem_append c (ex_journal ex) = (Inr c', j)"
    "publish_commit L cfg c' (ex\<lparr>ex_journal := j\<rparr>) = (Inr c', ex')"
proof -
  from assms obtain a j where a: "mem_append c (ex_journal ex) = (Inr a, j)"
    "publish_commit L cfg a (ex\<lparr>ex_journal := j\<rparr>) = (Inr c', ex')"
    by (auto simp: append_commit_def split: sum.splits prod.splits)
  with that publish_commit_Inr(1) [OF a(2)] show thesis by simp
qed

text \<open>Every success, replayed or fresh, ends in \<open>publish_commit\<close> of a commit the journal holds.\<close>

lemma exec_step_published:
  assumes "mem_wf (ex_journal ex)" "exec_step L cfg reading1 reading2 proposer propose command ex = (Inr c, ex')"
  obtains ex0 where "publish_commit L cfg c ex0 = (Inr c, ex')" "ex_outbox ex0 = ex_outbox ex"
    "c \<in> set (mem_commits (ex_journal ex') (cfg_machine_id cfg))"
  using assms(2)
proof (cases rule: exec_step_cases)
  case (replayed d)
  have "d = c" using publish_commit_Inr(1) [OF replayed(2)] by simp
  then show thesis
    using that [of "ex\<lparr>ex_proposer := Some proposer\<rparr>"] replayed existing_command_Some(1) [OF replayed(1) assms(1)]
      publish_commit_frame [OF replayed(2)] by simp
next
  case fresh
  from fresh(2) show thesis
  proof (cases rule: step_fresh_cases)
    case (appended state proposal merged commit ex1 ex2 a)
    note f = step_commit_fields [OF appended(5)]
    have wf: "mem_wf (ex_journal ex2)" using assms(1) appended(4) by simp
    obtain j where "publish_commit L cfg c (ex2\<lparr>ex_journal := j\<rparr>) = (Inr c, ex')"
      using appended(6) by (rule append_commit_Inr) blast
    then show thesis
      using that [of "ex2\<lparr>ex_journal := j\<rparr>"] append_commit_journal(3) [OF wf f(5) appended(6) refl] f(2) appended(4) by simp
  qed simp
qed simp

lemma exec_step_success:
  assumes "mem_wf (ex_journal ex)" "exec_step L cfg reading1 reading2 proposer propose command ex = (Inr c, ex')"
  shows "c \<in> set (mem_commits (ex_journal ex') (cfg_machine_id cfg)) \<and> ex_status ex' = com_accepted_status c \<and>
    (\<exists>s. snapshot_of_commit L cfg c = Inr s \<and> ex_snapshot ex' = Some s)"
  using exec_step_published [OF assms] publish_commit_Inr(2,4) by metis

lemma exec_step_outbox:
  assumes "sha_ok L" "mem_wf (ex_journal ex)" "ex_outbox ex = Some ob" "outbox_wf ob"
    and "exec_step L cfg reading1 reading2 proposer propose command ex = (Inr c, ex')"
  shows "\<exists>ob'. ex_outbox ex' = Some ob' \<and> outbox_wf ob' \<and> outbox_le ob ob' \<and>
    (\<forall>emitted \<in> set (com_emitted_commands c). \<exists>e. mk_envelope L c emitted = Inr e \<and> enqueued ob' e)"
proof -
  obtain ex0 where ex0: "publish_commit L cfg c ex0 = (Inr c, ex')" "ex_outbox ex0 = ex_outbox ex"
    using exec_step_published [OF assms(2,5)] by blast
  obtain es ob' where e: "outbox_enqueue L c ob = (Inr es, ob')" "ex_outbox ex' = Some ob'"
    using publish_commit_Inr(6) [OF ex0(1)] ex0(2) assms(3) by auto
  show ?thesis
    using e(2) outbox_enqueue_wf_le [OF assms(1,4) e(1)] outbox_enqueue_enqueued [OF assms(1,4) e(1)]
    by (auto dest: list_all2_ex1)
qed

section \<open>Fencing\<close>

lemma exec_step_needs_lease:
  assumes "mem_wf (ex_journal ex)" "exec_step L cfg reading1 reading2 proposer propose command ex = (r, ex')"
    and "ex_authority ex = Some a" "cfg_lease cfg = Some l" "\<not> is_ok (fst (auth_assert_held reading1 l a))"
  shows "ex_journal ex' = ex_journal ex"
  using assms(2)
proof (cases rule: exec_step_cases)
  case (replayed c)
  then show ?thesis using publish_commit_frame [OF replayed(2)] by simp
next
  case fresh
  from fresh(2) show ?thesis
  proof (cases rule: step_fresh_cases)
    case (appended state proposal merged commit ex1 ex2 b)
    from appended(1) assms(3-5) show ?thesis
      by (auto simp: assert_authority_def res_simps split: prod.splits)
  qed simp
qed simp

section \<open>Resubmission\<close>

lemma existing_command_look:
  assumes "mem_wf (ex_journal ex)" "c \<in> set (mem_commits (ex_journal ex) (cfg_machine_id cfg))"
    and "com_command_id c = cmd_command_id command" "nonblank (cfg_machine_id cfg)" "nonblank (cmd_command_id command)"
    and "assert_commit_unit_identity cfg c = Inr ()"
    and "command_post_init L (command\<lparr>cmd_expected_revision := com_base_revision c\<rparr>) = Inr replayed"
    and "com_command_digest c = cmd_payload_digest replayed"
  shows "existing_command L cfg command ex = Inr (Some c)"
proof -
  have h: "mem_histories (ex_journal ex) (cfg_machine_id cfg) = Some (mem_history (ex_journal ex) (cfg_machine_id cfg))"
    using assms(2)
    by (cases "mem_histories (ex_journal ex) (cfg_machine_id cfg)") (simp_all add: mem_commits_def mem_history_def)
  have "hist_by_command (mem_history (ex_journal ex) (cfg_machine_id cfg)) (com_command_id c) = Some c"
    using mem_wf_history [OF assms(1)] assms(2)
    by (auto simp: history_wf_def comp_def mem_commits_history intro!: map_of_is_SomeI)
  with h assms(3-8) show ?thesis by (simp add: existing_command_def mem_command_commit_def)
qed

lemma enqueue_one_again:
  assumes "sha_ok L" "mk_envelope L c command = Inr e" "enqueued ob e"
  shows "\<exists>ob'. enqueue_one L c command ob = (Inr e, ob')"
proof -
  have sha: "is_sha256 (env_id e)" "is_sha256 (env_digest e)"
    using assms(2) canonical_digest_sha256 [OF assms(1)]
    by (auto simp: mk_envelope_def envelope_post_init_def res_simps Let_def)
  have "\<not> prior_differs ob e" using assms(3) by (auto simp: prior_differs_def enqueued_def)
  then show ?thesis
    using assms(2) sha by (simp add: enqueue_one_def pending_receipt_def receipt_post_init_def is_sha256_nonblank Let_def)
qed

lemma outbox_enqueue_again:
  assumes "sha_ok L" "outbox_wf ob"
    and "\<forall>command \<in> set (com_emitted_commands c). \<exists>e. mk_envelope L c command = Inr e \<and> enqueued ob e"
  shows "\<exists>es ob'. outbox_enqueue L c ob = (Inr es, ob')"
proof -
  have "\<exists>es ob'. act_map (enqueue_one L c) cs ob = (Inr es, ob')"
    if "outbox_wf ob" "\<forall>command \<in> set cs. \<exists>e. mk_envelope L c command = Inr e \<and> enqueued ob e" for cs ob
    using that
  proof (induction cs arbitrary: ob)
    case (Cons x cs)
    then obtain e where e: "mk_envelope L c x = Inr e" "enqueued ob e" by auto
    obtain ob1 where ob1: "enqueue_one L c x ob = (Inr e, ob1)" using enqueue_one_again [OF assms(1) e] by blast
    have le: "outbox_wf ob1" "outbox_le ob ob1"
      using enqueue_one_wf_le [OF assms(1) Cons.prems(1) ob1] by auto
    obtain es ob2 where "act_map (enqueue_one L c) cs ob1 = (Inr es, ob2)"
      using Cons.IH [OF le(1)] Cons.prems(2) enqueued_mono [OF le(2)] by (meson list.set_intros(2))
    with ob1 show ?case by (simp add: act_bind_def act_lift_def)
  qed simp
  with assms(2,3) show ?thesis by (simp add: outbox_enqueue_def)
qed

text \<open>Changing only the expected revision of a command reconstructs to the same command but for its digest.\<close>

lemma command_retarget:
  assumes "command_ok L command" "0 \<le> n"
  shows "command_post_init L (command\<lparr>cmd_expected_revision := n, cmd_payload_digest := x\<rparr>) =
    Inr (command\<lparr>cmd_expected_revision := n,
      cmd_payload_digest := canonical_digest L (jobj (command_payload (command\<lparr>cmd_expected_revision := n\<rparr>)))\<rparr>)"
proof -
  have "freeze_json (cmd_payload command) = Inr (cmd_payload command)"
    using assms(1) arg_cong [of _ _ cmd_payload]
    by (auto simp: command_ok_def command_post_init_def res_simps Let_def)
  with assms show ?thesis
    by (simp add: command_ok_def command_post_init_def res_simps Let_def command_payload_def)
qed

lemma exec_step_resubmit:
  assumes sha: "sha_ok L" and wf: "mem_wf (ex_journal ex)"
    and ob: "\<And>o1. ex_outbox ex = Some o1 \<Longrightarrow> outbox_wf o1 \<and>
      (\<forall>emitted \<in> set (com_emitted_commands c). \<exists>e. mk_envelope L c emitted = Inr e \<and> enqueued o1 e)"
      "ex_outbox ex = None \<Longrightarrow> com_emitted_commands c = []"
    and adm: "step_admission cfg command = Inr ()" "ex_proposer ex = Some proposer"
    and look: "existing_command L cfg command ex = Inr (Some c)"
    and snap: "snapshot_of_commit L cfg c = Inr s"
  shows "\<exists>ex'. exec_step L cfg reading1 reading2 proposer propose command ex = (Inr c, ex') \<and>
    ex_journal ex' = ex_journal ex \<and> ex_snapshot ex' = Some s \<and> ex_status ex' = com_accepted_status c"
proof -
  have same: "ex\<lparr>ex_proposer := Some proposer\<rparr> = ex" using adm(2) by simp
  have step: "exec_step L cfg reading1 reading2 proposer propose command ex = publish_commit L cfg c ex"
    using adm look ob(2) by (auto simp: exec_step_def same)
  show ?thesis
  proof (cases "ex_outbox ex")
    case None
    then show ?thesis
      unfolding step by (simp add: publish_commit_def snap act_bind_def outbox_send_def)
  next
    case (Some o1)
    obtain es o2 where "outbox_enqueue L c o1 = (Inr es, o2)"
      using outbox_enqueue_again [OF sha, of o1 c] ob(1) [OF Some] by blast
    then show ?thesis
      unfolding step by (simp add: publish_commit_def snap act_bind_def outbox_send_def Some)
  qed
qed

lemma existing_command_None:
  assumes "existing_command L cfg command ex = Inr None" "mem_wf (ex_journal ex)"
    and "d \<in> set (mem_commits (ex_journal ex) (cfg_machine_id cfg))"
  shows "com_command_id d \<noteq> cmd_command_id command"
proof -
  from assms(3) obtain h where h: "mem_histories (ex_journal ex) (cfg_machine_id cfg) = Some h" "d \<in> set (hist_commits h)"
    by (cases "mem_histories (ex_journal ex) (cfg_machine_id cfg)") (auto simp: mem_commits_def)
  with assms(2) have "history_wf h" by (auto simp: mem_wf_def)
  with h(2) have "hist_by_command h (com_command_id d) = Some d"
    by (auto simp: history_wf_def comp_def intro!: map_of_is_SomeI)
  with assms(1) h(1) show ?thesis
    by (auto simp: existing_command_def mem_command_commit_def res_simps split: option.splits if_splits)
qed

text \<open>What is known of the commit that answered a command.\<close>

definition answers :: "hostlib \<Rightarrow> exec_config \<Rightarrow> machine_command \<Rightarrow> machine_commit \<Rightarrow> bool" where
  "answers L cfg command c =
     (assert_commit_unit_identity cfg c = Inr () \<and> com_command_id c = cmd_command_id command \<and>
      (\<exists>replayed. command_post_init L (command\<lparr>cmd_expected_revision := com_base_revision c\<rparr>) = Inr replayed \<and>
        com_command_digest c = cmd_payload_digest replayed))"

lemma fresh_commit_answers:
  assumes "fresh_commit L cfg propose command ex c" "command_ok L command"
  shows "answers L cfg command c" "ex_outbox ex = None \<Longrightarrow> com_emitted_commands c = []"
proof -
  obtain state proposal merged where f: "cmd_expected_revision command = snap_revision state"
    "prop_emitted_commands proposal = [] \<or> ex_outbox ex \<noteq> None" "step_commit L cfg command state proposal merged = Inr c"
    using assms(1) by (auto simp: fresh_commit_def)
  note g = step_commit_fields [OF f(3)]
  have "command\<lparr>cmd_expected_revision := com_base_revision c\<rparr> = command" using f(1) g(4) by simp
  with assms(2) g show "answers L cfg command c"
    by (simp add: answers_def command_ok_def assert_commit_unit_identity_def)
  show "com_emitted_commands c = []" if "ex_outbox ex = None" using f(2) g(13) that by simp
qed

lemma exec_step_answers:
  assumes "mem_wf (ex_journal ex)" "exec_step L cfg reading1 reading2 proposer propose command ex = (Inr c, ex')"
    and "com_command_id c = cmd_command_id command" "command_ok L command"
  shows "answers L cfg command c \<and> (ex_outbox ex' = None \<longrightarrow> com_emitted_commands c = []) \<and>
    ex_proposer ex' = Some proposer"
  using assms(2)
proof (cases rule: exec_step_cases)
  case (replayed d)
  have d: "d = c" "ex_proposer ex' = Some proposer" "ex_outbox ex' = None \<longleftrightarrow> ex_outbox ex = None"
    using publish_commit_Inr(1,5) [OF replayed(2)] publish_commit_frame [OF replayed(2)] by auto
  have "ex_outbox ex = None \<Longrightarrow> com_emitted_commands c = []"
    using assms(2) replayed(1) d(1)
    by (auto simp: exec_step_def Let_def existing_command_def split: sum.splits if_splits)
  with replayed(1) d assms(3) show ?thesis
    by (auto simp: answers_def existing_command_def res_simps split: option.splits)
next
  case fresh
  from fresh(2) show ?thesis
  proof (cases rule: step_fresh_cases)
    case (appended state proposal merged commit ex1 ex2 a)
    note f = step_commit_fields [OF appended(5)]
    have ex2: "mem_wf (ex_journal ex2)" "ex_journal ex2 = ex_journal ex" "ex_outbox ex2 = ex_outbox ex"
      "ex_proposer ex2 = Some proposer" using assms(1) appended(4) by simp_all
    obtain j where j: "mem_append commit (ex_journal ex2) = (Inr c, j)"
      "publish_commit L cfg c (ex2\<lparr>ex_journal := j\<rparr>) = (Inr c, ex')"
      using appended(6) by (rule append_commit_Inr)
    have "c = commit"
      using mem_append_commits [OF ex2(1) f(5) j(1)] f(2) ex2(2)
        existing_command_None [OF fresh(1) assms(1), of c] assms(3) by auto
    then have "fresh_commit L cfg propose command ex c"
      using step_proposal_fresh [OF appended(2,5)] by simp
    from fresh_commit_answers [OF this assms(4)] show ?thesis
      using publish_commit_Inr(5) [OF j(2)] publish_commit_frame [OF j(2)] ex2 by auto
  qed simp
qed simp

lemma exec_step_admitted:
  "exec_step L cfg reading1 reading2 proposer propose command ex = (Inr c, ex') \<Longrightarrow> step_admission cfg command = Inr ()"
  by (auto simp: exec_step_def split: sum.splits)

lemma answers_retarget:
  assumes "answers L cfg command c" "command_ok L command" "0 \<le> com_base_revision c"
    and "command_post_init L (command\<lparr>cmd_expected_revision := n\<rparr>) = Inr retry"
  shows "answers L cfg retry c" "step_admission cfg retry = step_admission cfg command"
    "cmd_command_id retry = cmd_command_id command"
proof -
  have "0 \<le> n" using assms(4) by (auto simp: command_post_init_def res_simps)
  from command_retarget [OF assms(2) this, of "cmd_payload_digest command"] assms(4)
  have r: "retry = command\<lparr>cmd_expected_revision := n,
      cmd_payload_digest := canonical_digest L (jobj (command_payload (command\<lparr>cmd_expected_revision := n\<rparr>)))\<rparr>"
    by simp
  show "step_admission cfg retry = step_admission cfg command" "cmd_command_id retry = cmd_command_id command"
    by (simp_all add: r step_admission_def cong: option.case_cong)
  have "retry\<lparr>cmd_expected_revision := com_base_revision c\<rparr> = command\<lparr>cmd_expected_revision := com_base_revision c,
      cmd_payload_digest := cmd_payload_digest retry\<rparr>" "cmd_command_id retry = cmd_command_id command"
    by (simp_all add: r)
  then show "answers L cfg retry c"
    using assms(1) command_retarget [OF assms(2,3), of "cmd_payload_digest command"]
      command_retarget [OF assms(2,3), of "cmd_payload_digest retry"]
    by (auto simp: answers_def)
qed

lemma exec_step_retry:
  assumes "sha_ok L" "mem_wf (ex_journal ex)" "\<And>o1. ex_outbox ex = Some o1 \<Longrightarrow> outbox_wf o1" "command_ok L command"
    and first: "exec_step L cfg reading1 reading2 proposer propose command ex = (Inr c, ex1)"
    and own: "com_command_id c = cmd_command_id command" "0 \<le> com_base_revision c"
    and retry: "command_post_init L (command\<lparr>cmd_expected_revision := n\<rparr>) = Inr retry"
  shows "\<exists>ex2. exec_step L cfg reading3 reading4 proposer propose' retry ex1 = (Inr c, ex2) \<and>
    ex_journal ex2 = ex_journal ex1 \<and> ex_snapshot ex2 = ex_snapshot ex1 \<and> ex_status ex2 = ex_status ex1"
proof -
  note a = exec_step_answers [OF assms(2) first own(1) assms(4)]
  note r = answers_retarget [OF a [THEN conjunct1] assms(4) own(2) retry]
  obtain s where s: "snapshot_of_commit L cfg c = Inr s" "ex_snapshot ex1 = Some s"
    and st: "ex_status ex1 = com_accepted_status c" and c: "c \<in> set (mem_commits (ex_journal ex1) (cfg_machine_id cfg))"
    using exec_step_success [OF assms(2) first] by blast
  have wf1: "mem_wf (ex_journal ex1)" using exec_step_journal [OF assms(2) first] by simp
  have ids: "nonblank (cfg_machine_id cfg)" "nonblank (cmd_command_id retry)"
    using s(1) assms(4) r(3)
    by (auto simp: snapshot_of_commit_def snapshot_post_init_def command_ok_def command_post_init_def res_simps)
  have look: "existing_command L cfg retry ex1 = Inr (Some c)"
    using existing_command_look [OF wf1 c _ ids] r(1) by (auto simp: answers_def)
  have ob: "outbox_wf o1 \<and> (\<forall>emitted \<in> set (com_emitted_commands c).
      \<exists>e. mk_envelope L c emitted = Inr e \<and> enqueued o1 e)" if o1: "ex_outbox ex1 = Some o1" for o1
  proof -
    obtain o0 where "ex_outbox ex = Some o0"
      using exec_step_published [OF assms(2) first] publish_commit_Inr(5) o1 by (metis option.exhaust option.distinct(1))
    with exec_step_outbox [OF assms(1,2) this assms(3) [OF this] first] o1 show ?thesis by auto
  qed
  show ?thesis
    using exec_step_resubmit [OF assms(1) wf1 ob _ _ _ look s(1)] a r(2) exec_step_admitted [OF first] s(2) st by simp
qed

end
