(* ===== verification/ExecutorHistory.thy ===== *)
theory ExecutorHistory
  imports ExecutorProofs
begin

text \<open>
  The histories an executor builds.  Whatever sequence of open, step, checkpoint, restore, replay and
  reconcile calls is made, the journal holds constructed commits, each of which carries the delta that
  turns its predecessor's state into its own and the identity of that predecessor's state; replay
  therefore never refuses such a history.
\<close>

section \<open>Accepted histories\<close>

text \<open>A proposal as the constructors leave it, with well-formed values.\<close>

definition proposal_ok :: "hostlib \<Rightarrow> transition_proposal \<Rightarrow> bool" where
  "proposal_ok L p =
     (delta_ok L (prop_state_delta p) \<and> (\<forall>m \<in> set (delta_mutations (prop_state_delta p)). json_wf (mut_value m)) \<and>
      (\<forall>x \<in> set (prop_emitted_commands p). command_ok L x) \<and> (\<forall>l \<in> set (prop_child_links p). child_link_ok L l))"

definition accepted_commit :: "hostlib \<Rightarrow> exec_config \<Rightarrow> machine_commit option \<Rightarrow> machine_commit \<Rightarrow> bool" where
  "accepted_commit L cfg prev c =
     (commit_ok L c \<and> com_machine_id c = cfg_machine_id cfg \<and> assert_commit_unit_identity cfg c = Inr () \<and>
      json_wf (com_state c) \<and> (\<exists>d. com_state c = JObj d) \<and>
      (\<forall>x \<in> set (com_emitted_commands c). command_ok L x) \<and> (\<forall>l \<in> set (com_child_links c). child_link_ok L l) \<and>
      (\<exists>delta. com_state_delta c = Some delta \<and> delta_ok L delta \<and>
        (case prev of None \<Rightarrow> True
         | Some p \<Rightarrow> com_before_state_digest c = Some (com_state_digest p) \<and>
             apply_machine_state_delta (com_state p) delta = Inr (com_state c))))"

fun accepted_from :: "hostlib \<Rightarrow> exec_config \<Rightarrow> machine_commit option \<Rightarrow> machine_commit list \<Rightarrow> bool" where
  "accepted_from L cfg prev [] = True"
| "accepted_from L cfg prev (c # cs) = (accepted_commit L cfg prev c \<and> accepted_from L cfg (Some c) cs)"

lemma accepted_from_snoc:
  "accepted_from L cfg prev (cs @ [c]) \<longleftrightarrow> accepted_from L cfg prev cs \<and>
     accepted_commit L cfg (if cs = [] then prev else Some (last cs)) c"
  by (induction cs arbitrary: prev) auto

lemma accepted_from_mem:
  "accepted_from L cfg prev cs \<Longrightarrow> c \<in> set cs \<Longrightarrow> \<exists>p. accepted_commit L cfg p c"
  by (induction cs arbitrary: prev) auto

section \<open>The invariant of an executor\<close>

definition snapshot_known :: "hostlib \<Rightarrow> exec_config \<Rightarrow> mem_journal \<Rightarrow> machine_snapshot \<Rightarrow> bool" where
  "snapshot_known L cfg j s =
     (json_wf (snap_state s) \<and>
      (case snap_parent_commit_id s of
         None \<Rightarrow> True
       | Some i \<Rightarrow> \<exists>c \<in> set (mem_commits j (cfg_machine_id cfg)). com_commit_id c = i \<and>
           snapshot_of_commit L cfg c = Inr s))"

definition exec_inv :: "hostlib \<Rightarrow> exec_config \<Rightarrow> exec \<Rightarrow> bool" where
  "exec_inv L cfg ex =
     (mem_wf (ex_journal ex) \<and> accepted_from L cfg None (mem_commits (ex_journal ex) (cfg_machine_id cfg)) \<and>
      (\<forall>s. ex_snapshot ex = Some s \<longrightarrow> snapshot_known L cfg (ex_journal ex) s) \<and>
      (\<forall>st s. ex_store ex = Some st \<longrightarrow> st (cfg_machine_id cfg) = Some s \<longrightarrow> snapshot_known L cfg (ex_journal ex) s))"

lemma snapshot_of_commit_fields:
  assumes "snapshot_of_commit L cfg c = Inr s"
  shows "snap_state s = com_state c" "snap_state_digest s = com_state_digest c"
    "snap_parent_commit_id s = Some (com_commit_id c)" "snap_revision s = com_revision c"
    "snap_machine_id s = cfg_machine_id cfg" "snap_unit s = cfg_unit cfg"
  using assms by (auto simp: snapshot_of_commit_def snapshot_post_init_def res_simps)

lemma snapshot_of_commit_known:
  assumes "snapshot_of_commit L cfg c = Inr s" "c \<in> set (mem_commits j (cfg_machine_id cfg))"
    and "accepted_from L cfg None (mem_commits j (cfg_machine_id cfg))"
  shows "snapshot_known L cfg j s"
  using assms(1,2) snapshot_of_commit_fields [OF assms(1)] accepted_from_mem [OF assms(3,2)]
  by (auto simp: snapshot_known_def accepted_commit_def)

lemma snapshot_known_mono:
  assumes "snapshot_known L cfg j s" "set (mem_commits j (cfg_machine_id cfg)) \<subseteq> set (mem_commits j' (cfg_machine_id cfg))"
  shows "snapshot_known L cfg j' s"
  using assms by (auto simp: snapshot_known_def split: option.splits)

text \<open>Only the journal, the snapshot and the stored snapshot matter.\<close>

lemma exec_inv_frame:
  assumes "exec_inv L cfg ex" "ex_journal ex' = ex_journal ex" "ex_store ex' = ex_store ex"
    and "ex_snapshot ex' = ex_snapshot ex \<or>
      (\<exists>s. ex_snapshot ex' = Some s \<and> snapshot_known L cfg (ex_journal ex) s)"
  shows "exec_inv L cfg ex'"
  using assms unfolding exec_inv_def by auto

lemma mem_commits_latest:
  assumes "mem_head j m = Inr (latest, has)"
  shows "latest = latest_of (mem_commits j m)"
  using assms by (auto simp: mem_head_def mem_commits_def split: if_splits option.splits)

lemma exec_reconcile_outbox_frame:
  "exec_reconcile_outbox L cfg ex = (r, ex') \<Longrightarrow> \<exists>ob. ex' = ex\<lparr>ex_outbox := ob\<rparr>"
  by (auto simp: exec_reconcile_outbox_def split: option.splits prod.splits intro: exI [of _ "ex_outbox ex"])

lemma open_head_frame:
  assumes "open_head L cfg latest has ex = (r, ex')"
  shows "ex_journal ex' = ex_journal ex \<and> ex_store ex' = ex_store ex \<and>
    (ex_snapshot ex' = ex_snapshot ex \<or> (\<exists>s. snapshot_of_commit L cfg latest = Inr s \<and> ex_snapshot ex' = Some s))"
proof -
  have "ex_journal ex2 = ex_journal ex1 \<and> ex_store ex2 = ex_store ex1 \<and> ex_snapshot ex2 = ex_snapshot ex1"
    if "act_bind (exec_reconcile_outbox L cfg) (\<lambda>_. act_lift (Inr s)) ex1 = (q, ex2)" for ex1 ex2 s q
    using that exec_reconcile_outbox_frame [of L cfg ex1]
    by (auto simp: act_bind_def act_lift_def split: prod.splits sum.splits)
  note rec = this
  from assms show ?thesis
    by (auto simp: open_head_def Let_def res_simps split: sum.splits if_splits dest!: rec)
qed

section \<open>Every operation preserves it\<close>

lemma exec_open_inv:
  assumes "exec_inv L cfg ex" "exec_open L cfg init ex = (r, ex')" "\<And>v. init = Some v \<Longrightarrow> json_wf v"
  shows "exec_inv L cfg ex'"
proof (cases "mem_head (ex_journal ex) (cfg_machine_id cfg)")
  case (Inl e)
  with assms(1,2) show ?thesis by (simp add: exec_open_def)
next
  case (Inr h)
  obtain latest has where h: "h = (latest, has)" by force
  note look = Inr [unfolded h]
  show ?thesis
  proof (cases latest)
    case (Some c)
    then have c: "c \<in> set (mem_commits (ex_journal ex) (cfg_machine_id cfg))"
      using mem_commits_latest [OF look] by (auto simp: latest_of_def split: if_splits)
    have acc: "accepted_from L cfg None (mem_commits (ex_journal ex) (cfg_machine_id cfg))"
      using assms(1) by (simp add: exec_inv_def)
    have "open_head L cfg c has ex = (r, ex')" using assms(2) look Some by (simp add: exec_open_def)
    note frame = open_head_frame [OF this]
    show ?thesis
      by (rule exec_inv_frame [OF assms(1)]) (use frame snapshot_of_commit_known [OF _ c acc] in auto)
  next
    case None
    have fresh: "snapshot_known L cfg j s"
      if "snapshot_post_init L None \<lparr>snap_machine_id = cfg_machine_id cfg, snap_revision = 0, snap_unit = cfg_unit cfg,
          snap_state = (case init of None \<Rightarrow> JObj [] | Some v \<Rightarrow> v), snap_parent_commit_id = None, snap_state_digest = []\<rparr> = Inr s" for j s
      using that assms(3) by (auto simp: snapshot_known_def snapshot_post_init_def res_simps split: option.splits)
    have stored: "snapshot_known L cfg (ex_journal ex) s"
      if "ex_store ex = Some st" "mem_snapshot_load st (cfg_machine_id cfg) = Inr (Some s)" for st s
      using that assms(1) by (auto simp: exec_inv_def mem_snapshot_load_def split: if_splits)
    have "ex' = ex \<or> (\<exists>s. ex' = ex\<lparr>ex_snapshot := Some s\<rparr> \<and> snapshot_known L cfg (ex_journal ex) s)"
      using assms(2) look None fresh stored
      by (auto simp: exec_open_def split: option.splits sum.splits if_splits)
    then show ?thesis
      using assms(1) exec_inv_frame [OF assms(1), of ex'] by auto
  qed
qed

lemma store_save_frame:
  assumes "store_save L s ex = (r, ex')"
  shows "\<exists>st. ex' = ex\<lparr>ex_store := st\<rparr> \<and> (\<forall>st1 m x. st = Some st1 \<longrightarrow> st1 m = Some x \<longrightarrow>
    x = s \<or> (\<exists>st0. ex_store ex = Some st0 \<and> st0 m = Some x))"
  using assms
  by (auto simp: store_save_def mem_snapshot_save_def split: option.splits prod.splits if_splits
      intro: exI [of _ "ex_store ex"])

lemma store_save_inv:
  assumes "exec_inv L cfg ex" "snapshot_known L cfg (ex_journal ex) s" "store_save L s ex = (r, ex')"
  shows "exec_inv L cfg ex'"
proof -
  obtain st where st: "ex' = ex\<lparr>ex_store := st\<rparr>" "\<forall>st1 m x. st = Some st1 \<longrightarrow> st1 m = Some x \<longrightarrow>
    x = s \<or> (\<exists>st0. ex_store ex = Some st0 \<and> st0 m = Some x)"
    using store_save_frame [OF assms(3)] by blast
  have "snapshot_known L cfg (ex_journal ex) x" if "st = Some st1" "st1 (cfg_machine_id cfg) = Some x" for st1 x
    using st(2) [rule_format, OF that] assms(1,2) by (auto simp: exec_inv_def)
  with assms(1) show ?thesis by (auto simp: exec_inv_def st(1))
qed

lemma exec_checkpoint_inv:
  assumes "exec_inv L cfg ex" "exec_checkpoint L ex = (r, ex')"
  shows "exec_inv L cfg ex'"
proof (cases "ex_snapshot ex")
  case (Some s)
  obtain q ex1 where sv: "store_save L s ex = (q, ex1)" by force
  have "ex' = ex1" using assms(2) sv Some by (auto simp: exec_checkpoint_def act_bind_def act_lift_def split: sum.splits)
  then show ?thesis using store_save_inv [OF assms(1) _ sv] Some assms(1) by (simp add: exec_inv_def)
qed (use assms in \<open>simp add: exec_checkpoint_def\<close>)

lemma exec_restore_inv:
  assumes "exec_inv L cfg ex" "snapshot_known L cfg (ex_journal ex) s" "exec_restore L cfg s ex = (r, ex')"
  shows "exec_inv L cfg ex'"
proof -
  obtain q ex1 where sv: "store_save L s (ex\<lparr>ex_snapshot := Some s\<rparr>) = (q, ex1)" by force
  have "exec_inv L cfg (ex\<lparr>ex_snapshot := Some s\<rparr>)" using exec_inv_frame [OF assms(1)] assms(2) by simp
  then have "exec_inv L cfg ex1" using store_save_inv [OF _ _ sv] assms(2) by simp
  then have "exec_inv L cfg (ex1\<lparr>ex_status := t\<rparr>)" for t by (simp add: exec_inv_def)
  with \<open>exec_inv L cfg ex1\<close> assms(1,3) sv show ?thesis
    by (auto simp: exec_restore_def act_bind_def split: if_splits sum.splits prod.splits)
qed

lemma replay_scan_mem:
  "replay_scan cfg revision p d selected cs = Inr (Some c) \<Longrightarrow> c \<in> set cs \<or> selected = Some c"
  by (induction cfg revision p d selected cs rule: replay_scan.induct) (auto simp: res_simps split: if_splits)

lemma exec_replay_inv:
  assumes "exec_inv L cfg ex" "exec_replay L cfg revision ex = (r, ex')"
  shows "exec_inv L cfg ex'"
proof (cases "mem_commits (ex_journal ex) (cfg_machine_id cfg) = []")
  case True
  with assms exec_open_inv [OF assms(1), of None] show ?thesis by (simp add: exec_replay_def)
next
  case False
  have "ex' = ex \<or> (\<exists>c s. c \<in> set (mem_commits (ex_journal ex) (cfg_machine_id cfg)) \<and>
      snapshot_of_commit L cfg c = Inr s \<and> ex' = ex\<lparr>ex_snapshot := Some s, ex_status := com_accepted_status c\<rparr>)"
    using assms(2) False
    by (auto simp: exec_replay_def Let_def res_simps split: sum.splits option.splits prod.splits dest!: replay_scan_mem)
      metis
  then show ?thesis
    using snapshot_of_commit_known assms(1) exec_inv_frame [OF assms(1), of ex'] by (auto simp: exec_inv_def)
qed

text \<open>
  A commit built from a known snapshot and accepted as the successor of the head continues the head:
  the snapshot it was built from is the head's.
\<close>

lemma fresh_commit_accepted:
  assumes inv: "exec_inv L cfg ex" and fresh: "fresh_commit L cfg propose command ex c"
    and ok: "\<And>command state p. propose command state = Inr p \<Longrightarrow> proposal_ok L p"
    and ch: "chain (mem_commits (ex_journal ex) (cfg_machine_id cfg) @ [c])"
  shows "accepted_commit L cfg (latest_of (mem_commits (ex_journal ex) (cfg_machine_id cfg))) c"
proof -
  let ?cs = "mem_commits (ex_journal ex) (cfg_machine_id cfg)"
  obtain state p merged where f: "ex_snapshot ex = Some state" "propose command state = Inr p"
    "apply_machine_state_delta (snap_state state) (prop_state_delta p) = Inr merged"
    "step_commit L cfg command state p merged = Inr c"
    using fresh by (auto simp: fresh_commit_def)
  note g = step_commit_fields [OF f(4)]
  have known: "snapshot_known L cfg (ex_journal ex) state" using inv f(1) by (auto simp: exec_inv_def)
  note p = ok [OF f(2), unfolded proposal_ok_def]
  have wf: "json_wf merged" "\<exists>d. merged = JObj d"
    using apply_machine_state_delta_wf [OF _ f(3)] known p by (auto simp: snapshot_known_def)
  have prev: "com_previous_commit_id c = map_option com_commit_id (latest_of ?cs)"
    using ch by (auto simp: chain_from_append latest_of_def)
  have "com_before_state_digest c = Some (com_state_digest l) \<and> snap_state state = com_state l"
    if l: "latest_of ?cs = Some l" for l
  proof -
    from prev l g(9) have "snap_parent_commit_id state = Some (com_commit_id l)" by simp
    with known obtain d where d: "d \<in> set ?cs" "com_commit_id d = com_commit_id l" "snapshot_of_commit L cfg d = Inr state"
      by (auto simp: snapshot_known_def)
    have "l \<in> set ?cs" using l by (auto simp: latest_of_def split: if_splits)
    moreover have "distinct (map com_commit_id ?cs)"
      using inv mem_wf_history by (auto simp: exec_inv_def mem_commits_history history_wf_def)
    ultimately have "d = l" using d(1,2) by (auto simp: distinct_map inj_on_def)
    with snapshot_of_commit_fields [OF d(3)] g(10) show ?thesis by simp
  qed
  with f(3) g p wf show ?thesis
    by (auto simp: accepted_commit_def assert_commit_unit_identity_def split: option.split)
qed

lemma exec_step_frame:
  assumes "mem_wf (ex_journal ex)" "exec_step L cfg reading1 reading2 proposer propose command ex = (r, ex')"
  shows "ex_store ex' = ex_store ex \<and> (ex_snapshot ex' = ex_snapshot ex \<or>
    (\<exists>c s. c \<in> set (mem_commits (ex_journal ex') (cfg_machine_id cfg)) \<and> snapshot_of_commit L cfg c = Inr s \<and>
      ex_snapshot ex' = Some s))"
  using assms(2)
proof (cases rule: exec_step_cases)
  case (replayed c)
  then show ?thesis
    using publish_commit_frame [OF replayed(2)] existing_command_Some(1) [OF replayed(1) assms(1)] by auto
next
  case fresh
  from fresh(2) show ?thesis
  proof (cases rule: step_fresh_cases)
    case (appended state proposal merged commit ex1 ex2 a)
    note f = step_commit_fields [OF appended(5)]
    obtain q j where app: "mem_append commit (ex_journal ex2) = (q, j)" by force
    have ex2: "mem_wf (ex_journal ex2)" "ex_store ex2 = ex_store ex" "ex_snapshot ex2 = ex_snapshot ex"
      using assms(1) appended(4) by simp_all
    show ?thesis
    proof (cases q)
      case (Inl e)
      with appended(6) app ex2 show ?thesis by (auto simp: append_commit_def)
    next
      case (Inr d)
      with appended(6) app have pub: "publish_commit L cfg d (ex2\<lparr>ex_journal := j\<rparr>) = (r, ex')"
        by (simp add: append_commit_def)
      show ?thesis
        using publish_commit_frame [OF pub] mem_append_commits [OF ex2(1) f(5) app [unfolded Inr]] ex2 f(2) by auto
    qed
  qed simp
qed simp

lemma exec_step_inv:
  assumes inv: "exec_inv L cfg ex" and step: "exec_step L cfg reading1 reading2 proposer propose command ex = (r, ex')"
    and ok: "\<And>command state p. propose command state = Inr p \<Longrightarrow> proposal_ok L p"
  shows "exec_inv L cfg ex'"
proof -
  let ?cs = "mem_commits (ex_journal ex) (cfg_machine_id cfg)" and ?cs' = "mem_commits (ex_journal ex') (cfg_machine_id cfg)"
  have wf: "mem_wf (ex_journal ex)" using inv by (simp add: exec_inv_def)
  note j = exec_step_journal [OF wf step]
  have acc: "accepted_from L cfg None ?cs' \<and> set ?cs \<subseteq> set ?cs'"
  proof (cases "?cs' = ?cs")
    case True
    with inv show ?thesis by (simp add: exec_inv_def)
  next
    case False
    with j obtain c where c: "fresh_commit L cfg propose command ex c" "?cs' = ?cs @ [c]" by auto
    have "chain ?cs'" using mem.commits_chain j by simp
    from fresh_commit_accepted [OF inv c(1) ok this [unfolded c(2)]] inv show ?thesis
      by (auto simp: c(2) accepted_from_snoc exec_inv_def latest_of_def)
  qed
  note frame = exec_step_frame [OF wf step]
  have known: "snapshot_known L cfg (ex_journal ex') s" if "snapshot_known L cfg (ex_journal ex) s" for s
    using that acc snapshot_known_mono by blast
  have "snapshot_known L cfg (ex_journal ex') s" if "ex_snapshot ex' = Some s" for s
    using that frame known inv snapshot_of_commit_known acc by (auto simp: exec_inv_def)
  with j acc frame known inv show ?thesis by (auto simp: exec_inv_def)
qed

section \<open>Reachable executors\<close>

inductive exec_op :: "hostlib \<Rightarrow> exec_config \<Rightarrow> exec \<Rightarrow> exec \<Rightarrow> bool" for L cfg where
  opened: "exec_open L cfg init ex = (r, ex') \<Longrightarrow> (\<And>v. init = Some v \<Longrightarrow> json_wf v) \<Longrightarrow> exec_op L cfg ex ex'"
| stepped: "exec_step L cfg reading1 reading2 proposer propose command ex = (r', ex') \<Longrightarrow>
    (\<And>command state p. propose command state = Inr p \<Longrightarrow> proposal_ok L p) \<Longrightarrow> exec_op L cfg ex ex'"
| checkpointed: "exec_checkpoint L ex = (r, ex') \<Longrightarrow> exec_op L cfg ex ex'"
| restored: "ex_store ex = Some st \<Longrightarrow> mem_snapshot_load st (cfg_machine_id cfg) = Inr (Some s) \<Longrightarrow>
    exec_restore L cfg s ex = (r, ex') \<Longrightarrow> exec_op L cfg ex ex'"
| replayed: "exec_replay L cfg revision ex = (r, ex') \<Longrightarrow> exec_op L cfg ex ex'"
| reconciled: "exec_reconcile_outbox L cfg ex = (es, ex') \<Longrightarrow> exec_op L cfg ex ex'"

lemma exec_op_inv: "exec_op L cfg ex ex' \<Longrightarrow> exec_inv L cfg ex \<Longrightarrow> exec_inv L cfg ex'"
proof (induction rule: exec_op.induct)
  case (opened init ex r ex')
  then show ?case using exec_open_inv by blast
next
  case (stepped reading1 reading2 proposer propose command ex r' ex')
  then show ?case using exec_step_inv by blast
next
  case (checkpointed ex r ex')
  then show ?case using exec_checkpoint_inv by blast
next
  case (restored ex st s r ex')
  then have "snapshot_known L cfg (ex_journal ex) s"
    by (auto simp: exec_inv_def mem_snapshot_load_def split: if_splits)
  with restored show ?case using exec_restore_inv by blast
next
  case (replayed revision ex r ex')
  then show ?case using exec_replay_inv by blast
next
  case (reconciled ex es ex')
  then show ?case using exec_reconcile_outbox_frame [OF reconciled(1)] exec_inv_frame [OF reconciled(2), of ex'] by auto
qed

lemma executor_init_inv:
  assumes "executor_init cfg empty_mem_journal store outbox authority = Inr ex"
    and "\<And>st. store = Some st \<Longrightarrow> st = Map.empty"
  shows "exec_inv L cfg ex"
  using assms by (auto simp: executor_init_def res_simps exec_inv_def mem_wf_def empty_mem_journal_def mem_commits_def)

lemma reachable_exec_inv:
  assumes "executor_init cfg empty_mem_journal store outbox authority = Inr ex0"
    and "\<And>st. store = Some st \<Longrightarrow> st = Map.empty" "(exec_op L cfg)\<^sup>*\<^sup>* ex0 ex"
  shows "exec_inv L cfg ex"
  using assms(3)
proof (induction rule: rtranclp_induct)
  case base
  show ?case using executor_init_inv [OF assms(1,2)] by blast
qed (rule exec_op_inv)

section \<open>Replay\<close>

lemma snapshot_of_commit_ok:
  assumes "sha_ok L" "accepted_commit L cfg p c"
  shows "\<exists>s. snapshot_of_commit L cfg c = Inr s"
proof -
  have ok: "commit_ok L c" "com_machine_id c = cfg_machine_id cfg" using assms(2) by (auto simp: accepted_commit_def)
  have "is_sha256 (com_commit_id c)" "is_sha256 (com_state_digest c)"
    using commit_ok_derived(2,3) [OF ok(1)] canonical_digest_sha256 [OF assms(1)] by (auto simp: state_identity_def)
  then show ?thesis
    using commit_ok_facts(1,2,6) [OF ok(1)] commit_ok_derived(4) [OF ok(1)] ok(2)
    by (simp add: snapshot_of_commit_def snapshot_post_init_def opt_nonblank_def is_sha256_nonblank freeze_json_eq
        require_sha256_def)
qed

text \<open>On an accepted history the scan refuses nothing and selects the last commit within the bound.\<close>

lemma replay_scan_accepted:
  assumes "chain_from prev cs" "accepted_from L cfg prev cs"
  shows "replay_scan cfg revision (map_option com_commit_id prev) (map_option com_state_digest prev) selected cs =
    Inr (let upto_r = filter (\<lambda>c. case revision of None \<Rightarrow> True | Some r \<Rightarrow> com_revision c \<le> r) cs
         in if upto_r = [] then selected else Some (last upto_r))"
  using assms
proof (induction cs arbitrary: prev selected)
  case (Cons c cs)
  have "replay_scan cfg revision (Some (com_commit_id c)) (Some (com_state_digest c)) sel cs =
    Inr (let upto_r = filter (\<lambda>c. case revision of None \<Rightarrow> True | Some r \<Rightarrow> com_revision c \<le> r) cs
         in if upto_r = [] then sel else Some (last upto_r))" for sel
    using Cons.IH [of "Some c" sel] Cons.prems by simp
  with Cons.prems show ?case
    by (cases prev) (auto simp: accepted_commit_def Let_def split: option.splits)
qed simp

lemma chain_within:
  assumes "chain cs" "n \<le> length cs"
  shows "filter (\<lambda>c. com_revision c \<le> int n) cs = take n cs"
proof -
  have "com_revision c \<le> int n" if "c \<in> set (take n cs)" for c
  proof -
    from that obtain i where "i < n" "i < length cs" "c = cs ! i" by (auto simp: in_set_conv_nth)
    with chain_revision [OF assms(1), of i] show ?thesis by simp
  qed
  moreover have "\<not> com_revision c \<le> int n" if "c \<in> set (drop n cs)" for c
  proof -
    from that obtain i where "i < length cs - n" "c = cs ! (n + i)" by (auto simp: in_set_conv_nth)
    with chain_revision [OF assms(1), of "n + i"] show ?thesis by simp
  qed
  ultimately have "filter (\<lambda>c. com_revision c \<le> int n) (take n cs @ drop n cs) = take n cs"
    unfolding filter_append by (simp add: filter_id_conv filter_empty_conv)
  then show ?thesis by simp
qed

lemma exec_replay_revision:
  assumes "sha_ok L" "exec_inv L cfg ex"
    and "n < length (mem_commits (ex_journal ex) (cfg_machine_id cfg))"
  shows "\<exists>s ex'. exec_replay L cfg (Some (int n + 1)) ex = (Inr s, ex') \<and> ex_snapshot ex' = Some s \<and>
    snapshot_of_commit L cfg (mem_commits (ex_journal ex) (cfg_machine_id cfg) ! n) = Inr s"
proof -
  let ?cs = "mem_commits (ex_journal ex) (cfg_machine_id cfg)"
  have ch: "chain ?cs" and acc: "accepted_from L cfg None ?cs"
    using assms(2) mem.commits_chain by (auto simp: exec_inv_def)
  have take: "filter (\<lambda>c. com_revision c \<le> int n + 1) ?cs = take (Suc n) ?cs"
    using chain_within [OF ch, of "Suc n"] assms(3) by (simp add: add.commute)
  have "last (take (Suc n) ?cs) = ?cs ! n" using assms(3) by (simp add: take_Suc_conv_app_nth)
  with take assms(3) have scan: "replay_scan cfg (Some (int n + 1)) None None None ?cs = Inr (Some (?cs ! n))"
    using replay_scan_accepted [OF ch acc, of "Some (int n + 1)" None] by (auto simp: Let_def)
  have "?cs ! n \<in> set ?cs" using assms(3) by simp
  then obtain s where "snapshot_of_commit L cfg (?cs ! n) = Inr s"
    using snapshot_of_commit_ok [OF assms(1)] accepted_from_mem [OF acc] by blast
  with scan assms(3) show ?thesis by (auto simp: exec_replay_def Let_def)
qed

section \<open>Open\<close>

lemma exec_open_head:
  assumes "exec_open L cfg init ex = (Inr s, ex')" "mem_commits (ex_journal ex) (cfg_machine_id cfg) \<noteq> []"
  shows "snapshot_of_commit L cfg (last (mem_commits (ex_journal ex) (cfg_machine_id cfg))) = Inr s \<and>
    ex_snapshot ex' = Some s"
proof -
  let ?c = "last (mem_commits (ex_journal ex) (cfg_machine_id cfg))"
  obtain latest has where h: "mem_head (ex_journal ex) (cfg_machine_id cfg) = Inr (latest, has)"
    using assms(1) by (cases "mem_head (ex_journal ex) (cfg_machine_id cfg)") (auto simp: exec_open_def)
  have "latest = Some ?c" using mem_commits_latest [OF h] assms(2) by (simp add: latest_of_def)
  with assms(1) h have o: "open_head L cfg ?c has ex = (Inr s, ex')" by (simp add: exec_open_def)
  show ?thesis
  proof (cases "ex_outbox ex")
    case None
    with o show ?thesis by (auto simp: open_head_def Let_def res_simps split: sum.splits)
  next
    case (Some ob)
    from o obtain t where t: "snapshot_of_commit L cfg ?c = Inr t"
      and r: "act_bind (exec_reconcile_outbox L cfg) (\<lambda>_. act_lift (Inr t))
        (ex\<lparr>ex_snapshot := Some t, ex_status := com_accepted_status ?c\<rparr>) = (Inr s, ex')"
      by (auto simp: open_head_def Let_def res_simps Some split: sum.splits)
    from r have "s = t" by (simp add: act_bind_eq_Inr act_lift_eq)
    moreover from r have "ex_snapshot ex' = Some t"
      by (auto simp: act_bind_eq_Inr act_lift_eq dest!: exec_reconcile_outbox_frame)
    ultimately show ?thesis using t by simp
  qed
qed

lemma exec_open_reconciles:
  assumes "sha_ok L" "ex_outbox ex = Some ob" "outbox_wf ob"
    and "exec_open L cfg init ex = (Inr s, ex')" "c \<in> set (mem_commits (ex_journal ex) (cfg_machine_id cfg))"
    and "command \<in> set (com_emitted_commands c)"
  shows "\<exists>ob' e. ex_outbox ex' = Some ob' \<and> mk_envelope L c command = Inr e \<and> enqueued ob' e"
proof -
  let ?cs = "mem_commits (ex_journal ex) (cfg_machine_id cfg)"
  obtain latest has where h: "mem_head (ex_journal ex) (cfg_machine_id cfg) = Inr (latest, has)"
    using assms(4) by (cases "mem_head (ex_journal ex) (cfg_machine_id cfg)") (auto simp: exec_open_def)
  have "latest = Some (last ?cs)" using mem_commits_latest [OF h] assms(5) by (auto simp: latest_of_def)
  with assms(4) h have "open_head L cfg (last ?cs) has ex = (Inr s, ex')" by (simp add: exec_open_def)
  with assms(2) obtain es ob' where r: "outbox_reconcile L ?cs ob = (Inr es, ob')" "ex_outbox ex' = Some ob'"
    by (auto simp: open_head_def Let_def act_bind_eq_Inr act_lift_eq exec_reconcile_outbox_def
        split: sum.splits prod.splits)
  then obtain ess where "act_map (outbox_enqueue L) ?cs ob = (Inr ess, ob')"
    by (auto simp: outbox_reconcile_def res_simps split: prod.splits)
  from list_all2_ex1 [OF ob.reconcile_has [OF conjI [OF assms(1,3)] this] assms(5)]
  obtain xs where "list_all2 (\<lambda>command e. mk_envelope L c command = Inr e \<and> enqueued ob' e) (com_emitted_commands c) xs"
    by blast
  from list_all2_ex1 [OF this assms(6)] r(2) show ?thesis by blast
qed

section \<open>Resubmission of an older command\<close>

text \<open>
  The answer to a resubmitted command also becomes the executor's own snapshot, even when later
  commits exist: a fresh command for the journal's head revision is then refused.
\<close>

lemma older_command_rewinds:
  assumes "mem_wf (ex_journal ex)" "exec_step L cfg reading1 reading2 proposer propose command ex = (Inr c, ex')"
    and "existing_command L cfg next ex' = Inr None" "cmd_expected_revision next \<noteq> com_revision c"
  shows "\<not> is_ok (fst (exec_step L cfg reading3 reading4 proposer propose' next ex'))"
proof
  assume "is_ok (fst (exec_step L cfg reading3 reading4 proposer propose' next ex'))"
  then obtain d ex2 where step: "exec_step L cfg reading3 reading4 proposer propose' next ex' = (Inr d, ex2)"
    by (metis is_ok_iff prod.collapse)
  obtain s where s: "snapshot_of_commit L cfg c = Inr s" "ex_snapshot ex' = Some s"
    using exec_step_success [OF assms(1,2)] by blast
  from step show False
  proof (cases rule: exec_step_cases)
    case fresh
    from fresh(2) show False
    proof (cases rule: step_fresh_cases)
      case (appended state proposal merged commit ex1 ex3 a)
      then show False
        using s snapshot_of_commit_fields(4) [OF s(1)] assms(4)
        by (auto simp: step_proposal_def exec_require_open_def res_simps)
    qed simp
  qed (use assms(3) in simp_all)
qed

end
