(* ===== verification/DirJournalProofs.thy ===== *)
theory DirJournalProofs
  imports DirJournal ExecutorHistory
begin

text \<open>
  What the directory journal guarantees: its file determines the accepted history, an append refines
  acceptance of the history it holds, a new process reads back exactly what was accepted, and replay
  from a recovery anchor agrees with full replay on the head.
\<close>

section \<open>What a file holds\<close>

definition strip :: "machine_commit \<Rightarrow> machine_commit" where
  "strip c = c\<lparr>com_state_delta := None\<rparr>"

lemma strip_select [simp]:
  "com_machine_id (strip c) = com_machine_id c" "com_command_id (strip c) = com_command_id c"
  "com_commit_id (strip c) = com_commit_id c" "com_base_revision (strip c) = com_base_revision c"
  "com_revision (strip c) = com_revision c" "com_previous_commit_id (strip c) = com_previous_commit_id c"
  "com_unit_digest (strip c) = com_unit_digest c" "com_execution_lock_digest (strip c) = com_execution_lock_digest c"
  "com_state (strip c) = com_state c" "com_state_digest (strip c) = com_state_digest c"
  "com_emitted_commands (strip c) = com_emitted_commands c"
  by (simp_all add: strip_def)

lemma commit_eq_strip [simp]: "commit_eq (strip a) c = commit_eq a c" "commit_eq a (strip c) = commit_eq a c"
  by (simp_all add: commit_eq_def strip_def)

lemma commit_eq_iff: "commit_eq a c \<longleftrightarrow> strip a = strip c"
  by (simp add: commit_eq_def strip_def)

text \<open>The history of a process keeps the transient deltas; what the file determines does not.\<close>

definition history_strip :: "history \<Rightarrow> history" where
  "history_strip h = h\<lparr>hist_commits := map strip (hist_commits h),
     hist_by_command := map_option strip \<circ> hist_by_command h, hist_by_commit := map_option strip \<circ> hist_by_commit h\<rparr>"

lemma history_strip_select [simp]:
  "hist_commits (history_strip h) = map strip (hist_commits h)" "hist_has_emitted (history_strip h) = hist_has_emitted h"
  "hist_by_command (history_strip h) = map_option strip \<circ> hist_by_command h"
  "hist_by_commit (history_strip h) = map_option strip \<circ> hist_by_commit h"
  "history_strip empty_history = empty_history"
  by (simp_all add: history_strip_def empty_history_def comp_def)

lemma latest_of_strip [simp]: "latest_of (map strip cs) = map_option strip (latest_of cs)"
  by (simp add: latest_of_def last_map)

lemma validate_next_strip:
  "validate_next (history_strip h) (strip c) = res_bind (validate_next h c) (\<lambda>x. Inr (map_option strip x))"
  by (auto simp: validate_next_def Let_def option.map_comp comp_def split: option.splits)

lemma history_accept_strip:
  "history_accept (history_strip h) (strip c) =
     res_bind (history_accept h c) (\<lambda>x. Inr (strip (fst x), history_strip (snd x)))"
proof (cases "validate_next h c")
  case (Inr x)
  then show ?thesis
    by (cases x) (auto simp: history_accept_def validate_next_strip fun_eq_iff intro!: history.equality)
qed (simp add: history_accept_def validate_next_strip)

definition log_holds :: "hostlib \<Rightarrow> string \<Rightarrow> json list \<Rightarrow> history \<Rightarrow> bool" where
  "log_holds L m docs h =
     (res_fold (scan_step L m) (empty_history, None, None) docs =
        Inr (h, map_option com_state (latest_of (hist_commits h)), map_option com_state_digest (latest_of (hist_commits h))) \<and>
      history_wf h)"

lemma log_holds_Nil: "log_holds L m [] empty_history"
  by (simp add: log_holds_def history_wf_empty) (simp add: empty_history_def)

lemma log_holds_read: "log_holds L m docs h \<Longrightarrow> read_full L m docs = Inr h"
  by (simp add: log_holds_def read_full_def scan_lines_def)

text \<open>A recorded commit extends what the file holds.\<close>

lemma log_holds_snoc:
  assumes sha: "\<And>x. is_sha256 (sha256_hex L x)" and holds: "log_holds L m docs h"
    and rec: "commit_recordable L c" "com_machine_id c = m"
    and val: "validate_next h (strip c) = Inr None"
    and cont: "continues_state L (map_option com_state (latest_of (hist_commits h)))
      (map_option com_state_digest (latest_of (hist_commits h))) c"
    and doc: "commit_document c (map_option com_state (latest_of (hist_commits h))) force = Inr doc"
    and acc: "history_accept h (strip c) = Inr (a, h')"
  shows "log_holds L m (docs @ [doc]) h'" "hist_commits h' = hist_commits h @ [strip c]"
proof -
  from commit_document_replays [OF sha rec(1) cont, of force] doc
  have dec: "decode_commit L doc (map_option com_state (latest_of (hist_commits h)))
      (map_option com_state_digest (latest_of (hist_commits h))) = Inr (strip c)"
    by (simp add: strip_def)
  have rev: "com_revision (strip c) = com_base_revision (strip c) + 1"
    using rec(1) commit_ok_facts(1) [of L c] by (simp add: commit_recordable_def)
  show ext: "hist_commits h' = hist_commits h @ [strip c]"
    using acc val by (auto simp: history_accept_def)
  have wf: "history_wf h'"
    using holds by (auto simp: log_holds_def intro: history_accept_cases [OF _ acc rev])
  show "log_holds L m (docs @ [doc]) h'"
    using holds wf dec rec(2) acc
    by (simp add: log_holds_def res_fold_append scan_step_def decode_line_def ext)
qed

section \<open>Appends refine acceptance\<close>

definition index_ok :: "dir_journal \<Rightarrow> string \<Rightarrow> machine_commit list \<Rightarrow> bool" where
  "index_ok j m cs = (\<forall>c \<in> set cs. dj_index j (com_commit_id c) \<in> {None, Some m})"

lemma index_commits_ok:
  "index_ok j m cs \<Longrightarrow> index_commits m cs j =
     (Inr (), j\<lparr>dj_index := (\<lambda>i. if i \<in> com_commit_id ` set cs then Some m else dj_index j i)\<rparr>)"
proof (induction cs arbitrary: j)
  case (Cons c cs)
  let ?j = "j\<lparr>dj_index := (dj_index j)(com_commit_id c \<mapsto> m)\<rparr>"
  have "index_ok ?j m cs" using Cons.prems by (auto simp: index_ok_def)
  note IH = Cons.IH [OF this]
  have "index_commits m (c # cs) j = index_commits m cs ?j"
    using Cons.prems by (auto simp: index_ok_def index_commit_def)
  also have "\<dots> = (Inr (), j\<lparr>dj_index := (\<lambda>i. if i \<in> com_commit_id ` set (c # cs) then Some m else dj_index j i)\<rparr>)"
    unfolding IH by (auto intro!: dir_journal.equality)
  finally show ?case .
qed simp

text \<open>The file holds the history \<open>h\<close>, and the process has replayed all of it or will do so.\<close>

definition dj_log :: "hostlib \<Rightarrow> dir_journal \<Rightarrow> string \<Rightarrow> history \<Rightarrow> bool" where
  "dj_log L j m h = (case dj_logs j m of None \<Rightarrow> h = empty_history | Some docs \<Rightarrow> log_holds L m docs h)"

definition dj_ok :: "hostlib \<Rightarrow> dir_journal \<Rightarrow> string \<Rightarrow> history \<Rightarrow> bool" where
  "dj_ok L j m h =
     (dj_log L j m h \<and> \<not> dj_retired j m \<and>
      (case dj_cache j m of
         None \<Rightarrow> dj_anchors j m = None
       | Some c \<Rightarrow> jc_seen c = dj_logs j m \<and> jc_complete c \<and> history_strip (jc_history c) = h))"

lemma dj_log_wf: "dj_log L j m h \<Longrightarrow> history_wf h"
  by (auto simp: dj_log_def log_holds_def history_wf_empty split: option.splits)

text \<open>What decoding yields carries no delta.\<close>

lemma decode_commit_no_delta: "decode_commit L doc prev d = Inr c \<Longrightarrow> com_state_delta c = None"
  by (auto simp: decode_commit_def decode_commit_object_def res_simps Let_def elim!: commit_post_init_Inr)

lemma res_fold_invariant:
  assumes "\<And>s x s'. I s \<Longrightarrow> f s x = Inr s' \<Longrightarrow> I s'"
  shows "I s \<Longrightarrow> res_fold f s xs = Inr t \<Longrightarrow> I t"
  by (induction xs arbitrary: s) (auto simp: res_simps intro: assms)

lemma history_accept_commits:
  "history_accept h c = Inr (a, h') \<Longrightarrow> set (hist_commits h') \<subseteq> insert c (set (hist_commits h))"
  by (auto simp: history_accept_def res_simps split: option.splits)

lemma scan_no_delta:
  assumes "res_fold (scan_step L m) (h, s, d) docs = Inr (h', s', d')" "\<forall>c \<in> set (hist_commits h). com_state_delta c = None"
  shows "\<forall>c \<in> set (hist_commits h'). com_state_delta c = None"
proof -
  have "\<forall>c \<in> set (hist_commits (fst (h', s', d'))). com_state_delta c = None"
  proof (rule res_fold_invariant [where I = "\<lambda>st. \<forall>c \<in> set (hist_commits (fst st)). com_state_delta c = None", OF _ _ assms(1)])
    fix st doc st'
    assume I: "\<forall>c \<in> set (hist_commits (fst st)). com_state_delta c = None" and step: "scan_step L m st doc = Inr st'"
    from step obtain c a where c: "decode_line L m (fst (snd st)) (snd (snd st)) doc = Inr c"
      "history_accept (fst st) c = Inr (a, fst st')"
      by (auto simp: scan_step_def res_simps split: prod.splits)
    have "com_state_delta c = None"
      using c(1) decode_commit_no_delta by (auto simp: decode_line_def split: sum.splits if_splits)
    with I history_accept_commits [OF c(2)] show "\<forall>c \<in> set (hist_commits (fst st')). com_state_delta c = None" by blast
  qed (use assms(2) in simp)
  then show ?thesis by simp
qed

lemma strip_id: "com_state_delta c = None \<Longrightarrow> strip c = c"
  by (simp add: strip_def)

lemma map_of_strip: "map_option strip \<circ> map_of (map (\<lambda>c. (f c, c)) cs) = map_of (map (\<lambda>c. (f c, strip c)) cs)"
  by (induction cs) (auto simp: fun_eq_iff)

lemma history_strip_id:
  assumes "history_wf h" "\<forall>c \<in> set (hist_commits h). com_state_delta c = None"
  shows "history_strip h = h"
proof -
  have cs: "map strip (hist_commits h) = hist_commits h" using assms(2) by (simp add: map_idI strip_id)
  have eq: "map (\<lambda>c. (f c, strip c)) (hist_commits h) = map (\<lambda>c. (f c, c)) (hist_commits h)" for f :: "machine_commit \<Rightarrow> string"
    using assms(2) by (simp add: strip_id)
  show ?thesis
    using assms(1) unfolding history_wf_def
    by (intro history.equality) (simp_all add: cs map_of_strip eq)
qed

lemma dj_log_strip: "dj_log L j m h \<Longrightarrow> history_strip h = h" for j
proof -
  assume log: "dj_log L j m h"
  show ?thesis
  proof (cases "dj_logs j m")
    case (Some docs)
    with log have "log_holds L m docs h" by (simp add: dj_log_def)
    then have "\<forall>c \<in> set (hist_commits h). com_state_delta c = None"
      unfolding log_holds_def by (elim conjE, drule_tac scan_no_delta) (simp_all add: empty_history_def)
    then show ?thesis by (rule history_strip_id [OF dj_log_wf [OF log]])
  qed (use log in \<open>simp add: dj_log_def\<close>)
qed

text \<open>The cache a call works on, whether it was there or is rebuilt.\<close>

lemma authoritative_cache_ok:
  assumes "dj_ok L j m h" "index_ok j m (hist_commits h)"
  obtains c i where "authoritative_cache L m full j = (Inr c, j\<lparr>dj_cache := (dj_cache j)(m \<mapsto> c), dj_index := i\<rparr>)"
    "jc_seen c = dj_logs j m" "jc_complete c" "history_strip (jc_history c) = h"
    "\<And>k. i k = dj_index j k \<or> i k = Some m"
proof (cases "dj_cache j m")
  case (Some c)
  have c: "jc_seen c = dj_logs j m" "jc_complete c" "history_strip (jc_history c) = h"
    using assms(1) Some by (auto simp: dj_ok_def)
  have "authoritative_cache L m full j = (Inr c, j\<lparr>dj_cache := (dj_cache j)(m \<mapsto> c), dj_index := dj_index j\<rparr>)"
    using c Some by (auto simp: authoritative_cache_def cache_valid_def intro!: dir_journal.equality)
  with c that show thesis by blast
next
  case None
  define c where "c = full_cache h (dj_logs j m)"
  have log: "dj_log L j m h" and anchor: "dj_anchors j m = None" using assms(1) None by (auto simp: dj_ok_def)
  have read: "read_authoritative L j m full = Inr c"
  proof (cases "dj_logs j m")
    case None
    then show ?thesis using log by (simp add: read_authoritative_def c_def dj_log_def)
  next
    case (Some docs)
    then show ?thesis
      using log anchor log_holds_read by (simp add: read_authoritative_def c_def dj_log_def load_recovery_anchor_def)
  qed
  let ?j = "j\<lparr>dj_cache := (dj_cache j)(m \<mapsto> c)\<rparr>"
  have "index_ok ?j m (hist_commits h)" using assms(2) by (simp add: index_ok_def)
  moreover have "hist_commits (jc_history c) = hist_commits h" "dj_index ?j = dj_index j"
    by (simp_all add: c_def full_cache_def)
  ultimately have "index_commits m (hist_commits (jc_history c)) ?j = (Inr (), ?j\<lparr>dj_index :=
      (\<lambda>i. if i \<in> com_commit_id ` set (hist_commits h) then Some m else dj_index j i)\<rparr>)"
    using index_commits_ok [of ?j m "hist_commits h"] by (simp cong: if_cong)
  with None read have "authoritative_cache L m full j = (Inr c, j\<lparr>dj_cache := (dj_cache j)(m \<mapsto> c),
      dj_index := (\<lambda>i. if i \<in> com_commit_id ` set (hist_commits h) then Some m else dj_index j i)\<rparr>)"
    by (simp add: authoritative_cache_def act_bind_def act_lift_def)
  then show thesis
    by (rule that) (use dj_log_strip [OF log] in \<open>auto simp: c_def full_cache_def\<close>)
qed

section \<open>Recovery anchors\<close>

text \<open>
  An anchor describes a prefix of the file that ends in a snapshot record at a multiple of the
  interval.
\<close>

definition anchor_describes :: "hostlib \<Rightarrow> int \<Rightarrow> string \<Rightarrow> json list \<Rightarrow> json \<Rightarrow> bool" where
  "anchor_describes L interval m docs payload =
     (\<exists>before row tail a hb. docs = before @ JObj row # tail \<and>
        payload = anchor_payload L m (before @ [JObj row]) (JObj row) (hist_has_emitted hb) \<and>
        log_holds L m (before @ [JObj row]) hb \<and> latest_of (hist_commits hb) = Some a \<and>
        decode_commit L (JObj row) None None = Inr a \<and> map_of row ''state_encoding'' = Some (JStr ''snapshot'') \<and>
        com_machine_id a = m \<and> 0 < com_revision a \<and> com_revision a mod interval = 0)"

definition docs_of :: "dir_journal \<Rightarrow> string \<Rightarrow> json list" where
  "docs_of j m = (case dj_logs j m of None \<Rightarrow> [] | Some docs \<Rightarrow> docs)"

text \<open>Every line of the file is a commit of its own, and the anchor, when there is one, describes the file.\<close>

definition anchor_ok :: "hostlib \<Rightarrow> dir_journal \<Rightarrow> string \<Rightarrow> history \<Rightarrow> bool" where
  "anchor_ok L j m h =
     (length (hist_commits h) = length (docs_of j m) \<and>
      (case dj_anchors j m of None \<Rightarrow> True
       | Some payload \<Rightarrow> anchor_describes L (dj_interval j) m (docs_of j m) payload))"

lemma anchor_describes_append: "anchor_describes L i m docs p \<Longrightarrow> anchor_describes L i m (docs @ later) p"
  unfolding anchor_describes_def by (metis append.assoc append_Cons)

lemma log_line_pos: "0 < length (log_line L doc)"
  by (simp add: log_line_def)

lemma log_bytes_append [simp]: "log_bytes L (xs @ ys) = log_bytes L xs @ log_bytes L ys"
  "log_bytes L (doc # ys) = log_line L doc @ log_bytes L ys" "log_bytes L [] = []"
  by (simp_all add: log_bytes_def)

lemma split_lines_append: "split_lines L (length (log_bytes L xs)) (xs @ ys) = Some (xs, ys)"
proof (induction xs)
  case Nil
  then show ?case by (simp add: split_lines.simps)
next
  case (Cons x xs)
  then show ?case using log_line_pos [of L x] by (subst split_lines.simps) simp
qed

text \<open>The reader accepts a published anchor and finds the records after it.\<close>

lemma read_anchor_published:
  assumes sha: "\<And>x. is_sha256 (sha256_hex L x)"
    and a: "decode_commit L (JObj row) None None = Inr a" "map_of row ''state_encoding'' = Some (JStr ''snapshot'')"
      "com_machine_id a = m" "0 < com_revision a" "com_revision a mod interval = 0"
  shows "read_anchor L interval m (before @ JObj row # tail)
      (anchor_payload L m (before @ [JObj row]) (JObj row) has_emitted) =
    Inr (a, has_emitted, length (log_bytes L before), tail)"
proof -
  let ?n = "length (log_bytes L before) + length (log_line L (JObj row))"
  have split: "split_lines L ?n (before @ JObj row # tail) = Some (before @ [JObj row], tail)"
    using split_lines_append [of L "before @ [JObj row]" tail] by simp
  have pos: "0 < ?n" using log_line_pos [of L "JObj row"] by simp
  have size: "as_size (JInt (int ?n)) = Inr ?n" using pos by (simp add: as_size_def del: of_nat_add)
  have row: "map_of (dict_of [(''machine_id'', JStr m), (''prefix_size'', JInt (int ?n)),
      (''prefix_sha256'', JStr (sha256_hex L (log_bytes L before @ log_line L (JObj row)))),
      (''anchor_commit'', JObj row), (''has_emitted'', JBool has_emitted)]) ''machine_id'' = Some (JStr m)"
    by (subst map_of_jobj) simp_all
  have obj: "require_object (JObj row) = Inr row" by (simp add: require_object_def)
  show ?thesis
    unfolding read_anchor_def anchor_payload_def
    using a split size row sha [of "log_bytes L before @ log_line L (JObj row)"]
    by (simp add: require_exact_jobj anchor_fields_def field_of_jobj as_text_def as_bool_def obj
        require_sha256_def Let_def del: of_nat_add)
qed

text \<open>A history that knows only the end of another one accepts the same fresh commits.\<close>

definition suffix_history :: "history \<Rightarrow> history \<Rightarrow> bool" where
  "suffix_history hs hf =
     ((\<exists>pre. hist_commits hf = pre @ hist_commits hs) \<and> hist_commits hs \<noteq> [] \<and>
      hist_by_command hs \<subseteq>\<^sub>m hist_by_command hf \<and> hist_by_commit hs \<subseteq>\<^sub>m hist_by_commit hf \<and>
      hist_has_emitted hs = hist_has_emitted hf)"

lemma suffix_history_latest: "suffix_history hs hf \<Longrightarrow> latest_of (hist_commits hs) = latest_of (hist_commits hf)"
  by (auto simp: suffix_history_def latest_of_def)

lemma suffix_accept:
  assumes s: "suffix_history hs hf" and acc: "history_accept hf c = Inr (a, hf')"
    and grows: "length (hist_commits hf') \<noteq> length (hist_commits hf)"
  shows "\<exists>hs'. history_accept hs c = Inr (c, hs') \<and> suffix_history hs' hf'"
proof -
  have v: "validate_next hf c = Inr None"
  proof -
    from acc obtain x where "validate_next hf c = Inr x" by (auto simp: history_accept_def res_simps)
    with acc grows show ?thesis by (cases x) (simp_all add: history_accept_def)
  qed
  then have fresh: "hist_by_command hf (com_command_id c) = None" "hist_by_commit hf (com_commit_id c) = None"
    by (auto simp: validate_next_def split: option.splits if_splits)
  with s have "hist_by_command hs (com_command_id c) = None" "hist_by_commit hs (com_commit_id c) = None"
    by (auto simp: suffix_history_def map_le_def dom_def)
  with v fresh have "validate_next hs c = Inr None"
    by (simp add: validate_next_def suffix_history_latest [OF s])
  with v acc s show ?thesis
    by (auto simp: history_accept_def suffix_history_def map_le_def)
qed

lemma accept_length:
  assumes "history_accept h c = Inr (a, h')"
  shows "length (hist_commits h') \<le> Suc (length (hist_commits h))"
proof -
  from assms obtain x where "validate_next h c = Inr x" by (auto simp: history_accept_def res_simps)
  with assms show ?thesis by (cases x) (auto simp: history_accept_def)
qed

lemma scan_step_Inr:
  "scan_step L m (h, s, d) doc = Inr st \<longleftrightarrow>
     (\<exists>c a h1. decode_line L m s d doc = Inr c \<and> history_accept h c = Inr (a, h1) \<and>
        st = (h1, Some (com_state c), Some (com_state_digest c)))"
  by (auto simp: scan_step_def res_simps)

lemma scan_length:
  "res_fold (scan_step L m) (h, s, d) docs = Inr (h', s', d') \<Longrightarrow>
     length (hist_commits h') \<le> length (hist_commits h) + length docs"
proof (induction docs arbitrary: h s d)
  case (Cons doc docs)
  from Cons.prems obtain c a h1 where "history_accept h c = Inr (a, h1)"
    "res_fold (scan_step L m) (h1, Some (com_state c), Some (com_state_digest c)) docs = Inr (h', s', d')"
    by (auto simp: res_simps scan_step_Inr)
  from accept_length [OF this(1)] Cons.IH [OF this(2)] show ?case by simp
qed simp

lemma suffix_scan:
  "res_fold (scan_step L m) (hf, s, d) docs = Inr (hf', s', d') \<Longrightarrow>
     length (hist_commits hf') = length (hist_commits hf) + length docs \<Longrightarrow> suffix_history hs hf \<Longrightarrow>
     \<exists>hs'. res_fold (scan_step L m) (hs, s, d) docs = Inr (hs', s', d') \<and> suffix_history hs' hf'"
proof (induction docs arbitrary: hf hs s d)
  case (Cons doc docs)
  from Cons.prems(1) obtain c a h1 where dec: "decode_line L m s d doc = Inr c" and acc: "history_accept hf c = Inr (a, h1)"
    and rest: "res_fold (scan_step L m) (h1, Some (com_state c), Some (com_state_digest c)) docs = Inr (hf', s', d')"
    by (auto simp: res_simps scan_step_Inr)
  from accept_length [OF acc] scan_length [OF rest] Cons.prems(2)
  have len: "length (hist_commits h1) = Suc (length (hist_commits hf))" by simp
  then obtain hs1 where hs1: "history_accept hs c = Inr (c, hs1)" "suffix_history hs1 h1"
    using suffix_accept [OF Cons.prems(3) acc] by auto
  from Cons.IH [OF rest _ hs1(2)] len Cons.prems(2) obtain hs' where
    "res_fold (scan_step L m) (hs1, Some (com_state c), Some (com_state_digest c)) docs = Inr (hs', s', d')"
    "suffix_history hs' hf'" by auto
  moreover have "scan_step L m (hs, s, d) doc = Inr (hs1, Some (com_state c), Some (com_state_digest c))"
    using dec hs1(1) by (simp add: scan_step_Inr)
  ultimately show ?case by simp
qed simp

lemma seed_suffix:
  assumes "history_wf h" "latest_of (hist_commits h) = Some a"
  shows "suffix_history (seed_history a (hist_has_emitted h)) h"
proof -
  from assms(2) obtain pre where cs: "hist_commits h = pre @ [a]"
    by (cases "hist_commits h" rule: rev_cases) (auto simp: latest_of_def)
  then have "a \<in> set (hist_commits h)" by simp
  with assms(1) have "hist_by_command h (com_command_id a) = Some a" "hist_by_commit h (com_commit_id a) = Some a"
    by (auto simp: history_wf_def comp_def intro!: map_of_is_SomeI)
  moreover have "com_emitted_commands a \<noteq> [] \<longrightarrow> hist_has_emitted h" using assms(1) cs by (auto simp: history_wf_def)
  ultimately show ?thesis using cs by (auto simp: suffix_history_def seed_history_def map_le_def)
qed

text \<open>Replay from the anchor succeeds and ends in the same head as replay of the whole file.\<close>

lemma recovery_agrees:
  assumes sha: "\<And>x. is_sha256 (sha256_hex L x)" and log: "dj_log L j m h" and ok: "anchor_ok L j m h"
    and p: "dj_anchors j m = Some payload"
  shows "\<exists>c. load_recovery_anchor L (dj_interval j) m (docs_of j m) (Some payload) = Some c \<and>
    suffix_history (jc_history c) h"
proof -
  from ok p obtain before row tail a hb where docs: "docs_of j m = before @ JObj row # tail"
    and pay: "payload = anchor_payload L m (before @ [JObj row]) (JObj row) (hist_has_emitted hb)"
    and hb: "log_holds L m (before @ [JObj row]) hb" "latest_of (hist_commits hb) = Some a"
    and a: "decode_commit L (JObj row) None None = Inr a" "map_of row ''state_encoding'' = Some (JStr ''snapshot'')"
      "com_machine_id a = m" "0 < com_revision a" "com_revision a mod dj_interval j = 0"
    and len: "length (hist_commits h) = length (docs_of j m)"
    by (auto simp: anchor_ok_def anchor_describes_def)
  have read: "read_anchor L (dj_interval j) m (docs_of j m) payload =
      Inr (a, hist_has_emitted hb, length (log_bytes L before), tail)"
    unfolding docs pay by (rule read_anchor_published [OF sha a])
  have "log_holds L m ((before @ [JObj row]) @ tail) h"
    using log docs by (auto simp: dj_log_def docs_of_def split: option.splits)
  then obtain s' d' where full: "res_fold (scan_step L m) (hb, Some (com_state a), Some (com_state_digest a)) tail = Inr (h, s', d')"
    using hb unfolding log_holds_def res_fold_append by auto
  have "length (hist_commits hb) \<le> Suc (length before)"
    using hb(1) scan_length [of L m empty_history None None "before @ [JObj row]" hb]
    by (auto simp: log_holds_def empty_history_def)
  with scan_length [OF full] len docs have "length (hist_commits h) = length (hist_commits hb) + length tail" by simp
  then obtain hs' where "res_fold (scan_step L m) (seed_history a (hist_has_emitted hb), Some (com_state a), Some (com_state_digest a)) tail =
      Inr (hs', s', d')" "suffix_history hs' h"
    using suffix_scan [OF full _ seed_suffix] hb by (auto simp: log_holds_def)
  then show ?thesis using read by (simp add: load_recovery_anchor_def scan_lines_def)
qed

text \<open>The head a new process answers, from an anchor or from the whole file.\<close>

lemma read_authoritative_head:
  assumes sha: "\<And>x. is_sha256 (sha256_hex L x)" and log: "dj_log L j m h" and ok: "anchor_ok L j m h"
  shows "\<exists>c. read_authoritative L j m full = Inr c \<and> latest_of (hist_commits (jc_history c)) = latest_of (hist_commits h) \<and>
    hist_has_emitted (jc_history c) = hist_has_emitted h \<and>
    (\<exists>pre. hist_commits h = pre @ hist_commits (jc_history c))"
proof (cases "dj_logs j m = None \<or> full \<or> dj_anchors j m = None")
  case True
  then have "read_authoritative L j m full = Inr (full_cache h (dj_logs j m))"
    using log log_holds_read
    by (auto simp: read_authoritative_def dj_log_def load_recovery_anchor_def split: option.splits)
  then show ?thesis by (auto simp: full_cache_def)
next
  case False
  then obtain docs payload where d: "dj_logs j m = Some docs" "dj_anchors j m = Some payload" "\<not> full" by auto
  then have "docs_of j m = docs" by (simp add: docs_of_def)
  with recovery_agrees [OF sha log ok d(2)] d obtain c where
    "read_authoritative L j m full = Inr c" and c: "suffix_history (jc_history c) h"
    by (auto simp: read_authoritative_def)
  then show ?thesis using suffix_history_latest [OF c] by (auto simp: suffix_history_def)
qed

lemma commit_document_forced: "commit_document c prev True = commit_document c None True"
  by (simp add: commit_document_def state_record_def)

lemma publish_anchor_ok:
  assumes sha: "\<And>x. is_sha256 (sha256_hex L x)" and doc: "commit_document c prev force = Inr doc"
    and force: "com_revision c mod dj_interval j = 0 \<longrightarrow> force"
  shows "\<exists>a. publish_anchor L c doc docs e j = (Inr (), j\<lparr>dj_anchors := a\<rparr>) \<and>
    (a = dj_anchors j \<or> com_revision c mod dj_interval j = 0 \<and> commit_document c None True = Inr doc \<and>
       a = (dj_anchors j)(com_machine_id c \<mapsto> anchor_payload L (com_machine_id c) docs doc e))"
proof (cases "com_revision c mod dj_interval j = 0")
  case True
  with force doc have "commit_document c None True = Inr doc" by (simp add: commit_document_forced [of c prev])
  with True sha [of "log_bytes L docs"] show ?thesis
    unfolding publish_anchor_def
    by (intro exI [of _ "(dj_anchors j)(com_machine_id c \<mapsto> anchor_payload L (com_machine_id c) docs doc e)"])
      (simp only: not_not if_True if_False simp_thms sum.case)
next
  case False
  then have "publish_anchor L c doc docs e j = (Inr (), j\<lparr>dj_anchors := dj_anchors j\<rparr>)"
    by (simp add: publish_anchor_def)
  then show ?thesis by blast
qed

lemma published_describes:
  assumes sha: "\<And>x. is_sha256 (sha256_hex L x)" and c: "commit_recordable L c" "com_machine_id c = m"
    and h: "log_holds L m (docs @ [doc]) h" "hist_commits h = cs @ [strip c]"
    and doc: "commit_document c None True = Inr doc" and rev: "com_revision c mod interval = 0"
  shows "anchor_describes L interval m (docs @ [doc]) (anchor_payload L m (docs @ [doc]) doc (hist_has_emitted h))"
proof -
  have "continues_state L None None c" by (simp add: continues_state_def)
  from commit_document_replays [OF sha c(1) this, of True] doc
  have dec: "decode_commit L doc None None = Inr (strip c)" by (simp add: strip_def)
  obtain row where row: "doc = JObj row" "map_of row ''state_encoding'' = Some (JStr ''snapshot'')"
    using doc map_of_jobj [of "commit_document_fields c (''snapshot'', com_state c)"]
    by (auto simp: commit_document_def state_record_def jobj_def commit_document_names commit_fields_distinct
        commit_document_fields_def)
  have "0 < com_revision c" using c(1) commit_ok_facts(1,2) [of L c] by (simp add: commit_recordable_def)
  with dec row h c(2) rev show ?thesis unfolding anchor_describes_def
    by (intro exI [of _ docs] exI [of _ row] exI [of _ "[]"] exI [of _ "strip c"] exI [of _ h]) simp
qed

text \<open>The durable part of an append of a commit the history accepts.\<close>

lemma append_record_ok:
  assumes sha: "\<And>x. is_sha256 (sha256_hex L x)" and h: "dj_log L j m h" "history_strip (jc_history cached) = h" "jc_complete cached"
    and c: "com_machine_id c = m" "commit_recordable L c" "\<not> dj_retired j m"
    and val: "validate_next (jc_history cached) c = Inr None"
    and cont: "continues_state L (map_option com_state (latest_of (hist_commits h)))
      (map_option com_state_digest (latest_of (hist_commits h))) c"
    and doc: "commit_document c (map_option com_state (latest_of (hist_commits h))) force = Inr doc"
    and force: "com_revision c mod dj_interval j = 0 \<longrightarrow> force"
    and idx: "index_ok j m [c]"
  shows "\<exists>j' h'. append_record L c cached doc j = (Inr c, j') \<and> history_accept h (strip c) = Inr (strip c, h') \<and> dj_ok L j' m h' \<and>
    (\<forall>k. dj_index j' k = dj_index j k \<or> dj_index j' k = Some m) \<and> (anchor_ok L j m h \<longrightarrow> anchor_ok L j' m h')"
proof -
  define docs where "docs = (case dj_logs j m of None \<Rightarrow> [] | Some ds \<Rightarrow> ds)"
  have holds: "log_holds L m docs h"
    using h(1) log_holds_Nil by (auto simp: dj_log_def docs_def split: option.splits)
  obtain h2 where acc: "history_accept (jc_history cached) c = Inr (c, h2)" using val by (simp add: history_accept_def)
  then have acc': "history_accept h (strip c) = Inr (strip c, history_strip h2)"
    using history_accept_strip [of "jc_history cached" c] h(2) by simp
  have val': "validate_next h (strip c) = Inr None"
    using validate_next_strip [of "jc_history cached" c] h(2) val by simp
  note holds' = log_holds_snoc(1) [OF sha holds c(2,1) val' cont doc acc']
  define cached' where "cached' = cached\<lparr>jc_history := h2, jc_seen := Some (docs @ [doc])\<rparr>"
  define j2 where "j2 = j\<lparr>dj_logs := (dj_logs j)(m \<mapsto> docs @ [doc]), dj_cache := (dj_cache j)(m \<mapsto> cached')\<rparr>"
  have "index_ok j2 m [c]" using idx by (simp add: index_ok_def j2_def)
  note ic = index_commits_ok [OF this]
  define j3 where "j3 = j2\<lparr>dj_index := (\<lambda>i. if i \<in> com_commit_id ` set [c] then Some m else dj_index j2 i)\<rparr>"
  have interval: "dj_interval j3 = dj_interval j" by (simp add: j3_def j2_def)
  have force3: "com_revision c mod dj_interval j3 = 0 \<longrightarrow> force" using force unfolding interval .
  obtain a4 where a4': "publish_anchor L c doc (docs @ [doc]) (hist_has_emitted h2) j3 = (Inr (), j3\<lparr>dj_anchors := a4\<rparr>) \<and>
     (a4 = dj_anchors j3 \<or> com_revision c mod dj_interval j3 = 0 \<and> commit_document c None True = Inr doc \<and>
       a4 = (dj_anchors j3)(com_machine_id c \<mapsto> anchor_payload L (com_machine_id c) (docs @ [doc]) doc (hist_has_emitted h2)))"
    using publish_anchor_ok [OF sha doc force3, of "docs @ [doc]" "hist_has_emitted h2"] by (rule exE)
  note pub = a4' [THEN conjunct1] and a4 = a4' [THEN conjunct2, unfolded interval]
  define j4 where "j4 = j3\<lparr>dj_anchors := a4\<rparr>"
  have j4: "dj_logs j4 = dj_logs j2" "dj_cache j4 = dj_cache j2" "dj_retired j4 = dj_retired j2" by (simp_all add: j4_def j3_def)
  have "append_record L c cached doc j = act_bind (index_commits m [c]) (\<lambda>_.
      act_bind (publish_anchor L c doc (docs @ [doc]) (hist_has_emitted h2)) (\<lambda>_. act_lift (Inr c))) j2"
    by (simp add: append_record_def Let_def acc c(1) j2_def cached'_def docs_def del: index_commits.simps)
  with ic [folded j3_def] pub [folded j4_def] have "append_record L c cached doc j = (Inr c, j4)"
    by (simp only: act_bind_def act_lift_def prod.case sum.case)
  moreover have "dj_ok L j4 m (history_strip h2)"
    using holds' c(3) h(3) by (simp add: dj_ok_def dj_log_def j4 j2_def cached'_def)
  moreover have "\<forall>k. dj_index j4 k = dj_index j k \<or> dj_index j4 k = Some m" by (simp add: j4_def j3_def j2_def)
  moreover have "anchor_ok L j4 m (history_strip h2)" if "anchor_ok L j m h"
  proof -
    have docs4: "docs_of j m = docs" "docs_of j4 m = docs @ [doc]" by (simp_all add: docs_of_def docs_def j4 j2_def)
    have rest: "dj_anchors j3 = dj_anchors j" "dj_interval j4 = dj_interval j" "dj_anchors j4 = a4"
      by (simp_all add: j2_def j3_def j4_def)
    have "anchor_describes L (dj_interval j) m (docs @ [doc]) p" if p: "a4 m = Some p" for p
      using a4
    proof
      assume "a4 = dj_anchors j3"
      with p rest(1) \<open>anchor_ok L j m h\<close> show ?thesis
        by (simp add: anchor_ok_def docs4 anchor_describes_append)
    next
      assume "com_revision c mod dj_interval j = 0 \<and> commit_document c None True = Inr doc \<and>
        a4 = (dj_anchors j3)(com_machine_id c \<mapsto> anchor_payload L (com_machine_id c) (docs @ [doc]) doc (hist_has_emitted h2))"
      with p c(1) show ?thesis
        using published_describes [OF sha c(2,1) holds' log_holds_snoc(2) [OF sha holds c(2,1) val' cont doc acc']] by simp
    qed
    then show ?thesis
      using \<open>anchor_ok L j m h\<close> log_holds_snoc(2) [OF sha holds c(2,1) val' cont doc acc']
      by (auto simp: anchor_ok_def docs4 rest split: option.splits)
  qed
  ultimately show ?thesis using acc' by blast
qed

text \<open>
  An append to the directory journal answers as acceptance by the history its file holds, and leaves a
  file that holds the resulting history.
\<close>

lemma dir_append_refines:
  assumes sha: "\<And>x. is_sha256 (sha256_hex L x)" and ok: "dj_ok L j m h" and idx: "index_ok j m (c # hist_commits h)"
    and c: "com_machine_id c = m" "commit_recordable L c"
    and cont: "validate_next h (strip c) = Inr None \<Longrightarrow>
      continues_state L (map_option com_state (latest_of (hist_commits h)))
        (map_option com_state_digest (latest_of (hist_commits h))) c"
  shows "\<exists>r j'. dir_append L c j = (r, j') \<and>
    (case history_accept h (strip c) of
       Inl e \<Rightarrow> r = Inl e \<and> dj_logs j' = dj_logs j \<and> dj_ok L j' m h
     | Inr (a, h') \<Rightarrow> (\<exists>a'. r = Inr a' \<and> strip a' = a) \<and> dj_ok L j' m h') \<and>
    (\<forall>k. dj_index j' k = dj_index j k \<or> dj_index j' k = Some m) \<and>
    (anchor_ok L j m h \<longrightarrow> (\<forall>a h'. history_accept h (strip c) = Inr (a, h') \<longrightarrow> anchor_ok L j' m h'))"
proof -
  have "index_ok j m (hist_commits h)" using idx by (simp add: index_ok_def)
  then obtain cached i where ac: "authoritative_cache L m False j = (Inr cached, j\<lparr>dj_cache := (dj_cache j)(m \<mapsto> cached), dj_index := i\<rparr>)"
    and cc: "jc_seen cached = dj_logs j m" "jc_complete cached" "history_strip (jc_history cached) = h"
    and i: "\<And>k. i k = dj_index j k \<or> i k = Some m"
    using authoritative_cache_ok [OF ok, of False] by blast
  define j1 where "j1 = j\<lparr>dj_cache := (dj_cache j)(m \<mapsto> cached), dj_index := i\<rparr>"
  have live: "\<not> dj_retired j m" and log: "dj_log L j m h" using ok by (auto simp: dj_ok_def)
  have j1: "dj_ok L j1 m h" "dj_logs j1 = dj_logs j" "dj_log L j1 m h" "\<not> dj_retired j1 m" "dj_interval j1 = dj_interval j"
    using log live cc by (simp_all add: dj_ok_def j1_def dj_log_def)
  have i1: "\<forall>k. dj_index j1 k = dj_index j k \<or> dj_index j1 k = Some m" using i by (simp add: j1_def)
  have anc1: "anchor_ok L j1 m h = anchor_ok L j m h" 
    by (cases "dj_anchors j m") (simp_all add: anchor_ok_def docs_of_def j1_def)
  have idx1: "index_ok j1 m [c]" using idx i [of "com_commit_id c"] by (auto simp: index_ok_def j1_def)
  have app: "append_cache L c j = (Inr cached, j1)"
    using ac cc(2) by (simp add: append_cache_def c(1) act_bind_def act_lift_def j1_def)
  have val: "validate_next h (strip c) = res_bind (validate_next (jc_history cached) c) (\<lambda>x. Inr (map_option strip x))"
    using validate_next_strip [of "jc_history cached" c] cc(3) by simp
  have latest: "map_option com_state (latest_of (hist_commits (jc_history cached))) = map_option com_state (latest_of (hist_commits h))"
    unfolding cc(3) [symmetric] by (simp add: option.map_comp comp_def)
  show ?thesis
  proof (cases "validate_next (jc_history cached) c")
    case (Inl e)
    then have "validate_next h (strip c) = Inl e" using val by simp
    with Inl j1(1,2) live i1 anc1 show ?thesis by (simp add: dir_append_def c(1) act_bind_def app history_accept_def)
  next
    case (Inr x)
    show ?thesis
    proof (cases x)
      case (Some a)
      then have "validate_next h (strip c) = Inr (Some (strip a))" using val Inr by simp
      with Inr Some j1(1) live i1 anc1 show ?thesis by (simp add: dir_append_def c(1) act_bind_def app history_accept_def)
    next
      case None
      note v = Inr [unfolded None]
      define force where "force = (map_option com_state (latest_of (hist_commits h)) = None \<or> com_revision c mod dj_interval j1 = 0)"
      have ct: "continues_state L (map_option com_state (latest_of (hist_commits h)))
          (map_option com_state_digest (latest_of (hist_commits h))) c" using cont val v by simp
      then obtain doc where doc: "commit_document c (map_option com_state (latest_of (hist_commits h))) force = Inr doc"
        using commit_document_replays [OF sha c(2)] by blast
      have "dir_append L c j = append_record L c cached doc j1"
        using live v doc by (simp add: dir_append_def c(1) act_bind_def app Let_def latest force_def)
      moreover obtain j' h' where "append_record L c cached doc j1 = (Inr c, j')"
        "history_accept h (strip c) = Inr (strip c, h')" "dj_ok L j' m h'"
        "\<forall>k. dj_index j' k = dj_index j1 k \<or> dj_index j' k = Some m" "anchor_ok L j1 m h \<longrightarrow> anchor_ok L j' m h'"
        using append_record_ok [OF sha j1(3) cc(3,2) c j1(4) v ct doc _ idx1] by (auto simp: force_def)
      ultimately show ?thesis using i1 anc1 by (intro exI [of _ "Inr c"] exI [of _ j']) (simp, metis)
    qed
  qed
qed

section \<open>Restart\<close>

text \<open>A new process over the same files reads back what they hold, whatever the anchors say.\<close>

lemma reopen_select [simp]:
  "dj_logs (reopen j) = dj_logs j" "dj_retired (reopen j) = dj_retired j" "dj_cache (reopen j) = Map.empty"
  "dj_anchors (reopen j) = dj_anchors j" "dj_index (reopen j) = Map.empty" "dj_interval (reopen j) = dj_interval j"
  by (simp_all add: reopen_def)

lemma dir_commits_restart:
  assumes "dj_log L j m h" "\<not> dj_retired j m" "nonblank m"
  shows "\<exists>j'. dir_commits L m (reopen j) = (Inr (hist_commits h), j') \<and> dj_logs j' = dj_logs j"
proof -
  define c where "c = full_cache h (dj_logs j m)"
  define j1 where "j1 = (reopen j)\<lparr>dj_cache := [m \<mapsto> c]\<rparr>"
  have read: "read_authoritative L (reopen j) m True = Inr c"
    using assms(1) log_holds_read
    by (auto simp: read_authoritative_def c_def dj_log_def reopen_def split: option.splits)
  have "index_ok j1 m (hist_commits h)" by (simp add: index_ok_def j1_def reopen_def)
  note idx = index_commits_ok [OF this]
  have commits: "hist_commits (jc_history c) = hist_commits h" by (simp add: c_def full_cache_def)
  have "authoritative_cache L m True (reopen j) = act_bind (index_commits m (hist_commits h)) (\<lambda>_. act_lift (Inr c)) j1"
    using read commits by (simp add: authoritative_cache_def j1_def)
  also have "\<dots> = (Inr c, j1\<lparr>dj_index :=
      (\<lambda>i. if i \<in> com_commit_id ` set (hist_commits h) then Some m else dj_index j1 i)\<rparr>)"
    using idx by (simp add: act_bind_def act_lift_def)
  finally show ?thesis
    using assms(2,3) commits by (simp add: dir_commits_def project_history_def act_bind_def act_lift_def)
      (simp add: j1_def)
qed

text \<open>Recording a whole history, commit after commit.\<close>

fun dir_appends :: "hostlib \<Rightarrow> machine_commit list \<Rightarrow> (dir_journal, unit) action" where
  "dir_appends L [] j = (Inr (), j)"
| "dir_appends L (c # cs) j = act_bind (dir_append L c) (\<lambda>_. dir_appends L cs) j"

lemma validate_next_fresh:
  assumes "history_wf h" "chain_from (latest_of (hist_commits h)) [c]"
    and "com_command_id c \<notin> com_command_id ` set (hist_commits h)"
    and "com_commit_id c \<notin> com_commit_id ` set (hist_commits h)"
  shows "validate_next h c = Inr None"
proof -
  have "hist_by_command h (com_command_id c) = None" "hist_by_commit h (com_commit_id c) = None"
    using assms(1,3,4) by (auto simp: history_wf_def map_of_eq_None_iff image_image)
  with assms(2) show ?thesis by (auto simp: validate_next_def split: option.splits)
qed

lemma accepted_recordable:
  assumes "accepted_commit L cfg p c" "all_nonblank (com_effect_intent_refs c)"
  shows "commit_recordable L c" "com_machine_id c = cfg_machine_id cfg"
  using assms by (auto simp: accepted_commit_def commit_recordable_def)

lemma accepted_continues:
  assumes "accepted_commit L cfg p c" "\<And>q. p = Some q \<Longrightarrow> json_wf (com_state q)"
  shows "continues_state L (map_option com_state p) (map_option com_state_digest p) c"
  using assms by (cases p) (auto simp: accepted_commit_def continues_state_def)

lemma accepted_from_prefix: "accepted_from L cfg p (xs @ ys) \<Longrightarrow> accepted_from L cfg p xs"
  by (induction xs arbitrary: p) auto

lemma chain_from_prefix: "chain_from p (xs @ ys) \<Longrightarrow> chain_from p xs"
  by (induction xs arbitrary: p) auto

lemma chain_from_strip [simp]: "chain_from p [strip c] = chain_from p [c]"
  "chain_from (map_option strip p) [c] = chain_from p [c]"
  by (cases p; simp)+

lemma dir_appends_hold:
  assumes sha: "\<And>x. is_sha256 (sha256_hex L x)"
  shows "chain (pre @ cs) \<Longrightarrow> distinct (map com_command_id (pre @ cs)) \<Longrightarrow> distinct (map com_commit_id (pre @ cs)) \<Longrightarrow>
    accepted_from L cfg None (pre @ cs) \<Longrightarrow> \<forall>c \<in> set cs. all_nonblank (com_effect_intent_refs c) \<Longrightarrow>
    dj_ok L j (cfg_machine_id cfg) h \<Longrightarrow> hist_commits h = map strip pre \<Longrightarrow> index_ok j (cfg_machine_id cfg) (pre @ cs) \<Longrightarrow>
    anchor_ok L j (cfg_machine_id cfg) h \<Longrightarrow>
    \<exists>j' h'. dir_appends L cs j = (Inr (), j') \<and> dj_ok L j' (cfg_machine_id cfg) h' \<and>
      anchor_ok L j' (cfg_machine_id cfg) h' \<and> hist_commits h' = map strip (pre @ cs)"
proof (induction cs arbitrary: pre j h)
  case Nil
  then show ?case by auto
next
  case (Cons c cs)
  let ?m = "cfg_machine_id cfg"
  have all: "pre @ c # cs = (pre @ [c]) @ cs" by simp
  have acc: "accepted_from L cfg None (pre @ [c])" using Cons.prems(4) accepted_from_prefix unfolding all by blast
  then have accc: "accepted_commit L cfg (latest_of pre) c" by (simp add: accepted_from_snoc latest_of_def)
  have wf: "json_wf (com_state q)" if "latest_of pre = Some q" for q
    using that acc accepted_from_mem [of L cfg None "pre @ [c]" q]
    by (auto simp: latest_of_def accepted_commit_def split: if_splits)
  have cont: "continues_state L (map_option com_state (latest_of (hist_commits h)))
      (map_option com_state_digest (latest_of (hist_commits h))) c"
    using accepted_continues [OF accc wf] by (simp add: Cons.prems(7) option.map_comp comp_def)
  have "chain (pre @ [c])" using Cons.prems(1) chain_from_prefix unfolding all by blast
  then have "chain_from (latest_of pre) [c]" by (simp add: chain_from_append latest_of_def)
  then have link: "chain_from (latest_of (hist_commits h)) [strip c]"
    by (simp only: Cons.prems(7) latest_of_strip chain_from_strip)
  have hwf: "history_wf h" using Cons.prems(6) dj_log_wf by (auto simp: dj_ok_def)
  have fresh: "validate_next h (strip c) = Inr None"
    using Cons.prems(2,3) by (intro validate_next_fresh [OF hwf link]) (auto simp: Cons.prems(7) image_image)
  note rec = accepted_recordable [OF accc]
  have "index_ok j ?m (c # hist_commits h)" using Cons.prems(8) by (auto simp: index_ok_def Cons.prems(7))
  from dir_append_refines [OF sha Cons.prems(6) this rec(2) rec(1) cont] Cons.prems(5) obtain r j1 h1 where
    app: "dir_append L c j = (Inr r, j1)" "dj_ok L j1 ?m h1" "history_accept h (strip c) = Inr (strip c, h1)"
      "\<forall>k. dj_index j1 k = dj_index j k \<or> dj_index j1 k = Some ?m" "anchor_ok L j1 ?m h1"
    using fresh Cons.prems(9) by (auto simp: history_accept_def)
  have h1: "hist_commits h1 = map strip (pre @ [c])" using app(3) fresh Cons.prems(7) by (auto simp: history_accept_def)
  have "index_ok j1 ?m ((pre @ [c]) @ cs)"
    using Cons.prems(8) app(4) unfolding index_ok_def all [symmetric] by (metis insert_iff)
  then show ?case
    using Cons.IH [of "pre @ [c]" j1 h1] Cons.prems(1-5) app(1,2,5) h1 by (simp add: act_bind_def)
qed

lemma dir_head_restart:
  assumes sha: "\<And>x. is_sha256 (sha256_hex L x)" and log: "dj_log L j m h" and ok: "anchor_ok L j m h"
    and m: "\<not> dj_retired j m" "nonblank m"
  shows "\<exists>j'. dir_head L m (reopen j) = (Inr (latest_of (hist_commits h), hist_has_emitted h), j')"
proof -
  have "dj_log L (reopen j) m h" "anchor_ok L (reopen j) m h"
    using log ok by (simp_all add: dj_log_def anchor_ok_def docs_of_def cong: option.case_cong)
  from read_authoritative_head [OF sha this, of False] obtain c where c: "read_authoritative L (reopen j) m False = Inr c"
    "latest_of (hist_commits (jc_history c)) = latest_of (hist_commits h)" "hist_has_emitted (jc_history c) = hist_has_emitted h"
    by blast
  define j1 where "j1 = (reopen j)\<lparr>dj_cache := [m \<mapsto> c]\<rparr>"
  have "index_ok j1 m (hist_commits (jc_history c))" by (simp add: index_ok_def j1_def)
  note idx = index_commits_ok [OF this]
  have "authoritative_cache L m False (reopen j) = act_bind (index_commits m (hist_commits (jc_history c))) (\<lambda>_. act_lift (Inr c)) j1"
    using c(1) by (simp add: authoritative_cache_def j1_def)
  with idx obtain j2 where "authoritative_cache L m False (reopen j) = (Inr c, j2)" by (simp add: act_bind_def act_lift_def)
  then show ?thesis
    using m c(2,3) by (simp add: dir_head_def project_history_def act_bind_def act_lift_def)
qed

lemma dir_records_history:
  assumes "sha_ok L" "dir_journal_init interval = Inr j" "history_wf g" "accepted_from L cfg None (hist_commits g)"
    and "\<forall>c \<in> set (hist_commits g). all_nonblank (com_effect_intent_refs c)" "nonblank (cfg_machine_id cfg)"
  shows "\<exists>j' j1 j2. dir_appends L (hist_commits g) j = (Inr (), j') \<and>
    dir_commits L (cfg_machine_id cfg) (reopen j') = (Inr (map strip (hist_commits g)), j1) \<and>
    dir_head L (cfg_machine_id cfg) (reopen j') = (Inr (map_option strip (latest_of (hist_commits g)), hist_has_emitted g), j2)"
proof -
  let ?m = "cfg_machine_id cfg"
  have sha: "\<And>x. is_sha256 (sha256_hex L x)" using assms(1) by blast
  have j: "dj_ok L j ?m empty_history" "index_ok j ?m cs" "anchor_ok L j ?m empty_history" for cs
    using assms(2) by (auto simp: dir_journal_init_def dj_ok_def dj_log_def index_ok_def anchor_ok_def docs_of_def
        empty_history_def split: if_splits)
  have "chain (hist_commits g)" "distinct (map com_command_id (hist_commits g))" "distinct (map com_commit_id (hist_commits g))"
    using assms(3) by (simp_all add: history_wf_def)
  then obtain j' h' where run: "dir_appends L (hist_commits g) j = (Inr (), j')"
      and ok: "dj_ok L j' ?m h'" "anchor_ok L j' ?m h'" and h': "hist_commits h' = map strip (hist_commits g)"
    using dir_appends_hold [OF sha, of "[]" "hist_commits g" cfg j empty_history] assms(4,5) j
    by (auto simp: empty_history_def)
  have log: "dj_log L j' ?m h'" "\<not> dj_retired j' ?m" using ok by (auto simp: dj_ok_def)
  have "hist_has_emitted h' = hist_has_emitted g"
    using dj_log_wf [OF log(1)] assms(3) h' by (simp add: history_wf_def)
  with run h' dir_commits_restart [OF log assms(6)] dir_head_restart [OF sha log(1) ok(2) log(2) assms(6)]
  show ?thesis by auto
qed

section \<open>Identifiers the accelerated prefix cannot name\<close>

text \<open>
  The token pattern takes a backslash only as the first of two, so an identifier whose first escaped
  character is not a backslash is never among the tokens of a prefix, whatever the prefix holds.
\<close>

definition plain_char :: "char \<Rightarrow> bool" where
  "plain_char c = (escape_char c = [c])"

lemma match_token_self: "match_token xs = Some (t, rest) \<Longrightarrow> match_token t = Some (t, [])"
proof (induction xs arbitrary: t rest rule: match_token.induct)
  case (2 c xs)
  consider (quote) "c = CHR 0x22" | (unit) "c = CHR 0x5C" | (plain) "c \<noteq> CHR 0x22" "c \<noteq> CHR 0x5C" by blast
  then show ?case
  proof cases
    case quote
    with 2 show ?thesis by auto
  next
    case unit
    with 2(3) obtain c3 ys t' where xs: "xs = CHR 0x5C # c3 # ys" "c3 \<noteq> CHR 0x0A" "match_token ys = Some (t', rest)"
      "t = CHR 0x5C # CHR 0x5C # c3 # t'"
      by (auto split: list.splits if_splits)
    with 2(1) [of "CHR 0x5C" "c3 # ys" c3 ys t' rest] unit show ?thesis by simp
  next
    case plain
    with 2 show ?thesis by auto
  qed
qed simp

lemma utf8_append [simp]: "utf8 (x @ y) = utf8 x @ utf8 y" and utf8_Nil [simp]: "utf8 [] = []"
  by (simp_all add: utf8_def)

lemma utf8_plain:
  assumes "plain_char c" "b \<in> set (utf8_char c)"
  shows "b \<noteq> CHR 0x22" "b \<noteq> CHR 0x5C"
proof -
  have c: "c \<noteq> CHR 0x22" "c \<noteq> CHR 0x5C" using assms(1) by (auto simp: plain_char_def escape_char_def)
  have "b = c \<or> 128 \<le> (of_char b :: nat)"
  proof (cases "of_char c < (128::nat)")
    case True
    with assms(2) show ?thesis by (simp add: utf8_char_def)
  next
    case False
    have "of_char c < (256::nat)" by simp
    then have "(192 + of_char c div 64) mod 256 = 192 + (of_char c div 64 :: nat)"
      by (intro mod_less) linarith
    with False assms(2) show ?thesis by (auto simp: utf8_char_def Let_def)
  qed
  with c show "b \<noteq> CHR 0x22" "b \<noteq> CHR 0x5C" by auto
qed

lemma match_token_skip:
  "\<forall>b \<in> set ys. b \<noteq> CHR 0x22 \<and> b \<noteq> CHR 0x5C \<Longrightarrow> match_token zs = None \<Longrightarrow> match_token (ys @ zs) = None"
  by (induction ys) simp_all

lemma id_tokens_match: "(k, x) \<in> set (id_tokens bytes) \<Longrightarrow> \<exists>t. x = CHR 0x22 # t \<and> match_token t = Some (t, [])"
proof (induction bytes rule: id_tokens.induct)
  case (1 bytes)
  show ?case
  proof (cases bytes)
    case Nil
    then show ?thesis using 1(3) by (simp add: id_tokens.simps)
  next
    case (Cons c xs)
    show ?thesis
    proof (cases "match_id bytes")
      case None
      with 1(3) Cons have "(k, x) \<in> set (id_tokens xs)" by (subst (asm) id_tokens.simps) simp
      then show ?thesis using 1(1) [OF Cons] None Cons by simp
    next
      case (Some r)
      then obtain k' t' rest where r: "match_id bytes = Some (k', CHR 0x22 # t', rest)" "match_token t' = Some (t', [])"
        by (auto simp: match_id_def split: if_splits dest: match_token_self)
      with 1(3) Cons have "(k, x) = (k', CHR 0x22 # t') \<or> (k, x) \<in> set (id_tokens rest)"
        by (subst (asm) id_tokens.simps) simp
      then show ?thesis using 1(2) [OF Cons _ refl refl, of k' "CHR 0x22 # t'" rest] r Cons by auto
    qed
  qed
qed

lemma escaped_not_token:
  assumes "\<forall>c \<in> set a. plain_char c" "\<not> plain_char q" "q \<noteq> CHR 0x5C"
  shows "canonical_bytes L (JStr (a @ q # b)) \<notin> set (prefix_tokens k bytes)"
proof
  assume "canonical_bytes L (JStr (a @ q # b)) \<in> set (prefix_tokens k bytes)"
  then have "(k, canonical_bytes L (JStr (a @ q # b))) \<in> set (id_tokens bytes)" by (auto simp: prefix_tokens_def)
  then obtain t where t: "canonical_bytes L (JStr (a @ q # b)) = CHR 0x22 # t" "match_token t = Some (t, [])"
    using id_tokens_match by blast
  have plain: "concat (map escape_char a) = a" using assms(1) by (induction a) (auto simp: plain_char_def)
  obtain e where e: "escape_char q = CHR 0x5C # e" "e \<noteq> []" "hd e \<noteq> CHR 0x5C" "hd e \<in> {CHR 0x22, CHR ''n'', CHR ''r'', CHR ''t'', CHR ''f'', CHR ''b'', CHR ''u''}"
    using assms(2,3) by (auto simp: plain_char_def escape_char_def Let_def split: if_splits)
  then obtain e1 e2 where e12: "e = e1 # e2" by (cases e) auto
  have "utf8 (CHR 0x5C # e1 # x) = CHR 0x5C # e1 # utf8 x" for x
    using e(4) e12 by (auto simp: utf8_def utf8_char_def)
  then have "t = utf8 a @ CHR 0x5C # e1 # utf8 (e2 @ concat (map escape_char b) @ [CHR 0x22])"
    using t(1) e e12 plain by (simp add: canonical_bytes_def encode_basestring_def utf8_def utf8_char_def)
  moreover have "match_token (CHR 0x5C # e1 # x) = None" for x using e(3) e12 by (simp split: list.splits)
  moreover have "\<forall>b \<in> set (utf8 a). b \<noteq> CHR 0x22 \<and> b \<noteq> CHR 0x5C"
    using assms(1) by (fastforce simp: utf8_def dest: utf8_plain)
  ultimately have "match_token t = None" using match_token_skip by simp
  with t(2) show False by simp
qed

text \<open>Looked up over an accelerated prefix, such a command is reported as never committed.\<close>

lemma escaped_command_missed:
  assumes "dj_cache j m = Some c" "jc_seen c = dj_logs j m" "\<not> jc_complete c"
    and "jc_command_tokens c = prefix_tokens True bytes" "hist_by_command (jc_history c) (a @ q # b) = None"
    and "\<forall>c \<in> set a. plain_char c" "\<not> plain_char q" "q \<noteq> CHR 0x5C"
    and "nonblank m" "nonblank (a @ q # b)" "\<not> dj_retired j m"
  shows "dir_command_commit L m (a @ q # b) j = (Inr None, j)"
  using assms escaped_not_token [OF assms(6-8), of L b True bytes]
  by (simp add: dir_command_commit_def authoritative_cache_def cache_valid_def act_bind_def act_lift_def)

section \<open>Records that cannot be read back\<close>

lemma text_items_nonblank: "text_items (jstrs xs) = Inr ys \<Longrightarrow> all_nonblank xs"
proof (induction xs arbitrary: ys)
  case (Cons x xs)
  then show ?case by (auto simp: text_items_def jstrs_def all_nonblank_def res_simps split: if_splits)
qed (simp add: all_nonblank_def)

lemma blank_effect_unreadable:
  assumes "commit_document c prev force = Inr doc" "\<not> all_nonblank (com_effect_intent_refs c)"
  shows "\<not> is_ok (decode_commit L doc prev' digest)"
proof
  assume "is_ok (decode_commit L doc prev' digest)"
  then obtain c' where dec: "decode_commit L doc prev' digest = Inr c'" by (cases "decode_commit L doc prev' digest") auto
  from assms(1) obtain entry where doc: "doc = jobj (commit_document_fields c entry)"
    by (auto simp: commit_document_def res_simps)
  from dec obtain st rv b dr ct a where "decode_commit_object L (dict_of (commit_document_fields c entry)) st rv b dr ct = Inr a"
    unfolding doc decode_commit_def by (auto simp: res_simps Let_def)
  then obtain refs where "res_bind (field_of (dict_of (commit_document_fields c entry)) ''effect_intent_refs'') text_items = Inr refs"
    unfolding decode_commit_object_def by (auto simp: res_simps)
  then have "text_items (jstrs (com_effect_intent_refs c)) = Inr refs"
    unfolding field_of_commit_document by (simp add: commit_document_fields_def)
  with assms(2) show False using text_items_nonblank by blast
qed

end
