(* ===== verification/Service.thy ===== *)
theory Service
  imports Prelude
begin

text \<open>
  The contract between a durable implementation and the in-memory one it stands in for: related
  states answer every admissible call alike and stay related.  It is stated once, for any service, and
  gives the same answers over any sequence of calls.
\<close>

text \<open>The answers to a sequence of calls, and the state they leave.\<close>

fun run_calls :: "('op \<Rightarrow> ('s, 'a) action) \<Rightarrow> 'op list \<Rightarrow> 's \<Rightarrow> 'a res list \<times> 's" where
  "run_calls call [] s = ([], s)"
| "run_calls call (c # cs) s =
     (case call c s of (r, s') \<Rightarrow> case run_calls call cs s' of (rs, t) \<Rightarrow> (r # rs, t))"

lemma run_calls_append: "run_calls call (xs @ ys) s =
    (case run_calls call xs s of (rs, t) \<Rightarrow> case run_calls call ys t of (rs', u) \<Rightarrow> (rs @ rs', u))"
  by (induction xs arbitrary: s) (auto split: prod.splits)

definition simulates :: "('s \<Rightarrow> 't \<Rightarrow> bool) \<Rightarrow> ('s, 'a) action \<Rightarrow> ('t, 'a) action \<Rightarrow> bool" where
  "simulates R f g = (\<forall>s t. R s t \<longrightarrow> fst (f s) = fst (g t) \<and> R (snd (f s)) (snd (g t)))"

lemma simulatesD: "simulates R f g \<Longrightarrow> R s t \<Longrightarrow> fst (f s) = fst (g t) \<and> R (snd (f s)) (snd (g t))"
  by (simp add: simulates_def)

lemma simulatesI: "(\<And>s t. R s t \<Longrightarrow> fst (f s) = fst (g t) \<and> R (snd (f s)) (snd (g t))) \<Longrightarrow> simulates R f g"
  by (simp add: simulates_def)

lemma simulates_bind:
  assumes "simulates R f g" "\<And>x. simulates R (f' x) (g' x)"
  shows "simulates R (act_bind f f') (act_bind g g')"
proof (rule simulatesI)
  fix s t assume R: "R s t"
  from simulatesD [OF assms(1) R] have 1: "fst (f s) = fst (g t)" "R (snd (f s)) (snd (g t))" by auto
  show "fst (act_bind f f' s) = fst (act_bind g g' t) \<and> R (snd (act_bind f f' s)) (snd (act_bind g g' t))"
    using 1 simulatesD [OF assms(2) 1(2)] by (cases "f s"; cases "g t") (auto simp: act_bind_def split: sum.splits)
qed

lemma simulates_lift: "simulates R (act_lift r) (act_lift r)"
  by (simp add: simulates_def act_lift_def)

text \<open>An action whose answer is translated.\<close>

definition act_answer :: "('a \<Rightarrow> 'b) \<Rightarrow> ('s, 'a) action \<Rightarrow> ('s, 'b) action" where
  "act_answer h f = act_bind f (\<lambda>x. act_lift (Inr (h x)))"

lemma simulates_answer: "simulates R f g \<Longrightarrow> simulates R (act_answer h f) (act_answer h g)"
  unfolding act_answer_def by (intro simulates_bind simulates_lift)

lemma snd_act_answer [simp]: "snd (act_answer h f s) = snd (f s)"
  by (auto simp: act_answer_def act_bind_def act_lift_def split: prod.splits sum.splits)

section \<open>The interface\<close>

locale refined_service =
  fixes rep :: "'s \<Rightarrow> 't \<Rightarrow> bool"
    and admissible :: "'op \<Rightarrow> bool"
    and conc :: "'op \<Rightarrow> ('s, 'a) action"
    and abst :: "'op \<Rightarrow> ('t, 'a) action"
  assumes call: "admissible c \<Longrightarrow> simulates rep (conc c) (abst c)"
begin

lemma run:
  "rep s t \<Longrightarrow> list_all admissible cs \<Longrightarrow>
     fst (run_calls conc cs s) = fst (run_calls abst cs t) \<and> rep (snd (run_calls conc cs s)) (snd (run_calls abst cs t))"
proof (induction cs arbitrary: s t)
  case (Cons c cs)
  obtain r s' where s': "conc c s = (r, s')" by (cases "conc c s")
  obtain r' t' where t': "abst c t = (r', t')" by (cases "abst c t")
  have "r = r'" "rep s' t'" using simulatesD [OF call Cons.prems(1)] Cons.prems(2) s' t' by (fastforce simp: simulates_def)+
  with Cons.IH [of s' t'] Cons.prems(2) s' t' show ?case by (auto split: prod.splits)
qed simp

text \<open>What every reachable abstract state satisfies shows in the answers of the implementation.\<close>

lemma answers_after:
  assumes "rep s t" "list_all admissible cs" "admissible c"
  shows "fst (conc c (snd (run_calls conc cs s))) = fst (abst c (snd (run_calls abst cs t)))"
  using run [OF assms(1,2)] simulatesD [OF call [OF assms(3)]] by blast

end

end
