(* ===== verification/JournalGc.thy ===== *)
theory JournalGc
  imports DirJournalProofs Service
begin

text \<open>
  Retirement of a machine journal: the closure proofs of \<^verbatim>\<open>kernel/durable_closure.py\<close>, the carrier
  generations of \<^verbatim>\<open>kernel/durability/filesystem_generation.py\<close>, the checksummed documents of
  \<^verbatim>\<open>kernel/durability/checksummed_document.py\<close>, and the assessment and purge of
  \<^verbatim>\<open>kernel/journal.py\<close>.  Each durable file operation may be the last one of the process: the state
  counts how many are left before a crash.  Operating-system errors are outside the model.
\<close>

section \<open>Closures\<close>

datatype closure_authority = CA_EXECUTION | CA_EVIDENCE | CA_RECOVERY

fun closure_authority_value :: "closure_authority \<Rightarrow> string" where
  "closure_authority_value CA_EXECUTION = ''execution''"
| "closure_authority_value CA_EVIDENCE = ''evidence''"
| "closure_authority_value CA_RECOVERY = ''recovery''"

record closure =
  clo_authority :: closure_authority
  clo_proof_digest :: string
  clo_retained :: "string list"

definition closure_post_init :: "closure \<Rightarrow> closure res" where
  "closure_post_init self =
     res_bind (require (is_sha256 (clo_proof_digest self)) ValueError) (\<lambda>_.
     res_bind (require (\<forall>v \<in> set (clo_retained self). nonblank v \<and> v = py_strip v) TypeError) (\<lambda>_.
     res_bind (require (clo_retained self = sort (remdups (clo_retained self))) ValueError) (\<lambda>_.
     Inr self)))"

definition validate_closures :: "closure list \<Rightarrow> closure list res" where
  "validate_closures closures =
     (let authorities = map clo_authority closures in
      if authorities \<noteq> sort_key closure_authority_value (remdups authorities) then Inl ValueError else Inr closures)"

definition closure_complete :: "closure list \<Rightarrow> bool res" where
  "closure_complete closures =
     res_bind (validate_closures closures) (\<lambda>_.
     Inr (map clo_authority closures = sort_key closure_authority_value [CA_EXECUTION, CA_EVIDENCE, CA_RECOVERY]))"

definition gc_eligible :: "closure list \<Rightarrow> bool res" where
  "gc_eligible closures =
     res_bind (closure_complete closures) (\<lambda>complete. Inr (complete \<and> (\<forall>c \<in> set closures. clo_retained c = [])))"

section \<open>The assessment\<close>

record gc_assessment =
  gc_machine_id :: string
  gc_commit_id :: string
  gc_revision :: int
  gc_sha256 :: string
  gc_size :: int
  gc_closures :: "closure list"
  gc_proof :: string

definition closure_json :: "closure \<Rightarrow> json" where
  "closure_json c = jobj
     [(''authority'', JStr (closure_authority_value (clo_authority c))),
      (''proof_digest'', JStr (clo_proof_digest c)),
      (''retained_reference_ids'', jstrs (clo_retained c))]"

definition assessment_payload :: "gc_assessment \<Rightarrow> (string \<times> json) list" where
  "assessment_payload self =
     [(''schema'', JStr ''machine.journal-gc-assessment.v1''),
      (''machine_id'', JStr (gc_machine_id self)),
      (''terminal_commit_id'', JStr (gc_commit_id self)),
      (''terminal_revision'', JInt (gc_revision self)),
      (''content_sha256'', JStr (gc_sha256 self)),
      (''byte_size'', JInt (gc_size self)),
      (''closures'', JArr (map closure_json (gc_closures self)))]"

definition assessment_post_init :: "hostlib \<Rightarrow> gc_assessment \<Rightarrow> gc_assessment res" where
  "assessment_post_init L self =
     res_bind (require (nonblank (gc_machine_id self) \<and> gc_machine_id self = py_strip (gc_machine_id self)) ValueError) (\<lambda>_.
     res_bind (require_sha256 (gc_commit_id self)) (\<lambda>_.
     res_bind (require (0 < gc_revision self) ValueError) (\<lambda>_.
     res_bind (require_sha256 (gc_sha256 self)) (\<lambda>_.
     res_bind (require (0 < gc_size self) ValueError) (\<lambda>_.
     res_bind (validate_closures (gc_closures self)) (\<lambda>_.
     Inr (self\<lparr>gc_proof := canonical_digest L (jobj (assessment_payload self))\<rparr>)))))))"

section \<open>Carrier generations\<close>

datatype carrier_kind = REGULAR_FILE | DIRECTORY

fun carrier_kind_value :: "carrier_kind \<Rightarrow> string" where
  "carrier_kind_value REGULAR_FILE = ''regular-file''"
| "carrier_kind_value DIRECTORY = ''directory''"

record generation =
  gen_kind :: carrier_kind
  gen_device :: int
  gen_inode :: int
  gen_change_time :: int

definition generation_post_init :: "generation \<Rightarrow> generation res" where
  "generation_post_init self =
     res_bind (require (0 \<le> gen_device self \<and> 0 \<le> gen_inode self \<and> 0 \<le> gen_change_time self) ValueError) (\<lambda>_. Inr self)"

definition same_object :: "generation \<Rightarrow> generation \<Rightarrow> bool" where
  "same_object self other =
     (gen_kind self = gen_kind other \<and> gen_device self = gen_device other \<and> gen_inode self = gen_inode other)"

definition generation_to_data :: "generation \<Rightarrow> json" where
  "generation_to_data self = jobj
     [(''kind'', JStr (carrier_kind_value (gen_kind self))),
      (''device'', JInt (gen_device self)),
      (''inode'', JInt (gen_inode self)),
      (''change_time_ns'', JInt (gen_change_time self))]"

definition data_int :: "json \<Rightarrow> int res" where
  "data_int v = (case v of JInt n \<Rightarrow> Inr n | _ \<Rightarrow> Inl ValueError)"

definition carrier_kind_of :: "json \<Rightarrow> carrier_kind res" where
  "carrier_kind_of v =
     (if v = JStr ''regular-file'' then Inr REGULAR_FILE
      else if v = JStr ''directory'' then Inr DIRECTORY else Inl ValueError)"

definition generation_from_data :: "json \<Rightarrow> generation res" where
  "generation_from_data value =
     res_bind (require_object value) (\<lambda>row.
     res_bind (require_exact row [''kind'', ''device'', ''inode'', ''change_time_ns'']) (\<lambda>_.
     res_bind (res_bind (field_of row ''kind'') carrier_kind_of) (\<lambda>kind.
     res_bind (res_bind (field_of row ''device'') data_int) (\<lambda>device.
     res_bind (res_bind (field_of row ''inode'') data_int) (\<lambda>inode.
     res_bind (res_bind (field_of row ''change_time_ns'') data_int) (\<lambda>change_time.
     generation_post_init \<lparr>gen_kind = kind, gen_device = device, gen_inode = inode, gen_change_time = change_time\<rparr>))))))"

section \<open>Checksummed documents\<close>

definition checksummed_document :: "hostlib \<Rightarrow> string \<Rightarrow> json \<Rightarrow> json" where
  "checksummed_document L schema payload = jobj
     [(''schema'', JStr schema), (''payload'', payload), (''payload_sha256'', JStr (canonical_digest L payload))]"

text \<open>Every failure is the one \<^verbatim>\<open>ChecksummedDocumentError\<close>, a \<^verbatim>\<open>RuntimeError\<close>.\<close>

definition decode_checksummed_document :: "hostlib \<Rightarrow> string \<Rightarrow> json \<Rightarrow> (string \<times> json) list res" where
  "decode_checksummed_document L schema document =
     (case document of
        JObj row \<Rightarrow>
          if map_of row ''schema'' \<noteq> Some (JStr schema) then Inl RuntimeError
          else (case map_of row ''payload'' of
              Some (JObj payload) \<Rightarrow>
                if map_of row ''payload_sha256'' \<noteq> Some (JStr (canonical_digest L (JObj payload))) then Inl RuntimeError
                else Inr payload
            | _ \<Rightarrow> Inl RuntimeError)
      | _ \<Rightarrow> Inl RuntimeError)"

section \<open>Retirement intents\<close>

datatype retirement_phase = RETIRED | QUARANTINED | PURGED

fun retirement_phase_value :: "retirement_phase \<Rightarrow> string" where
  "retirement_phase_value RETIRED = ''retired''"
| "retirement_phase_value QUARANTINED = ''quarantined''"
| "retirement_phase_value PURGED = ''purged''"

definition retirement_phase_of :: "string \<Rightarrow> retirement_phase res" where
  "retirement_phase_of s =
     (case find (\<lambda>x. retirement_phase_value x = s) [RETIRED, QUARANTINED, PURGED] of
        None \<Rightarrow> Inl ValueError | Some x \<Rightarrow> Inr x)"

record retirement =
  ret_machine_id :: string
  ret_commit_id :: string
  ret_revision :: int
  ret_sha256 :: string
  ret_size :: int
  ret_proof :: string
  ret_generation :: generation
  ret_phase :: retirement_phase

definition retirement_schema :: string where
  "retirement_schema = ''machine.journal-retirement.v2''"

definition retirement_payload :: "gc_assessment \<Rightarrow> retirement_phase \<Rightarrow> generation \<Rightarrow> json" where
  "retirement_payload gc phase carrier = jobj
     [(''machine_id'', JStr (gc_machine_id gc)),
      (''terminal_commit_id'', JStr (gc_commit_id gc)),
      (''terminal_revision'', JInt (gc_revision gc)),
      (''content_sha256'', JStr (gc_sha256 gc)),
      (''byte_size'', JInt (gc_size gc)),
      (''gc_proof_digest'', JStr (gc_proof gc)),
      (''carrier_generation'', generation_to_data carrier),
      (''phase'', JStr (retirement_phase_value phase))]"

definition retirement_fields :: "string list" where
  "retirement_fields = [''machine_id'', ''terminal_commit_id'', ''terminal_revision'', ''content_sha256'', ''byte_size'',
     ''gc_proof_digest'', ''carrier_generation'', ''phase'']"

definition retirement_values :: "(json \<Rightarrow> string) \<Rightarrow> string \<Rightarrow> (string \<times> json) list \<Rightarrow> retirement res" where
  "retirement_values pystr machine_id payload =
     res_bind (field_of payload ''terminal_commit_id'') (\<lambda>commit_id.
     res_bind (require_sha256 (pystr commit_id)) (\<lambda>_.
     res_bind (field_of payload ''content_sha256'') (\<lambda>content.
     res_bind (require_sha256 (pystr content)) (\<lambda>_.
     res_bind (field_of payload ''gc_proof_digest'') (\<lambda>proof.
     res_bind (require_sha256 (pystr proof)) (\<lambda>_.
     res_bind (res_bind (field_of payload ''phase'') (\<lambda>v. retirement_phase_of (pystr v))) (\<lambda>phase.
     res_bind (field_of payload ''terminal_revision'') (\<lambda>revision.
     res_bind (field_of payload ''byte_size'') (\<lambda>size.
     res_bind (res_bind (field_of payload ''carrier_generation'') generation_from_data) (\<lambda>carrier.
     res_bind (require (gen_kind carrier = REGULAR_FILE) ValueError) (\<lambda>_.
     res_bind (data_int revision) (\<lambda>revision_value.
     res_bind (data_int size) (\<lambda>size_value.
     res_bind (require (0 < revision_value \<and> 0 < size_value) ValueError) (\<lambda>_.
     Inr \<lparr>ret_machine_id = machine_id, ret_commit_id = pystr commit_id, ret_revision = revision_value,
          ret_sha256 = pystr content, ret_size = size_value, ret_proof = pystr proof, ret_generation = carrier,
          ret_phase = phase\<rparr>))))))))))))))"

section \<open>The store\<close>

record journal_store =
  js_journal :: dir_journal
  js_generation :: "string \<Rightarrow> generation"
  js_retirements :: "string \<rightharpoonup> json"
  js_quarantine :: "string \<rightharpoonup> json list \<times> generation"
  js_budget :: nat

text \<open>One durable file operation, or the crash that comes before it.\<close>

definition durable :: "(journal_store \<Rightarrow> journal_store) \<Rightarrow> (journal_store, unit) action" where
  "durable f s = (if js_budget s = 0 then (Inl ProcessStopped, s) else (Inr (), (f s)\<lparr>js_budget := js_budget s - 1\<rparr>))"

definition load_retirement :: "hostlib \<Rightarrow> (json \<Rightarrow> string) \<Rightarrow> string \<Rightarrow> journal_store \<Rightarrow> retirement option res" where
  "load_retirement L pystr machine_id s =
     (case js_retirements s machine_id of
        None \<Rightarrow> Inr None
      | Some document \<Rightarrow>
          (case decode_checksummed_document L retirement_schema document of
             Inl _ \<Rightarrow> Inl MachineIntegrityError
           | Inr payload \<Rightarrow>
               res_bind (require (is_ok (require_exact payload retirement_fields)) MachineIntegrityError) (\<lambda>_.
               res_bind (require (map_of payload ''machine_id'' = Some (JStr machine_id)) MachineIntegrityError) (\<lambda>_.
               (case retirement_values pystr machine_id payload of
                  Inl _ \<Rightarrow> Inl MachineIntegrityError
                | Inr r \<Rightarrow> Inr (Some r))))))"

definition publish_retirement ::
    "hostlib \<Rightarrow> gc_assessment \<Rightarrow> retirement_phase \<Rightarrow> generation \<Rightarrow> (journal_store, unit) action" where
  "publish_retirement L gc phase carrier s =
     (if gen_kind carrier \<noteq> REGULAR_FILE then (Inl TypeError, s)
      else durable (\<lambda>s. s\<lparr>js_retirements := (js_retirements s)(gc_machine_id gc \<mapsto>
          checksummed_document L retirement_schema (retirement_payload gc phase carrier)),
        js_journal := (js_journal s)\<lparr>dj_retired := (dj_retired (js_journal s))(gc_machine_id gc := True)\<rparr>\<rparr>) s)"

definition gc_identity :: "hostlib \<Rightarrow> string \<Rightarrow> journal_store \<Rightarrow> (string \<times> int \<times> string \<times> int) res" where
  "gc_identity L machine_id s =
     (case dj_logs (js_journal s) machine_id of
        None \<Rightarrow> Inl KeyError
      | Some docs \<Rightarrow>
          res_bind (read_authoritative L (js_journal s) machine_id False) (\<lambda>cache.
          (case latest_of (hist_commits (jc_history cache)) of
             None \<Rightarrow> Inl MachineIntegrityError
           | Some latest \<Rightarrow> Inr (com_commit_id latest, com_revision latest, sha256_hex L (log_bytes L docs),
               int (length (log_bytes L docs))))))"

definition require_gc_identity :: "gc_assessment \<Rightarrow> string \<times> int \<times> string \<times> int \<Rightarrow> unit res" where
  "require_gc_identity gc current =
     require (current = (gc_commit_id gc, gc_revision gc, gc_sha256 gc, gc_size gc)) RuntimeError"

definition assess_gc ::
    "hostlib \<Rightarrow> (json \<Rightarrow> string) \<Rightarrow> string \<Rightarrow> closure list \<Rightarrow> journal_store \<Rightarrow> gc_assessment res" where
  "assess_gc L pystr machine_id closures s =
     (if \<not> nonblank machine_id \<or> machine_id \<noteq> py_strip machine_id then Inl ValueError
      else res_bind (load_retirement L pystr machine_id s) (\<lambda>retirement.
        res_bind (case retirement of
            None \<Rightarrow> if js_quarantine s machine_id \<noteq> None then Inl MachineIntegrityError else gc_identity L machine_id s
          | Some r \<Rightarrow> Inr (ret_commit_id r, ret_revision r, ret_sha256 r, ret_size r)) (\<lambda>(commit_id, revision, sha, size).
        assessment_post_init L \<lparr>gc_machine_id = machine_id, gc_commit_id = commit_id, gc_revision = revision,
          gc_sha256 = sha, gc_size = size, gc_closures = closures, gc_proof = []\<rparr>)))"

section \<open>Purge\<close>

definition retirement_matches :: "retirement \<Rightarrow> gc_assessment \<Rightarrow> retirement_phase res" where
  "retirement_matches r gc =
     res_bind (require (ret_machine_id r = gc_machine_id gc \<and> ret_commit_id r = gc_commit_id gc \<and>
       ret_revision r = gc_revision gc \<and> ret_sha256 r = gc_sha256 gc \<and> ret_size r = gc_size gc) RuntimeError) (\<lambda>_.
     res_bind (require (ret_proof r = gc_proof gc) RuntimeError) (\<lambda>_. Inr (ret_phase r)))"

definition validate_quarantine ::
    "hostlib \<Rightarrow> string \<Rightarrow> gc_assessment \<Rightarrow> generation \<Rightarrow> bool \<Rightarrow> journal_store \<Rightarrow> generation res" where
  "validate_quarantine L machine_id gc expected same_object_only s =
     (case js_quarantine s machine_id of
        None \<Rightarrow> Inl RuntimeError
      | Some (docs, found) \<Rightarrow>
          res_bind (require (gen_kind found = REGULAR_FILE) RuntimeError) (\<lambda>_.
          res_bind (require (if same_object_only then same_object expected found else expected = found) RuntimeError) (\<lambda>_.
          res_bind (require (int (length (log_bytes L docs)) = gc_size gc \<and> sha256_hex L (log_bytes L docs) = gc_sha256 gc)
            RuntimeError) (\<lambda>_. Inr found))))"

text \<open>The rename keeps the file object and moves its change time to \<open>now\<close>.\<close>

definition move_to_quarantine :: "int \<Rightarrow> string \<Rightarrow> (journal_store, unit) action" where
  "move_to_quarantine now machine_id s =
     (case (dj_logs (js_journal s) machine_id, js_quarantine s machine_id) of
        (Some docs, None) \<Rightarrow> durable (\<lambda>s. s\<lparr>
            js_journal := (js_journal s)\<lparr>dj_logs := (dj_logs (js_journal s))(machine_id := None)\<rparr>,
            js_quarantine := (js_quarantine s)(machine_id \<mapsto> (docs, (js_generation s machine_id)\<lparr>gen_change_time := now\<rparr>))\<rparr>) s
      | _ \<Rightarrow> (Inl RuntimeError, s))"

definition query_store :: "(journal_store \<Rightarrow> 'a res) \<Rightarrow> (journal_store, 'a) action" where
  "query_store f s = (f s, s)"

text \<open>The anchor file, the cache and the routes of a purged journal go last.\<close>

definition purge_residue :: "string \<Rightarrow> (journal_store, bool) action" where
  "purge_residue machine_id =
     act_bind (durable (\<lambda>s. s\<lparr>js_journal := (js_journal s)\<lparr>dj_anchors := (dj_anchors (js_journal s))(machine_id := None)\<rparr>\<rparr>)) (\<lambda>_ s.
     (Inr True, s\<lparr>js_journal := (js_journal s)\<lparr>dj_cache := (dj_cache (js_journal s))(machine_id := None),
        dj_index := (\<lambda>c. if dj_index (js_journal s) c = Some machine_id then None else dj_index (js_journal s) c)\<rparr>\<rparr>))"

definition purge_quarantined :: "hostlib \<Rightarrow> string \<Rightarrow> gc_assessment \<Rightarrow> generation \<Rightarrow> (journal_store, bool) action" where
  "purge_quarantined L machine_id gc carrier =
     act_bind (query_store (\<lambda>s. require (dj_logs (js_journal s) machine_id = None) RuntimeError)) (\<lambda>_.
     act_bind (\<lambda>s. if js_quarantine s machine_id = None then (Inr (), s)
        else act_bind (query_store (validate_quarantine L machine_id gc carrier False)) (\<lambda>_.
          durable (\<lambda>s. s\<lparr>js_quarantine := (js_quarantine s)(machine_id := None)\<rparr>)) s) (\<lambda>_.
     act_bind (publish_retirement L gc PURGED carrier) (\<lambda>_.
     purge_residue machine_id)))"

definition adopt_quarantine :: "hostlib \<Rightarrow> string \<Rightarrow> gc_assessment \<Rightarrow> generation \<Rightarrow> (journal_store, generation) action" where
  "adopt_quarantine L machine_id gc carrier =
     act_bind (query_store (validate_quarantine L machine_id gc carrier True)) (\<lambda>found.
       act_bind (publish_retirement L gc QUARANTINED found) (\<lambda>_. act_lift (Inr found)))"

definition quarantine_retired ::
    "hostlib \<Rightarrow> int \<Rightarrow> string \<Rightarrow> gc_assessment \<Rightarrow> generation \<Rightarrow> (journal_store, generation) action" where
  "quarantine_retired L now machine_id gc carrier s =
     (let live = dj_logs (js_journal s) machine_id \<noteq> None;
          quarantined = js_quarantine s machine_id \<noteq> None in
      if live \<and> quarantined then (Inl RuntimeError, s)
      else if quarantined then adopt_quarantine L machine_id gc carrier s
      else if live then
        act_bind (query_store (gc_identity L machine_id)) (\<lambda>current.
        act_bind (act_lift (require_gc_identity gc current)) (\<lambda>_.
        act_bind (query_store (\<lambda>s. require (gen_kind (js_generation s machine_id) = REGULAR_FILE) RuntimeError)) (\<lambda>_.
        act_bind (query_store (\<lambda>s. require (carrier = js_generation s machine_id) RuntimeError)) (\<lambda>_.
        act_bind (move_to_quarantine now machine_id) (\<lambda>_. adopt_quarantine L machine_id gc carrier))))) s
      else (Inl RuntimeError, s))"

definition ensure_retirement ::
    "hostlib \<Rightarrow> (json \<Rightarrow> string) \<Rightarrow> string \<Rightarrow> gc_assessment \<Rightarrow> (journal_store, retirement) action" where
  "ensure_retirement L pystr machine_id gc =
     act_bind (query_store (load_retirement L pystr machine_id)) (\<lambda>retirement.
     case retirement of
       Some r \<Rightarrow> act_lift (Inr r)
     | None \<Rightarrow>
         act_bind (query_store (\<lambda>s. require (js_quarantine s machine_id = None) RuntimeError)) (\<lambda>_.
         act_bind (query_store (gc_identity L machine_id)) (\<lambda>current.
         act_bind (act_lift (require_gc_identity gc current)) (\<lambda>_.
         act_bind (query_store (\<lambda>s. require (gen_kind (js_generation s machine_id) = REGULAR_FILE) RuntimeError)) (\<lambda>_.
         act_bind (\<lambda>s. publish_retirement L gc RETIRED (js_generation s machine_id) s) (\<lambda>_.
         act_bind (query_store (load_retirement L pystr machine_id)) (\<lambda>published.
         (case published of None \<Rightarrow> act_lift (Inl MachineIntegrityError) | Some r \<Rightarrow> act_lift (Inr r)))))))))"

definition purge_from ::
    "hostlib \<Rightarrow> int \<Rightarrow> string \<Rightarrow> gc_assessment \<Rightarrow> retirement \<Rightarrow> (journal_store, bool) action" where
  "purge_from L now machine_id gc r =
     act_bind (act_lift (retirement_matches r gc)) (\<lambda>phase.
     (case phase of
        PURGED \<Rightarrow>
          act_bind (query_store (\<lambda>s. require (dj_logs (js_journal s) machine_id = None \<and> js_quarantine s machine_id = None)
            RuntimeError)) (\<lambda>_. purge_residue machine_id)
      | RETIRED \<Rightarrow>
          act_bind (quarantine_retired L now machine_id gc (ret_generation r)) (purge_quarantined L machine_id gc)
      | QUARANTINED \<Rightarrow> purge_quarantined L machine_id gc (ret_generation r)))"

definition purge ::
    "hostlib \<Rightarrow> (json \<Rightarrow> string) \<Rightarrow> int \<Rightarrow> string \<Rightarrow> gc_assessment \<Rightarrow> (journal_store, bool) action" where
  "purge L pystr now machine_id gc =
     act_bind (act_lift (require (gc_machine_id gc = machine_id) RuntimeError)) (\<lambda>_.
     act_bind (act_lift (gc_eligible (gc_closures gc))) (\<lambda>eligible.
     act_bind (act_lift (require eligible RuntimeError)) (\<lambda>_.
     act_bind (ensure_retirement L pystr machine_id gc) (purge_from L now machine_id gc))))"

section \<open>Reading back what was published\<close>

lemma act_bind_lift [simp]: "act_bind (act_lift (Inr x)) f = f x"
  by (simp add: fun_eq_iff act_bind_def act_lift_def)

definition gc_ok :: "gc_assessment \<Rightarrow> bool" where
  "gc_ok gc = (is_sha256 (gc_commit_id gc) \<and> is_sha256 (gc_sha256 gc) \<and> is_sha256 (gc_proof gc) \<and>
     0 < gc_revision gc \<and> 0 < gc_size gc \<and> gc_eligible (gc_closures gc) = Inr True)"

definition gen_ok :: "generation \<Rightarrow> bool" where
  "gen_ok g = (generation_post_init g = Inr g \<and> gen_kind g = REGULAR_FILE)"

definition retirement_of :: "gc_assessment \<Rightarrow> retirement_phase \<Rightarrow> generation \<Rightarrow> retirement" where
  "retirement_of gc phase g =
     \<lparr>ret_machine_id = gc_machine_id gc, ret_commit_id = gc_commit_id gc, ret_revision = gc_revision gc,
      ret_sha256 = gc_sha256 gc, ret_size = gc_size gc, ret_proof = gc_proof gc, ret_generation = g, ret_phase = phase\<rparr>"

abbreviation retirement_file :: "hostlib \<Rightarrow> gc_assessment \<Rightarrow> retirement_phase \<Rightarrow> generation \<Rightarrow> json" where
  "retirement_file L gc phase g \<equiv> checksummed_document L retirement_schema (retirement_payload gc phase g)"

lemma retirement_phase_round_trip: "retirement_phase_of (retirement_phase_value p) = Inr p"
  by (cases p) (simp_all add: retirement_phase_of_def)

lemma generation_round_trip: "gen_ok g \<Longrightarrow> generation_from_data (generation_to_data g) = Inr g"
  by (cases g) (simp add: generation_from_data_def generation_to_data_def field_of_jobj require_exact_jobj data_int_def
      carrier_kind_of_def gen_ok_def)

lemma load_published:
  assumes str: "str_of_text pystr" and gc: "gc_ok gc" and g: "gen_ok g"
    and stored: "js_retirements s (gc_machine_id gc) = Some (retirement_file L gc phase g)"
  shows "load_retirement L pystr (gc_machine_id gc) s = Inr (Some (retirement_of gc phase g))"
proof -
  define kvs where "kvs = [(''machine_id'', JStr (gc_machine_id gc)), (''terminal_commit_id'', JStr (gc_commit_id gc)),
      (''terminal_revision'', JInt (gc_revision gc)), (''content_sha256'', JStr (gc_sha256 gc)),
      (''byte_size'', JInt (gc_size gc)), (''gc_proof_digest'', JStr (gc_proof gc)),
      (''carrier_generation'', generation_to_data g), (''phase'', JStr (retirement_phase_value phase))]"
  have payload: "retirement_payload gc phase g = JObj (dict_of kvs)" by (simp add: retirement_payload_def kvs_def jobj_def)
  have decode: "decode_checksummed_document L retirement_schema (retirement_file L gc phase g) = Inr (dict_of kvs)"
    unfolding payload by (simp add: decode_checksummed_document_def checksummed_document_def jobj_def map_of_jobj)
  have exact: "require_exact (dict_of kvs) retirement_fields = Inr ()"
    by (rule require_exact_jobj) (simp add: kvs_def retirement_fields_def)
  have field: "field_of (dict_of kvs) k = field_of kvs k" for k by (rule field_of_jobj) (simp add: kvs_def)
  have "map_of (dict_of kvs) ''machine_id'' = map_of kvs ''machine_id''" by (simp add: map_of_jobj kvs_def)
  then have mid: "map_of (dict_of kvs) ''machine_id'' = Some (JStr (gc_machine_id gc))" by (simp add: kvs_def)
  have "retirement_values pystr (gc_machine_id gc) (dict_of kvs) = Inr (retirement_of gc phase g)"
    unfolding retirement_values_def field unfolding kvs_def using str gc g generation_round_trip [OF g]
    by (simp add: str_of_text_def require_sha256_def gc_ok_def gen_ok_def
        retirement_phase_round_trip data_int_def retirement_of_def)
  then show ?thesis using stored by (simp add: load_retirement_def decode exact mid)
qed

section \<open>The stages of a purge\<close>

text \<open>What the files of the machine hold: the intent, the live file and the quarantined file.\<close>

definition gc_files ::
    "hostlib \<Rightarrow> gc_assessment \<Rightarrow> json list \<Rightarrow> (retirement_phase \<times> generation) option \<Rightarrow> bool \<Rightarrow> generation option \<Rightarrow> journal_store \<Rightarrow> bool" where
  "gc_files L gc docs intent live quarantined s =
     (js_retirements s (gc_machine_id gc) = map_option (\<lambda>(p, g). retirement_file L gc p g) intent \<and>
      dj_retired (js_journal s) (gc_machine_id gc) = (intent \<noteq> None) \<and>
      dj_logs (js_journal s) (gc_machine_id gc) = (if live then Some docs else None) \<and>
      js_quarantine s (gc_machine_id gc) = map_option (\<lambda>g. (docs, g)) quarantined \<and>
      int (length (log_bytes L docs)) = gc_size gc \<and> sha256_hex L (log_bytes L docs) = gc_sha256 gc)"

definition gc_live :: "hostlib \<Rightarrow> gc_assessment \<Rightarrow> generation \<Rightarrow> journal_store \<Rightarrow> bool" where
  "gc_live L gc g s = (gen_ok g \<and> js_generation s (gc_machine_id gc) = g \<and>
     gc_identity L (gc_machine_id gc) s = Inr (gc_commit_id gc, gc_revision gc, gc_sha256 gc, gc_size gc))"

inductive gc_stage :: "hostlib \<Rightarrow> gc_assessment \<Rightarrow> json list \<Rightarrow> journal_store \<Rightarrow> bool" for L gc docs where
  assessed: "gc_files L gc docs None True None s \<Longrightarrow> gc_live L gc g s \<Longrightarrow> gc_stage L gc docs s"
| retired: "gc_files L gc docs (Some (RETIRED, g)) True None s \<Longrightarrow> gc_live L gc g s \<Longrightarrow> gc_stage L gc docs s"
| moved: "gc_files L gc docs (Some (RETIRED, g)) False (Some g') s \<Longrightarrow> gen_ok g \<Longrightarrow> gen_ok g' \<Longrightarrow> same_object g g' \<Longrightarrow>
    gc_stage L gc docs s"
| quarantined: "gc_files L gc docs (Some (QUARANTINED, g)) False (Some g) s \<Longrightarrow> gen_ok g \<Longrightarrow> gc_stage L gc docs s"
| deleted: "gc_files L gc docs (Some (QUARANTINED, g)) False None s \<Longrightarrow> gen_ok g \<Longrightarrow> gc_stage L gc docs s"
| purged: "gc_files L gc docs (Some (PURGED, g)) False None s \<Longrightarrow> gen_ok g \<Longrightarrow> gc_stage L gc docs s"

definition gc_purged :: "hostlib \<Rightarrow> gc_assessment \<Rightarrow> json list \<Rightarrow> journal_store \<Rightarrow> bool" where
  "gc_purged L gc docs s = (\<exists>g. gen_ok g \<and> gc_files L gc docs (Some (PURGED, g)) False None s)"

text \<open>An attempt ends purged, or was stopped with fewer than \<open>k\<close> file operations left, in some stage.\<close>

definition progress ::
    "hostlib \<Rightarrow> gc_assessment \<Rightarrow> json list \<Rightarrow> nat \<Rightarrow> journal_store \<Rightarrow> bool res \<times> journal_store \<Rightarrow> bool" where
  "progress L gc docs k s result =
     (gc_stage L gc docs (snd result) \<and>
      (fst result = Inr True \<and> gc_purged L gc docs (snd result) \<or> fst result = Inl ProcessStopped \<and> js_budget s < k))"

lemma progress_durable:
  assumes "gc_stage L gc docs s"
    and "js_budget s \<noteq> 0 \<Longrightarrow> progress L gc docs k ((f s)\<lparr>js_budget := js_budget s - 1\<rparr>) (rest () ((f s)\<lparr>js_budget := js_budget s - 1\<rparr>))"
  shows "progress L gc docs (Suc k) s (act_bind (durable f) rest s)"
  using assms by (auto simp: progress_def act_bind_def durable_def)

lemma progress_mono: "progress L gc docs k s result \<Longrightarrow> k \<le> k' \<Longrightarrow> progress L gc docs k' s result"
  by (auto simp: progress_def)

lemma gc_files_budget [simp]: "gc_files L gc docs i l q (s\<lparr>js_budget := n\<rparr>) = gc_files L gc docs i l q s"
  by (simp add: gc_files_def)

lemma residue_progress:
  assumes "gc_files L gc docs (Some (PURGED, g)) False None s" "gen_ok g"
  shows "progress L gc docs 1 s (purge_residue (gc_machine_id gc) s)"
proof -
  have files: "gc_files L gc docs (Some (PURGED, g)) False None (snd (purge_residue (gc_machine_id gc) s))"
    using assms(1) by (simp add: purge_residue_def act_bind_def durable_def gc_files_def)
  have "fst (purge_residue (gc_machine_id gc) s) = (if js_budget s = 0 then Inl ProcessStopped else Inr True)"
    by (simp add: purge_residue_def act_bind_def durable_def)
  with files assms(2) gc_stage.purged [OF files] show ?thesis by (auto simp: progress_def gc_purged_def)
qed

lemma gc_live_publish:
  "gc_live L gc g (s\<lparr>js_retirements := x, js_journal := (js_journal s)\<lparr>dj_retired := y\<rparr>, js_budget := n\<rparr>) = gc_live L gc g s"
  by (simp add: gc_live_def gc_identity_def read_authoritative_def cong: option.case_cong)

lemma publish_progress:
  assumes stage: "gc_stage L gc docs s" and files: "gc_files L gc docs i l q s" and g: "gen_ok g"
    and rest: "\<And>s'. gc_files L gc docs (Some (phase, g)) l q s' \<Longrightarrow> js_budget s' = js_budget s - 1 \<Longrightarrow>
      (\<And>g. gc_live L gc g s' = gc_live L gc g s) \<Longrightarrow> progress L gc docs k s' (rest () s')"
  shows "progress L gc docs (Suc k) s (act_bind (publish_retirement L gc phase g) rest s)"
proof -
  define s' where "s' = s\<lparr>js_retirements := (js_retirements s)(gc_machine_id gc \<mapsto> retirement_file L gc phase g),
     js_journal := (js_journal s)\<lparr>dj_retired := (dj_retired (js_journal s))(gc_machine_id gc := True)\<rparr>,
     js_budget := js_budget s - 1\<rparr>"
  have "progress L gc docs k s' (rest () s')"
  proof (rule rest)
    show "gc_files L gc docs (Some (phase, g)) l q s'" using files by (simp add: gc_files_def s'_def)
    show "js_budget s' = js_budget s - 1" by (simp add: s'_def)
    show "gc_live L gc g s' = gc_live L gc g s" for g unfolding s'_def by (rule gc_live_publish)
  qed
  then show ?thesis
    using stage g by (cases "js_budget s = 0")
      (auto simp: progress_def act_bind_def publish_retirement_def durable_def gen_ok_def s'_def)
qed

text \<open>From a durable quarantine.\<close>

lemma purge_quarantined_progress:
  assumes gc: "gc_ok gc" and g: "gen_ok g"
    and files: "gc_files L gc docs (Some (QUARANTINED, g)) False q s" "q = None \<or> q = Some g"
  shows "progress L gc docs 3 s (purge_quarantined L (gc_machine_id gc) gc g s)"
proof -
  let ?m = "gc_machine_id gc"
  have tail: "progress L gc docs 2 s' (act_bind (publish_retirement L gc PURGED g) (\<lambda>_. purge_residue ?m) s')"
    if del: "gc_files L gc docs (Some (QUARANTINED, g)) False None s'" for s'
    unfolding numeral_2_eq_2
    by (rule publish_progress [OF gc_stage.deleted [OF del g] del g])
      (use residue_progress [of L gc docs g] g in \<open>simp add: One_nat_def\<close>)
  have nolog: "dj_logs (js_journal s) ?m = None" using files(1) by (simp add: gc_files_def)
  show ?thesis
  proof (cases q)
    case None
    then have "js_quarantine s ?m = None" using files(1) by (simp add: gc_files_def)
    then have "purge_quarantined L ?m gc g s = act_bind (publish_retirement L gc PURGED g) (\<lambda>_. purge_residue ?m) s"
      using nolog by (simp add: purge_quarantined_def act_bind_def query_store_def)
    then show ?thesis using tail [of s] files(1) None progress_mono by auto
  next
    case (Some g')
    then have q: "js_quarantine s ?m = Some (docs, g)" using files by (simp add: gc_files_def)
    have "int (length (log_bytes L docs)) = gc_size gc \<and> sha256_hex L (log_bytes L docs) = gc_sha256 gc"
      using files(1) by (simp add: gc_files_def)
    then have "validate_quarantine L ?m gc g False s = Inr g"
      using q g by (simp add: validate_quarantine_def gen_ok_def)
    then have "purge_quarantined L ?m gc g s =
        act_bind (durable (\<lambda>s. s\<lparr>js_quarantine := (js_quarantine s)(?m := None)\<rparr>))
          (\<lambda>_. act_bind (publish_retirement L gc PURGED g) (\<lambda>_. purge_residue ?m)) s"
      using nolog q by (simp add: purge_quarantined_def act_bind_def query_store_def)
    moreover have "gc_stage L gc docs s" using files Some g by (auto intro: gc_stage.quarantined)
    moreover have "gc_files L gc docs (Some (QUARANTINED, g)) False None
        (s\<lparr>js_quarantine := (js_quarantine s)(?m := None), js_budget := js_budget s - 1\<rparr>)"
      using files(1) by (simp add: gc_files_def)
    ultimately show ?thesis
      using progress_durable [of L gc docs s 2 "\<lambda>s. s\<lparr>js_quarantine := (js_quarantine s)(?m := None)\<rparr>"
          "\<lambda>_. act_bind (publish_retirement L gc PURGED g) (\<lambda>_. purge_residue ?m)"] tail
      by (simp add: numeral_3_eq_3)
  qed
qed

text \<open>From a moved file whose quarantine is not yet published.\<close>

lemma adopt_progress:
  assumes gc: "gc_ok gc" and files: "gc_files L gc docs (Some (RETIRED, g)) False (Some g') s"
    and g: "gen_ok g" "gen_ok g'" "same_object g g'"
  shows "progress L gc docs 4 s (act_bind (adopt_quarantine L (gc_machine_id gc) gc g) (purge_quarantined L (gc_machine_id gc) gc) s)"
proof -
  let ?m = "gc_machine_id gc"
  have "validate_quarantine L ?m gc g True s = Inr g'"
    using files g by (simp add: validate_quarantine_def gen_ok_def gc_files_def)
  then have "act_bind (adopt_quarantine L ?m gc g) (purge_quarantined L ?m gc) s =
      act_bind (publish_retirement L gc QUARANTINED g') (\<lambda>_. purge_quarantined L ?m gc g') s"
    by (auto simp: adopt_quarantine_def act_bind_def query_store_def act_lift_def split: prod.splits sum.splits)
  moreover have "progress L gc docs (Suc 3) s (act_bind (publish_retirement L gc QUARANTINED g') (\<lambda>_. purge_quarantined L ?m gc g') s)"
    by (rule publish_progress [OF gc_stage.moved [OF files g] files g(2)])
      (use purge_quarantined_progress [OF gc g(2)] in simp)
  ultimately show ?thesis by simp
qed

text \<open>From the published intent.\<close>

lemma act_bind_assoc: "act_bind (act_bind f g) h = act_bind f (\<lambda>x. act_bind (g x) h)"
  by (auto simp: fun_eq_iff act_bind_def split: prod.splits sum.splits)

lemma retired_progress:
  assumes gc: "gc_ok gc" and now: "0 \<le> now" and files: "gc_files L gc docs (Some (RETIRED, g)) True None s" and live: "gc_live L gc g s"
  shows "progress L gc docs 5 s (act_bind (quarantine_retired L now (gc_machine_id gc) gc g) (purge_quarantined L (gc_machine_id gc) gc) s)"
proof -
  let ?m = "gc_machine_id gc"
  let ?f = "\<lambda>s. s\<lparr>js_journal := (js_journal s)\<lparr>dj_logs := (dj_logs (js_journal s))(?m := None)\<rparr>,
      js_quarantine := (js_quarantine s)(?m \<mapsto> (docs, (js_generation s ?m)\<lparr>gen_change_time := now\<rparr>))\<rparr>"
  let ?rest = "\<lambda>_. act_bind (adopt_quarantine L ?m gc g) (purge_quarantined L ?m gc)"
  have g: "gen_ok g" "js_generation s ?m = g" using live by (simp_all add: gc_live_def)
  have state: "dj_logs (js_journal s) ?m = Some docs" "js_quarantine s ?m = None" using files by (simp_all add: gc_files_def)
  have move: "move_to_quarantine now ?m s = durable ?f s" using state by (simp add: move_to_quarantine_def)
  have "quarantine_retired L now ?m gc g s = act_bind (move_to_quarantine now ?m) (\<lambda>_. adopt_quarantine L ?m gc g) s"
    using state live by (simp add: quarantine_retired_def gc_live_def act_bind_def query_store_def
        act_lift_def require_gc_identity_def gen_ok_def Let_def)
  then have "act_bind (quarantine_retired L now ?m gc g) (purge_quarantined L ?m gc) s = act_bind (durable ?f) ?rest s"
    using move by (auto simp: act_bind_def split: prod.splits sum.splits)
  moreover have "progress L gc docs (Suc 4) s (act_bind (durable ?f) ?rest s)"
  proof (rule progress_durable)
    show "gc_stage L gc docs s" by (rule gc_stage.retired [OF files live])
    let ?g = "g\<lparr>gen_change_time := now\<rparr>"
    have "gc_files L gc docs (Some (RETIRED, g)) False (Some ?g) ((?f s)\<lparr>js_budget := js_budget s - 1\<rparr>)"
      using files g(2) by (simp add: gc_files_def)
    moreover have "gen_ok ?g" "same_object g ?g"
      using g(1) now by (auto simp: gen_ok_def generation_post_init_def res_simps same_object_def)
    ultimately show "progress L gc docs 4 ((?f s)\<lparr>js_budget := js_budget s - 1\<rparr>) (?rest () ((?f s)\<lparr>js_budget := js_budget s - 1\<rparr>))"
      using adopt_progress [OF gc _ g(1)] by blast
  qed
  ultimately show ?thesis by simp
qed

lemma moved_progress:
  assumes gc: "gc_ok gc" and files: "gc_files L gc docs (Some (RETIRED, g)) False (Some g') s" and g: "gen_ok g" "gen_ok g'" "same_object g g'"
  shows "progress L gc docs 5 s (act_bind (quarantine_retired L now (gc_machine_id gc) gc g) (purge_quarantined L (gc_machine_id gc) gc) s)"
proof -
  have "quarantine_retired L now (gc_machine_id gc) gc g s = adopt_quarantine L (gc_machine_id gc) gc g s"
    using files by (simp add: quarantine_retired_def gc_files_def Let_def)
  then have "act_bind (quarantine_retired L now (gc_machine_id gc) gc g) (purge_quarantined L (gc_machine_id gc) gc) s =
      act_bind (adopt_quarantine L (gc_machine_id gc) gc g) (purge_quarantined L (gc_machine_id gc) gc) s"
    by (simp add: act_bind_def)
  then show ?thesis using adopt_progress [OF gc files g] progress_mono by fastforce
qed

text \<open>From any stage: an attempt with six file operations finishes.\<close>

lemma purge_eligible:
  assumes "gc_ok gc"
  shows "purge L pystr now (gc_machine_id gc) gc s = act_bind (ensure_retirement L pystr (gc_machine_id gc) gc) (purge_from L now (gc_machine_id gc) gc) s"
  using assms by (simp add: purge_def gc_ok_def)

lemma purge_from_matches: "purge_from L now (gc_machine_id gc) gc (retirement_of gc phase g) =
     (case phase of
        PURGED \<Rightarrow>
          act_bind (query_store (\<lambda>s. require (dj_logs (js_journal s) (gc_machine_id gc) = None \<and> js_quarantine s (gc_machine_id gc) = None)
            RuntimeError)) (\<lambda>_. purge_residue (gc_machine_id gc))
      | RETIRED \<Rightarrow> act_bind (quarantine_retired L now (gc_machine_id gc) gc g) (purge_quarantined L (gc_machine_id gc) gc)
      | QUARANTINED \<Rightarrow> purge_quarantined L (gc_machine_id gc) gc g)"
  by (cases phase) (simp_all add: purge_from_def retirement_matches_def retirement_of_def)

lemma purge_published:
  assumes "str_of_text pystr" "gc_ok gc" "gen_ok g" "gc_files L gc docs (Some (phase, g)) l q s"
  shows "purge L pystr now (gc_machine_id gc) gc s = purge_from L now (gc_machine_id gc) gc (retirement_of gc phase g) s"
proof -
  have "load_retirement L pystr (gc_machine_id gc) s = Inr (Some (retirement_of gc phase g))"
    by (rule load_published [OF assms(1-3)]) (use assms(4) in \<open>simp add: gc_files_def\<close>)
  then show ?thesis
    by (simp add: purge_eligible [OF assms(2)] ensure_retirement_def act_bind_def query_store_def act_lift_def)
qed

lemma purge_retired_progress:
  assumes str: "str_of_text pystr" and gc: "gc_ok gc" and now: "0 \<le> now"
    and files: "gc_files L gc docs (Some (RETIRED, g)) True None s" and live: "gc_live L gc g s"
  shows "progress L gc docs 5 s (purge_from L now (gc_machine_id gc) gc (retirement_of gc RETIRED g) s)"
  unfolding purge_from_matches retirement_phase.case by (rule retired_progress [OF gc now files live])

lemma purge_progress:
  assumes str: "str_of_text pystr" and gc: "gc_ok gc" and now: "0 \<le> now" and stage: "gc_stage L gc docs s"
  shows "progress L gc docs 6 s (purge L pystr now (gc_machine_id gc) gc s)"
  using stage
proof cases
  case (assessed g)
  let ?m = "gc_machine_id gc"
  have g: "gen_ok g" "js_generation s ?m = g" using assessed(2) by (simp_all add: gc_live_def)
  define rest where "rest = (\<lambda>_ :: unit. act_bind (act_bind (query_store (load_retirement L pystr ?m)) (\<lambda>published.
         (case published of None \<Rightarrow> act_lift (Inl MachineIntegrityError) | Some r \<Rightarrow> act_lift (Inr r)))) (purge_from L now (gc_machine_id gc) gc))"
  have "load_retirement L pystr ?m s = Inr None" using assessed(1) by (simp add: load_retirement_def gc_files_def)
  then have "ensure_retirement L pystr ?m gc s = act_bind (publish_retirement L gc RETIRED g)
      (\<lambda>_. act_bind (query_store (load_retirement L pystr ?m)) (\<lambda>published.
         (case published of None \<Rightarrow> act_lift (Inl MachineIntegrityError) | Some r \<Rightarrow> act_lift (Inr r)))) s"
    using assessed g by (simp add: ensure_retirement_def act_bind_def query_store_def gc_files_def gc_live_def act_lift_def
        require_gc_identity_def gen_ok_def)
  then have eq: "purge L pystr now ?m gc s = act_bind (publish_retirement L gc RETIRED g) rest s"
    by (simp add: purge_eligible [OF gc] rest_def) (auto simp: act_bind_def split: prod.splits sum.splits)
  have "progress L gc docs (Suc 5) s (act_bind (publish_retirement L gc RETIRED g) rest s)"
  proof (rule publish_progress [OF stage assessed(1) g(1)])
    fix s' assume s': "gc_files L gc docs (Some (RETIRED, g)) True None s'" "\<And>g. gc_live L gc g s' = gc_live L gc g s"
    have "load_retirement L pystr ?m s' = Inr (Some (retirement_of gc RETIRED g))"
      by (rule load_published [OF str gc g(1)]) (use s'(1) in \<open>simp add: gc_files_def\<close>)
    then have "rest () s' = purge_from L now (gc_machine_id gc) gc (retirement_of gc RETIRED g) s'"
      by (simp add: rest_def act_bind_def query_store_def act_lift_def)
    then show "progress L gc docs 5 s' (rest () s')"
      using purge_retired_progress [OF str gc now s'(1)] s'(2) assessed(2) by simp
  qed
  then show ?thesis by (simp add: eq)
next
  case (retired g)
  have g: "gen_ok g" using retired(2) by (simp add: gc_live_def)
  have "progress L gc docs 5 s (purge L pystr now (gc_machine_id gc) gc s)"
    unfolding purge_published [OF str gc g retired(1)] by (rule purge_retired_progress [OF str gc now retired])
  then show ?thesis by (rule progress_mono) simp
next
  case (moved g g')
  have "progress L gc docs 5 s (purge L pystr now (gc_machine_id gc) gc s)"
    unfolding purge_published [OF str gc moved(2,1)] purge_from_matches retirement_phase.case
    by (rule moved_progress [OF gc moved])
  then show ?thesis by (rule progress_mono) simp
next
  case (quarantined g)
  have "progress L gc docs 3 s (purge L pystr now (gc_machine_id gc) gc s)"
    unfolding purge_published [OF str gc quarantined(2,1)] purge_from_matches retirement_phase.case
    by (rule purge_quarantined_progress [OF gc quarantined(2,1)]) simp
  then show ?thesis by (rule progress_mono) simp
next
  case (deleted g)
  have "progress L gc docs 3 s (purge L pystr now (gc_machine_id gc) gc s)"
    unfolding purge_published [OF str gc deleted(2,1)] purge_from_matches retirement_phase.case
    by (rule purge_quarantined_progress [OF gc deleted(2,1)]) simp
  then show ?thesis by (rule progress_mono) simp
next
  case (purged g)
  have "purge_from L now (gc_machine_id gc) gc (retirement_of gc PURGED g) s = purge_residue (gc_machine_id gc) s"
    using purged(1) by (simp add: purge_from_matches act_bind_def query_store_def gc_files_def)
  then have "progress L gc docs 1 s (purge L pystr now (gc_machine_id gc) gc s)"
    unfolding purge_published [OF str gc purged(2,1)] using residue_progress [OF purged] by simp
  then show ?thesis by (rule progress_mono) simp
qed

section \<open>Attempts of any number of processes\<close>

text \<open>A new process tries the same purge and gets \<open>n\<close> file operations done before it stops.\<close>

definition gc_attempt :: "hostlib \<Rightarrow> (json \<Rightarrow> string) \<Rightarrow> gc_assessment \<Rightarrow> nat \<times> int \<Rightarrow> (journal_store, bool) action" where
  "gc_attempt L pystr gc attempt s =
     purge L pystr (snd attempt) (gc_machine_id gc) gc (s\<lparr>js_budget := fst attempt, js_journal := reopen (js_journal s)\<rparr>)"

lemma gc_files_reopen: "gc_files L gc docs i l q (s\<lparr>js_budget := n, js_journal := reopen (js_journal s)\<rparr>) = gc_files L gc docs i l q s"
  by (simp add: gc_files_def reopen_def)

lemma gc_live_reopen: "gc_live L gc g (s\<lparr>js_budget := n, js_journal := reopen (js_journal s)\<rparr>) = gc_live L gc g s"
  by (simp add: gc_live_def gc_identity_def read_authoritative_def reopen_def cong: option.case_cong)

lemma gc_stage_reopen: "gc_stage L gc docs s \<Longrightarrow> gc_stage L gc docs (s\<lparr>js_budget := n, js_journal := reopen (js_journal s)\<rparr>)"
  by (induction rule: gc_stage.induct) (auto simp: gc_files_reopen gc_live_reopen intro: gc_stage.intros)

lemma gc_attempt_progress:
  assumes "str_of_text pystr" "gc_ok gc" "0 \<le> snd attempt" "gc_stage L gc docs s"
  shows "gc_stage L gc docs (snd (gc_attempt L pystr gc attempt s))"
    and "fst (gc_attempt L pystr gc attempt s) = Inr True \<or> fst (gc_attempt L pystr gc attempt s) = Inl ProcessStopped"
    and "6 \<le> fst attempt \<Longrightarrow> fst (gc_attempt L pystr gc attempt s) = Inr True \<and> gc_purged L gc docs (snd (gc_attempt L pystr gc attempt s))"
  using purge_progress [OF assms(1-3) gc_stage_reopen [OF assms(4), of "fst attempt"]]
  by (auto simp: progress_def gc_attempt_def)

lemma gc_attempts:
  assumes "str_of_text pystr" "gc_ok gc"
  shows "gc_stage L gc docs s \<Longrightarrow> \<forall>a \<in> set attempts. 0 \<le> snd a \<Longrightarrow>
    gc_stage L gc docs (snd (run_calls (gc_attempt L pystr gc) attempts s)) \<and>
    set (fst (run_calls (gc_attempt L pystr gc) attempts s)) \<subseteq> {Inr True, Inl ProcessStopped}"
proof (induction attempts arbitrary: s)
  case (Cons a attempts)
  note one = gc_attempt_progress [OF assms _ Cons.prems(1), of a]
  obtain r s' where a: "gc_attempt L pystr gc a s = (r, s')" by (cases "gc_attempt L pystr gc a s")
  then have "gc_stage L gc docs s'" "r \<in> {Inr True, Inl ProcessStopped}" using one Cons.prems(2) by auto
  with Cons.IH [of s'] Cons.prems(2) a show ?case by (auto split: prod.splits)
qed simp

text \<open>What an assessment binds.\<close>

lemma assess_gc_stage:
  assumes sha: "sha_ok L" and gc: "assess_gc L pystr m closures s = Inr gc" "gc_eligible closures = Inr True"
    and fresh: "js_retirements s m = None" "\<not> dj_retired (js_journal s) m" and g: "gen_ok (js_generation s m)"
  shows "gc_ok gc \<and> gc_machine_id gc = m \<and> (\<exists>docs. dj_logs (js_journal s) m = Some docs \<and> gc_stage L gc docs s)"
proof -
  have load: "load_retirement L pystr m s = Inr None" using fresh(1) by (simp add: load_retirement_def)
  have quar: "js_quarantine s m = None"
    using gc(1) load by (cases "js_quarantine s m") (simp_all add: assess_gc_def split: if_splits)
  from gc(1) load quar obtain commit_id revision content size where
      ident: "gc_identity L m s = Inr (commit_id, revision, content, size)" and
      post: "assessment_post_init L \<lparr>gc_machine_id = m, gc_commit_id = commit_id, gc_revision = revision,
          gc_sha256 = content, gc_size = size, gc_closures = closures, gc_proof = []\<rparr> = Inr gc"
    by (auto simp: assess_gc_def res_simps split: if_splits)
  have fields: "gc_machine_id gc = m" "gc_commit_id gc = commit_id" "gc_revision gc = revision" "gc_sha256 gc = content"
    "gc_size gc = size" "gc_closures gc = closures" and ok: "gc_ok gc"
    using post gc(2) sha by (auto simp: assessment_post_init_def res_simps gc_ok_def require_sha256_def canonical_digest_sha256 split: if_splits)
  from ident obtain docs where docs: "dj_logs (js_journal s) m = Some docs"
      "content = sha256_hex L (log_bytes L docs)" "size = int (length (log_bytes L docs))"
    by (auto simp: gc_identity_def res_simps split: option.splits)
  have "gc_files L gc docs None True None s"
    using fields docs quar fresh by (simp add: gc_files_def)
  moreover have "gc_live L gc (js_generation s m) s" using fields ident g by (simp add: gc_live_def)
  ultimately have "gc_stage L gc docs s" by (rule gc_stage.assessed)
  with fields(1) ok docs(1) show ?thesis by blast
qed

text \<open>A purged journal refuses appends and reads.\<close>

lemma gc_purged_refuses:
  assumes "gc_purged L gc docs s"
  shows "dj_logs (js_journal s) (gc_machine_id gc) = None" "js_quarantine s (gc_machine_id gc) = None"
    "com_machine_id c = gc_machine_id gc \<Longrightarrow> dir_append L c (js_journal s) = (Inl MachineConflict, js_journal s)"
  using assms by (auto simp: gc_purged_def gc_files_def dir_append_def)

section \<open>Nothing is deleted without proof\<close>

text \<open>The records of a machine, in the live file or in the quarantine.\<close>

definition carrier_of :: "journal_store \<Rightarrow> string \<Rightarrow> json list option" where
  "carrier_of s m = (case dj_logs (js_journal s) m of Some docs \<Rightarrow> Some docs | None \<Rightarrow> map_option fst (js_quarantine s m))"

definition keeps :: "('s \<Rightarrow> bool) \<Rightarrow> ('s, 'a) action \<Rightarrow> bool" where
  "keeps I f = (\<forall>s. I s \<longrightarrow> I (snd (f s)))"

lemma keeps_bind: "keeps I f \<Longrightarrow> (\<And>x. keeps I (g x)) \<Longrightarrow> keeps I (act_bind f g)"
  unfolding keeps_def by (fastforce simp: act_bind_def split: prod.splits sum.splits)

lemma keeps_lift: "keeps I (act_lift r)" and keeps_query: "keeps I (query_store f)"
  by (simp_all add: keeps_def act_lift_def query_store_def)

definition proved_gone :: "hostlib \<Rightarrow> gc_assessment \<Rightarrow> string \<Rightarrow> json list \<Rightarrow> journal_store \<Rightarrow> bool" where
  "proved_gone L gc m docs s = (carrier_of s m = Some docs \<or>
     int (length (log_bytes L docs)) = gc_size gc \<and> sha256_hex L (log_bytes L docs) = gc_sha256 gc)"

lemma carrier_unchanged [simp]:
  "carrier_of (snd (publish_retirement L gc' phase g s)) = carrier_of s"
  "carrier_of (snd (purge_residue m' s)) = carrier_of s"
  by (simp_all add: fun_eq_iff carrier_of_def publish_retirement_def purge_residue_def durable_def act_bind_def
      cong: option.case_cong)

lemma keeps_publish: "keeps (proved_gone L gc m docs) (publish_retirement L gc' phase g)"
  and keeps_residue: "keeps (proved_gone L gc m docs) (purge_residue m')"
  by (simp_all add: keeps_def proved_gone_def)

lemma keeps_move: "keeps (proved_gone L gc m docs) (move_to_quarantine now m)"
  by (auto simp: keeps_def proved_gone_def carrier_of_def move_to_quarantine_def durable_def split: option.splits)

lemmas keeps_intros = keeps_bind keeps_lift keeps_query keeps_publish keeps_residue keeps_move

lemma keeps_unlink:
  "keeps (proved_gone L gc m docs) (\<lambda>s. if js_quarantine s m = None then (Inr (), s)
     else act_bind (query_store (validate_quarantine L m gc g False)) (\<lambda>_.
       durable (\<lambda>s. s\<lparr>js_quarantine := (js_quarantine s)(m := None)\<rparr>)) s)"
  unfolding keeps_def
proof (intro allI impI)
  fix s assume I: "proved_gone L gc m docs s"
  show "proved_gone L gc m docs (snd (if js_quarantine s m = None then (Inr (), s)
     else act_bind (query_store (validate_quarantine L m gc g False)) (\<lambda>_.
       durable (\<lambda>s. s\<lparr>js_quarantine := (js_quarantine s)(m := None)\<rparr>)) s))"
  proof (cases "validate_quarantine L m gc g False s")
    case (Inl e)
    then show ?thesis using I by (simp add: act_bind_def query_store_def)
  next
    case (Inr found)
    then obtain docs' where q: "js_quarantine s m = Some (docs', found)"
        "int (length (log_bytes L docs')) = gc_size gc" "sha256_hex L (log_bytes L docs') = gc_sha256 gc"
      by (auto simp: validate_quarantine_def res_simps split: option.splits)
    have "carrier_of (s\<lparr>js_quarantine := (js_quarantine s)(m := None), js_budget := n\<rparr>) m = Some docs \<or> docs' = docs"
      if "carrier_of s m = Some docs" for n
      using that q(1) by (auto simp: carrier_of_def split: option.splits)
    then show ?thesis using Inr q I by (auto simp: proved_gone_def act_bind_def query_store_def durable_def)
  qed
qed

lemma purge_keeps: "keeps (proved_gone L gc m docs) (purge L pystr now m gc)"
proof -
  have quar: "keeps (proved_gone L gc m docs) (purge_quarantined L m gc g)" for g
    unfolding purge_quarantined_def by (intro keeps_bind keeps_query keeps_unlink keeps_publish keeps_residue)
  have adopt: "keeps (proved_gone L gc m docs) (adopt_quarantine L m gc g)" for g
    unfolding adopt_quarantine_def by (intro keeps_intros)
  have retired: "keeps (proved_gone L gc m docs) (quarantine_retired L now m gc g)" for g
  proof -
    have "keeps (proved_gone L gc m docs) (act_bind (query_store (gc_identity L m)) (\<lambda>current.
        act_bind (act_lift (require_gc_identity gc current)) (\<lambda>_.
        act_bind (query_store (\<lambda>s. require (gen_kind (js_generation s m) = REGULAR_FILE) RuntimeError)) (\<lambda>_.
        act_bind (query_store (\<lambda>s. require (g = js_generation s m) RuntimeError)) (\<lambda>_.
        act_bind (move_to_quarantine now m) (\<lambda>_. adopt_quarantine L m gc g))))))"
      by (intro keeps_bind keeps_lift keeps_query keeps_move adopt)
    with adopt [of g] show ?thesis unfolding keeps_def quarantine_retired_def Let_def by simp
  qed
  have publish: "keeps (proved_gone L gc m docs) (\<lambda>s. publish_retirement L gc RETIRED (js_generation s m) s)"
    using keeps_publish unfolding keeps_def by blast
  have from_phase: "keeps (proved_gone L gc m docs) (purge_from L now m gc r)" for r
    unfolding purge_from_def
    by (rule keeps_bind [OF keeps_lift], rename_tac x, case_tac x)
      (simp_all, (intro keeps_bind keeps_query keeps_residue quar retired)+)
  have ensure: "keeps (proved_gone L gc m docs) (ensure_retirement L pystr m gc)"
    unfolding ensure_retirement_def
    by (rule keeps_bind [OF keeps_query], rename_tac x, case_tac x)
      (simp_all, (intro keeps_bind keeps_query keeps_lift publish)+, simp_all split: option.split add: keeps_lift)
  show ?thesis unfolding purge_def by (intro keeps_bind keeps_lift from_phase ensure)
qed

lemma purge_unproved:
  assumes "\<not> (gc_machine_id gc = m \<and> gc_eligible (gc_closures gc) = Inr True)"
  shows "snd (purge L pystr now m gc s) = s \<and> \<not> is_ok (fst (purge L pystr now m gc s))"
  using assms by (cases "gc_machine_id gc = m"; cases "gc_eligible (gc_closures gc)")
    (auto simp: purge_def act_bind_def act_lift_def require_def)

lemma purge_deletes_proved:
  assumes "purge L pystr now m gc s = (r, s')" "carrier_of s m = Some docs" "carrier_of s' m = None"
  shows "gc_machine_id gc = m \<and> gc_eligible (gc_closures gc) = Inr True \<and>
    gc_size gc = int (length (log_bytes L docs)) \<and> gc_sha256 gc = sha256_hex L (log_bytes L docs)"
proof -
  have "proved_gone L gc m docs s'"
    using purge_keeps [of L gc m docs pystr now] assms(1,2) unfolding keeps_def by (metis proved_gone_def snd_conv)
  moreover have "gc_machine_id gc = m \<and> gc_eligible (gc_closures gc) = Inr True"
  proof (rule ccontr)
    assume "\<not> (gc_machine_id gc = m \<and> gc_eligible (gc_closures gc) = Inr True)"
    from purge_unproved [OF this, of L pystr now s] assms show False by simp
  qed
  ultimately show ?thesis using assms(3) by (simp add: proved_gone_def)
qed

text \<open>Eligible means: every authority closed, and none retains a reference.\<close>

lemma gc_eligible_closed:
  "gc_eligible closures = Inr True \<longleftrightarrow>
     map clo_authority closures = [CA_EVIDENCE, CA_EXECUTION, CA_RECOVERY] \<and> (\<forall>c \<in> set closures. clo_retained c = [])"
proof -
  have sorted: "sort_key closure_authority_value [CA_EXECUTION, CA_EVIDENCE, CA_RECOVERY] = [CA_EVIDENCE, CA_EXECUTION, CA_RECOVERY]"
    by (simp add: less_char_def)
  have valid: "sort_key closure_authority_value (remdups [CA_EVIDENCE, CA_EXECUTION, CA_RECOVERY]) = [CA_EVIDENCE, CA_EXECUTION, CA_RECOVERY]"
    by (simp add: less_char_def)
  show ?thesis
    using valid by (auto simp: gc_eligible_def closure_complete_def validate_closures_def res_simps sorted Let_def)
qed

end
