(* ===== verification/Dag.thy ===== *)
theory Dag
  imports Prelude
begin

text \<open>
  The finite-DAG algorithms of \<^verbatim>\<open>foundation/kernel/dag.py\<close>: the canonical topological order
  (Kahn's algorithm with a heap of ready nodes).  A Python set is iterated in an unspecified order, so
  the enumeration of the edge set is a parameter, of which only its members matter.  The heap is the
  sorted list of its elements, of which \<^verbatim>\<open>heappop\<close> takes the first.
\<close>

section \<open>The algorithm\<close>

text \<open>The inner loop: every target of the popped node loses one incoming edge.\<close>

fun relax :: "string list \<Rightarrow> (string \<Rightarrow> int) \<Rightarrow> string list \<Rightarrow> (string \<Rightarrow> int) \<times> string list" where
  "relax [] incoming ready = (incoming, ready)"
| "relax (target # targets) incoming ready =
     (let incoming' = incoming(target := incoming target - 1) in
      relax targets incoming' (if incoming' target = 0 then insort target ready else ready))"

partial_function (option) topo_loop ::
    "(string \<Rightarrow> string list) \<Rightarrow> (string \<Rightarrow> int) \<Rightarrow> string list \<Rightarrow> string list \<Rightarrow> string list option" where
  "topo_loop downstream incoming ready ordered =
     (case ready of
        [] \<Rightarrow> Some ordered
      | node # rest \<Rightarrow>
          (case relax (downstream node) incoming rest of
             (incoming', ready') \<Rightarrow> topo_loop downstream incoming' ready' (ordered @ [node])))"

definition downstream_of :: "(string \<times> string) list \<Rightarrow> string \<Rightarrow> string list" where
  "downstream_of unique_edges node = map snd (filter (\<lambda>e. fst e = node) unique_edges)"

definition incoming_of :: "(string \<times> string) list \<Rightarrow> string \<Rightarrow> int" where
  "incoming_of unique_edges node = int (length (filter (\<lambda>e. snd e = node) unique_edges))"

text \<open>The result of a run that returns: \<open>None\<close> would be a run that does not.\<close>

definition deterministic_topological_order ::
    "((string \<times> string) list \<Rightarrow> (string \<times> string) list) \<Rightarrow> string list \<Rightarrow> (string \<times> string) list \<Rightarrow> string list res option" where
  "deterministic_topological_order enum nodes edges =
     (if [] \<in> set nodes then Some (Inl TypeError)
      else if \<not> distinct nodes then Some (Inl ValueError)
      else if \<exists>e \<in> set edges. fst e = [] \<or> snd e = [] then Some (Inl TypeError)
      else if \<exists>e \<in> set (enum edges). fst e \<notin> set nodes \<or> snd e \<notin> set nodes then Some (Inl ValueError)
      else (case topo_loop (downstream_of (enum edges)) (incoming_of (enum edges))
                   (sort (filter (\<lambda>n. incoming_of (enum edges) n = 0) nodes)) [] of
              None \<Rightarrow> None
            | Some ordered \<Rightarrow>
                Some (if length ordered \<noteq> length nodes then Inl ValueError else Inr ordered)))"

text \<open>What the iteration of a set gives: every member once.\<close>

definition set_enumeration :: "('a list \<Rightarrow> 'a list) \<Rightarrow> bool" where
  "set_enumeration enum = (\<forall>xs. distinct (enum xs) \<and> set (enum xs) = set xs)"

section \<open>The reference order\<close>

text \<open>Always take the least node all of whose predecessors are taken.\<close>

definition available :: "string set \<Rightarrow> (string \<times> string) set \<Rightarrow> string set \<Rightarrow> string set" where
  "available V E done = {v \<in> V - done. \<forall>u. (u, v) \<in> E \<longrightarrow> u \<in> done}"

inductive kahn :: "string set \<Rightarrow> (string \<times> string) set \<Rightarrow> string list \<Rightarrow> string list \<Rightarrow> bool" for V E where
  stop: "available V E (set ordered) = {} \<Longrightarrow> kahn V E ordered ordered"
| take: "available V E (set ordered) \<noteq> {} \<Longrightarrow>
    kahn V E (ordered @ [Min (available V E (set ordered))]) result \<Longrightarrow> kahn V E ordered result"

inductive_cases kahn_elim: "kahn V E ordered result"

lemma kahn_deterministic: "kahn V E ord r \<Longrightarrow> kahn V E ord r' \<Longrightarrow> r = r'"
proof (induction arbitrary: r' rule: kahn.induct)
  case (stop ordered)
  then show ?case by (auto elim: kahn_elim)
next
  case (take ordered result)
  from take.prems take.hyps(1) have "kahn V E (ordered @ [Min (available V E (set ordered))]) r'"
    by (auto elim: kahn_elim)
  then show ?case by (rule take.IH)
qed

section \<open>The loop follows the reference order\<close>

lemma relax_targets:
  assumes "distinct targets" "sorted ready" "distinct ready" "set targets \<inter> set ready = {}"
  shows "relax targets incoming ready =
    ((\<lambda>v. if v \<in> set targets then incoming v - 1 else incoming v),
     sorted_list_of_set (set ready \<union> {t \<in> set targets. incoming t = 1}))"
  using assms
proof (induction targets arbitrary: incoming ready)
  case Nil
  then show ?case by (simp add: sorted_list_of_set.idem_if_sorted_distinct)
next
  case (Cons t ts)
  define ready' where "ready' = (if incoming t = 1 then insort t ready else ready)"
  have ready': "sorted ready'" "distinct ready'" "set ready' = set ready \<union> (if incoming t = 1 then {t} else {})"
    using Cons.prems by (auto simp: ready'_def sorted_insort distinct_insort set_insort_key)
  have "relax (t # ts) incoming ready = relax ts (incoming(t := incoming t - 1)) ready'"
    by (simp add: ready'_def Let_def)
  also have "\<dots> = ((\<lambda>v. if v \<in> set ts then (incoming(t := incoming t - 1)) v - 1 else (incoming(t := incoming t - 1)) v),
     sorted_list_of_set (set ready' \<union> {u \<in> set ts. (incoming(t := incoming t - 1)) u = 1}))"
    using Cons.prems ready' by (intro Cons.IH) auto
  also have "set ready' \<union> {u \<in> set ts. (incoming(t := incoming t - 1)) u = 1} =
      set ready \<union> {u \<in> set (t # ts). incoming u = 1}"
    using Cons.prems(1) ready'(3) by (auto split: if_splits)
  finally show ?case using Cons.prems(1) by (auto simp: fun_eq_iff)
qed

text \<open>The state of the loop after the nodes \<open>ordered\<close> were taken.\<close>

definition missing :: "(string \<times> string) set \<Rightarrow> string set \<Rightarrow> string \<Rightarrow> int" where
  "missing E done v = int (card {u. (u, v) \<in> E \<and> u \<notin> done})"

lemma missing_zero: "finite E \<Longrightarrow> missing E done v = 0 \<longleftrightarrow> (\<forall>u. (u, v) \<in> E \<longrightarrow> u \<in> done)"
proof -
  assume "finite E"
  then have "finite {u. (u, v) \<in> E \<and> u \<notin> done}" by (rule finite_subset [rotated, OF finite_imageI [of E fst]]) force
  then show ?thesis by (auto simp: missing_def)
qed

lemma missing_insert:
  assumes "finite E" "n \<notin> done"
  shows "missing E (insert n done) v = (if (n, v) \<in> E then missing E done v - 1 else missing E done v)"
proof -
  have fin: "finite {u. (u, v) \<in> E \<and> u \<notin> done}"
    using assms(1) by (rule finite_subset [rotated, OF finite_imageI [of E fst]]) force
  have "{u. (u, v) \<in> E \<and> u \<notin> insert n done} = {u. (u, v) \<in> E \<and> u \<notin> done} - {n}" by auto
  moreover have "0 < card {u. (u, v) \<in> E \<and> u \<notin> done}" if "(n, v) \<in> E"
    using that assms(2) fin by (auto simp: card_gt_0_iff)
  ultimately show ?thesis
    using assms(2) fin by (cases "(n, v) \<in> E") (simp_all add: missing_def card_Diff_singleton_if of_nat_diff Suc_le_eq)
qed

lemma relax_available:
  assumes E: "finite E" "E \<subseteq> V \<times> V" and V: "finite V" and ts: "distinct targets" "set targets = {v. (n, v) \<in> E}"
    and n: "n \<in> available V E (set ordered)" and closed: "\<forall>(u, v) \<in> E. v \<in> set ordered \<longrightarrow> u \<in> set ordered"
    and ready: "rest = sorted_list_of_set (available V E (set ordered) - {n})"
  shows "relax targets (missing E (set ordered)) rest =
    (missing E (set (ordered @ [n])), sorted_list_of_set (available V E (set (ordered @ [n]))))"
proof -
  have fin: "finite (available V E X)" for X using V by (simp add: available_def)
  have notin: "n \<notin> set ordered" using n by (simp add: available_def)
  have disj: "set targets \<inter> set rest = {}"
    using ts(2) notin fin by (auto simp: ready available_def)
  have next_set: "set rest \<union> {t \<in> set targets. missing E (set ordered) t = 1} = available V E (insert n (set ordered))"
    (is "?l = ?r")
  proof
    have "t \<in> ?r" if "(n, t) \<in> E" "missing E (set ordered) t = 1" for t
    proof -
      have "missing E (insert n (set ordered)) t = 0" using that notin by (simp add: missing_insert [OF E(1)])
      moreover have "t \<notin> set ordered" "t \<noteq> n"
        using that(1) notin n closed by (auto simp: available_def)
      ultimately show ?thesis using that(1) E(2) by (auto simp: missing_zero [OF E(1)] available_def)
    qed
    then show "?l \<subseteq> ?r" using ts(2) fin by (auto simp: ready available_def)
    show "?r \<subseteq> ?l"
    proof
      fix t assume t: "t \<in> ?r"
      then have z: "missing E (insert n (set ordered)) t = 0" by (simp add: missing_zero [OF E(1)] available_def)
      show "t \<in> ?l"
      proof (cases "(n, t) \<in> E")
        case True
        with z notin show ?thesis by (simp add: missing_insert [OF E(1)] ts(2))
      next
        case False
        with t show ?thesis using fin by (auto simp: ready available_def)
      qed
    qed
  qed
  have "relax targets (missing E (set ordered)) rest =
      ((\<lambda>v. if v \<in> set targets then missing E (set ordered) v - 1 else missing E (set ordered) v),
       sorted_list_of_set (set rest \<union> {t \<in> set targets. missing E (set ordered) t = 1}))"
    using ts(1) disj ready by (intro relax_targets) simp_all
  then show ?thesis
    unfolding next_set using ts(2) notin by (auto simp: fun_eq_iff missing_insert [OF E(1)])
qed

lemma available_take:
  assumes "finite V" "available V E (set ordered) \<noteq> {}"
  shows "Min (available V E (set ordered)) \<in> available V E (set ordered)"
  using assms by (intro Min_in) (simp_all add: available_def)

text \<open>The loop ends and has computed the reference order.\<close>

lemma topo_loop_kahn:
  assumes E: "finite E" "E \<subseteq> V \<times> V" and V: "finite V"
    and ds: "\<And>n. distinct (downstream n) \<and> set (downstream n) = {v. (n, v) \<in> E}"
  shows "\<forall>(u, v) \<in> E. v \<in> set ordered \<longrightarrow> u \<in> set ordered \<Longrightarrow>
    \<exists>r. topo_loop downstream (missing E (set ordered)) (sorted_list_of_set (available V E (set ordered))) ordered = Some r \<and>
      kahn V E ordered r"
proof (induction "card (V - set ordered)" arbitrary: ordered rule: less_induct)
  case less
  have fin: "finite (available V E (set ordered))" using V by (simp add: available_def)
  show ?case
  proof (cases "available V E (set ordered) = {}")
    case True
    then show ?thesis by (subst topo_loop.simps) (auto intro: kahn.stop)
  next
    case False
    define n where "n = Min (available V E (set ordered))"
    have n: "n \<in> available V E (set ordered)" using available_take [OF V False] by (simp add: n_def)
    have ready: "sorted_list_of_set (available V E (set ordered)) = n # sorted_list_of_set (available V E (set ordered) - {n})"
      using fin False by (simp add: n_def sorted_list_of_set_nonempty)
    have step: "relax (downstream n) (missing E (set ordered)) (sorted_list_of_set (available V E (set ordered) - {n})) =
        (missing E (set (ordered @ [n])), sorted_list_of_set (available V E (set (ordered @ [n]))))"
      using ds [of n] by (intro relax_available [OF E V _ _ n less.prems refl]) simp_all
    have "card (V - set (ordered @ [n])) < card (V - set ordered)"
      using n V by (intro psubset_card_mono) (auto simp: available_def)
    moreover have "\<forall>(u, v) \<in> E. v \<in> set (ordered @ [n]) \<longrightarrow> u \<in> set (ordered @ [n])"
      using less.prems n by (auto simp: available_def)
    ultimately obtain r where r: "topo_loop downstream (missing E (set (ordered @ [n])))
        (sorted_list_of_set (available V E (set (ordered @ [n])))) (ordered @ [n]) = Some r" "kahn V E (ordered @ [n]) r"
      using less.hyps by blast
    have "topo_loop downstream (missing E (set ordered)) (sorted_list_of_set (available V E (set ordered))) ordered = Some r"
      unfolding ready using r(1) by (subst topo_loop.simps) (simp only: list.case step prod.case)
    then show ?thesis using kahn.take [OF False] r(2) by (auto simp: n_def)
  qed
qed

section \<open>What the reference order guarantees\<close>

definition topo_sound :: "('a \<times> 'a) set \<Rightarrow> 'a list \<Rightarrow> bool" where
  "topo_sound E ord = (\<forall>pre v post. ord = pre @ v # post \<longrightarrow> (\<forall>u. (u, v) \<in> E \<longrightarrow> u \<in> set pre))"

lemma topo_sound_snoc:
  assumes "topo_sound E ord" "\<And>u. (u, v) \<in> E \<Longrightarrow> u \<in> set ord"
  shows "topo_sound E (ord @ [v])"
  unfolding topo_sound_def
proof (intro allI impI)
  fix pre w post u
  assume split: "ord @ [v] = pre @ w # post" and e: "(u, w) \<in> E"
  show "u \<in> set pre"
  proof (cases post rule: rev_cases)
    case Nil
    with split e assms(2) show ?thesis by simp
  next
    case (snoc post' x)
    with split have "ord = pre @ w # post'" by simp
    with assms(1) e show ?thesis unfolding topo_sound_def by blast
  qed
qed

lemma kahn_sound:
  assumes "finite V"
  shows "kahn V E ordered r \<Longrightarrow> topo_sound E ordered \<Longrightarrow> distinct ordered \<Longrightarrow> set ordered \<subseteq> V \<Longrightarrow>
    topo_sound E r \<and> distinct r \<and> set r \<subseteq> V \<and> available V E (set r) = {}"
proof (induction rule: kahn.induct)
  case (take ordered result)
  define n where "n = Min (available V E (set ordered))"
  have n: "n \<in> available V E (set ordered)" unfolding n_def by (rule available_take [OF assms take.hyps(1)])
  have "topo_sound E (ordered @ [n])" using take.prems(1) n by (intro topo_sound_snoc) (auto simp: available_def)
  moreover have "distinct (ordered @ [n])" "set (ordered @ [n]) \<subseteq> V" using take.prems n by (auto simp: available_def)
  ultimately show ?case using take.IH unfolding n_def by blast
qed simp

text \<open>Stuck before the end means a cycle, and an order of all nodes means there is none.\<close>

lemma stuck_cyclic:
  assumes "finite E" "E \<subseteq> V \<times> V" "available V E done = {}" "v \<in> V" "v \<notin> done"
  shows "\<not> acyclic E"
proof
  assume "acyclic E"
  then have "wf E" using assms(1) finite_acyclic_wf by blast
  then obtain z where z: "z \<in> V - done" "\<And>y. (y, z) \<in> E \<Longrightarrow> y \<notin> V - done"
    using assms(4,5) by (metis DiffI wfE_min)
  then have "z \<in> available V E done" using assms(2) by (auto simp: available_def)
  with assms(3) show False by simp
qed

lemma topo_sound_acyclic:
  assumes "topo_sound E r" "distinct r" "E \<subseteq> set r \<times> set r"
  shows "acyclic E"
proof -
  define rank where "rank v = (THE i. i < length r \<and> r ! i = v)" for v
  have rank: "rank (r ! i) = i" if "i < length r" for i
    unfolding rank_def using that assms(2) by (intro the_equality) (auto simp: nth_eq_iff_index_eq)
  have "rank u < rank v" if "(u, v) \<in> E" for u v
  proof -
    have "v \<in> set r" using that assms(3) by blast
    then obtain j where j: "j < length r" "r ! j = v" by (auto simp: in_set_conv_nth)
    then have "r = take j r @ v # drop (Suc j) r" using id_take_nth_drop [OF j(1)] by simp
    with assms(1) that have "u \<in> set (take j r)" unfolding topo_sound_def by blast
    then obtain i where "i < j" "r ! i = u" by (auto simp: in_set_conv_nth)
    with j rank show ?thesis by auto
  qed
  then have "E \<subseteq> measure rank" by auto
  then show ?thesis using wf_measure wf_subset wf_acyclic by blast
qed

section \<open>The operation\<close>

lemma enumeration_state:
  assumes "distinct es"
  shows "incoming_of es = missing (set es) {}"
    and "distinct (downstream_of es n)" "set (downstream_of es n) = {v. (n, v) \<in> set es}"
proof -
  have "length (filter (\<lambda>e. snd e = v) es) = card {u. (u, v) \<in> set es}" for v
  proof -
    have "length (filter (\<lambda>e. snd e = v) es) = card (set (filter (\<lambda>e. snd e = v) es))"
      using assms by (intro distinct_card [symmetric]) simp
    also have "\<dots> = card (fst ` set (filter (\<lambda>e. snd e = v) es))"
      by (rule card_image [symmetric]) (auto intro!: inj_onI)
    also have "fst ` set (filter (\<lambda>e. snd e = v) es) = {u. (u, v) \<in> set es}" by force
    finally show ?thesis .
  qed
  then show "incoming_of es = missing (set es) {}" by (simp add: fun_eq_iff incoming_of_def missing_def)
  show "distinct (downstream_of es n)"
    using assms by (auto simp: downstream_of_def distinct_map intro!: inj_onI)
  show "set (downstream_of es n) = {v. (n, v) \<in> set es}" by (force simp: downstream_of_def)
qed

definition dag_arguments :: "string list \<Rightarrow> (string \<times> string) list \<Rightarrow> bool" where
  "dag_arguments nodes edges = ([] \<notin> set nodes \<and> distinct nodes \<and> set edges \<subseteq> set nodes \<times> set nodes)"

lemma topological_order_kahn:
  assumes args: "dag_arguments nodes edges" and enum: "set_enumeration enum"
  shows "\<exists>r. kahn (set nodes) (set edges) [] r \<and>
    deterministic_topological_order enum nodes edges =
      Some (if length r \<noteq> length nodes then Inl ValueError else Inr r)"
proof -
  let ?es = "enum edges"
  have es: "distinct ?es" "set ?es = set edges" using enum by (auto simp: set_enumeration_def)
  note st = enumeration_state [OF es(1), unfolded es(2)]
  have "sort (filter (\<lambda>n. incoming_of ?es n = 0) nodes) = sorted_list_of_set (available (set nodes) (set edges) {})"
  proof -
    have "set (filter (\<lambda>n. incoming_of ?es n = 0) nodes) = available (set nodes) (set edges) {}"
      by (auto simp: st(1) missing_zero available_def)
    moreover have "distinct (filter (\<lambda>n. incoming_of ?es n = 0) nodes)" using args by (simp add: dag_arguments_def)
    ultimately show ?thesis by (metis sorted_list_of_set_sort_remdups distinct_remdups_id)
  qed
  moreover obtain r where "topo_loop (downstream_of ?es) (missing (set edges) (set []))
      (sorted_list_of_set (available (set nodes) (set edges) (set []))) [] = Some r" "kahn (set nodes) (set edges) [] r"
    using topo_loop_kahn [of "set edges" "set nodes" "downstream_of ?es" "[]"] st(2,3) args
    by (auto simp: dag_arguments_def)
  ultimately show ?thesis
    using args es(2) st(1) by (auto simp: deterministic_topological_order_def dag_arguments_def)
qed

lemma topological_order_acyclic:
  assumes args: "dag_arguments nodes edges" and enum: "set_enumeration enum" and acyclic: "acyclic (set edges)"
  shows "\<exists>r. deterministic_topological_order enum nodes edges = Some (Inr r) \<and> kahn (set nodes) (set edges) [] r \<and>
    topo_sound (set edges) r \<and> distinct r \<and> set r = set nodes"
proof -
  obtain r where r: "kahn (set nodes) (set edges) [] r" "deterministic_topological_order enum nodes edges =
      Some (if length r \<noteq> length nodes then Inl ValueError else Inr r)"
    using topological_order_kahn [OF args enum] by blast
  have snd: "topo_sound (set edges) r" "distinct r" "set r \<subseteq> set nodes" "available (set nodes) (set edges) (set r) = {}"
    using kahn_sound [OF _ r(1)] by (simp_all add: topo_sound_def)
  have all: "set r = set nodes"
  proof (rule ccontr)
    assume "set r \<noteq> set nodes"
    then obtain v where "v \<in> set nodes" "v \<notin> set r" using snd(3) by blast
    then show False using stuck_cyclic [OF _ _ snd(4)] acyclic args by (auto simp: dag_arguments_def)
  qed
  have "length r = length nodes"
    using args snd(2) all by (metis dag_arguments_def distinct_card)
  with r snd all show ?thesis by simp
qed

lemma topological_order_cyclic:
  assumes args: "dag_arguments nodes edges" and enum: "set_enumeration enum" and cyclic: "\<not> acyclic (set edges)"
  shows "deterministic_topological_order enum nodes edges = Some (Inl ValueError)"
proof -
  obtain r where r: "kahn (set nodes) (set edges) [] r" "deterministic_topological_order enum nodes edges =
      Some (if length r \<noteq> length nodes then Inl ValueError else Inr r)"
    using topological_order_kahn [OF args enum] by blast
  have snd: "topo_sound (set edges) r" "distinct r" "set r \<subseteq> set nodes"
    using kahn_sound [OF _ r(1)] by (simp_all add: topo_sound_def)
  have "length r \<noteq> length nodes"
  proof
    assume "length r = length nodes"
    then have "set r = set nodes"
      using snd(2,3) args by (metis List.finite_set card_subset_eq dag_arguments_def distinct_card)
    then show False using topo_sound_acyclic [OF snd(1,2)] cyclic args by (simp add: dag_arguments_def)
  qed
  with r(2) show ?thesis by simp
qed

text \<open>The order depends on the graph alone.\<close>

lemma topological_order_canonical:
  assumes "dag_arguments nodes edges" "dag_arguments nodes' edges'" "set_enumeration enum" "set_enumeration enum'"
    and "set nodes' = set nodes" "set edges' = set edges"
  shows "deterministic_topological_order enum' nodes' edges' = deterministic_topological_order enum nodes edges"
proof (cases "acyclic (set edges)")
  case True
  with topological_order_acyclic [OF assms(1,3)] topological_order_acyclic [OF assms(2,4)] assms(5,6)
  show ?thesis by (metis kahn_deterministic)
next
  case False
  then show ?thesis using topological_order_cyclic assms by metis
qed

end
