(* ===== verification/Scc.thy ===== *)
theory Scc
  imports Prelude
begin

text \<open>
  The strongly connected components of \<^verbatim>\<open>dag.py\<close>: an iterative depth-first search that records the order
  in which nodes are finished, and a search of the reversed graph from the last finished node
  downwards.  A Python set that is only tested for membership is a list of its elements; a stack is a
  list with its top first.  The two loops are partial functions: that they return is proved.
\<close>

section \<open>The algorithm\<close>

text \<open>\<^verbatim>\<open>tuple(dict.fromkeys(xs))\<close>: the first occurrence of every element.\<close>

definition dict_fromkeys :: "'a list \<Rightarrow> 'a list" where
  "dict_fromkeys xs = rev (remdups (rev xs))"

definition scc_reverse :: "'a list \<Rightarrow> ('a \<Rightarrow> 'a list) \<Rightarrow> 'a \<Rightarrow> 'a list" where
  "scc_reverse nodes graph target = filter (\<lambda>node. target \<in> set (graph node)) nodes"

partial_function (option) dfs_loop ::
    "('a \<Rightarrow> 'a list) \<Rightarrow> 'a list \<Rightarrow> 'a list \<Rightarrow> ('a \<times> nat) list \<Rightarrow> ('a list \<times> 'a list) option" where
  "dfs_loop graph visited finish pending =
     (case pending of
        [] \<Rightarrow> Some (visited, finish)
      | (node, offset) # rest \<Rightarrow>
          if offset < length (graph node) then
            (let target = graph node ! offset in
             if target \<notin> set visited
             then dfs_loop graph (target # visited) finish ((target, 0) # (node, offset + 1) # rest)
             else dfs_loop graph visited finish ((node, offset + 1) # rest))
          else dfs_loop graph visited (finish @ [node]) rest)"

fun dfs_roots :: "('a \<Rightarrow> 'a list) \<Rightarrow> 'a list \<Rightarrow> 'a list \<Rightarrow> 'a list \<Rightarrow> 'a list option" where
  "dfs_roots graph [] visited finish = Some finish"
| "dfs_roots graph (start # starts) visited finish =
     (if start \<in> set visited then dfs_roots graph starts visited finish
      else case dfs_loop graph (start # visited) finish [(start, 0)] of
          None \<Rightarrow> None
        | Some (visited', finish') \<Rightarrow> dfs_roots graph starts visited' finish')"

text \<open>The inner loop over the sources of a node.\<close>

fun assign_sources :: "'a list \<Rightarrow> 'a list \<Rightarrow> 'a list \<Rightarrow> 'a list \<times> 'a list" where
  "assign_sources [] assigned pending = (assigned, pending)"
| "assign_sources (source # sources) assigned pending =
     (if source \<notin> set assigned then assign_sources sources (source # assigned) (source # pending)
      else assign_sources sources assigned pending)"

partial_function (option) collect_loop ::
    "('a \<Rightarrow> 'a list) \<Rightarrow> 'a list \<Rightarrow> 'a list \<Rightarrow> 'a list \<Rightarrow> ('a list \<times> 'a list) option" where
  "collect_loop reverse assigned component pending =
     (case pending of
        [] \<Rightarrow> Some (assigned, component)
      | node # rest \<Rightarrow>
          (case assign_sources (reverse node) assigned rest of
             (assigned', pending') \<Rightarrow> collect_loop reverse assigned' (component @ [node]) pending'))"

fun collect_roots :: "('a \<Rightarrow> 'a list) \<Rightarrow> 'a list \<Rightarrow> 'a list \<Rightarrow> 'a list list \<Rightarrow> 'a list list option" where
  "collect_roots reverse [] assigned components = Some components"
| "collect_roots reverse (start # starts) assigned components =
     (if start \<in> set assigned then collect_roots reverse starts assigned components
      else case collect_loop reverse (start # assigned) [] [start] of
          None \<Rightarrow> None
        | Some (assigned', component) \<Rightarrow> collect_roots reverse starts assigned' (components @ [component]))"

definition strongly_connected_components :: "'a list \<Rightarrow> ('a \<Rightarrow> 'a list) \<Rightarrow> 'a list list res option" where
  "strongly_connected_components nodes adjacency =
     (let graph = (\<lambda>node. dict_fromkeys (adjacency node)) in
      if \<not> distinct nodes then Some (Inl ValueError)
      else if \<exists>node \<in> set nodes. \<not> set (graph node) \<subseteq> set nodes then Some (Inl ValueError)
      else case dfs_roots graph nodes [] [] of
          None \<Rightarrow> None
        | Some finish \<Rightarrow>
            (case collect_roots (scc_reverse nodes graph) (rev finish) [] [] of
               None \<Rightarrow> None
             | Some components \<Rightarrow> Some (Inr components)))"

section \<open>Reachability\<close>

definition edges_of :: "'a set \<Rightarrow> ('a \<Rightarrow> 'a list) \<Rightarrow> ('a \<times> 'a) set" where
  "edges_of N graph = {(u, v). u \<in> N \<and> v \<in> set (graph u)}"

definition mutual :: "('a \<times> 'a) set \<Rightarrow> 'a \<Rightarrow> 'a \<Rightarrow> bool" where
  "mutual E u v = ((u, v) \<in> E\<^sup>* \<and> (v, u) \<in> E\<^sup>*)"

lemma mutual_refl [simp]: "mutual E u u" and mutual_sym: "mutual E u v \<Longrightarrow> mutual E v u"
  and mutual_trans: "mutual E u v \<Longrightarrow> mutual E v w \<Longrightarrow> mutual E u w"
  by (auto simp: mutual_def intro: rtrancl_trans)

text \<open>The elements of a list upto and including its element \<open>x\<close>.\<close>

definition so_far :: "'a list \<Rightarrow> 'a \<Rightarrow> 'a set" where
  "so_far xs x = insert x (set (takeWhile (\<lambda>y. y \<noteq> x) xs))"

lemma takeWhile_snoc: "x \<in> set xs \<Longrightarrow> takeWhile (\<lambda>y. y \<noteq> x) (xs @ ys) = takeWhile (\<lambda>y. y \<noteq> x) xs"
  by (rule takeWhile_append1) auto

lemma so_far_snoc: "x \<in> set xs \<Longrightarrow> so_far (xs @ ys) x = so_far xs x"
  by (simp add: so_far_def takeWhile_snoc)

lemma so_far_last: "x \<notin> set xs \<Longrightarrow> so_far (xs @ [x]) x = insert x (set xs)"
proof -
  assume "x \<notin> set xs"
  then have "takeWhile (\<lambda>y. y \<noteq> x) (xs @ [x]) = xs" by (induction xs) auto
  then show ?thesis by (simp add: so_far_def)
qed

section \<open>The finishing order\<close>

text \<open>
  What the order is good for: from a finished node everything reachable was finished by then, or a
  node of its own component is finished later or still on the stack.
\<close>

definition finish_order :: "('a \<times> 'a) set \<Rightarrow> 'a list \<Rightarrow> 'a set \<Rightarrow> bool" where
  "finish_order E F S = (\<forall>x \<in> set F. (\<forall>z. (x, z) \<in> E\<^sup>* \<longrightarrow> z \<in> so_far F x) \<or>
     (\<exists>g. mutual E x g \<and> g \<noteq> x \<and> (g \<in> S \<or> g \<in> set F \<and> g \<notin> so_far F x)))"

definition dfs_inv :: "'a set \<Rightarrow> ('a \<Rightarrow> 'a list) \<Rightarrow> 'a list \<Rightarrow> 'a list \<Rightarrow> ('a \<times> nat) list \<Rightarrow> bool" where
  "dfs_inv N graph V F P =
     (set V \<subseteq> N \<and> set V = set F \<union> fst ` set P \<and> distinct (F @ map fst P) \<and>
      (\<forall>x \<in> set F. set (graph x) \<subseteq> set V) \<and>
      (\<forall>(x, k) \<in> set P. set (take k (graph x)) \<subseteq> set V) \<and>
      sorted_wrt (\<lambda>a b. (fst b, fst a) \<in> (edges_of N graph)\<^sup>*) P \<and>
      finish_order (edges_of N graph) F (fst ` set P))"

lemma dfs_invD:
  assumes "dfs_inv N graph V F P"
  shows "set V \<subseteq> N" "set V = set F \<union> fst ` set P" "distinct (F @ map fst P)"
    and "x \<in> set F \<Longrightarrow> set (graph x) \<subseteq> set V" and "(x, k) \<in> set P \<Longrightarrow> set (take k (graph x)) \<subseteq> set V"
    and "sorted_wrt (\<lambda>a b. (fst b, fst a) \<in> (edges_of N graph)\<^sup>*) P" and "finish_order (edges_of N graph) F (fst ` set P)"
  using assms unfolding dfs_inv_def by blast+

lemma dfs_invI:
  assumes "set V \<subseteq> N" "set V = set F \<union> fst ` set P" "distinct (F @ map fst P)"
    and "\<And>x. x \<in> set F \<Longrightarrow> set (graph x) \<subseteq> set V" and "\<And>x k. (x, k) \<in> set P \<Longrightarrow> set (take k (graph x)) \<subseteq> set V"
    and "sorted_wrt (\<lambda>a b. (fst b, fst a) \<in> (edges_of N graph)\<^sup>*) P" and "finish_order (edges_of N graph) F (fst ` set P)"
  shows "dfs_inv N graph V F P"
  using assms unfolding dfs_inv_def by blast

lemma finish_order_mono: "finish_order E F S \<Longrightarrow> S \<subseteq> S' \<Longrightarrow> finish_order E F S'"
  unfolding finish_order_def by (meson subsetD)

lemma dfs_push:
  assumes inv: "dfs_inv N graph V F ((x, k) # P)" and k: "k < length (graph x)" and new: "graph x ! k \<notin> set V"
    and closed: "\<And>u. u \<in> N \<Longrightarrow> set (graph u) \<subseteq> N"
  shows "dfs_inv N graph (graph x ! k # V) F ((graph x ! k, 0) # (x, k + 1) # P)"
proof (rule dfs_invI)
  let ?t = "graph x ! k" and ?E = "edges_of N graph"
  note D = dfs_invD [OF inv]
  have x: "x \<in> N" using D(1,2) by auto
  have t: "?t \<in> set (graph x)" using k by simp
  show "set (?t # V) \<subseteq> N" using closed [OF x] t D(1) by auto
  show "set (?t # V) = set F \<union> fst ` set ((?t, 0) # (x, k + 1) # P)" using D(2) by auto
  show "distinct (F @ map fst ((?t, 0) # (x, k + 1) # P))" using D(2,3) new by auto
  show "y \<in> set F \<Longrightarrow> set (graph y) \<subseteq> set (?t # V)" for y using D(4) [of y] by auto
  show "set (take j (graph y)) \<subseteq> set (?t # V)" if "(y, j) \<in> set ((?t, 0) # (x, k + 1) # P)" for y j
    using that D(5) [of y j] D(5) [of x k] k by (auto simp: take_Suc_conv_app_nth)
  have "(x, ?t) \<in> ?E" using x t by (simp add: edges_of_def)
  then show "sorted_wrt (\<lambda>a b. (fst b, fst a) \<in> ?E\<^sup>*) ((?t, 0) # (x, k + 1) # P)"
    using D(6) by (auto intro: rtrancl_into_rtrancl)
  show "finish_order ?E F (fst ` set ((?t, 0) # (x, k + 1) # P))"
    by (rule finish_order_mono [OF D(7)]) auto
qed

lemma dfs_advance:
  assumes inv: "dfs_inv N graph V F ((x, k) # P)" and k: "k < length (graph x)" and old: "graph x ! k \<in> set V"
  shows "dfs_inv N graph V F ((x, k + 1) # P)"
proof (rule dfs_invI)
  note D = dfs_invD [OF inv]
  show "set (take j (graph y)) \<subseteq> set V" if "(y, j) \<in> set ((x, k + 1) # P)" for y j
    using that D(5) [of y j] D(5) [of x k] k old by (auto simp: take_Suc_conv_app_nth)
qed (use dfs_invD [OF inv] in simp_all)

lemma finished_or_pending:
  assumes inv: "dfs_inv N graph V F ((x, k) # P)" and k: "\<not> k < length (graph x)"
    and none: "\<nexists>g. mutual (edges_of N graph) x g \<and> g \<noteq> x \<and> g \<in> fst ` set P"
  shows "(x, z) \<in> (edges_of N graph)\<^sup>* \<Longrightarrow> z \<in> insert x (set F)"
proof (induction rule: rtrancl_induct)
  case (step y z)
  note D = dfs_invD [OF inv]
  have xP: "x \<notin> fst ` set P" using D(3) by auto
  have "set (graph x) \<subseteq> set V" using D(5) [of x k] k by simp
  then have zV: "z \<in> set V" using step D(4) [of y] by (auto simp: edges_of_def)
  have "z \<notin> fst ` set P"
  proof
    assume z: "z \<in> fst ` set P"
    have "(x, z) \<in> (edges_of N graph)\<^sup>*" using step.hyps by (rule rtrancl_into_rtrancl)
    moreover have "(z, x) \<in> (edges_of N graph)\<^sup>*" using D(6) z by auto
    ultimately show False using none z xP by (auto simp: mutual_def)
  qed
  then show ?case using zV D(2) by auto
qed simp

lemma dfs_pop:
  assumes inv: "dfs_inv N graph V F ((x, k) # P)" and k: "\<not> k < length (graph x)"
  shows "dfs_inv N graph V (F @ [x]) P"
proof (rule dfs_invI)
  let ?E = "edges_of N graph"
  note D = dfs_invD [OF inv]
  have xF: "x \<notin> set F" using D(3) by auto
  show "set V \<subseteq> N" "set V = set (F @ [x]) \<union> fst ` set P" "distinct ((F @ [x]) @ map fst P)"
    "sorted_wrt (\<lambda>a b. (fst b, fst a) \<in> ?E\<^sup>*) P"
    using D(1,2,3,6) by auto
  show "set (graph y) \<subseteq> set V" if "y \<in> set (F @ [x])" for y
    using that D(4) [of y] D(5) [of x k] k by auto
  show "(y, j) \<in> set P \<Longrightarrow> set (take j (graph y)) \<subseteq> set V" for y j using D(5) [of y j] by simp
  show "finish_order ?E (F @ [x]) (fst ` set P)"
    unfolding finish_order_def
  proof
    fix y assume y: "y \<in> set (F @ [x])"
    show "(\<forall>z. (y, z) \<in> ?E\<^sup>* \<longrightarrow> z \<in> so_far (F @ [x]) y) \<or>
       (\<exists>g. mutual ?E y g \<and> g \<noteq> y \<and> (g \<in> fst ` set P \<or> g \<in> set (F @ [x]) \<and> g \<notin> so_far (F @ [x]) y))"
    proof (cases "y = x")
      case True
      then show ?thesis using finished_or_pending [OF inv k] so_far_last [OF xF] by blast
    next
      case False
      then have yF: "y \<in> set F" using y by simp
      have up: "so_far (F @ [x]) y = so_far F y" by (rule so_far_snoc [OF yF])
      have "so_far F y \<subseteq> set F" using yF by (auto simp: so_far_def dest: set_takeWhileD)
      then have xup: "x \<notin> so_far F y" using xF by blast
      from D(7) yF consider "\<forall>z. (y, z) \<in> ?E\<^sup>* \<longrightarrow> z \<in> so_far F y" |
          g where "mutual ?E y g" "g \<noteq> y" "g = x \<or> g \<in> fst ` set P \<or> g \<in> set F \<and> g \<notin> so_far F y"
        unfolding finish_order_def by auto
      then show ?thesis
      proof cases
        case (2 g)
        then have "g \<in> fst ` set P \<or> g \<in> set (F @ [x]) \<and> g \<notin> so_far F y" using xup by auto
        with 2(1,2) show ?thesis unfolding up by blast
      qed (simp add: up)
    qed
  qed
qed

section \<open>The search terminates\<close>

definition stack_work :: "('a \<Rightarrow> 'a list) \<Rightarrow> ('a \<times> nat) list \<Rightarrow> nat" where
  "stack_work graph P = sum_list (map (\<lambda>(x, k). Suc (length (graph x) - k)) P)"

lemma dfs_loop_finishes:
  assumes N: "finite N" and closed: "\<And>u. u \<in> N \<Longrightarrow> set (graph u) \<subseteq> N"
  shows "dfs_inv N graph V F P \<Longrightarrow> \<exists>V' F'. dfs_loop graph V F P = Some (V', F') \<and> dfs_inv N graph V' F' [] \<and> set V \<subseteq> set V'"
proof (induction "(card (N - set V), stack_work graph P)" arbitrary: V F P
    rule: wf_induct_rule [OF wf_lex_prod [OF wf_less_than wf_less_than]])
  case (1 V P F)
  show ?case
  proof (cases P)
    case Nil
    then show ?thesis using "1.prems" by (subst dfs_loop.simps) auto
  next
    case (Cons a rest)
    obtain x k where a: "a = (x, k)" by (cases a)
    let ?t = "graph x ! k"
    have inv: "dfs_inv N graph V F ((x, k) # rest)" using "1.prems" Cons a by simp
    show ?thesis
    proof (cases "k < length (graph x)")
      case less: True
      show ?thesis
      proof (cases "?t \<in> set V")
        case True
        have "stack_work graph ((x, k + 1) # rest) < stack_work graph P" using less Cons a by (simp add: stack_work_def)
        with "1.hyps" [OF _ dfs_advance [OF inv less True]] obtain V' F' where
          "dfs_loop graph V F ((x, k + 1) # rest) = Some (V', F')" "dfs_inv N graph V' F' []" "set V \<subseteq> set V'" by auto
        then show ?thesis using Cons a less True by (subst dfs_loop.simps) (simp add: Let_def)
      next
        case False
        note push = dfs_push [OF inv less False closed]
        have "?t \<in> N" using dfs_invD(1) [OF push] by simp
        then have "card (N - set (?t # V)) < card (N - set V)" using False N by (intro psubset_card_mono) auto
        with "1.hyps" [OF _ push] obtain V' F' where
          "dfs_loop graph (?t # V) F ((?t, 0) # (x, k + 1) # rest) = Some (V', F')" "dfs_inv N graph V' F' []" "set (?t # V) \<subseteq> set V'" by auto
        then show ?thesis using Cons a less False by (subst dfs_loop.simps) (simp add: Let_def)
      qed
    next
      case False
      have "stack_work graph rest < stack_work graph P" using Cons a by (simp add: stack_work_def)
      with "1.hyps" [OF _ dfs_pop [OF inv False]] obtain V' F' where
        "dfs_loop graph V (F @ [x]) rest = Some (V', F')" "dfs_inv N graph V' F' []" "set V \<subseteq> set V'" by auto
      then show ?thesis using Cons a False by (subst dfs_loop.simps) simp
    qed
  qed
qed

lemma dfs_roots_finishes:
  assumes N: "finite N" and closed: "\<And>u. u \<in> N \<Longrightarrow> set (graph u) \<subseteq> N"
  shows "dfs_inv N graph V F [] \<Longrightarrow> set starts \<subseteq> N \<Longrightarrow>
    \<exists>F'. dfs_roots graph starts V F = Some F' \<and> set V \<union> set starts \<subseteq> set F' \<and> set F' \<subseteq> N \<and> distinct F' \<and>
      finish_order (edges_of N graph) F' {}"
proof (induction starts arbitrary: V F)
  case Nil
  then show ?case using dfs_invD [OF Nil.prems(1)] by auto
next
  case (Cons s starts)
  show ?case
  proof (cases "s \<in> set V")
    case True
    from Cons.IH [OF Cons.prems(1)] Cons.prems(2) obtain F' where "dfs_roots graph starts V F = Some F'"
      "set V \<union> set starts \<subseteq> set F'" "set F' \<subseteq> N" "distinct F'" "finish_order (edges_of N graph) F' {}" by auto
    with True show ?thesis by auto
  next
    case False
    note D = dfs_invD [OF Cons.prems(1)]
    have "dfs_inv N graph (s # V) F [(s, 0)]"
    proof (rule dfs_invI)
      show "finish_order (edges_of N graph) F (fst ` set [(s, 0)])" by (rule finish_order_mono [OF D(7)]) simp
      show "x \<in> set F \<Longrightarrow> set (graph x) \<subseteq> set (s # V)" for x using D(4) [of x] by auto
    qed (use D(1-3) False Cons.prems(2) in auto)
    from dfs_loop_finishes [OF N closed this] obtain V' F' where l: "dfs_loop graph (s # V) F [(s, 0)] = Some (V', F')"
      "dfs_inv N graph V' F' []" "set (s # V) \<subseteq> set V'" by blast
    from Cons.IH [OF l(2)] Cons.prems(2) obtain F'' where "dfs_roots graph starts V' F' = Some F''"
      "set V' \<union> set starts \<subseteq> set F''" "set F'' \<subseteq> N" "distinct F''" "finish_order (edges_of N graph) F'' {}" by auto
    with l False show ?thesis by auto
  qed
qed

section \<open>Collecting a component\<close>

lemma assign_sources_spec:
  assumes "assign_sources xs A P = (A', P')"
  shows "set A' = set A \<union> set xs" "set P' = set P \<union> (set xs - set A)"
    "distinct P \<Longrightarrow> set P \<subseteq> set A \<Longrightarrow> distinct P'"
proof -
  have 1: "set (fst (assign_sources xs A P)) = set A \<union> set xs"
    by (induction xs A P rule: assign_sources.induct) auto
  have 2: "set (snd (assign_sources xs A P)) = set P \<union> (set xs - set A)"
    by (induction xs A P rule: assign_sources.induct) auto
  have 3: "distinct P \<Longrightarrow> set P \<subseteq> set A \<Longrightarrow> distinct (snd (assign_sources xs A P))"
  proof (induction xs A P rule: assign_sources.induct)
    case (2 x xs A P)
    then show ?case by (cases "x \<in> set A") auto
  qed simp
  show "set A' = set A \<union> set xs" "set P' = set P \<union> (set xs - set A)"
    "distinct P \<Longrightarrow> set P \<subseteq> set A \<Longrightarrow> distinct P'"
    using 1 2 3 assms by simp_all
qed

text \<open>
  The state of the search: what is collected and pending is new, reaches the start, and every
  unassigned node with an edge to a collected node was assigned.
\<close>

definition collect_inv :: "'a set \<Rightarrow> ('a \<times> 'a) set \<Rightarrow> 'a set \<Rightarrow> 'a \<Rightarrow> 'a list \<Rightarrow> 'a list \<Rightarrow> 'a list \<Rightarrow> bool" where
  "collect_inv N E A0 s A C P =
     (set A = A0 \<union> set C \<union> set P \<and> s \<in> set C \<union> set P \<and> distinct (C @ P) \<and> (set C \<union> set P) \<inter> A0 = {} \<and> set A \<subseteq> N \<and>
      (\<forall>x \<in> set C \<union> set P. (x, s) \<in> E\<^sup>*) \<and> (\<forall>x \<in> set C. \<forall>u. (u, x) \<in> E \<longrightarrow> u \<in> set A))"

lemma collect_step:
  assumes inv: "collect_inv N E A0 s A C (x # P)" and srcs: "set srcs = {u. (u, x) \<in> E}" "set srcs \<subseteq> N"
    and step: "assign_sources srcs A P = (A', P')"
  shows "collect_inv N E A0 s A' (C @ [x]) P'"
proof -
  have A: "set A = A0 \<union> set C \<union> insert x (set P)" "distinct (C @ x # P)" "(set C \<union> insert x (set P)) \<inter> A0 = {}" "set A \<subseteq> N"
    "s \<in> set C \<union> insert x (set P)" "\<And>y. y \<in> set C \<union> insert x (set P) \<Longrightarrow> (y, s) \<in> E\<^sup>*"
    "\<And>y u. y \<in> set C \<Longrightarrow> (u, y) \<in> E \<Longrightarrow> u \<in> set A"
    using inv unfolding collect_inv_def by auto
  have step': "set A' = set A \<union> set srcs" "set P' = set P \<union> (set srcs - set A)" "distinct P'"
    using assign_sources_spec [OF step] A(1,2) by auto
  have reach: "(y, s) \<in> E\<^sup>*" if "y \<in> set srcs" for y
    using that srcs(1) A(6) [of x] by (auto intro: converse_rtrancl_into_rtrancl)
  show ?thesis
    unfolding collect_inv_def
  proof (intro conjI)
    show "set A' = A0 \<union> set (C @ [x]) \<union> set P'" using A(1) step'(1,2) by auto
    show "s \<in> set (C @ [x]) \<union> set P'" using A(5) step'(2) by auto
    show "distinct ((C @ [x]) @ P')" using A(1,2) step'(2,3) by auto
    show "(set (C @ [x]) \<union> set P') \<inter> A0 = {}" using A(1,3) step'(2) by auto
    show "set A' \<subseteq> N" using A(4) step'(1) srcs(2) by auto
    show "\<forall>y \<in> set (C @ [x]) \<union> set P'. (y, s) \<in> E\<^sup>*" using A(6) reach step'(2) by auto
    show "\<forall>y \<in> set (C @ [x]). \<forall>u. (u, y) \<in> E \<longrightarrow> u \<in> set A'" using A(7) srcs(1) step'(1) by auto
  qed
qed

lemma collect_loop_finishes:
  assumes N: "finite N" and srcs: "\<And>x. x \<in> N \<Longrightarrow> set (reverse x) = {u. (u, x) \<in> E} \<and> set (reverse x) \<subseteq> N"
  shows "collect_inv N E A0 s A C P \<Longrightarrow> \<exists>A' C'. collect_loop reverse A C P = Some (A', C') \<and> collect_inv N E A0 s A' C' []"
proof (induction "card (N - set C)" arbitrary: A C P rule: less_induct)
  case less
  show ?case
  proof (cases P)
    case Nil
    then show ?thesis using less.prems by (subst collect_loop.simps) auto
  next
    case (Cons x rest)
    obtain A' P' where step: "assign_sources (reverse x) A rest = (A', P')" by (cases "assign_sources (reverse x) A rest")
    have x: "x \<in> N" "x \<notin> set C" using less.prems Cons unfolding collect_inv_def by auto
    have "collect_inv N E A0 s A' (C @ [x]) P'"
      proof (rule collect_step [OF _ _ _ step])
      show "collect_inv N E A0 s A C (x # rest)" using less.prems Cons by simp
    qed (use srcs [OF x(1)] in blast)+
    moreover have "card (N - set (C @ [x])) < card (N - set C)" using x N by (intro psubset_card_mono) auto
    ultimately obtain A'' C'' where "collect_loop reverse A' (C @ [x]) P' = Some (A'', C'')" "collect_inv N E A0 s A'' C'' []"
      using less.hyps by blast
    then show ?thesis using Cons step by (subst collect_loop.simps) simp
  qed
qed

text \<open>Avoiding the nodes assigned before, the start is reached exactly from its component.\<close>

lemma collect_component:
  assumes inv: "collect_inv N E A0 s A C []" and union: "\<And>x y. x \<in> A0 \<Longrightarrow> mutual E x y \<Longrightarrow> y \<in> A0"
    and only: "\<And>x. x \<in> N \<Longrightarrow> x \<notin> A0 \<Longrightarrow> (x, s) \<in> E\<^sup>* \<Longrightarrow> mutual E s x"
  shows "set C = {x. mutual E s x}" "set A = A0 \<union> set C" "distinct C"
proof -
  have I: "set A = A0 \<union> set C" "s \<in> set C" "distinct C" "set C \<inter> A0 = {}" "set A \<subseteq> N"
    "\<And>y. y \<in> set C \<Longrightarrow> (y, s) \<in> E\<^sup>*" "\<And>y u. y \<in> set C \<Longrightarrow> (u, y) \<in> E \<Longrightarrow> u \<in> set A"
    using inv unfolding collect_inv_def by auto
  show "set A = A0 \<union> set C" "distinct C" using I by auto
  have "x \<in> set C" if m: "mutual E s x" for x
  proof -
    have "(x, s) \<in> E\<^sup>*" "(s, x) \<in> E\<^sup>*" using m by (simp_all add: mutual_def)
    then show ?thesis
    proof (induction rule: converse_rtrancl_induct)
      case (step y z)
      have "(s, z) \<in> E\<^sup>*" using step.hyps(1) step.prems by (meson rtrancl_into_rtrancl)
      then have "z \<in> set C" by (rule step.IH)
      then have "y \<in> set A" using I(7) step.hyps(1) by blast
      moreover have "(y, s) \<in> E\<^sup>*" using step.hyps by (rule converse_rtrancl_into_rtrancl)
      then have "mutual E y s" using step.prems by (simp add: mutual_def)
      then have "y \<notin> A0" using union [of y s] I(2,4) by blast
      ultimately show ?case using I(1) by blast
    qed (rule I(2))
  qed
  moreover have "mutual E s x" if "x \<in> set C" for x using only [of x] I that by blast
  ultimately show "set C = {x. mutual E s x}" by blast
qed

section \<open>The components\<close>

text \<open>The last finished node of a component is finished after everything it reaches.\<close>

lemma so_far_split: "y \<notin> set pre \<Longrightarrow> so_far (pre @ y # post) y = insert y (set pre)"
proof -
  assume "y \<notin> set pre"
  then have "takeWhile (\<lambda>v. v \<noteq> y) (pre @ y # post) = pre" by (subst takeWhile_append2) auto
  then show ?thesis by (simp add: so_far_def)
qed

lemma finish_order_last:
  assumes order: "finish_order E F {}" and dist: "distinct F" and x: "x \<in> set F"
  shows "\<exists>pre y post. F = pre @ y # post \<and> mutual E x y \<and> (\<forall>z. (x, z) \<in> E\<^sup>* \<longrightarrow> z \<in> insert y (set pre))"
proof -
  have ex: "\<exists>g \<in> set F. mutual E x g" by (rule bexI [OF mutual_refl x])
  obtain pre y post where F: "F = pre @ y # post" and y: "mutual E x y" and post: "\<forall>g \<in> set post. \<not> mutual E x g"
    using split_list_last_prop [OF ex] by blast
  have up: "so_far F y = insert y (set pre)" unfolding F by (rule so_far_split) (use dist F in simp)
  have "\<not> (mutual E y g \<and> g \<noteq> y \<and> (g \<in> {} \<or> g \<in> set F \<and> g \<notin> so_far F y))" for g
  proof
    assume g: "mutual E y g \<and> g \<noteq> y \<and> (g \<in> {} \<or> g \<in> set F \<and> g \<notin> so_far F y)"
    then have "g \<in> set post" using F up by auto
    moreover have "mutual E x g" using mutual_trans [OF y] g by blast
    ultimately show False using post by blast
  qed
  moreover have "y \<in> set F" using F by simp
  ultimately have "\<forall>z. (y, z) \<in> E\<^sup>* \<longrightarrow> z \<in> so_far F y" using order unfolding finish_order_def by blast
  moreover have "(y, z) \<in> E\<^sup>*" if "(x, z) \<in> E\<^sup>*" for z
    using y that unfolding mutual_def by (blast intro: rtrancl_trans)
  ultimately show ?thesis using F y up by blast
qed

text \<open>
  The components form a partition of the nodes into classes of mutual reachability, and every edge
  leads from a component to itself or to a later one.
\<close>

definition backward_closed :: "('a \<times> 'a) set \<Rightarrow> 'a set \<Rightarrow> bool" where
  "backward_closed E A = (\<forall>(u, v) \<in> E. v \<in> A \<longrightarrow> u \<in> A)"

definition scc_partition :: "'a set \<Rightarrow> ('a \<times> 'a) set \<Rightarrow> 'a list list \<Rightarrow> bool" where
  "scc_partition N E comps =
     (distinct (concat comps) \<and> set (concat comps) = N \<and> (\<forall>c \<in> set comps. \<exists>x \<in> set c. set c = {y. mutual E x y}) \<and>
      (\<forall>k \<le> length comps. backward_closed E (set (concat (take k comps)))))"

lemma backward_closed_rtrancl:
  assumes "backward_closed E A" "(u, v) \<in> E\<^sup>*" "v \<in> A" shows "u \<in> A"
  using assms(2,3) by (induction rule: converse_rtrancl_induct) (use assms(1) in \<open>auto simp: backward_closed_def\<close>)

text \<open>Among the nodes not assigned yet, only its own component reaches the last finished one.\<close>

lemma last_reached_by_own:
  assumes order: "finish_order E (rev starts @ s # later) {}" and dist: "distinct (rev starts @ s # later)"
    and A: "backward_closed E A" "set later \<subseteq> A"
    and x: "x \<in> set (rev starts @ s # later)" "x \<notin> A" "(x, s) \<in> E\<^sup>*"
  shows "mutual E s x"
proof -
  obtain pre y post where F: "rev starts @ s # later = pre @ y # post" and y: "mutual E x y"
    and upto_y: "\<forall>z. (x, z) \<in> E\<^sup>* \<longrightarrow> z \<in> insert y (set pre)"
    using finish_order_last [OF order dist x(1)] by blast
  have "y \<notin> A" using backward_closed_rtrancl [OF A(1), of x y] y x(2) by (auto simp: mutual_def)
  then have "y \<notin> set later" using A(2) by blast
  have "y = s"
  proof (rule ccontr)
    assume neq: "y \<noteq> s"
    then have "s \<in> set pre" using upto_y x(3) by blast
    then obtain p1 p2 where "pre = p1 @ s # p2" by (metis split_list)
    then have "rev starts @ s # later = p1 @ s # (p2 @ y # post)" using F by simp
    moreover have "s \<notin> set (rev starts)" "s \<notin> set later" using dist by auto
    ultimately have "later = p2 @ y # post" by (simp add: append_Cons_eq_iff)
    then have "y \<in> set later" by simp
    with \<open>y \<notin> set later\<close> show False ..
  qed
  then show ?thesis using y by (simp add: mutual_sym)
qed

lemma scc_partition_snoc:
  assumes comps: "distinct (concat comps)" "\<forall>c \<in> set comps. \<exists>x \<in> set c. set c = {y. mutual E x y}"
      "\<forall>k \<le> length comps. backward_closed E (set (concat (take k comps)))"
    and C: "distinct C" "set C = {y. mutual E s y}" "set C \<inter> set (concat comps) = {}" "backward_closed E (set (concat comps) \<union> set C)"
  shows "distinct (concat (comps @ [C]))" "\<forall>c \<in> set (comps @ [C]). \<exists>x \<in> set c. set c = {y. mutual E x y}"
    "\<forall>k \<le> length (comps @ [C]). backward_closed E (set (concat (take k (comps @ [C]))))"
proof -
  show "distinct (concat (comps @ [C]))" using comps(1) C(1,3) by auto
  have "s \<in> set C" using C(2) by simp
  then show "\<forall>c \<in> set (comps @ [C]). \<exists>x \<in> set c. set c = {y. mutual E x y}" using comps(2) C(2) by auto
  show "\<forall>k \<le> length (comps @ [C]). backward_closed E (set (concat (take k (comps @ [C]))))"
  proof (intro allI impI)
    fix k assume "k \<le> length (comps @ [C])"
    then consider "k \<le> length comps" | "k = Suc (length comps)" by force
    then show "backward_closed E (set (concat (take k (comps @ [C]))))" using comps(3) C(4) by cases simp_all
  qed
qed

lemma collect_roots_partition:
  assumes N: "finite N" and srcs: "\<And>x. x \<in> N \<Longrightarrow> set (reverse x) = {u. (u, x) \<in> E} \<and> set (reverse x) \<subseteq> N"
    and order: "finish_order E F {}" and dist: "distinct F" and F: "set F = N"
  shows "F = rev starts @ later \<Longrightarrow> set later \<subseteq> set A \<Longrightarrow> set A = set (concat comps) \<Longrightarrow> set A \<subseteq> N \<Longrightarrow>
    distinct (concat comps) \<Longrightarrow> \<forall>c \<in> set comps. \<exists>x \<in> set c. set c = {y. mutual E x y} \<Longrightarrow>
    \<forall>k \<le> length comps. backward_closed E (set (concat (take k comps))) \<Longrightarrow>
    \<exists>comps'. collect_roots reverse starts A comps = Some comps' \<and> scc_partition N E comps'"
proof (induction starts arbitrary: later A comps)
  case Nil
  then show ?case using F by (auto simp: scc_partition_def)
next
  case (Cons s starts)
  have F': "F = rev starts @ s # later" using Cons.prems(1) by simp
  show ?case
  proof (cases "s \<in> set A")
    case True
    then have "set (s # later) \<subseteq> set A" using Cons.prems(2) by simp
    from Cons.IH [OF F' this Cons.prems(3-7)] True show ?thesis by simp
  next
    case False
    have closedA: "backward_closed E (set A)" using Cons.prems(3,7) by (metis order_refl take_all)
    have s: "s \<in> N" using F' F by auto
    have "collect_inv N E (set A) s (s # A) [] [s]"
      unfolding collect_inv_def using False s Cons.prems(4) by auto
    from collect_loop_finishes [OF N srcs this] obtain A' C where
      loop: "collect_loop reverse (s # A) [] [s] = Some (A', C)" and inv: "collect_inv N E (set A) s A' C []" by blast
    have union: "y \<in> set A" if "x \<in> set A" "mutual E x y" for x y
      using backward_closed_rtrancl [OF closedA, of y x] that by (simp add: mutual_def)
    have only: "mutual E s x" if "x \<in> N" "x \<notin> set A" "(x, s) \<in> E\<^sup>*" for x
      by (rule last_reached_by_own [OF order [unfolded F'] dist [unfolded F'] closedA Cons.prems(2) _ that(2,3)])
         (use that(1) F F' in simp)
    note C = collect_component [OF inv union only]
    have I: "set C \<inter> set A = {}" "set A' \<subseteq> N" "\<forall>x \<in> set C. \<forall>u. (u, x) \<in> E \<longrightarrow> u \<in> set A'"
      using inv unfolding collect_inv_def by blast+
    have closedA': "backward_closed E (set (concat comps) \<union> set C)"
      using closedA I(3) C(2) Cons.prems(3) unfolding backward_closed_def by auto
    note snoc = scc_partition_snoc [OF Cons.prems(5-7) C(3,1) _ closedA']
    have "s \<in> set C" using C(1) by simp
    then have later: "set (s # later) \<subseteq> set A'" using C(2) Cons.prems(2) by auto
    have "\<exists>comps'. collect_roots reverse starts A' (comps @ [C]) = Some comps' \<and> scc_partition N E comps'"
      by (rule Cons.IH [OF F' later _ I(2) snoc]) (use C(2) I(1) Cons.prems(3) in auto)
    then show ?thesis using loop False by simp
  qed
qed

section \<open>The whole function\<close>

lemma set_dict_fromkeys [simp]: "set (dict_fromkeys xs) = set xs" by (simp add: dict_fromkeys_def)

lemma scc_edges: "edges_of N (\<lambda>u. dict_fromkeys (adjacency u)) = edges_of N adjacency" by (simp add: edges_of_def)

lemma scc_reverse_sources:
  "set (scc_reverse nodes graph x) = {u. (u, x) \<in> edges_of (set nodes) graph}" "set (scc_reverse nodes graph x) \<subseteq> set nodes"
  by (auto simp: scc_reverse_def edges_of_def)

lemma scc_returns:
  assumes nodes: "distinct nodes" and known: "\<And>u. u \<in> set nodes \<Longrightarrow> set (adjacency u) \<subseteq> set nodes"
  shows "\<exists>comps. strongly_connected_components nodes adjacency = Some (Inr comps) \<and>
    scc_partition (set nodes) (edges_of (set nodes) adjacency) comps"
proof -
  define graph where "graph = (\<lambda>u. dict_fromkeys (adjacency u))"
  have closed: "set (graph u) \<subseteq> set nodes" if "u \<in> set nodes" for u using known [OF that] by (simp add: graph_def)
  have "dfs_inv (set nodes) graph [] [] []" by (simp add: dfs_inv_def finish_order_def)
  from dfs_roots_finishes [OF finite_set closed this order_refl] obtain F where
    F: "dfs_roots graph nodes [] [] = Some F" "set nodes \<subseteq> set F" "set F \<subseteq> set nodes" "distinct F"
      "finish_order (edges_of (set nodes) graph) F {}" by auto
  have "\<exists>comps. collect_roots (scc_reverse nodes graph) (rev F) [] [] = Some comps \<and>
      scc_partition (set nodes) (edges_of (set nodes) graph) comps"
    by (rule collect_roots_partition [OF finite_set _ F(5,4), where later = "[]"])
       (use F(2,3) scc_reverse_sources [of nodes graph] in \<open>auto simp: backward_closed_def\<close>)
  then obtain comps where comps: "collect_roots (scc_reverse nodes graph) (rev F) [] [] = Some comps"
    "scc_partition (set nodes) (edges_of (set nodes) graph) comps" by blast
  have E: "edges_of (set nodes) graph = edges_of (set nodes) adjacency" unfolding graph_def by (rule scc_edges)
  have "strongly_connected_components nodes adjacency = Some (Inr comps)"
    unfolding strongly_connected_components_def Let_def graph_def [symmetric] using nodes closed F(1) comps(1) by auto
  then show ?thesis using comps(2) E by simp
qed

lemma scc_rejects:
  assumes "\<not> distinct nodes \<or> (\<exists>u \<in> set nodes. \<not> set (adjacency u) \<subseteq> set nodes)"
  shows "strongly_connected_components nodes adjacency = Some (Inl ValueError)"
  using assms by (auto simp: strongly_connected_components_def Let_def)

end
