(* ===== verification/Hypergraph.thy ===== *)
theory Hypergraph
  imports Dag Scc
begin

text \<open>
  The stable hypergraph order of \<^verbatim>\<open>dag.py\<close>: every relation is released when its last source was taken,
  and a node is ready when the last relation into it was released.  The counters are Python
  integers; that they never fall below zero, so that the two RuntimeErrors of the loop cannot be
  raised, is proved.
\<close>

section \<open>The algorithm\<close>

text \<open>The tables of the loop over the relations: outgoing indices, incoming counts, targets, open sources.\<close>

record 'a hyper_tables =
  outgoing_relation_indices :: "'a \<Rightarrow> nat list"
  incoming_relation_count :: "'a \<Rightarrow> int"
  relation_targets :: "'a list list"
  unresolved_sources :: "int list"

definition add_relation :: "'a list \<Rightarrow> 'a list \<Rightarrow> 'a hyper_tables \<Rightarrow> 'a hyper_tables" where
  "add_relation sources targets tb =
     (let relation_index = length (relation_targets tb) in
      \<lparr>outgoing_relation_indices = fold (\<lambda>s out. out(s := out s @ [relation_index])) sources (outgoing_relation_indices tb),
       incoming_relation_count = fold (\<lambda>t inc. inc(t := inc t + 1)) targets (incoming_relation_count tb),
       relation_targets = relation_targets tb @ [targets],
       unresolved_sources = unresolved_sources tb @ [int (length sources)]\<rparr>)"

fun build_tables :: "'a list \<Rightarrow> ('a list \<times> 'a list) list \<Rightarrow> 'a hyper_tables \<Rightarrow> 'a hyper_tables res" where
  "build_tables nodes [] tb = Inr tb"
| "build_tables nodes ((sources_value, targets_value) # relations) tb =
     (let sources = dict_fromkeys sources_value; targets = dict_fromkeys targets_value in
      if \<exists>node \<in> set (sources @ targets). node \<notin> set nodes then Inl ValueError
      else if sources = [] \<or> targets = [] then build_tables nodes relations tb
      else build_tables nodes relations (add_relation sources targets tb))"

text \<open>The innermost loop: a released relation lowers the count of each target.\<close>

fun release_targets :: "'a list \<Rightarrow> ('a \<Rightarrow> int) \<Rightarrow> 'a list \<Rightarrow> (('a \<Rightarrow> int) \<times> 'a list) res" where
  "release_targets [] inc ready = Inr (inc, ready)"
| "release_targets (target # targets) inc ready =
     (let count = inc target - 1 in
      if count < 0 then Inl RuntimeError
      else release_targets targets (inc(target := count)) (if count = 0 then ready @ [target] else ready))"

fun resolve_sources :: "'a list list \<Rightarrow> nat list \<Rightarrow> int list \<Rightarrow> ('a \<Rightarrow> int) \<Rightarrow> 'a list \<Rightarrow> (int list \<times> ('a \<Rightarrow> int) \<times> 'a list) res" where
  "resolve_sources rtargets [] unresolved inc ready = Inr (unresolved, inc, ready)"
| "resolve_sources rtargets (relation_index # indices) unresolved inc ready =
     (let remaining = unresolved ! relation_index - 1 in
      if remaining < 0 then Inl RuntimeError
      else if remaining \<noteq> 0 then resolve_sources rtargets indices (unresolved[relation_index := remaining]) inc ready
      else case release_targets (rtargets ! relation_index) inc ready of
          Inl e \<Rightarrow> Inl e
        | Inr (inc', ready') \<Rightarrow> resolve_sources rtargets indices (unresolved[relation_index := remaining]) inc' ready')"

partial_function (option) hyper_loop ::
    "('a \<Rightarrow> nat list) \<Rightarrow> 'a list list \<Rightarrow> int list \<Rightarrow> ('a \<Rightarrow> int) \<Rightarrow> 'a list \<Rightarrow> 'a list \<Rightarrow> 'a list res option" where
  "hyper_loop outgoing rtargets unresolved inc ready ordered =
     (case ready of
        [] \<Rightarrow> Some (Inr ordered)
      | node # rest \<Rightarrow>
          (case resolve_sources rtargets (outgoing node) unresolved inc rest of
             Inl e \<Rightarrow> Some (Inl e)
           | Inr (unresolved', inc', ready') \<Rightarrow> hyper_loop outgoing rtargets unresolved' inc' ready' (ordered @ [node])))"

definition deterministic_hypergraph_topological_order ::
    "'a list \<Rightarrow> ('a list \<times> 'a list) list \<Rightarrow> 'a list res option" where
  "deterministic_hypergraph_topological_order nodes relations =
     (if \<not> distinct nodes then Some (Inl ValueError)
      else case build_tables nodes relations
            \<lparr>outgoing_relation_indices = (\<lambda>_. []), incoming_relation_count = (\<lambda>_. 0), relation_targets = [], unresolved_sources = []\<rparr> of
          Inl e \<Rightarrow> Some (Inl e)
        | Inr tb \<Rightarrow>
            (case hyper_loop (outgoing_relation_indices tb) (relation_targets tb) (unresolved_sources tb) (incoming_relation_count tb)
                    (filter (\<lambda>node. incoming_relation_count tb node = 0) nodes) [] of
               None \<Rightarrow> None
             | Some (Inl e) \<Rightarrow> Some (Inl e)
             | Some (Inr ordered) \<Rightarrow> Some (if length ordered \<noteq> length nodes then Inl ValueError else Inr ordered)))"

section \<open>The tables\<close>

text \<open>The relations that count, each with distinct endpoints, and the edges they stand for.\<close>

definition hyper_rows :: "('a list \<times> 'a list) list \<Rightarrow> ('a list \<times> 'a list) list" where
  "hyper_rows relations = filter (\<lambda>r. fst r \<noteq> [] \<and> snd r \<noteq> []) (map (map_prod dict_fromkeys dict_fromkeys) relations)"

definition hyper_edges :: "('a list \<times> 'a list) list \<Rightarrow> ('a \<times> 'a) set" where
  "hyper_edges relations = (\<Union>(S, T) \<in> set relations. set S \<times> set T)"

lemma dict_fromkeys_Nil [simp]: "dict_fromkeys xs = [] \<longleftrightarrow> xs = []" by (simp add: dict_fromkeys_def)

lemma distinct_dict_fromkeys [simp]: "distinct (dict_fromkeys xs)" by (simp add: dict_fromkeys_def)

lemma hyper_edges_rows: "hyper_edges (hyper_rows relations) = hyper_edges relations"
  by (force simp: hyper_edges_def hyper_rows_def)

definition row_ok :: "'a set \<Rightarrow> 'a list \<times> 'a list \<Rightarrow> bool" where
  "row_ok V r = (distinct (fst r) \<and> distinct (snd r) \<and> fst r \<noteq> [] \<and> set (fst r) \<union> set (snd r) \<subseteq> V)"

text \<open>What the tables of a list of rows hold.\<close>

definition tables_of :: "('a list \<times> 'a list) list \<Rightarrow> 'a hyper_tables" where
  "tables_of rows =
     \<lparr>outgoing_relation_indices = (\<lambda>v. filter (\<lambda>i. v \<in> set (fst (rows ! i))) [0..<length rows]),
      incoming_relation_count = (\<lambda>v. int (length (filter (\<lambda>i. v \<in> set (snd (rows ! i))) [0..<length rows]))),
      relation_targets = map snd rows, unresolved_sources = map (\<lambda>r. int (length (fst r))) rows\<rparr>"

lemma fold_append_at: "distinct ss \<Longrightarrow> fold (\<lambda>s out. out(s := out s @ [i])) ss out v = (if v \<in> set ss then out v @ [i] else out v)"
  by (induction ss arbitrary: out) auto

lemma fold_count_at: "distinct ts \<Longrightarrow> fold (\<lambda>t inc. inc(t := inc t + 1)) ts inc v = (if v \<in> set ts then inc v + 1 else inc v :: int)"
  by (induction ts arbitrary: inc) auto

lemma filter_upt_snoc:
  "filter (\<lambda>i. P ((rows @ [r]) ! i)) [0..<length (rows @ [r])] =
   filter (\<lambda>i. P (rows ! i)) [0..<length rows] @ (if P r then [length rows] else [])"
proof -
  have "filter (\<lambda>i. P ((rows @ [r]) ! i)) [0..<length rows] = filter (\<lambda>i. P (rows ! i)) [0..<length rows]"
    by (rule filter_cong) (auto simp: nth_append)
  then show ?thesis by simp
qed

lemma add_relation_tables:
  assumes "distinct S" "distinct T"
  shows "add_relation S T (tables_of rows) = tables_of (rows @ [(S, T)])"
  unfolding add_relation_def tables_of_def Let_def hyper_tables.select_convs filter_upt_snoc [where P = "\<lambda>r. _ \<in> set (fst r)"]
    filter_upt_snoc [where P = "\<lambda>r. _ \<in> set (snd r)"]
  using assms by (simp add: fun_eq_iff fold_append_at fold_count_at)

lemma build_tables_rows:
  assumes "\<forall>(S, T) \<in> set relations. set S \<union> set T \<subseteq> set nodes"
  shows "build_tables nodes relations (tables_of rows) = Inr (tables_of (rows @ hyper_rows relations))"
  using assms
proof (induction relations arbitrary: rows)
  case (Cons r relations)
  obtain S T where r: "r = (S, T)" by (cases r)
  have known: "set S \<subseteq> set nodes" "set T \<subseteq> set nodes" using Cons.prems r by auto
  have rest: "\<forall>(S, T) \<in> set relations. set S \<union> set T \<subseteq> set nodes" using Cons.prems by simp
  show ?case
    using known Cons.IH [OF rest, of rows] Cons.IH [OF rest, of "rows @ [(dict_fromkeys S, dict_fromkeys T)]"]
    by (auto simp: r Let_def hyper_rows_def add_relation_tables)
qed (simp add: hyper_rows_def)

lemma build_tables_unknown:
  assumes "\<exists>(S, T) \<in> set relations. \<not> set S \<union> set T \<subseteq> set nodes"
  shows "build_tables nodes relations tb = Inl ValueError"
  using assms
proof (induction relations arbitrary: tb)
  case (Cons r relations)
  obtain S T where r: "r = (S, T)" by (cases r)
  show ?case
  proof (cases "set S \<union> set T \<subseteq> set nodes")
    case True
    then have "\<exists>(S, T) \<in> set relations. \<not> set S \<union> set T \<subseteq> set nodes" using Cons.prems r by auto
    then show ?thesis by (simp add: r Let_def Cons.IH)
  qed (auto simp: r Let_def)
qed simp

section \<open>The counters of the loop\<close>

definition released :: "('a list \<times> 'a list) list \<Rightarrow> 'a set \<Rightarrow> nat set" where
  "released rows D = {i. i < length rows \<and> set (fst (rows ! i)) \<subseteq> D}"

definition open_count :: "('a list \<times> 'a list) list \<Rightarrow> nat set \<Rightarrow> 'a \<Rightarrow> int" where
  "open_count rows Rel v = int (card {i. i < length rows \<and> v \<in> set (snd (rows ! i)) \<and> i \<notin> Rel})"

lemma open_count_zero: "open_count rows Rel v = 0 \<longleftrightarrow> (\<forall>i < length rows. v \<in> set (snd (rows ! i)) \<longrightarrow> i \<in> Rel)"
  by (auto simp: open_count_def)

lemma open_count_insert:
  assumes "i < length rows" "i \<notin> Rel"
  shows "open_count rows (insert i Rel) v = (if v \<in> set (snd (rows ! i)) then open_count rows Rel v - 1 else open_count rows Rel v)"
    and "v \<in> set (snd (rows ! i)) \<Longrightarrow> 1 \<le> open_count rows Rel v"
proof -
  let ?A = "{i. i < length rows \<and> v \<in> set (snd (rows ! i)) \<and> i \<notin> Rel}"
  have fin: "finite ?A" by simp
  have eq: "{j. j < length rows \<and> v \<in> set (snd (rows ! j)) \<and> j \<notin> insert i Rel} = ?A - {i}" by auto
  have pos: "1 \<le> card ?A" if "v \<in> set (snd (rows ! i))"
  proof -
    have "i \<in> ?A" using assms that by simp
    then have "?A \<noteq> {}" by blast
    then show ?thesis using fin by (simp add: Suc_le_eq card_gt_0_iff)
  qed
  show "open_count rows (insert i Rel) v = (if v \<in> set (snd (rows ! i)) then open_count rows Rel v - 1 else open_count rows Rel v)"
    unfolding open_count_def eq using pos assms fin by (simp add: card_Diff_singleton_if of_nat_diff)
  show "v \<in> set (snd (rows ! i)) \<Longrightarrow> 1 \<le> open_count rows Rel v"
    unfolding open_count_def using pos by linarith
qed

lemma release_targets_counts:
  assumes "distinct targets" "\<forall>t \<in> set targets. 1 \<le> inc t"
  shows "release_targets targets inc ready =
    Inr ((\<lambda>v. if v \<in> set targets then inc v - 1 else inc v), ready @ filter (\<lambda>t. inc t = 1) targets)"
  using assms
proof (induction targets arbitrary: inc ready)
  case (Cons t ts)
  define inc' where "inc' = inc(t := inc t - 1)"
  have upd: "\<forall>u \<in> set ts. 1 \<le> inc' u" using Cons.prems by (auto simp: inc'_def)
  have same: "filter (\<lambda>u. inc' u = 1) ts = filter (\<lambda>u. inc u = 1) ts"
    using Cons.prems by (intro filter_cong) (auto simp: inc'_def)
  have "release_targets (t # ts) inc ready = release_targets ts inc' (if inc t = 1 then ready @ [t] else ready)"
    using Cons.prems by (simp add: Let_def inc'_def)
  also have "\<dots> = Inr ((\<lambda>v. if v \<in> set ts then inc' v - 1 else inc' v),
      (if inc t = 1 then ready @ [t] else ready) @ filter (\<lambda>u. inc u = 1) ts)"
    using Cons.IH [OF _ upd, of "if inc t = 1 then ready @ [t] else ready"] Cons.prems(1) same by simp
  finally show ?case using Cons.prems by (auto simp: fun_eq_iff inc'_def)
qed simp

lemma resolve_sources_counts:
  assumes rows: "\<forall>r \<in> set rows. row_ok V r" and n: "n \<notin> D"
  shows "distinct is \<Longrightarrow> \<forall>i \<in> set is. i < length rows \<and> n \<in> set (fst (rows ! i)) \<Longrightarrow> length unresolved = length rows \<Longrightarrow>
    \<forall>i \<in> set is. unresolved ! i = int (card (set (fst (rows ! i)) - D)) \<Longrightarrow> Rel \<inter> set is = {} \<Longrightarrow>
    \<exists>unresolved' new. resolve_sources (map snd rows) is unresolved (open_count rows Rel) ready =
        Inr (unresolved', open_count rows (Rel \<union> {i \<in> set is. set (fst (rows ! i)) \<subseteq> insert n D}), ready @ new) \<and>
      length unresolved' = length rows \<and>
      (\<forall>i < length rows. unresolved' ! i = (if i \<in> set is then int (card (set (fst (rows ! i)) - insert n D)) else unresolved ! i)) \<and>
      distinct new \<and>
      set new = {v. open_count rows Rel v \<noteq> 0 \<and> open_count rows (Rel \<union> {i \<in> set is. set (fst (rows ! i)) \<subseteq> insert n D}) v = 0}"
proof (induction "is" arbitrary: unresolved Rel ready)
  case (Cons i "is")
  let ?S = "set (fst (rows ! i))" and ?T = "snd (rows ! i)"
  have i: "i < length rows" "n \<in> ?S" "i \<notin> set is" "i \<notin> Rel" using Cons.prems by auto
  have row: "row_ok V (rows ! i)" using rows i(1) by simp
  define remaining where "remaining = unresolved ! i - 1"
  have "?S - insert n D = (?S - D) - {n}" by blast
  moreover have "0 < card (?S - D)" using i(2) n by (simp add: card_gt_0_iff) blast
  ultimately have rem: "remaining = int (card (?S - insert n D))"
    using Cons.prems(4) i(2) n by (simp add: remaining_def card_Diff_singleton_if of_nat_diff)
  let ?un = "unresolved[i := remaining]"
  have un: "length ?un = length rows" "\<forall>j \<in> set is. ?un ! j = int (card (set (fst (rows ! j)) - D))" "?un ! i = remaining"
    using Cons.prems(3,4) i by (auto simp: nth_list_update)
  have dist: "distinct is" "\<forall>j \<in> set is. j < length rows \<and> n \<in> set (fst (rows ! j))" using Cons.prems by auto
  show ?case
  proof (cases "remaining = 0")
    case False
    then have no: "\<not> ?S \<subseteq> insert n D" using rem by auto
    have "Rel \<inter> set is = {}" using Cons.prems(5) by auto
    from Cons.IH [OF dist un(1,2) this, of ready] obtain un' new where IH:
      "resolve_sources (map snd rows) is ?un (open_count rows Rel) ready =
        Inr (un', open_count rows (Rel \<union> {j \<in> set is. set (fst (rows ! j)) \<subseteq> insert n D}), ready @ new)"
      "length un' = length rows"
      "\<forall>j < length rows. un' ! j = (if j \<in> set is then int (card (set (fst (rows ! j)) - insert n D)) else ?un ! j)"
      "distinct new"
      "set new = {v. open_count rows Rel v \<noteq> 0 \<and> open_count rows (Rel \<union> {j \<in> set is. set (fst (rows ! j)) \<subseteq> insert n D}) v = 0}"
      by blast
    have eq: "{j \<in> set (i # is). set (fst (rows ! j)) \<subseteq> insert n D} = {j \<in> set is. set (fst (rows ! j)) \<subseteq> insert n D}"
      using no by auto
    have "resolve_sources (map snd rows) (i # is) unresolved (open_count rows Rel) ready =
        resolve_sources (map snd rows) is ?un (open_count rows Rel) ready"
      using False rem by (simp add: Let_def remaining_def [symmetric])
    moreover have "un' ! j = (if j \<in> set (i # is) then int (card (set (fst (rows ! j)) - insert n D)) else unresolved ! j)"
      if "j < length rows" for j using IH(3) that rem i(3) un(3) by (auto simp: nth_list_update)
    ultimately show ?thesis unfolding eq using IH(1,2,4,5) by auto
  next
    case True
    then have yes: "?S \<subseteq> insert n D" using rem by simp
    let ?inc = "open_count rows Rel" and ?inc' = "open_count rows (insert i Rel)"
    have rel: "release_targets ?T ?inc ready = Inr (?inc', ready @ filter (\<lambda>t. ?inc t = 1) ?T)"
      using release_targets_counts [of ?T ?inc ready] row open_count_insert [OF i(1,4)] by (simp add: row_ok_def fun_eq_iff)
    have "insert i Rel \<inter> set is = {}" using Cons.prems(5) i(3) by auto
    from Cons.IH [OF dist un(1,2) this, of "ready @ filter (\<lambda>t. ?inc t = 1) ?T"] obtain un' new where IH:
      "resolve_sources (map snd rows) is ?un ?inc' (ready @ filter (\<lambda>t. ?inc t = 1) ?T) =
        Inr (un', open_count rows (insert i Rel \<union> {j \<in> set is. set (fst (rows ! j)) \<subseteq> insert n D}),
          (ready @ filter (\<lambda>t. ?inc t = 1) ?T) @ new)"
      "length un' = length rows"
      "\<forall>j < length rows. un' ! j = (if j \<in> set is then int (card (set (fst (rows ! j)) - insert n D)) else ?un ! j)"
      "distinct new"
      "set new = {v. ?inc' v \<noteq> 0 \<and> open_count rows (insert i Rel \<union> {j \<in> set is. set (fst (rows ! j)) \<subseteq> insert n D}) v = 0}"
      by blast
    have eq: "Rel \<union> {j \<in> set (i # is). set (fst (rows ! j)) \<subseteq> insert n D} =
        insert i Rel \<union> {j \<in> set is. set (fst (rows ! j)) \<subseteq> insert n D}"
      using yes by auto
    have step: "resolve_sources (map snd rows) (i # is) unresolved ?inc ready =
        resolve_sources (map snd rows) is ?un ?inc' (ready @ filter (\<lambda>t. ?inc t = 1) ?T)"
      using True rel i(1) by (simp add: Let_def remaining_def [symmetric])
    have un': "un' ! j = (if j \<in> set (i # is) then int (card (set (fst (rows ! j)) - insert n D)) else unresolved ! j)"
      if "j < length rows" for j using IH(3) that rem i(3) un(3) by (auto simp: nth_list_update)
    have one: "t \<in> set (filter (\<lambda>t. ?inc t = 1) ?T) \<longleftrightarrow> ?inc t \<noteq> 0 \<and> ?inc' t = 0" for t
      using open_count_insert [OF i(1,4), of t] by auto
    have mono: "?inc' t = 0 \<Longrightarrow> open_count rows (insert i Rel \<union> X) t = 0" for t X
      by (auto simp: open_count_zero)
    have mono': "?inc' t \<noteq> 0 \<Longrightarrow> ?inc t \<noteq> 0" for t by (auto simp: open_count_zero)
    have new: "distinct (filter (\<lambda>t. ?inc t = 1) ?T @ new)"
      using row IH(4,5) one by (auto simp: row_ok_def)
    have "set (filter (\<lambda>t. ?inc t = 1) ?T @ new) =
        {v. ?inc v \<noteq> 0 \<and> open_count rows (insert i Rel \<union> {j \<in> set is. set (fst (rows ! j)) \<subseteq> insert n D}) v = 0}"
      unfolding set_append IH(5) using one mono mono' by blast
    with new IH(1,2) un' show ?thesis unfolding eq step by auto
  qed
qed simp

section \<open>The loop\<close>

definition hyper_inv :: "'a set \<Rightarrow> ('a list \<times> 'a list) list \<Rightarrow> int list \<Rightarrow> 'a list \<Rightarrow> 'a list \<Rightarrow> bool" where
  "hyper_inv V rows unresolved ready ordered =
     (distinct (ordered @ ready) \<and>
      set (ordered @ ready) = {v \<in> V. open_count rows (released rows (set ordered)) v = 0} \<and>
      length unresolved = length rows \<and>
      (\<forall>i < length rows. unresolved ! i = int (card (set (fst (rows ! i)) - set ordered))) \<and>
      topo_sound (hyper_edges rows) ordered)"

lemma hyper_edge_row: "(u, v) \<in> hyper_edges rows \<longleftrightarrow> (\<exists>i < length rows. u \<in> set (fst (rows ! i)) \<and> v \<in> set (snd (rows ! i)))"
  by (force simp: hyper_edges_def in_set_conv_nth)

lemma released_insert:
  "released rows (insert n D) = released rows D \<union>
     {i \<in> set (outgoing_relation_indices (tables_of rows) n). set (fst (rows ! i)) \<subseteq> insert n D}"
  by (auto simp: released_def tables_of_def)

lemma hyper_step:
  assumes rows: "\<forall>r \<in> set rows. row_ok V r" and inv: "hyper_inv V rows unresolved (n # rest) ordered"
  shows "\<exists>unresolved' ready'. resolve_sources (map snd rows) (outgoing_relation_indices (tables_of rows) n) unresolved
      (open_count rows (released rows (set ordered))) rest =
        Inr (unresolved', open_count rows (released rows (set (ordered @ [n]))), ready') \<and>
      hyper_inv V rows unresolved' ready' (ordered @ [n])"
proof -
  let ?D = "set ordered" and ?out = "outgoing_relation_indices (tables_of rows) n"
  let ?Rel = "released rows ?D" and ?Rel' = "released rows (insert n ?D)"
  have I: "distinct (ordered @ n # rest)" "set (ordered @ n # rest) = {v \<in> V. open_count rows ?Rel v = 0}"
    "length unresolved = length rows" "\<And>i. i < length rows \<Longrightarrow> unresolved ! i = int (card (set (fst (rows ! i)) - ?D))"
    "topo_sound (hyper_edges rows) ordered"
    using inv unfolding hyper_inv_def by blast+
  have n: "n \<notin> ?D" "open_count rows ?Rel n = 0" using I(1,2) by auto
  have out: "distinct ?out" "\<forall>i \<in> set ?out. i < length rows \<and> n \<in> set (fst (rows ! i))"
    "\<forall>i \<in> set ?out. unresolved ! i = int (card (set (fst (rows ! i)) - ?D))" "?Rel \<inter> set ?out = {}"
    using I(4) n(1) by (auto simp: tables_of_def released_def)
  obtain un' new where res: "resolve_sources (map snd rows) ?out unresolved (open_count rows ?Rel) rest =
      Inr (un', open_count rows ?Rel', rest @ new)" "length un' = length rows"
    "\<forall>i < length rows. un' ! i = (if i \<in> set ?out then int (card (set (fst (rows ! i)) - insert n ?D)) else unresolved ! i)"
    "distinct new" "set new = {v. open_count rows ?Rel v \<noteq> 0 \<and> open_count rows ?Rel' v = 0}"
    using resolve_sources_counts [OF rows n(1) out(1,2) I(3) out(3,4), of rest] unfolding released_insert [symmetric] by blast
  have "hyper_inv V rows un' (rest @ new) (ordered @ [n])"
    unfolding hyper_inv_def
  proof (intro conjI)
    have old: "set (ordered @ n # rest) \<inter> set new = {}" unfolding I(2) res(5) by blast
    then show "distinct ((ordered @ [n]) @ rest @ new)" using I(1) res(4) by auto
    have "?Rel \<subseteq> ?Rel'" by (auto simp: released_def)
    then have mono: "open_count rows ?Rel v = 0 \<Longrightarrow> open_count rows ?Rel' v = 0" for v by (auto simp: open_count_zero)
    have inV: "v \<in> V" if "open_count rows ?Rel v \<noteq> 0" for v
      using that rows by (force simp: open_count_zero row_ok_def)
    have "set ((ordered @ [n]) @ rest @ new) = set (ordered @ n # rest) \<union> set new" by auto
    also have "\<dots> = {v \<in> V. open_count rows ?Rel' v = 0}" unfolding I(2) res(5) using mono inV by blast
    finally show "set ((ordered @ [n]) @ rest @ new) = {v \<in> V. open_count rows (released rows (set (ordered @ [n]))) v = 0}" by simp
    show "length un' = length rows" by (rule res(2))
    show "\<forall>i < length rows. un' ! i = int (card (set (fst (rows ! i)) - set (ordered @ [n])))"
    proof (intro allI impI)
      fix i assume i: "i < length rows"
      show "un' ! i = int (card (set (fst (rows ! i)) - set (ordered @ [n])))"
      proof (cases "i \<in> set ?out")
        case False
        then have "n \<notin> set (fst (rows ! i))" using i by (simp add: tables_of_def)
        then have "set (fst (rows ! i)) - set (ordered @ [n]) = set (fst (rows ! i)) - ?D" by auto
        then show ?thesis using res(3) I(4) i False by simp
      qed (use res(3) i in simp)
    qed
    show "topo_sound (hyper_edges rows) (ordered @ [n])"
    proof (rule topo_sound_snoc [OF I(5)])
      fix u assume "(u, n) \<in> hyper_edges rows"
      then show "u \<in> ?D" using n(2) unfolding hyper_edge_row open_count_zero released_def by blast
    qed
  qed
  then show ?thesis using res(1) by auto
qed

lemma hyper_loop_finishes:
  assumes rows: "\<forall>r \<in> set rows. row_ok V r" and V: "finite V"
  shows "hyper_inv V rows unresolved ready ordered \<Longrightarrow>
    \<exists>un' r. hyper_loop (outgoing_relation_indices (tables_of rows)) (map snd rows) unresolved
        (open_count rows (released rows (set ordered))) ready ordered = Some (Inr r) \<and> hyper_inv V rows un' [] r"
proof (induction "card (V - set ordered)" arbitrary: unresolved ready ordered rule: less_induct)
  case less
  show ?case
  proof (cases ready)
    case Nil
    then show ?thesis using less.prems by (subst hyper_loop.simps) auto
  next
    case (Cons n rest)
    then have inv: "hyper_inv V rows unresolved (n # rest) ordered" using less.prems by simp
    obtain un' ready' where step: "resolve_sources (map snd rows) (outgoing_relation_indices (tables_of rows) n) unresolved
        (open_count rows (released rows (set ordered))) rest =
          Inr (un', open_count rows (released rows (set (ordered @ [n]))), ready')"
      "hyper_inv V rows un' ready' (ordered @ [n])"
      using hyper_step [OF rows inv] by blast
    have "n \<in> set (ordered @ n # rest)" by simp
    then have "n \<in> V" using inv unfolding hyper_inv_def by blast
    moreover have "n \<notin> set ordered" using inv unfolding hyper_inv_def by simp
    ultimately have "card (V - set (ordered @ [n])) < card (V - set ordered)" using V by (intro psubset_card_mono) auto
    from less.hyps [OF this step(2)] show ?thesis
      using Cons step(1) by (subst hyper_loop.simps) simp
  qed
qed

section \<open>The operation\<close>

lemma hyper_rows_ok:
  assumes "\<forall>(S, T) \<in> set relations. set S \<union> set T \<subseteq> V"
  shows "\<forall>r \<in> set (hyper_rows relations). row_ok V r"
  using assms by (force simp: hyper_rows_def row_ok_def)

lemma tables_initial:
  assumes "\<forall>r \<in> set rows. row_ok (set nodes) r" "distinct nodes"
  shows "incoming_relation_count (tables_of rows) = open_count rows (released rows {})"
    and "hyper_inv (set nodes) rows (unresolved_sources (tables_of rows)) (filter (\<lambda>v. incoming_relation_count (tables_of rows) v = 0) nodes) []"
proof -
  have none: "released rows {} = {}" using assms(1) by (force simp: released_def row_ok_def)
  have "length (filter (\<lambda>i. v \<in> set (snd (rows ! i))) [0..<length rows]) = card {i. i < length rows \<and> v \<in> set (snd (rows ! i))}" for v
  proof -
    have "length (filter (\<lambda>i. v \<in> set (snd (rows ! i))) [0..<length rows]) =
        card (set (filter (\<lambda>i. v \<in> set (snd (rows ! i))) [0..<length rows]))"
      by (rule distinct_card [symmetric]) simp
    also have "set (filter (\<lambda>i. v \<in> set (snd (rows ! i))) [0..<length rows]) = {i. i < length rows \<and> v \<in> set (snd (rows ! i))}" by auto
    finally show ?thesis .
  qed
  then show inc: "incoming_relation_count (tables_of rows) = open_count rows (released rows {})"
    by (simp add: tables_of_def open_count_def none fun_eq_iff)
  have len: "length (fst (rows ! i)) = card (set (fst (rows ! i)))" if "i < length rows" for i
    using assms(1) nth_mem [OF that] by (metis distinct_card row_ok_def)
  show "hyper_inv (set nodes) rows (unresolved_sources (tables_of rows)) (filter (\<lambda>v. incoming_relation_count (tables_of rows) v = 0) nodes) []"
    unfolding inc hyper_inv_def using assms(2) len by (auto simp: tables_of_def topo_sound_def)
qed

lemma hypergraph_order_runs:
  assumes nodes: "distinct nodes" and known: "\<forall>(S, T) \<in> set relations. set S \<union> set T \<subseteq> set nodes"
  shows "\<exists>un r. hyper_inv (set nodes) (hyper_rows relations) un [] r \<and>
    deterministic_hypergraph_topological_order nodes relations = Some (if length r \<noteq> length nodes then Inl ValueError else Inr r)"
proof -
  let ?rows = "hyper_rows relations"
  note ok = hyper_rows_ok [OF known]
  note init = tables_initial [OF ok nodes]
  have empty: "\<lparr>outgoing_relation_indices = (\<lambda>_. []), incoming_relation_count = (\<lambda>_. 0), relation_targets = [], unresolved_sources = []\<rparr> = tables_of []"
    by (simp add: tables_of_def)
  have tb: "build_tables nodes relations (tables_of []) = Inr (tables_of ?rows)"
    using build_tables_rows [OF known, of "[]"] by simp
  have tgt: "relation_targets (tables_of ?rows) = map snd ?rows" by (simp add: tables_of_def)
  from hyper_loop_finishes [OF ok finite_set init(2)] obtain un r where
    r: "hyper_loop (outgoing_relation_indices (tables_of ?rows)) (relation_targets (tables_of ?rows)) (unresolved_sources (tables_of ?rows))
        (incoming_relation_count (tables_of ?rows)) (filter (\<lambda>v. incoming_relation_count (tables_of ?rows) v = 0) nodes) [] = Some (Inr r)"
      "hyper_inv (set nodes) ?rows un [] r"
    unfolding tgt init(1) by auto
  have "deterministic_hypergraph_topological_order nodes relations = Some (if length r \<noteq> length nodes then Inl ValueError else Inr r)"
    unfolding deterministic_hypergraph_topological_order_def empty tb using nodes r(1) by simp
  with r(2) show ?thesis by blast
qed

lemma hyper_stuck_cyclic:
  assumes ok: "\<forall>r \<in> set rows. row_ok V r" and V: "finite V" and inv: "hyper_inv V rows un [] r" and acyclic: "acyclic (hyper_edges rows)"
  shows "set r = V"
proof (rule ccontr)
  assume "set r \<noteq> V"
  have r: "set r = {v \<in> V. open_count rows (released rows (set r)) v = 0}" using inv unfolding hyper_inv_def by simp
  then obtain v where v: "v \<in> V - set r" using \<open>set r \<noteq> V\<close> by blast
  have sub: "hyper_edges rows \<subseteq> V \<times> V" using ok by (force simp: hyper_edges_def row_ok_def)
  then have "finite (hyper_edges rows)" using V by (meson finite_SigmaI finite_subset)
  then have "wf (hyper_edges rows)" using acyclic by (rule finite_acyclic_wf)
  then obtain z where z: "z \<in> V - set r" "\<And>y. (y, z) \<in> hyper_edges rows \<Longrightarrow> y \<notin> V - set r" using v by (metis wfE_min)
  have "y \<in> set r" if "(y, z) \<in> hyper_edges rows" for y using z(2) [OF that] sub that by blast
  then have "open_count rows (released rows (set r)) z = 0"
    unfolding open_count_zero released_def hyper_edge_row by blast
  then show False using r z(1) by blast
qed

lemma hypergraph_order_acyclic:
  assumes nodes: "distinct nodes" and known: "\<forall>(S, T) \<in> set relations. set S \<union> set T \<subseteq> set nodes"
    and acyclic: "acyclic (hyper_edges relations)"
  shows "\<exists>r. deterministic_hypergraph_topological_order nodes relations = Some (Inr r) \<and>
    topo_sound (hyper_edges relations) r \<and> distinct r \<and> set r = set nodes"
proof -
  obtain un r where r: "hyper_inv (set nodes) (hyper_rows relations) un [] r"
    "deterministic_hypergraph_topological_order nodes relations = Some (if length r \<noteq> length nodes then Inl ValueError else Inr r)"
    using hypergraph_order_runs [OF nodes known] by blast
  have all: "set r = set nodes"
    by (rule hyper_stuck_cyclic [OF hyper_rows_ok [OF known] finite_set r(1)]) (use acyclic in \<open>simp add: hyper_edges_rows\<close>)
  have snd: "distinct r" "topo_sound (hyper_edges relations) r" using r(1) unfolding hyper_inv_def hyper_edges_rows by simp_all
  have "length r = length nodes" using nodes snd(1) all by (metis distinct_card)
  with r(2) snd all show ?thesis by simp
qed

lemma hypergraph_order_cyclic:
  assumes nodes: "distinct nodes" and known: "\<forall>(S, T) \<in> set relations. set S \<union> set T \<subseteq> set nodes"
    and cyclic: "\<not> acyclic (hyper_edges relations)"
  shows "deterministic_hypergraph_topological_order nodes relations = Some (Inl ValueError)"
proof -
  obtain un r where r: "hyper_inv (set nodes) (hyper_rows relations) un [] r"
    "deterministic_hypergraph_topological_order nodes relations = Some (if length r \<noteq> length nodes then Inl ValueError else Inr r)"
    using hypergraph_order_runs [OF nodes known] by blast
  have snd: "distinct r" "topo_sound (hyper_edges relations) r" "set r \<subseteq> set nodes"
    using r(1) unfolding hyper_inv_def hyper_edges_rows by auto
  have "length r \<noteq> length nodes"
  proof
    assume "length r = length nodes"
    then have "set r = set nodes" using snd(1,3) nodes by (metis List.finite_set card_subset_eq distinct_card)
    moreover have "hyper_edges relations \<subseteq> set nodes \<times> set nodes" using known by (force simp: hyper_edges_def)
    ultimately show False using topo_sound_acyclic [OF snd(2,1)] cyclic by simp
  qed
  with r(2) show ?thesis by simp
qed

lemma hypergraph_order_rejects:
  assumes "\<not> distinct nodes \<or> (\<exists>(S, T) \<in> set relations. \<not> set S \<union> set T \<subseteq> set nodes)"
  shows "deterministic_hypergraph_topological_order nodes relations = Some (Inl ValueError)"
  using assms build_tables_unknown [of relations nodes] by (auto simp: deterministic_hypergraph_topological_order_def)

end
