(* ===== verification/DirAuthority.thy ===== *)
theory DirAuthority
  imports Authority JournalCodec Delivery Service
begin

text \<open>
  The durable authority \<^verbatim>\<open>DirectoryMachineAuthority\<close> of \<^verbatim>\<open>kernel/authority.py\<close>: one
  document per machine, named by the digest of the machine id, and one for the clock anchor.  A file
  holds the canonical bytes of its document.  The interprocess guard is outside the model: a call
  runs alone.  \<^verbatim>\<open>str(...)\<close> of a JSON value is the parameter \<open>pystr\<close>, of which the properties
  only use that text is returned unchanged.  A lease file whose times are not floats is never
  written by this code; the model refuses it.
\<close>

section \<open>Documents\<close>

definition lease_document :: "lease \<Rightarrow> json" where
  "lease_document l = jobj
     [(''machine_id'', JStr (lease_machine_id l)),
      (''owner_id'', JStr (lease_owner_id l)),
      (''epoch'', JInt (lease_epoch l)),
      (''acquired_at'', JFloat (lease_acquired_at l)),
      (''expires_at'', JFloat (lease_expires_at l)),
      (''host_identity_digest'', JStr (lease_host l)),
      (''boot_identity_digest'', JStr (lease_boot l)),
      (''released'', JBool (lease_released l)),
      (''lease_digest'', JStr (lease_digest l))]"

definition lease_fields :: "string list" where
  "lease_fields = [''machine_id'', ''owner_id'', ''epoch'', ''acquired_at'', ''expires_at'', ''host_identity_digest'',
     ''boot_identity_digest'', ''released'', ''lease_digest'']"

definition float_field :: "json \<Rightarrow> rat res" where
  "float_field v = (case v of JFloat q \<Rightarrow> Inr q | _ \<Rightarrow> Inl TypeError)"

definition int_field :: "json \<Rightarrow> int res" where
  "int_field v = (case v of JInt n \<Rightarrow> Inr n | _ \<Rightarrow> Inl ValueError)"

definition bool_field :: "json \<Rightarrow> bool res" where
  "bool_field v = (case v of JBool b \<Rightarrow> Inr b | _ \<Rightarrow> Inl TypeError)"

definition decode_lease :: "hostlib \<Rightarrow> (json \<Rightarrow> string) \<Rightarrow> json \<Rightarrow> lease res" where
  "decode_lease L pystr value =
     res_bind (require_object value) (\<lambda>raw.
     res_bind (require_exact raw lease_fields) (\<lambda>_.
     res_bind (field_of raw ''machine_id'') (\<lambda>machine_id.
     res_bind (field_of raw ''owner_id'') (\<lambda>owner_id.
     res_bind (res_bind (field_of raw ''epoch'') int_field) (\<lambda>epoch.
     res_bind (res_bind (field_of raw ''acquired_at'') float_field) (\<lambda>acquired_at.
     res_bind (res_bind (field_of raw ''expires_at'') float_field) (\<lambda>expires_at.
     res_bind (field_of raw ''host_identity_digest'') (\<lambda>host.
     res_bind (field_of raw ''boot_identity_digest'') (\<lambda>boot.
     res_bind (res_bind (field_of raw ''released'') bool_field) (\<lambda>released.
     res_bind (lease_post_init L
       \<lparr>lease_machine_id = pystr machine_id, lease_owner_id = pystr owner_id, lease_epoch = epoch,
        lease_acquired_at = acquired_at, lease_expires_at = expires_at, lease_host = pystr host,
        lease_boot = pystr boot, lease_released = released, lease_digest = []\<rparr>) (\<lambda>l.
     res_bind (require (map_of raw ''lease_digest'' = Some (JStr (lease_digest l))) MachineAuthorityError) (\<lambda>_.
     Inr l))))))))))))"

definition anchor_document :: "clock_anchor \<Rightarrow> json" where
  "anchor_document c = jobj
     [(''host_identity_digest'', JStr (anc_host c)),
      (''boot_identity_digest'', JStr (anc_boot c)),
      (''elapsed_seconds'', JFloat (anc_elapsed c)),
      (''logical_epoch_seconds'', JFloat (anc_logical c))]"

text \<open>\<^verbatim>\<open>float(...)\<close> of a JSON number; text is not written by this code and refused.\<close>

definition float_value :: "json \<Rightarrow> rat res" where
  "float_value v = (case v of JFloat q \<Rightarrow> Inr q | JInt n \<Rightarrow> Inr (of_int n) | JBool b \<Rightarrow> Inr (if b then 1 else 0) | _ \<Rightarrow> Inl TypeError)"

definition anchor_checks :: "clock_anchor \<Rightarrow> clock_anchor res" where
  "anchor_checks c =
     res_bind (require (is_sha256 (anc_host c) \<and> is_sha256 (anc_boot c)) ValueError) (\<lambda>_.
     res_bind (require (0 \<le> anc_elapsed c \<and> 0 < anc_logical c) ValueError) (\<lambda>_. Inr c))"

definition decode_anchor :: "(json \<Rightarrow> string) \<Rightarrow> json \<Rightarrow> clock_anchor res" where
  "decode_anchor pystr value =
     res_bind (require_object value) (\<lambda>raw.
     res_bind (require_exact raw [''host_identity_digest'', ''boot_identity_digest'', ''elapsed_seconds'',
       ''logical_epoch_seconds'']) (\<lambda>_.
     res_bind (field_of raw ''host_identity_digest'') (\<lambda>host.
     res_bind (field_of raw ''boot_identity_digest'') (\<lambda>boot.
     res_bind (res_bind (field_of raw ''elapsed_seconds'') float_value) (\<lambda>elapsed.
     res_bind (res_bind (field_of raw ''logical_epoch_seconds'') float_value) (\<lambda>logical.
     anchor_checks \<lparr>anc_host = pystr host, anc_boot = pystr boot, anc_elapsed = elapsed, anc_logical = logical\<rparr>))))))"

section \<open>The authority\<close>

record dir_authority =
  da_leases :: "string \<rightharpoonup> json"
  da_anchor :: "json option"

definition lease_path :: "hostlib \<Rightarrow> string \<Rightarrow> string" where
  "lease_path L machine_id = canonical_digest L (JStr machine_id)"

definition read_clock_anchor :: "(json \<Rightarrow> string) \<Rightarrow> dir_authority \<Rightarrow> clock_anchor option res" where
  "read_clock_anchor pystr d =
     (case da_anchor d of
        None \<Rightarrow> Inr None
      | Some v \<Rightarrow> (case decode_anchor pystr v of Inl _ \<Rightarrow> Inl MachineLeaseClockConflict | Inr c \<Rightarrow> Inr (Some c)))"

definition write_clock_anchor :: "clock_reading \<Rightarrow> (dir_authority, rat) action" where
  "write_clock_anchor reading d =
     (case anchor_from_reading reading of
        Inl e \<Rightarrow> (Inl e, d)
      | Inr anchor \<Rightarrow> (Inr (anc_logical anchor), d\<lparr>da_anchor := Some (anchor_document anchor)\<rparr>))"

definition dir_authority_now :: "(json \<Rightarrow> string) \<Rightarrow> clock_reading \<Rightarrow> (dir_authority, rat) action" where
  "dir_authority_now pystr reading d =
     (case read_clock_anchor pystr d of
        Inl e \<Rightarrow> (Inl e, d)
      | Inr None \<Rightarrow> write_clock_anchor reading d
      | Inr (Some anchor) \<Rightarrow>
          if anc_host anchor \<noteq> rd_host reading then (Inl MachineLeaseClockConflict, d)
          else if anc_boot anchor \<noteq> rd_boot reading then write_clock_anchor reading d
          else if rd_elapsed reading < anc_elapsed anchor then (Inl MachineLeaseClockConflict, d)
          else (Inr (anc_logical anchor + (rd_elapsed reading - anc_elapsed anchor)), d))"

definition read_lease :: "hostlib \<Rightarrow> (json \<Rightarrow> string) \<Rightarrow> dir_authority \<Rightarrow> string \<Rightarrow> lease option res" where
  "read_lease L pystr d machine_id =
     (case da_leases d (lease_path L machine_id) of
        None \<Rightarrow> Inr None
      | Some v \<Rightarrow> (case decode_lease L pystr v of Inl _ \<Rightarrow> Inl MachineAuthorityError | Inr l \<Rightarrow> Inr (Some l)))"

definition dir_store_lease :: "hostlib \<Rightarrow> string \<Rightarrow> lease \<Rightarrow> (dir_authority, lease) action" where
  "dir_store_lease L machine_id raw d =
     (case lease_post_init L raw of
        Inl e \<Rightarrow> (Inl e, d)
      | Inr l \<Rightarrow> (Inr l, d\<lparr>da_leases := (da_leases d)(lease_path L machine_id \<mapsto> lease_document l)\<rparr>))"

definition dir_acquire ::
    "hostlib \<Rightarrow> (json \<Rightarrow> string) \<Rightarrow> clock_reading \<Rightarrow> string \<Rightarrow> string \<Rightarrow> rat \<Rightarrow> (dir_authority, lease) action" where
  "dir_acquire L pystr reading machine_id owner_id ttl_seconds d =
     (if \<not> nonblank machine_id \<or> \<not> nonblank owner_id then (Inl ValueError, d)
      else case ttl_value ttl_seconds of
          Inl e \<Rightarrow> (Inl e, d)
        | Inr ttl \<Rightarrow> act_bind (dir_authority_now pystr reading) (\<lambda>now d1.
            case read_lease L pystr d1 machine_id of
              Inl e \<Rightarrow> (Inl e, d1)
            | Inr current \<Rightarrow>
                if (case current of None \<Rightarrow> False | Some c \<Rightarrow> is_live c now reading) then
                  (if lease_owner_id (the current) \<noteq> owner_id then (Inl MachineLeaseBusy, d1)
                   else (Inr (the current), d1))
                else dir_store_lease L machine_id \<lparr>lease_machine_id = machine_id, lease_owner_id = owner_id,
                    lease_epoch = (case current of None \<Rightarrow> 1 | Some c \<Rightarrow> lease_epoch c + 1),
                    lease_acquired_at = now, lease_expires_at = now + ttl,
                    lease_host = rd_host reading, lease_boot = rd_boot reading,
                    lease_released = False, lease_digest = []\<rparr> d1) d)"

text \<open>The shared guard of the other operations: the stored lease is exactly the caller's and live.\<close>

definition dir_held ::
    "hostlib \<Rightarrow> (json \<Rightarrow> string) \<Rightarrow> clock_reading \<Rightarrow> lease \<Rightarrow> rat \<Rightarrow> (dir_authority, unit) action" where
  "dir_held L pystr reading l now d =
     (case read_lease L pystr d (lease_machine_id l) of
        Inl e \<Rightarrow> (Inl e, d)
      | Inr current \<Rightarrow> if current = Some l \<and> is_live l now reading then (Inr (), d) else (Inl MachineLeaseLost, d))"

definition dir_renew ::
    "hostlib \<Rightarrow> (json \<Rightarrow> string) \<Rightarrow> clock_reading \<Rightarrow> lease \<Rightarrow> rat \<Rightarrow> (dir_authority, lease) action" where
  "dir_renew L pystr reading l ttl_seconds d =
     (case ttl_value ttl_seconds of
        Inl e \<Rightarrow> (Inl e, d)
      | Inr ttl \<Rightarrow> act_bind (dir_authority_now pystr reading) (\<lambda>now.
          act_bind (dir_held L pystr reading l now) (\<lambda>_.
          dir_store_lease L (lease_machine_id l) (l\<lparr>lease_expires_at := now + ttl, lease_host := rd_host reading,
            lease_boot := rd_boot reading, lease_released := False, lease_digest := []\<rparr>))) d)"

definition dir_assert_held ::
    "hostlib \<Rightarrow> (json \<Rightarrow> string) \<Rightarrow> clock_reading \<Rightarrow> lease \<Rightarrow> (dir_authority, lease) action" where
  "dir_assert_held L pystr reading l =
     act_bind (dir_authority_now pystr reading) (\<lambda>now.
     act_bind (dir_held L pystr reading l now) (\<lambda>_. act_lift (Inr l)))"

definition dir_release ::
    "hostlib \<Rightarrow> (json \<Rightarrow> string) \<Rightarrow> clock_reading \<Rightarrow> lease \<Rightarrow> (dir_authority, unit) action" where
  "dir_release L pystr reading l =
     act_bind (dir_authority_now pystr reading) (\<lambda>now.
     act_bind (dir_held L pystr reading l now) (\<lambda>_.
     act_bind (dir_store_lease L (lease_machine_id l) (l\<lparr>lease_released := True, lease_digest := []\<rparr>))
       (\<lambda>_. act_lift (Inr ()))))"

section \<open>Round trips\<close>

definition lease_ok :: "hostlib \<Rightarrow> lease \<Rightarrow> bool" where
  "lease_ok L l = (lease_post_init L l = Inr l)"

lemma lease_post_init_raw: "lease_post_init L (l\<lparr>lease_digest := []\<rparr>) = lease_post_init L l"
  by (simp add: lease_post_init_def)

lemma lease_post_init_ok: "lease_post_init L raw = Inr l \<Longrightarrow> lease_ok L l"
  by (auto simp: lease_ok_def lease_post_init_def res_simps)

lemma decode_lease_document:
  assumes "lease_ok L l" "str_of_text pystr"
  shows "decode_lease L pystr (lease_document l) = Inr l"
proof -
  have raw: "\<lparr>lease_machine_id = lease_machine_id l, lease_owner_id = lease_owner_id l, lease_epoch = lease_epoch l,
      lease_acquired_at = lease_acquired_at l, lease_expires_at = lease_expires_at l, lease_host = lease_host l,
      lease_boot = lease_boot l, lease_released = lease_released l, lease_digest = []\<rparr> = l\<lparr>lease_digest := []\<rparr>"
    by simp
  have init: "lease_post_init L (l\<lparr>lease_digest := []\<rparr>) = Inr l"
    unfolding lease_post_init_raw using assms(1) by (simp add: lease_ok_def)
  show ?thesis
    unfolding decode_lease_def lease_document_def
    using assms(2) by (simp add: field_of_jobj require_exact_jobj lease_fields_def str_of_text_def int_field_def
        float_field_def bool_field_def raw init map_of_jobj)
qed

lemma decode_anchor_document:
  assumes "anchor_checks c = Inr c" "str_of_text pystr"
  shows "decode_anchor pystr (anchor_document c) = Inr c"
proof -
  have raw: "\<lparr>anc_host = anc_host c, anc_boot = anc_boot c, anc_elapsed = anc_elapsed c, anc_logical = anc_logical c\<rparr> = c" by simp
  show ?thesis
    unfolding decode_anchor_def anchor_document_def
    using assms by (simp add: field_of_jobj require_exact_jobj str_of_text_def float_value_def raw)
qed

section \<open>The directory refines the in-memory authority\<close>

text \<open>
  The files represent the leases of a set of machines, no two of which share a file name, and the
  clock anchor.
\<close>

definition auth_files :: "hostlib \<Rightarrow> string set \<Rightarrow> dir_authority \<Rightarrow> authority \<Rightarrow> bool" where
  "auth_files L M d a =
     (inj_on (lease_path L) M \<and>
      (\<forall>m \<in> M. case auth_leases a m of
         None \<Rightarrow> da_leases d (lease_path L m) = None
       | Some l \<Rightarrow> da_leases d (lease_path L m) = Some (lease_document l) \<and> lease_ok L l \<and> lease_machine_id l = m) \<and>
      (case auth_anchor a of
         None \<Rightarrow> da_anchor d = None
       | Some c \<Rightarrow> da_anchor d = Some (anchor_document c) \<and> anchor_checks c = Inr c))"

lemma anchor_from_reading_ok: "anchor_from_reading reading = Inr c \<Longrightarrow> anchor_checks c = Inr c \<and> anc_logical c = rd_wall reading"
  by (auto simp: anchor_from_reading_def anchor_checks_def res_simps)

lemma write_clock_anchor_files:
  assumes "auth_files L M d a"
  shows "fst (write_clock_anchor reading d) =
      fst (case anchor_from_reading reading of Inl e \<Rightarrow> (Inl e, a) | Inr anchor \<Rightarrow> (Inr (rd_wall reading), a\<lparr>auth_anchor := Some anchor\<rparr>)) \<and>
    auth_files L M (snd (write_clock_anchor reading d))
      (snd (case anchor_from_reading reading of Inl e \<Rightarrow> (Inl e, a) | Inr anchor \<Rightarrow> (Inr (rd_wall reading), a\<lparr>auth_anchor := Some anchor\<rparr>)))"
  using assms anchor_from_reading_ok [of reading]
  by (cases "anchor_from_reading reading") (auto simp: write_clock_anchor_def auth_files_def cong: option.case_cong)

lemma dir_now_simulates:
  assumes str: "str_of_text pystr"
  shows "simulates (auth_files L M) (dir_authority_now pystr reading) (authority_now reading)"
  unfolding simulates_def
proof (intro allI impI)
  fix d a assume files: "auth_files L M d a"
  show "fst (dir_authority_now pystr reading d) = fst (authority_now reading a) \<and>
    auth_files L M (snd (dir_authority_now pystr reading d)) (snd (authority_now reading a))"
  proof (cases "auth_anchor a")
    case None
    then have "da_anchor d = None" using files by (simp add: auth_files_def)
    then show ?thesis
      using write_clock_anchor_files [OF files, of reading] None
      by (simp add: dir_authority_now_def read_clock_anchor_def authority_now_def)
  next
    case (Some c)
    then have "da_anchor d = Some (anchor_document c)" "anchor_checks c = Inr c" using files by (simp_all add: auth_files_def)
    then have "read_clock_anchor pystr d = Inr (Some c)"
      by (simp add: read_clock_anchor_def decode_anchor_document [OF _ str])
    then show ?thesis
      using write_clock_anchor_files [OF files, of reading] Some files
      by (simp add: dir_authority_now_def authority_now_def)
  qed
qed

lemma read_lease_files:
  assumes "str_of_text pystr" "auth_files L M d a" "m \<in> M"
  shows "read_lease L pystr d m = Inr (auth_leases a m)"
proof -
  have "case auth_leases a m of
         None \<Rightarrow> da_leases d (lease_path L m) = None
       | Some l \<Rightarrow> da_leases d (lease_path L m) = Some (lease_document l) \<and> lease_ok L l \<and> lease_machine_id l = m"
    using assms(2,3) by (simp add: auth_files_def)
  then show ?thesis
    using decode_lease_document [OF _ assms(1)] by (auto simp: read_lease_def split: option.splits)
qed

lemma store_lease_simulates:
  assumes "lease_machine_id raw = m" "m \<in> M"
  shows "simulates (auth_files L M) (dir_store_lease L m raw) (store_lease L raw)"
  unfolding simulates_def
proof (intro allI impI)
  fix d a assume files: "auth_files L M d a"
  show "fst (dir_store_lease L m raw d) = fst (store_lease L raw a) \<and>
    auth_files L M (snd (dir_store_lease L m raw d)) (snd (store_lease L raw a))"
  proof (cases "lease_post_init L raw")
    case (Inl e)
    then show ?thesis using files by (simp add: dir_store_lease_def store_lease_def)
  next
    case (Inr l)
    have m: "lease_machine_id l = m" using lease_post_init_Inr(1) [OF Inr] assms(1) by simp
    have ok: "lease_ok L l" by (rule lease_post_init_ok [OF Inr])
    let ?d = "d\<lparr>da_leases := (da_leases d)(lease_path L m \<mapsto> lease_document l)\<rparr>"
    let ?a = "a\<lparr>auth_leases := (auth_leases a)(m \<mapsto> l)\<rparr>"
    have "case auth_leases ?a k of
         None \<Rightarrow> da_leases ?d (lease_path L k) = None
       | Some x \<Rightarrow> da_leases ?d (lease_path L k) = Some (lease_document x) \<and> lease_ok L x \<and> lease_machine_id x = k" if "k \<in> M" for k
    proof (cases "k = m")
      case True
      then show ?thesis using m ok by simp
    next
      case False
      have inj: "inj_on (lease_path L) M" using files by (simp add: auth_files_def)
      have ne: "lease_path L k \<noteq> lease_path L m" using False inj_onD [OF inj] that assms(2) by blast
      have "case auth_leases a k of
         None \<Rightarrow> da_leases d (lease_path L k) = None
       | Some x \<Rightarrow> da_leases d (lease_path L k) = Some (lease_document x) \<and> lease_ok L x \<and> lease_machine_id x = k"
        using files that by (simp add: auth_files_def)
      then show ?thesis using False ne by (simp cong: option.case_cong)
    qed
    then have "auth_files L M ?d ?a" using files unfolding auth_files_def by (auto cong: option.case_cong)
    then show ?thesis using Inr m by (simp add: dir_store_lease_def store_lease_def)
  qed
qed

text \<open>The guard, and what follows it.\<close>

lemma held_simulates:
  assumes "str_of_text pystr" "lease_machine_id l \<in> M" "simulates (auth_files L M) f g"
  shows "simulates (auth_files L M) (act_bind (dir_held L pystr reading l now) (\<lambda>_. f))
    (\<lambda>a. if \<not> held_current a l now reading then (Inl MachineLeaseLost, a) else g a)"
  unfolding simulates_def
proof (intro allI impI)
  fix d a assume files: "auth_files L M d a"
  have "dir_held L pystr reading l now d = (if held_current a l now reading then Inr () else Inl MachineLeaseLost, d)"
    using read_lease_files [OF assms(1) files assms(2)] by (simp add: dir_held_def held_current_def)
  then show "fst (act_bind (dir_held L pystr reading l now) (\<lambda>_. f) d) =
      fst (if \<not> held_current a l now reading then (Inl MachineLeaseLost, a) else g a) \<and>
    auth_files L M (snd (act_bind (dir_held L pystr reading l now) (\<lambda>_. f) d))
      (snd (if \<not> held_current a l now reading then (Inl MachineLeaseLost, a) else g a))"
    using files simulatesD [OF assms(3) files] by (simp add: act_bind_def)
qed

lemma dir_acquire_simulates:
  assumes str: "str_of_text pystr" and m: "m \<in> M"
  shows "simulates (auth_files L M) (dir_acquire L pystr reading m owner ttl) (auth_acquire L reading m owner ttl)"
proof (cases "(\<not> nonblank m \<or> \<not> nonblank owner) \<or> ttl \<le> 0")
  case True
  then show ?thesis by (auto simp: simulates_def dir_acquire_def auth_acquire_def ttl_value_def)
next
  case False
  define f where "f now d1 = (case read_lease L pystr d1 m of
              Inl e \<Rightarrow> (Inl e, d1)
            | Inr current \<Rightarrow>
                if (case current of None \<Rightarrow> False | Some c \<Rightarrow> is_live c now reading) then
                  (if lease_owner_id (the current) \<noteq> owner then (Inl MachineLeaseBusy, d1)
                   else (Inr (the current), d1))
                else dir_store_lease L m \<lparr>lease_machine_id = m, lease_owner_id = owner,
                    lease_epoch = (case current of None \<Rightarrow> 1 | Some c \<Rightarrow> lease_epoch c + 1),
                    lease_acquired_at = now, lease_expires_at = now + ttl,
                    lease_host = rd_host reading, lease_boot = rd_boot reading,
                    lease_released = False, lease_digest = []\<rparr> d1)" for now d1
  define g where "g now a1 = (let current = auth_leases a1 m in
            if (case current of None \<Rightarrow> False | Some c \<Rightarrow> is_live c now reading) then
              (if lease_owner_id (the current) \<noteq> owner then (Inl MachineLeaseBusy, a1)
               else (Inr (the current), a1))
            else store_lease L \<lparr>lease_machine_id = m, lease_owner_id = owner,
                lease_epoch = (case current of None \<Rightarrow> 1 | Some c \<Rightarrow> lease_epoch c + 1),
                lease_acquired_at = now, lease_expires_at = now + ttl,
                lease_host = rd_host reading, lease_boot = rd_boot reading,
                lease_released = False, lease_digest = []\<rparr> a1)" for now a1
  have "simulates (auth_files L M) (f now) (g now)" for now
    unfolding simulates_def
  proof (intro allI impI)
    fix d a assume files: "auth_files L M d a"
    define raw where "raw = \<lparr>lease_machine_id = m, lease_owner_id = owner,
        lease_epoch = (case auth_leases a m of None \<Rightarrow> 1 | Some c \<Rightarrow> lease_epoch c + 1),
        lease_acquired_at = now, lease_expires_at = now + ttl, lease_host = rd_host reading, lease_boot = rd_boot reading,
        lease_released = False, lease_digest = []\<rparr>"
    have store: "fst (dir_store_lease L m raw d) = fst (store_lease L raw a) \<and>
        auth_files L M (snd (dir_store_lease L m raw d)) (snd (store_lease L raw a))"
      by (rule simulatesD [OF store_lease_simulates [OF _ m] files]) (simp add: raw_def)
    show "fst (f now d) = fst (g now a) \<and> auth_files L M (snd (f now d)) (snd (g now a))"
      unfolding f_def g_def read_lease_files [OF str files m] sum.case Let_def raw_def [symmetric]
      using store files by simp
  qed
  then have "simulates (auth_files L M) (act_bind (dir_authority_now pystr reading) f) (act_bind (authority_now reading) g)"
    by (intro simulates_bind dir_now_simulates [OF str])
  moreover have "dir_acquire L pystr reading m owner ttl = act_bind (dir_authority_now pystr reading) f"
    using False by (auto simp: fun_eq_iff dir_acquire_def ttl_value_def f_def [abs_def])
  moreover have "auth_acquire L reading m owner ttl = act_bind (authority_now reading) g"
    using False by (auto simp: fun_eq_iff auth_acquire_def ttl_value_def g_def [abs_def])
  ultimately show ?thesis by simp
qed

lemma dir_renew_simulates:
  assumes str: "str_of_text pystr" and m: "lease_machine_id l \<in> M"
  shows "simulates (auth_files L M) (dir_renew L pystr reading l ttl) (auth_renew L reading l ttl)"
proof (cases "ttl \<le> 0")
  case True
  then show ?thesis by (auto simp: simulates_def dir_renew_def auth_renew_def ttl_value_def)
next
  case False
  have eq: "dir_renew L pystr reading l ttl = act_bind (dir_authority_now pystr reading) (\<lambda>now.
          act_bind (dir_held L pystr reading l now) (\<lambda>_.
          dir_store_lease L (lease_machine_id l) (l\<lparr>lease_expires_at := now + ttl, lease_host := rd_host reading,
            lease_boot := rd_boot reading, lease_released := False, lease_digest := []\<rparr>)))"
    "auth_renew L reading l ttl = act_bind (authority_now reading) (\<lambda>now a1.
          if \<not> held_current a1 l now reading then (Inl MachineLeaseLost, a1)
          else store_lease L (l\<lparr>lease_expires_at := now + ttl, lease_host := rd_host reading,
            lease_boot := rd_boot reading, lease_released := False, lease_digest := []\<rparr>) a1)"
    using False by (auto simp: fun_eq_iff dir_renew_def auth_renew_def ttl_value_def)
  show ?thesis
    unfolding eq by (intro simulates_bind dir_now_simulates [OF str] held_simulates [OF str m] store_lease_simulates [OF _ m]) simp
qed

lemma dir_assert_release_simulate:
  assumes str: "str_of_text pystr" and m: "lease_machine_id l \<in> M"
  shows "simulates (auth_files L M) (dir_assert_held L pystr reading l) (auth_assert_held reading l)"
    "simulates (auth_files L M) (dir_release L pystr reading l) (auth_release L reading l)"
proof -
  have lift: "(\<lambda>a1. if \<not> held_current a1 l now reading then (Inl MachineLeaseLost, a1) else (Inr l, a1)) =
      (\<lambda>a1. if \<not> held_current a1 l now reading then (Inl MachineLeaseLost, a1) else act_lift (Inr l) a1)" for now
    by (simp add: fun_eq_iff act_lift_def)
  show "simulates (auth_files L M) (dir_assert_held L pystr reading l) (auth_assert_held reading l)"
    unfolding dir_assert_held_def auth_assert_held_def lift
    by (intro simulates_bind dir_now_simulates [OF str] held_simulates [OF str m] simulates_lift)
  show "simulates (auth_files L M) (dir_release L pystr reading l) (auth_release L reading l)"
    unfolding dir_release_def auth_release_def
    by (intro simulates_bind dir_now_simulates [OF str] held_simulates [OF str m] simulates_bind store_lease_simulates [OF _ m]
        simulates_lift) simp
qed

section \<open>Any sequence of calls\<close>

datatype auth_call =
    Acquire clock_reading string string rat
  | Renew clock_reading lease rat
  | Assert clock_reading lease
  | Release clock_reading lease

fun auth_call_machine :: "auth_call \<Rightarrow> string" where
  "auth_call_machine (Acquire reading m owner ttl) = m"
| "auth_call_machine (Renew reading l ttl) = lease_machine_id l"
| "auth_call_machine (Assert reading l) = lease_machine_id l"
| "auth_call_machine (Release reading l) = lease_machine_id l"

fun mem_auth_call :: "hostlib \<Rightarrow> auth_call \<Rightarrow> (authority, lease option) action" where
  "mem_auth_call L (Acquire reading m owner ttl) = act_answer Some (auth_acquire L reading m owner ttl)"
| "mem_auth_call L (Renew reading l ttl) = act_answer Some (auth_renew L reading l ttl)"
| "mem_auth_call L (Assert reading l) = act_answer Some (auth_assert_held reading l)"
| "mem_auth_call L (Release reading l) = act_answer (\<lambda>_. None) (auth_release L reading l)"

fun dir_auth_call :: "hostlib \<Rightarrow> (json \<Rightarrow> string) \<Rightarrow> auth_call \<Rightarrow> (dir_authority, lease option) action" where
  "dir_auth_call L pystr (Acquire reading m owner ttl) = act_answer Some (dir_acquire L pystr reading m owner ttl)"
| "dir_auth_call L pystr (Renew reading l ttl) = act_answer Some (dir_renew L pystr reading l ttl)"
| "dir_auth_call L pystr (Assert reading l) = act_answer Some (dir_assert_held L pystr reading l)"
| "dir_auth_call L pystr (Release reading l) = act_answer (\<lambda>_. None) (dir_release L pystr reading l)"

interpretation dirauth: refined_service "\<lambda>d a. str_of_text pystr \<and> auth_files L M d a" "\<lambda>c. auth_call_machine c \<in> M"
    "dir_auth_call L pystr" "mem_auth_call L"
  for L :: hostlib and M :: "string set" and pystr :: "json \<Rightarrow> string"
proof
  fix c assume c: "auth_call_machine c \<in> M"
  show "simulates (\<lambda>d a. str_of_text pystr \<and> auth_files L M d a) (dir_auth_call L pystr c) (mem_auth_call L c)"
  proof (cases "str_of_text pystr")
    case True
    have "simulates (auth_files L M) (dir_auth_call L pystr c) (mem_auth_call L c)"
      using c by (cases c) (simp_all add: simulates_answer dir_acquire_simulates dir_renew_simulates
          dir_assert_release_simulate True)
    then show ?thesis using True by simp
  qed (simp add: simulates_def)
qed

lemma empty_auth_files: "inj_on (lease_path L) M \<Longrightarrow> auth_files L M \<lparr>da_leases = Map.empty, da_anchor = None\<rparr> empty_authority"
  by (simp add: auth_files_def empty_authority_def)

text \<open>What the in-memory authority promises over such sequences.\<close>

lemma mem_auth_call_step: "auth_step L a (snd (mem_auth_call L c a))"
  by (cases c) (auto intro: auth_step.intros prod.collapse [symmetric])

lemma mem_auth_calls_steps: "(auth_step L)\<^sup>*\<^sup>* a (snd (run_calls (mem_auth_call L) cs a))"
proof (induction cs arbitrary: a)
  case (Cons c cs)
  have "(auth_step L)\<^sup>*\<^sup>* a (snd (run_calls (mem_auth_call L) cs (snd (mem_auth_call L c a))))"
    by (rule converse_rtranclp_into_rtranclp [OF mem_auth_call_step Cons.IH])
  then show ?case by (auto split: prod.splits)
qed simp

lemma is_ok_answer: "is_ok (fst (act_answer h f s)) \<longleftrightarrow> is_ok (fst (f s))"
  by (auto simp: act_answer_def act_bind_def act_lift_def split: prod.splits sum.splits)

lemma mem_assert_current:
  assumes "is_ok (fst (mem_auth_call L (Assert rd l) a))"
  shows "auth_leases a (lease_machine_id l) = Some l"
proof -
  have "is_ok (fst (auth_assert_held rd l a))" using assms unfolding mem_auth_call.simps is_ok_answer .
  then obtain l' b where "auth_assert_held rd l a = (Inr l', b)" by (cases "auth_assert_held rd l a") (auto simp: is_ok_iff)
  then show ?thesis using auth.held_is_current by blast
qed

lemma mem_calls_fence:
  fixes L cs1 cs2 cs3 rd rd' rd'' old owner ttl
  defines "a1 \<equiv> snd (run_calls (mem_auth_call L) cs1 empty_authority)"
  defines "a2 \<equiv> snd (run_calls (mem_auth_call L) cs2 a1)"
  defines "a3 \<equiv> snd (mem_auth_call L (Acquire rd' (lease_machine_id old) owner ttl) a2)"
  defines "a4 \<equiv> snd (run_calls (mem_auth_call L) cs3 a3)"
  assumes held: "is_ok (fst (mem_auth_call L (Assert rd old) a1))"
    and taken: "is_ok (fst (mem_auth_call L (Acquire rd' (lease_machine_id old) owner ttl) a2))"
    and other: "owner \<noteq> lease_owner_id old"
  shows "\<not> is_ok (fst (mem_auth_call L (Assert rd'' old) a4))"
proof
  let ?m = "lease_machine_id old"
  assume again: "is_ok (fst (mem_auth_call L (Assert rd'' old) a4))"
  have wf0: "authority_wf empty_authority" by (simp add: authority_wf_def empty_authority_def)
  have wf: "authority_wf b" if "(auth_step L)\<^sup>*\<^sup>* a b" "authority_wf a" for a b
    using that by (induction rule: rtranclp_induct) (auto dest: auth_step_wf_le)
  have s: "(auth_step L)\<^sup>*\<^sup>* empty_authority a1" "(auth_step L)\<^sup>*\<^sup>* a1 a2" "auth_step L a2 a3" "(auth_step L)\<^sup>*\<^sup>* a3 a4"
    unfolding a1_def a2_def a3_def a4_def by (rule mem_auth_calls_steps mem_auth_call_step)+
  have w1: "authority_wf a1" by (rule wf [OF s(1) wf0])
  have w2: "authority_wf a2" by (rule wf [OF s(2) w1])
  have c1: "auth_leases a1 ?m = Some old" by (rule mem_assert_current [OF held])
  have "is_ok (fst (auth_acquire L rd' ?m owner ttl a2))" using taken unfolding mem_auth_call.simps is_ok_answer .
  then obtain l where l: "auth_acquire L rd' ?m owner ttl a2 = (Inr l, a3)"
    by (cases "auth_acquire L rd' ?m owner ttl a2") (auto simp: is_ok_iff a3_def)
  have c3: "auth_leases a3 ?m = Some l" "lease_owner_id l = owner" using auth.acquire_is_current [OF w2 l] by simp_all
  have "auth_leases a4 ?m \<noteq> Some old"
    by (rule auth.superseded_forever [OF w1 c1 rtranclp.rtrancl_into_rtrancl [OF s(2,3)] c3(1) _ s(4)]) (use c3(2) other in simp)
  moreover have "auth_leases a4 ?m = Some old" by (rule mem_assert_current [OF again])
  ultimately show False by simp
qed

text \<open>The same for leases kept in files.\<close>

lemma dir_calls_fence:
  fixes L pystr cs1 cs2 cs3 rd rd' rd'' old owner ttl
  defines "d1 \<equiv> snd (run_calls (dir_auth_call L pystr) cs1 \<lparr>da_leases = Map.empty, da_anchor = None\<rparr>)"
  defines "d2 \<equiv> snd (run_calls (dir_auth_call L pystr) cs2 d1)"
  defines "d3 \<equiv> snd (dir_auth_call L pystr (Acquire rd' (lease_machine_id old) owner ttl) d2)"
  defines "d4 \<equiv> snd (run_calls (dir_auth_call L pystr) cs3 d3)"
  assumes str: "str_of_text pystr" and inj: "inj_on (lease_path L) M" and old: "lease_machine_id old \<in> M"
    and M: "list_all (\<lambda>c. auth_call_machine c \<in> M) (cs1 @ cs2 @ cs3)"
    and held: "is_ok (fst (dir_auth_call L pystr (Assert rd old) d1))"
    and taken: "is_ok (fst (dir_auth_call L pystr (Acquire rd' (lease_machine_id old) owner ttl) d2))"
    and other: "owner \<noteq> lease_owner_id old"
  shows "\<not> is_ok (fst (dir_auth_call L pystr (Assert rd'' old) d4))"
proof -
  let ?R = "\<lambda>d a. str_of_text pystr \<and> auth_files L M d a"
  define a1 where "a1 = snd (run_calls (mem_auth_call L) cs1 empty_authority)"
  define a2 where "a2 = snd (run_calls (mem_auth_call L) cs2 a1)"
  define a3 where "a3 = snd (mem_auth_call L (Acquire rd' (lease_machine_id old) owner ttl) a2)"
  define a4 where "a4 = snd (run_calls (mem_auth_call L) cs3 a3)"
  have Ms: "list_all (\<lambda>c. auth_call_machine c \<in> M) cs1" "list_all (\<lambda>c. auth_call_machine c \<in> M) cs2"
    "list_all (\<lambda>c. auth_call_machine c \<in> M) cs3" using M by simp_all
  have call: "simulates ?R (dir_auth_call L pystr c) (mem_auth_call L c)" if "auth_call_machine c \<in> M" for c
    using that by (rule dirauth.call)
  have r1: "?R d1 a1"
    unfolding d1_def a1_def using dirauth.run [OF _ Ms(1)] str empty_auth_files [OF inj] by blast
  have r2: "?R d2 a2" unfolding d2_def a2_def using dirauth.run [OF r1 Ms(2)] by blast
  have s2: "fst (dir_auth_call L pystr (Acquire rd' (lease_machine_id old) owner ttl) d2) =
      fst (mem_auth_call L (Acquire rd' (lease_machine_id old) owner ttl) a2) \<and> ?R d3 a3"
    unfolding d3_def a3_def by (rule simulatesD [OF call r2]) (simp add: old)
  have r4: "?R d4 a4" unfolding d4_def a4_def using dirauth.run [OF conjunct2 [OF s2] Ms(3)] by blast
  have e1: "fst (dir_auth_call L pystr (Assert rd old) d1) = fst (mem_auth_call L (Assert rd old) a1)"
    using simulatesD [OF call r1, of "Assert rd old"] old by simp
  have e4: "fst (dir_auth_call L pystr (Assert rd'' old) d4) = fst (mem_auth_call L (Assert rd'' old) a4)"
    using simulatesD [OF call r4, of "Assert rd'' old"] old by simp
  show ?thesis
    unfolding e4 a4_def a3_def a2_def a1_def
    by (rule mem_calls_fence) (use held taken other e1 s2 in \<open>simp_all add: a1_def a2_def\<close>)
qed

end
