(* ===== verification/Supervision.thy ===== *)
theory Supervision
  imports JournalCodec Service
begin

text \<open>
  Supervision of child machines: the lifecycle records and the state of
  \<^verbatim>\<open>kernel/supervision.py\<close>, and the durable supervisor of
  \<^verbatim>\<open>kernel/directory_supervision.py\<close>, whose file is the list of the records' documents
  (canonical bytes stand for the document they encode).  Locks are outside the model: a call runs
  alone.
\<close>

section \<open>Records\<close>

datatype child_status = CS_CREATED | CS_RUNNING | CS_COMPLETED | CS_FAILED | CS_CANCELED

fun child_status_value :: "child_status \<Rightarrow> string" where
  "child_status_value CS_CREATED = ''created''"
| "child_status_value CS_RUNNING = ''running''"
| "child_status_value CS_COMPLETED = ''completed''"
| "child_status_value CS_FAILED = ''failed''"
| "child_status_value CS_CANCELED = ''canceled''"

definition all_child_statuses :: "child_status list" where
  "all_child_statuses = [CS_CREATED, CS_RUNNING, CS_COMPLETED, CS_FAILED, CS_CANCELED]"

definition child_status_of :: "string \<Rightarrow> child_status res" where
  "child_status_of s = (case find (\<lambda>x. child_status_value x = s) all_child_statuses of
     None \<Rightarrow> Inl ValueError | Some x \<Rightarrow> Inr x)"

definition child_terminal :: "child_status \<Rightarrow> bool" where
  "child_terminal s = (s \<in> {CS_COMPLETED, CS_FAILED, CS_CANCELED})"

record child_record =
  rec_link :: child_link
  rec_status :: child_status
  rec_revision :: int
  rec_result_ref :: "string option"
  rec_error_ref :: "string option"
  rec_digest :: string

definition record_payload :: "child_record \<Rightarrow> (string \<times> json) list" where
  "record_payload r =
     [(''link'', child_link_as_dict (rec_link r)),
      (''status'', JStr (child_status_value (rec_status r))),
      (''observed_revision'', JInt (rec_revision r)),
      (''result_ref'', jopt_str (rec_result_ref r)),
      (''error_ref'', jopt_str (rec_error_ref r))]"

definition record_post_init :: "hostlib \<Rightarrow> child_record \<Rightarrow> child_record res" where
  "record_post_init L self =
     res_bind (require (0 \<le> rec_revision self) ValueError) (\<lambda>_.
     res_bind (require (opt_nonblank (rec_result_ref self)) ValueError) (\<lambda>_.
     res_bind (require (opt_nonblank (rec_error_ref self)) ValueError) (\<lambda>_.
     res_bind (require (rec_status self = CS_COMPLETED \<longrightarrow> rec_result_ref self \<noteq> None) ValueError) (\<lambda>_.
     res_bind (require (rec_status self = CS_FAILED \<longrightarrow> rec_error_ref self \<noteq> None) ValueError) (\<lambda>_.
     Inr (self\<lparr>rec_digest := canonical_digest L (jobj (record_payload self))\<rparr>))))))"

definition mk_record ::
    "hostlib \<Rightarrow> child_link \<Rightarrow> child_status \<Rightarrow> int \<Rightarrow> string option \<Rightarrow> string option \<Rightarrow> child_record res" where
  "mk_record L link status revision result error = record_post_init L
     \<lparr>rec_link = link, rec_status = status, rec_revision = revision, rec_result_ref = result,
      rec_error_ref = error, rec_digest = []\<rparr>"

section \<open>The supervisor state\<close>

type_synonym child_records = "(string, child_record) dict"

definition sup_register :: "hostlib \<Rightarrow> child_link \<Rightarrow> (child_records, child_record) action" where
  "sup_register L link rs =
     (case map_of rs (link_child_machine_id link) of
        Some current \<Rightarrow>
          if link_digest (rec_link current) \<noteq> link_digest link then (Inl ValueError, rs) else (Inr current, rs)
      | None \<Rightarrow>
          (case mk_record L link CS_CREATED 0 None None of
             Inl e \<Rightarrow> (Inl e, rs)
           | Inr r \<Rightarrow> (Inr r, dict_set (link_child_machine_id link) r rs)))"

definition sup_observe :: "child_record \<Rightarrow> (child_records, child_record) action" where
  "sup_observe r rs =
     (case map_of rs (link_child_machine_id (rec_link r)) of
        None \<Rightarrow> (Inl KeyError, rs)
      | Some current \<Rightarrow>
          if link_digest (rec_link current) \<noteq> link_digest (rec_link r) then (Inl ValueError, rs)
          else if child_terminal (rec_status current) then
            (if rec_digest current \<noteq> rec_digest r then (Inl ChildMachinePending, rs) else (Inr current, rs))
          else if rec_revision r < rec_revision current then (Inl ChildMachinePending, rs)
          else if rec_status r = CS_CREATED \<and> 0 < rec_revision r then (Inl ValueError, rs)
          else (Inr r, dict_set (link_child_machine_id (rec_link r)) r rs))"

definition sup_join :: "string \<Rightarrow> child_records \<Rightarrow> child_record res" where
  "sup_join child rs =
     (if \<not> nonblank child then Inl ValueError
      else case map_of rs child of
          None \<Rightarrow> Inl KeyError
        | Some r \<Rightarrow> if \<not> child_terminal (rec_status r) then Inl ChildMachinePending else Inr r)"

definition sup_cancel :: "hostlib \<Rightarrow> string \<Rightarrow> string \<Rightarrow> (child_records, child_record) action" where
  "sup_cancel L child error_ref rs =
     (if \<not> nonblank error_ref then (Inl ValueError, rs)
      else case map_of rs child of
          None \<Rightarrow> (Inl KeyError, rs)
        | Some current \<Rightarrow>
            if child_terminal (rec_status current) then (Inr current, rs)
            else (case mk_record L (rec_link current) CS_CANCELED (rec_revision current) None (Some error_ref) of
                Inl e \<Rightarrow> (Inl e, rs)
              | Inr r \<Rightarrow> sup_observe r rs))"

definition sup_list :: "string \<Rightarrow> child_records \<Rightarrow> child_record list res" where
  "sup_list parent rs =
     (if \<not> nonblank parent then Inl ValueError
      else Inr (filter (\<lambda>r. link_parent_machine_id (rec_link r) = parent) (map snd rs)))"

section \<open>The lifecycle\<close>

definition record_ok :: "hostlib \<Rightarrow> child_record \<Rightarrow> bool" where
  "record_ok L r = (child_link_ok L (rec_link r) \<and> record_post_init L r = Inr r)"

definition records_ok :: "hostlib \<Rightarrow> child_records \<Rightarrow> bool" where
  "records_ok L rs = (dict_wf rs \<and> (\<forall>(k, r) \<in> set rs. link_child_machine_id (rec_link r) = k \<and> record_ok L r))"

inductive sup_step :: "hostlib \<Rightarrow> child_records \<Rightarrow> child_records \<Rightarrow> bool" for L where
  register: "child_link_ok L link \<Longrightarrow> sup_register L link rs = (r, rs') \<Longrightarrow> sup_step L rs rs'"
| observe: "record_ok L c \<Longrightarrow> sup_observe c rs = (r, rs') \<Longrightarrow> sup_step L rs rs'"
| cancel: "sup_cancel L child error_ref rs = (r, rs') \<Longrightarrow> sup_step L rs rs'"

inductive_cases sup_step_elim: "sup_step L rs rs'"

text \<open>Every record stays, its revision never decreases, and a terminal record never changes again.\<close>

definition records_le :: "child_records \<Rightarrow> child_records \<Rightarrow> bool" where
  "records_le a b = (\<forall>k r. map_of a k = Some r \<longrightarrow>
     (\<exists>r'. map_of b k = Some r' \<and> rec_revision r \<le> rec_revision r' \<and>
        link_digest (rec_link r') = link_digest (rec_link r) \<and> (child_terminal (rec_status r) \<longrightarrow> r' = r)))"

lemma records_le_refl [simp]: "records_le a a"
  by (simp add: records_le_def)

lemma records_le_trans:
  assumes "records_le a b" "records_le b c"
  shows "records_le a c"
  unfolding records_le_def
proof (intro allI impI)
  fix k r assume "map_of a k = Some r"
  then obtain r1 where r1: "map_of b k = Some r1" "rec_revision r \<le> rec_revision r1"
      "link_digest (rec_link r1) = link_digest (rec_link r)" "child_terminal (rec_status r) \<longrightarrow> r1 = r"
    using assms(1) unfolding records_le_def by blast
  then obtain r2 where "map_of c k = Some r2" "rec_revision r1 \<le> rec_revision r2"
      "link_digest (rec_link r2) = link_digest (rec_link r1)" "child_terminal (rec_status r1) \<longrightarrow> r2 = r1"
    using assms(2) unfolding records_le_def by blast
  with r1 show "\<exists>r'. map_of c k = Some r' \<and> rec_revision r \<le> rec_revision r' \<and>
      link_digest (rec_link r') = link_digest (rec_link r) \<and> (child_terminal (rec_status r) \<longrightarrow> r' = r)"
    by auto
qed

lemma sup_observe_le: "sup_observe c rs = (r, rs') \<Longrightarrow> records_le rs rs'"
  by (auto simp: sup_observe_def records_le_def split: option.splits if_splits)

lemma sup_cancel_cases:
  "sup_cancel L child error_ref rs = (r, rs') \<Longrightarrow> rs' = rs \<or>
     (\<exists>current c. map_of rs child = Some current \<and>
        mk_record L (rec_link current) CS_CANCELED (rec_revision current) None (Some error_ref) = Inr c \<and>
        sup_observe c rs = (r, rs'))"
  by (auto simp: sup_cancel_def split: option.splits if_splits sum.splits)

lemma sup_step_le: "sup_step L rs rs' \<Longrightarrow> records_le rs rs'"
proof (induction rule: sup_step.induct)
  case (register link rs r rs')
  then show ?case by (auto simp: sup_register_def records_le_def split: option.splits if_splits sum.splits)
next
  case (observe c rs r rs')
  then show ?case by (intro sup_observe_le)
next
  case (cancel child error_ref rs r rs')
  then show ?case using sup_cancel_cases sup_observe_le by fastforce
qed

lemma sup_steps_le: "(sup_step L)\<^sup>*\<^sup>* rs rs' \<Longrightarrow> records_le rs rs'"
  by (induction rule: rtranclp_induct) (auto intro: records_le_trans sup_step_le)

lemma set_dict_set: "set (dict_set k v d) \<subseteq> insert (k, v) (set d)"
  by (induction k v d rule: dict_set.induct) auto

lemma records_ok_set:
  "records_ok L rs \<Longrightarrow> record_ok L r \<Longrightarrow> records_ok L (dict_set (link_child_machine_id (rec_link r)) r rs)"
  using set_dict_set [of "link_child_machine_id (rec_link r)" r rs] by (auto simp: records_ok_def dict_wf_set)

lemma record_post_init_again: "record_post_init L r = Inr r' \<Longrightarrow> record_post_init L r' = Inr r' \<and> rec_link r' = rec_link r"
  by (auto simp: record_post_init_def res_simps record_payload_def)

lemma mk_record_ok:
  "mk_record L link status revision result error = Inr r \<Longrightarrow> child_link_ok L link \<Longrightarrow> record_ok L r \<and> rec_link r = link"
  using record_post_init_again by (force simp: mk_record_def record_ok_def)

lemma sup_observe_ok: "records_ok L rs \<Longrightarrow> record_ok L c \<Longrightarrow> sup_observe c rs = (r, rs') \<Longrightarrow> records_ok L rs'"
  using records_ok_set [of L rs c] by (auto simp: sup_observe_def split: option.splits if_splits)

lemma records_ok_lookup: "records_ok L rs \<Longrightarrow> map_of rs k = Some r \<Longrightarrow> link_child_machine_id (rec_link r) = k \<and> record_ok L r"
  by (auto simp: records_ok_def dest: map_of_SomeD)

lemma sup_step_ok: "sup_step L rs rs' \<Longrightarrow> records_ok L rs \<Longrightarrow> records_ok L rs'"
proof (induction rule: sup_step.induct)
  case (register link rs r rs')
  show ?case
  proof (cases "\<exists>c. map_of rs (link_child_machine_id link) = None \<and> mk_record L link CS_CREATED 0 None None = Inr c")
    case True
    then obtain c where c: "map_of rs (link_child_machine_id link) = None" "mk_record L link CS_CREATED 0 None None = Inr c"
      by blast
    then have "rs' = dict_set (link_child_machine_id (rec_link c)) c rs"
      using register(2) mk_record_ok [OF c(2) register(1)] by (simp add: sup_register_def)
    then show ?thesis using mk_record_ok [OF c(2) register(1)] records_ok_set [OF register(3)] by blast
  next
    case False
    then have "rs' = rs" using register(2) by (auto simp: sup_register_def split: option.splits if_splits sum.splits)
    then show ?thesis using register(3) by simp
  qed
next
  case (observe c rs r rs')
  show ?case by (rule sup_observe_ok [OF observe(3,1,2)])
next
  case (cancel child error_ref rs r rs')
  from cancel(1) consider "rs' = rs" | current c where "map_of rs child = Some current"
    "mk_record L (rec_link current) CS_CANCELED (rec_revision current) None (Some error_ref) = Inr c" "sup_observe c rs = (r, rs')"
    using sup_cancel_cases by blast
  then show ?case
  proof cases
    case (2 current c)
    then have "child_link_ok L (rec_link current)" using records_ok_lookup [OF cancel(2)] by (simp add: record_ok_def)
    then show ?thesis using mk_record_ok [OF 2(2)] sup_observe_ok [OF cancel(2) _ 2(3)] by blast
  qed (use cancel(2) in simp)
qed

lemma sup_steps_ok: "(sup_step L)\<^sup>*\<^sup>* [] rs \<Longrightarrow> records_ok L rs"
  by (induction rule: rtranclp_induct) (auto simp: records_ok_def [of L "[]"] dest: sup_step_ok)

text \<open>Canceling a child that is not terminal makes it joinable as canceled.\<close>

lemma cancel_then_join:
  assumes "records_ok L rs" "map_of rs child = Some c" "nonblank error_ref"
  shows "\<exists>r rs'. sup_cancel L child error_ref rs = (Inr r, rs') \<and> sup_join child rs' = Inr r \<and>
    (child_terminal (rec_status c) \<and> r = c \<or> \<not> child_terminal (rec_status c) \<and> rec_status r = CS_CANCELED \<and> rec_error_ref r = Some error_ref)"
proof -
  note c = records_ok_lookup [OF assms(1,2)]
  have "nonblank (link_child_machine_id (rec_link c))"
    using c by (auto simp: record_ok_def child_link_ok_def child_link_post_init_def res_simps)
  then have child: "nonblank child" using c by simp
  have rev: "0 \<le> rec_revision c" using c by (auto simp: record_ok_def record_post_init_def res_simps)
  show ?thesis
  proof (cases "child_terminal (rec_status c)")
    case True
    then show ?thesis using assms child by (simp add: sup_cancel_def sup_join_def)
  next
    case False
    obtain r where r: "mk_record L (rec_link c) CS_CANCELED (rec_revision c) None (Some error_ref) = Inr r"
      "rec_status r = CS_CANCELED" "rec_error_ref r = Some error_ref" "rec_link r = rec_link c" "rec_revision r = rec_revision c"
      using rev assms(3) by (simp add: mk_record_def record_post_init_def opt_nonblank_def)
    have "sup_cancel L child error_ref rs = (Inr r, dict_set child r rs)"
      using assms False r c by (simp add: sup_cancel_def sup_observe_def)
    then show ?thesis using False r child by (simp add: sup_join_def child_terminal_def)
  qed
qed

section \<open>The durable supervisor\<close>

definition record_document :: "child_record \<Rightarrow> json" where
  "record_document r = jobj (record_payload r @ [(''record_digest'', JStr (rec_digest r))])"

text \<open>The fields reach the constructors as they are; a value of another type makes them raise.\<close>

definition text_value :: "json \<Rightarrow> string res" where
  "text_value v = (case v of JStr s \<Rightarrow> Inr s | _ \<Rightarrow> Inl TypeError)"

definition int_value :: "json \<Rightarrow> int res" where
  "int_value v = (case v of JInt n \<Rightarrow> Inr n | _ \<Rightarrow> Inl ValueError)"

definition link_fields :: "string list" where
  "link_fields = [''parent_machine_id'', ''child_machine_id'', ''child_unit_digest'', ''child_execution_lock_digest'',
     ''child_snapshot_ref'', ''child_transition_start'', ''child_transition_end'', ''child_result_ref'', ''failure_policy'',
     ''link_digest'']"

definition decode_link :: "hostlib \<Rightarrow> json \<Rightarrow> child_link res" where
  "decode_link L value =
     res_bind (require_object value) (\<lambda>row.
     res_bind (require_exact row link_fields) (\<lambda>_.
     res_bind (res_bind (field_of row ''parent_machine_id'') text_value) (\<lambda>parent.
     res_bind (res_bind (field_of row ''child_machine_id'') text_value) (\<lambda>child.
     res_bind (res_bind (field_of row ''child_unit_digest'') text_value) (\<lambda>udigest.
     res_bind (res_bind (field_of row ''child_execution_lock_digest'') text_value) (\<lambda>ldigest.
     res_bind (res_bind (field_of row ''child_snapshot_ref'') text_value) (\<lambda>snapshot.
     res_bind (res_bind (field_of row ''child_transition_start'') int_value) (\<lambda>start.
     res_bind (res_bind (field_of row ''child_transition_end'') int_value) (\<lambda>stop.
     res_bind (res_bind (field_of row ''child_result_ref'') (decode_opt_text ValueError)) (\<lambda>result.
     res_bind (res_bind (field_of row ''failure_policy'') text_value) (\<lambda>policy.
     res_bind (child_link_post_init L
       \<lparr>link_parent_machine_id = parent, link_child_machine_id = child, link_child_unit_digest = udigest,
        link_child_execution_lock_digest = ldigest, link_child_snapshot_ref = snapshot,
        link_child_transition_start = start, link_child_transition_end = stop, link_child_result_ref = result,
        link_failure_policy = policy, link_digest = []\<rparr>) (\<lambda>link.
     res_bind (require (map_of row ''link_digest'' = Some (JStr (link_digest link))) ValueError) (\<lambda>_.
     Inr link)))))))))))))"

definition record_fields :: "string list" where
  "record_fields = [''link'', ''status'', ''observed_revision'', ''result_ref'', ''error_ref'', ''record_digest'']"

definition decode_record :: "hostlib \<Rightarrow> json \<Rightarrow> child_record res" where
  "decode_record L value =
     res_bind (require_object value) (\<lambda>row.
     res_bind (require_exact row record_fields) (\<lambda>_.
     res_bind (res_bind (field_of row ''link'') (decode_link L)) (\<lambda>link.
     res_bind (res_bind (res_bind (field_of row ''status'') text_value) child_status_of) (\<lambda>status.
     res_bind (res_bind (field_of row ''observed_revision'') int_value) (\<lambda>revision.
     res_bind (res_bind (field_of row ''result_ref'') (decode_opt_text ValueError)) (\<lambda>result.
     res_bind (res_bind (field_of row ''error_ref'') (decode_opt_text ValueError)) (\<lambda>error.
     res_bind (mk_record L link status revision result error) (\<lambda>r.
     res_bind (require (map_of row ''record_digest'' = Some (JStr (rec_digest r))) ValueError) (\<lambda>_.
     Inr r)))))))))"

record dir_supervisor =
  ds_file :: "json option"
  ds_records :: child_records

text \<open>A corrupt file surfaces as a value error whatever the decoder raised.\<close>

definition ds_reload :: "hostlib \<Rightarrow> (dir_supervisor, unit) action" where
  "ds_reload L s =
     (case ds_file s of
        None \<Rightarrow> (Inr (), s)
      | Some v \<Rightarrow>
          (case res_bind (require_list v) (res_map (decode_record L)) of
             Inl _ \<Rightarrow> (Inl ValueError, s)
           | Inr records \<Rightarrow>
               (Inr (), s\<lparr>ds_records := dict_of (map (\<lambda>r. (link_child_machine_id (rec_link r), r)) records)\<rparr>)))"

definition ds_save :: "dir_supervisor \<Rightarrow> dir_supervisor" where
  "ds_save s = s\<lparr>ds_file := Some (JArr (map (\<lambda>kr. record_document (snd kr)) (ds_records s)))\<rparr>"

definition ds_init :: "hostlib \<Rightarrow> json option \<Rightarrow> (dir_supervisor, unit) action" where
  "ds_init L file s = ds_reload L \<lparr>ds_file = file, ds_records = []\<rparr>"

definition ds_update :: "(child_records, child_record) action \<Rightarrow> (dir_supervisor, child_record) action" where
  "ds_update f s =
     (case f (ds_records s) of
        (Inl e, rs) \<Rightarrow> (Inl e, s\<lparr>ds_records := rs\<rparr>)
      | (Inr r, rs) \<Rightarrow> (Inr r, ds_save (s\<lparr>ds_records := rs\<rparr>)))"

definition ds_register :: "hostlib \<Rightarrow> child_link \<Rightarrow> (dir_supervisor, child_record) action" where
  "ds_register L link = act_bind (ds_reload L) (\<lambda>_. ds_update (sup_register L link))"

definition ds_observe :: "hostlib \<Rightarrow> child_record \<Rightarrow> (dir_supervisor, child_record) action" where
  "ds_observe L r = act_bind (ds_reload L) (\<lambda>_. ds_update (sup_observe r))"

definition ds_join :: "hostlib \<Rightarrow> string \<Rightarrow> (dir_supervisor, child_record) action" where
  "ds_join L child = act_bind (ds_reload L) (\<lambda>_ s. (sup_join child (ds_records s), s))"

text \<open>A terminal record is answered without writing the file again.\<close>

definition ds_cancel :: "hostlib \<Rightarrow> string \<Rightarrow> string \<Rightarrow> (dir_supervisor, child_record) action" where
  "ds_cancel L child error_ref s0 =
     (if \<not> nonblank error_ref then (Inl ValueError, s0)
      else act_bind (ds_reload L) (\<lambda>_ s.
        case map_of (ds_records s) child of
          None \<Rightarrow> (Inl KeyError, s)
        | Some current \<Rightarrow>
            if child_terminal (rec_status current) then (Inr current, s)
            else (case mk_record L (rec_link current) CS_CANCELED (rec_revision current) None (Some error_ref) of
                Inl e \<Rightarrow> (Inl e, s)
              | Inr r \<Rightarrow> ds_update (sup_observe r) s)) s0)"

definition ds_list :: "hostlib \<Rightarrow> string \<Rightarrow> (dir_supervisor, child_record list) action" where
  "ds_list L parent = act_bind (ds_reload L) (\<lambda>_ s. (sup_list parent (ds_records s), s))"

section \<open>The durable supervisor refines the state\<close>

lemma child_status_round_trip: "child_status_of (child_status_value s) = Inr s"
  by (cases s) (simp_all add: child_status_of_def all_child_statuses_def)

lemma decode_link_as_dict:
  assumes "child_link_ok L l"
  shows "decode_link L (child_link_as_dict l) = Inr l"
proof -
  have init: "child_link_post_init L (l\<lparr>link_digest := []\<rparr>) = Inr l"
    using assms by (auto simp: child_link_ok_def child_link_post_init_def res_simps child_link_payload_def
        dest: arg_cong [of _ _ link_digest])
  have raw: "l\<lparr>link_digest := []\<rparr> = \<lparr>link_parent_machine_id = link_parent_machine_id l,
      link_child_machine_id = link_child_machine_id l, link_child_unit_digest = link_child_unit_digest l,
      link_child_execution_lock_digest = link_child_execution_lock_digest l,
      link_child_snapshot_ref = link_child_snapshot_ref l, link_child_transition_start = link_child_transition_start l,
      link_child_transition_end = link_child_transition_end l, link_child_result_ref = link_child_result_ref l,
      link_failure_policy = link_failure_policy l, link_digest = []\<rparr>"
    by simp
  show ?thesis
    unfolding decode_link_def child_link_as_dict_def child_link_payload_def
    using init by (simp add: field_of_jobj require_exact_jobj link_fields_def text_value_def int_value_def raw map_of_jobj)
qed

lemma decode_record_document:
  assumes "record_ok L r"
  shows "decode_record L (record_document r) = Inr r"
proof -
  have link: "decode_link L (child_link_as_dict (rec_link r)) = Inr (rec_link r)"
    using assms by (simp add: record_ok_def decode_link_as_dict)
  have "mk_record L (rec_link r) (rec_status r) (rec_revision r) (rec_result_ref r) (rec_error_ref r) = Inr r"
    using assms by (auto simp: mk_record_def record_ok_def record_post_init_def res_simps record_payload_def
        dest: arg_cong [of _ _ rec_digest])
  with link show ?thesis
    unfolding decode_record_def record_document_def record_payload_def
    by (simp add: field_of_jobj require_exact_jobj record_fields_def text_value_def int_value_def map_of_jobj
        child_status_round_trip)
qed

definition ds_represents :: "hostlib \<Rightarrow> dir_supervisor \<Rightarrow> child_records \<Rightarrow> bool" where
  "ds_represents L s rs = (records_ok L rs \<and>
     (case ds_file s of
        None \<Rightarrow> rs = [] \<and> ds_records s = []
      | Some v \<Rightarrow> v = JArr (map (\<lambda>kr. record_document (snd kr)) rs)))"

lemma dict_of_id: "dict_wf d \<Longrightarrow> dict_of d = d"
  by (rule dict_eqI) (simp_all add: dict_wf_of map_of_jobj dict_wf_distinct)

text \<open>Whatever the process remembers, reloading yields what the file represents.\<close>

lemma ds_reload_represents:
  assumes "ds_represents L s rs"
  shows "ds_reload L s = (Inr (), s\<lparr>ds_records := rs\<rparr>)"
proof (cases "ds_file s")
  case None
  with assms show ?thesis by (simp add: ds_reload_def ds_represents_def)
next
  case (Some v)
  have ok: "records_ok L rs" using assms by (simp add: ds_represents_def)
  have "res_map (decode_record L) (map (\<lambda>kr. record_document (snd kr)) rs) = Inr (map snd rs)"
    using ok unfolding records_ok_def by (induction rs) (auto simp: decode_record_document dict_wf_Cons)
  moreover have "map (\<lambda>r. (link_child_machine_id (rec_link r), r)) (map snd rs) = rs"
    using ok by (auto simp: records_ok_def intro!: map_idI)
  moreover have "dict_of rs = rs" using ok by (simp add: dict_of_id records_ok_def)
  ultimately show ?thesis using Some assms by (simp add: ds_reload_def ds_represents_def comp_def)
qed

lemma ds_update_represents:
  assumes "ds_represents L s rs" "ds_records s = rs" "f rs = (r, rs')" "records_ok L rs'" "\<And>e. r = Inl e \<Longrightarrow> rs' = rs"
  shows "fst (ds_update f s) = r \<and> ds_represents L (snd (ds_update f s)) rs'"
  using assms by (cases r; cases "ds_file s") (auto simp: ds_update_def ds_save_def ds_represents_def)

lemma ds_observe_represents:
  assumes "ds_represents L s rs" "record_ok L c"
  shows "fst (ds_observe L c s) = fst (sup_observe c rs) \<and> ds_represents L (snd (ds_observe L c s)) (snd (sup_observe c rs))"
proof -
  obtain r rs' where o: "sup_observe c rs = (r, rs')" by (cases "sup_observe c rs")
  have ok: "records_ok L rs" using assms(1) by (simp add: ds_represents_def)
  have "rs' = rs" if "r = Inl e" for e using o that by (auto simp: sup_observe_def split: option.splits if_splits)
  moreover have "ds_represents L (s\<lparr>ds_records := rs\<rparr>) rs" using assms(1) by (auto simp: ds_represents_def split: option.splits)
  ultimately show ?thesis
    using ds_update_represents [of L "s\<lparr>ds_records := rs\<rparr>" rs "sup_observe c" r rs'] o sup_observe_ok [OF ok assms(2) o]
    by (simp add: ds_observe_def act_bind_def ds_reload_represents [OF assms(1)])
qed

lemma ds_register_represents:
  assumes "ds_represents L s rs" "child_link_ok L link"
  shows "fst (ds_register L link s) = fst (sup_register L link rs) \<and>
    ds_represents L (snd (ds_register L link s)) (snd (sup_register L link rs))"
proof -
  obtain r rs' where o: "sup_register L link rs = (r, rs')" by (cases "sup_register L link rs")
  have ok: "records_ok L rs" using assms(1) by (simp add: ds_represents_def)
  have "rs' = rs" if "r = Inl e" for e using o that by (auto simp: sup_register_def split: option.splits if_splits sum.splits)
  moreover have "ds_represents L (s\<lparr>ds_records := rs\<rparr>) rs" using assms(1) by (auto simp: ds_represents_def split: option.splits)
  moreover have "records_ok L rs'" by (rule sup_step_ok [OF sup_step.register [OF assms(2) o] ok])
  ultimately show ?thesis
    using ds_update_represents [of L "s\<lparr>ds_records := rs\<rparr>" rs "sup_register L link" r rs'] o
    by (simp add: ds_register_def act_bind_def ds_reload_represents [OF assms(1)])
qed

lemma ds_queries_represent:
  assumes "ds_represents L s rs"
  shows "fst (ds_join L child s) = sup_join child rs" "fst (ds_list L parent s) = sup_list parent rs"
  by (simp_all add: ds_join_def ds_list_def act_bind_def ds_reload_represents [OF assms])

lemma ds_cancel_represents:
  assumes "ds_represents L s rs"
  shows "fst (ds_cancel L child error_ref s) = fst (sup_cancel L child error_ref rs) \<and>
    ds_represents L (snd (ds_cancel L child error_ref s)) (snd (sup_cancel L child error_ref rs))"
proof -
  have ok: "records_ok L rs" using assms(1) by (simp add: ds_represents_def)
  have rep: "ds_represents L (s\<lparr>ds_records := rs\<rparr>) rs" using assms(1) by (auto simp: ds_represents_def split: option.splits)
  show ?thesis
  proof (cases "\<exists>current c. nonblank error_ref \<and> map_of rs child = Some current \<and> \<not> child_terminal (rec_status current) \<and>
      mk_record L (rec_link current) CS_CANCELED (rec_revision current) None (Some error_ref) = Inr c")
    case True
    then obtain current c where c: "nonblank error_ref" "map_of rs child = Some current" "\<not> child_terminal (rec_status current)"
      "mk_record L (rec_link current) CS_CANCELED (rec_revision current) None (Some error_ref) = Inr c" by blast
    have "child_link_ok L (rec_link current)" using records_ok_lookup [OF ok c(2)] by (simp add: record_ok_def)
    then have rec: "record_ok L c" using mk_record_ok [OF c(4)] by simp
    obtain r rs' where o: "sup_observe c rs = (r, rs')" by (cases "sup_observe c rs")
    have "rs' = rs" if "r = Inl e" for e using o that by (auto simp: sup_observe_def split: option.splits if_splits)
    then have "fst (ds_update (sup_observe c) (s\<lparr>ds_records := rs\<rparr>)) = r \<and>
        ds_represents L (snd (ds_update (sup_observe c) (s\<lparr>ds_records := rs\<rparr>))) rs'"
      using ds_update_represents [of L "s\<lparr>ds_records := rs\<rparr>" rs "sup_observe c" r rs'] rep o sup_observe_ok [OF ok rec o]
      by simp
    then show ?thesis
      using c o by (simp add: ds_cancel_def sup_cancel_def act_bind_def ds_reload_represents [OF assms])
  next
    case False
    then show ?thesis
      using assms rep by (auto simp: ds_cancel_def sup_cancel_def act_bind_def ds_reload_represents [OF assms]
          split: option.split if_split sum.split)
  qed
qed

section \<open>Any sequence of calls, with restarts\<close>

datatype sup_call =
    Register child_link
  | Observe child_record
  | Cancel string string
  | Join string
  | ListChildren string
  | Restart

fun sup_call_ok :: "hostlib \<Rightarrow> sup_call \<Rightarrow> bool" where
  "sup_call_ok L (Register link) = child_link_ok L link"
| "sup_call_ok L (Observe c) = record_ok L c"
| "sup_call_ok L _ = True"

text \<open>A query answers the records it found and changes nothing.\<close>

definition query :: "('s \<Rightarrow> 'a res) \<Rightarrow> ('s, 'a) action" where
  "query f s = (f s, s)"

fun mem_sup_call :: "hostlib \<Rightarrow> sup_call \<Rightarrow> (child_records, child_record list) action" where
  "mem_sup_call L (Register link) = act_answer (\<lambda>r. [r]) (sup_register L link)"
| "mem_sup_call L (Observe c) = act_answer (\<lambda>r. [r]) (sup_observe c)"
| "mem_sup_call L (Cancel child error_ref) = act_answer (\<lambda>r. [r]) (sup_cancel L child error_ref)"
| "mem_sup_call L (Join child) = act_answer (\<lambda>r. [r]) (query (sup_join child))"
| "mem_sup_call L (ListChildren parent) = query (sup_list parent)"
| "mem_sup_call L Restart = act_lift (Inr [])"

text \<open>A restart builds a new supervisor over the same file.\<close>

fun dir_sup_call :: "hostlib \<Rightarrow> sup_call \<Rightarrow> (dir_supervisor, child_record list) action" where
  "dir_sup_call L (Register link) = act_answer (\<lambda>r. [r]) (ds_register L link)"
| "dir_sup_call L (Observe c) = act_answer (\<lambda>r. [r]) (ds_observe L c)"
| "dir_sup_call L (Cancel child error_ref) = act_answer (\<lambda>r. [r]) (ds_cancel L child error_ref)"
| "dir_sup_call L (Join child) = act_answer (\<lambda>r. [r]) (ds_join L child)"
| "dir_sup_call L (ListChildren parent) = ds_list L parent"
| "dir_sup_call L Restart = (\<lambda>s. act_answer (\<lambda>_. []) (ds_init L (ds_file s)) s)"

lemma ds_represents_memory: "ds_represents L s rs \<Longrightarrow> ds_represents L (s\<lparr>ds_records := rs\<rparr>) rs"
  by (auto simp: ds_represents_def split: option.splits)

lemma ds_queries_simulate:
  "simulates (ds_represents L) (ds_join L child) (query (sup_join child))"
  "simulates (ds_represents L) (ds_list L parent) (query (sup_list parent))"
  by (auto simp: simulates_def ds_join_def ds_list_def act_bind_def ds_reload_represents query_def ds_represents_memory)

lemma ds_restart_simulates:
  "simulates (ds_represents L) (\<lambda>s. act_answer (\<lambda>_. []) (ds_init L (ds_file s)) s) (act_lift (Inr []))"
proof (rule simulatesI)
  fix s rs assume rep: "ds_represents L s rs"
  have "ds_represents L \<lparr>ds_file = ds_file s, ds_records = []\<rparr> rs" using rep by (auto simp: ds_represents_def split: option.splits)
  from ds_reload_represents [OF this] ds_represents_memory [OF this]
  show "fst (act_answer (\<lambda>_. []) (ds_init L (ds_file s)) s) = fst (act_lift (Inr []) rs) \<and>
      ds_represents L (snd (act_answer (\<lambda>_. []) (ds_init L (ds_file s)) s)) (snd (act_lift (Inr []) rs))"
    by (simp add: ds_init_def act_answer_def act_bind_def act_lift_def)
qed

interpretation dirsup: refined_service "ds_represents L" "sup_call_ok L" "dir_sup_call L" "mem_sup_call L"
  for L :: hostlib
proof
  fix c assume c: "sup_call_ok L c"
  show "simulates (ds_represents L) (dir_sup_call L c) (mem_sup_call L c)"
  proof (cases c)
    case (Register link)
    then show ?thesis using c ds_register_represents by (simp add: simulates_answer simulatesI)
  next
    case (Observe r)
    then show ?thesis using c ds_observe_represents by (simp add: simulates_answer simulatesI)
  next
    case (Cancel child error_ref)
    then show ?thesis using ds_cancel_represents by (simp add: simulates_answer simulatesI)
  next
    case Restart
    then show ?thesis using ds_restart_simulates by simp
  qed (simp_all add: simulates_answer ds_queries_simulate)
qed

lemma ds_represents_empty: "ds_represents L \<lparr>ds_file = None, ds_records = []\<rparr> []"
  by (simp add: ds_represents_def records_ok_def)

end
