(* ===== verification/DurableDelivery.thy ===== *)
theory DurableDelivery
  imports Delivery JournalCodec Service
begin

text \<open>
  The crash-durable outbox and inbox of \<^verbatim>\<open>kernel/durable_delivery.py\<close>.  Envelopes and
  receipts are files of their own, written one after the other; a file holds the canonical bytes of
  a document and is modelled by that document.  The envelope files are listed in the order of their
  names.  Locks are outside the model, a crash between two writes is not.
\<close>

section \<open>Documents\<close>

definition delivery_command_document :: "machine_command \<Rightarrow> json" where
  "delivery_command_document command = jobj
     [(''command_id'', JStr (cmd_command_id command)),
      (''machine_id'', JStr (cmd_machine_id command)),
      (''expected_revision'', JInt (cmd_expected_revision command)),
      (''kind'', JStr (cmd_kind command)),
      (''payload'', cmd_payload command),
      (''scope'', jstrs (cmd_scope command)),
      (''deadline_at'', cmd_deadline_at command),
      (''parent_command_id'', cmd_parent_command_id command),
      (''idempotency_key'', cmd_idempotency_key command),
      (''payload_digest'', JStr (cmd_payload_digest command))]"

text \<open>The revision reaches the constructor as it is, which refuses anything but an integer.\<close>

definition raw_int :: "json \<Rightarrow> int res" where
  "raw_int v = (case v of JInt n \<Rightarrow> Inr n | _ \<Rightarrow> Inl ValueError)"

definition decode_delivery_command :: "hostlib \<Rightarrow> json \<Rightarrow> machine_command res" where
  "decode_delivery_command L value =
     res_bind (require_object value) (\<lambda>row.
     res_bind (require_exact row [''command_id'', ''machine_id'', ''expected_revision'', ''kind'', ''payload'',
       ''scope'', ''deadline_at'', ''parent_command_id'', ''idempotency_key'', ''payload_digest'']) (\<lambda>_.
     res_bind (res_bind (field_of row ''scope'') require_list) (\<lambda>scope.
     res_bind (res_bind (field_of row ''command_id'') require_text) (\<lambda>command_id.
     res_bind (res_bind (field_of row ''machine_id'') require_text) (\<lambda>machine_id.
     res_bind (res_bind (field_of row ''kind'') require_text) (\<lambda>kind.
     res_bind (field_of row ''payload'') (\<lambda>payload.
     res_bind (res_map require_text scope) (\<lambda>scope_items.
     res_bind (field_of row ''deadline_at'') (\<lambda>deadline_at.
     res_bind (field_of row ''parent_command_id'') (\<lambda>parent_command_id.
     res_bind (field_of row ''idempotency_key'') (\<lambda>idempotency_key.
     res_bind (res_bind (field_of row ''expected_revision'') raw_int) (\<lambda>expected_revision.
     res_bind (command_post_init L
       \<lparr>cmd_command_id = command_id, cmd_machine_id = machine_id, cmd_expected_revision = expected_revision,
        cmd_kind = kind, cmd_payload = payload, cmd_scope = scope_items, cmd_deadline_at = deadline_at,
        cmd_parent_command_id = parent_command_id, cmd_idempotency_key = idempotency_key,
        cmd_payload_digest = []\<rparr>) (\<lambda>command.
     res_bind (res_bind (field_of row ''payload_digest'') require_text) (\<lambda>stored.
     if cmd_payload_digest command \<noteq> stored then Inl MachineIntegrityError else Inr command))))))))))))))"

definition envelope_document :: "envelope \<Rightarrow> json" where
  "envelope_document e = jobj
     [(''source_machine_id'', JStr (env_source_machine_id e)),
      (''source_commit_id'', JStr (env_source_commit_id e)),
      (''command'', delivery_command_document (env_command e)),
      (''envelope_id'', JStr (env_id e)),
      (''envelope_digest'', JStr (env_digest e))]"

definition decode_envelope :: "hostlib \<Rightarrow> json \<Rightarrow> envelope res" where
  "decode_envelope L value =
     res_bind (require_object value) (\<lambda>row.
     res_bind (require_exact row [''source_machine_id'', ''source_commit_id'', ''command'', ''envelope_id'',
       ''envelope_digest'']) (\<lambda>_.
     res_bind (res_bind (field_of row ''source_machine_id'') require_text) (\<lambda>source_machine_id.
     res_bind (res_bind (field_of row ''source_commit_id'') require_text) (\<lambda>source_commit_id.
     res_bind (res_bind (field_of row ''command'') (decode_delivery_command L)) (\<lambda>command.
     res_bind (envelope_post_init L
       \<lparr>env_source_machine_id = source_machine_id, env_source_commit_id = source_commit_id,
        env_command = command, env_id = [], env_digest = []\<rparr>) (\<lambda>envelope.
     res_bind (res_bind (field_of row ''envelope_id'') require_text) (\<lambda>stored_id.
     res_bind (require (env_id envelope = stored_id) MachineIntegrityError) (\<lambda>_.
     res_bind (res_bind (field_of row ''envelope_digest'') require_text) (\<lambda>stored_digest.
     res_bind (require (env_digest envelope = stored_digest) MachineIntegrityError) (\<lambda>_.
     Inr envelope))))))))))"

definition receipt_document :: "receipt \<Rightarrow> json" where
  "receipt_document r = jobj
     [(''envelope_id'', JStr (rcp_envelope_id r)),
      (''envelope_digest'', JStr (rcp_envelope_digest r)),
      (''status'', JStr (delivery_status_value (rcp_status r))),
      (''attempt'', JInt (rcp_attempt r)),
      (''detail'', jopt_str (rcp_detail r)),
      (''receipt_digest'', JStr (rcp_digest r))]"

definition delivery_status_of :: "string \<Rightarrow> delivery_status res" where
  "delivery_status_of s =
     (case find (\<lambda>x. delivery_status_value x = s) [DS_PENDING, DS_DELIVERED, DS_FAILED, DS_UNKNOWN] of
        None \<Rightarrow> Inl ValueError | Some x \<Rightarrow> Inr x)"

definition decode_receipt :: "hostlib \<Rightarrow> json \<Rightarrow> receipt res" where
  "decode_receipt L value =
     res_bind (require_object value) (\<lambda>row.
     res_bind (require_exact row [''envelope_id'', ''envelope_digest'', ''status'', ''attempt'', ''detail'',
       ''receipt_digest'']) (\<lambda>_.
     res_bind (res_bind (field_of row ''envelope_id'') require_text) (\<lambda>envelope_id.
     res_bind (res_bind (field_of row ''envelope_digest'') require_text) (\<lambda>envelope_digest.
     res_bind (res_bind (res_bind (field_of row ''status'') require_text) delivery_status_of) (\<lambda>status.
     res_bind (res_bind (field_of row ''attempt'') raw_int) (\<lambda>attempt.
     res_bind (res_bind (field_of row ''detail'') (decode_opt_text TypeError)) (\<lambda>detail.
     res_bind (receipt_post_init L
       \<lparr>rcp_envelope_id = envelope_id, rcp_envelope_digest = envelope_digest, rcp_status = status,
        rcp_attempt = attempt, rcp_detail = detail, rcp_digest = []\<rparr>) (\<lambda>receipt.
     res_bind (res_bind (field_of row ''receipt_digest'') require_text) (\<lambda>stored.
     res_bind (require (rcp_digest receipt = stored) MachineIntegrityError) (\<lambda>_.
     Inr receipt))))))))))"

section \<open>The outbox\<close>

record dir_outbox =
  do_envelopes :: "(string, json) dict"
  do_receipts :: "string \<rightharpoonup> json"

definition empty_dir_outbox :: dir_outbox where
  "empty_dir_outbox = \<lparr>do_envelopes = [], do_receipts = Map.empty\<rparr>"

definition load_envelope :: "hostlib \<Rightarrow> dir_outbox \<Rightarrow> string \<Rightarrow> envelope option res" where
  "load_envelope L d envelope_id =
     (case map_of (do_envelopes d) envelope_id of
        None \<Rightarrow> Inr None
      | Some v \<Rightarrow> res_bind (decode_envelope L v) (\<lambda>e. Inr (Some e)))"

definition load_receipt :: "hostlib \<Rightarrow> dir_outbox \<Rightarrow> envelope \<Rightarrow> receipt res" where
  "load_receipt L d envelope =
     (case do_receipts d (env_id envelope) of
        None \<Rightarrow> pending_receipt L envelope
      | Some v \<Rightarrow>
          res_bind (decode_receipt L v) (\<lambda>receipt.
          res_bind (require (rcp_envelope_id receipt = env_id envelope \<and>
            rcp_envelope_digest receipt = env_digest envelope) MachineIntegrityError) (\<lambda>_. Inr receipt)))"

text \<open>The two writes of one emitted command, in their order.\<close>

definition write_envelope :: "envelope \<Rightarrow> dir_outbox \<Rightarrow> dir_outbox" where
  "write_envelope e d = d\<lparr>do_envelopes := dict_set (env_id e) (envelope_document e) (do_envelopes d)\<rparr>"

definition write_receipt :: "string \<Rightarrow> receipt \<Rightarrow> dir_outbox \<Rightarrow> dir_outbox" where
  "write_receipt k r d = d\<lparr>do_receipts := (do_receipts d)(k \<mapsto> receipt_document r)\<rparr>"

definition dir_enqueue_one :: "hostlib \<Rightarrow> machine_commit \<Rightarrow> machine_command \<Rightarrow> (dir_outbox, envelope) action" where
  "dir_enqueue_one L commit command d =
     (case mk_envelope L commit command of
        Inl e \<Rightarrow> (Inl e, d)
      | Inr envelope \<Rightarrow>
          (case load_envelope L d (env_id envelope) of
             Inl e \<Rightarrow> (Inl e, d)
           | Inr prior \<Rightarrow>
               if (case prior of None \<Rightarrow> False | Some p \<Rightarrow> env_digest p \<noteq> env_digest envelope)
               then (Inl MachineConflict, d)
               else (let d1 = (if prior = None then write_envelope envelope d else d) in
                 if do_receipts d1 (env_id envelope) = None then
                   (case pending_receipt L envelope of
                      Inl e \<Rightarrow> (Inl e, d1)
                    | Inr pending \<Rightarrow> (Inr envelope, write_receipt (env_id envelope) pending d1))
                 else (Inr envelope, d1))))"

definition dir_enqueue :: "hostlib \<Rightarrow> machine_commit \<Rightarrow> (dir_outbox, envelope list) action" where
  "dir_enqueue L commit = act_map (dir_enqueue_one L commit) (com_emitted_commands commit)"

definition dir_pending :: "hostlib \<Rightarrow> dir_outbox \<Rightarrow> envelope list res" where
  "dir_pending L d =
     res_bind (res_map (\<lambda>kv.
         res_bind (decode_envelope L (snd kv)) (\<lambda>envelope.
         res_bind (load_receipt L d envelope) (\<lambda>receipt. Inr (envelope, rcp_status receipt)))) (do_envelopes d)) (\<lambda>rows.
     Inr (map fst (filter (\<lambda>row. snd row \<in> {DS_PENDING, DS_UNKNOWN, DS_FAILED}) rows)))"

definition dir_mark :: "hostlib \<Rightarrow> receipt \<Rightarrow> (dir_outbox, receipt) action" where
  "dir_mark L receipt d =
     (case load_envelope L d (rcp_envelope_id receipt) of
        Inl e \<Rightarrow> (Inl e, d)
      | Inr None \<Rightarrow> (Inl KeyError, d)
      | Inr (Some envelope) \<Rightarrow>
          if env_digest envelope \<noteq> rcp_envelope_digest receipt then (Inl MachineConflict, d)
          else (case res_bind (load_receipt L d envelope) (\<lambda>current.
                    res_bind (require_delivery_receipt_transition current receipt) (\<lambda>accepted. Inr (current, accepted))) of
              Inl e \<Rightarrow> (Inl e, d)
            | Inr (current, accepted) \<Rightarrow>
                (Inr accepted, if accepted \<noteq> current then write_receipt (rcp_envelope_id receipt) accepted d else d)))"

definition dir_reconcile :: "hostlib \<Rightarrow> machine_commit list \<Rightarrow> (dir_outbox, envelope list) action" where
  "dir_reconcile L commits d =
     (case act_map (dir_enqueue L) commits d of (r, d') \<Rightarrow> (res_bind r (\<lambda>ess. Inr (concat ess)), d'))"

section \<open>The inbox\<close>

type_synonym dir_inbox = "string \<rightharpoonup> json"

definition dir_inbox_accept :: "hostlib \<Rightarrow> envelope \<Rightarrow> (dir_inbox, bool) action" where
  "dir_inbox_accept L envelope ib =
     (case ib (env_id envelope) of
        Some v \<Rightarrow>
          (case decode_envelope L v of
             Inl e \<Rightarrow> (Inl e, ib)
           | Inr prior \<Rightarrow>
               if env_digest prior \<noteq> env_digest envelope then (Inl MachineConflict, ib) else (Inr False, ib))
      | None \<Rightarrow> (Inr True, ib(env_id envelope \<mapsto> envelope_document envelope)))"

definition dir_inbox_contains :: "hostlib \<Rightarrow> dir_inbox \<Rightarrow> string \<Rightarrow> bool res" where
  "dir_inbox_contains L ib envelope_id =
     (if \<not> nonblank envelope_id then Inl ValueError
      else case ib envelope_id of None \<Rightarrow> Inr False | Some v \<Rightarrow> res_bind (decode_envelope L v) (\<lambda>_. Inr True))"

section \<open>Round trips\<close>

lemma decode_delivery_command_document:
  assumes sha: "sha_ok L" and ok: "command_ok L c"
  shows "decode_delivery_command L (delivery_command_document c) = Inr c"
proof -
  have sha': "\<And>x. is_sha256 (sha256_hex L x)" using sha by blast
  from ok have checks: "nonblank (cmd_command_id c)" "nonblank (cmd_machine_id c)" "nonblank (cmd_kind c)"
    "all_nonblank (cmd_scope c)" and dig: "cmd_payload_digest c = canonical_digest L (jobj (command_payload c))"
    by (auto simp: command_ok_def command_post_init_def res_simps all_nonblank_def
        dest: arg_cong [of _ _ cmd_payload_digest])
  have init: "command_post_init L (c\<lparr>cmd_payload_digest := []\<rparr>) = Inr c"
    using ok by (auto simp: command_ok_def command_post_init_def res_simps command_payload_def freeze_json_eq
        dest: arg_cong [of _ _ cmd_payload_digest])
  have nb: "nonblank (cmd_payload_digest c)"
    using sha' is_sha256_nonblank by (simp add: dig canonical_digest_def)
  have raw: "c\<lparr>cmd_payload_digest := []\<rparr> = \<lparr>cmd_command_id = cmd_command_id c, cmd_machine_id = cmd_machine_id c,
      cmd_expected_revision = cmd_expected_revision c, cmd_kind = cmd_kind c, cmd_payload = cmd_payload c,
      cmd_scope = cmd_scope c, cmd_deadline_at = cmd_deadline_at c,
      cmd_parent_command_id = cmd_parent_command_id c, cmd_idempotency_key = cmd_idempotency_key c,
      cmd_payload_digest = []\<rparr>"
    by simp
  show ?thesis
    unfolding decode_delivery_command_def delivery_command_document_def
    using checks nb init
    by (simp add: field_of_jobj require_exact_jobj jstrs_def res_map_require_text raw raw_int_def)
qed

definition envelope_ok :: "hostlib \<Rightarrow> envelope \<Rightarrow> bool" where
  "envelope_ok L e = (envelope_post_init L e = Inr e \<and> command_ok L (env_command e))"

definition receipt_ok :: "hostlib \<Rightarrow> receipt \<Rightarrow> bool" where
  "receipt_ok L r = (receipt_post_init L r = Inr r)"

lemma envelope_post_init_digests:
  "envelope_post_init L x = Inr e \<Longrightarrow> sha_ok L \<Longrightarrow> is_sha256 (env_id e) \<and> is_sha256 (env_digest e)"
  by (auto simp: envelope_post_init_def res_simps Let_def canonical_digest_sha256)

lemma receipt_post_init_digest: "receipt_post_init L x = Inr r \<Longrightarrow> sha_ok L \<Longrightarrow> is_sha256 (rcp_digest r)"
  by (auto simp: receipt_post_init_def res_simps canonical_digest_sha256)

lemma envelope_ok_facts:
  assumes "sha_ok L" "envelope_ok L e"
  shows "nonblank (env_source_machine_id e)" "nonblank (env_source_commit_id e)" "is_sha256 (env_id e)" "is_sha256 (env_digest e)"
proof -
  show "nonblank (env_source_machine_id e)" "nonblank (env_source_commit_id e)"
    using assms(2) by (auto simp: envelope_ok_def envelope_post_init_def res_simps)
  show "is_sha256 (env_id e)" "is_sha256 (env_digest e)"
    using assms envelope_post_init_digests by (auto simp: envelope_ok_def)
qed

lemma envelope_post_init_raw:
  "envelope_post_init L (e\<lparr>env_id := [], env_digest := []\<rparr>) = envelope_post_init L e"
  by (simp add: envelope_post_init_def Let_def)

lemma decode_envelope_document:
  assumes "sha_ok L" "envelope_ok L e"
  shows "decode_envelope L (envelope_document e) = Inr e"
proof -
  note facts = envelope_ok_facts [OF assms]
  have cmd: "decode_delivery_command L (delivery_command_document (env_command e)) = Inr (env_command e)"
    using assms by (simp add: envelope_ok_def decode_delivery_command_document)
  have raw: "\<lparr>env_source_machine_id = env_source_machine_id e, env_source_commit_id = env_source_commit_id e,
      env_command = env_command e, env_id = [], env_digest = []\<rparr> = e\<lparr>env_id := [], env_digest := []\<rparr>" by simp
  have init: "envelope_post_init L (e\<lparr>env_id := [], env_digest := []\<rparr>) = Inr e"
    unfolding envelope_post_init_raw using assms(2) by (simp add: envelope_ok_def)
  show ?thesis
    unfolding decode_envelope_def envelope_document_def
    using facts(1,2) is_sha256_nonblank [OF facts(3)] is_sha256_nonblank [OF facts(4)]
    by (simp add: field_of_jobj require_exact_jobj cmd raw init)
qed

lemma delivery_status_round_trip: "delivery_status_of (delivery_status_value s) = Inr s"
  by (cases s) (simp_all add: delivery_status_of_def)

lemma decode_receipt_document:
  assumes "sha_ok L" "receipt_ok L r"
  shows "decode_receipt L (receipt_document r) = Inr r"
proof -
  from assms(2) have parts: "nonblank (rcp_envelope_id r)" "nonblank (rcp_envelope_digest r)" "0 \<le> rcp_attempt r"
    by (auto simp: receipt_ok_def receipt_post_init_def res_simps)
  have nb: "nonblank (rcp_digest r)"
    using assms receipt_post_init_digest is_sha256_nonblank by (auto simp: receipt_ok_def)
  have init: "receipt_post_init L (r\<lparr>rcp_digest := []\<rparr>) = Inr r"
    using assms(2) by (auto simp: receipt_ok_def receipt_post_init_def res_simps dest: arg_cong [of _ _ rcp_digest])
  have raw: "\<lparr>rcp_envelope_id = rcp_envelope_id r, rcp_envelope_digest = rcp_envelope_digest r, rcp_status = rcp_status r,
      rcp_attempt = rcp_attempt r, rcp_detail = rcp_detail r, rcp_digest = []\<rparr> = r\<lparr>rcp_digest := []\<rparr>" by simp
  have status: "nonblank (delivery_status_value (rcp_status r))"
    by (cases "rcp_status r") (simp_all add: nonblank_iff py_isspace_def)
  show ?thesis
    unfolding decode_receipt_def receipt_document_def
    using parts nb status by (simp add: field_of_jobj require_exact_jobj delivery_status_round_trip raw_int_def raw init)
qed

section \<open>The durable outbox refines the outbox\<close>

text \<open>
  The files represent an outbox: every envelope has its file, up to its identity and digest, and every
  receipt has its file or is the first one and its file was not written before a crash.
\<close>

definition outbox_files :: "hostlib \<Rightarrow> dir_outbox \<Rightarrow> outbox \<Rightarrow> bool" where
  "outbox_files L d ob =
     (outbox_wf ob \<and> dict_wf (do_envelopes d) \<and>
      (\<forall>k. case map_of (out_envelopes ob) k of
         None \<Rightarrow> map_of (do_envelopes d) k = None \<and> do_receipts d k = None
       | Some e \<Rightarrow> (\<exists>e'. map_of (do_envelopes d) k = Some (envelope_document e') \<and> envelope_ok L e' \<and>
             env_id e' = k \<and> env_digest e' = env_digest e) \<and>
           (\<exists>r. out_receipts ob k = Some r \<and> receipt_ok L r \<and>
             (do_receipts d k = Some (receipt_document r) \<or> do_receipts d k = None \<and> pending_receipt L e = Inr r))))"

lemma outbox_filesD:
  assumes "outbox_files L d ob"
  shows "outbox_wf ob" "dict_wf (do_envelopes d)"
    "map_of (out_envelopes ob) k = None \<Longrightarrow> map_of (do_envelopes d) k = None \<and> do_receipts d k = None"
    "map_of (out_envelopes ob) k = Some e \<Longrightarrow> \<exists>e' r. map_of (do_envelopes d) k = Some (envelope_document e') \<and> envelope_ok L e' \<and>
       env_id e' = k \<and> env_digest e' = env_digest e \<and> out_receipts ob k = Some r \<and> receipt_ok L r \<and>
       (do_receipts d k = Some (receipt_document r) \<or> do_receipts d k = None \<and> pending_receipt L e = Inr r)"
proof -
  have files: "case map_of (out_envelopes ob) k of
         None \<Rightarrow> map_of (do_envelopes d) k = None \<and> do_receipts d k = None
       | Some e \<Rightarrow> (\<exists>e'. map_of (do_envelopes d) k = Some (envelope_document e') \<and> envelope_ok L e' \<and>
             env_id e' = k \<and> env_digest e' = env_digest e) \<and>
           (\<exists>r. out_receipts ob k = Some r \<and> receipt_ok L r \<and>
             (do_receipts d k = Some (receipt_document r) \<or> do_receipts d k = None \<and> pending_receipt L e = Inr r))"
    using assms unfolding outbox_files_def by blast
  show "outbox_wf ob" "dict_wf (do_envelopes d)" using assms by (simp_all add: outbox_files_def)
  show "map_of (out_envelopes ob) k = None \<Longrightarrow> map_of (do_envelopes d) k = None \<and> do_receipts d k = None"
    using files by simp
  show "map_of (out_envelopes ob) k = Some e \<Longrightarrow> \<exists>e' r. map_of (do_envelopes d) k = Some (envelope_document e') \<and> envelope_ok L e' \<and>
       env_id e' = k \<and> env_digest e' = env_digest e \<and> out_receipts ob k = Some r \<and> receipt_ok L r \<and>
       (do_receipts d k = Some (receipt_document r) \<or> do_receipts d k = None \<and> pending_receipt L e = Inr r)"
    using files by auto
qed

lemma pending_receipt_same: "env_id e = env_id e' \<Longrightarrow> env_digest e = env_digest e' \<Longrightarrow> pending_receipt L e = pending_receipt L e'"
  by (simp add: pending_receipt_def)

text \<open>Loading an envelope and its receipt.\<close>

lemma load_files:
  assumes sha: "sha_ok L" and files: "outbox_files L d ob"
  shows "map_of (out_envelopes ob) k = None \<Longrightarrow> load_envelope L d k = Inr None"
    "map_of (out_envelopes ob) k = Some e \<Longrightarrow> \<exists>e' r. load_envelope L d k = Inr (Some e') \<and> env_id e' = k \<and>
       env_digest e' = env_digest e \<and> out_receipts ob k = Some r \<and> load_receipt L d e' = Inr r"
proof -
  show "map_of (out_envelopes ob) k = None \<Longrightarrow> load_envelope L d k = Inr None"
    using outbox_filesD(3) [OF files, of k] by (simp add: load_envelope_def)
  assume k: "map_of (out_envelopes ob) k = Some e"
  from outbox_filesD(4) [OF files k] obtain e' r where e': "map_of (do_envelopes d) k = Some (envelope_document e')"
      "envelope_ok L e'" "env_id e' = k" "env_digest e' = env_digest e"
    and r: "out_receipts ob k = Some r" "receipt_ok L r"
      "do_receipts d k = Some (receipt_document r) \<or> do_receipts d k = None \<and> pending_receipt L e = Inr r" by blast
  have wf: "rcp_envelope_id r = k" "rcp_envelope_digest r = env_digest e" "env_id e = k"
    using outbox_filesD(1) [OF files] k r(1) unfolding outbox_wf_def by (fastforce dest: map_of_SomeD)+
  have "load_receipt L d e' = Inr r"
    using r(3) e' wf pending_receipt_same [of e e' L] decode_receipt_document [OF sha r(2)]
    by (auto simp: load_receipt_def)
  with e' r show "\<exists>e' r. load_envelope L d k = Inr (Some e') \<and> env_id e' = k \<and>
       env_digest e' = env_digest e \<and> out_receipts ob k = Some r \<and> load_receipt L d e' = Inr r"
    using decode_envelope_document [OF sha e'(2)] by (auto simp: load_envelope_def)
qed

text \<open>Writing the files of one envelope.\<close>

lemma outbox_files_put:
  assumes files: "outbox_files L d ob" and wf: "outbox_wf ob'" "dict_wf (do_envelopes d')"
    and env: "map_of (out_envelopes ob') = (map_of (out_envelopes ob))(k \<mapsto> e)" "out_receipts ob' = (out_receipts ob)(k \<mapsto> r)"
    and e': "envelope_ok L e'" "env_id e' = k" "env_digest e' = env_digest e" "receipt_ok L r"
    and docs: "map_of (do_envelopes d') = (map_of (do_envelopes d))(k \<mapsto> envelope_document e')"
      "\<And>j. j \<noteq> k \<Longrightarrow> do_receipts d' j = do_receipts d j"
      "do_receipts d' k = Some (receipt_document r) \<or> do_receipts d' k = None \<and> pending_receipt L e = Inr r"
  shows "outbox_files L d' ob'"
  unfolding outbox_files_def
proof (intro conjI allI wf)
  fix j
  show "case map_of (out_envelopes ob') j of
         None \<Rightarrow> map_of (do_envelopes d') j = None \<and> do_receipts d' j = None
       | Some e \<Rightarrow> (\<exists>e'. map_of (do_envelopes d') j = Some (envelope_document e') \<and> envelope_ok L e' \<and>
             env_id e' = j \<and> env_digest e' = env_digest e) \<and>
           (\<exists>r. out_receipts ob' j = Some r \<and> receipt_ok L r \<and>
             (do_receipts d' j = Some (receipt_document r) \<or> do_receipts d' j = None \<and> pending_receipt L e = Inr r))"
  proof (cases "j = k")
    case True
    with env e' docs show ?thesis by auto
  next
    case False
    with env(1) docs have same: "map_of (out_envelopes ob') j = map_of (out_envelopes ob) j"
      "out_receipts ob' j = out_receipts ob j" "map_of (do_envelopes d') j = map_of (do_envelopes d) j"
      "do_receipts d' j = do_receipts d j" by (simp_all add: env(2))
    then show ?thesis unfolding same using files unfolding outbox_files_def by (auto split: option.splits)
  qed
qed

lemma mk_envelope_ok:
  assumes "mk_envelope L commit command = Inr e" "command_ok L command"
  shows "envelope_ok L e"
proof -
  have "env_command e = command" using mk_envelope_Inr [OF assms(1)] by simp
  moreover have "envelope_post_init L e = Inr e"
    using assms(1) by (auto simp: mk_envelope_def envelope_post_init_def res_simps Let_def)
  ultimately show ?thesis using assms(2) by (simp add: envelope_ok_def)
qed

lemma pending_receipt_okD: "pending_receipt L e = Inr p \<Longrightarrow> receipt_ok L p"
  by (auto simp: pending_receipt_def receipt_post_init_def receipt_ok_def res_simps)

text \<open>
  An emitted command: the same answer, and the files represent the same outbox, also when the
  process stops after the envelope was written.
\<close>

lemma dir_enqueue_one_refines:
  assumes sha: "sha_ok L" and files: "outbox_files L d ob" and cmd: "command_ok L command"
  shows "fst (dir_enqueue_one L commit command d) = fst (enqueue_one L commit command ob) \<and>
    outbox_files L (snd (dir_enqueue_one L commit command d)) (snd (enqueue_one L commit command ob)) \<and>
    (\<forall>e. fst (enqueue_one L commit command ob) = Inr e \<longrightarrow>
       outbox_files L (if map_of (do_envelopes d) (env_id e) = None then write_envelope e d else d) (snd (enqueue_one L commit command ob)))"
proof (cases "mk_envelope L commit command")
  case (Inl e)
  then show ?thesis using files by (simp add: dir_enqueue_one_def enqueue_one_def)
next
  case (Inr e)
  note eok = mk_envelope_ok [OF Inr cmd]
  obtain p where p: "pending_receipt L e = Inr p"
    using pending_receipt_ok mk_envelope_digests [OF sha Inr] by blast
  note wf = outbox_filesD(1,2) [OF files]
  obtain r' ob' where mem: "enqueue_one L commit command ob = (r', ob')" by (cases "enqueue_one L commit command ob")
  have wf': "outbox_wf ob'" using enqueue_one_wf_le [OF sha wf(1) mem] by simp
  show ?thesis
  proof (cases "map_of (out_envelopes ob) (env_id e)")
    case None
    have nor: "out_receipts ob (env_id e) = None" using wf(1) None unfolding outbox_wf_def by metis
    have m: "r' = Inr e" "ob' = ob\<lparr>out_envelopes := AList.update (env_id e) e (out_envelopes ob),
        out_receipts := (out_receipts ob)(env_id e \<mapsto> p)\<rparr>"
      using mem Inr None nor p by (auto simp: enqueue_one_def prior_differs_def Let_def)
    have dir: "dir_enqueue_one L commit command d = (Inr e, write_receipt (env_id e) p (write_envelope e d))"
      using Inr p load_files(1) [OF sha files None] outbox_filesD(3) [OF files None]
      by (simp add: dir_enqueue_one_def Let_def write_envelope_def)
    have put: "outbox_files L d' ob'" if "do_envelopes d' = dict_set (env_id e) (envelope_document e) (do_envelopes d)"
      "\<And>j. j \<noteq> env_id e \<Longrightarrow> do_receipts d' j = do_receipts d j"
      "do_receipts d' (env_id e) = Some (receipt_document p) \<or> do_receipts d' (env_id e) = None" for d'
      by (rule outbox_files_put [OF files wf', of d' "env_id e" e p e])
        (use that m eok pending_receipt_okD [OF p] p wf(2) in \<open>auto simp: map_of_alist_update dict_wf_set\<close>)
    have "outbox_files L (write_receipt (env_id e) p (write_envelope e d)) ob'"
      by (rule put) (simp_all add: write_receipt_def write_envelope_def)
    moreover have "outbox_files L (write_envelope e d) ob'"
      by (rule put) (use outbox_filesD(3) [OF files None] in \<open>simp_all add: write_envelope_def\<close>)
    ultimately show ?thesis using mem m(1) dir outbox_filesD(3) [OF files None] by simp
  next
    case (Some e0)
    from load_files(2) [OF sha files Some] obtain e' r where ld: "load_envelope L d (env_id e) = Inr (Some e')"
      "env_id e' = env_id e" "env_digest e' = env_digest e0" "out_receipts ob (env_id e) = Some r" "load_receipt L d e' = Inr r"
      by blast
    show ?thesis
    proof (cases "env_digest e0 = env_digest e")
      case False
      then have "dir_enqueue_one L commit command d = (Inl MachineConflict, d)" "enqueue_one L commit command ob = (Inl MachineConflict, ob)"
        using Inr ld Some by (simp_all add: dir_enqueue_one_def enqueue_one_def prior_differs_def)
      then show ?thesis using files by simp
    next
      case True
      have m: "r' = Inr e" "ob' = ob\<lparr>out_envelopes := AList.update (env_id e) e (out_envelopes ob)\<rparr>"
        using mem Inr Some True p ld(4) by (auto simp: enqueue_one_def prior_differs_def Let_def)
      from outbox_filesD(4) [OF files Some] obtain e1 where e1: "map_of (do_envelopes d) (env_id e) = Some (envelope_document e1)"
        "envelope_ok L e1" "env_id e1 = env_id e" "env_digest e1 = env_digest e0" "receipt_ok L r"
        "do_receipts d (env_id e) = Some (receipt_document r) \<or> do_receipts d (env_id e) = None \<and> pending_receipt L e0 = Inr r"
        using ld(4) by auto
      have e0id: "env_id e0 = env_id e" using wf(1) Some unfolding outbox_wf_def by (fastforce dest: map_of_SomeD)
      have rp: "do_receipts d (env_id e) = None \<longrightarrow> r = p"
        using e1(6) pending_receipt_same [OF e0id True, of L] p by auto
      define d' where "d' = (if do_receipts d (env_id e) = None then write_receipt (env_id e) p d else d)"
      have dir: "dir_enqueue_one L commit command d = (Inr e, d')"
        using Inr p ld(1,3) True by (simp add: dir_enqueue_one_def Let_def d'_def)
      have put: "outbox_files L x ob'" if x: "x = d \<or> x = d'" for x
      proof (rule outbox_files_put [OF files wf', of x "env_id e" e r e1])
        show "map_of (do_envelopes x) = (map_of (do_envelopes d))(env_id e \<mapsto> envelope_document e1)"
          using e1(1) x by (auto simp: d'_def write_receipt_def map_upd_triv)
        show "out_receipts ob' = (out_receipts ob)(env_id e \<mapsto> r)" using ld(4) by (simp add: m(2) map_upd_triv)
        show "do_receipts x (env_id e) = Some (receipt_document r) \<or> do_receipts x (env_id e) = None \<and> pending_receipt L e = Inr r"
          using e1(6) rp p x by (auto simp: d'_def write_receipt_def)
        show "do_receipts x j = do_receipts d j" if "j \<noteq> env_id e" for j
          using x that by (auto simp: d'_def write_receipt_def)
        show "dict_wf (do_envelopes x)" using x wf(2) by (auto simp: d'_def write_receipt_def)
      qed (use m(2) e1 True in \<open>simp_all add: map_of_alist_update\<close>)
      show ?thesis using mem m(1) dir e1(1) put [of d] put [of d'] by simp
    qed
  qed
qed

text \<open>A loop refines a loop step by step.\<close>

lemma act_map_refines:
  assumes step: "\<And>x s t. x \<in> set xs \<Longrightarrow> R s t \<Longrightarrow> fst (f x s) = fst (g x t) \<and> R (snd (f x s)) (snd (g x t))"
  shows "R s t \<Longrightarrow> fst (act_map f xs s) = fst (act_map g xs t) \<and> R (snd (act_map f xs s)) (snd (act_map g xs t))"
  using step
proof (induction xs arbitrary: s t)
  case (Cons x xs)
  from Cons.prems have one: "fst (f x s) = fst (g x t)" "R (snd (f x s)) (snd (g x t))" by auto
  show ?case
  proof (cases "fst (g x t)")
    case (Inl e)
    with one show ?thesis by (cases "f x s"; cases "g x t") (simp add: act_bind_def)
  next
    case (Inr y)
    have "fst (act_map f xs (snd (f x s))) = fst (act_map g xs (snd (g x t))) \<and>
        R (snd (act_map f xs (snd (f x s)))) (snd (act_map g xs (snd (g x t))))"
      using Cons.IH [OF one(2)] Cons.prems(2) by simp
    with Inr one show ?thesis
      by (cases "f x s"; cases "g x t"; cases "act_map f xs (snd (f x s))"; cases "act_map g xs (snd (g x t))")
        (auto simp: act_bind_def act_lift_def split: sum.splits)
  qed
qed simp

definition emits_ok :: "hostlib \<Rightarrow> machine_commit \<Rightarrow> bool" where
  "emits_ok L c = (\<forall>x \<in> set (com_emitted_commands c). command_ok L x)"

lemma dir_enqueue_refines:
  assumes "sha_ok L" "outbox_files L d ob" "emits_ok L commit"
  shows "fst (dir_enqueue L commit d) = fst (outbox_enqueue L commit ob) \<and>
    outbox_files L (snd (dir_enqueue L commit d)) (snd (outbox_enqueue L commit ob))"
  unfolding dir_enqueue_def outbox_enqueue_def
  by (rule act_map_refines [where R = "outbox_files L"])
    (use assms dir_enqueue_one_refines [OF assms(1)] in \<open>auto simp: emits_ok_def\<close>)

lemma dir_reconcile_refines:
  assumes "sha_ok L" "outbox_files L d ob" "\<forall>c \<in> set commits. emits_ok L c"
  shows "fst (dir_reconcile L commits d) = fst (outbox_reconcile L commits ob) \<and>
    outbox_files L (snd (dir_reconcile L commits d)) (snd (outbox_reconcile L commits ob))"
  using act_map_refines [of commits "outbox_files L" "dir_enqueue L" "outbox_enqueue L" d ob]
    dir_enqueue_refines [OF assms(1)] assms(2,3)
  by (auto simp: dir_reconcile_def outbox_reconcile_def split: prod.split)

lemma dir_mark_refines:
  assumes sha: "sha_ok L" and files: "outbox_files L d ob" and rok: "receipt_ok L receipt"
  shows "fst (dir_mark L receipt d) = fst (outbox_mark receipt ob) \<and>
    outbox_files L (snd (dir_mark L receipt d)) (snd (outbox_mark receipt ob))"
proof (cases "map_of (out_envelopes ob) (rcp_envelope_id receipt)")
  case None
  then show ?thesis using load_files(1) [OF sha files None] files by (simp add: dir_mark_def outbox_mark_def)
next
  case (Some e)
  let ?k = "rcp_envelope_id receipt"
  from load_files(2) [OF sha files Some] obtain e' r where ld: "load_envelope L d ?k = Inr (Some e')"
    "env_digest e' = env_digest e" "out_receipts ob ?k = Some r" "load_receipt L d e' = Inr r" by blast
  show ?thesis
  proof (cases "env_digest e = rcp_envelope_digest receipt")
    case False
    then show ?thesis using ld Some files by (simp add: dir_mark_def outbox_mark_def)
  next
    case True
    show ?thesis
    proof (cases "require_delivery_receipt_transition r receipt")
      case (Inl x)
      then show ?thesis using ld Some True files by (simp add: dir_mark_def outbox_mark_def)
    next
      case (Inr accepted)
      then have acc: "accepted = receipt" using receipt_transition_le by blast
      have mem: "outbox_mark receipt ob = (Inr receipt, ob\<lparr>out_receipts := (out_receipts ob)(?k \<mapsto> receipt)\<rparr>)"
        using ld Some True Inr acc by (simp add: outbox_mark_def)
      define d' where "d' = (if receipt \<noteq> r then write_receipt ?k receipt d else d)"
      have dir: "dir_mark L receipt d = (Inr receipt, d')"
        using ld True Inr acc by (simp add: dir_mark_def d'_def)
      from outbox_filesD(4) [OF files Some] obtain e1 where e1: "map_of (do_envelopes d) ?k = Some (envelope_document e1)"
        "envelope_ok L e1" "env_id e1 = ?k" "env_digest e1 = env_digest e"
        "do_receipts d ?k = Some (receipt_document r) \<or> do_receipts d ?k = None \<and> pending_receipt L e = Inr r"
        using ld(3) by auto
      have "outbox_files L d' (ob\<lparr>out_receipts := (out_receipts ob)(?k \<mapsto> receipt)\<rparr>)"
      proof (rule outbox_files_put [OF files, of _ d' ?k e receipt e1])
        show "outbox_wf (ob\<lparr>out_receipts := (out_receipts ob)(?k \<mapsto> receipt)\<rparr>)"
          using outbox_mark_wf_le [OF _ mem] outbox_filesD(1) [OF files] by blast
        show "map_of (do_envelopes d') = (map_of (do_envelopes d))(?k \<mapsto> envelope_document e1)"
          using e1(1) by (simp add: d'_def write_receipt_def map_upd_triv)
        show "do_receipts d' ?k = Some (receipt_document receipt) \<or> do_receipts d' ?k = None \<and> pending_receipt L e = Inr receipt"
          using e1(5) by (auto simp: d'_def write_receipt_def)
      qed (use Some e1 rok outbox_filesD(2) [OF files] in \<open>simp_all add: d'_def write_receipt_def map_upd_triv\<close>)
      then show ?thesis using mem dir by simp
    qed
  qed
qed

text \<open>The pending list: the same identities, in the order of the file names.\<close>

lemma dir_pending_refines:
  assumes sha: "sha_ok L" and files: "outbox_files L d ob"
  shows "\<exists>es ds. outbox_pending ob = Inr es \<and> dir_pending L d = Inr ds \<and>
    set (map (\<lambda>e. (env_id e, env_digest e)) ds) = set (map (\<lambda>e. (env_id e, env_digest e)) es)"
proof -
  obtain es where es: "outbox_pending ob = Inr es" "\<And>e. e \<in> set es \<longleftrightarrow> map_of (out_envelopes ob) (env_id e) = Some e \<and>
      (\<exists>r. out_receipts ob (env_id e) = Some r \<and> rcp_status r \<noteq> DS_DELIVERED)"
    using outbox_pending_ok [OF outbox_filesD(1) [OF files]] by blast
  have key: "\<exists>e e' r. map_of (out_envelopes ob) k = Some e \<and> decode_envelope L v = Inr e' \<and> env_id e' = k \<and> env_id e = k \<and>
      env_digest e' = env_digest e \<and> out_receipts ob k = Some r \<and> load_receipt L d e' = Inr r"
    if "(k, v) \<in> set (do_envelopes d)" for k v
  proof -
    have v: "map_of (do_envelopes d) k = Some v" using that outbox_filesD(2) [OF files] by (simp add: map_of_mem)
    then obtain e where e: "map_of (out_envelopes ob) k = Some e" using outbox_filesD(3) [OF files, of k] by fastforce
    have "env_id e = k" using outbox_filesD(1) [OF files] e unfolding outbox_wf_def by (fastforce dest: map_of_SomeD)
    moreover from load_files(2) [OF sha files e] obtain e' r where "load_envelope L d k = Inr (Some e')" "env_id e' = k"
       "env_digest e' = env_digest e" "out_receipts ob k = Some r" "load_receipt L d e' = Inr r" by blast
    ultimately show ?thesis using e v by (auto simp: load_envelope_def res_simps)
  qed
  define dec where "dec kv = projr (decode_envelope L (snd kv))" for kv :: "string \<times> json"
  define st where "st e = rcp_status (projr (load_receipt L d e))" for e
  have rows: "res_map (\<lambda>kv. res_bind (decode_envelope L (snd kv)) (\<lambda>envelope.
         res_bind (load_receipt L d envelope) (\<lambda>receipt. Inr (envelope, rcp_status receipt)))) (do_envelopes d) =
      Inr (map (\<lambda>kv. (dec kv, st (dec kv))) (do_envelopes d))"
    by (rule res_map_all_Inr) (use key in \<open>fastforce simp: dec_def st_def\<close>)
  have delivered: "(s = DS_PENDING \<or> s = DS_UNKNOWN \<or> s = DS_FAILED) \<longleftrightarrow> s \<noteq> DS_DELIVERED" for s
    by (cases s) simp_all
  define ds where "ds = map dec (filter (\<lambda>kv. st (dec kv) \<noteq> DS_DELIVERED) (do_envelopes d))"
  have pend: "dir_pending L d = Inr ds"
    unfolding dir_pending_def rows by (simp add: ds_def delivered filter_map comp_def)
  have "(i, g) \<in> set (map (\<lambda>e. (env_id e, env_digest e)) ds) \<longleftrightarrow> (i, g) \<in> set (map (\<lambda>e. (env_id e, env_digest e)) es)" for i g
  proof
    assume "(i, g) \<in> set (map (\<lambda>e. (env_id e, env_digest e)) ds)"
    then obtain k v where kv: "(k, v) \<in> set (do_envelopes d)" "st (dec (k, v)) \<noteq> DS_DELIVERED"
      "i = env_id (dec (k, v))" "g = env_digest (dec (k, v))" by (auto simp: ds_def)
    from key [OF kv(1)] obtain e e' r where x: "map_of (out_envelopes ob) k = Some e" "decode_envelope L v = Inr e'" "env_id e' = k"
      "env_id e = k" "env_digest e' = env_digest e" "out_receipts ob k = Some r" "load_receipt L d e' = Inr r" by blast
    have "e \<in> set es" using x kv(2) unfolding es(2) by (simp add: dec_def st_def)
    moreover have "i = env_id e" "g = env_digest e" using x kv(3,4) by (simp_all add: dec_def)
    ultimately show "(i, g) \<in> set (map (\<lambda>e. (env_id e, env_digest e)) es)" by simp
  next
    assume "(i, g) \<in> set (map (\<lambda>e. (env_id e, env_digest e)) es)"
    then obtain e where e: "e \<in> set es" "i = env_id e" "g = env_digest e" by auto
    then obtain r where m: "map_of (out_envelopes ob) (env_id e) = Some e" "out_receipts ob (env_id e) = Some r" "rcp_status r \<noteq> DS_DELIVERED"
      unfolding es(2) by blast
    from outbox_filesD(4) [OF files m(1)] obtain v where v: "(env_id e, v) \<in> set (do_envelopes d)" by (blast dest: map_of_SomeD)
    from key [OF v] m have "dec (env_id e, v) \<in> set ds" "env_id (dec (env_id e, v)) = env_id e" "env_digest (dec (env_id e, v)) = env_digest e"
      using v by (auto simp: ds_def dec_def st_def intro!: image_eqI [of _ _ "(env_id e, v)"])
    then show "(i, g) \<in> set (map (\<lambda>e. (env_id e, env_digest e)) ds)" using e(2,3)
      by (simp only: set_map image_iff) (metis)
  qed
  then have "set (map (\<lambda>e. (env_id e, env_digest e)) ds) = set (map (\<lambda>e. (env_id e, env_digest e)) es)" by auto
  with es(1) pend show ?thesis by blast
qed

section \<open>The durable inbox refines the inbox\<close>

definition inbox_files :: "hostlib \<Rightarrow> dir_inbox \<Rightarrow> inbox \<Rightarrow> bool" where
  "inbox_files L d ib = (\<forall>k. case ib k of None \<Rightarrow> d k = None
     | Some e \<Rightarrow> d k = Some (envelope_document e) \<and> envelope_ok L e)"

lemma dir_inbox_refines:
  assumes sha: "sha_ok L" and files: "inbox_files L d ib" and ok: "envelope_ok L e"
  shows "fst (dir_inbox_accept L e d) = fst (inbox_accept e ib) \<and>
    inbox_files L (snd (dir_inbox_accept L e d)) (snd (inbox_accept e ib)) \<and>
    dir_inbox_contains L d k = inbox_contains ib k"
proof -
  have at: "case ib j of None \<Rightarrow> d j = None | Some e \<Rightarrow> d j = Some (envelope_document e) \<and> envelope_ok L e" for j
    using files by (simp add: inbox_files_def)
  have "dir_inbox_contains L d k = inbox_contains ib k"
    using at [of k] decode_envelope_document [OF sha] by (auto simp: dir_inbox_contains_def inbox_contains_def split: option.splits)
  moreover have "fst (dir_inbox_accept L e d) = fst (inbox_accept e ib) \<and>
    inbox_files L (snd (dir_inbox_accept L e d)) (snd (inbox_accept e ib))"
  proof (cases "ib (env_id e)")
    case None
    with at [of "env_id e"] have acc: "dir_inbox_accept L e d = (Inr True, d(env_id e \<mapsto> envelope_document e))"
      "inbox_accept e ib = (Inr True, ib(env_id e \<mapsto> e))" by (simp_all add: dir_inbox_accept_def inbox_accept_def)
    have "inbox_files L (d(env_id e \<mapsto> envelope_document e)) (ib(env_id e \<mapsto> e))"
      unfolding inbox_files_def using at ok by (auto simp: fun_upd_def cong: option.case_cong)
    with acc show ?thesis by simp
  next
    case (Some p)
    with at [of "env_id e"] have "d (env_id e) = Some (envelope_document p)" "envelope_ok L p" by simp_all
    with Some have "fst (dir_inbox_accept L e d) = fst (inbox_accept e ib)" "snd (dir_inbox_accept L e d) = d" "snd (inbox_accept e ib) = ib"
      using decode_envelope_document [OF sha] by (simp_all add: dir_inbox_accept_def inbox_accept_def)
    with files show ?thesis by simp
  qed
  ultimately show ?thesis by blast
qed

section \<open>Any sequence of calls, with crashes\<close>

text \<open>
  A crash during an enqueue leaves a prefix of the emitted commands stored; between the two writes of
  one command it leaves its envelope without a receipt.
\<close>

datatype outbox_call =
    Enqueue machine_commit
  | EnqueuePrefix machine_commit nat
  | EnqueueTorn machine_commit machine_command
  | Reconcile "machine_commit list"
  | Mark receipt

fun outbox_call_ok :: "hostlib \<Rightarrow> outbox_call \<Rightarrow> bool" where
  "outbox_call_ok L (Enqueue c) = emits_ok L c"
| "outbox_call_ok L (EnqueuePrefix c n) = emits_ok L c"
| "outbox_call_ok L (EnqueueTorn c command) = command_ok L command"
| "outbox_call_ok L (Reconcile cs) = (\<forall>c \<in> set cs. emits_ok L c)"
| "outbox_call_ok L (Mark r) = receipt_ok L r"

text \<open>A crash answers nothing.\<close>

definition crashed :: "('s, 'a) action \<Rightarrow> ('s, 'b list + receipt) action" where
  "crashed f s = (Inr (Inl []), snd (f s))"

fun mem_outbox_call :: "hostlib \<Rightarrow> outbox_call \<Rightarrow> (outbox, envelope list + receipt) action" where
  "mem_outbox_call L (Enqueue c) = act_answer Inl (outbox_enqueue L c)"
| "mem_outbox_call L (EnqueuePrefix c n) = crashed (act_map (enqueue_one L c) (take n (com_emitted_commands c)))"
| "mem_outbox_call L (EnqueueTorn c command) = crashed (enqueue_one L c command)"
| "mem_outbox_call L (Reconcile cs) = act_answer Inl (outbox_reconcile L cs)"
| "mem_outbox_call L (Mark r) = act_answer Inr (outbox_mark r)"

definition dir_torn_write :: "hostlib \<Rightarrow> machine_commit \<Rightarrow> machine_command \<Rightarrow> (dir_outbox, envelope) action" where
  "dir_torn_write L commit command d =
     (case dir_enqueue_one L commit command d of
        (Inl e, _) \<Rightarrow> (Inl e, d)
      | (Inr e, _) \<Rightarrow> (Inr e, if map_of (do_envelopes d) (env_id e) = None then write_envelope e d else d))"

fun dir_outbox_call :: "hostlib \<Rightarrow> outbox_call \<Rightarrow> (dir_outbox, envelope list + receipt) action" where
  "dir_outbox_call L (Enqueue c) = act_answer Inl (dir_enqueue L c)"
| "dir_outbox_call L (EnqueuePrefix c n) = crashed (act_map (dir_enqueue_one L c) (take n (com_emitted_commands c)))"
| "dir_outbox_call L (EnqueueTorn c command) = crashed (dir_torn_write L c command)"
| "dir_outbox_call L (Reconcile cs) = act_answer Inl (dir_reconcile L cs)"
| "dir_outbox_call L (Mark r) = act_answer Inr (dir_mark L r)"

lemma simulates_crashed: "simulates R f g \<Longrightarrow> simulates R (crashed f) (crashed g)"
  by (simp add: simulates_def crashed_def)

lemma dir_torn_write_simulates:
  assumes "sha_ok L" "command_ok L command"
  shows "simulates (outbox_files L) (crashed (dir_torn_write L c command)) (crashed (enqueue_one L c command))"
proof (rule simulatesI)
  fix d ob assume files: "outbox_files L d ob"
  note one = dir_enqueue_one_refines [OF assms(1) files assms(2), of c]
  have "outbox_files L (snd (dir_torn_write L c command d)) (snd (enqueue_one L c command ob))"
  proof (cases "fst (enqueue_one L c command ob)")
    case (Inl e)
    have "\<exists>p. pending_receipt L x = Inr p" if "mk_envelope L c command = Inr x" for x
      using pending_receipt_ok mk_envelope_digests [OF assms(1) that] by blast
    with Inl have "snd (enqueue_one L c command ob) = ob"
      by (fastforce simp: enqueue_one_def Let_def split: sum.splits if_splits option.splits)
    with Inl one files show ?thesis by (cases "dir_enqueue_one L c command d") (simp add: dir_torn_write_def)
  next
    case (Inr e)
    with one show ?thesis by (cases "dir_enqueue_one L c command d") (simp add: dir_torn_write_def)
  qed
  then show "fst (crashed (dir_torn_write L c command) d) = fst (crashed (enqueue_one L c command) ob) \<and>
      outbox_files L (snd (crashed (dir_torn_write L c command) d)) (snd (crashed (enqueue_one L c command) ob))"
    by (simp add: crashed_def)
qed

lemma dir_enqueue_prefix_simulates:
  assumes "sha_ok L" "emits_ok L c"
  shows "simulates (outbox_files L) (act_map (dir_enqueue_one L c) (take n (com_emitted_commands c)))
    (act_map (enqueue_one L c) (take n (com_emitted_commands c)))"
  by (rule simulatesI, rule act_map_refines [where R = "outbox_files L"])
    (use assms dir_enqueue_one_refines [OF assms(1)] in \<open>auto simp: emits_ok_def dest: in_set_takeD\<close>)

interpretation dirout: refined_service "\<lambda>d ob. sha_ok L \<and> outbox_files L d ob" "outbox_call_ok L" "dir_outbox_call L" "mem_outbox_call L"
  for L :: hostlib
proof
  fix c assume c: "outbox_call_ok L c"
  show "simulates (\<lambda>d ob. sha_ok L \<and> outbox_files L d ob) (dir_outbox_call L c) (mem_outbox_call L c)"
  proof (cases "sha_ok L")
    case True
    have "simulates (outbox_files L) (dir_outbox_call L c) (mem_outbox_call L c)"
    proof (cases c)
      case (Enqueue x)
      then show ?thesis using c dir_enqueue_refines [OF True] by (simp add: simulates_answer simulatesI)
    next
      case (EnqueuePrefix x n)
      then show ?thesis using c dir_enqueue_prefix_simulates [OF True] by (simp add: simulates_crashed)
    next
      case (EnqueueTorn x y)
      then show ?thesis using c dir_torn_write_simulates [OF True] by simp
    next
      case (Reconcile xs)
      then show ?thesis using c dir_reconcile_refines [OF True] by (simp add: simulates_answer simulatesI)
    next
      case (Mark r)
      then show ?thesis using c dir_mark_refines [OF True] by (simp add: simulates_answer simulatesI)
    qed
    then show ?thesis using True by (simp add: simulates_def)
  qed (auto simp: simulates_def)
qed

lemma outbox_files_empty: "outbox_files L empty_dir_outbox empty_outbox"
  by (simp add: outbox_files_def empty_dir_outbox_def empty_outbox_def outbox_wf_def)

end
