(* ===== verification/ServiceWindow.thy ===== *)
theory ServiceWindow
  imports Machine Service
begin

text \<open>
  The adaptive service window of \<^verbatim>\<open>kernel/adaptive_service_window.py\<close>: a local search over an integer
  concurrency limit.  Limits and counters are Python integers; service times are floats, whose sum,
  quotient and square root are parameters of the model (a rounding of the exact results).  Infinite
  values are outside the model.  The reading of the clock is an argument of each call.
\<close>

record floats =
  fl_add :: "rat \<Rightarrow> rat \<Rightarrow> rat"
  fl_div :: "rat \<Rightarrow> rat \<Rightarrow> rat"
  fl_sqrt :: "int \<Rightarrow> rat"

section \<open>Policy, events and snapshots\<close>

record window_policy =
  pol_min_limit :: int
  pol_start_limit :: "int option"
  pol_digest :: string

definition policy_payload :: "window_policy \<Rightarrow> (string \<times> json) list" where
  "policy_payload self =
     [(''schema'', JStr ''noetrium.adaptive-service-window-policy.v1''),
      (''min_limit'', JInt (pol_min_limit self)),
      (''start_limit'', case pol_start_limit self of None \<Rightarrow> JNull | Some n \<Rightarrow> JInt n),
      (''control'', JStr ''qualified-start-local-integer-search:explicit-pressure-capacity:measured-throughput-knee'')]"

definition policy_post_init :: "hostlib \<Rightarrow> window_policy \<Rightarrow> window_policy res" where
  "policy_post_init L self =
     res_bind (require (0 < pol_min_limit self) ValueError) (\<lambda>_.
     res_bind (case pol_start_limit self of
         None \<Rightarrow> Inr ()
       | Some start \<Rightarrow>
           res_bind (require (0 < start) ValueError) (\<lambda>_. require (pol_min_limit self \<le> start) ValueError)) (\<lambda>_.
     Inr (self\<lparr>pol_digest := canonical_digest L (jobj (policy_payload self))\<rparr>)))"

record window_event =
  ev_sequence :: int
  ev_old_limit :: int
  ev_new_limit :: int
  ev_reason :: string
  ev_observed_at :: rat

definition event_post_init :: "window_event \<Rightarrow> window_event res" where
  "event_post_init self =
     res_bind (require (0 < ev_sequence self) ValueError) (\<lambda>_.
     res_bind (require (0 < ev_old_limit self) ValueError) (\<lambda>_.
     res_bind (require (0 < ev_new_limit self) ValueError) (\<lambda>_.
     res_bind (require (nonblank (ev_reason self)) ValueError) (\<lambda>_. Inr self))))"

section \<open>The window\<close>

record window =
  win_policy :: window_policy
  win_max :: int
  win_min :: int
  win_limit :: int
  win_clean :: int
  win_suspended :: bool
  win_sequence :: int
  win_history :: "window_event list"
  win_service_sum :: rat
  win_service_count :: int
  win_parent_limit :: "int option"
  win_parent_throughput :: "rat option"

definition window_start :: "floats \<Rightarrow> int \<Rightarrow> window_policy \<Rightarrow> int option \<Rightarrow> int" where
  "window_start F max_limit policy initial_limit =
     (case initial_limit of
        Some n \<Rightarrow> n
      | None \<Rightarrow>
          (case pol_start_limit policy of
             Some n \<Rightarrow> n
           | None \<Rightarrow> max (min (pol_min_limit policy) max_limit)
               (ceiling (fl_sqrt F (min (pol_min_limit policy) max_limit * max_limit)))))"

definition window_init :: "floats \<Rightarrow> int \<Rightarrow> window_policy \<Rightarrow> int option \<Rightarrow> window res" where
  "window_init F max_limit policy initial_limit =
     res_bind (require (0 < max_limit) ValueError) (\<lambda>_.
     res_bind (require (case initial_limit of None \<Rightarrow> True | Some n \<Rightarrow> 0 < n \<and> n \<le> max_limit) ValueError) (\<lambda>_.
     Inr \<lparr>win_policy = policy, win_max = max_limit, win_min = min (pol_min_limit policy) max_limit,
          win_limit = min max_limit (max (min (pol_min_limit policy) max_limit)
            (window_start F max_limit policy initial_limit)),
          win_clean = 0, win_suspended = False, win_sequence = 0, win_history = [], win_service_sum = 0,
          win_service_count = 0, win_parent_limit = None, win_parent_throughput = None\<rparr>))"

text \<open>\<^verbatim>\<open>deque(maxlen=256)\<close>: appending to a full deque drops its oldest element.\<close>

definition deque_append :: "'a list \<Rightarrow> 'a \<Rightarrow> 'a list" where
  "deque_append xs x = drop (length xs + 1 - 256) (xs @ [x])"

definition window_record :: "int \<Rightarrow> int \<Rightarrow> string \<Rightarrow> rat \<Rightarrow> (window, unit) action" where
  "window_record old new reason now w =
     (if old = new then (Inr (), w)
      else (let w1 = w\<lparr>win_sequence := win_sequence w + 1\<rparr> in
        case event_post_init \<lparr>ev_sequence = win_sequence w1, ev_old_limit = old, ev_new_limit = new,
            ev_reason = reason, ev_observed_at = now\<rparr> of
          Inl e \<Rightarrow> (Inl e, w1)
        | Inr event \<Rightarrow> (Inr (), w1\<lparr>win_history := deque_append (win_history w1) event\<rparr>)))"

definition reset_window :: "window \<Rightarrow> window" where
  "reset_window w = w\<lparr>win_clean := 0, win_service_sum := 0, win_service_count := 0\<rparr>"

definition clear_probe :: "window \<Rightarrow> window" where
  "clear_probe w = w\<lparr>win_parent_limit := None, win_parent_throughput := None\<rparr>"

definition suspend_growth :: "bool \<Rightarrow> window \<Rightarrow> window" where
  "suspend_growth b w = clear_probe ((reset_window w)\<lparr>win_suspended := b\<rparr>)"

definition on_pressure :: "string \<Rightarrow> int option \<Rightarrow> rat \<Rightarrow> (window, unit) action" where
  "on_pressure reason observed_capacity now w =
     (if \<not> nonblank reason then (Inl ValueError, w)
      else if win_limit w \<le> win_min w then (Inr (), suspend_growth True w)
      else if (case observed_capacity of None \<Rightarrow> False | Some c \<Rightarrow> c < 0) then (Inl ValueError, w)
      else (let old = win_limit w;
                target = (case observed_capacity of None \<Rightarrow> old - 1 | Some c \<Rightarrow> if 0 < c then min (old - 1) c else old - 1);
                w1 = suspend_growth True (w\<lparr>win_limit := max (win_min w) target\<rparr>) in
            window_record old (win_limit w1) (py_strip reason) now w1))"

definition on_saturation :: "(window, unit) action" where
  "on_saturation w = (Inr (), suspend_growth True w)"

definition on_transient_failure :: "(window, unit) action" where
  "on_transient_failure = on_saturation"

definition current_throughput :: "floats \<Rightarrow> window \<Rightarrow> rat option res" where
  "current_throughput F w =
     (if 0 < win_service_count w then
        (let mean = fl_div F (win_service_sum w) (of_int (win_service_count w)) in
         if mean = 0 then Inl ZeroDivisionError else Inr (Some (fl_div F (of_int (win_limit w)) mean)))
      else Inr None)"

text \<open>The probe of one more than the parent limit that measured a lower throughput.\<close>

definition throughput_knee :: "window \<Rightarrow> rat option \<Rightarrow> bool" where
  "throughput_knee w throughput =
     (case (win_parent_limit w, throughput, win_parent_throughput w) of
        (Some parent, Some t, Some pt) \<Rightarrow> win_limit w = parent + 1 \<and> t < pt
      | _ \<Rightarrow> False)"

definition window_full :: "floats \<Rightarrow> rat \<Rightarrow> (window, unit) action" where
  "window_full F now w =
     (case current_throughput F w of
        Inl e \<Rightarrow> (Inl e, w)
      | Inr throughput \<Rightarrow>
          if throughput_knee w throughput then
            (let old = win_limit w;
                 w1 = suspend_growth True (w\<lparr>win_limit := max (win_min w) (the (win_parent_limit w))\<rparr>) in
             window_record old (win_limit w1) ''throughput_knee'' now w1)
          else if win_suspended w then (Inr (), suspend_growth False w)
          else if win_max w \<le> win_limit w then (Inr (), clear_probe (reset_window w))
          else (let old = win_limit w;
                    w1 = reset_window (w\<lparr>win_parent_limit := Some old, win_parent_throughput := throughput,
                      win_limit := old + 1\<rparr>) in
                window_record old (win_limit w1) ''clean_completion'' now w1))"

definition on_clean_completion :: "floats \<Rightarrow> rat option \<Rightarrow> bool \<Rightarrow> rat \<Rightarrow> (window, unit) action" where
  "on_clean_completion F service_seconds demand_pressure now w =
     (if (case service_seconds of None \<Rightarrow> False | Some x \<Rightarrow> x \<le> 0) then (Inl ValueError, w)
      else (let w1 = (case service_seconds of
                None \<Rightarrow> w
              | Some x \<Rightarrow> w\<lparr>win_service_sum := fl_add F (win_service_sum w) x,
                  win_service_count := win_service_count w + 1\<rparr>) in
        if \<not> demand_pressure then (Inr (), suspend_growth False w1)
        else (let w2 = w1\<lparr>win_clean := win_clean w1 + 1\<rparr> in
          if win_clean w2 < win_limit w2 then (Inr (), w2) else window_full F now w2)))"

record window_snapshot =
  ws_min_limit :: int
  ws_current_limit :: int
  ws_max_limit :: int
  ws_clean_completions :: int
  ws_suspended :: bool
  ws_history :: "window_event list"
  ws_policy_digest :: string

definition window_snapshot_of :: "window \<Rightarrow> window_snapshot" where
  "window_snapshot_of w =
     \<lparr>ws_min_limit = win_min w, ws_current_limit = win_limit w, ws_max_limit = win_max w,
      ws_clean_completions = win_clean w, ws_suspended = win_suspended w, ws_history = win_history w,
      ws_policy_digest = pol_digest (win_policy w)\<rparr>"

section \<open>The invariant\<close>

text \<open>The retained events, newest first, lead back from the current limit without a gap.\<close>

fun explains :: "window_event list \<Rightarrow> int \<Rightarrow> int \<Rightarrow> bool" where
  "explains [] seq limit = True"
| "explains (e # es) seq limit =
     (ev_sequence e = seq \<and> ev_new_limit e = limit \<and> ev_old_limit e \<noteq> limit \<and> explains es (seq - 1) (ev_old_limit e))"

lemma explains_take: "explains es seq limit \<Longrightarrow> explains (take n es) seq limit"
  by (induction es seq limit arbitrary: n rule: explains.induct) (auto simp: take_Cons split: nat.splits)

text \<open>Times below \<open>tiny\<close> are not measured; above it neither sum nor mean vanishes.\<close>

definition tiny :: rat where
  "tiny = 1 / 2 ^ 1000"

definition floats_ok :: "floats \<Rightarrow> bool" where
  "floats_ok F = ((\<forall>x y. 0 \<le> x \<longrightarrow> tiny \<le> y \<longrightarrow> tiny \<le> fl_add F x y) \<and>
     (\<forall>x y. tiny \<le> x \<longrightarrow> 1 \<le> y \<longrightarrow> y \<le> 2 ^ 53 \<longrightarrow> 0 < fl_div F x y))"

definition between :: "int \<Rightarrow> int \<Rightarrow> int option \<Rightarrow> bool" where
  "between lo hi x = (case x of None \<Rightarrow> True | Some n \<Rightarrow> lo \<le> n \<and> n \<le> hi)"

lemma between_simps [simp]: "between lo hi None" "between lo hi (Some n) \<longleftrightarrow> lo \<le> n \<and> n \<le> hi"
  by (simp_all add: between_def)

definition window_ok :: "window \<Rightarrow> bool" where
  "window_ok w =
     (1 \<le> win_min w \<and> win_min w \<le> win_limit w \<and> win_limit w \<le> win_max w \<and> 0 \<le> win_clean w \<and> win_clean w < win_limit w \<and>
      0 \<le> win_service_count w \<and> win_service_count w \<le> win_clean w \<and>
      (if win_service_count w = 0 then win_service_sum w = 0 else tiny \<le> win_service_sum w) \<and>
      between (win_min w) (win_max w) (win_parent_limit w) \<and>
      0 \<le> win_sequence w \<and> length (win_history w) = min 256 (nat (win_sequence w)) \<and>
      explains (rev (win_history w)) (win_sequence w) (win_limit w))"

lemma tiny_pos: "0 < tiny"
  by (simp add: tiny_def)

lemma nonblank_strip: "nonblank (py_strip s) = nonblank s"
proof
  assume "nonblank s"
  then have ne: "dropWhile py_isspace (rev (dropWhile py_isspace s)) \<noteq> []" by (simp add: nonblank_def py_strip_def)
  then have "\<not> py_isspace (hd (dropWhile py_isspace (rev (dropWhile py_isspace s))))" by (rule hd_dropWhile)
  moreover have "hd (dropWhile py_isspace (rev (dropWhile py_isspace s))) \<in> set (py_strip s)"
    using hd_in_set [OF ne] by (simp add: py_strip_def)
  ultimately show "nonblank (py_strip s)" unfolding nonblank_iff by blast
qed (auto simp: nonblank_iff py_strip_def dest!: set_dropWhileD)

lemma window_init_ok:
  assumes "window_init F max_limit policy initial_limit = Inr w" "0 < pol_min_limit policy"
  shows "window_ok w \<and> win_max w = max_limit"
  using assms by (auto simp: window_init_def res_simps window_ok_def)

lemma deque_append_ok:
  assumes "length xs = min 256 (nat seq)" "0 \<le> seq" "explains (rev xs) seq old"
    and "ev_sequence e = seq + 1" "ev_new_limit e = new" "ev_old_limit e = old" "old \<noteq> new"
  shows "length (deque_append xs e) = min 256 (nat (seq + 1)) \<and> explains (rev (deque_append xs e)) (seq + 1) new"
proof -
  have "rev (deque_append xs e) = take 256 (e # rev xs)"
    by (cases "length xs \<le> 255") (simp_all add: deque_append_def rev_drop)
  moreover have "explains (e # rev xs) (seq + 1) new" using assms by simp
  ultimately have "explains (rev (deque_append xs e)) (seq + 1) new" by (simp only: explains_take)
  moreover have "length (deque_append xs e) = min 256 (nat (seq + 1))"
    using assms(1,2) by (cases "length xs \<le> 255") (auto simp: deque_append_def nat_add_distrib min_def split: if_splits)
  ultimately show ?thesis by simp
qed

text \<open>A change of the limit, with its event.\<close>

lemma window_record_ok:
  assumes w: "window_ok w" and new: "win_min w \<le> new" "new \<le> win_max w" and reason: "nonblank reason"
    and w1: "win_limit w1 = new" "win_min w1 = win_min w" "win_max w1 = win_max w" "win_clean w1 = 0" "win_service_count w1 = 0"
      "win_service_sum w1 = 0" "win_sequence w1 = win_sequence w" "win_history w1 = win_history w"
      "between (win_min w) (win_max w) (win_parent_limit w1)"
  shows "\<exists>w'. window_record (win_limit w) new reason now w1 = (Inr (), w') \<and> window_ok w' \<and>
    win_limit w' = new \<and> win_max w' = win_max w \<and> win_min w' = win_min w \<and> win_suspended w' = win_suspended w1 \<and>
    win_service_count w' = 0 \<and> win_clean w' = 0"
proof (cases "win_limit w = new")
  case True
  then show ?thesis using w new w1 by (auto simp: window_record_def window_ok_def)
next
  case False
  define e where "e = \<lparr>ev_sequence = win_sequence w + 1, ev_old_limit = win_limit w, ev_new_limit = new, ev_reason = reason, ev_observed_at = now\<rparr>"
  have "event_post_init e = Inr e"
    using w new reason by (auto simp: event_post_init_def e_def window_ok_def)
  then have rec: "window_record (win_limit w) new reason now w1 =
      (Inr (), w1\<lparr>win_sequence := win_sequence w + 1, win_history := deque_append (win_history w) e\<rparr>)"
    using False w1 by (simp add: window_record_def e_def)
  have "length (deque_append (win_history w) e) = min 256 (nat (win_sequence w + 1)) \<and>
      explains (rev (deque_append (win_history w) e)) (win_sequence w + 1) new"
    by (rule deque_append_ok) (use w False in \<open>auto simp: window_ok_def e_def\<close>)
  then show ?thesis using rec w new w1 by (auto simp: window_ok_def)
qed

lemma suspend_growth_ok: "window_ok w \<Longrightarrow> window_ok (suspend_growth b w)"
  by (auto simp: window_ok_def suspend_growth_def clear_probe_def reset_window_def)

lemma on_pressure_ok:
  assumes "window_ok w"
  shows "window_ok (snd (on_pressure reason cap now w)) \<and> win_max (snd (on_pressure reason cap now w)) = win_max w"
proof (cases "nonblank reason \<and> win_min w < win_limit w \<and> (case cap of None \<Rightarrow> True | Some c \<Rightarrow> 0 \<le> c)")
  case False
  then show ?thesis
    using assms suspend_growth_ok [OF assms, of True]
    by (auto simp: on_pressure_def suspend_growth_def clear_probe_def reset_window_def split: option.splits)
next
  case True
  define target where "target = (case cap of None \<Rightarrow> win_limit w - 1 | Some c \<Rightarrow> if 0 < c then min (win_limit w - 1) c else win_limit w - 1)"
  let ?w1 = "suspend_growth True (w\<lparr>win_limit := max (win_min w) target\<rparr>)"
  have t: "target < win_limit w" by (auto simp: target_def split: option.splits)
  have eq: "on_pressure reason cap now w = window_record (win_limit w) (max (win_min w) target) (py_strip reason) now ?w1"
    using True by (auto simp: on_pressure_def target_def Let_def suspend_growth_def clear_probe_def reset_window_def split: option.splits)
  have "nonblank (py_strip reason)" using True by (simp add: nonblank_strip)
  moreover have "win_min w \<le> win_limit w" "win_limit w \<le> win_max w" using assms by (simp_all add: window_ok_def)
  ultimately have "\<exists>w'. window_record (win_limit w) (max (win_min w) target) (py_strip reason) now ?w1 = (Inr (), w') \<and> window_ok w' \<and>
      win_limit w' = max (win_min w) target \<and> win_max w' = win_max w \<and> win_min w' = win_min w \<and> win_suspended w' = win_suspended ?w1 \<and>
      win_service_count w' = 0 \<and> win_clean w' = 0"
    using t by (intro window_record_ok [OF assms]) (simp_all add: suspend_growth_def clear_probe_def reset_window_def)
  then show ?thesis unfolding eq by auto
qed

lemma current_throughput_ok:
  assumes F: "floats_ok F" and sum: "0 < win_service_count w \<longrightarrow> tiny \<le> win_service_sum w" and count: "win_service_count w \<le> 2 ^ 53"
  shows "\<exists>t. current_throughput F w = Inr t \<and> (win_service_count w \<le> 0 \<longrightarrow> t = None)"
proof (cases "0 < win_service_count w")
  case True
  have "(of_int (win_service_count w) :: rat) \<le> of_int (2 ^ 53)" using count by (simp only: of_int_le_iff)
  then have "(of_int (win_service_count w) :: rat) \<le> 2 ^ 53" by simp
  then have "0 < fl_div F (win_service_sum w) (of_int (win_service_count w))"
    using F True sum unfolding floats_ok_def by simp
  then show ?thesis using True by (simp add: current_throughput_def Let_def)
qed (simp add: current_throughput_def)

text \<open>The window is full: the limit changes by at most one and counting starts again.\<close>

lemma window_full_ok:
  assumes F: "floats_ok F" and w: "window_ok w" "win_max w \<le> 2 ^ 53" "win_clean w + 1 = win_limit w"
    and w2: "w2 = w\<lparr>win_clean := win_clean w + 1, win_service_sum := tot, win_service_count := count\<rparr>"
      "0 \<le> count" "count \<le> win_limit w" "0 < count \<longrightarrow> tiny \<le> tot"
  shows "\<exists>w'. window_full F now w2 = (Inr (), w') \<and> window_ok w' \<and> win_max w' = win_max w \<and> win_min w' = win_min w \<and>
    win_service_count w' = 0 \<and> win_clean w' = 0 \<and>
    (count = 0 \<longrightarrow> (if win_suspended w then win_limit w' = win_limit w \<and> \<not> win_suspended w'
       else win_limit w' = min (win_max w) (win_limit w + 1) \<and> \<not> win_suspended w'))"
proof -
  have sel: "win_limit w2 = win_limit w" "win_min w2 = win_min w" "win_max w2 = win_max w" "win_suspended w2 = win_suspended w"
    "win_parent_limit w2 = win_parent_limit w" "win_sequence w2 = win_sequence w" "win_history w2 = win_history w"
    "win_service_count w2 = count" "win_service_sum w2 = tot" by (simp_all add: w2(1))
  have "count \<le> 2 ^ 53" using w2(3) w by (simp add: window_ok_def)
  then obtain t where t: "current_throughput F w2 = Inr t" "count = 0 \<longrightarrow> t = None"
    using current_throughput_ok [OF F, of w2] w2(4) sel by auto
  have plain: "window_ok (x\<lparr>win_suspended := b\<rparr>)" if "x = clear_probe (reset_window w2)" for x b
    using that w(1) sel by (simp add: clear_probe_def reset_window_def window_ok_def)
  have b: "win_min w \<le> win_limit w" "win_limit w \<le> win_max w" using w(1) by (simp_all add: window_ok_def)
  show ?thesis
  proof (cases "throughput_knee w2 t")
    case True
    then obtain parent where parent: "win_parent_limit w = Some parent" "win_limit w = parent + 1" "count \<noteq> 0"
      using t(2) sel by (auto simp: throughput_knee_def split: option.splits)
    let ?w1 = "suspend_growth True (w2\<lparr>win_limit := max (win_min w) parent\<rparr>)"
    have "nonblank ''throughput_knee''" by (simp add: nonblank_iff py_isspace_def)
    then obtain w' where w': "window_record (win_limit w) (max (win_min w) parent) ''throughput_knee'' now ?w1 = (Inr (), w')"
      "window_ok w'" "win_max w' = win_max w" "win_min w' = win_min w" "win_service_count w' = 0" "win_clean w' = 0"
      using window_record_ok [OF w(1), of "max (win_min w) parent" "''throughput_knee''" ?w1 now] b parent sel
      by (auto simp: suspend_growth_def clear_probe_def reset_window_def)
    have "window_full F now w2 = window_record (win_limit w) (max (win_min w) parent) ''throughput_knee'' now ?w1"
      using t(1) True parent(1) sel by (simp add: window_full_def suspend_growth_def clear_probe_def reset_window_def Let_def)
    with w' parent(3) show ?thesis by simp
  next
    case knee: False
    show ?thesis
    proof (cases "win_suspended w \<or> win_max w \<le> win_limit w")
      case True
      have "window_full F now w2 = (Inr (), if win_suspended w then suspend_growth False w2 else clear_probe (reset_window w2))"
        using t(1) knee True sel by (auto simp: window_full_def)
      moreover have "clear_probe (reset_window w2) = (clear_probe (reset_window w2))\<lparr>win_suspended := win_suspended w2\<rparr>"
        by (cases w2) (simp add: clear_probe_def reset_window_def)
      ultimately show ?thesis
        using plain [OF refl, of False] plain [OF refl, of "win_suspended w2"] w(1) sel True
        by (auto simp: suspend_growth_def clear_probe_def reset_window_def window_ok_def)
    next
      case grow: False
      let ?w1 = "reset_window (w2\<lparr>win_parent_limit := Some (win_limit w), win_parent_throughput := t, win_limit := win_limit w + 1\<rparr>)"
      have "nonblank ''clean_completion''" by (simp add: nonblank_iff py_isspace_def)
      then obtain w' where w': "window_record (win_limit w) (win_limit w + 1) ''clean_completion'' now ?w1 = (Inr (), w')"
        "window_ok w'" "win_max w' = win_max w" "win_min w' = win_min w" "win_service_count w' = 0" "win_clean w' = 0"
        "win_limit w' = win_limit w + 1" "win_suspended w' = win_suspended w"
        using window_record_ok [OF w(1), of "win_limit w + 1" "''clean_completion''" ?w1 now] b grow sel
        by (auto simp: reset_window_def)
      have "window_full F now w2 = window_record (win_limit w) (win_limit w + 1) ''clean_completion'' now ?w1"
        using t(1) knee grow sel by (simp add: window_full_def reset_window_def Let_def)
      with w' grow show ?thesis by simp
    qed
  qed
qed

text \<open>Service times that are measured at all.\<close>

definition measurable :: "rat option \<Rightarrow> bool" where
  "measurable service = (case service of None \<Rightarrow> True | Some x \<Rightarrow> tiny \<le> x)"

lemma on_clean_ok:
  assumes F: "floats_ok F" and w: "window_ok w" "win_max w \<le> 2 ^ 53" and m: "measurable service"
  shows "\<exists>w'. on_clean_completion F service demand now w = (Inr (), w') \<and> window_ok w' \<and> win_max w' = win_max w"
proof -
  define tot where "tot = (case service of None \<Rightarrow> win_service_sum w | Some x \<Rightarrow> fl_add F (win_service_sum w) x)"
  define count where "count = (case service of None \<Rightarrow> win_service_count w | Some x \<Rightarrow> win_service_count w + 1)"
  define w1 where "w1 = w\<lparr>win_service_sum := tot, win_service_count := count\<rparr>"
  have sum0: "0 \<le> win_service_sum w" using w(1) tiny_pos by (auto simp: window_ok_def split: if_splits)
  have count: "0 \<le> count" "count \<le> win_clean w + 1" "if count = 0 then tot = 0 else tiny \<le> tot"
    using F w(1) m sum0 unfolding floats_ok_def
    by (auto simp: count_def tot_def window_ok_def measurable_def split: option.splits if_splits)
  have pos: "\<not> (case service of None \<Rightarrow> False | Some x \<Rightarrow> x \<le> 0)"
    using m tiny_pos by (auto simp: measurable_def split: option.splits)
  have w1: "(case service of None \<Rightarrow> w | Some x \<Rightarrow> w\<lparr>win_service_sum := fl_add F (win_service_sum w) x,
      win_service_count := win_service_count w + 1\<rparr>) = w1"
    by (auto simp: w1_def tot_def count_def split: option.splits)
  show ?thesis
  proof (cases "demand \<and> \<not> win_clean w + 1 < win_limit w")
    case True
    then have full: "win_clean w + 1 = win_limit w" using w(1) by (auto simp: window_ok_def)
    have "on_clean_completion F service demand now w = window_full F now (w1\<lparr>win_clean := win_clean w + 1\<rparr>)"
      using pos True by (simp add: on_clean_completion_def w1) (simp add: w1_def)
    moreover have "w1\<lparr>win_clean := win_clean w + 1\<rparr> = w\<lparr>win_clean := win_clean w + 1, win_service_sum := tot, win_service_count := count\<rparr>"
      by (simp add: w1_def)
    moreover have "count \<le> win_limit w" "0 < count \<longrightarrow> tiny \<le> tot" using count full by auto
    ultimately show ?thesis using window_full_ok [OF F w full _ count(1)] by metis
  next
    case False
    have "on_clean_completion F service demand now w =
        (Inr (), if demand then w1\<lparr>win_clean := win_clean w + 1\<rparr> else suspend_growth False w1)"
      using pos False by (simp add: on_clean_completion_def w1) (simp add: w1_def)
    moreover have "window_ok (w1\<lparr>win_clean := win_clean w + 1\<rparr>)" if "demand"
      using that False w(1) count by (auto simp: w1_def window_ok_def)
    moreover have "window_ok (suspend_growth False w1)"
      using w(1) by (auto simp: w1_def window_ok_def suspend_growth_def clear_probe_def reset_window_def)
    ultimately show ?thesis by (auto simp: w1_def suspend_growth_def clear_probe_def reset_window_def)
  qed
qed

section \<open>Any sequence of observations\<close>

datatype window_call =
    Pressure string "int option" rat
  | Saturation
  | TransientFailure
  | Completion "rat option" bool rat

fun window_observe :: "floats \<Rightarrow> window_call \<Rightarrow> (window, unit) action" where
  "window_observe F (Pressure reason cap now) = on_pressure reason cap now"
| "window_observe F Saturation = on_saturation"
| "window_observe F TransientFailure = on_transient_failure"
| "window_observe F (Completion service demand now) = on_clean_completion F service demand now"

fun window_call_ok :: "window_call \<Rightarrow> bool" where
  "window_call_ok (Completion service demand now) = measurable service"
| "window_call_ok _ = True"

lemma window_call_keeps:
  assumes "floats_ok F" "window_ok w" "win_max w \<le> 2 ^ 53" "window_call_ok c"
  shows "window_ok (snd (window_observe F c w)) \<and> win_max (snd (window_observe F c w)) = win_max w"
proof (cases c)
  case (Pressure reason cap now)
  then show ?thesis using on_pressure_ok [OF assms(2)] by simp
next
  case Saturation
  then show ?thesis
    using suspend_growth_ok [OF assms(2)] by (simp add: on_saturation_def) (simp add: suspend_growth_def clear_probe_def reset_window_def)
next
  case TransientFailure
  then show ?thesis
    using suspend_growth_ok [OF assms(2)] by (simp add: on_transient_failure_def on_saturation_def) (simp add: suspend_growth_def clear_probe_def reset_window_def)
next
  case (Completion service demand now)
  then show ?thesis using on_clean_ok [OF assms(1-3), of service demand now] assms(4) by auto
qed

lemma window_calls_keep:
  assumes "floats_ok F"
  shows "window_ok w \<Longrightarrow> win_max w \<le> 2 ^ 53 \<Longrightarrow> list_all window_call_ok calls \<Longrightarrow>
    window_ok (snd (run_calls (window_observe F) calls w)) \<and> win_max (snd (run_calls (window_observe F) calls w)) = win_max w"
proof (induction calls arbitrary: w)
  case (Cons c calls)
  obtain r w' where c: "window_observe F c w = (r, w')" by (cases "window_observe F c w")
  with window_call_keeps [OF assms Cons.prems(1,2), of c] Cons.prems(3) have "window_ok w'" "win_max w' = win_max w" by auto
  with Cons.IH [of w'] Cons.prems c show ?case by (auto split: prod.splits)
qed simp

section \<open>Growth\<close>

text \<open>One clean completion under demand, without a measurement.\<close>

definition clean_step :: "floats \<Rightarrow> rat \<Rightarrow> window \<Rightarrow> window" where
  "clean_step F now w = snd (on_clean_completion F None True now w)"

lemma clean_step_spec:
  assumes F: "floats_ok F" and w: "window_ok w" "win_max w \<le> 2 ^ 53"
  shows "window_ok (clean_step F now w)" "win_max (clean_step F now w) = win_max w"
    and "win_clean w + 1 < win_limit w \<Longrightarrow> clean_step F now w = w\<lparr>win_clean := win_clean w + 1\<rparr>"
    and "\<not> win_clean w + 1 < win_limit w \<Longrightarrow> win_service_count (clean_step F now w) = 0 \<and>
      (win_service_count w = 0 \<longrightarrow> \<not> win_suspended (clean_step F now w) \<and>
        win_limit (clean_step F now w) = (if win_suspended w then win_limit w else min (win_max w) (win_limit w + 1)))"
proof -
  have "measurable None" by (simp add: measurable_def)
  from on_clean_ok [OF F w this, of True now] show "window_ok (clean_step F now w)" "win_max (clean_step F now w) = win_max w"
    by (auto simp: clean_step_def)
  show "win_clean w + 1 < win_limit w \<Longrightarrow> clean_step F now w = w\<lparr>win_clean := win_clean w + 1\<rparr>"
    by (simp add: clean_step_def on_clean_completion_def)
  assume "\<not> win_clean w + 1 < win_limit w"
  then have full: "win_clean w + 1 = win_limit w" using w(1) by (simp add: window_ok_def)
  have counted: "0 \<le> win_service_count w" "win_service_count w \<le> win_limit w" "0 < win_service_count w \<longrightarrow> tiny \<le> win_service_sum w"
    using w(1) by (auto simp: window_ok_def split: if_splits)
  have eq: "clean_step F now w = snd (window_full F now (w\<lparr>win_clean := win_clean w + 1\<rparr>))"
    using full by (simp add: clean_step_def on_clean_completion_def)
  have "w\<lparr>win_clean := win_clean w + 1\<rparr> =
      w\<lparr>win_clean := win_clean w + 1, win_service_sum := win_service_sum w, win_service_count := win_service_count w\<rparr>" by simp
  from window_full_ok [OF F w full this counted, of now]
  show "win_service_count (clean_step F now w) = 0 \<and>
      (win_service_count w = 0 \<longrightarrow> \<not> win_suspended (clean_step F now w) \<and>
        win_limit (clean_step F now w) = (if win_suspended w then win_limit w else min (win_max w) (win_limit w + 1)))"
    unfolding eq by (auto split: if_splits)
qed

definition window_grown :: "window \<Rightarrow> bool" where
  "window_grown w = (win_service_count w = 0 \<and> \<not> win_suspended w \<and> win_limit w = win_max w)"

definition growth_measure :: "window \<Rightarrow> nat \<times> nat \<times> nat \<times> nat" where
  "growth_measure w = (if win_service_count w = 0 then 0 else 1, if win_suspended w then 1 else 0,
     nat (win_max w - win_limit w), nat (win_limit w - win_clean w))"

definition growth_order :: "((nat \<times> nat \<times> nat \<times> nat) \<times> (nat \<times> nat \<times> nat \<times> nat)) set" where
  "growth_order = less_than <*lex*> less_than <*lex*> less_than <*lex*> less_than"

lemma wf_growth_order: "wf growth_order"
  by (simp add: growth_order_def wf_lex_prod)

lemma clean_step_grown:
  assumes F: "floats_ok F" and w: "window_ok w" "win_max w \<le> 2 ^ 53"
  shows "window_grown w \<Longrightarrow> window_grown (clean_step F now w)"
    and "\<not> window_grown w \<Longrightarrow> (growth_measure (clean_step F now w), growth_measure w) \<in> growth_order"
proof -
  note spec = clean_step_spec [OF F w, of now]
  have b: "win_clean w < win_limit w" "win_limit w \<le> win_max w" using w(1) by (simp_all add: window_ok_def)
  show "window_grown w \<Longrightarrow> window_grown (clean_step F now w)"
    using spec(2-4) by (cases "win_clean w + 1 < win_limit w") (auto simp: window_grown_def)
  assume not: "\<not> window_grown w"
  show "(growth_measure (clean_step F now w), growth_measure w) \<in> growth_order"
  proof (cases "win_clean w + 1 < win_limit w")
    case True
    then show ?thesis using spec(3) by (simp add: growth_measure_def growth_order_def)
  next
    case False
    note full = spec(4) [OF False]
    show ?thesis
    proof (cases "win_service_count w = 0")
      case True
      with full not b spec(2) show ?thesis
        by (auto simp: growth_measure_def growth_order_def window_grown_def split: if_splits)
    next
      case False
      with full show ?thesis by (simp add: growth_measure_def growth_order_def)
    qed
  qed
qed

lemma clean_steps_grow:
  assumes F: "floats_ok F"
  shows "window_ok w \<Longrightarrow> win_max w \<le> 2 ^ 53 \<Longrightarrow> \<exists>n. \<forall>k \<ge> n. win_limit ((clean_step F now ^^ k) w) = win_max w"
proof (induction w rule: wf_induct_rule [OF wf_inv_image [OF wf_growth_order, of growth_measure]])
  case (1 w)
  show ?case
  proof (cases "window_grown w")
    case True
    have "window_ok ((clean_step F now ^^ k) w) \<and> win_max ((clean_step F now ^^ k) w) = win_max w \<and> window_grown ((clean_step F now ^^ k) w)" for k
    proof (induction k)
      case (Suc k)
      then show ?case
        using clean_step_spec(1,2) [OF F, of "(clean_step F now ^^ k) w" now] clean_step_grown(1) [OF F, of "(clean_step F now ^^ k) w" now]
          "1.prems"(2) by simp
    qed (use True "1.prems" in simp)
    then show ?thesis by (auto simp: window_grown_def)
  next
    case False
    note spec = clean_step_spec(1,2) [OF F "1.prems", of now]
    have "\<exists>n. \<forall>k \<ge> n. win_limit ((clean_step F now ^^ k) (clean_step F now w)) = win_max (clean_step F now w)"
      by (rule "1.IH") (use clean_step_grown(2) [OF F "1.prems" False] spec "1.prems"(2) in simp_all)
    then obtain n where n: "\<And>k. n \<le> k \<Longrightarrow> win_limit ((clean_step F now ^^ k) (clean_step F now w)) = win_max w" using spec(2) by auto
    have "win_limit ((clean_step F now ^^ k) w) = win_max w" if le: "Suc n \<le> k" for k
    proof -
      obtain k' where k: "k = Suc k'" "n \<le> k'" using le by (cases k) auto
      show ?thesis using n [OF k(2)] by (simp only: k(1) funpow_Suc_right comp_def)
    qed
    then show ?thesis by blast
  qed
qed

end
