(* ===== verification/StateIndex.thy ===== *)
theory StateIndex
  imports Prelude "HOL-Library.Word" "HOL-Library.Multiset"
begin

text \<open>
  The persistent hash trie of \<^verbatim>\<open>concurrency/scheduling/runtime/unified.py\<close> that indexes the scheduling
  entities by key, and the contract its clients rely on: a registry that behaves as a finite map.  The
  hash of a string is a parameter, a 64-bit word: Python seeds it per process, and nothing depends on
  its value.  A trie node is a bucket (a Python tuple) or a branch (a dict in insertion order).
\<close>

unbundle bit_operations_syntax

section \<open>The interface of a registry\<close>

text \<open>A sequence of publications; a key that is taken is refused and changes nothing.\<close>

fun publish_all :: "(string \<Rightarrow> 'v \<Rightarrow> 'r \<Rightarrow> 'r res) \<Rightarrow> (string \<times> 'v) list \<Rightarrow> 'r \<Rightarrow> 'r" where
  "publish_all publish [] r = r"
| "publish_all publish ((k, v) # kvs) r = publish_all publish kvs (case publish k v r of Inl _ \<Rightarrow> r | Inr r' \<Rightarrow> r')"

locale registry =
  fixes reg_empty :: 'r and reg_ok :: "'r \<Rightarrow> bool" and reg_get :: "'r \<Rightarrow> string \<Rightarrow> 'v option"
    and reg_publish :: "string \<Rightarrow> 'v \<Rightarrow> 'r \<Rightarrow> 'r res" and reg_keys :: "'r \<Rightarrow> string list" and reg_size :: "'r \<Rightarrow> int"
  assumes empty_ok: "reg_ok reg_empty" and empty_get: "reg_get reg_empty k = None"
    and publish_taken: "reg_get r k \<noteq> None \<Longrightarrow> reg_publish k v r = Inl RuntimeError"
    and publish_new: "reg_ok r \<Longrightarrow> reg_get r k = None \<Longrightarrow> \<exists>r'. reg_publish k v r = Inr r' \<and> reg_ok r'"
    and publish_get: "reg_ok r \<Longrightarrow> reg_publish k v r = Inr r' \<Longrightarrow> reg_get r' = (reg_get r)(k \<mapsto> v)"
    and publish_size: "reg_publish k v r = Inr r' \<Longrightarrow> reg_size r' = reg_size r + 1"
    and empty_size: "reg_size reg_empty = 0"
    and keys_distinct: "reg_ok r \<Longrightarrow> distinct (reg_keys r)" and keys_dom: "reg_ok r \<Longrightarrow> set (reg_keys r) = dom (reg_get r)"
begin

lemma publish_ok:
  assumes "reg_ok r" "reg_publish k v r = Inr r'"
  shows "reg_ok r'" "reg_get r k = None"
proof -
  show new: "reg_get r k = None"
  proof (rule ccontr)
    assume "reg_get r k \<noteq> None"
    then show False using publish_taken [of r k v] assms(2) by simp
  qed
  show "reg_ok r'" using publish_new [OF assms(1) new, of v] assms(2) by auto
qed

lemma publish_all_ok: "reg_ok r \<Longrightarrow> reg_ok (publish_all reg_publish kvs r)"
proof (induction kvs arbitrary: r)
  case (Cons kv kvs)
  then show ?case by (cases kv) (auto split: sum.splits dest: publish_ok)
qed simp

lemma publish_all_get: "reg_ok r \<Longrightarrow> reg_get (publish_all reg_publish kvs r) = map_of kvs ++ reg_get r"
proof (induction kvs arbitrary: r)
  case (Cons kv kvs)
  obtain k v where kv: "kv = (k, v)" by (cases kv)
  show ?case
  proof (cases "reg_publish k v r")
    case (Inl e)
    then have "reg_get r k \<noteq> None" using publish_new [OF Cons.prems, of k v] by auto
    then show ?thesis using Cons kv Inl by (auto simp: fun_eq_iff map_add_def split: option.splits)
  next
    case (Inr r')
    note ok = publish_ok [OF Cons.prems Inr]
    have "reg_get (publish_all reg_publish (kv # kvs) r) = map_of kvs ++ reg_get r'"
      using Cons.IH [OF ok(1)] Inr kv by simp
    also have "\<dots> = map_of kvs ++ (reg_get r)(k \<mapsto> v)" unfolding publish_get [OF Cons.prems Inr] ..
    also have "\<dots> = map_of (kv # kvs) ++ reg_get r"
      using ok(2) kv by (auto simp: fun_eq_iff map_add_def split: option.splits)
    finally show ?thesis .
  qed
qed simp

lemma publish_all_size: "reg_ok r \<Longrightarrow> reg_size r = int (length (reg_keys r)) \<Longrightarrow>
  reg_size (publish_all reg_publish kvs r) = int (length (reg_keys (publish_all reg_publish kvs r)))"
proof (induction kvs arbitrary: r)
  case (Cons kv kvs)
  obtain k v where kv: "kv = (k, v)" by (cases kv)
  show ?case
  proof (cases "reg_publish k v r")
    case (Inr r')
    note ok = publish_ok [OF Cons.prems(1) Inr]
    have "length (reg_keys r') = card (insert k (dom (reg_get r)))"
      using keys_distinct [OF ok(1)] keys_dom [OF ok(1)] publish_get [OF Cons.prems(1) Inr] by (simp add: distinct_card [symmetric])
    also have "\<dots> = Suc (card (dom (reg_get r)))"
    proof (rule card_insert_disjoint)
      show "finite (dom (reg_get r))" unfolding keys_dom [OF Cons.prems(1), symmetric] by simp
    qed (use ok(2) in \<open>simp add: domIff\<close>)
    also have "card (dom (reg_get r)) = length (reg_keys r)"
      using keys_distinct [OF Cons.prems(1)] keys_dom [OF Cons.prems(1)] by (metis distinct_card)
    finally show ?thesis using Cons.IH [OF ok(1)] publish_size [OF Inr] Cons.prems(2) Inr kv by simp
  qed (use Cons kv in simp)
qed simp

end

section \<open>The trie\<close>

type_synonym 'v row = "64 word \<times> string \<times> 'v"

datatype 'v hnode = Bucket "'v row list" | Branch "(nat \<times> 'v hnode) list"

definition trie_part :: "64 word \<Rightarrow> nat \<Rightarrow> nat" where
  "trie_part digest shift = unat (drop_bit shift digest AND 63)"

text \<open>\<^verbatim>\<open>d[key] = value\<close> on a dict.\<close>

fun branch_set :: "'k \<Rightarrow> 'v \<Rightarrow> ('k \<times> 'v) list \<Rightarrow> ('k \<times> 'v) list" where
  "branch_set k v [] = [(k, v)]"
| "branch_set k v ((k', v') # kvs) = (if k' = k then (k, v) # kvs else (k', v') # branch_set k v kvs)"

lemma map_of_branch_set: "map_of (branch_set k v kvs) = (map_of kvs)(k \<mapsto> v)"
  by (induction kvs) auto

lemma keys_branch_set: "fst ` set (branch_set k v kvs) = insert k (fst ` set kvs)"
proof (induction kvs)
  case (Cons p kvs)
  then show ?case by (cases p) (auto simp: image_iff)
qed simp

lemma distinct_branch_set: "distinct (map fst kvs) \<Longrightarrow> distinct (map fst (branch_set k v kvs))"
proof (induction kvs)
  case (Cons p kvs)
  then show ?case using keys_branch_set [of k v kvs] by (cases p) (auto simp: image_iff)
qed simp

function (sequential) index_insert :: "'v hnode option \<Rightarrow> string \<Rightarrow> 'v \<Rightarrow> 64 word \<Rightarrow> nat \<Rightarrow> 'v hnode" where
  "index_insert None key state digest shift = Bucket [(digest, key, state)]"
| "index_insert (Some (Bucket rows)) key state digest shift =
     (if length rows < 8 \<or> 66 \<le> shift then Bucket (rows @ [(digest, key, state)])
      else index_insert (Some (Branch (fold (\<lambda>row branch.
             let part = trie_part (fst row) shift in
             branch_set part (index_insert (map_of branch part) (fst (snd row)) (snd (snd row)) (fst row) (shift + 6)) branch)
           rows []))) key state digest shift)"
| "index_insert (Some (Branch branch)) key state digest shift =
     (let part = trie_part digest shift in
      Branch (branch_set part (index_insert (map_of branch part) key state digest (shift + 6)) branch))"
  by pat_completeness auto

lemma size_child: "map_of branch p = Some n \<Longrightarrow> size n < size (Branch branch)"
proof -
  assume "map_of branch p = Some n"
  then have "(p, n) \<in> set branch" by (rule map_of_SomeD)
  then have "size n < size_list (size_prod (\<lambda>_. 0) size) branch" by (rule size_list_estimation) simp
  then show ?thesis by simp
qed

termination index_insert
proof (relation "measures [\<lambda>(n, _, _, _, shift). 66 - shift,
    \<lambda>(n, _, _, _, shift). if shift < 66 then (case n of Some (Bucket _) \<Rightarrow> 1 | _ \<Rightarrow> 0)
       else (case n of None \<Rightarrow> 0 | Some m \<Rightarrow> size m)]")
  fix branch :: "(nat \<times> 'v hnode) list" and key :: string and state :: 'v and digest :: "64 word" and shift x :: nat
  assume "x = trie_part digest shift"
  show "((map_of branch x, key, state, digest, shift + 6), Some (Branch branch), key, state, digest, shift)
    \<in> measures [\<lambda>(n, _, _, _, shift). 66 - shift,
      \<lambda>(n, _, _, _, shift). if shift < 66 then (case n of Some (Bucket _) \<Rightarrow> 1 | _ \<Rightarrow> 0)
         else (case n of None \<Rightarrow> 0 | Some m \<Rightarrow> size m)]"
    using size_child [of branch x] by (auto split: option.splits)
qed auto

function index_find :: "'v hnode option \<Rightarrow> 64 word \<Rightarrow> string \<Rightarrow> nat \<Rightarrow> 'v option" where
  "index_find None digest key shift = None"
| "index_find (Some (Branch branch)) digest key shift = index_find (map_of branch (trie_part digest shift)) digest key (shift + 6)"
| "index_find (Some (Bucket rows)) digest key shift = map_of (map (\<lambda>(d, k, v). ((d, k), v)) rows) (digest, key)"
  by pat_completeness auto
termination
  by (relation "measure (\<lambda>(n, _, _, _). case n of None \<Rightarrow> 0 | Some m \<Rightarrow> size m)") (use size_child in \<open>auto split: option.splits\<close>)

section \<open>Lookup after insertion\<close>

lemma index_find_insert:
  "index_find (Some (index_insert n key state digest shift)) d k shift =
     (case index_find n d k shift of Some x \<Rightarrow> Some x | None \<Rightarrow> if (d, k) = (digest, key) then Some state else None)"
proof (induction n key state digest shift arbitrary: d k rule: index_insert.induct)
  case (2 rows key state digest shift)
  show ?case
  proof (cases "length rows < 8 \<or> 66 \<le> shift")
    case True
    then show ?thesis by (auto simp: map_add_def split: option.splits)
  next
    case False
    define put where "put row branch = (let part = trie_part (fst row) shift in
        branch_set part (index_insert (map_of branch part) (fst (snd row)) (snd (snd row)) (fst row) (shift + 6)) branch)"
      for row :: "'a row" and branch
    have put: "index_find (Some (Branch (put row branch))) d k shift =
        (case index_find (Some (Branch branch)) d k shift of Some x \<Rightarrow> Some x
         | None \<Rightarrow> if (d, k) = (fst row, fst (snd row)) then Some (snd (snd row)) else None)"
      if "row \<in> set rows" for row branch d k
      using "2.IH"(1) [OF False that refl, of branch d k]
      by (auto simp: put_def Let_def map_of_branch_set split: option.splits)
    have split: "index_find (Some (Branch (fold put rs branch))) d k shift =
        (case index_find (Some (Branch branch)) d k shift of Some x \<Rightarrow> Some x
         | None \<Rightarrow> map_of (map (\<lambda>(d, k, v). ((d, k), v)) rs) (d, k))" if "set rs \<subseteq> set rows" for rs branch d k
      using that
    proof (induction rs arbitrary: branch)
      case (Cons row rs)
      obtain d' k' v' where row: "row = (d', k', v')" by (cases row)
      have "row \<in> set rows" "set rs \<subseteq> set rows" using Cons.prems by auto
      from Cons.IH [OF this(2), of "put row branch"] put [OF this(1), of branch d k] show ?case
        by (auto simp: row split: option.splits)
    qed (simp split: option.split)
    have unfold: "index_insert (Some (Bucket rows)) key state digest shift =
        index_insert (Some (Branch (fold put rows []))) key state digest shift"
      using False by (simp add: put_def [abs_def])
    have IH: "index_find (Some (index_insert (Some (Branch (fold put rows []))) key state digest shift)) d k shift =
        (case index_find (Some (Branch (fold put rows []))) d k shift of Some x \<Rightarrow> Some x
         | None \<Rightarrow> if (d, k) = (digest, key) then Some state else None)"
      using "2.IH"(2) [OF False, of d k] unfolding put_def [abs_def] .
    show ?thesis unfolding unfold IH split [OF order_refl, of "[]"] by simp
  qed
next
  case (3 branch key state digest shift)
  show ?case using "3.IH" [OF refl, of d k] by (auto simp: Let_def map_of_branch_set split: option.splits)
qed auto

section \<open>The rows of a trie\<close>

fun trie_rows :: "'v hnode \<Rightarrow> 'v row list" where
  "trie_rows (Bucket rows) = rows"
| "trie_rows (Branch branch) = concat (map (\<lambda>(p, n). trie_rows n) branch)"

definition row_id :: "'v row \<Rightarrow> 64 word \<times> string" where
  "row_id row = (fst row, fst (snd row))"

text \<open>Every row lies on the path of its digest, and no row is stored twice.\<close>

fun trie_ok :: "nat \<Rightarrow> 'v hnode \<Rightarrow> bool" where
  "trie_ok shift (Bucket rows) = distinct (map row_id rows)"
| "trie_ok shift (Branch branch) =
     (distinct (map fst branch) \<and>
      (\<forall>(p, n) \<in> set branch. trie_ok (shift + 6) n \<and> (\<forall>row \<in> set (trie_rows n). trie_part (fst row) shift = p)))"

lemma trie_branchD:
  assumes "trie_ok shift (Branch branch)"
  shows "distinct (map fst branch)" "(p, n) \<in> set branch \<Longrightarrow> trie_ok (shift + 6) n"
    "(p, n) \<in> set branch \<Longrightarrow> row \<in> set (trie_rows n) \<Longrightarrow> trie_part (fst row) shift = p"
    "map_of branch p = Some n \<Longrightarrow> trie_ok (shift + 6) n"
    "map_of branch p = Some n \<Longrightarrow> row \<in> set (trie_rows n) \<Longrightarrow> trie_part (fst row) shift = p"
  using assms by (auto dest: map_of_SomeD)

lemma trie_branchI:
  assumes "distinct (map fst branch)" "\<And>p n. (p, n) \<in> set branch \<Longrightarrow> trie_ok (shift + 6) n"
    "\<And>p n row. (p, n) \<in> set branch \<Longrightarrow> row \<in> set (trie_rows n) \<Longrightarrow> trie_part (fst row) shift = p"
  shows "trie_ok shift (Branch branch)"
  using assms by auto

lemma trie_rows_branch: "row \<in> set (trie_rows (Branch branch)) \<longleftrightarrow> (\<exists>p n. (p, n) \<in> set branch \<and> row \<in> set (trie_rows n))"
  by force

lemma trie_rows_Nil: "trie_rows (Branch []) = []" and trie_ok_Nil: "trie_ok shift (Branch [])" by simp_all

lemma trie_rows_Cons: "trie_rows (Branch ((p, n) # branch)) = trie_rows n @ trie_rows (Branch branch)" by simp

declare trie_rows.simps(2) [simp del] trie_ok.simps(2) [simp del]

lemma trie_branch_rows:
  "distinct (map fst branch) \<Longrightarrow> row \<in> set (trie_rows (Branch branch)) \<longleftrightarrow> (\<exists>p n. map_of branch p = Some n \<and> row \<in> set (trie_rows n))"
  by (simp add: trie_rows_branch map_of_eq_Some_iff)

lemma trie_find_rows:
  "(case n of None \<Rightarrow> True | Some m \<Rightarrow> trie_ok shift m) \<Longrightarrow>
   index_find n d k shift = Some v \<longleftrightarrow> (\<exists>m. n = Some m \<and> (d, k, v) \<in> set (trie_rows m))"
proof (induction n d k shift rule: index_find.induct)
  case (2 branch digest key shift)
  have ok: "trie_ok shift (Branch branch)" using "2.prems" by simp
  note dist = trie_branchD(1) [OF ok] and child = trie_branchD(4,5) [OF ok]
  let ?p = "trie_part digest shift"
  have "case map_of branch ?p of None \<Rightarrow> True | Some m \<Rightarrow> trie_ok (shift + 6) m"
    using child(1) by (simp split: option.split)
  note IH = "2.IH" [OF this]
  have "(\<exists>m. map_of branch ?p = Some m \<and> (digest, key, v) \<in> set (trie_rows m)) \<longleftrightarrow>
      (\<exists>p n. map_of branch p = Some n \<and> (digest, key, v) \<in> set (trie_rows n))"
    using child(2) [of _ _ "(digest, key, v)"] unfolding fst_conv by metis
  then show ?case unfolding index_find.simps IH using trie_branch_rows [OF dist, of "(digest, key, v)"] by simp
next
  case (3 rows digest key shift)
  have "distinct (map fst (map (\<lambda>(d, k, v). ((d, k), v)) rows))"
    using "3.prems" by (simp add: row_id_def [abs_def] comp_def split_beta)
  then show ?case by (auto simp: map_of_eq_Some_iff image_iff split: prod.splits intro!: bexI [of _ "(digest, key, v)"])
qed simp

lemma trie_rows_disjoint:
  assumes "trie_ok shift (Branch branch)" "(p, n) \<in> set branch" "set br \<subseteq> set branch" "p \<notin> fst ` set br"
  shows "row_id ` set (trie_rows n) \<inter> row_id ` set (trie_rows (Branch br)) = {}"
proof -
  have "row_id a \<noteq> row_id b" if a: "a \<in> set (trie_rows n)" and b: "b \<in> set (trie_rows (Branch br))" for a b
  proof -
    obtain q m where q: "(q, m) \<in> set br" "b \<in> set (trie_rows m)" using b by (auto simp: trie_rows_branch)
    have "trie_part (fst a) shift = p" by (rule trie_branchD(3) [OF assms(1,2) a])
    moreover have "trie_part (fst b) shift = q" using trie_branchD(3) [OF assms(1) _ q(2)] q(1) assms(3) by blast
    moreover have "q \<in> fst ` set br" using q(1) by force
    ultimately have "fst a \<noteq> fst b" using assms(4) by metis
    then show ?thesis by (simp add: row_id_def)
  qed
  then show ?thesis by blast
qed

lemma trie_ok_distinct: "trie_ok shift n \<Longrightarrow> distinct (map row_id (trie_rows n))"
proof (induction shift n rule: trie_ok.induct)
  case (2 shift branch)
  have "distinct (map row_id (trie_rows (Branch br)))" if "set br \<subseteq> set branch" "distinct (map fst br)" for br
    using that
  proof (induction br)
    case (Cons pn br)
    obtain p n where pn: "pn = (p, n)" by (cases pn)
    have mem: "(p, n) \<in> set branch" using Cons.prems(1) pn by simp
    have "distinct (map row_id (trie_rows n))"
      using "2.IH" [OF mem refl] trie_branchD(2) [OF "2.prems" mem] by blast
    moreover have "row_id ` set (trie_rows n) \<inter> row_id ` set (trie_rows (Branch br)) = {}"
      by (rule trie_rows_disjoint [OF "2.prems" mem]) (use Cons.prems pn in auto)
    ultimately show ?case using Cons pn by (simp add: trie_rows_Cons)
  qed (simp add: trie_rows_Nil)
  then show ?case using trie_branchD(1) [OF "2.prems"] by blast
qed simp

lemma branch_set_ok:
  assumes branch: "trie_ok shift (Branch branch)" and n: "trie_ok (shift + 6) n" "\<And>row. row \<in> set (trie_rows n) \<Longrightarrow> trie_part (fst row) shift = p"
  shows "trie_ok shift (Branch (branch_set p n branch))"
proof (rule trie_branchI)
  show dist: "distinct (map fst (branch_set p n branch))" by (rule distinct_branch_set [OF trie_branchD(1) [OF branch]])
  have cases: "q = p \<and> m = n \<or> (q, m) \<in> set branch" if "(q, m) \<in> set (branch_set p n branch)" for q m
  proof -
    have "map_of (branch_set p n branch) q = Some m" using dist that by simp
    then show ?thesis by (auto simp: map_of_branch_set split: if_splits dest: map_of_SomeD)
  qed
  show "trie_ok (shift + 6) m" if "(q, m) \<in> set (branch_set p n branch)" for q m
    using cases [OF that] n(1) trie_branchD(2) [OF branch] by blast
  show "trie_part (fst row) shift = q" if "(q, m) \<in> set (branch_set p n branch)" "row \<in> set (trie_rows m)" for q m row
    using cases [OF that(1)] n(2) trie_branchD(3) [OF branch] that(2) by blast
qed

lemma branch_set_rows:
  assumes "distinct (map fst branch)"
  shows "set (trie_rows (Branch (branch_set p n branch))) =
    set (trie_rows n) \<union> {row. \<exists>q m. q \<noteq> p \<and> map_of branch q = Some m \<and> row \<in> set (trie_rows m)}"
proof -
  have "row \<in> set (trie_rows (Branch (branch_set p n branch))) \<longleftrightarrow>
      row \<in> set (trie_rows n) \<or> (\<exists>q m. q \<noteq> p \<and> map_of branch q = Some m \<and> row \<in> set (trie_rows m))" for row
    unfolding trie_branch_rows [OF distinct_branch_set [OF assms]] by (auto simp: map_of_branch_set)
  then show ?thesis by blast
qed

text \<open>Inserting a new row keeps the invariant and adds exactly that row.\<close>

definition trie_add :: "'v hnode option \<Rightarrow> 'v row \<Rightarrow> nat \<Rightarrow> 'v hnode \<Rightarrow> bool" where
  "trie_add n row shift n' =
     (trie_ok shift n' \<and> set (trie_rows n') = insert row (case n of None \<Rightarrow> {} | Some m \<Rightarrow> set (trie_rows m)))"

lemma trie_add_branch:
  assumes branch: "trie_ok shift (Branch branch)" and p: "p = trie_part (fst row) shift"
    and add: "trie_add (map_of branch p) row (shift + 6) n"
  shows "trie_add (Some (Branch branch)) row shift (Branch (branch_set p n branch))"
proof -
  note dist = trie_branchD(1) [OF branch]
  have rows: "set (trie_rows n) = insert row (case map_of branch p of None \<Rightarrow> {} | Some m \<Rightarrow> set (trie_rows m))"
    using add by (simp add: trie_add_def)
  have "trie_ok shift (Branch (branch_set p n branch))"
  proof (rule branch_set_ok [OF branch])
    show "trie_ok (shift + 6) n" using add by (simp add: trie_add_def)
    show "trie_part (fst r) shift = p" if "r \<in> set (trie_rows n)" for r
      using that p trie_branchD(5) [OF branch, of p _ r] unfolding rows by (auto split: option.splits)
  qed
  moreover have "r \<in> set (trie_rows (Branch (branch_set p n branch))) \<longleftrightarrow> r \<in> insert row (set (trie_rows (Branch branch)))" for r
    unfolding branch_set_rows [OF dist] rows insert_iff trie_branch_rows [OF dist]
    by (cases "map_of branch p") (simp_all, metis option.distinct(1), metis option.inject)
  ultimately show ?thesis unfolding trie_add_def option.case by blast
qed

lemma index_insert_ok:
  "(case n of None \<Rightarrow> True | Some m \<Rightarrow> trie_ok shift m) \<Longrightarrow> index_find n digest key shift = None \<Longrightarrow>
   trie_add n (digest, key, state) shift (index_insert n key state digest shift)"
proof (induction n key state digest shift rule: index_insert.induct)
  case (2 rows key state digest shift)
  have new: "(digest, key) \<notin> row_id ` set rows"
    using "2.prems" by (force simp: map_of_eq_None_iff row_id_def)
  show ?case
  proof (cases "length rows < 8 \<or> 66 \<le> shift")
    case True
    then show ?thesis using "2.prems"(1) new by (auto simp: trie_add_def row_id_def)
  next
    case False
    define put where "put row branch = (let part = trie_part (fst row) shift in
        branch_set part (index_insert (map_of branch part) (fst (snd row)) (snd (snd row)) (fst row) (shift + 6)) branch)"
      for row :: "'a row" and branch
    have put: "trie_add (Some (Branch branch)) row shift (Branch (put row branch))"
      if row: "row \<in> set rows" and ok: "trie_ok shift (Branch branch)" and fresh: "row_id row \<notin> row_id ` set (trie_rows (Branch branch))" for row branch
    proof -
      let ?p = "trie_part (fst row) shift"
      note dist = trie_branchD(1) [OF ok]
      have child: "case map_of branch ?p of None \<Rightarrow> True | Some m \<Rightarrow> trie_ok (shift + 6) m"
        using trie_branchD(4) [OF ok, of ?p] by (simp split: option.split)
      have "index_find (map_of branch ?p) (fst row) (fst (snd row)) (shift + 6) = None"
      proof (rule ccontr)
        assume "index_find (map_of branch ?p) (fst row) (fst (snd row)) (shift + 6) \<noteq> None"
        then obtain v where "index_find (map_of branch ?p) (fst row) (fst (snd row)) (shift + 6) = Some v" by blast
        then obtain m where "map_of branch ?p = Some m" "(fst row, fst (snd row), v) \<in> set (trie_rows m)"
          using trie_find_rows [OF child] by blast
        then have "(fst row, fst (snd row), v) \<in> set (trie_rows (Branch branch))" using trie_branch_rows [OF dist] by blast
        then have "row_id (fst row, fst (snd row), v) \<in> row_id ` set (trie_rows (Branch branch))" by (rule imageI)
        then show False using fresh by (simp add: row_id_def)
      qed
      from "2.IH"(1) [OF False row refl child this]
      have "trie_add (map_of branch ?p) row (shift + 6) (index_insert (map_of branch ?p) (fst (snd row)) (snd (snd row)) (fst row) (shift + 6))"
        by simp
      then show ?thesis unfolding put_def Let_def by (rule trie_add_branch [OF ok refl])
    qed
    have split: "trie_ok shift (Branch (fold put rs branch)) \<and>
        set (trie_rows (Branch (fold put rs branch))) = set rs \<union> set (trie_rows (Branch branch))"
      if "set rs \<subseteq> set rows" "distinct (map row_id rs)" "trie_ok shift (Branch branch)"
        "row_id ` set rs \<inter> row_id ` set (trie_rows (Branch branch)) = {}" for rs branch
      using that
    proof (induction rs arbitrary: branch)
      case (Cons row rs)
      have "row \<in> set rows" "row_id row \<notin> row_id ` set (trie_rows (Branch branch))" using Cons.prems by auto
      note p = put [OF this(1) Cons.prems(3) this(2), unfolded trie_add_def option.case]
      have "row_id ` set rs \<inter> row_id ` set (trie_rows (Branch (put row branch))) = {}"
        using Cons.prems(2,4) p by auto
      with Cons.IH [of "put row branch"] Cons.prems p show ?case by auto
    qed simp
    let ?br = "Branch (fold put rows [])"
    have br: "trie_ok shift ?br" "set (trie_rows ?br) = set rows"
      using split [of rows "[]"] "2.prems"(1) by (simp_all add: trie_rows_Nil trie_ok_Nil)
    have none: "index_find (Some ?br) digest key shift = None"
    proof (rule ccontr)
      assume "index_find (Some ?br) digest key shift \<noteq> None"
      then obtain v where "index_find (Some ?br) digest key shift = Some v" by blast
      then have "(digest, key, v) \<in> set rows" using trie_find_rows [where n = "Some ?br" and shift = shift] br by auto
      then show False using new by (force simp: row_id_def)
    qed
    have "trie_add (Some ?br) (digest, key, state) shift (index_insert (Some ?br) key state digest shift)"
      using "2.IH"(2) [OF False, folded put_def [abs_def]] br(1) none by simp
    then show ?thesis using False br(2) by (simp add: trie_add_def put_def [abs_def])
  qed
next
  case (3 branch key state digest shift)
  let ?p = "trie_part digest shift"
  have ok: "trie_ok shift (Branch branch)" using "3.prems"(1) by simp
  have child: "case map_of branch ?p of None \<Rightarrow> True | Some m \<Rightarrow> trie_ok (shift + 6) m"
    using trie_branchD(4) [OF ok, of ?p] by (simp split: option.split)
  from "3.IH" [OF refl child] "3.prems"(2)
  have "trie_add (map_of branch ?p) (digest, key, state) (shift + 6) (index_insert (map_of branch ?p) key state digest (shift + 6))" by simp
  from trie_add_branch [OF ok _ this] show ?case by (simp add: Let_def)
qed (simp add: trie_add_def row_id_def)

section \<open>The index\<close>

record 'v index =
  ix_root :: "'v hnode option"
  ix_size :: int

definition empty_index :: "'v index" where
  "empty_index = \<lparr>ix_root = None, ix_size = 0\<rparr>"

definition index_get :: "(string \<Rightarrow> 64 word) \<Rightarrow> 'v index \<Rightarrow> string \<Rightarrow> 'v option" where
  "index_get hash ix key = index_find (ix_root ix) (hash key) key 0"

definition index_publish :: "(string \<Rightarrow> 64 word) \<Rightarrow> string \<Rightarrow> 'v \<Rightarrow> 'v index \<Rightarrow> 'v index res" where
  "index_publish hash key state ix =
     (if index_get hash ix key \<noteq> None then Inl RuntimeError
      else Inr \<lparr>ix_root = Some (index_insert (ix_root ix) key state (hash key) 0), ix_size = ix_size ix + 1\<rparr>)"

text \<open>\<^verbatim>\<open>__iter__\<close>: a stack of nodes with its top first.\<close>

function (sequential) index_iter :: "'v hnode option list \<Rightarrow> string list" where
  "index_iter [] = []"
| "index_iter (Some (Branch branch) # stack) = index_iter (rev (map (Some \<circ> snd) branch) @ stack)"
| "index_iter (Some (Bucket rows) # stack) = map (\<lambda>row. fst (snd row)) rows @ index_iter stack"
| "index_iter (None # stack) = index_iter stack"
  by pat_completeness auto

lemma size_children: "sum_list (map (size_option size \<circ> (Some \<circ> snd)) branch) < Suc (size (Branch branch))"
  by (induction branch) auto

termination index_iter
  by (relation "measure (\<lambda>stack. sum_list (map (size_option size) stack))")
     (use size_children in \<open>auto simp: rev_map [symmetric] sum_list_rev comp_def\<close>)

definition index_keys :: "'v index \<Rightarrow> string list" where
  "index_keys ix = index_iter [ix_root ix]"

definition trie_index_ok :: "(string \<Rightarrow> 64 word) \<Rightarrow> 'v index \<Rightarrow> bool" where
  "trie_index_ok hash ix = (case ix_root ix of None \<Rightarrow> True
     | Some n \<Rightarrow> trie_ok 0 n \<and> (\<forall>row \<in> set (trie_rows n). fst row = hash (fst (snd row))))"

lemma index_find_new:
  assumes ok: "trie_index_ok hash ix" and new: "index_get hash ix key = None"
  shows "trie_index_ok hash \<lparr>ix_root = Some (index_insert (ix_root ix) key state (hash key) 0), ix_size = n\<rparr>"
proof -
  have "case ix_root ix of None \<Rightarrow> True | Some m \<Rightarrow> trie_ok 0 m" using ok by (auto simp: trie_index_ok_def split: option.splits)
  from index_insert_ok [OF this] new
  have "trie_add (ix_root ix) (hash key, key, state) 0 (index_insert (ix_root ix) key state (hash key) 0)" by (simp add: index_get_def)
  then show ?thesis using ok by (auto simp: trie_index_ok_def trie_add_def split: option.splits)
qed

lemma index_iter_rows:
  "mset (index_iter stack) = mset (map (\<lambda>row. fst (snd row)) (concat (map (\<lambda>n. case n of None \<Rightarrow> [] | Some m \<Rightarrow> trie_rows m) stack)))"
proof (induction stack rule: index_iter.induct)
  case (2 branch stack)
  have "mset (concat (map (\<lambda>n. case n of None \<Rightarrow> [] | Some m \<Rightarrow> trie_rows m) (map (Some \<circ> snd) branch))) = mset (trie_rows (Branch branch))"
    by (induction branch) (auto simp: trie_rows_Nil trie_rows_Cons)
  then have "mset (concat (map (\<lambda>n. case n of None \<Rightarrow> [] | Some m \<Rightarrow> trie_rows m) (rev (map (Some \<circ> snd) branch)))) = mset (trie_rows (Branch branch))"
    by (simp add: mset_concat rev_map [symmetric] sum_list_rev)
  then show ?case using 2 by simp
qed auto

lemma index_keys_rows:
  assumes "trie_index_ok hash ix"
  shows "distinct (index_keys ix)" "set (index_keys ix) = dom (index_get hash ix)"
proof -
  define rows where "rows = (case ix_root ix of None \<Rightarrow> [] | Some n \<Rightarrow> trie_rows n)"
  have ms: "mset (index_keys ix) = mset (map (\<lambda>row. fst (snd row)) rows)"
    by (simp add: index_keys_def index_iter_rows rows_def)
  have home: "fst row = hash (fst (snd row))" if "row \<in> set rows" for row
    using assms that by (auto simp: trie_index_ok_def rows_def split: option.splits)
  have "distinct (map row_id rows)"
    using assms trie_ok_distinct by (auto simp: trie_index_ok_def rows_def split: option.splits)
  then have "distinct (map (\<lambda>row. fst (snd row)) rows)"
    using home by (auto simp: distinct_map row_id_def inj_on_def)
  then show "distinct (index_keys ix)" using ms mset_eq_imp_distinct_iff by blast
  have ok: "case ix_root ix of None \<Rightarrow> True | Some m \<Rightarrow> trie_ok 0 m" using assms by (auto simp: trie_index_ok_def split: option.splits)
  have "index_get hash ix k = Some v \<longleftrightarrow> (hash k, k, v) \<in> set rows" for k v
    unfolding index_get_def trie_find_rows [OF ok] by (cases "ix_root ix") (simp_all add: rows_def)
  then have "k \<in> dom (index_get hash ix) \<longleftrightarrow> k \<in> (\<lambda>row. fst (snd row)) ` set rows" for k
    using home by force
  then show "set (index_keys ix) = dom (index_get hash ix)"
    using mset_eq_setD [OF ms] by auto
qed

interpretation state_index: registry empty_index "trie_index_ok hash" "index_get hash" "index_publish hash" index_keys ix_size for hash
proof unfold_locales
  fix r r' :: "'v index" and k v
  show "trie_index_ok hash empty_index" "index_get hash empty_index k = None" "ix_size empty_index = 0"
    by (simp_all add: trie_index_ok_def empty_index_def index_get_def)
  show "index_get hash r k \<noteq> None \<Longrightarrow> index_publish hash k v r = Inl RuntimeError" by (simp add: index_publish_def)
  show "trie_index_ok hash r \<Longrightarrow> index_get hash r k = None \<Longrightarrow> \<exists>r'. index_publish hash k v r = Inr r' \<and> trie_index_ok hash r'"
    by (simp add: index_publish_def index_find_new)
  show "index_publish hash k v r = Inr r' \<Longrightarrow> ix_size r' = ix_size r + 1" by (auto simp: index_publish_def split: if_splits)
  show "index_get hash r' = (index_get hash r)(k \<mapsto> v)" if "index_publish hash k v r = Inr r'"
    using that by (auto simp: fun_eq_iff index_publish_def index_get_def index_find_insert split: if_splits option.splits)
  show "trie_index_ok hash r \<Longrightarrow> distinct (index_keys r)" "trie_index_ok hash r \<Longrightarrow> set (index_keys r) = dom (index_get hash r)"
    by (rule index_keys_rows; assumption)+
qed

end
