(* ===== verification/Frontier.thy ===== *)
theory Frontier
  imports StateIndex "HOL-Library.Product_Lexorder"
begin

text \<open>
  The sibling service frontier of \<^verbatim>\<open>concurrency/scheduling/runtime/unified.py\<close>: two heaps of
  (value, revision, identity) rows with lazy deletion that give the service floor of an entity among its
  siblings.  The entity objects live in a store, a list; their identity (\<^verbatim>\<open>id(state)\<close>) is the position
  in it.  A \<^verbatim>\<open>heapq\<close> heap is the sorted list of its rows: \<^verbatim>\<open>heap[0]\<close> and \<^verbatim>\<open>heappop\<close> see the least row, in
  Python's order of tuples.
\<close>

section \<open>Entities and frontiers\<close>

record entity =
  en_in_flight :: int
  en_service :: int
  en_reserved :: int
  en_last_grant :: int
  en_last_completion :: int
  en_parent :: "string list"
  en_retire :: bool
  en_frontier :: "(string \<times> string list) option"

definition new_entity :: "string list \<Rightarrow> entity" where
  "new_entity parent = \<lparr>en_in_flight = 0, en_service = 0, en_reserved = 0, en_last_grant = -1, en_last_completion = -1,
     en_parent = parent, en_retire = False, en_frontier = None\<rparr>"

definition en_load :: "entity \<Rightarrow> int" where
  "en_load e = en_service e + en_reserved e"

type_synonym heap_row = "int \<times> int \<times> nat"

record frontier =
  fr_states :: "(nat \<times> int) list"
  fr_active :: "heap_row list"
  fr_completed :: "heap_row list"

definition new_frontier :: frontier where
  "new_frontier = \<lparr>fr_states = [], fr_active = [], fr_completed = []\<rparr>"

definition compact_if_needed :: "entity list \<Rightarrow> frontier \<Rightarrow> frontier" where
  "compact_if_needed ents f =
     (let bound = max 64 (4 * length (fr_states f));
          f1 = (if bound < length (fr_active f)
            then f\<lparr>fr_active := sort (map (\<lambda>(key, version). (en_load (ents ! key), version, key))
                     (filter (\<lambda>(key, version). 0 < en_in_flight (ents ! key)) (fr_states f)))\<rparr> else f) in
      if bound < length (fr_completed f1)
      then f1\<lparr>fr_completed := sort (map (\<lambda>(key, version). (- en_last_completion (ents ! key), version, key))
               (filter (\<lambda>(key, version). 0 \<le> en_last_completion (ents ! key)) (fr_states f1)))\<rparr> else f1)"

definition frontier_publish :: "entity list \<Rightarrow> nat \<Rightarrow> frontier \<Rightarrow> frontier" where
  "frontier_publish ents key f =
     (let revision = (case map_of (fr_states f) key of None \<Rightarrow> 1 | Some prior \<Rightarrow> prior + 1);
          state = ents ! key;
          f1 = f\<lparr>fr_states := branch_set key revision (fr_states f)\<rparr>;
          f2 = (if 0 < en_in_flight state then f1\<lparr>fr_active := insort (en_load state, revision, key) (fr_active f1)\<rparr> else f1);
          f3 = (if 0 \<le> en_last_completion state
                then f2\<lparr>fr_completed := insort (- en_last_completion state, revision, key) (fr_completed f2)\<rparr> else f2) in
      compact_if_needed ents f3)"

text \<open>
  \<^verbatim>\<open>_first_other\<close>: stale rows are dropped, the row of the excluded entity is set aside and pushed back
  at the end.
\<close>

definition row_live :: "entity list \<Rightarrow> bool \<Rightarrow> nat \<Rightarrow> bool" where
  "row_live ents active key = (if active then 0 < en_in_flight (ents ! key) else 0 \<le> en_last_completion (ents ! key))"

fun scan_heap :: "entity list \<Rightarrow> (nat \<times> int) list \<Rightarrow> bool \<Rightarrow> nat \<Rightarrow> heap_row list \<Rightarrow> heap_row option \<Rightarrow>
    heap_row option res \<times> heap_row list \<times> heap_row option" where
  "scan_heap ents states active exclude [] excluded = (Inr None, [], excluded)"
| "scan_heap ents states active exclude (row # heap) excluded =
     (case map_of states (snd (snd row)) of
        None \<Rightarrow> (Inl KeyError, row # heap, excluded)
      | Some revision \<Rightarrow>
          if revision \<noteq> fst (snd row) \<or> \<not> row_live ents active (snd (snd row))
          then scan_heap ents states active exclude heap excluded
          else if snd (snd row) = exclude then scan_heap ents states active exclude heap (Some row)
          else (Inr (Some row), row # heap, excluded))"

definition first_other :: "entity list \<Rightarrow> (nat \<times> int) list \<Rightarrow> bool \<Rightarrow> nat \<Rightarrow> heap_row list \<Rightarrow> heap_row option res \<times> heap_row list" where
  "first_other ents states active exclude heap =
     (case scan_heap ents states active exclude heap None of
        (r, heap', None) \<Rightarrow> (r, heap')
      | (r, heap', Some row) \<Rightarrow> (r, insort row heap'))"

definition frontier_floor :: "entity list \<Rightarrow> nat \<Rightarrow> frontier \<Rightarrow> int res \<times> frontier" where
  "frontier_floor ents exclude f =
     (case first_other ents (fr_states f) True exclude (fr_active f) of
        (Inl e, heap) \<Rightarrow> (Inl e, f\<lparr>fr_active := heap\<rparr>)
      | (Inr (Some row), heap) \<Rightarrow> (Inr (fst row), f\<lparr>fr_active := heap\<rparr>)
      | (Inr None, heap) \<Rightarrow>
          (let f1 = f\<lparr>fr_active := heap\<rparr> in
           case first_other ents (fr_states f1) False exclude (fr_completed f1) of
             (Inl e, heap) \<Rightarrow> (Inl e, f1\<lparr>fr_completed := heap\<rparr>)
           | (Inr None, heap) \<Rightarrow> (Inr 0, f1\<lparr>fr_completed := heap\<rparr>)
           | (Inr (Some row), heap) \<Rightarrow> (Inr (en_load (ents ! snd (snd row))), f1\<lparr>fr_completed := heap\<rparr>)))"

section \<open>The reference floor\<close>

text \<open>The least service of an active sibling, else the service of the sibling that completed last.\<close>

definition sibling_floor :: "entity list \<Rightarrow> nat set \<Rightarrow> nat \<Rightarrow> int" where
  "sibling_floor ents siblings x =
     (let others = siblings - {x};
          busy = {a \<in> others. 0 < en_in_flight (ents ! a)};
          completed = {a \<in> others. 0 \<le> en_last_completion (ents ! a)} in
      if busy \<noteq> {} then Min ((\<lambda>a. en_load (ents ! a)) ` busy)
      else if completed \<noteq> {} then snd (Max ((\<lambda>a. (en_last_completion (ents ! a), en_load (ents ! a))) ` completed))
      else 0)"

section \<open>Heaps with stale rows\<close>

definition rows_ok :: "(nat \<Rightarrow> int) \<Rightarrow> (nat \<Rightarrow> bool) \<Rightarrow> (nat \<times> int) list \<Rightarrow> heap_row set \<Rightarrow> bool" where
  "rows_ok val live states H =
     ((\<forall>(q, version, a) \<in> H. \<exists>r. map_of states a = Some r \<and> version \<le> r \<and> (version = r \<longrightarrow> live a \<and> q = val a)) \<and>
      (\<forall>a r. map_of states a = Some r \<longrightarrow> live a \<longrightarrow> (val a, r, a) \<in> H))"

lemma rows_okD:
  assumes "rows_ok val live states H"
  shows "(q, version, a) \<in> H \<Longrightarrow> \<exists>r. map_of states a = Some r \<and> version \<le> r \<and> (version = r \<longrightarrow> live a \<and> q = val a)"
    and "map_of states a = Some r \<Longrightarrow> live a \<Longrightarrow> (val a, r, a) \<in> H"
  using assms unfolding rows_ok_def by blast+

lemma rows_okI:
  assumes "\<And>q version a. (q, version, a) \<in> H \<Longrightarrow> \<exists>r. map_of states a = Some r \<and> version \<le> r \<and> (version = r \<longrightarrow> live a \<and> q = val a)"
    and "\<And>a r. map_of states a = Some r \<Longrightarrow> live a \<Longrightarrow> (val a, r, a) \<in> H"
  shows "rows_ok val live states H"
  using assms unfolding rows_ok_def by blast

lemma rows_ok_drop:
  assumes ok: "rows_ok val live states H" and stale: "map_of states a = Some r" "r \<noteq> version"
  shows "rows_ok val live states (H - {(q, version, a)})"
proof (rule rows_okI)
  show "\<exists>r. map_of states b = Some r \<and> v \<le> r \<and> (v = r \<longrightarrow> live b \<and> p = val b)" if "(p, v, b) \<in> H - {(q, version, a)}" for p v b
    using rows_okD(1) [OF ok, of p v b] that by blast
  show "(val b, s, b) \<in> H - {(q, version, a)}" if "map_of states b = Some s" "live b" for b s
    using rows_okD(2) [OF ok that] stale that(1) by auto
qed

text \<open>What the scan finds: the least current row of another entity; only stale rows are lost.\<close>

lemma scan_heap_spec:
  assumes "rows_ok val (row_live ents active) states (set heap \<union> set_option excluded)" "sorted heap" "distinct heap"
    and "\<And>e. excluded = Some e \<Longrightarrow> snd (snd e) = x \<and> e \<notin> set heap \<and> map_of states x = Some (fst (snd e))"
  shows "\<exists>r heap' excluded'. scan_heap ents states active x heap excluded = (Inr r, heap', excluded') \<and>
    rows_ok val (row_live ents active) states (set heap' \<union> set_option excluded') \<and> sorted heap' \<and> distinct heap' \<and>
    (\<forall>e. excluded' = Some e \<longrightarrow> e \<notin> set heap') \<and>
    (case r of None \<Rightarrow> \<forall>a s. map_of states a = Some s \<longrightarrow> a \<noteq> x \<longrightarrow> \<not> row_live ents active a
     | Some (q, version, a) \<Rightarrow> a \<noteq> x \<and> map_of states a = Some version \<and> row_live ents active a \<and> q = val a \<and>
         (\<forall>b s. map_of states b = Some s \<longrightarrow> b \<noteq> x \<longrightarrow> row_live ents active b \<longrightarrow> q \<le> val b))"
  using assms
proof (induction heap arbitrary: excluded)
  case Nil
  have "\<not> row_live ents active a" if "map_of states a = Some s" "a \<noteq> x" for a s
  proof
    assume "row_live ents active a"
    then have "(val a, s, a) \<in> set_option excluded" using rows_okD(2) [OF Nil.prems(1) that(1)] by simp
    then show False using Nil.prems(4) [of "(val a, s, a)"] that(2) by simp
  qed
  then show ?case using Nil.prems(1) by auto
next
  case (Cons row heap)
  obtain q version a where row: "row = (q, version, a)" by (cases row)
  obtain r where r: "map_of states a = Some r" "version \<le> r" "version = r \<longrightarrow> row_live ents active a \<and> q = val a"
    using rows_okD(1) [OF Cons.prems(1), of q version a] row by auto
  have tl: "sorted heap" "distinct heap" "row \<notin> set heap" using Cons.prems(2,3) by auto
  show ?case
  proof (cases "r \<noteq> version")
    case True
    have exc: "e \<notin> set heap" "e \<noteq> row" if "excluded = Some e" for e using Cons.prems(4) [OF that] by auto
    have "(set (row # heap) \<union> set_option excluded) - {row} = set heap \<union> set_option excluded"
      using tl(3) exc by (cases excluded) auto
    then have "rows_ok val (row_live ents active) states (set heap \<union> set_option excluded)"
      using rows_ok_drop [OF Cons.prems(1) r(1) True, of q] row by simp
    from Cons.IH [OF this tl(1,2)] Cons.prems(4) True r(1) row show ?thesis by auto
  next
    case False
    then have live: "row_live ents active a" "q = val a" using r(3) by auto
    show ?thesis
    proof (cases "a = x")
      case True
      have none: "excluded = None"
      proof (rule ccontr)
        assume "excluded \<noteq> None"
        then obtain e where e: "excluded = Some e" by blast
        then obtain p where "e = (p, r, x)" using Cons.prems(4) [OF e] r(1) True by (cases e) auto
        moreover have "p = val x" using rows_okD(1) [OF Cons.prems(1), of p r x] e \<open>e = (p, r, x)\<close> r(1) True by auto
        ultimately have "e = row" using row live(2) False True by simp
        then show False using Cons.prems(4) [OF e] by simp
      qed
      have "rows_ok val (row_live ents active) states (set heap \<union> set_option (Some row))" using Cons.prems(1) none by simp
      from Cons.IH [OF this tl(1,2)] tl(3) False True live(1) r(1) row show ?thesis by auto
    next
      case other: False
      have "q \<le> val b" if b: "map_of states b = Some s" "b \<noteq> x" "row_live ents active b" for b s
      proof -
        have "(val b, s, b) \<in> set (row # heap)"
          using rows_okD(2) [OF Cons.prems(1) b(1,3)] Cons.prems(4) [of "(val b, s, b)"] b(2) by auto
        then have "row \<le> (val b, s, b)" using Cons.prems(2) by auto
        then show ?thesis by (simp add: row less_eq_prod_def less_le_not_le) (auto split: if_splits)
      qed
      then show ?thesis using Cons.prems False other live r(1) row by auto
    qed
  qed
qed

definition heap_ok :: "(nat \<Rightarrow> int) \<Rightarrow> (nat \<Rightarrow> bool) \<Rightarrow> (nat \<times> int) list \<Rightarrow> heap_row list \<Rightarrow> bool" where
  "heap_ok val live states heap = (rows_ok val live states (set heap) \<and> sorted heap \<and> distinct heap)"

lemma first_other_spec:
  assumes "heap_ok val (row_live ents active) states heap"
  shows "\<exists>r heap'. first_other ents states active x heap = (Inr r, heap') \<and> heap_ok val (row_live ents active) states heap' \<and>
    (case r of None \<Rightarrow> \<forall>a s. map_of states a = Some s \<longrightarrow> a \<noteq> x \<longrightarrow> \<not> row_live ents active a
     | Some (q, version, a) \<Rightarrow> a \<noteq> x \<and> map_of states a = Some version \<and> row_live ents active a \<and> q = val a \<and>
         (\<forall>b s. map_of states b = Some s \<longrightarrow> b \<noteq> x \<longrightarrow> row_live ents active b \<longrightarrow> q \<le> val b))"
proof -
  have "rows_ok val (row_live ents active) states (set heap \<union> set_option None)" "sorted heap" "distinct heap"
    using assms by (simp_all add: heap_ok_def)
  from scan_heap_spec [OF this] obtain r heap' exc where
    scan: "scan_heap ents states active x heap None = (Inr r, heap', exc)"
      "rows_ok val (row_live ents active) states (set heap' \<union> set_option exc)" "sorted heap'" "distinct heap'"
      "\<forall>e. exc = Some e \<longrightarrow> e \<notin> set heap'"
    and found: "case r of None \<Rightarrow> \<forall>a s. map_of states a = Some s \<longrightarrow> a \<noteq> x \<longrightarrow> \<not> row_live ents active a
     | Some (q, version, a) \<Rightarrow> a \<noteq> x \<and> map_of states a = Some version \<and> row_live ents active a \<and> q = val a \<and>
         (\<forall>b s. map_of states b = Some s \<longrightarrow> b \<noteq> x \<longrightarrow> row_live ents active b \<longrightarrow> q \<le> val b)" by blast
  show ?thesis
  proof (cases exc)
    case None
    then show ?thesis using scan found by (simp add: first_other_def heap_ok_def)
  next
    case (Some e)
    then have "first_other ents states active x heap = (Inr r, insort e heap')" using scan(1) by (simp add: first_other_def)
    moreover have "heap_ok val (row_live ents active) states (insort e heap')"
      using scan(2-5) Some by (simp add: heap_ok_def set_insort_key sorted_insort distinct_insort)
    ultimately show ?thesis using found by blast
  qed
qed

section \<open>The floor is exact\<close>

definition frontier_keys :: "frontier \<Rightarrow> nat set" where
  "frontier_keys f = dom (map_of (fr_states f))"

definition frontier_ok :: "entity list \<Rightarrow> frontier \<Rightarrow> bool" where
  "frontier_ok ents f =
     (distinct (map fst (fr_states f)) \<and>
      heap_ok (\<lambda>a. en_load (ents ! a)) (row_live ents True) (fr_states f) (fr_active f) \<and>
      heap_ok (\<lambda>a. - en_last_completion (ents ! a)) (row_live ents False) (fr_states f) (fr_completed f))"

text \<open>No two siblings completed at the same position of the sequence.\<close>

definition completions_distinct :: "entity list \<Rightarrow> nat set \<Rightarrow> bool" where
  "completions_distinct ents S = inj_on (\<lambda>a. en_last_completion (ents ! a)) {a \<in> S. 0 \<le> en_last_completion (ents ! a)}"

lemma finite_frontier_keys [simp]: "finite (frontier_keys f)" by (simp add: frontier_keys_def finite_dom_map_of)

lemma snd_Max_unique:
  fixes lc load :: "nat \<Rightarrow> int"
  assumes "finite C" "a \<in> C" "\<And>b. b \<in> C \<Longrightarrow> lc b \<le> lc a" "inj_on lc C"
  shows "snd (Max ((\<lambda>b. (lc b, load b)) ` C)) = load a"
proof -
  have "Max ((\<lambda>b. (lc b, load b)) ` C) = (lc a, load a)"
  proof (rule Max_eqI)
    fix y assume "y \<in> (\<lambda>b. (lc b, load b)) ` C"
    then obtain b where b: "b \<in> C" "y = (lc b, load b)" by blast
    then show "y \<le> (lc a, load a)" using assms(2-4) by (cases "b = a") (auto simp: less_le inj_on_def)
  qed (use assms in auto)
  then show ?thesis by simp
qed

lemma frontier_floor_exact:
  assumes ok: "frontier_ok ents f" and comps: "completions_distinct ents (frontier_keys f)"
  shows "\<exists>f'. frontier_floor ents x f = (Inr (sibling_floor ents (frontier_keys f) x), f') \<and> frontier_ok ents f' \<and> fr_states f' = fr_states f"
proof -
  let ?st = "fr_states f" and ?K = "frontier_keys f"
  define busy where "busy = {a \<in> ?K - {x}. 0 < en_in_flight (ents ! a)}"
  define completed where "completed = {a \<in> ?K - {x}. 0 \<le> en_last_completion (ents ! a)}"
  have fin: "finite busy" "finite completed" by (simp_all add: busy_def completed_def)
  have floor: "sibling_floor ents ?K x = (if busy \<noteq> {} then Min ((\<lambda>a. en_load (ents ! a)) ` busy)
      else if completed \<noteq> {} then snd (Max ((\<lambda>a. (en_last_completion (ents ! a), en_load (ents ! a))) ` completed)) else 0)"
    by (simp only: sibling_floor_def busy_def completed_def Let_def)
  have inb: "a \<in> busy \<longleftrightarrow> (\<exists>s. map_of ?st a = Some s) \<and> a \<noteq> x \<and> row_live ents True a" for a
    by (auto simp: busy_def frontier_keys_def row_live_def)
  have inc: "a \<in> completed \<longleftrightarrow> (\<exists>s. map_of ?st a = Some s) \<and> a \<noteq> x \<and> row_live ents False a" for a
    by (auto simp: completed_def frontier_keys_def row_live_def)
  have ok': "heap_ok (\<lambda>a. en_load (ents ! a)) (row_live ents True) ?st (fr_active f)"
    "heap_ok (\<lambda>a. - en_last_completion (ents ! a)) (row_live ents False) ?st (fr_completed f)" "distinct (map fst ?st)"
    using ok by (simp_all add: frontier_ok_def)
  obtain r1 h1 where s1: "first_other ents ?st True x (fr_active f) = (Inr r1, h1)"
    "heap_ok (\<lambda>a. en_load (ents ! a)) (row_live ents True) ?st h1"
    "case r1 of None \<Rightarrow> \<forall>a s. map_of ?st a = Some s \<longrightarrow> a \<noteq> x \<longrightarrow> \<not> row_live ents True a
     | Some (q, version, a) \<Rightarrow> a \<noteq> x \<and> map_of ?st a = Some version \<and> row_live ents True a \<and> q = en_load (ents ! a) \<and>
         (\<forall>b s. map_of ?st b = Some s \<longrightarrow> b \<noteq> x \<longrightarrow> row_live ents True b \<longrightarrow> q \<le> en_load (ents ! b))"
    using first_other_spec [OF ok'(1), of x] by blast
  show ?thesis
  proof (cases r1)
    case (Some row)
    obtain q version a where row: "row = (q, version, a)" by (cases row)
    have a: "a \<in> busy" "q = en_load (ents ! a)" "\<And>b. b \<in> busy \<Longrightarrow> q \<le> en_load (ents ! b)"
      using s1(3) Some row inb by auto
    have "Min ((\<lambda>a. en_load (ents ! a)) ` busy) = q" by (rule Min_eqI) (use fin a in auto)
    then have "sibling_floor ents ?K x = q" using floor a(1) by auto
    then show ?thesis using s1(1,2) ok' Some row by (simp add: frontier_floor_def frontier_ok_def)
  next
    case None
    then have nb: "busy = {}" using s1(3) inb by auto
    obtain r2 h2 where s2: "first_other ents ?st False x (fr_completed f) = (Inr r2, h2)"
      "heap_ok (\<lambda>a. - en_last_completion (ents ! a)) (row_live ents False) ?st h2"
      "case r2 of None \<Rightarrow> \<forall>a s. map_of ?st a = Some s \<longrightarrow> a \<noteq> x \<longrightarrow> \<not> row_live ents False a
       | Some (q, version, a) \<Rightarrow> a \<noteq> x \<and> map_of ?st a = Some version \<and> row_live ents False a \<and> q = - en_last_completion (ents ! a) \<and>
           (\<forall>b s. map_of ?st b = Some s \<longrightarrow> b \<noteq> x \<longrightarrow> row_live ents False b \<longrightarrow> q \<le> - en_last_completion (ents ! b))"
      using first_other_spec [OF ok'(2), of x] by blast
    show ?thesis
    proof (cases r2)
      case None2: None
      then have "completed = {}" using s2(3) inc by auto
      then have "sibling_floor ents ?K x = 0" using floor nb by simp
      then show ?thesis using s1(1,2) s2(1,2) ok' None None2 by (simp add: frontier_floor_def frontier_ok_def Let_def)
    next
      case (Some row)
      obtain q version a where row: "row = (q, version, a)" by (cases row)
      have a: "a \<in> completed" "\<And>b. b \<in> completed \<Longrightarrow> en_last_completion (ents ! b) \<le> en_last_completion (ents ! a)"
        using s2(3) Some row inc by auto
      have "inj_on (\<lambda>b. en_last_completion (ents ! b)) completed"
        using comps unfolding completions_distinct_def by (rule inj_on_subset) (auto simp: completed_def)
      from snd_Max_unique [OF fin(2) a this] have "sibling_floor ents ?K x = en_load (ents ! a)"
        using floor nb a(1) by auto
      then show ?thesis using s1(1,2) s2(1,2) ok' None Some row by (simp add: frontier_floor_def frontier_ok_def Let_def)
    qed
  qed
qed

section \<open>Publishing keeps the frontier\<close>

lemma heap_ok_rebuild:
  assumes "distinct (map fst states)"
  shows "heap_ok val live states (sort (map (\<lambda>(key, version). (val key, version, key)) (filter (\<lambda>(key, version). live key) states)))"
proof -
  have "inj_on (\<lambda>(key, version). (val key, version, key)) (set states)" by (auto intro!: inj_onI)
  then have "distinct (map (\<lambda>(key, version). (val key, version, key)) (filter (\<lambda>(key, version). live key) states))"
    using assms by (auto simp: distinct_map intro: inj_on_subset)
  moreover have "rows_ok val live states (set (map (\<lambda>(key, version). (val key, version, key)) (filter (\<lambda>(key, version). live key) states)))"
    by (rule rows_okI) (use assms in \<open>force simp: map_of_eq_Some_iff\<close>)+
  ultimately show ?thesis by (simp add: heap_ok_def)
qed

lemma heap_ok_bump:
  assumes ok: "heap_ok val live states heap" and r: "r = (case map_of states x of None \<Rightarrow> 1 | Some p \<Rightarrow> p + 1)"
    and same: "\<And>a. a \<in> dom (map_of states) \<Longrightarrow> a \<noteq> x \<Longrightarrow> val' a = val a \<and> live' a = live a"
  shows "heap_ok val' live' (branch_set x r states) (if live' x then insort (val' x, r, x) heap else heap)"
proof -
  have ok': "rows_ok val live states (set heap)" "sorted heap" "distinct heap" using ok by (simp_all add: heap_ok_def)
  have old: "\<exists>s. map_of (branch_set x r states) a = Some s \<and> version \<le> s \<and> (version = s \<longrightarrow> live' a \<and> q = val' a) \<and> (a = x \<longrightarrow> version < s)"
    if row: "(q, version, a) \<in> set heap" for q version a
  proof -
    obtain s where s: "map_of states a = Some s" "version \<le> s" "version = s \<longrightarrow> live a \<and> q = val a"
      using rows_okD(1) [OF ok'(1) row] by blast
    show ?thesis
    proof (cases "a = x")
      case False
      then have "val' a = val a" "live' a = live a" using same [of a] s(1) by auto
      then show ?thesis using s False by (simp add: map_of_branch_set)
    qed (use s in \<open>simp add: map_of_branch_set r\<close>)
  qed
  have new: "(val' x, r, x) \<notin> set heap"
    using old [of "val' x" r x] by (auto simp: map_of_branch_set)
  have "rows_ok val' live' (branch_set x r states) (if live' x then insert (val' x, r, x) (set heap) else set heap)"
  proof (rule rows_okI)
    fix q version a assume "(q, version, a) \<in> (if live' x then insert (val' x, r, x) (set heap) else set heap)"
    then consider "(q, version, a) \<in> set heap" | "(q, version, a) = (val' x, r, x)" "live' x" by (auto split: if_splits)
    then show "\<exists>s. map_of (branch_set x r states) a = Some s \<and> version \<le> s \<and> (version = s \<longrightarrow> live' a \<and> q = val' a)"
      using old [of q version a] by cases (auto simp: map_of_branch_set)
  next
    fix a s assume a: "map_of (branch_set x r states) a = Some s" "live' a"
    show "(val' a, s, a) \<in> (if live' x then insert (val' x, r, x) (set heap) else set heap)"
    proof (cases "a = x")
      case False
      then have "map_of states a = Some s" using a(1) by (simp add: map_of_branch_set)
      moreover from this have "val' a = val a \<and> live' a = live a" using same [of a] False by auto
      ultimately have "(val' a, s, a) \<in> set heap" using rows_okD(2) [OF ok'(1)] a(2) by simp
      then show ?thesis by simp
    qed (use a in \<open>simp add: map_of_branch_set\<close>)
  qed
  then show ?thesis using ok' new by (cases "live' x") (simp_all add: heap_ok_def set_insort_key sorted_insort distinct_insort)
qed

lemma compact_ok:
  assumes "frontier_ok ents f"
  shows "frontier_ok ents (compact_if_needed ents f)" "fr_states (compact_if_needed ents f) = fr_states f"
proof -
  have dist: "distinct (map fst (fr_states f))" using assms by (simp add: frontier_ok_def)
  note rebuild = heap_ok_rebuild [OF dist, of "\<lambda>a. en_load (ents ! a)" "row_live ents True"]
    heap_ok_rebuild [OF dist, of "\<lambda>a. - en_last_completion (ents ! a)" "row_live ents False"]
  show "frontier_ok ents (compact_if_needed ents f)"
    using assms rebuild by (auto simp: compact_if_needed_def frontier_ok_def row_live_def Let_def)
  show "fr_states (compact_if_needed ents f) = fr_states f" by (simp add: compact_if_needed_def Let_def)
qed

lemma frontier_publish_ok:
  assumes ok: "frontier_ok ents f" and same: "\<And>a. a \<in> frontier_keys f \<Longrightarrow> a \<noteq> x \<Longrightarrow> ents' ! a = ents ! a"
  shows "frontier_ok ents' (frontier_publish ents' x f)" "frontier_keys (frontier_publish ents' x f) = insert x (frontier_keys f)"
proof -
  define r where "r = (case map_of (fr_states f) x of None \<Rightarrow> 1 | Some p \<Rightarrow> p + 1)"
  define f3 where "f3 = \<lparr>fr_states = branch_set x r (fr_states f),
      fr_active = (if row_live ents' True x then insort (en_load (ents' ! x), r, x) (fr_active f) else fr_active f),
      fr_completed = (if row_live ents' False x then insort (- en_last_completion (ents' ! x), r, x) (fr_completed f) else fr_completed f)\<rparr>"
  have f3: "frontier_publish ents' x f = compact_if_needed ents' f3"
    by (cases f) (simp add: frontier_publish_def f3_def r_def row_live_def Let_def)
  have ok': "heap_ok (\<lambda>a. en_load (ents ! a)) (row_live ents True) (fr_states f) (fr_active f)"
    "heap_ok (\<lambda>a. - en_last_completion (ents ! a)) (row_live ents False) (fr_states f) (fr_completed f)" "distinct (map fst (fr_states f))"
    using ok by (simp_all add: frontier_ok_def)
  have "frontier_ok ents' f3"
    using heap_ok_bump [OF ok'(1) r_def, of "\<lambda>a. en_load (ents' ! a)" "row_live ents' True"]
      heap_ok_bump [OF ok'(2) r_def, of "\<lambda>a. - en_last_completion (ents' ! a)" "row_live ents' False"]
      ok'(3) same by (simp add: frontier_ok_def f3_def distinct_branch_set frontier_keys_def row_live_def)
  from compact_ok [OF this] show "frontier_ok ents' (frontier_publish ents' x f)"
    "frontier_keys (frontier_publish ents' x f) = insert x (frontier_keys f)"
    unfolding f3 frontier_keys_def by (simp_all add: f3_def map_of_branch_set)
qed

lemma new_frontier_ok: "frontier_ok ents new_frontier" "frontier_keys new_frontier = {}"
  by (simp_all add: frontier_ok_def new_frontier_def heap_ok_def rows_ok_def frontier_keys_def)

lemma frontier_ok_cong:
  assumes "frontier_ok ents f" "\<And>a. a \<in> frontier_keys f \<Longrightarrow> en_load (ents' ! a) = en_load (ents ! a) \<and>
      en_in_flight (ents' ! a) = en_in_flight (ents ! a) \<and> en_last_completion (ents' ! a) = en_last_completion (ents ! a)"
  shows "frontier_ok ents' f"
proof -
  have "heap_ok val' live' st h" if "heap_ok val live st h" "\<And>a. a \<in> dom (map_of st) \<Longrightarrow> val' a = val a \<and> live' a = live a" for val val' live live' st h
  proof -
    have ok: "rows_ok val live st (set h)" using that(1) by (simp add: heap_ok_def)
    have "rows_ok val' live' st (set h)"
      by (rule rows_okI) (use rows_okD [OF ok] that(2) in \<open>metis domI\<close>)+
    then show ?thesis using that(1) by (simp add: heap_ok_def)
  qed
  then show ?thesis using assms unfolding frontier_ok_def frontier_keys_def by (auto simp: row_live_def)
qed

end
