(* ===== verification/Scheduling.thy ===== *)
theory Scheduling
  imports Frontier Canonical Service
begin

text \<open>
  The unified scheduling authority of \<^verbatim>\<open>concurrency/scheduling/runtime/unified.py\<close>: tenant, resource and
  flow entities in three hash tries, their sibling frontiers, and the accounting of grants, rollbacks
  and completions.  Locks are not modelled: each call is one atomic step, which is what the locks make
  of it.  A frontier object is named by its key in \<^verbatim>\<open>_parent_frontiers\<close>, which never replaces one.
\<close>

section \<open>State\<close>

record sched =
  sa_sequence :: int
  sa_generation :: int
  sa_changes :: "(int \<times> string option) list"
  sa_frontiers :: "string \<times> string list \<Rightarrow> frontier option"
  sa_entities :: "entity list"
  sa_tenants :: "nat index"
  sa_resources :: "nat index"
  sa_flows :: "nat index"

definition empty_sched :: sched where
  "empty_sched = \<lparr>sa_sequence = 0, sa_generation = 0, sa_changes = [], sa_frontiers = (\<lambda>_. None), sa_entities = [],
     sa_tenants = empty_index, sa_resources = empty_index, sa_flows = empty_index\<rparr>"

definition sched_identity :: "string \<Rightarrow> string res" where
  "sched_identity v = (if nonblank v then Inr (py_strip v) else Inl ValueError)"

definition sched_opt_identity :: "string option \<Rightarrow> string option res" where
  "sched_opt_identity v = (case v of None \<Rightarrow> Inr None | Some s \<Rightarrow> res_bind (sched_identity s) (\<lambda>x. Inr (Some x)))"

definition sched_permit_count :: "int \<Rightarrow> int res" where
  "sched_permit_count v = (if v \<le> 0 then Inl ValueError else Inr v)"

definition sched_quanta :: "int \<Rightarrow> int res" where
  "sched_quanta v = (if v < 0 then Inl ValueError else Inr v)"

section \<open>Keys and entities\<close>

definition prefixed :: "string \<Rightarrow> string" where
  "prefixed part = dec_nat (length part) @ '':'' @ part"

definition or_empty :: "string option \<Rightarrow> string" where
  "or_empty v = (case v of None \<Rightarrow> [] | Some s \<Rightarrow> s)"

definition resource_key :: "string option \<Rightarrow> string option \<Rightarrow> string option" where
  "resource_key tenant resource = (case resource of None \<Rightarrow> None | Some r \<Rightarrow> Some (prefixed (or_empty tenant) @ prefixed r))"

definition flow_key :: "string option \<Rightarrow> string option \<Rightarrow> string \<Rightarrow> string" where
  "flow_key tenant resource flow = concat (map prefixed [or_empty tenant, or_empty resource, flow])"

definition resource_parent :: "string option \<Rightarrow> string list" where
  "resource_parent tenant = (case tenant of None \<Rightarrow> [] | Some t \<Rightarrow> [''tenant:'' @ t])"

definition flow_parent :: "string option \<Rightarrow> string option \<Rightarrow> string list" where
  "flow_parent tenant resource = (case resource of None \<Rightarrow> resource_parent tenant | Some r \<Rightarrow> resource_parent tenant @ [''resource:'' @ r])"

definition sched_index :: "string \<Rightarrow> sched \<Rightarrow> nat index" where
  "sched_index kind st = (if kind = ''tenant'' then sa_tenants st else if kind = ''resource'' then sa_resources st else sa_flows st)"

definition set_index :: "string \<Rightarrow> nat index \<Rightarrow> sched \<Rightarrow> sched" where
  "set_index kind ix st =
     (if kind = ''tenant'' then st\<lparr>sa_tenants := ix\<rparr> else if kind = ''resource'' then st\<lparr>sa_resources := ix\<rparr> else st\<lparr>sa_flows := ix\<rparr>)"

definition sched_frontier :: "sched \<Rightarrow> string \<times> string list \<Rightarrow> frontier" where
  "sched_frontier st k = (case sa_frontiers st k of None \<Rightarrow> new_frontier | Some f \<Rightarrow> f)"

definition sched_entity :: "(string \<Rightarrow> 64 word) \<Rightarrow> string \<Rightarrow> string \<Rightarrow> string list \<Rightarrow> (sched, nat) action" where
  "sched_entity hash kind key parent st =
     (if kind \<notin> {''tenant'', ''resource'', ''flow''} then (Inl ValueError, st)
      else case index_get hash (sched_index kind st) key of
          Some a \<Rightarrow> (if en_parent (sa_entities st ! a) \<noteq> parent then (Inl RuntimeError, st) else (Inr a, st))
        | None \<Rightarrow>
            (let a = length (sa_entities st);
                 ents = sa_entities st @ [(new_entity parent)\<lparr>en_frontier := Some (kind, parent)\<rparr>];
                 st1 = st\<lparr>sa_entities := ents,
                   sa_frontiers := (sa_frontiers st)((kind, parent) \<mapsto> frontier_publish ents a (sched_frontier st (kind, parent)))\<rparr> in
             case index_publish hash key a (sched_index kind st1) of
               Inl e \<Rightarrow> (Inl e, st1)
             | Inr ix \<Rightarrow> (Inr a, set_index kind ix st1)))"

definition opt_entity :: "(string \<Rightarrow> 64 word) \<Rightarrow> string \<Rightarrow> string option \<Rightarrow> string list \<Rightarrow> (sched, nat option) action" where
  "opt_entity hash kind key parent =
     (case key of None \<Rightarrow> act_lift (Inr None) | Some k \<Rightarrow> act_bind (sched_entity hash kind k parent) (\<lambda>a. act_lift (Inr (Some a))))"

text \<open>The order of locking sorts by kind first, and there is one entity of each kind.\<close>

definition lock_states :: "nat option \<Rightarrow> nat option \<Rightarrow> nat \<Rightarrow> nat list" where
  "lock_states tenant_state resource_state flow_state =
     flow_state # (case resource_state of None \<Rightarrow> [] | Some a \<Rightarrow> [a]) @ (case tenant_state of None \<Rightarrow> [] | Some a \<Rightarrow> [a])"

fun publish_states :: "nat list \<Rightarrow> (sched, unit) action" where
  "publish_states [] st = (Inr (), st)"
| "publish_states (a # states) st =
     (case en_frontier (sa_entities st ! a) of
        None \<Rightarrow> (Inl RuntimeError, st)
      | Some k \<Rightarrow> publish_states states
          (st\<lparr>sa_frontiers := (sa_frontiers st)(k \<mapsto> frontier_publish (sa_entities st) a (sched_frontier st k))\<rparr>))"

text \<open>\<^verbatim>\<open>try: ... finally: self._publish_states(states)\<close>\<close>

definition with_publish :: "nat list \<Rightarrow> (sched, 'a) action \<Rightarrow> (sched, 'a) action" where
  "with_publish states body st =
     (case body st of (r, st1) \<Rightarrow> case publish_states states st1 of (Inl e, st2) \<Rightarrow> (Inl e, st2) | (Inr _, st2) \<Rightarrow> (r, st2))"

definition upd_entity :: "nat \<Rightarrow> (entity \<Rightarrow> entity) \<Rightarrow> sched \<Rightarrow> sched" where
  "upd_entity a g st = st\<lparr>sa_entities := (sa_entities st)[a := g (sa_entities st ! a)]\<rparr>"

definition upd_opt :: "nat option \<Rightarrow> (entity \<Rightarrow> entity) \<Rightarrow> sched \<Rightarrow> sched" where
  "upd_opt a g st = (case a of None \<Rightarrow> st | Some x \<Rightarrow> upd_entity x g st)"

text \<open>\<^verbatim>\<open>deque(maxlen=4096)\<close>\<close>

definition record_ordering_change :: "string option \<Rightarrow> sched \<Rightarrow> sched" where
  "record_ordering_change flow st =
     (let g = sa_generation st + 1 in
      st\<lparr>sa_generation := g, sa_changes := drop (length (sa_changes st) + 1 - 4096) (sa_changes st @ [(g, flow)])\<rparr>)"

section \<open>Grants\<close>

definition floor_of :: "nat option \<Rightarrow> (sched, int) action" where
  "floor_of a st =
     (case a of None \<Rightarrow> (Inr 0, st)
      | Some x \<Rightarrow>
          (case en_frontier (sa_entities st ! x) of
             None \<Rightarrow> (Inl RuntimeError, st)
           | Some k \<Rightarrow> (case frontier_floor (sa_entities st) x (sched_frontier st k) of
               (r, f) \<Rightarrow> (r, st\<lparr>sa_frontiers := (sa_frontiers st)(k \<mapsto> f)\<rparr>))))"

definition reactivate :: "bool \<Rightarrow> int \<Rightarrow> entity \<Rightarrow> entity" where
  "reactivate reset lowest e =
     (if en_in_flight e = 0
      then (let e1 = e\<lparr>en_service := max (en_service e) lowest\<rparr> in if reset then e1\<lparr>en_retire := False\<rparr> else e1)
      else e)"

definition add_grant :: "int \<Rightarrow> int \<Rightarrow> int \<Rightarrow> entity \<Rightarrow> entity" where
  "add_grant permits reserved sequence e =
     e\<lparr>en_in_flight := en_in_flight e + permits, en_reserved := en_reserved e + reserved, en_last_grant := sequence\<rparr>"

definition grant_section :: "nat option \<Rightarrow> nat option \<Rightarrow> nat \<Rightarrow> string \<Rightarrow> int \<Rightarrow> int \<Rightarrow> (sched, int) action" where
  "grant_section tenant_state resource_state flow_state flow permits reserved st =
     (if en_retire (sa_entities st ! flow_state) \<and> en_in_flight (sa_entities st ! flow_state) \<noteq> 0 then (Inl RuntimeError, st)
      else act_bind (floor_of tenant_state) (\<lambda>tenant_floor.
           act_bind (floor_of resource_state) (\<lambda>resource_floor.
           act_bind (floor_of (Some flow_state)) (\<lambda>flow_floor st.
             (let st1 = upd_entity flow_state (reactivate True flow_floor) st;
                  st2 = upd_opt resource_state (reactivate True resource_floor) st1;
                  st3 = upd_opt tenant_state (reactivate False tenant_floor) st2;
                  sequence = sa_sequence st3 + 1;
                  st4 = st3\<lparr>sa_sequence := sequence\<rparr>;
                  st5 = upd_entity flow_state (add_grant permits reserved sequence) st4;
                  st6 = upd_opt resource_state (add_grant permits reserved sequence) st5;
                  st7 = upd_opt tenant_state (add_grant permits reserved sequence) st6 in
              (Inr sequence, record_ordering_change (Some flow) st7))))) st)"

definition record_grant :: "(string \<Rightarrow> 64 word) \<Rightarrow> string option \<Rightarrow> string option \<Rightarrow> string \<Rightarrow> int \<Rightarrow> int \<Rightarrow> (sched, int) action" where
  "record_grant hash tenant_id resource_id flow_id permit_count reserved_service_quanta =
     act_bind (act_lift (sched_identity flow_id)) (\<lambda>flow.
     act_bind (act_lift (sched_permit_count permit_count)) (\<lambda>permits.
     act_bind (act_lift (sched_quanta reserved_service_quanta)) (\<lambda>reserved.
     act_bind (act_lift (sched_opt_identity tenant_id)) (\<lambda>tenant.
     act_bind (act_lift (sched_opt_identity resource_id)) (\<lambda>resource.
     act_bind (sched_entity hash ''flow'' (flow_key tenant resource flow) (flow_parent tenant resource)) (\<lambda>flow_state.
     act_bind (opt_entity hash ''resource'' (resource_key tenant resource) (resource_parent tenant)) (\<lambda>resource_state.
     act_bind (opt_entity hash ''tenant'' tenant []) (\<lambda>tenant_state.
     with_publish (lock_states tenant_state resource_state flow_state)
       (grant_section tenant_state resource_state flow_state flow permits reserved)))))))))"

section \<open>Rollbacks and completions\<close>

definition active_entity :: "(string \<Rightarrow> 64 word) \<Rightarrow> string \<Rightarrow> string option \<Rightarrow> (sched, nat option) action" where
  "active_entity hash kind key st =
     (case key of None \<Rightarrow> (Inr None, st)
      | Some k \<Rightarrow> (case index_get hash (sched_index kind st) k of None \<Rightarrow> (Inl RuntimeError, st) | Some a \<Rightarrow> (Inr (Some a), st)))"

definition underflow :: "int \<Rightarrow> int \<Rightarrow> entity \<Rightarrow> bool" where
  "underflow permits reserved e = (en_in_flight e < permits \<or> en_reserved e < reserved)"

definition sub_grant :: "int \<Rightarrow> int \<Rightarrow> entity \<Rightarrow> entity" where
  "sub_grant permits reserved e = e\<lparr>en_in_flight := en_in_flight e - permits, en_reserved := en_reserved e - reserved\<rparr>"

definition rollback_section :: "nat list \<Rightarrow> string \<Rightarrow> int \<Rightarrow> int \<Rightarrow> (sched, unit) action" where
  "rollback_section states flow permits reserved st =
     (if \<exists>a \<in> set states. underflow permits reserved (sa_entities st ! a) then (Inl RuntimeError, st)
      else (Inr (), record_ordering_change (Some flow) (fold (\<lambda>a. upd_entity a (sub_grant permits reserved)) states st)))"

definition rollback_grant :: "(string \<Rightarrow> 64 word) \<Rightarrow> string option \<Rightarrow> string option \<Rightarrow> string \<Rightarrow> int \<Rightarrow> int \<Rightarrow> (sched, unit) action" where
  "rollback_grant hash tenant_id resource_id flow_id permit_count reserved_service_quanta =
     act_bind (act_lift (sched_identity flow_id)) (\<lambda>flow.
     act_bind (act_lift (sched_permit_count permit_count)) (\<lambda>permits.
     act_bind (act_lift (sched_quanta reserved_service_quanta)) (\<lambda>reserved.
     act_bind (act_lift (sched_opt_identity tenant_id)) (\<lambda>tenant.
     act_bind (act_lift (sched_opt_identity resource_id)) (\<lambda>resource.
     act_bind (active_entity hash ''flow'' (Some (flow_key tenant resource flow))) (\<lambda>flow_state.
     act_bind (active_entity hash ''resource'' (resource_key tenant resource)) (\<lambda>resource_state.
     act_bind (active_entity hash ''tenant'' tenant) (\<lambda>tenant_state.
     (let states = lock_states tenant_state resource_state (the flow_state) in
      with_publish states (rollback_section states flow permits reserved))))))))))"

definition complete_service :: "int \<Rightarrow> int \<Rightarrow> int \<Rightarrow> int \<Rightarrow> entity \<Rightarrow> entity" where
  "complete_service permits reserved service sequence e =
     (sub_grant permits reserved e)\<lparr>en_service := en_service e + service, en_last_completion := sequence\<rparr>"

definition completion_section :: "nat list \<Rightarrow> string \<Rightarrow> int \<Rightarrow> int \<Rightarrow> int \<Rightarrow> (sched, unit) action" where
  "completion_section states flow permits reserved service st =
     (if \<exists>a \<in> set states. underflow permits reserved (sa_entities st ! a) then (Inl RuntimeError, st)
      else (let sequence = sa_sequence st + 1;
                st1 = fold (\<lambda>a. upd_entity a (complete_service permits reserved service sequence)) states (st\<lparr>sa_sequence := sequence\<rparr>) in
            (Inr (), record_ordering_change (Some flow) st1)))"

definition record_completion ::
    "(string \<Rightarrow> 64 word) \<Rightarrow> string option \<Rightarrow> string option \<Rightarrow> string \<Rightarrow> int \<Rightarrow> int \<Rightarrow> int \<Rightarrow> (sched, unit) action" where
  "record_completion hash tenant_id resource_id flow_id service_quanta permit_count reserved_service_quanta =
     act_bind (act_lift (sched_identity flow_id)) (\<lambda>flow.
     act_bind (act_lift (sched_permit_count permit_count)) (\<lambda>permits.
     act_bind (act_lift (sched_quanta service_quanta)) (\<lambda>service.
     act_bind (act_lift (sched_quanta reserved_service_quanta)) (\<lambda>reserved.
     act_bind (act_lift (sched_opt_identity tenant_id)) (\<lambda>tenant.
     act_bind (act_lift (sched_opt_identity resource_id)) (\<lambda>resource.
     act_bind (active_entity hash ''flow'' (Some (flow_key tenant resource flow))) (\<lambda>flow_state.
     act_bind (active_entity hash ''resource'' (resource_key tenant resource)) (\<lambda>resource_state.
     act_bind (active_entity hash ''tenant'' tenant) (\<lambda>tenant_state.
     (let states = lock_states tenant_state resource_state (the flow_state) in
      with_publish states (completion_section states flow permits reserved service)))))))))))"

section \<open>Releases and change tracking\<close>

definition release_entity :: "nat \<Rightarrow> string option \<Rightarrow> sched \<Rightarrow> sched" where
  "release_entity a change st = record_ordering_change change (upd_entity a (\<lambda>e. e\<lparr>en_retire := True\<rparr>) st)"

definition release_flow :: "(string \<Rightarrow> 64 word) \<Rightarrow> string option \<Rightarrow> string option \<Rightarrow> string \<Rightarrow> (sched, unit) action" where
  "release_flow hash tenant_id resource_id flow_id =
     act_bind (act_lift (sched_identity flow_id)) (\<lambda>flow.
     act_bind (act_lift (sched_opt_identity tenant_id)) (\<lambda>tenant.
     act_bind (act_lift (sched_opt_identity resource_id)) (\<lambda>resource st.
       (case index_get hash (sa_flows st) (flow_key tenant resource flow) of
          None \<Rightarrow> (Inr (), st)
        | Some a \<Rightarrow> (Inr (), release_entity a (Some flow) st)))))"

definition release_resource :: "(string \<Rightarrow> 64 word) \<Rightarrow> string option \<Rightarrow> string \<Rightarrow> (sched, unit) action" where
  "release_resource hash tenant_id resource_id =
     act_bind (act_lift (sched_opt_identity tenant_id)) (\<lambda>tenant.
     act_bind (act_lift (sched_identity resource_id)) (\<lambda>resource st.
       (case resource_key tenant (Some resource) of
          None \<Rightarrow> (Inr (), st)
        | Some key \<Rightarrow>
            (case index_get hash (sa_resources st) key of
               None \<Rightarrow> (Inr (), st)
             | Some a \<Rightarrow> (Inr (), release_entity a None st)))))"

definition service_revision :: "sched \<Rightarrow> int" where
  "service_revision st = sa_generation st"

definition service_changes_since :: "int option \<Rightarrow> sched \<Rightarrow> int \<times> string list option" where
  "service_changes_since revision st =
     (let current = sa_generation st in
      if revision = Some current then (current, Some [])
      else case revision of
          None \<Rightarrow> (current, None)
        | Some rv \<Rightarrow>
            if current < rv then (current, None)
            else (let rows = filter (\<lambda>row. rv < fst row) (sa_changes st) in
              if int (length rows) \<noteq> current - rv \<or> map fst rows \<noteq> map (\<lambda>i. rv + int i + 1) [0..<length rows] then (current, None)
              else if \<exists>row \<in> set rows. snd row = None then (current, None)
              else (current, Some (map (\<lambda>row. the (snd row)) rows))))"

text \<open>The calls that change the authority.\<close>

datatype sched_call =
    Grant "string option" "string option" string int int
  | Rollback "string option" "string option" string int int
  | Complete "string option" "string option" string int int int
  | ReleaseFlow "string option" "string option" string
  | ReleaseResource "string option" string

fun sched_do :: "(string \<Rightarrow> 64 word) \<Rightarrow> sched_call \<Rightarrow> (sched, int) action" where
  "sched_do hash (Grant t r f n q) = record_grant hash t r f n q"
| "sched_do hash (Rollback t r f n q) = act_answer (\<lambda>_. 0) (rollback_grant hash t r f n q)"
| "sched_do hash (Complete t r f s n q) = act_answer (\<lambda>_. 0) (record_completion hash t r f s n q)"
| "sched_do hash (ReleaseFlow t r f) = act_answer (\<lambda>_. 0) (release_flow hash t r f)"
| "sched_do hash (ReleaseResource t r) = act_answer (\<lambda>_. 0) (release_resource hash t r)"

end
