(* ===== verification/SchedulingProofs.thy ===== *)
theory SchedulingProofs
  imports Scheduling
begin

text \<open>
  The scheduling authority keeps its books: every reachable state conserves permits and reserved
  service across the three levels, its frontiers give the exact sibling floors, and a completion or a
  rollback is refused only by its own flow.
\<close>

section \<open>Length-prefixed keys are injective\<close>

lemma prefixed_prefix:
  assumes "prefixed a @ x = prefixed b @ y"
  shows "a = b \<and> x = y"
proof -
  have split: "takeWhile digit_char (prefixed s @ z) = dec_nat (length s)" for s z
  proof -
    have "takeWhile digit_char (dec_nat (length s) @ CHR '':'' # s @ z) = dec_nat (length s)"
      using dec_nat_digits [of _ "length s"] by (subst takeWhile_append2) (auto simp: digit_char_def)
    then show ?thesis by (simp add: prefixed_def)
  qed
  have "dec_nat (length a) = dec_nat (length b)" using split [of a x] split [of b y] assms by simp
  moreover from this have "length a = length b" by (rule dec_nat_inj)
  ultimately show ?thesis using assms by (simp add: prefixed_def)
qed

type_synonym coord = "string option \<times> string option \<times> string"

definition coord_ok :: "coord \<Rightarrow> bool" where
  "coord_ok c = (fst c \<noteq> Some [] \<and> fst (snd c) \<noteq> Some [] \<and> snd (snd c) \<noteq> [])"

definition ckey :: "coord \<Rightarrow> string" where
  "ckey c = flow_key (fst c) (fst (snd c)) (snd (snd c))"

lemma or_empty_inj: "or_empty a = or_empty b \<Longrightarrow> a \<noteq> Some [] \<Longrightarrow> b \<noteq> Some [] \<Longrightarrow> a = b"
  by (auto simp: or_empty_def split: option.splits)

lemma ckey_inj: "ckey c = ckey d \<Longrightarrow> coord_ok c \<Longrightarrow> coord_ok d \<Longrightarrow> c = d"
proof -
  assume "ckey c = ckey d" and ok: "coord_ok c" "coord_ok d"
  then have "prefixed (or_empty (fst c)) @ prefixed (or_empty (fst (snd c))) @ prefixed (snd (snd c)) =
      prefixed (or_empty (fst d)) @ prefixed (or_empty (fst (snd d))) @ prefixed (snd (snd d))"
    by (simp add: ckey_def flow_key_def)
  from prefixed_prefix [OF this] have 1: "or_empty (fst c) = or_empty (fst d)"
    and "prefixed (or_empty (fst (snd c))) @ prefixed (snd (snd c)) = prefixed (or_empty (fst (snd d))) @ prefixed (snd (snd d))" by auto
  from prefixed_prefix [OF this(2)] have 2: "or_empty (fst (snd c)) = or_empty (fst (snd d))"
    and 3: "prefixed (snd (snd c)) @ [] = prefixed (snd (snd d)) @ []" by auto
  from prefixed_prefix [OF 3] have 4: "snd (snd c) = snd (snd d)" by simp
  show "c = d" using or_empty_inj [OF 1] or_empty_inj [OF 2] 4 ok by (auto simp: coord_ok_def prod_eq_iff)
qed

lemma resource_key_inj:
  assumes "resource_key t (Some r) = resource_key t' (Some r')" "t \<noteq> Some []" "t' \<noteq> Some []"
  shows "t = t' \<and> r = r'"
proof -
  from assms(1) have eq: "prefixed (or_empty t) @ prefixed r = prefixed (or_empty t') @ prefixed r'" by (simp add: resource_key_def)
  from prefixed_prefix [OF this] have 1: "or_empty t = or_empty t'" and 2: "prefixed r @ [] = prefixed r' @ []" by auto
  from prefixed_prefix [OF 2] or_empty_inj [OF 1 assms(2,3)] show ?thesis by simp
qed

section \<open>Frontiers of a store\<close>

definition frontiers_ok :: "entity list \<Rightarrow> (string \<times> string list \<Rightarrow> frontier) \<Rightarrow> bool" where
  "frontiers_ok ents fr = (\<forall>k. frontier_ok ents (fr k) \<and> frontier_keys (fr k) = {a. a < length ents \<and> en_frontier (ents ! a) = Some k})"

lemma frontiers_okD:
  assumes "frontiers_ok ents fr"
  shows "frontier_ok ents (fr k)" "frontier_keys (fr k) = {a. a < length ents \<and> en_frontier (ents ! a) = Some k}"
  using assms unfolding frontiers_ok_def by blast+

lemma sched_frontier_upd: "sched_frontier (st\<lparr>sa_frontiers := (sa_frontiers st)(k \<mapsto> f)\<rparr>) = (sched_frontier st)(k := f)"
  by (auto simp: sched_frontier_def fun_eq_iff)

definition republished :: "entity list \<Rightarrow> nat list \<Rightarrow> (string \<times> string list \<Rightarrow> frontier) \<Rightarrow> string \<times> string list \<Rightarrow> frontier" where
  "republished ents states fr = fold (\<lambda>a fr. fr(the (en_frontier (ents ! a)) := frontier_publish ents a (fr (the (en_frontier (ents ! a)))))) states fr"

lemma publish_states_eq:
  assumes "\<forall>a \<in> set states. en_frontier (sa_entities st ! a) \<noteq> None"
  shows "\<exists>fm. publish_states states st = (Inr (), st\<lparr>sa_frontiers := fm\<rparr>) \<and>
    sched_frontier (st\<lparr>sa_frontiers := fm\<rparr>) = republished (sa_entities st) states (sched_frontier st)"
  using assms
proof (induction states arbitrary: st)
  case Nil
  show ?case by (rule exI [of _ "sa_frontiers st"]) (simp add: republished_def)
next
  case (Cons a states)
  obtain k where k: "en_frontier (sa_entities st ! a) = Some k" using Cons.prems by auto
  define st1 where "st1 = st\<lparr>sa_frontiers := (sa_frontiers st)(k \<mapsto> frontier_publish (sa_entities st) a (sched_frontier st k))\<rparr>"
  have e: "sa_entities st1 = sa_entities st" by (simp add: st1_def)
  from Cons.IH [of st1] Cons.prems e obtain fm where fm: "publish_states states st1 = (Inr (), st1\<lparr>sa_frontiers := fm\<rparr>)"
    "sched_frontier (st1\<lparr>sa_frontiers := fm\<rparr>) = republished (sa_entities st) states (sched_frontier st1)" by auto
  have up: "st1\<lparr>sa_frontiers := fm\<rparr> = st\<lparr>sa_frontiers := fm\<rparr>" by (simp add: st1_def)
  have "sched_frontier st1 = (sched_frontier st)(k := frontier_publish (sa_entities st) a (sched_frontier st k))"
    unfolding st1_def by (rule sched_frontier_upd)
  then have "sched_frontier (st\<lparr>sa_frontiers := fm\<rparr>) = republished (sa_entities st) (a # states) (sched_frontier st)"
    using fm(2) up k by (simp add: republished_def)
  moreover have "publish_states (a # states) st = (Inr (), st\<lparr>sa_frontiers := fm\<rparr>)"
    using fm(1) k up by (simp add: st1_def)
  ultimately show ?case by blast
qed

text \<open>Entities of different frontiers are published independently.\<close>

lemma republished_at:
  assumes "distinct (map (\<lambda>a. en_frontier (ents ! a)) states)" "\<forall>a \<in> set states. en_frontier (ents ! a) \<noteq> None"
  shows "republished ents states fr k = (if \<exists>a \<in> set states. en_frontier (ents ! a) = Some k
     then frontier_publish ents (SOME a. a \<in> set states \<and> en_frontier (ents ! a) = Some k) (fr k) else fr k)"
  using assms
proof (induction states arbitrary: fr)
  case (Cons a states)
  obtain k' where k': "en_frontier (ents ! a) = Some k'" using Cons.prems(2) by auto
  let ?fr = "fr(k' := frontier_publish ents a (fr k'))"
  have step: "republished ents (a # states) fr = republished ents states ?fr" using k' by (simp add: republished_def)
  have other: "en_frontier (ents ! b) \<noteq> Some k'" if "b \<in> set states" for b
    using Cons.prems(1) k' that by force
  have IH: "republished ents states ?fr k = (if \<exists>a \<in> set states. en_frontier (ents ! a) = Some k
     then frontier_publish ents (SOME a. a \<in> set states \<and> en_frontier (ents ! a) = Some k) (?fr k) else ?fr k)"
    using Cons.prems by (intro Cons.IH) auto
  show ?case
  proof (cases "k = k'")
    case True
    then have "(SOME b. b \<in> set (a # states) \<and> en_frontier (ents ! b) = Some k) = a"
      using other k' by (intro some_equality) auto
    then show ?thesis using step IH other True k' by auto
  next
    case False
    then have "(\<lambda>b. b \<in> set (a # states) \<and> en_frontier (ents ! b) = Some k) = (\<lambda>b. b \<in> set states \<and> en_frontier (ents ! b) = Some k)"
      using k' by auto
    then show ?thesis using step IH False k' by auto
  qed
qed (simp add: republished_def)

lemma republished_ok:
  assumes ok: "frontiers_ok ents fr" and len: "length ents' = length ents"
    and fr: "\<And>a. a < length ents \<Longrightarrow> en_frontier (ents' ! a) = en_frontier (ents ! a)"
    and same: "\<And>a. a < length ents \<Longrightarrow> a \<notin> set states \<Longrightarrow> ents' ! a = ents ! a"
    and states: "distinct (map (\<lambda>a. en_frontier (ents' ! a)) states)"
      "\<forall>a \<in> set states. a < length ents \<and> en_frontier (ents' ! a) \<noteq> None"
  shows "frontiers_ok ents' (republished ents' states fr)"
  unfolding frontiers_ok_def
proof
  fix k
  have keys: "frontier_ok ents (fr k)" "frontier_keys (fr k) = {a. a < length ents' \<and> en_frontier (ents' ! a) = Some k}"
    using frontiers_okD [OF ok, of k] len fr by auto
  have rp: "republished ents' states fr k = (if \<exists>a \<in> set states. en_frontier (ents' ! a) = Some k
     then frontier_publish ents' (SOME a. a \<in> set states \<and> en_frontier (ents' ! a) = Some k) (fr k) else fr k)"
    by (rule republished_at) (use states in auto)
  show "frontier_ok ents' (republished ents' states fr k) \<and>
      frontier_keys (republished ents' states fr k) = {a. a < length ents' \<and> en_frontier (ents' ! a) = Some k}"
  proof (cases "\<exists>a \<in> set states. en_frontier (ents' ! a) = Some k")
    case True
    then obtain a where a: "a \<in> set states" "en_frontier (ents' ! a) = Some k" by blast
    have uniq: "b = a" if "b \<in> set states" "en_frontier (ents' ! b) = Some k" for b
      using states(1) a that by (auto simp: distinct_map inj_on_def)
    have "(SOME a. a \<in> set states \<and> en_frontier (ents' ! a) = Some k) = a" by (rule some_equality) (use a uniq in blast)+
    then have rp': "republished ents' states fr k = frontier_publish ents' a (fr k)" using rp True by simp
    have rest: "ents' ! b = ents ! b" if b: "b \<in> frontier_keys (fr k)" "b \<noteq> a" for b
    proof (rule same)
      have "b < length ents' \<and> en_frontier (ents' ! b) = Some k" using b(1) keys(2) by blast
      then show "b < length ents" "b \<notin> set states" using len uniq [of b] b(2) by auto
    qed
    have "a \<in> frontier_keys (fr k)" using keys(2) a states(2) len by auto
    then show ?thesis unfolding rp' using frontier_publish_ok [OF keys(1) rest] keys(2) by auto
  next
    case False
    then have rp': "republished ents' states fr k = fr k" using rp by auto
    have "frontier_ok ents' (fr k)"
    proof (rule frontier_ok_cong [OF keys(1)])
      fix a assume "a \<in> frontier_keys (fr k)"
      then have "ents' ! a = ents ! a" using False keys(2) same [of a] len by auto
      then show "en_load (ents' ! a) = en_load (ents ! a) \<and> en_in_flight (ents' ! a) = en_in_flight (ents ! a) \<and>
        en_last_completion (ents' ! a) = en_last_completion (ents ! a)" by simp
    qed
    then show ?thesis unfolding rp' using keys(2) by simp
  qed
qed

section \<open>The books\<close>

definition entity_at :: "(string \<Rightarrow> 64 word) \<Rightarrow> sched \<Rightarrow> string \<Rightarrow> string \<Rightarrow> nat option" where
  "entity_at hash st kind key = index_get hash (sched_index kind st) key"

text \<open>A counter of the entity of a key; an entity that is not registered counts nothing.\<close>

definition level :: "(entity \<Rightarrow> int) \<Rightarrow> (string \<Rightarrow> 64 word) \<Rightarrow> sched \<Rightarrow> string \<Rightarrow> string \<Rightarrow> int" where
  "level m hash st kind key = (case entity_at hash st kind key of None \<Rightarrow> 0 | Some a \<Rightarrow> m (sa_entities st ! a))"

definition coords :: "(string \<Rightarrow> 64 word) \<Rightarrow> sched \<Rightarrow> coord set" where
  "coords hash st = {c. coord_ok c \<and> entity_at hash st ''flow'' (ckey c) \<noteq> None}"

definition flow_total :: "(entity \<Rightarrow> int) \<Rightarrow> (string \<Rightarrow> 64 word) \<Rightarrow> sched \<Rightarrow> (coord \<Rightarrow> bool) \<Rightarrow> int" where
  "flow_total m hash st P = (\<Sum>c \<in> {c \<in> coords hash st. P c}. level m hash st ''flow'' (ckey c))"

text \<open>What a tenant and a resource carry is what their flows carry.\<close>

definition conserved :: "(entity \<Rightarrow> int) \<Rightarrow> (string \<Rightarrow> 64 word) \<Rightarrow> sched \<Rightarrow> bool" where
  "conserved m hash st =
     ((\<forall>t. t \<noteq> [] \<longrightarrow> level m hash st ''tenant'' t = flow_total m hash st (\<lambda>c. fst c = Some t)) \<and>
      (\<forall>t r. t \<noteq> Some [] \<longrightarrow> r \<noteq> [] \<longrightarrow>
         level m hash st ''resource'' (the (resource_key t (Some r))) = flow_total m hash st (\<lambda>c. fst c = t \<and> fst (snd c) = Some r)))"

abbreviation kinds :: "string set" where
  "kinds \<equiv> {''tenant'', ''resource'', ''flow''}"

definition indexes_ok :: "(string \<Rightarrow> 64 word) \<Rightarrow> sched \<Rightarrow> bool" where
  "indexes_ok hash st =
     ((\<forall>kind. trie_index_ok hash (sched_index kind st)) \<and>
      (\<forall>kind \<in> kinds. \<forall>key a. entity_at hash st kind key = Some a \<longrightarrow>
         a < length (sa_entities st) \<and> en_frontier (sa_entities st ! a) = Some (kind, en_parent (sa_entities st ! a)) \<and>
         (\<forall>key'. entity_at hash st kind key' = Some a \<longrightarrow> key' = key)) \<and>
      (\<forall>c a. coord_ok c \<longrightarrow> entity_at hash st ''flow'' (ckey c) = Some a \<longrightarrow>
         en_parent (sa_entities st ! a) = flow_parent (fst c) (fst (snd c))) \<and>
      (\<forall>t r a. t \<noteq> Some [] \<longrightarrow> entity_at hash st ''resource'' (the (resource_key t (Some r))) = Some a \<longrightarrow>
         en_parent (sa_entities st ! a) = resource_parent t) \<and>
      (\<forall>t a. entity_at hash st ''tenant'' t = Some a \<longrightarrow> en_parent (sa_entities st ! a) = []))"

definition entity_bounds :: "int \<Rightarrow> entity \<Rightarrow> bool" where
  "entity_bounds seq e = (0 \<le> en_in_flight e \<and> 0 \<le> en_service e \<and> 0 \<le> en_reserved e \<and>
     -1 \<le> en_last_grant e \<and> en_last_grant e \<le> seq \<and> -1 \<le> en_last_completion e \<and> en_last_completion e \<le> seq)"

definition siblings_ok :: "sched \<Rightarrow> bool" where
  "siblings_ok st =
     (0 \<le> sa_sequence st \<and> (\<forall>e \<in> set (sa_entities st). entity_bounds (sa_sequence st) e) \<and>
      frontiers_ok (sa_entities st) (sched_frontier st) \<and>
      (\<forall>k. completions_distinct (sa_entities st) {a. a < length (sa_entities st) \<and> en_frontier (sa_entities st ! a) = Some k}))"

definition sched_inv :: "(string \<Rightarrow> 64 word) \<Rightarrow> sched \<Rightarrow> bool" where
  "sched_inv hash st =
     (indexes_ok hash st \<and> siblings_ok st \<and> conserved en_in_flight hash st \<and> conserved en_reserved hash st)"

section \<open>Registering an entity\<close>

lemma indexes_okD:
  assumes "indexes_ok hash st"
  shows "trie_index_ok hash (sched_index kind st)"
    "kind \<in> kinds \<Longrightarrow> entity_at hash st kind key = Some a \<Longrightarrow> a < length (sa_entities st)"
    "kind \<in> kinds \<Longrightarrow> entity_at hash st kind key = Some a \<Longrightarrow> en_frontier (sa_entities st ! a) = Some (kind, en_parent (sa_entities st ! a))"
    "kind \<in> kinds \<Longrightarrow> entity_at hash st kind key = Some a \<Longrightarrow> entity_at hash st kind key' = Some a \<Longrightarrow> key' = key"
    "coord_ok c \<Longrightarrow> entity_at hash st ''flow'' (ckey c) = Some a \<Longrightarrow> en_parent (sa_entities st ! a) = flow_parent (fst c) (fst (snd c))"
    "t \<noteq> Some [] \<Longrightarrow> entity_at hash st ''resource'' (the (resource_key t (Some r))) = Some a \<Longrightarrow> en_parent (sa_entities st ! a) = resource_parent t"
    "entity_at hash st ''tenant'' u = Some a \<Longrightarrow> en_parent (sa_entities st ! a) = []"
  using assms unfolding indexes_ok_def by blast+

lemma finite_coords:
  assumes "indexes_ok hash st"
  shows "finite (coords hash st)"
proof (rule finite_imageD)
  have ok: "trie_index_ok hash (sa_flows st)" using indexes_okD(1) [OF assms, of "''flow''"] by (simp add: sched_index_def)
  have "ckey ` coords hash st \<subseteq> dom (index_get hash (sa_flows st))"
    by (auto simp: coords_def entity_at_def sched_index_def)
  also have "\<dots> = set (index_keys (sa_flows st))" using state_index.keys_dom [OF ok] by simp
  finally show "finite (ckey ` coords hash st)" by (rule finite_subset) simp
  show "inj_on ckey (coords hash st)" using ckey_inj by (auto simp: inj_on_def coords_def)
qed

text \<open>What registering does: nothing to a known key, else a new entity with empty counters.\<close>

definition registers :: "(string \<Rightarrow> 64 word) \<Rightarrow> string \<Rightarrow> string \<Rightarrow> string list \<Rightarrow> nat \<Rightarrow> sched \<Rightarrow> sched \<Rightarrow> bool" where
  "registers hash kind key parent a st st' =
     (entity_at hash st kind key = Some a \<and> st' = st \<or>
      entity_at hash st kind key = None \<and> a = length (sa_entities st) \<and>
      (\<forall>k. trie_index_ok hash (sched_index k st')) \<and>
      (\<forall>kind' \<in> kinds. entity_at hash st' kind' = (if kind' = kind then (entity_at hash st kind)(key \<mapsto> a) else entity_at hash st kind')) \<and>
      sa_entities st' = sa_entities st @ [(new_entity parent)\<lparr>en_frontier := Some (kind, parent)\<rparr>] \<and>
      sched_frontier st' = (sched_frontier st)((kind, parent) := frontier_publish (sa_entities st') a (sched_frontier st (kind, parent))) \<and>
      sa_sequence st' = sa_sequence st \<and> sa_generation st' = sa_generation st \<and> sa_changes st' = sa_changes st)"

lemma sched_index_set: "sched_index k (set_index kind ix st) =
   (if k = ''tenant'' \<and> kind = ''tenant'' \<or> k = ''resource'' \<and> kind = ''resource'' \<or> k \<notin> {''tenant'', ''resource''} \<and> kind \<notin> {''tenant'', ''resource''}
    then ix else sched_index k st)"
  by (simp add: sched_index_def set_index_def)

lemma set_index_select [simp]:
  "sa_entities (set_index kind ix st) = sa_entities st" "sa_sequence (set_index kind ix st) = sa_sequence st"
  "sa_generation (set_index kind ix st) = sa_generation st" "sa_changes (set_index kind ix st) = sa_changes st"
  "sa_frontiers (set_index kind ix st) = sa_frontiers st"
  by (simp_all add: set_index_def)

lemma sched_index_frontiers [simp]:
  "sched_index k (st\<lparr>sa_entities := ents, sa_frontiers := fm\<rparr>) = sched_index k st"
  "sched_index k (st\<lparr>sa_frontiers := fm\<rparr>) = sched_index k st"
  "sched_index k (st\<lparr>sa_entities := ents\<rparr>) = sched_index k st" "sched_index k (st\<lparr>sa_sequence := x\<rparr>) = sched_index k st"
  by (simp_all add: sched_index_def)

lemma sched_entity_registers:
  assumes ix: "indexes_ok hash st" and kind: "kind \<in> kinds"
    and parent: "\<And>a. entity_at hash st kind key = Some a \<Longrightarrow> en_parent (sa_entities st ! a) = parent"
  shows "\<exists>a st'. sched_entity hash kind key parent st = (Inr a, st') \<and> registers hash kind key parent a st st'"
proof (cases "entity_at hash st kind key")
  case (Some a)
  then have "sched_entity hash kind key parent st = (Inr a, st)"
    using kind parent [OF Some] by (simp add: sched_entity_def entity_at_def)
  then show ?thesis using Some by (auto simp: registers_def)
next
  case None
  define a where "a = length (sa_entities st)"
  define ents where "ents = sa_entities st @ [(new_entity parent)\<lparr>en_frontier := Some (kind, parent)\<rparr>]"
  define st1 where "st1 = st\<lparr>sa_entities := ents,
      sa_frontiers := (sa_frontiers st)((kind, parent) \<mapsto> frontier_publish ents a (sched_frontier st (kind, parent)))\<rparr>"
  have new: "index_get hash (sched_index kind st1) key = None" "trie_index_ok hash (sched_index kind st1)"
    using None indexes_okD(1) [OF ix] by (simp_all add: entity_at_def st1_def)
  obtain ix' where pub: "index_publish hash key a (sched_index kind st1) = Inr ix'" "trie_index_ok hash ix'"
    using state_index.publish_new [OF new(2,1)] by blast
  have get: "index_get hash ix' = (index_get hash (sched_index kind st1))(key \<mapsto> a)" by (rule state_index.publish_get [OF new(2) pub(1)])
  let ?st' = "set_index kind ix' st1"
  have run: "sched_entity hash kind key parent st = (Inr a, ?st')"
    using kind None pub(1) unfolding st1_def by (simp add: sched_entity_def entity_at_def a_def [symmetric] ents_def [symmetric] Let_def)
  have fr: "sched_frontier ?st' = (sched_frontier st)((kind, parent) := frontier_publish ents a (sched_frontier st (kind, parent)))"
    by (auto simp: sched_frontier_def st1_def fun_eq_iff)
  have "trie_index_ok hash (sched_index k ?st')" for k
    using pub(2) indexes_okD(1) [OF ix, of k] by (simp add: sched_index_set st1_def)
  moreover have "entity_at hash ?st' kind' = (if kind' = kind then (entity_at hash st kind)(key \<mapsto> a) else entity_at hash st kind')"
    if "kind' \<in> kinds" for kind'
    using that kind get by (auto simp: entity_at_def sched_index_set st1_def)
  moreover have "sa_entities ?st' = ents" "sa_sequence ?st' = sa_sequence st" "sa_generation ?st' = sa_generation st" "sa_changes ?st' = sa_changes st"
    by (simp_all add: st1_def)
  ultimately have "registers hash kind key parent a st ?st'"
    unfolding registers_def using None fr by (simp add: a_def ents_def)
  then show ?thesis using run by blast
qed

definition owner_ok :: "string \<Rightarrow> string \<Rightarrow> string list \<Rightarrow> bool" where
  "owner_ok kind key parent =
     (kind = ''flow'' \<and> (\<exists>c. coord_ok c \<and> key = ckey c \<and> parent = flow_parent (fst c) (fst (snd c))) \<or>
      kind = ''resource'' \<and> (\<exists>t r. t \<noteq> Some [] \<and> key = the (resource_key t (Some r)) \<and> parent = resource_parent t) \<or>
      kind = ''tenant'' \<and> parent = [])"

lemma owner_ok_parent:
  assumes ix: "indexes_ok hash st" and own: "owner_ok kind key parent" and a: "entity_at hash st kind key = Some a"
  shows "en_parent (sa_entities st ! a) = parent"
proof -
  from own consider c where "kind = ''flow''" "coord_ok c" "key = ckey c" "parent = flow_parent (fst c) (fst (snd c))"
    | t r where "kind = ''resource''" "t \<noteq> Some []" "key = the (resource_key t (Some r))" "parent = resource_parent t"
    | "kind = ''tenant''" "parent = []"
    unfolding owner_ok_def by blast
  then show ?thesis
    using indexes_okD(5) [OF ix, of _ a] indexes_okD(6) [OF ix, of _ _ a] indexes_okD(7) [OF ix, of key a] a by cases simp_all
qed

lemma owner_ok_kind: "owner_ok kind key parent \<Longrightarrow> kind \<in> kinds" by (auto simp: owner_ok_def)

lemma the_resource_key_inj:
  assumes "the (resource_key t (Some r)) = the (resource_key t' (Some r'))" "t \<noteq> Some []" "t' \<noteq> Some []"
  shows "t = t' \<and> r = r'"
  by (rule resource_key_inj) (use assms in \<open>simp_all add: resource_key_def\<close>)

lemma registers_cases:
  assumes "registers hash kind key parent a st st'" "kind \<in> kinds"
  shows "entity_at hash st' kind key = Some a"
  using assms unfolding registers_def by auto

text \<open>The entities known after a registration, old ones unchanged.\<close>

lemma registers_new:
  assumes reg: "registers hash kind key parent a st st'" and new: "entity_at hash st kind key = None"
    and kind: "kind' \<in> kinds" and at: "entity_at hash st' kind' key' = Some b" and ix: "indexes_ok hash st"
  shows "kind' = kind \<and> key' = key \<and> b = length (sa_entities st) \<or>
    (kind', key') \<noteq> (kind, key) \<and> entity_at hash st kind' key' = Some b \<and> b < length (sa_entities st) \<and> sa_entities st' ! b = sa_entities st ! b"
proof -
  have e: "sa_entities st' = sa_entities st @ [(new_entity parent)\<lparr>en_frontier := Some (kind, parent)\<rparr>]" "a = length (sa_entities st)"
    "entity_at hash st' kind' = (if kind' = kind then (entity_at hash st kind)(key \<mapsto> a) else entity_at hash st kind')"
    using reg new kind unfolding registers_def by auto
  show ?thesis
  proof (cases "(kind', key') = (kind, key)")
    case True
    then show ?thesis using at e(2,3) by auto
  next
    case False
    then have "entity_at hash st kind' key' = Some b" using at e(3) by (auto split: if_splits)
    moreover from this have "b < length (sa_entities st)" by (rule indexes_okD(2) [OF ix kind])
    ultimately show ?thesis using False e(1) by (simp add: nth_append)
  qed
qed

lemma registers_indexes:
  assumes ix: "indexes_ok hash st" and reg: "registers hash kind key parent a st st'" and own: "owner_ok kind key parent"
  shows "indexes_ok hash st'"
proof (cases "entity_at hash st kind key")
  case (Some b)
  then show ?thesis using reg ix by (auto simp: registers_def)
next
  case None
  note kind = owner_ok_kind [OF own]
  have e: "sa_entities st' = sa_entities st @ [(new_entity parent)\<lparr>en_frontier := Some (kind, parent)\<rparr>]" "a = length (sa_entities st)"
    "\<forall>k. trie_index_ok hash (sched_index k st')"
    using reg None unfolding registers_def by auto
  have newe: "sa_entities st' ! length (sa_entities st) = (new_entity parent)\<lparr>en_frontier := Some (kind, parent)\<rparr>"
    "en_parent (sa_entities st' ! length (sa_entities st)) = parent"
    "en_frontier (sa_entities st' ! length (sa_entities st)) = Some (kind, parent)"
    by (simp_all add: e(1) new_entity_def)
  have len: "length (sa_entities st') = Suc (length (sa_entities st))" by (simp add: e(1))
  note at = registers_new [OF reg None _ _ ix]
  have parent: "en_parent (sa_entities st' ! b) = p"
    if "kind' \<in> kinds" "entity_at hash st' kind' key' = Some b" "owner_ok kind' key' p" "kind' = kind \<and> key' = key \<Longrightarrow> p = parent" for kind' key' b p
  proof -
    from at [OF that(1,2)] consider "kind' = kind" "key' = key" "b = length (sa_entities st)"
      | "entity_at hash st kind' key' = Some b" "sa_entities st' ! b = sa_entities st ! b" by blast
    then show ?thesis
    proof cases
      case 1
      then show ?thesis using newe(2) that(4) by simp
    next
      case 2
      then show ?thesis using owner_ok_parent [OF ix that(3) 2(1)] by simp
    qed
  qed
  show ?thesis
    unfolding indexes_ok_def
  proof (intro conjI)
    show "\<forall>kind. trie_index_ok hash (sched_index kind st')" by (rule e(3))
    show "\<forall>kind \<in> kinds. \<forall>key a. entity_at hash st' kind key = Some a \<longrightarrow> a < length (sa_entities st') \<and>
        en_frontier (sa_entities st' ! a) = Some (kind, en_parent (sa_entities st' ! a)) \<and>
        (\<forall>key'. entity_at hash st' kind key' = Some a \<longrightarrow> key' = key)"
    proof (intro ballI allI impI)
      fix kind' key' b assume k': "kind' \<in> kinds" and b: "entity_at hash st' kind' key' = Some b"
      have uniq: "key'' = key'" if "entity_at hash st' kind' key'' = Some b" for key''
        using at [OF k' b] at [OF k' that] indexes_okD(4) [OF ix k', of key' b key''] by auto
      show "b < length (sa_entities st') \<and> en_frontier (sa_entities st' ! b) = Some (kind', en_parent (sa_entities st' ! b)) \<and>
          (\<forall>key''. entity_at hash st' kind' key'' = Some b \<longrightarrow> key'' = key')"
        using at [OF k' b] newe len uniq indexes_okD(3) [OF ix k', of key' b] by auto
    qed
    show "\<forall>c a. coord_ok c \<longrightarrow> entity_at hash st' ''flow'' (ckey c) = Some a \<longrightarrow>
        en_parent (sa_entities st' ! a) = flow_parent (fst c) (fst (snd c))"
    proof (intro allI impI)
      fix c b assume c: "coord_ok c" "entity_at hash st' ''flow'' (ckey c) = Some b"
      show "en_parent (sa_entities st' ! b) = flow_parent (fst c) (fst (snd c))"
      proof (rule parent [OF _ c(2)])
        show "owner_ok ''flow'' (ckey c) (flow_parent (fst c) (fst (snd c)))" using c(1) unfolding owner_ok_def by blast
        assume "''flow'' = kind \<and> ckey c = key"
        then obtain d where "coord_ok d" "ckey c = ckey d" "parent = flow_parent (fst d) (fst (snd d))"
          using own unfolding owner_ok_def by auto
        then show "flow_parent (fst c) (fst (snd c)) = parent" using ckey_inj [of c d] c(1) by simp
      qed simp
    qed
    show "\<forall>t r a. t \<noteq> Some [] \<longrightarrow> entity_at hash st' ''resource'' (the (resource_key t (Some r))) = Some a \<longrightarrow>
        en_parent (sa_entities st' ! a) = resource_parent t"
    proof (intro allI impI)
      fix t r b assume t: "t \<noteq> Some []" "entity_at hash st' ''resource'' (the (resource_key t (Some r))) = Some b"
      show "en_parent (sa_entities st' ! b) = resource_parent t"
      proof (rule parent [OF _ t(2)])
        show "owner_ok ''resource'' (the (resource_key t (Some r))) (resource_parent t)" using t(1) by (auto simp: owner_ok_def)
        assume "''resource'' = kind \<and> the (resource_key t (Some r)) = key"
        then obtain t' r' where "t' \<noteq> Some []" "the (resource_key t (Some r)) = the (resource_key t' (Some r'))" "parent = resource_parent t'"
          using own unfolding owner_ok_def by auto
        then show "resource_parent t = parent" using the_resource_key_inj [of t r t' r'] t(1) by simp
      qed simp
    qed
    show "\<forall>t a. entity_at hash st' ''tenant'' t = Some a \<longrightarrow> en_parent (sa_entities st' ! a) = []"
    proof (intro allI impI)
      fix t b assume t: "entity_at hash st' ''tenant'' t = Some b"
      show "en_parent (sa_entities st' ! b) = []"
        by (rule parent [OF _ t]) (use own in \<open>auto simp: owner_ok_def\<close>)
    qed
  qed
qed

lemma registers_siblings:
  assumes sib: "siblings_ok st" and reg: "registers hash kind key parent a st st'"
  shows "siblings_ok st'"
proof (cases "entity_at hash st kind key")
  case (Some b)
  then show ?thesis using reg sib by (auto simp: registers_def)
next
  case None
  let ?e = "(new_entity parent)\<lparr>en_frontier := Some (kind, parent)\<rparr>" and ?ents = "sa_entities st"
  have e: "sa_entities st' = ?ents @ [?e]" "a = length ?ents" "sa_sequence st' = sa_sequence st"
    "sched_frontier st' = (sched_frontier st)((kind, parent) := frontier_publish (sa_entities st') a (sched_frontier st (kind, parent)))"
    using reg None unfolding registers_def by auto
  have S: "0 \<le> sa_sequence st" "\<forall>e \<in> set ?ents. entity_bounds (sa_sequence st) e" "frontiers_ok ?ents (sched_frontier st)"
    "\<And>k. completions_distinct ?ents {a. a < length ?ents \<and> en_frontier (?ents ! a) = Some k}"
    using sib unfolding siblings_ok_def by auto
  have newe: "en_frontier ?e = Some (kind, parent)" "en_last_completion ?e = -1" "entity_bounds (sa_sequence st) ?e"
    using S(1) by (simp_all add: new_entity_def entity_bounds_def)
  have old: "sa_entities st' ! b = ?ents ! b" if "b < length ?ents" for b using that by (simp add: e(1) nth_append)
  have members: "{b. b < length (sa_entities st') \<and> en_frontier (sa_entities st' ! b) = Some k} =
      {b. b < length ?ents \<and> en_frontier (?ents ! b) = Some k} \<union> (if k = (kind, parent) then {a} else {})" for k
  proof -
    have "b < length (sa_entities st') \<longleftrightarrow> b < length ?ents \<or> b = a" for b using e(1,2) by auto
    moreover have "sa_entities st' ! a = ?e" using e(1,2) by simp
    ultimately show ?thesis using old newe(1) by auto
  qed
  have "frontier_ok (sa_entities st') (sched_frontier st' k) \<and>
      frontier_keys (sched_frontier st' k) = {b. b < length (sa_entities st') \<and> en_frontier (sa_entities st' ! b) = Some k}" for k
  proof (cases "k = (kind, parent)")
    case True
    note F = frontiers_okD [OF S(3), of k]
    have same: "sa_entities st' ! b = ?ents ! b" if "b \<in> frontier_keys (sched_frontier st k)" "b \<noteq> a" for b
      using that F(2) old by auto
    have "sched_frontier st' k = frontier_publish (sa_entities st') a (sched_frontier st k)" using e(4) True by simp
    then show ?thesis using frontier_publish_ok [OF F(1) same] F(2) True unfolding members by auto
  next
    case False
    note F = frontiers_okD [OF S(3), of k]
    have "sched_frontier st' k = sched_frontier st k" using e(4) False by simp
    moreover have "frontier_ok (sa_entities st') (sched_frontier st k)"
    proof (rule frontier_ok_cong [OF F(1)])
      fix b assume "b \<in> frontier_keys (sched_frontier st k)"
      then have "sa_entities st' ! b = ?ents ! b" using F(2) old by auto
      then show "en_load (sa_entities st' ! b) = en_load (?ents ! b) \<and> en_in_flight (sa_entities st' ! b) = en_in_flight (?ents ! b) \<and>
        en_last_completion (sa_entities st' ! b) = en_last_completion (?ents ! b)" by simp
    qed
    ultimately show ?thesis using F(2) False unfolding members by simp
  qed
  then have "frontiers_ok (sa_entities st') (sched_frontier st')" unfolding frontiers_ok_def by blast
  moreover have "completions_distinct (sa_entities st') {b. b < length (sa_entities st') \<and> en_frontier (sa_entities st' ! b) = Some k}" for k
  proof -
    have "sa_entities st' ! a = ?e" using e(1,2) by simp
    then have "{b \<in> {b. b < length (sa_entities st') \<and> en_frontier (sa_entities st' ! b) = Some k}. 0 \<le> en_last_completion (sa_entities st' ! b)} =
        {b \<in> {b. b < length ?ents \<and> en_frontier (?ents ! b) = Some k}. 0 \<le> en_last_completion (?ents ! b)}"
      unfolding members using newe(2) old by auto
    then show ?thesis using S(4) [of k] old unfolding completions_distinct_def inj_on_def by auto
  qed
  moreover have "\<forall>x \<in> set (sa_entities st'). entity_bounds (sa_sequence st') x" using S(2) newe(3) e(1,3) by auto
  ultimately show ?thesis unfolding siblings_ok_def using S(1) e(3) by auto
qed

lemma registers_level:
  assumes ix: "indexes_ok hash st" and reg: "registers hash kind key parent a st st'" and kind: "kind' \<in> kinds"
    and zero: "m ((new_entity parent)\<lparr>en_frontier := Some (kind, parent)\<rparr>) = 0"
  shows "level m hash st' kind' key' = level m hash st kind' key'"
proof (cases "entity_at hash st kind key")
  case (Some b)
  then show ?thesis using reg by (auto simp: registers_def)
next
  case None
  have e: "sa_entities st' = sa_entities st @ [(new_entity parent)\<lparr>en_frontier := Some (kind, parent)\<rparr>]" "a = length (sa_entities st)"
    "entity_at hash st' kind' = (if kind' = kind then (entity_at hash st kind)(key \<mapsto> a) else entity_at hash st kind')"
    using reg None kind unfolding registers_def by auto
  show ?thesis
  proof (cases "(kind', key') = (kind, key)")
    case True
    then show ?thesis using e zero None by (simp add: level_def)
  next
    case False
    then have "entity_at hash st' kind' key' = entity_at hash st kind' key'" using e(3) by auto
    then show ?thesis
      using indexes_okD(2) [OF ix kind, of key'] e(1) by (auto simp: level_def nth_append split: option.splits)
  qed
qed

lemma registers_total:
  assumes ix: "indexes_ok hash st" "indexes_ok hash st'" and reg: "registers hash kind key parent a st st'" and kind: "kind \<in> kinds"
    and zero: "m ((new_entity parent)\<lparr>en_frontier := Some (kind, parent)\<rparr>) = 0"
  shows "flow_total m hash st' P = flow_total m hash st P"
proof -
  have lev: "level m hash st' ''flow'' k = level m hash st ''flow'' k" for k
    by (rule registers_level [where m = m, OF ix(1) reg _ zero]) simp
  have sub: "coords hash st \<subseteq> coords hash st'"
  proof -
    have "entity_at hash st' ''flow'' k \<noteq> None" if "entity_at hash st ''flow'' k \<noteq> None" for k
    proof -
      have "st' = st \<or> entity_at hash st' ''flow'' = (if ''flow'' = kind then (entity_at hash st kind)(key \<mapsto> a) else entity_at hash st ''flow'')"
        using reg unfolding registers_def by blast
      then show ?thesis using \<open>entity_at hash st ''flow'' k \<noteq> None\<close> by auto
    qed
    then show ?thesis by (auto simp: coords_def)
  qed
  have out: "level m hash st ''flow'' (ckey c) = 0" if "c \<in> coords hash st' - coords hash st" for c
    using that by (auto simp: coords_def level_def)
  have "(\<Sum>c \<in> {c \<in> coords hash st'. P c}. level m hash st ''flow'' (ckey c)) = (\<Sum>c \<in> {c \<in> coords hash st. P c}. level m hash st ''flow'' (ckey c))"
    by (rule sum.mono_neutral_right) (use finite_coords [OF ix(2)] sub out in auto)
  then show ?thesis by (simp add: flow_total_def lev)
qed

lemma registers_inv:
  assumes inv: "sched_inv hash st" and reg: "registers hash kind key parent a st st'" and own: "owner_ok kind key parent"
  shows "sched_inv hash st'"
proof -
  have I: "indexes_ok hash st" "siblings_ok st" "conserved en_in_flight hash st" "conserved en_reserved hash st"
    using inv by (simp_all add: sched_inv_def)
  have ix': "indexes_ok hash st'" by (rule registers_indexes [OF I(1) reg own])
  have "conserved m hash st'" if "conserved m hash st" "m ((new_entity parent)\<lparr>en_frontier := Some (kind, parent)\<rparr>) = 0" for m
    using that(1) registers_total [where m = m, OF I(1) ix' reg owner_ok_kind [OF own] that(2)]
      registers_level [where m = m and kind' = "''tenant''", OF I(1) reg _ that(2)]
      registers_level [where m = m and kind' = "''resource''", OF I(1) reg _ that(2)]
    unfolding conserved_def by simp
  then show ?thesis using I(3,4) ix' registers_siblings [OF I(2) reg] by (simp add: sched_inv_def new_entity_def)
qed

section \<open>Touching the three levels of a flow\<close>

definition touches :: "(string \<Rightarrow> 64 word) \<Rightarrow> sched \<Rightarrow> coord \<Rightarrow> nat \<Rightarrow> nat option \<Rightarrow> nat option \<Rightarrow> bool" where
  "touches hash st c fl rs tn =
     (coord_ok c \<and> entity_at hash st ''flow'' (ckey c) = Some fl \<and>
      (case fst (snd c) of None \<Rightarrow> rs = None
       | Some r \<Rightarrow> rs \<noteq> None \<and> entity_at hash st ''resource'' (the (resource_key (fst c) (Some r))) = rs) \<and>
      (case fst c of None \<Rightarrow> tn = None | Some t \<Rightarrow> tn \<noteq> None \<and> entity_at hash st ''tenant'' t = tn))"

lemma lock_states_set: "a \<in> set (lock_states tn rs fl) \<longleftrightarrow> a = fl \<or> rs = Some a \<or> tn = Some a"
  by (auto simp: lock_states_def split: option.splits)

lemma touches_kinds:
  assumes ix: "indexes_ok hash st" and t: "touches hash st c fl rs tn"
  shows "fl < length (sa_entities st)" "fst (the (en_frontier (sa_entities st ! fl))) = ''flow''" "en_frontier (sa_entities st ! fl) \<noteq> None"
    "rs = Some a \<Longrightarrow> a < length (sa_entities st) \<and> fst (the (en_frontier (sa_entities st ! a))) = ''resource'' \<and> en_frontier (sa_entities st ! a) \<noteq> None"
    "tn = Some b \<Longrightarrow> b < length (sa_entities st) \<and> fst (the (en_frontier (sa_entities st ! b))) = ''tenant'' \<and> en_frontier (sa_entities st ! b) \<noteq> None"
proof -
  have fl: "entity_at hash st ''flow'' (ckey c) = Some fl" using t by (simp add: touches_def)
  show "fl < length (sa_entities st)" by (rule indexes_okD(2) [OF ix _ fl]) simp
  show "fst (the (en_frontier (sa_entities st ! fl))) = ''flow''" "en_frontier (sa_entities st ! fl) \<noteq> None"
    using indexes_okD(3) [OF ix _ fl] by simp_all
  show "a < length (sa_entities st) \<and> fst (the (en_frontier (sa_entities st ! a))) = ''resource'' \<and> en_frontier (sa_entities st ! a) \<noteq> None"
    if rsa: "rs = Some a"
  proof -
    obtain k where k: "entity_at hash st ''resource'' k = Some a" using t rsa unfolding touches_def by (auto split: option.splits)
    show ?thesis using indexes_okD(2,3) [OF ix _ k] by simp
  qed
  show "b < length (sa_entities st) \<and> fst (the (en_frontier (sa_entities st ! b))) = ''tenant'' \<and> en_frontier (sa_entities st ! b) \<noteq> None"
    if tnb: "tn = Some b"
  proof -
    obtain k where k: "entity_at hash st ''tenant'' k = Some b" using t tnb unfolding touches_def by (auto split: option.splits)
    show ?thesis using indexes_okD(2,3) [OF ix _ k] by simp
  qed
qed

lemma touches_frontiers:
  assumes ix: "indexes_ok hash st" and t: "touches hash st c fl rs tn"
  shows "distinct (map (\<lambda>a. en_frontier (sa_entities st ! a)) (lock_states tn rs fl))"
    "\<forall>a \<in> set (lock_states tn rs fl). a < length (sa_entities st) \<and> en_frontier (sa_entities st ! a) \<noteq> None"
    "distinct (lock_states tn rs fl)"
proof -
  note K = touches_kinds [OF ix t]
  show "distinct (map (\<lambda>a. en_frontier (sa_entities st ! a)) (lock_states tn rs fl))"
    using K(2) K(4) K(5) by (cases rs; cases tn) (auto simp: lock_states_def)
  then show "distinct (lock_states tn rs fl)" by (simp add: distinct_map)
  show "\<forall>a \<in> set (lock_states tn rs fl). a < length (sa_entities st) \<and> en_frontier (sa_entities st ! a) \<noteq> None"
    using K by (auto simp: lock_states_set)
qed

text \<open>An entity is touched at its own level only, and only for the touched key.\<close>

lemma touches_at:
  assumes ix: "indexes_ok hash st" and t: "touches hash st c fl rs tn" and kind: "kind \<in> kinds" and b: "entity_at hash st kind key = Some b"
  shows "b \<in> set (lock_states tn rs fl) \<longleftrightarrow>
    (kind = ''flow'' \<and> key = ckey c \<or> kind = ''resource'' \<and> (\<exists>r. fst (snd c) = Some r \<and> key = the (resource_key (fst c) (Some r))) \<or>
     kind = ''tenant'' \<and> fst c = Some key)"
proof -
  note K = touches_kinds [OF ix t]
  have bk: "fst (the (en_frontier (sa_entities st ! b))) = kind" using indexes_okD(3) [OF ix kind b] by simp
  have uniq: "key' = key" if "entity_at hash st kind key' = Some b" for key' by (rule indexes_okD(4) [OF ix kind b that])
  consider "kind = ''flow''" | "kind = ''resource''" | "kind = ''tenant''" using kind by blast
  then show ?thesis
  proof cases
    case 1
    then have "b \<in> set (lock_states tn rs fl) \<longleftrightarrow> b = fl" using bk K(4) K(5) by (auto simp: lock_states_set)
    moreover have "b = fl \<longleftrightarrow> key = ckey c" using t uniq [of "ckey c"] b 1 by (auto simp: touches_def)
    ultimately show ?thesis using 1 by simp
  next
    case 2
    then have "b \<in> set (lock_states tn rs fl) \<longleftrightarrow> rs = Some b" using bk K(2) K(5) by (auto simp: lock_states_set)
    moreover have "rs = Some b \<longleftrightarrow> (\<exists>r. fst (snd c) = Some r \<and> key = the (resource_key (fst c) (Some r)))"
    proof (cases "fst (snd c)")
      case None
      then show ?thesis using t by (simp add: touches_def)
    next
      case (Some r)
      then have rs: "rs \<noteq> None" "entity_at hash st ''resource'' (the (resource_key (fst c) (Some r))) = rs" using t by (simp_all add: touches_def)
      show ?thesis using rs uniq [of "the (resource_key (fst c) (Some r))"] b 2 Some by auto
    qed
    ultimately show ?thesis using 2 by simp
  next
    case 3
    then have "b \<in> set (lock_states tn rs fl) \<longleftrightarrow> tn = Some b" using bk K(2) K(4) by (auto simp: lock_states_set)
    moreover have "tn = Some b \<longleftrightarrow> fst c = Some key"
    proof (cases "fst c")
      case None
      then show ?thesis using t by (simp add: touches_def)
    next
      case (Some u)
      then have tn: "tn \<noteq> None" "entity_at hash st ''tenant'' u = tn" using t by (simp_all add: touches_def)
      show ?thesis using tn uniq [of u] b 3 Some by auto
    qed
    ultimately show ?thesis using 3 by simp
  qed
qed

text \<open>Adding the same amount at the three levels keeps the books.\<close>

lemma touch_conserved:
  assumes ix: "indexes_ok hash st" and t: "touches hash st c fl rs tn"
    and same: "\<And>kind. kind \<in> kinds \<Longrightarrow> entity_at hash st' kind = entity_at hash st kind"
    and delta: "\<And>a. a < length (sa_entities st) \<Longrightarrow>
      m (sa_entities st' ! a) = m (sa_entities st ! a) + (if a \<in> set (lock_states tn rs fl) then d else 0)"
    and con: "conserved m hash st"
  shows "conserved m hash st'"
proof -
  have c: "coord_ok c" "entity_at hash st ''flow'' (ckey c) = Some fl" using t by (simp_all add: touches_def)
  have lev: "level m hash st' kind key = level m hash st kind key +
      (if kind = ''flow'' \<and> key = ckey c \<or> kind = ''resource'' \<and> (\<exists>r. fst (snd c) = Some r \<and> key = the (resource_key (fst c) (Some r))) \<or>
        kind = ''tenant'' \<and> fst c = Some key then d else 0)" if kind: "kind \<in> kinds" for kind key
  proof (cases "entity_at hash st kind key")
    case None
    have "\<not> (kind = ''flow'' \<and> key = ckey c \<or> kind = ''resource'' \<and> (\<exists>r. fst (snd c) = Some r \<and> key = the (resource_key (fst c) (Some r))) \<or>
        kind = ''tenant'' \<and> fst c = Some key)"
      using t None unfolding touches_def by auto
    then show ?thesis by (subst if_not_P) (simp_all add: None same [OF kind] level_def)
  next
    case (Some b)
    have "b < length (sa_entities st)" by (rule indexes_okD(2) [OF ix kind Some])
    from delta [OF this] show ?thesis unfolding touches_at [OF ix t kind Some] level_def same [OF kind] Some option.case .
  qed
  have coords: "coords hash st' = coords hash st" using same [of "''flow''"] by (simp add: coords_def)
  have cin: "c \<in> coords hash st" using c by (simp add: coords_def)
  have total: "flow_total m hash st' P = flow_total m hash st P + (if P c then d else 0)" for P
  proof -
    have "level m hash st' ''flow'' (ckey c') = level m hash st ''flow'' (ckey c') + (if c' = c then d else 0)" if "c' \<in> coords hash st" for c'
      using that lev [of "''flow''" "ckey c'"] ckey_inj [of c' c] c(1) by (auto simp: coords_def)
    then have "flow_total m hash st' P = (\<Sum>c' \<in> {c' \<in> coords hash st. P c'}. level m hash st ''flow'' (ckey c') + (if c' = c then d else 0))"
      unfolding flow_total_def coords by (intro sum.cong) auto
    also have "\<dots> = flow_total m hash st P + (\<Sum>c' \<in> {c' \<in> coords hash st. P c'}. if c' = c then d else 0)"
      by (simp add: flow_total_def sum.distrib)
    also have "(\<Sum>c' \<in> {c' \<in> coords hash st. P c'}. if c' = c then d else 0) = (if P c then d else 0)"
      using finite_coords [OF ix] cin by (simp add: sum.delta)
    finally show ?thesis .
  qed
  show ?thesis
    unfolding conserved_def
  proof (intro conjI allI impI)
    fix u :: string assume u: "u \<noteq> []"
    have "level m hash st ''tenant'' u = flow_total m hash st (\<lambda>c. fst c = Some u)" using con u by (simp add: conserved_def)
    then show "level m hash st' ''tenant'' u = flow_total m hash st' (\<lambda>c. fst c = Some u)"
      using lev [of "''tenant''" u] total [of "\<lambda>c. fst c = Some u"] by simp
  next
    fix u :: "string option" and r :: string assume u: "u \<noteq> Some []" "r \<noteq> []"
    have eq: "level m hash st ''resource'' (the (resource_key u (Some r))) = flow_total m hash st (\<lambda>c. fst c = u \<and> fst (snd c) = Some r)"
      using con u by (simp add: conserved_def)
    have "(\<exists>r'. fst (snd c) = Some r' \<and> the (resource_key u (Some r)) = the (resource_key (fst c) (Some r'))) \<longleftrightarrow> fst c = u \<and> fst (snd c) = Some r"
      using the_resource_key_inj [of u r "fst c"] u(1) c(1) by (auto simp: coord_ok_def)
    then show "level m hash st' ''resource'' (the (resource_key u (Some r))) = flow_total m hash st' (\<lambda>c. fst c = u \<and> fst (snd c) = Some r)"
      using eq lev [of "''resource''" "the (resource_key u (Some r))"] total [of "\<lambda>c. fst c = u \<and> fst (snd c) = Some r"] by simp
  qed
qed

section \<open>The critical sections\<close>

lemma with_publish_ok:
  assumes body: "body st = (r, st1)" and fr: "frontiers_ok ents (sched_frontier st1)" and len: "length (sa_entities st1) = length ents"
    and keep: "\<And>a. a < length ents \<Longrightarrow> en_frontier (sa_entities st1 ! a) = en_frontier (ents ! a)"
    and same: "\<And>a. a < length ents \<Longrightarrow> a \<notin> set states \<Longrightarrow> sa_entities st1 ! a = ents ! a"
    and states: "distinct (map (\<lambda>a. en_frontier (ents ! a)) states)" "\<forall>a \<in> set states. a < length ents \<and> en_frontier (ents ! a) \<noteq> None"
  shows "\<exists>fm. with_publish states body st = (r, st1\<lparr>sa_frontiers := fm\<rparr>) \<and> frontiers_ok (sa_entities st1) (sched_frontier (st1\<lparr>sa_frontiers := fm\<rparr>))"
proof -
  have eq: "map (\<lambda>a. en_frontier (sa_entities st1 ! a)) states = map (\<lambda>a. en_frontier (ents ! a)) states" using keep states(2) by simp
  have st: "distinct (map (\<lambda>a. en_frontier (sa_entities st1 ! a)) states)" unfolding eq by (rule states(1))
  have st': "\<forall>a \<in> set states. a < length ents \<and> en_frontier (sa_entities st1 ! a) \<noteq> None" using keep states(2) by auto
  obtain fm where fm: "publish_states states st1 = (Inr (), st1\<lparr>sa_frontiers := fm\<rparr>)"
    "sched_frontier (st1\<lparr>sa_frontiers := fm\<rparr>) = republished (sa_entities st1) states (sched_frontier st1)"
    using publish_states_eq [of states st1] st' by auto
  have "with_publish states body st = (r, st1\<lparr>sa_frontiers := fm\<rparr>)" using body fm(1) by (simp add: with_publish_def)
  moreover have "frontiers_ok (sa_entities st1) (sched_frontier (st1\<lparr>sa_frontiers := fm\<rparr>))"
    unfolding fm(2) by (rule republished_ok [OF fr len keep same st st'])
  ultimately show ?thesis by blast
qed

definition siblings :: "entity list \<Rightarrow> nat \<Rightarrow> nat set" where
  "siblings ents x = {a. a < length ents \<and> en_frontier (ents ! a) = en_frontier (ents ! x)}"

definition exact_floor :: "entity list \<Rightarrow> nat option \<Rightarrow> int" where
  "exact_floor ents a = (case a of None \<Rightarrow> 0 | Some x \<Rightarrow> sibling_floor ents (siblings ents x) x)"

lemma floor_of_exact:
  assumes fr: "frontiers_ok (sa_entities st) (sched_frontier st)"
    and comp: "\<And>k. completions_distinct (sa_entities st) {a. a < length (sa_entities st) \<and> en_frontier (sa_entities st ! a) = Some k}"
    and a: "\<And>x. a = Some x \<Longrightarrow> en_frontier (sa_entities st ! x) \<noteq> None"
  shows "\<exists>fm. floor_of a st = (Inr (exact_floor (sa_entities st) a), st\<lparr>sa_frontiers := fm\<rparr>) \<and>
    frontiers_ok (sa_entities st) (sched_frontier (st\<lparr>sa_frontiers := fm\<rparr>))"
proof (cases a)
  case None
  have "floor_of a st = (Inr (exact_floor (sa_entities st) a), st\<lparr>sa_frontiers := sa_frontiers st\<rparr>)"
    using None by (simp add: floor_of_def exact_floor_def)
  then show ?thesis using fr by (intro exI [of _ "sa_frontiers st"]) simp
next
  case (Some x)
  obtain k where k: "en_frontier (sa_entities st ! x) = Some k" using a [OF Some] by blast
  note F = frontiers_okD [OF fr]
  have sib: "frontier_keys (sched_frontier st k) = siblings (sa_entities st) x" using F(2) k by (simp add: siblings_def)
  obtain f where f: "frontier_floor (sa_entities st) x (sched_frontier st k) = (Inr (sibling_floor (sa_entities st) (siblings (sa_entities st) x) x), f)"
    "frontier_ok (sa_entities st) f" "fr_states f = fr_states (sched_frontier st k)"
    using frontier_floor_exact [OF F(1), of k x] comp [of k] F(2) [of k] sib by auto
  let ?fm = "(sa_frontiers st)(k \<mapsto> f)"
  have "frontiers_ok (sa_entities st) ((sched_frontier st)(k := f))"
    unfolding frontiers_ok_def using f(2,3) F by (auto simp: frontier_keys_def)
  then have "frontiers_ok (sa_entities st) (sched_frontier (st\<lparr>sa_frontiers := ?fm\<rparr>))" unfolding sched_frontier_upd .
  moreover have "floor_of a st = (Inr (exact_floor (sa_entities st) a), st\<lparr>sa_frontiers := ?fm\<rparr>)"
    using Some k f(1) by (simp add: floor_of_def exact_floor_def)
  ultimately show ?thesis by blast
qed

lemma upd_select [simp]:
  "sa_entities (upd_entity a g st) = (sa_entities st)[a := g (sa_entities st ! a)]" "sa_sequence (upd_entity a g st) = sa_sequence st"
  "sa_generation (upd_entity a g st) = sa_generation st" "sa_changes (upd_entity a g st) = sa_changes st"
  "sa_frontiers (upd_entity a g st) = sa_frontiers st" "sched_index k (upd_entity a g st) = sched_index k st"
  "sa_sequence (upd_opt b g st) = sa_sequence st" "sa_generation (upd_opt b g st) = sa_generation st" "sa_changes (upd_opt b g st) = sa_changes st"
  "sa_frontiers (upd_opt b g st) = sa_frontiers st" "sched_index k (upd_opt b g st) = sched_index k st"
  by (simp_all add: upd_entity_def upd_opt_def sched_index_def split: option.splits)

lemma upd_opt_entities: "sa_entities (upd_opt b g st) = (case b of None \<Rightarrow> sa_entities st | Some a \<Rightarrow> (sa_entities st)[a := g (sa_entities st ! a)])"
  by (simp add: upd_opt_def split: option.splits)

lemma change_select [simp]:
  "sa_entities (record_ordering_change f st) = sa_entities st" "sa_sequence (record_ordering_change f st) = sa_sequence st"
  "sa_frontiers (record_ordering_change f st) = sa_frontiers st" "sched_index k (record_ordering_change f st) = sched_index k st"
  "sa_generation (record_ordering_change f st) = sa_generation st + 1"
  by (simp_all add: record_ordering_change_def sched_index_def Let_def)

text \<open>One more entry of the change journal.\<close>

definition pushed :: "string option \<Rightarrow> sched \<Rightarrow> sched \<Rightarrow> bool" where
  "pushed flow st st' = (sa_generation st' = sa_generation st + 1 \<and>
     sa_changes st' = drop (length (sa_changes st) + 1 - 4096) (sa_changes st @ [(sa_generation st + 1, flow)]))"

lemma frontier_of_map: "sa_frontiers st = sa_frontiers st' \<Longrightarrow> sched_frontier st = sched_frontier st'"
  by (simp add: sched_frontier_def fun_eq_iff)

lemma indexes_ok_keep:
  assumes ix: "indexes_ok hash st" and index: "\<And>k. sched_index k st' = sched_index k st" and len: "length (sa_entities st') = length (sa_entities st)"
    and keep: "\<And>a. a < length (sa_entities st) \<Longrightarrow> en_frontier (sa_entities st' ! a) = en_frontier (sa_entities st ! a) \<and>
      en_parent (sa_entities st' ! a) = en_parent (sa_entities st ! a)"
  shows "indexes_ok hash st'"
proof -
  have at: "entity_at hash st' = entity_at hash st" by (simp add: entity_at_def fun_eq_iff index)
  have par: "en_parent (sa_entities st' ! a) = en_parent (sa_entities st ! a)" if "kind \<in> kinds" "entity_at hash st kind key = Some a" for kind key a
    using keep [of a] indexes_okD(2) [OF ix that] by blast
  show ?thesis
    unfolding indexes_ok_def at index len
  proof (intro conjI)
    show "\<forall>kind. trie_index_ok hash (sched_index kind st)" using indexes_okD(1) [OF ix] by blast
    show "\<forall>kind \<in> kinds. \<forall>key a. entity_at hash st kind key = Some a \<longrightarrow> a < length (sa_entities st) \<and>
        en_frontier (sa_entities st' ! a) = Some (kind, en_parent (sa_entities st' ! a)) \<and>
        (\<forall>key'. entity_at hash st kind key' = Some a \<longrightarrow> key' = key)"
    proof (intro ballI allI impI)
      fix kind key a assume k: "kind \<in> kinds" and a: "entity_at hash st kind key = Some a"
      show "a < length (sa_entities st) \<and> en_frontier (sa_entities st' ! a) = Some (kind, en_parent (sa_entities st' ! a)) \<and>
          (\<forall>key'. entity_at hash st kind key' = Some a \<longrightarrow> key' = key)"
        using indexes_okD(2,3) [OF ix k a] indexes_okD(4) [OF ix k a] keep [of a] by simp
    qed
    show "\<forall>c a. coord_ok c \<longrightarrow> entity_at hash st ''flow'' (ckey c) = Some a \<longrightarrow>
        en_parent (sa_entities st' ! a) = flow_parent (fst c) (fst (snd c))"
      using indexes_okD(5) [OF ix] par [of "''flow''"] by simp
    show "\<forall>t r a. t \<noteq> Some [] \<longrightarrow> entity_at hash st ''resource'' (the (resource_key t (Some r))) = Some a \<longrightarrow>
        en_parent (sa_entities st' ! a) = resource_parent t"
      using indexes_okD(6) [OF ix] par [of "''resource''"] by simp
    show "\<forall>t a. entity_at hash st ''tenant'' t = Some a \<longrightarrow> en_parent (sa_entities st' ! a) = []"
      using indexes_okD(7) [OF ix] par [of "''tenant''"] by simp
  qed
qed

text \<open>A step that changes the three levels alike and publishes them keeps the invariant.\<close>

lemma touch_inv:
  assumes inv: "sched_inv hash st" and t: "touches hash st c fl rs tn" and body: "body st = (r, st1)"
    and index: "\<And>k. sched_index k st1 = sched_index k st" and len: "length (sa_entities st1) = length (sa_entities st)"
    and keep: "\<And>a. a < length (sa_entities st) \<Longrightarrow> en_frontier (sa_entities st1 ! a) = en_frontier (sa_entities st ! a) \<and>
      en_parent (sa_entities st1 ! a) = en_parent (sa_entities st ! a)"
    and same: "\<And>a. a < length (sa_entities st) \<Longrightarrow> a \<notin> set (lock_states tn rs fl) \<Longrightarrow> sa_entities st1 ! a = sa_entities st ! a"
    and delta: "\<And>a. a \<in> set (lock_states tn rs fl) \<Longrightarrow> en_in_flight (sa_entities st1 ! a) = en_in_flight (sa_entities st ! a) + d \<and>
      en_reserved (sa_entities st1 ! a) = en_reserved (sa_entities st ! a) + d'"
    and fr: "frontiers_ok (sa_entities st) (sched_frontier st1)" and seq: "sa_sequence st \<le> sa_sequence st1"
    and bounds: "\<And>a. a \<in> set (lock_states tn rs fl) \<Longrightarrow> entity_bounds (sa_sequence st1) (sa_entities st1 ! a)"
    and comp: "\<And>a. a \<in> set (lock_states tn rs fl) \<Longrightarrow> en_last_completion (sa_entities st1 ! a) =
      (if sa_sequence st < sa_sequence st1 \<and> fin then sa_sequence st1 else en_last_completion (sa_entities st ! a))"
  shows "\<exists>fm. with_publish (lock_states tn rs fl) body st = (r, st1\<lparr>sa_frontiers := fm\<rparr>) \<and> sched_inv hash (st1\<lparr>sa_frontiers := fm\<rparr>)"
proof -
  let ?ents = "sa_entities st" and ?ents1 = "sa_entities st1" and ?states = "lock_states tn rs fl"
  have I: "indexes_ok hash st" "siblings_ok st" "conserved en_in_flight hash st" "conserved en_reserved hash st"
    using inv by (simp_all add: sched_inv_def)
  have S: "0 \<le> sa_sequence st" "\<forall>e \<in> set ?ents. entity_bounds (sa_sequence st) e"
    "\<And>k. completions_distinct ?ents {a. a < length ?ents \<and> en_frontier (?ents ! a) = Some k}"
    using I(2) unfolding siblings_ok_def by auto
  note F = touches_frontiers [OF I(1) t]
  have keep': "\<And>a. a < length ?ents \<Longrightarrow> en_frontier (?ents1 ! a) = en_frontier (?ents ! a)" using keep by blast
  obtain fm where fm: "with_publish ?states body st = (r, st1\<lparr>sa_frontiers := fm\<rparr>)"
    "frontiers_ok ?ents1 (sched_frontier (st1\<lparr>sa_frontiers := fm\<rparr>))"
    using with_publish_ok [where body = body and st = st, OF body fr len keep' same F(1,2)] by blast
  let ?st2 = "st1\<lparr>sa_frontiers := fm\<rparr>"
  have at: "entity_at hash ?st2 = entity_at hash st" by (simp add: entity_at_def fun_eq_iff index)
  have ix: "indexes_ok hash ?st2"
    by (rule indexes_ok_keep [OF I(1)]) (use index len keep in simp_all)
  have con: "conserved m hash ?st2" if "conserved m hash st" "\<And>a. a \<in> set ?states \<Longrightarrow> m (?ents1 ! a) = m (?ents ! a) + x" for m x
  proof (rule touch_conserved [OF I(1) t _ _ that(1), where d = x])
    show "m (sa_entities ?st2 ! a) = m (?ents ! a) + (if a \<in> set ?states then x else 0)" if "a < length ?ents" for a
      using \<open>\<And>a. a \<in> set ?states \<Longrightarrow> m (?ents1 ! a) = m (?ents ! a) + x\<close> same [OF that] by auto
  qed (simp add: at)
  have bnd: "entity_bounds (sa_sequence st1) (?ents1 ! a)" if a: "a < length ?ents" for a
  proof (cases "a \<in> set ?states")
    case True
    then show ?thesis by (rule bounds)
  next
    case False
    have "entity_bounds (sa_sequence st) (?ents ! a)" using S(2) a by simp
    then show ?thesis using same [OF a False] seq by (simp add: entity_bounds_def)
  qed
  have comp': "completions_distinct ?ents1 {a. a < length ?ents1 \<and> en_frontier (?ents1 ! a) = Some k}" for k
    unfolding completions_distinct_def
  proof (rule inj_onI)
    fix a b
    assume ab: "a \<in> {a \<in> {a. a < length ?ents1 \<and> en_frontier (?ents1 ! a) = Some k}. 0 \<le> en_last_completion (?ents1 ! a)}"
      "b \<in> {a \<in> {a. a < length ?ents1 \<and> en_frontier (?ents1 ! a) = Some k}. 0 \<le> en_last_completion (?ents1 ! a)}"
      "en_last_completion (?ents1 ! a) = en_last_completion (?ents1 ! b)"
    have a: "a < length ?ents" "en_frontier (?ents ! a) = Some k" and b: "b < length ?ents" "en_frontier (?ents ! b) = Some k"
      using ab(1,2) len keep' by auto
    have one: "a = b" if "a \<in> set ?states" "b \<in> set ?states"
      using F(1) that a(2) b(2) by (auto simp: distinct_map inj_on_def)
    have old: "en_last_completion (?ents ! x) \<le> sa_sequence st" if "x < length ?ents" for x using S(2) that by (simp add: entity_bounds_def)
    have new: "en_last_completion (?ents1 ! x) = en_last_completion (?ents ! x) \<or>
        x \<in> set ?states \<and> sa_sequence st < en_last_completion (?ents1 ! x)" if "x < length ?ents" for x
      using comp [of x] same [OF that] by (cases "x \<in> set ?states") auto
    show "a = b"
    proof (cases "en_last_completion (?ents1 ! a) = en_last_completion (?ents ! a) \<and> en_last_completion (?ents1 ! b) = en_last_completion (?ents ! b)")
      case True
      then have "a \<in> {a \<in> {a. a < length ?ents \<and> en_frontier (?ents ! a) = Some k}. 0 \<le> en_last_completion (?ents ! a)}"
        "b \<in> {a \<in> {a. a < length ?ents \<and> en_frontier (?ents ! a) = Some k}. 0 \<le> en_last_completion (?ents ! a)}"
        using ab a b by auto
      then show ?thesis using S(3) [of k] ab(3) True unfolding completions_distinct_def inj_on_def by auto
    next
      case False
      then have "a \<in> set ?states \<and> b \<in> set ?states" using new [OF a(1)] new [OF b(1)] old [OF a(1)] old [OF b(1)] ab(3) by auto
      then show ?thesis using one by blast
    qed
  qed
  have "siblings_ok ?st2"
    unfolding siblings_ok_def using S(1) seq fm(2) comp' bnd len by (auto simp: in_set_conv_nth)
  moreover have "conserved en_in_flight hash ?st2" by (rule con [OF I(3)]) (use delta in blast)
  moreover have "conserved en_reserved hash ?st2" by (rule con [OF I(4)]) (use delta in blast)
  ultimately have "sched_inv hash ?st2" using ix by (simp add: sched_inv_def)
  then show ?thesis using fm(1) by blast
qed

definition granted :: "int \<Rightarrow> int \<Rightarrow> int \<Rightarrow> nat option \<Rightarrow> nat option \<Rightarrow> nat \<Rightarrow> int \<Rightarrow> int \<Rightarrow> int \<Rightarrow> nat \<Rightarrow> entity \<Rightarrow> entity" where
  "granted tf rf ff tn rs fl n q s a e =
     (if a = fl then add_grant n q s (reactivate True ff e)
      else if rs = Some a then add_grant n q s (reactivate True rf e)
      else if tn = Some a then add_grant n q s (reactivate False tf e) else e)"

lemma grant_section_runs:
  assumes ix: "indexes_ok hash st" and sib: "siblings_ok st" and t: "touches hash st c fl rs tn"
    and idle: "\<not> (en_retire (sa_entities st ! fl) \<and> en_in_flight (sa_entities st ! fl) \<noteq> 0)"
  shows "\<exists>st1. grant_section tn rs fl flow n q st = (Inr (sa_sequence st + 1), st1) \<and> sa_sequence st1 = sa_sequence st + 1 \<and>
    (\<forall>k. sched_index k st1 = sched_index k st) \<and> length (sa_entities st1) = length (sa_entities st) \<and>
    (\<forall>a < length (sa_entities st). sa_entities st1 ! a = granted (exact_floor (sa_entities st) tn) (exact_floor (sa_entities st) rs)
       (exact_floor (sa_entities st) (Some fl)) tn rs fl n q (sa_sequence st + 1) a (sa_entities st ! a)) \<and>
    frontiers_ok (sa_entities st) (sched_frontier st1) \<and> pushed (Some flow) st st1"
proof -
  let ?ents = "sa_entities st"
  have S: "frontiers_ok ?ents (sched_frontier st)" "\<And>k. completions_distinct ?ents {a. a < length ?ents \<and> en_frontier (?ents ! a) = Some k}"
    using sib unfolding siblings_ok_def by auto
  note K = touches_kinds [OF ix t]
  have floors: "\<exists>fm. floor_of a st' = (Inr (exact_floor ?ents a), st'\<lparr>sa_frontiers := fm\<rparr>) \<and> frontiers_ok ?ents (sched_frontier (st'\<lparr>sa_frontiers := fm\<rparr>))"
    if "sa_entities st' = ?ents" "frontiers_ok ?ents (sched_frontier st')" "\<And>x. a = Some x \<Longrightarrow> en_frontier (?ents ! x) \<noteq> None" for st' a
    using floor_of_exact [of st' a] that S(2) by simp
  obtain f1 where f1: "floor_of tn st = (Inr (exact_floor ?ents tn), st\<lparr>sa_frontiers := f1\<rparr>)" "frontiers_ok ?ents (sched_frontier (st\<lparr>sa_frontiers := f1\<rparr>))"
    using floors [OF refl S(1), of tn] K(5) by blast
  obtain f2 where f2: "floor_of rs (st\<lparr>sa_frontiers := f1\<rparr>) = (Inr (exact_floor ?ents rs), st\<lparr>sa_frontiers := f2\<rparr>)"
    "frontiers_ok ?ents (sched_frontier (st\<lparr>sa_frontiers := f2\<rparr>))"
    using floors [OF _ f1(2), of rs] K(4) by auto
  obtain f3 where f3: "floor_of (Some fl) (st\<lparr>sa_frontiers := f2\<rparr>) = (Inr (exact_floor ?ents (Some fl)), st\<lparr>sa_frontiers := f3\<rparr>)"
    "frontiers_ok ?ents (sched_frontier (st\<lparr>sa_frontiers := f3\<rparr>))"
    using floors [OF _ f2(2), of "Some fl"] K(3) by auto
  let ?tf = "exact_floor ?ents tn" and ?rf = "exact_floor ?ents rs" and ?ff = "exact_floor ?ents (Some fl)" and ?s = "sa_sequence st + 1"
  define st7 where "st7 = upd_opt tn (add_grant n q ?s) (upd_opt rs (add_grant n q ?s) (upd_entity fl (add_grant n q ?s)
      ((upd_opt tn (reactivate False ?tf) (upd_opt rs (reactivate True ?rf) (upd_entity fl (reactivate True ?ff)
        (st\<lparr>sa_frontiers := f3\<rparr>))))\<lparr>sa_sequence := ?s\<rparr>)))"
  have run: "grant_section tn rs fl flow n q st = (Inr ?s, record_ordering_change (Some flow) st7)"
    using idle f1(1) f2(1) f3(1) by (auto simp: grant_section_def act_bind_def Let_def st7_def)
  have neq: "rs \<noteq> Some fl" "tn \<noteq> Some fl" "\<And>a. rs = Some a \<Longrightarrow> tn \<noteq> Some a"
    using K(2) K(4) K(5) by auto
  have seq: "sa_sequence st7 = ?s" and idx: "sched_index k st7 = sched_index k st" and frm: "sa_frontiers st7 = f3" for k
    by (simp_all add: st7_def)
  have len: "length (sa_entities st7) = length ?ents" by (simp add: st7_def upd_opt_entities split: option.splits)
  have at: "sa_entities st7 ! a = granted ?tf ?rf ?ff tn rs fl n q ?s a (?ents ! a)" if "a < length ?ents" for a
    using that neq by (cases rs; cases tn) (auto simp: st7_def upd_opt_entities granted_def nth_list_update)
  have "frontiers_ok ?ents (sched_frontier (record_ordering_change (Some flow) st7))"
    using f3(2) frontier_of_map [of "record_ordering_change (Some flow) st7" "st\<lparr>sa_frontiers := f3\<rparr>"] frm by simp
  moreover have "pushed (Some flow) st (record_ordering_change (Some flow) st7)"
    by (simp add: pushed_def record_ordering_change_def Let_def st7_def)
  ultimately show ?thesis using run seq idx len at by auto
qed

end
