(* ===== verification/SchedulingCalls.thy ===== *)
theory SchedulingCalls
  imports SchedulingProofs
begin

text \<open>
  The calls of the scheduling authority: each keeps the invariant, and what each does to the counters of
  the flow, the resource and the tenant it names.
\<close>

section \<open>The calls\<close>

definition call_coord :: "string option \<Rightarrow> string option \<Rightarrow> string \<Rightarrow> coord" where
  "call_coord t r f = (map_option py_strip t, map_option py_strip r, py_strip f)"

definition call_ok :: "string option \<Rightarrow> string option \<Rightarrow> string \<Rightarrow> bool" where
  "call_ok t r f = (nonblank f \<and> opt_nonblank t \<and> opt_nonblank r)"

lemma call_ok_coord: "call_ok t r f \<Longrightarrow> coord_ok (call_coord t r f)"
  by (auto simp: call_ok_def coord_ok_def call_coord_def nonblank_def opt_nonblank_def split: option.splits)

lemma opt_identity: "sched_opt_identity v = (if opt_nonblank v then Inr (map_option py_strip v) else Inl ValueError)"
  by (auto simp: sched_opt_identity_def sched_identity_def opt_nonblank_def split: option.splits)

lemma bind_lift: "act_bind (act_lift (Inr x)) f = f x" "act_bind (act_lift (Inl e)) f st = (Inl e, st)"
  by (simp_all add: act_bind_def act_lift_def fun_eq_iff)

text \<open>The three registrations of a grant.\<close>

lemma registers_keeps:
  assumes "registers hash kind key parent a st st'" "kind' \<in> kinds" "entity_at hash st kind' key' = Some b"
  shows "entity_at hash st' kind' key' = Some b"
proof -
  have "st' = st \<or> entity_at hash st kind key = None \<and> entity_at hash st' kind' = (if kind' = kind then (entity_at hash st kind)(key \<mapsto> a) else entity_at hash st kind')"
    using assms(1,2) unfolding registers_def by blast
  then show ?thesis using assms(3) by auto
qed

definition same_service :: "(string \<Rightarrow> 64 word) \<Rightarrow> sched \<Rightarrow> sched \<Rightarrow> bool" where
  "same_service hash st st' =
     (sa_sequence st' = sa_sequence st \<and> sa_generation st' = sa_generation st \<and> sa_changes st' = sa_changes st \<and>
      (\<forall>kind \<in> kinds. \<forall>key. level en_in_flight hash st' kind key = level en_in_flight hash st kind key \<and>
         level en_load hash st' kind key = level en_load hash st kind key \<and>
         level en_reserved hash st' kind key = level en_reserved hash st kind key) \<and>
      (\<forall>kind \<in> kinds. \<forall>key a. entity_at hash st kind key = Some a \<longrightarrow>
         entity_at hash st' kind key = Some a \<and> sa_entities st' ! a = sa_entities st ! a) \<and>
      (\<forall>kind \<in> kinds. \<forall>key a. entity_at hash st kind key = None \<longrightarrow> entity_at hash st' kind key = Some a \<longrightarrow>
         en_last_grant (sa_entities st' ! a) = -1 \<and> \<not> en_retire (sa_entities st' ! a)))"

lemma same_service_refl: "same_service hash st st" by (simp add: same_service_def)

lemma same_serviceD:
  assumes "same_service hash st st'"
  shows "sa_sequence st' = sa_sequence st" "sa_generation st' = sa_generation st" "sa_changes st' = sa_changes st"
    "kind \<in> kinds \<Longrightarrow> level en_in_flight hash st' kind key = level en_in_flight hash st kind key"
    "kind \<in> kinds \<Longrightarrow> level en_load hash st' kind key = level en_load hash st kind key"
    "kind \<in> kinds \<Longrightarrow> level en_reserved hash st' kind key = level en_reserved hash st kind key"
    "kind \<in> kinds \<Longrightarrow> entity_at hash st kind key = Some a \<Longrightarrow> entity_at hash st' kind key = Some a"
    "kind \<in> kinds \<Longrightarrow> entity_at hash st kind key = Some a \<Longrightarrow> sa_entities st' ! a = sa_entities st ! a"
    "kind \<in> kinds \<Longrightarrow> entity_at hash st kind key = None \<Longrightarrow> entity_at hash st' kind key = Some a \<Longrightarrow>
       en_last_grant (sa_entities st' ! a) = -1 \<and> \<not> en_retire (sa_entities st' ! a)"
  using assms unfolding same_service_def by blast+

lemma same_service_trans:
  assumes ab: "same_service hash a b" and bc: "same_service hash b c"
  shows "same_service hash a c"
  unfolding same_service_def
proof (intro conjI ballI allI impI)
  fix kind key x assume k: "kind \<in> kinds" "entity_at hash a kind key = Some x"
  note b = same_serviceD(7,8) [OF ab k]
  show "entity_at hash c kind key = Some x" "sa_entities c ! x = sa_entities a ! x"
    using b same_serviceD(7,8) [OF bc k(1) b(1)] by simp_all
next
  fix kind key x assume k: "kind \<in> kinds" "entity_at hash a kind key = None" "entity_at hash c kind key = Some x"
  have "en_last_grant (sa_entities c ! x) = -1 \<and> \<not> en_retire (sa_entities c ! x)"
  proof (cases "entity_at hash b kind key")
    case None
    then show ?thesis using same_serviceD(9) [OF bc k(1) _ k(3)] by blast
  next
    case (Some y)
    then show ?thesis using same_serviceD(9) [OF ab k(1,2) Some] same_serviceD(7,8) [OF bc k(1) Some] k(3) by simp
  qed
  then show "en_last_grant (sa_entities c ! x) = -1" "\<not> en_retire (sa_entities c ! x)" by simp_all
qed (use same_serviceD(1-3) [OF ab] same_serviceD(1-3) [OF bc] same_serviceD(4-6) [OF ab] same_serviceD(4-6) [OF bc] in simp_all)

lemma registers_same_service:
  assumes ix: "indexes_ok hash st" and reg: "registers hash kind key parent a st st'" and kind: "kind \<in> kinds"
  shows "same_service hash st st'"
proof (cases "entity_at hash st kind key")
  case (Some b)
  then show ?thesis using reg same_service_refl by (auto simp: registers_def)
next
  case None
  have lev: "level m hash st' kind' key' = level m hash st kind' key'" if "kind' \<in> kinds" "m \<in> {en_in_flight, en_load, en_reserved}" for m kind' key'
    by (rule registers_level [where m = m, OF ix reg that(1)]) (use that(2) in \<open>auto simp: new_entity_def en_load_def\<close>)
  have e: "sa_entities st' = sa_entities st @ [(new_entity parent)\<lparr>en_frontier := Some (kind, parent)\<rparr>]"
    "sa_sequence st' = sa_sequence st" "sa_generation st' = sa_generation st" "sa_changes st' = sa_changes st"
    using reg None unfolding registers_def by auto
  have old: "sa_entities st' ! b = sa_entities st ! b" if "kind' \<in> kinds" "entity_at hash st kind' key' = Some b" for kind' key' b
    using indexes_okD(2) [OF ix that] e(1) by (simp add: nth_append)
  have fresh: "en_last_grant (sa_entities st' ! b) = -1 \<and> \<not> en_retire (sa_entities st' ! b)"
    if "kind' \<in> kinds" "entity_at hash st kind' key' = None" "entity_at hash st' kind' key' = Some b" for kind' key' b
    using registers_new [OF reg None that(1,3) ix] that(2) e(1) by (auto simp: new_entity_def)
  show ?thesis
    unfolding same_service_def using e lev old fresh registers_keeps [OF reg] by simp
qed

lemma grant_registers:
  assumes inv: "sched_inv hash st" and ok: "coord_ok c" and c: "c = (tenant, resource, flow)"
  shows "\<exists>fl rs tn st3. act_bind (sched_entity hash ''flow'' (flow_key tenant resource flow) (flow_parent tenant resource)) (\<lambda>flow_state.
      act_bind (opt_entity hash ''resource'' (resource_key tenant resource) (resource_parent tenant)) (\<lambda>resource_state.
      act_bind (opt_entity hash ''tenant'' tenant []) (\<lambda>tenant_state. k tenant_state resource_state flow_state))) st = k tn rs fl st3 \<and>
    sched_inv hash st3 \<and> touches hash st3 c fl rs tn \<and> same_service hash st st3"
proof -
  have fkey: "flow_key tenant resource flow = ckey c" using c by (simp add: ckey_def)
  have own1: "owner_ok ''flow'' (ckey c) (flow_parent tenant resource)" using ok c unfolding owner_ok_def by force
  note I1 = inv [unfolded sched_inv_def, THEN conjunct1]
  obtain fl st1 where r1: "sched_entity hash ''flow'' (ckey c) (flow_parent tenant resource) st = (Inr fl, st1)"
    "registers hash ''flow'' (ckey c) (flow_parent tenant resource) fl st st1"
    using sched_entity_registers [OF I1 owner_ok_kind [OF own1]] owner_ok_parent [OF I1 own1] by blast
  note inv1 = registers_inv [OF inv r1(2) own1]
  note I2 = inv1 [unfolded sched_inv_def, THEN conjunct1]
  have fl1: "entity_at hash st1 ''flow'' (ckey c) = Some fl" by (rule registers_cases [OF r1(2)]) simp
  have s1: "same_service hash st st1" by (rule registers_same_service [OF I1 r1(2)]) simp
  have "\<exists>rs st2. opt_entity hash ''resource'' (resource_key tenant resource) (resource_parent tenant) st1 = (Inr rs, st2) \<and>
      sched_inv hash st2 \<and> same_service hash st1 st2 \<and> entity_at hash st2 ''flow'' (ckey c) = Some fl \<and>
      (case resource of None \<Rightarrow> rs = None | Some r \<Rightarrow> rs \<noteq> None \<and> entity_at hash st2 ''resource'' (the (resource_key tenant (Some r))) = rs)"
  proof (cases resource)
    case None
    then show ?thesis using inv1 fl1 same_service_refl by (simp add: opt_entity_def resource_key_def act_lift_def)
  next
    case (Some r)
    have own: "owner_ok ''resource'' (the (resource_key tenant (Some r))) (resource_parent tenant)"
      using ok c unfolding owner_ok_def coord_ok_def by auto
    obtain a st2 where r2: "sched_entity hash ''resource'' (the (resource_key tenant (Some r))) (resource_parent tenant) st1 = (Inr a, st2)"
      "registers hash ''resource'' (the (resource_key tenant (Some r))) (resource_parent tenant) a st1 st2"
      using sched_entity_registers [OF I2 owner_ok_kind [OF own]] owner_ok_parent [OF I2 own] by blast
    have "resource_key tenant resource = Some (the (resource_key tenant (Some r)))" using Some by (simp add: resource_key_def)
    then have "opt_entity hash ''resource'' (resource_key tenant resource) (resource_parent tenant) st1 = (Inr (Some a), st2)"
      using r2(1) by (simp add: opt_entity_def act_bind_def act_lift_def)
    moreover have "sched_inv hash st2" by (rule registers_inv [OF inv1 r2(2) own])
    moreover have "same_service hash st1 st2" by (rule registers_same_service [OF I2 r2(2)]) simp
    moreover have "entity_at hash st2 ''flow'' (ckey c) = Some fl" by (rule registers_keeps [OF r2(2) _ fl1]) simp
    moreover have "entity_at hash st2 ''resource'' (the (resource_key tenant (Some r))) = Some a" by (rule registers_cases [OF r2(2)]) simp
    ultimately show ?thesis using Some by auto
  qed
  then obtain rs st2 where r2: "opt_entity hash ''resource'' (resource_key tenant resource) (resource_parent tenant) st1 = (Inr rs, st2)"
    "sched_inv hash st2" "same_service hash st1 st2" "entity_at hash st2 ''flow'' (ckey c) = Some fl"
    "case resource of None \<Rightarrow> rs = None | Some r \<Rightarrow> rs \<noteq> None \<and> entity_at hash st2 ''resource'' (the (resource_key tenant (Some r))) = rs" by blast
  note I3 = r2(2) [unfolded sched_inv_def, THEN conjunct1]
  have "\<exists>tn st3. opt_entity hash ''tenant'' tenant [] st2 = (Inr tn, st3) \<and> sched_inv hash st3 \<and> same_service hash st2 st3 \<and>
      (\<forall>kind key b. kind \<in> {''flow'', ''resource''} \<longrightarrow> entity_at hash st2 kind key = Some b \<longrightarrow> entity_at hash st3 kind key = Some b) \<and>
      (case tenant of None \<Rightarrow> tn = None | Some t \<Rightarrow> tn \<noteq> None \<and> entity_at hash st3 ''tenant'' t = tn)"
  proof (cases tenant)
    case None
    then show ?thesis using r2(2) same_service_refl by (simp add: opt_entity_def act_lift_def)
  next
    case (Some t)
    have own: "owner_ok ''tenant'' t []" by (simp add: owner_ok_def)
    obtain a st3 where r3: "sched_entity hash ''tenant'' t [] st2 = (Inr a, st3)" "registers hash ''tenant'' t [] a st2 st3"
      using sched_entity_registers [OF I3 owner_ok_kind [OF own]] owner_ok_parent [OF I3 own] by blast
    have "opt_entity hash ''tenant'' tenant [] st2 = (Inr (Some a), st3)" using r3(1) Some by (simp add: opt_entity_def act_bind_def act_lift_def)
    moreover have "sched_inv hash st3" by (rule registers_inv [OF r2(2) r3(2) own])
    moreover have "same_service hash st2 st3" by (rule registers_same_service [OF I3 r3(2)]) simp
    moreover have "entity_at hash st3 ''tenant'' t = Some a" by (rule registers_cases [OF r3(2)]) simp
    moreover have "entity_at hash st3 kind key = Some b" if "kind \<in> {''flow'', ''resource''}" "entity_at hash st2 kind key = Some b" for kind key b
      by (rule registers_keeps [OF r3(2) _ that(2)]) (use that(1) in auto)
    ultimately show ?thesis using Some by auto
  qed
  then obtain tn st3 where r3: "opt_entity hash ''tenant'' tenant [] st2 = (Inr tn, st3)" "sched_inv hash st3" "same_service hash st2 st3"
    "\<And>kind key b. kind \<in> {''flow'', ''resource''} \<Longrightarrow> entity_at hash st2 kind key = Some b \<Longrightarrow> entity_at hash st3 kind key = Some b"
    "case tenant of None \<Rightarrow> tn = None | Some t \<Rightarrow> tn \<noteq> None \<and> entity_at hash st3 ''tenant'' t = tn" by blast
  have "touches hash st3 c fl rs tn"
    unfolding touches_def using ok c r2(4,5) r3(4) [of "''flow''"] r3(4) [of "''resource''"] r3(5) by (auto split: option.splits)
  moreover have "same_service hash st st3" using s1 r2(3) r3(3) same_service_trans by blast
  moreover have "act_bind (sched_entity hash ''flow'' (flow_key tenant resource flow) (flow_parent tenant resource)) (\<lambda>flow_state.
      act_bind (opt_entity hash ''resource'' (resource_key tenant resource) (resource_parent tenant)) (\<lambda>resource_state.
      act_bind (opt_entity hash ''tenant'' tenant []) (\<lambda>tenant_state. k tenant_state resource_state flow_state))) st = k tn rs fl st3"
    using r1(1) r2(1) r3(1) fkey by (simp add: act_bind_def)
  ultimately show ?thesis using r3(2) by blast
qed

subsection \<open>Grants\<close>

lemma granted_keep [simp]:
  "en_frontier (granted tf rf ff tn rs fl n q s a e) = en_frontier e" "en_parent (granted tf rf ff tn rs fl n q s a e) = en_parent e"
  "en_last_completion (granted tf rf ff tn rs fl n q s a e) = en_last_completion e"
  by (simp_all add: granted_def add_grant_def reactivate_def Let_def)

lemma granted_touched:
  assumes "a \<in> set (lock_states tn rs fl)"
  shows "en_in_flight (granted tf rf ff tn rs fl n q s a e) = en_in_flight e + n"
    "en_reserved (granted tf rf ff tn rs fl n q s a e) = en_reserved e + q" "en_last_grant (granted tf rf ff tn rs fl n q s a e) = s"
    "en_service e \<le> en_service (granted tf rf ff tn rs fl n q s a e)"
  using assms by (auto simp: lock_states_set granted_def add_grant_def reactivate_def Let_def)

lemma granted_other: "a \<notin> set (lock_states tn rs fl) \<Longrightarrow> granted tf rf ff tn rs fl n q s a e = e"
  by (auto simp: lock_states_set granted_def)

lemma grant_core:
  assumes inv: "sched_inv hash st" and t: "touches hash st c fl rs tn" and n: "0 < n" "0 \<le> q"
    and idle: "\<not> (en_retire (sa_entities st ! fl) \<and> en_in_flight (sa_entities st ! fl) \<noteq> 0)"
  shows "\<exists>st'. with_publish (lock_states tn rs fl) (grant_section tn rs fl flow n q) st = (Inr (sa_sequence st + 1), st') \<and> sched_inv hash st' \<and>
    sa_sequence st' = sa_sequence st + 1 \<and> entity_at hash st' = entity_at hash st \<and> length (sa_entities st') = length (sa_entities st) \<and>
    (\<forall>a < length (sa_entities st). sa_entities st' ! a = granted (exact_floor (sa_entities st) tn) (exact_floor (sa_entities st) rs)
       (exact_floor (sa_entities st) (Some fl)) tn rs fl n q (sa_sequence st + 1) a (sa_entities st ! a)) \<and> pushed (Some flow) st st'"
proof -
  have I: "indexes_ok hash st" "siblings_ok st" using inv by (simp_all add: sched_inv_def)
  obtain st1 where st1: "grant_section tn rs fl flow n q st = (Inr (sa_sequence st + 1), st1)" "sa_sequence st1 = sa_sequence st + 1"
    "\<And>k. sched_index k st1 = sched_index k st" "length (sa_entities st1) = length (sa_entities st)"
    "\<And>a. a < length (sa_entities st) \<Longrightarrow> sa_entities st1 ! a = granted (exact_floor (sa_entities st) tn) (exact_floor (sa_entities st) rs)
       (exact_floor (sa_entities st) (Some fl)) tn rs fl n q (sa_sequence st + 1) a (sa_entities st ! a)"
    "frontiers_ok (sa_entities st) (sched_frontier st1)" "pushed (Some flow) st st1"
    using grant_section_runs [OF I t idle] by blast
  have lt: "a < length (sa_entities st)" if "a \<in> set (lock_states tn rs fl)" for a using touches_frontiers(2) [OF I(1) t] that by blast
  have bnd: "entity_bounds (sa_sequence st) (sa_entities st ! a)" if "a < length (sa_entities st)" for a
    using I(2) that by (simp add: siblings_ok_def)
  have "\<exists>fm. with_publish (lock_states tn rs fl) (grant_section tn rs fl flow n q) st = (Inr (sa_sequence st + 1), st1\<lparr>sa_frontiers := fm\<rparr>) \<and>
      sched_inv hash (st1\<lparr>sa_frontiers := fm\<rparr>)"
  proof (rule touch_inv [where d = n and d' = q and fin = False and body = "grant_section tn rs fl flow n q", OF inv t st1(1) st1(3,4) _ _ _ st1(6)])
    fix a assume a: "a \<in> set (lock_states tn rs fl)"
    note g = granted_touched [OF a]
    show "en_in_flight (sa_entities st1 ! a) = en_in_flight (sa_entities st ! a) + n \<and> en_reserved (sa_entities st1 ! a) = en_reserved (sa_entities st ! a) + q"
      using st1(5) [OF lt [OF a]] g by simp
    show "entity_bounds (sa_sequence st1) (sa_entities st1 ! a)"
      using st1(2) st1(5) [OF lt [OF a]] g(1-3) g(4) [where tf = "exact_floor (sa_entities st) tn" and rf = "exact_floor (sa_entities st) rs"
          and ff = "exact_floor (sa_entities st) (Some fl)" and n = n and q = q and s = "sa_sequence st + 1" and e = "sa_entities st ! a"] bnd [OF lt [OF a]] n I(2)
      by (simp add: entity_bounds_def siblings_ok_def)
    show "en_last_completion (sa_entities st1 ! a) =
        (if sa_sequence st < sa_sequence st1 \<and> False then sa_sequence st1 else en_last_completion (sa_entities st ! a))"
      using st1(5) [OF lt [OF a]] by simp
  qed (use st1(2,5) granted_other in simp_all)
  then obtain fm where fm: "with_publish (lock_states tn rs fl) (grant_section tn rs fl flow n q) st = (Inr (sa_sequence st + 1), st1\<lparr>sa_frontiers := fm\<rparr>)"
    "sched_inv hash (st1\<lparr>sa_frontiers := fm\<rparr>)" by blast
  have "entity_at hash (st1\<lparr>sa_frontiers := fm\<rparr>) = entity_at hash st" by (simp add: entity_at_def fun_eq_iff st1(3))
  then show ?thesis using fm st1(2,4,5,7) by (intro exI [of _ "st1\<lparr>sa_frontiers := fm\<rparr>"]) (simp add: pushed_def)
qed

lemma grant_refused:
  assumes inv: "sched_inv hash st" and t: "touches hash st c fl rs tn"
    and busy: "en_retire (sa_entities st ! fl)" "en_in_flight (sa_entities st ! fl) \<noteq> 0"
  shows "\<exists>fm. with_publish (lock_states tn rs fl) (grant_section tn rs fl flow n q) st = (Inl RuntimeError, st\<lparr>sa_frontiers := fm\<rparr>) \<and>
    sched_inv hash (st\<lparr>sa_frontiers := fm\<rparr>)"
proof (rule touch_inv [where d = 0 and d' = 0 and fin = False, OF inv t])
  have I: "indexes_ok hash st" "siblings_ok st" using inv by (simp_all add: sched_inv_def)
  show "grant_section tn rs fl flow n q st = (Inl RuntimeError, st)" using busy by (simp add: grant_section_def)
  show "frontiers_ok (sa_entities st) (sched_frontier st)" using I(2) by (simp add: siblings_ok_def)
  fix a assume "a \<in> set (lock_states tn rs fl)"
  then have "a < length (sa_entities st)" using touches_frontiers(2) [OF I(1) t] by blast
  then show "entity_bounds (sa_sequence st) (sa_entities st ! a)" using I(2) by (simp add: siblings_ok_def)
qed simp_all

lemma record_grant_valid:
  assumes ok: "call_ok t r f" and n: "0 < n" "0 \<le> q"
  shows "record_grant hash t r f n q =
    act_bind (sched_entity hash ''flow'' (flow_key (map_option py_strip t) (map_option py_strip r) (py_strip f)) (flow_parent (map_option py_strip t) (map_option py_strip r))) (\<lambda>flow_state.
     act_bind (opt_entity hash ''resource'' (resource_key (map_option py_strip t) (map_option py_strip r)) (resource_parent (map_option py_strip t))) (\<lambda>resource_state.
     act_bind (opt_entity hash ''tenant'' (map_option py_strip t) []) (\<lambda>tenant_state.
     with_publish (lock_states tenant_state resource_state flow_state) (grant_section tenant_state resource_state flow_state (py_strip f) n q))))"
  using assms by (simp add: record_grant_def sched_identity_def sched_permit_count_def sched_quanta_def opt_identity call_ok_def bind_lift)

lemma record_grant_invalid:
  assumes "\<not> (call_ok t r f \<and> 0 < n \<and> 0 \<le> q)"
  shows "record_grant hash t r f n q st = (Inl ValueError, st)"
  using assms by (auto simp: record_grant_def sched_identity_def sched_permit_count_def sched_quanta_def opt_identity call_ok_def bind_lift not_less)

text \<open>
  A grant to a registered flow: each level that was idle first catches up with the exact floor of its
  siblings, then all levels take the permits and the reservation; nothing else changes.
\<close>

lemma entity_known:
  assumes "index_get hash (sched_index kind st) key = Some a" "en_parent (sa_entities st ! a) = parent" "kind \<in> kinds"
  shows "sched_entity hash kind key parent st = (Inr a, st)"
  using assms by (simp add: sched_entity_def)

lemma touched_known:
  assumes ix: "indexes_ok hash st" and t: "touches hash st (tenant, resource, flow) fl rs tn"
  shows "sched_entity hash ''flow'' (flow_key tenant resource flow) (flow_parent tenant resource) st = (Inr fl, st)"
    "opt_entity hash ''resource'' (resource_key tenant resource) (resource_parent tenant) st = (Inr rs, st)"
    "opt_entity hash ''tenant'' tenant [] st = (Inr tn, st)"
proof -
  have c: "coord_ok (tenant, resource, flow)" using t by (simp add: touches_def)
  have T: "entity_at hash st ''flow'' (flow_key tenant resource flow) = Some fl"
    "case resource of None \<Rightarrow> rs = None | Some x \<Rightarrow> rs \<noteq> None \<and> entity_at hash st ''resource'' (the (resource_key tenant (Some x))) = rs"
    "case tenant of None \<Rightarrow> tn = None | Some x \<Rightarrow> tn \<noteq> None \<and> entity_at hash st ''tenant'' x = tn"
    using t unfolding touches_def ckey_def fst_conv snd_conv by blast+
  show "sched_entity hash ''flow'' (flow_key tenant resource flow) (flow_parent tenant resource) st = (Inr fl, st)"
    using entity_known [of hash "''flow''" st] T(1) indexes_okD(5) [OF ix c] by (simp add: entity_at_def ckey_def)
  show "opt_entity hash ''resource'' (resource_key tenant resource) (resource_parent tenant) st = (Inr rs, st)"
  proof (cases resource)
    case None
    then show ?thesis using T(2) by (simp add: opt_entity_def resource_key_def act_lift_def)
  next
    case (Some x)
    then obtain a where a: "rs = Some a" "entity_at hash st ''resource'' (the (resource_key tenant (Some x))) = Some a" using T(2) by auto
    then have "sched_entity hash ''resource'' (the (resource_key tenant (Some x))) (resource_parent tenant) st = (Inr a, st)"
      using entity_known [of hash "''resource''" st] indexes_okD(6) [OF ix _ a(2)] c by (simp add: entity_at_def coord_ok_def)
    then show ?thesis using Some a(1) by (simp add: opt_entity_def resource_key_def act_bind_def act_lift_def)
  qed
  show "opt_entity hash ''tenant'' tenant [] st = (Inr tn, st)"
  proof (cases tenant)
    case None
    then show ?thesis using T(3) by (simp add: opt_entity_def act_lift_def)
  next
    case (Some x)
    then obtain a where a: "tn = Some a" "entity_at hash st ''tenant'' x = Some a" using T(3) by auto
    then have "sched_entity hash ''tenant'' x [] st = (Inr a, st)"
      using entity_known [of hash "''tenant''" st] indexes_okD(7) [OF ix a(2)] by (simp add: entity_at_def)
    then show ?thesis using Some a(1) by (simp add: opt_entity_def act_bind_def act_lift_def)
  qed
qed

lemma record_grant_known:
  assumes inv: "sched_inv hash st" and ok: "call_ok t r f" "0 < n" "0 \<le> q"
    and t: "touches hash st (call_coord t r f) fl rs tn"
  shows "record_grant hash t r f n q st = with_publish (lock_states tn rs fl) (grant_section tn rs fl (py_strip f) n q) st"
proof -
  have ix: "indexes_ok hash st" using inv by (simp add: sched_inv_def)
  note K = touched_known [OF ix t [unfolded call_coord_def]]
  show ?thesis unfolding record_grant_valid [OF ok] act_bind_def by (simp add: K)
qed

text \<open>
  What a reader of the change journal may conclude: either nothing was recorded and no flow changed, or
  the one recorded flow is the only one that changed.
\<close>

definition flow_view :: "(string \<Rightarrow> 64 word) \<Rightarrow> sched \<Rightarrow> coord \<Rightarrow> int \<times> int \<times> int" where
  "flow_view hash st c = (case entity_at hash st ''flow'' (ckey c) of None \<Rightarrow> (0, 0, -1)
     | Some a \<Rightarrow> (let e = sa_entities st ! a in (en_in_flight e, en_service e + en_reserved e, en_last_grant e)))"

definition journal_step :: "(string \<Rightarrow> 64 word) \<Rightarrow> coord \<Rightarrow> sched \<Rightarrow> sched \<Rightarrow> bool" where
  "journal_step hash c st st' =
     (sa_generation st' = sa_generation st \<and> sa_changes st' = sa_changes st \<and> (\<forall>d. coord_ok d \<longrightarrow> flow_view hash st' d = flow_view hash st d) \<or>
      pushed (Some (snd (snd c))) st st' \<and> (\<forall>d. coord_ok d \<longrightarrow> d \<noteq> c \<longrightarrow> flow_view hash st' d = flow_view hash st d))"

lemma same_service_view:
  assumes "same_service hash st st'"
  shows "flow_view hash st' d = flow_view hash st d"
proof (cases "entity_at hash st ''flow'' (ckey d)")
  case (Some a)
  then show ?thesis using same_serviceD(7,8) [OF assms _ Some] by (simp add: flow_view_def)
next
  case None
  show ?thesis
  proof (cases "entity_at hash st' ''flow'' (ckey d)")
    case (Some a)
    then show ?thesis
      using None same_serviceD(9) [OF assms _ None Some] same_serviceD(4) [OF assms, of "''flow''" "ckey d"] same_serviceD(5) [OF assms, of "''flow''" "ckey d"]
      by (simp add: flow_view_def level_def en_load_def)
  qed (use None in \<open>simp add: flow_view_def\<close>)
qed

lemma untouched_view:
  assumes ix: "indexes_ok hash st" and t: "touches hash st c fl rs tn" and at: "entity_at hash st' = entity_at hash st"
    and same: "\<And>b. b < length (sa_entities st) \<Longrightarrow> b \<notin> set (lock_states tn rs fl) \<Longrightarrow> sa_entities st' ! b = sa_entities st ! b"
    and d: "coord_ok d" "d \<noteq> c"
  shows "flow_view hash st' d = flow_view hash st d"
proof (cases "entity_at hash st ''flow'' (ckey d)")
  case (Some b)
  have "ckey d \<noteq> ckey c" using ckey_inj [of d c] d t by (auto simp: touches_def)
  then have "b \<notin> set (lock_states tn rs fl)" using touches_at [OF ix t _ Some] by simp
  then have "sa_entities st' ! b = sa_entities st ! b" using same indexes_okD(2) [OF ix _ Some] by simp
  then show ?thesis using Some at by (simp add: flow_view_def)
qed (simp add: flow_view_def at)

lemma frontiers_view [simp]: "flow_view hash (st\<lparr>sa_frontiers := fm\<rparr>) = flow_view hash st"
  by (rule ext) (simp add: flow_view_def entity_at_def split: option.split)

text \<open>A grant is refused only for bad arguments or a flow that is retiring with permits out.\<close>

definition retiring :: "(string \<Rightarrow> 64 word) \<Rightarrow> sched \<Rightarrow> coord \<Rightarrow> bool" where
  "retiring hash st c = (case entity_at hash st ''flow'' (ckey c) of None \<Rightarrow> False
     | Some a \<Rightarrow> en_retire (sa_entities st ! a) \<and> en_in_flight (sa_entities st ! a) \<noteq> 0)"

lemma record_grant_outcome:
  assumes inv: "sched_inv hash st" and ok: "call_ok t r f" "0 < n" "0 \<le> q"
  shows "\<exists>st'. record_grant hash t r f n q st = ((if retiring hash st (call_coord t r f) then Inl RuntimeError else Inr (sa_sequence st + 1)), st') \<and>
    sched_inv hash st' \<and> journal_step hash (call_coord t r f) st st' \<and>
    (\<not> retiring hash st (call_coord t r f) \<longrightarrow>
      level en_in_flight hash st' ''flow'' (ckey (call_coord t r f)) = level en_in_flight hash st ''flow'' (ckey (call_coord t r f)) + n \<and>
      level en_reserved hash st' ''flow'' (ckey (call_coord t r f)) = level en_reserved hash st ''flow'' (ckey (call_coord t r f)) + q \<and>
      \<not> retiring hash st' (call_coord t r f) \<and> (\<exists>fl rs tn. touches hash st' (call_coord t r f) fl rs tn))"
proof -
  let ?c = "call_coord t r f"
  obtain fl rs tn st3 where reg: "record_grant hash t r f n q st =
      with_publish (lock_states tn rs fl) (grant_section tn rs fl (py_strip f) n q) st3"
    "sched_inv hash st3" "touches hash st3 ?c fl rs tn" "same_service hash st st3"
    unfolding record_grant_valid [OF ok]
    using grant_registers [OF inv call_ok_coord [OF ok(1)] call_coord_def,
        of "\<lambda>tn rs fl. with_publish (lock_states tn rs fl) (grant_section tn rs fl (py_strip f) n q)"] by blast
  have fl: "entity_at hash st3 ''flow'' (ckey ?c) = Some fl" using reg(3) by (simp add: touches_def)
  have ret: "retiring hash st ?c \<longleftrightarrow> en_retire (sa_entities st3 ! fl) \<and> en_in_flight (sa_entities st3 ! fl) \<noteq> 0"
  proof (cases "entity_at hash st ''flow'' (ckey ?c)")
    case None
    then show ?thesis using same_serviceD(9) [OF reg(4) _ None fl] by (simp add: retiring_def)
  next
    case (Some a)
    then show ?thesis using same_serviceD(7,8) [OF reg(4) _ Some] fl by (simp add: retiring_def)
  qed
  show ?thesis
  proof (cases "retiring hash st ?c")
    case True
    then obtain fm where "record_grant hash t r f n q st = (Inl RuntimeError, st3\<lparr>sa_frontiers := fm\<rparr>)" "sched_inv hash (st3\<lparr>sa_frontiers := fm\<rparr>)"
      using grant_refused [OF reg(2,3), of "py_strip f" n q] ret reg(1) by auto
    then show ?thesis using True same_service_view [OF reg(4)] same_serviceD(2,3) [OF reg(4)] by (auto simp: journal_step_def)
  next
    case False
    then obtain st' where st': "record_grant hash t r f n q st = (Inr (sa_sequence st + 1), st')" "sched_inv hash st'"
      "entity_at hash st' = entity_at hash st3" "pushed (Some (py_strip f)) st3 st'"
      "\<And>a. a < length (sa_entities st3) \<Longrightarrow> sa_entities st' ! a = granted (exact_floor (sa_entities st3) tn) (exact_floor (sa_entities st3) rs)
       (exact_floor (sa_entities st3) (Some fl)) tn rs fl n q (sa_sequence st3 + 1) a (sa_entities st3 ! a)"
      using grant_core [OF reg(2,3) ok(2,3), of "py_strip f"] ret reg(1) same_serviceD(1) [OF reg(4)] by auto
    have ix: "indexes_ok hash st3" using reg(2) by (simp add: sched_inv_def)
    have "flow_view hash st' d = flow_view hash st d" if "coord_ok d" "d \<noteq> ?c" for d
      using untouched_view [OF ix reg(3) st'(3) _ that] st'(5) granted_other same_service_view [OF reg(4)] by simp
    moreover have "pushed (Some (snd (snd ?c))) st st'" using st'(4) same_serviceD(2,3) [OF reg(4)] by (simp add: pushed_def call_coord_def)
    ultimately have j: "journal_step hash ?c st st'" by (simp add: journal_step_def)
    have mine: "fl \<in> set (lock_states tn rs fl)" "fl < length (sa_entities st3)" using indexes_okD(2) [OF ix _ fl] by (simp_all add: lock_states_set)
    note g = st'(5) [OF mine(2)]
    have eff: "level en_in_flight hash st' ''flow'' (ckey ?c) = level en_in_flight hash st ''flow'' (ckey ?c) + n"
      "level en_reserved hash st' ''flow'' (ckey ?c) = level en_reserved hash st ''flow'' (ckey ?c) + q"
      using same_serviceD(4,6) [OF reg(4), of "''flow''" "ckey ?c"] fl g granted_touched(1,2) [OF mine(1)] by (simp_all add: level_def st'(3))
    have "\<not> retiring hash st' ?c"
      using False ret fl g by (auto simp: retiring_def st'(3) granted_def add_grant_def reactivate_def Let_def)
    moreover have "touches hash st' ?c fl rs tn" using reg(3) unfolding touches_def st'(3) .
    ultimately have "\<not> retiring hash st' ?c \<and> (\<exists>fl rs tn. touches hash st' ?c fl rs tn)" by blast
    then show ?thesis using st'(1,2) False j eff by auto
  qed
qed

lemma touches_distinct:
  assumes "indexes_ok hash st" "touches hash st c fl rs tn"
  shows "rs \<noteq> Some fl" "tn \<noteq> Some fl" "rs = Some a \<Longrightarrow> tn \<noteq> Some a"
  using touches_frontiers [OF assms] by (auto simp: lock_states_def split: option.splits)

lemma grant_registered:
  assumes inv: "sched_inv hash st" and ok: "call_ok t r f" "0 < n" "0 \<le> q"
    and t: "touches hash st (call_coord t r f) fl rs tn" and act: "\<not> retiring hash st (call_coord t r f)"
  shows "\<exists>st'. record_grant hash t r f n q st = (Inr (sa_sequence st + 1), st') \<and>
    sa_entities st' ! fl = add_grant n q (sa_sequence st + 1) (reactivate True (exact_floor (sa_entities st) (Some fl)) (sa_entities st ! fl)) \<and>
    (\<forall>a. rs = Some a \<longrightarrow> sa_entities st' ! a = add_grant n q (sa_sequence st + 1) (reactivate True (exact_floor (sa_entities st) rs) (sa_entities st ! a))) \<and>
    (\<forall>a. tn = Some a \<longrightarrow> sa_entities st' ! a = add_grant n q (sa_sequence st + 1) (reactivate False (exact_floor (sa_entities st) tn) (sa_entities st ! a))) \<and>
    (\<forall>a < length (sa_entities st). a \<noteq> fl \<longrightarrow> rs \<noteq> Some a \<longrightarrow> tn \<noteq> Some a \<longrightarrow> sa_entities st' ! a = sa_entities st ! a)"
proof -
  have ix: "indexes_ok hash st" using inv by (simp add: sched_inv_def)
  have "\<not> (en_retire (sa_entities st ! fl) \<and> en_in_flight (sa_entities st ! fl) \<noteq> 0)" using act t by (simp add: retiring_def touches_def)
  from grant_core [OF inv t ok(2,3) this, of "py_strip f"] obtain st' where st': "record_grant hash t r f n q st = (Inr (sa_sequence st + 1), st')"
    "\<And>a. a < length (sa_entities st) \<Longrightarrow> sa_entities st' ! a = granted (exact_floor (sa_entities st) tn) (exact_floor (sa_entities st) rs)
       (exact_floor (sa_entities st) (Some fl)) tn rs fl n q (sa_sequence st + 1) a (sa_entities st ! a)"
    using record_grant_known [OF inv ok t] by auto
  note K = touches_distinct [OF ix t]
  have lt: "a < length (sa_entities st)" if "a \<in> set (lock_states tn rs fl)" for a using touches_frontiers(2) [OF ix t] that by blast
  show ?thesis
    using st'(1) st'(2) [OF lt] st'(2) granted_other K
    by (intro exI [of _ st'] conjI allI impI) (auto simp: lock_states_set granted_def)
qed

subsection \<open>Rollbacks and completions\<close>

lemma level_nonneg:
  assumes inv: "sched_inv hash st" and kind: "kind \<in> kinds" and m: "m \<in> {en_in_flight, en_reserved}"
  shows "0 \<le> level m hash st kind key"
proof (cases "entity_at hash st kind key")
  case (Some a)
  have "indexes_ok hash st" "siblings_ok st" using inv by (simp_all add: sched_inv_def)
  then have "entity_bounds (sa_sequence st) (sa_entities st ! a)"
    using indexes_okD(2) [OF _ kind Some] by (simp add: siblings_ok_def)
  then show ?thesis using Some m by (auto simp: level_def entity_bounds_def)
qed (simp add: level_def)

lemma flow_below_total:
  assumes inv: "sched_inv hash st" and c: "coord_ok c" "P c" and m: "m \<in> {en_in_flight, en_reserved}"
  shows "level m hash st ''flow'' (ckey c) \<le> flow_total m hash st P"
proof (cases "c \<in> coords hash st")
  case True
  have "finite {c \<in> coords hash st. P c}" using inv finite_coords by (simp add: sched_inv_def)
  then show ?thesis unfolding flow_total_def
    by (rule member_le_sum [rotated 2]) (use True c level_nonneg [OF inv _ m] in auto)
next
  case False
  then have "level m hash st ''flow'' (ckey c) = 0" using c by (simp add: coords_def level_def)
  moreover have "0 \<le> flow_total m hash st P" unfolding flow_total_def by (rule sum_nonneg) (use level_nonneg [OF inv _ m] in simp)
  ultimately show ?thesis by simp
qed

text \<open>A flow never holds more than its tenant and its resource.\<close>

lemma flow_below_parents:
  assumes inv: "sched_inv hash st" and c: "coord_ok c" and m: "m \<in> {en_in_flight, en_reserved}"
  shows "fst c = Some t \<Longrightarrow> level m hash st ''flow'' (ckey c) \<le> level m hash st ''tenant'' t"
    "fst (snd c) = Some r \<Longrightarrow> level m hash st ''flow'' (ckey c) \<le> level m hash st ''resource'' (the (resource_key (fst c) (Some r)))"
proof -
  have con: "conserved m hash st" using inv m by (auto simp: sched_inv_def)
  show "level m hash st ''flow'' (ckey c) \<le> level m hash st ''tenant'' t" if "fst c = Some t"
  proof -
    have "t \<noteq> []" using c that by (auto simp: coord_ok_def)
    then have "level m hash st ''tenant'' t = flow_total m hash st (\<lambda>c. fst c = Some t)" using con by (simp add: conserved_def)
    then show ?thesis using flow_below_total [OF inv c _ m, of "\<lambda>c. fst c = Some t"] that by simp
  qed
  show "level m hash st ''flow'' (ckey c) \<le> level m hash st ''resource'' (the (resource_key (fst c) (Some r)))" if "fst (snd c) = Some r"
  proof -
    have "fst c \<noteq> Some []" "r \<noteq> []" using c that by (auto simp: coord_ok_def)
    then have "level m hash st ''resource'' (the (resource_key (fst c) (Some r))) = flow_total m hash st (\<lambda>d. fst d = fst c \<and> fst (snd d) = Some r)"
      using con by (simp add: conserved_def)
    then show ?thesis using flow_below_total [OF inv c _ m, of "\<lambda>d. fst d = fst c \<and> fst (snd d) = Some r"] that by simp
  qed
qed

lemma fold_upd:
  assumes "distinct states" "\<forall>a \<in> set states. a < length (sa_entities st)"
  shows "length (sa_entities (fold (\<lambda>a. upd_entity a g) states st)) = length (sa_entities st)"
    "b < length (sa_entities st) \<Longrightarrow> sa_entities (fold (\<lambda>a. upd_entity a g) states st) ! b = (if b \<in> set states then g (sa_entities st ! b) else sa_entities st ! b)"
    "sched_index k (fold (\<lambda>a. upd_entity a g) states st) = sched_index k st" "sa_sequence (fold (\<lambda>a. upd_entity a g) states st) = sa_sequence st"
    "sa_frontiers (fold (\<lambda>a. upd_entity a g) states st) = sa_frontiers st"
  using assms by (induction states arbitrary: st) (auto simp: nth_list_update)

lemma fold_upd_journal:
  "sa_generation (fold (\<lambda>a. upd_entity a g) states st) = sa_generation st" "sa_changes (fold (\<lambda>a. upd_entity a g) states st) = sa_changes st"
  by (induction states arbitrary: st) auto

text \<open>The permits a flow has out, which is all that a rollback or a completion depends on.\<close>

definition covered :: "(string \<Rightarrow> 64 word) \<Rightarrow> sched \<Rightarrow> coord \<Rightarrow> int \<Rightarrow> int \<Rightarrow> bool" where
  "covered hash st c n q = (n \<le> level en_in_flight hash st ''flow'' (ckey c) \<and> q \<le> level en_reserved hash st ''flow'' (ckey c))"

lemma underflow_iff:
  assumes inv: "sched_inv hash st" and t: "touches hash st c fl rs tn"
  shows "(\<exists>a \<in> set (lock_states tn rs fl). underflow n q (sa_entities st ! a)) \<longleftrightarrow> \<not> covered hash st c n q"
proof -
  have c: "coord_ok c" and fl: "entity_at hash st ''flow'' (ckey c) = Some fl" using t by (simp_all add: touches_def)
  have flow: "underflow n q (sa_entities st ! fl) \<longleftrightarrow> \<not> covered hash st c n q"
    using fl by (auto simp: underflow_def covered_def level_def)
  have below: "level m hash st ''flow'' (ckey c) \<le> m (sa_entities st ! a)" if "m \<in> {en_in_flight, en_reserved}" "rs = Some a \<or> tn = Some a" for m a
    using flow_below_parents [OF inv c that(1)] that(2) t unfolding touches_def by (auto simp: level_def split: option.splits)
  have "\<not> underflow n q (sa_entities st ! a)" if "covered hash st c n q" "rs = Some a \<or> tn = Some a" for a
    using below [OF _ that(2), of en_in_flight] below [OF _ that(2), of en_reserved] that(1) by (auto simp: underflow_def covered_def)
  then show ?thesis using flow by (auto simp: lock_states_set)
qed

text \<open>The lookups of a rollback or a completion: either the three levels are found, or the flow has no permits out.\<close>

lemma active_entities:
  assumes inv: "sched_inv hash st" and ok: "coord_ok c" and c: "c = (tenant, resource, flow)" and n: "0 < n"
  shows "(\<exists>fl rs tn. touches hash st c fl rs tn \<and>
      act_bind (active_entity hash ''flow'' (Some (flow_key tenant resource flow))) (\<lambda>flow_state.
      act_bind (active_entity hash ''resource'' (resource_key tenant resource)) (\<lambda>resource_state.
      act_bind (active_entity hash ''tenant'' tenant) (\<lambda>tenant_state. k tenant_state resource_state flow_state))) st = k tn rs (Some fl) st) \<or>
    (\<not> covered hash st c n q \<and> act_bind (active_entity hash ''flow'' (Some (flow_key tenant resource flow))) (\<lambda>flow_state.
      act_bind (active_entity hash ''resource'' (resource_key tenant resource)) (\<lambda>resource_state.
      act_bind (active_entity hash ''tenant'' tenant) (\<lambda>tenant_state. k tenant_state resource_state flow_state))) st = (Inl RuntimeError, st))"
    (is "_ \<or> (_ \<and> ?run = _)")
proof -
  have fkey: "flow_key tenant resource flow = ckey c" using c by (simp add: ckey_def)
  have run: "?run = (case entity_at hash st ''flow'' (ckey c) of None \<Rightarrow> (Inl RuntimeError, st) | Some fl \<Rightarrow>
      (case (case resource_key tenant resource of None \<Rightarrow> Inr None | Some rk \<Rightarrow> (case entity_at hash st ''resource'' rk of None \<Rightarrow> Inl RuntimeError | Some a \<Rightarrow> Inr (Some a))) of
         Inl e \<Rightarrow> (Inl e, st)
       | Inr rs \<Rightarrow> (case (case tenant of None \<Rightarrow> Inr None | Some t \<Rightarrow> (case entity_at hash st ''tenant'' t of None \<Rightarrow> Inl RuntimeError | Some a \<Rightarrow> Inr (Some a))) of
           Inl e \<Rightarrow> (Inl e, st) | Inr tn \<Rightarrow> k tn rs (Some fl) st)))"
    by (auto simp: fkey act_bind_def active_entity_def entity_at_def split: option.splits sum.splits)
  have low: "\<not> covered hash st c n q" if "level en_in_flight hash st ''flow'' (ckey c) \<le> 0" using that n by (simp add: covered_def)
  show ?thesis
  proof (cases "entity_at hash st ''flow'' (ckey c)")
    case None
    then show ?thesis using run low by (simp add: level_def)
  next
    case (Some fl)
    consider r where "resource = Some r" "entity_at hash st ''resource'' (the (resource_key tenant (Some r))) = None"
      | t where "tenant = Some t" "entity_at hash st ''tenant'' t = None" "\<And>r. resource = Some r \<Longrightarrow> entity_at hash st ''resource'' (the (resource_key tenant (Some r))) \<noteq> None"
      | "\<And>r. resource = Some r \<Longrightarrow> entity_at hash st ''resource'' (the (resource_key tenant (Some r))) \<noteq> None" "\<And>t. tenant = Some t \<Longrightarrow> entity_at hash st ''tenant'' t \<noteq> None"
      by blast
    then show ?thesis
    proof cases
      case (1 r)
      have "level en_in_flight hash st ''flow'' (ckey c) \<le> 0"
        using flow_below_parents(2) [OF inv ok, of en_in_flight r] 1 c by (simp add: level_def)
      then show ?thesis using run Some 1 low by (simp add: resource_key_def)
    next
      case (2 t)
      have "level en_in_flight hash st ''flow'' (ckey c) \<le> 0"
        using flow_below_parents(1) [OF inv ok, of en_in_flight t] 2 c by (simp add: level_def)
      then show ?thesis using run Some 2 low by (auto simp: resource_key_def split: option.splits)
    next
      case 3
      define rs where "rs = (case resource of None \<Rightarrow> None | Some r \<Rightarrow> entity_at hash st ''resource'' (the (resource_key tenant (Some r))))"
      define tn where "tn = (case tenant of None \<Rightarrow> None | Some t \<Rightarrow> entity_at hash st ''tenant'' t)"
      have "touches hash st c fl rs tn" using ok Some 3 c by (auto simp: touches_def rs_def tn_def split: option.splits)
      moreover have "?run = k tn rs (Some fl) st"
        unfolding run using Some 3 by (auto simp: rs_def tn_def resource_key_def split: option.splits)
      ultimately show ?thesis by blast
    qed
  qed
qed

text \<open>A section that checks the three levels and then changes them alike.\<close>

lemma checked_core:
  assumes inv: "sched_inv hash st" and t: "touches hash st c fl rs tn" and n: "0 \<le> n" "0 \<le> q" and cov: "covered hash st c n q"
    and keep: "\<And>e. en_frontier (g e) = en_frontier e \<and> en_parent (g e) = en_parent e \<and> en_last_grant (g e) = en_last_grant e"
    and sub: "\<And>e. en_in_flight (g e) = en_in_flight e - n \<and> en_reserved (g e) = en_reserved e - q"
    and serv: "\<And>e. en_service e \<le> en_service (g e)" and seq: "sa_sequence st \<le> s"
    and comp: "\<And>e. en_last_completion (g e) = (if sa_sequence st < s \<and> fin then s else en_last_completion e)"
    and body: "body st = (Inr (), record_ordering_change flow (fold (\<lambda>a. upd_entity a g) (lock_states tn rs fl) (st\<lparr>sa_sequence := s\<rparr>)))"
  shows "\<exists>st'. with_publish (lock_states tn rs fl) body st = (Inr (), st') \<and> sched_inv hash st' \<and> entity_at hash st' = entity_at hash st \<and>
    sa_entities st' ! fl = g (sa_entities st ! fl) \<and> pushed flow st st' \<and>
    (\<forall>b < length (sa_entities st). b \<notin> set (lock_states tn rs fl) \<longrightarrow> sa_entities st' ! b = sa_entities st ! b)"
proof -
  let ?states = "lock_states tn rs fl" and ?ents = "sa_entities st"
  have I: "indexes_ok hash st" "siblings_ok st" using inv by (simp_all add: sched_inv_def)
  note F = touches_frontiers [OF I(1) t]
  define st1 where "st1 = record_ordering_change flow (fold (\<lambda>a. upd_entity a g) ?states (st\<lparr>sa_sequence := s\<rparr>))"
  have lt: "\<forall>a \<in> set ?states. a < length (sa_entities (st\<lparr>sa_sequence := s\<rparr>))" using F(2) by simp
  note U = fold_upd [OF F(3) lt]
  have len: "length (sa_entities st1) = length ?ents" and idx: "sched_index k st1 = sched_index k st" and sq: "sa_sequence st1 = s" for k
    using U(1,3,4) by (simp_all add: st1_def)
  have at: "sa_entities st1 ! b = (if b \<in> set ?states then g (?ents ! b) else ?ents ! b)" if "b < length ?ents" for b
    using U(2) [of b] that by (simp add: st1_def)
  have noun: "\<not> underflow n q (?ents ! a)" if "a \<in> set ?states" for a using underflow_iff [OF inv t, of n q] cov that by blast
  have bnd: "entity_bounds (sa_sequence st) (?ents ! a)" if "a < length ?ents" for a using I(2) that by (simp add: siblings_ok_def)
  have lt': "a < length ?ents" if "a \<in> set ?states" for a using F(2) that by blast
  have fr: "frontiers_ok ?ents (sched_frontier st1)"
    using I(2) frontier_of_map [of st1 st] U(5) by (simp add: siblings_ok_def st1_def)
  have "\<exists>fm. with_publish ?states body st = (Inr (), st1\<lparr>sa_frontiers := fm\<rparr>) \<and> sched_inv hash (st1\<lparr>sa_frontiers := fm\<rparr>)"
  proof (rule touch_inv [where d = "- n" and d' = "- q" and fin = fin and body = body, OF inv t _ idx len _ _ _ fr])
    show "body st = (Inr (), st1)" using body by (simp add: st1_def)
    fix a assume a: "a \<in> set ?states"
    show "en_in_flight (sa_entities st1 ! a) = en_in_flight (?ents ! a) + - n \<and> en_reserved (sa_entities st1 ! a) = en_reserved (?ents ! a) + - q"
      using at [OF lt' [OF a]] a sub by simp
    show "entity_bounds (sa_sequence st1) (sa_entities st1 ! a)"
      using at [OF lt' [OF a]] a sub [of "?ents ! a"] serv [of "?ents ! a"] keep [of "?ents ! a"] comp [of "?ents ! a"] bnd [OF lt' [OF a]] noun [OF a] seq I(2)
      by (auto simp: sq entity_bounds_def underflow_def siblings_ok_def)
    show "en_last_completion (sa_entities st1 ! a) =
        (if sa_sequence st < sa_sequence st1 \<and> fin then sa_sequence st1 else en_last_completion (?ents ! a))"
      using at [OF lt' [OF a]] a comp by (simp add: sq)
  qed (use at keep seq sq in simp_all)
  then obtain fm where fm: "with_publish ?states body st = (Inr (), st1\<lparr>sa_frontiers := fm\<rparr>)" "sched_inv hash (st1\<lparr>sa_frontiers := fm\<rparr>)" by blast
  have "entity_at hash (st1\<lparr>sa_frontiers := fm\<rparr>) = entity_at hash st" by (simp add: entity_at_def fun_eq_iff idx)
  moreover have "fl \<in> set ?states" by (simp add: lock_states_def)
  moreover have "pushed flow st st1"
    using fold_upd_journal [of g ?states "st\<lparr>sa_sequence := s\<rparr>"] by (simp add: pushed_def st1_def record_ordering_change_def Let_def)
  ultimately show ?thesis using fm at lt' [of fl] by (intro exI [of _ "st1\<lparr>sa_frontiers := fm\<rparr>"]) (simp add: pushed_def)
qed

lemma checked_refused:
  assumes inv: "sched_inv hash st" and t: "touches hash st c fl rs tn" and body: "body st = (Inl RuntimeError, st)"
  shows "\<exists>fm. with_publish (lock_states tn rs fl) body st = (Inl RuntimeError, st\<lparr>sa_frontiers := fm\<rparr>) \<and> sched_inv hash (st\<lparr>sa_frontiers := fm\<rparr>)"
proof -
  have I: "indexes_ok hash st" "siblings_ok st" using inv by (simp_all add: sched_inv_def)
  have "\<exists>fm. with_publish (lock_states tn rs fl) body st = (Inl RuntimeError, st\<lparr>sa_frontiers := fm\<rparr>) \<and> sched_inv hash (st\<lparr>sa_frontiers := fm\<rparr>)"
  proof (rule touch_inv [where d = 0 and d' = 0 and fin = False and body = body, OF inv t body])
    show "frontiers_ok (sa_entities st) (sched_frontier st)" using I(2) by (simp add: siblings_ok_def)
    fix a assume "a \<in> set (lock_states tn rs fl)"
    then have "a < length (sa_entities st)" using touches_frontiers(2) [OF I(1) t] by blast
    then show "entity_bounds (sa_sequence st) (sa_entities st ! a)" using I(2) by (simp add: siblings_ok_def)
  qed simp_all
  then show ?thesis by blast
qed

lemma rollback_outcome:
  assumes inv: "sched_inv hash st" and ok: "call_ok t r f" "0 < n" "0 \<le> q"
  shows "\<exists>st'. rollback_grant hash t r f n q st = ((if covered hash st (call_coord t r f) n q then Inr () else Inl RuntimeError), st') \<and>
    sched_inv hash st' \<and> journal_step hash (call_coord t r f) st st'"
proof -
  let ?c = "call_coord t r f"
  have ix: "indexes_ok hash st" using inv by (simp add: sched_inv_def)
  let ?k = "\<lambda>tn rs fl. with_publish (lock_states tn rs (the fl)) (rollback_section (lock_states tn rs (the fl)) (py_strip f) n q)"
  have run: "rollback_grant hash t r f n q =
      act_bind (active_entity hash ''flow'' (Some (flow_key (map_option py_strip t) (map_option py_strip r) (py_strip f)))) (\<lambda>flow_state.
      act_bind (active_entity hash ''resource'' (resource_key (map_option py_strip t) (map_option py_strip r))) (\<lambda>resource_state.
      act_bind (active_entity hash ''tenant'' (map_option py_strip t)) (\<lambda>tenant_state. ?k tenant_state resource_state flow_state)))"
    using ok by (simp add: rollback_grant_def sched_identity_def sched_permit_count_def sched_quanta_def opt_identity call_ok_def bind_lift Let_def)
  from active_entities [OF inv call_ok_coord [OF ok(1)] call_coord_def ok(2), of ?k q]
  consider fl rs tn where "touches hash st ?c fl rs tn" "rollback_grant hash t r f n q st = ?k tn rs (Some fl) st"
    | "\<not> covered hash st ?c n q" "rollback_grant hash t r f n q st = (Inl RuntimeError, st)"
    unfolding run by blast
  then show ?thesis
  proof cases
    case (1 fl rs tn)
    note un = underflow_iff [OF inv 1(1), of n q]
    show ?thesis
    proof (cases "covered hash st ?c n q")
      case True
      have "\<exists>st'. with_publish (lock_states tn rs fl) (rollback_section (lock_states tn rs fl) (py_strip f) n q) st = (Inr (), st') \<and>
          sched_inv hash st' \<and> entity_at hash st' = entity_at hash st \<and> sa_entities st' ! fl = sub_grant n q (sa_entities st ! fl) \<and>
          pushed (Some (py_strip f)) st st' \<and> (\<forall>b < length (sa_entities st). b \<notin> set (lock_states tn rs fl) \<longrightarrow> sa_entities st' ! b = sa_entities st ! b)"
        by (rule checked_core [where g = "sub_grant n q" and fin = False and s = "sa_sequence st" and flow = "Some (py_strip f)", OF inv 1(1) _ ok(3) True])
           (use ok(2) un True in \<open>simp_all add: sub_grant_def rollback_section_def\<close>)
      then obtain st' where st': "rollback_grant hash t r f n q st = (Inr (), st')" "sched_inv hash st'" "entity_at hash st' = entity_at hash st"
        "pushed (Some (py_strip f)) st st'" "\<And>b. b < length (sa_entities st) \<Longrightarrow> b \<notin> set (lock_states tn rs fl) \<Longrightarrow> sa_entities st' ! b = sa_entities st ! b"
        using 1(2) by auto
      have "journal_step hash ?c st st'"
        using untouched_view [OF ix 1(1) st'(3,5)] st'(4) by (simp add: journal_step_def call_coord_def)
      then show ?thesis using st'(1,2) True by auto
    next
      case False
      then have "rollback_section (lock_states tn rs fl) (py_strip f) n q st = (Inl RuntimeError, st)" using un by (simp add: rollback_section_def)
      from checked_refused [where body = "rollback_section (lock_states tn rs fl) (py_strip f) n q", OF inv 1(1) this] show ?thesis using 1(2) False by (auto simp: journal_step_def)
    qed
  qed (use inv in \<open>auto simp: journal_step_def\<close>)
qed

lemma completion_outcome:
  assumes inv: "sched_inv hash st" and ok: "call_ok t r f" "0 < n" "0 \<le> q" "0 \<le> s"
  shows "\<exists>st'. record_completion hash t r f s n q st = ((if covered hash st (call_coord t r f) n q then Inr () else Inl RuntimeError), st') \<and>
    sched_inv hash st' \<and> journal_step hash (call_coord t r f) st st' \<and> (covered hash st (call_coord t r f) n q \<longrightarrow>
      level en_in_flight hash st' ''flow'' (ckey (call_coord t r f)) = level en_in_flight hash st ''flow'' (ckey (call_coord t r f)) - n \<and>
      level en_load hash st' ''flow'' (ckey (call_coord t r f)) = level en_load hash st ''flow'' (ckey (call_coord t r f)) - q + s)"
proof -
  let ?c = "call_coord t r f"
  have ix: "indexes_ok hash st" using inv by (simp add: sched_inv_def)
  let ?k = "\<lambda>tn rs fl. with_publish (lock_states tn rs (the fl)) (completion_section (lock_states tn rs (the fl)) (py_strip f) n q s)"
  have run: "record_completion hash t r f s n q =
      act_bind (active_entity hash ''flow'' (Some (flow_key (map_option py_strip t) (map_option py_strip r) (py_strip f)))) (\<lambda>flow_state.
      act_bind (active_entity hash ''resource'' (resource_key (map_option py_strip t) (map_option py_strip r))) (\<lambda>resource_state.
      act_bind (active_entity hash ''tenant'' (map_option py_strip t)) (\<lambda>tenant_state. ?k tenant_state resource_state flow_state)))"
    using ok by (simp add: record_completion_def sched_identity_def sched_permit_count_def sched_quanta_def opt_identity call_ok_def bind_lift Let_def)
  from active_entities [OF inv call_ok_coord [OF ok(1)] call_coord_def ok(2), of ?k q]
  consider fl rs tn where "touches hash st ?c fl rs tn" "record_completion hash t r f s n q st = ?k tn rs (Some fl) st"
    | "\<not> covered hash st ?c n q" "record_completion hash t r f s n q st = (Inl RuntimeError, st)"
    unfolding run by blast
  then show ?thesis
  proof cases
    case (1 fl rs tn)
    note un = underflow_iff [OF inv 1(1), of n q]
    have fl: "entity_at hash st ''flow'' (ckey ?c) = Some fl" using 1(1) by (simp add: touches_def)
    show ?thesis
    proof (cases "covered hash st ?c n q")
      case True
      have "\<exists>st'. with_publish (lock_states tn rs fl) (completion_section (lock_states tn rs fl) (py_strip f) n q s) st = (Inr (), st') \<and>
          sched_inv hash st' \<and> entity_at hash st' = entity_at hash st \<and>
          sa_entities st' ! fl = complete_service n q s (sa_sequence st + 1) (sa_entities st ! fl) \<and>
          pushed (Some (py_strip f)) st st' \<and> (\<forall>b < length (sa_entities st). b \<notin> set (lock_states tn rs fl) \<longrightarrow> sa_entities st' ! b = sa_entities st ! b)"
        by (rule checked_core [where g = "complete_service n q s (sa_sequence st + 1)" and fin = True and s = "sa_sequence st + 1" and flow = "Some (py_strip f)", OF inv 1(1) _ ok(3) True])
           (use ok(2,4) un True in \<open>simp_all add: sub_grant_def complete_service_def completion_section_def Let_def\<close>)
      then obtain st' where st': "record_completion hash t r f s n q st = (Inr (), st')" "sched_inv hash st'" "entity_at hash st' = entity_at hash st"
        "sa_entities st' ! fl = complete_service n q s (sa_sequence st + 1) (sa_entities st ! fl)"
        "pushed (Some (py_strip f)) st st'" "\<And>b. b < length (sa_entities st) \<Longrightarrow> b \<notin> set (lock_states tn rs fl) \<Longrightarrow> sa_entities st' ! b = sa_entities st ! b"
        using 1(2) by auto
      have "journal_step hash ?c st st'"
        using untouched_view [OF ix 1(1) st'(3,6)] st'(5) by (simp add: journal_step_def call_coord_def)
      then show ?thesis using st' True fl by (simp add: level_def complete_service_def sub_grant_def en_load_def)
    next
      case False
      then have "completion_section (lock_states tn rs fl) (py_strip f) n q s st = (Inl RuntimeError, st)" using un by (simp add: completion_section_def)
      from checked_refused [where body = "completion_section (lock_states tn rs fl) (py_strip f) n q s", OF inv 1(1) this] show ?thesis using 1(2) False by (auto simp: journal_step_def)
    qed
  qed (use inv in \<open>auto simp: journal_step_def\<close>)
qed

subsection \<open>Releases and histories of calls\<close>

lemma release_field:
  "a < length (sa_entities st) \<Longrightarrow> b < length (sa_entities st) \<Longrightarrow> (\<And>e. m (e\<lparr>en_retire := True\<rparr>) = m e) \<Longrightarrow>
   m (sa_entities (release_entity a change st) ! b) = m (sa_entities st ! b)"
  by (simp add: release_entity_def nth_list_update)

lemma release_inv:
  assumes inv: "sched_inv hash st" and a: "a < length (sa_entities st)"
  shows "sched_inv hash (release_entity a change st)"
proof -
  let ?st = "release_entity a change st"
  have I: "indexes_ok hash st" "siblings_ok st" "conserved en_in_flight hash st" "conserved en_reserved hash st" using inv by (simp_all add: sched_inv_def)
  have sel: "sa_entities ?st = (sa_entities st)[a := (sa_entities st ! a)\<lparr>en_retire := True\<rparr>]" "sa_sequence ?st = sa_sequence st"
    "sched_frontier ?st = sched_frontier st" "\<And>k. sched_index k ?st = sched_index k st"
    using frontier_of_map [of ?st st] by (simp_all add: release_entity_def)
  have len: "length (sa_entities ?st) = length (sa_entities st)" by (simp add: sel(1))
  note eq = release_field [OF a]
  have "indexes_ok hash ?st" by (rule indexes_ok_keep [OF I(1) sel(4) len]) (use eq [where m = en_frontier] eq [where m = en_parent] in simp)
  moreover have "siblings_ok ?st"
    unfolding siblings_ok_def
  proof (intro conjI)
    have fr: "frontier_ok (sa_entities ?st) (sched_frontier st k) \<and>
        frontier_keys (sched_frontier st k) = {b. b < length (sa_entities ?st) \<and> en_frontier (sa_entities ?st ! b) = Some k}" for k
    proof -
      have S: "frontiers_ok (sa_entities st) (sched_frontier st)" using I(2) by (simp add: siblings_ok_def)
      note F = frontiers_okD [OF S, of k]
      have "frontier_ok (sa_entities ?st) (sched_frontier st k)"
        by (rule frontier_ok_cong [OF F(1)])
           (use F(2) eq [where m = en_load] eq [where m = en_in_flight] eq [where m = en_last_completion] in \<open>simp add: en_load_def\<close>)
      then show ?thesis using F(2) eq [where m = en_frontier] len by auto
    qed
    then show "frontiers_ok (sa_entities ?st) (sched_frontier ?st)" unfolding frontiers_ok_def sel(3) by blast
    show "0 \<le> sa_sequence ?st" using I(2) by (simp add: siblings_ok_def sel(2))
    have "entity_bounds (sa_sequence st) (sa_entities ?st ! b)" if "b < length (sa_entities st)" for b
    proof -
      have "entity_bounds (sa_sequence st) (sa_entities st ! b)" using I(2) that by (simp add: siblings_ok_def)
      then show ?thesis using eq [where m = "entity_bounds (sa_sequence st)", OF that] by (simp add: entity_bounds_def)
    qed
    then show "\<forall>e \<in> set (sa_entities ?st). entity_bounds (sa_sequence ?st) e" using len sel(2) by (auto simp: in_set_conv_nth)
    show "\<forall>k. completions_distinct (sa_entities ?st) {b. b < length (sa_entities ?st) \<and> en_frontier (sa_entities ?st ! b) = Some k}"
    proof
      fix k
      have C: "completions_distinct (sa_entities st) {b. b < length (sa_entities st) \<and> en_frontier (sa_entities st ! b) = Some k}"
        using I(2) unfolding siblings_ok_def by blast
      show "completions_distinct (sa_entities ?st) {b. b < length (sa_entities ?st) \<and> en_frontier (sa_entities ?st ! b) = Some k}"
        unfolding completions_distinct_def
      proof (rule inj_onI)
        fix x y assume xy: "x \<in> {b \<in> {b. b < length (sa_entities ?st) \<and> en_frontier (sa_entities ?st ! b) = Some k}. 0 \<le> en_last_completion (sa_entities ?st ! b)}"
          "y \<in> {b \<in> {b. b < length (sa_entities ?st) \<and> en_frontier (sa_entities ?st ! b) = Some k}. 0 \<le> en_last_completion (sa_entities ?st ! b)}"
          "en_last_completion (sa_entities ?st ! x) = en_last_completion (sa_entities ?st ! y)"
        have lt: "x < length (sa_entities st)" "y < length (sa_entities st)" using xy(1,2) len by auto
        have same: "en_last_completion (sa_entities ?st ! b) = en_last_completion (sa_entities st ! b) \<and>
            en_frontier (sa_entities ?st ! b) = en_frontier (sa_entities st ! b)" if "b < length (sa_entities st)" for b
          using eq [where m = en_last_completion, OF that] eq [where m = en_frontier, OF that] by simp
        show "x = y"
          using C xy lt same [OF lt(1)] same [OF lt(2)] unfolding completions_distinct_def inj_on_def by auto
      qed
    qed
  qed
  moreover have "conserved m hash ?st" if con: "conserved m hash st" and m: "\<And>e. m (e\<lparr>en_retire := True\<rparr>) = m e" for m
  proof -
    have lev: "level m hash ?st kind key = level m hash st kind key" if "kind \<in> kinds" for kind key
      using indexes_okD(2) [OF I(1) that, of key] eq [where m = m, OF _ m]
      by (simp add: level_def entity_at_def sel(4) split: option.split)
    have co: "coords hash ?st = coords hash st" by (simp add: coords_def entity_at_def sel(4))
    show ?thesis using con lev by (simp add: conserved_def flow_total_def co)
  qed
  ultimately show ?thesis using I(3,4) by (simp add: sched_inv_def)
qed

lemma release_flow_inv:
  assumes inv: "sched_inv hash st"
  shows "sched_inv hash (snd (release_flow hash t r f st))" "sched_inv hash (snd (release_resource hash t f st))"
proof -
  have ix: "indexes_ok hash st" using inv by (simp add: sched_inv_def)
  have lt: "a < length (sa_entities st)" if "index_get hash (sa_flows st) k = Some a \<or> index_get hash (sa_resources st) k = Some a" for k a
    using indexes_okD(2) [OF ix, of "''flow''" k a] indexes_okD(2) [OF ix, of "''resource''" k a] that by (auto simp: entity_at_def sched_index_def)
  show "sched_inv hash (snd (release_flow hash t r f st))" "sched_inv hash (snd (release_resource hash t f st))"
    using inv release_inv [OF inv lt]
    by (auto simp: release_flow_def release_resource_def sched_identity_def opt_identity act_bind_def act_lift_def split: option.splits)
qed

lemma rollback_invalid:
  assumes "\<not> (call_ok t r f \<and> 0 < n \<and> 0 \<le> q)"
  shows "rollback_grant hash t r f n q st = (Inl ValueError, st)"
  using assms by (auto simp: rollback_grant_def sched_identity_def sched_permit_count_def sched_quanta_def opt_identity call_ok_def bind_lift not_less)

lemma completion_invalid:
  assumes "\<not> (call_ok t r f \<and> 0 < n \<and> 0 \<le> q \<and> 0 \<le> s)"
  shows "record_completion hash t r f s n q st = (Inl ValueError, st)"
  using assms by (auto simp: record_completion_def sched_identity_def sched_permit_count_def sched_quanta_def opt_identity call_ok_def bind_lift not_less)

lemma sched_do_inv:
  assumes inv: "sched_inv hash st"
  shows "sched_inv hash (snd (sched_do hash call st))"
proof (cases call)
  case (Grant t r f n q)
  show ?thesis
  proof (cases "call_ok t r f \<and> 0 < n \<and> 0 \<le> q")
    case True
    then show ?thesis using record_grant_outcome [OF inv, of t r f n q] Grant by auto
  next
    case False
    then show ?thesis using record_grant_invalid [OF False, of hash st] Grant inv by simp
  qed
next
  case (Rollback t r f n q)
  show ?thesis
  proof (cases "call_ok t r f \<and> 0 < n \<and> 0 \<le> q")
    case True
    then show ?thesis using rollback_outcome [OF inv, of t r f n q] Rollback by auto
  next
    case False
    then show ?thesis using rollback_invalid [OF False, of hash st] Rollback inv by simp
  qed
next
  case (Complete t r f s n q)
  show ?thesis
  proof (cases "call_ok t r f \<and> 0 < n \<and> 0 \<le> q \<and> 0 \<le> s")
    case True
    then show ?thesis using completion_outcome [OF inv, of t r f n q s] Complete by auto
  next
    case False
    then show ?thesis using completion_invalid [OF False, of hash st] Complete inv by simp
  qed
qed (use release_flow_inv [OF inv] in simp_all)

lemma empty_sched_inv: "sched_inv hash empty_sched"
proof -
  have get: "entity_at hash empty_sched kind key = None" for kind key
    by (simp add: entity_at_def sched_index_def empty_sched_def state_index.empty_get)
  have "indexes_ok hash empty_sched"
    unfolding indexes_ok_def get by (simp add: sched_index_def empty_sched_def state_index.empty_ok)
  moreover have "siblings_ok empty_sched"
  proof -
    have "frontiers_ok [] (\<lambda>_. new_frontier)" using new_frontier_ok by (simp add: frontiers_ok_def)
    moreover have "sched_frontier empty_sched = (\<lambda>_. new_frontier)" by (simp add: sched_frontier_def empty_sched_def fun_eq_iff)
    ultimately show ?thesis by (simp add: siblings_ok_def completions_distinct_def empty_sched_def)
  qed
  moreover have "conserved m hash empty_sched" for m by (simp add: conserved_def level_def get flow_total_def coords_def)
  ultimately show ?thesis by (simp add: sched_inv_def)
qed

lemma sched_calls_inv: "sched_inv hash st \<Longrightarrow> sched_inv hash (snd (run_calls (sched_do hash) calls st))"
proof (induction calls arbitrary: st)
  case (Cons call calls)
  have "sched_inv hash (snd (sched_do hash call st))" by (rule sched_do_inv [OF Cons.prems])
  from Cons.IH [OF this] show ?case by (auto split: prod.splits)
qed simp

definition sched_reachable :: "(string \<Rightarrow> 64 word) \<Rightarrow> sched \<Rightarrow> bool" where
  "sched_reachable hash st = (\<exists>calls. st = snd (run_calls (sched_do hash) calls empty_sched))"

lemma reachable_inv: "sched_reachable hash st \<Longrightarrow> sched_inv hash st"
  using sched_calls_inv [OF empty_sched_inv] by (auto simp: sched_reachable_def)

end
