(* ===== verification/Ordering.thy ===== *)
theory Ordering
  imports SchedulingCalls
begin

text \<open>
  Scheduling candidates (\<^verbatim>\<open>concurrency/scheduling/api/contracts.py\<close>) and the ordering the authority gives
  them.  A float is a rational or an infinity (no NaN); subtraction, multiplication and conversion from
  an integer are parameters, since they round.  A key is a Python tuple of numbers, here a list, in the
  lexicographic order of lists.
\<close>

section \<open>Numbers\<close>

datatype xnum = NegInf | Num rat | PosInf

fun xnum_le :: "xnum \<Rightarrow> xnum \<Rightarrow> bool" where
  "xnum_le NegInf _ = True"
| "xnum_le _ PosInf = True"
| "xnum_le (Num a) (Num b) = (a \<le> b)"
| "xnum_le (Num _) NegInf = False"
| "xnum_le PosInf _ = False"

instantiation xnum :: linorder
begin

definition less_eq_xnum :: "xnum \<Rightarrow> xnum \<Rightarrow> bool" where
  "less_eq_xnum x y = xnum_le x y"

definition less_xnum :: "xnum \<Rightarrow> xnum \<Rightarrow> bool" where
  "less_xnum x y = (xnum_le x y \<and> x \<noteq> y)"

instance
proof
  fix x y z :: xnum
  show "x < y \<longleftrightarrow> x \<le> y \<and> \<not> y \<le> x" unfolding less_eq_xnum_def less_xnum_def by (cases x; cases y) auto
  show "x \<le> x" unfolding less_eq_xnum_def by (cases x) auto
  show "x \<le> y \<Longrightarrow> y \<le> z \<Longrightarrow> x \<le> z" unfolding less_eq_xnum_def by (cases x; cases y; cases z) auto
  show "x \<le> y \<Longrightarrow> y \<le> x \<Longrightarrow> x = y" unfolding less_eq_xnum_def by (cases x; cases y) auto
  show "x \<le> y \<or> y \<le> x" unfolding less_eq_xnum_def by (cases x; cases y) auto
qed

end

lemma xnum_less [simp]:
  "Num a < Num b \<longleftrightarrow> a < b" "Num a \<le> Num b \<longleftrightarrow> a \<le> b" "Num a < PosInf" "\<not> PosInf < x" "x \<le> PosInf"
  by (cases x; auto simp: less_xnum_def less_eq_xnum_def)+

definition num_int :: "int \<Rightarrow> xnum" where
  "num_int i = Num (of_int i)"

fun is_finite :: "xnum \<Rightarrow> bool" where
  "is_finite (Num _) = True"
| "is_finite _ = False"

fun xneg :: "xnum \<Rightarrow> xnum" where
  "xneg NegInf = PosInf"
| "xneg (Num a) = Num (- a)"
| "xneg PosInf = NegInf"

record float_ops =
  fo_sub :: "xnum \<Rightarrow> xnum \<Rightarrow> xnum"
  fo_mul :: "xnum \<Rightarrow> xnum \<Rightarrow> xnum"
  fo_of_int :: "int \<Rightarrow> xnum option"

section \<open>Candidates\<close>

datatype priority = Critical | High | Normal | Low

fun priority_rank :: "priority \<Rightarrow> int" where
  "priority_rank Critical = 0"
| "priority_rank High = 1"
| "priority_rank Normal = 2"
| "priority_rank Low = 3"

record candidate =
  ca_ticket :: int
  ca_group_id :: string
  ca_priority :: priority
  ca_enqueued :: xnum
  ca_tenant_id :: "string option"
  ca_resource_id :: "string option"
  ca_flow_id :: "string option"
  ca_continuity_rank :: int
  ca_waiting_permits :: int
  ca_service_rate :: "xnum option"
  ca_deadline :: "xnum option"
  ca_service_seconds :: "xnum option"
  ca_speculation_rank :: int
  ca_tail_work :: xnum
  ca_waste_cost :: xnum
  ca_service_cost :: xnum
  ca_tiebreak :: int

definition nonneg_finite :: "xnum \<Rightarrow> bool" where
  "nonneg_finite x = (is_finite x \<and> Num 0 \<le> x)"

definition opt_all :: "('a \<Rightarrow> bool) \<Rightarrow> 'a option \<Rightarrow> bool" where
  "opt_all P x = (case x of None \<Rightarrow> True | Some v \<Rightarrow> P v)"

definition candidate_post_init :: "candidate \<Rightarrow> candidate res" where
  "candidate_post_init self =
     res_bind (require (0 \<le> ca_ticket self) TypeError) (\<lambda>_.
     res_bind (require (nonblank (ca_group_id self)) ValueError) (\<lambda>_.
     res_bind (require (nonneg_finite (ca_enqueued self)) ValueError) (\<lambda>_.
     res_bind (require (opt_nonblank (ca_tenant_id self)) ValueError) (\<lambda>_.
     res_bind (require (opt_nonblank (ca_resource_id self)) ValueError) (\<lambda>_.
     res_bind (require (opt_nonblank (ca_flow_id self)) ValueError) (\<lambda>_.
     res_bind (require (0 \<le> ca_continuity_rank self) ValueError) (\<lambda>_.
     res_bind (require (0 < ca_waiting_permits self) ValueError) (\<lambda>_.
     res_bind (require (opt_all (\<lambda>r. is_finite r \<and> Num 0 < r) (ca_service_rate self)) ValueError) (\<lambda>_.
     res_bind (require (opt_all nonneg_finite (ca_deadline self)) ValueError) (\<lambda>_.
     res_bind (require (opt_all nonneg_finite (ca_service_seconds self)) ValueError) (\<lambda>_.
     res_bind (require (0 \<le> ca_speculation_rank self) ValueError) (\<lambda>_.
     res_bind (require (nonneg_finite (ca_tail_work self)) ValueError) (\<lambda>_.
     res_bind (require (nonneg_finite (ca_waste_cost self)) ValueError) (\<lambda>_.
     res_bind (require (nonneg_finite (ca_service_cost self)) ValueError) (\<lambda>_.
     res_bind (require (0 \<le> ca_tiebreak self) ValueError) (\<lambda>_.
     Inr (self\<lparr>ca_group_id := py_strip (ca_group_id self), ca_tenant_id := map_option py_strip (ca_tenant_id self),
       ca_resource_id := map_option py_strip (ca_resource_id self), ca_flow_id := map_option py_strip (ca_flow_id self)\<rparr>)))))))))))))))))"

definition candidate_flow :: "candidate \<Rightarrow> string" where
  "candidate_flow c = (case ca_flow_id c of Some f \<Rightarrow> if f = [] then ca_group_id c else f | None \<Rightarrow> ca_group_id c)"

section \<open>Ordering keys\<close>

type_synonym snap = "int \<times> int \<times> int"

definition state_snapshot :: "sched \<Rightarrow> nat option \<Rightarrow> snap" where
  "state_snapshot st a = (case a of None \<Rightarrow> (0, 0, -1)
     | Some x \<Rightarrow> (let e = sa_entities st ! x in (en_in_flight e, en_service e + en_reserved e, en_last_grant e)))"

definition validated_now :: "xnum \<Rightarrow> xnum res" where
  "validated_now now = (if \<not> is_finite now \<or> now < Num 0 then Inl ValueError else Inr now)"

definition laxity :: "float_ops \<Rightarrow> candidate \<Rightarrow> xnum \<Rightarrow> xnum" where
  "laxity F c now = (case (ca_deadline c, ca_service_seconds c) of
     (Some deadline, Some seconds) \<Rightarrow> fo_sub F (fo_sub F deadline now) seconds | _ \<Rightarrow> PosInf)"

definition deadline_expired :: "candidate \<Rightarrow> xnum \<Rightarrow> bool" where
  "deadline_expired c now = (case ca_deadline c of None \<Rightarrow> False | Some d \<Rightarrow> d \<le> now)"

definition deadline_at_risk :: "float_ops \<Rightarrow> candidate \<Rightarrow> xnum \<Rightarrow> bool" where
  "deadline_at_risk F c now = (\<not> deadline_expired c now \<and> is_finite (laxity F c now) \<and> laxity F c now \<le> Num 0)"

definition maxweight_rank :: "float_ops \<Rightarrow> candidate \<Rightarrow> xnum res" where
  "maxweight_rank F c = (case ca_service_rate c of None \<Rightarrow> Inr (Num 0)
     | Some rate \<Rightarrow> (case fo_of_int F (ca_waiting_permits c) of None \<Rightarrow> Inl OverflowError | Some w \<Rightarrow> Inr (fo_mul F (xneg w) rate)))"

definition ordering_key_from_snapshots :: "float_ops \<Rightarrow> candidate \<Rightarrow> xnum \<Rightarrow> snap \<Rightarrow> snap \<Rightarrow> snap \<Rightarrow> xnum list res" where
  "ordering_key_from_snapshots F c now tenant resource flow =
     res_bind (maxweight_rank F c) (\<lambda>weight. Inr
       [num_int (if deadline_expired c now then 2 else if deadline_at_risk F c now then 0 else 1),
        if deadline_at_risk F c now then Num 0 else PosInf,
        num_int (fst (snd tenant)), num_int (fst tenant), num_int (snd (snd tenant)),
        num_int (fst (snd resource)), num_int (fst resource), num_int (snd (snd resource)),
        num_int (fst (snd flow)), num_int (fst flow), num_int (snd (snd flow)),
        num_int (priority_rank (ca_priority c)), num_int (ca_continuity_rank c), num_int (ca_speculation_rank c),
        xneg (ca_tail_work c), ca_waste_cost c, ca_service_cost c,
        num_int (if ca_service_rate c = None then 0 else 1), weight,
        case ca_deadline c of None \<Rightarrow> PosInf | Some d \<Rightarrow> d, num_int (ca_tiebreak c), num_int (ca_ticket c)])"

definition tenant_snapshot :: "(string \<Rightarrow> 64 word) \<Rightarrow> sched \<Rightarrow> string option \<Rightarrow> snap" where
  "tenant_snapshot hash st tenant = state_snapshot st (case tenant of None \<Rightarrow> None | Some t \<Rightarrow> index_get hash (sa_tenants st) t)"

definition resource_snapshot :: "(string \<Rightarrow> 64 word) \<Rightarrow> sched \<Rightarrow> string option \<Rightarrow> snap" where
  "resource_snapshot hash st key = state_snapshot st (case key of None \<Rightarrow> None | Some k \<Rightarrow> index_get hash (sa_resources st) k)"

definition flow_snapshot :: "(string \<Rightarrow> 64 word) \<Rightarrow> sched \<Rightarrow> string \<Rightarrow> snap" where
  "flow_snapshot hash st key = state_snapshot st (index_get hash (sa_flows st) key)"

definition ordering_key :: "float_ops \<Rightarrow> (string \<Rightarrow> 64 word) \<Rightarrow> candidate \<Rightarrow> xnum \<Rightarrow> sched \<Rightarrow> xnum list res" where
  "ordering_key F hash c now_monotonic st =
     res_bind (validated_now now_monotonic) (\<lambda>now.
     ordering_key_from_snapshots F c now (tenant_snapshot hash st (ca_tenant_id c))
       (resource_snapshot hash st (resource_key (ca_tenant_id c) (ca_resource_id c)))
       (flow_snapshot hash st (flow_key (ca_tenant_id c) (ca_resource_id c) (candidate_flow c))))"

text \<open>A batch takes each snapshot once: three dicts of snapshots already taken.\<close>

definition cached :: "'k \<Rightarrow> 'v \<Rightarrow> ('k \<times> 'v) list \<Rightarrow> ('k \<times> 'v) list" where
  "cached k v kvs = (if map_of kvs k = None then branch_set k v kvs else kvs)"

fun project_keys :: "float_ops \<Rightarrow> (string \<Rightarrow> 64 word) \<Rightarrow> xnum \<Rightarrow> sched \<Rightarrow> candidate list \<Rightarrow>
    (string option \<times> snap) list \<Rightarrow> (string option \<times> snap) list \<Rightarrow> (string \<times> snap) list \<Rightarrow> xnum list list res" where
  "project_keys F hash now st [] ts rs fs = Inr []"
| "project_keys F hash now st (c # cs) ts rs fs =
     (let tenant_key = ca_tenant_id c; rkey = resource_key tenant_key (ca_resource_id c);
          fkey = flow_key tenant_key (ca_resource_id c) (candidate_flow c);
          ts' = cached tenant_key (tenant_snapshot hash st tenant_key) ts;
          rs' = cached rkey (resource_snapshot hash st rkey) rs;
          fs' = cached fkey (flow_snapshot hash st fkey) fs in
      res_bind (ordering_key_from_snapshots F c now (the (map_of ts' tenant_key)) (the (map_of rs' rkey)) (the (map_of fs' fkey))) (\<lambda>key.
      res_bind (project_keys F hash now st cs ts' rs' fs') (\<lambda>keys. Inr (key # keys))))"

definition ordering_keys :: "float_ops \<Rightarrow> (string \<Rightarrow> 64 word) \<Rightarrow> candidate list \<Rightarrow> xnum \<Rightarrow> sched \<Rightarrow> xnum list list res" where
  "ordering_keys F hash candidates now_monotonic st =
     res_bind (validated_now now_monotonic) (\<lambda>now. project_keys F hash now st candidates [] [] [])"

text \<open>Between two calls the revision does not move: the loop of the source ends in its first round.\<close>

definition ordering_keys_at_revision ::
    "float_ops \<Rightarrow> (string \<Rightarrow> 64 word) \<Rightarrow> candidate list \<Rightarrow> xnum \<Rightarrow> int option \<Rightarrow> sched \<Rightarrow> (int \<times> xnum list list option) res" where
  "ordering_keys_at_revision F hash candidates now_monotonic known_revision st =
     res_bind (require (opt_all (\<lambda>r. 0 \<le> r) known_revision) ValueError) (\<lambda>_.
     res_bind (validated_now now_monotonic) (\<lambda>_.
     if known_revision = Some (service_revision st) then Inr (service_revision st, None)
     else res_bind (ordering_keys F hash candidates now_monotonic st) (\<lambda>keys. Inr (service_revision st, Some keys))))"

definition within_flow_part :: "xnum list \<Rightarrow> xnum list" where
  "within_flow_part key = take 2 key @ drop 11 key"

definition flow_relative_part :: "xnum list \<Rightarrow> xnum list" where
  "flow_relative_part key = take 2 key @ drop 8 key"

definition ordering_projection_pairs ::
    "float_ops \<Rightarrow> (string \<Rightarrow> 64 word) \<Rightarrow> candidate list \<Rightarrow> xnum \<Rightarrow> sched \<Rightarrow> (xnum list \<times> xnum list) list res" where
  "ordering_projection_pairs F hash candidates now_monotonic st =
     res_bind (ordering_keys F hash candidates now_monotonic st) (\<lambda>keys. Inr (map (\<lambda>key. (within_flow_part key, flow_relative_part key)) keys))"

definition within_flow_ordering_keys ::
    "float_ops \<Rightarrow> (string \<Rightarrow> 64 word) \<Rightarrow> candidate list \<Rightarrow> xnum \<Rightarrow> sched \<Rightarrow> xnum list list res" where
  "within_flow_ordering_keys F hash candidates now_monotonic st =
     res_bind (require (\<forall>c \<in> set candidates. (ca_tenant_id c, ca_resource_id c, candidate_flow c) =
         (ca_tenant_id (hd candidates), ca_resource_id (hd candidates), candidate_flow (hd candidates))) ValueError) (\<lambda>_.
     res_bind (ordering_keys F hash candidates now_monotonic st) (\<lambda>keys. Inr (map within_flow_part keys)))"

definition flow_relative_ordering_keys ::
    "float_ops \<Rightarrow> (string \<Rightarrow> 64 word) \<Rightarrow> candidate list \<Rightarrow> xnum \<Rightarrow> sched \<Rightarrow> xnum list list res" where
  "flow_relative_ordering_keys F hash candidates now_monotonic st =
     res_bind (require (\<forall>c \<in> set candidates. (ca_tenant_id c, ca_resource_id c) =
         (ca_tenant_id (hd candidates), ca_resource_id (hd candidates))) ValueError) (\<lambda>_.
     res_bind (ordering_keys F hash candidates now_monotonic st) (\<lambda>keys. Inr (map flow_relative_part keys)))"

text \<open>\<^verbatim>\<open>min(candidates, key=...)\<close>: the first candidate with the least key.\<close>

fun first_least :: "(xnum list \<times> 'a) list \<Rightarrow> 'a option" where
  "first_least [] = None"
| "first_least ((k, x) # kxs) =
     Some (snd (fold (\<lambda>(k', y) best. if k' < fst best then (k', y) else best) kxs (k, x)))"

definition sched_select :: "float_ops \<Rightarrow> (string \<Rightarrow> 64 word) \<Rightarrow> candidate list \<Rightarrow> xnum \<Rightarrow> sched \<Rightarrow> int res" where
  "sched_select F hash candidates now_monotonic st =
     res_bind (validated_now now_monotonic) (\<lambda>now.
     res_bind (res_map (\<lambda>c. ordering_key F hash c now st) candidates) (\<lambda>keys.
     case first_least (zip keys candidates) of None \<Rightarrow> Inl ValueError | Some c \<Rightarrow> Inr (ca_ticket c)))"

section \<open>Batches and projections\<close>

lemma cached_snapshot: "(\<And>k v. map_of kvs k = Some v \<Longrightarrow> v = f k) \<Longrightarrow>
    the (map_of (cached k (f k) kvs) k) = f k \<and> (\<forall>k' v. map_of (cached k (f k) kvs) k' = Some v \<longrightarrow> v = f k')"
  by (auto simp: cached_def map_of_branch_set)

lemma project_keys_map:
  assumes "\<And>k v. map_of ts k = Some v \<Longrightarrow> v = tenant_snapshot hash st k" "\<And>k v. map_of rs k = Some v \<Longrightarrow> v = resource_snapshot hash st k"
    "\<And>k v. map_of fs k = Some v \<Longrightarrow> v = flow_snapshot hash st k"
  shows "project_keys F hash now st cs ts rs fs =
    res_map (\<lambda>c. ordering_key_from_snapshots F c now (tenant_snapshot hash st (ca_tenant_id c))
       (resource_snapshot hash st (resource_key (ca_tenant_id c) (ca_resource_id c)))
       (flow_snapshot hash st (flow_key (ca_tenant_id c) (ca_resource_id c) (candidate_flow c)))) cs"
  using assms
proof (induction cs arbitrary: ts rs fs)
  case (Cons c cs)
  let ?t = "ca_tenant_id c" let ?r = "resource_key ?t (ca_resource_id c)" let ?f = "flow_key ?t (ca_resource_id c) (candidate_flow c)"
  have T: "the (map_of (cached ?t (tenant_snapshot hash st ?t) ts) ?t) = tenant_snapshot hash st ?t"
    "\<And>k v. map_of (cached ?t (tenant_snapshot hash st ?t) ts) k = Some v \<Longrightarrow> v = tenant_snapshot hash st k"
    using cached_snapshot [where f = "tenant_snapshot hash st" and kvs = ts and k = ?t] Cons.prems(1) by blast+
  have R: "the (map_of (cached ?r (resource_snapshot hash st ?r) rs) ?r) = resource_snapshot hash st ?r"
    "\<And>k v. map_of (cached ?r (resource_snapshot hash st ?r) rs) k = Some v \<Longrightarrow> v = resource_snapshot hash st k"
    using cached_snapshot [where f = "resource_snapshot hash st" and kvs = rs and k = ?r] Cons.prems(2) by blast+
  have FS: "the (map_of (cached ?f (flow_snapshot hash st ?f) fs) ?f) = flow_snapshot hash st ?f"
    "\<And>k v. map_of (cached ?f (flow_snapshot hash st ?f) fs) k = Some v \<Longrightarrow> v = flow_snapshot hash st k"
    using cached_snapshot [where f = "flow_snapshot hash st" and kvs = fs and k = ?f] Cons.prems(3) by blast+
  have IH: "project_keys F hash now st cs (cached ?t (tenant_snapshot hash st ?t) ts) (cached ?r (resource_snapshot hash st ?r) rs)
      (cached ?f (flow_snapshot hash st ?f) fs) =
    res_map (\<lambda>c. ordering_key_from_snapshots F c now (tenant_snapshot hash st (ca_tenant_id c))
       (resource_snapshot hash st (resource_key (ca_tenant_id c) (ca_resource_id c)))
       (flow_snapshot hash st (flow_key (ca_tenant_id c) (ca_resource_id c) (candidate_flow c)))) cs"
    by (rule Cons.IH [OF T(2) R(2) FS(2)])
  show ?case unfolding project_keys.simps Let_def IH res_map.simps T(1) R(1) FS(1) ..
qed simp

text \<open>A batch ranks each candidate as it would be ranked alone.\<close>

lemma ordering_keys_each:
  "ordering_keys F hash cs now st = (if is_ok (validated_now now) then res_map (\<lambda>c. ordering_key F hash c now st) cs else Inl ValueError)"
proof -
  have "project_keys F hash now st cs [] [] [] = res_map (\<lambda>c. ordering_key F hash c now st) cs" if "validated_now now = Inr now"
    using that by (subst project_keys_map) (simp_all add: ordering_key_def)
  then show ?thesis by (auto simp: ordering_keys_def validated_now_def)
qed

lemma lex_append:
  fixes a b :: "'a :: linorder list"
  assumes "length a = length b"
  shows "a @ x < b @ y \<longleftrightarrow> a < b \<or> a = b \<and> x < y"
  using assms by (induction a b rule: list_induct2) auto

lemma lex_same_prefix: "(a :: 'a :: linorder list) @ x < a @ y \<longleftrightarrow> x < y"
  by (simp add: lex_append)

text \<open>Dropping a part that two keys share does not change their order.\<close>

lemma lex_drop_middle:
  fixes k k' :: "xnum list"
  assumes "length k = length k'" "i \<le> j" "j \<le> length k" "take (j - i) (drop i k) = take (j - i) (drop i k')"
  shows "k < k' \<longleftrightarrow> take i k @ drop j k < take i k' @ drop j k'"
proof -
  define m where "m = take (j - i) (drop i k)"
  have split: "l = take i l @ take (j - i) (drop i l) @ drop j l" if "length l = length k" for l :: "xnum list"
    using assms(2,3) that by (metis append_take_drop_id drop_drop le_add_diff_inverse2)
  have "k = take i k @ m @ drop j k" "k' = take i k' @ m @ drop j k'"
    using split [of k] split [of k'] assms(1,4) by (simp_all add: m_def)
  then have "k < k' \<longleftrightarrow> take i k @ (m @ drop j k) < take i k' @ (m @ drop j k')" by metis
  also have "\<dots> \<longleftrightarrow> take i k @ drop j k < take i k' @ drop j k'"
    using assms(1) by (subst (1 2) lex_append) (auto simp: lex_same_prefix)
  finally show ?thesis .
qed

lemma validated_now_eq: "validated_now now = Inr x \<longleftrightarrow> is_finite now \<and> \<not> now < Num 0 \<and> x = now"
  by (auto simp: validated_now_def)

lemma ordering_key_shape:
  assumes "ordering_key F hash c now st = Inr k"
  shows "length k = 22" "take 6 (drop 2 k) =
      map num_int [fst (snd (tenant_snapshot hash st (ca_tenant_id c))), fst (tenant_snapshot hash st (ca_tenant_id c)), snd (snd (tenant_snapshot hash st (ca_tenant_id c))),
        fst (snd (resource_snapshot hash st (resource_key (ca_tenant_id c) (ca_resource_id c)))),
        fst (resource_snapshot hash st (resource_key (ca_tenant_id c) (ca_resource_id c))),
        snd (snd (resource_snapshot hash st (resource_key (ca_tenant_id c) (ca_resource_id c))))]"
    "take 3 (drop 8 k) =
      map num_int [fst (snd (flow_snapshot hash st (flow_key (ca_tenant_id c) (ca_resource_id c) (candidate_flow c)))),
        fst (flow_snapshot hash st (flow_key (ca_tenant_id c) (ca_resource_id c) (candidate_flow c))),
        snd (snd (flow_snapshot hash st (flow_key (ca_tenant_id c) (ca_resource_id c) (candidate_flow c))))]"
  using assms by (auto simp: ordering_key_def ordering_key_from_snapshots_def res_simps)

lemma flow_relative_order:
  assumes k: "ordering_key F hash c now st = Inr k" "ordering_key F hash c' now st = Inr k'"
    and same: "ca_tenant_id c = ca_tenant_id c'" "ca_resource_id c = ca_resource_id c'"
  shows "k < k' \<longleftrightarrow> flow_relative_part k < flow_relative_part k'"
  unfolding flow_relative_part_def
  by (rule lex_drop_middle) (use ordering_key_shape [OF k(1)] ordering_key_shape [OF k(2)] same in simp_all)

lemma within_flow_order:
  assumes k: "ordering_key F hash c now st = Inr k" "ordering_key F hash c' now st = Inr k'"
    and same: "ca_tenant_id c = ca_tenant_id c'" "ca_resource_id c = ca_resource_id c'" "candidate_flow c = candidate_flow c'"
  shows "k < k' \<longleftrightarrow> within_flow_part k < within_flow_part k'"
  unfolding within_flow_part_def
proof (rule lex_drop_middle)
  note K = ordering_key_shape [OF k(1)] ordering_key_shape [OF k(2)]
  have split: "take 9 (drop 2 l) = take 6 (drop 2 l) @ take 3 (drop 8 l)" for l :: "xnum list"
    using take_add [of 6 3 "drop 2 l"] by simp
  show "take (11 - 2) (drop 2 k) = take (11 - 2) (drop 2 k')" using K same by (simp add: split)
qed (use ordering_key_shape [OF k(1)] ordering_key_shape [OF k(2)] in simp_all)

section \<open>Selection\<close>

definition better :: "xnum list \<times> 'a \<Rightarrow> xnum list \<times> 'a \<Rightarrow> xnum list \<times> 'a" where
  "better p best = (if fst p < fst best then p else best)"

lemma better_fold: "fold better ps best \<in> insert best (set ps) \<and> (\<forall>p \<in> insert best (set ps). fst (fold better ps best) \<le> fst p)"
proof (induction ps arbitrary: best)
  case (Cons p ps)
  have IH: "fold better ps (better p best) \<in> insert (better p best) (set ps)"
    "\<And>x. x \<in> insert (better p best) (set ps) \<Longrightarrow> fst (fold better ps (better p best)) \<le> fst x"
    using Cons.IH [of "better p best"] by blast+
  have b: "better p best = p \<or> better p best = best" "fst (better p best) \<le> fst p" "fst (better p best) \<le> fst best"
    by (auto simp: better_def not_less)
  have "fst (fold better ps (better p best)) \<le> fst x" if "x = best \<or> x = p \<or> x \<in> set ps" for x
    using that IH(2) [of "better p best"] IH(2) [of x] b(2,3) by fastforce
  then show ?case using IH(1) b(1) by auto
qed simp

lemma first_least_correct:
  assumes "kxs \<noteq> []"
  shows "\<exists>k x. (k, x) \<in> set kxs \<and> first_least kxs = Some x \<and> (\<forall>(k', y) \<in> set kxs. k \<le> k')"
proof -
  obtain k x rest where kxs: "kxs = (k, x) # rest" using assms by (cases kxs) auto
  have "(\<lambda>(k', y) best. if k' < fst best then (k', y) else best) = (better :: xnum list \<times> 'a \<Rightarrow> _)"
    by (auto simp: better_def fun_eq_iff)
  then have "first_least kxs = Some (snd (fold better rest (k, x)))" by (simp add: kxs)
  then show ?thesis
    using better_fold [of rest "(k, x)"] by (intro exI [of _ "fst (fold better rest (k, x))"] exI [of _ "snd (fold better rest (k, x))"]) (auto simp: kxs)
qed

text \<open>The selected ticket belongs to a candidate that no other precedes.\<close>

lemma select_least:
  assumes now: "validated_now now = Inr now" and keys: "res_map (\<lambda>c. ordering_key F hash c now st) cs = Inr ks" and ne: "cs \<noteq> []"
  shows "\<exists>c \<in> set cs. sched_select F hash cs now st = Inr (ca_ticket c) \<and>
    (\<exists>k. ordering_key F hash c now st = Inr k \<and> (\<forall>k' \<in> set ks. k \<le> k'))"
proof -
  have len: "length ks = length cs" using res_map_length [OF keys] .
  obtain k c where kc: "(k, c) \<in> set (zip ks cs)" "first_least (zip ks cs) = Some c" "\<forall>(k', y) \<in> set (zip ks cs). k \<le> k'"
    using first_least_correct [of "zip ks cs"] ne len by (cases cs; cases ks) auto
  obtain i where i: "i < length cs" "k = ks ! i" "c = cs ! i" using kc(1) len by (auto simp: in_set_zip)
  have "ordering_key F hash c now st = Inr k" using res_map_nth [OF keys i(1)] i by simp
  moreover have "\<forall>k' \<in> set ks. k \<le> k'"
  proof
    fix k' assume "k' \<in> set ks"
    then obtain j where "j < length ks" "k' = ks ! j" by (auto simp: in_set_conv_nth)
    then have "(k', cs ! j) \<in> set (zip ks cs)" using len by (auto simp: in_set_zip)
    then show "k \<le> k'" using kc(3) by auto
  qed
  moreover have "sched_select F hash cs now st = Inr (ca_ticket c)" using now keys kc(2) by (simp add: sched_select_def)
  ultimately show ?thesis using i by auto
qed

text \<open>
  Declared priority never beats service: among candidates whose deadline is neither at risk nor expired,
  the one whose tenant has received less service comes first.
\<close>

lemma service_before_priority:
  assumes k: "ordering_key F hash c now st = Inr k" "ordering_key F hash c' now st = Inr k'"
    and calm: "\<not> deadline_expired c now" "\<not> deadline_at_risk F c now" "\<not> deadline_expired c' now" "\<not> deadline_at_risk F c' now"
    and less: "fst (snd (tenant_snapshot hash st (ca_tenant_id c))) < fst (snd (tenant_snapshot hash st (ca_tenant_id c')))"
  shows "k < k'"
  using assms by (auto simp: ordering_key_def ordering_key_from_snapshots_def res_simps num_int_def validated_now_eq)

text \<open>A candidate whose deadline is neither at risk nor expired.\<close>

definition calm :: "float_ops \<Rightarrow> xnum \<Rightarrow> candidate \<Rightarrow> bool" where
  "calm F now c = (\<not> deadline_expired c now \<and> \<not> deadline_at_risk F c now)"

lemma selected_least_served:
  assumes now: "validated_now now = Inr now" and keys: "res_map (\<lambda>c. ordering_key F hash c now st) cs = Inr ks" and ne: "cs \<noteq> []"
  shows "\<exists>c \<in> set cs. sched_select F hash cs now st = Inr (ca_ticket c) \<and>
    (\<exists>k. ordering_key F hash c now st = Inr k \<and> (\<forall>l \<in> set ks. k \<le> l)) \<and>
    (\<forall>d \<in> set cs. calm F now c \<longrightarrow> calm F now d \<longrightarrow>
       fst (snd (tenant_snapshot hash st (ca_tenant_id c))) \<le> fst (snd (tenant_snapshot hash st (ca_tenant_id d))))"
proof -
  from select_least [OF assms] obtain c k where c: "c \<in> set cs" "sched_select F hash cs now st = Inr (ca_ticket c)"
    "ordering_key F hash c now st = Inr k" "\<forall>l \<in> set ks. k \<le> l" by blast
  have "fst (snd (tenant_snapshot hash st (ca_tenant_id c))) \<le> fst (snd (tenant_snapshot hash st (ca_tenant_id d)))"
    if d: "d \<in> set cs" and calm: "calm F now c" "calm F now d" for d
  proof (rule ccontr)
    assume less: "\<not> ?thesis"
    obtain i where i: "i < length cs" "d = cs ! i" using d by (auto simp: in_set_conv_nth)
    have l: "ordering_key F hash d now st = Inr (ks ! i)" using res_map_nth [OF keys i(1)] i(2) by simp
    have "ks ! i < k" by (rule service_before_priority [OF l c(3)]) (use calm less in \<open>simp_all add: calm_def\<close>)
    moreover have "k \<le> ks ! i" using c(4) i(1) res_map_length [OF keys] by simp
    ultimately show False by simp
  qed
  with c show ?thesis by blast
qed

end
