(* ===== verification/ServiceChanges.thy ===== *)
theory ServiceChanges
  imports Ordering
begin

text \<open>
  The change journal of the scheduling authority.  \<^verbatim>\<open>service_changes_since\<close> tells a cache which flows
  changed since a revision it has seen, or that it must rebuild.  The proofs follow the whole list of
  recorded changes, of which the authority retains the last 4096.
\<close>

section \<open>The retained window\<close>

definition numbered :: "string option list \<Rightarrow> (int \<times> string option) list" where
  "numbered hist = zip (map (\<lambda>i. int i + 1) [0..<length hist]) hist"

definition changes_log :: "string option list \<Rightarrow> sched \<Rightarrow> bool" where
  "changes_log hist st = (sa_generation st = int (length hist) \<and> sa_changes st = drop (length hist - 4096) (numbered hist))"

lemma numbered_length [simp]: "length (numbered hist) = length hist"
  by (simp add: numbered_def)

lemma numbered_snoc: "numbered (hist @ [x]) = numbered hist @ [(int (length hist) + 1, x)]"
  by (simp add: numbered_def)

lemma numbered_nth: "i < length hist \<Longrightarrow> numbered hist ! i = (int i + 1, hist ! i)"
  by (simp add: numbered_def)

lemma numbered_snd [simp]: "map snd (numbered hist) = hist"
  by (simp add: numbered_def)

lemma pushed_log:
  assumes "changes_log hist st" "pushed flow st st'"
  shows "changes_log (hist @ [flow]) st'"
proof -
  have "length hist - (length hist - 4096 + 4095) + (length hist - 4096) = length hist - 4095" by arith
  then show ?thesis using assms by (simp add: changes_log_def pushed_def numbered_snoc)
qed

lemma filter_drop_later:
  assumes "\<And>i. i < length xs \<Longrightarrow> P (xs ! i) \<longleftrightarrow> r \<le> i"
  shows "filter P (drop k xs) = drop (max k r) xs"
  using assms
proof (induction xs rule: rev_induct)
  case (snoc x xs)
  have "filter P (drop k xs) = drop (max k r) xs"
  proof (rule snoc.IH)
    fix i assume "i < length xs"
    then show "P (xs ! i) \<longleftrightarrow> r \<le> i" using snoc.prems [of i] by (simp add: nth_append)
  qed
  then show ?case using snoc.prems [of "length xs"] by (cases "k \<le> length xs"; cases "r \<le> length xs") auto
qed simp

lemma later_rows:
  "filter (\<lambda>row. int r < fst row) (drop k (numbered hist)) = drop (max k r) (numbered hist)"
  by (rule filter_drop_later) (auto simp: numbered_nth)

lemma rows_snd: "map snd rows = hs \<Longrightarrow> snd ` set rows = set hs" "map snd rows = hs \<Longrightarrow> map (\<lambda>row. the (snd row)) rows = map the hs"
  by (metis set_map) (auto simp: comp_def)

text \<open>The answer is exact: all changes since the revision, or a rebuild.\<close>

lemma changes_since_exact:
  assumes "changes_log (hist @ hs) st"
  shows "service_changes_since (Some (int (length hist))) st = (service_revision st,
    if length hs \<le> 4096 \<and> None \<notin> set hs then Some (map the hs) else None)"
proof -
  let ?n = "length hist" let ?k = "length hist + length hs - 4096"
  let ?rows = "drop (max ?k ?n) (numbered (hist @ hs))"
  have gen: "sa_generation st = int (?n + length hs)" "sa_changes st = drop ?k (numbered (hist @ hs))"
    using assms by (simp_all add: changes_log_def)
  have rows: "filter (\<lambda>row. int ?n < fst row) (sa_changes st) = ?rows" unfolding gen(2) by (rule later_rows)
  have len: "length ?rows = min (length hs) 4096" by auto
  show ?thesis
  proof (cases "length hs \<le> 4096")
    case False
    then have "hs \<noteq> []" by auto
    then show ?thesis using False gen(1) len by (simp add: service_changes_since_def Let_def rows service_revision_def)
  next
    case True
    then have max: "max ?k ?n = ?n" by simp
    have fst: "map fst ?rows = map (\<lambda>i. int ?n + int i + 1) [0..<length ?rows]"
      by (rule nth_equalityI) (simp_all add: max numbered_nth)
    have "map snd ?rows = hs" unfolding max drop_map [symmetric] by simp
    from rows_snd [OF this] have snd: "snd ` set ?rows = set hs" "map (\<lambda>row. the (snd row)) ?rows = map the hs" .
    have none: "(\<exists>row \<in> set ?rows. snd row = None) \<longleftrightarrow> None \<in> set hs" unfolding snd(1) [symmetric] by force
    have len': "length ?rows = length hs" using True len by simp
    show ?thesis
    proof (cases "hs = []")
      case False
      then have "\<not> Some (int ?n) = Some (sa_generation st)" "\<not> sa_generation st < int ?n" using gen(1) by simp_all
      then show ?thesis
        unfolding service_changes_since_def Let_def option.case rows fst none snd(2) unfolding len' service_revision_def
        using True gen(1) by (simp only: if_False simp_thms if_True) auto
    qed (simp add: service_changes_since_def gen(1) service_revision_def)
  qed
qed

section \<open>What a call records\<close>

definition call_flows :: "sched_call \<Rightarrow> string option list" where
  "call_flows call = (case call of Grant t r f n q \<Rightarrow> [Some (py_strip f)] | Rollback t r f n q \<Rightarrow> [Some (py_strip f)]
     | Complete t r f s n q \<Rightarrow> [Some (py_strip f)] | ReleaseFlow t r f \<Rightarrow> [Some (py_strip f)] | ReleaseResource t r \<Rightarrow> [None])"

definition unchanged_but :: "(string \<Rightarrow> 64 word) \<Rightarrow> string option list \<Rightarrow> sched \<Rightarrow> sched \<Rightarrow> bool" where
  "unchanged_but hash hs st st' = (\<forall>d. coord_ok d \<longrightarrow> Some (snd (snd d)) \<notin> set hs \<longrightarrow> flow_view hash st' d = flow_view hash st d)"

text \<open>One call records at most one change, and every flow it does not name looks as before.\<close>

definition call_recorded :: "(string \<Rightarrow> 64 word) \<Rightarrow> sched_call \<Rightarrow> sched \<Rightarrow> sched \<Rightarrow> bool" where
  "call_recorded hash call st st' = (\<forall>hist. changes_log hist st \<longrightarrow>
     (\<exists>hs. (hs = [] \<or> hs = call_flows call) \<and> changes_log (hist @ hs) st' \<and> unchanged_but hash hs st st'))"

lemma call_recorded_same: "call_recorded hash call st st"
  by (auto simp: call_recorded_def unchanged_but_def intro!: exI [of _ "[]"])

lemma journal_step_recorded:
  assumes "journal_step hash c st st'" "call_flows call = [Some (snd (snd c))]"
  shows "call_recorded hash call st st'"
  unfolding call_recorded_def
proof (intro allI impI)
  fix hist assume log: "changes_log hist st"
  from assms(1) consider "changes_log hist st'" "unchanged_but hash [] st st'"
    | "pushed (Some (snd (snd c))) st st'" "unchanged_but hash (call_flows call) st st'"
    using log assms(2) unfolding journal_step_def unchanged_but_def changes_log_def by (metis empty_iff list.set(1) list.set_intros(1))
  then show "\<exists>hs. (hs = [] \<or> hs = call_flows call) \<and> changes_log (hist @ hs) st' \<and> unchanged_but hash hs st st'"
  proof cases
    case 1
    then show ?thesis by (intro exI [of _ "[]"]) simp
  next
    case 2
    then show ?thesis using pushed_log [OF log 2(1)] assms(2) by (intro exI [of _ "call_flows call"]) simp
  qed
qed

lemma release_recorded:
  assumes inv: "sched_inv hash st" and a: "a < length (sa_entities st)" and call: "call_flows call = [change]"
  shows "call_recorded hash call st (release_entity a change st)"
  unfolding call_recorded_def
proof (intro allI impI)
  fix hist assume log: "changes_log hist st"
  have ix: "indexes_ok hash st" using inv by (simp add: sched_inv_def)
  let ?st = "release_entity a change st"
  have at: "entity_at hash ?st k d = entity_at hash st k d" for k d
    by (simp add: release_entity_def entity_at_def sched_index_def record_ordering_change_def upd_entity_def Let_def)
  have "flow_view hash ?st d = flow_view hash st d" for d
  proof (cases "entity_at hash st ''flow'' (ckey d)")
    case (Some b)
    then have "b < length (sa_entities st)" using indexes_okD(2) [OF ix _ Some] by simp
    then show ?thesis
      using Some release_field [OF a, of b en_in_flight change] release_field [OF a, of b en_service change]
        release_field [OF a, of b en_reserved change] release_field [OF a, of b en_last_grant change]
      by (simp add: flow_view_def at Let_def)
  qed (simp add: flow_view_def at)
  moreover have "pushed change st ?st"
    by (simp add: pushed_def release_entity_def record_ordering_change_def upd_entity_def Let_def)
  ultimately show "\<exists>hs. (hs = [] \<or> hs = call_flows call) \<and> changes_log (hist @ hs) ?st \<and> unchanged_but hash hs st ?st"
    using pushed_log [OF log] call by (intro exI [of _ "call_flows call"]) (simp add: unchanged_but_def)
qed

lemma release_flow_cases:
  "snd (release_flow hash t r f st) = st \<or>
   (\<exists>a k. index_get hash (sa_flows st) k = Some a \<and> snd (release_flow hash t r f st) = release_entity a (Some (py_strip f)) st)"
  by (cases "nonblank f"; cases "opt_nonblank t"; cases "opt_nonblank r";
      cases "index_get hash (sa_flows st) (flow_key (map_option py_strip t) (map_option py_strip r) (py_strip f))")
     (auto simp: release_flow_def sched_identity_def opt_identity act_bind_def act_lift_def)

lemma release_resource_cases:
  "snd (release_resource hash t r st) = st \<or>
   (\<exists>a k. index_get hash (sa_resources st) k = Some a \<and> snd (release_resource hash t r st) = release_entity a None st)"
  by (cases "nonblank r"; cases "opt_nonblank t";
      cases "index_get hash (sa_resources st) (the (resource_key (map_option py_strip t) (Some (py_strip r))))")
     (auto simp: release_resource_def resource_key_def sched_identity_def opt_identity act_bind_def act_lift_def)

lemma sched_do_recorded:
  assumes inv: "sched_inv hash st"
  shows "call_recorded hash call st (snd (sched_do hash call st))"
proof (cases call)
  case (Grant t r f n q)
  show ?thesis
  proof (cases "call_ok t r f \<and> 0 < n \<and> 0 \<le> q")
    case True
    then obtain st' where "snd (sched_do hash call st) = st'" "journal_step hash (call_coord t r f) st st'"
      using record_grant_outcome [OF inv, of t r f n q] Grant by auto
    then show ?thesis using journal_step_recorded Grant by (simp add: call_flows_def call_coord_def)
  next
    case False
    then show ?thesis using record_grant_invalid [OF False, of hash st] Grant call_recorded_same by simp
  qed
next
  case (Rollback t r f n q)
  show ?thesis
  proof (cases "call_ok t r f \<and> 0 < n \<and> 0 \<le> q")
    case True
    then obtain st' where "snd (sched_do hash call st) = st'" "journal_step hash (call_coord t r f) st st'"
      using rollback_outcome [OF inv, of t r f n q] Rollback by auto
    then show ?thesis using journal_step_recorded Rollback by (simp add: call_flows_def call_coord_def)
  next
    case False
    then show ?thesis using rollback_invalid [OF False, of hash st] Rollback call_recorded_same by simp
  qed
next
  case (Complete t r f s n q)
  show ?thesis
  proof (cases "call_ok t r f \<and> 0 < n \<and> 0 \<le> q \<and> 0 \<le> s")
    case True
    then obtain st' where "snd (sched_do hash call st) = st'" "journal_step hash (call_coord t r f) st st'"
      using completion_outcome [OF inv, of t r f n q s] Complete by auto
    then show ?thesis using journal_step_recorded Complete by (simp add: call_flows_def call_coord_def)
  next
    case False
    then show ?thesis using completion_invalid [OF False, of hash st] Complete call_recorded_same by simp
  qed
next
  case (ReleaseFlow t r f)
  then consider "snd (sched_do hash call st) = st"
    | a k where "index_get hash (sa_flows st) k = Some a" "snd (sched_do hash call st) = release_entity a (Some (py_strip f)) st"
    using release_flow_cases [of hash t r f st] by auto
  then show ?thesis
  proof cases
    case 2
    have "a < length (sa_entities st)"
      by (rule indexes_okD(2) [of hash st "''flow''" k]) (use inv 2(1) in \<open>simp_all add: sched_inv_def entity_at_def sched_index_def\<close>)
    then show ?thesis using release_recorded [OF inv] 2(2) ReleaseFlow by (simp add: call_flows_def)
  qed (simp add: call_recorded_same)
next
  case (ReleaseResource t r)
  then consider "snd (sched_do hash call st) = st"
    | a k where "index_get hash (sa_resources st) k = Some a" "snd (sched_do hash call st) = release_entity a None st"
    using release_resource_cases [of hash t r st] by auto
  then show ?thesis
  proof cases
    case 2
    have "a < length (sa_entities st)"
      by (rule indexes_okD(2) [of hash st "''resource''" k]) (use inv 2(1) in \<open>simp_all add: sched_inv_def entity_at_def sched_index_def\<close>)
    then show ?thesis using release_recorded [OF inv] 2(2) ReleaseResource by (simp add: call_flows_def)
  qed (simp add: call_recorded_same)
qed

lemma sched_calls_recorded:
  assumes "sched_inv hash st" "changes_log hist st"
  shows "\<exists>hs. changes_log (hist @ hs) (snd (run_calls (sched_do hash) calls st)) \<and> length hs \<le> length calls \<and>
    set hs \<subseteq> (\<Union>call \<in> set calls. set (call_flows call)) \<and> unchanged_but hash hs st (snd (run_calls (sched_do hash) calls st))"
  using assms
proof (induction calls arbitrary: st hist)
  case Nil
  then show ?case by (intro exI [of _ "[]"]) (simp add: unchanged_but_def)
next
  case (Cons call calls)
  let ?st = "snd (sched_do hash call st)"
  let ?last = "snd (run_calls (sched_do hash) calls ?st)"
  have fin: "snd (run_calls (sched_do hash) (call # calls) st) = ?last" by (auto split: prod.splits)
  from sched_do_recorded [OF Cons.prems(1), of call] Cons.prems(2)
  obtain hs where hs: "hs = [] \<or> hs = call_flows call" "changes_log (hist @ hs) ?st" "unchanged_but hash hs st ?st"
    unfolding call_recorded_def by blast
  from Cons.IH [OF sched_do_inv [OF Cons.prems(1)] hs(2)]
  obtain hs' where hs': "changes_log ((hist @ hs) @ hs') ?last" "length hs' \<le> length calls"
    "set hs' \<subseteq> (\<Union>call \<in> set calls. set (call_flows call))" "unchanged_but hash hs' ?st ?last" by blast
  have "length hs \<le> 1" using hs(1) by (auto simp: call_flows_def split: sched_call.splits)
  moreover have "unchanged_but hash (hs @ hs') st ?last" using hs(3) hs'(4) by (simp add: unchanged_but_def)
  moreover have "set (hs @ hs') \<subseteq> (\<Union>call \<in> set (call # calls). set (call_flows call))" using hs(1) hs'(3) by auto
  ultimately show ?case unfolding fin using hs' by (intro exI [of _ "hs @ hs'"]) simp
qed

lemma reachable_log: "sched_reachable hash st \<Longrightarrow> \<exists>hist. changes_log hist st"
proof -
  have "changes_log [] empty_sched" by (simp add: changes_log_def empty_sched_def numbered_def)
  then show "sched_reachable hash st \<Longrightarrow> ?thesis"
    using sched_calls_recorded [OF empty_sched_inv] unfolding sched_reachable_def by blast
qed

section \<open>What a reader may keep\<close>

lemma candidate_coord:
  assumes "candidate_post_init c0 = Inr c"
  shows "coord_ok (ca_tenant_id c, ca_resource_id c, candidate_flow c)"
  using assms
  by (auto simp: candidate_post_init_def res_simps coord_ok_def candidate_flow_def nonblank_def opt_nonblank_def split: option.splits)

lemma flow_view_snapshot: "flow_snapshot hash st (flow_key t r f) = flow_view hash st (t, r, f)"
  by (simp add: flow_snapshot_def state_snapshot_def flow_view_def entity_at_def sched_index_def ckey_def)

lemma flow_relative_from_view:
  assumes "ordering_key F hash c now st = Inr k" "ordering_key F hash c now st' = Inr k'"
    and "flow_view hash st' (ca_tenant_id c, ca_resource_id c, candidate_flow c) = flow_view hash st (ca_tenant_id c, ca_resource_id c, candidate_flow c)"
  shows "flow_relative_part k' = flow_relative_part k"
  using assms by (auto simp: ordering_key_def ordering_key_from_snapshots_def res_simps flow_relative_part_def flow_view_snapshot)

lemma changes_since_calls:
  assumes "sched_reachable hash st" "st' = snd (run_calls (sched_do hash) calls st)"
  obtains hs where "service_changes_since (Some (service_revision st)) st' = (service_revision st',
      if length hs \<le> 4096 \<and> None \<notin> set hs then Some (map the hs) else None)"
    "length hs \<le> length calls" "set hs \<subseteq> set (concat (map call_flows calls))" "unchanged_but hash hs st st'"
proof -
  obtain hist where hist: "changes_log hist st" using reachable_log [OF assms(1)] by blast
  from sched_calls_recorded [OF reachable_inv [OF assms(1)] hist, of calls] obtain hs where hs: "changes_log (hist @ hs) st'"
    "length hs \<le> length calls" "set hs \<subseteq> (\<Union>call \<in> set calls. set (call_flows call))" "unchanged_but hash hs st st'"
    unfolding assms(2) by blast
  have "service_revision st = int (length hist)" using hist by (simp add: service_revision_def changes_log_def)
  then show ?thesis using that changes_since_exact [OF hs(1)] hs(2-4) by auto
qed

lemma changes_since_sound:
  assumes "sched_reachable hash st" "st' = snd (run_calls (sched_do hash) calls st)"
  shows "fst (service_changes_since (Some (service_revision st)) st') = service_revision st' \<and>
    (\<forall>flows c0 c k l. snd (service_changes_since (Some (service_revision st)) st') = Some flows \<longrightarrow>
      candidate_post_init c0 = Inr c \<longrightarrow> candidate_flow c \<notin> set flows \<longrightarrow>
      ordering_key F hash c now st = Inr k \<longrightarrow> ordering_key F hash c now st' = Inr l \<longrightarrow> flow_relative_part l = flow_relative_part k)"
proof -
  obtain hs where hs: "service_changes_since (Some (service_revision st)) st' = (service_revision st',
      if length hs \<le> 4096 \<and> None \<notin> set hs then Some (map the hs) else None)" "unchanged_but hash hs st st'"
    using changes_since_calls [OF assms] by blast
  have "flow_relative_part l = flow_relative_part k"
    if flows: "(if length hs \<le> 4096 \<and> None \<notin> set hs then Some (map the hs) else None) = Some flows"
      and c: "candidate_post_init c0 = Inr c" "candidate_flow c \<notin> set flows"
      and k: "ordering_key F hash c now st = Inr k" "ordering_key F hash c now st' = Inr l" for flows c0 c k l
  proof (rule flow_relative_from_view [OF k])
    have "Some (candidate_flow c) \<notin> set hs" using flows c(2) by (force split: if_splits)
    then show "flow_view hash st' (ca_tenant_id c, ca_resource_id c, candidate_flow c) = flow_view hash st (ca_tenant_id c, ca_resource_id c, candidate_flow c)"
      using hs(2) candidate_coord [OF c(1)] unfolding unchanged_but_def by (metis snd_conv)
  qed
  then show ?thesis unfolding hs(1) fst_conv snd_conv by blast
qed

lemma changes_since_complete:
  assumes "sched_reachable hash st" "st' = snd (run_calls (sched_do hash) calls st)"
  shows "length calls \<le> 4096 \<longrightarrow> None \<notin> set (concat (map call_flows calls)) \<longrightarrow>
      (\<exists>flows. snd (service_changes_since (Some (service_revision st)) st') = Some flows \<and>
        Some ` set flows \<subseteq> set (concat (map call_flows calls)))"
proof (intro impI)
  assume n: "length calls \<le> 4096" and none: "None \<notin> set (concat (map call_flows calls))"
  obtain hs where hs: "service_changes_since (Some (service_revision st)) st' = (service_revision st',
      if length hs \<le> 4096 \<and> None \<notin> set hs then Some (map the hs) else None)"
    "length hs \<le> length calls" "set hs \<subseteq> set (concat (map call_flows calls))"
    using changes_since_calls [OF assms] by blast
  have "None \<notin> set hs" using hs(3) none by blast
  moreover from this have "Some (the x) = x" if "x \<in> set hs" for x using that by (cases x) auto
  then have "Some ` set (map the hs) = set hs" by (simp add: image_image)
  ultimately show "\<exists>flows. snd (service_changes_since (Some (service_revision st)) st') = Some flows \<and>
        Some ` set flows \<subseteq> set (concat (map call_flows calls))" using hs n by (intro exI [of _ "map the hs"]) simp
qed

end
