(* ===== verification/Samples.thy ===== *)
theory Samples
  imports JournalGc Hypergraph DirAuthority Supervision DurableDelivery ServiceWindow ServiceChanges
begin

text \<open>
  Concrete values on which the properties are evaluated: a host library whose digest is constant
  and whose float text is \<open>numerator.denominator\<close>, a first commit of a machine, and an executor,
  command and proposal that produce it.
\<close>

definition zeros :: string where
  "zeros = replicate 64 CHR ''0''"

definition sample_lib :: hostlib where
  "sample_lib = \<lparr>sha256_hex = (\<lambda>_. zeros),
     float_repr = (\<lambda>q. dec_int (fst (quotient_of q)) @ CHR ''.'' # dec_int (snd (quotient_of q)))\<rparr>"

lemma is_sha256_zeros [simp]: "is_sha256 zeros"
  by (simp add: is_sha256_def zeros_def list_all_iff)

lemma nonblank_zeros [simp]: "nonblank zeros"
  by (rule is_sha256_nonblank) simp

lemma sample_sha256 [simp]: "sha256_hex sample_lib x = zeros"
  by (simp add: sample_lib_def)

lemma sample_canonical_digest [simp]: "canonical_digest sample_lib v = zeros"
  by (simp add: canonical_digest_def)

lemma sample_content_digest [simp]: "json_content_digest sample_lib v = zeros"
  by (cases v) simp_all

lemma split_at_point:
  assumes "x @ CHR ''.'' # y = x' @ CHR ''.'' # y'" "CHR ''.'' \<notin> set x" "CHR ''.'' \<notin> set x'"
  shows "x = x' \<and> y = y'"
proof -
  have "takeWhile (\<lambda>c. c \<noteq> CHR ''.'') (x @ CHR ''.'' # y) = x"
    "takeWhile (\<lambda>c. c \<noteq> CHR ''.'') (x' @ CHR ''.'' # y') = x'"
    using assms(2,3) by (auto simp: takeWhile_append2 takeWhile_tail)
  with assms(1) show ?thesis by simp
qed

lemma dec_int_no_point: "CHR ''.'' \<notin> set (dec_int n)"
  using dec_int_chars [of "CHR ''.''" n] by (auto simp: digit_char_def)

lemma sample_float_repr_ok [simp]: "float_repr_ok sample_lib"
proof -
  have "inj (float_repr sample_lib)"
  proof (rule injI)
    fix p q assume "float_repr sample_lib p = float_repr sample_lib q"
    then have "dec_int (fst (quotient_of p)) = dec_int (fst (quotient_of q)) \<and>
        dec_int (snd (quotient_of p)) = dec_int (snd (quotient_of q))"
      by (intro split_at_point) (simp_all add: sample_lib_def dec_int_no_point)
    then have "quotient_of p = quotient_of q"
      by (auto simp: prod_eq_iff dest: dec_int_inj)
    then show "p = q" by (metis quotient_of_inject)
  qed
  then show ?thesis
    by (auto simp: float_repr_ok_def number_char_def sample_lib_def dest: dec_int_chars)
qed

section \<open>A first commit\<close>

definition sample_delta :: state_delta where
  "sample_delta = \<lparr>delta_mutations = [\<lparr>mut_path = [''x''], mut_value = JInt 1, mut_delete = False\<rparr>],
     delta_digest = zeros\<rparr>"

definition sample_emitted :: machine_command where
  "sample_emitted = \<lparr>cmd_command_id = ''c2'', cmd_machine_id = ''n'', cmd_expected_revision = 0, cmd_kind = ''k'',
     cmd_payload = JNull, cmd_scope = [], cmd_deadline_at = JNull, cmd_parent_command_id = JNull,
     cmd_idempotency_key = JNull, cmd_payload_digest = zeros\<rparr>"

definition sample_commit :: machine_commit where
  "sample_commit = \<lparr>com_machine_id = ''m'', com_command_id = ''c1'', com_base_revision = 0, com_revision = 1,
     com_proposal_digest = zeros, com_command_digest = zeros, com_unit_digest = zeros,
     com_execution_lock_digest = zeros, com_state = JObj [(''x'', JInt 1)], com_output_refs = [],
     com_event_payloads = [], com_effect_intent_refs = [], com_emitted_commands = [sample_emitted],
     com_previous_commit_id = None, com_before_state_digest = Some zeros, com_input_digest = Some zeros,
     com_machine_version = Some ''v1'', com_input_refs = [], com_state_delta_ref = Some zeros, com_evidence_refs = [],
     com_artifact_refs = [], com_parent_transition_id = None, com_attempt_id = Some zeros, com_authority_epoch = None,
     com_child_links = [], com_accepted_status = RUNNABLE, com_state_delta = Some sample_delta,
     com_state_content_digest = Some zeros, com_state_digest = zeros, com_commit_id = zeros\<rparr>"

lemma sample_nonblank [simp]: "nonblank ''m''" "nonblank ''n''" "nonblank ''k''" "nonblank ''v1''"
  "nonblank ''c1''" "nonblank ''c2''" "nonblank ''o1''" "nonblank ''o2''"
  by (simp_all add: nonblank_iff py_isspace_def)

lemmas construction_defs = commit_post_init_def commit_checks_def require_sha256_def opt_nonblank_def opt_sha256_def
  all_nonblank_def freeze_json_eq default_max_depth_def commit_content_anchor_def is_content_anchor_def
  state_identity_def

lemma sample_commit_ok: "commit_ok sample_lib sample_commit"
  by (simp add: commit_ok_def sample_commit_def sample_delta_def construction_defs)

lemma sample_delta_ok: "delta_ok sample_lib sample_delta"
  unfolding delta_ok_def sample_delta_def
  by (rule exI [of _ "[\<lparr>mut_path = [''x''], mut_value = JInt 1, mut_delete = False\<rparr>]"])
    (simp add: mutation_post_init_ok default_max_depth_def mk_state_delta_def validate_state_mutations_def)

lemma sample_emitted_ok: "command_ok sample_lib sample_emitted"
  by (simp add: command_ok_def command_post_init_def sample_emitted_def construction_defs)

section \<open>An executor\<close>

definition sample_lock :: execution_lock where
  "sample_lock = \<lparr>lock_code_digest = zeros, lock_dependency_digest = zeros, lock_schema_digest = zeros,
     lock_unit_machine_digest = zeros, lock_data_digest = zeros, lock_config_digest = zeros, lock_digest = zeros\<rparr>"

definition sample_unit :: unit_ref where
  "sample_unit = \<lparr>unit_digest = zeros, unit_state_schema = ''k'', unit_domain = ''k'', unit_version = ''v1'',
     unit_execution_lock = sample_lock\<rparr>"

definition sample_config :: exec_config where
  "sample_config = \<lparr>cfg_identity = \<lparr>ident_machine_id = ''m'', ident_implementation_version = ''v1'',
       ident_generation_id = ''v1''\<rparr>,
     cfg_unit = sample_unit, cfg_family = None, cfg_capabilities = [], cfg_lease = None\<rparr>"

definition sample_command :: machine_command where
  "sample_command = \<lparr>cmd_command_id = ''c1'', cmd_machine_id = ''m'', cmd_expected_revision = 0, cmd_kind = ''k'',
     cmd_payload = JNull, cmd_scope = [], cmd_deadline_at = JNull, cmd_parent_command_id = JNull,
     cmd_idempotency_key = JNull, cmd_payload_digest = zeros\<rparr>"

definition sample_proposal :: transition_proposal where
  "sample_proposal = \<lparr>prop_machine_id = ''m'', prop_command_id = ''c1'', prop_base_revision = 0,
     prop_state_delta = sample_delta, prop_emitted_commands = [sample_emitted], prop_output_refs = [],
     prop_event_payloads = [], prop_effect_intent_refs = [], prop_wait_reason = None, prop_accepted_status = None,
     prop_input_refs = [], prop_evidence_refs = [], prop_artifact_refs = [], prop_child_links = [],
     prop_state_delta_digest = zeros, prop_proposal_digest = zeros\<rparr>"

definition sample_propose :: "machine_command \<Rightarrow> machine_snapshot \<Rightarrow> transition_proposal res" where
  "sample_propose command state = Inr sample_proposal"

definition sample_snapshot :: machine_snapshot where
  "sample_snapshot = \<lparr>snap_machine_id = ''m'', snap_revision = 0, snap_unit = sample_unit, snap_state = JObj [],
     snap_parent_commit_id = None, snap_state_digest = zeros\<rparr>"

definition sample_snapshot1 :: machine_snapshot where
  "sample_snapshot1 = \<lparr>snap_machine_id = ''m'', snap_revision = 1, snap_unit = sample_unit,
     snap_state = JObj [(''x'', JInt 1)], snap_parent_commit_id = Some zeros, snap_state_digest = zeros\<rparr>"

definition sample_exec :: exec where
  "sample_exec = \<lparr>ex_snapshot = None, ex_status = READY, ex_proposer = None, ex_journal = empty_mem_journal,
     ex_store = None, ex_outbox = Some empty_outbox, ex_authority = None\<rparr>"

definition sample_opened :: exec where
  "sample_opened = sample_exec\<lparr>ex_snapshot := Some sample_snapshot\<rparr>"

definition sample_reading :: clock_reading where
  "sample_reading = \<lparr>rd_host = zeros, rd_boot = zeros, rd_elapsed = 1, rd_wall = 10\<rparr>"

abbreviation sample_step :: "machine_command \<Rightarrow> exec \<Rightarrow> machine_commit res \<times> exec" where
  "sample_step \<equiv> exec_step sample_lib sample_config sample_reading sample_reading 0 sample_propose"

definition sample_journal :: mem_journal where
  "sample_journal = snd (mem_append sample_commit empty_mem_journal)"

definition sample_envelope :: envelope where
  "sample_envelope = \<lparr>env_source_machine_id = ''m'', env_source_commit_id = zeros, env_command = sample_emitted,
     env_id = zeros, env_digest = zeros\<rparr>"

definition sample_receipt :: receipt where
  "sample_receipt = \<lparr>rcp_envelope_id = zeros, rcp_envelope_digest = zeros, rcp_status = DS_PENDING, rcp_attempt = 0,
     rcp_detail = None, rcp_digest = zeros\<rparr>"

definition sample_outbox :: outbox where
  "sample_outbox = \<lparr>out_envelopes = [(zeros, sample_envelope)], out_receipts = [zeros \<mapsto> sample_receipt]\<rparr>"

definition sample_stepped :: exec where
  "sample_stepped = \<lparr>ex_snapshot = Some sample_snapshot1, ex_status = RUNNABLE, ex_proposer = Some 0,
     ex_journal = sample_journal, ex_store = None, ex_outbox = Some sample_outbox, ex_authority = None\<rparr>"

lemma sample_command_ok: "command_ok sample_lib sample_command"
  by (simp add: command_ok_def command_post_init_def sample_command_def construction_defs)

lemma sample_proposal_ok: "sample_propose command state = Inr p \<Longrightarrow> proposal_ok sample_lib p"
  using sample_delta_ok sample_emitted_ok
  by (auto simp: sample_propose_def proposal_ok_def sample_proposal_def sample_delta_def)

lemma sample_exec_init: "executor_init sample_config empty_mem_journal None (Some empty_outbox) None = Inr sample_exec"
  by (simp add: executor_init_def sample_config_def sample_exec_def)

lemma sample_open: "exec_open sample_lib sample_config None sample_exec = (Inr sample_snapshot, sample_opened)"
  by (simp add: exec_open_def mem_head_def sample_config_def sample_exec_def empty_mem_journal_def
      snapshot_post_init_def construction_defs sample_snapshot_def sample_opened_def)

lemma sample_mem_append: "mem_append sample_commit empty_mem_journal = (Inr sample_commit, sample_journal)"
  by (simp add: sample_journal_def mem_append_def Let_def history_accept_def validate_next_def mem_history_def
      empty_mem_journal_def empty_history_def latest_of_def sample_commit_def)

lemma sample_commits: "mem_commits sample_journal ''m'' = [sample_commit]"
  by (simp add: sample_journal_def mem_append_def Let_def history_accept_def validate_next_def mem_history_def
      empty_mem_journal_def empty_history_def latest_of_def sample_commit_def mem_commits_def)

lemma sample_step_commit:
  "step_commit sample_lib sample_config sample_command sample_snapshot sample_proposal (JObj [(''x'', JInt 1)]) = Inr sample_commit"
  by (simp add: step_commit_def sample_config_def sample_command_def sample_snapshot_def sample_proposal_def
      sample_commit_def sample_unit_def sample_lock_def sample_delta_def construction_defs)

lemma sample_apply: "apply_machine_state_delta (JObj []) sample_delta = Inr (JObj [(''x'', JInt 1)])"
  by (simp add: apply_machine_state_delta_def sample_delta_def apply_mutation_group.simps mutation_runs_def
      dict_put_def freeze_json_object_reusing_eq default_max_depth_def)

lemma sample_snapshot_of: "snapshot_of_commit sample_lib sample_config sample_commit = Inr sample_snapshot1"
  by (simp add: snapshot_of_commit_def sample_config_def sample_commit_def snapshot_post_init_def construction_defs
      sample_snapshot1_def)

lemma sample_enqueue: "outbox_enqueue sample_lib sample_commit empty_outbox = (Inr [sample_envelope], sample_outbox)"
  by (simp add: outbox_enqueue_def sample_commit_def enqueue_one_def mk_envelope_def envelope_post_init_def
      prior_differs_def empty_outbox_def pending_receipt_def receipt_post_init_def act_bind_def act_lift_def Let_def
      sample_envelope_def sample_outbox_def sample_receipt_def)

lemma sample_step_proposal:
  "step_proposal sample_propose sample_command (sample_opened\<lparr>ex_proposer := Some 0\<rparr>) =
    Inr (sample_snapshot, sample_proposal, JObj [(''x'', JInt 1)])"
  by (simp add: step_proposal_def exec_require_open_def sample_opened_def sample_exec_def sample_propose_def
      validate_proposal_def sample_command_def sample_proposal_def sample_snapshot_def sample_apply sample_emitted_def)

lemma sample_select [simp]:
  "com_accepted_status sample_commit = RUNNABLE" "com_emitted_commands sample_commit = [sample_emitted]"
  "com_machine_id sample_commit = ''m''" "com_command_id sample_commit = ''c1''" "com_commit_id sample_commit = zeros"
  "com_base_revision sample_commit = 0" "com_revision sample_commit = 1"
  "cfg_family sample_config = None" "cfg_capabilities sample_config = []" "cfg_lease sample_config = None"
  "cfg_machine_id sample_config = ''m''" "cmd_machine_id sample_command = ''m''" "cmd_command_id sample_command = ''c1''"
  by (simp_all add: sample_commit_def sample_config_def sample_command_def)

lemma sample_step_ok: "sample_step sample_command sample_opened = (Inr sample_commit, sample_stepped)"
proof -
  have look: "existing_command sample_lib sample_config sample_command (sample_opened\<lparr>ex_proposer := Some 0\<rparr>) = Inr None"
    by (simp add: existing_command_def mem_command_commit_def sample_opened_def sample_exec_def empty_mem_journal_def
        sample_config_def sample_command_def)
  have auth: "assert_authority sample_config rd ex = (Inr (), ex)" for rd ex
    by (simp add: assert_authority_def sample_config_def split: option.split)
  have "append_commit sample_lib sample_config sample_commit (sample_opened\<lparr>ex_proposer := Some 0\<rparr>) =
      (Inr sample_commit, sample_stepped)"
    by (simp add: append_commit_def sample_opened_def sample_exec_def sample_mem_append publish_commit_def
        sample_snapshot_of act_bind_def outbox_send_def sample_enqueue sample_stepped_def)
  then have "step_fresh sample_lib sample_config sample_reading sample_reading sample_propose sample_command
      (sample_opened\<lparr>ex_proposer := Some 0\<rparr>) = (Inr sample_commit, sample_stepped)"
    by (simp add: step_fresh_def act_bind_def auth sample_step_proposal sample_step_commit)
  then show ?thesis
    by (simp add: exec_step_def step_admission_def look) (simp add: sample_opened_def sample_exec_def)
qed

lemma sample_wf [simp]: "mem_wf empty_mem_journal" "outbox_wf empty_outbox" "mem_commits empty_mem_journal m = []"
  by (simp_all add: mem_wf_def empty_mem_journal_def empty_outbox_def outbox_wf_def mem_commits_def)

lemma sample_opened_select [simp]: "ex_journal sample_opened = empty_mem_journal"
  "ex_outbox sample_opened = Some empty_outbox" "ex_snapshot sample_opened = Some sample_snapshot"
  by (simp_all add: sample_opened_def sample_exec_def)

lemma sample_commit_recordable: "commit_recordable sample_lib sample_commit"
  using sample_commit_ok sample_emitted_ok
  by (simp add: commit_recordable_def all_nonblank_def sample_commit_def)

section \<open>Leases\<close>

text \<open>A lease of owner \<open>o1\<close> that has expired at the sample reading, and the one \<open>o2\<close> then obtains.\<close>

definition sample_lease :: lease where
  "sample_lease = \<lparr>lease_machine_id = ''m'', lease_owner_id = ''o1'', lease_epoch = 1, lease_acquired_at = 1,
     lease_expires_at = 5, lease_host = zeros, lease_boot = zeros, lease_released = False, lease_digest = zeros\<rparr>"

definition sample_lease2 :: lease where
  "sample_lease2 = \<lparr>lease_machine_id = ''m'', lease_owner_id = ''o2'', lease_epoch = 2, lease_acquired_at = 10,
     lease_expires_at = 20, lease_host = zeros, lease_boot = zeros, lease_released = False, lease_digest = zeros\<rparr>"

definition sample_authority :: authority where
  "sample_authority = \<lparr>auth_leases = [''m'' \<mapsto> sample_lease], auth_anchor = None\<rparr>"

definition sample_authority2 :: authority where
  "sample_authority2 = \<lparr>auth_leases = [''m'' \<mapsto> sample_lease2],
     auth_anchor = Some \<lparr>anc_host = zeros, anc_boot = zeros, anc_elapsed = 1, anc_logical = 10\<rparr>\<rparr>"

lemma sample_lease_select [simp]: "lease_machine_id sample_lease = ''m''" "lease_owner_id sample_lease = ''o1''"
  "lease_epoch sample_lease = 1" "lease_machine_id sample_lease2 = ''m''" "lease_owner_id sample_lease2 = ''o2''"
  "lease_epoch sample_lease2 = 2" "auth_leases sample_authority = [''m'' \<mapsto> sample_lease]"
  "auth_leases sample_authority2 = [''m'' \<mapsto> sample_lease2]"
  by (simp_all add: sample_lease_def sample_lease2_def sample_authority_def sample_authority2_def)

lemma sample_authority_wf [simp]: "authority_wf sample_authority" "authority_wf sample_authority2"
  by (simp_all add: authority_wf_def)

lemma sample_acquire:
  "auth_acquire sample_lib sample_reading ''m'' ''o2'' 10 sample_authority = (Inr sample_lease2, sample_authority2)"
  by (simp add: auth_acquire_def ttl_value_def act_bind_def authority_now_def sample_authority_def
      anchor_from_reading_def sample_reading_def is_live_def sample_lease_def store_lease_def lease_post_init_def
      sample_lease2_def sample_authority2_def)

lemma sample_renew:
  "auth_renew sample_lib sample_reading sample_lease2 100 sample_authority2 =
    (Inr (sample_lease2\<lparr>lease_expires_at := 110\<rparr>),
     sample_authority2\<lparr>auth_leases := [''m'' \<mapsto> sample_lease2\<lparr>lease_expires_at := 110\<rparr>]\<rparr>)"
  by (simp add: auth_renew_def ttl_value_def act_bind_def authority_now_def sample_authority2_def sample_reading_def
      held_current_def is_live_def belongs_to_def store_lease_def lease_post_init_def sample_lease2_def)

section \<open>Reopening and resubmitting\<close>

text \<open>A process that stopped between the journal append and the outbox enqueue, and one with a second commit.\<close>

definition sample_crashed :: exec where
  "sample_crashed = sample_exec\<lparr>ex_journal := sample_journal\<rparr>"

definition sample_reopened :: exec where
  "sample_reopened = sample_stepped\<lparr>ex_proposer := None\<rparr>"

definition ones :: string where
  "ones = replicate 64 CHR ''1''"

definition sample_commit2 :: machine_commit where
  "sample_commit2 = sample_commit\<lparr>com_command_id := ''c2'', com_base_revision := 1, com_revision := 2,
     com_previous_commit_id := Some zeros, com_commit_id := ones\<rparr>"

definition sample_journal2 :: mem_journal where
  "sample_journal2 = snd (mem_append sample_commit2 sample_journal)"

definition sample_two :: exec where
  "sample_two = sample_stepped\<lparr>ex_journal := sample_journal2\<rparr>"

lemma sample_history:
  "mem_histories sample_journal = [''m'' \<mapsto> \<lparr>hist_commits = [sample_commit], hist_by_command = [''c1'' \<mapsto> sample_commit],
     hist_by_commit = [zeros \<mapsto> sample_commit], hist_has_emitted = True\<rparr>]"
  by (simp add: sample_journal_def mem_append_def Let_def history_accept_def validate_next_def mem_history_def
      empty_mem_journal_def empty_history_def latest_of_def sample_commit_def)

lemma is_sha256_ones [simp]: "is_sha256 ones"
  by (simp add: is_sha256_def ones_def list_all_iff)

lemma ones_zeros [simp]: "ones \<noteq> zeros" "zeros \<noteq> ones"
  by (simp_all add: ones_def zeros_def)

lemma sample_history2:
  "mem_histories sample_journal2 = [''m'' \<mapsto> \<lparr>hist_commits = [sample_commit, sample_commit2],
     hist_by_command = [''c1'' \<mapsto> sample_commit, ''c2'' \<mapsto> sample_commit2],
     hist_by_commit = [zeros \<mapsto> sample_commit, ones \<mapsto> sample_commit2], hist_has_emitted = True\<rparr>]"
  by (simp add: sample_journal2_def mem_append_def Let_def history_accept_def validate_next_def mem_history_def
      sample_history latest_of_def sample_commit2_def sample_commit_def [THEN arg_cong, of com_unit_digest])

lemma sample_journals_wf [simp]: "mem_wf sample_journal" "mem_wf sample_journal2"
proof -
  show "mem_wf sample_journal" using mem_append_wf [of empty_mem_journal sample_commit] by (simp add: sample_journal_def)
  then show "mem_wf sample_journal2"
    using mem_append_wf [of sample_journal sample_commit2] by (simp add: sample_journal2_def sample_commit2_def)
qed

lemma sample_reopen: "exec_open sample_lib sample_config None sample_crashed = (Inr sample_snapshot1, sample_reopened)"
proof -
  have u: "assert_commit_unit_identity sample_config sample_commit = Inr ()"
    by (simp add: assert_commit_unit_identity_def sample_config_def sample_commit_def sample_unit_def sample_lock_def)
  show ?thesis
    by (simp add: exec_open_def mem_head_def sample_crashed_def sample_history latest_of_def open_head_def u
        sample_exec_def sample_snapshot_of act_bind_def act_lift_def exec_reconcile_outbox_def sample_commits
        outbox_reconcile_def sample_enqueue sample_reopened_def sample_stepped_def)
qed

lemma sample_enqueue_again: "outbox_enqueue sample_lib sample_commit sample_outbox = (Inr [sample_envelope], sample_outbox)"
  by (simp add: outbox_enqueue_def enqueue_one_def mk_envelope_def envelope_post_init_def prior_differs_def
        sample_outbox_def pending_receipt_def receipt_post_init_def act_bind_def act_lift_def Let_def
        sample_envelope_def sample_receipt_def)

lemma sample_resubmit: "sample_step sample_command sample_two = (Inr sample_commit, sample_two)"
proof -
  have u: "assert_commit_unit_identity sample_config sample_commit = Inr ()"
    by (simp add: assert_commit_unit_identity_def sample_config_def sample_commit_def sample_unit_def sample_lock_def)
  have look: "existing_command sample_lib sample_config sample_command sample_two = Inr (Some sample_commit)"
    by (simp add: existing_command_def mem_command_commit_def sample_two_def sample_history2 u command_post_init_def
        construction_defs sample_command_def sample_commit_def [THEN arg_cong, of com_command_digest])
  have same: "sample_two\<lparr>ex_proposer := Some 0\<rparr> = sample_two" by (simp add: sample_two_def sample_stepped_def)
  show ?thesis
    by (simp add: exec_step_def step_admission_def same look publish_commit_def sample_snapshot_of)
      (simp add: sample_two_def sample_stepped_def act_bind_def outbox_send_def sample_enqueue_again)
qed

section \<open>Sizes and stored snapshots\<close>

text \<open>With a constant digest only values without proper parts are free of collisions, as here.\<close>

definition sample_blank :: machine_commit where
  "sample_blank = sample_commit\<lparr>com_state := JObj [], com_state_delta := None\<rparr>"

lemma sample_blank_ok: "commit_ok sample_lib sample_blank" "commit_ok sample_lib (sample_blank\<lparr>com_state_delta := Some sample_delta\<rparr>)"
  by (simp_all add: commit_ok_def sample_blank_def sample_commit_def sample_delta_def construction_defs)

lemma same_no_collision: "\<not> digest_collision L v v" "\<not> sha256_collision L (JObj []) (JObj [])"
  by (simp_all add: digest_collision_def sha256_collision_def)

definition sample_delta2 :: state_delta where
  "sample_delta2 = \<lparr>delta_mutations = [\<lparr>mut_path = [''x''], mut_value = JInt 1, mut_delete = False\<rparr>,
     \<lparr>mut_path = [''y'', ''x''], mut_value = JNull, mut_delete = True\<rparr>], delta_digest = zeros\<rparr>"

lemma sample_delta2_ok: "delta_ok sample_lib sample_delta2"
  unfolding delta_ok_def sample_delta2_def
  by (rule exI [of _ "[\<lparr>mut_path = [''y'', ''x''], mut_value = JNull, mut_delete = True\<rparr>,
      \<lparr>mut_path = [''x''], mut_value = JInt 1, mut_delete = False\<rparr>]"])
    (simp add: mutation_post_init_ok default_max_depth_def mk_state_delta_def validate_state_mutations_def)

lemma sample_snapshot_ok: "snapshot_ok sample_lib None sample_snapshot"
  by (simp add: snapshot_ok_def unit_ok_def lock_ok_def sample_snapshot_def sample_unit_def sample_lock_def
      snapshot_post_init_def execution_lock_post_init_def unit_ref_post_init_def construction_defs)

text \<open>A digest that is constant but on the identity document of one snapshot with a digest hint.\<close>

definition sample_hinted :: machine_snapshot where
  "sample_hinted = \<lparr>snap_machine_id = ''m'', snap_revision = 1, snap_unit = sample_unit,
     snap_state = JObj [], snap_parent_commit_id = Some zeros, snap_state_digest = ones\<rparr>"

definition sample_lib2 :: hostlib where
  "sample_lib2 = sample_lib\<lparr>sha256_hex := (\<lambda>x. if x = canonical_bytes sample_lib (snapshot_id_doc sample_hinted)
     then ones else zeros)\<rparr>"

lemma canonical_text_float: "float_repr K = float_repr L \<Longrightarrow> canonical_text K v = canonical_text L v"
  by (induction v rule: canonical_text.induct [where ?a0.0 = K]) (auto simp: comp_def cong: map_cong)

lemma sample_lib2_bytes: "canonical_bytes sample_lib2 v = canonical_bytes sample_lib v"
  using canonical_text_float [of sample_lib2 sample_lib v] by (simp add: canonical_bytes_def sample_lib2_def)

lemma sample_lib2_ok: "sha_ok sample_lib2" "float_repr_ok sample_lib2"
  using sample_float_repr_ok by (simp_all add: float_repr_ok_def sample_lib2_def ones_def zeros_def is_sha256_def list_all_iff)

lemma sample_lib2_digest: "canonical_digest sample_lib2 v = (if v = snapshot_id_doc sample_hinted then ones else zeros)"
  using canonical_bytes_inj [OF sample_float_repr_ok]
  by (auto simp: canonical_digest_def sample_lib2_bytes) (auto simp: sample_lib2_def)

lemma sample_hinted_content: "json_content_digest sample_lib2 (JObj []) = zeros"
  by (simp add: sample_lib2_def canonical_bytes_def snapshot_id_doc_def jobj_def object_preimage_def merkle_tag_def utf8_def utf8_char_def)

lemma sample_hinted_apart:
  "\<not> digest_collision sample_lib2 (snapshot_id_doc (sample_hinted\<lparr>snap_state_digest := zeros\<rparr>)) (snapshot_id_doc sample_hinted)"
proof -
  have "snapshot_id_doc (sample_hinted\<lparr>snap_state_digest := zeros\<rparr>) \<noteq> snapshot_id_doc sample_hinted"
    unfolding snapshot_id_doc_def by (subst jobj_eq_iff) (simp_all add: sample_hinted_def)
  then show ?thesis by (simp add: digest_collision_def flip: canonical_digest_def) (simp add: sample_lib2_digest)
qed

lemma sample_hinted_ok: "snapshot_ok sample_lib2 (Some ones) sample_hinted"
proof -
  have "jobj (lock_payload sample_lock) \<noteq> snapshot_id_doc sample_hinted"
    by (simp add: jobj_def snapshot_id_doc_def lock_payload_def)
      (rule notI, drule arg_cong [of _ _ "\<lambda>d. ''unit'' \<in> fst ` set d"], simp add: keys_dict_of)
  then have digest: "canonical_digest sample_lib2 (jobj (lock_payload sample_lock)) = zeros" by (simp add: sample_lib2_digest)
  have "lock_ok sample_lib2 sample_lock"
    by (simp add: lock_ok_def execution_lock_post_init_def digest) (simp add: sample_lock_def construction_defs)
  then show ?thesis
    by (simp add: snapshot_ok_def unit_ok_def sample_hinted_def sample_unit_def snapshot_post_init_def
        unit_ref_post_init_def construction_defs)
qed

section \<open>A directory journal\<close>

definition sample_dir :: dir_journal where
  "sample_dir = \<lparr>dj_interval = 1, dj_logs = Map.empty, dj_anchors = Map.empty, dj_retired = (\<lambda>_. False),
     dj_cache = Map.empty, dj_index = Map.empty\<rparr>"

lemma sample_dir_init: "dir_journal_init 1 = Inr sample_dir"
  by (simp add: dir_journal_init_def sample_dir_def)

lemma sample_dir_ok: "dj_ok sample_lib sample_dir m empty_history" "index_ok sample_dir m cs"
  by (simp_all add: dj_ok_def dj_log_def index_ok_def sample_dir_def)

text \<open>An accelerated cache over a file of one record.\<close>

definition sample_cache :: journal_cache where
  "sample_cache = \<lparr>jc_history = empty_history, jc_seen = Some [JNull], jc_complete = False,
      jc_command_tokens = prefix_tokens True (log_bytes sample_lib [JNull]), jc_commit_tokens = []\<rparr>"

definition sample_accelerated :: dir_journal where
  "sample_accelerated = sample_dir\<lparr>dj_logs := [''m'' \<mapsto> [JNull]], dj_cache := [''m'' \<mapsto> sample_cache]\<rparr>"

lemma sample_reachable: "(exec_op sample_lib sample_config)\<^sup>*\<^sup>* sample_exec sample_stepped"
proof -
  have "exec_op sample_lib sample_config sample_exec sample_opened" by (rule exec_op.opened [OF sample_open]) simp
  moreover have "exec_op sample_lib sample_config sample_opened sample_stepped"
    by (rule exec_op.stepped [OF sample_step_ok]) (rule sample_proposal_ok)
  ultimately show ?thesis by simp
qed

section \<open>Children, durable services and graphs\<close>

definition sample_link :: child_link where
  "sample_link = \<lparr>link_parent_machine_id = ''m'', link_child_machine_id = ''n'', link_child_unit_digest = zeros,
     link_child_execution_lock_digest = zeros, link_child_snapshot_ref = ''k'', link_child_transition_start = 0,
     link_child_transition_end = 0, link_child_result_ref = None, link_failure_policy = ''k'', link_digest = zeros\<rparr>"

definition sample_child :: child_record where
  "sample_child = \<lparr>rec_link = sample_link, rec_status = CS_CREATED, rec_revision = 0, rec_result_ref = None,
     rec_error_ref = None, rec_digest = zeros\<rparr>"

definition sample_canceled :: child_record where
  "sample_canceled = sample_child\<lparr>rec_status := CS_CANCELED, rec_error_ref := Some ''k''\<rparr>"

lemma sample_link_ok: "child_link_ok sample_lib sample_link"
  by (simp add: child_link_ok_def child_link_post_init_def require_sha256_def sample_link_def opt_nonblank_def)

lemma sample_register: "sup_register sample_lib sample_link [] = (Inr sample_child, [(''n'', sample_child)])"
  by (simp add: sup_register_def mk_record_def record_post_init_def opt_nonblank_def sample_child_def)
    (simp add: sample_link_def)

lemma sample_cancel:
  "sup_cancel sample_lib ''n'' ''k'' [(''n'', sample_child)] = (Inr sample_canceled, [(''n'', sample_canceled)])"
  by (simp add: sup_cancel_def mk_record_def record_post_init_def opt_nonblank_def sample_child_def sup_observe_def
      child_terminal_def sample_canceled_def) (simp add: sample_link_def)

lemma sample_children: "(sup_step sample_lib)\<^sup>*\<^sup>* [] [(''n'', sample_child)]"
    "(sup_step sample_lib)\<^sup>*\<^sup>* [(''n'', sample_child)] [(''n'', sample_canceled)]"
  using sup_step.register [OF sample_link_ok sample_register] sup_step.cancel [OF sample_cancel] by blast+

definition sample_str :: "json \<Rightarrow> string" where
  "sample_str v = (case v of JStr s \<Rightarrow> s | _ \<Rightarrow> [])"

lemma sample_str_ok: "str_of_text sample_str"
  by (simp add: str_of_text_def sample_str_def)

lemma sample_emits_ok: "emits_ok sample_lib sample_commit"
  using sample_emitted_ok by (simp add: emits_ok_def sample_commit_def)

lemma remdups_enumeration: "set_enumeration remdups"
  by (simp add: set_enumeration_def)

lemma sample_enqueue_one: "enqueue_one sample_lib sample_commit sample_emitted empty_outbox = (Inr sample_envelope, sample_outbox)"
proof -
  obtain r ob where o: "enqueue_one sample_lib sample_commit sample_emitted empty_outbox = (r, ob)"
    by (cases "enqueue_one sample_lib sample_commit sample_emitted empty_outbox")
  have "com_emitted_commands sample_commit = [sample_emitted]" by (simp add: sample_commit_def)
  with o sample_enqueue show ?thesis
    by (auto simp: outbox_enqueue_def act_bind_def act_lift_def split: sum.splits)
qed

lemma sample_acquire_first:
  "auth_acquire sample_lib sample_reading ''m'' ''o2'' 10 empty_authority =
    (Inr (sample_lease2\<lparr>lease_epoch := 1\<rparr>), sample_authority2\<lparr>auth_leases := [''m'' \<mapsto> sample_lease2\<lparr>lease_epoch := 1\<rparr>]\<rparr>)"
  by (simp add: auth_acquire_def ttl_value_def act_bind_def authority_now_def empty_authority_def
      anchor_from_reading_def sample_reading_def store_lease_def lease_post_init_def
      sample_lease2_def sample_authority2_def)

text \<open>A lease of \<open>o1\<close>, and a reading on the same boot after it expired.\<close>

definition sample_old :: lease where
  "sample_old = sample_lease\<lparr>lease_acquired_at := 10, lease_expires_at := 14\<rparr>"

definition sample_later :: clock_reading where
  "sample_later = sample_reading\<lparr>rd_elapsed := 100\<rparr>"

definition sample_history_calls :: "auth_call list" where
  "sample_history_calls = [Acquire sample_reading ''m'' ''o1'' 4]"

lemma sample_old_machine: "lease_machine_id sample_old = ''m''" "lease_owner_id sample_old = ''o1''"
  by (simp_all add: sample_old_def)

lemma sample_history_machine: "list_all (\<lambda>c. auth_call_machine c = ''m'') sample_history_calls"
  by (simp add: sample_history_calls_def)

lemma sample_old_held:
  "is_ok (fst (mem_auth_call sample_lib (Assert sample_reading sample_old)
     (snd (run_calls (mem_auth_call sample_lib) sample_history_calls empty_authority))))"
  "is_ok (fst (mem_auth_call sample_lib (Acquire sample_later ''m'' ''o2'' 10)
     (snd (run_calls (mem_auth_call sample_lib) sample_history_calls empty_authority))))"
  by (simp_all add: sample_history_calls_def act_answer_def auth_acquire_def auth_assert_held_def act_lift_def ttl_value_def
      act_bind_def authority_now_def empty_authority_def anchor_from_reading_def sample_reading_def sample_later_def
      store_lease_def lease_post_init_def sample_lease_def sample_old_def held_current_def is_live_def belongs_to_def)

lemma sample_dir_calls:
  assumes "auth_call_machine c = ''m''"
  shows "fst (dir_auth_call sample_lib sample_str c (snd (run_calls (dir_auth_call sample_lib sample_str) sample_history_calls
      \<lparr>da_leases = Map.empty, da_anchor = None\<rparr>))) =
    fst (mem_auth_call sample_lib c (snd (run_calls (mem_auth_call sample_lib) sample_history_calls empty_authority)))"
  by (rule dirauth.answers_after [where M = "{''m''}"])
    (use assms sample_str_ok empty_auth_files [of sample_lib "{''m''}"] in \<open>simp_all add: sample_history_calls_def\<close>)

section \<open>A journal to retire\<close>

definition sample_doc :: json where
  "sample_doc = jobj (commit_document_fields sample_commit (''snapshot'', com_state sample_commit))"

lemma sample_log: "\<exists>h. log_holds sample_lib ''m'' [sample_doc] h \<and> hist_commits h = [strip sample_commit]"
proof -
  have doc: "commit_document sample_commit (map_option com_state (latest_of (hist_commits empty_history))) True = Inr sample_doc"
    by (simp add: commit_document_def state_record_def sample_doc_def)
  have val: "validate_next empty_history (strip sample_commit) = Inr None"
    by (simp add: validate_next_def empty_history_def strip_def sample_commit_def)
  then obtain a h where acc: "history_accept empty_history (strip sample_commit) = Inr (a, h)" by (simp add: history_accept_def)
  have sha: "is_sha256 (sha256_hex sample_lib x)" for x by simp
  have m: "com_machine_id sample_commit = ''m''" by (simp add: sample_commit_def)
  have cont: "continues_state sample_lib (map_option com_state (latest_of (hist_commits empty_history)))
      (map_option com_state_digest (latest_of (hist_commits empty_history))) sample_commit"
    by (simp add: empty_history_def continues_state_def)
  from log_holds_snoc [OF sha log_holds_Nil sample_commit_recordable m val cont doc acc] show ?thesis
    by (auto simp: empty_history_def)
qed

definition sample_generation :: generation where
  "sample_generation = \<lparr>gen_kind = REGULAR_FILE, gen_device = 1, gen_inode = 2, gen_change_time = 3\<rparr>"

definition sample_store :: journal_store where
  "sample_store = \<lparr>js_journal = sample_dir\<lparr>dj_logs := [''m'' \<mapsto> [sample_doc]]\<rparr>, js_generation = (\<lambda>_. sample_generation),
     js_retirements = Map.empty, js_quarantine = Map.empty, js_budget = 0\<rparr>"

definition sample_closures :: "closure list" where
  "sample_closures = map (\<lambda>a. \<lparr>clo_authority = a, clo_proof_digest = zeros, clo_retained = []\<rparr>)
     [CA_EVIDENCE, CA_EXECUTION, CA_RECOVERY]"

definition sample_gc :: gc_assessment where
  "sample_gc = \<lparr>gc_machine_id = ''m'', gc_commit_id = zeros, gc_revision = 1, gc_sha256 = zeros,
     gc_size = int (length (log_line sample_lib sample_doc)), gc_closures = sample_closures, gc_proof = zeros\<rparr>"

lemma sample_eligible: "gc_eligible sample_closures = Inr True"
  by (simp add: gc_eligible_closed sample_closures_def)

lemma sample_assess: "assess_gc sample_lib sample_str ''m'' sample_closures sample_store = Inr sample_gc"
proof -
  obtain h where h: "log_holds sample_lib ''m'' [sample_doc] h" "hist_commits h = [strip sample_commit]" using sample_log by blast
  have "read_authoritative sample_lib (js_journal sample_store) ''m'' False = Inr (full_cache h (Some [sample_doc]))"
    using log_holds_read [OF h(1)] by (simp add: read_authoritative_def sample_store_def sample_dir_def load_recovery_anchor_def)
  then have ident: "gc_identity sample_lib ''m'' sample_store = Inr (zeros, 1, zeros, int (length (log_line sample_lib sample_doc)))"
    using h(2) by (simp add: gc_identity_def sample_store_def full_cache_def latest_of_def strip_def sample_commit_def)
  have "validate_closures sample_closures = Inr sample_closures"
    using sample_eligible by (auto simp: gc_eligible_def closure_complete_def res_simps validate_closures_def Let_def split: if_splits)
  then show ?thesis
    using ident log_line_pos [of sample_lib sample_doc]
    by (simp add: assess_gc_def load_retirement_def sample_store_def [THEN arg_cong, of js_retirements]
        sample_store_def [THEN arg_cong, of js_quarantine] assessment_post_init_def require_sha256_def sample_gc_def py_strip_def py_isspace_def)
qed

lemma sample_store_fresh: "js_retirements sample_store ''m'' = None" "\<not> dj_retired (js_journal sample_store) ''m''"
    "gen_ok (js_generation sample_store ''m'')" "carrier_of sample_store ''m'' = Some [sample_doc]"
  by (simp_all add: sample_store_def sample_dir_def sample_generation_def gen_ok_def generation_post_init_def carrier_of_def)

lemma sample_purged:
  assumes "6 \<le> n" "0 \<le> now"
  shows "carrier_of (snd (gc_attempt sample_lib sample_str sample_gc (n, now) sample_store)) ''m'' = None"
proof -
  have "sha_ok sample_lib" by simp
  from assess_gc_stage [OF this sample_assess sample_eligible sample_store_fresh(1-3)] obtain docs
    where gc: "gc_ok sample_gc" "gc_machine_id sample_gc = ''m''" "gc_stage sample_lib sample_gc docs sample_store" by blast
  have "gc_purged sample_lib sample_gc docs (snd (gc_attempt sample_lib sample_str sample_gc (n, now) sample_store))"
    using gc_attempt_progress(3) [OF sample_str_ok gc(1) _ gc(3), of "(n, now)"] assms by simp
  from gc_purged_refuses(1,2) [OF this] gc(2) show ?thesis by (simp add: carrier_of_def)
qed

section \<open>A service window\<close>

text \<open>Exact arithmetic as the float operations, and a square root rounded up to a whole number.\<close>

definition exact_floats :: floats where
  "exact_floats = \<lparr>fl_add = (+), fl_div = (/), fl_sqrt = (\<lambda>n. if n \<le> 1 then 1 else 2)\<rparr>"

lemma exact_floats_ok: "floats_ok exact_floats"
  using tiny_pos by (auto simp: floats_ok_def exact_floats_def)

definition sample_policy :: window_policy where
  "sample_policy = \<lparr>pol_min_limit = 1, pol_start_limit = None, pol_digest = zeros\<rparr>"

definition sample_window :: window where
  "sample_window = \<lparr>win_policy = sample_policy, win_max = 4, win_min = 1, win_limit = 2, win_clean = 0, win_suspended = False,
     win_sequence = 0, win_history = [], win_service_sum = 0, win_service_count = 0, win_parent_limit = None,
     win_parent_throughput = None\<rparr>"

lemma sample_window_init: "window_init exact_floats 4 sample_policy None = Inr sample_window"
  by (simp add: window_init_def window_start_def sample_policy_def exact_floats_def sample_window_def)

text \<open>A scheduling authority after one grant, with a hash under which all keys collide.\<close>

definition sample_hash :: "string \<Rightarrow> 64 word" where
  "sample_hash key = 0"

definition sample_calls :: "sched_call list" where
  "sample_calls = [Grant (Some ''t'') (Some ''r'') ''f'' 2 3]"

definition sample_sched :: sched where
  "sample_sched = snd (run_calls (sched_do sample_hash) sample_calls empty_sched)"

lemma sample_sched_reachable: "sched_reachable sample_hash sample_sched"
  unfolding sched_reachable_def sample_sched_def by blast

lemma sample_call_ok: "call_ok (Some ''t'') (Some ''r'') ''f''"
  by (simp add: call_ok_def opt_nonblank_def nonblank_iff py_isspace_def)

lemma empty_sched_entities: "entity_at hash empty_sched kind key = None"
  by (simp add: entity_at_def sched_index_def empty_sched_def state_index.empty_get)

lemma sample_sched_facts:
  "level en_in_flight sample_hash sample_sched ''flow'' (ckey (call_coord (Some ''t'') (Some ''r'') ''f'')) = 2 \<and>
   level en_reserved sample_hash sample_sched ''flow'' (ckey (call_coord (Some ''t'') (Some ''r'') ''f'')) = 3 \<and>
   \<not> retiring sample_hash sample_sched (call_coord (Some ''t'') (Some ''r'') ''f'') \<and>
   (\<exists>fl rs tn. touches sample_hash sample_sched (call_coord (Some ''t'') (Some ''r'') ''f'') fl rs tn)"
proof -
  have no: "\<not> retiring sample_hash empty_sched c" "level m sample_hash empty_sched k x = 0" for c m k x
    by (simp_all add: retiring_def level_def empty_sched_entities)
  obtain st' where "record_grant sample_hash (Some ''t'') (Some ''r'') ''f'' 2 3 empty_sched = (Inr (sa_sequence empty_sched + 1), st')"
    and st': "level en_in_flight sample_hash st' ''flow'' (ckey (call_coord (Some ''t'') (Some ''r'') ''f'')) = 2"
      "level en_reserved sample_hash st' ''flow'' (ckey (call_coord (Some ''t'') (Some ''r'') ''f'')) = 3"
      "\<not> retiring sample_hash st' (call_coord (Some ''t'') (Some ''r'') ''f'')"
      "\<exists>fl rs tn. touches sample_hash st' (call_coord (Some ''t'') (Some ''r'') ''f'') fl rs tn"
    using record_grant_outcome [OF empty_sched_inv sample_call_ok, of 2 3 sample_hash] by (auto simp: no)
  then have "sample_sched = st'" by (simp add: sample_sched_def sample_calls_def)
  then show ?thesis using st' by blast
qed

lemmas sample_sched_levels = sample_sched_facts [THEN conjunct1] sample_sched_facts [THEN conjunct2, THEN conjunct1]
lemmas sample_sched_active = sample_sched_facts [THEN conjunct2, THEN conjunct2, THEN conjunct1]
lemmas sample_sched_touches = sample_sched_facts [THEN conjunct2, THEN conjunct2, THEN conjunct2]

definition sample_floats :: float_ops where
  "sample_floats = \<lparr>fo_sub = (\<lambda>x y. case (x, y) of (Num a, Num b) \<Rightarrow> Num (a - b) | _ \<Rightarrow> x),
     fo_mul = (\<lambda>x y. case (x, y) of (Num a, Num b) \<Rightarrow> Num (a * b) | _ \<Rightarrow> x), fo_of_int = (\<lambda>i. Some (num_int i))\<rparr>"

definition sample_candidate :: candidate where
  "sample_candidate = \<lparr>ca_ticket = 0, ca_group_id = ''g'', ca_priority = Normal, ca_enqueued = Num 0, ca_tenant_id = Some ''t'',
     ca_resource_id = Some ''r'', ca_flow_id = Some ''f'', ca_continuity_rank = 0, ca_waiting_permits = 1, ca_service_rate = None,
     ca_deadline = None, ca_service_seconds = None, ca_speculation_rank = 0, ca_tail_work = Num 0, ca_waste_cost = Num 0,
     ca_service_cost = Num 0, ca_tiebreak = 0\<rparr>"

lemma sample_keys: "res_map (\<lambda>c. ordering_key F hash c (Num 0) st) [sample_candidate] =
  Inr [projr (ordering_key F hash sample_candidate (Num 0) st)]"
  by (simp add: ordering_key_def ordering_key_from_snapshots_def maxweight_rank_def validated_now_def sample_candidate_def)

end
