(* ===== verification/Units.thy ===== *)
theory Units
  imports Merkle
begin

text \<open>
  The universal carrier of \<^verbatim>\<open>foundation/kernel/unit.py\<close>: a unit with an identity, schemas, attributes and
  roles whose values are JSON atoms, references or further units, and its three digests.  A unit is
  immutable: the constructor normalizes and validates once, and every query reads the result.
\<close>

section \<open>Tokens and references\<close>

definition token_head :: "char \<Rightarrow> bool" where
  "token_head c = (let n = (of_char c :: nat) in 97 \<le> n \<and> n \<le> 122)"

definition token_char :: "char \<Rightarrow> bool" where
  "token_char c = (let n = (of_char c :: nat) in
     token_head c \<or> (48 \<le> n \<and> n \<le> 57) \<or> c \<in> {CHR ''_'', CHR ''.'', CHR '':'', CHR ''-''})"

definition canonical_token_valid :: "string \<Rightarrow> bool" where
  "canonical_token_valid s = (case s of [] \<Rightarrow> False | c # cs \<Rightarrow> token_head c \<and> list_all token_char cs)"

definition unit_token :: "string \<Rightarrow> string res" where
  "unit_token s = (if canonical_token_valid s then Inr s else Inl ValueError)"

definition mk_unit_ref :: "string list \<Rightarrow> string list res" where
  "mk_unit_ref path = res_map unit_token path"

section \<open>Units\<close>

datatype 'u role_value = RAtom json | RRef "string list" | RUnit 'u

datatype noetrium_unit = Unit
  (unit_id: string) (unit_schemas: "string list") (unit_attributes: "(string, json) dict")
  (unit_roles: "(string \<times> noetrium_unit role_value list) list") (unit_projection: "string option")
  (structural_digest: string) (semantic_digest: string) (nu_digest: string) (walk_count_cache: "int option")

text \<open>\<^verbatim>\<open>NoetriumUnit.__eq__\<close> compares the unit digests only.\<close>

definition unit_eq :: "noetrium_unit \<Rightarrow> noetrium_unit \<Rightarrow> bool" where
  "unit_eq u v = (nu_digest u = nu_digest v)"

definition freeze_role_value :: "noetrium_unit role_value \<Rightarrow> noetrium_unit role_value res" where
  "freeze_role_value v = (case v of RAtom j \<Rightarrow> res_bind (freeze_json j) (\<lambda>j'. Inr (RAtom j')) | _ \<Rightarrow> Inr v)"

subsection \<open>The structural digest\<close>

definition role_value_text :: "hostlib \<Rightarrow> noetrium_unit role_value \<Rightarrow> string" where
  "role_value_text L v = (case v of
       RRef path \<Rightarrow> ''['' @ encode_basestring ''ref'' @ '',['' @ comma_join (map encode_basestring path) @ '']]''
     | RUnit u \<Rightarrow> ''['' @ encode_basestring ''unit'' @ '','' @ encode_basestring (nu_digest u) @ '']''
     | RAtom j \<Rightarrow> ''['' @ encode_basestring ''atom'' @ '','' @ canonical_text L j @ '']'')"

definition role_text :: "hostlib \<Rightarrow> string \<times> noetrium_unit role_value list \<Rightarrow> string" where
  "role_text L r = ''['' @ encode_basestring (fst r) @ '',['' @ comma_join (map (role_value_text L) (snd r)) @ '']]''"

definition unit_structural_text ::
    "hostlib \<Rightarrow> string list \<Rightarrow> (string, json) dict \<Rightarrow> (string \<times> noetrium_unit role_value list) list \<Rightarrow> string" where
  "unit_structural_text L schemas attributes roles =
     ''{'' @ encode_basestring ''attributes'' @ '':'' @ canonical_text L (JObj attributes) @ '','' @
     encode_basestring ''roles'' @ '':['' @ comma_join (map (role_text L) roles) @ ''],'' @
     encode_basestring ''schemas'' @ '':['' @ comma_join (map encode_basestring schemas) @ '']}''"

text \<open>The nesting check of the streaming encoder: exact for objects, on arrays only where a container starts.\<close>

fun stream_depth_ok :: "nat \<Rightarrow> nat \<Rightarrow> json \<Rightarrow> bool" where
  "stream_depth_ok max_depth depth (JObj kvs) = (depth + frozen_json_required_depth (JObj kvs) \<le> max_depth)"
| "stream_depth_ok max_depth depth (JArr xs) = (depth \<le> max_depth \<and> (\<forall>x \<in> set xs. stream_depth_ok max_depth (depth + 1) x))"
| "stream_depth_ok max_depth depth _ = True"

definition role_depth_ok :: "noetrium_unit role_value \<Rightarrow> bool" where
  "role_depth_ok v = (case v of RAtom j \<Rightarrow> stream_depth_ok 64 5 j | _ \<Rightarrow> True)"

definition unit_structural_digest ::
    "hostlib \<Rightarrow> string list \<Rightarrow> (string, json) dict \<Rightarrow> (string \<times> noetrium_unit role_value list) list \<Rightarrow> string res" where
  "unit_structural_digest L schemas attributes roles =
     res_bind (require (stream_depth_ok 64 1 (JObj attributes)) CanonicalEncodingError) (\<lambda>_.
     res_bind (require (\<forall>r \<in> set roles. list_all role_depth_ok (snd r)) CanonicalEncodingError) (\<lambda>_.
     Inr (sha256_hex L (utf8 (unit_structural_text L schemas attributes roles)))))"

definition unit_instance_preimage :: "string \<Rightarrow> string \<Rightarrow> string \<Rightarrow> string" where
  "unit_instance_preimage uid structural semantic =
     ''noetrium.unit.instance.v2'' @ [CHR 0x00] @ utf8 uid @ [CHR 0x00] @ structural @ [CHR 0x00] @ semantic"

subsection \<open>Construction\<close>

fun walk_cardinality_from :: "int \<Rightarrow> noetrium_unit role_value list \<Rightarrow> int option" where
  "walk_cardinality_from n [] = Some n"
| "walk_cardinality_from n (RUnit child # values) =
     (case walk_count_cache child of None \<Rightarrow> None | Some subtree \<Rightarrow> walk_cardinality_from (n + subtree) values)"
| "walk_cardinality_from n (_ # values) = None"

definition member_walk_cardinality :: "noetrium_unit role_value list \<Rightarrow> int option" where
  "member_walk_cardinality values = walk_cardinality_from 1 values"

definition role_values :: "(string \<times> noetrium_unit role_value list) list \<Rightarrow> string \<Rightarrow> noetrium_unit role_value list" where
  "role_values roles name = (case map_of roles name of None \<Rightarrow> [] | Some vs \<Rightarrow> vs)"

fun normalize_roles :: "string list \<Rightarrow> (string \<times> noetrium_unit role_value list) list \<Rightarrow> (string \<times> noetrium_unit role_value list) list res" where
  "normalize_roles seen [] = Inr []"
| "normalize_roles seen ((role_name, values) # entries) =
     res_bind (unit_token role_name) (\<lambda>name.
     res_bind (require (name \<notin> set seen) ValueError) (\<lambda>_.
     res_bind (res_map freeze_role_value values) (\<lambda>frozen.
     res_bind (normalize_roles (name # seen) entries) (\<lambda>rest. Inr ((name, frozen) # rest)))))"

definition unit_object :: "json option \<Rightarrow> (string, json) dict res" where
  "unit_object attributes =
     (case attributes of None \<Rightarrow> Inr []
      | Some v \<Rightarrow> res_bind (freeze_json v) (\<lambda>w. case w of JObj kvs \<Rightarrow> Inr kvs | _ \<Rightarrow> Inl TypeError))"

definition unit_identified ::
    "hostlib \<Rightarrow> string \<Rightarrow> string list \<Rightarrow> (string, json) dict \<Rightarrow> (string \<times> noetrium_unit role_value list) list \<Rightarrow> string option \<Rightarrow> string \<Rightarrow> noetrium_unit" where
  "unit_identified L uid schemas attributes roles projected structural =
     (let semantic = (case projected of None \<Rightarrow> structural | Some p \<Rightarrow> p) in
      Unit uid schemas attributes roles projected structural semantic
        (sha256_hex L (unit_instance_preimage uid structural semantic))
        (member_walk_cardinality (role_values roles ''member'')))"

definition require_projection :: "string option \<Rightarrow> string option res" where
  "require_projection projected = (case projected of None \<Rightarrow> Inr None | Some p \<Rightarrow> if is_sha256 p then Inr (Some p) else Inl ValueError)"

definition mk_unit ::
    "hostlib \<Rightarrow> string \<Rightarrow> string list \<Rightarrow> json option \<Rightarrow> (string \<times> noetrium_unit role_value list) list \<Rightarrow> string option \<Rightarrow> noetrium_unit res" where
  "mk_unit L unit_id' schemas' attributes' roles' semantic_projection_digest =
     res_bind (unit_token unit_id') (\<lambda>uid.
     res_bind (res_map unit_token schemas') (\<lambda>tokens.
     let schemas = sort tokens in
     res_bind (require (distinct schemas) ValueError) (\<lambda>_.
     res_bind (unit_object attributes') (\<lambda>attributes.
     res_bind (normalize_roles [] roles') (\<lambda>normalized.
     let roles = sort_key fst normalized in
     res_bind (unit_structural_digest L schemas attributes roles) (\<lambda>structural.
     res_bind (require_projection semantic_projection_digest) (\<lambda>projected.
     Inr (unit_identified L uid schemas attributes roles projected structural))))))))"

text \<open>\<^verbatim>\<open>_from_normalized\<close>: the same identity without normalizing again.\<close>

definition unit_from_normalized ::
    "hostlib \<Rightarrow> string \<Rightarrow> string list \<Rightarrow> (string, json) dict \<Rightarrow> (string \<times> noetrium_unit role_value list) list \<Rightarrow> string option \<Rightarrow> string option \<Rightarrow> noetrium_unit res" where
  "unit_from_normalized L uid schemas attributes roles semantic_projection_digest structural_digest' =
     res_bind (require_projection semantic_projection_digest) (\<lambda>projected.
     res_bind (case structural_digest' of None \<Rightarrow> unit_structural_digest L schemas attributes roles
        | Some d \<Rightarrow> if is_sha256 d then Inr d else Inl ValueError) (\<lambda>structural.
     Inr (unit_identified L uid schemas attributes roles projected structural)))"

section \<open>Queries\<close>

definition unit_role :: "noetrium_unit \<Rightarrow> string \<Rightarrow> noetrium_unit role_value list res" where
  "unit_role self name = res_bind (unit_token name) (\<lambda>n. Inr (role_values (unit_roles self) n))"

fun the_unit :: "noetrium_unit role_value \<Rightarrow> noetrium_unit res" where
  "the_unit (RUnit u) = Inr u"
| "the_unit _ = Inl TypeError"

fun the_ref :: "noetrium_unit role_value \<Rightarrow> string list res" where
  "the_ref (RRef p) = Inr p"
| "the_ref _ = Inl TypeError"

definition unit_units :: "noetrium_unit \<Rightarrow> string \<Rightarrow> noetrium_unit list res" where
  "unit_units self role_name = res_bind (unit_role self role_name) (res_map the_unit)"

definition unit_refs :: "noetrium_unit \<Rightarrow> string \<Rightarrow> string list list res" where
  "unit_refs self role_name = res_bind (unit_role self role_name) (res_map the_ref)"

definition one_unit :: "noetrium_unit \<Rightarrow> string \<Rightarrow> noetrium_unit res" where
  "one_unit self role_name = res_bind (unit_units self role_name) (\<lambda>values.
     res_bind (require (length values = 1) ValueError) (\<lambda>_. Inr (hd values)))"

definition has_schema :: "noetrium_unit \<Rightarrow> string \<Rightarrow> bool res" where
  "has_schema self schema_id = res_bind (unit_token schema_id) (\<lambda>s. Inr (s \<in> set (unit_schemas self)))"

definition unit_attribute :: "noetrium_unit \<Rightarrow> string \<Rightarrow> json option res" where
  "unit_attribute self name = res_bind (unit_token name) (\<lambda>n. Inr (map_of (unit_attributes self) n))"

definition first_with_id :: "string \<Rightarrow> noetrium_unit list \<Rightarrow> noetrium_unit res" where
  "first_with_id uid units = (case find (\<lambda>u. unit_id u = uid) units of None \<Rightarrow> Inl LookupError | Some u \<Rightarrow> Inr u)"

definition unit_member :: "noetrium_unit \<Rightarrow> string \<Rightarrow> noetrium_unit res" where
  "unit_member self uid = res_bind (unit_token uid) (\<lambda>_. res_bind (unit_units self ''member'') (first_with_id uid))"

fun descend :: "noetrium_unit \<Rightarrow> string list \<Rightarrow> noetrium_unit res" where
  "descend current [] = Inr current"
| "descend current (child_id # path) = res_bind (unit_member current child_id) (\<lambda>child. descend child path)"

definition unit_at_path :: "noetrium_unit \<Rightarrow> string list \<Rightarrow> noetrium_unit res" where
  "unit_at_path self path =
     res_bind (mk_unit_ref path) (\<lambda>ref.
     res_bind (require (ref \<noteq> [] \<and> hd ref = unit_id self) LookupError) (\<lambda>_. descend self (tl ref)))"

fun owning_scan :: "string \<Rightarrow> string list \<Rightarrow> noetrium_unit \<Rightarrow> (string list \<times> noetrium_unit) option \<Rightarrow> string list \<Rightarrow> (string list \<times> noetrium_unit) option res" where
  "owning_scan schema_id prefix current matched [] = Inr matched"
| "owning_scan schema_id prefix current matched (child_id # path) =
     res_bind (unit_member current child_id) (\<lambda>child.
     res_bind (has_schema child schema_id) (\<lambda>has.
     owning_scan schema_id (prefix @ [child_id]) child (if has then Some (prefix @ [child_id], child) else matched) path))"

definition owning_unit_with_schema :: "noetrium_unit \<Rightarrow> string list \<Rightarrow> string \<Rightarrow> (string list \<times> noetrium_unit) res" where
  "owning_unit_with_schema self path schema_id =
     res_bind (mk_unit_ref path) (\<lambda>ref.
     res_bind (require (ref \<noteq> [] \<and> hd ref = unit_id self) LookupError) (\<lambda>_.
     res_bind (has_schema self schema_id) (\<lambda>has.
     res_bind (owning_scan schema_id [unit_id self] self (if has then Some ([unit_id self], self) else None) (tl ref)) (\<lambda>matched.
     case matched of None \<Rightarrow> Inl LookupError | Some m \<Rightarrow> Inr m))))"

definition member_walk_count :: "noetrium_unit \<Rightarrow> int res" where
  "member_walk_count self = (case walk_count_cache self of None \<Rightarrow> Inl TypeError | Some n \<Rightarrow> Inr n)"

section \<open>Traversals\<close>

definition role_units :: "'u role_value list \<Rightarrow> 'u list" where
  "role_units vs = concat (map (\<lambda>v. case v of RUnit u \<Rightarrow> [u] | _ \<Rightarrow> []) vs)"

definition role_children :: "(string \<times> 'u role_value list) list \<Rightarrow> 'u list" where
  "role_children roles = concat (map (\<lambda>r. role_units (snd r)) roles)"

abbreviation children :: "noetrium_unit \<Rightarrow> noetrium_unit list" where
  "children u \<equiv> role_children (unit_roles u)"

lemma role_units_mem: "c \<in> set (role_units vs) \<longleftrightarrow> RUnit c \<in> set vs"
  by (induction vs) (auto simp: role_units_def split: role_value.splits)

lemma role_children_mem: "c \<in> set (role_children roles) \<longleftrightarrow> (\<exists>n vs. (n, vs) \<in> set roles \<and> RUnit c \<in> set vs)"
  unfolding role_children_def by (force simp: role_units_mem)

lemma child_size: "c \<in> set (children u) \<Longrightarrow> size c < size u"
proof (cases u)
  case (Unit uid sch attrs roles pr st se dg mc)
  assume "c \<in> set (children u)"
  then obtain n vs where r: "(n, vs) \<in> set roles" "RUnit c \<in> set vs" by (auto simp: Unit role_children_mem)
  have "size_role_value size (RUnit c) \<le> size_list (size_role_value size) vs" using r(2) by (simp add: size_list_estimation')
  also have "\<dots> \<le> size_prod (\<lambda>_. 0) (size_list (size_role_value size)) (n, vs)" by simp
  also have "\<dots> \<le> size_list (size_prod (\<lambda>_. 0) (size_list (size_role_value size))) roles"
    using r(1) by (rule size_list_estimation') simp
  finally show "size c < size u" by (simp add: Unit)
qed

function unit_nodes :: "noetrium_unit \<Rightarrow> nat" where
  "unit_nodes u = Suc (sum_list (map unit_nodes (children u)))"
  by auto
termination by (relation "measure size") (auto simp: child_size)

declare unit_nodes.simps [simp del]

lemma unit_induct: "(\<And>u. (\<And>c. c \<in> set (children u) \<Longrightarrow> P c) \<Longrightarrow> P u) \<Longrightarrow> P u"
  using child_size by (induction u rule: measure_induct_rule [of size]) blast

lemma unit_units_children:
  assumes "unit_units u r = Inr cs"
  shows "set cs \<subseteq> set (children u)" "sum_list (map unit_nodes cs) \<le> sum_list (map unit_nodes (children u))"
proof -
  have the: "res_map the_unit vs = Inr cs \<Longrightarrow> vs = map RUnit cs" for vs
    by (induction vs arbitrary: cs) (auto simp: res_simps elim!: the_unit.elims)
  from assms have "r \<in> fst ` set (unit_roles u) \<and> (r, map RUnit cs) \<in> set (unit_roles u) \<or> cs = []"
    by (auto simp: unit_units_def unit_role_def unit_token_def role_values_def res_simps dest!: the split: if_splits option.splits
        intro: map_of_SomeD rev_image_eqI)
  then consider "(r, map RUnit cs) \<in> set (unit_roles u)" | "cs = []" by blast
  then have "set cs \<subseteq> set (children u) \<and> sum_list (map unit_nodes cs) \<le> sum_list (map unit_nodes (children u))"
  proof cases
    case 1
    then obtain pre post where roles: "unit_roles u = pre @ (r, map RUnit cs) # post" by (meson split_list)
    have "role_units (map RUnit cs) = cs" by (induction cs) (simp_all add: role_units_def)
    then have "children u = role_children pre @ cs @ role_children post" by (simp add: roles role_children_def)
    then show ?thesis by auto
  qed simp
  then show "set cs \<subseteq> set (children u)" "sum_list (map unit_nodes cs) \<le> sum_list (map unit_nodes (children u))" by blast+
qed

function walk_loop :: "string \<Rightarrow> noetrium_unit list \<Rightarrow> noetrium_unit list res" where
  "walk_loop role_name [] = Inr []"
| "walk_loop role_name (u # stack) =
     res_bind (unit_units u role_name) (\<lambda>cs. res_bind (walk_loop role_name (cs @ stack)) (\<lambda>rows. Inr (u # rows)))"
  by pat_completeness auto
termination
proof (relation "measure (\<lambda>(_, stack). sum_list (map unit_nodes stack))")
  fix r u stack cs assume "unit_units u r = Inr cs"
  from unit_units_children(2) [OF this]
  show "((r, cs @ stack), r, u # stack) \<in> measure (\<lambda>(_, stack). sum_list (map unit_nodes stack))"
    by (simp add: unit_nodes.simps [of u])
qed simp

definition unit_walk :: "noetrium_unit \<Rightarrow> string \<Rightarrow> noetrium_unit list res" where
  "unit_walk self role_name = walk_loop role_name [self]"

function paths_loop :: "string \<Rightarrow> string \<Rightarrow> (noetrium_unit \<times> string list) list \<Rightarrow> (string list \<times> noetrium_unit) list res" where
  "paths_loop schema role_name [] = Inr []"
| "paths_loop schema role_name ((u, path) # stack) =
     res_bind (has_schema u schema) (\<lambda>has.
     res_bind (unit_units u role_name) (\<lambda>cs.
     res_bind (paths_loop schema role_name (map (\<lambda>c. (c, path @ [unit_id c])) cs @ stack)) (\<lambda>rows.
     Inr (if has then (path, u) # rows else rows))))"
  by pat_completeness auto
termination
proof (relation "measure (\<lambda>(_, _, stack). sum_list (map (unit_nodes \<circ> fst) stack))")
  fix s r u path stack has cs assume "unit_units u r = Inr cs"
  from unit_units_children(2) [OF this]
  show "((s, r, map (\<lambda>c. (c, path @ [unit_id c])) cs @ stack), s, r, (u, path) # stack)
      \<in> measure (\<lambda>(_, _, stack). sum_list (map (unit_nodes \<circ> fst) stack))"
    by (simp add: unit_nodes.simps [of u] comp_def)
qed simp

definition paths_with_schema :: "noetrium_unit \<Rightarrow> string \<Rightarrow> string \<Rightarrow> (string list \<times> noetrium_unit) list res" where
  "paths_with_schema self schema_id role_name =
     res_bind (unit_token schema_id) (\<lambda>schema.
     res_bind (unit_token role_name) (\<lambda>name. paths_loop schema name [(self, [unit_id self])]))"

definition units_with_schema :: "noetrium_unit \<Rightarrow> string \<Rightarrow> string \<Rightarrow> noetrium_unit list res" where
  "units_with_schema self schema_id role_name =
     res_bind (unit_token schema_id) (\<lambda>schema.
     res_bind (unit_walk self role_name) (\<lambda>units. Inr (filter (\<lambda>u. schema \<in> set (unit_schemas u)) units)))"

section \<open>Walks\<close>

text \<open>A walk over several units is the walks one after the other.\<close>

lemma walk_append: "walk_loop r (xs @ ys) = res_bind (walk_loop r xs) (\<lambda>a. res_bind (walk_loop r ys) (\<lambda>b. Inr (a @ b)))"
proof (induction r xs rule: walk_loop.induct)
  case (1 r)
  then show ?case by (cases "walk_loop r ys") simp_all
next
  case (2 r u stack)
  show ?case
  proof (cases "unit_units u r")
    case (Inr cs)
    from 2 [OF Inr] show ?thesis
      by (cases "walk_loop r (cs @ stack)"; cases "walk_loop r ys") (simp_all add: Inr)
  qed simp
qed

lemma walk_Cons: "walk_loop r (u # us) = res_bind (unit_walk u r) (\<lambda>a. res_bind (walk_loop r us) (\<lambda>b. Inr (a @ b)))"
  using walk_append [of r "[u]" us] by (simp add: unit_walk_def)

lemma unit_walk_children: "unit_walk u r = res_bind (unit_units u r) (\<lambda>cs. res_bind (walk_loop r cs) (\<lambda>rows. Inr (u # rows)))"
  by (simp add: unit_walk_def)

declare walk_loop.simps(2) [simp del]

section \<open>Well-formed units\<close>

definition value_cut :: "noetrium_unit role_value \<Rightarrow> bool" where
  "value_cut v = (case v of RAtom j \<Rightarrow> frozen_json_required_depth j \<le> default_max_depth \<and> stream_depth_ok 64 5 j
     | RRef p \<Rightarrow> list_all canonical_token_valid p | RUnit _ \<Rightarrow> True)"

definition unit_cut :: "hostlib \<Rightarrow> noetrium_unit \<Rightarrow> bool" where
  "unit_cut L u =
     (canonical_token_valid (unit_id u) \<and> list_all canonical_token_valid (unit_schemas u) \<and> sorted (unit_schemas u) \<and> distinct (unit_schemas u) \<and>
      frozen_json_required_depth (JObj (unit_attributes u)) \<le> default_max_depth \<and> stream_depth_ok 64 1 (JObj (unit_attributes u)) \<and>
      list_all (\<lambda>r. canonical_token_valid (fst r) \<and> list_all value_cut (snd r)) (unit_roles u) \<and>
      sorted (map fst (unit_roles u)) \<and> distinct (map fst (unit_roles u)) \<and> (case unit_projection u of None \<Rightarrow> True | Some p \<Rightarrow> is_sha256 p) \<and>
      u = unit_identified L (unit_id u) (unit_schemas u) (unit_attributes u) (unit_roles u) (unit_projection u)
        (sha256_hex L (utf8 (unit_structural_text L (unit_schemas u) (unit_attributes u) (unit_roles u)))))"

function unit_well :: "hostlib \<Rightarrow> noetrium_unit \<Rightarrow> bool" where
  "unit_well L u = (unit_cut L u \<and> (\<forall>c \<in> set (children u). unit_well L c))"
  by auto
termination by (relation "measure (size \<circ> snd)") (auto simp: child_size)

declare unit_well.simps [simp del]

lemma unit_wellD: "unit_well L u \<Longrightarrow> unit_cut L u" "unit_well L u \<Longrightarrow> c \<in> set (children u) \<Longrightarrow> unit_well L c"
  by (simp_all add: unit_well.simps [of L u])

lemma unit_cutD:
  assumes "unit_cut L u"
  shows "canonical_token_valid (unit_id u)" "list_all canonical_token_valid (unit_schemas u)" "sorted (unit_schemas u)" "distinct (unit_schemas u)"
    "list_all (\<lambda>r. canonical_token_valid (fst r) \<and> list_all value_cut (snd r)) (unit_roles u)"
    "structural_digest u = sha256_hex L (utf8 (unit_structural_text L (unit_schemas u) (unit_attributes u) (unit_roles u)))"
    "semantic_digest u = (case unit_projection u of None \<Rightarrow> structural_digest u | Some p \<Rightarrow> p)"
    "nu_digest u = sha256_hex L (unit_instance_preimage (unit_id u) (structural_digest u) (semantic_digest u))"
    "walk_count_cache u = member_walk_cardinality (role_values (unit_roles u) ''member'')"
    "case unit_projection u of None \<Rightarrow> True | Some p \<Rightarrow> is_sha256 p"
proof -
  let ?v = "unit_identified L (unit_id u) (unit_schemas u) (unit_attributes u) (unit_roles u) (unit_projection u)
        (sha256_hex L (utf8 (unit_structural_text L (unit_schemas u) (unit_attributes u) (unit_roles u))))"
  have u: "u = ?v" using assms unfolding unit_cut_def by blast
  have st: "structural_digest u = sha256_hex L (utf8 (unit_structural_text L (unit_schemas u) (unit_attributes u) (unit_roles u)))"
    using arg_cong [OF u, of structural_digest] by (simp add: unit_identified_def Let_def)
  have se: "semantic_digest u = (case unit_projection u of None \<Rightarrow> structural_digest u | Some p \<Rightarrow> p)"
    using arg_cong [OF u, of semantic_digest] unfolding st by (simp add: unit_identified_def Let_def)
  show "structural_digest u = sha256_hex L (utf8 (unit_structural_text L (unit_schemas u) (unit_attributes u) (unit_roles u)))" by (rule st)
  show "semantic_digest u = (case unit_projection u of None \<Rightarrow> structural_digest u | Some p \<Rightarrow> p)" by (rule se)
  show "nu_digest u = sha256_hex L (unit_instance_preimage (unit_id u) (structural_digest u) (semantic_digest u))"
    using arg_cong [OF u, of nu_digest] unfolding se st by (simp add: unit_identified_def Let_def)
  show "walk_count_cache u = member_walk_cardinality (role_values (unit_roles u) ''member'')"
    using arg_cong [OF u, of walk_count_cache] by (simp add: unit_identified_def Let_def)
qed (use assms in \<open>simp_all add: unit_cut_def\<close>)

subsection \<open>Construction gives well-formed units\<close>

lemma unit_token_map: "res_map unit_token ss = (if list_all canonical_token_valid ss then Inr ss else Inl ValueError)"
  by (induction ss) (auto simp: unit_token_def)

definition freezable :: "noetrium_unit role_value \<Rightarrow> bool" where
  "freezable v = (case v of RAtom j \<Rightarrow> frozen_json_required_depth j \<le> default_max_depth | _ \<Rightarrow> True)"

lemma freeze_role_values: "res_map freeze_role_value vs = (if list_all freezable vs then Inr vs else Inl CanonicalEncodingError)"
proof (induction vs)
  case (Cons v vs)
  have "freeze_role_value v = (if freezable v then Inr v else Inl CanonicalEncodingError)"
    by (auto simp: freeze_role_value_def freezable_def freeze_json_eq split: role_value.splits)
  then show ?case using Cons by simp
qed simp

lemma normalize_roles_eq:
  "normalize_roles seen roles = Inr rs \<longleftrightarrow> rs = roles \<and> distinct (map fst roles) \<and> set seen \<inter> fst ` set roles = {} \<and>
     list_all (\<lambda>r. canonical_token_valid (fst r) \<and> list_all freezable (snd r)) roles"
proof (induction roles arbitrary: seen rs)
  case (Cons r roles)
  obtain n vs where r: "r = (n, vs)" by (cases r)
  show ?case
  proof (cases "canonical_token_valid n \<and> n \<notin> set seen \<and> list_all freezable vs")
    case True
    then have "normalize_roles seen (r # roles) = res_bind (normalize_roles (n # seen) roles) (\<lambda>rest. Inr ((n, vs) # rest))"
      by (simp add: r unit_token_def freeze_role_values)
    moreover have "set (n # seen) \<inter> fst ` set roles = {} \<longleftrightarrow> n \<notin> fst ` set roles \<and> set seen \<inter> fst ` set roles = {}" by auto
    ultimately show ?thesis using Cons.IH [of "n # seen"] True by (auto simp: r res_simps)
  next
    case False
    then have "\<not> is_ok (normalize_roles seen (r # roles))"
      by (auto simp: r unit_token_def freeze_role_values require_def)
    then show ?thesis using False by (auto simp: r is_ok_iff)
  qed
qed auto

lemma structural_digest_eq:
  "unit_structural_digest L sch attrs roles = Inr d \<longleftrightarrow> stream_depth_ok 64 1 (JObj attrs) \<and> (\<forall>r \<in> set roles. list_all role_depth_ok (snd r)) \<and>
     d = sha256_hex L (utf8 (unit_structural_text L sch attrs roles))"
  by (auto simp: unit_structural_digest_def res_simps)

lemma value_cut_iff: "value_cut v \<longleftrightarrow> freezable v \<and> role_depth_ok v \<and> (\<forall>p. v = RRef p \<longrightarrow> list_all canonical_token_valid p)"
  by (cases v) (simp_all add: value_cut_def freezable_def role_depth_ok_def)

lemma unit_token_eq: "unit_token s = Inr t \<longleftrightarrow> t = s \<and> canonical_token_valid s"
  by (auto simp: unit_token_def)

lemma unit_tokens_eq: "res_map unit_token ss = Inr ts \<longleftrightarrow> ts = ss \<and> list_all canonical_token_valid ss"
  by (auto simp: unit_token_map)

lemma require_projection_eq: "require_projection p = Inr q \<longleftrightarrow> q = p \<and> (case p of None \<Rightarrow> True | Some x \<Rightarrow> is_sha256 x)"
  by (auto simp: require_projection_def split: option.splits)

text \<open>What the constructor returns, from raw arguments.\<close>

lemma mk_unit_cut:
  assumes mk: "mk_unit L uid sch attrs roles proj = Inr u"
    and refs: "\<And>n vs p. (n, vs) \<in> set roles \<Longrightarrow> RRef p \<in> set vs \<Longrightarrow> list_all canonical_token_valid p"
  shows "unit_cut L u" "unit_id u = uid" "unit_schemas u = sort sch" "unit_roles u = sort_key fst roles" "unit_projection u = proj"
    "case attrs of None \<Rightarrow> unit_attributes u = [] | Some v \<Rightarrow> JObj (unit_attributes u) = v"
proof -
  from mk obtain attributes where A: "canonical_token_valid uid" "list_all canonical_token_valid sch" "distinct (sort sch)"
    "unit_object attrs = Inr attributes"
    "distinct (map fst roles) \<and> list_all (\<lambda>r. canonical_token_valid (fst r) \<and> list_all freezable (snd r)) roles"
    "stream_depth_ok 64 1 (JObj attributes)" "\<forall>r \<in> set (sort_key fst roles). list_all role_depth_ok (snd r)"
    "case proj of None \<Rightarrow> True | Some p \<Rightarrow> is_sha256 p"
    and u: "u = unit_identified L uid (sort sch) attributes (sort_key fst roles) proj
      (sha256_hex L (utf8 (unit_structural_text L (sort sch) attributes (sort_key fst roles))))"
    unfolding mk_unit_def Let_def res_bind_eq_Inr require_eq_Inr unit_token_eq unit_tokens_eq normalize_roles_eq structural_digest_eq require_projection_eq
    by clarify blast
  have at: "frozen_json_required_depth (JObj attributes) \<le> default_max_depth" "case attrs of None \<Rightarrow> attributes = [] | Some v \<Rightarrow> JObj attributes = v"
    using A(4) by (auto simp: unit_object_def res_simps split: option.splits json.splits)
  have sel: "unit_id u = uid" "unit_schemas u = sort sch" "unit_roles u = sort_key fst roles" "unit_projection u = proj" "unit_attributes u = attributes"
    by (simp_all add: u unit_identified_def Let_def)
  note N = A(5)
  have vals: "list_all (\<lambda>r. canonical_token_valid (fst r) \<and> list_all value_cut (snd r)) (sort_key fst roles)"
    unfolding list_all_iff
  proof (intro ballI conjI)
    fix r assume r: "r \<in> set (sort_key fst roles)"
    then have mem: "(fst r, snd r) \<in> set roles" by simp
    have f: "canonical_token_valid (fst r) \<and> list_all freezable (snd r)" using N mem unfolding list_all_iff by force
    then show "canonical_token_valid (fst r)" by blast
    fix v assume v: "v \<in> set (snd r)"
    have "role_depth_ok v" using A(7) r v by (auto simp: list_all_iff)
    then show "value_cut v" using f v refs [OF mem] by (auto simp: value_cut_iff list_all_iff)
  qed
  have "distinct (map fst (sort_key fst roles))" using N by (simp add: distinct_map)
  then show "unit_cut L u"
    unfolding unit_cut_def sel using A(1,2,3,6,8) at(1) vals by (simp add: list_all_iff u)
  show "unit_id u = uid" "unit_schemas u = sort sch" "unit_roles u = sort_key fst roles" "unit_projection u = proj" by (rule sel)+
  show "case attrs of None \<Rightarrow> unit_attributes u = [] | Some v \<Rightarrow> JObj (unit_attributes u) = v" using at(2) by (simp add: sel split: option.splits)
qed

text \<open>Constructing again from the parts of a well-formed unit gives the unit, by either constructor.\<close>

lemma mk_unit_parts:
  assumes "unit_cut L u"
  shows "mk_unit L (unit_id u) (unit_schemas u) (Some (JObj (unit_attributes u))) (unit_roles u) (unit_projection u) = Inr u"
    "unit_from_normalized L (unit_id u) (unit_schemas u) (unit_attributes u) (unit_roles u) (unit_projection u) None = Inr u"
proof -
  let ?s = "sha256_hex L (utf8 (unit_structural_text L (unit_schemas u) (unit_attributes u) (unit_roles u)))"
  have u: "unit_identified L (unit_id u) (unit_schemas u) (unit_attributes u) (unit_roles u) (unit_projection u) ?s = u"
    using assms unfolding unit_cut_def by metis
  have C: "canonical_token_valid (unit_id u)" "list_all canonical_token_valid (unit_schemas u)" "sorted (unit_schemas u)" "distinct (unit_schemas u)"
    "frozen_json_required_depth (JObj (unit_attributes u)) \<le> default_max_depth" "stream_depth_ok 64 1 (JObj (unit_attributes u))"
    "list_all (\<lambda>r. canonical_token_valid (fst r) \<and> list_all value_cut (snd r)) (unit_roles u)"
    "sorted (map fst (unit_roles u))" "distinct (map fst (unit_roles u))" "case unit_projection u of None \<Rightarrow> True | Some p \<Rightarrow> is_sha256 p"
    using assms unfolding unit_cut_def by blast+
  have roles: "normalize_roles [] (unit_roles u) = Inr (unit_roles u)"
    using C(7,9) by (auto simp: normalize_roles_eq list_all_iff value_cut_iff)
  have st: "unit_structural_digest L (unit_schemas u) (unit_attributes u) (unit_roles u) = Inr ?s"
    using C(6,7) by (auto simp: structural_digest_eq list_all_iff value_cut_iff)
  have pr: "require_projection (unit_projection u) = Inr (unit_projection u)" using C(10) by (simp add: require_projection_eq)
  have so: "sort (unit_schemas u) = unit_schemas u" "sort_key fst (unit_roles u) = unit_roles u"
    using C(3,8) by (simp_all add: sorted_sort_id sort_key_id_if_sorted)
  have ob: "unit_object (Some (JObj (unit_attributes u))) = Inr (unit_attributes u)" using C(5) by (simp add: unit_object_def freeze_json_eq)
  show "mk_unit L (unit_id u) (unit_schemas u) (Some (JObj (unit_attributes u))) (unit_roles u) (unit_projection u) = Inr u"
    using C(1,2,4) by (simp add: mk_unit_def Let_def unit_token_def unit_token_map so ob roles st pr u)
  show "unit_from_normalized L (unit_id u) (unit_schemas u) (unit_attributes u) (unit_roles u) (unit_projection u) None = Inr u"
    by (simp add: unit_from_normalized_def st pr u)
qed

subsection \<open>The cached walk count\<close>

lemma the_unit_error: "res_map the_unit vs = Inl e \<Longrightarrow> e = TypeError"
  by (induction vs) (auto simp: res_simps elim!: the_unit.elims)

lemma member_token [simp]: "unit_token ''member'' = Inr ''member''"
  by (simp add: unit_token_def canonical_token_valid_def token_head_def token_char_def)

lemma walk_cardinality_from_eq:
  "walk_cardinality_from n vs = (case res_map the_unit vs of Inl _ \<Rightarrow> None
     | Inr cs \<Rightarrow> if \<exists>c \<in> set cs. walk_count_cache c = None then None else Some (n + sum_list (map (\<lambda>c. the (walk_count_cache c)) cs)))"
proof (induction n vs rule: walk_cardinality_from.induct)
  case (2 n child vs)
  show ?case
  proof (cases "walk_count_cache child")
    case None
    then show ?thesis by (cases "res_map the_unit vs") auto
  next
    case (Some k)
    with 2 [OF Some] show ?thesis by (cases "res_map the_unit vs") auto
  qed
qed auto

definition counted :: "noetrium_unit list res \<Rightarrow> int option \<Rightarrow> bool" where
  "counted rows n = (case n of None \<Rightarrow> rows = Inl TypeError | Some k \<Rightarrow> \<exists>us. rows = Inr us \<and> int (length us) = k)"

lemma walk_loop_counted:
  assumes "\<And>c. c \<in> set cs \<Longrightarrow> counted (unit_walk c r) (walk_count_cache c)"
  shows "counted (walk_loop r cs) (if \<exists>c \<in> set cs. walk_count_cache c = None then None else Some (sum_list (map (\<lambda>c. the (walk_count_cache c)) cs)))"
  using assms
proof (induction cs)
  case (Cons c cs)
  have IH: "counted (walk_loop r cs) (if \<exists>c \<in> set cs. walk_count_cache c = None then None else Some (sum_list (map (\<lambda>c. the (walk_count_cache c)) cs)))"
    by (rule Cons.IH) (simp add: Cons.prems)
  have c: "counted (unit_walk c r) (walk_count_cache c)" by (simp add: Cons.prems)
  show ?case
  proof (cases "walk_count_cache c")
    case None
    then show ?thesis using c by (simp add: counted_def walk_Cons)
  next
    case (Some k)
    then obtain us where us: "unit_walk c r = Inr us" "int (length us) = k" using c by (auto simp: counted_def)
    show ?thesis using IH us Some by (cases "\<exists>c \<in> set cs. walk_count_cache c = None") (auto simp: counted_def walk_Cons)
  qed
qed (simp add: counted_def)

text \<open>The count kept with every unit is the length of its walk, and it is missing exactly when the walk fails.\<close>

lemma walk_count_exact: "unit_well L u \<Longrightarrow> counted (unit_walk u ''member'') (walk_count_cache u)"
proof (induction u rule: unit_induct)
  case (1 u)
  note ok = unit_wellD [OF "1.prems"]
  have units: "unit_units u ''member'' = res_map the_unit (role_values (unit_roles u) ''member'')"
    by (simp add: unit_units_def unit_role_def)
  have cache: "walk_count_cache u = walk_cardinality_from 1 (role_values (unit_roles u) ''member'')"
    using unit_cutD(9) [OF ok(1)] by (simp add: member_walk_cardinality_def)
  show ?case
  proof (cases "res_map the_unit (role_values (unit_roles u) ''member'')")
    case (Inl e)
    then show ?thesis using the_unit_error [OF Inl] by (simp add: counted_def cache walk_cardinality_from_eq unit_walk_children units)
  next
    case (Inr cs)
    have sub: "set cs \<subseteq> set (children u)" by (rule unit_units_children(1) [of u "''member''"]) (simp add: units Inr)
    have "counted (walk_loop ''member'' cs) (if \<exists>c \<in> set cs. walk_count_cache c = None then None else Some (sum_list (map (\<lambda>c. the (walk_count_cache c)) cs)))"
      by (rule walk_loop_counted) (use "1.IH" ok(2) sub in blast)
    then show ?thesis using Inr by (auto simp: counted_def cache walk_cardinality_from_eq unit_walk_children units split: if_splits)
  qed
qed

subsection \<open>Paths\<close>

text \<open>Enumerating paths visits the units of the walk, with the paths of the tree.\<close>

lemma paths_append:
  "paths_loop s r (xs @ ys) = res_bind (paths_loop s r xs) (\<lambda>a. res_bind (paths_loop s r ys) (\<lambda>b. Inr (a @ b)))"
proof (induction s r xs rule: paths_loop.induct)
  case (1 s r)
  then show ?case by (cases "paths_loop s r ys") simp_all
next
  case (2 s r u path stack)
  show ?case
  proof (cases "has_schema u s")
    case has: (Inr has)
    show ?thesis
    proof (cases "unit_units u r")
      case (Inr cs)
      from 2 [OF has Inr] show ?thesis
        by (cases "paths_loop s r (map (\<lambda>c. (c, path @ [unit_id c])) cs @ stack)"; cases "paths_loop s r ys") (simp_all add: has Inr)
    qed (simp add: has)
  qed simp
qed

declare paths_loop.simps(2) [simp del]

lemma has_schema_eq: "canonical_token_valid s \<Longrightarrow> has_schema u s = Inr (s \<in> set (unit_schemas u))"
  by (simp add: has_schema_def unit_token_def)

definition projects_walk :: "string \<Rightarrow> (string list \<times> noetrium_unit) list res \<Rightarrow> noetrium_unit list res \<Rightarrow> bool" where
  "projects_walk s rows us = (case us of Inl e \<Rightarrow> rows = Inl e
     | Inr vs \<Rightarrow> \<exists>ps. rows = Inr ps \<and> map snd ps = filter (\<lambda>u. s \<in> set (unit_schemas u)) vs)"

lemma paths_units: "canonical_token_valid s \<Longrightarrow> projects_walk s (paths_loop s r stack) (walk_loop r (map fst stack))"
proof (induction s r stack rule: paths_loop.induct)
  case (2 s r u path stack)
  note has = has_schema_eq [OF "2.prems", of u]
  show ?case
  proof (cases "unit_units u r")
    case (Inl e)
    then show ?thesis by (simp add: projects_walk_def paths_loop.simps walk_loop.simps has)
  next
    case (Inr cs)
    have "map fst (map (\<lambda>c. (c, path @ [unit_id c])) cs @ stack) = cs @ map fst stack" by (simp add: comp_def)
    from "2.IH" [OF has Inr "2.prems", unfolded this] show ?thesis
      by (cases "walk_loop r (cs @ map fst stack)") (auto simp: projects_walk_def paths_loop.simps walk_loop.simps has Inr)
  qed
qed (simp add: projects_walk_def)

function siblings_distinct :: "noetrium_unit \<Rightarrow> bool" where
  "siblings_distinct u = ((case unit_units u ''member'' of Inl _ \<Rightarrow> True | Inr cs \<Rightarrow> distinct (map unit_id cs)) \<and>
     (\<forall>c \<in> set (children u). siblings_distinct c))"
  by auto
termination by (relation "measure size") (auto simp: child_size)

declare siblings_distinct.simps [simp del]

lemma find_distinct: "c \<in> set cs \<Longrightarrow> distinct (map unit_id cs) \<Longrightarrow> find (\<lambda>u. unit_id u = unit_id c) cs = Some c"
  by (induction cs) (auto simp: rev_image_eqI)

lemma unit_member_found:
  assumes "unit_units u ''member'' = Inr cs" "c \<in> set cs" "siblings_distinct u" "canonical_token_valid (unit_id c)"
  shows "unit_member u (unit_id c) = Inr c"
proof -
  have "distinct (map unit_id cs)" using assms(1,3) by (simp add: siblings_distinct.simps [of u])
  from find_distinct [OF assms(2) this] show ?thesis
    using assms(1,4) by (simp add: unit_member_def unit_token_def first_with_id_def)
qed

lemma descend_append: "descend u (p @ q) = res_bind (descend u p) (\<lambda>v. descend v q)"
  by (induction p arbitrary: u) (auto simp: res_bind_def split: sum.splits)

text \<open>With distinct identities among members, every enumerated path leads back to its unit.\<close>

definition leads :: "noetrium_unit \<Rightarrow> string list \<Rightarrow> noetrium_unit \<Rightarrow> bool" where
  "leads start path v = (\<exists>p. path = unit_id start # p \<and> list_all canonical_token_valid path \<and> descend start p = Inr v)"

lemma leads_at: "leads start path v \<Longrightarrow> unit_at_path start path = Inr v"
  by (auto simp: leads_def unit_at_path_def mk_unit_ref_def unit_token_map)

lemma paths_lead:
  assumes "paths_loop s ''member'' stack = Inr rows" "(path, v) \<in> set rows"
    and "\<And>u q. (u, q) \<in> set stack \<Longrightarrow> leads start q u \<and> unit_well L u \<and> siblings_distinct u"
  shows "leads start path v"
  using assms
proof (induction s "''member''" stack arbitrary: rows rule: paths_loop.induct)
  case (2 s u q stack)
  from "2.prems"(1) obtain has cs rest where run: "has_schema u s = Inr has" "unit_units u ''member'' = Inr cs"
    "paths_loop s ''member'' (map (\<lambda>c. (c, q @ [unit_id c])) cs @ stack) = Inr rest" "rows = (if has then (q, u) # rest else rest)"
    by (auto simp: paths_loop.simps res_simps)
  have u: "leads start q u" "unit_well L u" "siblings_distinct u" using "2.prems"(3) [of u q] by simp_all
  have nxt: "leads start p w \<and> unit_well L w \<and> siblings_distinct w" if "(w, p) \<in> set (map (\<lambda>c. (c, q @ [unit_id c])) cs @ stack)" for w p
  proof (cases "(w, p) \<in> set stack")
    case True
    then show ?thesis using "2.prems"(3) [of w p] by simp
  next
    case False
    then have w: "w \<in> set cs" "p = q @ [unit_id w]" using that by auto
    then have c: "w \<in> set (children u)" using unit_units_children(1) [OF run(2)] by blast
    have ok: "unit_well L w" "siblings_distinct w" using unit_wellD(2) [OF u(2) c] u(3) c by (simp_all add: siblings_distinct.simps [of u])
    have tok: "canonical_token_valid (unit_id w)" using unit_cutD(1) [OF unit_wellD(1) [OF ok(1)]] .
    have "unit_member u (unit_id w) = Inr w" by (rule unit_member_found [OF run(2) w(1) u(3) tok])
    then have "leads start p w" using u(1) w(2) tok by (auto simp: leads_def descend_append)
    then show ?thesis using ok by blast
  qed
  show ?case
  proof (cases "(path, v) \<in> set rest")
    case True
    from "2.hyps" [OF run(1,2,3) True nxt] show ?thesis .
  next
    case False
    then show ?thesis using "2.prems"(2) run(4) u(1) by (auto split: if_splits)
  qed
qed simp

lemma member_paths_resolve:
  assumes "unit_well L u" "siblings_distinct u" "paths_loop s ''member'' [(u, [unit_id u])] = Inr rows" "(p, v) \<in> set rows"
  shows "unit_at_path u p = Inr v"
proof (rule leads_at, rule paths_lead [OF assms(3,4)])
  fix w q assume "(w, q) \<in> set [(u, [unit_id u])]"
  then show "leads u q w \<and> unit_well L w \<and> siblings_distinct w"
    using assms(1,2) unit_cutD(1) [OF unit_wellD(1) [OF assms(1)]] by (simp add: leads_def)
qed

end
