(* ===== verification/UnitIdentity.thy ===== *)
theory UnitIdentity
  imports Units
begin

text \<open>
  What the digests of a unit identify (\<^verbatim>\<open>foundation/kernel/unit.py\<close>): the streamed structural text is the
  canonical text of a document, and equal unit digests mean equal units, all nested units included,
  unless SHA-256 collides on one of the hashed texts.
\<close>

section \<open>The structural document\<close>

definition role_value_document :: "noetrium_unit role_value \<Rightarrow> json" where
  "role_value_document v = (case v of RRef p \<Rightarrow> JArr [JStr ''ref'', jstrs p]
     | RUnit u \<Rightarrow> JArr [JStr ''unit'', JStr (nu_digest u)] | RAtom j \<Rightarrow> JArr [JStr ''atom'', j])"

definition structural_document :: "string list \<Rightarrow> (string, json) dict \<Rightarrow> (string \<times> noetrium_unit role_value list) list \<Rightarrow> json" where
  "structural_document schemas attributes roles = JObj
     [(''attributes'', JObj attributes),
      (''roles'', JArr (map (\<lambda>r. JArr [JStr (fst r), JArr (map role_value_document (snd r))]) roles)), (''schemas'', jstrs schemas)]"

lemma role_value_text_canonical: "role_value_text L v = canonical_text L (role_value_document v)"
  by (cases v) (simp_all add: role_value_text_def role_value_document_def jstrs_def comp_def)

lemma structural_text_canonical:
  "unit_structural_text L schemas attributes roles = canonical_text L (structural_document schemas attributes roles)"
proof -
  have "role_text L = (\<lambda>r. canonical_text L (JArr [JStr (fst r), JArr (map role_value_document (snd r))]))"
    by (simp add: fun_eq_iff role_text_def role_value_text_canonical [abs_def] comp_def)
  then show ?thesis by (simp add: unit_structural_text_def structural_document_def jstrs_def comp_def)
qed

text \<open>The streamed digest is the canonical digest of the structural document.\<close>

lemma structural_digest_canonical:
  assumes "unit_cut L u"
  shows "structural_digest u = canonical_digest L (structural_document (unit_schemas u) (unit_attributes u) (unit_roles u))"
  using unit_cutD(6) [OF assms] by (simp add: canonical_digest_def canonical_bytes_def structural_text_canonical)

section \<open>The instance digest\<close>

lemma token_no_nul: "canonical_token_valid s \<Longrightarrow> CHR 0x00 \<notin> set s"
  by (auto simp: canonical_token_valid_def token_head_def token_char_def list_all_iff split: list.splits)

lemma token_utf8: "canonical_token_valid s \<Longrightarrow> utf8 s = s"
proof -
  have "utf8_char c = [c]" if "token_char c" for c
    using that by (auto simp: utf8_char_def token_char_def token_head_def Let_def)
  moreover have "token_char c" if "token_head c" for c using that by (simp add: token_char_def Let_def)
  ultimately have one: "utf8_char c = [c]" if "c \<in> set s" "canonical_token_valid s" for c
    using that by (auto simp: canonical_token_valid_def list_all_iff split: list.splits)
  assume s: "canonical_token_valid s"
  have "concat (map utf8_char t) = t" if "set t \<subseteq> set s" for t
    using that by (induction t) (simp_all add: one [OF _ s])
  then show ?thesis unfolding utf8_def by simp
qed

lemma nul_split: "CHR 0x00 \<notin> set a \<Longrightarrow> CHR 0x00 \<notin> set b \<Longrightarrow> a @ CHR 0x00 # x = b @ CHR 0x00 # y \<Longrightarrow> a = b \<and> x = y"
proof (induction a arbitrary: b)
  case Nil
  then show ?case by (cases b) auto
next
  case (Cons c a)
  then show ?case by (cases b) auto
qed

lemma instance_preimage_inj:
  assumes "canonical_token_valid a" "canonical_token_valid b" "length s = length s'"
    and "unit_instance_preimage a s t = unit_instance_preimage b s' t'"
  shows "a = b \<and> s = s' \<and> t = t'"
proof -
  have "a @ CHR 0x00 # s @ CHR 0x00 # t = b @ CHR 0x00 # s' @ CHR 0x00 # t'"
    using assms(4) by (simp add: unit_instance_preimage_def token_utf8 [OF assms(1)] token_utf8 [OF assms(2)])
  from nul_split [OF token_no_nul [OF assms(1)] token_no_nul [OF assms(2)] this] show ?thesis using assms(3) by simp
qed

section \<open>Binding\<close>

function subunits :: "noetrium_unit \<Rightarrow> noetrium_unit list" where
  "subunits u = u # concat (map subunits (children u))"
  by auto
termination by (relation "measure size") (auto simp: child_size)

declare subunits.simps [simp del]

definition unit_texts :: "hostlib \<Rightarrow> noetrium_unit \<Rightarrow> string set" where
  "unit_texts L u = (\<Union>v \<in> set (subunits u). {unit_instance_preimage (unit_id v) (structural_digest v) (semantic_digest v),
     utf8 (unit_structural_text L (unit_schemas v) (unit_attributes v) (unit_roles v))})"

text \<open>A projection that only repeats the structural digest is left out.\<close>

definition plain_projections :: "noetrium_unit \<Rightarrow> bool" where
  "plain_projections u = (\<forall>v \<in> set (subunits u). unit_projection v \<noteq> Some (structural_digest v))"

lemma subunits_self: "u \<in> set (subunits u)"
  by (simp add: subunits.simps [of u])

lemma subunits_child: "c \<in> set (children u) \<Longrightarrow> set (subunits c) \<subseteq> set (subunits u)"
  by (auto simp: subunits.simps [of u])

lemma role_document_eq:
  assumes "map (\<lambda>r. JArr [JStr (fst r), JArr (map role_value_document (snd r))]) xs =
      map (\<lambda>r. JArr [JStr (fst r), JArr (map role_value_document (snd r))]) ys"
    and "\<And>c d. c \<in> set (role_children xs) \<Longrightarrow> d \<in> set (role_children ys) \<Longrightarrow> nu_digest c = nu_digest d \<Longrightarrow> c = d"
  shows "xs = ys"
proof -
  have len: "length xs = length ys" using assms(1) map_eq_imp_length_eq by blast
  have "xs ! i = ys ! i" if i: "i < length xs" for i
  proof -
    have e: "fst (xs ! i) = fst (ys ! i)" "map role_value_document (snd (xs ! i)) = map role_value_document (snd (ys ! i))"
      using arg_cong [OF assms(1), of "\<lambda>l. l ! i"] i len by simp_all
    have len2: "length (snd (xs ! i)) = length (snd (ys ! i))" using e(2) map_eq_imp_length_eq by blast
    have "snd (xs ! i) ! j = snd (ys ! i) ! j" if j: "j < length (snd (xs ! i))" for j
    proof -
      have d: "role_value_document (snd (xs ! i) ! j) = role_value_document (snd (ys ! i) ! j)"
        using arg_cong [OF e(2), of "\<lambda>l. l ! j"] j len2 by simp
      show ?thesis
      proof (cases "snd (xs ! i) ! j")
        case (RUnit c)
        then obtain d' where d': "snd (ys ! i) ! j = RUnit d'" "nu_digest c = nu_digest d'"
          using d by (cases "snd (ys ! i) ! j") (auto simp: role_value_document_def)
        have "(fst (xs ! i), snd (xs ! i)) \<in> set xs" "(fst (ys ! i), snd (ys ! i)) \<in> set ys" using i len by simp_all
        moreover have "RUnit c \<in> set (snd (xs ! i))" "RUnit d' \<in> set (snd (ys ! i))" using RUnit d'(1) j len2 nth_mem by metis+
        ultimately have "c \<in> set (role_children xs)" "d' \<in> set (role_children ys)" unfolding role_children_mem by blast+
        from assms(2) [OF this d'(2)] show ?thesis using RUnit d'(1) by simp
      qed (use d in \<open>cases "snd (ys ! i) ! j"; auto simp: role_value_document_def\<close>)+
    qed
    then have "snd (xs ! i) = snd (ys ! i)" using len2 by (simp add: nth_equalityI)
    then show ?thesis using e(1) by (simp add: prod_eq_iff)
  qed
  then show ?thesis using len by (simp add: nth_equalityI)
qed

lemma unit_digest_binding:
  assumes L: "float_repr_ok L" "\<And>x. length (sha256_hex L x) = 64"
  shows "unit_well L a \<Longrightarrow> unit_well L b \<Longrightarrow> plain_projections a \<Longrightarrow> plain_projections b \<Longrightarrow>
    inj_on (sha256_hex L) (unit_texts L a \<union> unit_texts L b) \<Longrightarrow> nu_digest a = nu_digest b \<Longrightarrow> a = b"
proof (induction a arbitrary: b rule: unit_induct)
  case (1 a)
  note A = unit_cutD [OF unit_wellD(1) [OF "1.prems"(1)]] and B = unit_cutD [OF unit_wellD(1) [OF "1.prems"(2)]]
  have texts: "unit_instance_preimage (unit_id v) (structural_digest v) (semantic_digest v) \<in> unit_texts L v"
    "utf8 (unit_structural_text L (unit_schemas v) (unit_attributes v) (unit_roles v)) \<in> unit_texts L v" for v
    using subunits_self [of v] unfolding unit_texts_def by blast+
  have "unit_instance_preimage (unit_id a) (structural_digest a) (semantic_digest a) =
      unit_instance_preimage (unit_id b) (structural_digest b) (semantic_digest b)"
    by (rule inj_onD [OF "1.prems"(5)]) (use "1.prems"(6) A(8) B(8) texts in auto)
  from instance_preimage_inj [OF A(1) B(1) _ this] have ids: "unit_id a = unit_id b" "structural_digest a = structural_digest b" "semantic_digest a = semantic_digest b"
    using A(6) B(6) L(2) by simp_all
  have "utf8 (unit_structural_text L (unit_schemas a) (unit_attributes a) (unit_roles a)) =
      utf8 (unit_structural_text L (unit_schemas b) (unit_attributes b) (unit_roles b))"
    by (rule inj_onD [OF "1.prems"(5)]) (use ids(2) A(6) B(6) texts in auto)
  then have "structural_document (unit_schemas a) (unit_attributes a) (unit_roles a) = structural_document (unit_schemas b) (unit_attributes b) (unit_roles b)"
    using canonical_bytes_inj [OF L(1)] by (simp add: structural_text_canonical canonical_bytes_def)
  then have parts: "unit_schemas a = unit_schemas b" "unit_attributes a = unit_attributes b"
    "map (\<lambda>r. JArr [JStr (fst r), JArr (map role_value_document (snd r))]) (unit_roles a) =
     map (\<lambda>r. JArr [JStr (fst r), JArr (map role_value_document (snd r))]) (unit_roles b)"
    unfolding structural_document_def by simp_all
  have roles: "unit_roles a = unit_roles b"
  proof (rule role_document_eq [OF parts(3)])
    fix c d assume c: "c \<in> set (children a)" "d \<in> set (children b)" "nu_digest c = nu_digest d"
    show "c = d"
    proof (rule "1.IH" [OF c(1) unit_wellD(2) [OF "1.prems"(1) c(1)] unit_wellD(2) [OF "1.prems"(2) c(2)] _ _ _ c(3)])
      show "plain_projections c" "plain_projections d"
        using "1.prems"(3,4) subunits_child [OF c(1)] subunits_child [OF c(2)] by (auto simp: plain_projections_def)
      show "inj_on (sha256_hex L) (unit_texts L c \<union> unit_texts L d)"
        by (rule inj_on_subset [OF "1.prems"(5)]) (use subunits_child [OF c(1)] subunits_child [OF c(2)] in \<open>auto simp: unit_texts_def\<close>)
    qed
  qed
  have "unit_projection a = unit_projection b"
    using A(7) B(7) ids(2,3) "1.prems"(3,4) subunits_self [of a] subunits_self [of b]
    by (auto simp: plain_projections_def split: option.splits)
  then have "mk_unit L (unit_id a) (unit_schemas a) (Some (JObj (unit_attributes a))) (unit_roles a) (unit_projection a) = Inr b"
    using mk_unit_parts(1) [OF unit_wellD(1) [OF "1.prems"(2)]] ids(1) parts(1,2) roles by simp
  then show ?case using mk_unit_parts(1) [OF unit_wellD(1) [OF "1.prems"(1)]] by simp
qed

section \<open>Identity projections\<close>

text \<open>\<^verbatim>\<open>foundation/kernel/unit_identity.py\<close>: the identity of a unit under a projection a client supplies.\<close>

datatype identity_facet = FACET_SEMANTIC | FACET_OPERATIONAL | FACET_REALIZATION

fun facet_value :: "identity_facet \<Rightarrow> string" where
  "facet_value FACET_SEMANTIC = ''semantic''"
| "facet_value FACET_OPERATIONAL = ''operational''"
| "facet_value FACET_REALIZATION = ''realization''"

definition unit_identity :: "hostlib \<Rightarrow> noetrium_unit \<Rightarrow> (identity_facet \<times> string \<times> (noetrium_unit \<Rightarrow> json)) option \<Rightarrow> string res" where
  "unit_identity L u projection =
     (case projection of None \<Rightarrow> Inr (semantic_digest u)
      | Some (facet, projection_id, project) \<Rightarrow>
          res_bind (require (nonblank projection_id) ValueError) (\<lambda>_.
          Inr (canonical_digest L (jobj [(''facet'', JStr (facet_value facet)), (''projection_id'', JStr projection_id), (''value'', project u)]))))"

definition unit_semantically_equivalent :: "noetrium_unit \<Rightarrow> noetrium_unit \<Rightarrow> bool" where
  "unit_semantically_equivalent left right = (semantic_digest left = semantic_digest right)"

text \<open>Equal identities under projections mean the same facet, projection and projected value, unless the digest collides.\<close>

lemma projected_identity_binds:
  assumes "float_repr_ok L" "unit_identity L u (Some (f, p, g)) = Inr d" "unit_identity L v (Some (f', p', g')) = Inr d"
    and "\<not> digest_collision L (jobj [(''facet'', JStr (facet_value f)), (''projection_id'', JStr p), (''value'', g u)])
      (jobj [(''facet'', JStr (facet_value f')), (''projection_id'', JStr p'), (''value'', g' v)])"
  shows "f = f' \<and> p = p' \<and> g u = g' v"
proof -
  have "jobj [(''facet'', JStr (facet_value f)), (''projection_id'', JStr p), (''value'', g u)] =
      jobj [(''facet'', JStr (facet_value f')), (''projection_id'', JStr p'), (''value'', g' v)]"
    using assms(2,3) by (intro canonical_digest_inj [OF assms(1,4)]) (auto simp: unit_identity_def res_simps)
  then have "facet_value f = facet_value f' \<and> p = p' \<and> g u = g' v" by (subst (asm) jobj_eq_iff) simp_all
  then show ?thesis by (cases f; cases f') simp_all
qed

section \<open>Digests of identity parts\<close>

text \<open>
  \<^verbatim>\<open>unit_merkle_digest\<close> of \<^verbatim>\<open>unit.py\<close>: a tag and parts are written to one buffer, each with a type letter and a
  four-byte length.  The stack of the code is the list with its top first.
\<close>

datatype identity_part = PartNone | PartStr string | PartInt int | PartTuple "identity_part list"

definition be4 :: "nat \<Rightarrow> string res" where
  "be4 n = (if n < 2 ^ 32 then Inr (map (\<lambda>k. char_of (n div 256 ^ k mod 256)) [3, 2, 1, 0]) else Inl OverflowError)"

function merkle_buffer :: "identity_part list \<Rightarrow> string res" where
  "merkle_buffer [] = Inr []"
| "merkle_buffer (PartNone # stack) = res_bind (merkle_buffer stack) (\<lambda>out. Inr (CHR ''N'' # out))"
| "merkle_buffer (PartStr s # stack) = res_bind (be4 (length (utf8 s))) (\<lambda>n.
     res_bind (merkle_buffer stack) (\<lambda>out. Inr (CHR ''S'' # n @ utf8 s @ out)))"
| "merkle_buffer (PartInt i # stack) = res_bind (be4 (length (dec_int i))) (\<lambda>n.
     res_bind (merkle_buffer stack) (\<lambda>out. Inr (CHR ''I'' # n @ dec_int i @ out)))"
| "merkle_buffer (PartTuple xs # stack) = res_bind (be4 (length xs)) (\<lambda>n.
     res_bind (merkle_buffer (xs @ stack)) (\<lambda>out. Inr (CHR ''T'' # n @ out)))"
  by pat_completeness auto
termination by (relation "measure (\<lambda>stack. sum_list (map size stack) + length stack)") (auto simp: size_list_conv_sum_list)

definition unit_merkle_digest :: "hostlib \<Rightarrow> string \<Rightarrow> identity_part list \<Rightarrow> string res" where
  "unit_merkle_digest L tag parts = res_bind (merkle_buffer (PartStr tag # parts)) (\<lambda>out. Inr (sha256_hex L out))"

text \<open>The buffer determines the parts.\<close>

lemma be4_inj:
  assumes "be4 m = Inr s" "be4 n = Inr s"
  shows "m = n"
proof -
  have b: "m < 2 ^ 32" "n < 2 ^ 32" and digits: "map (\<lambda>k. char_of (m div 256 ^ k mod 256)) [3, 2, 1, 0] = (map (\<lambda>k. char_of (n div 256 ^ k mod 256)) [3, 2, 1, 0] :: string)"
    using assms by (auto simp: be4_def split: if_splits)
  have "m div 256 ^ k mod 256 = n div 256 ^ k mod 256" if "k < 4" for k
  proof -
    have "k \<in> set [3, 2, 1, 0]" using that by auto
    then have "(char_of (m div 256 ^ k mod 256) :: char) = char_of (n div 256 ^ k mod 256)" using digits unfolding map_eq_conv by blast
    then show ?thesis by (metis of_char_of mod_mod_trivial)
  qed
  then have "m mod 256 ^ 4 = n mod 256 ^ 4" by (intro base256_digits) simp
  with b show ?thesis by simp
qed

lemma be4_length: "be4 n = Inr s \<Longrightarrow> length s = 4"
  by (auto simp: be4_def split: if_splits)

lemma be4_block:
  assumes "be4 (length d) = Inr n" "be4 (length d') = Inr n'" "n @ d @ r = n' @ d' @ r'"
  shows "d = d' \<and> r = r'"
proof -
  have "n = n'" "d @ r = d' @ r'" using assms be4_length by auto
  then show ?thesis using be4_inj assms(1,2) by auto
qed

lemma merkle_buffer_inj: "merkle_buffer xs = Inr s \<Longrightarrow> merkle_buffer ys = Inr s \<Longrightarrow> xs = ys"
proof (induction xs arbitrary: s ys rule: merkle_buffer.induct)
  case 1
  then show ?case by (cases ys rule: merkle_buffer.cases) (auto simp: res_simps)
next
  case (2 st)
  then show ?case by (cases ys rule: merkle_buffer.cases) (auto simp: res_simps)
next
  case (3 t st)
  then obtain n out where s: "be4 (length (utf8 t)) = Inr n" "merkle_buffer st = Inr out" "s = CHR ''S'' # n @ utf8 t @ out" by (auto simp: res_simps)
  from 3(3) s(3) obtain t' st' n' out' where y: "ys = PartStr t' # st'" "be4 (length (utf8 t')) = Inr n'" "merkle_buffer st' = Inr out'"
    "n @ utf8 t @ out = n' @ utf8 t' @ out'" by (cases ys rule: merkle_buffer.cases) (auto simp: res_simps)
  from be4_block [OF s(1) y(2,4)] have "utf8 t = utf8 t'" "out = out'" by blast+
  then show ?case using utf8_inj 3(1) [OF s(1,2)] y(1,3) by auto
next
  case (4 i st)
  then obtain n out where s: "be4 (length (dec_int i)) = Inr n" "merkle_buffer st = Inr out" "s = CHR ''I'' # n @ dec_int i @ out" by (auto simp: res_simps)
  from 4(3) s(3) obtain j st' n' out' where y: "ys = PartInt j # st'" "be4 (length (dec_int j)) = Inr n'" "merkle_buffer st' = Inr out'"
    "n @ dec_int i @ out = n' @ dec_int j @ out'" by (cases ys rule: merkle_buffer.cases) (auto simp: res_simps)
  from be4_block [OF s(1) y(2,4)] have "dec_int i = dec_int j" "out = out'" by blast+
  then show ?case using dec_int_inj 4(1) [OF s(1,2)] y(1,3) by auto
next
  case (5 zs st)
  then obtain n out where s: "be4 (length zs) = Inr n" "merkle_buffer (zs @ st) = Inr out" "s = CHR ''T'' # n @ out" by (auto simp: res_simps)
  from 5(3) s(3) obtain zs' st' n' out' where y: "ys = PartTuple zs' # st'" "be4 (length zs') = Inr n'" "merkle_buffer (zs' @ st') = Inr out'"
    "n @ out = n' @ out'" by (cases ys rule: merkle_buffer.cases) (auto simp: res_simps)
  have "n = n'" "out = out'" using y(4) be4_length [OF s(1)] be4_length [OF y(2)] by auto
  then have "length zs = length zs'" "zs @ st = zs' @ st'" using be4_inj s(1) y(2) 5(1) [OF s(1,2)] y(3) by blast+
  then show ?case using y(1) by simp
qed

lemma unit_merkle_digest_binds:
  assumes "unit_merkle_digest L tag parts = Inr d" "unit_merkle_digest L tag' parts' = Inr d"
  shows "tag = tag' \<and> parts = parts' \<or> (\<exists>x y. x \<noteq> y \<and> sha256_hex L x = d \<and> sha256_hex L y = d)"
proof -
  obtain s t where st: "merkle_buffer (PartStr tag # parts) = Inr s" "sha256_hex L s = d" "merkle_buffer (PartStr tag' # parts') = Inr t" "sha256_hex L t = d"
    using assms by (auto simp: unit_merkle_digest_def res_bind_eq_Inr)
  show ?thesis
  proof (cases "s = t")
    case True
    then show ?thesis using merkle_buffer_inj [OF st(1)] st(3) by blast
  next
    case False
    then show ?thesis using st(2,4) by blast
  qed
qed

end
