(* ===== verification/UnitCodec.thy ===== *)
theory UnitCodec
  imports UnitIdentity
begin

text \<open>
  The codec of units, \<^verbatim>\<open>foundation/kernel/unit_codec.py\<close>: a unit is stored as the table of its distinct
  subunits, ordered by digest, with children named by their position; decoding materializes the table
  in dependency order and checks every digest.  Stored bytes are modelled by the document they hold.
\<close>

section \<open>Encoding\<close>

function collect_units :: "(string \<times> noetrium_unit) list \<Rightarrow> noetrium_unit list \<Rightarrow> (string \<times> noetrium_unit) list res" where
  "collect_units found [] = Inr found"
| "collect_units found (u # stack) =
     (case map_of found (nu_digest u) of
        Some previous \<Rightarrow> if \<not> unit_eq previous u then Inl ValueError else collect_units found stack
      | None \<Rightarrow> collect_units (found @ [(nu_digest u, u)]) (rev (children u) @ stack))"
  by pat_completeness auto
termination
proof (relation "measure (\<lambda>(_, stack). sum_list (map unit_nodes stack))")
  fix found :: "(string \<times> noetrium_unit) list" and u stack
  show "((found @ [(nu_digest u, u)], rev (children u) @ stack), found, u # stack) \<in> measure (\<lambda>(_, stack). sum_list (map unit_nodes stack))"
    by (simp add: unit_nodes.simps [of u] rev_map [symmetric])
  show "((found, stack), found, u # stack) \<in> measure (\<lambda>(_, stack). sum_list (map unit_nodes stack))"
    by (simp add: unit_nodes.simps [of u])
qed simp

definition unit_table :: "noetrium_unit \<Rightarrow> noetrium_unit list res" where
  "unit_table start = res_bind (collect_units [] [start]) (\<lambda>found. Inr (map snd (sort_key fst found)))"

definition unit_position :: "noetrium_unit list \<Rightarrow> string \<Rightarrow> nat res" where
  "unit_position units d = (case map_of (zip (map nu_digest units) [0..<length units]) d of None \<Rightarrow> Inl KeyError | Some i \<Rightarrow> Inr i)"

definition value_document :: "noetrium_unit list \<Rightarrow> noetrium_unit role_value \<Rightarrow> json res" where
  "value_document units v = (case v of
       RUnit u \<Rightarrow> res_bind (unit_position units (nu_digest u)) (\<lambda>i. Inr (jobj [(''kind'', JStr ''unit''), (''index'', JInt (int i))]))
     | RRef p \<Rightarrow> Inr (jobj [(''kind'', JStr ''ref''), (''path'', jstrs p)])
     | RAtom j \<Rightarrow> Inr (jobj [(''kind'', JStr ''literal''), (''value'', j)]))"

definition role_document :: "noetrium_unit list \<Rightarrow> string \<times> noetrium_unit role_value list \<Rightarrow> json res" where
  "role_document units r = res_bind (res_map (value_document units) (snd r)) (\<lambda>values.
     Inr (jobj [(''name'', JStr (fst r)), (''values'', JArr values)]))"

definition unit_record :: "noetrium_unit list \<Rightarrow> nat \<Rightarrow> noetrium_unit \<Rightarrow> json res" where
  "unit_record units offset u = res_bind (res_map (role_document units) (unit_roles u)) (\<lambda>roles. Inr (jobj
     [(''index'', JInt (int offset)), (''unit_id'', JStr (unit_id u)), (''schemas'', jstrs (unit_schemas u)),
      (''attributes'', JObj (unit_attributes u)), (''roles'', JArr roles),
      (''semantic_projection_digest'', jopt_str (unit_projection u)), (''structural_digest'', JStr (structural_digest u)),
      (''semantic_digest'', JStr (semantic_digest u)), (''unit_digest'', JStr (nu_digest u))]))"

definition unit_document_schema :: string where
  "unit_document_schema = ''noetrium.unit.document.v2''"

definition unit_table_document :: "noetrium_unit \<Rightarrow> json res" where
  "unit_table_document start =
     res_bind (unit_table start) (\<lambda>units.
     res_bind (unit_position units (nu_digest start)) (\<lambda>i.
     res_bind (res_map (\<lambda>(offset, u). unit_record units offset u) (zip [0..<length units] units)) (\<lambda>records.
     Inr (jobj [(''schema'', JStr unit_document_schema), (''root'', JInt (int i)), (''units'', JArr records)]))))"

text \<open>The encoder checks the nesting of the document; the document of a unit never comes near the limit (\<open>document_depth\<close>).\<close>

definition encode_unit :: "noetrium_unit \<Rightarrow> json res" where
  "encode_unit start = res_bind (unit_table_document start) freeze_json"

section \<open>Decoding\<close>

text \<open>\<^verbatim>\<open>strict_json_loads\<close> on the document that the bytes hold: the nesting limit is part of the strict domain.\<close>

definition strict_document :: "json \<Rightarrow> json res" where
  "strict_document doc = (case freeze_json doc of Inl _ \<Rightarrow> Inl ValueError | Inr v \<Rightarrow> Inr v)"

definition as_mapping :: "json option \<Rightarrow> (string, json) dict res" where
  "as_mapping v = (case v of Some (JObj kvs) \<Rightarrow> Inr kvs | _ \<Rightarrow> Inl ValueError)"

definition as_sequence :: "json option \<Rightarrow> json list res" where
  "as_sequence v = (case v of Some (JArr xs) \<Rightarrow> Inr xs | _ \<Rightarrow> Inl ValueError)"

definition text_of :: "json option \<Rightarrow> string res" where
  "text_of v = (case v of Some (JStr s) \<Rightarrow> Inr s | _ \<Rightarrow> Inl ValueError)"

text \<open>\<^verbatim>\<open>value == n\<close> for an integer: Python compares booleans and floats by value.\<close>

definition equals_int :: "json option \<Rightarrow> int \<Rightarrow> bool" where
  "equals_int v n = (case v of Some (JInt m) \<Rightarrow> m = n | Some (JBool b) \<Rightarrow> of_bool b = n | Some (JFloat q) \<Rightarrow> q = of_int n | _ \<Rightarrow> False)"

datatype parsed_value = PUnit nat | PRef "string list" | PLiteral json

record prepared =
  pre_unit_id :: string
  pre_schemas :: "string list"
  pre_attributes :: "(string, json) dict"
  pre_projection :: "string option"
  pre_structural :: "json option"
  pre_semantic :: "json option"
  pre_digest :: "json option"
  pre_roles :: "(string \<times> parsed_value list) list"

definition parse_value :: "nat \<Rightarrow> nat \<Rightarrow> json \<Rightarrow> parsed_value res" where
  "parse_value record_count expected raw_value =
     res_bind (as_mapping (Some raw_value)) (\<lambda>v.
     case map_of v ''kind'' of
       Some (JStr kind) \<Rightarrow>
         if kind = ''unit'' then
           (case map_of v ''index'' of
              Some (JInt child) \<Rightarrow>
                if child < 0 \<or> int record_count \<le> child then Inl ValueError
                else if child = int expected then Inl ValueError else Inr (PUnit (nat child))
            | _ \<Rightarrow> Inl ValueError)
         else if kind = ''ref'' then
           res_bind (as_sequence (map_of v ''path'')) (\<lambda>path. res_bind (res_map (\<lambda>t. text_of (Some t)) path) (\<lambda>p. Inr (PRef p)))
         else if kind = ''literal'' then
           (case map_of v ''value'' of None \<Rightarrow> Inl ValueError | Some j \<Rightarrow> Inr (PLiteral j))
         else Inl ValueError
     | _ \<Rightarrow> Inl ValueError)"

definition parse_role :: "nat \<Rightarrow> nat \<Rightarrow> json \<Rightarrow> (string \<times> parsed_value list) res" where
  "parse_role record_count expected raw_role =
     res_bind (as_mapping (Some raw_role)) (\<lambda>role.
     res_bind (text_of (map_of role ''name'')) (\<lambda>name.
     res_bind (as_sequence (map_of role ''values'')) (\<lambda>values.
     res_bind (res_map (parse_value record_count expected) values) (\<lambda>parsed. Inr (name, parsed)))))"

definition parse_projection :: "json option \<Rightarrow> string option res" where
  "parse_projection v = (case v of None \<Rightarrow> Inr None | Some JNull \<Rightarrow> Inr None | Some (JStr s) \<Rightarrow> Inr (Some s) | _ \<Rightarrow> Inl ValueError)"

definition parse_record :: "nat \<Rightarrow> nat \<Rightarrow> json \<Rightarrow> prepared res" where
  "parse_record record_count expected raw_record =
     res_bind (as_mapping (Some raw_record)) (\<lambda>r.
     res_bind (require (equals_int (map_of r ''index'') (int expected)) ValueError) (\<lambda>_.
     res_bind (as_sequence (map_of r ''schemas'')) (\<lambda>raw_schemas.
     res_bind (as_mapping (map_of r ''attributes'')) (\<lambda>attributes.
     res_bind (text_of (map_of r ''unit_id'')) (\<lambda>uid.
     res_bind (res_map (\<lambda>t. text_of (Some t)) raw_schemas) (\<lambda>schemas.
     res_bind (parse_projection (map_of r ''semantic_projection_digest'')) (\<lambda>projection.
     res_bind (as_sequence (map_of r ''roles'')) (\<lambda>raw_roles.
     res_bind (res_map (parse_role record_count expected) raw_roles) (\<lambda>roles.
     Inr \<lparr>pre_unit_id = uid, pre_schemas = schemas, pre_attributes = attributes, pre_projection = projection,
       pre_structural = map_of r ''structural_digest'', pre_semantic = map_of r ''semantic_digest'',
       pre_digest = map_of r ''unit_digest'', pre_roles = roles\<rparr>)))))))))"

definition record_deps :: "prepared \<Rightarrow> nat list" where
  "record_deps p = remdups (concat (map (\<lambda>r. concat (map (\<lambda>v. case v of PUnit i \<Rightarrow> [i] | _ \<Rightarrow> []) (snd r))) (pre_roles p)))"

definition record_parents :: "prepared list \<Rightarrow> nat \<Rightarrow> nat list" where
  "record_parents rows child = filter (\<lambda>p. child \<in> set (record_deps (rows ! p))) [0..<length rows]"

definition resolve_value :: "(nat \<times> noetrium_unit) list \<Rightarrow> parsed_value \<Rightarrow> noetrium_unit role_value res" where
  "resolve_value built v = (case v of
       PUnit i \<Rightarrow> (case map_of built i of None \<Rightarrow> Inl ValueError | Some u \<Rightarrow> Inr (RUnit u))
     | PRef p \<Rightarrow> res_bind (mk_unit_ref p) (\<lambda>q. Inr (RRef q))
     | PLiteral j \<Rightarrow> Inr (RAtom j))"

definition materialize :: "hostlib \<Rightarrow> (nat \<times> noetrium_unit) list \<Rightarrow> prepared \<Rightarrow> noetrium_unit res" where
  "materialize L built p =
     res_bind (res_map (\<lambda>r. res_bind (res_map (resolve_value built) (snd r)) (\<lambda>values. Inr (fst r, values))) (pre_roles p)) (\<lambda>roles.
     res_bind (mk_unit L (pre_unit_id p) (pre_schemas p) (Some (JObj (pre_attributes p))) roles (pre_projection p)) (\<lambda>u.
     res_bind (require (pre_structural p = Some (JStr (structural_digest u))) ValueError) (\<lambda>_.
     res_bind (require (pre_semantic p = Some (JStr (semantic_digest u))) ValueError) (\<lambda>_.
     res_bind (require (pre_digest p = Some (JStr (nu_digest u))) ValueError) (\<lambda>_. Inr u)))))"

fun discard_parents :: "nat \<Rightarrow> nat list \<Rightarrow> nat list list \<Rightarrow> nat list \<Rightarrow> nat list list \<times> nat list" where
  "discard_parents index [] deps ready = (deps, ready)"
| "discard_parents index (parent # parents) deps ready =
     (let deps' = deps[parent := filter (\<lambda>d. d \<noteq> index) (deps ! parent)] in
      discard_parents index parents deps' (if deps' ! parent = [] then insort parent ready else ready))"

partial_function (option) build_loop ::
    "hostlib \<Rightarrow> prepared list \<Rightarrow> nat list \<Rightarrow> nat list list \<Rightarrow> (nat \<times> noetrium_unit) list \<Rightarrow> (nat \<times> noetrium_unit) list res option" where
  "build_loop L rows ready deps built =
     (case ready of
        [] \<Rightarrow> Some (Inr built)
      | index # rest \<Rightarrow>
          (case materialize L built (rows ! index) of
             Inl e \<Rightarrow> Some (Inl e)
           | Inr u \<Rightarrow>
               (case discard_parents index (record_parents rows index) deps rest of
                  (deps', ready') \<Rightarrow> build_loop L rows ready' deps' (built @ [(index, u)]))))"

definition build_units :: "hostlib \<Rightarrow> prepared list \<Rightarrow> (nat \<times> noetrium_unit) list res option" where
  "build_units L rows =
     build_loop L rows (filter (\<lambda>i. record_deps (rows ! i) = []) [0..<length rows]) (map record_deps rows) []"

definition decode_root :: "prepared list \<Rightarrow> (nat \<times> noetrium_unit) list \<Rightarrow> json option \<Rightarrow> noetrium_unit res" where
  "decode_root rows built v =
     res_bind (require (length built = length rows) ValueError) (\<lambda>_.
     case v of Some (JInt i) \<Rightarrow> (case if i < 0 then None else map_of built (nat i) of None \<Rightarrow> Inl ValueError | Some u \<Rightarrow> Inr u)
     | _ \<Rightarrow> Inl ValueError)"

definition parse_document :: "json \<Rightarrow> ((string, json) dict \<times> prepared list) res" where
  "parse_document doc =
     res_bind (strict_document doc) (\<lambda>value. res_bind (as_mapping (Some value)) (\<lambda>document.
     res_bind (require (map_of document ''schema'' = Some (JStr unit_document_schema)) ValueError) (\<lambda>_.
     res_bind (as_sequence (map_of document ''units'')) (\<lambda>raw_records.
     res_bind (require (raw_records \<noteq> []) ValueError) (\<lambda>_.
     res_bind (res_map (\<lambda>(i, r). parse_record (length raw_records) i r) (zip [0..<length raw_records] raw_records)) (\<lambda>rows.
     Inr (document, rows)))))))"

definition decode_unit :: "hostlib \<Rightarrow> json \<Rightarrow> noetrium_unit res option" where
  "decode_unit L doc =
     (case parse_document doc of
        Inl e \<Rightarrow> Some (Inl e)
      | Inr (document, rows) \<Rightarrow>
          (case build_units L rows of
             None \<Rightarrow> None
           | Some (Inl e) \<Rightarrow> Some (Inl e)
           | Some (Inr built) \<Rightarrow> Some (res_bind (decode_root rows built (map_of document ''root'')) (\<lambda>result.
               res_bind (encode_unit result) (\<lambda>again.
               res_bind (require (again = doc) ValueError) (\<lambda>_. Inr result))))))"

end
