(* ===== verification/UnitCodecProofs.thy ===== *)
theory UnitCodecProofs
  imports UnitCodec
begin

text \<open>
  Decoding ends on every document, and a unit whose subunits have distinct digests is decoded from its
  document exactly.
\<close>

section \<open>The table of a unit\<close>

lemma subunits_least:
  assumes "u \<in> A" "\<And>v. v \<in> A \<Longrightarrow> set (children v) \<subseteq> A"
  shows "set (subunits u) \<subseteq> A"
  using assms(1)
proof (induction u rule: unit_induct)
  case (1 u)
  then show ?case using assms(2) by (auto simp: subunits.simps [of u])
qed

lemma subunits_closed: "v \<in> set (subunits u) \<Longrightarrow> set (children v) \<subseteq> set (subunits u)"
proof (induction u rule: unit_induct)
  case (1 u)
  show ?case
  proof (cases "v = u")
    case True
    then show ?thesis using subunits_self by (auto simp: subunits.simps [of u])
  next
    case False
    then obtain c where c: "c \<in> set (children u)" "v \<in> set (subunits c)" using "1.prems" by (auto simp: subunits.simps [of u])
    from "1.IH" [OF c] subunits_child [OF c(1)] show ?thesis by blast
  qed
qed

definition found_ok :: "noetrium_unit set \<Rightarrow> (string \<times> noetrium_unit) list \<Rightarrow> noetrium_unit set \<Rightarrow> bool" where
  "found_ok U found rest = (snd ` set found \<subseteq> U \<and> rest \<subseteq> U \<and> distinct (map fst found) \<and> (\<forall>(d, v) \<in> set found. d = nu_digest v) \<and>
     (\<forall>v \<in> snd ` set found. set (children v) \<subseteq> snd ` set found \<union> rest))"

lemma found_okD:
  assumes "found_ok U found rest" "(d, v) \<in> set found"
  shows "v \<in> U" "nu_digest v = d"
proof -
  have "v \<in> snd ` set found" using assms(2) by force
  then show "v \<in> U" using assms(1) by (auto simp: found_ok_def)
  show "nu_digest v = d" using assms by (auto simp: found_ok_def)
qed

lemma collect_found:
  assumes inj: "inj_on nu_digest U" and closed: "\<And>v. v \<in> U \<Longrightarrow> set (children v) \<subseteq> U"
  shows "found_ok U found (set stack) \<Longrightarrow>
    \<exists>f. collect_units found stack = Inr f \<and> found_ok U f {} \<and> snd ` set found \<union> set stack \<subseteq> snd ` set f"
proof (induction found stack rule: collect_units.induct)
  case (1 found)
  then show ?case by simp
next
  case (2 found u stack)
  have u: "u \<in> U" using "2.prems" by (simp add: found_ok_def)
  show ?case
  proof (cases "map_of found (nu_digest u)")
    case None
    then have new: "nu_digest u \<notin> fst ` set found" by (simp add: map_of_eq_None_iff)
    have "found_ok U (found @ [(nu_digest u, u)]) (set (rev (children u) @ stack))"
      using "2.prems" new closed [OF u] by (auto simp: found_ok_def)
    from "2.IH"(1) [OF None this] show ?thesis by (auto simp: None)
  next
    case (Some previous)
    then have mem: "(nu_digest u, previous) \<in> set found" by (rule map_of_SomeD)
    note p = found_okD [OF "2.prems" mem]
    have eq: "previous = u" by (rule inj_onD [OF inj p(2) p(1) u])
    have mem': "u \<in> snd ` set found" using mem eq by force
    then have "snd ` set found \<union> set (u # stack) = snd ` set found \<union> set stack" by auto
    then have "found_ok U found (set stack)" using "2.prems" unfolding found_ok_def by auto
    then obtain f where f: "collect_units found stack = Inr f" "found_ok U f {}" "snd ` set found \<union> set stack \<subseteq> snd ` set f"
      using "2.IH"(2) [OF Some] eq unfolding unit_eq_def by blast
    then show ?thesis using eq mem' by (intro exI [of _ f]) (auto simp: Some unit_eq_def)
  qed
qed

definition table_of :: "noetrium_unit \<Rightarrow> noetrium_unit list \<Rightarrow> bool" where
  "table_of u us = (unit_table u = Inr us \<and> distinct (map nu_digest us) \<and> sorted (map nu_digest us) \<and> set us = set (subunits u))"

lemma unit_table_ok:
  assumes "inj_on nu_digest (set (subunits u))"
  obtains us where "table_of u us"
proof -
  have "found_ok (set (subunits u)) [] (set [u])" using subunits_self by (simp add: found_ok_def)
  from collect_found [OF assms subunits_closed this] obtain f where f: "collect_units [] [u] = Inr f" "found_ok (set (subunits u)) f {}" "u \<in> snd ` set f"
    by auto
  have all: "snd ` set f = set (subunits u)"
  proof
    show "set (subunits u) \<subseteq> snd ` set f" by (rule subunits_least [OF f(3)]) (use f(2) in \<open>auto simp: found_ok_def\<close>)
  qed (use f(2) in \<open>simp add: found_ok_def\<close>)
  let ?us = "map snd (sort_key fst f)"
  have "nu_digest (snd x) = fst x" if "x \<in> set f" for x using f(2) that by (auto simp: found_ok_def)
  then have dig: "map nu_digest ?us = map fst (sort_key fst f)" by simp
  have "distinct (map fst (sort_key fst f))" using f(2) by (simp add: found_ok_def distinct_map)
  then have "table_of u ?us" unfolding table_of_def dig using f(1) all by (simp add: unit_table_def del: collect_units.simps)
  then show ?thesis by (rule that)
qed

text \<open>Positions in a table with distinct digests.\<close>

lemma unit_position_nth:
  assumes "distinct (map nu_digest us)" "i < length us"
  shows "unit_position us (nu_digest (us ! i)) = Inr i"
proof -
  have "map_of (zip (map nu_digest us) [0..<length us]) (map nu_digest us ! i) = Some ([0..<length us] ! i)"
    by (rule map_of_zip_nth) (use assms in simp_all)
  then show ?thesis using assms(2) by (simp add: unit_position_def)
qed

lemma unit_position_mem:
  assumes "distinct (map nu_digest us)" "v \<in> set us"
  obtains i where "unit_position us (nu_digest v) = Inr i" "i < length us" "us ! i = v"
  using assms unit_position_nth [OF assms(1)] by (metis in_set_conv_nth)

section \<open>Decoding ends\<close>

definition build_inv :: "prepared list \<Rightarrow> nat list \<Rightarrow> nat list list \<Rightarrow> (nat \<times> noetrium_unit) list \<Rightarrow> bool" where
  "build_inv rows ready deps built =
     (length deps = length rows \<and> distinct (map fst built) \<and> fst ` set built \<subseteq> {..<length rows} \<and>
      (\<forall>p < length rows. set (deps ! p) = {c \<in> set (record_deps (rows ! p)). map_of built c = None}) \<and>
      (\<forall>p. map_of built p \<noteq> None \<longrightarrow> deps ! p = []) \<and> distinct ready \<and> set ready = {p. p < length rows \<and> deps ! p = [] \<and> map_of built p = None})"

lemma discard_parents_spec:
  assumes "distinct parents" "\<And>p. p \<in> set parents \<Longrightarrow> p < length deps \<and> p \<notin> set ready" "distinct ready"
    and "discard_parents index parents deps ready = (deps', ready')"
  shows "length deps' = length deps" "\<And>p. p < length deps \<Longrightarrow> deps' ! p = (if p \<in> set parents then filter (\<lambda>d. d \<noteq> index) (deps ! p) else deps ! p)"
    "distinct ready'" "set ready' = set ready \<union> {p \<in> set parents. filter (\<lambda>d. d \<noteq> index) (deps ! p) = []}"
proof -
  have "length deps' = length deps \<and> (\<forall>p < length deps. deps' ! p = (if p \<in> set parents then filter (\<lambda>d. d \<noteq> index) (deps ! p) else deps ! p)) \<and>
    distinct ready' \<and> set ready' = set ready \<union> {p \<in> set parents. filter (\<lambda>d. d \<noteq> index) (deps ! p) = []}"
    using assms
  proof (induction index parents deps ready rule: discard_parents.induct)
    case (2 index parent parents deps ready)
    let ?deps = "deps[parent := filter (\<lambda>d. d \<noteq> index) (deps ! parent)]"
    let ?ready = "if ?deps ! parent = [] then insort parent ready else ready"
    have p: "parent < length deps" "parent \<notin> set ready" "parent \<notin> set parents" "distinct parents" using "2.prems"(1,2) by auto
    have IH: "length deps' = length ?deps \<and> (\<forall>p < length ?deps. deps' ! p = (if p \<in> set parents then filter (\<lambda>d. d \<noteq> index) (?deps ! p) else ?deps ! p)) \<and>
        distinct ready' \<and> set ready' = set ?ready \<union> {p \<in> set parents. filter (\<lambda>d. d \<noteq> index) (?deps ! p) = []}"
    proof (rule "2.IH" [OF refl p(4)])
      show "q < length ?deps \<and> q \<notin> set ?ready" if "q \<in> set parents" for q using "2.prems"(2) [of q] that p(3) by (auto simp: set_insort_key)
      show "distinct ?ready" using "2.prems"(3) p(2) by (simp add: distinct_insort)
      show "discard_parents index parents ?deps ?ready = (deps', ready')" using "2.prems"(4) by (simp add: Let_def)
    qed
    have nth: "?deps ! q = deps ! q" if "q \<in> set parents" for q using that p(3) by (metis nth_list_update_neq)
    then have "{q \<in> set parents. filter (\<lambda>d. d \<noteq> index) (?deps ! q) = []} = {q \<in> set parents. filter (\<lambda>d. d \<noteq> index) (deps ! q) = []}" by auto
    then show ?case using IH p by (auto simp: set_insort_key nth_list_update)
  qed simp
  then show "length deps' = length deps" "\<And>p. p < length deps \<Longrightarrow> deps' ! p = (if p \<in> set parents then filter (\<lambda>d. d \<noteq> index) (deps ! p) else deps ! p)"
    "distinct ready'" "set ready' = set ready \<union> {p \<in> set parents. filter (\<lambda>d. d \<noteq> index) (deps ! p) = []}" by blast+
qed

lemma build_inv_step:
  assumes inv: "build_inv rows (index # rest) deps built"
    and disc: "discard_parents index (record_parents rows index) deps rest = (deps', ready')"
  shows "build_inv rows ready' deps' (built @ [(index, u)])"
proof -
  have I: "length deps = length rows" "distinct (map fst built)" "fst ` set built \<subseteq> {..<length rows}"
    "\<And>p. p < length rows \<Longrightarrow> set (deps ! p) = {c \<in> set (record_deps (rows ! p)). map_of built c = None}"
    "distinct (index # rest)" "set (index # rest) = {p. p < length rows \<and> deps ! p = [] \<and> map_of built p = None}"
    "\<And>p. map_of built p \<noteq> None \<Longrightarrow> deps ! p = []"
    using inv unfolding build_inv_def by blast+
  have idx: "index < length rows" "deps ! index = []" "map_of built index = None" using I(6) by auto
  have parents: "p \<in> set (record_parents rows index) \<longleftrightarrow> p < length rows \<and> index \<in> set (record_deps (rows ! p))" for p
    by (auto simp: record_parents_def)
  have busy: "index \<in> set (deps ! p)" if "p \<in> set (record_parents rows index)" for p using that I(4) [of p] idx(3) by (simp add: parents)
  have pre: "p < length deps \<and> p \<notin> set rest" if p: "p \<in> set (record_parents rows index)" for p
  proof -
    have "deps ! p \<noteq> []" using busy [OF p] by auto
    then show ?thesis using I(1,6) p by (auto simp: parents)
  qed
  have dist: "distinct (record_parents rows index)" "distinct rest" using I(5) by (simp_all add: record_parents_def)
  note D = discard_parents_spec [OF dist(1) pre dist(2) disc]
  have get: "map_of (built @ [(index, u)]) c = None \<longleftrightarrow> map_of built c = None \<and> c \<noteq> index" for c
    by (auto simp: map_add_def split: option.splits)
  have deps': "set (deps' ! p) = {c \<in> set (record_deps (rows ! p)). map_of (built @ [(index, u)]) c = None}" if "p < length rows" for p
    using D(2) [of p] that I(1) I(4) [OF that] parents [of p] unfolding get by auto
  have "set ready' = {p. p < length rows \<and> deps' ! p = [] \<and> map_of (built @ [(index, u)]) p = None}"
  proof (intro set_eqI iffI)
    fix p assume "p \<in> set ready'"
    then consider "p \<in> set rest" | "p \<in> set (record_parents rows index)" "filter (\<lambda>d. d \<noteq> index) (deps ! p) = []" using D(4) by auto
    then show "p \<in> {p. p < length rows \<and> deps' ! p = [] \<and> map_of (built @ [(index, u)]) p = None}"
    proof cases
      case 1
      then have p: "p < length rows" "deps ! p = []" "map_of built p = None" "p \<noteq> index" using I(5,6) by auto
      then show ?thesis using D(2) [of p] I(1) get by simp
    next
      case 2
      have "p \<noteq> index" using busy [OF 2(1)] idx(2) by auto
      moreover have "map_of built p = None" using I(7) [of p] busy [OF 2(1)] by (cases "map_of built p") auto
      ultimately show ?thesis using 2 D(2) [of p] I(1) get parents by simp
    qed
  next
    fix p assume "p \<in> {p. p < length rows \<and> deps' ! p = [] \<and> map_of (built @ [(index, u)]) p = None}"
    then have p: "p < length rows" "deps' ! p = []" "map_of built p = None" "p \<noteq> index" using get by auto
    show "p \<in> set ready'"
    proof (cases "p \<in> set (record_parents rows index)")
      case True
      then show ?thesis using D(2) [of p] D(4) p I(1) by auto
    next
      case False
      then have "deps ! p = []" using D(2) [of p] p I(1) by simp
      then show ?thesis using D(4) p I(6) by auto
    qed
  qed
  moreover have "deps' ! p = []" if "map_of (built @ [(index, u)]) p \<noteq> None" for p
  proof -
    have "deps ! p = []" "p < length rows"
      using that I(3) I(7) [of p] idx get [of p] map_of_eq_None_iff [of built p] by auto
    then show ?thesis using D(2) [of p] I(1) by auto
  qed
  moreover have "length deps' = length rows" "distinct ready'" using D(1,3) I(1) by simp_all
  moreover have "distinct (map fst (built @ [(index, u)]))" using I(2) idx(3) by (simp add: map_of_eq_None_iff)
  moreover have "fst ` set (built @ [(index, u)]) \<subseteq> {..<length rows}" using I(3) idx(1) by auto
  ultimately show ?thesis using deps' unfolding build_inv_def by blast
qed

text \<open>
  The loop ends: every round builds one more record.  It answers an error of one round, or a set of built
  records on which any property that each round keeps holds.
\<close>

lemma build_loop_ends:
  assumes "build_inv rows ready deps built" "P built"
    and step: "\<And>built index u. P built \<Longrightarrow> index < length rows \<Longrightarrow> (\<forall>c \<in> set (record_deps (rows ! index)). map_of built c \<noteq> None) \<Longrightarrow>
      map_of built index = None \<Longrightarrow> materialize L built (rows ! index) = Inr u \<Longrightarrow> P (built @ [(index, u)])"
  shows "(\<exists>deps' built'. build_loop L rows ready deps built = Some (Inr built') \<and> P built' \<and> build_inv rows [] deps' built') \<or>
    (\<exists>e built' index. build_loop L rows ready deps built = Some (Inl e) \<and> P built' \<and> index < length rows \<and>
      (\<forall>c \<in> set (record_deps (rows ! index)). map_of built' c \<noteq> None) \<and> materialize L built' (rows ! index) = Inl e)"
  using assms(1,2)
proof (induction "length rows - length built" arbitrary: ready deps built rule: less_induct)
  case less
  show ?case
  proof (cases ready)
    case Nil
    then show ?thesis using less.prems by (subst (1 2) build_loop.simps) auto
  next
    case (Cons index rest)
    note inv = less.prems(1) [unfolded Cons]
    have idx: "index < length rows" "map_of built index = None" "deps ! index = []"
      "set (deps ! index) = {c \<in> set (record_deps (rows ! index)). map_of built c = None}"
      using inv unfolding build_inv_def by auto
    then have kids: "\<forall>c \<in> set (record_deps (rows ! index)). map_of built c \<noteq> None" by auto
    show ?thesis
    proof (cases "materialize L built (rows ! index)")
      case (Inl e)
      then have "build_loop L rows ready deps built = Some (Inl e)" by (subst build_loop.simps) (simp add: Cons)
      then show ?thesis using less.prems(2) idx(1) kids Inl by blast
    next
      case (Inr u)
      obtain deps' ready' where disc: "discard_parents index (record_parents rows index) deps rest = (deps', ready')" by fastforce
      have run: "build_loop L rows ready deps built = build_loop L rows ready' deps' (built @ [(index, u)])"
        by (subst build_loop.simps) (simp add: Cons Inr disc)
      have "insert index (fst ` set built) \<subseteq> {..<length rows}" "index \<notin> fst ` set built" "distinct (map fst built)"
        using inv idx(1,2) by (auto simp: build_inv_def map_of_eq_None_iff)
      then have "Suc (card (fst ` set built)) \<le> length rows"
        using card_mono [of "{..<length rows}" "insert index (fst ` set built)"] by simp
      moreover have "card (fst ` set built) = length built" using inv distinct_card [of "map fst built"] by (simp add: build_inv_def)
      ultimately have "length rows - length (built @ [(index, u)]) < length rows - length built" by simp
      from less.hyps [OF this build_inv_step [OF inv disc] step [OF less.prems(2) idx(1) kids idx(2) Inr]] show ?thesis unfolding run .
    qed
  qed
qed

lemma build_inv_start: "build_inv rows (filter (\<lambda>i. record_deps (rows ! i) = []) [0..<length rows]) (map record_deps rows) []"
  by (auto simp: build_inv_def)

lemma decode_unit_total: "\<exists>r. decode_unit L doc = Some r"
proof (cases "parse_document doc")
  case (Inr x)
  obtain document rows where x: "x = (document, rows)" by (cases x)
  have "\<exists>r. build_units L rows = Some r"
    unfolding build_units_def using build_loop_ends [where P = "\<lambda>_. True", OF build_inv_start, of rows L] by blast
  then obtain r where r: "build_units L rows = Some r" by blast
  then show ?thesis by (cases r) (auto simp: decode_unit_def Inr x)
qed (simp add: decode_unit_def)

section \<open>What decoding returns\<close>

text \<open>Every unit that is built is well-formed: its references are checked, its children were built before it.\<close>

lemma resolve_value_cases:
  assumes "resolve_value built v = Inr w"
  shows "w = RUnit c \<Longrightarrow> c \<in> snd ` set built" "w = RRef p \<Longrightarrow> list_all canonical_token_valid p"
  using assms by (auto simp: resolve_value_def mk_unit_ref_def unit_tokens_eq res_simps split: parsed_value.splits option.splits
      dest!: map_of_SomeD intro: rev_image_eqI)

lemma res_map_results: "res_map f xs = Inr ys \<Longrightarrow> y \<in> set ys \<Longrightarrow> \<exists>x \<in> set xs. f x = Inr y"
  by (induction xs arbitrary: ys) (auto simp: res_simps)

lemma materialize_well:
  assumes mat: "materialize L built row = Inr u" and built: "\<And>v. v \<in> snd ` set built \<Longrightarrow> unit_well L v"
  shows "unit_well L u"
proof -
  from mat obtain roles where roles: "res_map (\<lambda>r. res_bind (res_map (resolve_value built) (snd r)) (\<lambda>values. Inr (fst r, values))) (pre_roles row) = Inr roles"
    and mk: "mk_unit L (pre_unit_id row) (pre_schemas row) (Some (JObj (pre_attributes row))) roles (pre_projection row) = Inr u"
    by (auto simp: materialize_def res_simps)
  have origin: "\<exists>v. resolve_value built v = Inr w" if m: "(n, vs) \<in> set roles" "w \<in> set vs" for n vs w
  proof -
    from res_map_results [OF roles m(1)] obtain r where "res_map (resolve_value built) (snd r) = Inr vs" by (auto simp: res_simps)
    from res_map_results [OF this m(2)] show ?thesis by blast
  qed
  have refs: "list_all canonical_token_valid p" if "(n, vs) \<in> set roles" "RRef p \<in> set vs" for n vs p
    using origin [OF that] resolve_value_cases(2) by blast
  have cut: "unit_cut L u" by (rule mk_unit_cut(1) [OF mk]) (rule refs)
  have sorted: "unit_roles u = sort_key fst roles" by (rule mk_unit_cut(4) [OF mk]) (rule refs)
  have "unit_well L c" if "c \<in> set (children u)" for c
  proof -
    from that obtain n vs where "(n, vs) \<in> set roles" "RUnit c \<in> set vs" by (auto simp: sorted role_children_mem)
    then show ?thesis using origin resolve_value_cases(1) built by blast
  qed
  with cut show ?thesis by (simp add: unit_well.simps [of L u])
qed

lemma decode_unit_sound:
  assumes "decode_unit L doc = Some (Inr u)"
  shows "encode_unit u = Inr doc" "unit_well L u"
proof -
  obtain document rows where parsed: "parse_document doc = Inr (document, rows)"
    using assms by (cases "parse_document doc") (auto simp: decode_unit_def)
  obtain r where r: "build_units L rows = Some r" using assms parsed by (cases "build_units L rows") (auto simp: decode_unit_def)
  obtain built where built: "build_units L rows = Some (Inr built)" using assms parsed r by (cases r) (auto simp: decode_unit_def)
  have u: "decode_root rows built (map_of document ''root'') = Inr u" "encode_unit u = Inr doc"
    using assms parsed built by (auto simp: decode_unit_def res_simps)
  then show "encode_unit u = Inr doc" by blast
  define P :: "(nat \<times> noetrium_unit) list \<Rightarrow> bool" where "P = (\<lambda>built. \<forall>v \<in> snd ` set built. unit_well L v)"
  have step: "P (b @ [(i, v)])" if "P b" "materialize L b (rows ! i) = Inr v" for b i v
    using that materialize_well [OF that(2)] by (auto simp: P_def)
  have "P []" by (simp add: P_def)
  from build_loop_ends [where P = P and rows = rows, OF build_inv_start this step, of L] have "P built"
    using built unfolding build_units_def by auto
  moreover have "u \<in> snd ` set built"
    using u(1) by (auto simp: decode_root_def res_simps split: option.splits json.splits if_splits dest!: map_of_SomeD intro: rev_image_eqI)
  ultimately show "unit_well L u" unfolding P_def by blast
qed

section \<open>Reading back the records\<close>

definition parsed :: "noetrium_unit list \<Rightarrow> noetrium_unit role_value \<Rightarrow> parsed_value" where
  "parsed us v = (case v of RUnit c \<Rightarrow> PUnit (projr (unit_position us (nu_digest c))) | RRef p \<Rightarrow> PRef p | RAtom j \<Rightarrow> PLiteral j)"

definition prepared_of :: "noetrium_unit list \<Rightarrow> noetrium_unit \<Rightarrow> prepared" where
  "prepared_of us v = \<lparr>pre_unit_id = unit_id v, pre_schemas = unit_schemas v, pre_attributes = unit_attributes v,
     pre_projection = unit_projection v, pre_structural = Some (JStr (structural_digest v)), pre_semantic = Some (JStr (semantic_digest v)),
     pre_digest = Some (JStr (nu_digest v)), pre_roles = map (\<lambda>r. (fst r, map (parsed us) (snd r))) (unit_roles v)\<rparr>"

lemma res_map_all2: "list_all2 (\<lambda>x y. p y = Inr (g x)) xs ys \<Longrightarrow> res_map p ys = Inr (map g xs)"
  by (induction rule: list_all2_induct) simp_all

lemma res_map_round:
  assumes "\<And>x. x \<in> set xs \<Longrightarrow> \<exists>y. f x = Inr y \<and> p y = Inr (g x)"
  shows "\<exists>ys. res_map f xs = Inr ys \<and> res_map p ys = Inr (map g xs)"
  using res_map_ex [of xs f "\<lambda>x y. p y = Inr (g x)"] assms res_map_all2 by blast

lemma text_of_str: "text_of (Some (JStr s)) = Inr s"
  by (simp add: text_of_def)

lemma texts_of: "res_map (\<lambda>t. text_of (Some t)) (map JStr ss) = Inr ss"
  by (induction ss) (simp_all add: text_of_def)

lemma value_round:
  assumes "\<And>c. v = RUnit c \<Longrightarrow> \<exists>i. unit_position us (nu_digest c) = Inr i \<and> i < n \<and> i \<noteq> e"
  shows "\<exists>d. value_document us v = Inr d \<and> parse_value n e d = Inr (parsed us v)"
proof (cases v)
  case (RUnit c)
  with assms obtain i where "unit_position us (nu_digest c) = Inr i" "i < n" "i \<noteq> e" by blast
  then show ?thesis
    by (simp add: RUnit value_document_def parse_value_def parsed_def as_mapping_def jobj_def map_of_jobj)
qed (simp_all add: value_document_def parse_value_def parsed_def as_mapping_def as_sequence_def jobj_def jstrs_def map_of_jobj texts_of)

lemma role_round:
  assumes "\<And>c. RUnit c \<in> set (snd r) \<Longrightarrow> \<exists>i. unit_position us (nu_digest c) = Inr i \<and> i < n \<and> i \<noteq> e"
  shows "\<exists>d. role_document us r = Inr d \<and> parse_role n e d = Inr (fst r, map (parsed us) (snd r))"
proof -
  have "\<exists>d. value_document us v = Inr d \<and> parse_value n e d = Inr (parsed us v)" if "v \<in> set (snd r)" for v
    by (rule value_round) (use assms that in blast)
  from res_map_round [where xs = "snd r" and f = "value_document us" and p = "parse_value n e" and g = "parsed us", OF this]
  obtain ds where "res_map (value_document us) (snd r) = Inr ds" "res_map (parse_value n e) ds = Inr (map (parsed us) (snd r))"
    by blast
  then show ?thesis
    by (simp add: role_document_def parse_role_def as_mapping_def text_of_def as_sequence_def jobj_def map_of_jobj)
qed

lemma record_round:
  assumes "\<And>c. c \<in> set (children v) \<Longrightarrow> \<exists>i. unit_position us (nu_digest c) = Inr i \<and> i < n \<and> i \<noteq> e"
  shows "\<exists>d. unit_record us e v = Inr d \<and> parse_record n e d = Inr (prepared_of us v)"
proof -
  have "\<exists>d. role_document us r = Inr d \<and> parse_role n e d = Inr (fst r, map (parsed us) (snd r))" if "r \<in> set (unit_roles v)" for r
  proof (rule role_round)
    fix c assume "RUnit c \<in> set (snd r)"
    then have "c \<in> set (children v)" using that by (cases r) (auto simp: role_children_mem)
    then show "\<exists>i. unit_position us (nu_digest c) = Inr i \<and> i < n \<and> i \<noteq> e" by (rule assms)
  qed
  from res_map_round [where xs = "unit_roles v" and f = "role_document us" and p = "parse_role n e"
      and g = "\<lambda>r. (fst r, map (parsed us) (snd r))", OF this]
  obtain ds where "res_map (role_document us) (unit_roles v) = Inr ds"
    "res_map (parse_role n e) ds = Inr (map (\<lambda>r. (fst r, map (parsed us) (snd r))) (unit_roles v))" by blast
  then show ?thesis
    by (cases "unit_projection v")
       (simp_all add: unit_record_def parse_record_def prepared_of_def as_mapping_def as_sequence_def text_of_str parse_projection_def equals_int_def
          jobj_def jstrs_def map_of_jobj texts_of)
qed

section \<open>The nesting of documents\<close>

abbreviation nesting :: "json \<Rightarrow> nat" where
  "nesting \<equiv> frozen_json_required_depth"

lemma nesting_array: "(\<And>x. x \<in> set xs \<Longrightarrow> nesting x \<le> m) \<Longrightarrow> nesting (JArr xs) \<le> Suc m"
  by (simp add: max_list_le)

lemma dict_of_values: "snd ` set (dict_of kvs) \<subseteq> snd ` set kvs"
proof
  fix v assume "v \<in> snd ` set (dict_of kvs)"
  then obtain k where "(k, v) \<in> set (dict_of kvs)" by auto
  then have "map_of (rev kvs) k = Some v" using dict_wf_of [of kvs] by (simp add: dict_wf_distinct map_of_dict_of [symmetric])
  then show "v \<in> snd ` set kvs" by (force dest: map_of_SomeD)
qed

lemma nesting_dict: "(\<And>v. v \<in> snd ` set kvs \<Longrightarrow> nesting v \<le> m) \<Longrightarrow> nesting (JObj (dict_of kvs)) \<le> Suc m"
  using dict_of_values [of kvs] by (force simp: max_list_le)

lemma nesting_jobj: "list_all (\<lambda>kv. nesting (snd kv) \<le> m) kvs \<Longrightarrow> nesting (jobj kvs) \<le> Suc m"
  unfolding jobj_def by (rule nesting_dict) (auto simp: list_all_iff)

lemma nesting_texts: "nesting (jstrs ss) \<le> 1"
  unfolding jstrs_def One_nat_def by (rule nesting_array) auto

lemma stream_nesting: "stream_depth_ok M d v \<Longrightarrow> nesting v \<le> Suc M - d"
proof (induction M d v rule: stream_depth_ok.induct)
  case (2 M d xs)
  then have "nesting x \<le> M - d" if "x \<in> set xs" for x using that by auto
  then have "nesting (JArr xs) \<le> Suc (M - d)" by (rule nesting_array)
  moreover have "d \<le> M" using 2(2) by simp
  ultimately show ?case by (simp only: Suc_diff_le)
qed auto

lemma value_nesting:
  assumes "value_document us v = Inr d" "value_cut v"
  shows "nesting d \<le> 61"
proof (cases v)
  case (RAtom j)
  then have "nesting j \<le> 60" using stream_nesting [of 64 5 j] assms(2) by (simp add: value_cut_def)
  then show ?thesis using nesting_jobj [of 60 "[(''kind'', JStr ''literal''), (''value'', j)]"] assms(1) RAtom by (simp add: value_document_def)
next
  case (RRef p)
  then show ?thesis using nesting_jobj [of 60 "[(''kind'', JStr ''ref''), (''path'', jstrs p)]"] nesting_texts [of p] assms(1)
    by (simp add: value_document_def)
next
  case (RUnit c)
  then obtain i where "d = jobj [(''kind'', JStr ''unit''), (''index'', JInt (int i))]" using assms(1) by (auto simp: value_document_def res_simps)
  then show ?thesis using nesting_jobj [of 60 "[(''kind'', JStr ''unit''), (''index'', JInt (int i))]"] by simp
qed

lemma record_nesting:
  assumes "unit_record us n v = Inr d" "unit_cut L v"
  shows "nesting d \<le> 65"
proof -
  from assms(1) obtain rs where rs: "res_map (role_document us) (unit_roles v) = Inr rs" and d: "d = jobj
     [(''index'', JInt (int n)), (''unit_id'', JStr (unit_id v)), (''schemas'', jstrs (unit_schemas v)),
      (''attributes'', JObj (unit_attributes v)), (''roles'', JArr rs),
      (''semantic_projection_digest'', jopt_str (unit_projection v)), (''structural_digest'', JStr (structural_digest v)),
      (''semantic_digest'', JStr (semantic_digest v)), (''unit_digest'', JStr (nu_digest v))]"
    unfolding unit_record_def res_bind_eq_Inr by auto
  have "nesting x \<le> 63" if "x \<in> set rs" for x
  proof -
    from res_map_results [OF rs that] obtain r where r: "r \<in> set (unit_roles v)" "role_document us r = Inr x" by blast
    from r(2) obtain vs where vs: "res_map (value_document us) (snd r) = Inr vs" "x = jobj [(''name'', JStr (fst r)), (''values'', JArr vs)]"
      unfolding role_document_def res_bind_eq_Inr by auto
    have "nesting y \<le> 61" if "y \<in> set vs" for y
    proof -
      from res_map_results [OF vs(1) that] obtain w where w: "w \<in> set (snd r)" "value_document us w = Inr y" by blast
      moreover have "value_cut w" using unit_cutD(5) [OF assms(2)] r(1) w(1) by (auto simp: list_all_iff)
      ultimately show ?thesis by (blast intro: value_nesting)
    qed
    then have "nesting (JArr vs) \<le> Suc 61" by (rule nesting_array)
    then show ?thesis using nesting_jobj [of 62 "[(''name'', JStr (fst r)), (''values'', JArr vs)]"] vs(2) by simp
  qed
  then have "nesting (JArr rs) \<le> Suc 63" by (rule nesting_array)
  moreover have "stream_depth_ok 64 1 (JObj (unit_attributes v))" using assms(2) by (simp add: unit_cut_def)
  then have "nesting (JObj (unit_attributes v)) \<le> 64" using stream_nesting by fastforce
  moreover have "nesting (jopt_str (unit_projection v)) = 0" by (cases "unit_projection v") simp_all
  ultimately show ?thesis unfolding d using nesting_texts [of "unit_schemas v"]
    by (intro nesting_jobj [of 64, simplified]) (simp del: frozen_json_required_depth.simps(1,2))
qed

lemma document_depth:
  assumes "unit_table_document u = Inr doc" "unit_table u = Inr us" "\<And>v. v \<in> set us \<Longrightarrow> unit_cut L v"
  shows "nesting doc \<le> 67"
proof -
  from assms(1,2) obtain i ds where ds: "res_map (\<lambda>(offset, u). unit_record us offset u) (zip [0..<length us] us) = Inr ds"
    and doc: "doc = jobj [(''schema'', JStr unit_document_schema), (''root'', JInt (int i)), (''units'', JArr ds)]"
    unfolding unit_table_document_def res_bind_eq_Inr by auto
  have "nesting d \<le> 65" if "d \<in> set ds" for d
  proof -
    from res_map_results [OF ds that] obtain p where p: "p \<in> set (zip [0..<length us] us)" "unit_record us (fst p) (snd p) = Inr d"
      by (auto split: prod.splits)
    moreover have "snd p \<in> set us" using p(1) by (metis prod.collapse set_zip_rightD)
    ultimately show ?thesis using record_nesting assms(3) by blast
  qed
  then have "nesting (JArr ds) \<le> Suc 65" by (rule nesting_array)
  then show ?thesis unfolding doc by (intro nesting_jobj [of 66, simplified]) (simp del: frozen_json_required_depth.simps(1,2))
qed

section \<open>The round trip\<close>

lemma parsed_unit: "parsed us w = PUnit c \<longleftrightarrow> (\<exists>d. w = RUnit d \<and> c = projr (unit_position us (nu_digest d)))"
  by (cases w) (auto simp: parsed_def)

lemma parsed_deps:
  "c \<in> set (record_deps (prepared_of us v)) \<longleftrightarrow> (\<exists>d \<in> set (children v). c = projr (unit_position us (nu_digest d)))"
proof -
  have "c \<in> set (record_deps (prepared_of us v)) \<longleftrightarrow> (\<exists>n vs w. (n, vs) \<in> set (unit_roles v) \<and> w \<in> set vs \<and> parsed us w = PUnit c)"
    unfolding record_deps_def prepared_of_def set_remdups set_concat set_map prepared.select_convs
    by (force split: parsed_value.splits)
  also have "\<dots> \<longleftrightarrow> (\<exists>d n vs. (n, vs) \<in> set (unit_roles v) \<and> RUnit d \<in> set vs \<and> c = projr (unit_position us (nu_digest d)))"
    unfolding parsed_unit by blast
  finally show ?thesis unfolding Bex_def role_children_mem by blast
qed

lemma materialize_back:
  assumes cut: "unit_cut L v" and built: "\<And>c. c \<in> set (children v) \<Longrightarrow> map_of built (projr (unit_position us (nu_digest c))) = Some c"
  shows "materialize L built (prepared_of us v) = Inr v"
proof -
  have "res_map (resolve_value built) (map (parsed us) vs) = Inr vs" if r: "(n, vs) \<in> set (unit_roles v)" for n vs
  proof (rule res_map_id)
    fix w assume w: "w \<in> set vs"
    have "value_cut w" using unit_cutD(5) [OF cut] r w by (auto simp: list_all_iff)
    moreover have "c \<in> set (children v)" if "w = RUnit c" for c using r w that unfolding role_children_mem by blast
    ultimately show "resolve_value built (parsed us w) = Inr w"
      using built by (cases w) (auto simp: resolve_value_def parsed_def value_cut_def mk_unit_ref_def unit_token_map)
  qed
  then have "res_map (\<lambda>r. res_bind (res_map (resolve_value built) (snd r)) (\<lambda>values. Inr (fst r, values)))
      (map (\<lambda>r. (fst r, map (parsed us) (snd r))) (unit_roles v)) = Inr (unit_roles v)"
    by (intro res_map_id) (auto simp: prod_eq_iff)
  then show ?thesis using mk_unit_parts(1) [OF cut] by (simp add: materialize_def prepared_of_def)
qed

lemma document_round:
  assumes table: "table_of u us" and cut: "\<And>v. v \<in> set us \<Longrightarrow> unit_cut L v"
  shows "\<exists>doc document. encode_unit u = Inr doc \<and> parse_document doc = Inr (document, map (prepared_of us) us) \<and>
    (\<exists>i < length us. us ! i = u \<and> map_of document ''root'' = Some (JInt (int i)))"
proof -
  have T: "unit_table u = Inr us" "distinct (map nu_digest us)" "set us = set (subunits u)" using table by (simp_all add: table_of_def)
  obtain i where i: "unit_position us (nu_digest u) = Inr i" "i < length us" "us ! i = u"
    using unit_position_mem [OF T(2)] subunits_self T(3) by metis
  have "\<exists>d. (\<lambda>(offset, u). unit_record us offset u) p = Inr d \<and> (\<lambda>d. parse_record (length us) (fst p) d) d = Inr (prepared_of us (snd p))"
    if p: "p \<in> set (zip [0..<length us] us)" for p
  proof -
    have k: "fst p < length us" "us ! fst p = snd p" using p by (auto simp: in_set_zip)
    have "\<exists>i. unit_position us (nu_digest c) = Inr i \<and> i < length us \<and> i \<noteq> fst p" if c: "c \<in> set (children (snd p))" for c
    proof -
      have "snd p \<in> set (subunits u)" using k T(3) nth_mem by metis
      then have "c \<in> set us" using subunits_closed c T(3) by blast
      from unit_position_mem [OF T(2) this] obtain j where j: "unit_position us (nu_digest c) = Inr j" "j < length us" "us ! j = c" .
      have "j \<noteq> fst p" using child_size [OF c] j(3) k(2) by auto
      then show ?thesis using j by blast
    qed
    from record_round [where v = "snd p" and us = us and n = "length us" and e = "fst p", OF this] show ?thesis by (cases p) simp
  qed
  then have "\<exists>ds. res_map (\<lambda>(offset, u). unit_record us offset u) (zip [0..<length us] us) = Inr ds \<and>
      list_all2 (\<lambda>p d. parse_record (length us) (fst p) d = Inr (prepared_of us (snd p))) (zip [0..<length us] us) ds"
    by (intro res_map_ex) blast
  then obtain ds where ds: "res_map (\<lambda>(offset, u). unit_record us offset u) (zip [0..<length us] us) = Inr ds"
    "list_all2 (\<lambda>p d. parse_record (length us) (fst p) d = Inr (prepared_of us (snd p))) (zip [0..<length us] us) ds" by blast
  have len: "length ds = length us" using list_all2_lengthD [OF ds(2)] by simp
  have "list_all2 (\<lambda>x y. (\<lambda>(i, r). parse_record (length us) i r) y = Inr (prepared_of us x)) us (zip [0..<length ds] ds)"
    using ds(2) len by (simp add: list_all2_conv_all_nth)
  then have again: "res_map (\<lambda>(i, r). parse_record (length ds) i r) (zip [0..<length ds] ds) = Inr (map (prepared_of us) us)"
    unfolding len using res_map_all2 by fastforce
  let ?fs = "[(''schema'', JStr unit_document_schema), (''root'', JInt (int i)), (''units'', JArr ds)]"
  have enc: "unit_table_document u = Inr (JObj (dict_of ?fs))" by (simp add: unit_table_document_def T(1) i(1) ds(1) jobj_def)
  then have frozen: "freeze_json (JObj (dict_of ?fs)) = Inr (JObj (dict_of ?fs))"
    using document_depth [OF enc T(1) cut] by (simp add: freeze_json_eq default_max_depth_def)
  then have "encode_unit u = Inr (JObj (dict_of ?fs))" by (simp add: encode_unit_def enc)
  moreover have "ds \<noteq> []" using len i(2) by auto
  then have "parse_document (JObj (dict_of ?fs)) = Inr (dict_of ?fs, map (prepared_of us) us)"
    using again frozen by (simp add: parse_document_def strict_document_def as_mapping_def as_sequence_def map_of_jobj)
  moreover have "map_of (dict_of ?fs) ''root'' = Some (JInt (int i))" by (simp add: map_of_jobj)
  ultimately show ?thesis using i by blast
qed

lemma codec_round_trip:
  assumes ok: "unit_well L u" and inj: "inj_on nu_digest (set (subunits u))"
  shows "\<exists>doc. encode_unit u = Inr doc \<and> decode_unit L doc = Some (Inr u)"
proof -
  obtain us where table: "table_of u us" using unit_table_ok [OF inj] by blast
  have T: "distinct (map nu_digest us)" "set us = set (subunits u)" using table by (simp_all add: table_of_def)
  have all_ok: "unit_well L v" if "v \<in> set us" for v
    using subunits_least [of u "{v. unit_well L v}"] ok unit_wellD(2) that T(2) by blast
  obtain doc document i where doc: "encode_unit u = Inr doc" "parse_document doc = Inr (document, map (prepared_of us) us)"
    "i < length us" "us ! i = u" "map_of document ''root'' = Some (JInt (int i))"
    using document_round [OF table unit_wellD(1) [OF all_ok]] by blast
  define rows where "rows = map (prepared_of us) us"
  define P where "P = (\<lambda>built. \<forall>k v. map_of built k = Some v \<longrightarrow> k < length us \<and> v = us ! k)"
  have child: "\<exists>j < length us. unit_position us (nu_digest c) = Inr j \<and> us ! j = c" if "k < length us" "c \<in> set (children (us ! k))" for k c
  proof -
    have "us ! k \<in> set (subunits u)" using that(1) T(2) nth_mem by blast
    then have "c \<in> set us" using subunits_closed that(2) T(2) by blast
    from unit_position_mem [OF T(1) this] show ?thesis by metis
  qed
  have again: "materialize L built (rows ! k) = Inr (us ! k)"
    if p: "P built" "k < length us" and deps: "\<forall>c \<in> set (record_deps (rows ! k)). map_of built c \<noteq> None" for built k
  proof -
    have "map_of built (projr (unit_position us (nu_digest c))) = Some c" if c: "c \<in> set (children (us ! k))" for c
    proof -
      from child [OF \<open>k < length us\<close> c] obtain j where j: "unit_position us (nu_digest c) = Inr j" "us ! j = c" by blast
      have "j \<in> set (record_deps (rows ! k))" using c j(1) \<open>k < length us\<close> by (force simp: rows_def parsed_deps)
      then obtain v where "map_of built j = Some v" using deps by auto
      then show ?thesis using \<open>P built\<close> j by (auto simp: P_def)
    qed
    from materialize_back [OF unit_wellD(1) [OF all_ok], of "us ! k" built us, OF _ this] p(2) show ?thesis by (simp add: rows_def)
  qed
  have step: "P (built @ [(k, v)])" if "P built" "k < length rows" "\<forall>c \<in> set (record_deps (rows ! k)). map_of built c \<noteq> None"
    "map_of built k = None" "materialize L built (rows ! k) = Inr v" for built k v
    using that again [OF that(1) _ that(3)] by (auto simp: P_def rows_def map_add_def split: option.splits if_splits)
  have "P []" by (simp add: P_def)
  from build_loop_ends [where P = P and rows = rows, OF build_inv_start this step, of L]
  consider deps built where "build_units L rows = Some (Inr built)" "P built" "build_inv rows [] deps built"
    | e built k where "P built" "k < length rows" "\<forall>c \<in> set (record_deps (rows ! k)). map_of built c \<noteq> None"
        "materialize L built (rows ! k) = Inl e"
    unfolding build_units_def by blast
  then obtain deps built where b: "build_units L rows = Some (Inr built)" "P built" "build_inv rows [] deps built"
  proof cases
    case 2
    then show ?thesis using again [OF 2(1) _ 2(3)] by (simp add: rows_def)
  qed blast
  have all: "map_of built k = Some (us ! k)" if "k < length us" for k
    using that
  proof (induction "size (us ! k)" arbitrary: k rule: less_induct)
    case less
    have k: "k < length rows" using less.prems by (simp add: rows_def)
    have "set (deps ! k) = {c \<in> set (record_deps (rows ! k)). map_of built c = None}" using b(3) k unfolding build_inv_def by blast
    then have free: "deps ! k = [] \<or> (\<exists>c \<in> set (record_deps (rows ! k)). map_of built c = None)"
      by (cases "deps ! k") auto
    have "map_of built c \<noteq> None" if c: "c \<in> set (record_deps (rows ! k))" for c
    proof -
      from c less.prems obtain d where d: "d \<in> set (children (us ! k))" "c = projr (unit_position us (nu_digest d))" by (auto simp: rows_def parsed_deps)
      from child [OF less.prems d(1)] obtain j where j: "j < length us" "unit_position us (nu_digest d) = Inr j" "us ! j = d" by blast
      have "map_of built j = Some (us ! j)" by (rule less.hyps) (use child_size [OF d(1)] j in simp_all)
      then show ?thesis using j(2) d(2) by simp
    qed
    moreover have "set [] = {p. p < length rows \<and> deps ! p = [] \<and> map_of built p = None}" using b(3) unfolding build_inv_def by blast
    ultimately have "map_of built k \<noteq> None" using k free by force
    then show ?case using b(2) by (auto simp: P_def)
  qed
  have "fst ` set built = {..<length us}"
  proof
    show "{..<length us} \<subseteq> fst ` set built" using all by (force dest: map_of_SomeD intro: rev_image_eqI)
  qed (use b(3) in \<open>simp add: build_inv_def rows_def\<close>)
  moreover have "card (fst ` set built) = length built" using b(3) distinct_card [of "map fst built"] by (simp add: build_inv_def)
  ultimately have "length built = length rows" by (simp add: rows_def)
  then have "decode_root rows built (map_of document ''root'') = Inr u" using all [OF doc(3)] doc(4,5) by (simp add: decode_root_def)
  then have "decode_unit L doc = Some (Inr u)" using doc(1,2) b(1) by (simp add: decode_unit_def rows_def)
  then show ?thesis using doc(1) by blast
qed

end
