(* ===== verification/Events.thy ===== *)
theory Events
  imports UnitCodecProofs Dag
begin

text \<open>
  Causal events over units: \<^verbatim>\<open>foundation/kernel/truth.py\<close> and \<^verbatim>\<open>foundation/kernel/event.py\<close>.  An event is a unit with
  the schema \<^verbatim>\<open>system.event\<close>; its causal parents are references that carry the digest of the parent.  There is
  no global sequence: traces are ordered, merged and searched by the parent relation alone.
\<close>

section \<open>Truth modalities\<close>

datatype truth_modality = DECLARED | AUTHORIZED | OBSERVED | EVIDENCED

fun modality_value :: "truth_modality \<Rightarrow> string" where
  "modality_value DECLARED = ''declared''"
| "modality_value AUTHORIZED = ''authorized''"
| "modality_value OBSERVED = ''observed''"
| "modality_value EVIDENCED = ''evidenced''"

definition modality_of_value :: "json \<Rightarrow> truth_modality res" where
  "modality_of_value v = (case find (\<lambda>m. v = JStr (modality_value m)) [DECLARED, AUTHORIZED, OBSERVED, EVIDENCED] of
     None \<Rightarrow> Inl ValueError | Some m \<Rightarrow> Inr m)"

text \<open>An attribute as Python sees it: a missing one is \<^verbatim>\<open>None\<close>, like a stored null.\<close>

definition attribute_value :: "noetrium_unit \<Rightarrow> string \<Rightarrow> json res" where
  "attribute_value u name = res_bind (unit_attribute u name) (\<lambda>v. Inr (case v of None \<Rightarrow> JNull | Some j \<Rightarrow> j))"

definition truth_modality_of :: "noetrium_unit \<Rightarrow> truth_modality option res" where
  "truth_modality_of u = res_bind (attribute_value u ''truth_modality'') (\<lambda>v.
     if v = JNull then Inr None else res_bind (modality_of_value v) (\<lambda>m. Inr (Some m)))"

definition require_truth_modality :: "noetrium_unit \<Rightarrow> truth_modality \<Rightarrow> noetrium_unit res" where
  "require_truth_modality u expected = res_bind (truth_modality_of u) (\<lambda>actual.
     res_bind (require (actual = Some expected) TypeError) (\<lambda>_. Inr u))"

definition modal_attributes :: "truth_modality \<Rightarrow> (string, json) dict \<Rightarrow> (string, json) dict res" where
  "modal_attributes modality attributes =
     (case map_of attributes ''truth_modality'' of
        None \<Rightarrow> Inr (dict_set ''truth_modality'' (JStr (modality_value modality)) attributes)
      | Some JNull \<Rightarrow> Inr (dict_set ''truth_modality'' (JStr (modality_value modality)) attributes)
      | Some v \<Rightarrow> res_bind (modality_of_value v) (\<lambda>m.
          res_bind (require (m = modality) ValueError) (\<lambda>_.
          Inr (dict_set ''truth_modality'' (JStr (modality_value modality)) attributes))))"

section \<open>Event references\<close>

definition event_schema :: string where
  "event_schema = ''system.event''"

definition event_ref_prefix :: string where
  "event_ref_prefix = ''event:''"

definition event_ref_from_digest :: "string \<Rightarrow> string list res" where
  "event_ref_from_digest d = (if is_sha256 d then mk_unit_ref [event_ref_prefix @ d] else Inl ValueError)"

definition event_ref_digest :: "string list \<Rightarrow> string option" where
  "event_ref_digest path = (case path of
       [token] \<Rightarrow> if take 6 token = event_ref_prefix \<and> is_sha256 (drop 6 token) then Some (drop 6 token) else None
     | _ \<Rightarrow> None)"

section \<open>Events\<close>

definition is_event_unit :: "noetrium_unit \<Rightarrow> bool res" where
  "is_event_unit u = has_schema u event_schema"

definition require_event_unit :: "noetrium_unit \<Rightarrow> noetrium_unit res" where
  "require_event_unit event =
     res_bind (is_event_unit event) (\<lambda>is_event.
     res_bind (require is_event TypeError) (\<lambda>_.
     res_bind (truth_modality_of event) (\<lambda>modality.
     res_bind (require (modality \<noteq> None) ValueError) (\<lambda>_.
     res_bind (attribute_value event ''generation'') (\<lambda>generation.
     case generation of
       JInt n \<Rightarrow> res_bind (require (0 \<le> n) ValueError) (\<lambda>_.
                 res_bind (require (modality = Some AUTHORIZED \<longrightarrow> 1 \<le> n) ValueError) (\<lambda>_. Inr event))
     | _ \<Rightarrow> Inl ValueError)))))"

definition event_ref :: "noetrium_unit \<Rightarrow> string list res" where
  "event_ref event = res_bind (require_event_unit event) (\<lambda>_. event_ref_from_digest (nu_digest event))"

text \<open>The result of \<^verbatim>\<open>event_field\<close>, whose type depends on the name.\<close>

datatype event_value =
    EModality "truth_modality option" | ESubject "noetrium_unit role_value" | EParents "string list list"
  | EEvidence "noetrium_unit role_value list" | EAttribute json

definition event_field :: "noetrium_unit \<Rightarrow> string \<Rightarrow> event_value res" where
  "event_field event name = res_bind (require_event_unit event) (\<lambda>_.
     if name = ''modality'' then res_bind (truth_modality_of event) (\<lambda>m. Inr (EModality m))
     else if name = ''subject'' then
       res_bind (unit_role event ''subject'') (\<lambda>values.
       res_bind (require (length values = 1) ValueError) (\<lambda>_. Inr (ESubject (hd values))))
     else if name = ''causal_parents'' then res_bind (unit_refs event ''causal-parent'') (\<lambda>refs. Inr (EParents refs))
     else if name = ''evidence'' then res_bind (unit_role event ''evidence'') (\<lambda>values. Inr (EEvidence values))
     else res_bind (attribute_value event name) (\<lambda>v. Inr (EAttribute v)))"

definition event_subject :: "noetrium_unit \<Rightarrow> noetrium_unit role_value res" where
  "event_subject event = res_bind (event_field event ''subject'') (\<lambda>v. case v of ESubject s \<Rightarrow> Inr s | _ \<Rightarrow> Inl TypeError)"

definition event_parents :: "noetrium_unit \<Rightarrow> string list list res" where
  "event_parents event = res_bind (event_field event ''causal_parents'') (\<lambda>v. case v of EParents refs \<Rightarrow> Inr refs | _ \<Rightarrow> Inl TypeError)"

definition event_attribute :: "noetrium_unit \<Rightarrow> string \<Rightarrow> json res" where
  "event_attribute event name = res_bind (event_field event name) (\<lambda>v. case v of EAttribute j \<Rightarrow> Inr j | _ \<Rightarrow> Inl TypeError)"

subsection \<open>Construction\<close>

definition event_texts :: "string list \<Rightarrow> string list res" where
  "event_texts values = (let rows = map py_strip values in
     res_bind (require ([] \<notin> set rows) ValueError) (\<lambda>_.
     res_bind (require (distinct rows) ValueError) (\<lambda>_. Inr (sort rows))))"

record event_spec =
  ev_authority_domain :: string
  ev_generation :: int
  ev_subject :: "noetrium_unit role_value"
  ev_operation :: string
  ev_phase :: string
  ev_modality :: truth_modality
  ev_causal_parents :: "string list list"
  ev_reads :: "string list"
  ev_writes :: "string list"
  ev_evidence :: "noetrium_unit role_value list"
  ev_kind :: string
  ev_physical_effect :: bool
  ev_commutative :: bool
  ev_attributes :: "(string, json) dict"

definition event_payload :: "event_spec \<Rightarrow> string list \<Rightarrow> string list \<Rightarrow> (string, json) dict" where
  "event_payload s read_set write_set = dict_of
     [(''kind'', JStr (ev_kind s)), (''authority_domain'', JStr (ev_authority_domain s)), (''generation'', JInt (ev_generation s)),
      (''operation'', JStr (py_strip (ev_operation s))), (''phase'', JStr (py_strip (ev_phase s))), (''reads'', jstrs read_set),
      (''writes'', jstrs write_set), (''physical_effect'', JBool (ev_physical_effect s)),
      (''commutative_when_disjoint'', JBool (ev_commutative s)), (''event_attributes'', JObj (ev_attributes s))]"

definition event_roles :: "event_spec \<Rightarrow> (string \<times> noetrium_unit role_value list) list" where
  "event_roles s = [(''subject'', [ev_subject s])]
     @ (if ev_causal_parents s = [] then [] else [(''causal-parent'', map RRef (ev_causal_parents s))])
     @ (if ev_evidence s = [] then [] else [(''evidence'', ev_evidence s)])"

definition event_schemas :: "event_spec \<Rightarrow> string list" where
  "event_schemas s = (if ev_kind s = event_schema then [event_schema] else [event_schema, ev_kind s])"

definition causal_event :: "hostlib \<Rightarrow> event_spec \<Rightarrow> noetrium_unit res" where
  "causal_event L s =
     res_bind (unit_token (ev_authority_domain s)) (\<lambda>_.
     res_bind (require (nonblank (ev_operation s)) ValueError) (\<lambda>_.
     res_bind (require (nonblank (ev_phase s)) ValueError) (\<lambda>_.
     res_bind (unit_token (ev_kind s)) (\<lambda>_.
     res_bind (require (0 \<le> ev_generation s) ValueError) (\<lambda>_.
     res_bind (require (ev_modality s = AUTHORIZED \<longrightarrow> 1 \<le> ev_generation s) ValueError) (\<lambda>_.
     let parent_digests = map event_ref_digest (ev_causal_parents s) in
     res_bind (require (None \<notin> set parent_digests) ValueError) (\<lambda>_.
     res_bind (require (distinct parent_digests) ValueError) (\<lambda>_.
     res_bind (freeze_json (JObj (ev_attributes s))) (\<lambda>_.
     res_bind (event_texts (ev_reads s)) (\<lambda>read_set.
     res_bind (event_texts (ev_writes s)) (\<lambda>write_set.
     res_bind (modal_attributes (ev_modality s) (event_payload s read_set write_set)) (\<lambda>payload.
     res_bind (mk_unit L ''event:provisional'' (event_schemas s) (Some (JObj payload)) (event_roles s) None) (\<lambda>provisional.
     mk_unit L (event_ref_prefix @ semantic_digest provisional) (event_schemas s) (Some (JObj payload)) (event_roles s) None)))))))))))))"

section \<open>Independence\<close>

text \<open>
  \<^verbatim>\<open>==\<close> of Python values that came from JSON: numbers compare by value, whatever their type.  A set can only
  hold hashable values, and a frozen object is not.
\<close>

fun py_norm :: "json \<Rightarrow> json" where
  "py_norm (JBool b) = JFloat (if b then 1 else 0)"
| "py_norm (JInt n) = JFloat (of_int n)"
| "py_norm (JArr xs) = JArr (map py_norm xs)"
| "py_norm (JObj kvs) = JObj (map (\<lambda>kv. (fst kv, py_norm (snd kv))) kvs)"
| "py_norm v = v"

fun py_hashable :: "json \<Rightarrow> bool" where
  "py_hashable (JArr xs) = (\<forall>x \<in> set xs. py_hashable x)"
| "py_hashable (JObj kvs) = False"
| "py_hashable _ = True"

fun py_truthy :: "json \<Rightarrow> bool" where
  "py_truthy JNull = False"
| "py_truthy (JBool b) = b"
| "py_truthy (JInt n) = (n \<noteq> 0)"
| "py_truthy (JFloat q) = (q \<noteq> 0)"
| "py_truthy (JStr s) = (s \<noteq> [])"
| "py_truthy (JArr xs) = (xs \<noteq> [])"
| "py_truthy (JObj kvs) = (kvs \<noteq> [])"

definition py_items :: "json \<Rightarrow> json list res" where
  "py_items v = (case v of JArr xs \<Rightarrow> Inr xs | JStr s \<Rightarrow> Inr (map (\<lambda>c. JStr [c]) s) | JObj kvs \<Rightarrow> Inr (map (JStr \<circ> fst) kvs)
     | _ \<Rightarrow> Inl TypeError)"

text \<open>\<^verbatim>\<open>set(event_field(event, name))\<close>, up to Python equality of its members.\<close>

definition field_set :: "noetrium_unit \<Rightarrow> string \<Rightarrow> json list res" where
  "field_set event name = res_bind (event_attribute event name) (\<lambda>v. res_bind (py_items v) (\<lambda>items.
     res_bind (require (\<forall>x \<in> set items. py_hashable x) TypeError) (\<lambda>_. Inr (map py_norm items))))"

definition event_conflict_keys :: "noetrium_unit \<Rightarrow> json list res" where
  "event_conflict_keys event = res_bind (require_event_unit event) (\<lambda>_.
     res_bind (field_set event ''reads'') (\<lambda>reads. res_bind (field_set event ''writes'') (\<lambda>writes. Inr (reads @ writes))))"

definition sets_meet :: "json list \<Rightarrow> json list \<Rightarrow> bool" where
  "sets_meet xs ys = (\<exists>x \<in> set xs. x \<in> set ys)"

text \<open>\<^verbatim>\<open>(a or b) and not (c and d)\<close> on two events: \<^verbatim>\<open>or\<close> and \<^verbatim>\<open>and\<close> look at the right event only if they need to.\<close>

definition physical_conflict :: "noetrium_unit \<Rightarrow> noetrium_unit \<Rightarrow> bool res" where
  "physical_conflict left right =
     res_bind (event_attribute left ''physical_effect'') (\<lambda>lp.
     res_bind (if py_truthy lp then Inr lp else event_attribute right ''physical_effect'') (\<lambda>p.
     if \<not> py_truthy p then Inr False
     else res_bind (event_attribute left ''commutative_when_disjoint'') (\<lambda>lc.
          res_bind (if py_truthy lc then event_attribute right ''commutative_when_disjoint'' else Inr lc) (\<lambda>c.
          Inr (\<not> py_truthy c)))))"

definition events_independent :: "noetrium_unit \<Rightarrow> noetrium_unit \<Rightarrow> bool res" where
  "events_independent left right =
     res_bind (require_event_unit left) (\<lambda>_.
     res_bind (require_event_unit right) (\<lambda>_.
     if nu_digest left = nu_digest right then Inr False
     else res_bind (event_attribute left ''authority_domain'') (\<lambda>ld.
          res_bind (event_attribute right ''authority_domain'') (\<lambda>rd.
     if py_norm ld = py_norm rd then Inr False
     else res_bind (field_set left ''reads'') (\<lambda>left_reads.
          res_bind (field_set left ''writes'') (\<lambda>left_writes.
          res_bind (field_set right ''reads'') (\<lambda>right_reads.
          res_bind (field_set right ''writes'') (\<lambda>right_writes.
     if sets_meet left_writes (right_reads @ right_writes) then Inr False
     else if sets_meet right_writes (left_reads @ left_writes) then Inr False
     else res_bind (physical_conflict left right) (\<lambda>conflict. Inr (\<not> conflict))))))))))"

section \<open>Traces\<close>

text \<open>The parents an event names, each of which must be in the trace.\<close>

definition parents_in :: "(string \<times> noetrium_unit) list \<Rightarrow> noetrium_unit \<Rightarrow> string list res" where
  "parents_in by_digest event = res_bind (event_parents event) (res_map (\<lambda>reference.
     case event_ref_digest reference of
       None \<Rightarrow> Inl ValueError
     | Some parent \<Rightarrow> res_bind (require (map_of by_digest parent \<noteq> None) ValueError) (\<lambda>_. Inr parent)))"

fun index_events :: "(string \<times> noetrium_unit) list \<Rightarrow> noetrium_unit list \<Rightarrow> (string \<times> noetrium_unit) list res" where
  "index_events by_digest [] = Inr by_digest"
| "index_events by_digest (event # events) =
     res_bind (require_event_unit event) (\<lambda>_.
     res_bind (require (map_of by_digest (nu_digest event) = None) ValueError) (\<lambda>_.
     index_events (by_digest @ [(nu_digest event, event)]) events))"

definition causal_topological_order ::
    "((string \<times> string) list \<Rightarrow> (string \<times> string) list) \<Rightarrow> noetrium_unit list \<Rightarrow> noetrium_unit list res option" where
  "causal_topological_order enum events =
     (case index_events [] events of
        Inl e \<Rightarrow> Some (Inl e)
      | Inr by_digest \<Rightarrow>
          (case res_map (\<lambda>row. res_bind (parents_in by_digest (snd row)) (\<lambda>ps. Inr (map (\<lambda>p. (p, fst row)) ps))) by_digest of
             Inl e \<Rightarrow> Some (Inl e)
           | Inr edges \<Rightarrow>
               map_option (\<lambda>order. res_bind order (\<lambda>ds. Inr (map (\<lambda>d. the (map_of by_digest d)) ds)))
                 (deterministic_topological_order enum (map fst by_digest) (concat edges))))"

fun merge_into :: "(string, noetrium_unit) dict \<Rightarrow> noetrium_unit list \<Rightarrow> (string, noetrium_unit) dict res" where
  "merge_into merged [] = Inr merged"
| "merge_into merged (event # trace) =
     res_bind (require_event_unit event) (\<lambda>_.
     res_bind (require (case map_of merged (nu_digest event) of None \<Rightarrow> True | Some previous \<Rightarrow> unit_eq previous event) RuntimeError) (\<lambda>_.
     merge_into (dict_set (nu_digest event) event merged) trace))"

definition merge_causal_traces :: "noetrium_unit list list \<Rightarrow> noetrium_unit list res" where
  "merge_causal_traces traces = res_bind (merge_into [] (concat traces)) (\<lambda>merged. Inr (map snd merged))"

text \<open>The loop of the reverse cone: the stack has its top first, \<open>seen\<close> the digests already taken.\<close>

function cone_loop ::
    "(string, noetrium_unit) dict \<Rightarrow> string list \<Rightarrow> string list \<Rightarrow> noetrium_unit list \<Rightarrow> noetrium_unit list res" where
  "cone_loop by_digest seen [] result = Inr result"
| "cone_loop by_digest seen (digest # stack) result =
     (if digest \<in> set seen then cone_loop by_digest seen stack result
      else case map_of by_digest digest of
          None \<Rightarrow> Inl KeyError
        | Some event \<Rightarrow> (case parents_in by_digest event of
              Inl e \<Rightarrow> Inl e
            | Inr parents \<Rightarrow> cone_loop by_digest (digest # seen) (rev parents @ stack) (result @ [event])))"
  by pat_completeness auto
termination
proof (relation "(\<lambda>(by_digest, seen, stack, _). card (fst ` set by_digest - set seen)) <*mlex*> measure (\<lambda>(_, _, stack, _). length stack)")
  show "wf ((\<lambda>(by_digest, seen, stack, _). card (fst ` set (by_digest :: (string, noetrium_unit) dict) - set (seen :: string list))) <*mlex*>
      measure (\<lambda>(_, _, stack :: string list, _ :: noetrium_unit list). length stack))" by (simp add: wf_mlex)
  fix b :: "(string, noetrium_unit) dict" and seen stack :: "string list" and d :: string and result :: "noetrium_unit list"
  show "((b, seen, stack, result), b, seen, d # stack, result)
      \<in> (\<lambda>(by_digest, seen, stack, _). card (fst ` set by_digest - set seen)) <*mlex*> measure (\<lambda>(_, _, stack, _). length stack)"
    by (rule mlex_leq) simp_all
  fix event parents assume "d \<notin> set seen" "map_of b d = Some event"
  then have "d \<in> fst ` set b - set seen" by (force dest: map_of_SomeD)
  then have "card (fst ` set b - insert d (set seen)) < card (fst ` set b - set seen)" by (intro psubset_card_mono) auto
  then show "((b, d # seen, rev parents @ stack, result @ [event]), b, seen, d # stack, result)
      \<in> (\<lambda>(by_digest, seen, stack, _). card (fst ` set by_digest - set seen)) <*mlex*> measure (\<lambda>(_, _, stack, _). length stack)"
    by (intro mlex_less) simp
qed

definition reverse_causal_cone :: "noetrium_unit list \<Rightarrow> noetrium_unit \<Rightarrow> noetrium_unit list res" where
  "reverse_causal_cone events terminal =
     res_bind (require_event_unit terminal) (\<lambda>_.
     res_bind (res_map (\<lambda>event. res_bind (require_event_unit event) (\<lambda>e. Inr (nu_digest event, e))) events) (\<lambda>rows.
     let by_digest = dict_of rows in
     res_bind (require (map_of by_digest (nu_digest terminal) \<noteq> None) ValueError) (\<lambda>_.
     res_bind (cone_loop by_digest [] [nu_digest terminal] []) (\<lambda>result. Inr (sort_key nu_digest result)))))"

definition reverse_causal_cone_from_traces :: "noetrium_unit list list \<Rightarrow> noetrium_unit \<Rightarrow> noetrium_unit list res" where
  "reverse_causal_cone_from_traces traces terminal =
     res_bind (merge_causal_traces traces) (\<lambda>merged. reverse_causal_cone merged terminal)"

end
