(* ===== verification/EventProofs.thy ===== *)
theory EventProofs
  imports Events
begin

text \<open>
  What an event constructed by \<^verbatim>\<open>causal_event\<close> says, and the traces: the reverse cone is the set of causal
  ancestors, merging is the union of traces, and the causal order respects every parent.
\<close>

section \<open>Constructed events\<close>

definition ref_valid :: "noetrium_unit role_value \<Rightarrow> bool" where
  "ref_valid v = (case v of RRef p \<Rightarrow> list_all canonical_token_valid p | _ \<Rightarrow> True)"

lemma hex_token: "c \<in> set ''0123456789abcdef'' \<Longrightarrow> token_char c"
  by (auto simp: token_char_def token_head_def)

lemma event_token: "is_sha256 d \<Longrightarrow> canonical_token_valid (event_ref_prefix @ d)"
  using hex_token by (auto simp: is_sha256_def canonical_token_valid_def event_ref_prefix_def token_head_def token_char_def list_all_iff)

lemma event_ref_digest_some: "event_ref_digest p = Some d \<longleftrightarrow> p = [event_ref_prefix @ d] \<and> is_sha256 d"
proof
  assume "event_ref_digest p = Some d"
  then obtain token where t: "p = [token]" "take 6 token = event_ref_prefix" "is_sha256 (drop 6 token)" "d = drop 6 token"
    by (auto simp: event_ref_digest_def split: list.splits if_splits)
  then have "token = event_ref_prefix @ d" by (metis append_take_drop_id)
  then show "p = [event_ref_prefix @ d] \<and> is_sha256 d" using t by simp
qed (simp add: event_ref_digest_def event_ref_prefix_def)

lemma map_of_sort_key: "distinct (map fst xs) \<Longrightarrow> map_of (sort_key fst xs) = map_of xs"
  by (subst map_of_inject_set) (auto simp: distinct_map)

lemma event_roles_distinct: "distinct (map fst (event_roles s))"
  by (simp add: event_roles_def)

lemma event_roles_refs:
  assumes "list_all ref_valid (ev_subject s # ev_evidence s)" "None \<notin> set (map event_ref_digest (ev_causal_parents s))"
    and "(n, vs) \<in> set (event_roles s)" "RRef p \<in> set vs"
  shows "list_all canonical_token_valid p"
proof (cases "p \<in> set (ev_causal_parents s)")
  case True
  then obtain d where "event_ref_digest p = Some d" using assms(2) by (metis image_eqI list.set_map not_None_eq)
  then show ?thesis by (simp add: event_ref_digest_some event_token)
next
  case False
  then have "RRef p \<in> insert (ev_subject s) (set (ev_evidence s))" using assms(3,4) by (auto simp: event_roles_def split: if_splits)
  then have "ref_valid (RRef p)" using assms(1) unfolding list_all_iff by auto
  then show ?thesis by (simp add: ref_valid_def)
qed

definition refs_valid :: "(string \<times> noetrium_unit role_value list) list \<Rightarrow> bool" where
  "refs_valid roles = (\<forall>n vs p. (n, vs) \<in> set roles \<longrightarrow> RRef p \<in> set vs \<longrightarrow> list_all canonical_token_valid p)"

lemma mk_unit_checked:
  assumes "mk_unit L uid sch attrs roles proj = Inr u" "refs_valid roles"
  shows "unit_cut L u" "unit_id u = uid" "unit_schemas u = sort sch" "unit_roles u = sort_key fst roles" "unit_projection u = proj"
    "attrs = Some (JObj kvs) \<Longrightarrow> unit_attributes u = kvs"
proof -
  have R: "list_all canonical_token_valid p" if "(n, vs) \<in> set roles" "RRef p \<in> set vs" for n vs p
    using assms(2) that unfolding refs_valid_def by blast
  show "unit_cut L u" by (rule mk_unit_cut(1) [OF assms(1)]) (rule R)
  show "unit_id u = uid" by (rule mk_unit_cut(2) [OF assms(1)]) (rule R)
  show "unit_schemas u = sort sch" by (rule mk_unit_cut(3) [OF assms(1)]) (rule R)
  show "unit_roles u = sort_key fst roles" by (rule mk_unit_cut(4) [OF assms(1)]) (rule R)
  show "unit_projection u = proj" by (rule mk_unit_cut(5) [OF assms(1)]) (rule R)
  have "case attrs of None \<Rightarrow> unit_attributes u = [] | Some v \<Rightarrow> JObj (unit_attributes u) = v" by (rule mk_unit_cut(6) [OF assms(1)]) (rule R)
  then show "attrs = Some (JObj kvs) \<Longrightarrow> unit_attributes u = kvs" by simp
qed

definition event_attributes :: "event_spec \<Rightarrow> string list \<Rightarrow> string list \<Rightarrow> (string, json) dict" where
  "event_attributes s reads writes = dict_set ''truth_modality'' (JStr (modality_value (ev_modality s))) (event_payload s reads writes)"

lemma event_modal_attributes: "modal_attributes (ev_modality s) (event_payload s reads writes) = Inr (event_attributes s reads writes)"
  by (simp add: modal_attributes_def event_payload_def map_of_jobj event_attributes_def)

lemma causal_event_parts:
  assumes mk: "causal_event L s = Inr e" and refs: "list_all ref_valid (ev_subject s # ev_evidence s)"
  obtains reads writes where "event_texts (ev_reads s) = Inr reads" "event_texts (ev_writes s) = Inr writes"
    "unit_attributes e = event_attributes s reads writes" "unit_roles e = sort_key fst (event_roles s)" "unit_schemas e = sort (event_schemas s)"
    "unit_cut L e" "unit_id e = event_ref_prefix @ semantic_digest e" "unit_projection e = None" "0 \<le> ev_generation s"
    "ev_modality s = AUTHORIZED \<Longrightarrow> 1 \<le> ev_generation s"
    "None \<notin> set (map event_ref_digest (ev_causal_parents s))"
proof -
  from mk obtain reads writes provisional where run: "event_texts (ev_reads s) = Inr reads" "event_texts (ev_writes s) = Inr writes"
    "0 \<le> ev_generation s" "ev_modality s = AUTHORIZED \<longrightarrow> 1 \<le> ev_generation s" "None \<notin> set (map event_ref_digest (ev_causal_parents s))"
    "mk_unit L ''event:provisional'' (event_schemas s) (Some (JObj (event_attributes s reads writes))) (event_roles s) None = Inr provisional"
    "mk_unit L (event_ref_prefix @ semantic_digest provisional) (event_schemas s) (Some (JObj (event_attributes s reads writes))) (event_roles s) None = Inr e"
    unfolding causal_event_def Let_def res_bind_eq_Inr require_eq_Inr event_modal_attributes by auto
  have R: "refs_valid (event_roles s)" unfolding refs_valid_def using event_roles_refs [OF refs run(5)] by blast
  note E = mk_unit_checked [OF run(7) R] and P = mk_unit_checked [OF run(6) R]
  have attrs: "unit_attributes e = event_attributes s reads writes" "unit_attributes provisional = event_attributes s reads writes"
    using E(6) P(6) by blast+
  have "structural_digest e = structural_digest provisional"
    using unit_cutD(6) [OF E(1)] unit_cutD(6) [OF P(1)] unfolding E(3,4) P(3,4) attrs by simp
  then have "semantic_digest e = semantic_digest provisional"
    using unit_cutD(7) [OF E(1)] unit_cutD(7) [OF P(1)] unfolding E(5) P(5) by simp
  with E(2) have "unit_id e = event_ref_prefix @ semantic_digest e" by simp
  with that [OF run(1,2) attrs(1) E(4,3,1) _ E(5) run(3) _ run(5)] run(4) show ?thesis by blast
qed

lemma event_tokens [simp]:
  "unit_token ''subject'' = Inr ''subject''" "unit_token ''causal-parent'' = Inr ''causal-parent''" "unit_token ''evidence'' = Inr ''evidence''"
  "unit_token ''truth_modality'' = Inr ''truth_modality''" "unit_token ''generation'' = Inr ''generation''" "unit_token ''authority_domain'' = Inr ''authority_domain''"
  "unit_token event_schema = Inr event_schema" "unit_token ''reads'' = Inr ''reads''" "unit_token ''writes'' = Inr ''writes''"
  by (simp_all add: unit_token_def canonical_token_valid_def token_head_def token_char_def event_schema_def)

lemma modality_of_value_inverse [simp]: "modality_of_value (JStr (modality_value m)) = Inr m"
  by (cases m) (simp_all add: modality_of_value_def)

lemma res_map_the_ref [simp]: "res_map the_ref (map RRef ps) = Inr ps"
  by (induction ps) simp_all

text \<open>The event of a specification has its fields.\<close>

lemma causal_event_fields:
  assumes mk: "causal_event L s = Inr e" and refs: "list_all ref_valid (ev_subject s # ev_evidence s)"
  shows "require_event_unit e = Inr e" "event_parents e = Inr (ev_causal_parents s)" "event_subject e = Inr (ev_subject s)"
    "event_attribute e ''authority_domain'' = Inr (JStr (ev_authority_domain s))" "event_attribute e ''generation'' = Inr (JInt (ev_generation s))"
    "truth_modality_of e = Inr (Some (ev_modality s))" "unit_cut L e" "unit_id e = event_ref_prefix @ semantic_digest e"
    "unit_roles e = sort_key fst (event_roles s)"
proof -
  from causal_event_parts [OF mk refs] obtain reads writes where run: "unit_attributes e = event_attributes s reads writes"
    "unit_roles e = sort_key fst (event_roles s)" "unit_schemas e = sort (event_schemas s)" "unit_cut L e"
    "unit_id e = event_ref_prefix @ semantic_digest e" "0 \<le> ev_generation s" "ev_modality s = AUTHORIZED \<Longrightarrow> 1 \<le> ev_generation s" by blast
  have attrs: "map_of (unit_attributes e) ''truth_modality'' = Some (JStr (modality_value (ev_modality s)))"
    "map_of (unit_attributes e) ''generation'' = Some (JInt (ev_generation s))"
    "map_of (unit_attributes e) ''authority_domain'' = Some (JStr (ev_authority_domain s))"
    by (simp_all add: run(1) event_attributes_def event_payload_def map_of_jobj)
  have roles: "map_of (unit_roles e) = map_of (event_roles s)" by (simp add: run(2) map_of_sort_key event_roles_distinct)
  show modality: "truth_modality_of e = Inr (Some (ev_modality s))"
    by (simp add: truth_modality_of_def attribute_value_def unit_attribute_def attrs)
  have "event_schema \<in> set (unit_schemas e)" by (simp add: run(3) event_schemas_def)
  then show ok: "require_event_unit e = Inr e"
    using run(6,7) modality by (auto simp: require_event_unit_def is_event_unit_def has_schema_def attribute_value_def unit_attribute_def attrs require_def)
  show "event_parents e = Inr (ev_causal_parents s)"
    by (simp add: event_parents_def event_field_def ok unit_refs_def unit_role_def role_values_def roles event_roles_def)
  show "event_subject e = Inr (ev_subject s)"
    by (simp add: event_subject_def event_field_def ok unit_role_def role_values_def roles event_roles_def)
  show "event_attribute e ''authority_domain'' = Inr (JStr (ev_authority_domain s))" "event_attribute e ''generation'' = Inr (JInt (ev_generation s))"
    by (simp_all add: event_attribute_def event_field_def ok attribute_value_def unit_attribute_def attrs)
  show "unit_cut L e" "unit_id e = event_ref_prefix @ semantic_digest e" "unit_roles e = sort_key fst (event_roles s)" by (rule run)+
qed

section \<open>The reverse cone\<close>

text \<open>The reference: an event names a parent by its digest; the ancestors are what the parents lead to.\<close>

definition names_parent :: "noetrium_unit \<Rightarrow> noetrium_unit \<Rightarrow> bool" where
  "names_parent e p = (\<exists>refs. event_parents e = Inr refs \<and> (\<exists>r \<in> set refs. event_ref_digest r = Some (nu_digest p)))"

definition parents_within :: "noetrium_unit list \<Rightarrow> noetrium_unit \<Rightarrow> bool" where
  "parents_within events e = (\<exists>refs. event_parents e = Inr refs \<and> (\<forall>r \<in> set refs. \<exists>p \<in> set events. event_ref_digest r = Some (nu_digest p)))"

definition causal_ancestors :: "noetrium_unit list \<Rightarrow> noetrium_unit \<Rightarrow> noetrium_unit set" where
  "causal_ancestors events t = {e. (t, e) \<in> {(x, p). x \<in> set events \<and> p \<in> set events \<and> names_parent x p}\<^sup>*}"

text \<open>The same on the digests of an index.\<close>

definition index_parents :: "(string, noetrium_unit) dict \<Rightarrow> (string \<times> string) set" where
  "index_parents b = {(d, p). \<exists>e ps. map_of b d = Some e \<and> parents_in b e = Inr ps \<and> p \<in> set ps}"

definition resolvable :: "(string, noetrium_unit) dict \<Rightarrow> string \<Rightarrow> bool" where
  "resolvable b d = (\<exists>e ps. map_of b d = Some e \<and> parents_in b e = Inr ps)"

lemma closed_reach: "x \<in> F \<Longrightarrow> (\<And>d p. d \<in> F \<Longrightarrow> (d, p) \<in> R \<Longrightarrow> p \<in> F) \<Longrightarrow> (x, y) \<in> R\<^sup>* \<Longrightarrow> y \<in> F"
  by (rotate_tac 2) (induction rule: rtrancl_induct, auto)

lemma cone_loop_result:
  assumes "cone_loop b seen stack result = Inr out" "\<forall>d p. d \<in> set seen \<longrightarrow> (d, p) \<in> index_parents b \<longrightarrow> p \<in> set seen \<union> set stack"
  shows "\<exists>new. out = result @ map (\<lambda>d. the (map_of b d)) new \<and> distinct new \<and> set new \<inter> set seen = {} \<and> set stack \<subseteq> set seen \<union> set new \<and>
    set new \<subseteq> (index_parents b)\<^sup>* `` set stack \<and> (\<forall>d \<in> set new. resolvable b d) \<and>
    (\<forall>d p. d \<in> set seen \<union> set new \<longrightarrow> (d, p) \<in> index_parents b \<longrightarrow> p \<in> set seen \<union> set new)"
  using assms
proof (induction b seen stack result rule: cone_loop.induct)
  case (1 b seen result)
  then show ?case by (intro exI [of _ "[]"]) auto
next
  case (2 b seen d stack result)
  show ?case
  proof (cases "d \<in> set seen")
    case True
    have "cone_loop b seen stack result = Inr out" using "2.prems"(1) True by simp
    moreover have "\<forall>x p. x \<in> set seen \<longrightarrow> (x, p) \<in> index_parents b \<longrightarrow> p \<in> set seen \<union> set stack"
      using "2.prems"(2) True by auto
    ultimately obtain new where "out = result @ map (\<lambda>d. the (map_of b d)) new" "distinct new" "set new \<inter> set seen = {}" "set stack \<subseteq> set seen \<union> set new"
      "set new \<subseteq> (index_parents b)\<^sup>* `` set stack" "\<forall>d \<in> set new. resolvable b d"
      "\<forall>d p. d \<in> set seen \<union> set new \<longrightarrow> (d, p) \<in> index_parents b \<longrightarrow> p \<in> set seen \<union> set new"
      using "2.IH"(1) [OF True] by blast
    then show ?thesis using True by (intro exI [of _ new]) auto
  next
    case False
    then obtain e ps where e: "map_of b d = Some e" "parents_in b e = Inr ps"
      and run: "cone_loop b (d # seen) (rev ps @ stack) (result @ [e]) = Inr out"
      using "2.prems"(1) by (auto split: option.splits sum.splits)
    have parents: "(d, p) \<in> index_parents b \<longleftrightarrow> p \<in> set ps" for p using e by (auto simp: index_parents_def)
    have "\<forall>x p. x \<in> set (d # seen) \<longrightarrow> (x, p) \<in> index_parents b \<longrightarrow> p \<in> set (d # seen) \<union> set (rev ps @ stack)"
      using "2.prems"(2) parents by auto
    from "2.IH"(2) [OF False e run this] obtain new where new: "out = (result @ [e]) @ map (\<lambda>d. the (map_of b d)) new" "distinct new"
      "set new \<inter> set (d # seen) = {}" "set (rev ps @ stack) \<subseteq> set (d # seen) \<union> set new" "set new \<subseteq> (index_parents b)\<^sup>* `` set (rev ps @ stack)"
      "\<forall>d \<in> set new. resolvable b d"
      "\<forall>x p. x \<in> set (d # seen) \<union> set new \<longrightarrow> (x, p) \<in> index_parents b \<longrightarrow> p \<in> set (d # seen) \<union> set new" by blast
    have "(index_parents b)\<^sup>* `` set ps \<subseteq> (index_parents b)\<^sup>* `` {d}" using parents by (auto intro: converse_rtrancl_into_rtrancl)
    moreover have "set new \<subseteq> (index_parents b)\<^sup>* `` set ps \<union> (index_parents b)\<^sup>* `` set stack" using new(5) by (simp add: Image_Un)
    ultimately have "set (d # new) \<subseteq> (index_parents b)\<^sup>* `` set (d # stack)" by fastforce
    then show ?thesis using new e False by (intro exI [of _ "d # new"]) (auto simp: resolvable_def)
  qed
qed

lemma cone_loop_total:
  assumes "\<And>d. d \<in> (index_parents b)\<^sup>* `` set stack \<Longrightarrow> resolvable b d"
  shows "\<exists>out. cone_loop b seen stack result = Inr out"
  using assms
proof (induction b seen stack result rule: cone_loop.induct)
  case (2 b seen d stack result)
  obtain e ps where e: "map_of b d = Some e" "parents_in b e = Inr ps" using "2.prems" [of d] by (auto simp: resolvable_def)
  show ?case
  proof (cases "d \<in> set seen")
    case True
    then show ?thesis using "2.IH"(1) [OF True] "2.prems" by auto
  next
    case False
    have "(d, p) \<in> index_parents b" if "p \<in> set ps" for p using e that by (auto simp: index_parents_def)
    then have "resolvable b x" if "x \<in> (index_parents b)\<^sup>* `` set (rev ps @ stack)" for x
      using that "2.prems" [of x] by (auto intro: converse_rtrancl_into_rtrancl)
    from "2.IH"(2) [OF False e this] show ?thesis using False e by simp
  qed
qed simp

text \<open>The index of a trace without repeated digests.\<close>

definition trace_index :: "noetrium_unit list \<Rightarrow> (string, noetrium_unit) dict" where
  "trace_index events = dict_of (map (\<lambda>e. (nu_digest e, e)) events)"

lemma trace_index_get:
  assumes "distinct (map nu_digest events)"
  shows "map_of (trace_index events) d = Some e \<longleftrightarrow> e \<in> set events \<and> nu_digest e = d"
proof -
  let ?kvs = "map (\<lambda>e. (nu_digest e, e)) events"
  have d: "distinct (map fst ?kvs)" using assms by (simp add: comp_def)
  then have "map_of (trace_index events) d = Some e \<longleftrightarrow> (d, e) \<in> set ?kvs"
    unfolding trace_index_def by (simp add: map_of_jobj map_of_eq_Some_iff comp_def)
  then show ?thesis by auto
qed

lemma parents_in_trace:
  assumes "distinct (map nu_digest events)"
  shows "(\<exists>ps. parents_in (trace_index events) e = Inr ps) \<longleftrightarrow> parents_within events e"
    and "parents_in (trace_index events) e = Inr ps \<Longrightarrow> nu_digest p \<in> set ps \<longleftrightarrow> names_parent e p"
    and "parents_in (trace_index events) e = Inr ps \<Longrightarrow> d \<in> set ps \<Longrightarrow> \<exists>p \<in> set events. nu_digest p = d"
proof -
  define f where "f = (\<lambda>reference. case event_ref_digest reference of None \<Rightarrow> Inl ValueError
     | Some parent \<Rightarrow> res_bind (require (map_of (trace_index events) parent \<noteq> None) ValueError) (\<lambda>_. Inr parent))"
  have f: "f r = Inr d \<longleftrightarrow> event_ref_digest r = Some d \<and> (\<exists>p \<in> set events. nu_digest p = d)" for r d
  proof -
    have "map_of (trace_index events) d \<noteq> None \<longleftrightarrow> (\<exists>p \<in> set events. nu_digest p = d)"
      unfolding not_None_eq trace_index_get [OF assms] by blast
    then show ?thesis by (cases "event_ref_digest r") (auto simp: f_def res_simps)
  qed
  have run: "parents_in (trace_index events) e = res_bind (event_parents e) (res_map f)" by (simp add: parents_in_def f_def)
  show "(\<exists>ps. parents_in (trace_index events) e = Inr ps) \<longleftrightarrow> parents_within events e"
  proof
    assume "\<exists>ps. parents_in (trace_index events) e = Inr ps"
    then obtain refs ps where r: "event_parents e = Inr refs" "res_map f refs = Inr ps" by (auto simp: run res_bind_eq_Inr)
    have "\<exists>p \<in> set events. event_ref_digest x = Some (nu_digest p)" if "x \<in> set refs" for x
      using res_map_mem [OF r(2) that] unfolding f by blast
    then show "parents_within events e" using r(1) by (auto simp: parents_within_def)
  next
    assume "parents_within events e"
    then obtain refs where r: "event_parents e = Inr refs" "\<forall>x \<in> set refs. \<exists>p \<in> set events. event_ref_digest x = Some (nu_digest p)"
      by (auto simp: parents_within_def)
    then have "\<exists>ps. res_map f refs = Inr ps \<and> list_all2 (\<lambda>_ _. True) refs ps" by (intro res_map_ex) (unfold f, blast)
    then show "\<exists>ps. parents_in (trace_index events) e = Inr ps" using r(1) by (auto simp: run)
  qed
  assume ps: "parents_in (trace_index events) e = Inr ps"
  then obtain refs where r: "event_parents e = Inr refs" "res_map f refs = Inr ps" by (auto simp: run res_bind_eq_Inr)
  show "nu_digest p \<in> set ps \<longleftrightarrow> names_parent e p"
  proof
    assume "nu_digest p \<in> set ps"
    from res_map_results [OF r(2) this] show "names_parent e p" unfolding f names_parent_def using r(1) by blast
  next
    assume "names_parent e p"
    then obtain x where x: "x \<in> set refs" "event_ref_digest x = Some (nu_digest p)" using r(1) by (auto simp: names_parent_def)
    from res_map_mem [OF r(2) x(1)] show "nu_digest p \<in> set ps" unfolding f x(2) by auto
  qed
  assume "d \<in> set ps"
  from res_map_results [OF r(2) this] show "\<exists>p \<in> set events. nu_digest p = d" unfolding f by blast
qed

lemma index_parents_trace:
  assumes "distinct (map nu_digest events)" "x \<in> set events" "p \<in> set events" "parents_within events x"
  shows "(nu_digest x, nu_digest p) \<in> index_parents (trace_index events) \<longleftrightarrow> names_parent x p"
proof -
  obtain ps where ps: "parents_in (trace_index events) x = Inr ps" using parents_in_trace(1) [OF assms(1)] assms(4) by blast
  have "map_of (trace_index events) (nu_digest x) = Some x" using trace_index_get [OF assms(1)] assms(2) by blast
  then show ?thesis using ps parents_in_trace(2) [OF assms(1) ps] by (auto simp: index_parents_def)
qed

text \<open>The digests reached through the index are those of the ancestors.\<close>

lemma reached_ancestor:
  assumes "distinct (map nu_digest events)" "t \<in> set events" "(nu_digest t, d) \<in> (index_parents (trace_index events))\<^sup>*"
  shows "\<exists>x \<in> set events. nu_digest x = d \<and> x \<in> causal_ancestors events t"
  using assms(3)
proof (induction rule: rtrancl_induct)
  case base
  then show ?case using assms(2) by (auto simp: causal_ancestors_def)
next
  case (step d p)
  then obtain x where x: "x \<in> set events" "nu_digest x = d" "x \<in> causal_ancestors events t" by blast
  from step(2) obtain e ps where e: "map_of (trace_index events) d = Some e" "parents_in (trace_index events) e = Inr ps" "p \<in> set ps"
    by (auto simp: index_parents_def)
  have "e = x" using e(1) x(1,2) unfolding trace_index_get [OF assms(1)] using assms(1) by (auto simp: distinct_map dest: inj_onD)
  obtain y where y: "y \<in> set events" "nu_digest y = p" using parents_in_trace(3) [OF assms(1) e(2,3)] by blast
  then have "names_parent x y" using parents_in_trace(2) [OF assms(1) e(2), of y] e(3) \<open>e = x\<close> by simp
  then have "y \<in> causal_ancestors events t"
    using x y(1) unfolding causal_ancestors_def by (auto intro: rtrancl_into_rtrancl)
  then show ?case using y by blast
qed

lemma ancestor_reached:
  assumes "distinct (map nu_digest events)" "t \<in> set events"
    and ok: "\<And>d. (nu_digest t, d) \<in> (index_parents (trace_index events))\<^sup>* \<Longrightarrow> resolvable (trace_index events) d"
    and "x \<in> causal_ancestors events t"
  shows "x \<in> set events \<and> (nu_digest t, nu_digest x) \<in> (index_parents (trace_index events))\<^sup>* \<and> parents_within events x"
proof -
  have within: "parents_within events x" if "(nu_digest t, nu_digest x) \<in> (index_parents (trace_index events))\<^sup>*" "x \<in> set events" for x
  proof -
    have "map_of (trace_index events) (nu_digest x) = Some x" using trace_index_get [OF assms(1)] that(2) by blast
    then show ?thesis using ok [OF that(1)] parents_in_trace(1) [OF assms(1), of x] by (auto simp: resolvable_def)
  qed
  have "(t, x) \<in> {(x, p). x \<in> set events \<and> p \<in> set events \<and> names_parent x p}\<^sup>*" using assms(4) by (simp add: causal_ancestors_def)
  then have "x \<in> set events \<and> (nu_digest t, nu_digest x) \<in> (index_parents (trace_index events))\<^sup>*"
  proof (induction rule: rtrancl_induct)
    case (step x p)
    then have "(nu_digest x, nu_digest p) \<in> index_parents (trace_index events)"
      using index_parents_trace [OF assms(1)] within by blast
    then show ?case using step by (auto intro: rtrancl_into_rtrancl)
  qed (simp add: assms(2))
  then show ?thesis using within by blast
qed

lemma require_event_same:
  assumes "require_event_unit e = Inr u"
  shows "u = e"
proof -
  from assms obtain m g where "(case g of JInt n \<Rightarrow> res_bind (require (0 \<le> n) ValueError) (\<lambda>_.
      res_bind (require (m = Some AUTHORIZED \<longrightarrow> 1 \<le> n) ValueError) (\<lambda>_. Inr e)) | _ \<Rightarrow> Inl ValueError) = Inr u"
    unfolding require_event_unit_def res_bind_eq_Inr by blast
  then show ?thesis by (cases g) (auto simp: res_simps)
qed

lemma require_events:
  "res_map (\<lambda>event. res_bind (require_event_unit event) (\<lambda>e. Inr (nu_digest event, e))) events = Inr rows \<longleftrightarrow>
    (\<forall>e \<in> set events. is_ok (require_event_unit e)) \<and> rows = map (\<lambda>e. (nu_digest e, e)) events"
proof (induction events arbitrary: rows)
  case (Cons e es)
  then show ?case by (cases "require_event_unit e") (auto simp: res_bind_eq_Inr dest: require_event_same)
qed auto

lemma reverse_cone_exact:
  assumes "distinct (map nu_digest events)" "t \<in> set events"
  shows "reverse_causal_cone events t = Inr cone \<Longrightarrow>
      set cone = causal_ancestors events t \<and> distinct cone \<and> sorted (map nu_digest cone)"
    and "is_ok (reverse_causal_cone events t) \<longleftrightarrow>
      (\<forall>e \<in> set events. is_ok (require_event_unit e)) \<and> (\<forall>x \<in> causal_ancestors events t. parents_within events x)"
proof -
  let ?b = "trace_index events" and ?R = "(index_parents (trace_index events))\<^sup>*"
  have t: "map_of ?b (nu_digest t) = Some t" using trace_index_get [OF assms(1)] assms(2) by blast
  have run: "reverse_causal_cone events t = Inr c \<longleftrightarrow> (\<forall>e \<in> set events. is_ok (require_event_unit e)) \<and>
      (\<exists>out. cone_loop ?b [] [nu_digest t] [] = Inr out \<and> c = sort_key nu_digest out)" for c
  proof -
    have "reverse_causal_cone events t = Inr c \<longleftrightarrow> is_ok (require_event_unit t) \<and> (\<forall>e \<in> set events. is_ok (require_event_unit e)) \<and>
        (\<exists>out. cone_loop ?b [] [nu_digest t] [] = Inr out \<and> c = sort_key nu_digest out)"
      unfolding reverse_causal_cone_def Let_def res_bind_eq_Inr require_events require_eq_Inr is_ok_iff
      using t by (auto simp: trace_index_def)
    then show ?thesis using assms(2) by blast
  qed
  have loop: "\<exists>new. out = map (\<lambda>d. the (map_of ?b d)) new \<and> distinct new \<and> set new = ?R `` {nu_digest t} \<and> (\<forall>d \<in> set new. resolvable ?b d)"
    if "cone_loop ?b [] [nu_digest t] [] = Inr out" for out
  proof -
    from cone_loop_result [OF that] obtain new where new: "out = map (\<lambda>d. the (map_of ?b d)) new" "distinct new" "nu_digest t \<in> set new"
      "set new \<subseteq> ?R `` {nu_digest t}" "\<forall>d \<in> set new. resolvable ?b d"
      "\<forall>d p. d \<in> set new \<longrightarrow> (d, p) \<in> index_parents ?b \<longrightarrow> p \<in> set new" by auto
    have "?R `` {nu_digest t} \<subseteq> set new" using closed_reach [OF new(3)] new(6) by blast
    then show ?thesis using new by blast
  qed
  show "set cone = causal_ancestors events t \<and> distinct cone \<and> sorted (map nu_digest cone)" if "reverse_causal_cone events t = Inr cone"
  proof -
    from that run obtain out where out: "cone_loop ?b [] [nu_digest t] [] = Inr out" "cone = sort_key nu_digest out" by blast
    from loop [OF out(1)] obtain new where new: "out = map (\<lambda>d. the (map_of ?b d)) new" "distinct new" "set new = ?R `` {nu_digest t}"
      "\<forall>d \<in> set new. resolvable ?b d" by blast
    have get: "the (map_of ?b d) = x" if "x \<in> set events" "nu_digest x = d" for x d using trace_index_get [OF assms(1), of d x] that by simp
    have "nu_digest (the (map_of ?b d)) = d" if "d \<in> set new" for d
    proof -
      from that have "(nu_digest t, d) \<in> ?R" using new(3) by simp
      from reached_ancestor [OF assms this] obtain x where "x \<in> set events" "nu_digest x = d" by blast
      then show ?thesis using get [of x d] by simp
    qed
    then have "distinct out" unfolding new(1) distinct_map using new(2) by (auto intro: inj_on_inverseI [where g = nu_digest])
    moreover have "set out = causal_ancestors events t"
    proof
      show "set out \<subseteq> causal_ancestors events t"
      proof
        fix x assume "x \<in> set out"
        then obtain d where d: "(nu_digest t, d) \<in> ?R" "x = the (map_of ?b d)" using new(1,3) by auto
        from reached_ancestor [OF assms d(1)] show "x \<in> causal_ancestors events t" unfolding d(2) using get by metis
      qed
      show "causal_ancestors events t \<subseteq> set out"
      proof
        fix x assume "x \<in> causal_ancestors events t"
        have "resolvable ?b d" if "(nu_digest t, d) \<in> ?R" for d using new(3,4) that by simp
        from ancestor_reached [OF assms this \<open>x \<in> causal_ancestors events t\<close>] have x: "x \<in> set events" "nu_digest x \<in> set new"
          using new(3) by simp_all
        then show "x \<in> set out" unfolding new(1) using get [OF x(1) refl] by (auto intro: rev_image_eqI)
      qed
    qed
    ultimately show ?thesis by (simp add: out(2))
  qed
  show "is_ok (reverse_causal_cone events t) \<longleftrightarrow>
      (\<forall>e \<in> set events. is_ok (require_event_unit e)) \<and> (\<forall>x \<in> causal_ancestors events t. parents_within events x)"
  proof (intro iffI conjI)
    assume "is_ok (reverse_causal_cone events t)"
    then obtain out where out: "\<forall>e \<in> set events. is_ok (require_event_unit e)" "cone_loop ?b [] [nu_digest t] [] = Inr out"
      unfolding is_ok_iff run by blast
    then show "\<forall>e \<in> set events. is_ok (require_event_unit e)" by blast
    from loop [OF out(2)] have "resolvable ?b d" if "(nu_digest t, d) \<in> ?R" for d using that by auto
    from ancestor_reached [OF assms this] show "\<forall>x \<in> causal_ancestors events t. parents_within events x" by blast
  next
    assume ok: "(\<forall>e \<in> set events. is_ok (require_event_unit e)) \<and> (\<forall>x \<in> causal_ancestors events t. parents_within events x)"
    have "resolvable ?b d" if "d \<in> ?R `` set [nu_digest t]" for d
    proof -
      from that have "(nu_digest t, d) \<in> ?R" by simp
      from reached_ancestor [OF assms this] obtain x where x: "x \<in> set events" "nu_digest x = d" "x \<in> causal_ancestors events t" by blast
      have "map_of ?b d = Some x" using trace_index_get [OF assms(1)] x by blast
      then show ?thesis using ok x(3) parents_in_trace(1) [OF assms(1), of x] by (auto simp: resolvable_def)
    qed
    from cone_loop_total [where b = ?b and stack = "[nu_digest t]" and seen = "[]" and result = "[]", OF this]
    have "\<exists>c. reverse_causal_cone events t = Inr c" unfolding run using ok by blast
    then show "is_ok (reverse_causal_cone events t)" by (simp add: is_ok_iff)
  qed
qed

section \<open>Merging traces\<close>

lemma dict_ext:
  assumes "dict_wf a" "dict_wf b" "map_of a = map_of b"
  shows "a = b"
proof (rule alist_eq_by_keys)
  show "distinct (map fst a)" using assms(1) by (rule dict_wf_distinct)
  have "set (map fst a) = set (map fst b)" using assms(3) by (metis dom_map_of_conv_image_fst list.set_map)
  then show "map fst a = map fst b" using assms(1,2) unfolding dict_wf_def by (intro strict_sorted_equal) simp_all
qed (rule assms(3))

text \<open>Merging never reports a collision: equal digests compare equal.  Without collisions it is the union, in digest order.\<close>

lemma merge_into_result:
  assumes "\<forall>e \<in> set es. is_ok (require_event_unit e)" "\<forall>d x. map_of m d = Some x \<longrightarrow> nu_digest x = d"
  shows "merge_into m es = Inr (foldl (\<lambda>m e. dict_set (nu_digest e) e m) m es)"
  using assms
proof (induction es arbitrary: m)
  case (Cons e es)
  have ok: "require_event_unit e = Inr e" using Cons.prems(1) require_event_same by (fastforce simp: is_ok_iff)
  have same: "case map_of m (nu_digest e) of None \<Rightarrow> True | Some previous \<Rightarrow> unit_eq previous e"
    using Cons.prems(2) by (auto simp: unit_eq_def split: option.splits)
  have "\<forall>d x. map_of (dict_set (nu_digest e) e m) d = Some x \<longrightarrow> nu_digest x = d" using Cons.prems(2) by auto
  from Cons.IH [OF _ this] Cons.prems(1)
  have "merge_into (dict_set (nu_digest e) e m) es = Inr (foldl (\<lambda>m e. dict_set (nu_digest e) e m) (dict_set (nu_digest e) e m) es)" by simp
  then show ?case using same by (simp add: ok)
qed simp

lemma merge_traces_eq:
  assumes "\<forall>e \<in> set (concat traces). is_ok (require_event_unit e)"
  shows "merge_causal_traces traces = Inr (map snd (trace_index (concat traces)))"
proof -
  have "foldl (\<lambda>m e. dict_set (nu_digest e) e m) m es = foldl (\<lambda>d kv. dict_set (fst kv) (snd kv) d) m (map (\<lambda>e. (nu_digest e, e)) es)" for m es
    by (induction es arbitrary: m) simp_all
  then show ?thesis using merge_into_result [OF assms, of "[]"] by (simp add: merge_causal_traces_def trace_index_def dict_of_def)
qed

lemma trace_index_union:
  assumes "inj_on nu_digest (set es)"
  shows "map_of (trace_index es) d = Some e \<longleftrightarrow> e \<in> set es \<and> nu_digest e = d"
proof -
  have rev: "map_of (trace_index es) = map_of (rev (map (\<lambda>e. (nu_digest e, e)) es))" by (simp add: trace_index_def map_of_dict_of)
  show ?thesis
  proof
    assume "map_of (trace_index es) d = Some e"
    then show "e \<in> set es \<and> nu_digest e = d" unfolding rev by (auto dest!: map_of_SomeD)
  next
    assume e: "e \<in> set es \<and> nu_digest e = d"
    then have "(d, e) \<in> set (rev (map (\<lambda>e. (nu_digest e, e)) es))" by auto
    then obtain x where x: "map_of (trace_index es) d = Some x" unfolding rev using weak_map_of_SomeI by fastforce
    then have "x \<in> set es \<and> nu_digest x = d" unfolding rev by (auto dest!: map_of_SomeD)
    then show "map_of (trace_index es) d = Some e" using x e assms by (auto dest: inj_onD)
  qed
qed

lemma trace_index_values:
  assumes "inj_on nu_digest (set es)"
  shows "set (map snd (trace_index es)) = set es" "sorted_wrt (\<lambda>a b. nu_digest a < nu_digest b) (map snd (trace_index es))"
proof -
  have wf: "dict_wf (trace_index es)" by (simp add: trace_index_def dict_simps)
  have mem: "(d, e) \<in> set (trace_index es) \<longleftrightarrow> e \<in> set es \<and> nu_digest e = d" for d e
    using trace_index_union [OF assms, of d e] dict_wf_distinct [OF wf] by (simp add: map_of_eq_Some_iff)
  have "x \<in> set (map snd (trace_index es)) \<longleftrightarrow> x \<in> set es" for x
  proof
    assume "x \<in> set es"
    then show "x \<in> set (map snd (trace_index es))" using mem [of "nu_digest x" x] by (metis image_eqI list.set_map snd_conv)
  next
    assume "x \<in> set (map snd (trace_index es))"
    then obtain kv where "kv \<in> set (trace_index es)" "x = snd kv" by auto
    then show "x \<in> set es" using mem [of "fst kv" x] by simp
  qed
  then show "set (map snd (trace_index es)) = set es" by blast
  have "fst kv = nu_digest (snd kv)" if "kv \<in> set (trace_index es)" for kv using mem [of "fst kv" "snd kv"] that by simp
  then have "map fst (trace_index es) = map nu_digest (map snd (trace_index es))" by simp
  with wf have "sorted_wrt (<) (map nu_digest (map snd (trace_index es)))" unfolding dict_wf_def by (simp only:)
  then show "sorted_wrt (\<lambda>a b. nu_digest a < nu_digest b) (map snd (trace_index es))" unfolding sorted_wrt_map [where f = nu_digest] .
qed

lemma merge_is_union:
  assumes "\<forall>e \<in> set (concat traces). is_ok (require_event_unit e)" "inj_on nu_digest (set (concat traces))"
  shows "\<exists>merged. merge_causal_traces traces = Inr merged \<and> set merged = set (concat traces) \<and>
    sorted_wrt (\<lambda>a b. nu_digest a < nu_digest b) merged"
  using merge_traces_eq [OF assms(1)] trace_index_values [OF assms(2)] by blast

text \<open>Only the union matters: neither the order of the traces nor the way events are spread over them.\<close>

lemma merge_order_free:
  assumes "\<forall>e \<in> set (concat traces). is_ok (require_event_unit e)" "inj_on nu_digest (set (concat traces))"
    and "set (concat traces') = set (concat traces)"
  shows "merge_causal_traces traces' = merge_causal_traces traces"
proof -
  have "map_of (trace_index (concat traces')) = map_of (trace_index (concat traces))"
  proof
    fix d show "map_of (trace_index (concat traces')) d = map_of (trace_index (concat traces)) d"
      using trace_index_union [OF assms(2), of d] trace_index_union [of "concat traces'" d] assms(2,3)
      by (metis (mono_tags) not_Some_eq)
  qed
  then have "trace_index (concat traces') = trace_index (concat traces)" by (intro dict_ext) (simp_all add: trace_index_def dict_simps)
  moreover have "\<forall>e \<in> set (concat traces'). is_ok (require_event_unit e)" unfolding assms(3) by (rule assms(1))
  ultimately show ?thesis using merge_traces_eq [OF assms(1)] merge_traces_eq [of traces'] by (simp only:)
qed

section \<open>The causal order\<close>

lemma index_events_eq:
  assumes "\<forall>e \<in> set es. is_ok (require_event_unit e)" "distinct (map nu_digest es)" "\<forall>e \<in> set es. map_of b (nu_digest e) = None"
  shows "index_events b es = Inr (b @ map (\<lambda>e. (nu_digest e, e)) es)"
  using assms
proof (induction es arbitrary: b)
  case (Cons e es)
  have ok: "require_event_unit e = Inr e" using Cons.prems(1) require_event_same by (fastforce simp: is_ok_iff)
  have "\<forall>x \<in> set es. map_of (b @ [(nu_digest e, e)]) (nu_digest x) = None"
    using Cons.prems(2,3) by (auto simp: map_add_def rev_image_eqI)
  from Cons.IH [OF _ _ this] Cons.prems show ?case by (simp add: ok)
qed simp

definition trace_edges :: "noetrium_unit list \<Rightarrow> (string \<times> string) set" where
  "trace_edges events = {(nu_digest p, nu_digest x) | p x. x \<in> set events \<and> p \<in> set events \<and> names_parent x p}"

lemma parents_in_same: "map_of a = map_of b \<Longrightarrow> parents_in a e = parents_in b e"
  unfolding parents_in_def by (simp only:)

lemma causal_edges:
  assumes "distinct (map nu_digest events)" "\<forall>x \<in> set events. parents_within events x"
  shows "\<exists>edges. res_map (\<lambda>row. res_bind (parents_in (map (\<lambda>e. (nu_digest e, e)) events) (snd row)) (\<lambda>ps. Inr (map (\<lambda>p. (p, fst row)) ps)))
      (map (\<lambda>e. (nu_digest e, e)) events) = Inr edges \<and> set (concat edges) = trace_edges events"
proof -
  let ?b = "map (\<lambda>e. (nu_digest e, e)) events"
  have same: "parents_in ?b e = parents_in (trace_index events) e" for e
    by (rule parents_in_same) (use assms(1) in \<open>simp add: trace_index_def map_of_jobj comp_def\<close>)
  have "\<exists>y. res_bind (parents_in ?b (snd row)) (\<lambda>ps. Inr (map (\<lambda>p. (p, fst row)) ps)) = Inr y \<and>
      set y = {(nu_digest p, fst row) | p. p \<in> set events \<and> names_parent (snd row) p}" if row: "row \<in> set ?b" for row
  proof -
    have x: "snd row \<in> set events" using row by auto
    then obtain ps where ps: "parents_in (trace_index events) (snd row) = Inr ps" using parents_in_trace(1) [OF assms(1)] assms(2) by blast
    have "d \<in> set ps \<longleftrightarrow> (\<exists>p \<in> set events. nu_digest p = d \<and> names_parent (snd row) p)" for d
      using parents_in_trace(2) [OF assms(1) ps] parents_in_trace(3) [OF assms(1) ps] by metis
    then show ?thesis using ps by (auto simp: same)
  qed
  from res_map_ex [where P = "\<lambda>row y. set y = {(nu_digest p, fst row) | p. p \<in> set events \<and> names_parent (snd row) p}", OF this]
  obtain edges where edges: "res_map (\<lambda>row. res_bind (parents_in ?b (snd row)) (\<lambda>ps. Inr (map (\<lambda>p. (p, fst row)) ps))) ?b = Inr edges"
    "list_all2 (\<lambda>row y. set y = {(nu_digest p, fst row) | p. p \<in> set events \<and> names_parent (snd row) p}) ?b edges" by blast
  have "set (concat edges) = (\<Union>row \<in> set ?b. {(nu_digest p, fst row) | p. p \<in> set events \<and> names_parent (snd row) p})"
    using edges(2) by (induction rule: list_all2_induct) auto
  also have "\<dots> = trace_edges events" unfolding trace_edges_def by auto
  finally show ?thesis using edges(1) by blast
qed

lemma causal_order_correct:
  assumes ok: "\<forall>e \<in> set events. is_ok (require_event_unit e) \<and> parents_within events e"
    and "distinct (map nu_digest events)" "\<forall>e \<in> set events. nu_digest e \<noteq> []" "set_enumeration enum"
  shows "acyclic (trace_edges events) \<Longrightarrow> \<exists>order. causal_topological_order enum events = Some (Inr order) \<and> distinct order \<and> set order = set events \<and>
      (\<forall>pre x post p. order = pre @ x # post \<longrightarrow> p \<in> set events \<longrightarrow> names_parent x p \<longrightarrow> p \<in> set pre)"
    and "\<not> acyclic (trace_edges events) \<Longrightarrow> causal_topological_order enum events = Some (Inl ValueError)"
proof -
  let ?b = "map (\<lambda>e. (nu_digest e, e)) events"
  have b: "index_events [] events = Inr ?b" using index_events_eq [of events "[]"] assms(1,2) by simp
  obtain edges where edges: "res_map (\<lambda>row. res_bind (parents_in ?b (snd row)) (\<lambda>ps. Inr (map (\<lambda>p. (p, fst row)) ps))) ?b = Inr edges"
    "set (concat edges) = trace_edges events" using causal_edges [OF assms(2)] ok by blast
  have run: "causal_topological_order enum events = map_option (\<lambda>order. res_bind order (\<lambda>ds. Inr (map (\<lambda>d. the (map_of ?b d)) ds)))
      (deterministic_topological_order enum (map nu_digest events) (concat edges))"
    unfolding causal_topological_order_def b sum.case edges(1) by (simp add: comp_def)
  have args: "dag_arguments (map nu_digest events) (concat edges)"
    unfolding dag_arguments_def edges(2) using assms(2,3) by (auto simp: trace_edges_def)
  have get: "the (map_of ?b (nu_digest x)) = x" if "x \<in> set events" for x
    using that assms(2) by (simp add: map_of_eq_Some_iff comp_def image_iff)
  show "causal_topological_order enum events = Some (Inl ValueError)" if "\<not> acyclic (trace_edges events)"
    using topological_order_cyclic [OF args assms(4)] that unfolding run edges(2) by simp
  assume "acyclic (trace_edges events)"
  with topological_order_acyclic [OF args assms(4)] obtain r where r:
    "deterministic_topological_order enum (map nu_digest events) (concat edges) = Some (Inr r)"
    "topo_sound (trace_edges events) r" "distinct r" "set r = nu_digest ` set events" unfolding edges(2) by auto
  define order where "order = map (\<lambda>d. the (map_of ?b d)) r"
  have digests: "map nu_digest order = r" unfolding order_def using r(4) get by (auto intro!: map_idI)
  have "set order = set events" unfolding order_def using r(4) get by (force simp: image_image)
  moreover have "distinct order" using digests r(3) by (metis distinct_map)
  moreover have "p \<in> set pre" if "order = pre @ x # post" "p \<in> set events" "names_parent x p" for pre x post p
  proof -
    have "r = map nu_digest pre @ nu_digest x # map nu_digest post" using digests that(1) by simp
    moreover have "(nu_digest p, nu_digest x) \<in> trace_edges events"
      using that \<open>set order = set events\<close> unfolding trace_edges_def by auto
    ultimately have "nu_digest p \<in> nu_digest ` set pre" using r(2) unfolding topo_sound_def by (metis list.set_map)
    then obtain q where "q \<in> set pre" "nu_digest q = nu_digest p" by auto
    moreover have "q \<in> set events" using \<open>q \<in> set pre\<close> that(1) \<open>set order = set events\<close> by auto
    ultimately show ?thesis using get [of p] get [of q] that(2) by simp
  qed
  ultimately show "\<exists>order. causal_topological_order enum events = Some (Inr order) \<and> distinct order \<and> set order = set events \<and>
      (\<forall>pre x post p. order = pre @ x # post \<longrightarrow> p \<in> set events \<longrightarrow> names_parent x p \<longrightarrow> p \<in> set pre)"
    by (intro exI [of _ order]) (auto simp: run r(1) order_def)
qed

section \<open>The cone across traces\<close>

lemma causal_ancestors_set: "set a = set b \<Longrightarrow> causal_ancestors a t = causal_ancestors b t"
  and parents_within_set: "set a = set b \<Longrightarrow> parents_within a e = parents_within b e"
  by (simp_all add: causal_ancestors_def parents_within_def)

lemma cone_across_traces:
  assumes "\<forall>e \<in> set (concat traces). is_ok (require_event_unit e)" "inj_on nu_digest (set (concat traces))" "t \<in> set (concat traces)"
  shows "reverse_causal_cone_from_traces traces t = Inr cone \<Longrightarrow>
      set cone = causal_ancestors (concat traces) t \<and> distinct cone \<and> sorted (map nu_digest cone)"
    and "is_ok (reverse_causal_cone_from_traces traces t) \<longleftrightarrow> (\<forall>x \<in> causal_ancestors (concat traces) t. parents_within (concat traces) x)"
proof -
  obtain merged where m: "merge_causal_traces traces = Inr merged" "set merged = set (concat traces)"
    "sorted_wrt (\<lambda>a b. nu_digest a < nu_digest b) merged" using merge_is_union [OF assms(1,2)] by blast
  have "sorted_wrt (<) (map nu_digest merged)" unfolding sorted_wrt_map by (rule m(3))
  then have d: "distinct (map nu_digest merged)" by (simp add: strict_sorted_iff)
  have t: "t \<in> set merged" using assms(3) m(2) by simp
  have run: "reverse_causal_cone_from_traces traces t = reverse_causal_cone merged t" by (simp add: reverse_causal_cone_from_traces_def m(1))
  note same = causal_ancestors_set [OF m(2)] parents_within_set [OF m(2)]
  show "reverse_causal_cone_from_traces traces t = Inr cone \<Longrightarrow>
      set cone = causal_ancestors (concat traces) t \<and> distinct cone \<and> sorted (map nu_digest cone)"
    unfolding run using reverse_cone_exact(1) [OF d t] unfolding same(1) by blast
  show "is_ok (reverse_causal_cone_from_traces traces t) \<longleftrightarrow> (\<forall>x \<in> causal_ancestors (concat traces) t. parents_within (concat traces) x)"
    unfolding run reverse_cone_exact(2) [OF d t] same m(2) using assms(1) by blast
qed

end
