(* ===== verification/Base64.thy ===== *)
theory Base64
  imports Prelude
begin

text \<open>
  \<^verbatim>\<open>base64.b64encode\<close> and the lenient \<^verbatim>\<open>base64.b64decode\<close> of Python's standard library, on bytes as characters:
  the decoder skips characters outside the alphabet, stops at a complete padding and raises on an
  incomplete group.
\<close>

definition b64_alphabet :: string where
  "b64_alphabet = ''ABCDEFGHIJKLMNOPQRSTUVWXYZabcdefghijklmnopqrstuvwxyz0123456789+/''"

definition b64_char :: "nat \<Rightarrow> char" where
  "b64_char v = b64_alphabet ! v"

definition b64_value :: "char \<Rightarrow> nat option" where
  "b64_value c = map_of (zip b64_alphabet [0..<64]) c"

abbreviation byte :: "char \<Rightarrow> nat" where
  "byte c \<equiv> of_char c"

fun b64encode :: "string \<Rightarrow> string" where
  "b64encode [] = []"
| "b64encode [a] = [b64_char (byte a div 4), b64_char (byte a mod 4 * 16), CHR ''='', CHR ''='']"
| "b64encode [a, b] = [b64_char (byte a div 4), b64_char (byte a mod 4 * 16 + byte b div 16), b64_char (byte b mod 16 * 4), CHR ''='']"
| "b64encode (a # b # c # rest) =
     [b64_char (byte a div 4), b64_char (byte a mod 4 * 16 + byte b div 16), b64_char (byte b mod 16 * 4 + byte c div 64), b64_char (byte c mod 64)]
     @ b64encode rest"

text \<open>The state of the decoder: position in the group of four, the bits left over, pads seen since the last data character.\<close>

fun a2b_loop :: "nat \<Rightarrow> nat \<Rightarrow> nat \<Rightarrow> string \<Rightarrow> string res" where
  "a2b_loop quad_pos leftchar pads [] = (if quad_pos = 0 then Inr [] else Inl ValueError)"
| "a2b_loop quad_pos leftchar pads (ch # rest) =
     (if ch = CHR ''='' then
        (if 2 \<le> quad_pos \<and> 4 \<le> quad_pos + Suc pads then Inr []
         else a2b_loop quad_pos leftchar (if 2 \<le> quad_pos then Suc pads else pads) rest)
      else case b64_value ch of
          None \<Rightarrow> a2b_loop quad_pos leftchar pads rest
        | Some v \<Rightarrow>
            if quad_pos = 0 then a2b_loop 1 v 0 rest
            else if quad_pos = 1 then res_bind (a2b_loop 2 (v mod 16) 0 rest) (\<lambda>out. Inr (char_of (leftchar * 4 + v div 16) # out))
            else if quad_pos = 2 then res_bind (a2b_loop 3 (v mod 4) 0 rest) (\<lambda>out. Inr (char_of (leftchar * 16 + v div 4) # out))
            else res_bind (a2b_loop 0 0 0 rest) (\<lambda>out. Inr (char_of (leftchar * 64 + v) # out)))"

definition b64decode :: "string \<Rightarrow> string res" where
  "b64decode s = res_bind (require (list_all (\<lambda>c. byte c < 128) s) ValueError) (\<lambda>_. a2b_loop 0 0 0 s)"

section \<open>The round trip\<close>

lemma alphabet_length: "length b64_alphabet = 64"
  by (simp add: b64_alphabet_def)

lemma alphabet_distinct: "distinct b64_alphabet"
  by (simp add: b64_alphabet_def)

lemma alphabet_ascii: "c \<in> set b64_alphabet \<Longrightarrow> byte c < 128 \<and> c \<noteq> CHR ''=''"
  by (auto simp: b64_alphabet_def)

lemma b64_char_mem: "v < 64 \<Longrightarrow> b64_char v \<in> set b64_alphabet"
  by (simp add: b64_char_def alphabet_length)

lemma b64_value_char [simp]: "v < 64 \<Longrightarrow> b64_value (b64_char v) = Some v"
proof -
  assume v: "v < 64"
  then have "(b64_alphabet ! v, v) \<in> set (zip b64_alphabet [0..<64])" unfolding in_set_zip by (auto simp: alphabet_length)
  then show ?thesis unfolding b64_value_def b64_char_def using alphabet_distinct by (simp add: map_of_eq_Some_iff alphabet_length)
qed

lemma b64_char_not_pad: "v < 64 \<Longrightarrow> b64_char v \<noteq> CHR ''=''"
  using alphabet_ascii b64_char_mem by blast

text \<open>The arithmetic of the groups, on numbers below 256.\<close>

lemma quarters: "k < 16 \<Longrightarrow> (x * 16 + k) div 16 = (x :: nat)" "k < 16 \<Longrightarrow> (x * 16 + k) mod 16 = (k :: nat)"
  "j < 4 \<Longrightarrow> (x * 4 + j) div 4 = (x :: nat)" "j < 4 \<Longrightarrow> (x * 4 + j) mod 4 = (j :: nat)"
  by simp_all

lemma byte_parts: "byte a div 4 < 64" "byte a div 16 < 16" "byte a div 64 < 4"
proof -
  have "byte a < 64 * 4" "byte a < 16 * 16" "byte a < 4 * 64" using nat_of_char_less_256 [of a] by simp_all
  then show "byte a div 4 < 64" "byte a div 16 < 16" "byte a div 64 < 4" by (simp_all add: less_mult_imp_div_less)
qed

lemma byte_bits: "byte a mod 4 * 16 < 64" "byte a mod 4 * 16 + byte b div 16 < 64" "byte b mod 16 * 4 < 64" "byte b mod 16 * 4 + byte c div 64 < 64"
proof -
  have "byte a mod 4 \<le> 3" "byte b mod 16 \<le> 15" by (simp_all add: less_Suc_eq_le [symmetric])
  then show "byte a mod 4 * 16 < 64" "byte a mod 4 * 16 + byte b div 16 < 64" "byte b mod 16 * 4 < 64" "byte b mod 16 * 4 + byte c div 64 < 64"
    using byte_parts(2) [of b] byte_parts(3) [of c] by linarith+
qed

lemma b64_step:
  assumes "v < 64"
  shows "a2b_loop 0 l p (b64_char v # rest) = a2b_loop 1 v 0 rest"
    "a2b_loop 1 l p (b64_char v # rest) = res_bind (a2b_loop 2 (v mod 16) 0 rest) (\<lambda>out. Inr (char_of (l * 4 + v div 16) # out))"
    "a2b_loop 2 l p (b64_char v # rest) = res_bind (a2b_loop 3 (v mod 4) 0 rest) (\<lambda>out. Inr (char_of (l * 16 + v div 4) # out))"
    "a2b_loop 3 l p (b64_char v # rest) = res_bind (a2b_loop 0 0 0 rest) (\<lambda>out. Inr (char_of (l * 64 + v) # out))"
  using assms by (simp_all add: b64_char_not_pad)

lemma b64_pads: "a2b_loop 2 l 0 [CHR ''='', CHR ''=''] = Inr []" "a2b_loop 3 l 0 [CHR ''=''] = Inr []"
  by simp_all

declare a2b_loop.simps(2) [simp del]

lemma byte_quarter: "byte a div 4 * 4 + byte a mod 4 = byte a" "byte a div 16 * 16 + byte a mod 16 = byte a" "byte a div 64 * 64 + byte a mod 64 = byte a"
  by simp_all

lemma a2b_encode: "a2b_loop 0 0 0 (b64encode raw) = Inr raw"
proof (induction raw rule: b64encode.induct)
  case (2 a)
  have "byte a mod 4 * 16 mod 16 = 0" "byte a mod 4 * 16 div 16 = byte a mod 4" by simp_all
  then show ?case unfolding b64encode.simps by (simp only: b64_step byte_parts byte_bits b64_pads res_bind_Inr byte_quarter char_of_char)
next
  case (3 a b)
  have "byte b mod 16 * 4 div 4 = byte b mod 16" by simp
  then show ?case unfolding b64encode.simps
    by (simp only: b64_step byte_parts byte_bits quarters b64_pads res_bind_Inr byte_quarter char_of_char)
next
  case (4 a b c rest)
  have "byte c mod 64 < 64" by simp
  then show ?case unfolding b64encode.simps append_Cons append_Nil
    by (simp only: b64_step byte_parts byte_bits quarters res_bind_Inr byte_quarter char_of_char 4)
qed simp

lemma encode_ascii: "c \<in> set (b64encode raw) \<Longrightarrow> byte c < 128"
  by (induction raw rule: b64encode.induct) (use alphabet_ascii b64_char_mem byte_bits byte_parts in auto)

lemma b64_round_trip: "b64decode (b64encode raw) = Inr raw"
  using encode_ascii by (simp add: b64decode_def a2b_encode list_all_iff)

end
