(* ===== verification/EventStore.thy ===== *)
theory EventStore
  imports EventProofs Base64
begin

text \<open>
  The file-backed causal store, \<^verbatim>\<open>foundation/kernel/event_store.py\<close>: every state transition is a content-addressed
  event in a directory, chained by causal parents; the latest state is also written to a projection
  file, which is never authoritative.  A process keeps the last event it validated as an append
  cache.  A file is the document or the bytes it holds; the directory stamp counts the changes of the
  directory.  The lock makes every call one step.
\<close>

section \<open>State\<close>

record store_config =
  sc_state_schema :: string
  sc_authority_domain :: string

record store_files =
  sf_events :: "(string, json) dict"
  sf_stamp :: nat
  sf_projection :: "string option"

record append_tail =
  at_generation :: int
  at_predecessor :: "noetrium_unit option"
  at_stamp :: nat
  at_encoded :: "json option"

type_synonym store_state = "append_tail option \<times> store_files"

definition mk_store_config :: "hostlib \<Rightarrow> string \<Rightarrow> string \<Rightarrow> string option \<Rightarrow> store_config res" where
  "mk_store_config L projection_path state_schema authority_domain =
     res_bind (require (nonblank state_schema) ValueError) (\<lambda>_.
     let domain = (case authority_domain of
           None \<Rightarrow> ''lifecycle.state.'' @ sha256_hex L (utf8 projection_path) | Some d \<Rightarrow> py_strip d) in
     res_bind (require (domain \<noteq> []) ValueError) (\<lambda>_.
     Inr \<lparr>sc_state_schema = py_strip state_schema, sc_authority_domain = domain\<rparr>))"

section \<open>File names\<close>

definition pad20 :: "int \<Rightarrow> string" where
  "pad20 n = replicate (20 - length (dec_int n)) CHR ''0'' @ dec_int n"

definition event_file_name :: "int \<Rightarrow> string \<Rightarrow> string" where
  "event_file_name generation digest = pad20 generation @ ''-'' @ digest @ ''.unit''"

definition removesuffix :: "string \<Rightarrow> string \<Rightarrow> string" where
  "removesuffix suffix s = (if drop (length s - length suffix) s = suffix \<and> length suffix \<le> length s then take (length s - length suffix) s else s)"

definition ends_with :: "string \<Rightarrow> string \<Rightarrow> bool" where
  "ends_with suffix s = (length suffix \<le> length s \<and> drop (length s - length suffix) s = suffix)"

definition event_file_generation :: "string \<Rightarrow> nat res" where
  "event_file_generation name =
     (let generation_text = takeWhile (\<lambda>c. c \<noteq> CHR ''-'') name;
          digest = removesuffix ''.unit'' (drop (Suc (length generation_text)) name) in
      if CHR ''-'' \<notin> set name \<or> length generation_text \<noteq> 20 \<or> \<not> list_all digit_char generation_text \<or> \<not> is_sha256 digest \<or>
         name \<noteq> generation_text @ ''-'' @ digest @ ''.unit''
      then Inl RuntimeError else Inr (dec_value generation_text))"

fun index_generations :: "(nat \<times> string) list \<Rightarrow> string list \<Rightarrow> (nat \<times> string) list res" where
  "index_generations by_generation [] = Inr by_generation"
| "index_generations by_generation (name # names) =
     res_bind (event_file_generation name) (\<lambda>generation.
     res_bind (require (generation \<noteq> 0 \<and> map_of by_generation generation = None) RuntimeError) (\<lambda>_.
     index_generations (by_generation @ [(generation, name)]) names))"

definition event_paths :: "store_files \<Rightarrow> string list res" where
  "event_paths w =
     res_bind (index_generations [] (filter (ends_with ''.unit'') (map fst (sf_events w)))) (\<lambda>by_generation.
     res_bind (require (by_generation = [] \<or> Max (fst ` set by_generation) = length by_generation) RuntimeError) (\<lambda>_.
     res_map (\<lambda>generation. case map_of by_generation generation of None \<Rightarrow> Inl KeyError | Some name \<Rightarrow> Inr name)
       [1..<Suc (length by_generation)]))"

section \<open>Scanning the journal\<close>

text \<open>The guarded part of the loop: any exception while reading, decoding or checking the name is reported as corruption.\<close>

definition load_event :: "hostlib \<Rightarrow> store_files \<Rightarrow> string \<Rightarrow> (json \<times> noetrium_unit \<times> int) res" where
  "load_event L w name =
     (case map_of (sf_events w) name of
        None \<Rightarrow> Inl RuntimeError
      | Some encoded \<Rightarrow>
          (case decode_unit L encoded of
             Some (Inr event) \<Rightarrow>
               (case event_attribute event ''generation'' of
                  Inr (JInt generation) \<Rightarrow>
                    res_bind (require (name = event_file_name generation (nu_digest event)) RuntimeError) (\<lambda>_. Inr (encoded, event, generation))
                | _ \<Rightarrow> Inl RuntimeError)
           | _ \<Rightarrow> Inl RuntimeError))"

definition check_chained :: "noetrium_unit option \<Rightarrow> noetrium_unit \<Rightarrow> unit res" where
  "check_chained previous event =
     res_bind (unit_refs event ''causal-parent'') (\<lambda>parents.
     case previous of
       None \<Rightarrow> require (parents = []) RuntimeError
     | Some p \<Rightarrow> res_bind (event_ref p) (\<lambda>r. require (parents = [r]) RuntimeError))"

fun scan_loop ::
    "hostlib \<Rightarrow> store_config \<Rightarrow> store_files \<Rightarrow> string list \<Rightarrow> noetrium_unit option \<Rightarrow> json option \<Rightarrow> int \<Rightarrow> noetrium_unit list
     \<Rightarrow> (noetrium_unit option \<times> json option \<times> int \<times> noetrium_unit list) res" where
  "scan_loop L cfg w [] previous last_encoded expected_generation events = Inr (previous, last_encoded, expected_generation, events)"
| "scan_loop L cfg w (name # names) previous last_encoded expected_generation events =
     res_bind (load_event L w name) (\<lambda>(encoded, event, generation).
     res_bind (event_attribute event ''authority_domain'') (\<lambda>domain.
     res_bind (require (domain = JStr (sc_authority_domain cfg)) RuntimeError) (\<lambda>_.
     res_bind (require (generation = expected_generation) RuntimeError) (\<lambda>_.
     res_bind (check_chained previous event) (\<lambda>_.
     scan_loop L cfg w names (Some event) (Some encoded) (expected_generation + 1) (events @ [event]))))))"

text \<open>A scan revokes the cached tail first; only a complete scan publishes a new one.\<close>

definition scan_events :: "hostlib \<Rightarrow> store_config \<Rightarrow> (store_state, noetrium_unit list) action" where
  "scan_events L cfg s =
     (let w = snd s;
          scanned = res_bind (event_paths w) (\<lambda>names.
            res_bind (scan_loop L cfg w names None None 1 []) (\<lambda>(previous, last_encoded, expected_generation, events).
            res_bind (require (\<not> (previous = None \<and> sf_projection w \<noteq> None)) RuntimeError) (\<lambda>_.
            Inr (\<lparr>at_generation = expected_generation - 1, at_predecessor = previous, at_stamp = sf_stamp w, at_encoded = last_encoded\<rparr>, events)))) in
      case scanned of Inl e \<Rightarrow> (Inl e, (None, w)) | Inr (tail, events) \<Rightarrow> (Inr events, (Some tail, w)))"

definition store_events :: "hostlib \<Rightarrow> store_config \<Rightarrow> (store_state, noetrium_unit list) action" where
  "store_events L cfg = scan_events L cfg"

text \<open>\<^verbatim>\<open>_tail_unlocked\<close>: the last event of the scan, if there is one.\<close>

definition scan_tail :: "hostlib \<Rightarrow> store_config \<Rightarrow> (store_state, noetrium_unit option) action" where
  "scan_tail L cfg = act_bind (scan_events L cfg) (\<lambda>events. act_lift (Inr (if events = [] then None else Some (last events))))"

definition append_predecessor :: "hostlib \<Rightarrow> store_config \<Rightarrow> (store_state, int \<times> noetrium_unit option) action" where
  "append_predecessor L cfg s =
     (let rescan = act_bind (scan_tail L cfg) (\<lambda>t. case t of
            None \<Rightarrow> act_lift (Inr (0, None))
          | Some event \<Rightarrow> act_lift (case event_attribute event ''generation'' of
                Inr (JInt generation) \<Rightarrow> Inr (generation, Some event) | Inr _ \<Rightarrow> Inl TypeError | Inl e \<Rightarrow> Inl e)) in
      case fst s of
        None \<Rightarrow> rescan s
      | Some cached \<Rightarrow>
          if at_stamp cached \<noteq> sf_stamp (snd s) then rescan s
          else (case at_predecessor cached of
                  None \<Rightarrow> (Inr (at_generation cached, None), s)
                | Some predecessor \<Rightarrow>
                    if at_encoded cached \<noteq> None \<and>
                       map_of (sf_events (snd s)) (event_file_name (at_generation cached) (nu_digest predecessor)) = at_encoded cached
                    then (Inr (at_generation cached, Some predecessor), s)
                    else rescan s))"

section \<open>Reading\<close>

text \<open>\<^verbatim>\<open>str\<close> of a value that is not text is the parameter \<open>str_of\<close>.\<close>

definition py_str :: "(json \<Rightarrow> string) \<Rightarrow> json \<Rightarrow> string" where
  "py_str str_of v = (case v of JStr s \<Rightarrow> s | _ \<Rightarrow> str_of v)"

definition subject_payload :: "hostlib \<Rightarrow> (json \<Rightarrow> string) \<Rightarrow> store_config \<Rightarrow> noetrium_unit \<Rightarrow> string res" where
  "subject_payload L str_of cfg event =
     res_bind (event_subject event) (\<lambda>v.
     case v of
       RUnit subject \<Rightarrow>
         res_bind (has_schema subject ''lifecycle.state'') (\<lambda>has.
         res_bind (attribute_value subject ''state_schema'') (\<lambda>schema.
         res_bind (require (has \<and> schema = JStr (sc_state_schema cfg)) RuntimeError) (\<lambda>_.
         res_bind (attribute_value subject ''payload_b64'') (\<lambda>text.
         res_bind (b64decode (py_str str_of text)) (\<lambda>payload.
         res_bind (attribute_value subject ''payload_sha256'') (\<lambda>digest.
         res_bind (require (digest = JStr (sha256_hex L payload)) RuntimeError) (\<lambda>_. Inr payload)))))))
     | _ \<Rightarrow> Inl RuntimeError)"

definition store_exists :: "hostlib \<Rightarrow> store_config \<Rightarrow> (store_state, bool) action" where
  "store_exists L cfg = act_bind (scan_tail L cfg) (\<lambda>t. act_lift (Inr (t \<noteq> None)))"

definition write_projection :: "string \<Rightarrow> (store_state, unit) action" where
  "write_projection payload s = (Inr (), (fst s, (snd s)\<lparr>sf_projection := Some payload\<rparr>))"

definition store_read :: "hostlib \<Rightarrow> (json \<Rightarrow> string) \<Rightarrow> store_config \<Rightarrow> (store_state, string) action" where
  "store_read L str_of cfg = act_bind (scan_tail L cfg) (\<lambda>t. case t of
       None \<Rightarrow> act_lift (Inl FileNotFoundError)
     | Some event \<Rightarrow> act_bind (act_lift (subject_payload L str_of cfg event)) (\<lambda>payload s.
         if sf_projection (snd s) \<noteq> Some payload
         then act_bind (write_projection payload) (\<lambda>_. act_lift (Inr payload)) s
         else (Inr payload, s)))"

definition verify_projection_rebuild :: "hostlib \<Rightarrow> (json \<Rightarrow> string) \<Rightarrow> store_config \<Rightarrow> (store_state, string) action" where
  "verify_projection_rebuild L str_of cfg = act_bind (scan_tail L cfg) (\<lambda>t s. case t of
       None \<Rightarrow> (if sf_projection (snd s) \<noteq> None then Inl RuntimeError else Inr [], s)
     | Some event \<Rightarrow> act_bind (act_lift (subject_payload L str_of cfg event)) (\<lambda>expected s.
         (if sf_projection (snd s) \<noteq> Some expected then Inl RuntimeError else Inr expected, s)) s)"

section \<open>Appending\<close>

definition state_subject :: "hostlib \<Rightarrow> store_config \<Rightarrow> string \<Rightarrow> noetrium_unit res" where
  "state_subject L cfg raw =
     (let digest = sha256_hex L raw in
      mk_unit L (''lifecycle.state:'' @ digest) [''lifecycle.state'', sc_state_schema cfg]
        (Some (jobj [(''kind'', JStr ''lifecycle.state''), (''state_schema'', JStr (sc_state_schema cfg)),
           (''payload_b64'', JStr (b64encode raw)), (''payload_sha256'', JStr digest)])) [] (Some digest))"

definition state_event_spec ::
    "store_config \<Rightarrow> int \<Rightarrow> noetrium_unit \<Rightarrow> string list list \<Rightarrow> string \<Rightarrow> truth_modality \<Rightarrow> string \<Rightarrow> event_spec" where
  "state_event_spec cfg generation subject parents phase modality operation =
     \<lparr>ev_authority_domain = sc_authority_domain cfg, ev_generation = generation, ev_subject = RUnit subject, ev_operation = operation,
      ev_phase = phase, ev_modality = modality, ev_causal_parents = parents, ev_reads = [''state:'' @ sc_state_schema cfg],
      ev_writes = [''state:'' @ sc_state_schema cfg], ev_evidence = [], ev_kind = ''lifecycle.state-transition'',
      ev_physical_effect = False, ev_commutative = True, ev_attributes = []\<rparr>"

definition state_event ::
    "hostlib \<Rightarrow> store_config \<Rightarrow> string \<Rightarrow> string \<Rightarrow> truth_modality \<Rightarrow> string \<Rightarrow> int \<times> noetrium_unit option \<Rightarrow> noetrium_unit res" where
  "state_event L cfg raw phase modality operation predecessor =
     res_bind (state_subject L cfg raw) (\<lambda>subject.
     res_bind (case snd predecessor of None \<Rightarrow> Inr [] | Some p \<Rightarrow> res_bind (event_ref p) (\<lambda>r. Inr [r])) (\<lambda>parents.
     causal_event L (state_event_spec cfg (fst predecessor + 1) subject parents phase modality operation)))"

text \<open>The first write: the event is committed once its file is in place.\<close>

definition commit_event :: "int \<Rightarrow> noetrium_unit \<Rightarrow> (store_state, noetrium_unit) action" where
  "commit_event generation event s =
     (case encode_unit event of
        Inl e \<Rightarrow> (Inl e, s)
      | Inr encoded \<Rightarrow>
          (let name = event_file_name generation (nu_digest event); w = snd s;
               commit = (\<lambda>w'. (Inr event, (Some \<lparr>at_generation = generation, at_predecessor = Some event, at_stamp = sf_stamp w', at_encoded = Some encoded\<rparr>, w'))) in
           case map_of (sf_events w) name of
             Some stored \<Rightarrow> if stored \<noteq> encoded then (Inl RuntimeError, s) else commit w
           | None \<Rightarrow> commit (w\<lparr>sf_events := dict_set name encoded (sf_events w), sf_stamp := Suc (sf_stamp w)\<rparr>)))"

definition append_committed ::
    "hostlib \<Rightarrow> store_config \<Rightarrow> string \<Rightarrow> string \<Rightarrow> truth_modality \<Rightarrow> string \<Rightarrow> (store_state, noetrium_unit) action" where
  "append_committed L cfg raw phase modality operation =
     act_bind (append_predecessor L cfg) (\<lambda>predecessor.
     act_bind (act_lift (state_event L cfg raw phase modality operation predecessor)) (\<lambda>event.
     commit_event (fst predecessor + 1) event))"

definition store_append ::
    "hostlib \<Rightarrow> store_config \<Rightarrow> string \<Rightarrow> string \<Rightarrow> truth_modality \<Rightarrow> string \<Rightarrow> (store_state, noetrium_unit) action" where
  "store_append L cfg raw phase modality operation =
     act_bind (append_committed L cfg raw phase modality operation) (\<lambda>event.
     act_bind (write_projection raw) (\<lambda>_. act_lift (Inr event)))"

end
