(* ===== verification/EventStoreProofs.thy ===== *)
theory EventStoreProofs
  imports EventStore
begin

text \<open>
  The store as a log: the events in the directory are the committed transitions in order, whatever
  process committed them and wherever a process stopped; a scan finds exactly them.
\<close>

section \<open>File names\<close>

lemma dec_nat_length: "n < 10 ^ k \<Longrightarrow> 0 < k \<Longrightarrow> length (dec_nat n) \<le> k"
proof (induction k arbitrary: n)
  case (Suc k)
  show ?case
  proof (cases "n < 10")
    case True
    then show ?thesis by (subst dec_nat.simps) simp
  next
    case False
    then have "0 < k" using Suc.prems(1) by (cases k) auto
    moreover have "n div 10 < 10 ^ k" using Suc.prems(1) by (simp add: less_mult_imp_div_less mult.commute)
    ultimately show ?thesis using False Suc.IH [of "n div 10"] by (subst dec_nat.simps) simp
  qed
qed simp

lemma dec_value_zeros: "dec_value (replicate k CHR ''0'' @ s) = dec_value s"
proof -
  have "foldl (\<lambda>a c. 10 * a + hex_value c) 0 (replicate k CHR ''0'') = 0" by (induction k) (simp_all add: hex_value_def)
  then show ?thesis by (simp add: dec_value_def)
qed

lemma pad20_digits:
  assumes "n < 10 ^ 20"
  shows "length (pad20 (int n)) = 20" "list_all digit_char (pad20 (int n))" "dec_value (pad20 (int n)) = n"
proof -
  have dec: "dec_int (int n) = dec_nat n" by (simp add: dec_int_def)
  show "length (pad20 (int n)) = 20" using dec_nat_length [OF assms] by (simp add: pad20_def dec)
  show "list_all digit_char (pad20 (int n))" using dec_nat_digits by (auto simp: pad20_def dec list_all_iff digit_char_def)
  show "dec_value (pad20 (int n)) = n" by (simp add: pad20_def dec dec_value_zeros dec_value_dec_nat)
qed

lemma event_file_generation_name:
  assumes "n < 10 ^ 20" "is_sha256 d"
  shows "event_file_generation (event_file_name (int n) d) = Inr n"
proof -
  note P = pad20_digits [OF assms(1)]
  have "CHR ''-'' \<notin> set (pad20 (int n))" using P(2) by (auto simp: list_all_iff digit_char_def)
  then have "takeWhile (\<lambda>c. c \<noteq> CHR ''-'') (event_file_name (int n) d) = pad20 (int n)"
    unfolding event_file_name_def by (subst takeWhile_append2) auto
  moreover have "drop (Suc (length (pad20 (int n)))) (event_file_name (int n) d) = d @ ''.unit''" by (simp add: event_file_name_def)
  moreover have "removesuffix ''.unit'' (d @ ''.unit'') = d" by (simp add: removesuffix_def)
  moreover have "CHR ''-'' \<in> set (event_file_name (int n) d)" by (simp add: event_file_name_def)
  ultimately show ?thesis using P assms(2) by (simp add: event_file_generation_def Let_def) (simp add: event_file_name_def)
qed

lemma event_file_name_suffix: "ends_with ''.unit'' (event_file_name n d)"
  by (simp add: ends_with_def event_file_name_def)

lemma index_generations_eq:
  assumes "\<forall>n \<in> set names. event_file_generation n = Inr (g n) \<and> g n \<noteq> 0" "distinct (map g names)" "\<forall>n \<in> set names. map_of b (g n) = None"
  shows "index_generations b names = Inr (b @ map (\<lambda>n. (g n, n)) names)"
  using assms
proof (induction names arbitrary: b)
  case (Cons n names)
  have "\<forall>x \<in> set names. map_of (b @ [(g n, n)]) (g x) = None" using Cons.prems(2,3) by (auto simp: map_add_def rev_image_eqI)
  from Cons.IH [OF _ _ this] Cons.prems show ?case by simp
qed simp

section \<open>The log\<close>

definition event_holds ::
    "hostlib \<Rightarrow> (json \<Rightarrow> string) \<Rightarrow> store_config \<Rightarrow> nat \<Rightarrow> noetrium_unit option \<Rightarrow> noetrium_unit \<Rightarrow> string \<Rightarrow> bool" where
  "event_holds L str_of cfg n previous e raw =
     (unit_well L e \<and> inj_on nu_digest (set (subunits e)) \<and> is_sha256 (nu_digest e) \<and> require_event_unit e = Inr e \<and>
      event_attribute e ''generation'' = Inr (JInt (int n)) \<and> event_attribute e ''authority_domain'' = Inr (JStr (sc_authority_domain cfg)) \<and>
      check_chained previous e = Inr () \<and> subject_payload L str_of cfg e = Inr raw)"

definition before :: "noetrium_unit list \<Rightarrow> nat \<Rightarrow> noetrium_unit option" where
  "before es i = (if i = 0 then None else Some (es ! (i - 1)))"

definition log_holds_events :: "hostlib \<Rightarrow> (json \<Rightarrow> string) \<Rightarrow> store_config \<Rightarrow> noetrium_unit list \<Rightarrow> string list \<Rightarrow> bool" where
  "log_holds_events L str_of cfg es h =
     (length es = length h \<and> (\<forall>i < length es. event_holds L str_of cfg (Suc i) (before es i) (es ! i) (h ! i)))"

definition stored_name :: "noetrium_unit list \<Rightarrow> nat \<Rightarrow> string" where
  "stored_name es i = event_file_name (int (Suc i)) (nu_digest (es ! i))"

definition files_hold :: "store_files \<Rightarrow> noetrium_unit list \<Rightarrow> bool" where
  "files_hold w es = (dict_wf (sf_events w) \<and>
     (\<forall>name doc. map_of (sf_events w) name = Some doc \<longleftrightarrow> (\<exists>i < length es. name = stored_name es i \<and> encode_unit (es ! i) = Inr doc)))"

lemma event_encodes:
  assumes "event_holds L str_of cfg n previous e raw"
  shows "\<exists>doc. encode_unit e = Inr doc \<and> decode_unit L doc = Some (Inr e)"
  using assms codec_round_trip unfolding event_holds_def by blast

lemma event_holds_at: "log_holds_events L str_of cfg es h \<Longrightarrow> i < length es \<Longrightarrow> event_holds L str_of cfg (Suc i) (before es i) (es ! i) (h ! i)"
  by (simp add: log_holds_events_def)

lemma stored_name_generation:
  assumes "log_holds_events L str_of cfg es h" "i < length es" "length es < 10 ^ 20"
  shows "event_file_generation (stored_name es i) = Inr (Suc i)"
proof -
  have "Suc i < 10 ^ 20" "is_sha256 (nu_digest (es ! i))" using assms event_holds_at [OF assms(1,2)] by (simp_all add: event_holds_def)
  then show ?thesis unfolding stored_name_def by (rule event_file_generation_name)
qed

lemma files_names:
  assumes "files_hold w es" "log_holds_events L str_of cfg es h"
  shows "fst ` set (sf_events w) = stored_name es ` {..<length es}"
proof -
  have "name \<in> fst ` set (sf_events w) \<longleftrightarrow> (\<exists>doc. map_of (sf_events w) name = Some doc)" for name
    by (metis not_None_eq map_of_eq_None_iff)
  moreover have "(\<exists>doc. map_of (sf_events w) name = Some doc) \<longleftrightarrow> name \<in> stored_name es ` {..<length es}" for name
    using assms(1) event_encodes [OF event_holds_at [OF assms(2)]] unfolding files_hold_def by blast
  ultimately show ?thesis by blast
qed

lemma event_paths_exact:
  assumes files: "files_hold w es" and log: "log_holds_events L str_of cfg es h" and small: "length es < 10 ^ 20"
  shows "event_paths w = Inr (map (stored_name es) [0..<length es])"
proof -
  let ?n = "length es" and ?keys = "map fst (sf_events w)"
  note G = stored_name_generation [OF log _ small] and N = files_names [OF files log]
  have "dict_wf (sf_events w)" using files by (simp add: files_hold_def)
  then have keys: "set ?keys = stored_name es ` {..<?n}" "distinct ?keys" using N dict_wf_distinct by simp_all
  define g where "g = (\<lambda>name. projr (event_file_generation name))"
  have g: "g (stored_name es i) = Suc i" if "i < ?n" for i using G [OF that] by (simp add: g_def)
  have inj: "inj_on (stored_name es) {..<?n}" using g by (metis (no_types, lifting) inj_onI lessThan_iff nat.inject)
  have injg: "inj_on g (set ?keys)" unfolding keys(1) using g by (auto intro!: inj_onI)
  have all: "filter (ends_with ''.unit'') ?keys = ?keys"
    using keys(1) event_file_name_suffix by (auto simp: filter_id_conv stored_name_def)
  let ?by = "map (\<lambda>n. (g n, n)) ?keys"
  have "\<forall>n \<in> set ?keys. event_file_generation n = Inr (g n) \<and> g n \<noteq> 0" unfolding keys(1) using G g by auto
  moreover have dist: "distinct (map g ?keys)" using keys(2) injg by (subst distinct_map) blast
  ultimately have ind: "index_generations [] ?keys = Inr ?by" using index_generations_eq [of ?keys g "[]"] by simp
  have len: "length ?by = ?n" using keys inj by (metis card_image card_lessThan distinct_card length_map)
  have gens: "fst ` set ?by = {1..?n}"
  proof -
    have "fst ` set ?by = g ` set ?keys" by (simp add: image_image)
    also have "\<dots> = g ` stored_name es ` {..<?n}" unfolding keys(1) ..
    also have "\<dots> = Suc ` {..<?n}" unfolding image_image using g by (auto simp: image_iff)
    finally show ?thesis by (simp add: image_Suc_lessThan)
  qed
  have "Max {1..?n} = ?n" if "?n \<noteq> 0" by (rule Max_eqI) (use that in \<open>simp_all add: Suc_le_eq\<close>)
  then have max: "?by = [] \<or> Max (fst ` set ?by) = length ?by" unfolding gens len by (cases "?n = 0") (use len in auto)
  have get: "map_of ?by (Suc i) = Some (stored_name es i)" if "i < ?n" for i
  proof -
    have "map fst ?by = map g ?keys" by simp
    then have "distinct (map fst ?by)" using dist by (simp only:)
    moreover have "(Suc i, stored_name es i) \<in> set ?by" using keys(1) g [OF that] that by force
    ultimately show ?thesis by simp
  qed
  have "res_map (\<lambda>generation. case map_of ?by generation of None \<Rightarrow> Inl KeyError | Some name \<Rightarrow> Inr name) (map Suc [0..<?n]) =
      Inr (map (\<lambda>k. stored_name es (k - 1)) (map Suc [0..<?n]))"
  proof (rule res_map_all_Inr)
    fix k assume "k \<in> set (map Suc [0..<?n])"
    then have "k \<noteq> 0 \<and> k - 1 < ?n" by auto
    then obtain i where "k = Suc i" "i < ?n" by (metis Suc_pred' neq0_conv)
    then show "(case map_of ?by k of None \<Rightarrow> Inl KeyError | Some name \<Rightarrow> Inr name) = Inr (stored_name es (k - 1))"
      using get [of i] by (simp only: option.case diff_Suc_1)
  qed
  then show ?thesis using max unfolding event_paths_def all ind res_bind_Inr len by (simp add: map_Suc_upt [symmetric] comp_def del: upt_Suc)
qed

section \<open>Scanning\<close>

definition doc_of :: "noetrium_unit \<Rightarrow> json" where
  "doc_of e = projr (encode_unit e)"

definition last_of :: "noetrium_unit list \<Rightarrow> noetrium_unit option" where
  "last_of es = (if es = [] then None else Some (last es))"

definition exact_tail :: "store_files \<Rightarrow> noetrium_unit list \<Rightarrow> append_tail" where
  "exact_tail w es = \<lparr>at_generation = int (length es), at_predecessor = last_of es, at_stamp = sf_stamp w, at_encoded = map_option doc_of (last_of es)\<rparr>"

lemma load_event_exact:
  assumes "files_hold w es" "log_holds_events L str_of cfg es h" "i < length es"
  shows "load_event L w (stored_name es i) = Inr (doc_of (es ! i), es ! i, int (Suc i))"
proof -
  note E = event_holds_at [OF assms(2,3)]
  from event_encodes [OF E] obtain doc where doc: "encode_unit (es ! i) = Inr doc" "decode_unit L doc = Some (Inr (es ! i))" by blast
  have "map_of (sf_events w) (stored_name es i) = Some doc" using assms(1,3) doc(1) unfolding files_hold_def by blast
  then show ?thesis using doc E by (simp add: load_event_def event_holds_def doc_of_def) (simp add: stored_name_def)
qed

lemma scan_loop_exact:
  assumes "files_hold w es" "log_holds_events L str_of cfg es h" "k \<le> length es"
  shows "scan_loop L cfg w (map (stored_name es) [k..<length es]) (before es k) (map_option doc_of (before es k)) (int (Suc k)) (take k es) =
    Inr (last_of es, map_option doc_of (last_of es), int (Suc (length es)), es)"
  using assms(3)
proof (induction "length es - k" arbitrary: k)
  case 0
  then have "k = length es" by simp
  moreover have "before es (length es) = last_of es" by (simp add: before_def last_of_def last_conv_nth)
  ultimately show ?case by simp
next
  case (Suc m)
  then have k: "k < length es" by simp
  then have split: "[k..<length es] = k # [Suc k..<length es]" by (simp add: upt_conv_Cons)
  note E = event_holds_at [OF assms(2) k, unfolded event_holds_def]
  have "before es (Suc k) = Some (es ! k)" by (simp add: before_def)
  moreover have "take (Suc k) es = take k es @ [es ! k]" using k by (rule take_Suc_conv_app_nth)
  moreover have "int (Suc k) + 1 = int (Suc (Suc k))" by simp
  ultimately show ?case
    using Suc.hyps(1) [of "Suc k"] Suc.hyps(2) k E by (simp add: split load_event_exact [OF assms(1,2) k])
qed

lemma scan_events_exact:
  assumes "files_hold w es" "log_holds_events L str_of cfg es h" "length es < 10 ^ 20" "es = [] \<longrightarrow> sf_projection w = None"
  shows "scan_events L cfg (t, w) = (Inr es, (Some (exact_tail w es), w))"
proof -
  have loop: "scan_loop L cfg w (map (stored_name es) [0..<length es]) None None 1 [] =
      Inr (last_of es, map_option doc_of (last_of es), int (Suc (length es)), es)"
    using scan_loop_exact [OF assms(1,2), of 0] by (simp add: before_def)
  have "\<not> (last_of es = None \<and> sf_projection w \<noteq> None)" using assms(4) by (simp add: last_of_def)
  then show ?thesis
    unfolding scan_events_def Let_def snd_conv event_paths_exact [OF assms(1-3)] res_bind_Inr loop by (simp add: exact_tail_def require_def)
qed

lemma scan_tail_exact:
  assumes "files_hold w es" "log_holds_events L str_of cfg es h" "length es < 10 ^ 20" "es = [] \<longrightarrow> sf_projection w = None"
  shows "scan_tail L cfg (t, w) = (Inr (last_of es), (Some (exact_tail w es), w))"
  unfolding scan_tail_def act_bind_def scan_events_exact [OF assms] by (simp add: act_lift_def last_of_def)

text \<open>A cached tail is exact as long as the directory did not change.\<close>

definition tail_holds :: "append_tail option \<Rightarrow> store_files \<Rightarrow> noetrium_unit list \<Rightarrow> bool" where
  "tail_holds t w es = (case t of None \<Rightarrow> True | Some c \<Rightarrow> at_stamp c \<le> sf_stamp w \<and> (at_stamp c = sf_stamp w \<longrightarrow> c = exact_tail w es))"

lemma tail_holds_exact: "tail_holds (Some (exact_tail w es)) w es"
  by (simp add: tail_holds_def exact_tail_def)

lemma last_generation:
  assumes "log_holds_events L str_of cfg es h" "es \<noteq> []"
  shows "event_attribute (last es) ''generation'' = Inr (JInt (int (length es)))"
  using event_holds_at [OF assms(1), of "length es - 1"] assms(2) by (simp add: event_holds_def last_conv_nth)

lemma append_predecessor_exact:
  assumes "files_hold w es" "log_holds_events L str_of cfg es h" "length es < 10 ^ 20" "es = [] \<longrightarrow> sf_projection w = None" "tail_holds t w es"
  shows "\<exists>t'. append_predecessor L cfg (t, w) = (Inr (int (length es), last_of es), (t', w)) \<and> tail_holds t' w es"
proof -
  have rescan: "act_bind (scan_tail L cfg) (\<lambda>t. case t of None \<Rightarrow> act_lift (Inr (0, None))
          | Some event \<Rightarrow> act_lift (case event_attribute event ''generation'' of
                Inr (JInt generation) \<Rightarrow> Inr (generation, Some event) | Inr _ \<Rightarrow> Inl TypeError | Inl e \<Rightarrow> Inl e)) (t, w) =
      (Inr (int (length es), last_of es), (Some (exact_tail w es), w))"
    unfolding act_bind_def scan_tail_exact [OF assms(1-4)] using last_generation [OF assms(2)]
    by (cases "es = []") (simp_all add: act_lift_def last_of_def)
  show ?thesis
  proof (cases t)
    case None
    then show ?thesis using rescan tail_holds_exact by (auto simp: append_predecessor_def)
  next
    case (Some c)
    show ?thesis
    proof (cases "at_stamp c = sf_stamp w")
      case False
      then show ?thesis using rescan Some tail_holds_exact by (auto simp: append_predecessor_def)
    next
      case True
      then have c: "c = exact_tail w es" using assms(5) Some by (simp add: tail_holds_def)
      have "append_predecessor L cfg (t, w) = (Inr (int (length es), last_of es), (Some (exact_tail w es), w))"
      proof (cases "at_predecessor c")
        case None
        then show ?thesis by (simp add: append_predecessor_def Some c True [unfolded c]) (simp add: exact_tail_def)
      next
        case (Some e)
        then show ?thesis using rescan by (simp add: append_predecessor_def \<open>t = Some c\<close> c True [unfolded c]) (simp add: exact_tail_def)
      qed
      then show ?thesis using tail_holds_exact by blast
    qed
  qed
qed

section \<open>Appending\<close>

lemma subject_tokens [simp]:
  "unit_token ''lifecycle.state'' = Inr ''lifecycle.state''" "unit_token ''state_schema'' = Inr ''state_schema''"
  "unit_token ''payload_b64'' = Inr ''payload_b64''" "unit_token ''payload_sha256'' = Inr ''payload_sha256''"
  by (simp_all add: unit_token_def canonical_token_valid_def token_head_def token_char_def)

lemma state_subject_fields:
  assumes "state_subject L cfg raw = Inr subject"
  shows "unit_well L subject" "children subject = []" "has_schema subject ''lifecycle.state'' = Inr True"
    "attribute_value subject ''state_schema'' = Inr (JStr (sc_state_schema cfg))"
    "attribute_value subject ''payload_b64'' = Inr (JStr (b64encode raw))"
    "attribute_value subject ''payload_sha256'' = Inr (JStr (sha256_hex L raw))"
proof -
  have R: "refs_valid []" by (simp add: refs_valid_def)
  note S = mk_unit_checked [OF assms [unfolded state_subject_def Let_def jobj_def] R]
  have attrs: "unit_attributes subject = dict_of [(''kind'', JStr ''lifecycle.state''), (''state_schema'', JStr (sc_state_schema cfg)),
       (''payload_b64'', JStr (b64encode raw)), (''payload_sha256'', JStr (sha256_hex L raw))]" by (rule S(6)) simp
  show kids: "children subject = []" by (simp add: S(4) role_children_def)
  then show "unit_well L subject" using S(1) by (simp add: unit_well.simps [of L subject])
  show "has_schema subject ''lifecycle.state'' = Inr True" by (simp add: has_schema_def S(3))
  show "attribute_value subject ''state_schema'' = Inr (JStr (sc_state_schema cfg))"
    "attribute_value subject ''payload_b64'' = Inr (JStr (b64encode raw))"
    "attribute_value subject ''payload_sha256'' = Inr (JStr (sha256_hex L raw))"
    by (simp_all add: attribute_value_def unit_attribute_def attrs map_of_jobj)
qed

lemma event_parents_refs: "event_parents e = Inr refs \<Longrightarrow> unit_refs e ''causal-parent'' = Inr refs"
  by (auto simp: event_parents_def event_field_def res_simps)

lemma state_event_holds:
  assumes sha: "\<forall>x. is_sha256 (sha256_hex L x)" and mk: "state_event L cfg raw phase modality operation (int n, previous) = Inr e"
    and inj: "inj_on nu_digest (set (subunits e))"
  shows "event_holds L str_of cfg (Suc n) previous e raw"
proof -
  from mk obtain subject parents where run: "state_subject L cfg raw = Inr subject"
    "(case previous of None \<Rightarrow> Inr [] | Some p \<Rightarrow> res_bind (event_ref p) (\<lambda>r. Inr [r])) = Inr parents"
    "causal_event L (state_event_spec cfg (int n + 1) subject parents phase modality operation) = Inr e"
    by (auto simp: state_event_def res_bind_eq_Inr)
  note S = state_subject_fields [OF run(1)]
  let ?s = "state_event_spec cfg (int n + 1) subject parents phase modality operation"
  have refs: "list_all ref_valid (ev_subject ?s # ev_evidence ?s)" by (simp add: state_event_spec_def ref_valid_def)
  note E = causal_event_fields [OF run(3) refs]
  have kids: "set (children e) \<subseteq> {subject}"
    unfolding E(9) by (auto simp: role_children_mem event_roles_def state_event_spec_def)
  then have well: "unit_well L e" using E(7) S(1) by (auto simp: unit_well.simps [of L e])
  have digest: "is_sha256 (nu_digest e)" using unit_cutD(8) [OF E(7)] sha by simp
  have "check_chained previous e = Inr ()"
    using run(2) event_parents_refs [OF E(2)] by (auto simp: check_chained_def state_event_spec_def res_simps split: option.splits)
  moreover have "event_subject e = Inr (RUnit subject)" using E(3) by (simp add: state_event_spec_def)
  then have "subject_payload L str_of cfg e = Inr raw"
    by (simp add: subject_payload_def S py_str_def b64_round_trip)
  ultimately show ?thesis
    using E(1,4,5) well digest inj by (simp add: event_holds_def state_event_spec_def add.commute)
qed

lemma log_extends:
  assumes "log_holds_events L str_of cfg es h" "event_holds L str_of cfg (Suc (length es)) (last_of es) e raw"
  shows "log_holds_events L str_of cfg (es @ [e]) (h @ [raw])"
proof -
  have "event_holds L str_of cfg (Suc i) (before (es @ [e]) i) ((es @ [e]) ! i) ((h @ [raw]) ! i)" if "i < Suc (length es)" for i
  proof (cases "i = length es")
    case True
    moreover have "before (es @ [e]) (length es) = last_of es" by (auto simp: before_def last_of_def last_conv_nth nth_append)
    ultimately show ?thesis using assms by (simp add: nth_append log_holds_events_def)
  next
    case False
    then have "i < length es" using that by simp
    moreover have "before (es @ [e]) i = before es i" using calculation by (auto simp: before_def nth_append)
    ultimately show ?thesis using event_holds_at [OF assms(1)] assms(1) by (simp add: nth_append log_holds_events_def)
  qed
  then show ?thesis using assms(1) by (simp add: log_holds_events_def)
qed

lemma stored_name_append: "i < length es \<Longrightarrow> stored_name (es @ [e]) i = stored_name es i"
  by (simp add: stored_name_def nth_append)

lemma commit_event_extends:
  assumes files: "files_hold w es" and log: "log_holds_events L str_of cfg es h" and e: "event_holds L str_of cfg (Suc (length es)) (last_of es) e raw"
    and small: "Suc (length es) < 10 ^ 20"
  shows "\<exists>t' w'. commit_event (int (length es) + 1) e (t, w) = (Inr e, (t', w')) \<and> files_hold w' (es @ [e]) \<and> sf_stamp w' = Suc (sf_stamp w) \<and>
    sf_projection w' = sf_projection w \<and> t' = Some (exact_tail w' (es @ [e]))"
proof -
  let ?name = "event_file_name (int (length es) + 1) (nu_digest e)"
  obtain doc where doc: "encode_unit e = Inr doc" using event_encodes [OF e] by blast
  have new: "event_file_generation ?name = Inr (Suc (length es))"
    using event_file_generation_name [of "Suc (length es)" "nu_digest e"] e small by (simp add: event_holds_def add.commute)
  have "?name \<noteq> stored_name es i" if "i < length es" for i
    using stored_name_generation [OF log that] small new that by auto
  then have none: "map_of (sf_events w) ?name = None"
    using files unfolding files_hold_def by (cases "map_of (sf_events w) ?name") blast+
  let ?w = "w\<lparr>sf_events := dict_set ?name doc (sf_events w), sf_stamp := Suc (sf_stamp w)\<rparr>"
  have name: "stored_name (es @ [e]) (length es) = ?name" by (simp add: stored_name_def add.commute)
  have "map_of (sf_events ?w) x = Some d \<longleftrightarrow> (\<exists>i < length (es @ [e]). x = stored_name (es @ [e]) i \<and> encode_unit ((es @ [e]) ! i) = Inr d)" for x d
  proof -
    have "(\<exists>i < length (es @ [e]). x = stored_name (es @ [e]) i \<and> encode_unit ((es @ [e]) ! i) = Inr d) \<longleftrightarrow>
        (\<exists>i < length es. x = stored_name es i \<and> encode_unit (es ! i) = Inr d) \<or> x = ?name \<and> d = doc"
    proof -
      have "(\<exists>i < length es. x = stored_name (es @ [e]) i \<and> encode_unit ((es @ [e]) ! i) = Inr d) \<longleftrightarrow>
          (\<exists>i < length es. x = stored_name es i \<and> encode_unit (es ! i) = Inr d)"
        by (rule ex_cong1) (auto simp: stored_name_append nth_append)
      then show ?thesis unfolding length_append_singleton Ex_less_Suc name nth_append_length doc by auto
    qed
    moreover have "map_of (sf_events w) x = Some d \<longleftrightarrow> (\<exists>i < length es. x = stored_name es i \<and> encode_unit (es ! i) = Inr d)"
      using files unfolding files_hold_def by blast
    ultimately show ?thesis using none by auto
  qed
  then have "files_hold ?w (es @ [e])" using files by (simp add: files_hold_def dict_simps)
  moreover have "commit_event (int (length es) + 1) e (t, w) = (Inr e, (Some (exact_tail ?w (es @ [e])), ?w))"
    by (simp add: commit_event_def doc none exact_tail_def last_of_def doc_of_def)
  ultimately show ?thesis by (intro exI) (auto)
qed

section \<open>Runs of the store\<close>

text \<open>
  Any number of processes use the store, one call at a time.  A state is the payloads committed so far,
  the append cache of every process and the files.  A process may stop between the two writes of an append or
  between calls; once a transition is committed the projection file may be lost or overwritten.  A run
  takes no append whose event and subject collide on their digest.
\<close>

type_synonym store_run = "string list \<times> (nat \<Rightarrow> append_tail option) \<times> store_files"

inductive store_step :: "hostlib \<Rightarrow> (json \<Rightarrow> string) \<Rightarrow> store_config \<Rightarrow> store_run \<Rightarrow> store_run \<Rightarrow> bool"
  for L :: hostlib and str_of :: "json \<Rightarrow> string" and cfg :: store_config where
  appended: "store_append L cfg raw phase modality operation (ts p, w) = (Inr e, (t, w')) \<Longrightarrow> inj_on nu_digest (set (subunits e)) \<Longrightarrow>
    store_step L str_of cfg (h, ts, w) (h @ [raw], ts(p := t), w')"
| interrupted: "append_committed L cfg raw phase modality operation (ts p, w) = (Inr e, (t, w')) \<Longrightarrow> inj_on nu_digest (set (subunits e)) \<Longrightarrow>
    store_step L str_of cfg (h, ts, w) (h @ [raw], ts(p := None), w')"
| refused: "store_append L cfg raw phase modality operation (ts p, w) = (Inl err, (t, w')) \<Longrightarrow>
    store_step L str_of cfg (h, ts, w) (h, ts(p := t), w')"
| observed: "store_read L str_of cfg (ts p, w) = (r, (t, w')) \<Longrightarrow> store_step L str_of cfg (h, ts, w) (h, ts(p := t), w')"
| listed: "store_events L cfg (ts p, w) = (es, (t, w')) \<Longrightarrow> store_step L str_of cfg (h, ts, w) (h, ts(p := t), w')"
| verified: "verify_projection_rebuild L str_of cfg (ts p, w) = (r, (t, w')) \<Longrightarrow> store_step L str_of cfg (h, ts, w) (h, ts(p := t), w')"
| restarted: "store_step L str_of cfg (h, ts, w) (h, ts(p := None), w)"
| projection_damaged: "h \<noteq> [] \<Longrightarrow> store_step L str_of cfg (h, ts, w) (h, ts, w\<lparr>sf_projection := x\<rparr>)"

definition empty_files :: store_files where
  "empty_files = \<lparr>sf_events = [], sf_stamp = 0, sf_projection = None\<rparr>"

abbreviation store_reachable :: "hostlib \<Rightarrow> (json \<Rightarrow> string) \<Rightarrow> store_config \<Rightarrow> store_run \<Rightarrow> bool" where
  "store_reachable L str_of cfg \<equiv> (store_step L str_of cfg)\<^sup>*\<^sup>* ([], \<lambda>_. None, empty_files)"

definition store_inv :: "hostlib \<Rightarrow> (json \<Rightarrow> string) \<Rightarrow> store_config \<Rightarrow> store_run \<Rightarrow> noetrium_unit list \<Rightarrow> bool" where
  "store_inv L str_of cfg s es = (case s of (h, ts, w) \<Rightarrow>
     files_hold w es \<and> log_holds_events L str_of cfg es h \<and> (h = [] \<longrightarrow> sf_projection w = None) \<and> (\<forall>p. tail_holds (ts p) w es))"

lemma store_invD:
  assumes "store_inv L str_of cfg (h, ts, w) es"
  shows "files_hold w es" "log_holds_events L str_of cfg es h" "es = [] \<longrightarrow> sf_projection w = None" "tail_holds (ts p) w es" "length es = length h"
  using assms by (auto simp: store_inv_def log_holds_events_def)

text \<open>Changing the projection or one cache keeps the invariant.\<close>

lemma store_inv_local:
  assumes "store_inv L str_of cfg (h, ts, w) es" "tail_holds t w es" "h = [] \<longrightarrow> x = None"
  shows "store_inv L str_of cfg (h, ts(p := t), w\<lparr>sf_projection := x\<rparr>) es"
  using assms by (auto simp: store_inv_def files_hold_def tail_holds_def exact_tail_def split: option.splits)

lemma scanned_projection:
  assumes "store_inv L str_of cfg (h, ts, w) es" "tail_holds t w es"
  shows "store_inv L str_of cfg (h, ts(p := t), w) es"
  using store_inv_local [OF assms, of "sf_projection w"] assms(1) by (simp add: store_inv_def)

lemma store_inv_extends:
  assumes inv: "store_inv L str_of cfg (h, ts, w) es" and "files_hold w' (es @ [e])" "sf_stamp w' = Suc (sf_stamp w)"
    "event_holds L str_of cfg (Suc (length es)) (last_of es) e raw" "t = None \<or> t = Some (exact_tail w' (es @ [e]))"
  shows "store_inv L str_of cfg (h @ [raw], ts(p := t), w'\<lparr>sf_projection := x\<rparr>) (es @ [e])"
proof -
  have "log_holds_events L str_of cfg (es @ [e]) (h @ [raw])" by (rule log_extends [OF store_invD(2) [OF inv] assms(4)])
  moreover have "files_hold (w'\<lparr>sf_projection := x\<rparr>) (es @ [e])" using assms(2) by (simp add: files_hold_def)
  moreover have "tail_holds (ts q) (w'\<lparr>sf_projection := x\<rparr>) (es @ [e])" for q
    using store_invD(4) [OF inv, of q] assms(3) by (auto simp: tail_holds_def split: option.splits)
  moreover have "tail_holds t (w'\<lparr>sf_projection := x\<rparr>) (es @ [e])"
    using assms(5) by (auto simp: tail_holds_def exact_tail_def)
  ultimately show ?thesis by (simp add: store_inv_def)
qed

lemma append_committed_cases:
  assumes sha: "\<forall>x. is_sha256 (sha256_hex L x)" and inv: "store_inv L str_of cfg (h, ts, w) es" and small: "length h < 10 ^ 20"
    and run: "append_committed L cfg raw phase modality operation (ts p, w) = (r, (t, w'))"
  shows "(\<exists>err. r = Inl err \<and> w' = w \<and> tail_holds t w es) \<or>
    (\<exists>e. r = Inr e \<and> (inj_on nu_digest (set (subunits e)) \<longrightarrow> Suc (length h) < 10 ^ 20 \<longrightarrow>
       event_holds L str_of cfg (Suc (length es)) (last_of es) e raw \<and> files_hold w' (es @ [e]) \<and> sf_stamp w' = Suc (sf_stamp w) \<and>
       sf_projection w' = sf_projection w \<and> t = Some (exact_tail w' (es @ [e]))))"
proof -
  note I = store_invD [OF inv]
  obtain t1 where pre: "append_predecessor L cfg (ts p, w) = (Inr (int (length es), last_of es), (t1, w))" "tail_holds t1 w es"
    using append_predecessor_exact [OF I(1,2) _ I(3) I(4)] small I(5) by fastforce
  show ?thesis
  proof (cases "state_event L cfg raw phase modality operation (int (length es), last_of es)")
    case (Inl err)
    then have "r = Inl err \<and> t = t1 \<and> w' = w" using run pre(1) by (auto simp: append_committed_def act_bind_def act_lift_def)
    then show ?thesis using pre(2) by blast
  next
    case (Inr e)
    have commit: "commit_event (int (length es) + 1) e (t1, w) = (r, (t, w'))"
      using run pre(1) Inr by (simp add: append_committed_def act_bind_def act_lift_def)
    show ?thesis
    proof (cases r)
      case (Inl err)
      then show ?thesis using commit pre(2) by (auto simp: commit_event_def Let_def split: sum.splits option.splits if_splits)
    next
      case r: (Inr e')
      then have "e' = e" using commit by (auto simp: commit_event_def Let_def split: sum.splits option.splits if_splits)
      moreover have "event_holds L str_of cfg (Suc (length es)) (last_of es) e raw \<and> files_hold w' (es @ [e]) \<and> sf_stamp w' = Suc (sf_stamp w) \<and>
          sf_projection w' = sf_projection w \<and> t = Some (exact_tail w' (es @ [e]))" if inj: "inj_on nu_digest (set (subunits e))" and room: "Suc (length h) < 10 ^ 20"
      proof -
        have e: "event_holds L str_of cfg (Suc (length es)) (last_of es) e raw" by (rule state_event_holds [OF sha Inr inj])
        from commit_event_extends [OF I(1,2) e, of t1] room I(5) commit e show ?thesis by fastforce
      qed
      ultimately show ?thesis using r by blast
    qed
  qed
qed

lemma store_append_cases:
  assumes "\<forall>x. is_sha256 (sha256_hex L x)" "store_inv L str_of cfg (h, ts, w) es" "length h < 10 ^ 20"
    and run: "store_append L cfg raw phase modality operation (ts p, w) = (r, (t, w'))"
  shows "(\<exists>err. r = Inl err \<and> w' = w \<and> tail_holds t w es) \<or>
    (\<exists>e w1. r = Inr e \<and> append_committed L cfg raw phase modality operation (ts p, w) = (Inr e, (t, w1)) \<and> w' = w1\<lparr>sf_projection := Some raw\<rparr>)"
proof -
  obtain r1 t1 w1 where c: "append_committed L cfg raw phase modality operation (ts p, w) = (r1, (t1, w1))"
    by (cases "append_committed L cfg raw phase modality operation (ts p, w)") auto
  then show ?thesis
    using run append_committed_cases [OF assms(1-3) c] by (cases r1) (auto simp: store_append_def act_bind_def write_projection_def act_lift_def)
qed

lemma scan_keeps:
  assumes "store_inv L str_of cfg (h, ts, w) es" "length h < 10 ^ 20"
  shows "scan_events L cfg (ts p, w) = (Inr es, (Some (exact_tail w es), w))" "scan_tail L cfg (ts p, w) = (Inr (last_of es), (Some (exact_tail w es), w))"
  using scan_events_exact [OF store_invD(1,2) [OF assms(1)] _ store_invD(3) [OF assms(1)]]
    scan_tail_exact [OF store_invD(1,2) [OF assms(1)] _ store_invD(3) [OF assms(1)]] assms(2) store_invD(5) [OF assms(1)] by simp_all

lemma last_payload:
  assumes "log_holds_events L str_of cfg es h" "h \<noteq> []"
  shows "last_of es = Some (last es) \<and> subject_payload L str_of cfg (last es) = Inr (last h)"
proof -
  have "length es = length h" using assms(1) by (simp add: log_holds_events_def)
  then show ?thesis using event_holds_at [OF assms(1), of "length es - 1"] assms(2)
    by (cases "es = []") (simp_all add: event_holds_def last_of_def last_conv_nth)
qed

lemma store_read_exact:
  assumes "store_inv L str_of cfg (h, ts, w) es" "length h < 10 ^ 20"
  shows "store_read L str_of cfg (ts p, w) =
    (if h = [] then (Inl FileNotFoundError, (Some (exact_tail w es), w))
     else (Inr (last h), (Some (exact_tail w es), w\<lparr>sf_projection := Some (last h)\<rparr>)))"
proof (cases "h = []")
  case True
  then have "last_of es = None" using store_invD(5) [OF assms(1)] by (simp add: last_of_def)
  then show ?thesis using True by (simp add: store_read_def act_bind_def scan_keeps [OF assms] act_lift_def)
next
  case False
  then show ?thesis using last_payload [OF store_invD(2) [OF assms(1)] False]
    by (auto simp: store_read_def act_bind_def scan_keeps [OF assms] act_lift_def write_projection_def)
qed

lemma verify_exact:
  assumes "store_inv L str_of cfg (h, ts, w) es" "length h < 10 ^ 20"
  shows "verify_projection_rebuild L str_of cfg (ts p, w) =
    (if h = [] then Inr [] else if sf_projection w = Some (last h) then Inr (last h) else Inl RuntimeError, (Some (exact_tail w es), w))"
proof (cases "h = []")
  case True
  then have "last_of es = None" "sf_projection w = None" using store_invD(3,5) [OF assms(1)] by (simp_all add: last_of_def)
  then show ?thesis using True by (simp add: verify_projection_rebuild_def act_bind_def scan_keeps [OF assms])
next
  case False
  then show ?thesis using last_payload [OF store_invD(2) [OF assms(1)] False]
    by (auto simp: verify_projection_rebuild_def act_bind_def scan_keeps [OF assms] act_lift_def)
qed

lemma store_step_keeps:
  assumes sha: "\<forall>x. is_sha256 (sha256_hex L x)" and step: "store_step L str_of cfg s s'" and inv: "store_inv L str_of cfg s es"
    and small: "length (fst s') < 10 ^ 20"
  shows "\<exists>es'. store_inv L str_of cfg s' es' \<and> (\<exists>new. es' = es @ new)"
  using step inv small
proof cases
  case (appended raw phase modality operation ts p w e t w' h)
  note inv = inv [unfolded appended(1)]
  have room: "Suc (length h) < 10 ^ 20" and n: "length h < 10 ^ 20" using small by (simp_all add: appended(2))
  obtain w1 where c: "append_committed L cfg raw phase modality operation (ts p, w) = (Inr e, (t, w1))" "w' = w1\<lparr>sf_projection := Some raw\<rparr>"
    using store_append_cases [OF sha inv n appended(3)] by auto
  from append_committed_cases [OF sha inv n c(1)] appended(4) room have "event_holds L str_of cfg (Suc (length es)) (last_of es) e raw"
    "files_hold w1 (es @ [e])" "sf_stamp w1 = Suc (sf_stamp w)" "t = Some (exact_tail w1 (es @ [e]))" by auto
  from store_inv_extends [OF inv this(2,3,1)] this(4) show ?thesis unfolding appended(2) c(2) by blast
next
  case (interrupted raw phase modality operation ts p w e t w' h)
  note inv = inv [unfolded interrupted(1)]
  have room: "Suc (length h) < 10 ^ 20" and n: "length h < 10 ^ 20" using small by (simp_all add: interrupted(2))
  from append_committed_cases [OF sha inv n interrupted(3)] interrupted(4) room have "event_holds L str_of cfg (Suc (length es)) (last_of es) e raw"
    "files_hold w' (es @ [e])" "sf_stamp w' = Suc (sf_stamp w)" by auto
  from store_inv_extends [OF inv this(2,3,1), of None p "sf_projection w'"] show ?thesis unfolding interrupted(2) by auto
next
  case (refused raw phase modality operation ts p w err t w' h)
  note inv = inv [unfolded refused(1)]
  have n: "length h < 10 ^ 20" using small by (simp add: refused(2))
  from store_append_cases [OF sha inv n refused(3)] have "w' = w" "tail_holds t w es" by auto
  then show ?thesis using scanned_projection [OF inv] unfolding refused(2) by auto
next
  case (observed ts p w r t w' h)
  note inv = inv [unfolded observed(1)]
  have n: "length h < 10 ^ 20" using small by (simp add: observed(2))
  have run: "t = Some (exact_tail w es)" "w' = (if h = [] then w else w\<lparr>sf_projection := Some (last h)\<rparr>)"
    using observed(3) store_read_exact [OF inv n, of p] by (auto split: if_splits)
  then show ?thesis using store_inv_local [OF inv tail_holds_exact, of "Some (last h)" p] scanned_projection [OF inv tail_holds_exact, of p]
    unfolding observed(2) by (auto split: if_splits)
next
  case (listed ts p w xs t w' h)
  note inv = inv [unfolded listed(1)]
  have n: "length h < 10 ^ 20" using small by (simp add: listed(2))
  show ?thesis using listed(3) scan_keeps(1) [OF inv n, of p] scanned_projection [OF inv tail_holds_exact, of p]
    unfolding listed(2) store_events_def by auto
next
  case (verified ts p w r t w' h)
  note inv = inv [unfolded verified(1)]
  have n: "length h < 10 ^ 20" using small by (simp add: verified(2))
  show ?thesis using verified(3) verify_exact [OF inv n, of p] scanned_projection [OF inv tail_holds_exact, of p]
    unfolding verified(2) by auto
next
  case (restarted h ts w p)
  then show ?thesis using scanned_projection [of L str_of cfg h ts w es None p] inv by (auto simp: tail_holds_def)
next
  case (projection_damaged h ts w x)
  then show ?thesis using store_inv_local [of L str_of cfg h ts w es "ts 0" x 0] inv store_invD(4) [of L str_of cfg h ts w es 0] by auto
qed

lemma step_history: "store_step L str_of cfg s s' \<Longrightarrow> length (fst s) \<le> length (fst s')"
  by (erule store_step.cases) auto

lemma store_reachable_inv:
  assumes sha: "\<forall>x. is_sha256 (sha256_hex L x)"
  shows "store_reachable L str_of cfg s \<Longrightarrow> length (fst s) < 10 ^ 20 \<Longrightarrow> \<exists>es. store_inv L str_of cfg s es"
proof (induction rule: rtranclp_induct)
  case base
  have "store_inv L str_of cfg ([], \<lambda>_. None, empty_files) []"
    by (simp add: store_inv_def files_hold_def log_holds_events_def tail_holds_def empty_files_def)
  then show ?case by blast
next
  case (step s s')
  then have "length (fst s) < 10 ^ 20" using step_history [OF step(2)] by linarith
  then obtain es where "store_inv L str_of cfg s es" using step.IH by blast
  from store_step_keeps [OF sha step(2) this step.prems] show ?case by blast
qed

section \<open>An append succeeds\<close>

lemma mk_unit_succeeds:
  assumes "canonical_token_valid uid" "list_all canonical_token_valid sch" "distinct sch" "frozen_json_required_depth (JObj kvs) \<le> 63"
    and "distinct (map fst roles)" "list_all (\<lambda>r. canonical_token_valid (fst r) \<and> list_all (\<lambda>v. \<forall>j. v \<noteq> RAtom j) (snd r)) roles"
    and "case proj of None \<Rightarrow> True | Some p \<Rightarrow> is_sha256 p"
  shows "\<exists>u. mk_unit L uid sch (Some (JObj kvs)) roles proj = Inr u"
proof -
  have roles: "list_all (\<lambda>r. canonical_token_valid (fst r) \<and> list_all freezable (snd r)) roles" "\<forall>r \<in> set (sort_key fst roles). list_all role_depth_ok (snd r)"
    using assms(6) by (auto simp: list_all_iff freezable_def role_depth_ok_def split: role_value.splits)
  have "unit_object (Some (JObj kvs)) = Inr kvs" using assms(4) by (simp add: unit_object_def freeze_json_eq default_max_depth_def del: frozen_json_required_depth.simps)
  moreover have "normalize_roles [] roles = Inr roles" using roles(1) assms(5) by (simp add: normalize_roles_eq)
  moreover have "\<exists>d. unit_structural_digest L (sort sch) kvs (sort_key fst roles) = Inr d"
    using roles(2) assms(4) by (simp add: structural_digest_eq del: frozen_json_required_depth.simps)
  moreover have "require_projection proj = Inr proj" using assms(7) by (simp add: require_projection_eq)
  ultimately show ?thesis using assms(1-3) by (auto simp: mk_unit_def Let_def unit_token_def unit_token_map)
qed

definition config_ok :: "store_config \<Rightarrow> bool" where
  "config_ok cfg = (canonical_token_valid (sc_state_schema cfg) \<and> sc_state_schema cfg \<noteq> ''lifecycle.state'' \<and>
     canonical_token_valid (sc_authority_domain cfg))"

lemma valid_token_append: "canonical_token_valid s \<Longrightarrow> list_all token_char t \<Longrightarrow> canonical_token_valid (s @ t)"
  by (cases s) (auto simp: canonical_token_valid_def)

lemma sha_token_chars: "is_sha256 d \<Longrightarrow> list_all token_char d"
  using hex_token by (auto simp: is_sha256_def list_all_iff)

lemma state_subject_succeeds:
  assumes "\<forall>x. is_sha256 (sha256_hex L x)" "config_ok cfg"
  shows "\<exists>subject. state_subject L cfg raw = Inr subject"
proof -
  have "canonical_token_valid (''lifecycle.state:'' @ sha256_hex L raw)"
    by (rule valid_token_append) (use assms(1) sha_token_chars in \<open>simp_all add: canonical_token_valid_def token_head_def token_char_def\<close>)
  moreover have "canonical_token_valid ''lifecycle.state''" by (simp add: canonical_token_valid_def token_head_def token_char_def)
  moreover have "nesting (JObj (dict_of [(''kind'', JStr ''lifecycle.state''), (''state_schema'', JStr (sc_state_schema cfg)),
           (''payload_b64'', JStr (b64encode raw)), (''payload_sha256'', JStr (sha256_hex L raw))])) \<le> Suc 0" by (rule nesting_dict) auto
  ultimately show ?thesis
    unfolding state_subject_def Let_def jobj_def using assms by (intro mk_unit_succeeds) (auto simp: config_ok_def simp del: frozen_json_required_depth.simps)
qed

lemma state_text: "nonblank (''state:'' @ s)"
  unfolding nonblank_iff by (rule bexI [of _ "CHR ''s''"]) (simp_all add: py_isspace_def)

lemma state_texts: "\<exists>rows. event_texts [''state:'' @ s] = Inr rows"
  using state_text [of s] by (simp add: event_texts_def nonblank_def)

lemma event_payload_nesting:
  assumes "ev_attributes s = []"
  shows "nesting (JObj (event_attributes s reads writes)) \<le> 2"
proof -
  let ?kvs = "[(''kind'', JStr (ev_kind s)), (''authority_domain'', JStr (ev_authority_domain s)), (''generation'', JInt (ev_generation s)),
      (''operation'', JStr (py_strip (ev_operation s))), (''phase'', JStr (py_strip (ev_phase s))), (''reads'', jstrs reads),
      (''writes'', jstrs writes), (''physical_effect'', JBool (ev_physical_effect s)),
      (''commutative_when_disjoint'', JBool (ev_commutative s)), (''event_attributes'', JObj (ev_attributes s)),
      (''truth_modality'', JStr (modality_value (ev_modality s)))]"
  have "nesting v \<le> 1" if "v \<in> snd ` set ?kvs" for v using that nesting_texts assms by auto
  then have "nesting (JObj (dict_of ?kvs)) \<le> Suc 1" by (rule nesting_dict)
  moreover have "event_attributes s reads writes = dict_of ?kvs" unfolding event_attributes_def event_payload_def by (simp add: dict_of_def)
  ultimately show ?thesis by simp
qed

lemma state_event_succeeds:
  assumes sha: "\<forall>x. is_sha256 (sha256_hex L x)" and cfg: "config_ok cfg" and "nonblank phase" "nonblank operation"
    and prev: "\<And>p. previous = Some p \<Longrightarrow> require_event_unit p = Inr p \<and> is_sha256 (nu_digest p)"
  shows "\<exists>e. state_event L cfg raw phase modality operation (int n, previous) = Inr e"
proof -
  obtain subject where subject: "state_subject L cfg raw = Inr subject" using state_subject_succeeds [OF sha cfg] by blast
  obtain parents where parents: "(case previous of None \<Rightarrow> Inr [] | Some p \<Rightarrow> res_bind (event_ref p) (\<lambda>r. Inr [r])) = Inr parents"
    "parents = [] \<or> (\<exists>d. parents = [[event_ref_prefix @ d]] \<and> is_sha256 d)"
  proof (cases previous)
    case (Some p)
    have "event_ref p = Inr [event_ref_prefix @ nu_digest p]"
      using prev [OF Some] event_token [of "nu_digest p"] by (simp add: event_ref_def event_ref_from_digest_def mk_unit_ref_def unit_token_def)
    then show ?thesis using that prev [OF Some] Some by simp
  qed (use that in simp)
  define s where "s = state_event_spec cfg (int n + 1) subject parents phase modality operation"
  have f: "ev_authority_domain s = sc_authority_domain cfg" "ev_generation s = int n + 1" "ev_subject s = RUnit subject" "ev_operation s = operation"
    "ev_phase s = phase" "ev_causal_parents s = parents" "ev_reads s = [''state:'' @ sc_state_schema cfg]"
    "ev_writes s = [''state:'' @ sc_state_schema cfg]" "ev_evidence s = []" "ev_kind s = ''lifecycle.state-transition''" "ev_attributes s = []"
    by (simp_all add: s_def state_event_spec_def)
  have digests: "None \<notin> set (map event_ref_digest (ev_causal_parents s))" "distinct (map event_ref_digest (ev_causal_parents s))"
    using parents(2) by (auto simp: f event_ref_digest_def event_ref_prefix_def)
  obtain rows where rows: "event_texts [''state:'' @ sc_state_schema cfg] = Inr rows" using state_texts by blast
  have kind: "canonical_token_valid ''lifecycle.state-transition''" "canonical_token_valid event_schema" "canonical_token_valid ''subject''" "canonical_token_valid ''causal-parent''"
    by (simp_all add: canonical_token_valid_def token_head_def token_char_def event_schema_def)
  have sch: "event_schemas s = [event_schema, ''lifecycle.state-transition'']" by (simp add: event_schemas_def f event_schema_def)
  have roles: "list_all (\<lambda>r. canonical_token_valid (fst r) \<and> list_all (\<lambda>v. \<forall>j. v \<noteq> RAtom j) (snd r)) (event_roles s)"
    using kind by (auto simp: event_roles_def f list_all_iff)
  have depth: "frozen_json_required_depth (JObj (event_attributes s rows rows)) \<le> 63"
    using event_payload_nesting [of s rows rows] f by simp
  have unit: "\<exists>u. mk_unit L uid (event_schemas s) (Some (JObj (event_attributes s rows rows))) (event_roles s) None = Inr u" if "canonical_token_valid uid" for uid
    by (rule mk_unit_succeeds [OF that _ _ depth event_roles_distinct roles]) (use kind sch in \<open>simp_all add: event_schema_def\<close>)
  obtain provisional where p: "mk_unit L ''event:provisional'' (event_schemas s) (Some (JObj (event_attributes s rows rows))) (event_roles s) None = Inr provisional"
    using unit [of "''event:provisional''"] by (auto simp: canonical_token_valid_def token_head_def token_char_def)
  have "refs_valid (event_roles s)"
    unfolding refs_valid_def using event_roles_refs [OF _ digests(1)] by (auto simp: f ref_valid_def)
  from mk_unit_checked [OF p this] have "is_sha256 (semantic_digest provisional)"
    using unit_cutD(6,7) [of L provisional] sha by (auto split: option.splits)
  from unit [OF event_token [OF this]] obtain e where e: "mk_unit L (event_ref_prefix @ semantic_digest provisional) (event_schemas s)
      (Some (JObj (event_attributes s rows rows))) (event_roles s) None = Inr e" by blast
  have frozen: "freeze_json (JObj (ev_attributes s)) = Inr (JObj [])" by (simp add: f freeze_json_eq)
  have "causal_event L s = Inr e"
    unfolding causal_event_def Let_def f(7,8) rows res_bind_Inr event_modal_attributes frozen p
    using assms(3,4) cfg kind(1) digests e by (simp add: f(1-6,10) config_ok_def unit_token_def)
  then show ?thesis using subject parents(1) by (auto simp: state_event_def s_def)
qed

lemma store_append_succeeds:
  assumes sha: "\<forall>x. is_sha256 (sha256_hex L x)" and cfg: "config_ok cfg" and "nonblank phase" "nonblank operation"
    and inv: "store_inv L str_of cfg (h, ts, w) es" and room: "Suc (length h) < 10 ^ 20"
  shows "\<exists>e. state_event L cfg raw phase modality operation (int (length h), last_of es) = Inr e \<and>
    (inj_on nu_digest (set (subunits e)) \<longrightarrow> fst (store_append L cfg raw phase modality operation (ts p, w)) = Inr e)"
proof -
  note I = store_invD [OF inv]
  have prev: "require_event_unit q = Inr q \<and> is_sha256 (nu_digest q)" if "last_of es = Some q" for q
  proof -
    have "es \<noteq> []" "q = last es" using that by (auto simp: last_of_def split: if_splits)
    then show ?thesis using event_holds_at [OF I(2), of "length es - 1"] by (simp add: event_holds_def last_conv_nth)
  qed
  obtain e where e: "state_event L cfg raw phase modality operation (int (length h), last_of es) = Inr e"
    using state_event_succeeds [OF sha cfg assms(3,4) prev] by blast
  obtain t1 where pre: "append_predecessor L cfg (ts p, w) = (Inr (int (length es), last_of es), (t1, w))"
    using append_predecessor_exact [OF I(1,2) _ I(3) I(4)] room I(5) by fastforce
  have "fst (store_append L cfg raw phase modality operation (ts p, w)) = Inr e" if "inj_on nu_digest (set (subunits e))"
  proof -
    have "event_holds L str_of cfg (Suc (length es)) (last_of es) e raw" by (rule state_event_holds [OF sha _ that]) (use e I(5) in simp)
    from commit_event_extends [OF I(1,2) this, of t1] room I(5)
    obtain t' w' where "commit_event (int (length es) + 1) e (t1, w) = (Inr e, (t', w'))" by auto
    then show ?thesis using pre e I(5) by (simp add: store_append_def append_committed_def act_bind_def act_lift_def write_projection_def)
  qed
  then show ?thesis using e by blast
qed

end
