(* ===== verification/UnitSamples.thy ===== *)
theory UnitSamples
  imports UnitCodecProofs Samples
begin

text \<open>
  Concrete units for the witnesses: a host library whose digest tells the instances of units named
  \<open>e\<dots>\<close> from every other text, and an experiment with one member.
\<close>

definition experiment_preimage :: "string \<Rightarrow> bool" where
  "experiment_preimage x = (take 27 x = ''noetrium.unit.instance.v2'' @ [CHR 0x00] @ ''e'')"

definition unit_lib :: hostlib where
  "unit_lib = sample_lib\<lparr>sha256_hex := (\<lambda>x. if experiment_preimage x then ones else zeros)\<rparr>"

lemma unit_lib_ok: "sha_ok unit_lib" "float_repr_ok unit_lib"
  using sample_float_repr_ok by (simp_all add: float_repr_ok_def unit_lib_def ones_def zeros_def is_sha256_def list_all_iff)

lemma unit_lib_sha: "sha256_hex unit_lib x = (if experiment_preimage x then ones else zeros)"
  by (simp add: unit_lib_def)

definition sample_leaf :: noetrium_unit where
  "sample_leaf = Unit ''leaf'' [''research.trial''] [] [] None zeros zeros zeros (Some 1)"

definition sample_tree :: noetrium_unit where
  "sample_tree = Unit ''experiment'' [''research.plan''] [(''seed'', JInt 7)] [(''member'', [RUnit sample_leaf])] None zeros zeros ones (Some 2)"

lemma structural_text_plain: "\<not> experiment_preimage (utf8 (unit_structural_text L s a r))"
  by (simp add: experiment_preimage_def unit_structural_text_def utf8_def utf8_char_def)

lemma instance_experiment: "experiment_preimage (unit_instance_preimage ''experiment'' s t)"
  and instance_leaf: "\<not> experiment_preimage (unit_instance_preimage ''leaf'' s t)"
  by (simp_all add: experiment_preimage_def unit_instance_preimage_def utf8_def utf8_char_def)

lemma sample_tree_children: "children sample_leaf = []" "children sample_tree = [sample_leaf]"
  by (simp_all add: sample_leaf_def sample_tree_def role_children_def role_units_def)

lemma sample_leaf_cut: "unit_cut unit_lib sample_leaf"
  unfolding unit_cut_def sample_leaf_def
  by (simp add: unit_identified_def Let_def unit_lib_sha structural_text_plain instance_leaf member_walk_cardinality_def role_values_def
      canonical_token_valid_def token_head_def token_char_def default_max_depth_def)

lemma sample_tree_cut: "unit_cut unit_lib sample_tree"
  unfolding unit_cut_def sample_tree_def
  by (simp add: unit_identified_def Let_def unit_lib_sha structural_text_plain instance_experiment member_walk_cardinality_def role_values_def
      canonical_token_valid_def token_head_def token_char_def default_max_depth_def value_cut_def sample_leaf_def)

lemma sample_leaf_well: "unit_well unit_lib sample_leaf"
  by (simp add: unit_well.simps [of _ sample_leaf] sample_leaf_cut sample_tree_children)

lemma sample_tree_well: "unit_well unit_lib sample_tree"
  by (simp add: unit_well.simps [of _ sample_tree] sample_tree_cut sample_tree_children sample_leaf_well)

lemma sample_subunits: "subunits sample_leaf = [sample_leaf]" "subunits sample_tree = [sample_tree, sample_leaf]"
  by (simp_all add: subunits.simps [of sample_leaf] subunits.simps [of sample_tree] sample_tree_children)

lemma zeros_ones: "zeros \<noteq> ones"
  by (simp add: zeros_def ones_def)

lemma sample_member_role: "unit_units sample_tree ''member'' = Inr [sample_leaf]" "unit_units sample_leaf ''member'' = Inr []"
  by (simp_all add: unit_units_def unit_role_def role_values_def sample_tree_def sample_leaf_def)

lemma sample_walk: "unit_walk sample_tree ''member'' = Inr [sample_tree, sample_leaf]"
  by (simp add: unit_walk_def walk_loop.simps(2) sample_member_role)

text \<open>A unit without members, whose two texts have different digests.\<close>

definition sample_plain :: noetrium_unit where
  "sample_plain = Unit ''experiment'' [] [] [] None zeros zeros ones (Some 1)"

lemma sample_plain_cut: "unit_cut unit_lib sample_plain"
  unfolding unit_cut_def sample_plain_def
  by (simp add: unit_identified_def Let_def unit_lib_sha structural_text_plain instance_experiment member_walk_cardinality_def role_values_def
      canonical_token_valid_def token_head_def token_char_def default_max_depth_def)

lemma sample_plain_leaf: "children sample_plain = []" "subunits sample_plain = [sample_plain]" "unit_well unit_lib sample_plain"
proof -
  show children: "children sample_plain = []" by (simp add: sample_plain_def role_children_def)
  show "subunits sample_plain = [sample_plain]" by (simp add: subunits.simps [of sample_plain] children)
  show "unit_well unit_lib sample_plain" by (simp add: unit_well.simps [of _ sample_plain] sample_plain_cut children)
qed

lemma sample_plain_texts: "inj_on (sha256_hex unit_lib) (unit_texts unit_lib sample_plain)"
proof -
  have "unit_texts unit_lib sample_plain = {unit_instance_preimage ''experiment'' zeros zeros, utf8 (unit_structural_text unit_lib [] [] [])}"
    by (simp add: unit_texts_def sample_plain_leaf(2)) (simp add: sample_plain_def)
  then show ?thesis using zeros_ones by (auto simp: inj_on_def unit_lib_sha structural_text_plain instance_experiment)
qed

end
