(* ===== verification/EventSamples.thy ===== *)
theory EventSamples
  imports EventStoreProofs UnitSamples
begin

text \<open>
  Concrete events for the witnesses: a cause and its effect in two traces, and a store whose digest
  library tells events from their subjects.
\<close>

definition sample_cause :: noetrium_unit where
  "sample_cause = Unit ''event-a'' [''system.event''] [(''generation'', JInt 1), (''truth_modality'', JStr ''observed'')] [] None zeros zeros zeros (Some 1)"

definition sample_effect :: noetrium_unit where
  "sample_effect = Unit ''event-b'' [''system.event''] [(''generation'', JInt 2), (''truth_modality'', JStr ''observed'')]
     [(''causal-parent'', [RRef [event_ref_prefix @ zeros]])] None zeros zeros ones (Some 1)"

lemma sample_events_ok: "require_event_unit sample_cause = Inr sample_cause" "require_event_unit sample_effect = Inr sample_effect"
  by (simp_all add: require_event_unit_def is_event_unit_def has_schema_def event_schema_def [symmetric] truth_modality_of_def attribute_value_def
      unit_attribute_def modality_of_value_def sample_cause_def sample_effect_def require_def)

lemma sample_event_parents: "event_parents sample_cause = Inr []" "event_parents sample_effect = Inr [[event_ref_prefix @ zeros]]"
  by (simp_all add: event_parents_def event_field_def sample_events_ok)
     (simp_all add: unit_refs_def unit_role_def role_values_def sample_cause_def sample_effect_def)

lemma sample_event_digests: "nu_digest sample_cause = zeros" "nu_digest sample_effect = ones"
  by (simp_all add: sample_cause_def sample_effect_def)

lemma sample_event_ref: "event_ref_digest [event_ref_prefix @ zeros] = Some zeros"
  by (simp add: event_ref_digest_some)

lemma sample_names_parent: "names_parent sample_effect sample_cause" "\<not> names_parent sample_cause p" "\<not> names_parent sample_effect sample_effect"
  using zeros_ones by (auto simp: names_parent_def sample_event_parents sample_event_ref sample_event_digests)

lemma sample_events_inj: "inj_on nu_digest {sample_effect, sample_cause}"
  using zeros_ones by (auto simp: sample_event_digests)

lemma sample_effect_ancestor: "sample_cause \<in> causal_ancestors (concat [[sample_effect], [sample_cause]]) sample_effect"
  using sample_names_parent(1) by (auto simp: causal_ancestors_def intro!: r_into_rtrancl)

lemma sample_parents_within: "parents_within [sample_effect, sample_cause] sample_cause" "parents_within [sample_effect, sample_cause] sample_effect"
  by (simp_all add: parents_within_def sample_event_parents sample_event_ref sample_event_digests)

lemma sample_ancestors: "causal_ancestors events t \<subseteq> insert t (set events)"
  by (auto simp: causal_ancestors_def elim: rtranclE)

lemma sample_trace_edges: "trace_edges [sample_effect, sample_cause] = {(zeros, ones)}"
proof -
  have "(x, p) \<in> {(sample_effect, sample_cause)} \<longleftrightarrow> x \<in> set [sample_effect, sample_cause] \<and> p \<in> set [sample_effect, sample_cause] \<and> names_parent x p" for x p
    using sample_names_parent by auto
  then have "trace_edges [sample_effect, sample_cause] = {(nu_digest p, nu_digest x) | p x. (x, p) \<in> {(sample_effect, sample_cause)}}"
    unfolding trace_edges_def by blast
  then show ?thesis by (simp add: sample_event_digests)
qed

section \<open>A store\<close>

definition sample_store_config :: store_config where
  "sample_store_config = \<lparr>sc_state_schema = ''worker.state'', sc_authority_domain = ''worker.1''\<rparr>"

lemma sample_store_config_ok: "config_ok sample_store_config"
  by (simp add: config_ok_def sample_store_config_def canonical_token_valid_def token_head_def token_char_def)

text \<open>Under \<open>unit_lib\<close> an event never collides with its subject.\<close>

lemma instance_event: "experiment_preimage (unit_instance_preimage (event_ref_prefix @ d) s t)"
  and instance_state: "\<not> experiment_preimage (unit_instance_preimage (''lifecycle.state:'' @ d) s t)"
  by (simp_all add: experiment_preimage_def unit_instance_preimage_def utf8_def utf8_char_def event_ref_prefix_def)

lemma state_event_distinct:
  assumes "state_event unit_lib cfg raw phase modality operation pre = Inr e"
  shows "inj_on nu_digest (set (subunits e))"
proof -
  from assms obtain subject parents where run: "state_subject unit_lib cfg raw = Inr subject"
    "causal_event unit_lib (state_event_spec cfg (fst pre + 1) subject parents phase modality operation) = Inr e"
    by (auto simp: state_event_def res_bind_eq_Inr)
  let ?s = "state_event_spec cfg (fst pre + 1) subject parents phase modality operation"
  have "list_all ref_valid (ev_subject ?s # ev_evidence ?s)" by (simp add: state_event_spec_def ref_valid_def)
  note E = causal_event_fields [OF run(2) this] and S = state_subject_fields [OF run(1)]
  have "refs_valid []" by (simp add: refs_valid_def)
  note U = mk_unit_checked [OF run(1) [unfolded state_subject_def Let_def jobj_def] this]
  have "nu_digest subject = zeros" using unit_cutD(8) [OF U(1)] instance_state unfolding U(2) unit_lib_sha by simp
  moreover have "nu_digest e = ones"
    by (rule trans [OF unit_cutD(8) [OF E(7)]], subst E(8), subst unit_lib_sha, simp only: instance_event if_True)
  ultimately have inj: "inj_on nu_digest {e, subject}" using zeros_ones by (auto simp: inj_on_def)
  have "set (children e) \<subseteq> {subject}" unfolding E(9) by (auto simp: role_children_mem event_roles_def state_event_spec_def)
  then have "set (subunits e) \<subseteq> {e, subject}" by (intro subunits_least) (use S(2) in auto)
  with inj show ?thesis by (rule inj_on_subset)
qed

lemma sample_first_append:
  "\<exists>t w. store_reachable unit_lib sample_str sample_store_config ([''A''], (\<lambda>_. None)(0 := t), w)"
proof -
  have inv: "store_inv unit_lib sample_str sample_store_config ([], \<lambda>_. None, empty_files) []"
    by (simp add: store_inv_def files_hold_def log_holds_events_def tail_holds_def empty_files_def)
  have nb: "nonblank ''observed''" "nonblank ''state-transition''" by (simp_all add: nonblank_iff py_isspace_def)
  have sha: "\<forall>x. is_sha256 (sha256_hex unit_lib x)" using unit_lib_ok(1) .
  obtain e where e: "state_event unit_lib sample_store_config ''A'' ''observed'' OBSERVED ''state-transition'' (int (length []), last_of []) = Inr e"
    "inj_on nu_digest (set (subunits e)) \<longrightarrow> fst (store_append unit_lib sample_store_config ''A'' ''observed'' OBSERVED ''state-transition'' ((\<lambda>_. None) 0, empty_files)) = Inr e"
    using store_append_succeeds [OF sha sample_store_config_ok nb inv] by fastforce
  note inj = state_event_distinct [OF e(1)]
  obtain t w where "store_append unit_lib sample_store_config ''A'' ''observed'' OBSERVED ''state-transition'' ((\<lambda>_. None) 0, empty_files) = (Inr e, (t, w))"
    using e(2) inj by (cases "store_append unit_lib sample_store_config ''A'' ''observed'' OBSERVED ''state-transition'' ((\<lambda>_. None) 0, empty_files)") auto
  from store_step.appended [OF this inj, of sample_str "[]"] show ?thesis by (auto intro!: r_into_rtranclp)
qed

end
