(* ===== verification/CarrierProperties.thy ===== *)
theory CarrierProperties
  imports EventSamples
begin

text \<open>
  The properties of the kernel's carrier, the units, and of the events stored over it, with their witnesses.
\<close>

section \<open>Units\<close>

text \<open>C11. Encoding and decoding a unit returns the unit: for every well-formed unit none of whose subunits
  collide on their digest, the encoder produces a document and the decoder, run on it, ends with the
  unit itself, shared subunits included.\<close>

theorem unit_codec_round_trip:
  assumes "unit_well L u" "inj_on nu_digest (set (subunits u))"
  shows "\<exists>doc. encode_unit u = Inr doc \<and> decode_unit L doc = Some (Inr u)"
  by (rule codec_round_trip [OF assms])

theorem unit_codec_round_trip_witness:
  "\<exists>doc. encode_unit sample_tree = Inr doc \<and> decode_unit unit_lib doc = Some (Inr sample_tree)"
proof (rule unit_codec_round_trip)
  show "unit_well unit_lib sample_tree" by (rule sample_tree_well)
  show "inj_on nu_digest (set (subunits sample_tree))"
    using zeros_ones by (simp add: sample_subunits) (simp add: sample_tree_def sample_leaf_def)
qed

text \<open>C12. Decoding ends on every document, and what it accepts is canonical and well-formed: it returns an
  error or a well-formed unit whose encoding is the document it was given, so no two documents decode
  to the same unit.\<close>

theorem unit_decoding_is_canonical:
  "\<exists>r. decode_unit L doc = Some r \<and> (\<forall>u. r = Inr u \<longrightarrow> encode_unit u = Inr doc \<and> unit_well L u)"
proof -
  obtain r where r: "decode_unit L doc = Some r" using decode_unit_total by blast
  then show ?thesis using decode_unit_sound [of L doc] by blast
qed

theorem unit_decoding_is_canonical_witness:
  "\<exists>doc. decode_unit unit_lib doc = Some (Inr sample_tree) \<and> encode_unit sample_tree = Inr doc \<and> unit_well unit_lib sample_tree"
proof -
  have "inj_on nu_digest (set (subunits sample_tree))"
    using zeros_ones by (simp add: sample_subunits) (simp add: sample_tree_def sample_leaf_def)
  from codec_round_trip [OF sample_tree_well this] obtain doc where doc: "decode_unit unit_lib doc = Some (Inr sample_tree)" by blast
  then show ?thesis using unit_decoding_is_canonical [of unit_lib doc] by auto
qed



text \<open>The views of a unit's member tree agree: the count kept with the unit is the length of its walk,
  and is missing exactly when the walk fails; enumerating the paths to a schema visits exactly the units of the
  walk that have the schema, in its order; and where siblings have different identifiers every path
  leads back to its unit.\<close>

theorem unit_walk_views_agree:
  assumes "unit_well L u" "canonical_token_valid s"
  shows "case unit_walk u ''member'' of
      Inl e \<Rightarrow> member_walk_count u = Inl e \<and> paths_with_schema u s ''member'' = Inl e
    | Inr us \<Rightarrow> member_walk_count u = Inr (int (length us)) \<and>
        (\<exists>rows. paths_with_schema u s ''member'' = Inr rows \<and> map snd rows = filter (\<lambda>v. s \<in> set (unit_schemas v)) us \<and>
          (siblings_distinct u \<longrightarrow> list_all (\<lambda>r. unit_at_path u (fst r) = Inr (snd r)) rows))"
proof -
  have paths: "paths_with_schema u s ''member'' = paths_loop s ''member'' [(u, [unit_id u])]"
    using assms(2) by (simp add: paths_with_schema_def unit_token_def [of s])
  have walk: "projects_walk s (paths_with_schema u s ''member'') (unit_walk u ''member'')"
    using paths_units [OF assms(2), of "''member''" "[(u, [unit_id u])]"] by (simp add: paths unit_walk_def)
  have lead: "list_all (\<lambda>r. unit_at_path u (fst r) = Inr (snd r)) rows"
    if "paths_with_schema u s ''member'' = Inr rows" "siblings_distinct u" for rows
    using that member_paths_resolve [OF assms(1)] unfolding paths by (auto simp: list_all_iff)
  show ?thesis
    using walk walk_count_exact [OF assms(1)] lead
    by (cases "unit_walk u ''member''"; cases "walk_count_cache u") (auto simp: projects_walk_def counted_def member_walk_count_def)
qed

theorem unit_walk_views_agree_witness:
  "unit_walk sample_tree ''member'' = Inr [sample_tree, sample_leaf] \<and> member_walk_count sample_tree = Inr 2 \<and>
   (\<exists>path. paths_with_schema sample_tree ''research.trial'' ''member'' = Inr [(path, sample_leaf)] \<and>
     unit_at_path sample_tree path = Inr sample_leaf)"
proof -
  have token: "canonical_token_valid ''research.trial''" by (simp add: canonical_token_valid_def token_head_def token_char_def)
  have sib: "siblings_distinct sample_tree"
    by (simp add: siblings_distinct.simps [of sample_tree] siblings_distinct.simps [of sample_leaf] sample_member_role sample_tree_children)
  have schemas: "filter (\<lambda>v. ''research.trial'' \<in> set (unit_schemas v)) [sample_tree, sample_leaf] = [sample_leaf]"
    by (simp add: sample_tree_def sample_leaf_def)
  obtain rows where rows: "paths_with_schema sample_tree ''research.trial'' ''member'' = Inr rows" "map snd rows = [sample_leaf]"
    "member_walk_count sample_tree = Inr 2" "list_all (\<lambda>r. unit_at_path sample_tree (fst r) = Inr (snd r)) rows"
    using unit_walk_views_agree [OF sample_tree_well token] sib unfolding sample_walk sum.case schemas by auto
  obtain r where "rows = [r]" using rows(2) by (cases rows) auto
  then show ?thesis using rows sample_walk by (cases r) auto
qed

section \<open>Causal events\<close>

text \<open>C14. The reverse causal cone across journals is exact: for traces without repeated digests of
  different events it returns, in digest order and without repetition, the terminal event and all its causal
  ancestors in the union of the traces and nothing else; and it succeeds exactly when all parents
  that these events name are in one of the traces, however the events are spread over them.\<close>

theorem causal_cone_exact:
  assumes "\<forall>e \<in> set (concat traces). is_ok (require_event_unit e)" "inj_on nu_digest (set (concat traces))" "t \<in> set (concat traces)"
  shows "is_ok (reverse_causal_cone_from_traces traces t) = (\<forall>x \<in> causal_ancestors (concat traces) t. parents_within (concat traces) x) \<and>
    (\<forall>cone. reverse_causal_cone_from_traces traces t = Inr cone \<longrightarrow>
       set cone = causal_ancestors (concat traces) t \<and> distinct cone \<and> sorted (map nu_digest cone))"
  using cone_across_traces [OF assms] by blast

theorem causal_cone_exact_witness:
  "\<exists>cone. reverse_causal_cone_from_traces [[sample_effect], [sample_cause]] sample_effect = Inr cone \<and> sample_cause \<in> set cone"
proof -
  let ?traces = "[[sample_effect], [sample_cause]]"
  have "\<forall>x \<in> causal_ancestors (concat ?traces) sample_effect. parents_within (concat ?traces) x"
    using sample_ancestors [of "concat ?traces" sample_effect] sample_parents_within by auto
  moreover have "is_ok (reverse_causal_cone_from_traces ?traces sample_effect) =
      (\<forall>x \<in> causal_ancestors (concat ?traces) sample_effect. parents_within (concat ?traces) x) \<and>
    (\<forall>cone. reverse_causal_cone_from_traces ?traces sample_effect = Inr cone \<longrightarrow>
       set cone = causal_ancestors (concat ?traces) sample_effect \<and> distinct cone \<and> sorted (map nu_digest cone))"
    by (rule causal_cone_exact) (use sample_events_inj in \<open>simp_all add: sample_events_ok\<close>)
  ultimately show ?thesis using sample_effect_ancestor by (auto simp: is_ok_iff)
qed

text \<open>C15. The causal order of a closed trace is correct: if no event is its own ancestor the order lists
  every event once and every event after all parents it names; otherwise the trace is rejected.\<close>

theorem causal_order_respects_parents:
  assumes "\<forall>e \<in> set events. is_ok (require_event_unit e) \<and> parents_within events e" "distinct (map nu_digest events)"
    and "\<forall>e \<in> set events. nu_digest e \<noteq> []" "set_enumeration enum"
  shows "if acyclic (trace_edges events)
    then \<exists>order. causal_topological_order enum events = Some (Inr order) \<and> distinct order \<and> set order = set events \<and>
      (\<forall>pre x post p. order = pre @ x # post \<longrightarrow> p \<in> set events \<longrightarrow> names_parent x p \<longrightarrow> p \<in> set pre)
    else causal_topological_order enum events = Some (Inl ValueError)"
proof (cases "acyclic (trace_edges events)")
  case True
  then show ?thesis using causal_order_correct(1) [OF assms] by simp
next
  case False
  then show ?thesis using causal_order_correct(2) [OF assms] by simp
qed

theorem causal_order_respects_parents_witness:
  "\<exists>order. causal_topological_order remdups [sample_effect, sample_cause] = Some (Inr order) \<and> set order = {sample_effect, sample_cause}"
proof -
  have "acyclic {(zeros, ones)}" using zeros_ones by (auto simp: acyclic_def trancl_insert2 dest: tranclD)
  then have acyclic: "acyclic (trace_edges [sample_effect, sample_cause])" unfolding sample_trace_edges .
  have "set_enumeration (remdups :: (string \<times> string) list \<Rightarrow> (string \<times> string) list)" by (simp add: set_enumeration_def)
  from causal_order_respects_parents [OF _ _ _ this, of "[sample_effect, sample_cause]"] show ?thesis
    using acyclic sample_parents_within zeros_ones by (auto simp: sample_events_ok sample_event_digests zeros_def ones_def)
qed

section \<open>The causal event store\<close>

text \<open>C16. What a store commits is what it reads: after any run of appends, reads, listings and checks by any
  processes, with processes that stop between the two writes of an append or between calls and with
  a projection file that is lost or overwritten, every process reads the payload committed last (or learns
  that nothing is committed), the read leaves the projection file with that payload, and the events
  listed carry exactly the committed payloads in order.\<close>

theorem event_store_reads_last_commit:
  assumes "sha_ok L" "store_reachable L str_of cfg (h, ts, w)" "length h < 10 ^ 20"
  shows "\<exists>t w'. store_read L str_of cfg (ts p, w) = ((if h = [] then Inl FileNotFoundError else Inr (last h)), (t, w')) \<and>
    sf_events w' = sf_events w \<and> (h = [] \<or> sf_projection w' = Some (last h)) \<and>
    (\<exists>es. fst (store_events L cfg (ts p, w)) = Inr es \<and> map (subject_payload L str_of cfg) es = map Inr h)"
proof -
  obtain es where inv: "store_inv L str_of cfg (h, ts, w) es" using store_reachable_inv [OF assms(1,2)] assms(3) by auto
  have "map (subject_payload L str_of cfg) es = map Inr h"
    using store_invD(2) [OF inv] by (auto simp: log_holds_events_def event_holds_def intro: nth_equalityI)
  then show ?thesis
    using store_read_exact [OF inv assms(3), of p] scan_keeps(1) [OF inv assms(3), of p] by (cases "h = []") (auto simp: store_events_def)
qed

theorem event_store_reads_last_commit_witness:
  "\<exists>t w. store_reachable unit_lib sample_str sample_store_config ([''A''], (\<lambda>_. None)(0 := t), w) \<and>
     fst (store_read unit_lib sample_str sample_store_config (None, w)) = Inr ''A''"
proof -
  obtain t w where r: "store_reachable unit_lib sample_str sample_store_config ([''A''], (\<lambda>_. None)(0 := t), w)" using sample_first_append by blast
  have "fst (store_read unit_lib sample_str sample_store_config (None, w)) = Inr ''A''"
    using event_store_reads_last_commit [OF unit_lib_ok(1) r, of 1] by auto
  with r show ?thesis by blast
qed



end
