(* ===== verification/Worker.thy ===== *)
theory Worker
  imports ExecutorProofs Units
begin

text \<open>
  Remote workers: \<^verbatim>\<open>foundation/kernel/kernel/machine_transport.py\<close> and \<^verbatim>\<open>foundation/kernel/kernel/worker.py\<close>.  A command travels to a worker in a transport
  envelope; the reply is a proposal with a keyed attestation, and the admission checks it before the
  executor sees the proposal.  The worker itself is the parameter \<open>worker\<close>.
\<close>

unbundle bit_operations_syntax

section \<open>The transport envelope\<close>

record transport_envelope =
  te_version :: int
  te_machine_id :: string
  te_unit_digest :: string
  te_command_id :: string
  te_command_kind :: string
  te_expected_revision :: int
  te_payload :: json
  te_payload_digest :: string
  te_parent_transition_id :: json
  te_capability_scope :: "string list"
  te_deadline_at :: json
  te_parent_command_id :: json
  te_idempotency_key :: json
  te_envelope_digest :: string

definition te_command_payload :: "transport_envelope \<Rightarrow> (string \<times> json) list" where
  "te_command_payload e =
     [(''command_id'', JStr (te_command_id e)), (''machine_id'', JStr (te_machine_id e)),
      (''expected_revision'', JInt (te_expected_revision e)), (''kind'', JStr (te_command_kind e)), (''payload'', te_payload e),
      (''scope'', jstrs (te_capability_scope e)), (''deadline_at'', te_deadline_at e),
      (''parent_command_id'', te_parent_command_id e), (''idempotency_key'', te_idempotency_key e)]"

definition te_envelope_payload :: "transport_envelope \<Rightarrow> (string \<times> json) list" where
  "te_envelope_payload e =
     [(''version'', JInt (te_version e)), (''machine_id'', JStr (te_machine_id e)), (''unit_digest'', JStr (te_unit_digest e)),
      (''command_id'', JStr (te_command_id e)), (''command_kind'', JStr (te_command_kind e)),
      (''expected_revision'', JInt (te_expected_revision e)), (''payload'', te_payload e),
      (''payload_digest'', JStr (te_payload_digest e)), (''parent_transition_id'', te_parent_transition_id e),
      (''capability_scope'', jstrs (te_capability_scope e)), (''deadline_at'', te_deadline_at e),
      (''parent_command_id'', te_parent_command_id e), (''idempotency_key'', te_idempotency_key e)]"

text \<open>The two digests encode the payload one level down, where it may exceed the nesting limit.\<close>

definition transport_post_init :: "hostlib \<Rightarrow> transport_envelope \<Rightarrow> transport_envelope res" where
  "transport_post_init L self =
     res_bind (require (0 < te_version self) ValueError) (\<lambda>_.
     res_bind (require (nonblank (te_machine_id self) \<and> nonblank (te_command_id self) \<and> nonblank (te_command_kind self)) ValueError) (\<lambda>_.
     res_bind (require_sha256 (te_unit_digest self)) (\<lambda>_.
     res_bind (require_sha256 (te_payload_digest self)) (\<lambda>_.
     res_bind (require (0 \<le> te_expected_revision self) ValueError) (\<lambda>_.
     res_bind (require (\<forall>item \<in> set (te_capability_scope self). nonblank item) TypeError) (\<lambda>_.
     res_bind (freeze_json (te_payload self)) (\<lambda>payload.
     let self' = self\<lparr>te_payload := payload\<rparr> in
     res_bind (require (stream_depth_ok default_max_depth 1 payload) CanonicalEncodingError) (\<lambda>_.
     res_bind (require (canonical_digest L (jobj (te_command_payload self')) = te_payload_digest self') ValueError) (\<lambda>_.
     Inr (self'\<lparr>te_envelope_digest := canonical_digest L (jobj (te_envelope_payload self'))\<rparr>))))))))))"

definition from_command :: "hostlib \<Rightarrow> int \<Rightarrow> string \<Rightarrow> machine_command \<Rightarrow> json \<Rightarrow> transport_envelope res" where
  "from_command L version digest command parent_transition_id = transport_post_init L
     \<lparr>te_version = version, te_machine_id = cmd_machine_id command, te_unit_digest = digest,
      te_command_id = cmd_command_id command, te_command_kind = cmd_kind command,
      te_expected_revision = cmd_expected_revision command, te_payload = cmd_payload command,
      te_payload_digest = cmd_payload_digest command, te_parent_transition_id = parent_transition_id,
      te_capability_scope = cmd_scope command, te_deadline_at = cmd_deadline_at command,
      te_parent_command_id = cmd_parent_command_id command, te_idempotency_key = cmd_idempotency_key command,
      te_envelope_digest = []\<rparr>"

definition to_command :: "hostlib \<Rightarrow> transport_envelope \<Rightarrow> machine_command res" where
  "to_command L self = command_post_init L
     \<lparr>cmd_command_id = te_command_id self, cmd_machine_id = te_machine_id self, cmd_expected_revision = te_expected_revision self,
      cmd_kind = te_command_kind self, cmd_payload = te_payload self, cmd_scope = te_capability_scope self,
      cmd_deadline_at = te_deadline_at self, cmd_parent_command_id = te_parent_command_id self,
      cmd_idempotency_key = te_idempotency_key self, cmd_payload_digest = []\<rparr>"

section \<open>Attestation\<close>

text \<open>\<^verbatim>\<open>hmac.new(key, material, hashlib.sha256)\<close>: blocks of 64 bytes, inner and outer padding.\<close>

definition hmac_key :: "hostlib \<Rightarrow> string \<Rightarrow> string" where
  "hmac_key L key = (let k = (if 64 < length key then fromhex (sha256_hex L key) else key) in k @ replicate (64 - length k) (CHR 0x00))"

definition hmac_pad :: "nat \<Rightarrow> string \<Rightarrow> string" where
  "hmac_pad pad block = map (\<lambda>c. char_of ((of_char c :: nat) XOR pad)) block"

definition hmac_inner :: "hostlib \<Rightarrow> string \<Rightarrow> string \<Rightarrow> string" where
  "hmac_inner L key material = hmac_pad 0x36 (hmac_key L key) @ material"

definition hmac_outer :: "hostlib \<Rightarrow> string \<Rightarrow> string \<Rightarrow> string" where
  "hmac_outer L key material = hmac_pad 0x5c (hmac_key L key) @ fromhex (sha256_hex L (hmac_inner L key material))"

definition hmac_sha256 :: "hostlib \<Rightarrow> string \<Rightarrow> string \<Rightarrow> string" where
  "hmac_sha256 L key material = sha256_hex L (hmac_outer L key material)"

definition attestation :: "string \<Rightarrow> string \<Rightarrow> json" where
  "attestation envelope_digest proposal_digest =
     jobj [(''envelope_digest'', JStr envelope_digest), (''proposal_digest'', JStr proposal_digest)]"

definition mk_authenticator :: "string \<Rightarrow> string res" where
  "mk_authenticator key = res_bind (require (key \<noteq> []) ValueError) (\<lambda>_. Inr key)"

definition worker_sign :: "hostlib \<Rightarrow> string \<Rightarrow> string \<Rightarrow> string \<Rightarrow> string" where
  "worker_sign L key envelope_digest proposal_digest =
     hmac_sha256 L key (canonical_bytes L (attestation envelope_digest proposal_digest))"

text \<open>\<^verbatim>\<open>hmac.compare_digest\<close> refuses text that is not ASCII.\<close>

definition worker_verify :: "hostlib \<Rightarrow> string \<Rightarrow> string \<Rightarrow> string \<Rightarrow> string \<Rightarrow> bool res" where
  "worker_verify L key envelope_digest proposal_digest signature =
     res_bind (require (\<forall>c \<in> set signature. (of_char c :: nat) < 128) TypeError) (\<lambda>_.
     Inr (worker_sign L key envelope_digest proposal_digest = signature))"

section \<open>Admission\<close>

record worker_policy =
  wp_machine_id :: string
  wp_unit_digest :: string
  wp_worker_id :: string
  wp_allowed_scopes :: "string list"
  wp_max_payload_bytes :: int

definition worker_policy_post_init :: "worker_policy \<Rightarrow> worker_policy res" where
  "worker_policy_post_init self =
     res_bind (require (nonblank (wp_machine_id self) \<and> nonblank (wp_unit_digest self) \<and> nonblank (wp_worker_id self)) ValueError) (\<lambda>_.
     res_bind (require (1 \<le> wp_max_payload_bytes self) ValueError) (\<lambda>_.
     res_bind (require (\<forall>scope \<in> set (wp_allowed_scopes self). nonblank scope) ValueError) (\<lambda>_. Inr self)))"

record worker_reply =
  wr_proposal :: transition_proposal
  wr_signature :: string

definition worker_reply_post_init :: "worker_reply \<Rightarrow> worker_reply res" where
  "worker_reply_post_init self = res_bind (require (nonblank (wr_signature self)) ValueError) (\<lambda>_. Inr self)"

record worker_candidate =
  wc_worker_id :: string
  wc_envelope :: transport_envelope
  wc_proposal :: transition_proposal
  wc_signature :: string
  wc_candidate_digest :: string

text \<open>The canonical form of the dataclasses inside a candidate.\<close>

definition mutation_fields :: "state_mutation \<Rightarrow> json" where
  "mutation_fields m = jobj [(''path'', jstrs (mut_path m)), (''value'', mut_value m), (''delete'', JBool (mut_delete m))]"

definition delta_fields :: "state_delta \<Rightarrow> json" where
  "delta_fields d = jobj [(''mutations'', JArr (map mutation_fields (delta_mutations d))), (''digest'', JStr (delta_digest d))]"

definition proposal_fields :: "transition_proposal \<Rightarrow> json" where
  "proposal_fields p = jobj (proposal_payload p @
     [(''state_delta'', delta_fields (prop_state_delta p)), (''proposal_digest'', JStr (prop_proposal_digest p))])"

definition envelope_fields :: "transport_envelope \<Rightarrow> json" where
  "envelope_fields e = jobj (te_envelope_payload e @ [(''envelope_digest'', JStr (te_envelope_digest e))])"

definition candidate_depth_ok :: "transport_envelope \<Rightarrow> transition_proposal \<Rightarrow> bool" where
  "candidate_depth_ok e p =
     (stream_depth_ok default_max_depth 2 (te_payload e) \<and>
      (\<forall>m \<in> set (delta_mutations (prop_state_delta p)). stream_depth_ok default_max_depth 5 (mut_value m)) \<and>
      (\<forall>c \<in> set (prop_emitted_commands p). stream_depth_ok default_max_depth 4 (cmd_payload c)) \<and>
      (\<forall>v \<in> set (prop_event_payloads p). stream_depth_ok default_max_depth 3 v))"

definition mk_candidate :: "hostlib \<Rightarrow> string \<Rightarrow> transport_envelope \<Rightarrow> transition_proposal \<Rightarrow> string \<Rightarrow> worker_candidate res" where
  "mk_candidate L worker_id envelope proposal signature =
     res_bind (require (candidate_depth_ok envelope proposal) CanonicalEncodingError) (\<lambda>_.
     Inr \<lparr>wc_worker_id = worker_id, wc_envelope = envelope, wc_proposal = proposal, wc_signature = signature,
          wc_candidate_digest = canonical_digest L (jobj [(''worker_id'', JStr worker_id), (''envelope'', envelope_fields envelope),
            (''proposal'', proposal_fields proposal), (''signature'', JStr signature)])\<rparr>)"

record worker_admission =
  wa_identity :: machine_identity
  wa_unit :: unit_ref
  wa_policy :: worker_policy
  wa_key :: string

definition mk_admission :: "machine_identity \<Rightarrow> unit_ref \<Rightarrow> worker_policy \<Rightarrow> string \<Rightarrow> worker_admission res" where
  "mk_admission identity u policy key =
     res_bind (require (ident_machine_id identity = wp_machine_id policy) ValueError) (\<lambda>_.
     res_bind (require (unit_digest u = wp_unit_digest policy) ValueError) (\<lambda>_.
     Inr \<lparr>wa_identity = identity, wa_unit = u, wa_policy = policy, wa_key = key\<rparr>))"

definition admit ::
    "hostlib \<Rightarrow> worker_admission \<Rightarrow> transport_envelope \<Rightarrow> machine_snapshot \<Rightarrow> worker_reply \<Rightarrow> worker_candidate res" where
  "admit L self envelope state reply =
     res_bind (require (te_machine_id envelope = ident_machine_id (wa_identity self)) WorkerAdmissionError) (\<lambda>_.
     res_bind (require (te_unit_digest envelope = unit_digest (wa_unit self)) WorkerAdmissionError) (\<lambda>_.
     res_bind (require (\<forall>scope \<in> set (te_capability_scope envelope). scope \<in> set (wp_allowed_scopes (wa_policy self))) WorkerAdmissionError) (\<lambda>_.
     res_bind (require (int (length (canonical_bytes L (te_payload envelope))) \<le> wp_max_payload_bytes (wa_policy self)) WorkerAdmissionError) (\<lambda>_.
     res_bind (worker_verify L (wa_key self) (te_envelope_digest envelope) (prop_proposal_digest (wr_proposal reply)) (wr_signature reply)) (\<lambda>valid.
     res_bind (require valid WorkerAuthenticationError) (\<lambda>_.
     res_bind (require (prop_machine_id (wr_proposal reply) = snap_machine_id state) WorkerAdmissionError) (\<lambda>_.
     res_bind (require (prop_command_id (wr_proposal reply) = te_command_id envelope) WorkerAdmissionError) (\<lambda>_.
     res_bind (require (prop_base_revision (wr_proposal reply) = snap_revision state) MachineConflict) (\<lambda>_.
     mk_candidate L (wp_worker_id (wa_policy self)) envelope (wr_proposal reply) (wr_signature reply))))))))))"

text \<open>The proxy is a proposer like any other: the executor commits what it returns.\<close>

definition proxy_propose ::
    "hostlib \<Rightarrow> unit_ref \<Rightarrow> worker_admission \<Rightarrow> (transport_envelope \<Rightarrow> machine_snapshot \<Rightarrow> worker_reply res)
      \<Rightarrow> machine_command \<Rightarrow> machine_snapshot \<Rightarrow> transition_proposal res" where
  "proxy_propose L u admission worker command state =
     res_bind (from_command L 1 (unit_digest u) command JNull) (\<lambda>envelope.
     res_bind (worker envelope state) (\<lambda>reply.
     res_bind (admit L admission envelope state reply) (\<lambda>candidate. Inr (wc_proposal candidate))))"

section \<open>Envelopes carry the command\<close>

lemma transport_post_init_ok:
  assumes "transport_post_init L self = Inr e"
  shows "0 < te_version e" "is_sha256 (te_unit_digest e)" "e\<lparr>te_envelope_digest := te_envelope_digest self\<rparr> = self"
    "te_envelope_digest e = canonical_digest L (jobj (te_envelope_payload e))"
    "canonical_digest L (jobj (te_command_payload e)) = te_payload_digest e"
    "stream_depth_ok default_max_depth 1 (te_payload e)"
  using assms by (auto simp: transport_post_init_def Let_def res_simps freeze_json_eq_Inr te_envelope_payload_def te_command_payload_def)

lemma from_command_ok:
  assumes "from_command L version digest command parent = Inr e"
  shows "te_machine_id e = cmd_machine_id command" "te_command_id e = cmd_command_id command" "te_payload_digest e = cmd_payload_digest command"
    "te_capability_scope e = cmd_scope command" "te_payload e = cmd_payload command" "te_unit_digest e = digest"
    "te_envelope_digest e = canonical_digest L (jobj (te_envelope_payload e))"
    "e = \<lparr>te_version = version, te_machine_id = cmd_machine_id command, te_unit_digest = digest,
      te_command_id = cmd_command_id command, te_command_kind = cmd_kind command,
      te_expected_revision = cmd_expected_revision command, te_payload = cmd_payload command,
      te_payload_digest = cmd_payload_digest command, te_parent_transition_id = parent,
      te_capability_scope = cmd_scope command, te_deadline_at = cmd_deadline_at command,
      te_parent_command_id = cmd_parent_command_id command, te_idempotency_key = cmd_idempotency_key command,
      te_envelope_digest = te_envelope_digest e\<rparr>"
  using transport_post_init_ok(3,4) [OF assms [unfolded from_command_def]] by (cases e; simp)+

lemma from_command_succeeds:
  assumes "command_post_init L command = Inr command" "is_sha256 digest" "0 < version" "stream_depth_ok default_max_depth 1 (cmd_payload command)"
    and "\<forall>x. is_sha256 (sha256_hex L x)"
  shows "\<exists>e. from_command L version digest command parent = Inr e \<and> to_command L e = Inr command"
proof -
  have c: "cmd_payload_digest command = canonical_digest L (jobj (command_payload command))"
    "nonblank (cmd_command_id command)" "nonblank (cmd_machine_id command)" "nonblank (cmd_kind command)" "0 \<le> cmd_expected_revision command"
    "\<forall>s \<in> set (cmd_scope command). nonblank s" "freeze_json (cmd_payload command) = Inr (cmd_payload command)"
    using assms(1) by (auto simp: command_post_init_def res_simps freeze_json_eq_Inr dest: arg_cong [where f = cmd_payload_digest])
  have "is_ok (from_command L version digest command parent)"
    using assms(2-5) c by (simp add: from_command_def transport_post_init_def require_sha256_def te_command_payload_def command_payload_def canonical_digest_def)
  then obtain e where e: "from_command L version digest command parent = Inr e" by (auto simp: is_ok_iff)
  have "to_command L e = command_post_init L (command\<lparr>cmd_payload_digest := []\<rparr>)"
    by (subst from_command_ok(8) [OF e], cases command) (simp add: to_command_def)
  also have "\<dots> = Inr command" using c by (simp add: command_post_init_def command_payload_def)
  finally show ?thesis using e by blast
qed

section \<open>Attestations bind their content\<close>

definition sha_clash :: "hostlib \<Rightarrow> string \<Rightarrow> string \<Rightarrow> bool" where
  "sha_clash L x y = (x \<noteq> y \<and> sha256_hex L x = sha256_hex L y)"

lemma hmac_binds:
  assumes "hmac_sha256 L key m = hmac_sha256 L key m'" "\<forall>x. is_sha256 (sha256_hex L x)"
    and "\<not> sha_clash L (hmac_outer L key m) (hmac_outer L key m')" "\<not> sha_clash L (hmac_inner L key m) (hmac_inner L key m')"
  shows "m = m'"
proof -
  have "hmac_outer L key m = hmac_outer L key m'" using assms(1,3) by (auto simp: sha_clash_def hmac_sha256_def)
  then have "fromhex (sha256_hex L (hmac_inner L key m)) = fromhex (sha256_hex L (hmac_inner L key m'))" by (simp add: hmac_outer_def)
  then have "sha256_hex L (hmac_inner L key m) = sha256_hex L (hmac_inner L key m')" using fromhex_sha256_inj assms(2) by blast
  then have "hmac_inner L key m = hmac_inner L key m'" using assms(4) by (auto simp: sha_clash_def)
  then show ?thesis by (simp add: hmac_inner_def)
qed

text \<open>The texts hashed for an attestation of an envelope and a proposal.\<close>

definition attested_texts :: "hostlib \<Rightarrow> string \<Rightarrow> transport_envelope \<Rightarrow> string \<Rightarrow> string list" where
  "attested_texts L key e proposal_digest =
     (let material = canonical_bytes L (attestation (te_envelope_digest e) proposal_digest) in
      [hmac_outer L key material, hmac_inner L key material, canonical_bytes L (jobj (te_envelope_payload e))])"

definition texts_clash :: "hostlib \<Rightarrow> string list \<Rightarrow> string list \<Rightarrow> bool" where
  "texts_clash L xs ys = (\<exists>row \<in> set (zip xs ys). sha_clash L (fst row) (snd row))"

lemma attestation_inj: "attestation a b = attestation c d \<longleftrightarrow> a = c \<and> b = d"
  unfolding attestation_def by (subst jobj_eq_iff) auto

lemma envelope_payload_inj:
  assumes "jobj (te_envelope_payload e) = jobj (te_envelope_payload f)" "te_envelope_digest e = te_envelope_digest f"
  shows "e = f"
proof -
  have "te_envelope_payload e = te_envelope_payload f"
    using assms(1) by (subst (asm) jobj_eq_iff) (simp_all add: te_envelope_payload_def)
  with assms(2) show ?thesis by (simp add: te_envelope_payload_def transport_envelope.equality)
qed

lemma signature_binds:
  assumes "float_repr_ok L" "\<forall>x. is_sha256 (sha256_hex L x)"
    and "te_envelope_digest e = canonical_digest L (jobj (te_envelope_payload e))" "te_envelope_digest f = canonical_digest L (jobj (te_envelope_payload f))"
    and "worker_sign L key (te_envelope_digest e) p = worker_sign L key (te_envelope_digest f) q"
    and "\<not> texts_clash L (attested_texts L key e p) (attested_texts L key f q)"
  shows "e = f \<and> p = q"
proof -
  have clash: "\<not> sha_clash L (hmac_outer L key (canonical_bytes L (attestation (te_envelope_digest e) p)))
        (hmac_outer L key (canonical_bytes L (attestation (te_envelope_digest f) q)))"
    "\<not> sha_clash L (hmac_inner L key (canonical_bytes L (attestation (te_envelope_digest e) p)))
        (hmac_inner L key (canonical_bytes L (attestation (te_envelope_digest f) q)))"
    "\<not> sha_clash L (canonical_bytes L (jobj (te_envelope_payload e))) (canonical_bytes L (jobj (te_envelope_payload f)))"
    using assms(6) by (auto simp: texts_clash_def attested_texts_def Let_def)
  have "canonical_bytes L (attestation (te_envelope_digest e) p) = canonical_bytes L (attestation (te_envelope_digest f) q)"
    using hmac_binds [OF _ assms(2) clash(1,2)] assms(5) by (simp add: worker_sign_def)
  from canonical_bytes_inj [OF assms(1) this] have same: "te_envelope_digest e = te_envelope_digest f" "p = q"
    by (auto simp: attestation_inj)
  then have "canonical_bytes L (jobj (te_envelope_payload e)) = canonical_bytes L (jobj (te_envelope_payload f))"
    using clash(3) assms(3,4) by (auto simp: sha_clash_def canonical_digest_def)
  then show ?thesis using canonical_bytes_inj [OF assms(1)] envelope_payload_inj same by blast
qed

section \<open>Admission\<close>

text \<open>What an admitted reply has passed.\<close>

definition reply_attested :: "hostlib \<Rightarrow> worker_admission \<Rightarrow> transport_envelope \<Rightarrow> machine_snapshot \<Rightarrow> worker_reply \<Rightarrow> bool" where
  "reply_attested L adm e state reply =
     (wr_signature reply = worker_sign L (wa_key adm) (te_envelope_digest e) (prop_proposal_digest (wr_proposal reply)) \<and>
      te_machine_id e = ident_machine_id (wa_identity adm) \<and> te_unit_digest e = unit_digest (wa_unit adm) \<and>
      set (te_capability_scope e) \<subseteq> set (wp_allowed_scopes (wa_policy adm)) \<and>
      int (length (canonical_bytes L (te_payload e))) \<le> wp_max_payload_bytes (wa_policy adm) \<and>
      prop_machine_id (wr_proposal reply) = snap_machine_id state \<and> prop_command_id (wr_proposal reply) = te_command_id e \<and>
      prop_base_revision (wr_proposal reply) = snap_revision state)"

lemma admit_attested:
  assumes "admit L adm e state reply = Inr c"
  shows "reply_attested L adm e state reply" "wc_proposal c = wr_proposal reply"
  using assms by (auto simp: admit_def worker_verify_def mk_candidate_def reply_attested_def res_simps)

lemma admit_iff:
  assumes "\<forall>c \<in> set (wr_signature reply). (of_char c :: nat) < 128"
  shows "is_ok (admit L adm e state reply) \<longleftrightarrow> reply_attested L adm e state reply \<and> candidate_depth_ok e (wr_proposal reply)"
  using assms by (auto simp: is_ok_iff admit_def worker_verify_def mk_candidate_def reply_attested_def res_simps)

lemma proxy_propose_attested:
  assumes "proxy_propose L u adm worker command state = Inr p"
  shows "\<exists>e reply. from_command L 1 (unit_digest u) command JNull = Inr e \<and> worker e state = Inr reply \<and>
    reply_attested L adm e state reply \<and> wr_proposal reply = p"
  using assms admit_attested by (fastforce simp: proxy_propose_def res_simps)

lemma step_through_worker:
  assumes "mem_wf (ex_journal ex)" "exec_step L cfg reading1 reading2 proposer (proxy_propose L u adm worker) command ex = (r, ex')"
    and "mem_commits (ex_journal ex') \<noteq> mem_commits (ex_journal ex)"
  shows "\<exists>c e state reply. ex_snapshot ex = Some state \<and> from_command L 1 (unit_digest u) command JNull = Inr e \<and>
    worker e state = Inr reply \<and> reply_attested L adm e state reply \<and> com_proposal_digest c = prop_proposal_digest (wr_proposal reply) \<and>
    mem_commits (ex_journal ex') = (mem_commits (ex_journal ex)) (cfg_machine_id cfg := mem_commits (ex_journal ex) (cfg_machine_id cfg) @ [c])"
proof -
  obtain c where fresh: "fresh_commit L cfg (proxy_propose L u adm worker) command ex c"
    and app: "mem_commits (ex_journal ex') = (mem_commits (ex_journal ex)) (cfg_machine_id cfg := mem_commits (ex_journal ex) (cfg_machine_id cfg) @ [c])"
    using exec_step_journal [OF assms(1,2)] assms(3) by blast
  from fresh obtain state proposal merged where s: "ex_snapshot ex = Some state" "proxy_propose L u adm worker command state = Inr proposal"
    "step_commit L cfg command state proposal merged = Inr c" unfolding fresh_commit_def by blast
  have "com_proposal_digest c = prop_proposal_digest proposal"
    using s(3) by (auto simp: step_commit_def commit_post_init_def Let_def res_simps)
  with proxy_propose_attested [OF s(2)] s(1) app show ?thesis by blast
qed

text \<open>A step depends on its proposer only through the answer for this command and snapshot.\<close>

lemma step_same_proposal:
  assumes "\<forall>s. ex_snapshot ex = Some s \<longrightarrow> propose command s = propose' command s"
  shows "step_proposal propose command ex = step_proposal propose' command ex"
  using assms by (cases "ex_snapshot ex") (simp_all add: step_proposal_def exec_require_open_def)

lemma exec_step_same_proposal:
  assumes "\<forall>s. ex_snapshot ex = Some s \<longrightarrow> propose command s = propose' command s"
  shows "exec_step L cfg reading1 reading2 proposer propose command ex = exec_step L cfg reading1 reading2 proposer propose' command ex"
proof -
  have fresh: "step_fresh L cfg reading1 reading2 propose command ex1 = step_fresh L cfg reading1 reading2 propose' command ex1" if "ex_snapshot ex1 = ex_snapshot ex" for ex1
  proof -
    obtain r a where "assert_authority cfg reading1 ex1 = (r, ex1\<lparr>ex_authority := a\<rparr>)" using assert_authority_frame by (metis surj_pair)
    then show ?thesis using step_same_proposal [of ex1 propose command propose'] assms that by (simp add: step_fresh_def act_bind_def split: sum.split)
  qed
  have "step_fresh L cfg reading1 reading2 propose command (ex\<lparr>ex_proposer := Some proposer\<rparr>) =
      step_fresh L cfg reading1 reading2 propose' command (ex\<lparr>ex_proposer := Some proposer\<rparr>)" by (rule fresh) simp
  then show ?thesis unfolding exec_step_def Let_def by (simp only:)
qed

end
