(* ===== verification/TaskState.thy ===== *)
theory TaskState
  imports Prelude
begin

text \<open>
  The logical state of a task group: \<^verbatim>\<open>concurrency/runtime/task_state.py\<close> with the records of \<^verbatim>\<open>task_records.py\<close>, the cancellation
  state of \<^verbatim>\<open>cancellation.py\<close> and the \<^verbatim>\<open>cancel\<close> of \<^verbatim>\<open>task_group.py\<close>.  Handles of executors and timers are numbers; what the host
  answers when a handle or the clock is read is the parameter \<open>host\<close>, and every \<^verbatim>\<open>cancel\<close> call on a handle is logged.
\<close>

section \<open>Data\<close>

datatype lane_kind = SERIAL | BLOCKING_IO | ASYNC_IO | CPU | TIMER

datatype failure_policy = FAIL_FAST | COLLECT_ALL

datatype failure_scope = GROUP_SCOPE | CALLER_SCOPE

datatype deadline_owner = OWNER_NONE | OWNER_GROUP | OWNER_TASK

datatype task_status = TASK_PENDING | TASK_RUNNING | TASK_SUCCEEDED | TASK_FAILED | TASK_CANCELLED

definition task_terminal_status :: "task_status \<Rightarrow> bool" where
  "task_terminal_status s = (s \<in> {TASK_SUCCEEDED, TASK_FAILED, TASK_CANCELLED})"

definition recurring_ended :: "task_status \<Rightarrow> bool" where
  "recurring_ended s = (s \<in> {TASK_FAILED, TASK_CANCELLED})"

text \<open>The exceptions the group tells apart; any other is known by the name of its class.\<close>

datatype task_error = TaskCancelled | TaskDeadlineExceeded | FutureCancelledError | OtherFailure string

definition failure_type :: "task_error \<Rightarrow> string" where
  "failure_type e = (case e of TaskCancelled \<Rightarrow> ''TaskCancelled'' | TaskDeadlineExceeded \<Rightarrow> ''TaskDeadlineExceeded''
     | FutureCancelledError \<Rightarrow> ''CancelledError'' | OtherFailure name \<Rightarrow> name)"

subsection \<open>Cancellation\<close>

record cancel_state =
  cs_event :: bool
  cs_reason :: "string option"
  cs_cancelled_at :: "rat option"
  cs_listeners :: "(nat \<times> nat) list"
  cs_next_listener :: nat
  cs_notified :: "nat list"

definition fresh_cancel :: cancel_state where
  "fresh_cancel = \<lparr>cs_event = False, cs_reason = None, cs_cancelled_at = None, cs_listeners = [], cs_next_listener = 0, cs_notified = []\<rparr>"

definition cs_cancel :: "rat \<Rightarrow> string \<Rightarrow> (cancel_state, bool) action" where
  "cs_cancel now reason cs =
     (if py_strip reason = [] then (Inl ValueError, cs)
      else if cs_event cs then (Inr False, cs)
      else (Inr True, cs\<lparr>cs_event := True, cs_reason := Some (py_strip reason), cs_cancelled_at := Some now,
              cs_listeners := [], cs_notified := cs_notified cs @ map snd (cs_listeners cs)\<rparr>))"

text \<open>A listener of a cancelled state is called at once and gets no number.\<close>

definition cs_subscribe :: "nat \<Rightarrow> (cancel_state, nat option) action" where
  "cs_subscribe callback cs =
     (if cs_event cs then (Inr None, cs\<lparr>cs_notified := cs_notified cs @ [callback]\<rparr>)
      else (Inr (Some (cs_next_listener cs)),
        cs\<lparr>cs_listeners := cs_listeners cs @ [(cs_next_listener cs, callback)], cs_next_listener := Suc (cs_next_listener cs)\<rparr>))"

definition cs_unsubscribe :: "nat option \<Rightarrow> cancel_state \<Rightarrow> cancel_state" where
  "cs_unsubscribe listener_id cs = (case listener_id of None \<Rightarrow> cs
     | Some i \<Rightarrow> cs\<lparr>cs_listeners := filter (\<lambda>l. fst l \<noteq> i) (cs_listeners cs)\<rparr>)"

subsection \<open>Records and the group\<close>

record task_record =
  tr_serial :: nat
  tr_lane_kind :: lane_kind
  tr_lane_id :: "string option"
  tr_deadline :: "rat option"
  tr_deadline_owner :: deadline_owner
  tr_failure_scope :: failure_scope
  tr_cancellation :: cancel_state
  tr_status :: task_status
  tr_failure :: "task_error option"
  tr_raw :: "nat option"
  tr_deadline_handle :: "nat option"

record recurring_record =
  rr_serial :: nat
  rr_lane_id :: string
  rr_deadline :: "rat option"
  rr_deadline_owner :: deadline_owner
  rr_failure_scope :: failure_scope
  rr_cancellation :: cancel_state
  rr_status :: task_status
  rr_failure :: "task_error option"
  rr_current :: "nat option"
  rr_submitted :: "rat option"
  rr_cancelled :: bool
  rr_deadline_handle :: "nat option"
  rr_timer_handle :: "nat option"

record task_group =
  tg_group_id :: string
  tg_policy :: failure_policy
  tg_cancellation :: cancel_state
  tg_deadline_handle :: "nat option"
  tg_tasks :: "(string \<times> task_record) list"
  tg_recurring :: "(string \<times> recurring_record) list"
  tg_next_serial :: nat
  tg_cancel_calls :: "nat list"

text \<open>The answers of the host at the moment of a call.\<close>

record raw_view =
  rv_done :: bool
  rv_running :: bool
  rv_completed :: "rat option"
  rv_outcome :: "task_error option"
  rv_cancels :: bool

record host_view =
  hv_now :: rat
  hv_raw :: "nat \<Rightarrow> raw_view"

definition adjust :: "string \<Rightarrow> ('r \<Rightarrow> 'r) \<Rightarrow> (string \<times> 'r) list \<Rightarrow> (string \<times> 'r) list" where
  "adjust key f rows = map (\<lambda>(k, r). (k, if k = key then f r else r)) rows"

definition adjust_task :: "string \<Rightarrow> (task_record \<Rightarrow> task_record) \<Rightarrow> task_group \<Rightarrow> task_group" where
  "adjust_task task_id f g = g\<lparr>tg_tasks := adjust task_id f (tg_tasks g)\<rparr>"

definition adjust_recurring :: "string \<Rightarrow> (recurring_record \<Rightarrow> recurring_record) \<Rightarrow> task_group \<Rightarrow> task_group" where
  "adjust_recurring task_id f g = g\<lparr>tg_recurring := adjust task_id f (tg_recurring g)\<rparr>"

definition cancel_handle :: "nat option \<Rightarrow> task_group \<Rightarrow> task_group" where
  "cancel_handle handle g = (case handle of None \<Rightarrow> g | Some h \<Rightarrow> g\<lparr>tg_cancel_calls := tg_cancel_calls g @ [h]\<rparr>)"

section \<open>Registration\<close>

definition reserve_task ::
    "string \<Rightarrow> lane_kind \<Rightarrow> string option \<Rightarrow> rat option \<Rightarrow> deadline_owner \<Rightarrow> failure_scope \<Rightarrow> (task_group, nat) action" where
  "reserve_task task_id lane lane_id deadline owner scope g =
     (if map_of (tg_tasks g) task_id \<noteq> None \<or> map_of (tg_recurring g) task_id \<noteq> None then (Inl ValueError, g)
      else (Inr (tg_next_serial g), g\<lparr>tg_next_serial := Suc (tg_next_serial g), tg_tasks := tg_tasks g @ [(task_id,
        \<lparr>tr_serial = tg_next_serial g, tr_lane_kind = lane, tr_lane_id = lane_id, tr_deadline = deadline, tr_deadline_owner = owner,
         tr_failure_scope = scope, tr_cancellation = fresh_cancel, tr_status = TASK_PENDING, tr_failure = None, tr_raw = None,
         tr_deadline_handle = None\<rparr>)]\<rparr>))"

definition discard_unstarted :: "string \<Rightarrow> nat \<Rightarrow> (task_group, unit) action" where
  "discard_unstarted task_id serial g = (case map_of (tg_tasks g) task_id of
       None \<Rightarrow> (Inl RuntimeError, g)
     | Some r \<Rightarrow>
         if tr_serial r \<noteq> serial then (Inl RuntimeError, g)
         else if tr_status r \<noteq> TASK_PENDING \<or> tr_raw r \<noteq> None \<or> tr_deadline_handle r \<noteq> None then (Inl RuntimeError, g)
         else (Inr (), g\<lparr>tg_tasks := filter (\<lambda>row. fst row \<noteq> task_id) (tg_tasks g)\<rparr>))"

definition reserve_recurring ::
    "string \<Rightarrow> string \<Rightarrow> rat option \<Rightarrow> deadline_owner \<Rightarrow> failure_scope \<Rightarrow> (task_group, nat) action" where
  "reserve_recurring task_id lane_id deadline owner scope g =
     (if map_of (tg_tasks g) task_id \<noteq> None \<or> map_of (tg_recurring g) task_id \<noteq> None then (Inl ValueError, g)
      else (Inr (tg_next_serial g), g\<lparr>tg_next_serial := Suc (tg_next_serial g), tg_recurring := tg_recurring g @ [(task_id,
        \<lparr>rr_serial = tg_next_serial g, rr_lane_id = lane_id, rr_deadline = deadline, rr_deadline_owner = owner, rr_failure_scope = scope,
         rr_cancellation = fresh_cancel, rr_status = TASK_PENDING, rr_failure = None, rr_current = None, rr_submitted = None,
         rr_cancelled = False, rr_deadline_handle = None, rr_timer_handle = None\<rparr>)]\<rparr>))"

definition bind_raw :: "string \<Rightarrow> nat \<Rightarrow> nat \<Rightarrow> bool \<Rightarrow> (task_group, unit) action" where
  "bind_raw task_id serial raw mark g = (case map_of (tg_tasks g) task_id of
       None \<Rightarrow> (Inl KeyError, g)
     | Some r \<Rightarrow>
         if tr_serial r \<noteq> serial then (Inl RuntimeError, g)
         else (Inr (), adjust_task task_id (\<lambda>r. r\<lparr>tr_raw := Some raw,
           tr_status := (if mark \<and> tr_status r = TASK_PENDING then TASK_RUNNING else tr_status r)\<rparr>) g))"

text \<open>A record that was discarded stays pending, one that was retired stays cancelled: binding them has no effect on the group.\<close>

definition bind_task_deadline :: "string \<Rightarrow> nat \<Rightarrow> nat \<Rightarrow> (task_group, bool) action" where
  "bind_task_deadline task_id serial handle g = (case map_of (tg_tasks g) task_id of
       Some r \<Rightarrow>
         if tr_serial r \<noteq> serial then (Inr True, g)
         else if task_terminal_status (tr_status r) then (Inr False, g)
         else (Inr True, adjust_task task_id (\<lambda>r. r\<lparr>tr_deadline_handle := Some handle\<rparr>) g)
     | None \<Rightarrow> (Inr True, g))"

definition bind_recurring_deadline :: "string \<Rightarrow> nat \<Rightarrow> nat \<Rightarrow> (task_group, bool) action" where
  "bind_recurring_deadline task_id serial handle g = (case map_of (tg_recurring g) task_id of
       Some r \<Rightarrow>
         if rr_serial r \<noteq> serial then (Inr False, g)
         else if recurring_ended (rr_status r) then (Inr False, g)
         else (Inr True, adjust_recurring task_id (\<lambda>r. r\<lparr>rr_deadline_handle := Some handle\<rparr>) g)
     | None \<Rightarrow> (Inr False, g))"

definition bind_recurring_timer :: "string \<Rightarrow> nat \<Rightarrow> nat \<Rightarrow> (task_group, bool) action" where
  "bind_recurring_timer task_id serial handle g = (case map_of (tg_recurring g) task_id of
       None \<Rightarrow> (Inl KeyError, g)
     | Some r \<Rightarrow>
         if rr_serial r \<noteq> serial then (Inl RuntimeError, g)
         else if recurring_ended (rr_status r) \<or> rr_cancelled r then (Inr False, g)
         else (Inr True, adjust_recurring task_id (\<lambda>r. r\<lparr>rr_timer_handle := Some handle, rr_status := TASK_RUNNING\<rparr>) g))"

definition set_recurring_current :: "host_view \<Rightarrow> string \<Rightarrow> nat \<Rightarrow> nat \<Rightarrow> rat option \<Rightarrow> (task_group, unit) action" where
  "set_recurring_current host task_id serial current submitted g = (case map_of (tg_recurring g) task_id of
       Some r \<Rightarrow>
         if rr_serial r = serial
         then (Inr (), adjust_recurring task_id (\<lambda>r. r\<lparr>rr_current := Some current,
                 rr_submitted := Some (case submitted of None \<Rightarrow> hv_now host | Some t \<Rightarrow> t)\<rparr>) g)
         else (Inr (), g)
     | None \<Rightarrow> (Inr (), g))"

definition current_busy :: "host_view \<Rightarrow> recurring_record \<Rightarrow> bool" where
  "current_busy host r = (case rr_current r of None \<Rightarrow> False | Some c \<Rightarrow> \<not> rv_done (hv_raw host c))"

text \<open>The record, whether to skip the tick, whether the deadline has passed.\<close>

definition recurring_tick_status ::
    "host_view \<Rightarrow> string \<Rightarrow> bool \<Rightarrow> bool \<Rightarrow> task_group \<Rightarrow> recurring_record option \<times> bool \<times> bool" where
  "recurring_tick_status host task_id sealed group_cancelled g = (case map_of (tg_recurring g) task_id of
       None \<Rightarrow> (None, True, False)
     | Some r \<Rightarrow>
         if sealed \<or> rr_cancelled r \<or> group_cancelled then (Some r, True, False)
         else if current_busy host r then (Some r, True, False)
         else if rr_failure r \<noteq> None then (Some r, True, False)
         else (Some r, False, (case rr_deadline r of None \<Rightarrow> False | Some d \<Rightarrow> d \<le> hv_now host)))"

section \<open>Ending tasks\<close>

text \<open>
  The common section of the marks: a terminal task is left alone; otherwise the deadline timer is dropped and cancelled.
  The answer is the record as it was, if the task was ended here.
\<close>

definition settle_task :: "string \<Rightarrow> task_status \<Rightarrow> (task_error option \<Rightarrow> task_error option) \<Rightarrow> (task_group, task_record option) action" where
  "settle_task task_id status failure g = (case map_of (tg_tasks g) task_id of
       None \<Rightarrow> (Inl KeyError, g)
     | Some r \<Rightarrow>
         if task_terminal_status (tr_status r) then (Inr None, g)
         else (Inr (Some r), cancel_handle (tr_deadline_handle r)
           (adjust_task task_id (\<lambda>r. r\<lparr>tr_status := status, tr_failure := failure (tr_failure r), tr_deadline_handle := None\<rparr>) g)))"

definition mark_running :: "string \<Rightarrow> (task_group, unit) action" where
  "mark_running task_id g = (case map_of (tg_tasks g) task_id of
       None \<Rightarrow> (Inl KeyError, g)
     | Some r \<Rightarrow> (Inr (), if tr_status r = TASK_PENDING then adjust_task task_id (\<lambda>r. r\<lparr>tr_status := TASK_RUNNING\<rparr>) g else g))"

definition mark_succeeded :: "string \<Rightarrow> (task_group, unit) action" where
  "mark_succeeded task_id = act_bind (settle_task task_id TASK_SUCCEEDED (\<lambda>f. f)) (\<lambda>_. act_lift (Inr ()))"

definition mark_cancelled :: "string \<Rightarrow> task_error option \<Rightarrow> (task_group, unit) action" where
  "mark_cancelled task_id failure =
     act_bind (settle_task task_id TASK_CANCELLED (\<lambda>f. if failure \<noteq> None \<and> f = None then failure else f)) (\<lambda>_. act_lift (Inr ()))"

definition cancel_task_record :: "host_view \<Rightarrow> string \<Rightarrow> string \<Rightarrow> (task_group, bool) action" where
  "cancel_task_record host task_id reason g = (case map_of (tg_tasks g) task_id of
       None \<Rightarrow> (Inl KeyError, g)
     | Some r \<Rightarrow> (case cs_cancel (hv_now host) reason (tr_cancellation r) of
           (Inl e, _) \<Rightarrow> (Inl e, g)
         | (Inr first, cs) \<Rightarrow> (Inr first, adjust_task task_id (\<lambda>r. r\<lparr>tr_cancellation := cs\<rparr>) g)))"

definition cancel_task :: "host_view \<Rightarrow> string \<Rightarrow> string \<Rightarrow> (task_group, bool) action" where
  "cancel_task host task_id reason g = (case map_of (tg_tasks g) task_id of
       None \<Rightarrow> (Inl KeyError, g)
     | Some r \<Rightarrow>
         if task_terminal_status (tr_status r) then (Inr False, g)
         else act_bind (cancel_task_record host task_id reason) (\<lambda>cooperative g1.
           let raw_cancelled = (case tr_raw r of None \<Rightarrow> False | Some raw \<Rightarrow> rv_cancels (hv_raw host raw)) in
           act_bind (mark_cancelled task_id None) (\<lambda>_. act_lift (Inr (cooperative \<or> raw_cancelled))) (cancel_handle (tr_raw r) g1)) g)"

text \<open>The section of \<^verbatim>\<open>cancel_recurring\<close>; the reason it gives is never blank.\<close>

definition cancel_recurring :: "host_view \<Rightarrow> string \<Rightarrow> (task_group, unit) action" where
  "cancel_recurring host task_id g = (case map_of (tg_recurring g) task_id of
       None \<Rightarrow> (Inr (), g)
     | Some r \<Rightarrow> (Inr (), cancel_handle (rr_timer_handle r) (cancel_handle (rr_current r) (cancel_handle (rr_deadline_handle r)
         (adjust_recurring task_id (\<lambda>r. r\<lparr>rr_cancelled := True,
            rr_cancellation := snd (cs_cancel (hv_now host) (''scheduled task cancelled: '' @ task_id) (rr_cancellation r)),
            rr_status := (if rr_status r \<noteq> TASK_FAILED then TASK_CANCELLED else rr_status r), rr_deadline_handle := None\<rparr>) g)))))"

fun for_each :: "('a \<Rightarrow> ('s, 'b) action) \<Rightarrow> 'a list \<Rightarrow> ('s, unit) action" where
  "for_each f [] s = (Inr (), s)"
| "for_each f (x # xs) s = act_bind (f x) (\<lambda>_. for_each f xs) s"

definition cancel_all_recurring :: "host_view \<Rightarrow> (task_group, unit) action" where
  "cancel_all_recurring host g = for_each (cancel_recurring host) (map fst (tg_recurring g)) g"

definition cancel_all :: "host_view \<Rightarrow> string \<Rightarrow> (task_group, unit) action" where
  "cancel_all host reason g =
     (let recurring_ids = map fst (tg_recurring g); task_ids = map fst (tg_tasks g) in
      act_bind (for_each (cancel_recurring host) recurring_ids) (\<lambda>_. for_each (\<lambda>task_id. cancel_task host task_id reason) task_ids) g)"

text \<open>\<^verbatim>\<open>TaskGroup.cancel\<close>, the callback \<^verbatim>\<open>cancel_group\<close> of the authority.\<close>

definition cancel_group :: "host_view \<Rightarrow> string \<Rightarrow> (task_group, unit) action" where
  "cancel_group host reason g = (case cs_cancel (hv_now host) reason (tg_cancellation g) of
       (Inl e, _) \<Rightarrow> (Inl e, g)
     | (Inr _, cs) \<Rightarrow> cancel_all host reason (cancel_handle (tg_deadline_handle g) (g\<lparr>tg_cancellation := cs, tg_deadline_handle := None\<rparr>)))"

definition fails_group :: "failure_scope \<Rightarrow> task_group \<Rightarrow> bool" where
  "fails_group scope g = (scope = GROUP_SCOPE \<and> tg_policy g = FAIL_FAST)"

definition mark_failed :: "host_view \<Rightarrow> string \<Rightarrow> task_error \<Rightarrow> (task_group, unit) action" where
  "mark_failed host task_id failure =
     act_bind (settle_task task_id TASK_FAILED (\<lambda>_. Some failure)) (\<lambda>ended g. case ended of
         None \<Rightarrow> (Inr (), g)
       | Some r \<Rightarrow> if fails_group (tr_failure_scope r) g then cancel_group host (''task failed: '' @ task_id) g else (Inr (), g))"

definition mark_recurring_execution_cancelled :: "string \<Rightarrow> (task_group, unit) action" where
  "mark_recurring_execution_cancelled task_id g = (Inr (), (case map_of (tg_recurring g) task_id of
       None \<Rightarrow> g
     | Some r \<Rightarrow> if rr_status r \<noteq> TASK_FAILED then adjust_recurring task_id (\<lambda>r. r\<lparr>rr_status := TASK_CANCELLED\<rparr>) g else g))"

text \<open>The section that fails a recurring task, and the record as it was.\<close>

definition fail_recurring :: "string \<Rightarrow> task_error \<Rightarrow> (recurring_record \<Rightarrow> recurring_record) \<Rightarrow> (task_group, recurring_record option) action" where
  "fail_recurring task_id failure extra g = (case map_of (tg_recurring g) task_id of
       None \<Rightarrow> (Inr None, g)
     | Some r \<Rightarrow>
         if recurring_ended (rr_status r) then (Inr None, g)
         else (Inr (Some r), cancel_handle (rr_deadline_handle r)
           (adjust_recurring task_id (\<lambda>r. extra (r\<lparr>rr_failure := Some failure, rr_status := TASK_FAILED, rr_deadline_handle := None\<rparr>)) g)))"

definition mark_recurring_failed :: "host_view \<Rightarrow> string \<Rightarrow> task_error \<Rightarrow> string option \<Rightarrow> (task_group, bool) action" where
  "mark_recurring_failed host task_id failure cancel_reason =
     act_bind (fail_recurring task_id failure (\<lambda>r. r\<lparr>rr_timer_handle := None\<rparr>)) (\<lambda>ended g. case ended of
         None \<Rightarrow> (Inr False, g)
       | Some r \<Rightarrow>
           (let g1 = cancel_handle (rr_timer_handle r) g;
                reason = (case cancel_reason of Some (c # cs) \<Rightarrow> c # cs | _ \<Rightarrow> ''scheduled task failed: '' @ task_id) in
            if fails_group (rr_failure_scope r) g1
            then act_bind (cancel_group host reason) (\<lambda>_. act_lift (Inr True)) g1 else (Inr True, g1)))"

section \<open>Deadlines\<close>

text \<open>A recurring task that misses its deadline cancels a fail-fast group whatever its failure scope.\<close>

definition expire_recurring :: "host_view \<Rightarrow> string \<Rightarrow> (task_group, unit) action" where
  "expire_recurring host task_id =
     act_bind (fail_recurring task_id TaskDeadlineExceeded (\<lambda>r. r\<lparr>rr_cancellation :=
         snd (cs_cancel (hv_now host) (''scheduled task deadline exceeded: '' @ task_id) (rr_cancellation r))\<rparr>)) (\<lambda>ended g. case ended of
         None \<Rightarrow> (Inr (), g)
       | Some r \<Rightarrow>
           (let g1 = cancel_handle (rr_timer_handle r) (cancel_handle (rr_current r) g) in
            if tg_policy g1 = FAIL_FAST then cancel_group host (''scheduled task deadline exceeded: '' @ task_id) g1 else (Inr (), g1)))"

definition min_time :: "rat option \<Rightarrow> rat option \<Rightarrow> rat option" where
  "min_time a b = (case (a, b) of (Some x, Some y) \<Rightarrow> Some (min x y) | (Some x, None) \<Rightarrow> Some x | (None, _) \<Rightarrow> b)"

text \<open>How a task whose handle is done ends.\<close>

definition conclude_task :: "host_view \<Rightarrow> string \<Rightarrow> task_record \<Rightarrow> raw_view \<Rightarrow> (task_group, unit) action" where
  "conclude_task host task_id r v g =
     (let completed = (case rv_completed v of Some c \<Rightarrow> if c = 0 then hv_now host else c | None \<Rightarrow> hv_now host) in
      if tr_deadline_owner r = OWNER_TASK \<and> (case tr_deadline r of None \<Rightarrow> False | Some d \<Rightarrow> d < completed)
      then mark_failed host task_id TaskDeadlineExceeded g
      else case rv_outcome v of
          Some FutureCancelledError \<Rightarrow>
            if tr_failure r = Some TaskDeadlineExceeded then mark_failed host task_id TaskDeadlineExceeded g
            else mark_cancelled task_id (Some FutureCancelledError) g
        | Some TaskCancelled \<Rightarrow> mark_cancelled task_id (Some TaskCancelled) g
        | Some TaskDeadlineExceeded \<Rightarrow>
            if tr_deadline_owner r = OWNER_GROUP
            then act_bind (cancel_group host (''task group deadline exceeded: '' @ tg_group_id g)) (\<lambda>_. mark_cancelled task_id (Some TaskCancelled)) g
            else mark_failed host task_id TaskDeadlineExceeded g
        | Some (OtherFailure name) \<Rightarrow> mark_failed host task_id (OtherFailure name) g
        | None \<Rightarrow> (case tr_failure r of
              Some f \<Rightarrow> mark_failed host task_id f g
            | None \<Rightarrow>
                (case min_time (cs_cancelled_at (tr_cancellation r)) (cs_cancelled_at (tg_cancellation g)) of
                   Some t \<Rightarrow> if t \<le> completed then mark_cancelled task_id None g else mark_succeeded task_id g
                 | None \<Rightarrow> mark_succeeded task_id g)))"

definition sync_terminal_from_raw :: "host_view \<Rightarrow> string \<Rightarrow> (task_group, unit) action" where
  "sync_terminal_from_raw host task_id g = (case map_of (tg_tasks g) task_id of
       None \<Rightarrow> (Inr (), g)
     | Some r \<Rightarrow> (case tr_raw r of
           None \<Rightarrow> (Inr (), g)
         | Some raw \<Rightarrow>
             (let v = hv_raw host raw in
              if \<not> rv_done v then
                (Inr (), if tr_status r = TASK_PENDING \<and> rv_running v then adjust_task task_id (\<lambda>r. r\<lparr>tr_status := TASK_RUNNING\<rparr>) g else g)
              else if task_terminal_status (tr_status r) then (Inr (), g)
              else conclude_task host task_id r v g)))"

text \<open>The first section of \<^verbatim>\<open>expire_task\<close>: a completion in time wins over the timer.  The timer that fires is not cancelled.\<close>

definition completed_in_time :: "host_view \<Rightarrow> task_record \<Rightarrow> bool" where
  "completed_in_time host r = (case (tr_raw r, tr_deadline r) of
       (Some raw, Some d) \<Rightarrow> (case rv_completed (hv_raw host raw) of None \<Rightarrow> False | Some c \<Rightarrow> c \<le> d)
     | _ \<Rightarrow> False)"

definition expire_section :: "string \<Rightarrow> task_group \<Rightarrow> task_group" where
  "expire_section task_id =
     adjust_task task_id (\<lambda>r. r\<lparr>tr_failure := Some TaskDeadlineExceeded, tr_status := TASK_FAILED, tr_deadline_handle := None\<rparr>)"

definition expire_task :: "host_view \<Rightarrow> string \<Rightarrow> (task_group, task_error) action" where
  "expire_task host task_id g = (case map_of (tg_tasks g) task_id of
       None \<Rightarrow> (Inl KeyError, g)
     | Some r \<Rightarrow>
         if task_terminal_status (tr_status r) then (Inr TaskDeadlineExceeded, g)
         else if completed_in_time host r then act_bind (sync_terminal_from_raw host task_id) (\<lambda>_. act_lift (Inr TaskDeadlineExceeded)) g
         else (let g1 = expire_section task_id g;
                   g2 = (if tr_lane_kind r \<noteq> CPU then snd (cancel_task_record host task_id (''task deadline exceeded: '' @ task_id) g1) else g1);
                   g3 = cancel_handle (tr_raw r) g2 in
               if fails_group (tr_failure_scope r) g3
               then act_bind (cancel_group host (''task deadline exceeded: '' @ task_id)) (\<lambda>_. act_lift (Inr TaskDeadlineExceeded)) g3
               else (Inr TaskDeadlineExceeded, g3)))"

section \<open>Queries\<close>

definition read_task :: "host_view \<Rightarrow> string \<Rightarrow> (task_record \<Rightarrow> 'a) \<Rightarrow> (task_group, 'a) action" where
  "read_task host task_id f = act_bind (sync_terminal_from_raw host task_id) (\<lambda>_ g. case map_of (tg_tasks g) task_id of
       None \<Rightarrow> (Inl KeyError, g) | Some r \<Rightarrow> (Inr (f r), g))"

definition task_state :: "host_view \<Rightarrow> string \<Rightarrow> (task_group, task_status) action" where
  "task_state host task_id = read_task host task_id tr_status"

definition task_failure :: "host_view \<Rightarrow> string \<Rightarrow> (task_group, task_error option) action" where
  "task_failure host task_id = read_task host task_id tr_failure"

definition task_terminal :: "host_view \<Rightarrow> string \<Rightarrow> (task_group, bool) action" where
  "task_terminal host task_id = read_task host task_id (\<lambda>r. task_terminal_status (tr_status r))"

definition task_outcome :: "host_view \<Rightarrow> string \<Rightarrow> (task_group, task_status \<times> task_error option \<times> failure_scope) action" where
  "task_outcome host task_id = read_task host task_id (\<lambda>r. (tr_status r, tr_failure r, tr_failure_scope r))"

definition retire_cancelled_recurring :: "host_view \<Rightarrow> string \<Rightarrow> (task_group, unit) action" where
  "retire_cancelled_recurring host task_id g = (case map_of (tg_recurring g) task_id of
       None \<Rightarrow> (Inr (), g)
     | Some r \<Rightarrow>
         if \<not> rr_cancelled r \<or> rr_status r \<noteq> TASK_CANCELLED \<or> current_busy host r then (Inl RuntimeError, g)
         else (Inr (), g\<lparr>tg_recurring := filter (\<lambda>row. fst row \<noteq> task_id) (tg_recurring g)\<rparr>))"

definition recurring_overdue_seconds :: "(rat \<Rightarrow> rat \<Rightarrow> rat) \<Rightarrow> host_view \<Rightarrow> string \<Rightarrow> rat option \<Rightarrow> task_group \<Rightarrow> rat option" where
  "recurring_overdue_seconds fsub host task_id now_monotonic g = (case map_of (tg_recurring g) task_id of
       None \<Rightarrow> None
     | Some r \<Rightarrow> if current_busy host r
         then map_option (\<lambda>t. max 0 (fsub (case now_monotonic of None \<Rightarrow> hv_now host | Some n \<Rightarrow> n) t)) (rr_submitted r) else None)"

definition recurring_failure :: "string \<Rightarrow> task_group \<Rightarrow> task_error option" where
  "recurring_failure task_id g = (case map_of (tg_recurring g) task_id of None \<Rightarrow> None | Some r \<Rightarrow> rr_failure r)"

definition recurring_outcome :: "string \<Rightarrow> task_group \<Rightarrow> (task_status \<times> task_error option \<times> nat option) res" where
  "recurring_outcome task_id g = (case map_of (tg_recurring g) task_id of
     None \<Rightarrow> Inl KeyError | Some r \<Rightarrow> Inr (rr_status r, rr_failure r, rr_current r))"

definition sync_all :: "host_view \<Rightarrow> (task_group, unit) action" where
  "sync_all host g = for_each (sync_terminal_from_raw host) (map fst (tg_tasks g)) g"

definition group_failures :: "host_view \<Rightarrow> (task_group, task_error list) action" where
  "group_failures host = act_bind (sync_all host) (\<lambda>_ g.
     (Inr (map the (filter (\<lambda>f. f \<noteq> None)
       (map (\<lambda>(_, r). if tr_status r = TASK_FAILED \<and> tr_failure_scope r = GROUP_SCOPE then tr_failure r else None) (tg_tasks g) @
        map (\<lambda>(_, r). if rr_status r = TASK_FAILED \<and> rr_failure_scope r = GROUP_SCOPE then rr_failure r else None) (tg_recurring g)))), g))"

definition execution_done :: "host_view \<Rightarrow> task_record \<Rightarrow> bool" where
  "execution_done host r = (case tr_raw r of None \<Rightarrow> task_terminal_status (tr_status r) | Some raw \<Rightarrow> rv_done (hv_raw host raw))"

definition all_execution_done :: "host_view \<Rightarrow> task_group \<Rightarrow> bool" where
  "all_execution_done host g =
     ((\<forall>row \<in> set (tg_tasks g). execution_done host (snd row)) \<and> (\<forall>row \<in> set (tg_recurring g). \<not> current_busy host (snd row)))"

record topology_row =
  tp_task_id :: string
  tp_lane_kind :: lane_kind
  tp_lane_id :: "string option"
  tp_status :: task_status
  tp_execution_done :: bool
  tp_deadline :: "rat option"
  tp_failure_type :: "string option"
  tp_failure_scope :: failure_scope

definition task_row :: "host_view \<Rightarrow> string \<times> task_record \<Rightarrow> topology_row" where
  "task_row host row = (let r = snd row in \<lparr>tp_task_id = fst row, tp_lane_kind = tr_lane_kind r, tp_lane_id = tr_lane_id r, tp_status = tr_status r,
     tp_execution_done = execution_done host r, tp_deadline = tr_deadline r, tp_failure_type = map_option failure_type (tr_failure r),
     tp_failure_scope = tr_failure_scope r\<rparr>)"

definition recurring_row :: "host_view \<Rightarrow> string \<times> recurring_record \<Rightarrow> topology_row" where
  "recurring_row host row = (let r = snd row in \<lparr>tp_task_id = fst row, tp_lane_kind = SERIAL, tp_lane_id = Some (rr_lane_id r), tp_status = rr_status r,
     tp_execution_done = (task_terminal_status (rr_status r) \<and> \<not> current_busy host r), tp_deadline = rr_deadline r,
     tp_failure_type = map_option failure_type (rr_failure r), tp_failure_scope = rr_failure_scope r\<rparr>)"

definition group_topology :: "host_view \<Rightarrow> (task_group, topology_row list) action" where
  "group_topology host = act_bind (sync_all host) (\<lambda>_ g.
     (Inr (sort_key tp_task_id (map (task_row host) (tg_tasks g) @ map (recurring_row host) (tg_recurring g))), g))"

end
