(* ===== verification/TaskStateProofs.thy ===== *)
theory TaskStateProofs
  imports TaskState
begin

text \<open>
  What the task state authority guarantees.  A \<open>group_step\<close> is one section under the lock, or one call on a cancellation state or
  a handle, by any thread and with any answers of the host; every method is a sequence of such steps, so what the steps keep
  holds under every interleaving of the methods.
\<close>

section \<open>Rows\<close>

lemma map_of_adjust [simp]: "map_of (adjust key f rows) k = (if k = key then map_option f (map_of rows k) else map_of rows k)"
  by (induction rows) (auto simp: adjust_def)

lemma adjust_keys [simp]: "map fst (adjust key f rows) = map fst rows"
  by (induction rows) (auto simp: adjust_def)

lemma map_of_remove: "map_of (filter (\<lambda>row. fst row \<noteq> key) rows) k = (if k = key then None else map_of rows k)"
  by (induction rows) auto

lemma map_of_append_new: "map_of rows key = None \<Longrightarrow> map_of (rows @ [(key, r)]) k = (if k = key then Some r else map_of rows k)"
  by (auto simp: map_add_def split: option.splits)

lemma adjust_task_fields [simp]: "tg_tasks (adjust_task key f g) = adjust key f (tg_tasks g)" "tg_recurring (adjust_task key f g) = tg_recurring g"
  "tg_policy (adjust_task key f g) = tg_policy g" "tg_cancellation (adjust_task key f g) = tg_cancellation g"
  by (simp_all add: adjust_task_def)

lemma adjust_recurring_fields [simp]: "tg_recurring (adjust_recurring key f g) = adjust key f (tg_recurring g)"
  "tg_tasks (adjust_recurring key f g) = tg_tasks g" "tg_policy (adjust_recurring key f g) = tg_policy g"
  "tg_cancellation (adjust_recurring key f g) = tg_cancellation g"
  by (simp_all add: adjust_recurring_def)

lemma cancel_handle_fields [simp]: "tg_tasks (cancel_handle h g) = tg_tasks g" "tg_recurring (cancel_handle h g) = tg_recurring g"
  "tg_policy (cancel_handle h g) = tg_policy g" "tg_cancellation (cancel_handle h g) = tg_cancellation g"
  by (simp_all add: cancel_handle_def split: option.splits)

section \<open>Steps\<close>

inductive group_step :: "task_group \<Rightarrow> task_group \<Rightarrow> bool" where
  task_reserved: "group_step g (snd (reserve_task task_id lane lane_id deadline owner scope g))"
| task_discarded: "group_step g (snd (discard_unstarted task_id serial g))"
| recurring_reserved: "group_step g (snd (reserve_recurring task_id rlane deadline owner scope g))"
| raw_bound: "group_step g (snd (bind_raw task_id serial raw mark g))"
| deadline_bound: "group_step g (snd (bind_task_deadline task_id serial handle g))"
| recurring_deadline_bound: "group_step g (snd (bind_recurring_deadline task_id serial handle g))"
| timer_bound: "group_step g (snd (bind_recurring_timer task_id serial handle g))"
| current_set: "group_step g (snd (set_recurring_current host task_id serial raw submitted g))"
| running: "group_step g (snd (mark_running task_id g))"
| settled: "group_step g (snd (settle_task task_id status failure g))"
| expired: "map_of (tg_tasks g) task_id = Some r \<Longrightarrow> \<not> task_terminal_status (tr_status r) \<Longrightarrow> group_step g (expire_section task_id g)"
| token_cancelled: "group_step g (snd (cancel_task_record host task_id reason g))"
| handle_cancelled: "group_step g (cancel_handle h g)"
| group_token_cancelled: "group_step g (g\<lparr>tg_cancellation := snd (cs_cancel t reason (tg_cancellation g)), tg_deadline_handle := None\<rparr>)"
| recurring_cancelled: "group_step g (snd (cancel_recurring host task_id g))"
| execution_cancelled: "group_step g (snd (mark_recurring_execution_cancelled task_id g))"
| recurring_failed: "group_step g (snd (fail_recurring task_id e (\<lambda>r. r\<lparr>rr_timer_handle := None\<rparr>) g))"
| recurring_expired: "group_step g (snd (fail_recurring task_id e (\<lambda>r. r\<lparr>rr_cancellation := snd (cs_cancel t reason (rr_cancellation r))\<rparr>) g))"
| recurring_retired: "group_step g (snd (retire_cancelled_recurring host task_id g))"

text \<open>What a record keeps once it has ended.\<close>

definition task_kept :: "task_record \<Rightarrow> task_record option \<Rightarrow> bool" where
  "task_kept r r' = (case r' of None \<Rightarrow> False | Some q \<Rightarrow> tr_serial q = tr_serial r \<and> tr_status q = tr_status r \<and> tr_failure q = tr_failure r)"

definition recurring_kept :: "recurring_record \<Rightarrow> recurring_record option \<Rightarrow> bool" where
  "recurring_kept r r' = (case r' of None \<Rightarrow> True | Some q \<Rightarrow> rr_serial q = rr_serial r \<longrightarrow> rr_status q = rr_status r \<and> rr_failure q = rr_failure r)"

lemmas section_defs = reserve_task_def discard_unstarted_def reserve_recurring_def bind_raw_def bind_task_deadline_def bind_recurring_deadline_def
  bind_recurring_timer_def set_recurring_current_def mark_running_def settle_task_def expire_section_def cancel_task_record_def
  cancel_recurring_def mark_recurring_execution_cancelled_def fail_recurring_def retire_cancelled_recurring_def

lemma task_final_step:
  assumes "group_step g g'" "map_of (tg_tasks g) task_id = Some r" "task_terminal_status (tr_status r)"
  shows "task_kept r (map_of (tg_tasks g') task_id)"
  using assms
  by (induction rule: group_step.induct)
     (auto simp: section_defs task_kept_def map_of_append_new map_of_remove task_terminal_status_def split: option.splits prod.splits sum.splits)

definition group_wf :: "task_group \<Rightarrow> bool" where
  "group_wf g = ((\<forall>k r. map_of (tg_recurring g) k = Some r \<longrightarrow> rr_serial r < tg_next_serial g) \<and>
     (\<forall>k r. map_of (tg_tasks g) k = Some r \<longrightarrow> map_of (tg_recurring g) k = None))"

lemma adjust_serial [simp]: "tg_next_serial (adjust_task key f g) = tg_next_serial g" "tg_next_serial (adjust_recurring key h g) = tg_next_serial g"
  "tg_next_serial (cancel_handle c g) = tg_next_serial g"
  by (simp_all add: adjust_task_def adjust_recurring_def cancel_handle_def split: option.splits)

lemma group_wf_step: "group_step g g' \<Longrightarrow> group_wf g \<Longrightarrow> group_wf g'"
  by (induction rule: group_step.induct)
     (auto simp: section_defs group_wf_def map_of_append_new map_of_remove less_Suc_eq split: option.splits prod.splits sum.splits if_splits)

lemma serial_step: "group_step g g' \<Longrightarrow> tg_next_serial g \<le> tg_next_serial g'"
  by (induction rule: group_step.induct) (auto simp: section_defs split: option.splits prod.splits sum.splits)

text \<open>A step keeps the records of a registration, or removes it, or registers anew.\<close>

lemma recurring_step:
  assumes "group_step g g'" "map_of (tg_recurring g') k = Some q"
  shows "tg_next_serial g \<le> rr_serial q \<or> (\<exists>r. map_of (tg_recurring g) k = Some r \<and> rr_serial q = rr_serial r \<and>
    (recurring_ended (rr_status r) \<longrightarrow> rr_status q = rr_status r \<and> rr_failure q = rr_failure r))"
  using assms
  by (induction rule: group_step.induct)
     (auto simp: section_defs map_of_append_new map_of_remove recurring_ended_def split: option.splits prod.splits sum.splits if_splits)

text \<open>An ended task stays as it is; an ended recurring task stays as it is for as long as it is registered.\<close>

lemma task_final:
  assumes "group_step\<^sup>*\<^sup>* g g'" "map_of (tg_tasks g) task_id = Some r" "task_terminal_status (tr_status r)"
  shows "task_kept r (map_of (tg_tasks g') task_id)"
  using assms(1)
proof (induction rule: rtranclp_induct)
  case base
  then show ?case using assms(2) by (simp add: task_kept_def)
next
  case (step g1 g2)
  then obtain q where q: "map_of (tg_tasks g1) task_id = Some q" "tr_serial q = tr_serial r" "tr_status q = tr_status r" "tr_failure q = tr_failure r"
    by (auto simp: task_kept_def split: option.splits)
  then have "task_kept q (map_of (tg_tasks g2) task_id)" using task_final_step [OF step(2) q(1)] assms(3) by simp
  then show ?case using q by (auto simp: task_kept_def split: option.splits)
qed

lemma group_wf_steps: "group_step\<^sup>*\<^sup>* g g' \<Longrightarrow> group_wf g \<Longrightarrow> group_wf g' \<and> tg_next_serial g \<le> tg_next_serial g'"
proof (induction rule: rtranclp_induct)
  case (step g1 g2)
  then show ?case using group_wf_step [OF step(2)] serial_step [OF step(2)] by auto
qed simp

lemma recurring_final:
  assumes "group_step\<^sup>*\<^sup>* g g'" "group_wf g" "map_of (tg_recurring g) task_id = Some r" "recurring_ended (rr_status r)"
  shows "recurring_kept r (map_of (tg_recurring g') task_id)"
  using assms(1)
proof (induction rule: rtranclp_induct)
  case base
  then show ?case using assms(3) by (simp add: recurring_kept_def)
next
  case (step g1 g2)
  have old: "rr_serial r < tg_next_serial g1" using group_wf_steps [OF step(1) assms(2)] assms(2,3) by (force simp: group_wf_def)
  show ?case
  proof (cases "map_of (tg_recurring g2) task_id")
    case (Some q)
    have "rr_status q = rr_status r \<and> rr_failure q = rr_failure r" if same: "rr_serial q = rr_serial r"
    proof -
      obtain p where p: "map_of (tg_recurring g1) task_id = Some p" "rr_serial q = rr_serial p"
        "recurring_ended (rr_status p) \<longrightarrow> rr_status q = rr_status p \<and> rr_failure q = rr_failure p"
        using recurring_step [OF step(2) Some] old same by auto
      then show ?thesis using step(3) same assms(4) by (auto simp: recurring_kept_def)
    qed
    then show ?thesis using Some by (simp add: recurring_kept_def)
  qed (simp add: recurring_kept_def)
qed

section \<open>Methods are sequences of steps\<close>

definition by_steps :: "(task_group, 'a) action \<Rightarrow> bool" where
  "by_steps m = (\<forall>g. group_step\<^sup>*\<^sup>* g (snd (m g)))"

lemma by_stepsI: "(\<And>g. group_step\<^sup>*\<^sup>* g (snd (m g))) \<Longrightarrow> by_steps m"
  by (simp add: by_steps_def)

lemma by_stepsD: "by_steps m \<Longrightarrow> group_step\<^sup>*\<^sup>* g (snd (m g))"
  by (simp add: by_steps_def)

lemma by_steps_bind:
  assumes "by_steps m" "\<And>x. by_steps (f x)"
  shows "by_steps (act_bind m f)"
proof (rule by_stepsI)
  fix g
  obtain r g1 where m: "m g = (r, g1)" by (cases "m g")
  have first: "group_step\<^sup>*\<^sup>* g g1" using by_stepsD [OF assms(1), of g] m by simp
  show "group_step\<^sup>*\<^sup>* g (snd (act_bind m f g))"
    using first rtranclp_trans [OF first] by_stepsD [OF assms(2)] m by (cases r) (auto simp: act_bind_def)
qed

lemma by_steps_lift [simp]: "by_steps (act_lift r)"
  by (simp add: by_steps_def act_lift_def)

lemma by_steps_each: "(\<And>x. by_steps (f x)) \<Longrightarrow> by_steps (for_each f xs)"
proof (induction xs)
  case Nil
  then show ?case by (simp add: by_steps_def)
next
  case (Cons x xs)
  have "for_each f (x # xs) = act_bind (f x) (\<lambda>_. for_each f xs)" by (rule ext) simp
  then show ?case using by_steps_bind [of "f x" "\<lambda>_. for_each f xs"] Cons by simp
qed

lemma step_one: "(\<And>g. group_step g (snd (m g))) \<Longrightarrow> by_steps m"
  by (simp add: by_steps_def r_into_rtranclp)

lemma section_steps: "by_steps (settle_task k status failure)" "by_steps (cancel_task_record host k reason)" "by_steps (cancel_recurring host k)"
  "by_steps (mark_running k)" "by_steps (fail_recurring k e (\<lambda>r. r\<lparr>rr_timer_handle := None\<rparr>))"
  "by_steps (fail_recurring k e (\<lambda>r. r\<lparr>rr_cancellation := snd (cs_cancel t reason (rr_cancellation r))\<rparr>))"
  by (rule step_one, rule group_step.intros)+

lemma mark_steps: "by_steps (mark_succeeded k)" "by_steps (mark_cancelled k failure)"
  unfolding mark_succeeded_def mark_cancelled_def by (intro by_steps_bind section_steps by_steps_lift)+

lemma cancel_task_steps: "by_steps (cancel_task host k reason)"
proof (rule by_stepsI)
  fix g
  have rest: "by_steps (\<lambda>g1. act_bind (mark_cancelled k None) (\<lambda>_. act_lift (Inr (c \<or> b))) (cancel_handle h g1))" for c b h
  proof (rule by_stepsI)
    fix g1
    have "group_step\<^sup>*\<^sup>* (cancel_handle h g1) (snd (act_bind (mark_cancelled k None) (\<lambda>_. act_lift (Inr (c \<or> b))) (cancel_handle h g1)))"
      by (rule by_stepsD) (intro by_steps_bind mark_steps by_steps_lift)
    then show "group_step\<^sup>*\<^sup>* g1 (snd (act_bind (mark_cancelled k None) (\<lambda>_. act_lift (Inr (c \<or> b))) (cancel_handle h g1)))"
      using group_step.handle_cancelled by (rule converse_rtranclp_into_rtranclp [rotated])
  qed
  show "group_step\<^sup>*\<^sup>* g (snd (cancel_task host k reason g))"
    using by_stepsD [OF by_steps_bind [OF section_steps(2) rest]] by (auto simp: cancel_task_def Let_def split: option.splits)
qed

lemma cancel_group_steps: "by_steps (cancel_group host reason)"
proof (rule by_stepsI)
  fix g
  have all: "by_steps (cancel_all host reason)"
    unfolding cancel_all_def Let_def
    by (rule by_stepsI) (intro by_stepsD by_steps_bind by_steps_each section_steps cancel_task_steps)
  show "group_step\<^sup>*\<^sup>* g (snd (cancel_group host reason g))"
  proof (cases "cs_cancel (hv_now host) reason (tg_cancellation g)")
    case (Pair r cs)
    then show ?thesis
    proof (cases r)
      case (Inr first)
      let ?g = "g\<lparr>tg_cancellation := cs, tg_deadline_handle := None\<rparr>"
      have "group_step g ?g" using group_step.group_token_cancelled [of g "hv_now host" reason] Pair by simp
      moreover have "group_step ?g (cancel_handle (tg_deadline_handle g) ?g)" by (rule group_step.handle_cancelled)
      moreover note by_stepsD [OF all, of "cancel_handle (tg_deadline_handle g) ?g"]
      ultimately show ?thesis using Pair Inr by (simp add: cancel_group_def)
    qed (simp add: cancel_group_def)
  qed
qed

lemma mark_failed_steps: "by_steps (mark_failed host k failure)"
  unfolding mark_failed_def
proof (rule by_steps_bind [OF section_steps(1)])
  fix ended
  show "by_steps (\<lambda>g. case ended of None \<Rightarrow> (Inr (), g)
      | Some r \<Rightarrow> if fails_group (tr_failure_scope r) g then cancel_group host (''task failed: '' @ k) g else (Inr (), g))"
    by (rule by_stepsI) (auto split: option.splits intro: by_stepsD [OF cancel_group_steps])
qed

lemma steps_then: "group_step g g1 \<Longrightarrow> group_step\<^sup>*\<^sup>* g1 g2 \<Longrightarrow> group_step\<^sup>*\<^sup>* g g2"
  by (rule converse_rtranclp_into_rtranclp)

lemma mark_recurring_failed_steps: "by_steps (mark_recurring_failed host k e reason)"
  unfolding mark_recurring_failed_def
proof (rule by_steps_bind [OF section_steps(5)], rule by_stepsI)
  fix ended g
  have "group_step\<^sup>*\<^sup>* g (snd (act_bind (cancel_group host why) (\<lambda>_. act_lift (Inr True)) (cancel_handle h g)))" for h why
    by (rule steps_then [OF group_step.handle_cancelled], rule by_stepsD) (intro by_steps_bind cancel_group_steps by_steps_lift)
  then show "group_step\<^sup>*\<^sup>* g (snd (case ended of None \<Rightarrow> (Inr False, g) | Some r \<Rightarrow>
      (let g1 = cancel_handle (rr_timer_handle r) g; reason = (case reason of Some (c # cs) \<Rightarrow> c # cs | _ \<Rightarrow> ''scheduled task failed: '' @ k) in
       if fails_group (rr_failure_scope r) g1 then act_bind (cancel_group host reason) (\<lambda>_. act_lift (Inr True)) g1 else (Inr True, g1))))"
    by (auto simp: Let_def split: option.splits intro: r_into_rtranclp group_step.handle_cancelled)
qed

lemma expire_recurring_steps: "by_steps (expire_recurring host k)"
  unfolding expire_recurring_def
proof (rule by_steps_bind [OF section_steps(6)], rule by_stepsI)
  fix ended g
  have two: "group_step\<^sup>*\<^sup>* g (cancel_handle h (cancel_handle h' g))" for h h'
    by (rule steps_then [OF group_step.handle_cancelled]) (rule r_into_rtranclp [of group_step, OF group_step.handle_cancelled])
  have "group_step\<^sup>*\<^sup>* g (snd (cancel_group host why (cancel_handle h (cancel_handle h' g))))" for h h' why
    by (rule rtranclp_trans [OF two]) (rule by_stepsD [OF cancel_group_steps])
  with two show "group_step\<^sup>*\<^sup>* g (snd (case ended of None \<Rightarrow> (Inr (), g) | Some r \<Rightarrow>
      (let g1 = cancel_handle (rr_timer_handle r) (cancel_handle (rr_current r) g) in
       if tg_policy g1 = FAIL_FAST then cancel_group host (''scheduled task deadline exceeded: '' @ k) g1 else (Inr (), g1))))"
    by (auto simp: Let_def split: option.splits)
qed

lemma conclude_steps: "by_steps (conclude_task host k r v)"
proof (rule by_stepsI)
  fix g
  have late: "group_step\<^sup>*\<^sup>* g (snd (act_bind (cancel_group host why) (\<lambda>_. mark_cancelled k f) g))" for why f
    by (rule by_stepsD) (intro by_steps_bind cancel_group_steps mark_steps)
  note ends = by_stepsD [OF mark_failed_steps] by_stepsD [OF mark_steps(1)] by_stepsD [OF mark_steps(2)] late
  show "group_step\<^sup>*\<^sup>* g (snd (conclude_task host k r v g))"
    unfolding conclude_task_def Let_def by (simp add: ends split: option.split task_error.split)
qed

lemma sync_steps: "by_steps (sync_terminal_from_raw host k)"
proof (rule by_stepsI)
  fix g
  have run: "group_step\<^sup>*\<^sup>* g (adjust_task k (\<lambda>r. r\<lparr>tr_status := TASK_RUNNING\<rparr>) g)"
    if "map_of (tg_tasks g) k = Some r" "tr_status r = TASK_PENDING" for r
    using by_stepsD [OF section_steps(4) [of k], of g] that by (simp add: mark_running_def)
  show "group_step\<^sup>*\<^sup>* g (snd (sync_terminal_from_raw host k g))"
    unfolding sync_terminal_from_raw_def Let_def using run by (simp add: by_stepsD [OF conclude_steps] split: option.split)
qed

lemma expire_task_steps: "by_steps (expire_task host k)"
proof (rule by_stepsI)
  fix g
  let ?why = "''task deadline exceeded: '' @ k"
  have sync: "group_step\<^sup>*\<^sup>* g (snd (act_bind (sync_terminal_from_raw host k) (\<lambda>_. act_lift (Inr e)) g))" for e :: task_error
    by (rule by_stepsD) (intro by_steps_bind sync_steps by_steps_lift)
  have token: "group_step\<^sup>*\<^sup>* g1 (cancel_handle h (if b then snd (cancel_task_record host k ?why g1) else g1))" for g1 h b
    using group_step.token_cancelled [of g1 host k ?why] group_step.handle_cancelled [of _ h] by (cases b) (auto intro: steps_then)
  have group: "group_step\<^sup>*\<^sup>* g3 (snd (act_bind (cancel_group host why) (\<lambda>_. act_lift (Inr e)) g3))" for g3 why and e :: task_error
    by (rule by_stepsD) (intro by_steps_bind cancel_group_steps by_steps_lift)
  show "group_step\<^sup>*\<^sup>* g (snd (expire_task host k g))"
  proof (cases "map_of (tg_tasks g) k")
    case (Some r)
    show ?thesis
    proof (cases "task_terminal_status (tr_status r) \<or> completed_in_time host r")
      case False
      then have "group_step g (expire_section k g)" using group_step.expired [OF Some] by blast
      from steps_then [OF this token] have base: "group_step\<^sup>*\<^sup>* g (cancel_handle h (if b then snd (cancel_task_record host k ?why (expire_section k g)) else expire_section k g))" for h b .
      show ?thesis using False Some base rtranclp_trans [OF base group] by (simp add: expire_task_def Let_def)
    qed (use Some sync in \<open>auto simp: expire_task_def\<close>)
  qed (simp add: expire_task_def)
qed

section \<open>Cancelling a group\<close>

definition tasks_like :: "(string \<Rightarrow> bool) \<Rightarrow> task_group \<Rightarrow> task_group \<Rightarrow> bool" where
  "tasks_like P g g' = (map fst (tg_tasks g') = map fst (tg_tasks g) \<and> (\<forall>k. P k \<longrightarrow> map_of (tg_tasks g') k = map_of (tg_tasks g) k))"

definition task_ended :: "task_group \<Rightarrow> string \<Rightarrow> bool" where
  "task_ended g k = (case map_of (tg_tasks g) k of None \<Rightarrow> False | Some r \<Rightarrow> task_terminal_status (tr_status r))"

lemma ended_final:
  assumes "group_step\<^sup>*\<^sup>* g g'" "task_ended g k"
  shows "task_ended g' k"
proof -
  obtain r where "map_of (tg_tasks g) k = Some r" "task_terminal_status (tr_status r)" using assms(2) by (auto simp: task_ended_def split: option.splits)
  then show ?thesis using task_final [OF assms(1), of k r] by (auto simp: task_kept_def task_ended_def split: option.splits)
qed

lemma cs_cancel_nonblank: "py_strip reason \<noteq> [] \<Longrightarrow> \<exists>b cs'. cs_cancel t reason cs = (Inr b, cs') \<and> cs_event cs'"
  by (auto simp: cs_cancel_def)

lemma cancel_task_ends:
  assumes "map_of (tg_tasks g) k \<noteq> None" "py_strip reason \<noteq> []"
  shows "\<exists>b g'. cancel_task host k reason g = (Inr b, g') \<and> task_ended g' k \<and> tasks_like (\<lambda>j. j \<noteq> k) g g' \<and> tg_recurring g' = tg_recurring g \<and>
    tg_cancellation g' = tg_cancellation g"
proof -
  obtain r where r: "map_of (tg_tasks g) k = Some r" using assms(1) by blast
  show ?thesis
  proof (cases "task_terminal_status (tr_status r)")
    case True
    then have "cancel_task host k reason g = (Inr False, g)" using r by (simp add: cancel_task_def)
    moreover have "task_ended g k" "tasks_like (\<lambda>j. j \<noteq> k) g g" using r True by (simp_all add: task_ended_def tasks_like_def)
    ultimately show ?thesis by blast
  next
    case False
    obtain b cs where c: "cs_cancel (hv_now host) reason (tr_cancellation r) = (Inr b, cs)" using cs_cancel_nonblank [OF assms(2)] by metis
    show ?thesis using r False c
      by (simp add: cancel_task_def cancel_task_record_def mark_cancelled_def settle_task_def act_bind_def act_lift_def task_ended_def tasks_like_def
          task_terminal_status_def)
  qed
qed

lemma cancel_tasks_end:
  assumes "set ks \<subseteq> set (map fst (tg_tasks g))" "py_strip reason \<noteq> []"
  shows "\<exists>g'. for_each (\<lambda>k. cancel_task host k reason) ks g = (Inr (), g') \<and> (\<forall>k \<in> set ks. task_ended g' k) \<and>
    map fst (tg_tasks g') = map fst (tg_tasks g) \<and> tg_recurring g' = tg_recurring g \<and> tg_cancellation g' = tg_cancellation g"
  using assms(1)
proof (induction ks arbitrary: g)
  case (Cons k ks)
  have "map_of (tg_tasks g) k \<noteq> None" using Cons.prems by (auto simp: map_of_eq_None_iff)
  then obtain b g1 where one: "cancel_task host k reason g = (Inr b, g1)" "task_ended g1 k" "tasks_like (\<lambda>j. j \<noteq> k) g g1" "tg_recurring g1 = tg_recurring g"
    "tg_cancellation g1 = tg_cancellation g" using cancel_task_ends [OF _ assms(2)] by blast
  have keys: "map fst (tg_tasks g1) = map fst (tg_tasks g)" using one(3) by (simp add: tasks_like_def)
  then obtain g2 where rest: "for_each (\<lambda>k. cancel_task host k reason) ks g1 = (Inr (), g2)" "\<forall>k \<in> set ks. task_ended g2 k"
    "map fst (tg_tasks g2) = map fst (tg_tasks g1)" "tg_recurring g2 = tg_recurring g1" "tg_cancellation g2 = tg_cancellation g1"
    using Cons.IH [of g1] Cons.prems by (auto simp: map_of_eq_None_iff)
  have "by_steps (for_each (\<lambda>k. cancel_task host k reason) ks)" by (intro by_steps_each cancel_task_steps)
  from by_stepsD [OF this, of g1] have "group_step\<^sup>*\<^sup>* g1 g2" by (simp add: rest(1))
  then have "task_ended g2 k" using one(2) by (rule ended_final)
  then show ?case using one rest keys by (simp add: act_bind_def)
qed simp

definition recurring_closed :: "task_group \<Rightarrow> string \<Rightarrow> bool" where
  "recurring_closed g k = (case map_of (tg_recurring g) k of None \<Rightarrow> True | Some r \<Rightarrow> rr_cancelled r \<and> recurring_ended (rr_status r) \<and> rr_deadline_handle r = None)"

lemma cancel_recurring_closes:
  "\<exists>g'. cancel_recurring host k g = (Inr (), g') \<and> recurring_closed g' k \<and> (\<forall>j. recurring_closed g j \<longrightarrow> recurring_closed g' j) \<and>
     map fst (tg_recurring g') = map fst (tg_recurring g) \<and> tg_tasks g' = tg_tasks g \<and> tg_cancellation g' = tg_cancellation g"
  by (cases "map_of (tg_recurring g) k")
     (auto simp: cancel_recurring_def recurring_closed_def recurring_ended_def split: option.splits)

lemma cancel_recurrings_close:
  "\<exists>g'. for_each (cancel_recurring host) ks g = (Inr (), g') \<and> (\<forall>k. k \<in> set ks \<or> recurring_closed g k \<longrightarrow> recurring_closed g' k) \<and>
     map fst (tg_recurring g') = map fst (tg_recurring g) \<and> tg_tasks g' = tg_tasks g \<and> tg_cancellation g' = tg_cancellation g"
proof (induction ks arbitrary: g)
  case (Cons k ks)
  obtain g1 where one: "cancel_recurring host k g = (Inr (), g1)" "recurring_closed g1 k" "\<forall>j. recurring_closed g j \<longrightarrow> recurring_closed g1 j"
    "map fst (tg_recurring g1) = map fst (tg_recurring g)" "tg_tasks g1 = tg_tasks g" "tg_cancellation g1 = tg_cancellation g"
    using cancel_recurring_closes by blast
  obtain g2 where rest: "for_each (cancel_recurring host) ks g1 = (Inr (), g2)" "\<forall>k. k \<in> set ks \<or> recurring_closed g1 k \<longrightarrow> recurring_closed g2 k"
    "map fst (tg_recurring g2) = map fst (tg_recurring g1)" "tg_tasks g2 = tg_tasks g1" "tg_cancellation g2 = tg_cancellation g1"
    using Cons.IH by blast
  have "for_each (cancel_recurring host) (k # ks) g = (Inr (), g2)" using one(1) rest(1) by (simp add: act_bind_def)
  then show ?case using one rest by (intro exI [of _ g2]) auto
qed simp

text \<open>After a cancellation nothing of the group is alive.\<close>

definition group_ended :: "task_group \<Rightarrow> bool" where
  "group_ended g = (cs_event (tg_cancellation g) \<and> (\<forall>k \<in> fst ` set (tg_tasks g). task_ended g k) \<and> (\<forall>k. recurring_closed g k))"

lemma cancel_group_ends:
  assumes "py_strip reason \<noteq> []"
  shows "\<exists>g'. cancel_group host reason g = (Inr (), g') \<and> group_ended g' \<and> map fst (tg_tasks g') = map fst (tg_tasks g) \<and>
    map fst (tg_recurring g') = map fst (tg_recurring g)"
proof -
  obtain b cs where c: "cs_cancel (hv_now host) reason (tg_cancellation g) = (Inr b, cs)" "cs_event cs" using cs_cancel_nonblank [OF assms] by metis
  define g0 where "g0 = cancel_handle (tg_deadline_handle g) (g\<lparr>tg_cancellation := cs, tg_deadline_handle := None\<rparr>)"
  have g0: "tg_tasks g0 = tg_tasks g" "tg_recurring g0 = tg_recurring g" "tg_cancellation g0 = cs" by (simp_all add: g0_def)
  obtain g1 where r: "for_each (cancel_recurring host) (map fst (tg_recurring g0)) g0 = (Inr (), g1)"
    "\<forall>k. k \<in> set (map fst (tg_recurring g0)) \<or> recurring_closed g0 k \<longrightarrow> recurring_closed g1 k"
    "map fst (tg_recurring g1) = map fst (tg_recurring g0)" "tg_tasks g1 = tg_tasks g0" "tg_cancellation g1 = tg_cancellation g0"
    using cancel_recurrings_close by blast
  obtain g2 where t: "for_each (\<lambda>k. cancel_task host k reason) (map fst (tg_tasks g0)) g1 = (Inr (), g2)"
    "\<forall>k \<in> set (map fst (tg_tasks g0)). task_ended g2 k" "map fst (tg_tasks g2) = map fst (tg_tasks g1)" "tg_recurring g2 = tg_recurring g1"
    "tg_cancellation g2 = tg_cancellation g1"
    using cancel_tasks_end [of "map fst (tg_tasks g0)" g1 reason host] assms r(4) by auto
  have run: "cancel_group host reason g = (Inr (), g2)"
    using c(1) r(1) t(1) by (simp add: cancel_group_def cancel_all_def Let_def act_bind_def g0_def [symmetric] g0(1,2))
  have "recurring_closed g1 k" for k
  proof (cases "k \<in> set (map fst (tg_recurring g0))")
    case False
    then have "recurring_closed g0 k" by (simp add: recurring_closed_def map_of_eq_None_iff [THEN iffD2])
    then show ?thesis using r(2) by blast
  qed (use r(2) in blast)
  then have "recurring_closed g2 k" for k using t(4) by (simp add: recurring_closed_def)
  moreover have "fst ` set (tg_tasks g2) = set (map fst (tg_tasks g0))" by (metis list.set_map r(4) t(3))
  ultimately have "group_ended g2" using t(2,5) r(5) g0(3) c(2) by (simp add: group_ended_def)
  then show ?thesis using run t(3,4) r(3,4) g0 by simp
qed

section \<open>Failures\<close>

lemma reasons_given: "py_strip (''task failed: '' @ k) \<noteq> []" "py_strip (''scheduled task deadline exceeded: '' @ k) \<noteq> []"
  "py_strip (''scheduled task failed: '' @ k) \<noteq> []" "py_strip (''task deadline exceeded: '' @ k) \<noteq> []" "py_strip (''task group deadline exceeded: '' @ k) \<noteq> []"
  by (simp_all add: nonblank_def [symmetric] nonblank_iff py_isspace_def)

definition task_is :: "task_group \<Rightarrow> string \<Rightarrow> task_status \<Rightarrow> task_error option \<Rightarrow> bool" where
  "task_is g k status failure = (case map_of (tg_tasks g) k of None \<Rightarrow> False | Some r \<Rightarrow> tr_status r = status \<and> tr_failure r = failure)"

lemma task_is_final:
  assumes "group_step\<^sup>*\<^sup>* g g'" "task_is g k status failure" "task_terminal_status status"
  shows "task_is g' k status failure"
proof -
  obtain r where "map_of (tg_tasks g) k = Some r" "tr_status r = status" "tr_failure r = failure"
    using assms(2) by (auto simp: task_is_def split: option.splits)
  then show ?thesis using task_final [OF assms(1), of k r] assms(3) by (auto simp: task_is_def task_kept_def split: option.splits)
qed

text \<open>A failure of a task cancels its group exactly if the group fails fast and the task fails for the group.\<close>

definition only_task_changed :: "string \<Rightarrow> task_group \<Rightarrow> task_group \<Rightarrow> bool" where
  "only_task_changed k g g' = (tasks_like (\<lambda>j. j \<noteq> k) g g' \<and> tg_recurring g' = tg_recurring g \<and> tg_cancellation g' = tg_cancellation g)"

lemma mark_failed_outcome:
  assumes "map_of (tg_tasks g) k = Some r" "\<not> task_terminal_status (tr_status r)"
  shows "\<exists>g'. mark_failed host k failure g = (Inr (), g') \<and> task_is g' k TASK_FAILED (Some failure) \<and>
    (if fails_group (tr_failure_scope r) g then group_ended g' else only_task_changed k g g')"
proof -
  define g1 where "g1 = cancel_handle (tr_deadline_handle r)
    (adjust_task k (\<lambda>r. r\<lparr>tr_status := TASK_FAILED, tr_failure := Some failure, tr_deadline_handle := None\<rparr>) g)"
  have settled: "settle_task k TASK_FAILED (\<lambda>_. Some failure) g = (Inr (Some r), g1)" using assms by (simp add: settle_task_def g1_def)
  have g1: "task_is g1 k TASK_FAILED (Some failure)" "only_task_changed k g g1" "tg_policy g1 = tg_policy g"
    using assms(1) by (simp_all add: g1_def task_is_def only_task_changed_def tasks_like_def)
  have same: "fails_group (tr_failure_scope r) g1 = fails_group (tr_failure_scope r) g" by (simp add: fails_group_def g1(3))
  show ?thesis
  proof (cases "fails_group (tr_failure_scope r) g")
    case True
    obtain g2 where g2: "cancel_group host (''task failed: '' @ k) g1 = (Inr (), g2)" "group_ended g2" using cancel_group_ends [OF reasons_given(1)] by blast
    have "group_step\<^sup>*\<^sup>* g1 g2" using by_stepsD [OF cancel_group_steps, of g1 host "''task failed: '' @ k"] by (simp only: g2(1) snd_conv)
    then have "task_is g2 k TASK_FAILED (Some failure)" using g1(1) by (rule task_is_final) (simp add: task_terminal_status_def)
    then show ?thesis using settled g2 True same by (simp add: mark_failed_def act_bind_def)
  next
    case False
    then show ?thesis using settled g1 same by (simp add: mark_failed_def act_bind_def)
  qed
qed

text \<open>The same holds for a recurring task that is reported as failed, but not for one whose deadline passes.\<close>

lemma fail_recurring_outcome:
  assumes "map_of (tg_recurring g) k = Some r" "\<not> recurring_ended (rr_status r)"
  shows "\<exists>g'. fail_recurring k e extra g = (Inr (Some r), g') \<and> tg_tasks g' = tg_tasks g \<and> tg_policy g' = tg_policy g \<and> tg_cancellation g' = tg_cancellation g"
  using assms by (simp add: fail_recurring_def)

lemma expire_recurring_cancels:
  assumes "map_of (tg_recurring g) k = Some r" "\<not> recurring_ended (rr_status r)" "tg_policy g = FAIL_FAST"
  shows "\<exists>g'. expire_recurring host k g = (Inr (), g') \<and> group_ended g' \<and> map fst (tg_tasks g') = map fst (tg_tasks g)"
proof -
  let ?extra = "\<lambda>r. r\<lparr>rr_cancellation := snd (cs_cancel (hv_now host) (''scheduled task deadline exceeded: '' @ k) (rr_cancellation r))\<rparr>"
  obtain g1 where g1: "fail_recurring k TaskDeadlineExceeded ?extra g = (Inr (Some r), g1)" "tg_tasks g1 = tg_tasks g" "tg_policy g1 = tg_policy g"
    using fail_recurring_outcome [OF assms(1,2)] by blast
  let ?g = "cancel_handle (rr_timer_handle r) (cancel_handle (rr_current r) g1)"
  obtain g2 where "cancel_group host (''scheduled task deadline exceeded: '' @ k) ?g = (Inr (), g2)" "group_ended g2"
    "map fst (tg_tasks g2) = map fst (tg_tasks ?g)" using cancel_group_ends [OF reasons_given(2)] by blast
  then show ?thesis using g1 assms(3) by (simp add: expire_recurring_def act_bind_def Let_def)
qed

lemma mark_recurring_failed_isolated:
  assumes "map_of (tg_recurring g) k = Some r" "\<not> recurring_ended (rr_status r)" "rr_failure_scope r = CALLER_SCOPE"
  shows "\<exists>g'. mark_recurring_failed host k e reason g = (Inr True, g') \<and> tg_tasks g' = tg_tasks g \<and> tg_cancellation g' = tg_cancellation g"
  using fail_recurring_outcome [OF assms(1,2), of e "\<lambda>r. r\<lparr>rr_timer_handle := None\<rparr>"] assms(3)
  by (auto simp: mark_recurring_failed_def act_bind_def Let_def fails_group_def)

section \<open>Success\<close>

text \<open>When a task whose handle is done counts as a success.\<close>

definition success_due :: "host_view \<Rightarrow> task_group \<Rightarrow> task_record \<Rightarrow> raw_view \<Rightarrow> bool" where
  "success_due host g r v =
     (rv_done v \<and> rv_outcome v = None \<and> tr_failure r = None \<and>
      (let completed = (case rv_completed v of Some c \<Rightarrow> if c = 0 then hv_now host else c | None \<Rightarrow> hv_now host) in
       (tr_deadline_owner r = OWNER_TASK \<longrightarrow> (\<forall>d. tr_deadline r = Some d \<longrightarrow> completed \<le> d)) \<and>
       (\<forall>t. cs_cancelled_at (tr_cancellation r) = Some t \<or> cs_cancelled_at (tg_cancellation g) = Some t \<longrightarrow> completed < t)))"

lemma min_time_some: "min_time a b = Some t \<Longrightarrow> (t \<le> c \<longleftrightarrow> (\<exists>x. (a = Some x \<or> b = Some x) \<and> x \<le> c))"
  by (auto simp: min_time_def min_le_iff_disj split: option.splits)

lemma min_time_none: "min_time a b = None \<longleftrightarrow> a = None \<and> b = None"
  by (auto simp: min_time_def split: option.splits)

text \<open>Cancelling never makes a task succeed.\<close>

definition unsuccessful :: "string \<Rightarrow> task_group \<Rightarrow> bool" where
  "unsuccessful k g = (\<forall>r. map_of (tg_tasks g) k = Some r \<longrightarrow> tr_status r \<noteq> TASK_SUCCEEDED)"

definition group_keeps :: "(task_group \<Rightarrow> bool) \<Rightarrow> (task_group, 'a) action \<Rightarrow> bool" where
  "group_keeps P m = (\<forall>g. P g \<longrightarrow> P (snd (m g)))"

lemma group_keeps_bind: "group_keeps P m \<Longrightarrow> (\<And>x. group_keeps P (f x)) \<Longrightarrow> group_keeps P (act_bind m f)"
  unfolding group_keeps_def act_bind_def by (metis (mono_tags, lifting) prod.case_eq_if snd_conv sum.case_eq_if)

lemma group_keeps_each: "(\<And>x. group_keeps P (f x)) \<Longrightarrow> group_keeps P (for_each f xs)"
proof (induction xs)
  case Nil
  then show ?case by (simp add: group_keeps_def)
next
  case (Cons x xs)
  have "for_each f (x # xs) = act_bind (f x) (\<lambda>_. for_each f xs)" by (rule ext) simp
  then show ?case using group_keeps_bind [of P "f x" "\<lambda>_. for_each f xs"] Cons by simp
qed

lemma group_keeps_mark_cancelled: "group_keeps (unsuccessful k) (mark_cancelled j failure)"
  by (auto simp: group_keeps_def unsuccessful_def mark_cancelled_def settle_task_def act_bind_def act_lift_def split: option.splits)

lemma group_keeps_cancel_task: "group_keeps (unsuccessful k) (cancel_task host j reason)"
  by (auto simp: group_keeps_def unsuccessful_def cancel_task_def cancel_task_record_def mark_cancelled_def settle_task_def act_bind_def act_lift_def
      split: option.splits prod.splits sum.splits)

lemma group_keeps_cancel_group: "group_keeps (unsuccessful k) (cancel_group host reason)"
proof -
  have rec: "group_keeps (unsuccessful k) (cancel_recurring host j)" for j
    by (auto simp: group_keeps_def unsuccessful_def cancel_recurring_def split: option.splits)
  have all: "group_keeps (unsuccessful k) (act_bind (for_each (cancel_recurring host) rs) (\<lambda>_. for_each (\<lambda>j. cancel_task host j reason) js))" for rs js
    by (intro group_keeps_bind group_keeps_each rec group_keeps_cancel_task)
  show ?thesis unfolding group_keeps_def
  proof (intro allI impI)
    fix g assume g: "unsuccessful k g"
    let ?g = "\<lambda>cs. cancel_handle (tg_deadline_handle g) (g\<lparr>tg_cancellation := cs, tg_deadline_handle := None\<rparr>)"
    have "unsuccessful k (?g cs)" for cs using g by (simp add: unsuccessful_def)
    then have "unsuccessful k (snd (cancel_all host reason (?g cs)))" for cs using all unfolding group_keeps_def cancel_all_def Let_def by blast
    then show "unsuccessful k (snd (cancel_group host reason g))" using g by (simp add: cancel_group_def split: prod.split sum.split)
  qed
qed

lemma conclude_success:
  assumes "map_of (tg_tasks g) k = Some r" "\<not> task_terminal_status (tr_status r)" "rv_done v"
  shows "(\<exists>q. map_of (tg_tasks (snd (conclude_task host k r v g))) k = Some q \<and> tr_status q = TASK_SUCCEEDED) \<longleftrightarrow> success_due host g r v"
proof -
  have start: "unsuccessful k g" using assms(1,2) by (simp add: unsuccessful_def task_terminal_status_def)
  have failed: "unsuccessful k (snd (mark_failed host k f g))" for f
    using mark_failed_outcome [OF assms(1,2), of host f] by (auto simp: unsuccessful_def task_is_def split: option.splits)
  have cancelled: "unsuccessful k (snd (mark_cancelled k f g))" for f using group_keeps_mark_cancelled start unfolding group_keeps_def by blast
  have late: "unsuccessful k (snd (act_bind (cancel_group host why) (\<lambda>_. mark_cancelled k f) g))" for why f
    using group_keeps_bind [of "unsuccessful k" "cancel_group host why" "\<lambda>_. mark_cancelled k f", OF group_keeps_cancel_group group_keeps_mark_cancelled] start
    unfolding group_keeps_def by blast
  have ok: "\<exists>q. map_of (tg_tasks (snd (mark_succeeded k g))) k = Some q \<and> tr_status q = TASK_SUCCEEDED"
    using assms(1,2) by (simp add: mark_succeeded_def settle_task_def act_bind_def act_lift_def)
  define completed where "completed = (case rv_completed v of Some c \<Rightarrow> if c = 0 then hv_now host else c | None \<Rightarrow> hv_now host)"
  define missed where "missed = (tr_deadline_owner r = OWNER_TASK \<and> (case tr_deadline r of None \<Rightarrow> False | Some d \<Rightarrow> d < completed))"
  define before where "before = (case min_time (cs_cancelled_at (tr_cancellation r)) (cs_cancelled_at (tg_cancellation g)) of None \<Rightarrow> False | Some t \<Rightarrow> t \<le> completed)"
  have due: "success_due host g r v \<longleftrightarrow> rv_outcome v = None \<and> tr_failure r = None \<and> \<not> missed \<and> \<not> before"
    unfolding success_due_def Let_def completed_def [symmetric] missed_def before_def using assms(3)
    by (auto simp: min_time_some min_time_none not_le split: option.splits)
  have not_due: "unsuccessful k (snd (conclude_task host k r v g))" if "\<not> success_due host g r v"
  proof (cases "missed \<or> rv_outcome v \<noteq> None \<or> tr_failure r \<noteq> None")
    case True
    then show ?thesis unfolding conclude_task_def Let_def completed_def [symmetric] missed_def [symmetric]
      by (auto simp: failed cancelled late split: option.split task_error.split)
  next
    case False
    then have "conclude_task host k r v g = mark_cancelled k None g" using that due
      unfolding conclude_task_def Let_def completed_def [symmetric] missed_def [symmetric] by (auto simp: before_def split: option.splits)
    then show ?thesis using cancelled by simp
  qed
  have "conclude_task host k r v g = mark_succeeded k g" if "success_due host g r v" using that due
    unfolding conclude_task_def Let_def completed_def [symmetric] missed_def [symmetric] by (auto simp: before_def split: option.splits)
  then show ?thesis using ok not_due unfolding unsuccessful_def by metis
qed

end
