(* ===== verification/RuntimeSamples.thy ===== *)
theory RuntimeSamples
  imports Worker TaskStateProofs Samples
begin

text \<open>
  Concrete values for the witnesses of the runtime components: a worker that signs its proposal, and a
  fail-fast group with one task and one recurring task that fails for its caller only.
\<close>

section \<open>A worker\<close>

definition sample_admission :: worker_admission where
  "sample_admission = \<lparr>wa_identity = cfg_identity sample_config, wa_unit = sample_unit,
     wa_policy = \<lparr>wp_machine_id = ''m'', wp_unit_digest = zeros, wp_worker_id = ''k'', wp_allowed_scopes = [], wp_max_payload_bytes = 4\<rparr>,
     wa_key = ''k''\<rparr>"

definition sample_reply :: worker_reply where
  "sample_reply = \<lparr>wr_proposal = sample_proposal, wr_signature = zeros\<rparr>"

definition sample_transport :: transport_envelope where
  "sample_transport = \<lparr>te_version = 1, te_machine_id = ''m'', te_unit_digest = zeros, te_command_id = ''c1'', te_command_kind = ''k'',
     te_expected_revision = 0, te_payload = JNull, te_payload_digest = zeros, te_parent_transition_id = JNull, te_capability_scope = [],
     te_deadline_at = JNull, te_parent_command_id = JNull, te_idempotency_key = JNull, te_envelope_digest = zeros\<rparr>"

lemma sample_from_command: "from_command sample_lib 1 zeros sample_command JNull = Inr sample_transport"
  by (simp add: from_command_def transport_post_init_def sample_command_def sample_transport_def construction_defs)

lemma sample_admit: "\<exists>c. admit sample_lib sample_admission sample_transport sample_snapshot sample_reply = Inr c \<and> wc_proposal c = sample_proposal"
proof -
  have "length (canonical_bytes sample_lib JNull) = 4" by (simp add: canonical_bytes_def utf8_def utf8_char_def)
  moreover have "list_all (\<lambda>c. (of_char c :: nat) < 128) zeros" by (simp add: zeros_def list_all_iff)
  ultimately show ?thesis
    by (simp add: admit_def worker_verify_def worker_sign_def hmac_sha256_def mk_candidate_def candidate_depth_ok_def sample_admission_def sample_transport_def
        sample_reply_def sample_proposal_def sample_snapshot_def sample_delta_def sample_emitted_def sample_config_def sample_unit_def list_all_iff)
qed

lemma sample_proxy: "proxy_propose sample_lib sample_unit sample_admission (\<lambda>_ _. Inr sample_reply) sample_command sample_snapshot = Inr sample_proposal"
  using sample_admit by (auto simp: proxy_propose_def sample_from_command sample_unit_def)

lemma sample_worker_step:
  "exec_step sample_lib sample_config sample_reading sample_reading 0 (proxy_propose sample_lib sample_unit sample_admission (\<lambda>_ _. Inr sample_reply))
     sample_command sample_opened = (Inr sample_commit, sample_stepped)"
  using sample_step_ok exec_step_same_proposal [of sample_opened "proxy_propose sample_lib sample_unit sample_admission (\<lambda>_ _. Inr sample_reply)" sample_command sample_propose]
  by (simp add: sample_proxy sample_propose_def)

section \<open>A task group\<close>

definition sample_task :: task_record where
  "sample_task = \<lparr>tr_serial = 0, tr_lane_kind = CPU, tr_lane_id = None, tr_deadline = None, tr_deadline_owner = OWNER_NONE, tr_failure_scope = GROUP_SCOPE,
     tr_cancellation = fresh_cancel, tr_status = TASK_RUNNING, tr_failure = None, tr_raw = Some 0, tr_deadline_handle = None\<rparr>"

definition sample_recurring :: recurring_record where
  "sample_recurring = \<lparr>rr_serial = 1, rr_lane_id = ''l'', rr_deadline = Some 1, rr_deadline_owner = OWNER_TASK, rr_failure_scope = CALLER_SCOPE,
     rr_cancellation = fresh_cancel, rr_status = TASK_RUNNING, rr_failure = None, rr_current = None, rr_submitted = None, rr_cancelled = False,
     rr_deadline_handle = None, rr_timer_handle = None\<rparr>"

definition sample_group :: task_group where
  "sample_group = \<lparr>tg_group_id = ''g'', tg_policy = FAIL_FAST, tg_cancellation = fresh_cancel, tg_deadline_handle = None, tg_tasks = [(''t'', sample_task)],
     tg_recurring = [(''h'', sample_recurring)], tg_next_serial = 2, tg_cancel_calls = []\<rparr>"

definition sample_host :: host_view where
  "sample_host = \<lparr>hv_now = 5, hv_raw = (\<lambda>_. \<lparr>rv_done = True, rv_running = False, rv_completed = Some 4, rv_outcome = None, rv_cancels = False\<rparr>)\<rparr>"

lemma sample_group_wf: "group_wf sample_group"
  by (simp add: group_wf_def sample_group_def sample_recurring_def)

end
