(* ===== verification/Retry.thy ===== *)
theory Retry
  imports Prelude
begin

text \<open>
  \<^verbatim>\<open>foundation/kernel/kernel/retry.py\<close>: one synchronous operation is repeated until it succeeds, fails for good or runs
  past an absolute deadline.  The operation, the clock and the sleep act on a state of the caller's choice; the
  float sum and difference of the deadline are the parameters \<open>fadd\<close> and \<open>fsub\<close>.
\<close>

definition blocking_wait :: "(rat \<Rightarrow> 's \<Rightarrow> 's) \<Rightarrow> rat \<Rightarrow> ('s, unit) action" where
  "blocking_wait sleep delay s = (if delay < 0 then (Inl ValueError, s) else (Inr (), sleep delay s))"

partial_function (option) retry_loop ::
    "('s, 'a) action \<Rightarrow> ('s \<Rightarrow> rat \<times> 's) \<Rightarrow> (rat \<Rightarrow> 's \<Rightarrow> 's) \<Rightarrow> (rat \<Rightarrow> rat \<Rightarrow> rat) \<Rightarrow> (py_error \<Rightarrow> bool) \<Rightarrow> rat \<Rightarrow> rat
      \<Rightarrow> 's \<Rightarrow> ('a res \<times> 's) option" where
  "retry_loop operation monotonic sleep fsub should_retry interval deadline s =
     (case operation s of
        (Inr v, s1) \<Rightarrow> Some (Inr v, s1)
      | (Inl exc, s1) \<Rightarrow>
          (case monotonic s1 of (now, s2) \<Rightarrow>
           let remaining = fsub deadline now in
           if \<not> should_retry exc \<or> remaining \<le> 0 then Some (Inl exc, s2)
           else case blocking_wait sleep (min interval remaining) s2 of
               (Inl e, s3) \<Rightarrow> Some (Inl e, s3)
             | (Inr _, s3) \<Rightarrow> retry_loop operation monotonic sleep fsub should_retry interval deadline s3))"

definition retry_until_deadline ::
    "('s, 'a) action \<Rightarrow> ('s \<Rightarrow> rat \<times> 's) \<Rightarrow> (rat \<Rightarrow> 's \<Rightarrow> 's) \<Rightarrow> (rat \<Rightarrow> rat \<Rightarrow> rat) \<Rightarrow> (rat \<Rightarrow> rat \<Rightarrow> rat) \<Rightarrow> (py_error \<Rightarrow> bool)
      \<Rightarrow> rat \<Rightarrow> rat \<Rightarrow> 's \<Rightarrow> ('a res \<times> 's) option" where
  "retry_until_deadline operation monotonic sleep fadd fsub should_retry timeout interval s =
     (if timeout < 0 then Some (Inl ValueError, s)
      else if interval \<le> 0 then Some (Inl ValueError, s)
      else case monotonic s of (start, s1) \<Rightarrow>
        retry_loop operation monotonic sleep fsub should_retry interval (fadd start timeout) s1)"

section \<open>The loop ends\<close>

text \<open>
  What the loop needs of the host: \<open>now\<close> is the time at a state and \<open>calls\<close> the number of calls of the operation so far.
  Readings are the current time, time does not run backwards, and a sleep of \<open>d\<close> lasts at least \<open>d\<close>.
\<close>

definition host_clock :: "('s, 'a) action \<Rightarrow> ('s \<Rightarrow> rat \<times> 's) \<Rightarrow> (rat \<Rightarrow> 's \<Rightarrow> 's) \<Rightarrow> ('s \<Rightarrow> rat) \<Rightarrow> ('s \<Rightarrow> nat) \<Rightarrow> bool" where
  "host_clock operation monotonic sleep now calls = (\<forall>s.
     fst (monotonic s) = now s \<and> now s \<le> now (snd (monotonic s)) \<and> calls (snd (monotonic s)) = calls s \<and>
     now s \<le> now (snd (operation s)) \<and> calls (snd (operation s)) = Suc (calls s) \<and>
     (\<forall>d. 0 \<le> d \<longrightarrow> now s + d \<le> now (sleep d s) \<and> calls (sleep d s) = calls s))"

text \<open>The subtraction of the code is exact between two readings before the deadline and never positive after it.\<close>

definition exact_until :: "(rat \<Rightarrow> rat \<Rightarrow> rat) \<Rightarrow> rat \<Rightarrow> rat \<Rightarrow> bool" where
  "exact_until fsub start deadline =
     ((\<forall>t. start \<le> t \<and> t \<le> deadline \<longrightarrow> fsub deadline t = deadline - t) \<and> (\<forall>t. deadline \<le> t \<longrightarrow> fsub deadline t \<le> 0))"

text \<open>The outcome of a run: that of its last call, given up only for good reason.\<close>

definition retry_outcome :: "('s, 'a) action \<Rightarrow> ('s \<Rightarrow> rat) \<Rightarrow> (py_error \<Rightarrow> bool) \<Rightarrow> rat \<Rightarrow> 'a res \<Rightarrow> 's \<Rightarrow> bool" where
  "retry_outcome operation now should_retry deadline r s' =
     ((\<exists>t. fst (operation t) = r) \<and> (\<forall>e. r = Inl e \<longrightarrow> \<not> should_retry e \<or> deadline \<le> now s'))"

lemma retry_round:
  assumes "host_clock operation monotonic sleep now calls" "operation s = (r, s1)" "monotonic s1 = (m, s2)"
  shows "now s \<le> m" "m \<le> now s2" "calls s1 = Suc (calls s)" "calls s2 = Suc (calls s)"
proof -
  note clock = assms(1) [unfolded host_clock_def, rule_format]
  show "now s \<le> m" "m \<le> now s2" "calls s1 = Suc (calls s)" "calls s2 = Suc (calls s)" using clock [of s] clock [of s1] assms(2,3) by auto
qed

text \<open>A round either ends the run or sleeps towards the deadline.\<close>

lemma retry_stops:
  assumes "host_clock operation monotonic sleep now calls" "exact_until fsub start deadline"
    and "operation s = (r, s1)" "monotonic s1 = (m, s2)" "\<forall>e. r = Inl e \<and> should_retry e \<longrightarrow> deadline \<le> m"
  shows "\<exists>s'. retry_loop operation monotonic sleep fsub should_retry interval deadline s = Some (r, s') \<and>
    retry_outcome operation now should_retry deadline r s' \<and> calls s' = Suc (calls s)"
proof (cases r)
  case (Inl e)
  have "\<not> should_retry e \<or> fsub deadline m \<le> 0" using assms(2,5) Inl by (auto simp: exact_until_def)
  then have run: "retry_loop operation monotonic sleep fsub should_retry interval deadline s = Some (r, s2)"
    using assms(3,4) Inl by (subst retry_loop.simps) (auto simp: Let_def)
  have "deadline \<le> now s2" if "should_retry e" using assms(5) Inl that retry_round(2) [OF assms(1,3,4)] by auto
  moreover have "fst (operation s) = r" using assms(3) by simp
  ultimately have "retry_outcome operation now should_retry deadline r s2" using Inl by (auto simp: retry_outcome_def)
  then show ?thesis using run retry_round(4) [OF assms(1,3,4)] by blast
next
  case (Inr v)
  then have "retry_loop operation monotonic sleep fsub should_retry interval deadline s = Some (r, s1)"
    using assms(3) by (subst retry_loop.simps) simp
  moreover have "fst (operation s) = r" using assms(3) by simp
  ultimately show ?thesis using Inr retry_round(3) [OF assms(1,3,4)] by (auto simp: retry_outcome_def)
qed

lemma retry_sleeps:
  assumes "host_clock operation monotonic sleep now calls" "exact_until fsub start deadline" "0 < interval" "start \<le> now s"
    and "operation s = (Inl e, s1)" "monotonic s1 = (m, s2)" "should_retry e" "m < deadline"
  shows "\<exists>t. retry_loop operation monotonic sleep fsub should_retry interval deadline s = retry_loop operation monotonic sleep fsub should_retry interval deadline t \<and>
    calls t = Suc (calls s) \<and> now s \<le> now t \<and> (deadline \<le> now t \<or> now s + interval \<le> now t)"
proof -
  note round = retry_round [OF assms(1,5,6)]
  define d where "d = min interval (deadline - m)"
  have d: "0 \<le> d" using assms(3,8) by (simp add: d_def)
  have "fsub deadline m = deadline - m" using assms(2,4,8) round(1) by (auto simp: exact_until_def)
  then have run: "retry_loop operation monotonic sleep fsub should_retry interval deadline s = retry_loop operation monotonic sleep fsub should_retry interval deadline (sleep d s2)"
    using assms(5-8) d by (subst retry_loop.simps) (simp add: blocking_wait_def d_def [symmetric])
  have slept: "now s2 + d \<le> now (sleep d s2)" "calls (sleep d s2) = calls s2"
    using assms(1) [unfolded host_clock_def, rule_format, of s2] d by auto
  have "deadline \<le> now (sleep d s2) \<or> now s + interval \<le> now (sleep d s2)" using slept(1) round by (auto simp: d_def min_def split: if_splits)
  moreover have "now s \<le> now (sleep d s2)" using slept(1) round d by linarith
  ultimately show ?thesis using run slept(2) round(4) by auto
qed

lemma loop_ends:
  assumes "host_clock operation monotonic sleep now calls" "exact_until fsub start deadline" "0 < interval"
    and "deadline - now s \<le> of_nat n * interval" "start \<le> now s"
  shows "\<exists>r s'. retry_loop operation monotonic sleep fsub should_retry interval deadline s = Some (r, s') \<and>
    retry_outcome operation now should_retry deadline r s' \<and> calls s' \<le> calls s + Suc n"
  using assms(4,5)
proof (induction n arbitrary: s)
  case (0 s)
  obtain r s1 where op: "operation s = (r, s1)" by (cases "operation s")
  obtain m s2 where mo: "monotonic s1 = (m, s2)" by (cases "monotonic s1")
  have "deadline \<le> m" using 0(1) retry_round(1) [OF assms(1) op mo] by simp
  then show ?case using retry_stops [OF assms(1,2) op mo] by fastforce
next
  case (Suc n s)
  obtain r s1 where op: "operation s = (r, s1)" by (cases "operation s")
  obtain m s2 where mo: "monotonic s1 = (m, s2)" by (cases "monotonic s1")
  show ?case
  proof (cases "\<forall>e. r = Inl e \<and> should_retry e \<longrightarrow> deadline \<le> m")
    case True
    then show ?thesis using retry_stops [OF assms(1,2) op mo] by fastforce
  next
    case False
    then obtain e where e: "r = Inl e" "should_retry e" "m < deadline" by auto
    obtain t where t: "retry_loop operation monotonic sleep fsub should_retry interval deadline s = retry_loop operation monotonic sleep fsub should_retry interval deadline t"
      "calls t = Suc (calls s)" "now s \<le> now t" "deadline \<le> now t \<or> now s + interval \<le> now t"
      using retry_sleeps [OF assms(1,2,3) Suc.prems(2) op [unfolded e(1)] mo, of should_retry] e(2,3) by blast
    have "0 \<le> of_nat n * interval" using assms(3) by simp
    then have "deadline - now t \<le> of_nat n * interval" using t(4) Suc.prems(1) by (auto simp: algebra_simps)
    then obtain r' s' where "retry_loop operation monotonic sleep fsub should_retry interval deadline t = Some (r', s')"
      "retry_outcome operation now should_retry deadline r' s'" "calls s' \<le> calls t + Suc n" using Suc.IH Suc.prems(2) t(3) by fastforce
    then show ?thesis using t by auto
  qed
qed

lemma retry_bounded:
  assumes "host_clock operation monotonic sleep now calls" "exact_until fsub (now s) (fadd (now s) timeout)" "0 \<le> timeout" "0 < interval"
  shows "\<exists>r s'. retry_until_deadline operation monotonic sleep fadd fsub should_retry timeout interval s = Some (r, s') \<and>
    retry_outcome operation now should_retry (fadd (now s) timeout) r s' \<and>
    calls s' \<le> calls s + Suc (nat \<lceil>(fadd (now s) timeout - now s) / interval\<rceil>)"
proof -
  let ?D = "fadd (now s) timeout"
  obtain m s1 where mo: "monotonic s = (m, s1)" by (cases "monotonic s")
  have m: "m = now s" "now s \<le> now s1" "calls s1 = calls s" using assms(1) [unfolded host_clock_def, rule_format, of s] mo by auto
  have "(?D - now s) / interval \<le> of_nat (nat \<lceil>(?D - now s) / interval\<rceil>)" by linarith
  then have "?D - now s1 \<le> of_nat (nat \<lceil>(?D - now s) / interval\<rceil>) * interval" using assms(4) m(2) by (simp add: pos_divide_le_eq)
  from loop_ends [OF assms(1,2,4) this m(2)] show ?thesis
    using assms(3,4) mo m by (simp add: retry_until_deadline_def)
qed

end
