(* ===== verification/SingleFlight.thy ===== *)
theory SingleFlight
  imports Canonical
begin

text \<open>
  \<^verbatim>\<open>foundation/kernel/concurrency/api/single_flight.py\<close>: the cache in which concurrent callers for one key share one
  construction.  Every section under the lock, every call of the builder and every completion of a future is
  one step of a thread, so the step relation has all interleavings of any number of threads.
\<close>

section \<open>The content-addressed fence\<close>

definition flight_identity :: "hostlib \<Rightarrow> string \<Rightarrow> string \<Rightarrow> string res" where
  "flight_identity L namespace realization_key =
     res_bind (require (nonblank namespace) ValueError) (\<lambda>_.
     res_bind (require (nonblank realization_key) ValueError) (\<lambda>_.
     Inr (canonical_digest L (jobj [(''schema'', JStr ''noetrium.content-addressed-single-flight.v1''),
       (''namespace'', JStr (py_strip namespace)), (''realization_key'', JStr realization_key)]))))"

definition flight_lock_path :: "hostlib \<Rightarrow> string list \<Rightarrow> string \<Rightarrow> string \<Rightarrow> string list res" where
  "flight_lock_path L root_path namespace realization_key =
     res_bind (flight_identity L namespace realization_key) (\<lambda>digest. Inr (root_path @ [take 2 digest, digest @ ''.lock'']))"

section \<open>The cache\<close>

record 'v flight_cache =
  fc_max_entries :: "int option"
  fc_values :: "(string \<times> 'v) list"
  fc_flights :: "(string \<times> nat) list"
  fc_futures :: "nat \<Rightarrow> 'v res option"
  fc_next :: nat

definition mk_flight_cache :: "int option \<Rightarrow> 'v flight_cache res" where
  "mk_flight_cache max_entries =
     res_bind (require (case max_entries of None \<Rightarrow> True | Some n \<Rightarrow> 0 < n) ValueError) (\<lambda>_.
     Inr \<lparr>fc_max_entries = max_entries, fc_values = [], fc_flights = [], fc_futures = (\<lambda>_. None), fc_next = 0\<rparr>)"

definition cache_len :: "'v flight_cache \<Rightarrow> nat" where
  "cache_len c = length (fc_values c)"

definition pop_key :: "string \<Rightarrow> (string \<times> 'b) list \<Rightarrow> (string \<times> 'b) list" where
  "pop_key key rows = filter (\<lambda>row. fst row \<noteq> key) rows"

text \<open>What a caller learns from the first section: a cached value, a flight to wait for, or its own flight.\<close>

datatype 'v begun = Cached 'v | Joined nat | Owner nat

definition begin_flight :: "string \<Rightarrow> ('v flight_cache, 'v begun) action" where
  "begin_flight key c =
     (if key = [] then (Inl ValueError, c)
      else case map_of (fc_values c) key of
          Some v \<Rightarrow> (Inr (Cached v), c\<lparr>fc_values := pop_key key (fc_values c) @ [(key, v)]\<rparr>)
        | None \<Rightarrow> (case map_of (fc_flights c) key of
              Some flight \<Rightarrow> (Inr (Joined flight), c)
            | None \<Rightarrow> (Inr (Owner (fc_next c)), c\<lparr>fc_flights := fc_flights c @ [(key, fc_next c)], fc_next := Suc (fc_next c)\<rparr>)))"

definition evict :: "int option \<Rightarrow> (string \<times> 'v) list \<Rightarrow> (string \<times> 'v) list" where
  "evict max_entries rows = (case max_entries of None \<Rightarrow> rows | Some n \<Rightarrow> drop (nat (int (length rows) - n)) rows)"

definition publish_value :: "string \<Rightarrow> 'v \<Rightarrow> 'v flight_cache \<Rightarrow> 'v flight_cache" where
  "publish_value key v c =
     c\<lparr>fc_values := evict (fc_max_entries c) (pop_key key (fc_values c) @ [(key, v)]), fc_flights := pop_key key (fc_flights c)\<rparr>"

definition abandon_flight :: "string \<Rightarrow> 'v flight_cache \<Rightarrow> 'v flight_cache" where
  "abandon_flight key c = c\<lparr>fc_flights := pop_key key (fc_flights c)\<rparr>"

definition resolve_flight :: "nat \<Rightarrow> 'v res \<Rightarrow> 'v flight_cache \<Rightarrow> 'v flight_cache" where
  "resolve_flight flight r c = c\<lparr>fc_futures := (fc_futures c)(flight \<mapsto> r)\<rparr>"

section \<open>Threads\<close>

text \<open>Where a thread is in \<^verbatim>\<open>get_or_create\<close>.\<close>

datatype 'v thread =
    Idle | Waiting string nat | Building string nat | Built string nat "'v res" | Resolving string nat "'v res" | Returned string "'v res"

definition after_begin :: "string \<Rightarrow> 'v begun res \<Rightarrow> 'v thread" where
  "after_begin key r = (case r of Inl e \<Rightarrow> Returned key (Inl e)
     | Inr (Cached v) \<Rightarrow> Returned key (Inr v) | Inr (Joined flight) \<Rightarrow> Waiting key flight | Inr (Owner flight) \<Rightarrow> Building key flight)"

definition finish_build :: "string \<Rightarrow> 'v res \<Rightarrow> 'v flight_cache \<Rightarrow> 'v flight_cache" where
  "finish_build key r c = (case r of Inl e \<Rightarrow> abandon_flight key c | Inr v \<Rightarrow> publish_value key v c)"

text \<open>The third part of a state is the history of what builders produced, for the statements only.\<close>

type_synonym 'v flight_state = "'v flight_cache \<times> (nat \<Rightarrow> 'v thread) \<times> (string \<times> 'v res) list"

inductive flight_step :: "'v flight_state \<Rightarrow> 'v flight_state \<Rightarrow> bool" where
  called: "ts p = Idle \<Longrightarrow> begin_flight key c = (r, c') \<Longrightarrow> flight_step (c, ts, b) (c', ts(p := after_begin key r), b)"
| joined: "ts p = Waiting key flight \<Longrightarrow> fc_futures c flight = Some r \<Longrightarrow> flight_step (c, ts, b) (c, ts(p := Returned key r), b)"
| built: "ts p = Building key flight \<Longrightarrow> flight_step (c, ts, b) (c, ts(p := Built key flight r), (key, r) # b)"
| finished: "ts p = Built key flight r \<Longrightarrow> flight_step (c, ts, b) (finish_build key r c, ts(p := Resolving key flight r), b)"
| resolved: "ts p = Resolving key flight r \<Longrightarrow> flight_step (c, ts, b) (resolve_flight flight r c, ts(p := Returned key r), b)"
| returned: "ts p = Returned key r \<Longrightarrow> flight_step (c, ts, b) (c, ts(p := Idle), b)"

definition flight_reachable :: "int option \<Rightarrow> 'v flight_state \<Rightarrow> bool" where
  "flight_reachable max_entries s = (\<exists>c. mk_flight_cache max_entries = Inr c \<and> flight_step\<^sup>*\<^sup>* (c, \<lambda>_. Idle, []) s)"

section \<open>The invariant\<close>

fun constructs :: "'v thread \<Rightarrow> string \<Rightarrow> nat \<Rightarrow> bool" where
  "constructs (Building key flight) k f = (key = k \<and> flight = f)"
| "constructs (Built key flight r) k f = (key = k \<and> flight = f)"
| "constructs _ k f = False"

fun owns :: "'v thread \<Rightarrow> string \<Rightarrow> nat \<Rightarrow> bool" where
  "owns (Resolving key flight r) k f = (key = k \<and> flight = f)"
| "owns t k f = constructs t k f"

fun produced :: "(string \<times> 'v res) list \<Rightarrow> 'v thread \<Rightarrow> bool" where
  "produced b (Built key flight r) = ((key, r) \<in> set b)"
| "produced b (Resolving key flight r) = ((key, r) \<in> set b)"
| "produced b (Returned key r) = (key = [] \<or> (key, r) \<in> set b)"
| "produced b t = True"

definition within_bound :: "int option \<Rightarrow> nat \<Rightarrow> bool" where
  "within_bound max_entries n = (\<forall>m. max_entries = Some m \<longrightarrow> 0 < m \<and> int n \<le> m)"

definition cache_inv :: "int option \<Rightarrow> 'v flight_cache \<Rightarrow> (string \<times> 'v res) list \<Rightarrow> bool" where
  "cache_inv max_entries c b =
     (fc_max_entries c = max_entries \<and> distinct (map fst (fc_values c)) \<and> distinct (map fst (fc_flights c)) \<and>
      (\<forall>(k, v) \<in> set (fc_values c). (k, Inr v) \<in> set b) \<and>
      within_bound max_entries (length (fc_values c)))"

definition owner_inv :: "'v flight_cache \<Rightarrow> (nat \<Rightarrow> 'v thread) \<Rightarrow> bool" where
  "owner_inv c ts =
     ((\<forall>k f. (k, f) \<in> set (fc_flights c) \<longleftrightarrow> (\<exists>p. constructs (ts p) k f)) \<and>
      (\<forall>p q k k' f. owns (ts p) k f \<longrightarrow> owns (ts q) k' f \<longrightarrow> p = q) \<and>
      (\<forall>p k f. owns (ts p) k f \<longrightarrow> f < fc_next c \<and> fc_futures c f = None) \<and>
      (\<forall>f. fc_next c \<le> f \<longrightarrow> fc_futures c f = None))"

definition waiter_inv :: "'v flight_cache \<Rightarrow> (nat \<Rightarrow> 'v thread) \<Rightarrow> (string \<times> 'v res) list \<Rightarrow> bool" where
  "waiter_inv c ts b = (\<forall>p k f. ts p = Waiting k f \<longrightarrow> (case fc_futures c f of Some r \<Rightarrow> (k, r) \<in> set b | None \<Rightarrow> (\<exists>q. owns (ts q) k f)))"

definition flight_inv :: "int option \<Rightarrow> 'v flight_state \<Rightarrow> bool" where
  "flight_inv max_entries s = (case s of (c, ts, b) \<Rightarrow>
     cache_inv max_entries c b \<and> owner_inv c ts \<and> waiter_inv c ts b \<and> (\<forall>p. produced b (ts p)))"

lemma constructs_owns: "constructs t k f \<Longrightarrow> owns t k f"
  by (cases t) auto

lemma produced_mono: "produced b t \<Longrightarrow> set b \<subseteq> set b' \<Longrightarrow> produced b' t"
  by (cases t) auto

lemma pop_key_simps [simp]: "set (pop_key key rows) = {row \<in> set rows. fst row \<noteq> key}"
  "distinct (map fst rows) \<Longrightarrow> distinct (map fst (pop_key key rows))"
  by (auto simp: pop_key_def distinct_map inj_on_def)

lemma pop_key_length: "(key, v) \<in> set rows \<Longrightarrow> length (pop_key key rows) < length rows"
  unfolding pop_key_def by (rule length_filter_less [of "(key, v)"]) simp_all

lemma evict_subset: "set (evict m rows) \<subseteq> set rows"
  by (auto simp: evict_def split: option.splits dest: in_set_dropD)

lemma evict_distinct: "distinct (map fst rows) \<Longrightarrow> distinct (map fst (evict m rows))"
  by (auto simp: evict_def drop_map [symmetric] split: option.splits)

lemma evict_bound: "within_bound m n \<Longrightarrow> within_bound m (length (evict m rows))"
  by (auto simp: within_bound_def evict_def)

lemma cache_inv_finish:
  assumes "cache_inv m c b" "(key, r) \<in> set b"
  shows "cache_inv m (finish_build key r c) b"
proof (cases r)
  case (Inl e)
  then show ?thesis using assms(1) by (simp add: finish_build_def abandon_flight_def cache_inv_def)
next
  case (Inr v)
  let ?rows = "pop_key key (fc_values c) @ [(key, v)]"
  have d: "distinct (map fst ?rows)" using assms(1) by (auto simp: cache_inv_def)
  have "\<forall>(k, v) \<in> set (evict m ?rows). (k, Inr v) \<in> set b"
    using evict_subset [of m ?rows] assms Inr by (auto simp: cache_inv_def)
  then show ?thesis using assms(1) d evict_distinct [OF d, of m] evict_bound [of m "length (fc_values c)" ?rows] Inr
    by (auto simp: finish_build_def publish_value_def cache_inv_def)
qed

lemma owner_invD:
  assumes "owner_inv c ts"
  shows "(k, f) \<in> set (fc_flights c) \<longleftrightarrow> (\<exists>p. constructs (ts p) k f)" "owns (ts p) k f \<Longrightarrow> owns (ts q) k' f \<Longrightarrow> p = q"
    "owns (ts p) k f \<Longrightarrow> f < fc_next c" "owns (ts p) k f \<Longrightarrow> fc_futures c f = None" "fc_next c \<le> f \<Longrightarrow> fc_futures c f = None"
  using assms unfolding owner_inv_def by blast+

lemma owner_invI:
  assumes "\<And>k f. (k, f) \<in> set (fc_flights c) \<longleftrightarrow> (\<exists>p. constructs (ts p) k f)" "\<And>p q k k' f. owns (ts p) k f \<Longrightarrow> owns (ts q) k' f \<Longrightarrow> p = q"
    "\<And>p k f. owns (ts p) k f \<Longrightarrow> f < fc_next c" "\<And>p k f. owns (ts p) k f \<Longrightarrow> fc_futures c f = None" "\<And>f. fc_next c \<le> f \<Longrightarrow> fc_futures c f = None"
  shows "owner_inv c ts"
  using assms unfolding owner_inv_def by blast

text \<open>Ownership depends on the flights, the futures and the threads that construct.\<close>

lemma owner_inv_same:
  assumes "owner_inv c ts" "fc_flights c' = fc_flights c" "fc_next c' = fc_next c" "fc_futures c' = fc_futures c"
    and "\<And>q. constructs (ts' q) = constructs (ts q)" "\<And>q. owns (ts' q) = owns (ts q)"
  shows "owner_inv c' ts'"
  using assms(1) unfolding owner_inv_def assms(2-6) .

lemma swap_thread: "constructs t = constructs (ts p) \<Longrightarrow> constructs ((ts(p := t)) q) = constructs (ts q)"
  "owns t = owns (ts p) \<Longrightarrow> owns ((ts(p := t)) q) = owns (ts q)"
  by simp_all

lemma waiter_invD:
  assumes "waiter_inv c ts b" "ts p = Waiting k f"
  shows "fc_futures c f = None \<Longrightarrow> \<exists>q. owns (ts q) k f" "fc_futures c f = Some r \<Longrightarrow> (k, r) \<in> set b"
  using assms by (force simp: waiter_inv_def split: option.splits)+

lemma waiter_inv_same:
  assumes "waiter_inv c ts b" "fc_futures c' = fc_futures c" "\<And>q. owns (ts' q) = owns (ts q)" "set b \<subseteq> set b'"
    and "\<And>q k f. ts' q = Waiting k f \<Longrightarrow> ts q = Waiting k f"
  shows "waiter_inv c' ts' b'"
  unfolding waiter_inv_def assms(2,3)
proof (intro allI impI)
  fix p k f assume "ts' p = Waiting k f"
  then have "case fc_futures c f of None \<Rightarrow> \<exists>q. owns (ts q) k f | Some r \<Rightarrow> (k, r) \<in> set b"
    using assms(1,5) unfolding waiter_inv_def by blast
  then show "case fc_futures c f of None \<Rightarrow> \<exists>q. owns (ts q) k f | Some r \<Rightarrow> (k, r) \<in> set b'"
    using assms(4) by (auto split: option.splits)
qed

lemma begin_flight_cases:
  assumes "begin_flight key c = (r, c')"
  shows "(key = [] \<and> r = Inl ValueError \<and> c' = c) \<or>
    (\<exists>v. key \<noteq> [] \<and> (key, v) \<in> set (fc_values c) \<and> r = Inr (Cached v) \<and> c' = c\<lparr>fc_values := pop_key key (fc_values c) @ [(key, v)]\<rparr>) \<or>
    (\<exists>f. key \<noteq> [] \<and> (key, f) \<in> set (fc_flights c) \<and> r = Inr (Joined f) \<and> c' = c) \<or>
    (key \<noteq> [] \<and> key \<notin> fst ` set (fc_flights c) \<and> r = Inr (Owner (fc_next c)) \<and>
     c' = c\<lparr>fc_flights := fc_flights c @ [(key, fc_next c)], fc_next := Suc (fc_next c)\<rparr>)"
proof (cases "key = []")
  case False
  show ?thesis
  proof (cases "map_of (fc_values c) key")
    case None
    show ?thesis
    proof (cases "map_of (fc_flights c) key")
      case (Some f)
      then show ?thesis using assms False None map_of_SomeD [OF Some] by (auto simp: begin_flight_def)
    qed (use assms False None in \<open>simp add: begin_flight_def map_of_eq_None_iff [symmetric]\<close>)
  next
    case (Some v)
    then show ?thesis using assms False map_of_SomeD [OF Some] by (simp add: begin_flight_def) blast
  qed
qed (use assms in \<open>simp add: begin_flight_def\<close>)

lemma flight_started:
  assumes "flight_inv m (c, ts, b)" "ts p = Idle" "key \<notin> fst ` set (fc_flights c)"
    "c' = c\<lparr>fc_flights := fc_flights c @ [(key, fc_next c)], fc_next := Suc (fc_next c)\<rparr>"
  shows "flight_inv m (c', ts(p := Building key (fc_next c)), b)"
proof -
  have inv: "cache_inv m c b" "owner_inv c ts" "waiter_inv c ts b" "\<forall>p. produced b (ts p)" using assms(1) by (auto simp: flight_inv_def)
  let ?ts = "ts(p := Building key (fc_next c))"
  have con: "constructs (?ts q) k f \<longleftrightarrow> (q = p \<and> k = key \<and> f = fc_next c) \<or> constructs (ts q) k f" for q k f using assms(2) by auto
  have ow: "owns (?ts q) k f \<longleftrightarrow> (q = p \<and> k = key \<and> f = fc_next c) \<or> owns (ts q) k f" for q k f using assms(2) by auto
  note D = owner_invD [OF inv(2)]
  have "owner_inv c' ?ts"
  proof (rule owner_invI)
    show "(k, f) \<in> set (fc_flights c') \<longleftrightarrow> (\<exists>p. constructs (?ts p) k f)" for k f unfolding con assms(4) using D(1) by auto
    show "q = q'" if "owns (?ts q) k f" "owns (?ts q') k' f" for q q' k k' f using that D(2) D(3) unfolding ow by blast
    show "f < fc_next c'" if "owns (?ts q) k f" for q k f using that D(3) unfolding ow assms(4) by (auto simp: less_Suc_eq)
    show "fc_futures c' f = None" if "owns (?ts q) k f" for q k f using that D(4,5) unfolding ow assms(4) by auto
    show "fc_futures c' f = None" if "fc_next c' \<le> f" for f using that D(5) unfolding assms(4) by auto
  qed
  moreover have "waiter_inv c' ?ts b" unfolding waiter_inv_def ow
  proof (intro allI impI)
    fix p' k f assume "?ts p' = Waiting k f"
    then have "ts p' = Waiting k f" by (auto split: if_splits)
    then show "case fc_futures c' f of None \<Rightarrow> \<exists>q. q = p \<and> k = key \<and> f = fc_next c \<or> owns (ts q) k f | Some r \<Rightarrow> (k, r) \<in> set b"
      using waiter_invD [OF inv(3)] assms(4) by (cases "fc_futures c f") fastforce+
  qed
  moreover have "cache_inv m c' b" using inv(1) assms(3,4) by (auto simp: cache_inv_def)
  ultimately show ?thesis using inv by (simp add: flight_inv_def)
qed

lemma flight_called:
  assumes "flight_inv m (c, ts, b)" "ts p = Idle" "begin_flight key c = (r, c')"
  shows "flight_inv m (c', ts(p := after_begin key r), b)"
proof -
  have inv: "cache_inv m c b" "owner_inv c ts" "waiter_inv c ts b" "\<forall>p. produced b (ts p)" using assms(1) by (auto simp: flight_inv_def)
  consider (empty) "key = []" "r = Inl ValueError" "c' = c"
    | (hit) v where "key \<noteq> []" "(key, v) \<in> set (fc_values c)" "r = Inr (Cached v)" "c' = c\<lparr>fc_values := pop_key key (fc_values c) @ [(key, v)]\<rparr>"
    | (join) f where "key \<noteq> []" "(key, f) \<in> set (fc_flights c)" "r = Inr (Joined f)" "c' = c"
    | (own) "key \<noteq> []" "key \<notin> fst ` set (fc_flights c)" "r = Inr (Owner (fc_next c))"
        "c' = c\<lparr>fc_flights := fc_flights c @ [(key, fc_next c)], fc_next := Suc (fc_next c)\<rparr>"
    using begin_flight_cases [OF assms(3)] by blast
  then show ?thesis
  proof cases
    case empty
    have "owner_inv c (ts(p := Returned key (Inl ValueError)))" by (rule owner_inv_same [OF inv(2)]) (simp_all add: assms(2) fun_eq_iff)
    moreover have "waiter_inv c (ts(p := Returned key (Inl ValueError))) b"
      by (rule waiter_inv_same [OF inv(3)]) (simp_all add: assms(2) fun_eq_iff split: if_splits)
    ultimately show ?thesis using inv empty by (simp add: flight_inv_def after_begin_def)
  next
    case hit
    have "owner_inv c' (ts(p := Returned key (Inr v)))" by (rule owner_inv_same [OF inv(2)]) (simp_all add: assms(2) fun_eq_iff hit)
    moreover have "waiter_inv c' (ts(p := Returned key (Inr v))) b"
      by (rule waiter_inv_same [OF inv(3)]) (simp_all add: assms(2) fun_eq_iff hit split: if_splits)
    moreover have "cache_inv m c' b" using inv(1) pop_key_length [OF hit(2)] hit by (fastforce simp: cache_inv_def within_bound_def)
    moreover have "(key, Inr v) \<in> set b" using inv(1) hit(2) by (auto simp: cache_inv_def)
    ultimately show ?thesis using inv hit by (simp add: flight_inv_def after_begin_def)
  next
    case join
    obtain q where "constructs (ts q) key f" using inv(2) join(2) by (auto simp: owner_inv_def)
    from constructs_owns [OF this] have q: "owns (ts q) key f" "fc_futures c f = None" "q \<noteq> p" using inv(2) assms(2) by (auto simp: owner_inv_def)
    have "owner_inv c (ts(p := Waiting key f))" by (rule owner_inv_same [OF inv(2)]) (simp_all add: assms(2) fun_eq_iff)
    moreover have same: "owns ((ts(p := Waiting key f)) q) = owns (ts q)" for q by (simp add: assms(2) fun_eq_iff)
    have "waiter_inv c (ts(p := Waiting key f)) b" unfolding waiter_inv_def same
    proof (intro allI impI)
      fix p' k g assume w: "(ts(p := Waiting key f)) p' = Waiting k g"
      show "case fc_futures c g of None \<Rightarrow> \<exists>q. owns (ts q) k g | Some r \<Rightarrow> (k, r) \<in> set b"
        using w q inv(3) by (cases "p' = p") (auto simp: waiter_inv_def)
    qed
    ultimately show ?thesis using inv join by (simp add: flight_inv_def after_begin_def)
  next
    case own
    from flight_started [OF assms(1,2) own(2,4)] show ?thesis by (simp add: own(3) after_begin_def)
  qed
qed

text \<open>The other steps of a thread.\<close>

lemma flight_joined:
  assumes "flight_inv m (c, ts, b)" "ts p = Waiting key f" "fc_futures c f = Some r"
  shows "flight_inv m (c, ts(p := Returned key r), b)"
proof -
  have inv: "cache_inv m c b" "owner_inv c ts" "waiter_inv c ts b" "\<forall>p. produced b (ts p)" using assms(1) by (auto simp: flight_inv_def)
  have "owner_inv c (ts(p := Returned key r))" by (rule owner_inv_same [OF inv(2)]) (simp_all add: assms(2) fun_eq_iff)
  moreover have "waiter_inv c (ts(p := Returned key r)) b" by (rule waiter_inv_same [OF inv(3)]) (simp_all add: assms(2) fun_eq_iff split: if_splits)
  moreover have "(key, r) \<in> set b" using inv(3) assms(2,3) by (force simp: waiter_inv_def split: option.splits)
  ultimately show ?thesis using inv by (simp add: flight_inv_def)
qed

lemma flight_built:
  assumes "flight_inv m (c, ts, b)" "ts p = Building key f"
  shows "flight_inv m (c, ts(p := Built key f r), (key, r) # b)"
proof -
  have inv: "cache_inv m c b" "owner_inv c ts" "waiter_inv c ts b" "\<forall>p. produced b (ts p)" using assms(1) by (auto simp: flight_inv_def)
  have "owner_inv c (ts(p := Built key f r))" by (rule owner_inv_same [OF inv(2)]) (simp_all add: assms(2) fun_eq_iff)
  moreover have "waiter_inv c (ts(p := Built key f r)) ((key, r) # b)"
    by (rule waiter_inv_same [OF inv(3)]) (auto simp: assms(2) fun_eq_iff split: if_splits)
  moreover have "cache_inv m c ((key, r) # b)" using inv(1) by (auto simp: cache_inv_def)
  moreover have "\<forall>q. produced ((key, r) # b) ((ts(p := Built key f r)) q)" using inv(4) produced_mono [of b _ "(key, r) # b"] by auto
  ultimately show ?thesis by (simp add: flight_inv_def)
qed

lemma finish_build_simps: "fc_flights (finish_build key r c) = pop_key key (fc_flights c)" "fc_next (finish_build key r c) = fc_next c"
  "fc_futures (finish_build key r c) = fc_futures c"
  by (cases r; simp add: finish_build_def publish_value_def abandon_flight_def)+

lemma flight_finished:
  assumes "flight_inv m (c, ts, b)" "ts p = Built key f r"
  shows "flight_inv m (finish_build key r c, ts(p := Resolving key f r), b)"
proof -
  let ?ts = "ts(p := Resolving key f r)"
  have inv: "cache_inv m c b" "owner_inv c ts" "waiter_inv c ts b" "\<forall>p. produced b (ts p)" using assms(1) by (auto simp: flight_inv_def)
  note D = owner_invD [OF inv(2)]
  have made: "(key, r) \<in> set b" using inv(4) assms(2) by (metis produced.simps(1))
  have ow: "owns (?ts q) = owns (ts q)" for q using assms(2) by (auto simp: fun_eq_iff)
  have mine: "(key, f) \<in> set (fc_flights c)" unfolding D(1) using assms(2) by (intro exI [of _ p]) simp
  have con: "constructs (?ts q) k g \<longleftrightarrow> constructs (ts q) k g \<and> k \<noteq> key" for q k g
  proof -
    have "q = p" if "constructs (ts q) key g"
    proof -
      have "(key, g) \<in> set (fc_flights c)" using D(1) that by blast
      then have "g = f" using mine inv(1) by (auto simp: cache_inv_def eq_key_imp_eq_value)
      then show ?thesis using D(2) [OF constructs_owns [OF that], of p key] assms(2) by auto
    qed
    then show ?thesis using assms(2) by (cases "q = p") auto
  qed
  have "owner_inv (finish_build key r c) ?ts"
  proof (rule owner_invI)
    show "(k, g) \<in> set (fc_flights (finish_build key r c)) \<longleftrightarrow> (\<exists>p. constructs (?ts p) k g)" for k g
      unfolding con finish_build_simps using D(1) [of k g] by auto
  qed (unfold ow finish_build_simps, (use D(2-5) in blast)+)
  moreover have "waiter_inv (finish_build key r c) ?ts b"
    by (rule waiter_inv_same [OF inv(3) finish_build_simps(3) ow]) (auto split: if_splits)
  ultimately show ?thesis using inv(4) cache_inv_finish [OF inv(1) made] made by (simp add: flight_inv_def)
qed

lemma flight_resolved:
  assumes "flight_inv m (c, ts, b)" "ts p = Resolving key f r"
  shows "flight_inv m (resolve_flight f r c, ts(p := Returned key r), b)"
proof -
  let ?ts = "ts(p := Returned key r)" and ?c = "resolve_flight f r c"
  have inv: "cache_inv m c b" "owner_inv c ts" "waiter_inv c ts b" "\<forall>p. produced b (ts p)" using assms(1) by (auto simp: flight_inv_def)
  note D = owner_invD [OF inv(2)]
  have made: "(key, r) \<in> set b" using inv(4) assms(2) by (metis produced.simps(2))
  have mine: "owns (ts p) key f" using assms(2) by simp
  have con: "constructs (?ts q) = constructs (ts q)" for q using assms(2) by (auto simp: fun_eq_iff)
  have ow: "owns (?ts q) k g \<longleftrightarrow> owns (ts q) k g \<and> g \<noteq> f" for q k g
    using assms(2) D(2) [OF mine, of q k] by (cases "q = p") auto
  have fut: "fc_futures ?c g = (if g = f then Some r else fc_futures c g)" "fc_next ?c = fc_next c" "fc_flights ?c = fc_flights c" for g
    by (simp_all add: resolve_flight_def)
  have "owner_inv ?c ?ts"
  proof (rule owner_invI)
    show "fc_futures ?c g = None" if "fc_next ?c \<le> g" for g using that D(3) [OF mine] D(5) unfolding fut by auto
  qed (unfold con ow fut, use D in auto)
  moreover have "waiter_inv ?c ?ts b" unfolding waiter_inv_def
  proof (intro allI impI)
    fix q k g assume "?ts q = Waiting k g"
    then have w: "ts q = Waiting k g" by (auto split: if_splits)
    show "case fc_futures ?c g of None \<Rightarrow> \<exists>q. owns (?ts q) k g | Some r \<Rightarrow> (k, r) \<in> set b"
    proof (cases "g = f")
      case True
      then obtain q' where q': "owns (ts q') k f" using inv(3) w D(4) [OF mine] by (force simp: waiter_inv_def)
      then have "q' = p" using D(2) [OF mine] by blast
      then have "k = key" using q' assms(2) by simp
      then show ?thesis using True made by (simp add: fut)
    next
      case False
      then show ?thesis using waiter_invD [OF inv(3) w] unfolding fut ow by (cases "fc_futures c g") auto
    qed
  qed
  moreover have "cache_inv m ?c b" using inv(1) by (simp add: cache_inv_def resolve_flight_def)
  ultimately show ?thesis using inv(4) made by (simp add: flight_inv_def)
qed

lemma flight_returned:
  assumes "flight_inv m (c, ts, b)" "ts p = Returned key r"
  shows "flight_inv m (c, ts(p := Idle), b)"
proof -
  have inv: "cache_inv m c b" "owner_inv c ts" "waiter_inv c ts b" "\<forall>p. produced b (ts p)" using assms(1) by (auto simp: flight_inv_def)
  have "owner_inv c (ts(p := Idle))" by (rule owner_inv_same [OF inv(2)]) (simp_all add: assms(2) fun_eq_iff)
  moreover have "waiter_inv c (ts(p := Idle)) b" by (rule waiter_inv_same [OF inv(3)]) (simp_all add: assms(2) fun_eq_iff split: if_splits)
  ultimately show ?thesis using inv by (simp add: flight_inv_def)
qed

lemma flight_inv_step: "flight_step s s' \<Longrightarrow> flight_inv m s \<Longrightarrow> flight_inv m s'"
  by (induction rule: flight_step.induct) (blast intro: flight_called flight_joined flight_built flight_finished flight_resolved flight_returned)+

lemma flight_reachable_inv: "flight_reachable m s \<Longrightarrow> flight_inv m s"
proof -
  assume "flight_reachable m s"
  then obtain c where c: "mk_flight_cache m = Inr c" and run: "flight_step\<^sup>*\<^sup>* (c, \<lambda>_. Idle, []) s" by (auto simp: flight_reachable_def)
  have "flight_inv m (c, \<lambda>_. Idle, [])"
    using c by (auto simp: mk_flight_cache_def res_simps flight_inv_def cache_inv_def owner_inv_def waiter_inv_def within_bound_def split: option.splits)
  with run show ?thesis by (induction rule: rtranclp_induct) (blast intro: flight_inv_step)+
qed

section \<open>Consequences\<close>

lemma one_construction: "flight_inv m (c, ts, b) \<Longrightarrow> constructs (ts p) k f \<Longrightarrow> constructs (ts q) k g \<Longrightarrow> p = q"
proof -
  assume inv: "flight_inv m (c, ts, b)" and p: "constructs (ts p) k f" and q: "constructs (ts q) k g"
  have O: "owner_inv c ts" and d: "distinct (map fst (fc_flights c))" using inv by (auto simp: flight_inv_def cache_inv_def)
  have "(k, f) \<in> set (fc_flights c)" "(k, g) \<in> set (fc_flights c)" using owner_invD(1) [OF O] p q by blast+
  then have "f = g" using d by (rule eq_key_imp_eq_value [rotated])
  then show ?thesis using owner_invD(2) [OF O constructs_owns [OF p]] constructs_owns [OF q] by blast
qed

text \<open>A thread that owns a flight can always complete it.\<close>

lemma owner_completes:
  assumes "owns (ts q) k f"
  shows "\<exists>c' ts' b' r. flight_step\<^sup>*\<^sup>* (c, ts, b) (c', ts', b') \<and> fc_futures c' f = Some r \<and> (\<forall>p. p \<noteq> q \<longrightarrow> ts' p = ts p)"
proof -
  have resolve: "\<exists>c' ts' b'. flight_step\<^sup>*\<^sup>* (c, ts, b) (c', ts', b') \<and> fc_futures c' f = Some r \<and> (\<forall>p. p \<noteq> q \<longrightarrow> ts' p = ts p)"
    if "ts q = Resolving k f r" for c ts b r
    using r_into_rtranclp [of flight_step, OF flight_step.resolved [where ts = ts and p = q, OF that, where c = c and b = b]] by (intro exI conjI) (auto simp: resolve_flight_def)
  have finish: "\<exists>c' ts' b'. flight_step\<^sup>*\<^sup>* (c, ts, b) (c', ts', b') \<and> fc_futures c' f = Some r \<and> (\<forall>p. p \<noteq> q \<longrightarrow> ts' p = ts p)"
    if "ts q = Built k f r" for c ts b r
  proof -
    let ?ts = "ts(q := Resolving k f r)"
    obtain c' ts' b' where run: "flight_step\<^sup>*\<^sup>* (finish_build k r c, ?ts, b) (c', ts', b')" "fc_futures c' f = Some r" "\<forall>p. p \<noteq> q \<longrightarrow> ts' p = ?ts p"
      using resolve [of ?ts r "finish_build k r c" b] by auto
    have "flight_step (c, ts, b) (finish_build k r c, ?ts, b)" using that by (rule flight_step.finished)
    from converse_rtranclp_into_rtranclp [of flight_step, OF this run(1)] show ?thesis using run(2,3) by fastforce
  qed
  show ?thesis
  proof (cases "ts q")
    case (Building k' f')
    then have b: "ts q = Building k f" using assms by simp
    let ?ts = "ts(q := Built k f (Inl RuntimeError))"
    obtain c' ts' b' where run: "flight_step\<^sup>*\<^sup>* (c, ?ts, (k, Inl RuntimeError) # b) (c', ts', b')" "fc_futures c' f = Some (Inl RuntimeError)" "\<forall>p. p \<noteq> q \<longrightarrow> ts' p = ?ts p"
      using finish [of ?ts "Inl RuntimeError" c "(k, Inl RuntimeError) # b"] by auto
    have "flight_step (c, ts, b) (c, ?ts, (k, Inl RuntimeError) # b)" using b by (rule flight_step.built)
    from converse_rtranclp_into_rtranclp [of flight_step, OF this run(1)] show ?thesis using run(2,3) by fastforce
  next
    case (Built k' f' r)
    then have "ts q = Built k f r" using assms by simp
    from finish [of ts r c b, OF this] show ?thesis by blast
  next
    case (Resolving k' f' r)
    then have "ts q = Resolving k f r" using assms by simp
    from resolve [of ts r c b, OF this] show ?thesis by blast
  qed (use assms in simp_all)
qed

lemma waiter_completes:
  assumes "flight_inv m (c, ts, b)" "ts p = Waiting k f"
  shows "\<exists>c' ts' b' r. flight_step\<^sup>*\<^sup>* (c, ts, b) (c', ts', b') \<and> ts' p = Returned k r"
proof -
  obtain c' ts' b' r where run: "flight_step\<^sup>*\<^sup>* (c, ts, b) (c', ts', b')" "fc_futures c' f = Some r" "ts' p = Waiting k f"
  proof (cases "fc_futures c f")
    case None
    have "waiter_inv c ts b" using assms(1) by (simp add: flight_inv_def)
    from waiter_invD(1) [where ts = ts and p = p, OF this assms(2) None] obtain q where q: "owns (ts q) k f" by blast
    then have "q \<noteq> p" using assms(2) by auto
    then show ?thesis using owner_completes [of ts q k f c b, OF q] assms(2) that by metis
  next
    case (Some r)
    then show ?thesis using that assms(2) by blast
  qed
  from rtranclp.rtrancl_into_rtrancl [OF run(1) flight_step.joined [where ts = ts' and p = p, OF run(3,2)]] show ?thesis by (metis fun_upd_same)
qed

end
