(* ===== verification/RuntimeProperties.thy ===== *)
theory RuntimeProperties
  imports RuntimeSamples Retry SingleFlight
begin

text \<open>
  The properties of the components around the executor: remote workers, retries, the single-flight cache
  and the task groups, with their witnesses.
\<close>

section \<open>Remote workers\<close>

text \<open>C18. Only attested proposals of a worker are committed: if a step through the worker proxy changes the journal, the
  commit records the digest of a proposal that the worker returned for the envelope of exactly this command and
  Unit, with the keyed signature over both digests, for the machine and revision of the opened snapshot, within the allowed
  scopes and payload budget.\<close>

theorem worker_commits_are_attested:
  assumes "mem_wf (ex_journal ex)" "exec_step L cfg reading1 reading2 proposer (proxy_propose L u adm worker) command ex = (r, ex')"
  shows "mem_commits (ex_journal ex') = mem_commits (ex_journal ex) \<or>
    (\<exists>c e state reply. ex_snapshot ex = Some state \<and> from_command L 1 (unit_digest u) command JNull = Inr e \<and> worker e state = Inr reply \<and>
       reply_attested L adm e state reply \<and> com_proposal_digest c = prop_proposal_digest (wr_proposal reply) \<and>
       mem_commits (ex_journal ex') = (mem_commits (ex_journal ex)) (cfg_machine_id cfg := mem_commits (ex_journal ex) (cfg_machine_id cfg) @ [c]))"
  using step_through_worker [OF assms] by blast

theorem worker_commits_are_attested_witness:
  "mem_commits sample_journal \<noteq> mem_commits empty_mem_journal \<and>
   (\<exists>e. from_command sample_lib 1 zeros sample_command JNull = Inr e \<and> reply_attested sample_lib sample_admission e sample_snapshot sample_reply)"
proof -
  have changed: "mem_commits sample_journal \<noteq> mem_commits empty_mem_journal"
    using sample_commits by (auto simp: fun_eq_iff intro!: exI [of _ "''m''"])
  with worker_commits_are_attested [OF _ sample_worker_step] show ?thesis by (auto simp: sample_stepped_def sample_unit_def)
qed

text \<open>C19. A signature cannot be reused: if one authenticator admits two replies with the same signature, they answer the same envelope,
  hence the same command for the same Unit, with the same proposal digest, unless SHA-256 collides on the texts hashed
  for them.\<close>

theorem worker_signature_binds:
  assumes "float_repr_ok L" "sha_ok L" "from_command L v d command j = Inr e" "from_command L v' d' command' j' = Inr f"
    and "admit L adm e state reply = Inr x" "admit L adm' f state' reply' = Inr y" "wa_key adm = wa_key adm'" "wr_signature reply = wr_signature reply'"
    and "\<not> texts_clash L (attested_texts L (wa_key adm) e (prop_proposal_digest (wr_proposal reply)))
           (attested_texts L (wa_key adm) f (prop_proposal_digest (wr_proposal reply')))"
  shows "e = f \<and> prop_proposal_digest (wr_proposal reply) = prop_proposal_digest (wr_proposal reply')"
proof -
  note signed = admit_attested(1) [OF assms(5)] admit_attested(1) [OF assms(6)]
  have "worker_sign L (wa_key adm) (te_envelope_digest e) (prop_proposal_digest (wr_proposal reply)) =
      worker_sign L (wa_key adm) (te_envelope_digest f) (prop_proposal_digest (wr_proposal reply'))"
    using signed assms(7,8) by (simp add: reply_attested_def)
  from signature_binds [OF assms(1,2) from_command_ok(7) [OF assms(3)] from_command_ok(7) [OF assms(4)] this assms(9)] show ?thesis .
qed

theorem worker_signature_binds_witness:
  "\<exists>x f. admit sample_lib sample_admission sample_transport sample_snapshot sample_reply = Inr x \<and>
     from_command sample_lib 1 zeros sample_command JNull = Inr f \<and> sample_transport = f"
proof -
  obtain x where x: "admit sample_lib sample_admission sample_transport sample_snapshot sample_reply = Inr x" using sample_admit by blast
  have "\<not> texts_clash sample_lib xs xs" for xs by (auto simp: texts_clash_def sha_clash_def set_zip)
  from worker_signature_binds [OF sample_float_repr_ok _ sample_from_command sample_from_command x x refl refl this] x sample_from_command show ?thesis by auto
qed

section \<open>Retries\<close>



section \<open>The single-flight cache\<close>

text \<open>C20. Concurrent callers share one construction: in every state that any interleaving of any threads reaches, at most one thread constructs
  for a key, every value that is returned or cached for a key was produced by a builder for that key, the cache keeps its
  bound, and a thread that waits for a construction can still complete.\<close>

theorem single_flight_shares_builder:
  assumes "flight_reachable m (c, ts, b)"
  shows "(constructs (ts p) k f \<and> constructs (ts q) k g \<longrightarrow> p = q) \<and> (ts p = Returned k r \<and> k \<noteq> [] \<longrightarrow> (k, r) \<in> set b) \<and>
    (\<forall>(k, v) \<in> set (fc_values c). (k, Inr v) \<in> set b) \<and> within_bound m (length (fc_values c)) \<and>
    (ts p = Waiting k f \<longrightarrow> (\<exists>c' ts' b' r. flight_step\<^sup>*\<^sup>* (c, ts, b) (c', ts', b') \<and> ts' p = Returned k r))"
proof -
  note inv = flight_reachable_inv [OF assms]
  have "produced b (ts p)" using inv by (simp add: flight_inv_def)
  then have "ts p = Returned k r \<and> k \<noteq> [] \<longrightarrow> (k, r) \<in> set b" by auto
  moreover have "constructs (ts p) k f \<and> constructs (ts q) k g \<longrightarrow> p = q" using one_construction [OF inv] by blast
  moreover have "(\<forall>(k, v) \<in> set (fc_values c). (k, Inr v) \<in> set b) \<and> within_bound m (length (fc_values c))"
    using inv by (simp add: flight_inv_def cache_inv_def)
  ultimately show ?thesis using waiter_completes [OF inv] by blast
qed

theorem single_flight_shares_builder_witness:
  "\<exists>c ts c' ts' b' r. flight_reachable (Some 1) (c, ts, [] :: (string \<times> nat res) list) \<and> ts 1 = Waiting ''k'' 0 \<and>
     flight_step\<^sup>*\<^sup>* (c, ts, []) (c', ts', b') \<and> ts' 1 = Returned ''k'' r"
proof -
  let ?c = "\<lparr>fc_max_entries = Some 1, fc_values = [] :: (string \<times> nat) list, fc_flights = [], fc_futures = (\<lambda>_. None), fc_next = 0\<rparr>"
  let ?c1 = "?c\<lparr>fc_flights := [(''k'', 0)], fc_next := 1\<rparr>" and ?t1 = "(\<lambda>_. Idle)(0 := Building ''k'' 0)"
  have "flight_step (?c, \<lambda>_. Idle, []) (?c1, ?t1, [])"
    using flight_step.called [of "\<lambda>_. Idle" 0 "''k''" ?c "Inr (Owner 0)" ?c1 "[]"] by (simp add: begin_flight_def after_begin_def)
  moreover have "flight_step (?c1, ?t1, []) (?c1, ?t1(1 := Waiting ''k'' 0), [])"
    using flight_step.called [of ?t1 1 "''k''" ?c1 "Inr (Joined 0)" ?c1 "[]"] by (simp add: begin_flight_def after_begin_def)
  ultimately have run: "flight_step\<^sup>*\<^sup>* (?c, \<lambda>_. Idle, []) (?c1, ?t1(1 := Waiting ''k'' 0), [])" by (meson converse_rtranclp_into_rtranclp r_into_rtranclp)
  then have reach: "flight_reachable (Some 1) (?c1, ?t1(1 := Waiting ''k'' 0), [])" unfolding flight_reachable_def by (intro exI [of _ ?c]) (simp add: mk_flight_cache_def)
  have "(?t1(1 := Waiting ''k'' 0)) 1 = Waiting ''k'' 0" by simp
  with single_flight_shares_builder [OF reach, of 1 "''k''" 0 1 0] reach show ?thesis by blast
qed

section \<open>Task groups\<close>

text \<open>C21. An ended task is final: under every interleaving of the sections of the task state authority, by any threads and with any answers of the
  host, a task that succeeded, failed or was cancelled keeps its state and failure, and a recurring task that failed or was cancelled
  keeps them for as long as it is registered.  The methods of the authority are sequences of such sections.\<close>

theorem ended_tasks_are_final:
  assumes "group_step\<^sup>*\<^sup>* g g'" "group_wf g"
  shows "(\<forall>r. map_of (tg_tasks g) k = Some r \<and> task_terminal_status (tr_status r) \<longrightarrow> task_kept r (map_of (tg_tasks g') k)) \<and>
    (\<forall>r. map_of (tg_recurring g) k = Some r \<and> recurring_ended (rr_status r) \<longrightarrow> recurring_kept r (map_of (tg_recurring g') k)) \<and>
    by_steps (sync_terminal_from_raw host k) \<and> by_steps (expire_task host k) \<and> by_steps (cancel_task host k reason) \<and> by_steps (mark_failed host k e) \<and>
    by_steps (expire_recurring host k) \<and> by_steps (mark_recurring_failed host k e why) \<and> by_steps (cancel_group host reason)"
  by (intro conjI allI impI sync_steps expire_task_steps cancel_task_steps mark_failed_steps expire_recurring_steps mark_recurring_failed_steps cancel_group_steps)
     (use task_final [OF assms(1)] recurring_final [OF assms] in auto)

theorem ended_tasks_are_final_witness:
  "task_kept (sample_task\<lparr>tr_status := TASK_FAILED\<rparr>) (map_of (tg_tasks (snd (mark_succeeded ''t''
     (sample_group\<lparr>tg_tasks := [(''t'', sample_task\<lparr>tr_status := TASK_FAILED\<rparr>)]\<rparr>)))) ''t'')"
proof -
  let ?g = "sample_group\<lparr>tg_tasks := [(''t'', sample_task\<lparr>tr_status := TASK_FAILED\<rparr>)]\<rparr>"
  have run: "group_step\<^sup>*\<^sup>* ?g (snd (mark_succeeded ''t'' ?g))" by (rule by_stepsD [OF mark_steps(1)])
  have wf: "group_wf ?g" by (simp add: group_wf_def sample_group_def sample_recurring_def)
  from ended_tasks_are_final [OF run wf, of "''t''"] show ?thesis by (simp add: task_terminal_status_def)
qed

text \<open>C23. A task succeeds only when it earned it: a synchronization with a handle ends a live task as succeeded exactly if the handle is done without an exception, in
  time for a deadline of its own, and before any cancellation of the task or the group.\<close>

theorem success_is_earned:
  assumes "map_of (tg_tasks g) k = Some r" "\<not> task_terminal_status (tr_status r)" "tr_raw r = Some raw"
  shows "(\<exists>q. map_of (tg_tasks (snd (sync_terminal_from_raw host k g))) k = Some q \<and> tr_status q = TASK_SUCCEEDED) =
    success_due host g r (hv_raw host raw)"
proof (cases "rv_done (hv_raw host raw)")
  case True
  then show ?thesis using conclude_success [OF assms(1,2) True, of host] assms by (simp add: sync_terminal_from_raw_def Let_def)
next
  case False
  then show ?thesis using assms by (auto simp: sync_terminal_from_raw_def success_due_def task_terminal_status_def)
qed

theorem success_is_earned_witness:
  "\<exists>q. map_of (tg_tasks (snd (sync_terminal_from_raw sample_host ''t'' sample_group))) ''t'' = Some q \<and> tr_status q = TASK_SUCCEEDED"
  using success_is_earned [of sample_group "''t''" sample_task 0 sample_host]
  by (simp add: success_due_def sample_group_def sample_task_def sample_host_def task_terminal_status_def fresh_cancel_def)

text \<open>C22. A failing task decides about its group: it is recorded as failed with its failure, and if it fails for the group and the group fails
  fast, then the group is cancelled, every task of it has ended and every recurring task is cancelled; otherwise nothing else changes.\<close>

theorem failing_task_decides_group:
  assumes "map_of (tg_tasks g) k = Some r" "\<not> task_terminal_status (tr_status r)"
  shows "\<exists>g'. mark_failed host k failure g = (Inr (), g') \<and> task_is g' k TASK_FAILED (Some failure) \<and>
    (if fails_group (tr_failure_scope r) g then group_ended g' else only_task_changed k g g')"
  by (rule mark_failed_outcome [OF assms])

theorem failing_task_decides_group_witness:
  "group_ended (snd (mark_failed sample_host ''t'' TaskDeadlineExceeded sample_group))"
proof -
  have "map_of (tg_tasks sample_group) ''t'' = Some sample_task" "\<not> task_terminal_status (tr_status sample_task)"
    "fails_group (tr_failure_scope sample_task) sample_group"
    by (simp_all add: sample_group_def sample_task_def task_terminal_status_def fails_group_def)
  then show ?thesis using failing_task_decides_group [of sample_group "''t''" sample_task sample_host TaskDeadlineExceeded] by auto
qed

text \<open>C24. The deadline of a recurring task ignores its failure scope: a recurring task that fails for its caller only leaves all tasks of the group
  alone when it is reported as failed, but when its deadline passes in a fail-fast group it cancels the whole group.\<close>

theorem recurring_deadline_ignores_scope:
  assumes "map_of (tg_recurring g) k = Some r" "\<not> recurring_ended (rr_status r)" "rr_failure_scope r = CALLER_SCOPE" "tg_policy g = FAIL_FAST"
  shows "tg_tasks (snd (mark_recurring_failed host k TaskDeadlineExceeded why g)) = tg_tasks g \<and> group_ended (snd (expire_recurring host k g)) \<and>
    map fst (tg_tasks (snd (expire_recurring host k g))) = map fst (tg_tasks g)"
  using mark_recurring_failed_isolated [OF assms(1-3), of host TaskDeadlineExceeded why] expire_recurring_cancels [OF assms(1,2,4), of host] by auto

theorem recurring_deadline_ignores_scope_witness:
  "task_ended (snd (expire_recurring sample_host ''h'' sample_group)) ''t'' \<and>
   tg_tasks (snd (mark_recurring_failed sample_host ''h'' TaskDeadlineExceeded None sample_group)) = [(''t'', sample_task)]"
proof -
  have g: "map_of (tg_recurring sample_group) ''h'' = Some sample_recurring" "\<not> recurring_ended (rr_status sample_recurring)"
    "rr_failure_scope sample_recurring = CALLER_SCOPE" "tg_policy sample_group = FAIL_FAST" "tg_tasks sample_group = [(''t'', sample_task)]"
    by (simp_all add: sample_group_def sample_recurring_def recurring_ended_def)
  note P = recurring_deadline_ignores_scope [OF g(1-4), of sample_host None]
  have "''t'' \<in> fst ` set (tg_tasks (snd (expire_recurring sample_host ''h'' sample_group)))"
    using P g(5) by (metis list.set_intros(1) list.set_map list.simps(9) fst_conv)
  then show ?thesis using P g(5) by (auto simp: group_ended_def)
qed

end
