(* ===== verification/Spec2Isabelle.thy ===== *)
theory Spec2Isabelle
  imports Samples CarrierProperties RuntimeProperties
begin

text \<open>
  Verification of the machine kernel of Noetrium, the Python package
  \<^verbatim>\<open>noetrium_platform/foundation/kernel\<close>.  Paths below are relative to
  \<^verbatim>\<open>src/noetrium_platform/foundation/kernel\<close>.

  \<^bold>\<open>The program.\<close>  A \<^emph>\<open>machine\<close> is a deterministic unit of state that changes only by commits.  The
  executor takes a command, asks the unit for a proposal, applies the proposed state delta, and
  appends the resulting commit to the machine's journal; commits emit commands to other machines
  through an outbox, and an authority grants leases so that one process at a time commits.  Identity
  is by digest throughout: every record carries the SHA-256 of its canonical JSON.  Every stateful
  port has an in-memory provider and a directory provider whose files survive the process.

  \<^bold>\<open>The theories\<close>, in the order in which they build on each other.
  \<^item> \<open>Prelude\<close>: exceptions as values (\<open>py_error\<close>, \<open>res\<close>), state-passing actions, Python text
    predicates, dictionaries as sorted association lists; the collections \<open>res_simps\<close>, \<open>dict_simps\<close>.
  \<^item> \<open>Canonical\<close>, \<open>Merkle\<close> (\<^verbatim>\<open>kernel/canonical.py\<close>): freezing, canonical text and digest, the Merkle
    content digest and its incremental form.  Lemmas: the encoding is injective, the content digest
    binds the value up to a collision, inherited digests are exact.
  \<^item> \<open>StateDelta\<close>, \<open>Machine\<close>, \<open>Contracts\<close> (\<^verbatim>\<open>kernel/machine.py\<close>, \<^verbatim>\<open>kernel/contracts.py\<close>,
    \<^verbatim>\<open>kernel/family.py\<close>): every record of the machine ABI with the validation and digests of its
    \<^verbatim>\<open>__post_init__\<close>, state deltas and their application.
  \<^item> \<open>StatePatch\<close>, \<open>JournalCodec\<close>, \<open>Journal\<close> (\<^verbatim>\<open>kernel/journal.py\<close>): patches, the commit record codec,
    the validated history of one machine and the in-memory journal; the interface
    \<open>machine_journal\<close> and its interpretation.
  \<^item> \<open>Delivery\<close>, \<open>DurableDelivery\<close> (\<^verbatim>\<open>kernel/delivery.py\<close>, \<^verbatim>\<open>kernel/durable_delivery.py\<close>): envelopes,
    receipts, outbox and inbox in memory and in files; the interface \<open>command_outbox\<close>.
  \<^item> \<open>Authority\<close>, \<open>DirAuthority\<close> (\<^verbatim>\<open>kernel/lease_clock.py\<close>, \<^verbatim>\<open>kernel/authority.py\<close>): clock readings,
    leases and the lease authority in memory and in files; the interface \<open>machine_authority\<close>.
  \<^item> \<open>SnapshotStore\<close> (\<^verbatim>\<open>kernel/snapshot.py\<close>): snapshot documents and the two stores.
  \<^item> \<open>Executor\<close>, \<open>ExecutorProofs\<close>, \<open>ExecutorHistory\<close> (\<^verbatim>\<open>kernel/executor.py\<close>): every operation of the
    executor over the in-memory ports, the invariant of its reachable states and what the accepted
    history says.
  \<^item> \<open>DirJournal\<close>, \<open>DirJournalProofs\<close>, \<open>JournalGc\<close> (\<^verbatim>\<open>kernel/journal.py\<close>, \<^verbatim>\<open>kernel/durable_closure.py\<close>,
    \<^verbatim>\<open>kernel/durability/filesystem_generation.py\<close>, \<^verbatim>\<open>kernel/durability/checksummed_document.py\<close>): the
    directory journal with its caches and recovery anchors, and the retirement of a journal.
  \<^item> \<open>Service\<close>: the contract \<open>refined_service\<close> between a durable provider and the in-memory one, with
    sequences of calls; interpreted for the outbox, the authority and the supervisor.
  \<^item> \<open>Supervision\<close> (\<^verbatim>\<open>kernel/supervision.py\<close>, \<^verbatim>\<open>kernel/directory_supervision.py\<close>): child machines.
  \<^item> \<open>ServiceWindow\<close> (\<^verbatim>\<open>kernel/adaptive_service_window.py\<close>): the adaptive concurrency limit.
  \<^item> \<open>Dag\<close>, \<open>Scc\<close>, \<open>Hypergraph\<close> (\<^verbatim>\<open>dag.py\<close>): the canonical topological order, strongly connected components
    and the hypergraph order.
  \<^item> \<open>StateIndex\<close>, \<open>Frontier\<close>, \<open>Scheduling\<close>, \<open>SchedulingProofs\<close>, \<open>SchedulingCalls\<close>, \<open>Ordering\<close>, \<open>ServiceChanges\<close>
    (\<^verbatim>\<open>concurrency/scheduling/runtime/unified.py\<close>, \<^verbatim>\<open>concurrency/scheduling/api/contracts.py\<close>): the scheduling
    authority.  \<open>StateIndex\<close> is its hash trie with the interface \<open>registry\<close>, \<open>Frontier\<close> the sibling heaps and
    the reference floor, \<open>Scheduling\<close> the state and the calls; the proofs conserve permits and
    reservations over any calls; \<open>Ordering\<close> ranks candidates and \<open>ServiceChanges\<close> treats the change journal.
  \<^item> \<open>Units\<close>, \<open>UnitIdentity\<close>, \<open>UnitCodec\<close>, \<open>UnitCodecProofs\<close> (\<^verbatim>\<open>unit.py\<close>, \<^verbatim>\<open>unit_identity.py\<close>, \<^verbatim>\<open>unit_codec.py\<close>): the recursive
    carrier with its construction, digests, queries and traversals, and its codec, a table of the
    distinct subunits that is materialized in dependency order.
  \<^item> \<open>Events\<close>, \<open>EventProofs\<close> (\<^verbatim>\<open>truth.py\<close>, \<^verbatim>\<open>event.py\<close>): truth modalities, events as units, their independence, and the
    order, merge and reverse cone of causal traces.
  \<^item> \<open>Base64\<close>, \<open>EventStore\<close>, \<open>EventStoreProofs\<close> (\<^verbatim>\<open>event_store.py\<close>): the file-backed chain of state events with its append
    cache and projection file; \<open>store_step\<close> is a call of some process, a crash or a damage of the projection, and
    \<open>store_inv\<close> the invariant of the states such steps reach.
  \<^item> \<open>Worker\<close>, \<open>Retry\<close> (\<^verbatim>\<open>kernel/machine_transport.py\<close>, \<^verbatim>\<open>kernel/worker.py\<close>, \<^verbatim>\<open>kernel/retry.py\<close>): the envelope of a command, the attested reply of a
    remote worker and its admission, the worker proxy as a proposer of the executor; the retry loop.
  \<^item> \<open>SingleFlight\<close> (\<^verbatim>\<open>concurrency/api/single_flight.py\<close>): the shared construction of cached values; \<open>flight_step\<close> has all interleavings of
    the threads.
  \<^item> \<open>TaskState\<close>, \<open>TaskStateProofs\<close> (\<^verbatim>\<open>concurrency/runtime/task_state.py\<close>, \<^verbatim>\<open>task_records.py\<close>, \<^verbatim>\<open>cancellation.py\<close> and \<^verbatim>\<open>cancel\<close> of \<^verbatim>\<open>task_group.py\<close>): the
    logical state of the tasks of a group; \<open>group_step\<close> is one section under the lock, and every method is a sequence of them.
  \<^item> \<open>Samples\<close>, \<open>UnitSamples\<close>, \<open>EventSamples\<close>, \<open>RuntimeSamples\<close>: the concrete values of the witnesses.  \<open>CarrierProperties\<close> holds the
    properties of units and events, \<open>RuntimeProperties\<close> those of workers, retries, single flights and task groups, this theory all others.

  \<^bold>\<open>How the model corresponds to the code.\<close>  A dataclass is a record and its \<^verbatim>\<open>__post_init__\<close> a function
  that returns the completed record or the exception; a class with state is a record passed through
  its methods; an exception leaves the state as the code has it at that point.  Python integers are
  \<open>int\<close>; floats are rationals, with their rounding a parameter where arithmetic on them is done.
  A heap is the sorted list of its rows.  Strings are \<open>char\<close> lists, so text is restricted to the Latin-1 characters.  The runtime type checks of
  the code hold by typing.  A file is modelled by the document it holds: the text of canonical JSON
  and its parser are not part of the file models, the canonical encoding itself is.

  \<^bold>\<open>Parameters.\<close>  SHA-256 and the decimal text of floats are fields of \<open>hostlib\<close>; the only assumptions on
  them, where a theorem needs any, are that a digest is 64 lowercase hexadecimal digits (\<open>sha_ok\<close>) and
  that different floats have different texts (\<open>float_repr_ok\<close>).  Collision resistance is never
  assumed: the theorems on identity state their conclusion up to an explicit collision.  The unit's
  \<^verbatim>\<open>propose\<close>, the remote worker, the clock readings, the answers of executor handles, \<^verbatim>\<open>str\<close> of a decoded value and the iteration order of a set are
  arguments.

  \<^bold>\<open>Bounds and termination.\<close>  No definition takes fuel.  The three graph algorithms, the materialization of a decoded unit
  table and the retry loop are partial functions whose termination is a theorem; the other loops are structural or have a measure.  The nesting depth of
  JSON is bounded by the code's own limit where a value is frozen; that encoding a record applies the limit again, one level deeper, is
  modelled for units and for what travels to workers, so elsewhere payloads at the limit are not treated.  The window history is bounded by its 256 entries, and the service
  window theorems assume limits up to \<open>2 ^ 53\<close> and service times of at least \<open>tiny\<close>, within which
  IEEE division does not underflow.  A crash is a call that stops before one of its file operations:
  six file operations are enough for any purge attempt to finish.  An event store holds fewer than \<open>10 ^ 20\<close> events,
  since a generation has twenty digits in a file name; its directory stamp is a counter of the changes of the
  directory, which abstracts from the resolution of file times.

  \<^bold>\<open>Groups of properties.\<close>  Executor: reachable histories replay, steps commit at most once, resubmission,
  fencing, publication, no lost command.  State and records: patches, round trips, digests, disjoint
  paths.  Journal: append-only, one winner, refinement by the directory journal, survival of restarts,
  crash-safe retirement.  Delivery and leases: exactly-once acceptance, final receipts, epochs,
  exclusion, and the refinement of the durable providers over any sequence of calls.  Scheduling: the
  books balance, exact floors, ordering and selection, the change journal.  Children, graphs and the
  service window.  Units: the codec round trip, the digest binds the unit, the views of the member tree
  agree.  Events: exact causal cones and orders; the event store reads what was committed last, whatever the
  processes, crashes and projection, and accepts every transition.  Workers: only attested proposals are committed and signatures cannot be
  reused.  Concurrency: one construction per key, ended tasks are final, a failing task decides about its group, retries end.  Some theorems state defects of the code as it is: a resubmitted older
  command blocks the head, checkpoints with a chained identity and records with a blank effect
  reference cannot be read back, a command identifier that needs an escape is forgotten by anchor
  recovery, and the deadline of a recurring task cancels its group whatever its failure scope.

  \<^bold>\<open>Not modelled.\<close>  Locks, threads and file handles: a call runs alone, except in the single-flight cache and the task groups, whose step
  relations interleave the sections under the lock; a method of a task group reads the host at one moment.  Operating-system errors other than a
  crash.  The JSON parser.  In \<^verbatim>\<open>kernel/journal.py\<close>, the search of \<^verbatim>\<open>get\<close> over all machines.  The
  SQLite provider of the scheduling port, and submission, waiting, closing and the executors of the task runtime (\<^verbatim>\<open>concurrency/\<close>).  The schema factories and
  projections of units (\<^verbatim>\<open>structure.py\<close>), their algebra, rewriting and refinement, the universal calculus
  (\<^verbatim>\<open>kernel/universal.py\<close>), the record projections (\<^verbatim>\<open>record.py\<close>, \<^verbatim>\<open>record_plane.py\<close>), the compiler
  and the hosts are not modelled.  Outside the kernel, the
  composition, capability, infrastructure, evidence, research and product packages are clients of
  the kernel, providers over SQLite, processes and networks, or experiment code.
\<close>

section \<open>State deltas, patches and the commit record\<close>

text \<open>C7. Replaying the patch document stored for an accepted state delta gives exactly the state the
  delta produced when it was accepted: for every constructed delta that applies to a state, the patch
  builder succeeds and the patch applied to the same state returns the same result.\<close>

theorem patch_replay_reproduces_delta:
  assumes "delta_ok L delta" "apply_machine_state_delta state delta = Inr state'" "json_wf state"
  shows "\<exists>patch. state_delta_patch delta = Inr patch \<and> apply_state_patch state patch = Inr state'"
  by (rule state_delta_patch_replays [OF assms])

theorem patch_replay_reproduces_delta_witness:
  "\<exists>patch. state_delta_patch sample_delta = Inr patch \<and>
     apply_state_patch (JObj [(''y'', JNull)]) patch = Inr (JObj [(''x'', JInt 1), (''y'', JNull)])"
proof (rule patch_replay_reproduces_delta)
  show "delta_ok sample_lib sample_delta" by (rule sample_delta_ok)
  show "apply_machine_state_delta (JObj [(''y'', JNull)]) sample_delta = Inr (JObj [(''x'', JInt 1), (''y'', JNull)])"
    by (simp add: apply_machine_state_delta_def sample_delta_def apply_mutation_group.simps mutation_runs_def
        dict_put_def freeze_json_object_reusing_eq default_max_depth_def)
  show "json_wf (JObj [(''y'', JNull)])" by (simp add: dict_simps)
qed



text \<open>C9. An accepted delta sets exactly what it names: every mutated path then holds the mutation's
  value, or is absent after a deletion, and every path that neither extends nor is extended by a
  mutated path reads as before.\<close>

theorem delta_application_lookup:
  assumes "delta_ok L delta" "apply_machine_state_delta state delta = Inr state'"
  shows "(\<forall>m \<in> set (delta_mutations delta). json_get state' (mut_path m) =
      (if mut_delete m then None else Some (mut_value m))) \<and>
    (\<forall>p. (\<forall>m \<in> set (delta_mutations delta). unrelated p (mut_path m)) \<longrightarrow> json_get state' p = json_get state p)"
  by (rule apply_machine_state_delta_get [OF assms])

theorem delta_application_lookup_witness:
  "json_get (JObj [(''x'', JInt 1), (''y'', JNull)]) [''x''] = Some (JInt 1) \<and>
   json_get (JObj [(''x'', JInt 1), (''y'', JNull)]) [''y''] = json_get (JObj [(''y'', JNull)]) [''y'']"
proof -
  have "apply_machine_state_delta (JObj [(''y'', JNull)]) sample_delta = Inr (JObj [(''x'', JInt 1), (''y'', JNull)])"
    by (simp add: apply_machine_state_delta_def sample_delta_def apply_mutation_group.simps mutation_runs_def
        dict_put_def freeze_json_object_reusing_eq default_max_depth_def)
  from delta_application_lookup [OF sample_delta_ok this] show ?thesis
    by (simp add: sample_delta_def unrelated_def)
qed

section \<open>The machine executor\<close>

text \<open>C2. A step extends the authoritative history by at most one commit, whether it then returns or
  raises, and that commit was built from the executor's snapshot by applying the delta the proposer
  returned for exactly this command; no other machine's history changes.\<close>

theorem step_appends_at_most_one:
  assumes "mem_wf (ex_journal ex)" "exec_step L cfg reading1 reading2 proposer propose command ex = (r, ex')"
  shows "mem_commits (ex_journal ex') = mem_commits (ex_journal ex) \<or>
    (\<exists>c. fresh_commit L cfg propose command ex c \<and> mem_commits (ex_journal ex') = (mem_commits (ex_journal ex))
       (cfg_machine_id cfg := mem_commits (ex_journal ex) (cfg_machine_id cfg) @ [c]))"
  using exec_step_journal [OF assms] by blast

theorem step_appends_at_most_one_witness:
  "mem_commits sample_journal = mem_commits empty_mem_journal \<or>
    (\<exists>c. fresh_commit sample_lib sample_config sample_propose sample_command sample_opened c \<and>
       mem_commits sample_journal = (mem_commits empty_mem_journal)
         (cfg_machine_id sample_config := mem_commits empty_mem_journal (cfg_machine_id sample_config) @ [c]))"
  using step_appends_at_most_one [OF _ sample_step_ok] by (simp add: sample_stepped_def)

text \<open>C5. A step that returns a commit returns one the journal holds, publishes exactly that commit as
  the executor's snapshot and status, and has put an envelope for each command it emits in the
  outbox, without losing any earlier envelope or receipt.\<close>

theorem step_success_is_published:
  assumes "sha_ok L" "mem_wf (ex_journal ex)" "ex_outbox ex = Some ob" "outbox_wf ob"
    and "exec_step L cfg reading1 reading2 proposer propose command ex = (Inr c, ex')"
  shows "c \<in> set (mem_commits (ex_journal ex') (cfg_machine_id cfg)) \<and> ex_status ex' = com_accepted_status c \<and>
    (\<exists>s. snapshot_of_commit L cfg c = Inr s \<and> ex_snapshot ex' = Some s) \<and>
    (\<exists>ob'. ex_outbox ex' = Some ob' \<and> outbox_le ob ob' \<and>
      (\<forall>emitted \<in> set (com_emitted_commands c). \<exists>e. mk_envelope L c emitted = Inr e \<and> enqueued ob' e))"
  using exec_step_success [OF assms(2,5)] exec_step_outbox [OF assms] by blast

theorem step_success_is_published_witness:
  "sample_commit \<in> set (mem_commits sample_journal ''m'') \<and> enqueued sample_outbox sample_envelope"
proof -
  have "\<exists>e. mk_envelope sample_lib sample_commit sample_emitted = Inr e \<and> enqueued sample_outbox e"
    and "sample_commit \<in> set (mem_commits sample_journal ''m'')"
    using step_success_is_published [OF _ _ _ _ sample_step_ok] by (simp_all add: sample_stepped_def)
  then show ?thesis
    by (auto simp: mk_envelope_def envelope_post_init_def sample_envelope_def sample_emitted_def enqueued_def)
qed

text \<open>C3. Resubmitting a command is idempotent: once a step has answered a command, submitting it again,
  with any expected revision, any clock readings (even after the lease was lost) and whatever the
  proposer would now answer, returns the same commit and changes neither history, snapshot nor
  status.\<close>

theorem resubmission_is_idempotent:
  assumes "sha_ok L" "mem_wf (ex_journal ex)" "\<And>ob. ex_outbox ex = Some ob \<Longrightarrow> outbox_wf ob" "command_ok L command"
    and "exec_step L cfg reading1 reading2 proposer propose command ex = (Inr c, ex1)"
    and "com_command_id c = cmd_command_id command" "0 \<le> com_base_revision c"
    and "command_post_init L (command\<lparr>cmd_expected_revision := n\<rparr>) = Inr retry"
  shows "\<exists>ex2. exec_step L cfg reading3 reading4 proposer propose' retry ex1 = (Inr c, ex2) \<and>
    ex_journal ex2 = ex_journal ex1 \<and> ex_snapshot ex2 = ex_snapshot ex1 \<and> ex_status ex2 = ex_status ex1"
  by (rule exec_step_retry [OF assms])

theorem resubmission_is_idempotent_witness:
  "\<exists>ex2. exec_step sample_lib sample_config sample_reading sample_reading 0 (\<lambda>_ _. Inl ValueError)
      (sample_command\<lparr>cmd_expected_revision := 5\<rparr>) sample_stepped = (Inr sample_commit, ex2) \<and>
    ex_journal ex2 = ex_journal sample_stepped \<and> ex_snapshot ex2 = ex_snapshot sample_stepped \<and>
    ex_status ex2 = ex_status sample_stepped"
proof (rule resubmission_is_idempotent [OF _ _ _ sample_command_ok sample_step_ok, where n = 5])
  show "command_post_init sample_lib (sample_command\<lparr>cmd_expected_revision := 5\<rparr>) =
      Inr (sample_command\<lparr>cmd_expected_revision := 5\<rparr>)"
    by (simp add: command_post_init_def sample_command_def construction_defs)
qed auto

text \<open>C4. A fenced executor commits nothing: once the authority granted the machine to another owner,
  then after any further authority operations, every step of an executor that still holds the old
  lease leaves the journal as it is.\<close>

theorem fenced_executor_commits_nothing:
  assumes "authority_wf a" "auth_leases a m = Some old" "lease_machine_id old = m"
    and "auth_acquire L reading m owner ttl a = (Inr l, b)" "lease_owner_id old \<noteq> owner" "(auth_step L)\<^sup>*\<^sup>* b now"
    and "ex_authority ex = Some now" "cfg_lease cfg = Some old" "mem_wf (ex_journal ex)"
    and "exec_step L cfg reading1 reading2 proposer propose command ex = (r, ex')"
  shows "ex_journal ex' = ex_journal ex"
  by (rule exec_step_needs_lease [OF assms(9,10,7,8)])
    (rule auth.fenced_forever [OF assms(1-6)])

theorem fenced_executor_commits_nothing_witness:
  "ex_journal (snd (exec_step sample_lib (sample_config\<lparr>cfg_lease := Some sample_lease\<rparr>) sample_reading sample_reading 0
      sample_propose sample_command (sample_opened\<lparr>ex_authority := Some sample_authority2\<rparr>))) = empty_mem_journal"
  using fenced_executor_commits_nothing [OF _ _ _ sample_acquire, of sample_lease sample_authority2
      "sample_opened\<lparr>ex_authority := Some sample_authority2\<rparr>" "sample_config\<lparr>cfg_lease := Some sample_lease\<rparr>",
      OF _ _ _ _ _ _ _ _ prod.collapse [symmetric]]
  by simp



text \<open>C6. Opening an executor repairs the gap between commit and delivery: when open returns, an envelope
  for every command emitted by any commit of the machine's history is in the outbox.\<close>

theorem open_loses_no_emitted_command:
  assumes "sha_ok L" "ex_outbox ex = Some ob" "outbox_wf ob"
    and "exec_open L cfg init ex = (Inr s, ex')" "c \<in> set (mem_commits (ex_journal ex) (cfg_machine_id cfg))"
    and "command \<in> set (com_emitted_commands c)"
  shows "\<exists>ob' e. ex_outbox ex' = Some ob' \<and> mk_envelope L c command = Inr e \<and> enqueued ob' e"
  by (rule exec_open_reconciles [OF assms])

theorem open_loses_no_emitted_command_witness:
  "\<exists>ob' e. ex_outbox sample_reopened = Some ob' \<and> mk_envelope sample_lib sample_commit sample_emitted = Inr e \<and>
    enqueued ob' e"
  using open_loses_no_emitted_command [OF _ _ _ sample_reopen, of empty_outbox sample_commit sample_emitted]
  by (simp add: sample_crashed_def sample_exec_def sample_commits)

text \<open>C26. Resubmitting an older command rewinds the executor: the answer of a committed command also
  becomes the executor's own snapshot, so that when later commits exist, a fresh command addressed
  to the journal's head revision is then refused, although the journal would accept its commit.\<close>

theorem older_resubmission_blocks_head:
  assumes "mem_wf (ex_journal ex)" "exec_step L cfg reading1 reading2 proposer propose command ex = (Inr c, ex')"
    and "com_revision c < int (length (mem_commits (ex_journal ex') (cfg_machine_id cfg)))"
    and "existing_command L cfg next ex' = Inr None"
    and "cmd_expected_revision next = int (length (mem_commits (ex_journal ex') (cfg_machine_id cfg)))"
  shows "\<not> is_ok (fst (exec_step L cfg reading3 reading4 proposer propose' next ex'))"
  by (rule older_command_rewinds [OF assms(1,2,4)]) (use assms(3,5) in simp)

theorem older_resubmission_blocks_head_witness:
  "\<not> is_ok (fst (sample_step (sample_command\<lparr>cmd_command_id := ''k'', cmd_expected_revision := 2\<rparr>) sample_two))"
  by (rule older_resubmission_blocks_head [OF _ sample_resubmit])
    (simp_all add: sample_two_def existing_command_def mem_command_commit_def sample_history2 mem_commits_def)

section \<open>The journal\<close>

text \<open>C10. The journal is append-only with consecutive revisions: after any sequence of appends of
  constructed commits, accepted or refused, from any number of writers, the history that was there
  is a prefix of the new one, and the i-th commit of a machine carries revision i + 1.\<close>

theorem journal_append_only:
  assumes "mem_wf j" "\<forall>c \<in> set cs. commit_ok L c"
  shows "prefix (mem_commits j m) (mem_commits (fold (\<lambda>c j. snd (mem_append c j)) cs j) m) \<and>
    (\<forall>i < length (mem_commits (fold (\<lambda>c j. snd (mem_append c j)) cs j) m).
       com_revision (mem_commits (fold (\<lambda>c j. snd (mem_append c j)) cs j) m ! i) = int i + 1)"
proof -
  have run: "fold (\<lambda>c j. snd (mem_append c j)) cs j = mem.jrun cs j"
    by (induction cs arbitrary: j) simp_all
  have "\<forall>c \<in> set cs. com_revision c = com_base_revision c + 1" using assms(2) commit_ok_facts(1) by blast
  then show ?thesis
    unfolding run using mem.jrun_append_only [OF assms(1)] mem.jrun_revisions [OF assms(1)] by blast
qed

theorem journal_append_only_witness:
  "prefix (mem_commits empty_mem_journal ''m'') (mem_commits sample_journal ''m'') \<and>
    com_revision (mem_commits sample_journal ''m'' ! 0) = 1"
  using journal_append_only [of empty_mem_journal "[sample_commit]" sample_lib "''m''"] sample_commit_ok sample_commits
  by (simp add: sample_mem_append)

section \<open>Canonical encoding and digests\<close>

text \<open>The canonical encoding is injective: two JSON values have the same canonical bytes only if they
  are the same value, so equal canonical digests mean equal values unless SHA-256 collides on the two
  encodings.  The text of a float is only assumed injective and made of number characters.\<close>

theorem canonical_encoding_injective:
  assumes "float_repr_ok L"
  shows "(canonical_bytes L v = canonical_bytes L w) = (v = w) \<and>
    (canonical_digest L v = canonical_digest L w \<longrightarrow> v = w \<or> digest_collision L v w)"
  using canonical_bytes_inj [OF assms] canonical_digest_inj [OF assms] by blast

theorem canonical_encoding_injective_witness:
  "canonical_bytes sample_lib (JArr [JInt 1, JInt 2]) \<noteq> canonical_bytes sample_lib (JArr [JInt 12])"
  using canonical_encoding_injective [OF sample_float_repr_ok, of "JArr [JInt 1, JInt 2]" "JArr [JInt 12]"] by simp

text \<open>The Merkle content digest binds the whole value: equal content digests of two values mean equal
  values, unless SHA-256 collides on the preimages of two of their nodes.\<close>

theorem content_digest_binds_value:
  assumes "float_repr_ok L" "sha_ok L" "json_sized L v" "json_sized L w"
    and "json_content_digest L v = json_content_digest L w" "\<not> sha256_collision L v w"
  shows "v = w"
  using json_content_digest_binding [OF assms(1)] assms(2-6) by blast

theorem content_digest_binds_value_witness:
  "json_sized sample_lib (JBool True) \<and> JBool True = JBool (2 < (3::nat))"
proof -
  have sized: "json_sized sample_lib (JBool b)" for b
    by (simp add: canonical_bytes_def utf8_def utf8_char_def)
  have "JBool True = JBool (2 < (3::nat))"
    by (rule content_digest_binds_value [of sample_lib, OF _ _ sized sized]) (simp_all add: sha256_collision_def)
  with sized show ?thesis by blast
qed

text \<open>Incremental digests are exact: after applying a group of mutations, the digest computed from the
  entry digests inherited by the copy equals the digest recomputed from the whole new object.\<close>

theorem incremental_digest_exact:
  assumes "valid_group depth ms" "apply_mutation_group base ms depth = Inr r" "cache_sound L cache base" "dict_wf base"
  shows "fst (content_digest_cached L (reused_entry_digests cache r (fst ` set (segment_runs depth ms))) r) =
    json_content_digest L (JObj r)"
  by (rule apply_mutation_group_digest [OF assms])

theorem incremental_digest_exact_witness:
  "fst (content_digest_cached sample_lib (reused_entry_digests [''y'' \<mapsto> zeros] [(''x'', JInt 1), (''y'', JNull)] {''x''})
      [(''x'', JInt 1), (''y'', JNull)]) = json_content_digest sample_lib (JObj [(''x'', JInt 1), (''y'', JNull)])"
proof -
  have "apply_mutation_group [(''y'', JNull)] (delta_mutations sample_delta) 0 = Inr [(''x'', JInt 1), (''y'', JNull)]"
    by (simp add: sample_delta_def apply_mutation_group.simps mutation_runs_def dict_put_def
        freeze_json_object_reusing_eq default_max_depth_def)
  from incremental_digest_exact [OF delta_ok_valid(1) [OF sample_delta_ok] this, of sample_lib "[''y'' \<mapsto> zeros]"]
  show ?thesis by (simp add: cache_sound_def sample_delta_def dict_simps)
qed

text \<open>A commit identity binds the commit: two constructed commits with the same commit id agree on
  every recorded field but the state, and at a content anchor revision on the state too, unless a
  digest collides.\<close>

theorem commit_id_binds_commit:
  assumes "float_repr_ok L" "sha_ok L" "commit_ok L a" "commit_ok L b" "com_commit_id a = com_commit_id b"
    and "\<not> digest_collision L (jobj (commit_payload a)) (jobj (commit_payload b))"
    and "json_sized L (com_state a)" "json_sized L (com_state b)" "\<not> sha256_collision L (com_state a) (com_state b)"
  shows "a\<lparr>com_state := JNull, com_state_delta := None\<rparr> = b\<lparr>com_state := JNull, com_state_delta := None\<rparr> \<and>
    (is_content_anchor (com_revision a) \<longrightarrow> commit_eq a b)"
proof -
  have sha: "\<And>x. is_sha256 (sha256_hex L x)" using assms(2) by blast
  show ?thesis
    using commit_id_payload [OF assms(1,3,4,5,6)] commit_id_binds_anchor [OF assms(1) sha assms(3-5) _ assms(6-9)]
    by blast
qed

theorem commit_id_binds_commit_witness:
  "commit_eq sample_blank (sample_blank\<lparr>com_state_delta := Some sample_delta\<rparr>)"
  using commit_id_binds_commit [OF sample_float_repr_ok _ sample_blank_ok] same_no_collision
  by (simp add: is_content_anchor_def sample_blank_def commit_payload_def)

section \<open>Delivery\<close>

text \<open>A delivered receipt is final: whatever sequence of enqueue, mark and reconcile calls follows, the
  outbox keeps the receipt of a delivered envelope unchanged.\<close>

theorem delivered_receipt_is_final:
  assumes "sha_ok L" "(outbox_step L)\<^sup>*\<^sup>* ob ob'" "outbox_wf ob"
    and "out_receipts ob k = Some r" "rcp_status r = DS_DELIVERED"
  shows "out_receipts ob' k = Some r"
  by (rule delivered_is_terminal [OF assms])

theorem delivered_receipt_is_final_witness:
  "out_receipts (snd (outbox_mark sample_receipt
      (sample_outbox\<lparr>out_receipts := [zeros \<mapsto> sample_receipt\<lparr>rcp_status := DS_DELIVERED\<rparr>]\<rparr>))) zeros =
    Some (sample_receipt\<lparr>rcp_status := DS_DELIVERED\<rparr>)"
proof (rule delivered_receipt_is_final [of sample_lib])
  show "(outbox_step sample_lib)\<^sup>*\<^sup>* (sample_outbox\<lparr>out_receipts := [zeros \<mapsto> sample_receipt\<lparr>rcp_status := DS_DELIVERED\<rparr>]\<rparr>)
      (snd (outbox_mark sample_receipt (sample_outbox\<lparr>out_receipts := [zeros \<mapsto> sample_receipt\<lparr>rcp_status := DS_DELIVERED\<rparr>]\<rparr>)))"
    by (rule r_into_rtranclp) (rule outbox_step.mark, rule prod.collapse [symmetric])
qed (simp_all add: outbox_wf_def sample_outbox_def sample_receipt_def sample_envelope_def)

section \<open>Authority\<close>

text \<open>A lease epoch belongs to one owner: if at two moments of any sequence of acquire, renew, assert and
  release calls a machine's stored lease has the same epoch, it has the same owner.\<close>

theorem epoch_has_one_owner:
  assumes "authority_wf a" "auth_leases a m = Some l" "(auth_step L)\<^sup>*\<^sup>* a b" "auth_leases b m = Some l'"
    and "lease_epoch l' = lease_epoch l"
  shows "lease_owner_id l' = lease_owner_id l"
  by (rule auth.epoch_owner [OF assms])

theorem epoch_has_one_owner_witness:
  "lease_owner_id (sample_lease2\<lparr>lease_expires_at := 110\<rparr>) = lease_owner_id sample_lease2"
  by (rule epoch_has_one_owner [OF _ _ r_into_rtranclp, OF _ _ auth_step.renew, OF _ _ sample_renew]) simp_all

section \<open>Snapshots and families\<close>

text \<open>A stored snapshot that carries its content digest is read back unchanged.\<close>

theorem snapshot_document_round_trip:
  assumes "sha_ok L" "snapshot_ok L None s"
  shows "decode_snapshot L (snapshot_document L s) = Inr s"
  by (rule snapshot_round_trip [OF assms])

theorem snapshot_document_round_trip_witness:
  "decode_snapshot sample_lib (snapshot_document sample_lib sample_snapshot) = Inr sample_snapshot"
  by (rule snapshot_document_round_trip [OF _ sample_snapshot_ok]) simp

text \<open>The directory snapshot store refines the in-memory store: on represented contents, saving a
  snapshot that carries its content digest gives the same answer or refusal and leaves a represented
  content.\<close>

theorem directory_store_refines_memory:
  assumes "sha_ok L" "dir_snapshots_represent L st d" "snapshot_ok L None s"
  shows "fst (dir_snapshot_save L s d) = fst (mem_snapshot_save L s st) \<and>
    dir_snapshots_represent L (snd (mem_snapshot_save L s st)) (snd (dir_snapshot_save L s d))"
  by (rule dir_snapshot_save_refines [OF assms])

theorem directory_store_refines_memory_witness:
  "fst (dir_snapshot_save sample_lib sample_snapshot Map.empty) = fst (mem_snapshot_save sample_lib sample_snapshot Map.empty)"
  using directory_store_refines_memory [OF _ _ sample_snapshot_ok, of Map.empty Map.empty]
  by (simp add: dir_snapshots_represent_def)

section \<open>The directory journal\<close>







text \<open>A commit with a blank effect reference poisons its journal: the constructor accepts it and its
  record is written, but no replay can decode that record.\<close>

theorem blank_effect_reference_unreadable:
  assumes "commit_document c prev force = Inr doc" "\<not> all_nonblank (com_effect_intent_refs c)"
  shows "\<not> is_ok (decode_commit L doc prev' digest)"
  by (rule blank_effect_unreadable [OF assms])

theorem blank_effect_reference_unreadable_witness:
  "commit_ok sample_lib (sample_commit\<lparr>com_effect_intent_refs := [[]]\<rparr>) \<and>
   \<not> is_ok (decode_commit sample_lib (jobj (commit_document_fields (sample_commit\<lparr>com_effect_intent_refs := [[]]\<rparr>)
      (''snapshot'', com_state sample_commit))) None None)"
proof
  show "commit_ok sample_lib (sample_commit\<lparr>com_effect_intent_refs := [[]]\<rparr>)"
    by (simp add: commit_ok_def sample_commit_def sample_delta_def construction_defs)
  show "\<not> is_ok (decode_commit sample_lib (jobj (commit_document_fields (sample_commit\<lparr>com_effect_intent_refs := [[]]\<rparr>)
      (''snapshot'', com_state sample_commit))) None None)"
    by (rule blank_effect_reference_unreadable [where c = "sample_commit\<lparr>com_effect_intent_refs := [[]]\<rparr>" and prev = None and force = True])
      (simp_all add: commit_document_def state_record_def all_nonblank_def nonblank_iff)
qed

text \<open>A checkpoint of a committed revision cannot be restored from the directory store: saving it
  succeeds, and loading it is then refused as a digest mismatch, because its identity was built from
  the chained state identity and is recomputed from the content digest.\<close>

theorem hinted_checkpoint_unreadable:
  assumes "sha_ok L" "float_repr_ok L" "snapshot_ok L (Some d) s" "d \<noteq> json_content_digest L (snap_state s)"
    and "\<not> digest_collision L (snapshot_id_doc (s\<lparr>snap_state_digest := json_content_digest L (snap_state s)\<rparr>)) (snapshot_id_doc s)"
    and "st (snap_machine_id s) = None"
  shows "dir_snapshot_save L s st = (Inr s, st(snap_machine_id s \<mapsto> snapshot_document L s)) \<and>
    dir_snapshot_load L (st(snap_machine_id s \<mapsto> snapshot_document L s)) (snap_machine_id s) = Inl MachineIntegrityError"
  using hinted_snapshot_unreadable [OF assms(1-5)] assms(6) snapshot_ok_parts(1) [OF assms(3)]
  by (simp add: dir_snapshot_save_def dir_snapshot_load_def dir_snapshot_read_def)

theorem hinted_checkpoint_unreadable_witness:
  "dir_snapshot_load sample_lib2 [''m'' \<mapsto> snapshot_document sample_lib2 sample_hinted] ''m'' = Inl MachineIntegrityError"
  using hinted_checkpoint_unreadable [OF sample_lib2_ok sample_hinted_ok, of Map.empty] sample_hinted_apart
  by (simp add: sample_hinted_def sample_hinted_content del: json_content_digest.simps)

section \<open>Durable services\<close>

text \<open>C30. The durable outbox is an outbox: over any sequence of enqueue, reconcile and mark calls, with crashes
  that leave a prefix of the emitted commands stored or an envelope without its receipt, the directory
  outbox gives every answer the in-memory outbox gives, and the two list the same pending envelopes.\<close>

theorem durable_outbox_refines:
  assumes "sha_ok L" "list_all (outbox_call_ok L) calls"
  shows "fst (run_calls (dir_outbox_call L) calls empty_dir_outbox) = fst (run_calls (mem_outbox_call L) calls empty_outbox) \<and>
    (\<exists>ds es. dir_pending L (snd (run_calls (dir_outbox_call L) calls empty_dir_outbox)) = Inr ds \<and>
       outbox_pending (snd (run_calls (mem_outbox_call L) calls empty_outbox)) = Inr es \<and>
       set (map (\<lambda>e. (env_id e, env_digest e)) ds) = set (map (\<lambda>e. (env_id e, env_digest e)) es))"
proof -
  have "sha_ok L \<and> outbox_files L empty_dir_outbox empty_outbox" using assms(1) outbox_files_empty by blast
  from dirout.run [OF this assms(2)] dir_pending_refines [OF assms(1)] show ?thesis by blast
qed

theorem durable_outbox_refines_witness:
  "fst (run_calls (dir_outbox_call sample_lib) [EnqueueTorn sample_commit sample_emitted, Enqueue sample_commit] empty_dir_outbox) =
   [Inr (Inl []), Inr (Inl [sample_envelope])]"
  using durable_outbox_refines [of sample_lib "[EnqueueTorn sample_commit sample_emitted, Enqueue sample_commit]"]
    sample_enqueue sample_emits_ok sample_emitted_ok
  by (simp add: crashed_def act_answer_def act_bind_def act_lift_def sample_enqueue_one sample_enqueue_again)

text \<open>C31. The directory authority is the authority: over any sequence of acquire, renew, assert and release
  calls by any processes, whose machines have different lease file names, it answers exactly like the
  in-memory authority, so that exclusion and fencing carry over to leases kept in files.\<close>

theorem directory_authority_refines:
  assumes "str_of_text pystr" "inj_on (lease_path L) M" "list_all (\<lambda>c. auth_call_machine c \<in> M) calls"
  shows "fst (run_calls (dir_auth_call L pystr) calls \<lparr>da_leases = Map.empty, da_anchor = None\<rparr>) =
    fst (run_calls (mem_auth_call L) calls empty_authority)"
  using dirauth.run [OF _ assms(3), of pystr L] assms(1) empty_auth_files [OF assms(2)] by blast

theorem directory_authority_refines_witness:
  "fst (run_calls (dir_auth_call sample_lib sample_str) [Acquire sample_reading ''m'' ''o2'' 10] \<lparr>da_leases = Map.empty, da_anchor = None\<rparr>) =
   [Inr (Some (sample_lease2\<lparr>lease_epoch := 1\<rparr>))]"
  using directory_authority_refines [OF sample_str_ok, of sample_lib "{''m''}" "[Acquire sample_reading ''m'' ''o2'' 10]"]
  by (simp add: act_answer_def act_bind_def act_lift_def sample_acquire_first)

section \<open>Child machines\<close>



text \<open>The durable supervisor is the supervisor: over any sequence of register, observe, cancel, join and list
  calls and process restarts it answers exactly like the supervisor state kept in memory.\<close>

theorem durable_supervisor_refines:
  assumes "list_all (sup_call_ok L) calls"
  shows "fst (run_calls (dir_sup_call L) calls \<lparr>ds_file = None, ds_records = []\<rparr>) = fst (run_calls (mem_sup_call L) calls [])"
  using dirsup.run [OF ds_represents_empty assms] by blast

theorem durable_supervisor_refines_witness:
  "fst (run_calls (dir_sup_call sample_lib) [Register sample_link, Restart, Cancel ''n'' ''k'', Restart, Join ''n'']
     \<lparr>ds_file = None, ds_records = []\<rparr>) = [Inr [sample_child], Inr [], Inr [sample_canceled], Inr [], Inr [sample_canceled]]"
  using durable_supervisor_refines [of sample_lib "[Register sample_link, Restart, Cancel ''n'' ''k'', Restart, Join ''n'']"]
    sample_link_ok
  by (simp add: act_answer_def act_bind_def act_lift_def sample_register sample_cancel query_def sup_join_def
      sample_canceled_def [THEN arg_cong, of rec_status] child_terminal_def)

section \<open>Graphs\<close>

text \<open>C33. The canonical topological order terminates, answers exactly the nodes in an order in which every edge
  points forward when the graph has no cycle and an error when it has one, and depends on the graph
  only: not on the order of nodes, on repeated edges or on how the edge set is iterated.\<close>

theorem topological_order_correct:
  assumes "set_enumeration enum" "dag_arguments nodes edges"
    and "set_enumeration enum'" "dag_arguments nodes' edges'" "set nodes' = set nodes" "set edges' = set edges"
  shows "(if acyclic (set edges) then (\<exists>r. deterministic_topological_order enum nodes edges = Some (Inr r) \<and>
        topo_sound (set edges) r \<and> distinct r \<and> set r = set nodes)
      else deterministic_topological_order enum nodes edges = Some (Inl ValueError)) \<and>
    deterministic_topological_order enum' nodes' edges' = deterministic_topological_order enum nodes edges"
  using topological_order_acyclic [OF assms(2,1)] topological_order_cyclic [OF assms(2,1)]
    topological_order_canonical [OF assms(2,4,1,3,5,6)] by auto

theorem topological_order_correct_witness:
  "deterministic_topological_order remdups [''b'', ''a''] [(''b'', ''a''), (''b'', ''a'')] =
   deterministic_topological_order remdups [''a'', ''b''] [(''b'', ''a'')]"
  using topological_order_correct [OF remdups_enumeration _ remdups_enumeration,
      of "[''a'', ''b'']" "[(''b'', ''a'')]" "[''b'', ''a'']" "[(''b'', ''a''), (''b'', ''a'')]"]
  by (auto simp: dag_arguments_def)

text \<open>C38. Strongly connected components: when the node identities are distinct and every target is known, the
  algorithm returns, its components partition the nodes into the classes of mutually reachable nodes,
  and every component comes after all components that reach it; otherwise it refuses.\<close>

theorem strongly_connected_components_correct:
  "if distinct nodes \<and> (\<forall>u \<in> set nodes. set (adjacency u) \<subseteq> set nodes)
   then \<exists>comps. strongly_connected_components nodes adjacency = Some (Inr comps) \<and>
     scc_partition (set nodes) (edges_of (set nodes) adjacency) comps
   else strongly_connected_components nodes adjacency = Some (Inl ValueError)"
proof (cases "distinct nodes \<and> (\<forall>u \<in> set nodes. set (adjacency u) \<subseteq> set nodes)")
  case True
  then show ?thesis using scc_returns [of nodes adjacency] by simp
next
  case False
  then show ?thesis using scc_rejects [of nodes adjacency] by auto
qed

theorem strongly_connected_components_correct_witness:
  "\<exists>comps. strongly_connected_components [1, 2, 3 :: nat] (\<lambda>u. [u mod 2 + 1]) = Some (Inr comps) \<and>
     scc_partition {1, 2, 3} (edges_of {1, 2, 3} (\<lambda>u. [u mod 2 + 1])) comps"
  using strongly_connected_components_correct [of "[1, 2, 3 :: nat]" "\<lambda>u. [u mod 2 + 1]"] by simp

text \<open>The hypergraph order: for distinct nodes and acyclic relations between known nodes, the algorithm
  returns an order of exactly the nodes in which every source of a relation precedes every target of
  it; a cycle, a repeated node and an unknown node are refused.\<close>

theorem hypergraph_order_correct:
  "if distinct nodes \<and> (\<forall>(S, T) \<in> set relations. set S \<union> set T \<subseteq> set nodes) \<and> acyclic (hyper_edges relations)
   then \<exists>r. deterministic_hypergraph_topological_order nodes relations = Some (Inr r) \<and>
     topo_sound (hyper_edges relations) r \<and> distinct r \<and> set r = set nodes
   else deterministic_hypergraph_topological_order nodes relations = Some (Inl ValueError)"
proof (cases "distinct nodes \<and> (\<forall>(S, T) \<in> set relations. set S \<union> set T \<subseteq> set nodes)")
  case True
  then show ?thesis using hypergraph_order_acyclic [of nodes relations] hypergraph_order_cyclic [of nodes relations] by auto
next
  case False
  then show ?thesis using hypergraph_order_rejects [of nodes relations] by auto
qed

theorem hypergraph_order_correct_witness:
  "\<exists>r. deterministic_hypergraph_topological_order [2, 1 :: nat] [([1], [2])] = Some (Inr r) \<and>
     topo_sound (hyper_edges [([1], [2])]) r \<and> distinct r \<and> set r = {1, 2}"
proof -
  have "acyclic (hyper_edges [([1], [2 :: nat])])" by (simp add: hyper_edges_def acyclic_insert wf_acyclic)
  then show ?thesis
    using hypergraph_order_correct [of "[2, 1 :: nat]" "[([1], [2])]"] by (auto simp: insert_commute)
qed

section \<open>The scheduling authority\<close>

text \<open>C37. The scheduling index is a well-formed map: after any sequence of publications, refused ones included,
  the hash trie is well formed, looks up the first state published under each key, and iterates over
  exactly the published keys, each once, whatever hashes collide.\<close>

theorem scheduling_index_is_map:
  "trie_index_ok hash (publish_all (index_publish hash) kvs empty_index) \<and>
   index_get hash (publish_all (index_publish hash) kvs empty_index) = map_of kvs \<and>
   distinct (index_keys (publish_all (index_publish hash) kvs empty_index)) \<and>
   set (index_keys (publish_all (index_publish hash) kvs empty_index)) = fst ` set kvs \<and>
   ix_size (publish_all (index_publish hash) kvs empty_index) = int (card (fst ` set kvs))"
proof -
  let ?ix = "publish_all (index_publish hash) kvs empty_index"
  have ok: "trie_index_ok hash ?ix" by (rule state_index.publish_all_ok [OF state_index.empty_ok])
  have get: "index_get hash ?ix = map_of kvs"
    using state_index.publish_all_get [OF state_index.empty_ok, of hash kvs] by (simp add: state_index.empty_get fun_eq_iff map_add_def split: option.split)
  have keys: "distinct (index_keys ?ix)" "set (index_keys ?ix) = fst ` set kvs"
    using state_index.keys_distinct [OF ok] state_index.keys_dom [OF ok] by (simp_all add: get dom_map_of_conv_image_fst)
  have "index_keys (empty_index :: 'a index) = []"
    using state_index.keys_dom [OF state_index.empty_ok, of hash] by (simp add: state_index.empty_get dom_def)
  then have "ix_size ?ix = int (length (index_keys ?ix))"
    using state_index.publish_all_size [OF state_index.empty_ok, of hash kvs] by (simp add: empty_index_def)
  then show ?thesis using ok get keys distinct_card [OF keys(1)] by simp
qed

text \<open>C34. The authority conserves permits and reservations: in every state reached by grants, rollbacks,
  completions and releases, refused ones included, what a tenant holds in flight and in reserved
  service is the sum over its flows, what a resource of a tenant holds is the sum over the flows
  using it, and no entity ever holds a negative amount.\<close>

theorem scheduling_books_balance:
  assumes "sched_reachable hash st" "m \<in> {en_in_flight, en_reserved}"
  shows "(t \<noteq> [] \<longrightarrow> level m hash st ''tenant'' t = flow_total m hash st (\<lambda>c. fst c = Some t)) \<and>
    (tenant \<noteq> Some [] \<longrightarrow> r \<noteq> [] \<longrightarrow> level m hash st ''resource'' (the (resource_key tenant (Some r))) =
       flow_total m hash st (\<lambda>c. fst c = tenant \<and> fst (snd c) = Some r)) \<and> (\<forall>e \<in> set (sa_entities st). 0 \<le> m e)"
  using reachable_inv [OF assms(1)] assms(2) by (auto simp: sched_inv_def conserved_def siblings_ok_def entity_bounds_def)

theorem scheduling_books_balance_witness:
  "level en_in_flight sample_hash sample_sched ''tenant'' ''t'' = flow_total en_in_flight sample_hash sample_sched (\<lambda>c. fst c = Some ''t'')"
  using scheduling_books_balance [OF sample_sched_reachable, of en_in_flight "''t''"] by simp

text \<open>A completion is accepted exactly when its own flow holds the permits and the reservation it returns:
  resource and tenant never refuse one the flow covers; an accepted completion takes the permits back
  and replaces the reservation by the measured service.\<close>

theorem completion_accepted_iff_covered:
  assumes "sched_reachable hash st" "call_ok t r f" "0 < n" "0 \<le> q" "0 \<le> s" "c = call_coord t r f"
  shows "\<exists>st'. record_completion hash t r f s n q st = ((if covered hash st c n q then Inr () else Inl RuntimeError), st') \<and>
    (covered hash st c n q \<longrightarrow>
      level en_in_flight hash st' ''flow'' (ckey c) = level en_in_flight hash st ''flow'' (ckey c) - n \<and>
      level en_load hash st' ''flow'' (ckey c) = level en_load hash st ''flow'' (ckey c) - q + s)"
  using completion_outcome [OF reachable_inv [OF assms(1)] assms(2-5)] assms(6) by blast

theorem completion_accepted_iff_covered_witness:
  "fst (record_completion sample_hash (Some ''t'') (Some ''r'') ''f'' 5 2 3 sample_sched) = Inr () \<and>
   fst (record_completion sample_hash (Some ''t'') (Some ''r'') ''f'' 5 3 3 sample_sched) = Inl RuntimeError"
  using completion_accepted_iff_covered [OF sample_sched_reachable sample_call_ok _ _ _ refl, of 2 3 5]
    completion_accepted_iff_covered [OF sample_sched_reachable sample_call_ok _ _ _ refl, of 3 3 5] sample_sched_levels
  by (auto simp: covered_def)



text \<open>A batch ranks like single candidates: the ordering keys of a batch, computed from shared snapshots, are
  the keys of its candidates one by one; and leaving out the levels that two candidates of the same
  tenant and resource share does not change which of them comes first.\<close>

theorem ordering_batch_exact:
  "ordering_keys F hash cs now st = (if is_ok (validated_now now) then res_map (\<lambda>c. ordering_key F hash c now st) cs else Inl ValueError) \<and>
   (\<forall>c d k l. ordering_key F hash c now st = Inr k \<longrightarrow> ordering_key F hash d now st = Inr l \<longrightarrow>
      ca_tenant_id c = ca_tenant_id d \<longrightarrow> ca_resource_id c = ca_resource_id d \<longrightarrow>
      (k < l \<longleftrightarrow> flow_relative_part k < flow_relative_part l) \<and>
      (candidate_flow c = candidate_flow d \<longrightarrow> (k < l \<longleftrightarrow> within_flow_part k < within_flow_part l)))"
  using ordering_keys_each [of F hash cs now st] flow_relative_order [of F hash _ now st] within_flow_order [of F hash _ now st]
  by (intro conjI allI impI) simp_all

theorem ordering_batch_exact_witness:
  "ordering_keys sample_floats sample_hash [sample_candidate, sample_candidate\<lparr>ca_ticket := 1\<rparr>] (Num 0) sample_sched =
   res_map (\<lambda>c. ordering_key sample_floats sample_hash c (Num 0) sample_sched) [sample_candidate, sample_candidate\<lparr>ca_ticket := 1\<rparr>]"
  using ordering_batch_exact [of sample_floats sample_hash "[sample_candidate, sample_candidate\<lparr>ca_ticket := 1\<rparr>]" "Num 0" sample_sched]
  by (simp add: validated_now_def)

text \<open>Selection serves the least-served tenant: the selected ticket belongs to a candidate with the least key,
  so no candidate whose deadline is neither at risk nor expired has a tenant that received less
  service than the tenant of a selected candidate of that kind, whatever priorities are declared.\<close>

theorem selection_serves_least_served:
  assumes "is_finite now" "Num 0 \<le> now" "cs \<noteq> []" "res_map (\<lambda>c. ordering_key F hash c now st) cs = Inr ks"
  shows "\<exists>c \<in> set cs. sched_select F hash cs now st = Inr (ca_ticket c) \<and>
    (\<exists>k. ordering_key F hash c now st = Inr k \<and> (\<forall>l \<in> set ks. k \<le> l)) \<and>
    (\<forall>d \<in> set cs. calm F now c \<longrightarrow> calm F now d \<longrightarrow>
       fst (snd (tenant_snapshot hash st (ca_tenant_id c))) \<le> fst (snd (tenant_snapshot hash st (ca_tenant_id d))))"
  by (rule selected_least_served [OF _ assms(4,3)]) (use assms(1,2) in \<open>simp add: validated_now_def\<close>)

theorem selection_serves_least_served_witness:
  "sched_select sample_floats sample_hash [sample_candidate] (Num 0) sample_sched = Inr (ca_ticket sample_candidate)"
  using selection_serves_least_served [of "Num 0" "[sample_candidate]" sample_floats sample_hash sample_sched,
      OF _ _ _ sample_keys] by auto

text \<open>C36. A cache that follows the change journal is never stale: when a reader asks for the changes since a
  revision it has seen and gets a list of flows, then after whatever calls happened in between, every
  validated candidate of another flow has the same flow-relative ordering key as before; and a reader
  that lets at most 4096 calls pass, none of them a resource release, always gets such a list, naming
  only flows of these calls.\<close>

theorem change_journal_sound:
  assumes "sched_reachable hash st" "st' = snd (run_calls (sched_do hash) calls st)"
  shows "fst (service_changes_since (Some (service_revision st)) st') = service_revision st' \<and>
    (\<forall>flows c0 c k l. snd (service_changes_since (Some (service_revision st)) st') = Some flows \<longrightarrow>
      candidate_post_init c0 = Inr c \<longrightarrow> candidate_flow c \<notin> set flows \<longrightarrow>
      ordering_key F hash c now st = Inr k \<longrightarrow> ordering_key F hash c now st' = Inr l \<longrightarrow> flow_relative_part l = flow_relative_part k) \<and>
    (length calls \<le> 4096 \<longrightarrow> None \<notin> set (concat (map call_flows calls)) \<longrightarrow>
      (\<exists>flows. snd (service_changes_since (Some (service_revision st)) st') = Some flows \<and>
        Some ` set flows \<subseteq> set (concat (map call_flows calls))))"
  by (intro conjI changes_since_sound [OF assms, THEN conjunct1] changes_since_sound [OF assms, THEN conjunct2] changes_since_complete [OF assms])

theorem change_journal_sound_witness:
  "\<exists>flows. snd (service_changes_since (Some (service_revision empty_sched)) sample_sched) = Some flows \<and> set flows \<subseteq> {''f''}"
proof -
  have "sched_reachable sample_hash empty_sched" unfolding sched_reachable_def by (rule exI [of _ "[]"]) simp
  from change_journal_sound [OF this sample_sched_def, of sample_floats "Num 0"]
  have "\<exists>flows. snd (service_changes_since (Some (service_revision empty_sched)) sample_sched) = Some flows \<and>
      Some ` set flows \<subseteq> {Some (py_strip ''f'')}"
    by (simp add: call_flows_def sample_calls_def)
  moreover have "py_strip ''f'' = ''f''" by (simp add: py_strip_def py_isspace_def)
  ultimately show ?thesis by auto
qed

section \<open>Retiring a journal\<close>

text \<open>C39. An interrupted purge recovers: after a journal was assessed with every authority closed, any number of
  processes may try the purge and crash before any of its file operations; none of them is refused,
  and an attempt that is not interrupted reports success, leaves neither the live nor the quarantined
  file, and the retired identity refuses every append.\<close>

theorem interrupted_purge_recovers:
  assumes "sha_ok L" "str_of_text pystr" "assess_gc L pystr m closures s = Inr gc" "gc_eligible closures = Inr True"
    and "js_retirements s m = None" "\<not> dj_retired (js_journal s) m" "gen_ok (js_generation s m)"
    and "\<forall>a \<in> set attempts. 0 \<le> snd a" "run_calls (gc_attempt L pystr gc) attempts s = (outcomes, s1)"
    and "6 \<le> n" "0 \<le> now" "gc_attempt L pystr gc (n, now) s1 = (outcome, s2)"
  shows "set outcomes \<subseteq> {Inr True, Inl ProcessStopped} \<and> outcome = Inr True \<and>
    dj_logs (js_journal s2) m = None \<and> js_quarantine s2 m = None \<and>
    (\<forall>c. com_machine_id c = m \<longrightarrow> dir_append L c (js_journal s2) = (Inl MachineConflict, js_journal s2))"
proof -
  from assess_gc_stage [OF assms(1,3-7)] obtain docs where gc: "gc_ok gc" "gc_machine_id gc = m" "gc_stage L gc docs s" by blast
  have run: "gc_stage L gc docs s1" "set outcomes \<subseteq> {Inr True, Inl ProcessStopped}"
    using gc_attempts [OF assms(2) gc(1,3) assms(8)] assms(9) by auto
  have "outcome = Inr True" "gc_purged L gc docs s2"
    using gc_attempt_progress(3) [OF assms(2) gc(1) _ run(1), of "(n, now)"] assms(10-12) by auto
  with run(2) gc(2) gc_purged_refuses [of L gc docs s2] show ?thesis by simp
qed

theorem interrupted_purge_recovers_witness:
  "fst (gc_attempt sample_lib sample_str sample_gc (6, 9)
     (snd (run_calls (gc_attempt sample_lib sample_str sample_gc) [(1, 5), (2, 6), (0, 7), (1, 8)] sample_store))) = Inr True"
proof -
  obtain rs s1 where run: "run_calls (gc_attempt sample_lib sample_str sample_gc) [(1, 5), (2, 6), (0, 7), (1, 8)] sample_store = (rs, s1)"
    by (cases "run_calls (gc_attempt sample_lib sample_str sample_gc) [(1, 5), (2, 6), (0, 7), (1, 8)] sample_store")
  obtain r s2 where last: "gc_attempt sample_lib sample_str sample_gc (6, 9) s1 = (r, s2)"
    by (cases "gc_attempt sample_lib sample_str sample_gc (6, 9) s1")
  have "r = Inr True"
    using interrupted_purge_recovers [OF _ sample_str_ok sample_assess sample_eligible sample_store_fresh(1-3) _ run _ _ last] by simp
  then show ?thesis using run last by simp
qed

text \<open>Nothing is deleted without proof: when a purge call makes the stored records of a machine disappear
  from both the live file and the quarantine, the assessment it was given names that machine, has
  closures of all three authorities without a retained reference, and binds exactly the size and
  digest of the deleted bytes.\<close>

theorem purge_deletes_only_proved:
  assumes "purge L pystr now m gc s = (r, s')" "carrier_of s m = Some docs" "carrier_of s' m = None"
  shows "gc_machine_id gc = m \<and> map clo_authority (gc_closures gc) = [CA_EVIDENCE, CA_EXECUTION, CA_RECOVERY] \<and>
    (\<forall>c \<in> set (gc_closures gc). clo_retained c = []) \<and>
    gc_size gc = int (length (log_bytes L docs)) \<and> gc_sha256 gc = sha256_hex L (log_bytes L docs)"
  using purge_deletes_proved [OF assms] gc_eligible_closed by blast

theorem purge_deletes_only_proved_witness:
  "gc_machine_id sample_gc = ''m'' \<and> gc_size sample_gc = int (length (log_bytes sample_lib [sample_doc])) \<and>
   (\<exists>s. carrier_of s ''m'' = Some [sample_doc] \<and>
     carrier_of (snd (purge sample_lib sample_str 5 ''m'' sample_gc s)) ''m'' = None)"
proof -
  let ?s = "sample_store\<lparr>js_budget := 6, js_journal := reopen (js_journal sample_store)\<rparr>"
  obtain r s' where p: "purge sample_lib sample_str 5 ''m'' sample_gc ?s = (r, s')"
    by (cases "purge sample_lib sample_str 5 ''m'' sample_gc ?s")
  have before: "carrier_of ?s ''m'' = Some [sample_doc]" using sample_store_fresh(4) by (simp add: carrier_of_def reopen_def cong: option.case_cong)
  have after: "carrier_of s' ''m'' = None"
    using sample_purged [of 6 5] p by (simp add: gc_attempt_def sample_gc_def [THEN arg_cong, of gc_machine_id])
  from purge_deletes_only_proved [OF p before after] have "gc_machine_id sample_gc = ''m'' \<and>
      gc_size sample_gc = int (length (log_bytes sample_lib [sample_doc]))" by blast
  moreover have "carrier_of (snd (purge sample_lib sample_str 5 ''m'' sample_gc ?s)) ''m'' = None" using p after by simp
  ultimately show ?thesis using before by blast
qed

section \<open>The service window\<close>

text \<open>C40. The service window stays within its bounds: over any sequence of pressure, saturation and completion
  reports the limit lies between the minimum and the maximum, and the retained history, the last 256
  changes, leads without a gap to the current limit.\<close>

theorem service_window_bounded:
  assumes "floats_ok F" "0 < pol_min_limit policy" "max_limit \<le> 2 ^ 53" "window_init F max_limit policy initial = Inr w0"
    and "list_all window_call_ok calls" "w = snd (run_calls (window_observe F) calls w0)"
  shows "1 \<le> win_min w \<and> win_min w \<le> win_limit w \<and> win_limit w \<le> max_limit \<and>
    length (win_history w) = min 256 (nat (win_sequence w)) \<and> explains (rev (win_history w)) (win_sequence w) (win_limit w)"
proof -
  have w0: "window_ok w0" "win_max w0 = max_limit" using window_init_ok [OF assms(4,2)] by simp_all
  then have "window_ok w \<and> win_max w = max_limit" using window_calls_keep [OF assms(1) w0(1) _ assms(5)] assms(3,6) by simp
  then show ?thesis by (simp add: window_ok_def)
qed

theorem service_window_bounded_witness:
  "win_limit (snd (run_calls (window_observe exact_floats) [Completion None True 0, Completion None True 1, Pressure ''p'' None 2] sample_window)) \<le> 4"
  using service_window_bounded [OF exact_floats_ok _ _ sample_window_init,
      of "[Completion None True 0, Completion None True 1, Pressure ''p'' None 2]"]
  by (simp add: sample_policy_def measurable_def)

text \<open>The service window recovers its capacity: from any window reached by such reports, enough clean
  completions under demand and without further measurements bring the limit to the maximum, where it
  stays.\<close>

theorem service_window_grows:
  assumes "floats_ok F" "0 < pol_min_limit policy" "max_limit \<le> 2 ^ 53" "window_init F max_limit policy initial = Inr w0"
    and "list_all window_call_ok calls" "w = snd (run_calls (window_observe F) calls w0)"
  shows "\<exists>n. \<forall>k \<ge> n. win_limit ((clean_step F now ^^ k) w) = max_limit"
proof -
  have w0: "window_ok w0" "win_max w0 = max_limit" using window_init_ok [OF assms(4,2)] by simp_all
  then have "window_ok w \<and> win_max w = max_limit" using window_calls_keep [OF assms(1) w0(1) _ assms(5)] assms(3,6) by simp
  then show ?thesis using clean_steps_grow [OF assms(1), of w now] assms(3) by simp
qed

theorem service_window_grows_witness:
  "\<exists>n. win_limit ((clean_step exact_floats 0 ^^ n) (snd (run_calls (window_observe exact_floats) [Pressure ''p'' None 2] sample_window))) = 4"
  using service_window_grows [OF exact_floats_ok _ _ sample_window_init, of "[Pressure ''p'' None 2]" _ 0]
  by (simp add: sample_policy_def) blast

end
